(* ===== verification/Prelude.thy ===== *)
theory Prelude
  imports Main "HOL-Library.Word" "HOL-Library.Monad_Syntax"
begin

text \<open>
  Shared vocabulary of the development: the machine integers of the C sources, byte buffers with
  checked accesses, and the generic lemmas that the component theories use.

  Platform: LP64 (\<open>size_t\<close> and pointers have 64 bits, \<open>int\<close> has 32), as on the
  Linux hosts the library is built for.

  Memory: a C object that a function receives through a pointer is a list of bytes (or a record);
  a pointer that may be NULL is an \<open>option\<close> of it. A computation that would perform an
  invalid access (a read or write outside the object, a NULL dereference, the use of an
  indeterminate value) is the value \<open>None\<close> of an \<open>option\<close>; every result the code
  does compute, error codes included, is under \<open>Some\<close>. So \<open>f x = Some r\<close> says that
  the call is memory safe and returns \<open>r\<close>, and dereferencing a pointer \<open>p\<close> that may
  be NULL is simply the monadic bind on \<open>p\<close>.
\<close>

unbundle bit_operations_syntax

section \<open>Types\<close>

type_synonym u8 = "8 word"
type_synonym u16 = "16 word"
type_synonym u32 = "32 word"
type_synonym u64 = "64 word"

text \<open>A block of memory, byte by byte.\<close>

type_synonym buf = "u8 list"

text \<open>The address of a function, and what a caller passes to it as its data.\<close>

type_synonym func = nat
type_synonym user = nat

named_theorems mem_simps \<open>evaluation of checked memory accesses\<close>
named_theorems frame_simps \<open>the bytes an encoder leaves in its buffer\<close>

section \<open>Constants of the platform\<close>

text \<open>Error numbers of Linux, conditions of GLib channels, and the Bluetooth address families that several parts use.\<close>

definition EINVAL :: int where "EINVAL = 22"
definition EIO :: int where "EIO = 5"
definition ENOENT :: int where "ENOENT = 2"
definition ENOMEM :: int where "ENOMEM = 12"
definition EALREADY :: int where "EALREADY = 114"
definition EOVERFLOW :: int where "EOVERFLOW = 75"
definition ENOTCONN :: int where "ENOTCONN = 107"
definition AF_BLUETOOTH :: int where "AF_BLUETOOTH = 31"
definition BTPROTO_L2CAP :: int where "BTPROTO_L2CAP = 0"
definition BDADDR_BREDR :: u8 where "BDADDR_BREDR = 0"
definition ENOBUFS :: int where "ENOBUFS = 105"
definition G_IO_IN :: u32 where "G_IO_IN = 1"
definition G_IO_PRI :: u32 where "G_IO_PRI = 2"
definition G_IO_OUT :: u32 where "G_IO_OUT = 4"
definition G_IO_ERR :: u32 where "G_IO_ERR = 8"
definition G_IO_HUP :: u32 where "G_IO_HUP = 16"
definition G_IO_NVAL :: u32 where "G_IO_NVAL = 32"

section \<open>Checked memory accesses\<close>

definition rd8 :: "buf \<Rightarrow> nat \<Rightarrow> u8 option" where
  "rd8 b i = (if i < length b then Some (b ! i) else None)"

definition wr8 :: "buf \<Rightarrow> nat \<Rightarrow> u8 \<Rightarrow> buf option" where
  "wr8 b i v = (if i < length b then Some (b[i := v]) else None)"

definition rd_bytes :: "buf \<Rightarrow> nat \<Rightarrow> nat \<Rightarrow> u8 list option" where
  "rd_bytes b i n = (if i + n \<le> length b then Some (take n (drop i b)) else None)"

definition wr_bytes :: "buf \<Rightarrow> nat \<Rightarrow> u8 list \<Rightarrow> buf option" where
  "wr_bytes b i vs =
     (if i + length vs \<le> length b then Some (take i b @ vs @ drop (i + length vs) b) else None)"

text \<open>\<open>memcpy(&dst[i], &src[j], n)\<close> between two distinct objects.\<close>

definition memcpy :: "buf \<Rightarrow> nat \<Rightarrow> buf \<Rightarrow> nat \<Rightarrow> nat \<Rightarrow> buf option" where
  "memcpy dst i src j n = do { vs \<leftarrow> rd_bytes src j n; wr_bytes dst i vs }"

text \<open>\<open>memset(&dst[i], v, n)\<close>.\<close>

definition memset :: "buf \<Rightarrow> nat \<Rightarrow> u8 \<Rightarrow> nat \<Rightarrow> buf option" where
  "memset dst i v n = wr_bytes dst i (replicate n v)"

subsection \<open>When an access is valid\<close>

lemma rd8_Some [mem_simps]: "i < length b \<Longrightarrow> rd8 b i = Some (b ! i)"
  by (simp add: rd8_def)

lemma rd8_None_iff: "rd8 b i = None \<longleftrightarrow> length b \<le> i"
  by (simp add: rd8_def)

lemma wr8_eq_wr_bytes: "wr8 b i v = wr_bytes b i [v]"
  by (simp add: wr8_def wr_bytes_def upd_conv_take_nth_drop)

lemma wr8_None_iff: "wr8 b i v = None \<longleftrightarrow> length b \<le> i"
  by (simp add: wr8_def)

lemma rd_bytes_Some [mem_simps]: "i + n \<le> length b \<Longrightarrow> rd_bytes b i n = Some (take n (drop i b))"
  by (simp add: rd_bytes_def)

lemma rd_bytes_None_iff: "rd_bytes b i n = None \<longleftrightarrow> length b < i + n"
  by (auto simp add: rd_bytes_def)

lemma rd_bytes_length: "rd_bytes b i n = Some vs \<Longrightarrow> length vs = n"
  by (auto simp add: rd_bytes_def split: if_splits)

lemma wr_bytes_None_iff: "wr_bytes b i vs = None \<longleftrightarrow> length b < i + length vs"
  by (auto simp add: wr_bytes_def)

lemma wr_bytes_length: "wr_bytes b i vs = Some b' \<Longrightarrow> length b' = length b"
  by (auto simp add: wr_bytes_def split: if_splits)

lemma wr8_length: "wr8 b i v = Some b' \<Longrightarrow> length b' = length b"
  by (auto simp add: wr8_def split: if_splits)

lemma memcpy_length: "memcpy d i s j n = Some d' \<Longrightarrow> length d' = length d"
  by (auto simp add: memcpy_def bind_eq_Some_conv dest: wr_bytes_length)

lemma memcpy_Some_iff:
  "(\<exists>d'. memcpy d i s j n = Some d') \<longleftrightarrow> j + n \<le> length s \<and> i + n \<le> length d"
  by (auto simp add: memcpy_def rd_bytes_def wr_bytes_def)

lemma memcpy_eq [mem_simps]:
  "j + n \<le> length s \<Longrightarrow> memcpy d i s j n = wr_bytes d i (take n (drop j s))"
  by (simp add: memcpy_def rd_bytes_def)

section \<open>Sequential writes\<close>

text \<open>
  The encoders fill a buffer from its first byte on. After the bytes \<open>bs\<close> have been written
  into \<open>b\<close> the buffer is \<open>filled bs b\<close>; a write of \<open>cs\<close> right behind them
  gives \<open>filled (bs @ cs) b\<close>.
\<close>

definition filled :: "u8 list \<Rightarrow> buf \<Rightarrow> buf" where
  "filled bs b = bs @ drop (length bs) b"

lemma filled_Nil: "filled [] b = b"
  by (simp add: filled_def)

lemma length_filled [simp]: "length bs \<le> length b \<Longrightarrow> length (filled bs b) = length b"
  by (simp add: filled_def)

lemma take_filled [simp]: "n \<le> length bs \<Longrightarrow> take n (filled bs b) = take n bs"
  by (simp add: filled_def)

lemma take_filled_all: "take (length bs) (filled bs b) = bs"
  by simp

lemma nth_filled: "i < length bs \<Longrightarrow> filled bs b ! i = bs ! i"
  by (simp add: filled_def nth_append)

lemma drop_filled: "n \<ge> length bs \<Longrightarrow> drop n (filled bs b) = drop n b"
  by (simp add: filled_def)

lemma wr_bytes_filled [frame_simps]:
  "k = length bs \<Longrightarrow> k + length cs \<le> length b \<Longrightarrow>
   wr_bytes (filled bs b) k cs = Some (filled (bs @ cs) b)"
  by (simp add: wr_bytes_def filled_def add.commute)

lemma wr8_filled [frame_simps]:
  "k = length bs \<Longrightarrow> k < length b \<Longrightarrow> wr8 (filled bs b) k v = Some (filled (bs @ [v]) b)"
  by (simp add: wr8_eq_wr_bytes wr_bytes_filled)

lemma wr8_first [frame_simps]: "1 \<le> length b \<Longrightarrow> wr8 b 0 v = Some (filled [v] b)"
  using wr8_filled [of 0 "[]" b v] by (simp add: filled_Nil Suc_le_eq)

lemma wr_bytes_first [frame_simps]: "length cs \<le> length b \<Longrightarrow> wr_bytes b 0 cs = Some (filled cs b)"
  using wr_bytes_filled [of 0 "[]" cs b] by (simp add: filled_Nil)

lemma memcpy_filled [frame_simps]:
  "k = length bs \<Longrightarrow> j + n \<le> length v \<Longrightarrow> k + n \<le> length b \<Longrightarrow>
   memcpy (filled bs b) k v j n = Some (filled (bs @ take n (drop j v)) b)"
  by (simp add: memcpy_eq wr_bytes_filled)

lemma memcpy_first [frame_simps]:
  "j + n \<le> length v \<Longrightarrow> n \<le> length b \<Longrightarrow> memcpy b 0 v j n = Some (filled (take n (drop j v)) b)"
  by (simp add: memcpy_eq wr_bytes_first)

lemma memset_filled [frame_simps]:
  "k = length bs \<Longrightarrow> k + n \<le> length b \<Longrightarrow>
   memset (filled bs b) k v n = Some (filled (bs @ replicate n v) b)"
  by (simp add: memset_def wr_bytes_filled)

lemma filled_full: "length bs = length b \<Longrightarrow> filled bs b = bs"
  by (simp add: filled_def)

lemma wr_bytes_whole: "length cs = length b \<Longrightarrow> wr_bytes b 0 cs = Some cs"
  by (simp add: wr_bytes_def)

section \<open>Words\<close>

lemma unat_u8_le: "unat (x :: u8) \<le> 255"
  by (rule less_Suc_eq_le [THEN iffD1]) (rule less_le_trans [OF unsigned_less], simp)

lemma unat_u16_le: "unat (x :: u16) \<le> 65535"
  by (rule less_Suc_eq_le [THEN iffD1]) (rule less_le_trans [OF unsigned_less], simp)

lemma unat_of_nat_u16: "n < 65536 \<Longrightarrow> unat (of_nat n :: u16) = n"
  by (simp add: unat_of_nat take_bit_nat_eq_self)

lemma unat_of_nat_u64: "n < 18446744073709551616 \<Longrightarrow> unat (of_nat n :: u64) = n"
  by (simp add: unat_of_nat take_bit_nat_eq_self)

lemma unat_of_nat_u32: "n < 4294967296 \<Longrightarrow> unat (of_nat n :: u32) = n"
  by (simp add: unat_of_nat take_bit_nat_eq_self)

lemma unat_of_nat_u8: "n < 256 \<Longrightarrow> unat (of_nat n :: u8) = n"
  by (simp add: unat_of_nat take_bit_nat_eq_self)

text \<open>Truncation of a \<open>size_t\<close> to the \<open>uint16_t\<close> an encoder returns.\<close>

lemma ucast_u64_u16: "(ucast (w :: u64) :: u16) = of_nat (unat w)"
  by (simp add: unsigned_def)

lemma unat_take_bit_wider:
  "LENGTH('a) \<le> n \<Longrightarrow> take_bit n (unat (w :: 'a::len word)) = unat w"
  by (rule take_bit_nat_eq_self) (rule less_le_trans [OF unsigned_less], simp)

lemma unat_ucast_u16_u64: "unat (ucast (w :: u16) :: u64) = unat w"
  by (simp add: unsigned_ucast_eq unat_take_bit_wider)

lemma unat_ucast_u8_u16: "unat (ucast (w :: u8) :: u16) = unat w"
  by (simp add: unsigned_ucast_eq unat_take_bit_wider)

lemma unat_ucast_u8_u64: "unat (ucast (w :: u8) :: u64) = unat w"
  by (simp add: unsigned_ucast_eq unat_take_bit_wider)

lemma unat_sub_u64: "b \<le> a \<Longrightarrow> unat (a - b :: u64) = unat a - unat b"
  by (rule unat_sub)

lemma unat_add_u64: "unat a + unat b < 18446744073709551616 \<Longrightarrow> unat (a + b :: u64) = unat a + unat b"
  by (simp add: unat_word_ariths)

section \<open>Lists\<close>

lemma nth_drop_hd: "i < length xs \<Longrightarrow> drop i xs = xs ! i # drop (Suc i) xs"
  by (rule Cons_nth_drop_Suc [symmetric])

lemma take_Suc_snoc: "n < length xs \<Longrightarrow> take (Suc n) xs = take n xs @ [xs ! n]"
  by (rule take_Suc_conv_app_nth)

text \<open>Splitting a list into consecutive chunks of a fixed positive width.\<close>

fun chunks :: "nat \<Rightarrow> nat \<Rightarrow> 'a list \<Rightarrow> 'a list list" where
  "chunks w 0 xs = []"
| "chunks w (Suc n) xs = take w xs # chunks w n (drop w xs)"

lemma length_chunks [simp]: "length (chunks w n xs) = n"
  by (induction n arbitrary: xs) auto

lemma chunks_length: "w * n \<le> length xs \<Longrightarrow> c \<in> set (chunks w n xs) \<Longrightarrow> length c = w"
proof (induction n arbitrary: xs)
  case (Suc n)
  from Suc.prems(1) have "w * n \<le> length (drop w xs)" by simp
  with Suc.IH [of "drop w xs"] Suc.prems show ?case by auto
qed simp

lemma chunks_concat: "\<forall>c \<in> set cs. length c = w \<Longrightarrow> chunks w (length cs) (concat cs @ ys) = cs"
  by (induction cs) auto

lemma concat_chunks: "length xs = w * n \<Longrightarrow> concat (chunks w n xs) = xs"
  by (induction n arbitrary: xs) auto

lemma nth_chunks: "i < n \<Longrightarrow> chunks w n xs ! i = take w (drop (w * i) xs)"
proof (induction n arbitrary: xs i)
  case (Suc n)
  then show ?case
    by (cases i) (auto simp add: add.commute)
qed simp

lemma length_concat_const: "\<forall>c \<in> set cs. length c = w \<Longrightarrow> length (concat cs) = w * length cs"
  by (induction cs) auto

end
