(* ===== verification/Bytes.thy ===== *)
theory Bytes
  imports Prelude
begin

text \<open>
  The byte order helpers of \<^verbatim>\<open>bluez/src/shared/util.h\<close>: the \<open>get_le16\<close> ... \<open>put_be64\<close>
  family, which reads and writes integers in unaligned memory with a fixed byte order on a host of
  either byte order. The definitions with the suffix \<open>_on\<close> follow the macros literally and take
  the byte order of the host; the unsuffixed ones are their common meaning, which the rest of the
  development uses, and the lemmas \<open>get_le16_on_eq\<close> ... show that the host does not matter.
\<close>

section \<open>Integers as byte sequences\<close>

text \<open>Little-endian value of a byte sequence, and the \<open>n\<close> low bytes of a word.\<close>

definition word_of_le :: "u8 list \<Rightarrow> 'a::len word" where
  "word_of_le bs = foldr (\<lambda>b acc. push_bit 8 acc OR ucast b) bs 0"

definition le_of_word :: "nat \<Rightarrow> 'a::len word \<Rightarrow> u8 list" where
  "le_of_word n w = map (\<lambda>i. ucast (drop_bit (8 * i) w)) [0..<n]"

lemma word_of_le_Nil [simp]: "word_of_le [] = 0"
  by (simp add: word_of_le_def)

lemma word_of_le_Cons: "word_of_le (b # bs) = push_bit 8 (word_of_le bs) OR ucast b"
  by (simp add: word_of_le_def)

lemma length_le_of_word [simp]: "length (le_of_word n w) = n"
  by (simp add: le_of_word_def)

lemma bit_word_of_le:
  "bit (word_of_le bs :: 'a::len word) k \<longleftrightarrow>
   k < LENGTH('a) \<and> k < 8 * length bs \<and> bit (bs ! (k div 8)) (k mod 8)"
proof (induction bs arbitrary: k)
  case (Cons b bs)
  show ?case
  proof (cases "k < 8")
    case True
    then show ?thesis
      by (auto simp add: word_of_le_Cons bit_or_iff bit_push_bit_iff bit_ucast_iff)
  next
    case False
    then obtain j where "k = j + 8"
      by (metis add.commute le_Suc_ex not_less)
    moreover have "\<not> bit b (j + 8)"
      by (auto dest: bit_imp_le_length)
    moreover have "(j + 8) div 8 = Suc (j div 8)"
      by simp
    ultimately show ?thesis
      by (auto simp add: word_of_le_Cons bit_or_iff bit_push_bit_iff bit_ucast_iff Cons.IH)
  qed
qed simp

lemma word_of_le_of_word:
  assumes "LENGTH('a) = 8 * n"
  shows "word_of_le (le_of_word n (w :: 'a::len word)) = w"
proof (rule bit_word_eqI)
  fix k assume k: "k < LENGTH('a)"
  then have "k div 8 < n" using assms by auto
  then have "bit (le_of_word n w ! (k div 8)) (k mod 8) \<longleftrightarrow> bit w (8 * (k div 8) + k mod 8)"
    by (simp add: le_of_word_def bit_ucast_iff bit_drop_bit_eq)
  then show "bit (word_of_le (le_of_word n w) :: 'a word) k \<longleftrightarrow> bit w k"
    using k assms by (simp add: bit_word_of_le)
qed

lemma le_of_word_of_le:
  assumes "8 * length bs \<le> LENGTH('a)"
  shows "le_of_word (length bs) (word_of_le bs :: 'a::len word) = bs"
proof (rule nth_equalityI)
  fix i assume "i < length (le_of_word (length bs) (word_of_le bs :: 'a word))"
  then have i: "i < length bs" by simp
  show "le_of_word (length bs) (word_of_le bs :: 'a word) ! i = bs ! i"
  proof (rule bit_word_eqI)
    fix k assume k: "k < LENGTH(8)"
    then have "8 * i + k < 8 * length bs" using i by auto
    moreover have "(8 * i + k) div 8 = i" "(8 * i + k) mod 8 = k"
      using k by auto
    ultimately show "bit (le_of_word (length bs) (word_of_le bs :: 'a word) ! i) k \<longleftrightarrow> bit (bs ! i) k"
      using i k assms
      by (simp add: le_of_word_def bit_ucast_iff bit_drop_bit_eq bit_word_of_le)
  qed
qed simp

text \<open>\<open>bswap_16\<close>, \<open>bswap_32\<close> and \<open>bswap_64\<close> of \<^verbatim>\<open>byteswap.h\<close>, by the number of bytes.\<close>

definition bswap :: "nat \<Rightarrow> 'a::len word \<Rightarrow> 'a word" where
  "bswap n w = word_of_le (rev (le_of_word n w))"

lemma bswap_word_of_le:
  "LENGTH('a) = 8 * length bs \<Longrightarrow>
   bswap (length bs) (word_of_le bs :: 'a::len word) = word_of_le (rev bs)"
  by (simp add: bswap_def le_of_word_of_le)

lemma le_of_word_bswap:
  "LENGTH('a) = 8 * n \<Longrightarrow> le_of_word n (bswap n (w :: 'a::len word)) = rev (le_of_word n w)"
  using le_of_word_of_le [of "rev (le_of_word n w)", where ?'a = 'a] by (simp add: bswap_def)

lemma bswap_bswap:
  "LENGTH('a) = 8 * n \<Longrightarrow> bswap n (bswap n (w :: 'a::len word)) = w"
  by (simp add: bswap_def [of n "bswap n w"] le_of_word_bswap word_of_le_of_word)

section \<open>The host's byte order\<close>

datatype endian = LITTLE_ENDIAN | BIG_ENDIAN

text \<open>An unaligned load and store of an integer of \<open>n\<close> bytes on the host.\<close>

definition get_unaligned :: "endian \<Rightarrow> nat \<Rightarrow> buf \<Rightarrow> nat \<Rightarrow> 'a::len word option" where
  "get_unaligned h n b i = do {
     bs \<leftarrow> rd_bytes b i n;
     Some (word_of_le (case h of LITTLE_ENDIAN \<Rightarrow> bs | BIG_ENDIAN \<Rightarrow> rev bs)) }"

definition put_unaligned :: "endian \<Rightarrow> nat \<Rightarrow> 'a::len word \<Rightarrow> buf \<Rightarrow> nat \<Rightarrow> buf option" where
  "put_unaligned h n v b i =
     wr_bytes b i (case h of LITTLE_ENDIAN \<Rightarrow> le_of_word n v | BIG_ENDIAN \<Rightarrow> rev (le_of_word n v))"

definition le_to_cpu :: "endian \<Rightarrow> nat \<Rightarrow> 'a::len word \<Rightarrow> 'a word" where
  "le_to_cpu h n v = (case h of LITTLE_ENDIAN \<Rightarrow> v | BIG_ENDIAN \<Rightarrow> bswap n v)"

definition be_to_cpu :: "endian \<Rightarrow> nat \<Rightarrow> 'a::len word \<Rightarrow> 'a word" where
  "be_to_cpu h n v = (case h of LITTLE_ENDIAN \<Rightarrow> bswap n v | BIG_ENDIAN \<Rightarrow> v)"

definition cpu_to_le :: "endian \<Rightarrow> nat \<Rightarrow> 'a::len word \<Rightarrow> 'a word" where
  "cpu_to_le h n v = (case h of LITTLE_ENDIAN \<Rightarrow> v | BIG_ENDIAN \<Rightarrow> bswap n v)"

definition cpu_to_be :: "endian \<Rightarrow> nat \<Rightarrow> 'a::len word \<Rightarrow> 'a word" where
  "cpu_to_be h n v = (case h of LITTLE_ENDIAN \<Rightarrow> bswap n v | BIG_ENDIAN \<Rightarrow> v)"

definition get_le16_on :: "endian \<Rightarrow> buf \<Rightarrow> nat \<Rightarrow> u16 option" where
  "get_le16_on h b i = map_option (le_to_cpu h 2) (get_unaligned h 2 b i)"
definition get_be16_on :: "endian \<Rightarrow> buf \<Rightarrow> nat \<Rightarrow> u16 option" where
  "get_be16_on h b i = map_option (be_to_cpu h 2) (get_unaligned h 2 b i)"
definition get_le32_on :: "endian \<Rightarrow> buf \<Rightarrow> nat \<Rightarrow> u32 option" where
  "get_le32_on h b i = map_option (le_to_cpu h 4) (get_unaligned h 4 b i)"
definition get_be32_on :: "endian \<Rightarrow> buf \<Rightarrow> nat \<Rightarrow> u32 option" where
  "get_be32_on h b i = map_option (be_to_cpu h 4) (get_unaligned h 4 b i)"
definition get_le64_on :: "endian \<Rightarrow> buf \<Rightarrow> nat \<Rightarrow> u64 option" where
  "get_le64_on h b i = map_option (le_to_cpu h 8) (get_unaligned h 8 b i)"
definition get_be64_on :: "endian \<Rightarrow> buf \<Rightarrow> nat \<Rightarrow> u64 option" where
  "get_be64_on h b i = map_option (be_to_cpu h 8) (get_unaligned h 8 b i)"

definition put_le16_on :: "endian \<Rightarrow> u16 \<Rightarrow> buf \<Rightarrow> nat \<Rightarrow> buf option" where
  "put_le16_on h v b i = put_unaligned h 2 (cpu_to_le h 2 v) b i"
definition put_be16_on :: "endian \<Rightarrow> u16 \<Rightarrow> buf \<Rightarrow> nat \<Rightarrow> buf option" where
  "put_be16_on h v b i = put_unaligned h 2 (cpu_to_be h 2 v) b i"
definition put_le32_on :: "endian \<Rightarrow> u32 \<Rightarrow> buf \<Rightarrow> nat \<Rightarrow> buf option" where
  "put_le32_on h v b i = put_unaligned h 4 (cpu_to_le h 4 v) b i"
definition put_be32_on :: "endian \<Rightarrow> u32 \<Rightarrow> buf \<Rightarrow> nat \<Rightarrow> buf option" where
  "put_be32_on h v b i = put_unaligned h 4 (cpu_to_be h 4 v) b i"
definition put_le64_on :: "endian \<Rightarrow> u64 \<Rightarrow> buf \<Rightarrow> nat \<Rightarrow> buf option" where
  "put_le64_on h v b i = put_unaligned h 8 (cpu_to_le h 8 v) b i"
definition put_be64_on :: "endian \<Rightarrow> u64 \<Rightarrow> buf \<Rightarrow> nat \<Rightarrow> buf option" where
  "put_be64_on h v b i = put_unaligned h 8 (cpu_to_be h 8 v) b i"

definition get_u8 :: "buf \<Rightarrow> nat \<Rightarrow> u8 option" where
  "get_u8 b i = rd8 b i"

definition get_s8 :: "buf \<Rightarrow> nat \<Rightarrow> int option" where
  "get_s8 b i = map_option sint (rd8 b i)"

section \<open>Their meaning, for any host\<close>

definition get_le16 :: "buf \<Rightarrow> nat \<Rightarrow> u16 option" where
  "get_le16 b i = map_option word_of_le (rd_bytes b i 2)"
definition get_le32 :: "buf \<Rightarrow> nat \<Rightarrow> u32 option" where
  "get_le32 b i = map_option word_of_le (rd_bytes b i 4)"
definition get_le64 :: "buf \<Rightarrow> nat \<Rightarrow> u64 option" where
  "get_le64 b i = map_option word_of_le (rd_bytes b i 8)"
definition get_be16 :: "buf \<Rightarrow> nat \<Rightarrow> u16 option" where
  "get_be16 b i = map_option (\<lambda>bs. word_of_le (rev bs)) (rd_bytes b i 2)"
definition get_be32 :: "buf \<Rightarrow> nat \<Rightarrow> u32 option" where
  "get_be32 b i = map_option (\<lambda>bs. word_of_le (rev bs)) (rd_bytes b i 4)"
definition get_be64 :: "buf \<Rightarrow> nat \<Rightarrow> u64 option" where
  "get_be64 b i = map_option (\<lambda>bs. word_of_le (rev bs)) (rd_bytes b i 8)"

definition put_le16 :: "u16 \<Rightarrow> buf \<Rightarrow> nat \<Rightarrow> buf option" where
  "put_le16 v b i = wr_bytes b i (le_of_word 2 v)"
definition put_le32 :: "u32 \<Rightarrow> buf \<Rightarrow> nat \<Rightarrow> buf option" where
  "put_le32 v b i = wr_bytes b i (le_of_word 4 v)"
definition put_le64 :: "u64 \<Rightarrow> buf \<Rightarrow> nat \<Rightarrow> buf option" where
  "put_le64 v b i = wr_bytes b i (le_of_word 8 v)"
definition put_be16 :: "u16 \<Rightarrow> buf \<Rightarrow> nat \<Rightarrow> buf option" where
  "put_be16 v b i = wr_bytes b i (rev (le_of_word 2 v))"
definition put_be32 :: "u32 \<Rightarrow> buf \<Rightarrow> nat \<Rightarrow> buf option" where
  "put_be32 v b i = wr_bytes b i (rev (le_of_word 4 v))"
definition put_be64 :: "u64 \<Rightarrow> buf \<Rightarrow> nat \<Rightarrow> buf option" where
  "put_be64 v b i = wr_bytes b i (rev (le_of_word 8 v))"

text \<open>Reading: the conversion macro undoes the host's own byte order.\<close>

lemma get_le_on_eq:
  assumes "LENGTH('a) = 8 * n"
  shows "map_option (le_to_cpu h n) (get_unaligned h n b i :: 'a::len word option) =
         map_option word_of_le (rd_bytes b i n)"
proof (cases "rd_bytes b i n")
  case (Some bs)
  then have "length bs = n" by (rule rd_bytes_length)
  with Some assms show ?thesis
    using bswap_word_of_le [of "rev bs", where ?'a = 'a]
    by (cases h) (simp_all add: get_unaligned_def le_to_cpu_def)
qed (simp add: get_unaligned_def)

lemma get_be_on_eq:
  assumes "LENGTH('a) = 8 * n"
  shows "map_option (be_to_cpu h n) (get_unaligned h n b i :: 'a::len word option) =
         map_option (\<lambda>bs. word_of_le (rev bs)) (rd_bytes b i n)"
proof (cases "rd_bytes b i n")
  case (Some bs)
  then have "length bs = n" by (rule rd_bytes_length)
  with Some assms show ?thesis
    using bswap_word_of_le [of bs, where ?'a = 'a]
    by (cases h) (simp_all add: get_unaligned_def be_to_cpu_def)
qed (simp add: get_unaligned_def)

lemma put_le_on_eq:
  "LENGTH('a) = 8 * n \<Longrightarrow>
   put_unaligned h n (cpu_to_le h n (v :: 'a::len word)) b i = wr_bytes b i (le_of_word n v)"
  by (cases h) (simp_all add: put_unaligned_def cpu_to_le_def le_of_word_bswap)

lemma put_be_on_eq:
  "LENGTH('a) = 8 * n \<Longrightarrow>
   put_unaligned h n (cpu_to_be h n (v :: 'a::len word)) b i = wr_bytes b i (rev (le_of_word n v))"
  by (cases h) (simp_all add: put_unaligned_def cpu_to_be_def le_of_word_bswap)

lemma get_on_eq:
  "get_le16_on h = get_le16" "get_le32_on h = get_le32" "get_le64_on h = get_le64"
  "get_be16_on h = get_be16" "get_be32_on h = get_be32" "get_be64_on h = get_be64"
  by (intro ext, simp add: get_le16_on_def get_le16_def get_le32_on_def get_le32_def
      get_le64_on_def get_le64_def get_be16_on_def get_be16_def get_be32_on_def get_be32_def
      get_be64_on_def get_be64_def get_le_on_eq get_be_on_eq)+

lemma put_on_eq:
  "put_le16_on h = put_le16" "put_le32_on h = put_le32" "put_le64_on h = put_le64"
  "put_be16_on h = put_be16" "put_be32_on h = put_be32" "put_be64_on h = put_be64"
  by (intro ext, simp add: put_le16_on_def put_le16_def put_le32_on_def put_le32_def
      put_le64_on_def put_le64_def put_be16_on_def put_be16_def put_be32_on_def put_be32_def
      put_be64_on_def put_be64_def put_le_on_eq put_be_on_eq)+

section \<open>Reading what was written\<close>

lemma le16_bytes: "le_of_word 2 (v :: 'a::len word) = [ucast v, ucast (drop_bit 8 v)]"
  by (simp add: le_of_word_def numeral_2_eq_2)

lemma le32_bytes:
  "le_of_word 4 (w :: 'a::len word) = [ucast w, ucast (drop_bit 8 w), ucast (drop_bit 16 w), ucast (drop_bit 24 w)]"
  by (simp add: le_of_word_def upt_rec)

lemma rd_bytes_wr_bytes:
  "wr_bytes b i vs = Some b' \<Longrightarrow> rd_bytes b' i (length vs) = Some vs"
  by (auto simp add: wr_bytes_def rd_bytes_def split: if_splits)

text \<open>A field at a known offset of a frame.\<close>

lemma rd_bytes_mid [frame_simps]:
  "i = length pre \<Longrightarrow> n = length mid \<Longrightarrow> rd_bytes (pre @ mid @ post) i n = Some mid"
  by (simp add: rd_bytes_def)

lemma get_le16_mid:
  "i = length pre \<Longrightarrow> get_le16 (pre @ le_of_word 2 v @ post) i = Some v"
  using rd_bytes_mid [of i pre 2 "le_of_word 2 v" post]
  by (simp add: get_le16_def word_of_le_of_word)

lemma get_le32_mid:
  "i = length pre \<Longrightarrow> get_le32 (pre @ le_of_word 4 v @ post) i = Some v"
  using rd_bytes_mid [of i pre 4 "le_of_word 4 v" post]
  by (simp add: get_le32_def word_of_le_of_word)

lemma get_le16_bytes:
  "i + 2 \<le> length b \<Longrightarrow> get_le16 b i = Some (word_of_le [b ! i, b ! (i + 1)])"
  by (simp add: get_le16_def rd_bytes_def numeral_2_eq_2 take_Suc_conv_app_nth)

lemma get_le16_None_iff: "get_le16 b i = None \<longleftrightarrow> length b < i + 2"
  by (simp add: get_le16_def rd_bytes_None_iff)

lemma get_le16_Some_iff: "(\<exists>v. get_le16 b i = Some v) \<longleftrightarrow> i + 2 \<le> length b"
  by (auto simp add: get_le16_def rd_bytes_def)

lemma get_put_le:
  assumes "LENGTH('a) = 8 * n" and "wr_bytes b i (le_of_word n (v :: 'a::len word)) = Some b'"
  shows "map_option word_of_le (rd_bytes b' i n) = Some v"
  using rd_bytes_wr_bytes [OF assms(2)] assms(1) by (simp add: word_of_le_of_word)

lemma get_put_be:
  assumes "LENGTH('a) = 8 * n" and "wr_bytes b i (rev (le_of_word n (v :: 'a::len word))) = Some b'"
  shows "map_option (\<lambda>bs. word_of_le (rev bs)) (rd_bytes b' i n) = Some v"
  using rd_bytes_wr_bytes [OF assms(2)] assms(1) by (simp add: word_of_le_of_word)

lemma put_le16_filled [frame_simps]:
  "k = length bs \<Longrightarrow> k + 2 \<le> length b \<Longrightarrow>
   put_le16 v (filled bs b) k = Some (filled (bs @ le_of_word 2 v) b)"
  by (simp add: put_le16_def wr_bytes_filled)

section \<open>The accessor contract\<close>

text \<open>
  What a pair of accessors of an \<open>n\<close> byte integer promises to the code that builds and
  parses PDUs with it: a store touches exactly its \<open>n\<close> bytes, both are defined exactly
  inside the buffer, and a load returns what was stored.
\<close>

locale accessor =
  fixes n :: nat
    and get :: "buf \<Rightarrow> nat \<Rightarrow> 'a::len word option"
    and put :: "'a word \<Rightarrow> buf \<Rightarrow> nat \<Rightarrow> buf option"
  assumes get_put: "put v b i = Some b' \<Longrightarrow> get b' i = Some v"
    and put_frame: "put v b i = Some b' \<Longrightarrow>
          length b' = length b \<and> take i b' = take i b \<and> drop (i + n) b' = drop (i + n) b"
    and put_defined: "(\<exists>b'. put v b i = Some b') \<longleftrightarrow> i + n \<le> length b"
    and get_local: "take n (drop i b) = take n (drop i c) \<Longrightarrow> i + n \<le> length b \<Longrightarrow> i + n \<le> length c \<Longrightarrow>
          get b i = get c i"
begin

lemma get_defined: "i + n \<le> length b \<Longrightarrow> \<exists>b'. put v b i = Some b' \<and> get b' i = Some v"
  using put_defined get_put by blast

lemma stored:
  "i + n \<le> length b \<Longrightarrow>
   \<exists>b'. put v b i = Some b' \<and> get b' i = Some v \<and> take i b' = take i b \<and> drop (i + n) b' = drop (i + n) b"
  using put_defined get_put put_frame by meson

text \<open>Two fields that do not overlap are independent.\<close>

lemma get_put_later:
  assumes "put v b i = Some b'" and "j + n \<le> i"
  shows "get b' j = get b j"
proof (rule get_local)
  from put_frame [OF assms(1)] have t: "take i b' = take i b" and l: "length b' = length b" by auto
  have "take n (drop j b') = take n (drop j (take i b'))"
    using assms(2) by (simp add: drop_take min_def)
  also have "\<dots> = take n (drop j b)"
    using assms(2) by (simp add: t drop_take min_def)
  finally show "take n (drop j b') = take n (drop j b)" .
  have "i + n \<le> length b" using assms(1) put_defined by blast
  then show "j + n \<le> length b'" "j + n \<le> length b" using assms(2) l by auto
qed

lemma get_put_earlier:
  assumes "put v b i = Some b'" and "i + n \<le> j" and "j + n \<le> length b"
  shows "get b' j = get b j"
proof (rule get_local)
  from put_frame [OF assms(1)] have d: "drop (i + n) b' = drop (i + n) b" and l: "length b' = length b"
    by auto
  have "drop j b' = drop (j - (i + n)) (drop (i + n) b')" using assms(2) by simp
  also have "\<dots> = drop j b" using assms(2) by (simp add: d)
  finally show "take n (drop j b') = take n (drop j b)" by simp
  show "j + n \<le> length b'" "j + n \<le> length b" using assms(3) l by auto
qed

lemma put_overwrites: "put v b i = Some b' \<Longrightarrow> put w b' i = Some b'' \<Longrightarrow> get b'' i = Some w"
  by (rule get_put)

end

lemma accessor_le:
  assumes "LENGTH('a) = 8 * n"
  shows "accessor n (\<lambda>b i. map_option word_of_le (rd_bytes b i n))
                    (\<lambda>(v :: 'a::len word) b i. wr_bytes b i (le_of_word n v))"
  using assms
  by unfold_locales
    (auto simp add: get_put_le word_of_le_of_word wr_bytes_def rd_bytes_def min_def split: if_splits)

lemma accessor_be:
  assumes "LENGTH('a) = 8 * n"
  shows "accessor n (\<lambda>b i. map_option (\<lambda>bs. word_of_le (rev bs)) (rd_bytes b i n))
                    (\<lambda>(v :: 'a::len word) b i. wr_bytes b i (rev (le_of_word n v)))"
  using assms
  by unfold_locales
    (auto simp add: get_put_be word_of_le_of_word wr_bytes_def rd_bytes_def min_def split: if_splits)

interpretation le16: accessor 2 "get_le16_on h" "put_le16_on h'"
  using accessor_le [of 2, where ?'a = 16]
  by (simp add: get_on_eq put_on_eq get_le16_def [abs_def] put_le16_def [abs_def])

interpretation be16: accessor 2 "get_be16_on h" "put_be16_on h'"
  using accessor_be [of 2, where ?'a = 16]
  by (simp add: get_on_eq put_on_eq get_be16_def [abs_def] put_be16_def [abs_def])

interpretation le32: accessor 4 "get_le32_on h" "put_le32_on h'"
  using accessor_le [of 4, where ?'a = 32]
  by (simp add: get_on_eq put_on_eq get_le32_def [abs_def] put_le32_def [abs_def])

interpretation be32: accessor 4 "get_be32_on h" "put_be32_on h'"
  using accessor_be [of 4, where ?'a = 32]
  by (simp add: get_on_eq put_on_eq get_be32_def [abs_def] put_be32_def [abs_def])

interpretation le64: accessor 8 "get_le64_on h" "put_le64_on h'"
  using accessor_le [of 8, where ?'a = 64]
  by (simp add: get_on_eq put_on_eq get_le64_def [abs_def] put_le64_def [abs_def])

interpretation be64: accessor 8 "get_be64_on h" "put_be64_on h'"
  using accessor_be [of 8, where ?'a = 64]
  by (simp add: get_on_eq put_on_eq get_be64_def [abs_def] put_be64_def [abs_def])

section \<open>Properties\<close>

text \<open>Wherever the \<open>n\<close> bytes fit, a store succeeds, a load returns the value, and no other byte changes.\<close>

definition stores_back :: "('a \<Rightarrow> buf \<Rightarrow> nat \<Rightarrow> buf option) \<Rightarrow> (buf \<Rightarrow> nat \<Rightarrow> 'a option) \<Rightarrow> nat \<Rightarrow> bool" where
  "stores_back put get n \<longleftrightarrow> (\<forall>v b i. i + n \<le> length b \<longrightarrow>
     (\<exists>b'. put v b i = Some b' \<and> get b' i = Some v \<and> take i b' = take i b \<and> drop (i + n) b' = drop (i + n) b))"

text \<open>C34. The accessors are portable: an integer stored on a host of one byte order is read back by a host of
  the other, whenever the bytes lie inside the buffer, and the bytes around them do not change.\<close>

theorem accessors_portable:
  "stores_back (put_le16_on h) (get_le16_on h') 2 \<and> stores_back (put_be16_on h) (get_be16_on h') 2 \<and>
   stores_back (put_le32_on h) (get_le32_on h') 4 \<and> stores_back (put_be32_on h) (get_be32_on h') 4 \<and>
   stores_back (put_le64_on h) (get_le64_on h') 8 \<and> stores_back (put_be64_on h) (get_be64_on h') 8"
  by (intro conjI; unfold stores_back_def; intro allI impI)
    (rule le16.stored be16.stored le32.stored be32.stored le64.stored be64.stored; assumption)+

end
