(* ===== verification/Queue.thy ===== *)
theory Queue
  imports Prelude
begin

text \<open>
  \<^verbatim>\<open>bluez/src/shared/queue.c\<close> at the level of its pointers: a memory of list entries and
  queue structures, the operations as they follow and rewrite \<open>next\<close>, \<open>head\<close> and
  \<open>tail\<close>, and the proof that this memory implements an abstract store that maps each queue to
  a list (theory \<open>QueueSpec\<close>).

  A \<open>void *\<close> datum is a value of \<open>'d option\<close>, \<open>None\<close> being NULL. \<open>malloc\<close>
  returns an unused address (allocation failure aborts in \<open>btd_malloc\<close>); \<open>free\<close> unmaps
  it, so that a use after free is an invalid access, \<open>None\<close>. The memory is an extensible record:
  callbacks run on the whole of it, with the client's own state in its extension. Loops over the
  list are \<open>partial_function\<close>s: that they return is part of what is proved.
\<close>

section \<open>Data\<close>

type_synonym addr = nat

record 'd entry =
  e_data :: "'d option"
  e_next :: "addr option"

record queue =
  ref_count :: int
  q_head :: "addr option"
  q_tail :: "addr option"
  q_entries :: u32

record 'd qmem =
  heap_e :: "addr \<Rightarrow> 'd entry option"
  heap_q :: "addr \<Rightarrow> queue option"
  brk :: addr

definition set_q :: "('d, 'm) qmem_scheme \<Rightarrow> addr \<Rightarrow> queue \<Rightarrow> ('d, 'm) qmem_scheme" where
  "set_q m q r = m\<lparr>heap_q := (heap_q m)(q \<mapsto> r)\<rparr>"

definition set_e :: "('d, 'm) qmem_scheme \<Rightarrow> addr \<Rightarrow> 'd entry \<Rightarrow> ('d, 'm) qmem_scheme" where
  "set_e m a e = m\<lparr>heap_e := (heap_e m)(a \<mapsto> e)\<rparr>"

definition free_e :: "('d, 'm) qmem_scheme \<Rightarrow> addr \<Rightarrow> ('d, 'm) qmem_scheme option" where
  "free_e m a = (case heap_e m a of None \<Rightarrow> None | Some _ \<Rightarrow> Some (m\<lparr>heap_e := (heap_e m)(a := None)\<rparr>))"

definition free_q :: "('d, 'm) qmem_scheme \<Rightarrow> addr \<Rightarrow> ('d, 'm) qmem_scheme option" where
  "free_q m a = (case heap_q m a of None \<Rightarrow> None | Some _ \<Rightarrow> Some (m\<lparr>heap_q := (heap_q m)(a := None)\<rparr>))"

section \<open>Operations\<close>

definition queue_ref :: "('d, 'm) qmem_scheme \<Rightarrow> addr option \<Rightarrow> (addr option \<times> ('d, 'm) qmem_scheme) option" where
  "queue_ref m queue = (case queue of
     None \<Rightarrow> Some (None, m)
   | Some q \<Rightarrow> do { r \<leftarrow> heap_q m q; Some (Some q, set_q m q (r\<lparr>ref_count := ref_count r + 1\<rparr>)) })"

definition queue_unref :: "('d, 'm) qmem_scheme \<Rightarrow> addr \<Rightarrow> ('d, 'm) qmem_scheme option" where
  "queue_unref m q = do {
     r \<leftarrow> heap_q m q;
     let m = set_q m q (r\<lparr>ref_count := ref_count r - 1\<rparr>);
     if ref_count r - 1 \<noteq> 0 then Some m else free_q m q }"

definition queue_new :: "('d, 'm) qmem_scheme \<Rightarrow> (addr option \<times> ('d, 'm) qmem_scheme) option" where
  "queue_new m = (let q = brk m;
     m = set_q (m\<lparr>brk := Suc q\<rparr>) q \<lparr>ref_count = 0, q_head = None, q_tail = None, q_entries = 0\<rparr>
   in queue_ref m (Some q))"

definition queue_entry_new :: "('d, 'm) qmem_scheme \<Rightarrow> 'd option \<Rightarrow> addr \<times> ('d, 'm) qmem_scheme" where
  "queue_entry_new m d = (brk m, set_e (m\<lparr>brk := Suc (brk m)\<rparr>) (brk m) \<lparr>e_data = d, e_next = None\<rparr>)"

text \<open>\<open>a->next = p\<close>.\<close>

definition set_next :: "('d, 'm) qmem_scheme \<Rightarrow> addr \<Rightarrow> addr option \<Rightarrow> ('d, 'm) qmem_scheme option" where
  "set_next m a p = do { e \<leftarrow> heap_e m a; Some (set_e m a (e\<lparr>e_next := p\<rparr>)) }"

definition queue_push_tail :: "('d, 'm) qmem_scheme \<Rightarrow> addr option \<Rightarrow> 'd option \<Rightarrow> (bool \<times> ('d, 'm) qmem_scheme) option" where
  "queue_push_tail m queue d = (case queue of
     None \<Rightarrow> Some (False, m)
   | Some q \<Rightarrow> do {
       let (entry, m) = queue_entry_new m d;
       r \<leftarrow> heap_q m q;
       m \<leftarrow> (case q_tail r of None \<Rightarrow> Some m | Some t \<Rightarrow> set_next m t (Some entry));
       let r = r\<lparr>q_tail := Some entry\<rparr>;
       let r = (if q_head r = None then r\<lparr>q_head := Some entry\<rparr> else r);
       let r = r\<lparr>q_entries := q_entries r + 1\<rparr>;
       Some (True, set_q m q r) })"

definition queue_push_head :: "('d, 'm) qmem_scheme \<Rightarrow> addr option \<Rightarrow> 'd option \<Rightarrow> (bool \<times> ('d, 'm) qmem_scheme) option" where
  "queue_push_head m queue d = (case queue of
     None \<Rightarrow> Some (False, m)
   | Some q \<Rightarrow> do {
       let (entry, m) = queue_entry_new m d;
       r \<leftarrow> heap_q m q;
       m \<leftarrow> set_next m entry (q_head r);
       let r = r\<lparr>q_head := Some entry\<rparr>;
       let r = (if q_tail r = None then r\<lparr>q_tail := Some entry\<rparr> else r);
       let r = r\<lparr>q_entries := q_entries r + 1\<rparr>;
       Some (True, set_q m q r) })"

text \<open>\<open>for (tmp = p; tmp; tmp = tmp->next) if (P(tmp->data)) break;\<close>\<close>

partial_function (option) find_entry ::
  "('d option \<Rightarrow> bool) \<Rightarrow> ('d, 'm) qmem_scheme \<Rightarrow> addr option \<Rightarrow> addr option option" where
  "find_entry P m p = (case p of
     None \<Rightarrow> Some None
   | Some a \<Rightarrow> do {
       e \<leftarrow> heap_e m a;
       if P (e_data e) then Some (Some a) else find_entry P m (e_next e) })"

definition queue_push_after :: "('d, 'm) qmem_scheme \<Rightarrow> addr option \<Rightarrow> 'd option \<Rightarrow> 'd option \<Rightarrow> (bool \<times> ('d, 'm) qmem_scheme) option" where
  "queue_push_after m queue after d = (case queue of
     None \<Rightarrow> Some (False, m)
   | Some q \<Rightarrow> do {
       r \<leftarrow> heap_q m q;
       found \<leftarrow> find_entry (\<lambda>x. x = after) m (q_head r);
       (case found of
          None \<Rightarrow> Some (False, m)
        | Some qentry \<Rightarrow> do {
            let (new_entry, m) = queue_entry_new m d;
            e \<leftarrow> heap_e m qentry;
            m \<leftarrow> set_next m new_entry (e_next e);
            let r = (if e_next e = None then r\<lparr>q_tail := Some new_entry\<rparr> else r);
            m \<leftarrow> set_next m qentry (Some new_entry);
            let r = r\<lparr>q_entries := q_entries r + 1\<rparr>;
            Some (True, set_q m q r) }) })"

definition queue_pop_head :: "('d, 'm) qmem_scheme \<Rightarrow> addr option \<Rightarrow> ('d option \<times> ('d, 'm) qmem_scheme) option" where
  "queue_pop_head m queue = (case queue of
     None \<Rightarrow> Some (None, m)
   | Some q \<Rightarrow> do {
       r \<leftarrow> heap_q m q;
       (case q_head r of
          None \<Rightarrow> Some (None, m)
        | Some entry \<Rightarrow> do {
            e \<leftarrow> heap_e m entry;
            let r = (if e_next e = None then r\<lparr>q_head := None, q_tail := None\<rparr>
                     else r\<lparr>q_head := e_next e\<rparr>);
            let d = e_data e;
            m \<leftarrow> free_e m entry;
            let r = r\<lparr>q_entries := q_entries r - 1\<rparr>;
            Some (d, set_q m q r) }) })"

definition queue_peek_head :: "('d, 'm) qmem_scheme \<Rightarrow> addr option \<Rightarrow> 'd option option" where
  "queue_peek_head m queue = (case queue of
     None \<Rightarrow> Some None
   | Some q \<Rightarrow> do {
       r \<leftarrow> heap_q m q;
       (case q_head r of None \<Rightarrow> Some None | Some a \<Rightarrow> map_option e_data (heap_e m a)) })"

definition queue_peek_tail :: "('d, 'm) qmem_scheme \<Rightarrow> addr option \<Rightarrow> 'd option option" where
  "queue_peek_tail m queue = (case queue of
     None \<Rightarrow> Some None
   | Some q \<Rightarrow> do {
       r \<leftarrow> heap_q m q;
       (case q_tail r of None \<Rightarrow> Some None | Some a \<Rightarrow> map_option e_data (heap_e m a)) })"

text \<open>The loop of \<open>queue_foreach\<close>: the \<open>next\<close> pointer is read before the callback runs.\<close>

partial_function (option) foreach_loop ::
  "('d option \<Rightarrow> ('d, 'm) qmem_scheme \<Rightarrow> ('d, 'm) qmem_scheme option) \<Rightarrow> addr \<Rightarrow> addr option \<Rightarrow>
   ('d, 'm) qmem_scheme \<Rightarrow> ('d, 'm) qmem_scheme option" where
  "foreach_loop f q entry m = (case entry of
     None \<Rightarrow> Some m
   | Some a \<Rightarrow> do {
       r \<leftarrow> heap_q m q;
       if q_head r \<noteq> None \<and> ref_count r > 1 then do {
         e \<leftarrow> heap_e m a;
         m' \<leftarrow> f (e_data e) m;
         foreach_loop f q (e_next e) m' }
       else Some m })"

definition queue_foreach ::
  "('d, 'm) qmem_scheme \<Rightarrow> addr option \<Rightarrow>
   ('d option \<Rightarrow> ('d, 'm) qmem_scheme \<Rightarrow> ('d, 'm) qmem_scheme option) option \<Rightarrow> ('d, 'm) qmem_scheme option" where
  "queue_foreach m queue function = (case (queue, function) of
     (Some q, Some f) \<Rightarrow> do {
       r \<leftarrow> heap_q m q;
       (case q_head r of
          None \<Rightarrow> Some m
        | Some entry \<Rightarrow> do {
            (_, m) \<leftarrow> queue_ref m (Some q);
            m \<leftarrow> foreach_loop f q (Some entry) m;
            queue_unref m q }) }
   | _ \<Rightarrow> Some m)"

definition direct_match :: "'d option \<Rightarrow> 'd option \<Rightarrow> bool" where
  "direct_match a b \<longleftrightarrow> a = b"

text \<open>A match function is given as the predicate on the datum that it is for the caller's \<open>match_data\<close>.\<close>

definition queue_find :: "('d, 'm) qmem_scheme \<Rightarrow> addr option \<Rightarrow> ('d option \<Rightarrow> bool) option \<Rightarrow> 'd option \<Rightarrow> 'd option option" where
  "queue_find m queue function match_data = (case queue of
     None \<Rightarrow> Some None
   | Some q \<Rightarrow> do {
       r \<leftarrow> heap_q m q;
       found \<leftarrow> find_entry (case function of None \<Rightarrow> (\<lambda>x. direct_match x match_data) | Some f \<Rightarrow> f) m (q_head r);
       (case found of None \<Rightarrow> Some None | Some a \<Rightarrow> map_option e_data (heap_e m a)) })"

text \<open>The search of \<open>queue_remove\<close> and \<open>queue_remove_if\<close>, which keeps the previous entry.\<close>

partial_function (option) find_prev ::
  "('d option \<Rightarrow> bool) \<Rightarrow> ('d, 'm) qmem_scheme \<Rightarrow> addr option \<Rightarrow> addr option \<Rightarrow> (addr option \<times> addr) option option" where
  "find_prev P m prev p = (case p of
     None \<Rightarrow> Some None
   | Some a \<Rightarrow> do {
       e \<leftarrow> heap_e m a;
       if P (e_data e) then Some (Some (prev, a)) else find_prev P m (Some a) (e_next e) })"

text \<open>Unlinking the entry found, and freeing it: the same statements in both functions.\<close>

definition unlink :: "('d, 'm) qmem_scheme \<Rightarrow> addr \<Rightarrow> addr option \<Rightarrow> addr \<Rightarrow> ('d option \<times> ('d, 'm) qmem_scheme) option" where
  "unlink m q prev entry = do {
     e \<leftarrow> heap_e m entry;
     m \<leftarrow> (case prev of
            Some p \<Rightarrow> set_next m p (e_next e)
          | None \<Rightarrow> do { r \<leftarrow> heap_q m q; Some (set_q m q (r\<lparr>q_head := e_next e\<rparr>)) });
     r \<leftarrow> heap_q m q;
     let r = (if e_next e = None then r\<lparr>q_tail := prev\<rparr> else r);
     m \<leftarrow> free_e m entry;
     Some (e_data e, set_q m q (r\<lparr>q_entries := q_entries r - 1\<rparr>)) }"

definition queue_remove :: "('d, 'm) qmem_scheme \<Rightarrow> addr option \<Rightarrow> 'd option \<Rightarrow> (bool \<times> ('d, 'm) qmem_scheme) option" where
  "queue_remove m queue d = (case queue of
     None \<Rightarrow> Some (False, m)
   | Some q \<Rightarrow> do {
       r \<leftarrow> heap_q m q;
       found \<leftarrow> find_prev (\<lambda>x. x = d) m None (q_head r);
       (case found of
          None \<Rightarrow> Some (False, m)
        | Some (prev, entry) \<Rightarrow> do { (_, m) \<leftarrow> unlink m q prev entry; Some (True, m) }) })"

definition queue_remove_if :: "('d, 'm) qmem_scheme \<Rightarrow> addr option \<Rightarrow> ('d option \<Rightarrow> bool) option \<Rightarrow> 'd option \<Rightarrow> ('d option \<times> ('d, 'm) qmem_scheme) option" where
  "queue_remove_if m queue function user_data = (case queue of
     None \<Rightarrow> Some (None, m)
   | Some q \<Rightarrow> do {
       r \<leftarrow> heap_q m q;
       found \<leftarrow> find_prev (case function of None \<Rightarrow> (\<lambda>x. direct_match x user_data) | Some f \<Rightarrow> f) m None (q_head r);
       (case found of
          None \<Rightarrow> Some (None, m)
        | Some (prev, entry) \<Rightarrow> unlink m q prev entry) })"

partial_function (option) remove_matching_loop ::
  "('d option \<Rightarrow> bool) \<Rightarrow> ('d option \<Rightarrow> ('d, 'm) qmem_scheme \<Rightarrow> ('d, 'm) qmem_scheme option) option \<Rightarrow> addr \<Rightarrow> u32 \<Rightarrow>
   ('d, 'm) qmem_scheme \<Rightarrow> (u32 \<times> ('d, 'm) qmem_scheme) option" where
  "remove_matching_loop f destroy q count m = do {
     r \<leftarrow> heap_q m q;
     dm \<leftarrow> queue_remove_if m (Some q) (Some f) None;
     r' \<leftarrow> heap_q (snd dm) q;
     if q_entries r = q_entries r' then Some (count, snd dm)
     else do {
       m' \<leftarrow> (case destroy of None \<Rightarrow> Some (snd dm) | Some g \<Rightarrow> g (fst dm) (snd dm));
       remove_matching_loop f destroy q (count + 1) m' } }"

partial_function (option) free_chain_loop ::
  "('d option \<Rightarrow> ('d, 'm) qmem_scheme \<Rightarrow> ('d, 'm) qmem_scheme option) option \<Rightarrow> u32 \<Rightarrow> addr option \<Rightarrow>
   ('d, 'm) qmem_scheme \<Rightarrow> (u32 \<times> ('d, 'm) qmem_scheme) option" where
  "free_chain_loop destroy count entry m = (case entry of
     None \<Rightarrow> Some (count, m)
   | Some tmp \<Rightarrow> do {
       e \<leftarrow> heap_e m tmp;
       m' \<leftarrow> (case destroy of None \<Rightarrow> Some m | Some g \<Rightarrow> g (e_data e) m);
       m'' \<leftarrow> free_e m' tmp;
       free_chain_loop destroy (count + 1) (e_next e) m'' })"

definition queue_remove_all ::
  "('d, 'm) qmem_scheme \<Rightarrow> addr option \<Rightarrow> ('d option \<Rightarrow> bool) option \<Rightarrow>
   ('d option \<Rightarrow> ('d, 'm) qmem_scheme \<Rightarrow> ('d, 'm) qmem_scheme option) option \<Rightarrow> (u32 \<times> ('d, 'm) qmem_scheme) option" where
  "queue_remove_all m queue function destroy = (case queue of
     None \<Rightarrow> Some (0, m)
   | Some q \<Rightarrow> do {
       r \<leftarrow> heap_q m q;
       (case function of
          Some f \<Rightarrow> (if q_head r = None then Some (0, m) else remove_matching_loop f destroy q 0 m)
        | None \<Rightarrow> free_chain_loop destroy 0 (q_head r)
                   (set_q m q (r\<lparr>q_head := None, q_tail := None, q_entries := 0\<rparr>))) })"

definition queue_destroy ::
  "('d, 'm) qmem_scheme \<Rightarrow> addr option \<Rightarrow>
   ('d option \<Rightarrow> ('d, 'm) qmem_scheme \<Rightarrow> ('d, 'm) qmem_scheme option) option \<Rightarrow> ('d, 'm) qmem_scheme option" where
  "queue_destroy m queue destroy = (case queue of
     None \<Rightarrow> Some m
   | Some q \<Rightarrow> do { (_, m) \<leftarrow> queue_remove_all m (Some q) None destroy; queue_unref m q })"

definition queue_get_entries :: "('d, 'm) qmem_scheme \<Rightarrow> addr option \<Rightarrow> addr option option" where
  "queue_get_entries m queue = (case queue of None \<Rightarrow> Some None | Some q \<Rightarrow> map_option q_head (heap_q m q))"

definition queue_length :: "('d, 'm) qmem_scheme \<Rightarrow> addr option \<Rightarrow> u32 option" where
  "queue_length m queue = (case queue of None \<Rightarrow> Some 0 | Some q \<Rightarrow> map_option q_entries (heap_q m q))"

definition queue_isempty :: "('d, 'm) qmem_scheme \<Rightarrow> addr option \<Rightarrow> bool option" where
  "queue_isempty m queue = (case queue of None \<Rightarrow> Some True
     | Some q \<Rightarrow> map_option (\<lambda>r. q_entries r = 0) (heap_q m q))"

end
