(* ===== verification/QueueSpec.thy ===== *)
theory QueueSpec
  imports Queue
begin

text \<open>
  The refinement of the pointer level queues of theory \<open>Queue\<close>: \<open>mem_rep m P Q\<close> says
  that the memory \<open>m\<close> holds exactly the queues of the abstract store \<open>Q\<close> (a map from
  queue addresses to lists of data), through the chains of entries \<open>P\<close>; no entry is shared by two
  queues and none is leaked. Each operation keeps this relation and acts on \<open>Q\<close> like the list
  operation of the same name; the others queues of the store do not change.
\<close>

section \<open>Chains of entries\<close>

fun chain :: "(addr \<Rightarrow> 'd entry option) \<Rightarrow> addr option \<Rightarrow> addr list \<Rightarrow> addr option \<Rightarrow> bool" where
  "chain h p [] z \<longleftrightarrow> p = z"
| "chain h p (a # as) z \<longleftrightarrow> p = Some a \<and> (\<exists>e. h a = Some e \<and> chain h (e_next e) as z)"

definition data_of :: "(addr \<Rightarrow> 'd entry option) \<Rightarrow> addr list \<Rightarrow> 'd option list" where
  "data_of h ps = map (\<lambda>a. case h a of Some e \<Rightarrow> e_data e | None \<Rightarrow> None) ps"

lemma data_of_simps [simp]:
  "data_of h [] = []"
  "data_of h (ps @ qs) = data_of h ps @ data_of h qs"
  "data_of h (a # ps) = (case h a of Some e \<Rightarrow> e_data e | None \<Rightarrow> None) # data_of h ps"
  "length (data_of h ps) = length ps"
  by (simp_all add: data_of_def)

lemma chain_append: "chain h p (as @ bs) z \<longleftrightarrow> (\<exists>y. chain h p as y \<and> chain h y bs z)"
  by (induction as arbitrary: p) auto

lemma chain_cong: "\<forall>a \<in> set as. h a = h' a \<Longrightarrow> chain h p as z = chain h' p as z"
  by (induction as arbitrary: p) auto

lemma chain_upd_other [simp]: "a \<notin> set as \<Longrightarrow> chain (h(a := v)) p as z = chain h p as z"
  by (rule chain_cong) auto

lemma data_of_cong: "\<forall>a \<in> set as. h a = h' a \<Longrightarrow> data_of h as = data_of h' as"
  by (auto simp add: data_of_def)

lemma data_of_upd_other [simp]: "a \<notin> set as \<Longrightarrow> data_of (h(a := v)) as = data_of h as"
  by (rule data_of_cong) auto

lemma chain_dom: "chain h p as z \<Longrightarrow> set as \<subseteq> dom h"
  by (induction as arbitrary: p) auto

lemma chain_hd: "chain h p as None \<Longrightarrow> p = (if as = [] then None else Some (hd as))"
  by (cases as) auto

lemma chain_last_next:
  "chain h p as z \<Longrightarrow> as \<noteq> [] \<Longrightarrow> \<exists>e. h (last as) = Some e \<and> e_next e = z"
  by (induction as arbitrary: p) (auto split: if_splits)

text \<open>A chain that ends in NULL visits no entry twice.\<close>

lemma chain_unique: "chain h p as None \<Longrightarrow> chain h p bs None \<Longrightarrow> as = bs"
proof (induction as arbitrary: p bs)
  case Nil
  then show ?case by (cases bs) auto
next
  case (Cons a as)
  then show ?case by (cases bs) auto
qed

lemma chain_distinct: "chain h p as None \<Longrightarrow> distinct as"
proof (induction as arbitrary: p)
  case (Cons a as)
  from Cons.prems obtain e where e: "h a = Some e" and c: "chain h (e_next e) as None" by auto
  have "a \<notin> set as"
  proof
    assume "a \<in> set as"
    then obtain bs cs where as: "as = bs @ a # cs" by (auto simp add: in_set_conv_decomp)
    with c have "chain h (Some a) (a # cs) None" by (auto simp add: chain_append)
    with Cons.prems have "a # as = a # cs" using chain_unique by fastforce
    then show False using as by (metis append_is_Nil_conv list.inject list.size(4) length_append
          not_add_less2 less_add_Suc2 order_less_irrefl list.distinct(1) not_less_eq length_Cons)
  qed
  with Cons.IH [OF c] show ?case by simp
qed simp

text \<open>Changing the last \<open>next\<close> pointer.\<close>

lemma chain_set_last:
  assumes "chain h p (as @ [a]) z" and "distinct (as @ [a])" and "h a = Some e"
  shows "chain (h(a \<mapsto> e\<lparr>e_next := y\<rparr>)) p (as @ [a]) y"
  using assms by (auto simp add: chain_append)

lemma data_of_set_next [simp]:
  "h a = Some e \<Longrightarrow> data_of (h(a \<mapsto> e\<lparr>e_next := y\<rparr>)) as = data_of h as"
  by (auto simp add: data_of_def)

section \<open>Queues\<close>

definition queue_ok :: "(addr \<Rightarrow> 'd entry option) \<Rightarrow> queue \<Rightarrow> addr list \<Rightarrow> bool" where
  "queue_ok h r ps \<longleftrightarrow>
     chain h (q_head r) ps None \<and> q_tail r = (if ps = [] then None else Some (last ps)) \<and>
     q_entries r = of_nat (length ps) \<and> length ps < 2 ^ 32 \<and> 0 < ref_count r"

definition mem_rep :: "('d, 'm) qmem_scheme \<Rightarrow> (addr \<rightharpoonup> addr list) \<Rightarrow> (addr \<rightharpoonup> 'd option list) \<Rightarrow> bool" where
  "mem_rep m P Q \<longleftrightarrow>
     dom P = dom (heap_q m) \<and>
     (\<forall>q r ps. heap_q m q = Some r \<longrightarrow> P q = Some ps \<longrightarrow> queue_ok (heap_e m) r ps) \<and>
     (\<forall>q. Q q = map_option (data_of (heap_e m)) (P q)) \<and>
     (\<forall>a q ps q' ps'. P q = Some ps \<longrightarrow> P q' = Some ps' \<longrightarrow> a \<in> set ps \<longrightarrow> a \<in> set ps' \<longrightarrow> q = q') \<and>
     (\<forall>a. heap_e m a \<noteq> None \<longleftrightarrow> (\<exists>q ps. P q = Some ps \<and> a \<in> set ps)) \<and>
     (\<forall>a \<ge> brk m. heap_e m a = None \<and> heap_q m a = None)"

lemma queue_ok_cong:
  "queue_ok h r ps \<Longrightarrow> \<forall>a \<in> set ps. h a = h' a \<Longrightarrow> queue_ok h' r ps"
  using chain_cong [of ps h h'] by (auto simp add: queue_ok_def)

lemma queue_okD:
  assumes "queue_ok h r ps"
  shows "chain h (q_head r) ps None" "distinct ps" "q_head r = (if ps = [] then None else Some (hd ps))"
    "q_tail r = (if ps = [] then None else Some (last ps))" "q_entries r = of_nat (length ps)"
    "length ps < 2 ^ 32" "0 < ref_count r" "set ps \<subseteq> dom h"
proof -
  from assms show c: "chain h (q_head r) ps None" by (simp add: queue_ok_def)
  show "distinct ps" using c by (rule chain_distinct)
  show "q_head r = (if ps = [] then None else Some (hd ps))" using c by (rule chain_hd)
  show "set ps \<subseteq> dom h" using c by (rule chain_dom)
qed (use assms in \<open>simp_all add: queue_ok_def\<close>)

lemma queue_ok_entries_0: "queue_ok h r ps \<Longrightarrow> q_entries r = 0 \<longleftrightarrow> ps = []"
  using unat_of_nat_u32 [of "length ps"] by (auto simp add: queue_ok_def)

lemma mem_rep_P: "mem_rep m P Q \<Longrightarrow> heap_q m q = Some r \<Longrightarrow> \<exists>ps. P q = Some ps \<and> queue_ok (heap_e m) r ps"
  unfolding mem_rep_def by (metis domI domD)

lemma mem_rep_dom: "mem_rep m P Q \<Longrightarrow> dom P = dom (heap_q m)"
  by (simp add: mem_rep_def)

lemma mem_rep_Q: "mem_rep m P Q \<Longrightarrow> Q q = map_option (data_of (heap_e m)) (P q)"
  unfolding mem_rep_def by blast

lemma mem_rep_disj: "mem_rep m P Q \<Longrightarrow> P q = Some ps \<Longrightarrow> P q' = Some ps' \<Longrightarrow> a \<in> set ps \<Longrightarrow> a \<in> set ps' \<Longrightarrow> q = q'"
  unfolding mem_rep_def by blast

lemma mem_rep_live: "mem_rep m P Q \<Longrightarrow> heap_e m a \<noteq> None \<longleftrightarrow> (\<exists>q ps. P q = Some ps \<and> a \<in> set ps)"
  unfolding mem_rep_def by blast

lemma mem_rep_fresh: "mem_rep m P Q \<Longrightarrow> brk m \<le> a \<Longrightarrow> heap_e m a = None \<and> heap_q m a = None"
  unfolding mem_rep_def by blast

lemma mem_repI:
  assumes "dom P = dom (heap_q m)"
    and "\<And>q r ps. heap_q m q = Some r \<Longrightarrow> P q = Some ps \<Longrightarrow> queue_ok (heap_e m) r ps"
    and "\<And>q. Q q = map_option (data_of (heap_e m)) (P q)"
    and "\<And>a q ps q' ps'. P q = Some ps \<Longrightarrow> P q' = Some ps' \<Longrightarrow> a \<in> set ps \<Longrightarrow> a \<in> set ps' \<Longrightarrow> q = q'"
    and "\<And>a. heap_e m a \<noteq> None \<longleftrightarrow> (\<exists>q ps. P q = Some ps \<and> a \<in> set ps)"
    and "\<And>a. brk m \<le> a \<Longrightarrow> heap_e m a = None \<and> heap_q m a = None"
  shows "mem_rep m P Q"
  unfolding mem_rep_def
proof (intro conjI allI impI)
  fix a q ps q' ps'
  assume "P q = Some ps" "P q' = Some ps'" "a \<in> set ps" "a \<in> set ps'"
  then show "q = q'" by (rule assms(4))
qed (rule assms(1) assms(2) assms(3) assms(5) assms(6) [THEN conjunct1] assms(6) [THEN conjunct2]; assumption)+

lemma mem_repE:
  assumes "mem_rep m P Q" and "Q q = Some xs"
  obtains r ps where "heap_q m q = Some r" "P q = Some ps" "queue_ok (heap_e m) r ps"
    "xs = data_of (heap_e m) ps"
proof -
  from assms obtain ps where ps: "P q = Some ps" "xs = data_of (heap_e m) ps"
    by (auto simp add: mem_rep_Q)
  with mem_rep_dom [OF assms(1)] obtain r where r: "heap_q m q = Some r" by blast
  with mem_rep_P [OF assms(1)] ps have "queue_ok (heap_e m) r ps" by fastforce
  with r ps that show ?thesis by blast
qed

text \<open>
  The one argument behind all operations: an update that touches only the entries of queue \<open>q\<close>
  (and takes fresh ones) turns a represented store into a represented store.
\<close>

lemma mem_rep_update:
  assumes rep: "mem_rep m P Q" and q: "P q = Some ps"
    and same: "\<And>a. a \<notin> set ps \<Longrightarrow> a \<notin> set ps' \<Longrightarrow> heap_e m' a = heap_e m a"
    and gone: "\<And>a. a \<in> set ps \<Longrightarrow> a \<notin> set ps' \<Longrightarrow> heap_e m' a = None"
    and fresh: "\<And>a. a \<in> set ps' \<Longrightarrow> a \<in> set ps \<or> heap_e m a = None"
    and qs: "heap_q m' = (heap_q m)(q \<mapsto> r')" and ok: "queue_ok (heap_e m') r' ps'"
    and brk: "brk m \<le> brk m'" "\<And>a. a \<in> set ps' \<Longrightarrow> a < brk m'"
  shows "mem_rep m' (P(q \<mapsto> ps')) (Q(q \<mapsto> data_of (heap_e m') ps'))"
proof -
  have notps: "a \<notin> set ps" and notps': "a \<notin> set ps'" if "P q' = Some qs" "q' \<noteq> q" "a \<in> set qs" for q' qs a
  proof -
    show "a \<notin> set ps" using mem_rep_disj [OF rep q that(1), of a] that by auto
    moreover have "heap_e m a \<noteq> None" using mem_rep_live [OF rep, of a] that(1,3) by metis
    ultimately show "a \<notin> set ps'" using fresh [of a] by auto
  qed
  have other: "heap_e m' a = heap_e m a" if "P q' = Some qs" "q' \<noteq> q" "a \<in> set qs" for q' qs a
    using that by (intro same notps notps')
  show ?thesis
  proof (rule mem_repI)
    show "dom (P(q \<mapsto> ps')) = dom (heap_q m')"
      using mem_rep_dom [OF rep] by (simp add: qs)
  next
    fix q' r zs assume asm: "heap_q m' q' = Some r" "(P(q \<mapsto> ps')) q' = Some zs"
    show "queue_ok (heap_e m') r zs"
    proof (cases "q' = q")
      case True
      then show ?thesis using asm ok qs by simp
    next
      case False
      with asm qs have "heap_q m q' = Some r" "P q' = Some zs" by simp_all
      with mem_rep_P [OF rep] have "queue_ok (heap_e m) r zs" by fastforce
      then show ?thesis
        by (rule queue_ok_cong) (simp add: other [OF \<open>P q' = Some zs\<close> False])
    qed
  next
    fix q'
    have "data_of (heap_e m') qs = data_of (heap_e m) qs" if "P q' = Some qs" "q' \<noteq> q" for qs
      by (rule data_of_cong) (simp add: other [OF that])
    then show "(Q(q \<mapsto> data_of (heap_e m') ps')) q' = map_option (data_of (heap_e m')) ((P(q \<mapsto> ps')) q')"
      by (cases "P q'") (simp_all add: mem_rep_Q [OF rep])
  next
    fix a q1 qs1 q2 qs2
    assume "(P(q \<mapsto> ps')) q1 = Some qs1" "(P(q \<mapsto> ps')) q2 = Some qs2" "a \<in> set qs1" "a \<in> set qs2"
    then show "q1 = q2"
      using notps' mem_rep_disj [OF rep] by (cases "q1 = q"; cases "q2 = q") auto
  next
    fix a
    show "heap_e m' a \<noteq> None \<longleftrightarrow> (\<exists>q' qs. (P(q \<mapsto> ps')) q' = Some qs \<and> a \<in> set qs)"
    proof (cases "a \<in> set ps'")
      case True
      then show ?thesis using queue_okD(8) [OF ok] by auto
    next
      case False
      have "heap_e m' a \<noteq> None \<longleftrightarrow> heap_e m a \<noteq> None \<and> a \<notin> set ps"
        using same gone False by (cases "a \<in> set ps") auto
      also have "\<dots> \<longleftrightarrow> (\<exists>q' qs. P q' = Some qs \<and> q' \<noteq> q \<and> a \<in> set qs)"
        using mem_rep_live [OF rep, of a] notps q by (metis option.inject)
      finally show ?thesis using False by auto
    qed
  next
    fix a assume "brk m' \<le> a"
    then have "a \<notin> set ps'" "brk m \<le> a" using brk by (auto simp add: not_le [symmetric])
    moreover have "heap_e m a = None" "heap_q m a = None"
      using mem_rep_fresh [OF rep \<open>brk m \<le> a\<close>] by auto
    moreover from this have "q \<noteq> a" using mem_rep_dom [OF rep] q by auto
    ultimately show "heap_e m' a = None \<and> heap_q m' a = None"
      using same [of a] gone [of a] qs by (cases "a \<in> set ps") auto
  qed
qed

end
