(* ===== verification/QueueRefine.thy ===== *)
theory QueueRefine
  imports QueueSpec
begin

text \<open>
  Every operation of \<^verbatim>\<open>queue.c\<close> refines the list operation of the same name on the store of
  theory \<open>QueueSpec\<close>; the locale \<open>queue_store\<close> is what clients rely on, and the heap model
  is its instance.
\<close>

section \<open>Pushing and popping\<close>

lemma rep_lt_brk: "mem_rep m P Q \<Longrightarrow> P q = Some ps \<Longrightarrow> a \<in> set ps \<Longrightarrow> a < brk m"
  using mem_rep_live [of m P Q a] mem_rep_fresh [of m P Q a] by (metis not_less)

lemma queue_ok_push_tail:
  assumes ok: "queue_ok h r ps" and b: "h b = None" and len: "length ps + 1 < 2 ^ 32"
    and h': "h' = (case q_tail r of None \<Rightarrow> h(b \<mapsto> \<lparr>e_data = d, e_next = None\<rparr>)
                   | Some t \<Rightarrow> (h(b \<mapsto> \<lparr>e_data = d, e_next = None\<rparr>))(t \<mapsto> (the (h t))\<lparr>e_next := Some b\<rparr>))"
    and r': "q_head r' = (if q_head r = None then Some b else q_head r)" "q_tail r' = Some b"
      "q_entries r' = q_entries r + 1" "ref_count r' = ref_count r"
  shows "queue_ok h' r' (ps @ [b]) \<and> data_of h' (ps @ [b]) = data_of h ps @ [d]"
proof -
  note D = queue_okD [OF ok]
  have bps: "b \<notin> set ps" using D(8) b by auto
  show ?thesis
  proof (cases ps rule: rev_cases)
    case Nil
    with D h' r' len show ?thesis by (auto simp add: queue_ok_def)
  next
    case (snoc qs t)
    then obtain et where et: "h t = Some et" using D(8) by auto
    have "h' = (h(t \<mapsto> et\<lparr>e_next := Some b\<rparr>))(b \<mapsto> \<lparr>e_data = d, e_next = None\<rparr>)"
      using snoc D(4) h' et bps by (auto simp add: fun_upd_twist)
    moreover have "chain (h(t \<mapsto> et\<lparr>e_next := Some b\<rparr>)) (q_head r) ps (Some b)"
      using chain_set_last [of h "q_head r" qs t None et "Some b"] D snoc et by simp
    ultimately show ?thesis
      using D len r' bps et snoc by (auto simp add: queue_ok_def chain_append split: if_splits)
  qed
qed

lemma queue_push_tail_rep:
  assumes rep: "mem_rep m P Q" and Q: "Q q = Some xs" and len: "length xs + 1 < 2 ^ 32"
  shows "\<exists>m' P'. queue_push_tail m (Some q) d = Some (True, m') \<and> mem_rep m' P' (Q(q \<mapsto> xs @ [d])) \<and>
           qmem.more m' = qmem.more m"
proof -
  obtain r ps where r: "heap_q m q = Some r" and P: "P q = Some ps" and ok: "queue_ok (heap_e m) r ps"
    and xs: "xs = data_of (heap_e m) ps" using rep Q by (rule mem_repE)
  let ?b = "brk m" and ?h = "heap_e m"
  have b: "?h ?b = None" using mem_rep_fresh [OF rep] by simp
  define h' where "h' = (case q_tail r of None \<Rightarrow> ?h(?b \<mapsto> \<lparr>e_data = d, e_next = None\<rparr>)
                   | Some t \<Rightarrow> (?h(?b \<mapsto> \<lparr>e_data = d, e_next = None\<rparr>))(t \<mapsto> (the (?h t))\<lparr>e_next := Some ?b\<rparr>))"
  have tail: "\<exists>e. ?h t = Some e \<and> t \<noteq> ?b \<and> t \<in> set ps" if "q_tail r = Some t" for t
  proof -
    have "t \<in> set ps" using that queue_okD(4) [OF ok] by (auto split: if_splits)
    then show ?thesis using queue_okD(8) [OF ok] b by auto
  qed
  obtain m' r' where m': "queue_push_tail m (Some q) d = Some (True, m')" "heap_e m' = h'"
    "heap_q m' = (heap_q m)(q \<mapsto> r')" "brk m' = Suc ?b" "qmem.more m' = qmem.more m"
    and r': "q_head r' = (if q_head r = None then Some ?b else q_head r)" "q_tail r' = Some ?b"
      "q_entries r' = q_entries r + 1" "ref_count r' = ref_count r"
    using r tail
    by (cases "q_tail r")
      (auto simp add: queue_push_tail_def queue_entry_new_def set_e_def set_q_def set_next_def h'_def Let_def)
  have ok': "queue_ok h' r' (ps @ [?b])" "data_of h' (ps @ [?b]) = xs @ [d]"
    using queue_ok_push_tail [OF ok b _ h'_def r'] len xs by auto
  have "mem_rep m' (P(q \<mapsto> ps @ [?b])) (Q(q \<mapsto> data_of (heap_e m') (ps @ [?b])))"
  proof (rule mem_rep_update [OF rep P _ _ _ m'(3)])
    show "heap_e m' a = heap_e m a" if "a \<notin> set ps" "a \<notin> set (ps @ [?b])" for a
      using that tail m' by (auto simp add: h'_def split: option.split)
  qed (use m' ok' b rep_lt_brk [OF rep P] in \<open>auto simp add: less_Suc_eq\<close>)
  with m' ok' show ?thesis by auto
qed

lemma mem_rep_cong:
  "mem_rep m P Q \<Longrightarrow> heap_e m' = heap_e m \<Longrightarrow> heap_q m' = heap_q m \<Longrightarrow> brk m' = brk m \<Longrightarrow> mem_rep m' P Q"
  by (simp add: mem_rep_def)

lemma queue_push_head_rep:
  assumes rep: "mem_rep m P Q" and Q: "Q q = Some xs" and len: "length xs + 1 < 2 ^ 32"
  shows "\<exists>m' P'. queue_push_head m (Some q) d = Some (True, m') \<and> mem_rep m' P' (Q(q \<mapsto> d # xs)) \<and>
           qmem.more m' = qmem.more m"
proof -
  obtain r ps where r: "heap_q m q = Some r" and P: "P q = Some ps" and ok: "queue_ok (heap_e m) r ps"
    and xs: "xs = data_of (heap_e m) ps" using rep Q by (rule mem_repE)
  let ?b = "brk m" and ?h = "heap_e m"
  have b: "?h ?b = None" using mem_rep_fresh [OF rep] by simp
  obtain m' r' where m': "queue_push_head m (Some q) d = Some (True, m')"
    "heap_e m' = ?h(?b \<mapsto> \<lparr>e_data = d, e_next = q_head r\<rparr>)"
    "heap_q m' = (heap_q m)(q \<mapsto> r')" "brk m' = Suc ?b" "qmem.more m' = qmem.more m"
    and r': "q_head r' = Some ?b" "q_tail r' = (if q_tail r = None then Some ?b else q_tail r)"
      "q_entries r' = q_entries r + 1" "ref_count r' = ref_count r"
    using r by (auto simp add: queue_push_head_def queue_entry_new_def set_e_def set_q_def set_next_def Let_def)
  note D = queue_okD [OF ok]
  have bps: "?b \<notin> set ps" using D(8) b by auto
  have ok': "queue_ok (heap_e m') r' (?b # ps)" "data_of (heap_e m') (?b # ps) = d # xs"
    using D r' m' bps len xs by (auto simp add: queue_ok_def)
  have "mem_rep m' (P(q \<mapsto> ?b # ps)) (Q(q \<mapsto> data_of (heap_e m') (?b # ps)))"
    by (rule mem_rep_update [OF rep P _ _ _ m'(3) ok'(1)])
      (use m' b rep_lt_brk [OF rep P] in \<open>auto simp add: less_Suc_eq\<close>)
  with m' ok' show ?thesis by auto
qed

lemma queue_pop_head_rep:
  assumes rep: "mem_rep m P Q" and Q: "Q q = Some (x # xs)"
  shows "\<exists>m' P'. queue_pop_head m (Some q) = Some (x, m') \<and> mem_rep m' P' (Q(q \<mapsto> xs)) \<and>
           qmem.more m' = qmem.more m"
proof -
  obtain r ps where r: "heap_q m q = Some r" and P: "P q = Some ps" and ok: "queue_ok (heap_e m) r ps"
    and xs: "x # xs = data_of (heap_e m) ps" using rep Q by (rule mem_repE)
  from xs obtain a qs where ps: "ps = a # qs" by (cases ps) auto
  note D = queue_okD [OF ok]
  from D(8) ps obtain e where e: "heap_e m a = Some e" by auto
  have nx: "chain (heap_e m) (e_next e) qs None" using D(1) ps e by simp
  have en: "e_next e = None \<longleftrightarrow> qs = []" using chain_hd [OF nx] by auto
  obtain m' r' where m': "queue_pop_head m (Some q) = Some (e_data e, m')"
    "heap_e m' = (heap_e m)(a := None)"
    "heap_q m' = (heap_q m)(q \<mapsto> r')" "brk m' = brk m" "qmem.more m' = qmem.more m"
    and r': "q_head r' = e_next e" "q_tail r' = (if e_next e = None then None else q_tail r)"
      "q_entries r' = q_entries r - 1" "ref_count r' = ref_count r"
    using r e D(3) ps by (auto simp add: queue_pop_head_def set_q_def free_e_def Let_def)
  have ok': "queue_ok (heap_e m') r' qs" "data_of (heap_e m') qs = xs"
    using D r' m' nx en xs ps e by (auto simp add: queue_ok_def)
  have "mem_rep m' (P(q \<mapsto> qs)) (Q(q \<mapsto> data_of (heap_e m') qs))"
    by (rule mem_rep_update [OF rep P _ _ _ m'(3) ok'(1)])
      (use m' ps rep_lt_brk [OF rep P] in auto)
  with m' ok' xs ps e show ?thesis by auto
qed

lemma queue_pop_head_rep_Nil:
  assumes rep: "mem_rep m P Q" and Q: "Q q = Some []"
  shows "queue_pop_head m (Some q) = Some (None, m)"
proof -
  obtain r ps where r: "heap_q m q = Some r" and ok: "queue_ok (heap_e m) r ps"
    and "[] = data_of (heap_e m) ps" using rep Q by (rule mem_repE)
  then have "ps = []" by (cases ps) auto
  then show ?thesis using r queue_okD(3) [OF ok] by (simp add: queue_pop_head_def)
qed

lemma queue_peek_rep:
  assumes rep: "mem_rep m P Q" and Q: "Q q = Some xs"
  shows "queue_peek_head m (Some q) = Some (if xs = [] then None else hd xs)"
    and "queue_peek_tail m (Some q) = Some (if xs = [] then None else last xs)"
    and "queue_length m (Some q) = Some (of_nat (length xs))"
    and "queue_isempty m (Some q) = Some (xs = [])"
    and "length xs < 2 ^ 32"
proof -
  obtain r ps where r: "heap_q m q = Some r" and ok: "queue_ok (heap_e m) r ps"
    and xs: "xs = data_of (heap_e m) ps" using rep Q by (rule mem_repE)
  note D = queue_okD [OF ok]
  have e: "\<exists>e. heap_e m a = Some e" if "a \<in> set ps" for a using D(8) that by auto
  show "queue_peek_head m (Some q) = Some (if xs = [] then None else hd xs)"
    using r D(3) xs e [of "hd ps"] by (cases ps) (auto simp add: queue_peek_head_def)
  show "queue_peek_tail m (Some q) = Some (if xs = [] then None else last xs)"
    using r D(4) xs e [of "last ps"] by (cases ps rule: rev_cases) (auto simp add: queue_peek_tail_def)
  show "queue_length m (Some q) = Some (of_nat (length xs))"
    using r D(5) xs by (simp add: queue_length_def)
  show "queue_isempty m (Some q) = Some (xs = [])"
    using r queue_ok_entries_0 [OF ok] xs by (cases ps) (auto simp add: queue_isempty_def)
  show "length xs < 2 ^ 32" using D(6) xs by simp
qed

section \<open>Searching\<close>

lemma find_entry_chain:
  "chain (heap_e m) p ps None \<Longrightarrow>
   find_entry f m p = Some (List.find (\<lambda>a. f (case heap_e m a of Some e \<Rightarrow> e_data e | None \<Rightarrow> None)) ps)"
proof (induction ps arbitrary: p)
  case Nil
  then show ?case by (simp add: find_entry.simps)
next
  case (Cons a ps)
  then show ?case by (subst find_entry.simps) auto
qed

lemma find_data_of:
  "map_option (\<lambda>a. case h a of Some e \<Rightarrow> e_data e | None \<Rightarrow> None)
     (List.find (\<lambda>a. f (case h a of Some e \<Rightarrow> e_data e | None \<Rightarrow> None)) ps) = List.find f (data_of h ps)"
  by (induction ps) auto

lemma find_Some_set: "List.find f ps = Some a \<Longrightarrow> a \<in> set ps"
  by (auto simp add: find_Some_iff)

lemma queue_find_rep:
  assumes rep: "mem_rep m P Q" and Q: "Q q = Some xs"
  shows "queue_find m (Some q) fn md =
     Some (case List.find (case fn of None \<Rightarrow> (\<lambda>x. x = md) | Some f \<Rightarrow> f) xs of None \<Rightarrow> None | Some d \<Rightarrow> d)"
proof -
  obtain r ps where r: "heap_q m q = Some r" and ok: "queue_ok (heap_e m) r ps"
    and xs: "xs = data_of (heap_e m) ps" using rep Q by (rule mem_repE)
  note D = queue_okD [OF ok]
  let ?f = "case fn of None \<Rightarrow> (\<lambda>x. x = md) | Some f \<Rightarrow> f"
  have f: "(case fn of None \<Rightarrow> (\<lambda>x. direct_match x md) | Some f \<Rightarrow> f) = ?f"
    by (auto simp add: direct_match_def split: option.split)
  show ?thesis
  proof (cases "List.find (\<lambda>a. ?f (case heap_e m a of Some e \<Rightarrow> e_data e | None \<Rightarrow> None)) ps")
    case None
    then have "List.find ?f xs = None" using find_data_of [of "heap_e m" ?f ps] xs by simp
    with None show ?thesis using r D(1) by (simp add: queue_find_def f find_entry_chain)
  next
    case (Some a)
    then have "a \<in> set ps" by (rule find_Some_set)
    then obtain e where e: "heap_e m a = Some e" using D(8) by auto
    have "List.find ?f xs = Some (e_data e)" using find_data_of [of "heap_e m" ?f ps] xs Some e by simp
    with Some e show ?thesis using r D(1) by (simp add: queue_find_def f find_entry_chain)
  qed
qed

text \<open>\<open>queue_push_after\<close> inserts behind the first entry that holds the given datum.\<close>

fun insert_after :: "'a \<Rightarrow> 'a \<Rightarrow> 'a list \<Rightarrow> 'a list" where
  "insert_after y d [] = []"
| "insert_after y d (x # xs) = (if x = y then x # d # xs else x # insert_after y d xs)"

lemma insert_after_notin: "y \<notin> set xs \<Longrightarrow> insert_after y d xs = xs"
  by (induction xs) auto

lemma insert_after_split: "y \<notin> set us \<Longrightarrow> insert_after y d (us @ y # vs) = us @ y # d # vs"
  by (induction us) auto

lemma find_split:
  "List.find f ps = Some a \<Longrightarrow> \<exists>us vs. ps = us @ a # vs \<and> (\<forall>u \<in> set us. \<not> f u) \<and> f a"
proof (induction ps)
  case (Cons p ps)
  show ?case
  proof (cases "f p")
    case True
    then show ?thesis using Cons.prems by (intro exI [of _ "[]"] exI [of _ ps]) auto
  next
    case False
    then obtain us vs where "ps = us @ a # vs" "\<forall>u \<in> set us. \<not> f u" "f a" using Cons by auto
    with False show ?thesis by (intro exI [of _ "p # us"] exI [of _ vs]) auto
  qed
qed simp

lemma chain_insert:
  assumes c: "chain h p (us @ a # vs) z" and e: "h a = Some e" and d: "distinct (us @ a # vs)"
    and b: "b \<notin> set (us @ a # vs)"
  shows "chain (h(b \<mapsto> \<lparr>e_data = d, e_next = e_next e\<rparr>, a \<mapsto> e\<lparr>e_next := Some b\<rparr>)) p (us @ a # b # vs) z"
  using assms by (auto simp add: chain_append)

lemma queue_push_after_rep:
  assumes rep: "mem_rep m P Q" and Q: "Q q = Some xs" and len: "length xs + 1 < 2 ^ 32"
  shows "\<exists>m' P'. queue_push_after m (Some q) y d = Some (y \<in> set xs, m') \<and>
           mem_rep m' P' (Q(q \<mapsto> insert_after y d xs)) \<and> qmem.more m' = qmem.more m"
proof -
  obtain r ps where r: "heap_q m q = Some r" and P: "P q = Some ps" and ok: "queue_ok (heap_e m) r ps"
    and xs: "xs = data_of (heap_e m) ps" using rep Q by (rule mem_repE)
  note D = queue_okD [OF ok]
  let ?b = "brk m" and ?h = "heap_e m"
  let ?f = "\<lambda>a. (case ?h a of Some e \<Rightarrow> e_data e | None \<Rightarrow> None) = y"
  show ?thesis
  proof (cases "List.find ?f ps")
    case None
    then have "y \<notin> set xs" using xs by (auto simp add: find_None_iff data_of_def)
    moreover have "queue_push_after m (Some q) y d = Some (False, m)"
      using r D(1) None by (simp add: queue_push_after_def find_entry_chain)
    moreover have "Q(q \<mapsto> xs) = Q" using Q by auto
    ultimately show ?thesis using rep by (auto simp add: insert_after_notin)
  next
    case (Some a)
    then obtain us vs where ps: "ps = us @ a # vs" "\<forall>u \<in> set us. \<not> ?f u" "?f a"
      using find_split [OF Some] by blast
    then obtain e where e: "?h a = Some e" using D(8) by auto
    have b: "?h ?b = None" using mem_rep_fresh [OF rep] by simp
    have bps: "?b \<notin> set ps" using D(8) b by auto
    have ab: "a \<noteq> ?b" using b e by auto
    have nx: "e_next e = None \<longleftrightarrow> vs = []"
      using D(1) ps e chain_hd [of ?h "e_next e" vs] by (auto simp add: chain_append)
    obtain m' r' where m': "queue_push_after m (Some q) y d = Some (True, m')"
      "heap_e m' = ?h(?b \<mapsto> \<lparr>e_data = d, e_next = e_next e\<rparr>, a \<mapsto> e\<lparr>e_next := Some ?b\<rparr>)"
      "heap_q m' = (heap_q m)(q \<mapsto> r')" "brk m' = Suc ?b" "qmem.more m' = qmem.more m"
      and r': "q_head r' = q_head r" "q_tail r' = (if e_next e = None then Some ?b else q_tail r)"
        "q_entries r' = q_entries r + 1" "ref_count r' = ref_count r"
      using r D(1) Some e ab
      by (auto simp add: queue_push_after_def find_entry_chain queue_entry_new_def set_e_def set_q_def
          set_next_def Let_def)
    let ?ps' = "us @ a # ?b # vs"
    have ok': "queue_ok (heap_e m') r' ?ps'"
      using chain_insert [of ?h "q_head r" us a vs None e ?b d] D r' m' bps ps e len xs nx
      by (auto simp add: queue_ok_def)
    have "data_of (heap_e m') ?ps' = data_of ?h us @ y # d # data_of ?h vs"
      using ps e m' ab bps D(2) by (auto simp add: data_of_def)
    moreover have "xs = data_of ?h us @ y # data_of ?h vs" "y \<notin> set (data_of ?h us)"
      using xs ps by (auto simp add: data_of_def)
    ultimately have dat: "data_of (heap_e m') ?ps' = insert_after y d xs" and "y \<in> set xs"
      by (auto simp add: insert_after_split)
    have "mem_rep m' (P(q \<mapsto> ?ps')) (Q(q \<mapsto> data_of (heap_e m') ?ps'))"
      by (rule mem_rep_update [OF rep P _ _ _ m'(3) ok'])
        (use m' ps b rep_lt_brk [OF rep P] in \<open>auto simp add: less_Suc_eq\<close>)
    with m' dat \<open>y \<in> set xs\<close> show ?thesis by auto
  qed
qed

section \<open>Removing\<close>

lemma find_prev_chain:
  "chain (heap_e m) p ps None \<Longrightarrow> \<forall>a \<in> set ps. \<not> f (case heap_e m a of Some e \<Rightarrow> e_data e | None \<Rightarrow> None) \<Longrightarrow>
   find_prev f m prev p = Some None"
proof (induction ps arbitrary: p prev)
  case Nil
  then show ?case by (simp add: find_prev.simps)
next
  case (Cons a ps)
  then show ?case by (subst find_prev.simps) auto
qed

lemma find_prev_chain_found:
  "chain (heap_e m) p (us @ a # vs) None \<Longrightarrow>
   \<forall>u \<in> set us. \<not> f (case heap_e m u of Some e \<Rightarrow> e_data e | None \<Rightarrow> None) \<Longrightarrow>
   f (case heap_e m a of Some e \<Rightarrow> e_data e | None \<Rightarrow> None) \<Longrightarrow>
   find_prev f m prev p = Some (Some (if us = [] then prev else Some (last us), a))"
proof (induction us arbitrary: p prev)
  case Nil
  then show ?case by (subst find_prev.simps) auto
next
  case (Cons u us)
  then show ?case by (subst find_prev.simps) auto
qed

lemma chain_delete:
  assumes c: "chain h p (us @ a # vs) None" and e: "h a = Some e" and us: "us \<noteq> []"
    and l: "h (last us) = Some el"
  shows "chain (h(last us \<mapsto> el\<lparr>e_next := e_next e\<rparr>, a := None)) p (us @ vs) None"
proof -
  obtain us' u where us': "us = us' @ [u]" using us by (cases us rule: rev_cases) auto
  from c have "distinct (us @ a # vs)" by (rule chain_distinct)
  then show ?thesis using c e l us' by (auto simp add: chain_append)
qed

lemma unlink_rep:
  assumes rep: "mem_rep m P Q" and P: "P q = Some (us @ a # vs)" and e: "heap_e m a = Some e"
  shows "\<exists>m'. unlink m q (if us = [] then None else Some (last us)) a = Some (e_data e, m') \<and>
           mem_rep m' (P(q \<mapsto> us @ vs)) (Q(q \<mapsto> data_of (heap_e m) us @ data_of (heap_e m) vs)) \<and>
           qmem.more m' = qmem.more m"
proof -
  let ?h = "heap_e m" and ?ps = "us @ a # vs"
  from P mem_rep_dom [OF rep] obtain r where r: "heap_q m q = Some r" by blast
  with mem_rep_P [OF rep] P have ok: "queue_ok ?h r ?ps" by fastforce
  note D = queue_okD [OF ok]
  have nx: "e_next e = None \<longleftrightarrow> vs = []" "chain ?h (e_next e) vs None"
    using D(1) e chain_hd [of ?h "e_next e" vs] by (auto simp add: chain_append)
  have len: "(1 :: u32) + of_nat n - 1 = of_nat n" for n by simp
  let ?prev = "if us = [] then None else Some (last us)"
  have last_ne: "us \<noteq> [] \<Longrightarrow> last us \<noteq> a" using D(2) by auto
  have el: "us \<noteq> [] \<Longrightarrow> \<exists>el. ?h (last us) = Some el"
    using subsetD [OF D(8), of "last us"] by auto
  define h1 where "h1 = (if us = [] then ?h else ?h(last us \<mapsto> (the (?h (last us)))\<lparr>e_next := e_next e\<rparr>))"
  obtain m' r' where m': "unlink m q ?prev a = Some (e_data e, m')" "heap_e m' = h1(a := None)"
    "heap_q m' = (heap_q m)(q \<mapsto> r')" "brk m' = brk m" "qmem.more m' = qmem.more m"
    and r': "q_head r' = (if us = [] then e_next e else q_head r)"
      "q_tail r' = (if e_next e = None then ?prev else q_tail r)"
      "q_entries r' = q_entries r - 1" "ref_count r' = ref_count r"
    using r e last_ne el
    by (cases "us = []") (auto simp add: unlink_def set_next_def set_e_def set_q_def free_e_def h1_def Let_def)
  have "chain (heap_e m') (q_head r') (us @ vs) None"
  proof (cases "us = []")
    case True
    then show ?thesis using D(1,2) e m' r' nx by (auto simp add: h1_def)
  next
    case False
    with el obtain el where "?h (last us) = Some el" by blast
    with False show ?thesis using chain_delete [OF D(1) e False] m' r' by (simp add: h1_def)
  qed
  then have ok': "queue_ok (heap_e m') r' (us @ vs)"
    using D r' nx by (auto simp add: queue_ok_def)
  have dat: "data_of (heap_e m') (us @ vs) = data_of ?h us @ data_of ?h vs"
    using D(2) m' el by (auto simp add: h1_def)
  have "mem_rep m' (P(q \<mapsto> us @ vs)) (Q(q \<mapsto> data_of (heap_e m') (us @ vs)))"
  proof (rule mem_rep_update [OF rep P _ _ _ m'(3) ok'])
    show "heap_e m' b = heap_e m b" if "b \<notin> set ?ps" "b \<notin> set (us @ vs)" for b
    proof -
      have "us \<noteq> [] \<Longrightarrow> b \<noteq> last us" using that by auto
      with that m' show ?thesis by (auto simp add: h1_def)
    qed
    show "heap_e m' b = None" if "b \<in> set ?ps" "b \<notin> set (us @ vs)" for b
      using that m' by auto
  qed (use m' rep_lt_brk [OF rep P] in auto)
  with m' dat show ?thesis by auto
qed

fun remove_first :: "('a \<Rightarrow> bool) \<Rightarrow> 'a list \<Rightarrow> 'a list" where
  "remove_first f [] = []"
| "remove_first f (x # xs) = (if f x then xs else x # remove_first f xs)"

lemma remove_first_eq_remove1: "remove_first (\<lambda>x. x = y) xs = remove1 y xs"
  by (induction xs) auto

lemma remove_first_split: "\<forall>u \<in> set us. \<not> f u \<Longrightarrow> f y \<Longrightarrow> remove_first f (us @ y # vs) = us @ vs"
  by (induction us) auto

lemma remove_first_none: "\<forall>u \<in> set us. \<not> f u \<Longrightarrow> remove_first f us = us"
  by (induction us) auto

lemma find_first_split: "\<forall>u \<in> set us. \<not> f u \<Longrightarrow> f y \<Longrightarrow> List.find f (us @ y # vs) = Some y"
  by (induction us) auto

text \<open>Both removal functions, from the state of their search.\<close>

lemma search_unlink:
  assumes rep: "mem_rep m P Q" and Q: "Q q = Some xs" and r: "heap_q m q = Some r"
  shows "(find_prev f m None (q_head r) = Some None \<and> (\<forall>x \<in> set xs. \<not> f x)) \<or>
    (\<exists>prev a d m' P'. find_prev f m None (q_head r) = Some (Some (prev, a)) \<and>
       List.find f xs = Some d \<and> unlink m q prev a = Some (d, m') \<and>
       mem_rep m' P' (Q(q \<mapsto> remove_first f xs)) \<and> qmem.more m' = qmem.more m)"
proof -
  let ?h = "heap_e m" and ?d = "\<lambda>a. case heap_e m a of Some e \<Rightarrow> e_data e | None \<Rightarrow> None"
  obtain ps where P: "P q = Some ps" and ok: "queue_ok ?h r ps" and xs: "xs = data_of ?h ps"
    using rep Q r by (metis mem_repE option.inject)
  note D = queue_okD [OF ok]
  show ?thesis
  proof (cases "List.find (\<lambda>a. f (?d a)) ps")
    case None
    then have "\<forall>a \<in> set ps. \<not> f (?d a)" by (auto simp add: find_None_iff)
    moreover from this have "\<forall>x \<in> set xs. \<not> f x" using xs by (auto simp add: data_of_def)
    ultimately show ?thesis using find_prev_chain [OF D(1)] by auto
  next
    case (Some a)
    then obtain us vs where ps: "ps = us @ a # vs" "\<forall>u \<in> set us. \<not> f (?d u)" "f (?d a)"
      using find_split [OF Some] by blast
    then obtain e where e: "?h a = Some e" using D(8) by auto
    have x: "xs = data_of ?h us @ e_data e # data_of ?h vs" "\<forall>x \<in> set (data_of ?h us). \<not> f x" "f (e_data e)"
      using xs ps e by (auto simp add: data_of_def)
    have "find_prev f m None (q_head r) = Some (Some (if us = [] then None else Some (last us), a))"
      using find_prev_chain_found [of m "q_head r" us a vs f None] D(1) ps by simp
    moreover have "P q = Some (us @ a # vs)" using P ps by simp
    ultimately show ?thesis
      using unlink_rep [OF rep _ e, of q us vs] x remove_first_split [OF x(2,3), of "data_of ?h vs"]
        find_first_split [OF x(2,3), of "data_of ?h vs"] by auto
  qed
qed

lemma queue_remove_rep:
  assumes rep: "mem_rep m P Q" and Q: "Q q = Some xs"
  shows "\<exists>m' P'. queue_remove m (Some q) y = Some (y \<in> set xs, m') \<and> mem_rep m' P' (Q(q \<mapsto> remove1 y xs)) \<and>
           qmem.more m' = qmem.more m"
proof -
  obtain r where r: "heap_q m q = Some r" using rep Q by (rule mem_repE)
  let ?f = "\<lambda>x. x = y"
  have Qx: "Q(q \<mapsto> xs) = Q" using Q by auto
  from search_unlink [OF rep Q r, of ?f] show ?thesis
  proof (elim disjE conjE exE)
    assume "find_prev ?f m None (q_head r) = Some None" "\<forall>x \<in> set xs. \<not> ?f x"
    then have "queue_remove m (Some q) y = Some (False, m)" "y \<notin> set xs"
      using r by (auto simp add: queue_remove_def)
    then show ?thesis using rep Qx by (auto simp add: remove1_idem)
  next
    fix prev a d m' P'
    assume "find_prev ?f m None (q_head r) = Some (Some (prev, a))" "List.find ?f xs = Some d"
      "unlink m q prev a = Some (d, m')" "mem_rep m' P' (Q(q \<mapsto> remove_first ?f xs))"
      "qmem.more m' = qmem.more m"
    moreover from this(2) have "y \<in> set xs" by (auto simp add: find_Some_iff)
    ultimately show ?thesis using r by (auto simp add: queue_remove_def remove_first_eq_remove1)
  qed
qed

lemma queue_remove_if_rep:
  assumes rep: "mem_rep m P Q" and Q: "Q q = Some xs"
  shows "\<exists>m' P'. queue_remove_if m (Some q) (Some f) ud =
             Some (case List.find f xs of None \<Rightarrow> None | Some d \<Rightarrow> d, m') \<and>
           mem_rep m' P' (Q(q \<mapsto> remove_first f xs)) \<and> qmem.more m' = qmem.more m \<and>
           (List.find f xs = None \<longrightarrow> m' = m)"
proof -
  obtain r where r: "heap_q m q = Some r" using rep Q by (rule mem_repE)
  have Qx: "Q(q \<mapsto> xs) = Q" using Q by auto
  from search_unlink [OF rep Q r, of f] show ?thesis
  proof (elim disjE conjE exE)
    assume "find_prev f m None (q_head r) = Some None" and n: "\<forall>x \<in> set xs. \<not> f x"
    then have "queue_remove_if m (Some q) (Some f) ud = Some (None, m)" "List.find f xs = None"
      using r by (auto simp add: queue_remove_if_def find_None_iff)
    then show ?thesis using rep Qx remove_first_none [OF n] by auto
  next
    fix prev a d m' P'
    assume "find_prev f m None (q_head r) = Some (Some (prev, a))" "List.find f xs = Some d"
      "unlink m q prev a = Some (d, m')" "mem_rep m' P' (Q(q \<mapsto> remove_first f xs))"
      "qmem.more m' = qmem.more m"
    then show ?thesis using r by (auto simp add: queue_remove_if_def)
  qed
qed

lemma queue_remove_if_direct:
  "queue_remove_if m queue None d = queue_remove_if m queue (Some (\<lambda>x. x = d)) d"
  by (cases queue) (simp_all add: queue_remove_if_def direct_match_def)

section \<open>Callbacks\<close>

text \<open>A callback that works on the client's own state only, where it acts like \<open>G\<close>.\<close>

definition client_only ::
  "('d option \<Rightarrow> ('d, 'm) qmem_scheme \<Rightarrow> ('d, 'm) qmem_scheme option) \<Rightarrow> ('d option \<Rightarrow> 'm \<Rightarrow> 'm) \<Rightarrow> bool" where
  "client_only g G \<longleftrightarrow> (\<forall>d m. g d m = Some (qmem.more_update (G d) m))"

lemma more_update_simps [simp]:
  "heap_e (qmem.more_update F m) = heap_e m" "heap_q (qmem.more_update F m) = heap_q m"
  "brk (qmem.more_update F m) = brk m" "qmem.more (qmem.more_update F m) = F (qmem.more m)"
  by (cases m, simp)+

lemma mem_rep_more_update: "mem_rep m P Q \<Longrightarrow> mem_rep (qmem.more_update F m) P Q"
  by (erule mem_rep_cong) simp_all

lemma filter_remove_first:
  "List.find f xs = Some d \<Longrightarrow>
   filter (\<lambda>x. \<not> f x) (remove_first f xs) = filter (\<lambda>x. \<not> f x) xs \<and> filter f xs = d # filter f (remove_first f xs) \<and>
   length (remove_first f xs) < length xs"
  by (induction xs) (auto split: if_splits)

text \<open>
  The loop of \<open>queue_remove_all\<close> with a match function. It recognises the last round by an
  unchanged entry count, which is sound because a successful removal changes it.
\<close>

lemma remove_matching_loop_rep:
  assumes "mem_rep m P Q" and "Q q = Some xs" and g: "\<forall>g. destroy = Some g \<longrightarrow> client_only g G"
    and none: "destroy = None \<longrightarrow> G = (\<lambda>_ s. s)"
  shows "\<exists>m' P'. remove_matching_loop f destroy q c m = Some (c + of_nat (length (filter f xs)), m') \<and>
           mem_rep m' P' (Q(q \<mapsto> filter (\<lambda>x. \<not> f x) xs)) \<and> qmem.more m' = fold G (filter f xs) (qmem.more m)"
  using assms(1,2)
proof (induction "length xs" arbitrary: xs m P Q c rule: less_induct)
  case less
  note rep = less.prems(1) and Q = less.prems(2)
  obtain r ps where r: "heap_q m q = Some r" and ok: "queue_ok (heap_e m) r ps" and xs: "xs = data_of (heap_e m) ps"
    using rep Q by (rule mem_repE)
  from queue_remove_if_rep [OF rep Q, of f None] obtain m1 P1 where
    m1: "queue_remove_if m (Some q) (Some f) None = Some (case List.find f xs of None \<Rightarrow> None | Some d \<Rightarrow> d, m1)"
      "mem_rep m1 P1 (Q(q \<mapsto> remove_first f xs))" "qmem.more m1 = qmem.more m"
      "List.find f xs = None \<longrightarrow> m1 = m" by (elim exE conjE) (rule that; assumption)
  have Q1: "(Q(q \<mapsto> remove_first f xs)) q = Some (remove_first f xs)" by simp
  obtain r1 ps1 where r1: "heap_q m1 q = Some r1" and ok1: "queue_ok (heap_e m1) r1 ps1"
    and xs1: "remove_first f xs = data_of (heap_e m1) ps1"
    using m1(2) Q1 by (rule mem_repE)
  show ?case
  proof (cases "List.find f xs")
    case None
    then have n: "\<forall>x \<in> set xs. \<not> f x" by (simp add: find_None_iff)
    have "remove_matching_loop f destroy q c m = Some (c, m)"
      using r m1 None by (subst remove_matching_loop.simps) simp
    moreover have "Q(q \<mapsto> xs) = Q" using Q by auto
    moreover have "filter f xs = []" "filter (\<lambda>x. \<not> f x) xs = xs"
      using n by (simp_all add: filter_empty_conv filter_id_conv)
    ultimately show ?thesis using rep by auto
  next
    case (Some d)
    note F = filter_remove_first [OF Some]
    have ne: "q_entries r \<noteq> q_entries r1"
    proof
      assume "q_entries r = q_entries r1"
      then have "(of_nat (length xs) :: u32) = of_nat (length (remove_first f xs))"
        using queue_okD(5) [OF ok] queue_okD(5) [OF ok1] xs xs1 by simp
      moreover have "length xs < 2 ^ 32" using queue_okD(6) [OF ok] xs by simp
      ultimately show False
        using F unat_of_nat_u32 [of "length xs"] unat_of_nat_u32 [of "length (remove_first f xs)"] by simp
    qed
    define m2 where "m2 = (case destroy of None \<Rightarrow> m1 | Some g \<Rightarrow> qmem.more_update (G d) m1)"
    have step: "(case destroy of None \<Rightarrow> Some m1 | Some g \<Rightarrow> g d m1) = Some m2"
      using g by (auto simp add: m2_def client_only_def split: option.split)
    have more2: "qmem.more m2 = G d (qmem.more m)"
      using m1(3) none by (auto simp add: m2_def split: option.split)
    have rep2: "mem_rep m2 P1 (Q(q \<mapsto> remove_first f xs))"
      using m1(2) by (auto simp add: m2_def mem_rep_more_update split: option.split)
    have "remove_matching_loop f destroy q c m = remove_matching_loop f destroy q (c + 1) m2"
      using r m1(1) r1 ne Some step
      by (subst remove_matching_loop.simps) (simp, simp only: fst_conv snd_conv option.case_eq_if bind.bind_lunit)
    moreover have "(Q(q \<mapsto> remove_first f xs))(q \<mapsto> filter (\<lambda>x. \<not> f x) (remove_first f xs)) =
        Q(q \<mapsto> filter (\<lambda>x. \<not> f x) xs)" using F by simp
    ultimately show ?thesis
      using less.hyps [OF _ rep2 Q1, of "c + 1"] F more2 by (fastforce simp add: algebra_simps)
  qed
qed

text \<open>The loop that frees a detached chain.\<close>

lemma free_chain_loop_eq:
  assumes "chain (heap_e m) p ps None" and g: "\<forall>g. destroy = Some g \<longrightarrow> client_only g G"
    and none: "destroy = None \<longrightarrow> G = (\<lambda>_ s. s)"
  shows "\<exists>m'. free_chain_loop destroy c p m = Some (c + of_nat (length ps), m') \<and>
           (\<forall>x. heap_e m' x = (if x \<in> set ps then None else heap_e m x)) \<and> heap_q m' = heap_q m \<and> brk m' = brk m \<and>
           qmem.more m' = fold G (data_of (heap_e m) ps) (qmem.more m)"
  using assms(1)
proof (induction ps arbitrary: p m c)
  case Nil
  then show ?case by (simp add: free_chain_loop.simps)
next
  case (Cons a ps)
  then obtain e where e: "p = Some a" "heap_e m a = Some e" "chain (heap_e m) (e_next e) ps None" by auto
  have a: "a \<notin> set ps" using chain_distinct [OF Cons.prems] by simp
  define m1 where "m1 = (case destroy of None \<Rightarrow> m | Some g \<Rightarrow> qmem.more_update (G (e_data e)) m)"
  have step: "(case destroy of None \<Rightarrow> Some m | Some g \<Rightarrow> g (e_data e) m) = Some m1"
    using g by (auto simp add: m1_def client_only_def split: option.split)
  have m1: "heap_e m1 = heap_e m" "heap_q m1 = heap_q m" "brk m1 = brk m" "qmem.more m1 = G (e_data e) (qmem.more m)"
    using none by (auto simp add: m1_def split: option.split)
  let ?m2 = "m1\<lparr>heap_e := (heap_e m1)(a := None)\<rparr>"
  have h2: "heap_e ?m2 = (heap_e m)(a := None)" using m1 by simp
  have c2: "chain (heap_e ?m2) (e_next e) ps None" unfolding h2 using e(3) a by simp
  have d2: "data_of (heap_e ?m2) ps = data_of (heap_e m) ps" unfolding h2 using a by simp
  obtain m' where m': "free_chain_loop destroy (c + 1) (e_next e) ?m2 = Some (c + 1 + of_nat (length ps), m')"
    "\<And>x. heap_e m' x = (if x \<in> set ps then None else heap_e ?m2 x)" "heap_q m' = heap_q ?m2" "brk m' = brk ?m2"
    "qmem.more m' = fold G (data_of (heap_e m) ps) (qmem.more ?m2)"
    using Cons.IH [OF c2, of "c + 1"] unfolding d2 by blast
  have "free_chain_loop destroy c p m = free_chain_loop destroy (c + 1) (e_next e) ?m2"
    using e step m1 by (subst free_chain_loop.simps) (simp add: free_e_def)
  with m' show ?case using m1 e by (auto simp add: algebra_simps)
qed

lemma queue_remove_all_matching_rep:
  assumes rep: "mem_rep m P Q" and Q: "Q q = Some xs" and g: "\<forall>g. destroy = Some g \<longrightarrow> client_only g G"
    and none: "destroy = None \<longrightarrow> G = (\<lambda>_ s. s)"
  shows "\<exists>m' P'. queue_remove_all m (Some q) (Some f) destroy = Some (of_nat (length (filter f xs)), m') \<and>
           mem_rep m' P' (Q(q \<mapsto> filter (\<lambda>x. \<not> f x) xs)) \<and> qmem.more m' = fold G (filter f xs) (qmem.more m)"
proof -
  obtain r ps where r: "heap_q m q = Some r" and ok: "queue_ok (heap_e m) r ps" and xs: "xs = data_of (heap_e m) ps"
    using rep Q by (rule mem_repE)
  show ?thesis
  proof (cases "q_head r = None")
    case True
    then have "xs = []" using queue_okD(3) [OF ok] xs by (auto split: if_splits)
    moreover from this have "Q(q \<mapsto> []) = Q" using Q by auto
    ultimately show ?thesis using r True rep by (auto simp add: queue_remove_all_def)
  next
    case False
    then show ?thesis
      using r remove_matching_loop_rep [OF rep Q g none, of f 0] by (auto simp add: queue_remove_all_def)
  qed
qed

lemma queue_remove_all_rep:
  assumes rep: "mem_rep m P Q" and Q: "Q q = Some xs" and g: "\<forall>g. destroy = Some g \<longrightarrow> client_only g G"
    and none: "destroy = None \<longrightarrow> G = (\<lambda>_ s. s)"
  shows "\<exists>m' r. queue_remove_all m (Some q) None destroy = Some (of_nat (length xs), m') \<and>
           mem_rep m' (P(q \<mapsto> [])) (Q(q \<mapsto> [])) \<and> qmem.more m' = fold G xs (qmem.more m) \<and>
           heap_q m q = Some r \<and> heap_q m' = (heap_q m)(q \<mapsto> r\<lparr>q_head := None, q_tail := None, q_entries := 0\<rparr>)"
proof -
  obtain r ps where r: "heap_q m q = Some r" and P: "P q = Some ps" and ok: "queue_ok (heap_e m) r ps"
    and xs: "xs = data_of (heap_e m) ps" using rep Q by (rule mem_repE)
  note D = queue_okD [OF ok]
  let ?r = "r\<lparr>q_head := None, q_tail := None, q_entries := 0\<rparr>"
  let ?m1 = "set_q m q ?r"
  have m1: "heap_e ?m1 = heap_e m" "heap_q ?m1 = (heap_q m)(q \<mapsto> ?r)" "brk ?m1 = brk m" "qmem.more ?m1 = qmem.more m"
    by (simp_all add: set_q_def)
  from D(1) have "chain (heap_e ?m1) (q_head r) ps None" by (simp add: m1)
  from free_chain_loop_eq [OF this g none, of 0] obtain m' where
    m': "free_chain_loop destroy 0 (q_head r) ?m1 = Some (of_nat (length ps), m')"
      "\<And>x. heap_e m' x = (if x \<in> set ps then None else heap_e m x)" "heap_q m' = (heap_q m)(q \<mapsto> ?r)"
      "brk m' = brk m" "qmem.more m' = fold G xs (qmem.more m)"
    by (auto simp add: m1 xs)
  have ok': "queue_ok (heap_e m') ?r []" using D(7) by (simp add: queue_ok_def)
  have "mem_rep m' (P(q \<mapsto> [])) (Q(q \<mapsto> data_of (heap_e m') []))"
    by (rule mem_rep_update [OF rep P _ _ _ m'(3) ok']) (simp_all add: m')
  with m' r xs show ?thesis by (simp add: queue_remove_all_def)
qed

text \<open>Allocation and release of the queue structure.\<close>

lemma queue_new_rep:
  assumes rep: "mem_rep m P Q"
  shows "\<exists>q m' P'. queue_new m = Some (Some q, m') \<and> Q q = None \<and> mem_rep m' P' (Q(q \<mapsto> [])) \<and>
           qmem.more m' = qmem.more m"
proof -
  let ?q = "brk m" and ?r = "\<lparr>ref_count = 1, q_head = None, q_tail = None, q_entries = 0\<rparr>"
  define m' where "m' = set_q (set_q (m\<lparr>brk := Suc ?q\<rparr>) ?q (?r\<lparr>ref_count := 0\<rparr>)) ?q ?r"
  have eq: "queue_new m = Some (Some ?q, m')"
    by (simp add: queue_new_def queue_ref_def m'_def Let_def set_q_def)
  have m': "heap_e m' = heap_e m" "heap_q m' = (heap_q m)(?q \<mapsto> ?r)" "brk m' = Suc ?q" "qmem.more m' = qmem.more m"
    by (simp_all add: m'_def set_q_def)
  have Pq: "P ?q = None" using mem_rep_fresh [OF rep, of ?q] mem_rep_dom [OF rep] by auto
  have "mem_rep m' (P(?q \<mapsto> [])) (Q(?q \<mapsto> []))"
  proof (rule mem_repI)
    show "dom (P(?q \<mapsto> [])) = dom (heap_q m')" using mem_rep_dom [OF rep] m' by simp
    show "queue_ok (heap_e m') r ps" if "heap_q m' q = Some r" "(P(?q \<mapsto> [])) q = Some ps" for q r ps
      using that m' mem_rep_P [OF rep, of q r] by (cases "q = ?q") (auto simp add: queue_ok_def)
    show "(Q(?q \<mapsto> [])) q = map_option (data_of (heap_e m')) ((P(?q \<mapsto> [])) q)" for q
      using m' mem_rep_Q [OF rep, of q] by auto
    show "q = q'" if "(P(?q \<mapsto> [])) q = Some ps" "(P(?q \<mapsto> [])) q' = Some ps'" "a \<in> set ps" "a \<in> set ps'" for a q ps q' ps'
      using that mem_rep_disj [OF rep, of q ps q' ps' a] by (auto split: if_splits)
    show "heap_e m' a \<noteq> None \<longleftrightarrow> (\<exists>q ps. (P(?q \<mapsto> [])) q = Some ps \<and> a \<in> set ps)" for a
      using mem_rep_live [OF rep, of a] Pq m' by (auto split: if_splits) (metis option.distinct(1))
    show "heap_e m' a = None \<and> heap_q m' a = None" if "brk m' \<le> a" for a
      using that m' mem_rep_fresh [OF rep, of a] by auto
  qed
  moreover have "Q ?q = None" using Pq mem_rep_Q [OF rep, of ?q] by simp
  ultimately show ?thesis using eq m' by blast
qed

lemma mem_rep_free_q:
  assumes rep: "mem_rep m P Q" and "P q = Some []"
  shows "mem_rep (m\<lparr>heap_q := (heap_q m)(q := None)\<rparr>) (P(q := None)) (Q(q := None))"
proof (rule mem_repI)
  let ?m = "m\<lparr>heap_q := (heap_q m)(q := None)\<rparr>"
  show "dom (P(q := None)) = dom (heap_q ?m)" using mem_rep_dom [OF rep] by simp
  show "queue_ok (heap_e ?m) r ps" if "heap_q ?m q' = Some r" "(P(q := None)) q' = Some ps" for q' r ps
    using that mem_rep_P [OF rep, of q' r] by (auto split: if_splits)
  show "(Q(q := None)) q' = map_option (data_of (heap_e ?m)) ((P(q := None)) q')" for q'
    using mem_rep_Q [OF rep, of q'] by auto
  show "q1 = q2" if "(P(q := None)) q1 = Some ps" "(P(q := None)) q2 = Some ps'" "a \<in> set ps" "a \<in> set ps'" for a q1 ps q2 ps'
    using that mem_rep_disj [OF rep, of q1 ps q2 ps' a] by (auto split: if_splits)
  show "heap_e ?m a \<noteq> None \<longleftrightarrow> (\<exists>q' ps. (P(q := None)) q' = Some ps \<and> a \<in> set ps)" for a
    using mem_rep_live [OF rep, of a] assms(2) by (auto split: if_splits) (metis empty_iff list.set(1) option.inject)
  show "heap_e ?m a = None \<and> heap_q ?m a = None" if "brk ?m \<le> a" for a
    using that mem_rep_fresh [OF rep, of a] by auto
qed

lemma queue_destroy_rep:
  assumes rep: "mem_rep m P Q" and Q: "Q q = Some xs" and g: "\<forall>g. destroy = Some g \<longrightarrow> client_only g G"
    and none: "destroy = None \<longrightarrow> G = (\<lambda>_ s. s)" and r: "heap_q m q = Some r" and one: "ref_count r = 1"
  shows "\<exists>m'. queue_destroy m (Some q) destroy = Some m' \<and> mem_rep m' (P(q := None)) (Q(q := None)) \<and>
           qmem.more m' = fold G xs (qmem.more m)"
proof -
  obtain m1 where m1: "queue_remove_all m (Some q) None destroy = Some (of_nat (length xs), m1)"
      "mem_rep m1 (P(q \<mapsto> [])) (Q(q \<mapsto> []))" "qmem.more m1 = fold G xs (qmem.more m)"
      "heap_q m1 = (heap_q m)(q \<mapsto> r\<lparr>q_head := None, q_tail := None, q_entries := 0\<rparr>)"
    using queue_remove_all_rep [OF rep Q g none] r by auto
  let ?m2 = "m1\<lparr>heap_q := (heap_q m1)(q := None)\<rparr>"
  have "queue_unref m1 q = Some ?m2"
    using m1(4) one by (simp add: queue_unref_def set_q_def free_q_def Let_def fun_upd_idem)
  moreover have "mem_rep ?m2 (P(q := None)) (Q(q := None))"
    using mem_rep_free_q [OF m1(2), of q] by simp
  ultimately show ?thesis using m1 by (simp add: queue_destroy_def)
qed

section \<open>Iteration\<close>

lemma foreach_loop_client:
  assumes f: "client_only f F" and "chain (heap_e m) p ps None" and "heap_q m q = Some r"
    and "q_head r \<noteq> None" and "1 < ref_count r"
  shows "foreach_loop f q p m = Some (qmem.more_update (fold F (data_of (heap_e m) ps)) m)"
  using assms(2,3)
proof (induction ps arbitrary: p m)
  case Nil
  then show ?case by (cases m) (simp add: foreach_loop.simps)
next
  case (Cons a ps)
  then obtain e where e: "p = Some a" "heap_e m a = Some e" "chain (heap_e m) (e_next e) ps None" by auto
  let ?m = "qmem.more_update (F (e_data e)) m"
  have "foreach_loop f q p m = foreach_loop f q (e_next e) ?m"
    using e Cons.prems assms(4,5) f by (subst foreach_loop.simps) (auto simp add: client_only_def)
  also have "\<dots> = Some (qmem.more_update (fold F (data_of (heap_e ?m) ps)) ?m)"
    by (rule Cons.IH) (use e Cons.prems in simp_all)
  finally show ?case using e by (cases m) simp
qed

text \<open>With a callback that leaves the queues alone every datum is visited once, in order.\<close>

lemma queue_foreach_client:
  assumes f: "client_only f F" and rep: "mem_rep m P Q" and Q: "Q q = Some xs"
  shows "queue_foreach m (Some q) (Some f) = Some (qmem.more_update (fold F xs) m)"
proof -
  obtain r ps where r: "heap_q m q = Some r" and ok: "queue_ok (heap_e m) r ps" and xs: "xs = data_of (heap_e m) ps"
    using rep Q by (rule mem_repE)
  note D = queue_okD [OF ok]
  show ?thesis
  proof (cases "q_head r")
    case None
    then have "xs = []" using D(3) xs by (auto split: if_splits)
    then show ?thesis using r None by (cases m) (simp add: queue_foreach_def)
  next
    case (Some a)
    let ?m = "set_q m q (r\<lparr>ref_count := ref_count r + 1\<rparr>)"
    have "foreach_loop f q (Some a) ?m = Some (qmem.more_update (fold F (data_of (heap_e ?m) ps)) ?m)"
      by (rule foreach_loop_client [OF f]) (use D Some in \<open>auto simp add: set_q_def\<close>)
    moreover have "heap_e ?m = heap_e m" by (simp add: set_q_def)
    moreover have "queue_unref (qmem.more_update G ?m) q = Some (qmem.more_update G m)" for G
      using r D(7) by (cases m) (auto simp add: queue_unref_def set_q_def Let_def fun_upd_idem)
    ultimately show ?thesis using r Some xs by (simp add: queue_foreach_def queue_ref_def)
  qed
qed

text \<open>
  A callback may destroy the very queue it is called for: the reference that \<open>queue_foreach\<close>
  holds keeps the structure alive, and its count tells the loop to stop.
\<close>

lemma queue_foreach_destroy:
  assumes rep: "mem_rep m P Q" and Q: "Q q = Some (x # xs)" and g: "\<forall>g. destroy = Some g \<longrightarrow> client_only g G"
    and none: "destroy = None \<longrightarrow> G = (\<lambda>_ s. s)" and r: "heap_q m q = Some r" and one: "ref_count r = 1"
  shows "\<exists>m'. queue_foreach m (Some q) (Some (\<lambda>d m. queue_destroy m (Some q) destroy)) = Some m' \<and>
           mem_rep m' (P(q := None)) (Q(q := None)) \<and> qmem.more m' = fold G (x # xs) (qmem.more m)"
proof -
  let ?f = "\<lambda>d m. queue_destroy m (Some q) destroy"
  obtain ps where P: "P q = Some ps" and ok: "queue_ok (heap_e m) r ps" and xs: "x # xs = data_of (heap_e m) ps"
    using rep Q r by (metis mem_repE option.inject)
  note D = queue_okD [OF ok]
  obtain a qs where ps: "ps = a # qs" using xs by (cases ps) auto
  obtain e where e: "heap_e m a = Some e" using D(8) ps by auto
  let ?r = "r\<lparr>ref_count := 2\<rparr>" and ?m = "set_q m q (r\<lparr>ref_count := 2\<rparr>)"
  have rep': "mem_rep ?m (P(q \<mapsto> ps)) (Q(q \<mapsto> data_of (heap_e ?m) ps))"
    by (rule mem_rep_update [OF rep P, where r' = ?r])
      (use ok rep_lt_brk [OF rep P] D(8) in \<open>auto simp add: set_q_def queue_ok_def\<close>)
  have Q': "(Q(q \<mapsto> data_of (heap_e ?m) ps)) q = Some (x # xs)" using xs by (simp add: set_q_def)
  obtain m1 where m1: "queue_remove_all ?m (Some q) None destroy = Some (of_nat (length (x # xs)), m1)"
      "mem_rep m1 (P(q \<mapsto> [])) (Q(q \<mapsto> []))" "qmem.more m1 = fold G (x # xs) (qmem.more m)"
      "heap_q m1 = (heap_q m)(q \<mapsto> ?r\<lparr>q_head := None, q_tail := None, q_entries := 0\<rparr>)"
    using queue_remove_all_rep [OF rep' Q' g none] r by (auto simp add: set_q_def fun_upd_def cong: if_cong)
  let ?r1 = "r\<lparr>q_head := None, q_tail := None, q_entries := 0, ref_count := 1\<rparr>"
  let ?m2 = "set_q m1 q ?r1"
  have m2: "?f d ?m = Some ?m2" for d
    using m1 by (simp add: queue_destroy_def queue_unref_def set_q_def Let_def)
  have hq: "heap_q ?m2 = (heap_q m)(q \<mapsto> ?r1)" using m1 by (simp add: set_q_def)
  have "foreach_loop ?f q (Some a) ?m = foreach_loop ?f q (e_next e) ?m2"
    using e r D(3) ps m2 by (subst foreach_loop.simps) (simp add: set_q_def)
  also have "\<dots> = Some ?m2"
    using hq by (subst foreach_loop.simps) (auto split: option.split)
  finally have loop: "foreach_loop ?f q (Some a) ?m = Some ?m2" .
  let ?m3 = "?m2\<lparr>heap_q := (heap_q ?m2)(q := None)\<rparr>"
  have unref: "queue_unref ?m2 q = Some ?m3"
    using hq by (simp add: queue_unref_def free_q_def Let_def set_q_def)
  have "mem_rep ?m2 (P(q \<mapsto> [], q \<mapsto> [])) (Q(q \<mapsto> [], q \<mapsto> data_of (heap_e ?m2) []))"
    by (rule mem_rep_update [OF m1(2), where r' = ?r1]) (auto simp add: set_q_def queue_ok_def)
  then have "mem_rep ?m3 (P(q \<mapsto> [], q \<mapsto> [], q := None)) (Q(q \<mapsto> [], q \<mapsto> data_of (heap_e ?m2) [], q := None))"
    by (rule mem_rep_free_q) simp
  then have "mem_rep ?m3 (P(q := None)) (Q(q := None))" by simp
  moreover have "qmem.more ?m3 = fold G (x # xs) (qmem.more m)" using m1(3) by (simp add: set_q_def)
  moreover have "queue_foreach m (Some q) (Some ?f) = Some ?m3"
    using r D(3) ps one loop unref by (simp add: queue_foreach_def queue_ref_def)
  ultimately show ?thesis by blast
qed

section \<open>The interface that clients use\<close>

text \<open>
  A client stores non-NULL data and knows a queue only as an opaque reference. The store is
  a map from references to lists; each operation changes the list of its own queue.
\<close>

locale queue_store =
  fixes rep :: "'m \<Rightarrow> ('q \<Rightarrow> 'a list option) \<Rightarrow> bool"
    and cap :: nat
    and new :: "'m \<Rightarrow> ('q \<times> 'm) option"
    and push_tail :: "'m \<Rightarrow> 'q \<Rightarrow> 'a \<Rightarrow> (bool \<times> 'm) option"
    and push_head :: "'m \<Rightarrow> 'q \<Rightarrow> 'a \<Rightarrow> (bool \<times> 'm) option"
    and pop_head :: "'m \<Rightarrow> 'q \<Rightarrow> ('a option \<times> 'm) option"
    and remove :: "'m \<Rightarrow> 'q \<Rightarrow> 'a \<Rightarrow> (bool \<times> 'm) option"
  assumes new: "rep m Q \<Longrightarrow> \<exists>q m'. new m = Some (q, m') \<and> Q q = None \<and> rep m' (Q(q \<mapsto> []))"
    and push_tail: "rep m Q \<Longrightarrow> Q q = Some xs \<Longrightarrow> length xs + 1 < cap \<Longrightarrow>
          \<exists>m'. push_tail m q d = Some (True, m') \<and> rep m' (Q(q \<mapsto> xs @ [d]))"
    and push_head: "rep m Q \<Longrightarrow> Q q = Some xs \<Longrightarrow> length xs + 1 < cap \<Longrightarrow>
          \<exists>m'. push_head m q d = Some (True, m') \<and> rep m' (Q(q \<mapsto> d # xs))"
    and pop_head: "rep m Q \<Longrightarrow> Q q = Some xs \<Longrightarrow>
          \<exists>m'. pop_head m q = Some (case xs of [] \<Rightarrow> None | x # _ \<Rightarrow> Some x, m') \<and> rep m' (Q(q \<mapsto> tl xs))"
    and remove: "rep m Q \<Longrightarrow> Q q = Some xs \<Longrightarrow>
          \<exists>m'. remove m q d = Some (d \<in> set xs, m') \<and> rep m' (Q(q \<mapsto> remove1 d xs))"

text \<open>Client code: pushing a list of data, and popping a number of them.\<close>

primrec push_each :: "('m \<Rightarrow> 'q \<Rightarrow> 'a \<Rightarrow> (bool \<times> 'm) option) \<Rightarrow> 'm \<Rightarrow> 'q \<Rightarrow> 'a list \<Rightarrow> 'm option" where
  "push_each push m q [] = Some m"
| "push_each push m q (d # ds) = do { (_, m) \<leftarrow> push m q d; push_each push m q ds }"

primrec pop_each :: "('m \<Rightarrow> 'q \<Rightarrow> ('a option \<times> 'm) option) \<Rightarrow> nat \<Rightarrow> 'm \<Rightarrow> 'q \<Rightarrow> ('a option list \<times> 'm) option" where
  "pop_each pop 0 m q = Some ([], m)"
| "pop_each pop (Suc n) m q = do { (d, m) \<leftarrow> pop m q; (ds, m) \<leftarrow> pop_each pop n m q; Some (d # ds, m) }"

context queue_store
begin

lemma push_each_rep:
  "rep m Q \<Longrightarrow> Q q = Some xs \<Longrightarrow> length xs + length ds < cap \<Longrightarrow>
   \<exists>m'. push_each push_tail m q ds = Some m' \<and> rep m' (Q(q \<mapsto> xs @ ds))"
proof (induction ds arbitrary: m Q xs)
  case Nil
  moreover from Nil have "Q(q \<mapsto> xs) = Q" by auto
  ultimately show ?case by auto
next
  case (Cons d ds)
  from push_tail [OF Cons.prems(1,2), of d] Cons.prems obtain m1 where
    m1: "push_tail m q d = Some (True, m1)" "rep m1 (Q(q \<mapsto> xs @ [d]))" by auto
  with Cons.IH [OF m1(2), of "xs @ [d]"] Cons.prems show ?case by (auto cong: if_cong simp add: fun_upd_def)
qed

lemma pop_each_rep:
  "rep m Q \<Longrightarrow> Q q = Some (xs @ ys) \<Longrightarrow>
   \<exists>m'. pop_each pop_head (length xs) m q = Some (map Some xs, m') \<and> rep m' (Q(q \<mapsto> ys))"
proof (induction xs arbitrary: m Q)
  case Nil
  moreover from Nil have "Q(q \<mapsto> ys) = Q" by auto
  ultimately show ?case by auto
next
  case (Cons x xs)
  from pop_head [OF Cons.prems] obtain m1 where
    m1: "pop_head m q = Some (Some x, m1)" "rep m1 (Q(q \<mapsto> xs @ ys))" by auto
  with Cons.IH [OF m1(2)] show ?case by (auto cong: if_cong simp add: fun_upd_def)
qed

text \<open>First in, first out.\<close>

lemma fifo:
  assumes "rep m Q" and "Q q = Some []" and "length ds < cap"
  shows "\<exists>m1 m2. push_each push_tail m q ds = Some m1 \<and>
           pop_each pop_head (length ds) m1 q = Some (map Some ds, m2) \<and> rep m2 Q"
proof -
  obtain m1 where m1: "push_each push_tail m q ds = Some m1" "rep m1 (Q(q \<mapsto> ds))"
    using push_each_rep [OF assms(1,2), of ds] assms(3) by auto
  obtain m2 where "pop_each pop_head (length ds) m1 q = Some (map Some ds, m2)" "rep m2 (Q(q \<mapsto> []))"
    using pop_each_rep [OF m1(2), of q ds "[]"] by auto
  moreover have "Q(q \<mapsto> []) = Q" using assms(2) by auto
  ultimately show ?thesis using m1 by auto
qed

text \<open>A datum pushed to the front is the next to leave, and removing it undoes the push.\<close>

lemma push_head_pop:
  assumes "rep m Q" and "Q q = Some xs" and "length xs + 1 < cap"
  shows "\<exists>m1 m2. push_head m q d = Some (True, m1) \<and> pop_head m1 q = Some (Some d, m2) \<and> rep m2 Q"
proof -
  obtain m1 where m1: "push_head m q d = Some (True, m1)" "rep m1 (Q(q \<mapsto> d # xs))"
    using push_head [OF assms] by blast
  obtain m2 where "pop_head m1 q = Some (Some d, m2)" "rep m2 (Q(q \<mapsto> xs))"
    using pop_head [OF m1(2), of q "d # xs"] by auto
  moreover have "Q(q \<mapsto> xs) = Q" using assms(2) by auto
  ultimately show ?thesis using m1 by auto
qed

text \<open>A cancelled request is never delivered: after its removal the others leave in order.\<close>

lemma cancel_keeps_order:
  assumes "rep m Q" and "Q q = Some (xs @ d # ys)" and "d \<notin> set xs"
  shows "\<exists>m1 m2. remove m q d = Some (True, m1) \<and>
           pop_each pop_head (length (xs @ ys)) m1 q = Some (map Some (xs @ ys), m2) \<and> rep m2 (Q(q \<mapsto> []))"
proof -
  obtain m1 where m1: "remove m q d = Some (True, m1)" "rep m1 (Q(q \<mapsto> xs @ ys))"
    using remove [OF assms(1,2), of d] assms(3) by (auto simp add: remove1_append)
  then show ?thesis using pop_each_rep [OF m1(2), of q "xs @ ys" "[]"] by auto
qed

end

text \<open>The heap model provides it.\<close>

definition heap_rep :: "('d, 'm) qmem_scheme \<Rightarrow> (addr \<Rightarrow> 'd list option) \<Rightarrow> bool" where
  "heap_rep m Q \<longleftrightarrow> (\<exists>P. mem_rep m P (\<lambda>q. map_option (map Some) (Q q)))"

lemma heap_repI:
  assumes "mem_rep m P ((\<lambda>q. map_option (map Some) (Q q))(q \<mapsto> ys))" and "ys = map Some xs"
  shows "heap_rep m (Q(q \<mapsto> xs))"
proof -
  have "(\<lambda>q'. map_option (map Some) ((Q(q \<mapsto> xs)) q')) = (\<lambda>q'. map_option (map Some) (Q q'))(q \<mapsto> map Some xs)"
    by auto
  with assms show ?thesis unfolding heap_rep_def by (intro exI [of _ P]) (simp only:)
qed

lemma remove1_map_Some: "remove1 (Some d) (map Some xs) = map Some (remove1 d xs)"
  by (induction xs) auto

interpretation heap_queue: queue_store heap_rep "2 ^ 32"
  "\<lambda>m. do { (q, m) \<leftarrow> queue_new m; q \<leftarrow> q; Some (q, m) }"
  "\<lambda>m q d. queue_push_tail m (Some q) (Some d)"
  "\<lambda>m q d. queue_push_head m (Some q) (Some d)"
  "\<lambda>m q. queue_pop_head m (Some q)"
  "\<lambda>m q d. queue_remove m (Some q) (Some d)"
proof
  fix m :: "('a, 'b) qmem_scheme" and Q :: "addr \<Rightarrow> 'a list option"
  assume "heap_rep m Q"
  then obtain P where rep: "mem_rep m P (\<lambda>q. map_option (map Some) (Q q))" by (auto simp add: heap_rep_def)
  show "\<exists>q m'. queue_new m \<bind> (\<lambda>(q, m). q \<bind> (\<lambda>q. Some (q, m))) = Some (q, m') \<and> Q q = None \<and> heap_rep m' (Q(q \<mapsto> []))"
  proof -
    obtain q m' P' where q: "queue_new m = Some (Some q, m')" "map_option (map Some) (Q q) = None"
      "mem_rep m' P' ((\<lambda>q. map_option (map Some) (Q q))(q \<mapsto> []))"
      using queue_new_rep [OF rep] by (elim exE conjE) (rule that; assumption)
    have "heap_rep m' (Q(q \<mapsto> []))" using q(3) by (rule heap_repI) simp
    with q(1,2) show ?thesis by (intro exI [of _ q] exI [of _ m']) simp
  qed
  fix q xs d assume Q: "Q q = Some xs"
  then have Q': "(\<lambda>q. map_option (map Some) (Q q)) q = Some (map Some xs)" by simp
  show "\<exists>m'. queue_push_tail m (Some q) (Some d) = Some (True, m') \<and> heap_rep m' (Q(q \<mapsto> xs @ [d]))"
    if "length xs + 1 < 2 ^ 32"
  proof -
    have len: "length (map Some xs) + 1 < 2 ^ 32" using that by simp
    obtain m' P' where "queue_push_tail m (Some q) (Some d) = Some (True, m')"
      "mem_rep m' P' ((\<lambda>q. map_option (map Some) (Q q))(q \<mapsto> map Some xs @ [Some d]))"
      using queue_push_tail_rep [OF rep Q' len, of "Some d"] by (elim exE conjE) (rule that; assumption)
    then show ?thesis by (intro exI conjI) (assumption, erule heap_repI, simp)
  qed
  show "\<exists>m'. queue_push_head m (Some q) (Some d) = Some (True, m') \<and> heap_rep m' (Q(q \<mapsto> d # xs))"
    if "length xs + 1 < 2 ^ 32"
  proof -
    have len: "length (map Some xs) + 1 < 2 ^ 32" using that by simp
    obtain m' P' where "queue_push_head m (Some q) (Some d) = Some (True, m')"
      "mem_rep m' P' ((\<lambda>q. map_option (map Some) (Q q))(q \<mapsto> Some d # map Some xs))"
      using queue_push_head_rep [OF rep Q' len, of "Some d"] by (elim exE conjE) (rule that; assumption)
    then show ?thesis by (intro exI conjI) (assumption, erule heap_repI, simp)
  qed
  show "\<exists>m'. queue_pop_head m (Some q) = Some (case xs of [] \<Rightarrow> None | x # _ \<Rightarrow> Some x, m') \<and> heap_rep m' (Q(q \<mapsto> tl xs))"
  proof (cases xs)
    case Nil
    then have "Q(q \<mapsto> tl xs) = Q" using Q by auto
    then show ?thesis using Nil queue_pop_head_rep_Nil [OF rep] Q' \<open>heap_rep m Q\<close> by simp
  next
    case (Cons y ys)
    have Qy: "(\<lambda>q. map_option (map Some) (Q q)) q = Some (Some y # map Some ys)" using Q Cons by simp
    obtain m' P' where "queue_pop_head m (Some q) = Some (Some y, m')"
      "mem_rep m' P' ((\<lambda>q. map_option (map Some) (Q q))(q \<mapsto> map Some ys))"
      using queue_pop_head_rep [OF rep Qy] by (elim exE conjE) (rule that; assumption)
    then show ?thesis using Cons by (intro exI conjI) (simp, erule heap_repI, simp)
  qed
  show "\<exists>m'. queue_remove m (Some q) (Some d) = Some (d \<in> set xs, m') \<and> heap_rep m' (Q(q \<mapsto> remove1 d xs))"
  proof -
    obtain m' P' where "queue_remove m (Some q) (Some d) = Some (Some d \<in> set (map Some xs), m')"
      "mem_rep m' P' ((\<lambda>q. map_option (map Some) (Q q))(q \<mapsto> map Some (remove1 d xs)))"
      using queue_remove_rep [OF rep Q', of "Some d"] unfolding remove1_map_Some
      by (elim exE conjE) (rule that; assumption)
    then show ?thesis by (intro exI conjI) (auto elim: heap_repI)
  qed
qed

section \<open>Properties\<close>

text \<open>A memory with one queue of two data, for the concrete instances below.\<close>

definition mem2 :: "(nat, nat list) qmem_ext" where
  "mem2 = \<lparr>heap_e = [1 \<mapsto> \<lparr>e_data = Some 10, e_next = Some 2\<rparr>, 2 \<mapsto> \<lparr>e_data = Some 20, e_next = None\<rparr>],
     heap_q = [0 \<mapsto> \<lparr>ref_count = 1, q_head = Some 1, q_tail = Some 2, q_entries = 2\<rparr>], brk = 3, \<dots> = []\<rparr>"

lemma mem2_rep: "mem_rep mem2 [0 \<mapsto> [1, 2]] [0 \<mapsto> [Some 10, Some 20]]"
  by (rule mem_repI) (auto simp add: mem2_def queue_ok_def split: if_splits)

lemma mem2_heap_rep: "heap_rep mem2 [0 \<mapsto> [10, 20]]"
proof -
  have "(\<lambda>q. map_option (map Some) ([0 :: addr \<mapsto> [10, 20 :: nat]] q)) = [0 \<mapsto> [Some 10, Some 20]]"
    by (auto simp add: fun_eq_iff)
  then show ?thesis unfolding heap_rep_def using mem2_rep by (intro exI [of _ "[0 \<mapsto> [1, 2]]"]) (simp only:)
qed

lemma client_cons: "client_only (\<lambda>d m. Some (qmem.more_update (\<lambda>s. (case d of Some x \<Rightarrow> x # s | None \<Rightarrow> s)) m))
    (\<lambda>d s. case d of Some x \<Rightarrow> x # s | None \<Rightarrow> s)"
  by (simp add: client_only_def)

text \<open>C33. First in, first out: in a well-formed memory, pushing any list of data to the tail of an empty queue
  and popping as often gives back exactly these data in their order, without an invalid memory
  access, and leaves every queue of the memory as it was.\<close>

theorem queue_fifo:
  assumes "heap_rep m Q" and "Q q = Some []" and "length ds < 2 ^ 32"
  shows "\<exists>m1 m2. push_each (\<lambda>m q d. queue_push_tail m (Some q) (Some d)) m q ds = Some m1 \<and>
           pop_each (\<lambda>m q. queue_pop_head m (Some q)) (length ds) m1 q = Some (map Some ds, m2) \<and> heap_rep m2 Q"
  using assms by (rule heap_queue.fifo)

lemma heap_rep_empty_queue:
  "heap_rep \<lparr>heap_e = Map.empty, heap_q = [0 \<mapsto> \<lparr>ref_count = 1, q_head = None, q_tail = None, q_entries = 0\<rparr>],
     brk = 1, \<dots> = ()\<rparr> [0 \<mapsto> ([] :: nat list)]"
  unfolding heap_rep_def
  by (rule exI [of _ "[0 \<mapsto> []]"], rule mem_repI) (auto simp add: queue_ok_def split: if_splits)

theorem queue_fifo_witness:
  "\<exists>m1 m2. push_each (\<lambda>m q d. queue_push_tail m (Some q) (Some d))
       \<lparr>heap_e = Map.empty, heap_q = [0 \<mapsto> \<lparr>ref_count = 1, q_head = None, q_tail = None, q_entries = 0\<rparr>],
         brk = 1, \<dots> = ()\<rparr> 0 [7, 8, 9 :: nat] = Some m1 \<and>
     pop_each (\<lambda>m q. queue_pop_head m (Some q)) 3 m1 0 = Some ([Some 7, Some 8, Some 9], m2) \<and>
     heap_rep m2 [0 \<mapsto> []]"
  using queue_fifo [OF heap_rep_empty_queue, of 0 "[7, 8, 9]"] by (simp add: numeral_3_eq_3)

text \<open>Cancelling: removing a stored datum (its first occurrence) succeeds, and the data before and
  behind it still leave in order.\<close>

theorem queue_remove_keeps_order:
  assumes "heap_rep m Q" and "Q q = Some (xs @ d # ys)" and "d \<notin> set xs"
  shows "\<exists>m1 m2. queue_remove m (Some q) (Some d) = Some (True, m1) \<and>
           pop_each (\<lambda>m q. queue_pop_head m (Some q)) (length (xs @ ys)) m1 q = Some (map Some (xs @ ys), m2) \<and>
           heap_rep m2 (Q(q \<mapsto> []))"
  using assms by (rule heap_queue.cancel_keeps_order)

theorem queue_remove_keeps_order_witness:
  "\<exists>m1 m2. queue_remove mem2 (Some 0) (Some 20) = Some (True, m1) \<and>
     pop_each (\<lambda>m q. queue_pop_head m (Some q)) 1 m1 0 = Some ([Some 10], m2) \<and> heap_rep m2 [0 \<mapsto> []]"
  using queue_remove_keeps_order [OF mem2_heap_rep, of 0 "[10]" 20 "[]"] by simp

text \<open>\<open>queue_push_after\<close> succeeds exactly when the datum it looks for is stored, and inserts behind its
  first occurrence; no other queue changes.\<close>

theorem queue_push_after_inserts:
  assumes "mem_rep m P Q" and "Q q = Some xs" and "length xs + 1 < 2 ^ 32"
  shows "\<exists>m' P'. queue_push_after m (Some q) y d = Some (y \<in> set xs, m') \<and>
           mem_rep m' P' (Q(q \<mapsto> insert_after y d xs)) \<and> qmem.more m' = qmem.more m"
  using assms by (rule queue_push_after_rep)

theorem queue_push_after_inserts_witness:
  "\<exists>m' P'. queue_push_after mem2 (Some 0) (Some 10) (Some 15) = Some (True, m') \<and>
     mem_rep m' P' [0 \<mapsto> [Some 10, Some 15, Some 20]] \<and> qmem.more m' = []"
  using queue_push_after_inserts [OF mem2_rep, of 0 _ "Some 10" "Some 15"] by (simp add: mem2_def)

text \<open>\<open>queue_remove_all\<close> with a match function ends, removes exactly the matching data, gives each of them
  once and in order to the destructor, and returns their number.\<close>

theorem queue_remove_all_filters:
  assumes "mem_rep m P Q" and "Q q = Some xs" and "client_only g G"
  shows "\<exists>m' P'. queue_remove_all m (Some q) (Some f) (Some g) = Some (of_nat (length (filter f xs)), m') \<and>
           mem_rep m' P' (Q(q \<mapsto> filter (\<lambda>x. \<not> f x) xs)) \<and> qmem.more m' = fold G (filter f xs) (qmem.more m)"
  by (rule queue_remove_all_matching_rep [OF assms(1,2)]) (use assms(3) in auto)

theorem queue_remove_all_filters_witness:
  "\<exists>m' P'. queue_remove_all mem2 (Some 0) (Some (\<lambda>d. d = Some 10))
        (Some (\<lambda>d m. Some (qmem.more_update (\<lambda>s. (case d of Some x \<Rightarrow> x # s | None \<Rightarrow> s)) m))) = Some (1, m') \<and>
      mem_rep m' P' [0 \<mapsto> [Some 20]] \<and> qmem.more m' = [10]"
  using queue_remove_all_filters [OF mem2_rep _ client_cons, of 0 _ "\<lambda>d. d = Some 10"]
  by (simp add: mem2_def)

text \<open>Destroying a queue from inside its own iteration is safe: \<open>queue_foreach\<close> stops after that call,
  each datum is given to the destructor exactly once, and both the entries and the structure are freed.\<close>

theorem queue_foreach_survives_destroy:
  assumes "mem_rep m P Q" and "Q q = Some (x # xs)" and "client_only g G"
    and "heap_q m q = Some r" and "ref_count r = 1"
  shows "\<exists>m'. queue_foreach m (Some q) (Some (\<lambda>d m. queue_destroy m (Some q) (Some g))) = Some m' \<and>
           mem_rep m' (P(q := None)) (Q(q := None)) \<and> qmem.more m' = fold G (x # xs) (qmem.more m)"
  by (rule queue_foreach_destroy [OF assms(1,2) _ _ assms(4,5)]) (use assms(3) in auto)

theorem queue_foreach_survives_destroy_witness:
  "\<exists>m'. queue_foreach mem2 (Some 0) (Some (\<lambda>d m. queue_destroy m (Some 0)
      (Some (\<lambda>d m. Some (qmem.more_update (\<lambda>s. (case d of Some x \<Rightarrow> x # s | None \<Rightarrow> s)) m))))) = Some m' \<and>
      mem_rep m' Map.empty Map.empty \<and> qmem.more m' = [20, 10]"
  using queue_foreach_survives_destroy [OF mem2_rep _ client_cons,
      of 0 "Some 10" "[Some 20]" "\<lparr>ref_count = 1, q_head = Some 1, q_tail = Some 2, q_entries = 2\<rparr>"]
  by (simp add: mem2_def)

text \<open>The protection does not extend to single entries: a callback of \<open>queue_foreach\<close> that removes the entry
  behind the current one makes the loop read the freed entry.\<close>

theorem queue_foreach_remove_next_is_use_after_free:
  "queue_foreach mem2 (Some 0)
     (Some (\<lambda>d m. map_option snd (queue_remove m (Some 0) (Some 20)))) = None"
  by (simp add: queue_foreach_def queue_ref_def mem2_def foreach_loop.simps find_prev.simps queue_remove_def
      unlink_def set_next_def set_e_def free_e_def set_q_def)

end
