(* ===== verification/Uuid.thy ===== *)
theory Uuid
  imports Bytes
begin

text \<open>
  \<^verbatim>\<open>bluez/lib/uuid.c\<close> and \<^verbatim>\<open>uuid.h\<close>: Bluetooth UUIDs of 16, 32 and 128 bits, their
  expansion over the Bluetooth base UUID, comparison, printing, parsing and the little-endian wire
  form. The conversions of the standard library that the code uses are written out as the C standard
  defines them: \<open>snprintf\<close> of \<open>%.8x\<close>, \<open>sscanf\<close> of \<open>%08x\<close>, \<open>%04hx\<close> and \<open>%1[..]\<close>, and
  \<open>strtol\<close> in base 16. \<open>bswap_128\<close> and \<open>bt_put_le16\<close> belong to \<^verbatim>\<open>bluetooth.h\<close>,
  which is not part of the sources; they are parameters.
\<close>

section \<open>Data\<close>

text \<open>The tagged union. The 16 bytes of a 128-bit UUID are in big-endian order.\<close>

datatype bt_uuid = BT_UUID_UNSPEC | BT_UUID16 u16 | BT_UUID32 u32 | BT_UUID128 "u8 list"

definition uuid_wf :: "bt_uuid \<Rightarrow> bool" where
  "uuid_wf u = (case u of BT_UUID128 d \<Rightarrow> length d = 16 | BT_UUID_UNSPEC \<Rightarrow> False | _ \<Rightarrow> True)"


definition bluetooth_base_uuid :: "u8 list" where
  "bluetooth_base_uuid = [0x00, 0x00, 0x00, 0x00, 0x00, 0x00, 0x10, 0x00,
                          0x80, 0x00, 0x00, 0x80, 0x5F, 0x9B, 0x34, 0xFB]"

definition bt_uuid_len :: "bt_uuid \<Rightarrow> nat" where
  "bt_uuid_len u = (case u of BT_UUID_UNSPEC \<Rightarrow> 0 | BT_UUID16 _ \<Rightarrow> 16 | BT_UUID32 _ \<Rightarrow> 32 | BT_UUID128 _ \<Rightarrow> 128) div 8"

section \<open>Expansion and comparison\<close>

text \<open>
  \<open>htons\<close> followed by a copy of the two bytes is a big-endian store on every host
  (lemma \<open>put_on_eq\<close>).
\<close>

definition bt_uuid16_to_uuid128 :: "u16 \<Rightarrow> bt_uuid option" where
  "bt_uuid16_to_uuid128 v = map_option BT_UUID128 (put_be16 v bluetooth_base_uuid 2)"

definition bt_uuid32_to_uuid128 :: "u32 \<Rightarrow> bt_uuid option" where
  "bt_uuid32_to_uuid128 v = map_option BT_UUID128 (put_be32 v bluetooth_base_uuid 0)"

text \<open>The destination keeps its contents for an unspecified type; \<open>None\<close> there is an uninitialised object.\<close>

definition bt_uuid_to_uuid128 :: "bt_uuid \<Rightarrow> bt_uuid option \<Rightarrow> bt_uuid option" where
  "bt_uuid_to_uuid128 src dst = (case src of
     BT_UUID128 d \<Rightarrow> Some (BT_UUID128 d)
   | BT_UUID32 v \<Rightarrow> bt_uuid32_to_uuid128 v
   | BT_UUID16 v \<Rightarrow> bt_uuid16_to_uuid128 v
   | BT_UUID_UNSPEC \<Rightarrow> dst)"

text \<open>\<open>memcmp\<close>, of which C specifies only the sign; here its result is -1, 0 or 1.\<close>

fun memcmp :: "u8 list \<Rightarrow> u8 list \<Rightarrow> int" where
  "memcmp (x # xs) (y # ys) = (if x = y then memcmp xs ys else if x < y then - 1 else 1)"
| "memcmp _ _ = 0"

definition bt_uuid128_cmp :: "bt_uuid \<Rightarrow> bt_uuid \<Rightarrow> int option" where
  "bt_uuid128_cmp u1 u2 = (case (u1, u2) of (BT_UUID128 d1, BT_UUID128 d2) \<Rightarrow> Some (memcmp d1 d2) | _ \<Rightarrow> None)"

definition bt_uuid_cmp :: "bt_uuid \<Rightarrow> bt_uuid \<Rightarrow> int option" where
  "bt_uuid_cmp uuid1 uuid2 = do {
     u1 \<leftarrow> bt_uuid_to_uuid128 uuid1 None;
     u2 \<leftarrow> bt_uuid_to_uuid128 uuid2 None;
     bt_uuid128_cmp u1 u2 }"

definition bt_uuid16_create :: "u16 \<Rightarrow> int \<times> bt_uuid" where
  "bt_uuid16_create v = (0, BT_UUID16 v)"
definition bt_uuid32_create :: "u32 \<Rightarrow> int \<times> bt_uuid" where
  "bt_uuid32_create v = (0, BT_UUID32 v)"
definition bt_uuid128_create :: "u8 list \<Rightarrow> int \<times> bt_uuid" where
  "bt_uuid128_create v = (0, BT_UUID128 v)"

section \<open>Conversions of the standard library\<close>

definition hex_char :: "nat \<Rightarrow> char" where
  "hex_char n = ''0123456789abcdef'' ! n"

definition hex_val :: "char \<Rightarrow> nat option" where
  "hex_val c = (let n = of_char c :: nat in
     if 48 \<le> n \<and> n \<le> 57 then Some (n - 48)
     else if 97 \<le> n \<and> n \<le> 102 then Some (n - 87)
     else if 65 \<le> n \<and> n \<le> 70 then Some (n - 55)
     else None)"

definition hexd :: "char \<Rightarrow> bool" where "hexd c \<longleftrightarrow> hex_val c \<noteq> None"

definition is_space :: "char \<Rightarrow> bool" where
  "is_space c \<longleftrightarrow> (let n = of_char c :: nat in n = 32 \<or> 9 \<le> n \<and> n \<le> 13)"

definition hex_num :: "string \<Rightarrow> nat" where
  "hex_num ds = foldl (\<lambda>a c. 16 * a + the (hex_val c)) 0 ds"

text \<open>\<open>%.px\<close>: the digits of the number, padded with zeros to the precision.\<close>

fun hex_digits :: "nat \<Rightarrow> string" where
  "hex_digits n = (if n = 0 then [] else hex_digits (n div 16) @ [hex_char (n mod 16)])"

declare hex_digits.simps [simp del]

definition print_hex :: "nat \<Rightarrow> nat \<Rightarrow> string" where
  "print_hex p n = replicate (p - length (hex_digits n)) (CHR ''0'') @ hex_digits n"

text \<open>A sign, and the prefix \<open>0x\<close>.\<close>

definition scan_sign :: "string \<Rightarrow> bool \<times> string" where
  "scan_sign s = (case s of
     [] \<Rightarrow> (False, [])
   | c # r \<Rightarrow> if c = CHR ''-'' then (True, r) else if c = CHR ''+'' then (False, r) else (False, s))"

definition is_0x :: "string \<Rightarrow> bool" where
  "is_0x s = (case s of a # b # _ \<Rightarrow> a = CHR ''0'' \<and> (b = CHR ''x'' \<or> b = CHR ''X'') | _ \<Rightarrow> False)"

text \<open>
  \<open>%wx\<close>: white space, then an input item of at most \<open>w\<close> characters; the value and the rest
  of the input, \<open>None\<close> for a matching failure.
\<close>

definition scan_hex :: "nat \<Rightarrow> string \<Rightarrow> (int \<times> string) option" where
  "scan_hex w s = (let
     s = dropWhile is_space s;
     (neg, body) = scan_sign (take w s);
     body = (if is_0x body then drop 2 body else body);
     ds = takeWhile hexd body;
     used = (min w (length s) - length body) + length ds
   in if ds = [] then None
      else Some (if neg then - int (hex_num ds) else int (hex_num ds), drop used s))"

text \<open>Ordinary characters of a format, and \<open>%1[cd]\<close>.\<close>

definition scan_lit :: "string \<Rightarrow> string \<Rightarrow> string option" where
  "scan_lit l s = (if take (length l) s = l then Some (drop (length l) s) else None)"

definition scan_set :: "string \<Rightarrow> string \<Rightarrow> string option" where
  "scan_set cs s = (case s of [] \<Rightarrow> None | c # r \<Rightarrow> if c \<in> set cs then Some r else None)"

text \<open>\<open>strtol(s, &endptr, 16)\<close>: the value and the string from \<open>endptr\<close> on.\<close>

definition strtol16 :: "string \<Rightarrow> int \<times> string" where
  "strtol16 s = (let
     (neg, body) = scan_sign (dropWhile is_space s);
     body = (if is_0x body \<and> takeWhile hexd (drop 2 body) \<noteq> [] then drop 2 body else body);
     ds = takeWhile hexd body;
     v = (if neg then - int (hex_num ds) else int (hex_num ds))
   in if ds = [] then (0, s)
      else (max (- (2 ^ 63)) (min (2 ^ 63 - 1) v), drop (length ds) body))"

section \<open>Printing\<close>

text \<open>The number of a field: \<open>ntohl\<close> or \<open>ntohs\<close> of the copied bytes.\<close>

definition be_num :: "u8 list \<Rightarrow> nat" where
  "be_num bs = foldl (\<lambda>a b. 256 * a + unat b) 0 bs"

definition uuid_text :: "u8 list \<Rightarrow> string" where
  "uuid_text data = print_hex 8 (be_num (take 4 data)) @ ''-'' @
     print_hex 4 (be_num (take 2 (drop 4 data))) @ ''-'' @
     print_hex 4 (be_num (take 2 (drop 6 data))) @ ''-'' @
     print_hex 4 (be_num (take 2 (drop 8 data))) @ ''-'' @
     print_hex 8 (be_num (take 4 (drop 10 data))) @ print_hex 4 (be_num (take 2 (drop 14 data)))"

text \<open>
  \<open>snprintf(str, n, ...)\<close> stores at most \<open>n - 1\<close> characters and a terminator, nothing when
  \<open>n\<close> is zero.
\<close>

definition snprintf :: "nat \<Rightarrow> string \<Rightarrow> string option" where
  "snprintf n s = (if n = 0 then None else Some (take (n - 1) s))"

definition bt_uuid_to_string :: "bt_uuid option \<Rightarrow> nat \<Rightarrow> (int \<times> string option) option" where
  "bt_uuid_to_string uuid n = (case uuid of
     None \<Rightarrow> Some (- EINVAL, snprintf n ''NULL'')
   | Some u \<Rightarrow> if u = BT_UUID_UNSPEC then Some (- EINVAL, snprintf n ''NULL'')
     else do {
       tmp \<leftarrow> bt_uuid_to_uuid128 u None;
       (case tmp of BT_UUID128 data \<Rightarrow> Some (0, snprintf n (uuid_text data)) | _ \<Rightarrow> None) })"

section \<open>Parsing\<close>

definition is_uuid128 :: "string \<Rightarrow> bool" where
  "is_uuid128 s \<longleftrightarrow> length s = 36 \<and> s ! 8 = CHR ''-'' \<and> s ! 13 = CHR ''-'' \<and> s ! 18 = CHR ''-'' \<and> s ! 23 = CHR ''-''"

text \<open>All five conversions of the format were assigned.\<close>

definition is_base_uuid128 :: "string \<Rightarrow> bool" where
  "is_base_uuid128 s \<longleftrightarrow> is_uuid128 s \<and>
     do { s \<leftarrow> scan_lit ''0000'' s;
          (uuid, s) \<leftarrow> scan_hex 4 s;
          s \<leftarrow> scan_lit ''-0000-1000-8000-00805'' s;
          s \<leftarrow> scan_set ''fF'' s;
          s \<leftarrow> scan_lit ''9'' s;
          s \<leftarrow> scan_set ''bB'' s;
          s \<leftarrow> scan_lit ''34'' s;
          s \<leftarrow> scan_set ''fF'' s;
          scan_set ''bB'' s } \<noteq> None"

definition is_uuid32 :: "string \<Rightarrow> bool" where
  "is_uuid32 s \<longleftrightarrow> length s = 8 \<or> length s = 10"

definition is_uuid16 :: "string \<Rightarrow> bool" where
  "is_uuid16 s \<longleftrightarrow> length s = 4 \<or> length s = 6"

text \<open>An error is the code returned, the UUID object being left as it was.\<close>

definition bt_string_to_uuid16 :: "string \<Rightarrow> int + bt_uuid" where
  "bt_string_to_uuid16 s = (let (v, endp) = strtol16 s in
     if endp = [] \<or> hd endp = CHR ''-'' then Inr (snd (bt_uuid16_create (of_int v))) else Inl (- EINVAL))"

definition bt_string_to_uuid32 :: "string \<Rightarrow> int + bt_uuid" where
  "bt_string_to_uuid32 s = (let (v, endp) = strtol16 s in
     if endp = [] then Inr (snd (bt_uuid32_create (of_int v))) else Inl (- EINVAL))"

definition scan_uuid128 :: "string \<Rightarrow> (u32 \<times> u16 \<times> u16 \<times> u16 \<times> u32 \<times> u16) option" where
  "scan_uuid128 s = do {
     (data0, s) \<leftarrow> scan_hex 8 s; s \<leftarrow> scan_lit ''-'' s;
     (data1, s) \<leftarrow> scan_hex 4 s; s \<leftarrow> scan_lit ''-'' s;
     (data2, s) \<leftarrow> scan_hex 4 s; s \<leftarrow> scan_lit ''-'' s;
     (data3, s) \<leftarrow> scan_hex 4 s; s \<leftarrow> scan_lit ''-'' s;
     (data4, s) \<leftarrow> scan_hex 8 s;
     (data5, s) \<leftarrow> scan_hex 4 s;
     Some (of_int data0, of_int data1, of_int data2, of_int data3, of_int data4, of_int data5) }"

definition bt_string_to_uuid128 :: "string \<Rightarrow> int + bt_uuid" where
  "bt_string_to_uuid128 s = (case scan_uuid128 s of
     None \<Rightarrow> Inl (- EINVAL)
   | Some (data0, data1, data2, data3, data4, data5) \<Rightarrow>
       Inr (snd (bt_uuid128_create (rev (le_of_word 4 data0) @ rev (le_of_word 2 data1) @
         rev (le_of_word 2 data2) @ rev (le_of_word 2 data3) @ rev (le_of_word 4 data4) @
         rev (le_of_word 2 data5)))))"

definition bt_string_to_uuid :: "string \<Rightarrow> int + bt_uuid" where
  "bt_string_to_uuid s =
     (if is_base_uuid128 s then bt_string_to_uuid16 (drop 4 s)
      else if is_uuid128 s then bt_string_to_uuid128 s
      else if is_uuid32 s then bt_string_to_uuid32 s
      else if is_uuid16 s then bt_string_to_uuid16 s
      else Inl (- EINVAL))"

definition bt_uuid_strcmp :: "string \<Rightarrow> string \<Rightarrow> int option" where
  "bt_uuid_strcmp a b = (case bt_string_to_uuid a of
     Inl _ \<Rightarrow> Some (- EINVAL)
   | Inr u1 \<Rightarrow> (case bt_string_to_uuid b of Inl _ \<Rightarrow> Some (- EINVAL) | Inr u2 \<Rightarrow> bt_uuid_cmp u1 u2))"

section \<open>The wire form\<close>

definition bt_uuid_to_le ::
  "(u16 \<Rightarrow> buf \<Rightarrow> nat \<Rightarrow> buf option) \<Rightarrow> (u8 list \<Rightarrow> u8 list) \<Rightarrow> bt_uuid \<Rightarrow> buf \<Rightarrow> (int \<times> buf) option" where
  "bt_uuid_to_le bt_put_le16 bswap_128 src dst = (case src of
     BT_UUID16 v \<Rightarrow> map_option (Pair 0) (bt_put_le16 v dst 0)
   | BT_UUID32 v \<Rightarrow> do {
       uuid \<leftarrow> bt_uuid32_to_uuid128 v;
       (case uuid of BT_UUID128 d \<Rightarrow> map_option (Pair 0) (wr_bytes dst 0 (bswap_128 d)) | _ \<Rightarrow> None) }
   | BT_UUID128 d \<Rightarrow> map_option (Pair 0) (wr_bytes dst 0 (bswap_128 d))
   | BT_UUID_UNSPEC \<Rightarrow> Some (- EINVAL, dst))"

end
