(* ===== verification/UuidSpec.thy ===== *)
theory UuidSpec
  imports Uuid
begin

text \<open>
  The correctness of \<^verbatim>\<open>uuid.c\<close> (theory \<open>Uuid\<close>): what the conversions of the standard
  library do on the digits that the printer produces, the round trip from a UUID to its text and back,
  comparison by the 128-bit form, the strings the parser accepts beyond its format, and the wire form.
\<close>

section \<open>Hexadecimal digits\<close>

lemma hex_val_char: "n < 16 \<Longrightarrow> hex_val (hex_char n) = Some n"
proof -
  assume "n < 16"
  moreover have "\<forall>n \<in> set [0..<16]. hex_val (hex_char n) = Some n"
    by (simp add: hex_val_def hex_char_def upt_rec Let_def)
  ultimately show ?thesis by simp
qed

definition lower_hex :: "char \<Rightarrow> bool" where
  "lower_hex c \<longleftrightarrow> c \<in> set ''0123456789abcdef''"

lemma lower_hex_char: "n < 16 \<Longrightarrow> lower_hex (hex_char n)"
  unfolding lower_hex_def hex_char_def by (rule nth_mem) simp

lemma lower_hexd: "lower_hex c \<Longrightarrow> hexd c"
  unfolding lower_hex_def by (auto simp add: hexd_def hex_val_def Let_def)

lemma hexd_not_special:
  assumes "hexd c"
  shows "\<not> is_space c" "c \<noteq> CHR ''-''" "c \<noteq> CHR ''+''" "c \<noteq> CHR ''x''" "c \<noteq> CHR ''X''"
proof -
  show "\<not> is_space c"
    using assms by (auto simp add: hexd_def hex_val_def is_space_def Let_def split: if_splits)
qed (use assms in \<open>auto simp add: hexd_def hex_val_def\<close>)

lemma hex_num_Nil [simp]: "hex_num [] = 0"
  by (simp add: hex_num_def)

lemma hex_num_snoc [simp]: "hex_num (ds @ [c]) = 16 * hex_num ds + the (hex_val c)"
  by (simp add: hex_num_def)

lemma hex_num_zeros: "hex_num (replicate k (CHR ''0'') @ ds) = hex_num ds"
proof (induction ds rule: rev_induct)
  case Nil
  show ?case
  proof (induction k)
    case (Suc k)
    have "replicate (Suc k) (CHR ''0'') = replicate k (CHR ''0'') @ [CHR ''0'']"
      by (simp add: replicate_append_same)
    with Suc show ?case by (simp only: append_Nil2 hex_num_snoc) (simp add: hex_val_def)
  qed simp
next
  case (snoc c ds)
  then show ?case by (simp del: append_assoc add: append_assoc [symmetric])
qed

lemma hex_digits_spec:
  "n < 16 ^ p \<Longrightarrow> length (hex_digits n) \<le> p \<and> (\<forall>c \<in> set (hex_digits n). lower_hex c) \<and> hex_num (hex_digits n) = n"
proof (induction n arbitrary: p rule: hex_digits.induct)
  case (1 n)
  show ?case
  proof (cases "n = 0")
    case True
    then show ?thesis by (simp add: hex_digits.simps)
  next
    case False
    then obtain k where p: "p = Suc k" using "1.prems" by (cases p) auto
    have "n div 16 < 16 ^ k" using "1.prems" p by (simp add: div_less_iff_less_mult mult.commute)
    from "1.IH" [OF False this] show ?thesis
      using False p by (subst (1 2 3) hex_digits.simps) (auto simp add: hex_val_char lower_hex_char)
  qed
qed

lemma print_hex_spec:
  assumes "n < 16 ^ p"
  shows "length (print_hex p n) = p" "\<forall>c \<in> set (print_hex p n). lower_hex c" "hex_num (print_hex p n) = n"
proof -
  have "lower_hex (CHR ''0'')" by (simp add: lower_hex_def)
  then show "length (print_hex p n) = p" "\<forall>c \<in> set (print_hex p n). lower_hex c" "hex_num (print_hex p n) = n"
    using hex_digits_spec [OF assms] by (auto simp add: print_hex_def hex_num_zeros)
qed

lemma hex_num_bound: "\<forall>c \<in> set ds. hexd c \<Longrightarrow> hex_num ds < 16 ^ length ds"
proof (induction ds rule: rev_induct)
  case (snoc c ds)
  then have "the (hex_val c) < 16" by (auto simp add: hexd_def hex_val_def Let_def split: if_splits)
  with snoc show ?case by simp
qed simp

section \<open>Scanning digits\<close>

lemma is_0x_hexd:
  assumes "\<forall>c \<in> set ds. hexd c" and "ds \<noteq> []" and "rest = [] \<or> hd rest \<notin> {CHR ''x'', CHR ''X''}"
  shows "\<not> is_0x (ds @ rest)"
proof -
  obtain a as where ds: "ds = a # as" using assms(2) by (cases ds) auto
  show ?thesis
  proof (cases as)
    case Nil
    then show ?thesis using ds assms(3) by (cases rest) (auto simp add: is_0x_def)
  next
    case (Cons b bs)
    then have "hexd b" using ds assms(1) by simp
    then show ?thesis using ds Cons hexd_not_special(4,5) [of b] by (simp add: is_0x_def)
  qed
qed

lemma takeWhile_hexd: "\<forall>c \<in> set ds. hexd c \<Longrightarrow> rest = [] \<or> \<not> hexd (hd rest) \<Longrightarrow> takeWhile hexd (ds @ rest) = ds"
  by (cases rest) (auto simp add: takeWhile_append2)

lemma scan_hex_digits:
  assumes "length ds = w" and "ds \<noteq> []" and "\<forall>c \<in> set ds. hexd c"
  shows "scan_hex w (ds @ rest) = Some (int (hex_num ds), rest)"
proof -
  obtain c cs where ds: "ds = c # cs" using assms(2) by (cases ds) auto
  with assms(3) have c: "hexd c" by simp
  have "dropWhile is_space (ds @ rest) = ds @ rest" using hexd_not_special(1) [OF c] ds by simp
  moreover have "scan_sign (take w (ds @ rest)) = (False, ds)"
    using assms(1) ds hexd_not_special [OF c] by (auto simp add: scan_sign_def)
  moreover have "\<not> is_0x ds" using is_0x_hexd [OF assms(3,2), of "[]"] by simp
  moreover have t: "takeWhile hexd ds = ds" using assms(3) by (simp add: takeWhile_eq_all_conv)
  ultimately show ?thesis using assms(1,2) by (simp add: scan_hex_def Let_def t del: takeWhile_eq_all_conv)
qed

lemma strtol16_digits:
  assumes "ds \<noteq> []" and "\<forall>c \<in> set ds. hexd c" and "length ds \<le> 15"
    and "rest = [] \<or> \<not> hexd (hd rest) \<and> hd rest \<notin> {CHR ''x'', CHR ''X''}"
  shows "strtol16 (ds @ rest) = (int (hex_num ds), rest)"
proof -
  obtain c cs where ds: "ds = c # cs" using assms(1) by (cases ds) auto
  with assms(2) have c: "hexd c" by simp
  have sp: "dropWhile is_space (ds @ rest) = ds @ rest" using hexd_not_special(1) [OF c] ds by simp
  have sg: "scan_sign (ds @ rest) = (False, ds @ rest)"
    using ds hexd_not_special [OF c] by (auto simp add: scan_sign_def)
  have x: "\<not> is_0x (ds @ rest)" using is_0x_hexd [OF assms(2,1), of rest] assms(4) by auto
  have t: "takeWhile hexd (ds @ rest) = ds" using takeWhile_hexd [OF assms(2), of rest] assms(4) by auto
  have "hex_num ds < 16 ^ length ds" using hex_num_bound assms(2) by blast
  also have "(16 :: nat) ^ length ds \<le> 16 ^ 15" using assms(3) by (rule power_increasing) simp
  finally have "int (hex_num ds) \<le> 2 ^ 63 - 1" by simp
  then show ?thesis using assms(1) by (simp add: strtol16_def Let_def sp sg x t)
qed

lemma scan_lit_eq: "scan_lit l (l @ s) = Some s"
  by (simp add: scan_lit_def)

lemma scan_lit_Some: "scan_lit l s = Some r \<Longrightarrow> s = l @ r"
  by (auto simp add: scan_lit_def split: if_splits) (metis append_take_drop_id)

lemma scan_set_Some: "scan_set cs s = Some r \<Longrightarrow> \<exists>c \<in> set cs. s = c # r"
  by (auto simp add: scan_set_def split: list.splits if_splits)

section \<open>Big-endian fields\<close>

lemma be_num_Nil [simp]: "be_num [] = 0"
  by (simp add: be_num_def)

lemma be_num_snoc: "be_num (bs @ [b]) = 256 * be_num bs + unat b"
  by (simp add: be_num_def)

lemma be_num_bound: "be_num bs < 256 ^ length bs"
proof (induction bs rule: rev_induct)
  case (snoc b bs)
  with unat_u8_le [of b] show ?case by (simp add: be_num_snoc)
qed simp

lemma push_bit_or_u8: "push_bit 8 x OR ucast (b :: u8) = x * 256 + (ucast b :: 'a::len word)"
proof -
  have "push_bit 8 x AND (ucast b :: 'a word) = 0"
    by (rule bit_word_eqI) (auto simp add: bit_and_iff bit_push_bit_iff bit_ucast_iff dest: bit_imp_le_length)
  then have "push_bit 8 x OR (ucast b :: 'a word) = push_bit 8 x + ucast b"
    by (simp add: disjunctive_add_eq_or)
  then show ?thesis by (simp add: push_bit_eq_mult)
qed

lemma of_nat_be_num: "(of_nat (be_num bs) :: 'a::len word) = word_of_le (rev bs)"
proof (induction bs rule: rev_induct)
  case (snoc b bs)
  have "(ucast b :: 'a word) = of_nat (unat b)" by (simp add: unsigned_def)
  with snoc show ?case by (simp add: be_num_snoc word_of_le_Cons push_bit_or_u8)
qed simp

lemma be_bytes: "length bs = n \<Longrightarrow> LENGTH('a) = 8 * n \<Longrightarrow> rev (le_of_word n (of_int (int (be_num bs)) :: 'a::len word)) = bs"
  using le_of_word_of_le [of "rev bs", where ?'a = 'a] by (simp add: of_nat_be_num)

section \<open>Reading back what was printed\<close>

lemma field_bound: "length bs = k \<Longrightarrow> be_num bs < 16 ^ (2 * k)"
  using be_num_bound [of bs] by (simp add: power_mult)

lemma field_bound_4: "length bs = 4 \<Longrightarrow> be_num bs < 16 ^ 8"
  using field_bound [of bs 4] by simp

lemma field_bound_2: "length bs = 2 \<Longrightarrow> be_num bs < 16 ^ 4"
  using field_bound [of bs 2] by simp

lemma print_field:
  assumes "length bs = k" and "0 < k"
  shows "scan_hex (2 * k) (print_hex (2 * k) (be_num bs) @ rest) = Some (int (be_num bs), rest)"
proof -
  note P = print_hex_spec [OF field_bound [OF assms(1)]]
  have "print_hex (2 * k) (be_num bs) \<noteq> []" using P(1) assms(2) by auto
  moreover have "\<forall>c \<in> set (print_hex (2 * k) (be_num bs)). hexd c" using P(2) lower_hexd by blast
  ultimately show ?thesis using scan_hex_digits [OF P(1)] P(3) by simp
qed

lemmas print_field_4 = print_field [of _ 4, simplified]
lemmas print_field_2 = print_field [of _ 2, simplified]

lemma dash_hyphen: "''-'' @ s = CHR ''-'' # s" by simp

text \<open>The sixteen bytes as the assembled fields.\<close>

definition fields_bytes :: "u32 \<times> u16 \<times> u16 \<times> u16 \<times> u32 \<times> u16 \<Rightarrow> u8 list" where
  "fields_bytes = (\<lambda>(data0, data1, data2, data3, data4, data5).
     rev (le_of_word 4 data0) @ rev (le_of_word 2 data1) @ rev (le_of_word 2 data2) @
     rev (le_of_word 2 data3) @ rev (le_of_word 4 data4) @ rev (le_of_word 2 data5))"

lemma bt_string_to_uuid128_eq:
  "bt_string_to_uuid128 s = (case scan_uuid128 s of None \<Rightarrow> Inl (- EINVAL) | Some f \<Rightarrow> Inr (BT_UUID128 (fields_bytes f)))"
  by (auto simp add: bt_string_to_uuid128_def bt_uuid128_create_def fields_bytes_def split: option.split)

lemma split16:
  assumes "length d = 16"
  shows "take 4 d @ take 2 (drop 4 d) @ take 2 (drop 6 d) @ take 2 (drop 8 d) @ take 4 (drop 10 d) @ take 2 (drop 14 d) = d"
proof -
  have s: "take a (drop i d) @ drop (a + i) d = drop i d" for a i
    by (metis append_take_drop_id drop_drop)
  have "take 2 (drop 14 d) = drop 14 d" using assms by simp
  then show ?thesis using s [of 4 0] s [of 2 4] s [of 2 6] s [of 2 8] s [of 4 10] by simp
qed

lemma scan_uuid_text:
  assumes "length d = 16"
  shows "\<exists>f. scan_uuid128 (uuid_text d) = Some f \<and> fields_bytes f = d"
proof -
  have l: "length (take 4 d) = 4" "length (take 2 (drop 4 d)) = 2" "length (take 2 (drop 6 d)) = 2"
    "length (take 2 (drop 8 d)) = 2" "length (take 4 (drop 10 d)) = 4" "length (take 2 (drop 14 d)) = 2"
    using assms by simp_all
  let ?f = "(of_int (int (be_num (take 4 d))), of_int (int (be_num (take 2 (drop 4 d)))),
      of_int (int (be_num (take 2 (drop 6 d)))), of_int (int (be_num (take 2 (drop 8 d)))),
      of_int (int (be_num (take 4 (drop 10 d)))), of_int (int (be_num (take 2 (drop 14 d)))))"
  have "scan_uuid128 (uuid_text d) = Some ?f"
    unfolding scan_uuid128_def uuid_text_def append_assoc
    using print_field_4 [OF l(1)] print_field_2 [OF l(2)] print_field_2 [OF l(3)] print_field_2 [OF l(4)]
      print_field_4 [OF l(5)] print_field_2 [OF l(6), of "[]"]
    by (simp only: bind.bind_lunit scan_lit_eq split_conv append_Nil2)
  moreover have "fields_bytes ?f = d"
    unfolding fields_bytes_def split_conv
    by (simp only: l [THEN be_bytes] len_of_numeral_defs ) (simp add: split16 [OF assms])
  ultimately show ?thesis by blast
qed

lemma uuid_text_shape:
  assumes "length d = 16"
  shows "length (uuid_text d) = 36" "is_uuid128 (uuid_text d)"
    "\<forall>c \<in> set (uuid_text d). c = CHR ''-'' \<or> lower_hex c"
proof -
  have l: "length (take 4 d) = 4" "length (take 2 (drop 4 d)) = 2" "length (take 2 (drop 6 d)) = 2"
    "length (take 2 (drop 8 d)) = 2" "length (take 4 (drop 10 d)) = 4" "length (take 2 (drop 14 d)) = 2"
    using assms by simp_all
  note P4 = print_hex_spec [OF field_bound_4]
  note P2 = print_hex_spec [OF field_bound_2]
  note L = P4(1) [OF l(1)] P2(1) [OF l(2)] P2(1) [OF l(3)] P2(1) [OF l(4)] P4(1) [OF l(5)] P2(1) [OF l(6)]
  show len: "length (uuid_text d) = 36" unfolding uuid_text_def by (simp only: length_append L) simp
  show "is_uuid128 (uuid_text d)"
    unfolding is_uuid128_def using len by (simp add: uuid_text_def nth_append L)
  show "\<forall>c \<in> set (uuid_text d). c = CHR ''-'' \<or> lower_hex c"
    unfolding uuid_text_def set_append
    using P4(2) [OF l(1)] P2(2) [OF l(2)] P2(2) [OF l(3)] P2(2) [OF l(4)] P4(2) [OF l(5)] P2(2) [OF l(6)]
    by (auto simp del: numeral_nat)
qed

section \<open>UUIDs over the Bluetooth base\<close>

lemma bt_uuid16_to_uuid128_eq:
  "bt_uuid16_to_uuid128 v = Some (BT_UUID128 ([0, 0] @ rev (le_of_word 2 v) @ drop 4 bluetooth_base_uuid))"
  by (simp add: bt_uuid16_to_uuid128_def put_be16_def wr_bytes_def bluetooth_base_uuid_def numeral_2_eq_2)

lemma bt_uuid32_to_uuid128_eq:
  "bt_uuid32_to_uuid128 v = Some (BT_UUID128 (rev (le_of_word 4 v) @ drop 4 bluetooth_base_uuid))"
  by (simp add: bt_uuid32_to_uuid128_def put_be32_def wr_bytes_def bluetooth_base_uuid_def)

lemma le32_of_u16: "le_of_word 4 (ucast (v :: u16) :: u32) = le_of_word 2 v @ [0, 0]"
proof -
  have "(ucast (ucast v :: u32) :: u8) = ucast v"
    by (rule bit_word_eqI) (simp add: bit_ucast_iff)
  moreover have "(ucast (drop_bit 8 (ucast v :: u32)) :: u8) = ucast (drop_bit 8 v)"
    by (rule bit_word_eqI) (simp add: bit_ucast_iff bit_drop_bit_eq)
  moreover have "(ucast (drop_bit k (ucast v :: u32)) :: u8) = 0" if "16 \<le> k" for k
    using that by (intro bit_word_eqI) (auto simp add: bit_ucast_iff bit_drop_bit_eq dest: bit_imp_le_length)
  ultimately show ?thesis by (simp add: le32_bytes le16_bytes)
qed

lemma base_fields:
  "fields_bytes (d0, 0, 0x1000, 0x8000, 0x00805F9B, 0x34FB) = rev (le_of_word 4 d0) @ drop 4 bluetooth_base_uuid"
  by (simp add: fields_bytes_def bluetooth_base_uuid_def le16_bytes le32_bytes)

lemma scan_base_text:
  assumes "length hs = 4" and "\<forall>c \<in> set hs. hexd c"
  shows "scan_uuid128 (''0000'' @ hs @ ''-0000-1000-8000-00805f9b34fb'') =
    Some (of_nat (hex_num hs), 0, 0x1000, 0x8000, 0x00805F9B, 0x34FB)"
proof -
  have z: "''0000'' = replicate 4 (CHR ''0'')" by (simp add: eval_nat_numeral)
  have n: "hex_num (''0000'' @ hs) = hex_num hs" unfolding z by (rule hex_num_zeros)
  have h0: "hexd (CHR ''0'')" by (simp add: hexd_def hex_val_def)
  have c: "hex_num ''0000'' = 0" "hex_num ''1000'' = 0x1000" "hex_num ''8000'' = 0x8000"
    "hex_num ''00805f9b'' = 0x00805F9B" "hex_num ''34fb'' = 0x34FB"
    by (simp_all add: hex_num_def hex_val_def)
  have s0: "scan_hex 8 (''0000'' @ hs @ rest) = Some (int (hex_num hs), rest)" for rest
    using scan_hex_digits [of "''0000'' @ hs" 8 rest] assms h0 n by simp
  have s: "scan_hex 4 (''0000'' @ rest) = Some (0, rest)" "scan_hex 4 (''1000'' @ rest) = Some (0x1000, rest)"
    "scan_hex 4 (''8000'' @ rest) = Some (0x8000, rest)" "scan_hex 8 (''00805f9b'' @ rest) = Some (0x00805F9B, rest)"
    "scan_hex 4 (''34fb'' @ rest) = Some (0x34FB, rest)" for rest
    using scan_hex_digits [of "''0000''" 4 rest] scan_hex_digits [of "''1000''" 4 rest]
      scan_hex_digits [of "''8000''" 4 rest] scan_hex_digits [of "''00805f9b''" 8 rest]
      scan_hex_digits [of "''34fb''" 4 rest]
    by (simp_all add: c hexd_def hex_val_def del: append_Cons)
  have e: "''-0000-1000-8000-00805f9b34fb'' =
      ''-'' @ ''0000'' @ ''-'' @ ''1000'' @ ''-'' @ ''8000'' @ ''-'' @ ''00805f9b'' @ ''34fb'' @ ''''"
    by simp
  show ?thesis
    unfolding scan_uuid128_def e
    by (simp only: s0 s bind.bind_lunit split_conv scan_lit_eq) simp
qed

lemma base_text_parse:
  assumes "length d = 16" and "is_base_uuid128 (uuid_text d)"
  shows "\<exists>v. bt_string_to_uuid16 (drop 4 (uuid_text d)) = Inr (BT_UUID16 v) \<and>
             bt_uuid16_to_uuid128 v = Some (BT_UUID128 d)"
proof -
  define P where "P = print_hex 8 (be_num (take 4 d))"
  note PS = print_hex_spec [OF field_bound_4 [of "take 4 d"]]
  have P: "length P = 8" "\<forall>c \<in> set P. hexd c" using PS assms(1) lower_hexd by (auto simp add: P_def)
  obtain T where shape: "uuid_text d = P @ CHR ''-'' # T" by (simp add: uuid_text_def P_def)
  note chars = uuid_text_shape(3) [OF assms(1)]
  from assms(2) obtain s1 u s2 s3 s4 s5 s6 s7 s8 s9 where
    s: "scan_lit ''0000'' (uuid_text d) = Some s1" "scan_hex 4 s1 = Some (u, s2)"
      "scan_lit ''-0000-1000-8000-00805'' s2 = Some s3" "scan_set ''fF'' s3 = Some s4"
      "scan_lit ''9'' s4 = Some s5" "scan_set ''bB'' s5 = Some s6" "scan_lit ''34'' s6 = Some s7"
      "scan_set ''fF'' s7 = Some s8" "scan_set ''bB'' s8 = Some s9"
    by (auto simp add: is_base_uuid128_def bind_eq_Some_conv)
  have e1: "uuid_text d = ''0000'' @ s1" using scan_lit_Some [OF s(1)] .
  define hs where "hs = drop 4 P"
  have hs: "length hs = 4" "\<forall>c \<in> set hs. hexd c" using P by (auto simp add: hs_def dest: in_set_dropD)
  have "P @ CHR ''-'' # T = ''0000'' @ s1" using e1 shape by simp
  then have "drop 4 (P @ CHR ''-'' # T) = s1" by simp
  then have s1: "s1 = hs @ CHR ''-'' # T" using P(1) by (simp add: hs_def)
  have "scan_hex 4 s1 = Some (int (hex_num hs), CHR ''-'' # T)"
    unfolding s1 using hs by (intro scan_hex_digits) auto
  with s(2) have s2: "s2 = CHR ''-'' # T" by simp
  obtain c1 c2 c3 c4 where cs: "c1 \<in> set ''fF''" "c2 \<in> set ''bB''" "c3 \<in> set ''fF''" "c4 \<in> set ''bB''"
    and tail: "s2 = ''-0000-1000-8000-00805'' @ c1 # ''9'' @ c2 # ''34'' @ c3 # c4 # s9"
    using scan_lit_Some [OF s(3)] scan_set_Some [OF s(4)] scan_lit_Some [OF s(5)] scan_set_Some [OF s(6)]
      scan_lit_Some [OF s(7)] scan_set_Some [OF s(8)] scan_set_Some [OF s(9)] by (elim bexE) simp
  have whole: "uuid_text d = ''0000'' @ hs @ s2" using e1 s1 s2 by simp
  have "{c1, c2, c3, c4} \<subseteq> set (uuid_text d)" unfolding whole tail by simp
  then have "\<forall>c \<in> {c1, c2, c3, c4}. c = CHR ''-'' \<or> lower_hex c" using chars by blast
  then have c: "c1 = CHR ''f''" "c2 = CHR ''b''" "c3 = CHR ''f''" "c4 = CHR ''b''"
    using cs by (auto simp add: lower_hex_def)
  have "length s2 = 28" using uuid_text_shape(1) [OF assms(1)] whole hs by simp
  then have "s9 = []" using tail by simp
  then have s2': "s2 = ''-0000-1000-8000-00805f9b34fb''" using tail c by simp
  let ?v = "of_nat (hex_num hs) :: u16"
  have hex: "hex_num hs < 65536" using hex_num_bound [OF hs(2)] hs(1) by simp
  have "strtol16 (hs @ s2) = (int (hex_num hs), s2)"
    by (rule strtol16_digits) (use hs s2' in \<open>auto simp add: hexd_def hex_val_def\<close>)
  moreover have "drop 4 (uuid_text d) = hs @ s2" using whole by simp
  ultimately have p16: "bt_string_to_uuid16 (drop 4 (uuid_text d)) = Inr (BT_UUID16 ?v)"
    using s2' by (simp add: bt_string_to_uuid16_def bt_uuid16_create_def)
  obtain f where f: "scan_uuid128 (uuid_text d) = Some f" "fields_bytes f = d"
    using scan_uuid_text [OF assms(1)] by blast
  then have f2: "f = (of_nat (hex_num hs), 0, 0x1000, 0x8000, 0x00805F9B, 0x34FB)"
    using scan_base_text [OF hs] whole s2' by simp
  have "(of_nat (hex_num hs) :: u32) = ucast ?v"
    using hex by (simp add: word_unat_eq_iff unsigned_ucast_eq unat_of_nat_u32 unat_of_nat_u16 take_bit_nat_eq_self)
  then have "d = [0, 0] @ rev (le_of_word 2 ?v) @ drop 4 bluetooth_base_uuid"
    using f(2) by (simp add: f2 base_fields le32_of_u16)
  with p16 show ?thesis by (auto simp add: bt_uuid16_to_uuid128_eq)
qed

lemma memcmp_refl [simp]: "memcmp xs xs = 0"
  by (induction xs) auto

lemma memcmp_0_iff: "length xs = length ys \<Longrightarrow> memcmp xs ys = 0 \<longleftrightarrow> xs = ys"
proof (induction xs arbitrary: ys)
  case (Cons x xs)
  then show ?case by (cases ys) auto
qed auto

lemma memcmp_antisym: "memcmp ys xs = - memcmp xs ys"
  by (induction xs ys rule: memcmp.induct) (auto simp add: not_less_iff_gr_or_eq)

text \<open>The 128-bit form that every other function works with.\<close>

lemma expand_wf:
  assumes "uuid_wf u"
  shows "\<exists>d. length d = 16 \<and> (\<forall>dst. bt_uuid_to_uuid128 u dst = Some (BT_UUID128 d))"
  using assms
  by (cases u) (auto simp add: uuid_wf_def bt_uuid_to_uuid128_def bt_uuid16_to_uuid128_eq bt_uuid32_to_uuid128_eq bluetooth_base_uuid_def)

lemma bt_uuid_cmp_expand:
  assumes "\<forall>dst. bt_uuid_to_uuid128 u dst = Some (BT_UUID128 d)" and "\<forall>dst. bt_uuid_to_uuid128 v dst = Some (BT_UUID128 e)"
  shows "bt_uuid_cmp u v = Some (memcmp d e)"
  using assms by (simp add: bt_uuid_cmp_def bt_uuid128_cmp_def)

lemma bt_uuid_to_string_eq:
  assumes "\<forall>dst. bt_uuid_to_uuid128 u dst = Some (BT_UUID128 d)" and "u \<noteq> BT_UUID_UNSPEC"
  shows "bt_uuid_to_string (Some u) n = Some (0, snprintf n (uuid_text d))"
  using assms by (simp add: bt_uuid_to_string_def)

lemma string_roundtrip:
  assumes wf: "uuid_wf u" and d: "\<forall>dst. bt_uuid_to_uuid128 u dst = Some (BT_UUID128 d)" "length d = 16"
  shows "\<exists>v. bt_string_to_uuid (uuid_text d) = Inr v \<and> bt_uuid_cmp u v = Some 0"
proof (cases "is_base_uuid128 (uuid_text d)")
  case True
  then obtain v where v: "bt_string_to_uuid16 (drop 4 (uuid_text d)) = Inr (BT_UUID16 v)"
    "bt_uuid16_to_uuid128 v = Some (BT_UUID128 d)" using base_text_parse [OF d(2)] by blast
  then have "\<forall>dst. bt_uuid_to_uuid128 (BT_UUID16 v) dst = Some (BT_UUID128 d)"
    by (simp add: bt_uuid_to_uuid128_def)
  from bt_uuid_cmp_expand [OF d(1) this] show ?thesis
    using True v by (simp add: bt_string_to_uuid_def)
next
  case False
  obtain f where f: "scan_uuid128 (uuid_text d) = Some f" "fields_bytes f = d"
    using scan_uuid_text [OF d(2)] by blast
  have "\<forall>dst. bt_uuid_to_uuid128 (BT_UUID128 d) dst = Some (BT_UUID128 d)" by (simp add: bt_uuid_to_uuid128_def)
  from bt_uuid_cmp_expand [OF d(1) this] show ?thesis
    using False f uuid_text_shape(2) [OF d(2)]
    by (simp add: bt_string_to_uuid_def bt_string_to_uuid128_eq)
qed

section \<open>Properties\<close>

text \<open>C31. Printing and parsing: the text of any 16, 32 or 128-bit UUID, printed into a buffer of
  \<open>MAX_LEN_UUID_STR\<close> (37) characters or more, has 36 characters and parses back to a UUID that
  \<open>bt_uuid_cmp\<close> finds equal.\<close>

theorem uuid_string_roundtrip:
  assumes "uuid_wf u" and "37 \<le> n"
  shows "\<exists>s v. bt_uuid_to_string (Some u) n = Some (0, Some s) \<and> length s = 36 \<and>
           bt_string_to_uuid s = Inr v \<and> bt_uuid_cmp u v = Some 0"
proof -
  obtain d where d: "length d = 16" "\<forall>dst. bt_uuid_to_uuid128 u dst = Some (BT_UUID128 d)"
    using expand_wf [OF assms(1)] by blast
  have "u \<noteq> BT_UUID_UNSPEC" using assms(1) by (auto simp add: uuid_wf_def)
  then show ?thesis
    using bt_uuid_to_string_eq [OF d(2), of n] string_roundtrip [OF assms(1) d(2,1)]
      uuid_text_shape(1) [OF d(1)] assms(2) by (simp add: snprintf_def)
qed

theorem uuid_string_roundtrip_witness:
  "\<exists>s v. bt_uuid_to_string (Some (BT_UUID16 0x180F)) 37 = Some (0, Some s) \<and> length s = 36 \<and>
     bt_string_to_uuid s = Inr v \<and> bt_uuid_cmp (BT_UUID16 0x180F) v = Some 0"
  using uuid_string_roundtrip [of "BT_UUID16 0x180F" 37] by (simp add: uuid_wf_def)

text \<open>C32. Comparison is by the 128-bit form, whatever the sizes: it is defined for all well-formed UUIDs, antisymmetric,
  zero exactly for equal 128-bit forms, and a 16-bit UUID equals a 32-bit one exactly when the numbers agree.\<close>

theorem uuid_cmp_by_expansion:
  assumes "uuid_wf u" and "uuid_wf v"
  shows "\<exists>r. bt_uuid_cmp u v = Some r \<and> bt_uuid_cmp v u = Some (- r) \<and>
           (r = 0 \<longleftrightarrow> bt_uuid_to_uuid128 u None = bt_uuid_to_uuid128 v None)"
proof -
  obtain d where d: "length d = 16" "\<forall>dst. bt_uuid_to_uuid128 u dst = Some (BT_UUID128 d)"
    using expand_wf [OF assms(1)] by blast
  obtain e where e: "length e = 16" "\<forall>dst. bt_uuid_to_uuid128 v dst = Some (BT_UUID128 e)"
    using expand_wf [OF assms(2)] by blast
  have "memcmp d e = 0 \<longleftrightarrow> d = e" using memcmp_0_iff d(1) e(1) by simp
  then show ?thesis
    using bt_uuid_cmp_expand [OF d(2) e(2)] bt_uuid_cmp_expand [OF e(2) d(2)] memcmp_antisym [of e d] d(2) e(2)
    by simp
qed

theorem uuid_cmp_by_expansion_witness:
  "\<exists>r. bt_uuid_cmp (BT_UUID16 0x2800) (BT_UUID32 0x2800) = Some r \<and>
       bt_uuid_cmp (BT_UUID32 0x2800) (BT_UUID16 0x2800) = Some (- r) \<and> r = 0"
  using uuid_cmp_by_expansion [of "BT_UUID16 0x2800" "BT_UUID32 0x2800"]
  by (auto simp add: uuid_wf_def bt_uuid_to_uuid128_def bt_uuid16_to_uuid128_eq bt_uuid32_to_uuid128_eq
      le16_bytes le32_bytes)

lemma le_of_word_inj: "LENGTH('a) = 8 * n \<Longrightarrow> le_of_word n (a :: 'a::len word) = le_of_word n b \<longleftrightarrow> a = b"
  by (metis word_of_le_of_word)

text \<open>A 16-bit UUID equals a 32-bit one exactly when the numbers agree.\<close>

theorem uuid_cmp_16_32: "bt_uuid_cmp (BT_UUID16 a) (BT_UUID32 b) = Some 0 \<longleftrightarrow> b = ucast a"
proof -
  have "[0, 0] @ rev (le_of_word 2 a) = rev (le_of_word 4 (ucast a :: u32))" by (simp add: le32_of_u16)
  moreover have "memcmp (rev (le_of_word 4 (ucast a :: u32)) @ t) (rev (le_of_word 4 b) @ t) = 0 \<longleftrightarrow> b = ucast a" for t
    using le_of_word_inj [of 4 b "ucast a"] by (subst memcmp_0_iff) auto
  ultimately show ?thesis
    by (simp add: bt_uuid_cmp_def bt_uuid128_cmp_def bt_uuid_to_uuid128_def bt_uuid16_to_uuid128_eq
        bt_uuid32_to_uuid128_eq flip: append_Cons append_assoc)
qed

text \<open>The parser's acceptance of short forms: any four hexadecimal digits, with or without the prefix
  \<open>0x\<close>, are read as the 16-bit UUID of that number, and eight digits as the 32-bit one.\<close>

theorem parse_short_uuid:
  assumes "\<forall>c \<in> set ds. hexd c" and "length ds = 4"
  shows "bt_string_to_uuid ds = Inr (BT_UUID16 (of_nat (hex_num ds))) \<and>
         bt_string_to_uuid (''0x'' @ ds) = Inr (BT_UUID16 (of_nat (hex_num ds)))"
proof -
  have nb: "\<not> is_base_uuid128 ds" "\<not> is_uuid128 ds" "\<not> is_base_uuid128 (''0x'' @ ds)" "\<not> is_uuid128 (''0x'' @ ds)"
    using assms(2) by (auto simp add: is_base_uuid128_def is_uuid128_def)
  have s: "strtol16 (ds @ []) = (int (hex_num ds), [])"
    by (rule strtol16_digits) (use assms in auto)
  have t: "takeWhile hexd ds = ds" using assms(1) by (simp add: takeWhile_eq_all_conv)
  have "hex_num ds < 16 ^ 4" using hex_num_bound [OF assms(1)] assms(2) by simp
  then have "strtol16 (''0x'' @ ds) = (int (hex_num ds), [])"
    using assms(2) by (auto simp add: strtol16_def is_space_def scan_sign_def is_0x_def Let_def t)
  then show ?thesis
    using s nb assms(2) by (simp add: bt_string_to_uuid_def is_uuid32_def is_uuid16_def bt_string_to_uuid16_def bt_uuid16_create_def)
qed

theorem parse_short_uuid_witness:
  "bt_string_to_uuid ''2a19'' = Inr (BT_UUID16 0x2A19) \<and> bt_string_to_uuid ''0x2a19'' = Inr (BT_UUID16 0x2A19)"
  using parse_short_uuid [of "''2a19''"] by (simp add: hexd_def hex_val_def hex_num_def)

text \<open>The parser is more liberal than its format: a string with a sign where the base form has hexadecimal
  digits is taken for the 16-bit UUID 0xFFFF, and four hyphens are taken for the 16-bit UUID 0, because
  \<open>strtol\<close> converts no digit and leaves \<open>endptr\<close> on a hyphen.\<close>

theorem parse_accepts_malformed:
  "bt_string_to_uuid ''0000-001-0000-1000-8000-00805f9b34fb'' = Inr (BT_UUID16 0xFFFF) \<and>
   bt_string_to_uuid ''----'' = Inr (BT_UUID16 0)"
proof
  have hv: "hexd (CHR ''0'')" "hexd (CHR ''1'')" "\<not> hexd (CHR ''-'')" "\<not> is_space (CHR ''-'')"
    by (simp_all add: hexd_def hex_val_def is_space_def)
  have n: "hex_num ''001'' = 1" by (simp add: hex_num_def hex_val_def)
  have "is_base_uuid128 ''0000-001-0000-1000-8000-00805f9b34fb''"
    by (simp add: is_base_uuid128_def is_uuid128_def scan_lit_def scan_set_def scan_hex_def scan_sign_def
        is_0x_def Let_def hv eval_nat_numeral)
  moreover have "strtol16 ''-001-0000-1000-8000-00805f9b34fb'' = (- 1, ''-0000-1000-8000-00805f9b34fb'')"
    by (simp add: strtol16_def scan_sign_def is_0x_def Let_def hv n)
  ultimately show "bt_string_to_uuid ''0000-001-0000-1000-8000-00805f9b34fb'' = Inr (BT_UUID16 0xFFFF)"
    by (simp add: bt_string_to_uuid_def bt_string_to_uuid16_def bt_uuid16_create_def)
  show "bt_string_to_uuid ''----'' = Inr (BT_UUID16 0)"
    by (simp add: bt_string_to_uuid_def is_base_uuid128_def is_uuid128_def is_uuid32_def is_uuid16_def
        bt_string_to_uuid16_def strtol16_def scan_sign_def is_0x_def Let_def hv bt_uuid16_create_def)
qed

text \<open>The wire form, for the documented behaviour of the two functions of \<^verbatim>\<open>bluetooth.h\<close> it uses: a
  16-bit UUID becomes two little-endian bytes, any other its 16 bytes in reverse order; 32-bit UUIDs are
  expanded first. A buffer of 16 bytes is always enough.\<close>

theorem uuid_wire_form:
  assumes "uuid_wf u" and "16 \<le> length dst"
    and "\<And>d. bswap_128 d = rev d" and "\<And>v b. 2 \<le> length b \<Longrightarrow> bt_put_le16 v b 0 = put_le16 v b 0"
  shows "\<exists>dst'. bt_uuid_to_le bt_put_le16 bswap_128 u dst = Some (0, dst') \<and> length dst' = length dst \<and>
     (case u of BT_UUID16 v \<Rightarrow> take 2 dst' = le_of_word 2 v
      | _ \<Rightarrow> (\<exists>d. bt_uuid_to_uuid128 u None = Some (BT_UUID128 d) \<and> take 16 dst' = rev d))"
proof (cases u)
  case (BT_UUID16 v)
  then show ?thesis
    using assms(2,4) by (auto simp add: bt_uuid_to_le_def put_le16_def wr_bytes_def)
next
  case (BT_UUID32 v)
  then show ?thesis
    using assms(2,3) by (auto simp add: bt_uuid_to_le_def bt_uuid_to_uuid128_def bt_uuid32_to_uuid128_eq wr_bytes_def bluetooth_base_uuid_def)
next
  case (BT_UUID128 d)
  then show ?thesis
    using assms by (auto simp add: bt_uuid_to_le_def bt_uuid_to_uuid128_def uuid_wf_def wr_bytes_def)
qed (use assms(1) in \<open>simp add: uuid_wf_def\<close>)

theorem uuid_wire_form_witness:
  "\<exists>dst'. bt_uuid_to_le put_le16 rev (BT_UUID16 0x180A) (replicate 16 0) = Some (0, dst') \<and> take 2 dst' = [0x0A, 0x18]"
  using uuid_wire_form [of "BT_UUID16 0x180A" "replicate 16 0" rev put_le16]
  by (auto simp add: uuid_wf_def le16_bytes)

end
