(* ===== verification/Crypto.thy ===== *)
theory Crypto
  imports Bytes
begin

text \<open>
  \<^verbatim>\<open>bluez/src/shared/crypto.c\<close>: the Bluetooth security functions over the kernel's AES and
  AES-CMAC, and the signing and verification of ATT commands. The kernel (an \<open>AF_ALG\<close> socket for
  each algorithm) is a parameter: what one operation with a key on a message returns, \<open>None\<close> for a
  system call that fails. Arrays with the least significant octet first are reversed on the way in and
  out, as in the code.

  A result is \<open>Some None\<close> when the function returns \<open>false\<close> and \<open>Some (Some out)\<close>
  when it returns \<open>true\<close> and has stored \<open>out\<close>. The system calls behind
  an operation, and the set-up and release of the descriptors, are in theory \<open>AlgSockets\<close>.
\<close>

section \<open>The kernel\<close>

record alg_kernel =
  k_ecb :: "u8 list \<Rightarrow> u8 list \<Rightarrow> u8 list option"
  k_cmac :: "u8 list \<Rightarrow> u8 list \<Rightarrow> u8 list option"
  k_urandom :: "nat \<Rightarrow> u8 list option"

text \<open>Documented: both algorithms produce 16 bytes, and a read returns no more than was asked for.\<close>

definition kernel_ok :: "alg_kernel \<Rightarrow> bool" where
  "kernel_ok K \<longleftrightarrow> (\<forall>k m out. k_ecb K k m = Some out \<longrightarrow> length out = 16) \<and>
     (\<forall>k m out. k_cmac K k m = Some out \<longrightarrow> length out = 16) \<and>
     (\<forall>n bs. k_urandom K n = Some bs \<longrightarrow> length bs \<le> n)"

definition CMAC_MSG_MAX :: nat where "CMAC_MSG_MAX = 80"
definition ATT_SIGN_LEN :: nat where "ATT_SIGN_LEN = 12"

section \<open>Random bytes\<close>

definition bt_crypto_random_bytes :: "alg_kernel option \<Rightarrow> buf \<Rightarrow> u8 \<Rightarrow> (bool \<times> buf) option" where
  "bt_crypto_random_bytes crypto b num_bytes = (case crypto of
     None \<Rightarrow> Some (False, b)
   | Some K \<Rightarrow> (case k_urandom K (unat num_bytes) of
       None \<Rightarrow> Some (False, b)
     | Some bs \<Rightarrow> do { b \<leftarrow> wr_bytes b 0 bs; Some (\<not> length bs < unat num_bytes, b) }))"

section \<open>Byte order\<close>

text \<open>\<open>for (i = 0; i < len; i++) dst[len - 1 - i] = src[i];\<close>, from index \<open>i\<close> on.\<close>

fun swap_loop :: "nat \<Rightarrow> nat \<Rightarrow> nat \<Rightarrow> buf \<Rightarrow> buf \<Rightarrow> buf option" where
  "swap_loop len 0 i src dst = Some dst"
| "swap_loop len (Suc n) i src dst = do {
     v \<leftarrow> rd8 src i;
     dst \<leftarrow> wr8 dst (len - 1 - i) v;
     swap_loop len n (Suc i) src dst }"

definition swap_buf :: "buf \<Rightarrow> buf \<Rightarrow> u16 \<Rightarrow> buf option" where
  "swap_buf src dst len = swap_loop (unat len) (unat len) 0 src dst"

text \<open>A local array before its first use; its contents are overwritten before they are read.\<close>

definition fresh :: "nat \<Rightarrow> buf" where "fresh n = replicate n 0"

section \<open>Signing ATT commands\<close>

definition bt_crypto_sign_att ::
  "alg_kernel option \<Rightarrow> u8 list \<Rightarrow> buf \<Rightarrow> u16 \<Rightarrow> u32 \<Rightarrow> u8 list option option" where
  "bt_crypto_sign_att crypto key m m_len sign_cnt = (let msg_len = m_len + 4 in
     case crypto of
       None \<Rightarrow> Some None
     | Some K \<Rightarrow> do {
         msg \<leftarrow> memset (fresh (unat msg_len)) 0 0 (unat msg_len);
         msg \<leftarrow> memcpy msg 0 m 0 (unat m_len);
         msg \<leftarrow> put_le32 sign_cnt msg (unat m_len);
         tmp \<leftarrow> swap_buf key (fresh 16) 16;
         msg_s \<leftarrow> swap_buf msg (fresh (unat msg_len)) msg_len;
         (case k_cmac K tmp msg_s of
            None \<Rightarrow> Some None
          | Some out \<Rightarrow> do {
              out \<leftarrow> put_be32 sign_cnt out 8;
              tmp \<leftarrow> swap_buf out tmp 16;
              sign \<leftarrow> rd_bytes tmp 4 ATT_SIGN_LEN;
              Some (Some sign) }) })"

definition bt_crypto_verify_att_sign :: "alg_kernel option \<Rightarrow> u8 list \<Rightarrow> buf \<Rightarrow> u16 \<Rightarrow> bool option" where
  "bt_crypto_verify_att_sign crypto key pdu pdu_len =
     (if unat pdu_len < ATT_SIGN_LEN then Some False
      else do {
        let off = unat pdu_len - ATT_SIGN_LEN;
        sign_cnt \<leftarrow> get_le32 pdu off;
        r \<leftarrow> bt_crypto_sign_att crypto key pdu (pdu_len - of_nat ATT_SIGN_LEN) sign_cnt;
        (case r of
           None \<Rightarrow> Some False
         | Some generated_sign \<Rightarrow> do {
             sign \<leftarrow> rd_bytes pdu off ATT_SIGN_LEN;
             Some (generated_sign = sign) }) })"

section \<open>The security functions\<close>

definition bt_crypto_e :: "alg_kernel option \<Rightarrow> u8 list \<Rightarrow> u8 list \<Rightarrow> u8 list option option" where
  "bt_crypto_e crypto key plaintext = (case crypto of
     None \<Rightarrow> Some None
   | Some K \<Rightarrow> do {
       tmp \<leftarrow> swap_buf key (fresh 16) 16;
       inb \<leftarrow> swap_buf plaintext (fresh 16) 16;
       (case k_ecb K tmp inb of
          None \<Rightarrow> Some None
        | Some out \<Rightarrow> map_option Some (swap_buf out (fresh 16) 16)) })"

definition bt_crypto_ah :: "alg_kernel option \<Rightarrow> u8 list \<Rightarrow> u8 list \<Rightarrow> u8 list option option" where
  "bt_crypto_ah crypto k r = (if crypto = None then Some None else do {
     rp \<leftarrow> memcpy (fresh 16) 0 r 0 3;
     rp \<leftarrow> memset rp 3 0 13;
     e \<leftarrow> bt_crypto_e crypto k rp;
     (case e of None \<Rightarrow> Some None | Some encrypted \<Rightarrow> map_option Some (rd_bytes encrypted 0 3)) })"

text \<open>Two 64-bit words at a time.\<close>

definition u128_xor :: "buf \<Rightarrow> buf \<Rightarrow> buf option" where
  "u128_xor p q = do {
     ppa \<leftarrow> get_le64 p 0; ppb \<leftarrow> get_le64 p 8;
     qqa \<leftarrow> get_le64 q 0; qqb \<leftarrow> get_le64 q 8;
     r \<leftarrow> put_le64 (ppa XOR qqa) (fresh 16) 0;
     put_le64 (ppb XOR qqb) r 8 }"

definition bt_crypto_c1 ::
  "alg_kernel option \<Rightarrow> u8 list \<Rightarrow> u8 list \<Rightarrow> u8 list \<Rightarrow> u8 list \<Rightarrow> u8 \<Rightarrow> u8 list \<Rightarrow> u8 \<Rightarrow> u8 list \<Rightarrow> u8 list option option" where
  "bt_crypto_c1 crypto k r pres preq iat ia rat ra = do {
     p1 \<leftarrow> wr8 (fresh 16) 0 iat;
     p1 \<leftarrow> wr8 p1 1 rat;
     p1 \<leftarrow> memcpy p1 2 preq 0 7;
     p1 \<leftarrow> memcpy p1 9 pres 0 7;
     p2 \<leftarrow> memcpy (fresh 16) 0 ra 0 6;
     p2 \<leftarrow> memcpy p2 6 ia 0 6;
     p2 \<leftarrow> memset p2 12 0 4;
     res \<leftarrow> u128_xor r p1;
     e \<leftarrow> bt_crypto_e crypto k res;
     (case e of
        None \<Rightarrow> Some None
      | Some res \<Rightarrow> do {
          res \<leftarrow> u128_xor res p2;
          bt_crypto_e crypto k res }) }"

definition bt_crypto_s1 :: "alg_kernel option \<Rightarrow> u8 list \<Rightarrow> u8 list \<Rightarrow> u8 list \<Rightarrow> u8 list option option" where
  "bt_crypto_s1 crypto k r1 r2 = do {
     res \<leftarrow> memcpy (fresh 16) 0 r2 0 8;
     res \<leftarrow> memcpy res 8 r1 0 8;
     bt_crypto_e crypto k res }"

text \<open>\<open>crypto\<close> is dereferenced without a check.\<close>

definition aes_cmac :: "alg_kernel option \<Rightarrow> u8 list \<Rightarrow> buf \<Rightarrow> nat \<Rightarrow> u8 list option option" where
  "aes_cmac crypto key msg msg_len =
     (if CMAC_MSG_MAX < msg_len then Some None
      else do {
        key_msb \<leftarrow> swap_buf key (fresh 16) 16;
        K \<leftarrow> crypto;
        msg_msb \<leftarrow> swap_buf msg (fresh CMAC_MSG_MAX) (of_nat msg_len);
        sent \<leftarrow> rd_bytes msg_msb 0 msg_len;
        (case k_cmac K key_msb sent of
           None \<Rightarrow> Some None
         | Some out \<Rightarrow> map_option Some (swap_buf out (fresh 16) 16)) })"

definition bt_crypto_f4 :: "alg_kernel option \<Rightarrow> u8 list \<Rightarrow> u8 list \<Rightarrow> u8 list \<Rightarrow> u8 \<Rightarrow> u8 list option option" where
  "bt_crypto_f4 crypto u v x z = (if crypto = None then Some None else do {
     m \<leftarrow> wr8 (fresh 65) 0 z;
     m \<leftarrow> memcpy m 1 v 0 32;
     m \<leftarrow> memcpy m 33 u 0 32;
     aes_cmac crypto x m 65 })"

definition f5_salt :: "u8 list" where
  "f5_salt = [0xbe, 0x83, 0x60, 0x5a, 0xdb, 0x0b, 0x37, 0x60, 0x38, 0xa5, 0xf5, 0xaa, 0x91, 0x83, 0x88, 0x6c]"

text \<open>The pair is \<open>mackey\<close> and \<open>ltk\<close>.\<close>

definition bt_crypto_f5 ::
  "alg_kernel option \<Rightarrow> u8 list \<Rightarrow> u8 list \<Rightarrow> u8 list \<Rightarrow> u8 list \<Rightarrow> u8 list \<Rightarrow> (u8 list \<times> u8 list) option option" where
  "bt_crypto_f5 crypto w n1 n2 a1 a2 = do {
     t \<leftarrow> aes_cmac crypto f5_salt w 32;
     (case t of
        None \<Rightarrow> Some None
      | Some t \<Rightarrow> do {
          m \<leftarrow> memcpy (fresh 53) 0 [0x00, 0x01] 0 2;
          m \<leftarrow> memcpy m 2 a2 0 7;
          m \<leftarrow> memcpy m 9 a1 0 7;
          m \<leftarrow> memcpy m 16 n2 0 16;
          m \<leftarrow> memcpy m 32 n1 0 16;
          m \<leftarrow> memcpy m 48 [0x65, 0x6c, 0x74, 0x62] 0 4;
          m \<leftarrow> wr8 m 52 0;
          mackey \<leftarrow> aes_cmac crypto t m 53;
          (case mackey of
             None \<Rightarrow> Some None
           | Some mackey \<Rightarrow> do {
               m \<leftarrow> wr8 m 52 1;
               ltk \<leftarrow> aes_cmac crypto t m 53;
               Some (map_option (Pair mackey) ltk) }) }) }"

definition bt_crypto_f6 ::
  "alg_kernel option \<Rightarrow> u8 list \<Rightarrow> u8 list \<Rightarrow> u8 list \<Rightarrow> u8 list \<Rightarrow> u8 list \<Rightarrow> u8 list \<Rightarrow> u8 list \<Rightarrow> u8 list option option" where
  "bt_crypto_f6 crypto w n1 n2 r io_cap a1 a2 = do {
     m \<leftarrow> memcpy (fresh 65) 0 a2 0 7;
     m \<leftarrow> memcpy m 7 a1 0 7;
     m \<leftarrow> memcpy m 14 io_cap 0 3;
     m \<leftarrow> memcpy m 17 r 0 16;
     m \<leftarrow> memcpy m 33 n2 0 16;
     m \<leftarrow> memcpy m 49 n1 0 16;
     aes_cmac crypto w m 65 }"

definition bt_crypto_g2 ::
  "alg_kernel option \<Rightarrow> u8 list \<Rightarrow> u8 list \<Rightarrow> u8 list \<Rightarrow> u8 list \<Rightarrow> u32 option option" where
  "bt_crypto_g2 crypto u v x y = do {
     m \<leftarrow> memcpy (fresh 80) 0 y 0 16;
     m \<leftarrow> memcpy m 16 v 0 32;
     m \<leftarrow> memcpy m 48 u 0 32;
     tmp \<leftarrow> aes_cmac crypto x m 80;
     (case tmp of
        None \<Rightarrow> Some None
      | Some tmp \<Rightarrow> do { val \<leftarrow> get_le32 tmp 0; Some (Some (val mod 1000000)) }) }"

definition bt_crypto_h6 :: "alg_kernel option \<Rightarrow> u8 list \<Rightarrow> u8 list \<Rightarrow> u8 list option option" where
  "bt_crypto_h6 crypto w keyid = aes_cmac crypto w keyid 4"

text \<open>The gathered write sends the concatenation of the vectors; nothing is reversed here.\<close>

definition bt_crypto_gatt_hash :: "alg_kernel option \<Rightarrow> u8 list list \<Rightarrow> u8 list option option" where
  "bt_crypto_gatt_hash crypto iov = (case crypto of
     None \<Rightarrow> Some None
   | Some K \<Rightarrow> Some (k_cmac K (replicate 16 0) (concat iov)))"

end
