(* ===== verification/AttPdu.thy ===== *)
theory AttPdu
  imports Uuid Crypto
begin

text \<open>
  \<^verbatim>\<open>bluez/attrib/att.c\<close>: the encoders and decoders of the Attribute Protocol PDUs.

  The parameter \<open>pdu\<close> is the object behind the pointer (\<open>None\<close> for NULL); its true size is the
  length of the list and may differ from the parameter \<open>len\<close> that the caller passes. An encoder
  gives the returned length and the object afterwards; a decoder the returned length and the objects
  behind its output pointers. Lengths are \<open>size_t\<close> and returned as \<open>uint16_t\<close>, with the
  wrap-around and truncation this implies. \<open>bswap_128\<close> is a parameter (see theory \<open>Uuid\<close>).
\<close>

section \<open>Constants\<close>

abbreviation ATT_OP_ERROR :: u8 where "ATT_OP_ERROR \<equiv> 0x01"
abbreviation ATT_OP_MTU_REQ :: u8 where "ATT_OP_MTU_REQ \<equiv> 0x02"
abbreviation ATT_OP_MTU_RESP :: u8 where "ATT_OP_MTU_RESP \<equiv> 0x03"
abbreviation ATT_OP_FIND_INFO_REQ :: u8 where "ATT_OP_FIND_INFO_REQ \<equiv> 0x04"
abbreviation ATT_OP_FIND_INFO_RESP :: u8 where "ATT_OP_FIND_INFO_RESP \<equiv> 0x05"
abbreviation ATT_OP_FIND_BY_TYPE_REQ :: u8 where "ATT_OP_FIND_BY_TYPE_REQ \<equiv> 0x06"
abbreviation ATT_OP_FIND_BY_TYPE_RESP :: u8 where "ATT_OP_FIND_BY_TYPE_RESP \<equiv> 0x07"
abbreviation ATT_OP_READ_BY_TYPE_REQ :: u8 where "ATT_OP_READ_BY_TYPE_REQ \<equiv> 0x08"
abbreviation ATT_OP_READ_BY_TYPE_RESP :: u8 where "ATT_OP_READ_BY_TYPE_RESP \<equiv> 0x09"
abbreviation ATT_OP_READ_REQ :: u8 where "ATT_OP_READ_REQ \<equiv> 0x0A"
abbreviation ATT_OP_READ_RESP :: u8 where "ATT_OP_READ_RESP \<equiv> 0x0B"
abbreviation ATT_OP_READ_BLOB_REQ :: u8 where "ATT_OP_READ_BLOB_REQ \<equiv> 0x0C"
abbreviation ATT_OP_READ_BLOB_RESP :: u8 where "ATT_OP_READ_BLOB_RESP \<equiv> 0x0D"
abbreviation ATT_OP_READ_BY_GROUP_REQ :: u8 where "ATT_OP_READ_BY_GROUP_REQ \<equiv> 0x10"
abbreviation ATT_OP_READ_BY_GROUP_RESP :: u8 where "ATT_OP_READ_BY_GROUP_RESP \<equiv> 0x11"
abbreviation ATT_OP_WRITE_REQ :: u8 where "ATT_OP_WRITE_REQ \<equiv> 0x12"
abbreviation ATT_OP_WRITE_RESP :: u8 where "ATT_OP_WRITE_RESP \<equiv> 0x13"
abbreviation ATT_OP_WRITE_CMD :: u8 where "ATT_OP_WRITE_CMD \<equiv> 0x52"
abbreviation ATT_OP_PREP_WRITE_REQ :: u8 where "ATT_OP_PREP_WRITE_REQ \<equiv> 0x16"
abbreviation ATT_OP_PREP_WRITE_RESP :: u8 where "ATT_OP_PREP_WRITE_RESP \<equiv> 0x17"
abbreviation ATT_OP_EXEC_WRITE_REQ :: u8 where "ATT_OP_EXEC_WRITE_REQ \<equiv> 0x18"
abbreviation ATT_OP_EXEC_WRITE_RESP :: u8 where "ATT_OP_EXEC_WRITE_RESP \<equiv> 0x19"
abbreviation ATT_OP_HANDLE_NOTIFY :: u8 where "ATT_OP_HANDLE_NOTIFY \<equiv> 0x1B"
abbreviation ATT_OP_HANDLE_IND :: u8 where "ATT_OP_HANDLE_IND \<equiv> 0x1D"
abbreviation ATT_OP_HANDLE_CNF :: u8 where "ATT_OP_HANDLE_CNF \<equiv> 0x1E"
abbreviation ATT_OP_SIGNED_WRITE_CMD :: u8 where "ATT_OP_SIGNED_WRITE_CMD \<equiv> 0xD2"

definition ATT_SIGNATURE_LEN :: nat where "ATT_SIGNATURE_LEN = 12"

definition att_ecode2str :: "u8 \<Rightarrow> string" where
  "att_ecode2str status =
     (if status = 0x01 then ''Invalid handle''
      else if status = 0x02 then ''Attribute can't be read''
      else if status = 0x03 then ''Attribute can't be written''
      else if status = 0x04 then ''Attribute PDU was invalid''
      else if status = 0x05 then ''Attribute requires authentication before read/write''
      else if status = 0x06 then ''Server doesn't support the request received''
      else if status = 0x07 then ''Offset past the end of the attribute''
      else if status = 0x08 then ''Attribute requires authorization before read/write''
      else if status = 0x09 then ''Too many prepare writes have been queued''
      else if status = 0x0A then ''No attribute found within the given range''
      else if status = 0x0B then ''Attribute can't be read/written using Read Blob Req''
      else if status = 0x0C then ''Encryption Key Size is insufficient''
      else if status = 0x0D then ''Attribute value length is invalid''
      else if status = 0x0E then ''Request attribute has encountered an unlikely error''
      else if status = 0x0F then ''Encryption required before read/write''
      else if status = 0x10 then ''Attribute type is not a supported grouping attribute''
      else if status = 0x11 then ''Insufficient Resources to complete the request''
      else if status = 0x80 then ''Internal application error: I/O''
      else if status = 0x81 then ''A timeout occured''
      else if status = 0x82 then ''The operation was aborted''
      else ''Unexpected error code'')"

section \<open>Data\<close>

record att_data_list =
  al_num :: u16
  al_len :: u16
  al_data :: "u8 list list"

record att_range =
  range_start :: u16
  range_end :: u16

definition att_data_list_alloc :: "u16 \<Rightarrow> u16 \<Rightarrow> att_data_list option" where
  "att_data_list_alloc num len =
     (if unat len > 255 then None
      else Some \<lparr>al_num = num, al_len = len, al_data = replicate (unat num) (replicate (unat len) 0)\<rparr>)"

text \<open>\<open>list->data[i]\<close>.\<close>

definition data_at :: "u8 list list \<Rightarrow> nat \<Rightarrow> u8 list option" where
  "data_at data i = (if i < length data then Some (data ! i) else None)"

text \<open>The returned length and the object behind \<open>pdu\<close>.\<close>

type_synonym enc_result = "(u16 \<times> buf option) option"

abbreviation written :: "u16 \<Rightarrow> buf \<Rightarrow> enc_result" where "written n b \<equiv> Some (n, Some b)"

text \<open>
  The 16 bytes of the union, as the creating functions leave them on a little-endian host. Only the
  128-bit form is meant to be read this way.
\<close>

definition u128_storage :: "bt_uuid \<Rightarrow> u8 list option" where
  "u128_storage u = (case u of
     BT_UUID128 d \<Rightarrow> Some d
   | BT_UUID32 v \<Rightarrow> Some (le_of_word 4 v @ replicate 12 0)
   | BT_UUID16 v \<Rightarrow> Some (le_of_word 2 v @ replicate 14 0)
   | BT_UUID_UNSPEC \<Rightarrow> None)"

definition put_uuid_le :: "(u8 list \<Rightarrow> u8 list) \<Rightarrow> bt_uuid \<Rightarrow> buf \<Rightarrow> nat \<Rightarrow> buf option" where
  "put_uuid_le bswap_128 src dst i = (case src of
     BT_UUID16 v \<Rightarrow> put_le16 v dst i
   | _ \<Rightarrow> do { d \<leftarrow> u128_storage src; wr_bytes dst i (bswap_128 d) })"

text \<open>The parameter \<open>type\<close> is \<open>BT_UUID16\<close> or not.\<close>

definition get_uuid :: "(u8 list \<Rightarrow> u8 list) \<Rightarrow> bool \<Rightarrow> buf \<Rightarrow> nat \<Rightarrow> bt_uuid option" where
  "get_uuid bswap_128 is16 val i =
     (if is16 then map_option (\<lambda>v. snd (bt_uuid16_create v)) (get_le16 val i)
      else map_option (\<lambda>d. snd (bt_uuid128_create (bswap_128 d))) (rd_bytes val i 16))"

definition uuid_len :: "bt_uuid \<Rightarrow> u16 option" where
  "uuid_len u = (case u of BT_UUID16 _ \<Rightarrow> Some 2 | BT_UUID128 _ \<Rightarrow> Some 16 | _ \<Rightarrow> None)"

section \<open>Read By Group Type\<close>

definition enc_read_by_grp_req ::
  "(u8 list \<Rightarrow> u8 list) \<Rightarrow> u16 \<Rightarrow> u16 \<Rightarrow> bt_uuid option \<Rightarrow> buf option \<Rightarrow> u64 \<Rightarrow> enc_result" where
  "enc_read_by_grp_req bswap_128 start endh uuid pdu len = (case uuid of
     None \<Rightarrow> Some (0, pdu)
   | Some u \<Rightarrow> (case uuid_len u of
       None \<Rightarrow> Some (0, pdu)
     | Some n \<Rightarrow> do {
         b \<leftarrow> pdu;
         b \<leftarrow> wr8 b 0 ATT_OP_READ_BY_GROUP_REQ;
         b \<leftarrow> put_le16 start b 1;
         b \<leftarrow> put_le16 endh b 3;
         b \<leftarrow> put_uuid_le bswap_128 u b 5;
         written (5 + n) b }))"

definition dec_read_by_grp_req ::
  "(u8 list \<Rightarrow> u8 list) \<Rightarrow> buf option \<Rightarrow> u64 \<Rightarrow> u16 option \<Rightarrow> u16 option \<Rightarrow> bt_uuid option \<Rightarrow>
   (u16 \<times> u16 option \<times> u16 option \<times> bt_uuid option) option" where
  "dec_read_by_grp_req bswap_128 pdu len start endh uuid = (let ret0 = Some (0, start, endh, uuid) in
     case pdu of
       None \<Rightarrow> ret0
     | Some b \<Rightarrow>
       if start = None \<or> endh = None \<or> uuid = None then ret0
       else do {
         op \<leftarrow> rd8 b 0;
         if op \<noteq> ATT_OP_READ_BY_GROUP_REQ then ret0
         else if len \<noteq> 5 + 2 \<and> len \<noteq> 5 + 16 then ret0
         else do {
           s \<leftarrow> get_le16 b 1;
           e \<leftarrow> get_le16 b 3;
           u \<leftarrow> get_uuid bswap_128 (len = 5 + 2) b 5;
           Some (ucast len, Some s, Some e, Some u) } })"

text \<open>The counter \<open>w\<close> has 16 bits; the comparison is made in \<open>size_t\<close>.\<close>

fun enc_group_loop :: "u64 \<Rightarrow> att_data_list \<Rightarrow> nat \<Rightarrow> nat \<Rightarrow> u16 \<Rightarrow> nat \<Rightarrow> buf \<Rightarrow> (u16 \<times> buf) option" where
  "enc_group_loop len l 0 i w ptr b = Some (w, b)"
| "enc_group_loop len l (Suc n) i w ptr b =
     (if unat w + unat (al_len l) \<le> unat len then do {
        d \<leftarrow> data_at (al_data l) i;
        b \<leftarrow> memcpy b ptr d 0 (unat (al_len l));
        enc_group_loop len l n (Suc i) (w + al_len l) (ptr + unat (al_len l)) b }
      else Some (w, b))"

definition enc_read_by_grp_resp :: "att_data_list option \<Rightarrow> buf option \<Rightarrow> u64 \<Rightarrow> enc_result" where
  "enc_read_by_grp_resp list pdu len = (case list of
     None \<Rightarrow> Some (0, pdu)
   | Some l \<Rightarrow>
     if len < ucast (al_len l) + 1 * 2 then Some (0, pdu)
     else do {
       b \<leftarrow> pdu;
       b \<leftarrow> wr8 b 0 ATT_OP_READ_BY_GROUP_RESP;
       b \<leftarrow> wr8 b 1 (ucast (al_len l));
       (w, b) \<leftarrow> enc_group_loop len l (unat (al_num l)) 0 2 2 b;
       written w b })"

text \<open>\<open>for (i = 0; i < num; i++) memcpy(list->data[i], ptr, list->len), ptr += list->len;\<close>\<close>

fun fill_list_loop :: "buf \<Rightarrow> nat \<Rightarrow> nat \<Rightarrow> nat \<Rightarrow> att_data_list \<Rightarrow> att_data_list option" where
  "fill_list_loop pdu 0 i ptr l = Some l"
| "fill_list_loop pdu (Suc n) i ptr l = do {
     d \<leftarrow> data_at (al_data l) i;
     d \<leftarrow> memcpy d 0 pdu ptr (unat (al_len l));
     fill_list_loop pdu n (Suc i) (ptr + unat (al_len l)) (l\<lparr>al_data := (al_data l)[i := d]\<rparr>) }"

text \<open>The NULL that these decoders return is an inner \<open>None\<close>.\<close>

definition dec_read_by_grp_resp :: "buf option \<Rightarrow> u64 \<Rightarrow> att_data_list option option" where
  "dec_read_by_grp_resp pdu len = do {
     b \<leftarrow> pdu;
     op \<leftarrow> rd8 b 0;
     if op \<noteq> ATT_OP_READ_BY_GROUP_RESP then Some None
     else if len < 7 then Some None
     else do {
       el \<leftarrow> rd8 b 1;
       let elen = (ucast el :: u16);
       if elen < 5 then Some None
       else if (len - 2) mod ucast elen \<noteq> 0 then Some None
       else do {
         let num = (ucast ((len - 2) div ucast elen) :: u16);
         (case att_data_list_alloc num elen of
            None \<Rightarrow> Some None
          | Some l \<Rightarrow> map_option Some (fill_list_loop b (unat num) 0 2 l)) } } }"

section \<open>Find By Type Value\<close>

definition enc_find_by_type_req ::
  "u16 \<Rightarrow> u16 \<Rightarrow> bt_uuid option \<Rightarrow> buf option \<Rightarrow> u64 \<Rightarrow> buf option \<Rightarrow> u64 \<Rightarrow> enc_result" where
  "enc_find_by_type_req start endh uuid val vlen pdu len = (case pdu of
     None \<Rightarrow> Some (0, pdu)
   | Some b \<Rightarrow> (case uuid of
       Some (BT_UUID16 u) \<Rightarrow> do {
         let vlen = (if vlen > len - 7 then len - 7 else vlen);
         b \<leftarrow> wr8 b 0 ATT_OP_FIND_BY_TYPE_REQ;
         b \<leftarrow> put_le16 start b 1;
         b \<leftarrow> put_le16 endh b 3;
         b \<leftarrow> put_le16 u b 5;
         if vlen > 0 then do {
           v \<leftarrow> val;
           b \<leftarrow> memcpy b 7 v 0 (unat vlen);
           written (ucast (7 + vlen)) b }
         else written 7 b }
     | _ \<Rightarrow> Some (0, pdu)))"

definition dec_find_by_type_req ::
  "buf option \<Rightarrow> u64 \<Rightarrow> u16 option \<Rightarrow> u16 option \<Rightarrow> bt_uuid option \<Rightarrow> buf option \<Rightarrow> u64 option \<Rightarrow>
   (u16 \<times> u16 option \<times> u16 option \<times> bt_uuid option \<times> buf option \<times> u64 option) option" where
  "dec_find_by_type_req pdu len start endh uuid val vlen = (let ret0 = Some (0, start, endh, uuid, val, vlen) in
     case pdu of
       None \<Rightarrow> ret0
     | Some b \<Rightarrow>
       if len < 7 then ret0
       else do {
         op \<leftarrow> rd8 b 0;
         if op \<noteq> ATT_OP_FIND_BY_TYPE_REQ then ret0
         else do {
           s \<leftarrow> get_le16 b 1; _ \<leftarrow> start;
           e \<leftarrow> get_le16 b 3; _ \<leftarrow> endh;
           u \<leftarrow> get_le16 b 5; _ \<leftarrow> uuid;
           _ \<leftarrow> vlen;
           val \<leftarrow> (if len - 7 > 0 then do { v \<leftarrow> val; v \<leftarrow> memcpy v 0 b 7 (unat (len - 7)); Some (Some v) }
                   else Some val);
           Some (ucast len, Some s, Some e, Some (snd (bt_uuid16_create u)), val, Some (len - 7)) } })"

fun enc_ranges_loop :: "u64 \<Rightarrow> att_range list \<Rightarrow> u16 \<Rightarrow> buf \<Rightarrow> (u16 \<times> buf) option" where
  "enc_ranges_loop len [] offset b = Some (offset, b)"
| "enc_ranges_loop len (r # l) offset b =
     (if unat offset + 2 * 2 \<le> unat len then do {
        b \<leftarrow> put_le16 (range_start r) b (unat offset);
        b \<leftarrow> put_le16 (range_end r) b (unat offset + 2);
        enc_ranges_loop len l (offset + 2 * 2) b }
      else Some (offset, b))"

definition enc_find_by_type_resp :: "att_range list \<Rightarrow> buf option \<Rightarrow> u64 \<Rightarrow> enc_result" where
  "enc_find_by_type_resp matches pdu len = (case pdu of
     None \<Rightarrow> Some (0, pdu)
   | Some b \<Rightarrow> do {
       b \<leftarrow> wr8 b 0 ATT_OP_FIND_BY_TYPE_RESP;
       (offset, b) \<leftarrow> enc_ranges_loop len matches 1 b;
       written offset b })"

function dec_ranges_loop :: "buf \<Rightarrow> u64 \<Rightarrow> nat \<Rightarrow> att_range list \<Rightarrow> att_range list option" where
  "dec_ranges_loop b len offset matches =
     (if offset + 2 * 2 \<le> unat len then do {
        s \<leftarrow> get_le16 b offset;
        e \<leftarrow> get_le16 b (offset + 2);
        dec_ranges_loop b len (offset + 2 * 2) (matches @ [\<lparr>range_start = s, range_end = e\<rparr>]) }
      else Some matches)"
  by pat_completeness auto
termination by (relation "measure (\<lambda>(b, len, offset, matches). unat len - offset)") auto

declare dec_ranges_loop.simps [simp del]

definition dec_find_by_type_resp :: "buf option \<Rightarrow> u64 \<Rightarrow> att_range list option" where
  "dec_find_by_type_resp pdu len = (case pdu of
     None \<Rightarrow> Some []
   | Some b \<Rightarrow>
     if len < 5 then Some []
     else do {
       op \<leftarrow> rd8 b 0;
       if op \<noteq> ATT_OP_FIND_BY_TYPE_RESP then Some []
       else if (len - 1) mod 4 \<noteq> 0 then Some []
       else dec_ranges_loop b len 1 [] })"

section \<open>Read By Type\<close>

definition enc_read_by_type_req ::
  "(u8 list \<Rightarrow> u8 list) \<Rightarrow> u16 \<Rightarrow> u16 \<Rightarrow> bt_uuid option \<Rightarrow> buf option \<Rightarrow> u64 \<Rightarrow> enc_result" where
  "enc_read_by_type_req bswap_128 start endh uuid pdu len = (case uuid of
     None \<Rightarrow> Some (0, pdu)
   | Some u \<Rightarrow> (case uuid_len u of
       None \<Rightarrow> Some (0, pdu)
     | Some n \<Rightarrow> do {
         b \<leftarrow> pdu;
         b \<leftarrow> wr8 b 0 ATT_OP_READ_BY_TYPE_REQ;
         b \<leftarrow> put_le16 start b 1;
         b \<leftarrow> put_le16 endh b 3;
         b \<leftarrow> put_uuid_le bswap_128 u b 5;
         written (5 + n) b }))"

definition dec_read_by_type_req ::
  "(u8 list \<Rightarrow> u8 list) \<Rightarrow> buf option \<Rightarrow> u64 \<Rightarrow> u16 option \<Rightarrow> u16 option \<Rightarrow> bt_uuid option \<Rightarrow>
   (u16 \<times> u16 option \<times> u16 option \<times> bt_uuid option) option" where
  "dec_read_by_type_req bswap_128 pdu len start endh uuid = (let ret0 = Some (0, start, endh, uuid) in
     case pdu of
       None \<Rightarrow> ret0
     | Some b \<Rightarrow>
       if start = None \<or> endh = None \<or> uuid = None then ret0
       else if len \<noteq> 5 + 2 \<and> len \<noteq> 5 + 16 then ret0
       else do {
         op \<leftarrow> rd8 b 0;
         if op \<noteq> ATT_OP_READ_BY_TYPE_REQ then ret0
         else do {
           s \<leftarrow> get_le16 b 1;
           e \<leftarrow> get_le16 b 3;
           u \<leftarrow> get_uuid bswap_128 (len = 5 + 2) b 5;
           Some (ucast len, Some s, Some e, Some u) } })"

text \<open>Copies of \<open>l\<close> bytes each, counted in \<open>size_t\<close>; the loop of \<open>enc_read_by_type_resp\<close> and \<open>enc_find_info_resp\<close>.\<close>

fun enc_data_loop :: "u64 \<Rightarrow> u8 list list \<Rightarrow> u64 \<Rightarrow> nat \<Rightarrow> nat \<Rightarrow> u64 \<Rightarrow> nat \<Rightarrow> buf \<Rightarrow> (u64 \<times> buf) option" where
  "enc_data_loop len data l 0 i w ptr b = Some (w, b)"
| "enc_data_loop len data l (Suc n) i w ptr b =
     (if w + l \<le> len then do {
        d \<leftarrow> data_at data i;
        b \<leftarrow> memcpy b ptr d 0 (unat l);
        enc_data_loop len data l n (Suc i) (w + l) (ptr + unat l) b }
      else Some (w, b))"

definition enc_read_by_type_resp :: "att_data_list option \<Rightarrow> buf option \<Rightarrow> u64 \<Rightarrow> enc_result" where
  "enc_read_by_type_resp list pdu len = (case list of
     None \<Rightarrow> Some (0, pdu)
   | Some al \<Rightarrow> (case pdu of
       None \<Rightarrow> Some (0, pdu)
     | Some b \<Rightarrow> do {
         let l = min (len - 2) (ucast (al_len al));
         b \<leftarrow> wr8 b 0 ATT_OP_READ_BY_TYPE_RESP;
         b \<leftarrow> wr8 b 1 (ucast l);
         (w, b) \<leftarrow> enc_data_loop len (al_data al) l (unat (al_num al)) 0 2 2 b;
         written (ucast w) b }))"

definition dec_read_by_type_resp :: "buf option \<Rightarrow> u64 \<Rightarrow> att_data_list option option" where
  "dec_read_by_type_resp pdu len = do {
     b \<leftarrow> pdu;
     op \<leftarrow> rd8 b 0;
     if op \<noteq> ATT_OP_READ_BY_TYPE_RESP then Some None
     else if len < 5 then Some None
     else do {
       el \<leftarrow> rd8 b 1;
       let elen = (ucast el :: u16);
       if elen < 3 then Some None
       else if (len - 2) mod ucast elen \<noteq> 0 then Some None
       else do {
         let num = (ucast ((len - 2) div ucast elen) :: u16);
         (case att_data_list_alloc num elen of
            None \<Rightarrow> Some None
          | Some l \<Rightarrow> map_option Some (fill_list_loop b (unat num) 0 2 l)) } } }"

end
