(* ===== verification/AttPduValue.thy ===== *)
theory AttPduValue
  imports AttPdu
begin

text \<open>
  \<^verbatim>\<open>bluez/attrib/att.c\<close>, second part: the PDUs that read, write and notify attribute values, the
  signed write command, Find Information, MTU exchange, and the error response. Conventions as in theory
  \<open>AttPdu\<close>; a value buffer is an object of its own, and \<open>dec_\<close> functions that copy into one need it to
  be large enough.
\<close>

section \<open>Write Command and Write Request\<close>

definition enc_write_cmd :: "u16 \<Rightarrow> buf option \<Rightarrow> u64 \<Rightarrow> buf option \<Rightarrow> u64 \<Rightarrow> enc_result" where
  "enc_write_cmd handle val vlen pdu len = (case pdu of
     None \<Rightarrow> Some (0, pdu)
   | Some b \<Rightarrow> do {
       let vlen = (if vlen > len - 3 then len - 3 else vlen);
       b \<leftarrow> wr8 b 0 ATT_OP_WRITE_CMD;
       b \<leftarrow> put_le16 handle b 1;
       if vlen > 0 then do {
         v \<leftarrow> val;
         b \<leftarrow> memcpy b 3 v 0 (unat vlen);
         written (ucast (3 + vlen)) b }
       else written 3 b })"

definition dec_write_cmd ::
  "buf option \<Rightarrow> u64 \<Rightarrow> u16 option \<Rightarrow> buf option \<Rightarrow> u64 option \<Rightarrow>
   (u16 \<times> u16 option \<times> buf option \<times> u64 option) option" where
  "dec_write_cmd pdu len handle val vlen = (let ret0 = Some (0, handle, val, vlen) in
     case pdu of
       None \<Rightarrow> ret0
     | Some b \<Rightarrow> (case val of
         None \<Rightarrow> ret0
       | Some v \<Rightarrow>
         if vlen = None \<or> handle = None then ret0
         else if len < 3 then ret0
         else do {
           op \<leftarrow> rd8 b 0;
           if op \<noteq> ATT_OP_WRITE_CMD then ret0
           else do {
             h \<leftarrow> get_le16 b 1;
             v \<leftarrow> memcpy v 0 b 3 (unat (len - 3));
             Some (ucast len, Some h, Some v, Some (len - 3)) } }))"

definition enc_write_req :: "u16 \<Rightarrow> buf option \<Rightarrow> u64 \<Rightarrow> buf option \<Rightarrow> u64 \<Rightarrow> enc_result" where
  "enc_write_req handle val vlen pdu len = (case pdu of
     None \<Rightarrow> Some (0, pdu)
   | Some b \<Rightarrow> do {
       let vlen = (if vlen > len - 3 then len - 3 else vlen);
       b \<leftarrow> wr8 b 0 ATT_OP_WRITE_REQ;
       b \<leftarrow> put_le16 handle b 1;
       if vlen > 0 then do {
         v \<leftarrow> val;
         b \<leftarrow> memcpy b 3 v 0 (unat vlen);
         written (ucast (3 + vlen)) b }
       else written 3 b })"

definition dec_write_req ::
  "buf option \<Rightarrow> u64 \<Rightarrow> u16 option \<Rightarrow> buf option \<Rightarrow> u64 option \<Rightarrow>
   (u16 \<times> u16 option \<times> buf option \<times> u64 option) option" where
  "dec_write_req pdu len handle val vlen = (let ret0 = Some (0, handle, val, vlen) in
     case pdu of
       None \<Rightarrow> ret0
     | Some b \<Rightarrow> (case val of
         None \<Rightarrow> ret0
       | Some v \<Rightarrow>
         if vlen = None \<or> handle = None then ret0
         else if len < 3 then ret0
         else do {
           op \<leftarrow> rd8 b 0;
           if op \<noteq> ATT_OP_WRITE_REQ then ret0
           else do {
             h \<leftarrow> get_le16 b 1;
             v \<leftarrow> (if len - 3 > 0 then memcpy v 0 b 3 (unat (len - 3)) else Some v);
             Some (ucast len, Some h, Some v, Some (len - 3)) } }))"

definition enc_write_resp :: "buf option \<Rightarrow> enc_result" where
  "enc_write_resp pdu = (case pdu of
     None \<Rightarrow> Some (0, pdu)
   | Some b \<Rightarrow> do { b \<leftarrow> wr8 b 0 ATT_OP_WRITE_RESP; written 1 b })"

definition dec_write_resp :: "buf option \<Rightarrow> u64 \<Rightarrow> u16 option" where
  "dec_write_resp pdu len = (case pdu of
     None \<Rightarrow> Some 0
   | Some b \<Rightarrow> do { op \<leftarrow> rd8 b 0; Some (if op \<noteq> ATT_OP_WRITE_RESP then 0 else ucast len) })"

section \<open>Signed Write Command\<close>

definition enc_signed_write_cmd ::
  "u16 \<Rightarrow> buf option \<Rightarrow> u64 \<Rightarrow> alg_kernel option \<Rightarrow> u8 list \<Rightarrow> u32 \<Rightarrow> buf option \<Rightarrow> u64 \<Rightarrow> enc_result" where
  "enc_signed_write_cmd handle val vlen crypto csrk sign_cnt pdu len = (case pdu of
     None \<Rightarrow> Some (0, pdu)
   | Some b \<Rightarrow> do {
       let vlen = (if vlen > len - 15 then len - 15 else vlen);
       b \<leftarrow> wr8 b 0 ATT_OP_SIGNED_WRITE_CMD;
       b \<leftarrow> put_le16 handle b 1;
       b \<leftarrow> (if vlen > 0 then do { v \<leftarrow> val; memcpy b 3 v 0 (unat vlen) } else Some b);
       s \<leftarrow> bt_crypto_sign_att crypto csrk b (ucast (3 + vlen)) sign_cnt;
       (case s of
          None \<Rightarrow> Some (0, Some b)
        | Some sign \<Rightarrow> do {
            b \<leftarrow> wr_bytes b (unat (3 + vlen)) sign;
            written (ucast (15 + vlen)) b }) })"

definition dec_signed_write_cmd ::
  "buf option \<Rightarrow> u64 \<Rightarrow> u16 option \<Rightarrow> buf option \<Rightarrow> u64 option \<Rightarrow> buf \<Rightarrow>
   (u16 \<times> u16 option \<times> buf option \<times> u64 option \<times> buf) option" where
  "dec_signed_write_cmd pdu len handle val vlen signature = (let ret0 = Some (0, handle, val, vlen, signature) in
     case pdu of
       None \<Rightarrow> ret0
     | Some b \<Rightarrow> (case val of
         None \<Rightarrow> ret0
       | Some v \<Rightarrow>
         if vlen = None \<or> handle = None then ret0
         else if len < 15 then ret0
         else do {
           op \<leftarrow> rd8 b 0;
           if op \<noteq> ATT_OP_SIGNED_WRITE_CMD then ret0
           else do {
             let vlen = len - 15;
             h \<leftarrow> get_le16 b 1;
             v \<leftarrow> memcpy v 0 b 3 (unat vlen);
             s \<leftarrow> memcpy signature 0 b (unat (3 + vlen)) ATT_SIGNATURE_LEN;
             Some (ucast len, Some h, Some v, Some vlen, s) } }))"

section \<open>Read and Read Blob\<close>

definition enc_read_req :: "u16 \<Rightarrow> buf option \<Rightarrow> u64 \<Rightarrow> enc_result" where
  "enc_read_req handle pdu len = (case pdu of
     None \<Rightarrow> Some (0, pdu)
   | Some b \<Rightarrow> do {
       b \<leftarrow> wr8 b 0 ATT_OP_READ_REQ;
       b \<leftarrow> put_le16 handle b 1;
       written 3 b })"

definition enc_read_blob_req :: "u16 \<Rightarrow> u16 \<Rightarrow> buf option \<Rightarrow> u64 \<Rightarrow> enc_result" where
  "enc_read_blob_req handle offset pdu len = (case pdu of
     None \<Rightarrow> Some (0, pdu)
   | Some b \<Rightarrow> do {
       b \<leftarrow> wr8 b 0 ATT_OP_READ_BLOB_REQ;
       b \<leftarrow> put_le16 handle b 1;
       b \<leftarrow> put_le16 offset b 3;
       written 5 b })"

definition dec_read_req :: "buf option \<Rightarrow> u64 \<Rightarrow> u16 option \<Rightarrow> (u16 \<times> u16 option) option" where
  "dec_read_req pdu len handle = (case pdu of
     None \<Rightarrow> Some (0, handle)
   | Some b \<Rightarrow>
     if handle = None then Some (0, handle)
     else if len < 3 then Some (0, handle)
     else do {
       op \<leftarrow> rd8 b 0;
       if op \<noteq> ATT_OP_READ_REQ then Some (0, handle)
       else do { h \<leftarrow> get_le16 b 1; Some (3, Some h) } })"

definition dec_read_blob_req ::
  "buf option \<Rightarrow> u64 \<Rightarrow> u16 option \<Rightarrow> u16 option \<Rightarrow> (u16 \<times> u16 option \<times> u16 option) option" where
  "dec_read_blob_req pdu len handle offset = (let ret0 = Some (0, handle, offset) in
     case pdu of
       None \<Rightarrow> ret0
     | Some b \<Rightarrow>
       if handle = None then ret0
       else if offset = None then ret0
       else if len < 5 then ret0
       else do {
         op \<leftarrow> rd8 b 0;
         if op \<noteq> ATT_OP_READ_BLOB_REQ then ret0
         else do { h \<leftarrow> get_le16 b 1; off \<leftarrow> get_le16 b 3; Some (5, Some h, Some off) } })"

definition enc_read_resp :: "buf option \<Rightarrow> u64 \<Rightarrow> buf option \<Rightarrow> u64 \<Rightarrow> enc_result" where
  "enc_read_resp val vlen pdu len = (case pdu of
     None \<Rightarrow> Some (0, pdu)
   | Some b \<Rightarrow> do {
       let vlen = (if vlen > len - 1 then len - 1 else vlen);
       b \<leftarrow> wr8 b 0 ATT_OP_READ_RESP;
       v \<leftarrow> val;
       b \<leftarrow> memcpy b 1 v 0 (unat vlen);
       written (ucast (vlen + 1)) b })"

definition enc_read_blob_resp :: "buf option \<Rightarrow> u64 \<Rightarrow> u16 \<Rightarrow> buf option \<Rightarrow> u64 \<Rightarrow> enc_result" where
  "enc_read_blob_resp val vlen offset pdu len = (case pdu of
     None \<Rightarrow> Some (0, pdu)
   | Some b \<Rightarrow> do {
       let vlen = vlen - ucast offset;
       let vlen = (if vlen > len - 1 then len - 1 else vlen);
       b \<leftarrow> wr8 b 0 ATT_OP_READ_BLOB_RESP;
       v \<leftarrow> val;
       b \<leftarrow> memcpy b 1 v (unat offset) (unat vlen);
       written (ucast (vlen + 1)) b })"

text \<open>A \<open>ssize_t\<close> and the value buffer.\<close>

definition dec_read_resp :: "buf option \<Rightarrow> u64 \<Rightarrow> buf option \<Rightarrow> u64 \<Rightarrow> (int \<times> buf option) option" where
  "dec_read_resp pdu len val vlen = (case pdu of
     None \<Rightarrow> Some (- EINVAL, val)
   | Some b \<Rightarrow> do {
       op \<leftarrow> rd8 b 0;
       if op \<noteq> ATT_OP_READ_RESP then Some (- EINVAL, val)
       else (case val of
         None \<Rightarrow> Some (sint (len - 1), val)
       | Some v \<Rightarrow>
         if vlen < len - 1 then Some (- ENOBUFS, val)
         else do {
           v \<leftarrow> memcpy v 0 b 1 (unat (len - 1));
           Some (sint (len - 1), Some v) }) })"

section \<open>Errors, Find Information\<close>

definition enc_error_resp :: "u8 \<Rightarrow> u16 \<Rightarrow> u8 \<Rightarrow> buf option \<Rightarrow> u64 \<Rightarrow> enc_result" where
  "enc_error_resp opcode handle status pdu len = do {
     b \<leftarrow> pdu;
     b \<leftarrow> wr8 b 0 ATT_OP_ERROR;
     b \<leftarrow> wr8 b 1 opcode;
     b \<leftarrow> put_le16 handle b 2;
     b \<leftarrow> wr8 b 4 status;
     written 5 b }"

definition enc_find_info_req :: "u16 \<Rightarrow> u16 \<Rightarrow> buf option \<Rightarrow> u64 \<Rightarrow> enc_result" where
  "enc_find_info_req start endh pdu len = (case pdu of
     None \<Rightarrow> Some (0, pdu)
   | Some b \<Rightarrow> do {
       b \<leftarrow> wr8 b 0 ATT_OP_FIND_INFO_REQ;
       b \<leftarrow> put_le16 start b 1;
       b \<leftarrow> put_le16 endh b 3;
       written 5 b })"

definition dec_find_info_req ::
  "buf option \<Rightarrow> u64 \<Rightarrow> u16 option \<Rightarrow> u16 option \<Rightarrow> (u16 \<times> u16 option \<times> u16 option) option" where
  "dec_find_info_req pdu len start endh = (let ret0 = Some (0, start, endh) in
     case pdu of
       None \<Rightarrow> ret0
     | Some b \<Rightarrow>
       if len < 5 then ret0
       else if start = None \<or> endh = None then ret0
       else do {
         op \<leftarrow> rd8 b 0;
         if op \<noteq> ATT_OP_FIND_INFO_REQ then ret0
         else do { s \<leftarrow> get_le16 b 1; e \<leftarrow> get_le16 b 3; Some (5, Some s, Some e) } })"

definition enc_find_info_resp :: "u8 \<Rightarrow> att_data_list option \<Rightarrow> buf option \<Rightarrow> u64 \<Rightarrow> enc_result" where
  "enc_find_info_resp format list pdu len = (case pdu of
     None \<Rightarrow> Some (0, pdu)
   | Some b \<Rightarrow> (case list of
       None \<Rightarrow> Some (0, pdu)
     | Some al \<Rightarrow>
       if len < ucast (al_len al) + 1 * 2 then Some (0, pdu)
       else do {
         b \<leftarrow> wr8 b 0 ATT_OP_FIND_INFO_RESP;
         b \<leftarrow> wr8 b 1 format;
         (w, b) \<leftarrow> enc_data_loop len (al_data al) (ucast (al_len al)) (unat (al_num al)) 0 2 2 b;
         written (ucast w) b }))"

text \<open>The list, or NULL, and the format.\<close>

definition dec_find_info_resp :: "buf option \<Rightarrow> u64 \<Rightarrow> u8 option \<Rightarrow> (att_data_list option \<times> u8 option) option" where
  "dec_find_info_resp pdu len format = (case pdu of
     None \<Rightarrow> Some (None, format)
   | Some b \<Rightarrow>
     if format = None then Some (None, format)
     else do {
       op \<leftarrow> rd8 b 0;
       if op \<noteq> ATT_OP_FIND_INFO_RESP then Some (None, format)
       else do {
         f \<leftarrow> rd8 b 1;
         let elen = (if f = 0x01 then 2 + 2 else if f = 0x02 then 2 + 16 else 2 :: u16);
         let num = (ucast ((len - 2) div ucast elen) :: u16);
         (case att_data_list_alloc num elen of
            None \<Rightarrow> Some (None, Some f)
          | Some l \<Rightarrow> do {
              l \<leftarrow> fill_list_loop b (unat num) 0 2 l;
              Some (Some l, Some f) }) } })"

section \<open>Notifications and indications\<close>

definition enc_notification :: "u16 \<Rightarrow> buf option \<Rightarrow> u64 \<Rightarrow> buf option \<Rightarrow> u64 \<Rightarrow> enc_result" where
  "enc_notification handle val vlen pdu len = (case pdu of
     None \<Rightarrow> Some (0, pdu)
   | Some b \<Rightarrow>
     if len < vlen + 3 then Some (0, pdu)
     else do {
       b \<leftarrow> wr8 b 0 ATT_OP_HANDLE_NOTIFY;
       b \<leftarrow> put_le16 handle b 1;
       v \<leftarrow> val;
       b \<leftarrow> memcpy b 3 v 0 (unat vlen);
       written (ucast (vlen + 3)) b })"

definition enc_indication :: "u16 \<Rightarrow> buf option \<Rightarrow> u64 \<Rightarrow> buf option \<Rightarrow> u64 \<Rightarrow> enc_result" where
  "enc_indication handle val vlen pdu len = (case pdu of
     None \<Rightarrow> Some (0, pdu)
   | Some b \<Rightarrow>
     if len < vlen + 3 then Some (0, pdu)
     else do {
       b \<leftarrow> wr8 b 0 ATT_OP_HANDLE_IND;
       b \<leftarrow> put_le16 handle b 1;
       v \<leftarrow> val;
       b \<leftarrow> memcpy b 3 v 0 (unat vlen);
       written (ucast (vlen + 3)) b })"

definition dec_indication ::
  "buf option \<Rightarrow> u64 \<Rightarrow> u16 option \<Rightarrow> buf option \<Rightarrow> u64 \<Rightarrow> (u16 \<times> u16 option \<times> buf option) option" where
  "dec_indication pdu len handle val vlen = (let ret0 = Some (0, handle, val) in
     case pdu of
       None \<Rightarrow> ret0
     | Some b \<Rightarrow> do {
         op \<leftarrow> rd8 b 0;
         if op \<noteq> ATT_OP_HANDLE_IND then ret0
         else if len < 3 then ret0
         else do {
           let dlen = (ucast (min (len - 3) vlen) :: u16);
           handle \<leftarrow> (case handle of None \<Rightarrow> Some None | Some _ \<Rightarrow> map_option Some (get_le16 b 1));
           v \<leftarrow> val;
           v \<leftarrow> memcpy v 0 b 3 (unat dlen);
           Some (dlen, handle, Some v) } })"

definition enc_confirmation :: "buf option \<Rightarrow> u64 \<Rightarrow> enc_result" where
  "enc_confirmation pdu len = (case pdu of
     None \<Rightarrow> Some (0, pdu)
   | Some b \<Rightarrow> do { b \<leftarrow> wr8 b 0 ATT_OP_HANDLE_CNF; written 1 b })"

section \<open>MTU exchange\<close>

definition enc_mtu_req :: "u16 \<Rightarrow> buf option \<Rightarrow> u64 \<Rightarrow> enc_result" where
  "enc_mtu_req mtu pdu len = (case pdu of
     None \<Rightarrow> Some (0, pdu)
   | Some b \<Rightarrow> do {
       b \<leftarrow> wr8 b 0 ATT_OP_MTU_REQ;
       b \<leftarrow> put_le16 mtu b 1;
       written 3 b })"

definition dec_mtu_req :: "buf option \<Rightarrow> u64 \<Rightarrow> u16 option \<Rightarrow> (u16 \<times> u16 option) option" where
  "dec_mtu_req pdu len mtu = (case pdu of
     None \<Rightarrow> Some (0, mtu)
   | Some b \<Rightarrow>
     if mtu = None then Some (0, mtu)
     else if len < 3 then Some (0, mtu)
     else do {
       op \<leftarrow> rd8 b 0;
       if op \<noteq> ATT_OP_MTU_REQ then Some (0, mtu)
       else do { m \<leftarrow> get_le16 b 1; Some (3, Some m) } })"

definition enc_mtu_resp :: "u16 \<Rightarrow> buf option \<Rightarrow> u64 \<Rightarrow> enc_result" where
  "enc_mtu_resp mtu pdu len = (case pdu of
     None \<Rightarrow> Some (0, pdu)
   | Some b \<Rightarrow> do {
       b \<leftarrow> wr8 b 0 ATT_OP_MTU_RESP;
       b \<leftarrow> put_le16 mtu b 1;
       written 3 b })"

definition dec_mtu_resp :: "buf option \<Rightarrow> u64 \<Rightarrow> u16 option \<Rightarrow> (u16 \<times> u16 option) option" where
  "dec_mtu_resp pdu len mtu = (case pdu of
     None \<Rightarrow> Some (0, mtu)
   | Some b \<Rightarrow>
     if mtu = None then Some (0, mtu)
     else if len < 3 then Some (0, mtu)
     else do {
       op \<leftarrow> rd8 b 0;
       if op \<noteq> ATT_OP_MTU_RESP then Some (0, mtu)
       else do { m \<leftarrow> get_le16 b 1; Some (3, Some m) } })"

section \<open>Prepared writes\<close>

definition enc_prep_write_req :: "u16 \<Rightarrow> u16 \<Rightarrow> buf option \<Rightarrow> u64 \<Rightarrow> buf option \<Rightarrow> u64 \<Rightarrow> enc_result" where
  "enc_prep_write_req handle offset val vlen pdu len = (case pdu of
     None \<Rightarrow> Some (0, pdu)
   | Some b \<Rightarrow> do {
       let vlen = (if vlen > len - 5 then len - 5 else vlen);
       b \<leftarrow> wr8 b 0 ATT_OP_PREP_WRITE_REQ;
       b \<leftarrow> put_le16 handle b 1;
       b \<leftarrow> put_le16 offset b 3;
       if vlen > 0 then do {
         v \<leftarrow> val;
         b \<leftarrow> memcpy b 5 v 0 (unat vlen);
         written (ucast (5 + vlen)) b }
       else written 5 b })"

definition dec_prep_write_req ::
  "buf option \<Rightarrow> u64 \<Rightarrow> u16 option \<Rightarrow> u16 option \<Rightarrow> buf option \<Rightarrow> u64 option \<Rightarrow>
   (u16 \<times> u16 option \<times> u16 option \<times> buf option \<times> u64 option) option" where
  "dec_prep_write_req pdu len handle offset val vlen = (let ret0 = Some (0, handle, offset, val, vlen) in
     case pdu of
       None \<Rightarrow> ret0
     | Some b \<Rightarrow> (case val of
         None \<Rightarrow> ret0
       | Some v \<Rightarrow>
         if handle = None \<or> offset = None \<or> vlen = None then ret0
         else if len < 5 then ret0
         else do {
           op \<leftarrow> rd8 b 0;
           if op \<noteq> ATT_OP_PREP_WRITE_REQ then ret0
           else do {
             h \<leftarrow> get_le16 b 1;
             off \<leftarrow> get_le16 b 3;
             v \<leftarrow> (if len - 5 > 0 then memcpy v 0 b 5 (unat (len - 5)) else Some v);
             Some (ucast len, Some h, Some off, Some v, Some (len - 5)) } }))"

definition enc_prep_write_resp :: "u16 \<Rightarrow> u16 \<Rightarrow> buf option \<Rightarrow> u64 \<Rightarrow> buf option \<Rightarrow> u64 \<Rightarrow> enc_result" where
  "enc_prep_write_resp handle offset val vlen pdu len = (case pdu of
     None \<Rightarrow> Some (0, pdu)
   | Some b \<Rightarrow> do {
       let vlen = (if vlen > len - 5 then len - 5 else vlen);
       b \<leftarrow> wr8 b 0 ATT_OP_PREP_WRITE_RESP;
       b \<leftarrow> put_le16 handle b 1;
       b \<leftarrow> put_le16 offset b 3;
       if vlen > 0 then do {
         v \<leftarrow> val;
         b \<leftarrow> memcpy b 5 v 0 (unat vlen);
         written (ucast (5 + vlen)) b }
       else written 5 b })"

text \<open>The opcode it compares with is the one of the request.\<close>

definition dec_prep_write_resp ::
  "buf option \<Rightarrow> u64 \<Rightarrow> u16 option \<Rightarrow> u16 option \<Rightarrow> buf option \<Rightarrow> u64 option \<Rightarrow>
   (u16 \<times> u16 option \<times> u16 option \<times> buf option \<times> u64 option) option" where
  "dec_prep_write_resp pdu len handle offset val vlen = (let ret0 = Some (0, handle, offset, val, vlen) in
     case pdu of
       None \<Rightarrow> ret0
     | Some b \<Rightarrow> (case val of
         None \<Rightarrow> ret0
       | Some v \<Rightarrow>
         if handle = None \<or> offset = None \<or> vlen = None then ret0
         else if len < 5 then ret0
         else do {
           op \<leftarrow> rd8 b 0;
           if op \<noteq> ATT_OP_PREP_WRITE_REQ then ret0
           else do {
             h \<leftarrow> get_le16 b 1;
             off \<leftarrow> get_le16 b 3;
             v \<leftarrow> (if len - 5 > 0 then memcpy v 0 b 5 (unat (len - 5)) else Some v);
             Some (ucast len, Some h, Some off, Some v, Some (len - 5)) } }))"

definition enc_exec_write_req :: "u8 \<Rightarrow> buf option \<Rightarrow> u64 \<Rightarrow> enc_result" where
  "enc_exec_write_req flags pdu len = (case pdu of
     None \<Rightarrow> Some (0, pdu)
   | Some b \<Rightarrow>
     if flags > 1 then Some (0, pdu)
     else do {
       b \<leftarrow> wr8 b 0 ATT_OP_EXEC_WRITE_REQ;
       b \<leftarrow> wr8 b 1 flags;
       written 2 b })"

definition dec_exec_write_req :: "buf option \<Rightarrow> u64 \<Rightarrow> u8 option \<Rightarrow> (u16 \<times> u8 option) option" where
  "dec_exec_write_req pdu len flags = (case pdu of
     None \<Rightarrow> Some (0, flags)
   | Some b \<Rightarrow>
     if flags = None then Some (0, flags)
     else if len < 2 then Some (0, flags)
     else do {
       op \<leftarrow> rd8 b 0;
       if op \<noteq> ATT_OP_EXEC_WRITE_REQ then Some (0, flags)
       else do { f \<leftarrow> rd8 b 1; Some (2, Some f) } })"

definition enc_exec_write_resp :: "buf option \<Rightarrow> enc_result" where
  "enc_exec_write_resp pdu = (case pdu of
     None \<Rightarrow> Some (0, pdu)
   | Some b \<Rightarrow> do { b \<leftarrow> wr8 b 0 ATT_OP_EXEC_WRITE_RESP; written 1 b })"

definition dec_exec_write_resp :: "buf option \<Rightarrow> u64 \<Rightarrow> u16 option" where
  "dec_exec_write_resp pdu len = (case pdu of
     None \<Rightarrow> Some 0
   | Some b \<Rightarrow>
     if len < 1 then Some 0
     else do { op \<leftarrow> rd8 b 0; Some (if op \<noteq> ATT_OP_EXEC_WRITE_RESP then 0 else ucast len) })"

end
