(* ===== verification/CryptoSpec.thy ===== *)
theory CryptoSpec
  imports Crypto
begin

text \<open>
  The correctness of \<^verbatim>\<open>crypto.c\<close> (theory \<open>Crypto\<close>): each security function as an
  expression over the two kernel algorithms, and the contract of ATT signatures, a locale that the model
  instantiates for every kernel that behaves as documented.
\<close>

section \<open>Reversal\<close>

lemma swap_loop_eq:
  "i + n = len \<Longrightarrow> len \<le> length src \<Longrightarrow> len \<le> length dst \<Longrightarrow>
   swap_loop len n i src dst = Some (rev (drop i (take len src)) @ drop n dst)"
proof (induction n arbitrary: i dst)
  case 0
  then show ?case by simp
next
  case (Suc n)
  let ?dst = "dst[n := src ! i]"
  have pos: "len - 1 - i = n" using Suc.prems by simp
  have "swap_loop len n (Suc i) src ?dst = Some (rev (drop (Suc i) (take len src)) @ drop n ?dst)"
    by (rule Suc.IH) (use Suc.prems in auto)
  moreover have "drop n ?dst = src ! i # drop (Suc n) dst"
    using Suc.prems by (subst nth_drop_hd) auto
  moreover have "drop i (take len src) = src ! i # drop (Suc i) (take len src)"
    using Suc.prems by (subst nth_drop_hd) auto
  ultimately show ?case using Suc.prems pos by (simp add: rd8_def wr8_def)
qed

lemma swap_buf_eq [mem_simps]:
  "unat len \<le> length src \<Longrightarrow> unat len \<le> length dst \<Longrightarrow>
   swap_buf src dst len = Some (rev (take (unat len) src) @ drop (unat len) dst)"
  by (simp add: swap_buf_def swap_loop_eq)

lemma length_fresh [simp]: "length (fresh n) = n"
  by (simp add: fresh_def)

lemma swap16 [mem_simps]: "length src = 16 \<Longrightarrow> length dst = 16 \<Longrightarrow> swap_buf src dst 16 = Some (rev src)"
  by (simp add: swap_buf_eq)

section \<open>Signing\<close>

text \<open>
  The signature: the counter in little-endian order, then the 8 most significant octets of the
  CMAC of the message with the counter appended, least significant octet first.
\<close>

definition att_mac :: "alg_kernel \<Rightarrow> u8 list \<Rightarrow> u8 list \<Rightarrow> u32 \<Rightarrow> u8 list option" where
  "att_mac K key m cnt = k_cmac K (rev key) (rev (m @ le_of_word 4 cnt))"

definition att_signature :: "u32 \<Rightarrow> u8 list \<Rightarrow> u8 list" where
  "att_signature cnt out = le_of_word 4 cnt @ rev (take 8 out)"

lemma length_att_signature: "8 \<le> length out \<Longrightarrow> length (att_signature cnt out) = 12"
  by (simp add: att_signature_def)

lemma sign_att_eq:
  assumes K: "kernel_ok K" and key: "length key = 16" and m: "unat m_len \<le> length m" and n: "unat m_len < 65532"
  shows "bt_crypto_sign_att (Some K) key m m_len cnt =
    Some (map_option (att_signature cnt) (att_mac K key (take (unat m_len) m) cnt))"
proof -
  let ?n = "unat m_len" and ?m = "take (unat m_len) m"
  have len: "unat (m_len + 4) = ?n + 4" using n by (simp add: unat_word_ariths)
  have ml: "length ?m = ?n" using m by simp
  have ms: "memset (fresh (?n + 4)) 0 0 (?n + 4) = Some (replicate (?n + 4) 0)"
    by (simp add: memset_def fresh_def wr_bytes_whole)
  have mc: "memcpy (replicate (?n + 4) 0) 0 m 0 ?n = Some (?m @ replicate 4 0)"
    using m by (simp add: memcpy_eq wr_bytes_def)
  have pl: "put_le32 cnt (?m @ replicate 4 0) ?n = Some (?m @ le_of_word 4 cnt)"
    using ml by (simp add: put_le32_def wr_bytes_def)
  have sw: "swap_buf (?m @ le_of_word 4 cnt) (fresh (?n + 4)) (m_len + 4) = Some (rev (?m @ le_of_word 4 cnt))"
    using ml by (simp add: swap_buf_eq len)
  have fin: "put_be32 cnt out 8 \<bind> (\<lambda>out. swap_buf out (rev key) 16 \<bind> (\<lambda>tmp. rd_bytes tmp 4 ATT_SIGN_LEN \<bind> (\<lambda>sign. Some (Some sign)))) =
      Some (Some (att_signature cnt out))" if "length out = 16" for out
    using that key by (simp add: put_be32_def wr_bytes_def swap16 rd_bytes_def ATT_SIGN_LEN_def att_signature_def)
  have out: "k_cmac K k x = Some out \<Longrightarrow> length out = 16" for k x out
    using K by (simp add: kernel_ok_def)
  show ?thesis
    using fin out key
    by (auto simp add: bt_crypto_sign_att_def Let_def len ms mc pl sw swap16 att_mac_def split: option.split)
qed

lemma verify_att_sign_eq:
  assumes K: "kernel_ok K" and key: "length key = 16" and len: "unat pdu_len = length pdu" and n: "12 \<le> length pdu"
  shows "bt_crypto_verify_att_sign (Some K) key pdu pdu_len = Some (case
      att_mac K key (take (length pdu - 12) pdu) (word_of_le (take 4 (drop (length pdu - 12) pdu))) of
        None \<Rightarrow> False
      | Some out \<Rightarrow> drop (length pdu - 8) pdu = rev (take 8 out))"
proof -
  let ?off = "length pdu - 12"
  let ?sign = "drop ?off pdu"
  let ?cnt = "word_of_le (take 4 ?sign) :: u32"
  have off: "unat (pdu_len - 12) = ?off"
    using n len by (simp add: unat_sub_if_size word_le_nat_alt)
  have b: "length pdu \<le> 65535" using len unat_u16_le [of pdu_len] by simp
  have s: "bt_crypto_sign_att (Some K) key pdu (pdu_len - 12) ?cnt =
      Some (map_option (att_signature ?cnt) (att_mac K key (take ?off pdu) ?cnt))"
    using sign_att_eq [OF K key, of "pdu_len - 12" pdu ?cnt] off b n by simp
  have g: "get_le32 pdu ?off = Some ?cnt" using n by (simp add: get_le32_def rd_bytes_def)
  have r: "rd_bytes pdu ?off 12 = Some ?sign" using n by (simp add: rd_bytes_def)
  have c: "le_of_word 4 ?cnt = take 4 ?sign"
    using le_of_word_of_le [of "take 4 ?sign", where ?'a = 32] n by simp
  have e: "?sign = take 4 ?sign @ drop (length pdu - 8) pdu"
    using append_take_drop_id [of 4 ?sign] n by simp
  have eq: "att_signature ?cnt out = ?sign \<longleftrightarrow> drop (length pdu - 8) pdu = rev (take 8 out)" for out
    unfolding att_signature_def c by (subst e) (auto simp del: drop_drop)
  show ?thesis
    using n len eq by (auto simp add: bt_crypto_verify_att_sign_def ATT_SIGN_LEN_def g r Let_def s split: option.split)
qed

section \<open>The security functions\<close>

lemma word_of_le_xor:
  "length xs = length ys \<Longrightarrow>
   (word_of_le xs XOR word_of_le ys :: 'a::len word) = word_of_le (map2 (XOR) xs ys)"
  by (rule bit_word_eqI) (auto simp add: bit_word_of_le bit_xor_iff)

lemma u128_xor_eq:
  assumes "length p = 16" and "length q = 16"
  shows "u128_xor p q = Some (map2 (XOR) p q)"
proof -
  have h: "le_of_word 8 (word_of_le xs XOR word_of_le ys :: u64) = map2 (XOR) xs ys"
    if "length xs = 8" "length ys = 8" for xs ys
    using that le_of_word_of_le [of "map2 (XOR) xs ys", where ?'a = 64] by (simp add: word_of_le_xor)
  have g: "get_le64 b i = Some (word_of_le (take 8 (drop i b)))" if "i + 8 \<le> length b" for b i
    using that by (simp add: get_le64_def rd_bytes_def)
  have "map2 (XOR) p q = map2 (XOR) (take 8 p) (take 8 q) @ map2 (XOR) (drop 8 p) (drop 8 q)"
    by (metis (no_types, lifting) append_take_drop_id take_map take_zip drop_map drop_zip)
  then show ?thesis
    using assms by (simp add: u128_xor_def g h put_le64_def wr_bytes_def)
qed

text \<open>The block cipher with the least significant octet first.\<close>

definition aes_lsb :: "alg_kernel \<Rightarrow> u8 list \<Rightarrow> u8 list \<Rightarrow> u8 list option" where
  "aes_lsb K k x = map_option rev (k_ecb K (rev k) (rev x))"

lemma crypto_e_eq [mem_simps]:
  assumes "kernel_ok K" and "length k = 16" and "length x = 16"
  shows "bt_crypto_e (Some K) k x = Some (aes_lsb K k x)"
proof -
  have out: "k_ecb K a b = Some out \<Longrightarrow> length out = 16" for a b out
    using assms(1) by (simp add: kernel_ok_def)
  show ?thesis
    using assms out by (auto simp add: bt_crypto_e_def swap16 aes_lsb_def split: option.split)
qed

lemma aes_lsb_length: "kernel_ok K \<Longrightarrow> aes_lsb K k x = Some y \<Longrightarrow> length y = 16"
  by (auto simp add: aes_lsb_def kernel_ok_def)

definition cmac_lsb :: "alg_kernel \<Rightarrow> u8 list \<Rightarrow> u8 list \<Rightarrow> u8 list option" where
  "cmac_lsb K k x = map_option rev (k_cmac K (rev k) (rev x))"

lemma cmac_lsb_length: "kernel_ok K \<Longrightarrow> cmac_lsb K k x = Some y \<Longrightarrow> length y = 16"
  by (auto simp add: cmac_lsb_def kernel_ok_def)

lemma aes_cmac_eq [mem_simps]:
  assumes "kernel_ok K" and "length k = 16" and "length m = n" and "n \<le> 80"
  shows "aes_cmac (Some K) k m n = Some (cmac_lsb K k m)"
proof -
  have out: "k_cmac K a b = Some out \<Longrightarrow> length out = 16" for a b out
    using assms(1) by (simp add: kernel_ok_def)
  have n: "unat (of_nat n :: u16) = n" using assms(4) by (simp add: unat_of_nat_u16)
  have "swap_buf m (fresh 80) (of_nat n) = Some (rev m @ drop n (fresh 80))"
    using assms(3,4) by (simp add: swap_buf_eq n)
  then show ?thesis
    using assms out by (auto simp add: aes_cmac_def CMAC_MSG_MAX_def swap16 cmac_lsb_def rd_bytes_def split: option.split)
qed

lemma aes_cmac_NULL: "length k = 16 \<Longrightarrow> n \<le> 80 \<Longrightarrow> aes_cmac None k m n = None"
  by (simp add: aes_cmac_def CMAC_MSG_MAX_def swap16)

lemma crypto_c1_eq:
  assumes "kernel_ok K" and "length k = 16" and "length r = 16" and "length pres = 7" and "length preq = 7"
    and "length ia = 6" and "length ra = 6"
  shows "bt_crypto_c1 (Some K) k r pres preq iat ia rat ra = Some (do {
     x \<leftarrow> aes_lsb K k (map2 (XOR) r ([iat, rat] @ preq @ pres));
     aes_lsb K k (map2 (XOR) x (ra @ ia @ [0, 0, 0, 0])) })"
proof -
  have z: "replicate 4 (0 :: u8) = [0, 0, 0, 0]" by (simp add: eval_nat_numeral)
  show ?thesis
    using assms aes_lsb_length [OF assms(1)]
    by (auto simp add: bt_crypto_c1_def frame_simps filled_full u128_xor_eq crypto_e_eq z split: option.split)
qed

lemma crypto_s1_eq:
  assumes "kernel_ok K" and "length k = 16" and "length r1 = 16" and "length r2 = 16"
  shows "bt_crypto_s1 (Some K) k r1 r2 = Some (aes_lsb K k (take 8 r2 @ take 8 r1))"
  using assms by (simp add: bt_crypto_s1_def frame_simps crypto_e_eq filled_full)

lemma crypto_ah_eq:
  assumes "kernel_ok K" and "length k = 16" and "length r = 3"
  shows "bt_crypto_ah (Some K) k r = Some (map_option (take 3) (aes_lsb K k (r @ replicate 13 0)))"
  using assms aes_lsb_length [OF assms(1)]
  by (auto simp add: bt_crypto_ah_def frame_simps crypto_e_eq filled_full rd_bytes_def simp del: replicate.simps split: option.split)

lemma crypto_f4_eq:
  assumes "kernel_ok K" and "length u = 32" and "length v = 32" and "length x = 16"
  shows "bt_crypto_f4 (Some K) u v x z = Some (cmac_lsb K x (z # v @ u))"
  using assms by (simp add: bt_crypto_f4_def frame_simps aes_cmac_eq filled_full)

lemma crypto_f6_eq:
  assumes "kernel_ok K" and "length w = 16" and "length n1 = 16" and "length n2 = 16" and "length r = 16"
    and "length io = 3" and "length a1 = 7" and "length a2 = 7"
  shows "bt_crypto_f6 (Some K) w n1 n2 r io a1 a2 = Some (cmac_lsb K w (a2 @ a1 @ io @ r @ n2 @ n1))"
  using assms by (simp add: bt_crypto_f6_def frame_simps aes_cmac_eq filled_full)

definition f5_message :: "u8 \<Rightarrow> u8 list \<Rightarrow> u8 list \<Rightarrow> u8 list \<Rightarrow> u8 list \<Rightarrow> u8 list" where
  "f5_message counter n1 n2 a1 a2 = [0x00, 0x01] @ a2 @ a1 @ n2 @ n1 @ [0x65, 0x6c, 0x74, 0x62] @ [counter]"

lemma crypto_f5_eq:
  assumes "kernel_ok K" and "length w = 32" and "length n1 = 16" and "length n2 = 16"
    and "length a1 = 7" and "length a2 = 7"
  shows "bt_crypto_f5 (Some K) w n1 n2 a1 a2 = Some (do {
     t \<leftarrow> cmac_lsb K f5_salt w;
     mackey \<leftarrow> cmac_lsb K t (f5_message 0 n1 n2 a1 a2);
     ltk \<leftarrow> cmac_lsb K t (f5_message 1 n1 n2 a1 a2);
     Some (mackey, ltk) })"
proof -
  have s: "length f5_salt = 16" by (simp add: f5_salt_def)
  have w: "wr8 (f5_message 0 n1 n2 a1 a2) 52 1 = Some (f5_message 1 n1 n2 a1 a2)"
    using assms by (simp add: wr8_def f5_message_def list_update_append)
  have e: "0 # 1 # a2 @ a1 @ n2 @ n1 @ [0x65, 0x6c, 0x74, 0x62, 0 :: u8] = f5_message 0 n1 n2 a1 a2"
    by (simp add: f5_message_def)
  have l: "length (f5_message c n1 n2 a1 a2) = 53" for c using assms by (simp add: f5_message_def)
  show ?thesis
    using assms s cmac_lsb_length [OF assms(1)] w l
    by (auto simp add: bt_crypto_f5_def frame_simps filled_full aes_cmac_eq e split: option.split bind_split)
qed

lemma crypto_g2_eq:
  assumes "kernel_ok K" and "length u = 32" and "length v = 32" and "length x = 16" and "length y = 16"
  shows "bt_crypto_g2 (Some K) u v x y =
    Some (map_option (\<lambda>h. word_of_le (take 4 h) mod 1000000) (cmac_lsb K x (y @ v @ u)))"
  using assms cmac_lsb_length [OF assms(1)]
  by (auto simp add: bt_crypto_g2_def frame_simps aes_cmac_eq filled_full get_le32_def rd_bytes_def split: option.split)

lemma crypto_h6_eq:
  "kernel_ok K \<Longrightarrow> length w = 16 \<Longrightarrow> length keyid = 4 \<Longrightarrow> bt_crypto_h6 (Some K) w keyid = Some (cmac_lsb K w keyid)"
  by (simp add: bt_crypto_h6_def aes_cmac_eq)

section \<open>The signing contract\<close>

text \<open>
  What the protocol code relies on: a signature has 12 bytes of which the first four are the counter, and a
  signed message is accepted exactly when signing again with its counter gives its signature.
\<close>

locale att_signing =
  fixes sign :: "'k \<Rightarrow> u8 list \<Rightarrow> u32 \<Rightarrow> u8 list option"
    and verify :: "'k \<Rightarrow> u8 list \<Rightarrow> bool"
    and valid_key :: "'k \<Rightarrow> bool"
  assumes sign_shape: "valid_key k \<Longrightarrow> length m < 65532 \<Longrightarrow> sign k m c = Some s \<Longrightarrow> length s = 12 \<and> take 4 s = le_of_word 4 c"
    and verify_iff: "valid_key k \<Longrightarrow> length s = 12 \<Longrightarrow> length m + 12 < 65536 \<Longrightarrow>
          verify k (m @ s) \<longleftrightarrow> sign k m (word_of_le (take 4 s)) = Some s"
begin

lemma verify_signed:
  assumes "valid_key k" and "length m + 12 < 65536" and "sign k m c = Some s"
  shows "verify k (m @ s)"
proof -
  have "length m < 65532" using assms(2) by simp
  then have "length s = 12" "take 4 s = le_of_word 4 c" using sign_shape [OF assms(1) _ assms(3)] by auto
  with assms verify_iff show ?thesis by (simp add: word_of_le_of_word)
qed

text \<open>For one message and one counter there is at most one accepted signature.\<close>

lemma accepted_unique:
  assumes "valid_key k" and "length m + 12 < 65536" and "length s = 12" and "length t = 12"
    and "verify k (m @ s)" and "verify k (m @ t)" and "take 4 s = take 4 t"
  shows "s = t"
  using assms verify_iff [of k s m] verify_iff [of k t m] by simp

end

text \<open>The kernel as it is documented to behave, whatever \<open>K\<close> is.\<close>

definition documented :: "alg_kernel \<Rightarrow> alg_kernel" where
  "documented K = \<lparr>
     k_ecb = (\<lambda>k m. case k_ecb K k m of Some out \<Rightarrow> if length out = 16 then Some out else None | None \<Rightarrow> None),
     k_cmac = (\<lambda>k m. case k_cmac K k m of Some out \<Rightarrow> if length out = 16 then Some out else None | None \<Rightarrow> None),
     k_urandom = (\<lambda>n. map_option (take n) (k_urandom K n))\<rparr>"

lemma documented_ok: "kernel_ok (documented K)"
  by (auto simp add: kernel_ok_def documented_def split: option.splits if_splits)

lemma documented_id:
  assumes "kernel_ok K"
  shows "documented K = K"
proof (rule alg_kernel.equality)
  show "k_ecb (documented K) = k_ecb K" "k_cmac (documented K) = k_cmac K"
    using assms by (auto simp add: documented_def kernel_ok_def fun_eq_iff split: option.split)
  show "k_urandom (documented K) = k_urandom K"
  proof
    fix n show "k_urandom (documented K) n = k_urandom K n"
      using assms by (cases "k_urandom K n") (auto simp add: documented_def kernel_ok_def)
  qed
qed simp

definition sign_with :: "alg_kernel \<Rightarrow> u8 list \<Rightarrow> u8 list \<Rightarrow> u32 \<Rightarrow> u8 list option" where
  "sign_with K key m cnt = (case bt_crypto_sign_att (Some K) key m (of_nat (length m)) cnt of Some r \<Rightarrow> r | None \<Rightarrow> None)"

definition verify_with :: "alg_kernel \<Rightarrow> u8 list \<Rightarrow> u8 list \<Rightarrow> bool" where
  "verify_with K key pdu = (bt_crypto_verify_att_sign (Some K) key pdu (of_nat (length pdu)) = Some True)"

lemma sign_with_eq:
  "kernel_ok K \<Longrightarrow> length key = 16 \<Longrightarrow> length m < 65532 \<Longrightarrow>
   sign_with K key m cnt = map_option (att_signature cnt) (att_mac K key m cnt)"
  by (simp add: sign_with_def sign_att_eq unat_of_nat_u16)

lemma verify_with_eq:
  assumes "kernel_ok K" and "length key = 16" and "length s = 12" and "length m + 12 < 65536"
  shows "verify_with K key (m @ s) \<longleftrightarrow> sign_with K key m (word_of_le (take 4 s)) = Some s"
proof -
  let ?c = "word_of_le (take 4 s) :: u32"
  have l: "length m < 65532" using assms(4) by simp
  have c: "le_of_word 4 ?c = take 4 s"
    using le_of_word_of_le [of "take 4 s", where ?'a = 32] assms(3) by simp
  have s: "s = take 4 s @ drop 4 s" by simp
  have "att_signature ?c out = s \<longleftrightarrow> drop 4 s = rev (take 8 out)" for out
    unfolding att_signature_def c by (subst s) (auto simp del: append_take_drop_id)
  moreover have "bt_crypto_verify_att_sign (Some K) key (m @ s) (of_nat (length (m @ s))) =
      Some (case att_mac K key m ?c of None \<Rightarrow> False | Some out \<Rightarrow> drop 4 s = rev (take 8 out))"
    using verify_att_sign_eq [OF assms(1,2), of "of_nat (length (m @ s))" "m @ s"] assms(3,4)
    by (simp add: unat_of_nat take_bit_nat_eq_self del: of_nat_add cong: option.case_cong)
  ultimately show ?thesis
    using assms(1,2) by (auto simp add: verify_with_def sign_with_eq l simp del: length_append split: option.splits)
qed

interpretation bt_crypto_signing: att_signing
  "sign_with (documented K)" "verify_with (documented K)" "\<lambda>key. length key = 16"
proof
  fix k m c s
  assume "length k = 16" "length m < 65532" "sign_with (documented K) k m c = Some s"
  moreover have "att_mac (documented K) k m c = Some out \<Longrightarrow> length out = 16" for out
    using documented_ok [of K] by (simp add: att_mac_def kernel_ok_def)
  ultimately show "length s = 12 \<and> take 4 s = le_of_word 4 c"
    by (auto simp add: sign_with_eq documented_ok att_signature_def)
qed (use verify_with_eq documented_ok in blast)

section \<open>Properties\<close>

text \<open>A kernel for the concrete instances: a checksum in place of AES-CMAC, the identity in place of AES.\<close>

definition toy_kernel :: alg_kernel where
  "toy_kernel = \<lparr>k_ecb = (\<lambda>k m. if length m = 16 then Some m else None),
     k_cmac = (\<lambda>k m. Some (replicate 15 0 @ [sum_list m + sum_list k])), k_urandom = (\<lambda>n. Some (replicate n 0))\<rparr>"

lemma toy_kernel_ok: "kernel_ok toy_kernel"
  by (auto simp add: kernel_ok_def toy_kernel_def split: if_splits)

lemma zero_bytes: "word_of_le (replicate n 0) = 0" "le_of_word n 0 = replicate n 0"
proof -
  show "word_of_le (replicate n 0) = 0" by (induction n) (simp_all add: word_of_le_Cons)
  show "le_of_word n 0 = replicate n 0" by (simp add: le_of_word_def map_replicate_const)
qed

text \<open>C29. Signing and verifying agree: what \<open>bt_crypto_sign_att\<close> appends to a message is accepted by
  \<open>bt_crypto_verify_att_sign\<close> under the same key, for every message whose signed length fits
  the 16-bit length parameter.\<close>

theorem signed_is_verified:
  assumes "kernel_ok K" and "length key = 16" and "length m + 12 < 65536"
    and "bt_crypto_sign_att (Some K) key m (of_nat (length m)) cnt = Some (Some sign)"
  shows "bt_crypto_verify_att_sign (Some K) key (m @ sign) (of_nat (length m + 12)) = Some True"
proof -
  have s: "sign_with (documented K) key m cnt = Some sign"
    using assms(4) by (simp add: sign_with_def documented_id [OF assms(1)])
  then have "length sign = 12" using bt_crypto_signing.sign_shape [of key m K cnt sign] assms(2,3) by simp
  then show ?thesis
    using bt_crypto_signing.verify_signed [OF assms(2,3) s] by (simp add: verify_with_def documented_id [OF assms(1)])
qed

theorem signed_is_verified_witness:
  "\<exists>sign. bt_crypto_sign_att (Some toy_kernel) (replicate 16 1) [0xD2, 3, 0, 7] 4 5 = Some (Some sign) \<and>
     bt_crypto_verify_att_sign (Some toy_kernel) (replicate 16 1) ([0xD2, 3, 0, 7] @ sign) 16 = Some True"
proof -
  have "\<exists>sign. bt_crypto_sign_att (Some toy_kernel) (replicate 16 1) [0xD2, 3, 0, 7] 4 5 = Some (Some sign)"
    using sign_att_eq [OF toy_kernel_ok, of "replicate 16 1" 4 "[0xD2, 3, 0, 7]" 5]
    by (simp add: att_mac_def toy_kernel_def)
  then show ?thesis
    using signed_is_verified [OF toy_kernel_ok, of "replicate 16 1" "[0xD2, 3, 0, 7]" 5] by auto
qed

text \<open>C30. Verification accepts exactly the right signature: a PDU is accepted if and only if its last 8 bytes are
  the truncated CMAC of everything before the signature with the transmitted counter.\<close>

theorem verify_characterised:
  assumes "kernel_ok K" and "length key = 16" and "unat pdu_len = length pdu" and "12 \<le> length pdu"
  shows "bt_crypto_verify_att_sign (Some K) key pdu pdu_len = Some (case
      att_mac K key (take (length pdu - 12) pdu) (word_of_le (take 4 (drop (length pdu - 12) pdu))) of
        None \<Rightarrow> False
      | Some out \<Rightarrow> drop (length pdu - 8) pdu = rev (take 8 out))"
  using assms by (rule verify_att_sign_eq)

theorem verify_characterised_witness:
  "bt_crypto_verify_att_sign (Some toy_kernel) (replicate 16 0) (replicate 12 0) 12 = Some True"
  using verify_characterised [OF toy_kernel_ok, of "replicate 16 0" 12 "replicate 12 0"]
  by (simp add: att_mac_def zero_bytes toy_kernel_def sum_list_replicate)

text \<open>The local buffers of \<open>bt_crypto_sign_att\<close> hold the message exactly when it is shorter than 65532 bytes: from
  there on the 16-bit sum \<open>m_len + 4\<close> wraps and the copy overruns the array.\<close>

theorem sign_att_buffer_bound:
  assumes "kernel_ok K" and "length key = 16" and "unat m_len \<le> length m"
  shows "bt_crypto_sign_att (Some K) key m m_len cnt = None \<longleftrightarrow> 65532 \<le> unat m_len"
proof (cases "unat m_len < 65532")
  case True
  then show ?thesis using sign_att_eq [OF assms] by simp
next
  case False
  then have "unat (m_len + 4) < unat m_len" using unat_u16_le [of m_len] by (simp add: unat_word_ariths mod_if)
  then have "memcpy (fresh (unat (m_len + 4))) 0 m 0 (unat m_len) = None"
    by (simp add: memcpy_def rd_bytes_def wr_bytes_def fresh_def)
  moreover have "memset (fresh (unat (m_len + 4))) 0 0 (unat (m_len + 4)) = Some (fresh (unat (m_len + 4)))"
    by (simp add: memset_def fresh_def wr_bytes_whole)
  ultimately show ?thesis using False by (simp add: bt_crypto_sign_att_def Let_def)
qed

theorem sign_att_buffer_bound_witness:
  "bt_crypto_sign_att (Some toy_kernel) (replicate 16 0) (replicate 65532 0) 65532 1 = None"
  using sign_att_buffer_bound [OF toy_kernel_ok, of "replicate 16 0" 65532 "replicate 65532 0" 1] by simp

text \<open>The confirm value function is the composition that the specification prescribes, with
  \<open>p1 = pres || preq || rat' || iat'\<close> and \<open>p2 = padding || ia || ra\<close> (least significant octet
  first here).\<close>

theorem c1_confirm_value:
  assumes "kernel_ok K" and "length k = 16" and "length r = 16" and "length pres = 7" and "length preq = 7"
    and "length ia = 6" and "length ra = 6"
  shows "bt_crypto_c1 (Some K) k r pres preq iat ia rat ra = Some (do {
     x \<leftarrow> aes_lsb K k (map2 (XOR) r ([iat, rat] @ preq @ pres));
     aes_lsb K k (map2 (XOR) x (ra @ ia @ [0, 0, 0, 0])) })"
  using assms by (rule crypto_c1_eq)

theorem c1_confirm_value_witness:
  "bt_crypto_c1 (Some toy_kernel) (replicate 16 0) (replicate 16 0) (replicate 7 2) (replicate 7 3) 1 (replicate 6 4) 0
     (replicate 6 5) = Some (Some [4, 5, 6, 6, 6, 6, 7, 7, 7, 6, 6, 6, 2, 2, 2, 2])"
  using c1_confirm_value [OF toy_kernel_ok, of "replicate 16 0" "replicate 16 0" "replicate 7 2" "replicate 7 3"
      "replicate 6 4" "replicate 6 5" 1 0]
  by (simp add: aes_lsb_def toy_kernel_def eval_nat_numeral)

text \<open>The LE secure connections key generation: both keys come from the same temporary key, with
  counters 0 and 1 over otherwise equal messages; no buffer is overrun.\<close>

theorem f5_key_pair:
  assumes "kernel_ok K" and "length w = 32" and "length n1 = 16" and "length n2 = 16"
    and "length a1 = 7" and "length a2 = 7"
  shows "bt_crypto_f5 (Some K) w n1 n2 a1 a2 = Some (do {
     t \<leftarrow> cmac_lsb K f5_salt w;
     mackey \<leftarrow> cmac_lsb K t (f5_message 0 n1 n2 a1 a2);
     ltk \<leftarrow> cmac_lsb K t (f5_message 1 n1 n2 a1 a2);
     Some (mackey, ltk) })"
  using assms by (rule crypto_f5_eq)

theorem f5_key_pair_witness:
  "\<exists>mackey ltk. bt_crypto_f5 (Some toy_kernel) (replicate 32 0) (replicate 16 0) (replicate 16 0) (replicate 7 0) (replicate 7 0)
     = Some (Some (mackey, ltk)) \<and> hd ltk = hd mackey + 1"
  using f5_key_pair [OF toy_kernel_ok, of "replicate 32 0" "replicate 16 0" "replicate 16 0" "replicate 7 0" "replicate 7 0"]
  by (simp add: cmac_lsb_def toy_kernel_def f5_message_def)

text \<open>The functions of the secure connections pairing differ in their treatment of a missing handle: \<open>f4\<close> and \<open>ah\<close>
  return \<open>false\<close>, while \<open>f5\<close>, \<open>f6\<close>, \<open>g2\<close> and \<open>h6\<close> dereference NULL.\<close>

theorem null_handle_behaviour:
  assumes "length w32 = 32" and "length w = 16" and "length n1 = 16" and "length n2 = 16" and "length r = 16"
    and "length io = 3" and "length a1 = 7" and "length a2 = 7" and "length u = 32" and "length keyid = 4"
  shows "bt_crypto_f4 None u u w z = Some None \<and> bt_crypto_ah None w io = Some None \<and>
         bt_crypto_f5 None w32 n1 n2 a1 a2 = None \<and> bt_crypto_f6 None w n1 n2 r io a1 a2 = None \<and>
         bt_crypto_g2 None u u w n1 = None \<and> bt_crypto_h6 None w keyid = None"
  using assms
  by (simp add: bt_crypto_f4_def bt_crypto_ah_def bt_crypto_f5_def bt_crypto_f6_def bt_crypto_g2_def bt_crypto_h6_def
      aes_cmac_NULL f5_salt_def frame_simps filled_full)

theorem null_handle_behaviour_witness:
  "bt_crypto_f4 None (replicate 32 0) (replicate 32 0) (replicate 16 0) 0 = Some None \<and>
   bt_crypto_f5 None (replicate 32 0) (replicate 16 0) (replicate 16 0) (replicate 7 0) (replicate 7 0) = None"
  using null_handle_behaviour [of "replicate 32 0" "replicate 16 0" "replicate 16 0" "replicate 16 0" "replicate 16 0"
      "replicate 3 0" "replicate 7 0" "replicate 7 0" "replicate 32 0" "replicate 4 0" 0] by simp

end
