(* ===== verification/AttPduSpec.thy ===== *)
theory AttPduSpec
  imports AttPduValue CryptoSpec
begin

text \<open>
  The Attribute Protocol as a wire format, and the correctness of \<^verbatim>\<open>bluez/attrib/att.c\<close> with
  respect to it: \<open>att_pdu\<close> is the type of PDUs, \<open>wire\<close> their bytes; every encoder writes exactly these
  bytes, the decoders invert it, and the decoders of responses are characterised on arbitrary input.
\<close>

section \<open>Lengths\<close>

text \<open>Lengths of PDUs are far below the width of \<open>size_t\<close>.\<close>

lemma ucast_of_nat_u16: "n < 18446744073709551616 \<Longrightarrow> (ucast (of_nat n :: u64) :: u16) = of_nat n"
  by (simp add: ucast_u64_u16 unat_of_nat_u64)

lemma of_nat_less_u64: "m < 18446744073709551616 \<Longrightarrow> n < 18446744073709551616 \<Longrightarrow>
    (of_nat m :: u64) < of_nat n \<longleftrightarrow> m < n"
  by (simp add: word_less_nat_alt unat_of_nat_u64)

lemma of_nat_le_u64: "m < 18446744073709551616 \<Longrightarrow> n < 18446744073709551616 \<Longrightarrow>
    (of_nat m :: u64) \<le> of_nat n \<longleftrightarrow> m \<le> n"
  by (simp add: word_le_nat_alt unat_of_nat_u64)

lemma of_nat_eq_u64: "m < 18446744073709551616 \<Longrightarrow> n < 18446744073709551616 \<Longrightarrow>
    (of_nat m :: u64) = of_nat n \<longleftrightarrow> m = n"
  by (metis unat_of_nat_u64)

text \<open>The clamp of a value to what the PDU can hold, when the header fits.\<close>

lemma clamp_eq:
  assumes "k \<le> L" and "L < 65536" and "n < 65536"
  shows "(if of_nat n > of_nat L - (of_nat k :: u64) then of_nat L - of_nat k else of_nat n) = (of_nat (min n (L - k)) :: u64)"
proof -
  have s: "of_nat L - of_nat k = (of_nat (L - k) :: u64)" using assms by (simp add: of_nat_diff)
  show ?thesis unfolding s using assms by (subst of_nat_less_u64) auto
qed

lemmas clamp_1 = clamp_eq [of 1, unfolded of_nat_1]
lemmas clamp_3 = clamp_eq [of 3, unfolded of_nat_numeral]
lemmas clamp_5 = clamp_eq [of 5, unfolded of_nat_numeral]
lemmas clamp_7 = clamp_eq [of 7, unfolded of_nat_numeral]
lemmas clamp_15 = clamp_eq [of 15, unfolded of_nat_numeral]

lemma small_u64: "n < 65536 \<Longrightarrow> unat (of_nat n :: u64) = n"
  by (rule unat_of_nat_u64) simp

lemma pos_u64: "n < 65536 \<Longrightarrow> (0 :: u64) < of_nat n \<longleftrightarrow> 0 < n"
  by (simp add: word_less_nat_alt small_u64)

lemma ret_u16:
  assumes "n < 65536"
  shows "(ucast (3 + of_nat n :: u64) :: u16) = of_nat (3 + n)" "(ucast (5 + of_nat n :: u64) :: u16) = of_nat (5 + n)"
    "(ucast (7 + of_nat n :: u64) :: u16) = of_nat (7 + n)" "(ucast (15 + of_nat n :: u64) :: u16) = of_nat (15 + n)"
    "(ucast (of_nat n + 1 :: u64) :: u16) = of_nat (n + 1)" "(ucast (of_nat n + 3 :: u64) :: u16) = of_nat (n + 3)"
  using assms ucast_of_nat_u16 [of "3 + n"] ucast_of_nat_u16 [of "5 + n"] ucast_of_nat_u16 [of "7 + n"]
    ucast_of_nat_u16 [of "15 + n"] ucast_of_nat_u16 [of "n + 1"] ucast_of_nat_u16 [of "n + 3"]
  by (simp_all add: add.commute)

section \<open>The wire format\<close>

text \<open>The PDUs as values; a UUID in a request has 16 or 128 bits.\<close>

datatype att_pdu =
    ErrorResp u8 u16 u8
  | MtuReq u16
  | MtuResp u16
  | FindInfoReq u16 u16
  | FindInfoResp u8 "u8 list list"
  | FindByTypeReq u16 u16 u16 "u8 list"
  | FindByTypeResp "att_range list"
  | ReadByTypeReq u16 u16 bt_uuid
  | ReadByTypeResp "u8 list list"
  | ReadReq u16
  | ReadResp "u8 list"
  | ReadBlobReq u16 u16
  | ReadBlobResp "u8 list"
  | ReadByGroupReq u16 u16 bt_uuid
  | ReadByGroupResp "u8 list list"
  | WriteReq u16 "u8 list"
  | WriteResp
  | WriteCmd u16 "u8 list"
  | PrepWriteReq u16 u16 "u8 list"
  | PrepWriteResp u16 u16 "u8 list"
  | ExecWriteReq u8
  | ExecWriteResp
  | Notification u16 "u8 list"
  | Indication u16 "u8 list"
  | Confirmation

abbreviation le2 :: "u16 \<Rightarrow> u8 list" where "le2 \<equiv> le_of_word 2"

definition wire_uuid :: "bt_uuid \<Rightarrow> u8 list" where
  "wire_uuid u = (case u of BT_UUID16 v \<Rightarrow> le2 v | BT_UUID128 d \<Rightarrow> rev d | _ \<Rightarrow> [])"

definition wire_range :: "att_range \<Rightarrow> u8 list" where
  "wire_range r = le2 (range_start r) @ le2 (range_end r)"

fun wire :: "att_pdu \<Rightarrow> u8 list" where
  "wire (ErrorResp opc h s) = [0x01, opc] @ le2 h @ [s]"
| "wire (MtuReq m) = [0x02] @ le2 m"
| "wire (MtuResp m) = [0x03] @ le2 m"
| "wire (FindInfoReq s e) = [0x04] @ le2 s @ le2 e"
| "wire (FindInfoResp f ds) = [0x05, f] @ concat ds"
| "wire (FindByTypeReq s e u v) = [0x06] @ le2 s @ le2 e @ le2 u @ v"
| "wire (FindByTypeResp rs) = [0x07] @ concat (map wire_range rs)"
| "wire (ReadByTypeReq s e u) = [0x08] @ le2 s @ le2 e @ wire_uuid u"
| "wire (ReadByTypeResp ds) = [0x09, of_nat (length (hd ds))] @ concat ds"
| "wire (ReadReq h) = [0x0A] @ le2 h"
| "wire (ReadResp v) = [0x0B] @ v"
| "wire (ReadBlobReq h off) = [0x0C] @ le2 h @ le2 off"
| "wire (ReadBlobResp v) = [0x0D] @ v"
| "wire (ReadByGroupReq s e u) = [0x10] @ le2 s @ le2 e @ wire_uuid u"
| "wire (ReadByGroupResp ds) = [0x11, of_nat (length (hd ds))] @ concat ds"
| "wire (WriteReq h v) = [0x12] @ le2 h @ v"
| "wire WriteResp = [0x13]"
| "wire (WriteCmd h v) = [0x52] @ le2 h @ v"
| "wire (PrepWriteReq h off v) = [0x16] @ le2 h @ le2 off @ v"
| "wire (PrepWriteResp h off v) = [0x17] @ le2 h @ le2 off @ v"
| "wire (ExecWriteReq f) = [0x18, f]"
| "wire ExecWriteResp = [0x19]"
| "wire (Notification h v) = [0x1B] @ le2 h @ v"
| "wire (Indication h v) = [0x1D] @ le2 h @ v"
| "wire Confirmation = [0x1E]"

text \<open>Entries of one PDU have one length, which fits its length octet.\<close>

definition uniform :: "nat \<Rightarrow> u8 list list \<Rightarrow> bool" where
  "uniform e ds \<longleftrightarrow> (\<forall>d \<in> set ds. length d = e)"

definition uuid_short_or_full :: "bt_uuid \<Rightarrow> bool" where
  "uuid_short_or_full u \<longleftrightarrow> (case u of BT_UUID16 _ \<Rightarrow> True | BT_UUID128 d \<Rightarrow> length d = 16 | _ \<Rightarrow> False)"

fun pdu_wf :: "att_pdu \<Rightarrow> bool" where
  "pdu_wf (ReadByTypeReq s e u) = uuid_short_or_full u"
| "pdu_wf (ReadByGroupReq s e u) = uuid_short_or_full u"
| "pdu_wf (ExecWriteReq f) = (f \<le> 1)"
| "pdu_wf (ReadByTypeResp ds) = (ds \<noteq> [] \<and> uniform (length (hd ds)) ds \<and> 3 \<le> length (hd ds) \<and> length (hd ds) < 256)"
| "pdu_wf (ReadByGroupResp ds) = (ds \<noteq> [] \<and> uniform (length (hd ds)) ds \<and> 5 \<le> length (hd ds) \<and> length (hd ds) < 256)"
| "pdu_wf (FindInfoResp f ds) = (ds \<noteq> [] \<and> (f = 1 \<and> uniform 4 ds \<or> f = 2 \<and> uniform 18 ds))"
| "pdu_wf (FindByTypeResp rs) = (rs \<noteq> [])"
| "pdu_wf _ = True"

text \<open>The list object that a caller passes for a sequence of entries.\<close>

definition data_list :: "u8 list list \<Rightarrow> att_data_list" where
  "data_list ds = \<lparr>al_num = of_nat (length ds), al_len = of_nat (length (hd ds)), al_data = ds\<rparr>"

text \<open>The encoder for each PDU, called with the whole value and an object \<open>b\<close> of \<open>len\<close> bytes.\<close>

fun encode :: "(u8 list \<Rightarrow> u8 list) \<Rightarrow> att_pdu \<Rightarrow> buf option \<Rightarrow> u64 \<Rightarrow> enc_result" where
  "encode bs (ErrorResp opc h s) b len = enc_error_resp opc h s b len"
| "encode bs (MtuReq m) b len = enc_mtu_req m b len"
| "encode bs (MtuResp m) b len = enc_mtu_resp m b len"
| "encode bs (FindInfoReq s e) b len = enc_find_info_req s e b len"
| "encode bs (FindInfoResp f ds) b len = enc_find_info_resp f (Some (data_list ds)) b len"
| "encode bs (FindByTypeReq s e u v) b len = enc_find_by_type_req s e (Some (BT_UUID16 u)) (Some v) (of_nat (length v)) b len"
| "encode bs (FindByTypeResp rs) b len = enc_find_by_type_resp rs b len"
| "encode bs (ReadByTypeReq s e u) b len = enc_read_by_type_req bs s e (Some u) b len"
| "encode bs (ReadByTypeResp ds) b len = enc_read_by_type_resp (Some (data_list ds)) b len"
| "encode bs (ReadReq h) b len = enc_read_req h b len"
| "encode bs (ReadResp v) b len = enc_read_resp (Some v) (of_nat (length v)) b len"
| "encode bs (ReadBlobReq h off) b len = enc_read_blob_req h off b len"
| "encode bs (ReadBlobResp v) b len = enc_read_blob_resp (Some v) (of_nat (length v)) 0 b len"
| "encode bs (ReadByGroupReq s e u) b len = enc_read_by_grp_req bs s e (Some u) b len"
| "encode bs (ReadByGroupResp ds) b len = enc_read_by_grp_resp (Some (data_list ds)) b len"
| "encode bs (WriteReq h v) b len = enc_write_req h (Some v) (of_nat (length v)) b len"
| "encode bs WriteResp b len = enc_write_resp b"
| "encode bs (WriteCmd h v) b len = enc_write_cmd h (Some v) (of_nat (length v)) b len"
| "encode bs (PrepWriteReq h off v) b len = enc_prep_write_req h off (Some v) (of_nat (length v)) b len"
| "encode bs (PrepWriteResp h off v) b len = enc_prep_write_resp h off (Some v) (of_nat (length v)) b len"
| "encode bs (ExecWriteReq f) b len = enc_exec_write_req f b len"
| "encode bs ExecWriteResp b len = enc_exec_write_resp b"
| "encode bs (Notification h v) b len = enc_notification h (Some v) (of_nat (length v)) b len"
| "encode bs (Indication h v) b len = enc_indication h (Some v) (of_nat (length v)) b len"
| "encode bs Confirmation b len = enc_confirmation b len"

section \<open>The encoders write the wire format\<close>

definition encodes :: "enc_result \<Rightarrow> u8 list \<Rightarrow> buf \<Rightarrow> bool" where
  "encodes r w b \<longleftrightarrow> r = Some (of_nat (length w), Some (filled w b))"

lemma take_min_length: "take (min (length v) k) v = take k v"
  by (simp add: min_def)

lemmas enc_simps = frame_simps encodes_def Let_def clamp_1 clamp_3 clamp_5 clamp_7 small_u64 pos_u64 ret_u16 take_min_length

text \<open>Values are cut to the space behind the header.\<close>

lemma enc_write_req_clips:
  assumes "3 \<le> length b" and "length b < 65536" and "length v < 65536"
  shows "encodes (enc_write_req h (Some v) (of_nat (length v)) (Some b) (of_nat (length b)))
           (wire (WriteReq h (take (length b - 3) v))) b"
  using assms by (auto simp add: enc_write_req_def enc_simps)


lemma enc_write_cmd_clips:
  assumes "3 \<le> length b" and "length b < 65536" and "length v < 65536"
  shows "encodes (enc_write_cmd h (Some v) (of_nat (length v)) (Some b) (of_nat (length b)))
           (wire (WriteCmd h (take (length b - 3) v))) b"
  using assms by (auto simp add: enc_write_cmd_def enc_simps)

lemma enc_prep_write_req_clips:
  assumes "5 \<le> length b" and "length b < 65536" and "length v < 65536"
  shows "encodes (enc_prep_write_req h off (Some v) (of_nat (length v)) (Some b) (of_nat (length b)))
           (wire (PrepWriteReq h off (take (length b - 5) v))) b"
  using assms by (auto simp add: enc_prep_write_req_def enc_simps)

lemma enc_prep_write_resp_clips:
  assumes "5 \<le> length b" and "length b < 65536" and "length v < 65536"
  shows "encodes (enc_prep_write_resp h off (Some v) (of_nat (length v)) (Some b) (of_nat (length b)))
           (wire (PrepWriteResp h off (take (length b - 5) v))) b"
  using assms by (auto simp add: enc_prep_write_resp_def enc_simps)

lemma enc_find_by_type_req_clips:
  assumes "7 \<le> length b" and "length b < 65536" and "length v < 65536"
  shows "encodes (enc_find_by_type_req s e (Some (BT_UUID16 u)) (Some v) (of_nat (length v)) (Some b) (of_nat (length b)))
           (wire (FindByTypeReq s e u (take (length b - 7) v))) b"
  using assms by (auto simp add: enc_find_by_type_req_def enc_simps)

lemma enc_read_resp_clips:
  assumes "1 \<le> length b" and "length b < 65536" and "length v < 65536"
  shows "encodes (enc_read_resp (Some v) (of_nat (length v)) (Some b) (of_nat (length b)))
           (wire (ReadResp (take (length b - 1) v))) b"
  using assms by (auto simp add: enc_read_resp_def enc_simps)

text \<open>Notifications are refused when they do not fit.\<close>

lemma enc_notification_fits:
  assumes "length v + 3 \<le> length b" and "length b < 65536"
  shows "encodes (enc_notification h (Some v) (of_nat (length v)) (Some b) (of_nat (length b))) (wire (Notification h v)) b"
  using assms of_nat_less_u64 [of "length b" "length v + 3"]
  by (auto simp add: enc_notification_def enc_simps)

lemma enc_indication_fits:
  assumes "length v + 3 \<le> length b" and "length b < 65536"
  shows "encodes (enc_indication h (Some v) (of_nat (length v)) (Some b) (of_nat (length b))) (wire (Indication h v)) b"
  using assms of_nat_less_u64 [of "length b" "length v + 3"]
  by (auto simp add: enc_indication_def enc_simps)

lemma enc_fixed:
  "5 \<le> length b \<Longrightarrow> encodes (enc_error_resp opc h st (Some b) len) (wire (ErrorResp opc h st)) b"
  "3 \<le> length b \<Longrightarrow> encodes (enc_mtu_req m (Some b) len) (wire (MtuReq m)) b"
  "3 \<le> length b \<Longrightarrow> encodes (enc_mtu_resp m (Some b) len) (wire (MtuResp m)) b"
  "5 \<le> length b \<Longrightarrow> encodes (enc_find_info_req s e (Some b) len) (wire (FindInfoReq s e)) b"
  "3 \<le> length b \<Longrightarrow> encodes (enc_read_req h (Some b) len) (wire (ReadReq h)) b"
  "5 \<le> length b \<Longrightarrow> encodes (enc_read_blob_req h off (Some b) len) (wire (ReadBlobReq h off)) b"
  "1 \<le> length b \<Longrightarrow> encodes (enc_write_resp (Some b)) (wire WriteResp) b"
  "2 \<le> length b \<Longrightarrow> f \<le> 1 \<Longrightarrow> encodes (enc_exec_write_req f (Some b) len) (wire (ExecWriteReq f)) b"
  "1 \<le> length b \<Longrightarrow> encodes (enc_exec_write_resp (Some b)) (wire ExecWriteResp) b"
  "1 \<le> length b \<Longrightarrow> encodes (enc_confirmation (Some b) len) (wire Confirmation) b"
  by (simp_all add: enc_simps enc_error_resp_def enc_mtu_req_def enc_mtu_resp_def enc_find_info_req_def
      enc_read_req_def enc_read_blob_req_def enc_write_resp_def enc_exec_write_req_def enc_exec_write_resp_def
      enc_confirmation_def not_less)

lemma enc_read_blob_resp_0:
  assumes "1 \<le> length b" and "length b < 65536" and "length v < 65536"
  shows "encodes (enc_read_blob_resp (Some v) (of_nat (length v)) 0 (Some b) (of_nat (length b)))
           (wire (ReadBlobResp (take (length b - 1) v))) b"
  using assms by (auto simp add: enc_read_blob_resp_def enc_simps)

lemma enc_read_blob_resp_clips:
  assumes "1 \<le> length b" and "length b < 65536" and "length v < 65536" and "off \<le> length v"
  shows "encodes (enc_read_blob_resp (Some v) (of_nat (length v)) (of_nat off) (Some b) (of_nat (length b)))
           (wire (ReadBlobResp (take (length b - 1) (drop off v)))) b"
proof -
  have o: "unat (of_nat off :: u16) = off" using assms by (intro unat_of_nat_u16) simp
  have u: "(ucast (of_nat off :: u16) :: u64) = of_nat off"
    using assms by (simp add: word_unat_eq_iff unat_ucast_u16_u64 o small_u64)
  have l: "(of_nat (length v) - of_nat off :: u64) = of_nat (length (drop off v))" using assms(4) by (simp add: of_nat_diff)
  have m: "memcpy c 1 v off n = memcpy c 1 (drop off v) 0 n" for c n
    using assms(4) by (auto simp: memcpy_def rd_bytes_def)
  have "enc_read_blob_resp (Some v) (of_nat (length v)) (of_nat off) (Some b) (of_nat (length b)) =
      enc_read_blob_resp (Some (drop off v)) (of_nat (length (drop off v))) 0 (Some b) (of_nat (length b))"
    unfolding enc_read_blob_resp_def u l o by (simp add: m [simplified] del: length_drop)
  then show ?thesis using enc_read_blob_resp_0 [of b "drop off v"] assms by simp
qed

section \<open>UUIDs in requests\<close>

lemma put_uuid_le_filled:
  assumes "uuid_short_or_full u" and "k = length hs" and "k + length (wire_uuid u) \<le> length b"
    and "\<And>d. bswap_128 d = rev d"
  shows "put_uuid_le bswap_128 u (filled hs b) k = Some (filled (hs @ wire_uuid u) b)"
  using assms
  by (cases u) (simp_all add: put_uuid_le_def uuid_short_or_full_def wire_uuid_def u128_storage_def frame_simps)

lemma uuid_len_wire: "uuid_short_or_full u \<Longrightarrow> uuid_len u = Some (of_nat (length (wire_uuid u)))"
  by (cases u) (simp_all add: uuid_short_or_full_def uuid_len_def wire_uuid_def)

lemma enc_uuid_requests:
  assumes "uuid_short_or_full u" and "5 + length (wire_uuid u) \<le> length b" and "\<And>d. bswap_128 d = rev d"
  shows "encodes (enc_read_by_type_req bswap_128 s e (Some u) (Some b) len) (wire (ReadByTypeReq s e u)) b"
    and "encodes (enc_read_by_grp_req bswap_128 s e (Some u) (Some b) len) (wire (ReadByGroupReq s e u)) b"
  using assms
  by (simp_all add: enc_simps enc_read_by_type_req_def enc_read_by_grp_req_def uuid_len_wire put_uuid_le_filled)

section \<open>Lists of entries\<close>

text \<open>How many entries of \<open>e\<close> bytes fit behind the bytes written so far.\<close>

definition fitting :: "nat \<Rightarrow> nat \<Rightarrow> nat \<Rightarrow> nat" where
  "fitting n room e = min n (room div e)"

lemma fitting_step: "0 < e \<Longrightarrow> e \<le> room \<Longrightarrow> fitting (Suc n) room e = Suc (fitting n (room - e) e)"
  by (simp add: fitting_def le_div_geq)

lemma fitting_stop: "room < e \<Longrightarrow> fitting n room e = 0"
  by (simp add: fitting_def)

lemma fitting_empty: "fitting n room 0 = 0" "fitting 0 room e = 0"
  by (simp_all add: fitting_def)

lemma fitting_all: "n * e \<le> room \<Longrightarrow> 0 < e \<Longrightarrow> fitting n room e = n"
  by (simp add: fitting_def less_eq_div_iff_mult_less_eq)

lemma uniform_concat: "uniform e ds \<Longrightarrow> length (concat ds) = length ds * e"
  using length_concat_const [of ds e] by (simp add: uniform_def mult.commute)

lemma data_at_step: "i < length data \<Longrightarrow> uniform e data \<Longrightarrow> data_at data i = Some (data ! i) \<and> length (data ! i) = e"
  by (simp add: data_at_def uniform_def)

lemma enc_data_loop_eq:
  assumes "L = length b" and "L < 65536" and "e < 65536" and "uniform e data"
  shows "i + n \<le> length data \<Longrightarrow> length bs \<le> L \<Longrightarrow>
    enc_data_loop (of_nat L) data (of_nat e) n i (of_nat (length bs)) (length bs) (filled bs b) =
    Some (of_nat (length bs + fitting n (L - length bs) e * e),
          filled (bs @ concat (take (fitting n (L - length bs) e) (drop i data))) b)"
proof (induction n arbitrary: i bs)
  case 0
  then show ?case by (simp add: fitting_empty)
next
  case (Suc n)
  have fits: "(of_nat (length bs) + of_nat e :: u64) \<le> of_nat L \<longleftrightarrow> length bs + e \<le> L"
    using of_nat_le_u64 [of "length bs + e" L] Suc.prems assms(2,3) by simp
  show ?case
  proof (cases "length bs + e \<le> L")
    case True
    let ?d = "data ! i"
    have d: "data_at data i = Some ?d" "length ?d = e"
      using data_at_step [of i data e] Suc.prems assms(4) by auto
    have "memcpy (filled bs b) (length bs) ?d 0 e = Some (filled (bs @ ?d) b)"
      using d True assms(1) by (simp add: memcpy_filled)
    moreover have "enc_data_loop (of_nat L) data (of_nat e) n (Suc i) (of_nat (length (bs @ ?d))) (length (bs @ ?d)) (filled (bs @ ?d) b) =
        Some (of_nat (length (bs @ ?d) + fitting n (L - length (bs @ ?d)) e * e),
          filled ((bs @ ?d) @ concat (take (fitting n (L - length (bs @ ?d)) e) (drop (Suc i) data))) b)"
      using Suc.prems d True by (intro Suc.IH) auto
    ultimately have step: "enc_data_loop (of_nat L) data (of_nat e) (Suc n) i (of_nat (length bs)) (length bs) (filled bs b) =
        Some (of_nat (length bs + e + fitting n (L - length bs - e) e * e),
          filled (bs @ ?d @ concat (take (fitting n (L - length bs - e) e) (drop (Suc i) data))) b)"
      using fits True d assms(3) by (simp add: small_u64)
    show ?thesis
    proof (cases "e = 0")
      case True
      then show ?thesis using step d by (simp add: fitting_empty)
    next
      case False
      then have "fitting (Suc n) (L - length bs) e = Suc (fitting n (L - length bs - e) e)"
        using True by (intro fitting_step) auto
      moreover have "drop i data = ?d # drop (Suc i) data"
        using Suc.prems by (intro nth_drop_hd) simp
      ultimately show ?thesis using step by (simp add: algebra_simps)
    qed
  next
    case False
    then have "L - length bs < e" using Suc.prems by simp
    then show ?thesis using fits False by (simp add: fitting_stop)
  qed
qed

lemma enc_group_loop_eq:
  assumes "L = length b" and "L < 65536" and "unat (al_len l) = e" and "uniform e (al_data l)"
  shows "i + n \<le> length (al_data l) \<Longrightarrow> length bs \<le> L \<Longrightarrow>
    enc_group_loop (of_nat L) l n i (of_nat (length bs)) (length bs) (filled bs b) =
    Some (of_nat (length bs + fitting n (L - length bs) e * e),
          filled (bs @ concat (take (fitting n (L - length bs) e) (drop i (al_data l)))) b)"
proof (induction n arbitrary: i bs)
  case 0
  then show ?case by (simp add: fitting_empty)
next
  case (Suc n)
  have le: "al_len l = of_nat e" using assms(3) by auto
  have fits: "unat (of_nat (length bs) :: u16) + unat (al_len l) \<le> unat (of_nat L :: u64) \<longleftrightarrow> length bs + e \<le> L"
    using Suc.prems assms(2,3) by (simp add: small_u64 unat_of_nat_u16)
  show ?case
  proof (cases "length bs + e \<le> L")
    case True
    let ?d = "al_data l ! i"
    have d: "data_at (al_data l) i = Some ?d" "length ?d = e"
      using data_at_step [of i "al_data l" e] Suc.prems assms(4) by auto
    have "memcpy (filled bs b) (length bs) ?d 0 e = Some (filled (bs @ ?d) b)"
      using d True assms(1) by (simp add: memcpy_filled)
    moreover have "enc_group_loop (of_nat L) l n (Suc i) (of_nat (length (bs @ ?d))) (length (bs @ ?d)) (filled (bs @ ?d) b) =
        Some (of_nat (length (bs @ ?d) + fitting n (L - length (bs @ ?d)) e * e),
          filled ((bs @ ?d) @ concat (take (fitting n (L - length (bs @ ?d)) e) (drop (Suc i) (al_data l)))) b)"
      using Suc.prems d True by (intro Suc.IH) auto
    ultimately have step: "enc_group_loop (of_nat L) l (Suc n) i (of_nat (length bs)) (length bs) (filled bs b) =
        Some (of_nat (length bs + e + fitting n (L - length bs - e) e * e),
          filled (bs @ ?d @ concat (take (fitting n (L - length bs - e) e) (drop (Suc i) (al_data l)))) b)"
      using fits True d assms(3) by (simp add: le)
    show ?thesis
    proof (cases "e = 0")
      case True
      then show ?thesis using step d by (simp add: fitting_empty)
    next
      case False
      then have "fitting (Suc n) (L - length bs) e = Suc (fitting n (L - length bs - e) e)"
        using True by (intro fitting_step) auto
      moreover have "drop i (al_data l) = ?d # drop (Suc i) (al_data l)"
        using Suc.prems by (intro nth_drop_hd) simp
      ultimately show ?thesis using step by (simp add: algebra_simps)
    qed
  next
    case False
    then have "L - length bs < e" using Suc.prems by simp
    then show ?thesis using fits False by (simp add: fitting_stop)
  qed
qed

text \<open>A decoder's loop splits what follows the header into entries.\<close>

lemma fill_list_loop_eq:
  assumes "unat (al_len l) = e"
  shows "i + n = length (al_data l) \<Longrightarrow> uniform e (al_data l) \<Longrightarrow> ptr + n * e \<le> length pdu \<Longrightarrow>
    fill_list_loop pdu n i ptr l = Some (l\<lparr>al_data := take i (al_data l) @ chunks e n (drop ptr pdu)\<rparr>)"
  using assms
proof (induction n arbitrary: i ptr l)
  case 0
  then show ?case by simp
next
  case (Suc n)
  let ?c = "take e (drop ptr pdu)"
  let ?l = "l\<lparr>al_data := (al_data l)[i := ?c]\<rparr>"
  have i: "i < length (al_data l)" using Suc.prems by simp
  have d: "data_at (al_data l) i = Some (al_data l ! i)" "length (al_data l ! i) = e"
    using data_at_step [OF i] Suc.prems by auto
  have c: "length ?c = e" using Suc.prems by simp
  have m: "memcpy (al_data l ! i) 0 pdu ptr e = Some ?c"
    using d c Suc.prems by (simp add: memcpy_eq wr_bytes_whole)
  have u: "uniform e (al_data ?l)"
    using Suc.prems c set_update_subset_insert [of "al_data l" i ?c] by (auto simp add: uniform_def)
  have "fill_list_loop pdu n (Suc i) (ptr + e) ?l =
      Some (?l\<lparr>al_data := take (Suc i) (al_data ?l) @ chunks e n (drop (ptr + e) pdu)\<rparr>)"
    by (rule Suc.IH) (use Suc.prems u in auto)
  moreover have "take (Suc i) ((al_data l)[i := ?c]) = take i (al_data l) @ [?c]"
    using i by (simp add: take_Suc_snoc)
  ultimately show ?case using d m Suc.prems by (simp add: add.commute)
qed

lemma alloc_eq:
  "unat len \<le> 255 \<Longrightarrow> att_data_list_alloc num len =
     Some \<lparr>al_num = num, al_len = len, al_data = replicate (unat num) (replicate (unat len) 0)\<rparr>"
  by (simp add: att_data_list_alloc_def)

lemma fill_new_list:
  assumes "unat len \<le> 255" and "2 + unat num * unat len \<le> length pdu"
  shows "fill_list_loop pdu (unat num) 0 2 \<lparr>al_num = num, al_len = len, al_data = replicate (unat num) (replicate (unat len) 0)\<rparr> =
    Some \<lparr>al_num = num, al_len = len, al_data = chunks (unat len) (unat num) (drop 2 pdu)\<rparr>"
  using assms
  by (subst fill_list_loop_eq [where e = "unat len"]) (auto simp add: uniform_def)

text \<open>Ranges.\<close>

lemma length_wire_range [simp]: "length (wire_range r) = 4"
  by (simp add: wire_range_def)

lemma length_wire_ranges: "length (concat (map wire_range rs)) = 4 * length rs"
  by (induction rs) auto

lemma enc_ranges_loop_eq:
  assumes "L = length b" and "L < 65536"
  shows "length bs + 4 * length rs \<le> L \<Longrightarrow>
    enc_ranges_loop (of_nat L) rs (of_nat (length bs)) (filled bs b) =
    Some (of_nat (length bs + 4 * length rs), filled (bs @ concat (map wire_range rs)) b)"
proof (induction rs arbitrary: bs)
  case Nil
  then show ?case by simp
next
  case (Cons r rs)
  have u: "unat (of_nat (length bs) :: u16) = length bs" using Cons.prems assms(2) by (simp add: unat_of_nat_u16)
  have "put_le16 (range_start r) (filled bs b) (length bs) = Some (filled (bs @ le2 (range_start r)) b)"
    using Cons.prems assms(1) by (simp add: put_le16_filled)
  moreover have "put_le16 (range_end r) (filled (bs @ le2 (range_start r)) b) (length bs + 2) = Some (filled (bs @ wire_range r) b)"
    using Cons.prems assms(1) by (simp add: put_le16_filled wire_range_def)
  moreover have "enc_ranges_loop (of_nat L) rs (of_nat (length (bs @ wire_range r))) (filled (bs @ wire_range r) b) =
      Some (of_nat (length (bs @ wire_range r) + 4 * length rs), filled ((bs @ wire_range r) @ concat (map wire_range rs)) b)"
    using Cons.prems by (intro Cons.IH) simp
  ultimately show ?case using u Cons.prems assms(2) by (simp add: small_u64 add.commute)
qed

lemma data_list_simps:
  assumes "length ds * length (hd ds) \<le> 65535" and "ds \<noteq> []" and "0 < length (hd ds)" and "length (hd ds) < 65536"
  shows "unat (al_num (data_list ds)) = length ds" "unat (al_len (data_list ds)) = length (hd ds)"
    "al_data (data_list ds) = ds" "(ucast (al_len (data_list ds)) :: u64) = of_nat (length (hd ds))"
    "(ucast (al_len (data_list ds)) :: u8) = of_nat (length (hd ds))"
proof -
  have "length ds \<le> length ds * length (hd ds)" using assms(3) by (cases "length (hd ds)") auto
  then have "length ds < 65536" using assms(1) by linarith
  then show "unat (al_num (data_list ds)) = length ds" by (simp add: data_list_def unat_of_nat_u16)
  show e: "unat (al_len (data_list ds)) = length (hd ds)" using assms(4) by (simp add: data_list_def unat_of_nat_u16)
  show "al_data (data_list ds) = ds" by (simp add: data_list_def)
  show "(ucast (al_len (data_list ds)) :: u64) = of_nat (length (hd ds))" "(ucast (al_len (data_list ds)) :: u8) = of_nat (length (hd ds))"
    using e by (simp_all flip: e)
qed

lemma enc_lists:
  assumes b: "length b < 65536" and ne: "ds \<noteq> []" and u: "uniform e ds" and e: "0 < e" "e < 256"
    and fit: "2 + length (concat ds) \<le> length b"
  shows "encodes (enc_read_by_type_resp (Some (data_list ds)) (Some b) (of_nat (length b))) ([0x09, of_nat e] @ concat ds) b"
    and "encodes (enc_read_by_grp_resp (Some (data_list ds)) (Some b) (of_nat (length b))) ([0x11, of_nat e] @ concat ds) b"
    and "encodes (enc_find_info_resp f (Some (data_list ds)) (Some b) (of_nat (length b))) ([0x05, f] @ concat ds) b"
proof -
  have h: "length (hd ds) = e" using ne u by (simp add: uniform_def)
  have c: "length (concat ds) = length ds * e" using uniform_concat [OF u] .
  have f: "length ds * e \<le> length b - 2" using fit c by simp
  have "e \<le> length ds * e" using ne by (cases ds) auto
  then have fe: "2 + e \<le> length b" using fit unfolding c by linarith
  note D = data_list_simps [of ds, unfolded h]
  have dl: "unat (al_num (data_list ds)) = length ds" "unat (al_len (data_list ds)) = e"
    "al_data (data_list ds) = ds" "(ucast (al_len (data_list ds)) :: u64) = of_nat e"
    "(ucast (al_len (data_list ds)) :: u8) = of_nat e"
    using D f b e ne by auto
  have all: "fitting (length ds) (length b - 2) e = length ds" using fitting_all f e by blast
  have l2: "of_nat (length b) - 2 = (of_nat (length b - 2) :: u64)" using fe by (simp add: of_nat_diff)
  have mn: "min (of_nat (length b) - 2) (of_nat e) = (of_nat e :: u64)"
    unfolding l2 by (rule min_absorb2, subst of_nat_le_u64) (use fe b e in auto)
  have e8: "(ucast (of_nat e :: u64) :: u8) = of_nat e"
    using e by (simp add: word_unat_eq_iff unsigned_ucast_eq small_u64 unat_of_nat_u8 take_bit_nat_eq_self)
  have nl: "\<not> (of_nat (length b) :: u64) < of_nat e + 1 * 2"
    using of_nat_less_u64 [of "length b" "e + 2"] fe b e by (simp add: add.commute)
  have ret: "(ucast (2 + of_nat (length ds) * of_nat e :: u64) :: u16) = of_nat (2 + length ds * e)"
    using ucast_of_nat_u16 [of "2 + length ds * e"] f b by simp
  have two: "2 = (of_nat (length [x, y]) :: 'x::len word)" "2 = length [x, y]" for x y :: u8 by simp_all
  have DL: "enc_data_loop (of_nat (length b)) ds (of_nat e) (length ds) 0 2 2 (filled [x, y] b) =
      Some (2 + of_nat (length ds) * of_nat e, filled ([x, y] @ concat ds) b)" for x y
    using enc_data_loop_eq [of "length b" b e ds 0 "length ds" "[x, y]"] b e u fe all by (simp add: numeral_2_eq_2)
  have GL: "enc_group_loop (of_nat (length b)) (data_list ds) (length ds) 0 2 2 (filled [x, y] b) =
      Some (2 + of_nat (length ds) * of_nat e, filled ([x, y] @ concat ds) b)" for x y
    using enc_group_loop_eq [of "length b" b "data_list ds" e 0 "length ds" "[x, y]"] b dl u fe all by (simp add: numeral_2_eq_2)
  have w: "wr8 b 0 x = Some (filled [x] b)" "wr8 (filled [x] b) 1 y = Some (filled [x, y] b)" for x y
    using fe by (simp_all add: frame_simps)
  show "encodes (enc_read_by_type_resp (Some (data_list ds)) (Some b) (of_nat (length b))) ([0x09, of_nat e] @ concat ds) b"
    by (simp add: enc_read_by_type_resp_def Let_def dl mn e8 w w [unfolded One_nat_def] DL ret encodes_def c)
  show "encodes (enc_read_by_grp_resp (Some (data_list ds)) (Some b) (of_nat (length b))) ([0x11, of_nat e] @ concat ds) b"
    using nl by (simp add: enc_read_by_grp_resp_def dl w w [unfolded One_nat_def] GL encodes_def c)
  show "encodes (enc_find_info_resp f (Some (data_list ds)) (Some b) (of_nat (length b))) ([0x05, f] @ concat ds) b"
    using nl by (simp add: enc_find_info_resp_def dl w w [unfolded One_nat_def] DL ret encodes_def c)
qed

lemma enc_ranges:
  assumes "length b < 65536" and "1 + 4 * length rs \<le> length b"
  shows "encodes (enc_find_by_type_resp rs (Some b) (of_nat (length b))) (wire (FindByTypeResp rs)) b"
  using assms enc_ranges_loop_eq [of "length b" b "[0x07]" rs]
  by (simp add: enc_find_by_type_resp_def frame_simps encodes_def length_wire_ranges)

text \<open>All encoders together.\<close>

lemma encode_writes_wire:
  assumes wf: "pdu_wf p" and fit: "length (wire p) \<le> length b" and b: "length b < 65536"
    and swap: "\<And>d. bswap_128 d = rev d"
  shows "encodes (encode bswap_128 p (Some b) (of_nat (length b))) (wire p) b"
proof (cases p)
  case (FindInfoResp f ds)
  then show ?thesis using assms enc_lists(3) [of b ds 4 f] enc_lists(3) [of b ds 18 f] by auto
next
  case (ReadByTypeResp ds)
  then show ?thesis using assms enc_lists(1) [of b ds "length (hd ds)"] by (auto simp del: length_greater_0_conv)
next
  case (ReadByGroupResp ds)
  then show ?thesis using assms enc_lists(2) [of b ds "length (hd ds)"] by (auto simp del: length_greater_0_conv)
next
  case (FindByTypeResp rs)
  then show ?thesis using assms enc_ranges [of b rs] by (simp add: length_wire_ranges)
next
  case (ReadByTypeReq s e u)
  then show ?thesis using assms enc_uuid_requests(1) [of u b bswap_128 s e] by simp
next
  case (ReadByGroupReq s e u)
  then show ?thesis using assms enc_uuid_requests(2) [of u b bswap_128 s e] by simp
next
  case (FindByTypeReq s e u v)
  then show ?thesis using assms enc_find_by_type_req_clips [of b v s e u] by simp
next
  case (WriteReq h v)
  then show ?thesis using assms enc_write_req_clips [of b v h] by simp
next
  case (WriteCmd h v)
  then show ?thesis using assms enc_write_cmd_clips [of b v h] by simp
next
  case (PrepWriteReq h off v)
  then show ?thesis using assms enc_prep_write_req_clips [of b v h off] by simp
next
  case (PrepWriteResp h off v)
  then show ?thesis using assms enc_prep_write_resp_clips [of b v h off] by simp
next
  case (ReadResp v)
  then show ?thesis using assms enc_read_resp_clips [of b v] by simp
next
  case (ReadBlobResp v)
  then show ?thesis using assms enc_read_blob_resp_0 [of b v] by simp
next
  case (Notification h v)
  then show ?thesis using assms enc_notification_fits [of v b h] by simp
next
  case (Indication h v)
  then show ?thesis using assms enc_indication_fits [of v b h] by simp
qed (use fit wf in \<open>simp_all add: enc_fixed [simplified]\<close>)

section \<open>The decoders of responses on arbitrary bytes\<close>

lemma minus2_u64: "2 \<le> L \<Longrightarrow> (of_nat L - 2 :: u64) = of_nat (L - 2)"
  by (simp add: of_nat_diff)

lemma minus1_u64: "1 \<le> L \<Longrightarrow> (of_nat L - 1 :: u64) = of_nat (L - 1)"
  by (simp add: of_nat_diff)

lemma elen_u64: "(ucast (ucast (x :: u8) :: u16) :: u64) = ucast x"
  by (simp add: word_unat_eq_iff unat_ucast_u16_u64 unat_ucast_u8_u16 unat_ucast_u8_u64)

lemma u8_lt: "unat (x :: u8) < 65536"
  by (rule le_less_trans [OF unat_u8_le]) simp

lemma mod_u64: "a < 65536 \<Longrightarrow> c < 65536 \<Longrightarrow> (of_nat a mod of_nat c :: u64) = 0 \<longleftrightarrow> a mod c = 0"
  by (simp add: word_unat_eq_iff unat_mod small_u64)

lemma div_u64: "a < 65536 \<Longrightarrow> c < 65536 \<Longrightarrow> (ucast (of_nat a div of_nat c :: u64) :: u16) = of_nat (a div c)"
  by (simp add: ucast_u64_u16 unat_div small_u64)

lemma mod_elen: "a < 65536 \<Longrightarrow> (of_nat a mod ucast (x :: u8) :: u64) = 0 \<longleftrightarrow> a mod unat x = 0"
  by (simp add: word_unat_eq_iff unat_mod small_u64 unat_ucast_u8_u64)

lemma div_elen: "a < 65536 \<Longrightarrow> (ucast (of_nat a div ucast (x :: u8) :: u64) :: u16) = of_nat (a div unat x)"
  by (simp add: ucast_u64_u16 unat_div small_u64 unat_ucast_u8_u64)

lemma less_numeral_u64:
  "n < 65536 \<Longrightarrow> (of_nat n :: u64) < 7 \<longleftrightarrow> n < 7" "n < 65536 \<Longrightarrow> (of_nat n :: u64) < 5 \<longleftrightarrow> n < 5"
  "n < 65536 \<Longrightarrow> (of_nat n :: u64) < 3 \<longleftrightarrow> n < 3" "n < 65536 \<Longrightarrow> (of_nat n :: u64) < 2 \<longleftrightarrow> n < 2"
  "n < 65536 \<Longrightarrow> (of_nat n :: u64) < 1 \<longleftrightarrow> n < 1" "n < 65536 \<Longrightarrow> (of_nat n :: u64) < 15 \<longleftrightarrow> n < 15"
  by (simp_all add: word_less_nat_alt small_u64)

lemma elen_less: "(ucast (x :: u8) :: u16) < 5 \<longleftrightarrow> unat x < 5" "(ucast x :: u16) < 3 \<longleftrightarrow> unat x < 3"
  by (simp_all add: word_less_nat_alt unat_ucast_u8_u16)

definition entries :: "u8 list \<Rightarrow> u8 \<Rightarrow> att_data_list" where
  "entries b el = \<lparr>al_num = of_nat ((length b - 2) div unat el), al_len = ucast el,
     al_data = chunks (unat el) ((length b - 2) div unat el) (drop 2 b)\<rparr>"

lemma fill_entries:
  assumes "2 \<le> length b" and "length b < 65536"
  shows "fill_list_loop b (unat (of_nat ((length b - 2) div unat el) :: u16)) 0 2
      \<lparr>al_num = of_nat ((length b - 2) div unat el), al_len = ucast el,
       al_data = replicate (unat (of_nat ((length b - 2) div unat el) :: u16)) (replicate (unat (ucast el :: u16)) 0)\<rparr> =
    Some (entries b el)"
proof -
  let ?n = "(length b - 2) div unat el"
  have "?n \<le> length b - 2" by (rule div_le_dividend)
  then have n: "unat (of_nat ?n :: u16) = ?n" using assms by (intro unat_of_nat_u16) linarith
  have "?n * unat el \<le> length b - 2" by simp
  then have "2 + ?n * unat el \<le> length b" using assms by linarith
  then show ?thesis
    using fill_new_list [of "ucast el" "of_nat ?n" b] unat_u8_le [of el] n
    by (simp add: unat_ucast_u8_u16 entries_def)
qed

lemma alloc_u8: "att_data_list_alloc num (ucast (el :: u8)) =
    Some \<lparr>al_num = num, al_len = ucast el, al_data = replicate (unat num) (replicate (unat (ucast el :: u16)) 0)\<rparr>"
  using unat_u8_le [of el] by (intro alloc_eq) (simp add: unat_ucast_u8_u16)

lemma dec_group_resp_eq:
  assumes "1 \<le> length b" and "length b < 65536"
  shows "dec_read_by_grp_resp (Some b) (of_nat (length b)) = Some (
    if b ! 0 \<noteq> 0x11 \<or> length b < 7 \<or> unat (b ! 1) < 5 \<or> (length b - 2) mod unat (b ! 1) \<noteq> 0 then None
    else Some (entries b (b ! 1)))"
proof (cases "length b < 7")
  case True
  then show ?thesis using assms by (simp add: dec_read_by_grp_resp_def rd8_def less_numeral_u64 del: length_greater_0_conv)
next
  case False
  then have l: "2 \<le> length b" "length b - 2 < 65536" using assms by auto
  show ?thesis
    using False l assms
    by (simp add: dec_read_by_grp_resp_def rd8_def less_numeral_u64 Let_def elen_less elen_u64 minus2_u64 mod_elen
        div_elen alloc_u8 fill_entries del: of_nat_diff length_greater_0_conv)
qed

lemma dec_type_resp_eq:
  assumes "1 \<le> length b" and "length b < 65536"
  shows "dec_read_by_type_resp (Some b) (of_nat (length b)) = Some (
    if b ! 0 \<noteq> 0x09 \<or> length b < 5 \<or> unat (b ! 1) < 3 \<or> (length b - 2) mod unat (b ! 1) \<noteq> 0 then None
    else Some (entries b (b ! 1)))"
proof (cases "length b < 5")
  case True
  then show ?thesis using assms by (simp add: dec_read_by_type_resp_def rd8_def less_numeral_u64 del: length_greater_0_conv)
next
  case False
  then have l: "2 \<le> length b" "length b - 2 < 65536" using assms by auto
  show ?thesis
    using False l assms
    by (simp add: dec_read_by_type_resp_def rd8_def less_numeral_u64 Let_def elen_less elen_u64 minus2_u64 mod_elen
        div_elen alloc_u8 fill_entries del: of_nat_diff length_greater_0_conv)
qed

definition info_elen :: "u8 \<Rightarrow> u8" where
  "info_elen f = (if f = 1 then 4 else if f = 2 then 18 else 2)"

lemma dec_find_info_resp_eq:
  assumes "2 \<le> length b" and "length b < 65536"
  shows "dec_find_info_resp (Some b) (of_nat (length b)) (Some f0) = Some (
    if b ! 0 \<noteq> 0x05 then (None, Some f0) else (Some (entries b (info_elen (b ! 1))), Some (b ! 1)))"
proof -
  have e: "(if f = 0x01 then 2 + 2 else if f = 0x02 then 2 + 16 else 2 :: u16) = ucast (info_elen f)" for f
    by (simp add: info_elen_def)
  have l: "length b - 2 < 65536" using assms by auto
  have r: "0 < length b" "1 < length b" using assms by auto
  show ?thesis
    unfolding dec_find_info_resp_def e
    using r l assms
    by (simp add: rd8_def Let_def elen_u64 minus2_u64 div_elen alloc_u8 fill_entries del: of_nat_diff length_greater_0_conv)
qed

definition range_of :: "u8 list \<Rightarrow> att_range" where
  "range_of c = \<lparr>range_start = word_of_le (take 2 c), range_end = word_of_le (take 2 (drop 2 c))\<rparr>"

lemma dec_ranges_loop_eq:
  assumes "length b < 65536"
  shows "off + 4 * n + r = length b \<Longrightarrow> r < 4 \<Longrightarrow>
    dec_ranges_loop b (of_nat (length b)) off acc = Some (acc @ map range_of (chunks 4 n (drop off b)))"
proof (induction n arbitrary: off acc)
  case 0
  then show ?case using assms by (simp add: dec_ranges_loop.simps small_u64)
next
  case (Suc n)
  have g: "get_le16 b off = Some (word_of_le (take 2 (drop off b)))"
    "get_le16 b (off + 2) = Some (word_of_le (take 2 (drop (off + 2) b)))"
    using Suc.prems by (simp_all add: get_le16_def rd_bytes_def)
  have "dec_ranges_loop b (of_nat (length b)) off acc = dec_ranges_loop b (of_nat (length b)) (off + 4)
      (acc @ [range_of (take 4 (drop off b))])"
    using Suc.prems assms g
    by (subst dec_ranges_loop.simps) (simp add: small_u64 range_of_def drop_take min_def add.commute)
  then show ?case using Suc.IH [of "off + 4"] Suc.prems by (simp add: add.commute)
qed

lemma dec_find_by_type_resp_eq:
  assumes "length b < 65536"
  shows "dec_find_by_type_resp (Some b) (of_nat (length b)) = Some (
    if length b < 5 \<or> b ! 0 \<noteq> 0x07 \<or> (length b - 1) mod 4 \<noteq> 0 then []
    else map range_of (chunks 4 ((length b - 1) div 4) (drop 1 b)))"
proof (cases "length b < 5")
  case True
  then show ?thesis using assms by (simp add: dec_find_by_type_resp_def less_numeral_u64)
next
  case False
  have m: "(of_nat (length b - 1) mod 4 :: u64) = 0 \<longleftrightarrow> (length b - 1) mod 4 = 0"
    using mod_u64 [of "length b - 1" 4] assms by simp
  have "1 + 4 * ((length b - 1) div 4) + (length b - 1) mod 4 = length b" using False by simp
  from dec_ranges_loop_eq [OF assms this] show ?thesis
    using False assms m by (simp add: dec_find_by_type_resp_def less_numeral_u64 rd8_def minus1_u64 del: of_nat_diff length_greater_0_conv)
qed

section \<open>Decoding what was encoded\<close>

text \<open>
  The decoder that a receiver of the bytes \<open>w\<close> calls for their opcode, with value buffers as long as
  the PDU. There is none for error responses, blob responses, notifications and confirmations, which
  their receivers take apart themselves.
\<close>

definition decode :: "(u8 list \<Rightarrow> u8 list) \<Rightarrow> u8 list \<Rightarrow> att_pdu option" where
  "decode bs w = (case w of [] \<Rightarrow> None | op # _ \<Rightarrow>
     let P = Some w; n = of_nat (length w); V = Some (replicate (length w) 0); H = Some 0; U = Some BT_UUID_UNSPEC in
     if op = 0x02 then do { (r, m) \<leftarrow> dec_mtu_req P n H; m \<leftarrow> m; if r = 0 then None else Some (MtuReq m) }
     else if op = 0x03 then do { (r, m) \<leftarrow> dec_mtu_resp P n H; m \<leftarrow> m; if r = 0 then None else Some (MtuResp m) }
     else if op = 0x04 then do { (r, s, e) \<leftarrow> dec_find_info_req P n H H; s \<leftarrow> s; e \<leftarrow> e;
       if r = 0 then None else Some (FindInfoReq s e) }
     else if op = 0x05 then do { (l, f) \<leftarrow> dec_find_info_resp P n (Some 0); l \<leftarrow> l; f \<leftarrow> f; Some (FindInfoResp f (al_data l)) }
     else if op = 0x06 then do { (r, s, e, u, v, vl) \<leftarrow> dec_find_by_type_req P n H H U V (Some 0);
       s \<leftarrow> s; e \<leftarrow> e; u \<leftarrow> u; v \<leftarrow> v; vl \<leftarrow> vl;
       (case u of BT_UUID16 u \<Rightarrow> if r = 0 then None else Some (FindByTypeReq s e u (take (unat vl) v)) | _ \<Rightarrow> None) }
     else if op = 0x07 then map_option FindByTypeResp (dec_find_by_type_resp P n)
     else if op = 0x08 then do { (r, s, e, u) \<leftarrow> dec_read_by_type_req bs P n H H U; s \<leftarrow> s; e \<leftarrow> e; u \<leftarrow> u;
       if r = 0 then None else Some (ReadByTypeReq s e u) }
     else if op = 0x09 then do { l \<leftarrow> dec_read_by_type_resp P n; l \<leftarrow> l; Some (ReadByTypeResp (al_data l)) }
     else if op = 0x0A then do { (r, h) \<leftarrow> dec_read_req P n H; h \<leftarrow> h; if r = 0 then None else Some (ReadReq h) }
     else if op = 0x0B then do { (r, v) \<leftarrow> dec_read_resp P n V n; v \<leftarrow> v; if r < 0 then None else Some (ReadResp (take (nat r) v)) }
     else if op = 0x0C then do { (r, h, off) \<leftarrow> dec_read_blob_req P n H H; h \<leftarrow> h; off \<leftarrow> off;
       if r = 0 then None else Some (ReadBlobReq h off) }
     else if op = 0x10 then do { (r, s, e, u) \<leftarrow> dec_read_by_grp_req bs P n H H U; s \<leftarrow> s; e \<leftarrow> e; u \<leftarrow> u;
       if r = 0 then None else Some (ReadByGroupReq s e u) }
     else if op = 0x11 then do { l \<leftarrow> dec_read_by_grp_resp P n; l \<leftarrow> l; Some (ReadByGroupResp (al_data l)) }
     else if op = 0x12 then do { (r, h, v, vl) \<leftarrow> dec_write_req P n H V (Some 0); h \<leftarrow> h; v \<leftarrow> v; vl \<leftarrow> vl;
       if r = 0 then None else Some (WriteReq h (take (unat vl) v)) }
     else if op = 0x13 then do { r \<leftarrow> dec_write_resp P n; if r = 0 then None else Some WriteResp }
     else if op = 0x52 then do { (r, h, v, vl) \<leftarrow> dec_write_cmd P n H V (Some 0); h \<leftarrow> h; v \<leftarrow> v; vl \<leftarrow> vl;
       if r = 0 then None else Some (WriteCmd h (take (unat vl) v)) }
     else if op = 0x16 then do { (r, h, off, v, vl) \<leftarrow> dec_prep_write_req P n H H V (Some 0);
       h \<leftarrow> h; off \<leftarrow> off; v \<leftarrow> v; vl \<leftarrow> vl; if r = 0 then None else Some (PrepWriteReq h off (take (unat vl) v)) }
     else if op = 0x17 then do { (r, h, off, v, vl) \<leftarrow> dec_prep_write_resp P n H H V (Some 0);
       h \<leftarrow> h; off \<leftarrow> off; v \<leftarrow> v; vl \<leftarrow> vl; if r = 0 then None else Some (PrepWriteResp h off (take (unat vl) v)) }
     else if op = 0x18 then do { (r, f) \<leftarrow> dec_exec_write_req P n (Some 0); f \<leftarrow> f; if r = 0 then None else Some (ExecWriteReq f) }
     else if op = 0x19 then do { r \<leftarrow> dec_exec_write_resp P n; if r = 0 then None else Some ExecWriteResp }
     else if op = 0x1D then do { (r, h, v) \<leftarrow> dec_indication P n H V n; h \<leftarrow> h; v \<leftarrow> v; Some (Indication h (take (unat r) v)) }
     else None)"

fun decodable :: "att_pdu \<Rightarrow> bool" where
  "decodable (ErrorResp _ _ _) = False"
| "decodable (ReadBlobResp _) = False"
| "decodable (PrepWriteResp _ _ _) = False"
| "decodable (Notification _ _) = False"
| "decodable Confirmation = False"
| "decodable _ = True"

lemma get_le16_cons:
  "get_le16 (a # ucast v # ucast (drop_bit 8 v) # r) (Suc 0) = Some (v :: u16)"
  "get_le16 (a # b # c # ucast v # ucast (drop_bit 8 v) # r) 3 = Some v"
  "get_le16 (a # b # c # d # e # ucast v # ucast (drop_bit 8 v) # r) 5 = Some v"
proof -
  have w: "word_of_le [ucast v, ucast (drop_bit 8 v)] = v"
    using word_of_le_of_word [of 2 v] by (simp add: le16_bytes)
  show "get_le16 (a # ucast v # ucast (drop_bit 8 v) # r) (Suc 0) = Some v"
    "get_le16 (a # b # c # ucast v # ucast (drop_bit 8 v) # r) 3 = Some v"
    "get_le16 (a # b # c # d # e # ucast v # ucast (drop_bit 8 v) # r) 5 = Some v"
    by (simp_all add: get_le16_bytes w)
qed

text \<open>Lengths of the form header plus value.\<close>

lemma header_u64:
  assumes "k < 65528"
  shows "\<not> 3 + (of_nat k :: u64) < 3" "\<not> 5 + (of_nat k :: u64) < 5" "\<not> 7 + (of_nat k :: u64) < 7"
    "unat (3 + of_nat k :: u64) = 3 + k" "unat (5 + of_nat k :: u64) = 5 + k" "unat (7 + of_nat k :: u64) = 7 + k"
    "unat (1 + of_nat k :: u64) = 1 + k"
    "(3 + of_nat k :: u16) \<noteq> 0" "(5 + of_nat k :: u16) \<noteq> 0" "(7 + of_nat k :: u16) \<noteq> 0"
proof -
  have u: "unat (of_nat (3 + k) :: u64) = 3 + k" "unat (of_nat (5 + k) :: u64) = 5 + k" "unat (of_nat (7 + k) :: u64) = 7 + k"
    "unat (of_nat (1 + k) :: u64) = 1 + k"
    using assms by (intro small_u64; simp)+
  then show a: "unat (3 + of_nat k :: u64) = 3 + k" "unat (5 + of_nat k :: u64) = 5 + k" "unat (7 + of_nat k :: u64) = 7 + k"
    "unat (1 + of_nat k :: u64) = 1 + k"
    by simp_all
  then show "\<not> 3 + (of_nat k :: u64) < 3" "\<not> 5 + (of_nat k :: u64) < 5" "\<not> 7 + (of_nat k :: u64) < 7"
    by (simp_all add: word_less_nat_alt)
  have "unat (of_nat (3 + k) :: u16) = 3 + k" "unat (of_nat (5 + k) :: u16) = 5 + k" "unat (of_nat (7 + k) :: u16) = 7 + k"
    using assms by (intro unat_of_nat_u16; simp)+
  then show "(3 + of_nat k :: u16) \<noteq> 0" "(5 + of_nat k :: u16) \<noteq> 0" "(7 + of_nat k :: u16) \<noteq> 0"
    by (auto simp add: word_unat_eq_iff)
qed

lemma decode_values:
  assumes "length v < 65000"
  shows "decode bs (wire (WriteReq h v)) = Some (WriteReq h v)"
    and "decode bs (wire (WriteCmd h v)) = Some (WriteCmd h v)"
    and "decode bs (wire (PrepWriteReq h off v)) = Some (PrepWriteReq h off v)"
    and "decode bs (wire (FindByTypeReq s e u v)) = Some (FindByTypeReq s e u v)"
    and "decode bs (wire (Indication h v)) = Some (Indication h v)"
    and "decode bs (wire (ReadResp v)) = Some (ReadResp v)"
proof -
  have k: "length v < 65528" "length v < 65536" using assms by simp_all
  note H = header_u64 [OF k(1)] ret_u16 [OF k(2)] pos_u64 [OF k(2)] small_u64 [OF k(2)]
  have mn: "min (of_nat (length v)) (3 + of_nat (length v)) = (of_nat (length v) :: u64)"
    by (rule min_absorb1) (simp add: word_le_nat_alt H)
  have si: "sint (of_nat (length v) :: u64) = int (length v)"
    using k by (simp add: signed_of_nat signed_take_bit_int_eq_self)
  have nl: "\<not> 1 + of_nat (length v) < (of_nat (length v) :: u64)"
    by (simp add: word_less_nat_alt H)
  have len16: "unat (ucast (of_nat (length v) :: u64) :: u16) = length v"
    using k by (simp add: ucast_of_nat_u16 unat_of_nat_u16)
  show "decode bs (wire (WriteReq h v)) = Some (WriteReq h v)"
    by (simp add: decode_def le16_bytes Let_def dec_write_req_def rd8_def get_le16_cons H frame_simps)
  show "decode bs (wire (WriteCmd h v)) = Some (WriteCmd h v)"
    by (simp add: decode_def le16_bytes Let_def dec_write_cmd_def rd8_def get_le16_cons H frame_simps)
  show "decode bs (wire (PrepWriteReq h off v)) = Some (PrepWriteReq h off v)"
    by (simp add: decode_def le16_bytes Let_def dec_prep_write_req_def rd8_def get_le16_cons H frame_simps)
  show "decode bs (wire (FindByTypeReq s e u v)) = Some (FindByTypeReq s e u v)"
    by (simp add: decode_def le16_bytes Let_def dec_find_by_type_req_def rd8_def get_le16_cons H frame_simps bt_uuid16_create_def)
  show "decode bs (wire (Indication h v)) = Some (Indication h v)"
    by (simp add: decode_def le16_bytes Let_def dec_indication_def rd8_def get_le16_cons H frame_simps mn len16)
  show "decode bs (wire (ReadResp v)) = Some (ReadResp v)"
    by (simp add: decode_def le16_bytes Let_def dec_read_resp_def rd8_def get_le16_cons H frame_simps si nl)
qed


lemma decode_fixed:
  "decode bs (wire (MtuReq m)) = Some (MtuReq m)"
  "decode bs (wire (MtuResp m)) = Some (MtuResp m)"
  "decode bs (wire (FindInfoReq s e)) = Some (FindInfoReq s e)"
  "decode bs (wire (ReadReq h)) = Some (ReadReq h)"
  "decode bs (wire (ReadBlobReq h off)) = Some (ReadBlobReq h off)"
  "decode bs (wire WriteResp) = Some WriteResp"
  "decode bs (wire (ExecWriteReq f)) = Some (ExecWriteReq f)"
  "decode bs (wire ExecWriteResp) = Some ExecWriteResp"
  by (simp_all add: decode_def le16_bytes Let_def rd8_def get_le16_cons dec_mtu_req_def dec_mtu_resp_def
      dec_find_info_req_def dec_read_req_def dec_read_blob_req_def dec_write_resp_def dec_exec_write_req_def
      dec_exec_write_resp_def)

lemma decode_uuid_requests:
  assumes "uuid_short_or_full u" and "\<And>d. bs d = rev d"
  shows "decode bs (wire (ReadByTypeReq s e u)) = Some (ReadByTypeReq s e u)"
    and "decode bs (wire (ReadByGroupReq s e u)) = Some (ReadByGroupReq s e u)"
  using assms
  by (cases u; simp add: decode_def le16_bytes Let_def rd8_def get_le16_cons uuid_short_or_full_def wire_uuid_def
      dec_read_by_type_req_def dec_read_by_grp_req_def get_uuid_def bt_uuid16_create_def bt_uuid128_create_def rd_bytes_def)+

lemma entries_concat:
  assumes "uniform e ds" and "0 < e" and "e < 256"
  shows "al_data (entries (x # y # concat ds) (of_nat e)) = ds"
    and "(length (x # y # concat ds) - 2) mod e = 0"
proof -
  have c: "length (concat ds) = length ds * e" using uniform_concat [OF assms(1)] .
  have n: "unat (of_nat e :: u8) = e" using assms(3) by (simp add: unat_of_nat_u8)
  have "chunks e (length ds) (concat ds) = ds"
    using chunks_concat [of ds e "[]"] assms(1) by (simp add: uniform_def)
  then show "al_data (entries (x # y # concat ds) (of_nat e)) = ds"
    using assms(2) by (simp add: entries_def n c)
  show "(length (x # y # concat ds) - 2) mod e = 0" by (simp add: c)
qed

lemma decode_lists:
  assumes ds: "ds \<noteq> []" "uniform e ds" "e < 256" and len: "2 + length (concat ds) < 65536"
  shows "3 \<le> e \<Longrightarrow> decode bs (wire (ReadByTypeResp ds)) = Some (ReadByTypeResp ds)"
    and "5 \<le> e \<Longrightarrow> decode bs (wire (ReadByGroupResp ds)) = Some (ReadByGroupResp ds)"
    and "unat (info_elen f) = e \<Longrightarrow> decode bs (wire (FindInfoResp f ds)) = Some (FindInfoResp f ds)"
proof -
  have h: "length (hd ds) = e" using ds by (simp add: uniform_def)
  have c: "length (concat ds) = length ds * e" using uniform_concat [OF ds(2)] .
  have n: "unat (of_nat e :: u8) = e" using ds(3) by (simp add: unat_of_nat_u8)
  have ge: "e \<le> length (concat ds)" using ds(1) c by (cases ds) auto
  have r: "dec (Some w) (2 + of_nat (length (concat ds))) = dec (Some w) (of_nat (length w))"
    if "w = x # y # concat ds" for dec :: "buf option \<Rightarrow> u64 \<Rightarrow> 'x" and w x y
    using that by simp
  show "3 \<le> e \<Longrightarrow> decode bs (wire (ReadByTypeResp ds)) = Some (ReadByTypeResp ds)"
    using dec_type_resp_eq [of "0x09 # of_nat e # concat ds"] len ge entries_concat [OF ds(2) _ ds(3), of "0x09" "of_nat e"]
    by (simp add: decode_def Let_def h n)
  show "5 \<le> e \<Longrightarrow> decode bs (wire (ReadByGroupResp ds)) = Some (ReadByGroupResp ds)"
    using dec_group_resp_eq [of "0x11 # of_nat e # concat ds"] len ge entries_concat [OF ds(2) _ ds(3), of "0x11" "of_nat e"]
    by (simp add: decode_def Let_def h n)
  show "decode bs (wire (FindInfoResp f ds)) = Some (FindInfoResp f ds)" if "unat (info_elen f) = e"
  proof -
    have "info_elen f = of_nat e" "0 < e" using that by (auto simp add: info_elen_def split: if_splits)
    then show ?thesis
      using dec_find_info_resp_eq [of "0x05 # f # concat ds" 0] len entries_concat [OF ds(2) _ ds(3), of "0x05" f]
      by (simp add: decode_def Let_def)
  qed
qed

lemma range_of_wire: "range_of (wire_range r) = r"
proof -
  have "word_of_le [ucast v, ucast (drop_bit 8 v)] = (v :: u16)" for v
    using word_of_le_of_word [of 2 v] by (simp add: le16_bytes)
  then show ?thesis by (simp add: range_of_def wire_range_def le16_bytes)
qed

lemma decode_ranges:
  assumes "rs \<noteq> []" and "1 + 4 * length rs < 65536"
  shows "decode bs (wire (FindByTypeResp rs)) = Some (FindByTypeResp rs)"
proof -
  let ?w = "0x07 # concat (map wire_range rs)"
  have l: "length ?w = 1 + 4 * length rs" by (simp add: length_wire_ranges)
  have "chunks 4 (length rs) (concat (map wire_range rs)) = map wire_range rs"
    using chunks_concat [of "map wire_range rs" 4 "[]"] by simp
  moreover have "0 < length rs" using assms(1) by (cases rs) auto
  ultimately show ?thesis
    using dec_find_by_type_resp_eq [of ?w] assms l
    by (simp add: decode_def Let_def length_wire_ranges comp_def range_of_wire map_idI)
qed

lemma decode_wire_eq:
  assumes wf: "pdu_wf p" and d: "decodable p" and len: "length (wire p) < 65000" and bs: "\<And>d. bs d = rev d"
  shows "decode bs (wire p) = Some p"
proof (cases p)
  case (FindInfoResp f ds)
  then show ?thesis using wf len decode_lists(3) [of ds 4 f bs] decode_lists(3) [of ds 18 f bs]
    by (auto simp add: info_elen_def simp del: wire.simps) (simp_all add: numeral_2_eq_2)
next
  case (ReadByTypeResp ds)
  then show ?thesis using wf len decode_lists(1) [of ds "length (hd ds)" bs] by (simp del: concat.simps)
next
  case (ReadByGroupResp ds)
  then show ?thesis using wf len decode_lists(2) [of ds "length (hd ds)" bs] by (simp del: concat.simps)
next
  case (FindByTypeResp rs)
  then show ?thesis using wf len decode_ranges [of rs bs] by (simp add: length_wire_ranges)
next
  case (ReadByTypeReq s e u)
  then show ?thesis using wf bs decode_uuid_requests(1) [of u bs s e] by simp
next
  case (ReadByGroupReq s e u)
  then show ?thesis using wf bs decode_uuid_requests(2) [of u bs s e] by simp
next
  case (FindByTypeReq s e u v)
  then show ?thesis using len decode_values(4) [of v bs s e u] by simp
next
  case (WriteReq h v)
  then show ?thesis using len decode_values(1) [of v bs h] by simp
next
  case (WriteCmd h v)
  then show ?thesis using len decode_values(2) [of v bs h] by simp
next
  case (PrepWriteReq h off v)
  then show ?thesis using len decode_values(3) [of v bs h off] by simp
next
  case (Indication h v)
  then show ?thesis using len decode_values(5) [of v bs h] by simp
next
  case (ReadResp v)
  then show ?thesis using len decode_values(6) [of v bs] by simp
qed (use d in \<open>simp_all only: decode_fixed decodable.simps\<close>)

lemma decode_undecodable:
  assumes "\<not> decodable p" and "length (wire p) < 65000"
  shows "decode bs (wire p) = None"
  using assms by (cases p) (auto simp: decode_def dec_prep_write_resp_def rd8_def Let_def header_u64)

section \<open>Signed Write Command\<close>

lemma enc_signed_write_eq:
  assumes K: "kernel_ok K" and key: "length csrk = 16" and fit: "length v + 15 \<le> length b" and b: "length b < 65532"
    and mac: "att_mac K csrk ([0xD2] @ le2 h @ v) cnt = Some out"
  shows "enc_signed_write_cmd h (Some v) (of_nat (length v)) (Some K) csrk cnt (Some b) (of_nat (length b)) =
    Some (of_nat (15 + length v), Some (filled ([0xD2] @ le2 h @ v @ att_signature cnt out) b))"
proof -
  let ?m = "[0xD2] @ le2 h @ v"
  let ?b = "filled ?m b"
  have k: "length v < 65536" "length v < 65528" using fit b by simp_all
  have lb: "length ?b = length b" using fit by (intro length_filled) simp
  have u16: "unat (of_nat (3 + length v) :: u16) = 3 + length v" using fit b by (intro unat_of_nat_u16) simp
  have "take (length ?m) ?b = ?m" by (rule take_filled_all)
  then have tk: "take (3 + length v) ?b = ?m" by simp
  have sg: "bt_crypto_sign_att (Some K) csrk ?b (of_nat (3 + length v)) cnt = Some (Some (att_signature cnt out))"
    using sign_att_eq [OF K key, of "of_nat (3 + length v)" ?b cnt] fit b mac lb unfolding u16 tk
    by simp
  have "length out = 16" using K mac by (simp add: att_mac_def kernel_ok_def)
  then have ls: "length (att_signature cnt out) = 12" by (simp add: length_att_signature)
  have wv: "(if (0 :: u64) < of_nat (length v) then memcpy (filled ([0xD2] @ le2 h) b) 3 v 0 (unat (of_nat (length v) :: u64))
      else Some (filled ([0xD2] @ le2 h) b)) = Some ?b"
    using fit k by (auto simp add: pos_u64 small_u64 memcpy_filled)
  have cl: "(if of_nat (length v) > of_nat (length b) - (15 :: u64) then of_nat (length b) - 15 else of_nat (length v)) = (of_nat (length v) :: u64)"
    using clamp_15 [of "length b" "length v"] fit b k by (simp add: min_absorb1)
  have hd: "wr8 b 0 0xD2 = Some (filled [0xD2] b)" "put_le16 h (filled [0xD2] b) 1 = Some (filled ([0xD2] @ le2 h) b)"
    using fit by (simp_all add: frame_simps)
  have ws: "wr_bytes ?b (3 + length v) (att_signature cnt out) = Some (filled (?m @ att_signature cnt out) b)"
    using fit ls by (intro wr_bytes_filled) auto
  show ?thesis
    unfolding enc_signed_write_cmd_def option.case Let_def cl hd bind.bind_lunit wv
    using sg ws k by (simp add: small_u64 ret_u16 header_u64)
qed

section \<open>Properties\<close>

text \<open>C24. Every encoder writes exactly the bytes of the wire format, nothing behind them, and returns their number, when they
  fit the buffer; no access leaves the buffer. First the encoder of each well-formed PDU, with the whole value for a Read Blob
  Response; then a Read Blob Response from any offset of the value; then a signed write, whose signature is that of the
  kernel's algorithm.\<close>

theorem encode_refines_wire:
  assumes "pdu_wf p" and "length (wire p) \<le> length b" and "length b < 65536" and "\<And>d. bswap_128 d = rev d"
  shows "encode bswap_128 p (Some b) (of_nat (length b)) = Some (of_nat (length (wire p)), Some (filled (wire p) b)) \<and>
    (off \<le> length v \<longrightarrow> length v < 65536 \<longrightarrow> length (wire (ReadBlobResp (drop off v))) \<le> length b \<longrightarrow>
      enc_read_blob_resp (Some v) (of_nat (length v)) (of_nat off) (Some b) (of_nat (length b)) =
        Some (of_nat (length (wire (ReadBlobResp (drop off v)))), Some (filled (wire (ReadBlobResp (drop off v))) b))) \<and>
    (kernel_ok K \<longrightarrow> length csrk = 16 \<longrightarrow> length u + 15 \<le> length b \<longrightarrow> length b < 65532 \<longrightarrow>
      att_mac K csrk ([0xD2] @ le2 h @ u) cnt = Some out \<longrightarrow>
      enc_signed_write_cmd h (Some u) (of_nat (length u)) (Some K) csrk cnt (Some b) (of_nat (length b)) =
        Some (of_nat (15 + length u), Some (filled ([0xD2] @ le2 h @ u @ att_signature cnt out) b)))"
proof (intro conjI impI)
  show "encode bswap_128 p (Some b) (of_nat (length b)) = Some (of_nat (length (wire p)), Some (filled (wire p) b))"
    using encode_writes_wire [of p b bswap_128] assms by (simp add: encodes_def)
next
  assume "off \<le> length v" "length v < 65536" "length (wire (ReadBlobResp (drop off v))) \<le> length b"
  then show "enc_read_blob_resp (Some v) (of_nat (length v)) (of_nat off) (Some b) (of_nat (length b)) =
      Some (of_nat (length (wire (ReadBlobResp (drop off v)))), Some (filled (wire (ReadBlobResp (drop off v))) b))"
    using enc_read_blob_resp_clips [of b v off] assms(3) by (simp add: encodes_def)
next
  assume "kernel_ok K" "length csrk = 16" "length u + 15 \<le> length b" "length b < 65532"
    "att_mac K csrk ([0xD2] @ le2 h @ u) cnt = Some out"
  then show "enc_signed_write_cmd h (Some u) (of_nat (length u)) (Some K) csrk cnt (Some b) (of_nat (length b)) =
      Some (of_nat (15 + length u), Some (filled ([0xD2] @ le2 h @ u @ att_signature cnt out) b))"
    by (rule enc_signed_write_eq)
qed

theorem encode_refines_wire_witness:
  "encode rev (ReadByTypeReq 1 0xFFFF (BT_UUID16 0x2803)) (Some [1, 2, 3, 4, 5, 6, 7, 8]) 8 =
     Some (7, Some [0x08, 0x01, 0x00, 0xFF, 0xFF, 0x03, 0x28, 8]) \<and>
   enc_read_blob_resp (Some [1, 2, 3]) 3 1 (Some [1, 2, 3, 4, 5, 6, 7, 8]) 8 = Some (3, Some [0x0D, 2, 3, 4, 5, 6, 7, 8]) \<and>
   enc_signed_write_cmd 3 (Some [7]) 1 (Some toy_kernel) (replicate 16 0) 5 (Some (replicate 23 0)) 23 =
     Some (16, Some (filled ([0xD2, 3, 0, 7] @ att_signature 5 (replicate 15 0 @ [0xE1])) (replicate 23 0)))"
  using encode_refines_wire [of "ReadByTypeReq 1 0xFFFF (BT_UUID16 0x2803)" "[1, 2, 3, 4, 5, 6, 7, 8]" rev 1 "[1, 2, 3]"]
    encode_refines_wire [of "WriteResp" "replicate 23 0" rev, where K = toy_kernel and csrk = "replicate 16 0" and u = "[7]" and h = 3
      and cnt = 5 and out = "replicate 15 0 @ [0xE1]"] toy_kernel_ok
  by (simp add: uuid_short_or_full_def wire_uuid_def le16_bytes filled_def att_mac_def toy_kernel_def le32_bytes sum_list_replicate)

text \<open>C25. What an encoder leaves in the buffer, cut at the length it returns, is decoded to the same PDU for each PDU
  that is decodable. The others are those without a decoder in the code, which their receivers take apart themselves (Error
  and Read Blob Responses, notifications and confirmations), and the Prepare Write Response, which its decoder rejects.\<close>

theorem decode_encoded:
  assumes "pdu_wf p" and "length (wire p) \<le> length b" and "length b < 65000"
    and "\<And>d. bswap_128 d = rev d"
  shows "\<exists>n b'. encode bswap_128 p (Some b) (of_nat (length b)) = Some (n, Some b') \<and>
           decode bswap_128 (take (unat n) b') = (if decodable p then Some p else None)"
proof -
  have "unat (of_nat (length (wire p)) :: u16) = length (wire p)" using assms by (intro unat_of_nat_u16) simp
  moreover have "decode bswap_128 (wire p) = (if decodable p then Some p else None)"
    using decode_wire_eq [of p bswap_128] decode_undecodable [of p bswap_128] assms by auto
  moreover have "encodes (encode bswap_128 p (Some b) (of_nat (length b))) (wire p) b"
    using assms by (intro encode_writes_wire) simp_all
  ultimately show ?thesis by (simp add: encodes_def)
qed

theorem decode_encoded_witness:
  "\<exists>n b'. encode rev (PrepWriteReq 0x10 4 [1, 2, 3]) (Some (replicate 23 0)) 23 = Some (n, Some b') \<and>
          decode rev (take (unat n) b') = Some (PrepWriteReq 0x10 4 [1, 2, 3])"
  using decode_encoded [of "PrepWriteReq 0x10 4 [1, 2, 3]" "replicate 23 0" rev] by simp

text \<open>A long value is cut to the PDU: a Write Request carries the part of the value that fits behind its
  three octets, whatever the length of the value.\<close>

theorem write_req_clips_value:
  assumes "3 \<le> length b" and "length b < 65536" and "length v < 65536"
  shows "enc_write_req h (Some v) (of_nat (length v)) (Some b) (of_nat (length b)) =
    Some (of_nat (3 + min (length v) (length b - 3)), Some (filled ([0x12] @ le2 h @ take (length b - 3) v) b))"
  using enc_write_req_clips [OF assms, of h] by (simp add: encodes_def)

theorem write_req_clips_value_witness:
  "enc_write_req 0x20 (Some [1, 2, 3, 4]) 4 (Some (replicate 5 0)) 5 = Some (5, Some [0x12, 0x20, 0, 1, 2])"
  using write_req_clips_value [of "replicate 5 0" "[1, 2, 3, 4]" "0x20"] by (simp add: le16_bytes filled_def)

text \<open>C26. The decoder of a Read By Type Response on any received bytes: it never reads outside the PDU, and accepts
  it exactly when the opcode and the minimal lengths are right and the entries fill the PDU without
  remainder; the result lists all entries in order.\<close>

theorem read_by_type_resp_decoded:
  assumes "1 \<le> length b" and "length b < 65536"
  shows "dec_read_by_type_resp (Some b) (of_nat (length b)) = Some (
    if b ! 0 \<noteq> 0x09 \<or> length b < 5 \<or> unat (b ! 1) < 3 \<or> (length b - 2) mod unat (b ! 1) \<noteq> 0 then None
    else Some (entries b (b ! 1)))"
  using assms by (rule dec_type_resp_eq)

lemma chunks_2: "chunks w 2 xs = [take w xs, take w (drop w xs)]"
  by (simp add: numeral_2_eq_2)

theorem read_by_type_resp_decoded_witness:
  "dec_read_by_type_resp (Some [0x09, 4, 1, 0, 7, 8, 2, 0, 9, 9]) 10 =
     Some (Some \<lparr>al_num = 2, al_len = 4, al_data = [[1, 0, 7, 8], [2, 0, 9, 9]]\<rparr>)"
  using read_by_type_resp_decoded [of "[0x09, 4, 1, 0, 7, 8, 2, 0, 9, 9]"]
  by (simp add: entries_def chunks_2)

text \<open>C27. The response decoders on every non-empty PDU, whatever its bytes: the decoders of Read By Group Type, Read By Type,
  Find By Type Value, Read, Write, Execute Write and Exchange MTU Responses never read outside the PDU nor write outside the
  caller's value, that of Prepare Write Responses neither when the caller's value has room for what is behind the header, and the decoder of Find Information Responses reads outside for exactly one PDU, its opcode alone.\<close>

theorem response_decoders_safe:
  assumes "1 \<le> length b" and "length b < 65536"
  shows "dec_read_by_grp_resp (Some b) (of_nat (length b)) \<noteq> None \<and>
         dec_read_by_type_resp (Some b) (of_nat (length b)) \<noteq> None \<and>
         dec_find_by_type_resp (Some b) (of_nat (length b)) \<noteq> None \<and>
         dec_write_resp (Some b) (of_nat (length b)) \<noteq> None \<and>
         dec_exec_write_resp (Some b) (of_nat (length b)) \<noteq> None \<and>
         dec_mtu_resp (Some b) (of_nat (length b)) (Some m) \<noteq> None \<and>
         dec_read_resp (Some b) (of_nat (length b)) (Some v) (of_nat (length v)) \<noteq> None \<and>
         (length b \<le> length v + 5 \<longrightarrow> dec_prep_write_resp (Some b) (of_nat (length b)) (Some h) (Some off) (Some v) (Some n) \<noteq> None) \<and>
         (dec_find_info_resp (Some b) (of_nat (length b)) (Some f) = None \<longleftrightarrow> b = [0x05])"
proof -
  have z: "0 < length b" using assms(1) by linarith
  have d: "unat (of_nat (length b) - 1 :: u64) = length b - 1"
    using assms by (simp add: minus1_u64 small_u64 del: of_nat_diff)
  have n: "unat (of_nat (length v) :: u64) \<le> length v" by (simp add: unat_of_nat take_bit_nat_eq_self take_bit_nat_less_eq_self)
  have "dec_read_resp (Some b) (of_nat (length b)) (Some v) (of_nat (length v)) \<noteq> None"
    using z d n by (auto simp add: dec_read_resp_def rd8_def memcpy_def rd_bytes_def wr_bytes_def word_less_nat_alt)
  moreover have "length b \<le> length v + 5 \<longrightarrow> dec_prep_write_resp (Some b) (of_nat (length b)) (Some h) (Some off) (Some v) (Some n) \<noteq> None"
  proof (cases "length b < 5")
    case True
    then show ?thesis using assms by (simp add: dec_prep_write_resp_def less_numeral_u64)
  next
    case False
    then have "unat (of_nat (length b) - 5 :: u64) = length b - 5"
      using assms by (simp add: unat_sub word_le_nat_alt unat_of_nat take_bit_nat_eq_self)
    then show ?thesis using z False assms get_le16_Some_iff [of b 1] get_le16_Some_iff [of b 3]
      by (auto simp: dec_prep_write_resp_def rd8_def memcpy_def rd_bytes_def wr_bytes_def less_numeral_u64 Let_def simp flip: not_None_eq)
  qed
  moreover have "dec_mtu_resp (Some b) (of_nat (length b)) (Some m) \<noteq> None"
    using z assms get_le16_Some_iff [of b 1]
    by (auto simp add: dec_mtu_resp_def rd8_def less_numeral_u64 simp flip: not_None_eq)
  moreover have "dec_find_info_resp (Some b) (of_nat (length b)) (Some f) = None \<longleftrightarrow> b = [0x05]"
  proof (cases "length b = 1")
    case True
    then obtain x where "b = [x]" by (cases b) auto
    then show ?thesis by (simp add: dec_find_info_resp_def rd8_def)
  next
    case False
    then have "2 \<le> length b" using assms(1) by simp
    then show ?thesis using dec_find_info_resp_eq [of b f] assms False by auto
  qed
  ultimately show ?thesis
    using z dec_group_resp_eq [OF assms] dec_type_resp_eq [OF assms] dec_find_by_type_resp_eq [OF assms(2)]
    by (simp add: dec_write_resp_def dec_exec_write_resp_def rd8_def)
qed

theorem response_decoders_safe_witness:
  "dec_read_by_grp_resp (Some [0x11]) 1 \<noteq> None \<and> dec_read_resp (Some [0x0B, 7]) 2 (Some []) 0 \<noteq> None \<and>
   dec_find_info_resp (Some [0x05]) 1 (Some 0) = None \<and>
   dec_prep_write_resp (Some [0x16, 1, 0, 0, 0, 9]) 6 (Some 0) (Some 0) (Some [0]) (Some 0) \<noteq> None"
  using response_decoders_safe [of "[0x11]" 0 "[]" 0 0 0 0] response_decoders_safe [of "[0x0B, 7]" 0 "[]" 0 0 0 0]
    response_decoders_safe [of "[0x05]" 0 "[]" 0 0 0 0] response_decoders_safe [of "[0x16, 1, 0, 0, 0, 9]" 0 "[0]" 0 0 0 0] by simp

text \<open>The exception: the decoder of a Find Information Response has no check of its minimal length. On a PDU
  that consists of the opcode alone it reads behind the end; from two bytes on it is safe.\<close>

theorem find_info_resp_unchecked_length:
  assumes "1 \<le> length b" and "length b < 65536" and "b ! 0 = 0x05"
  shows "dec_find_info_resp (Some b) (of_nat (length b)) (Some f) = None \<longleftrightarrow> length b = 1"
proof (cases "length b = 1")
  case True
  then show ?thesis using assms by (simp add: dec_find_info_resp_def rd8_def)
next
  case False
  then have "2 \<le> length b" using assms(1) by simp
  then show ?thesis using dec_find_info_resp_eq [of b f] assms False by simp
qed

theorem find_info_resp_unchecked_length_witness:
  "dec_find_info_resp (Some [0x05]) 1 (Some 0) = None"
  using find_info_resp_unchecked_length [of "[0x05]" 0] by simp

text \<open>\<open>dec_prep_write_resp\<close> compares with the opcode of the request: it rejects every Prepare Write
  Response that \<open>enc_prep_write_resp\<close> makes, and accepts Prepare Write Requests.\<close>

theorem prep_write_resp_never_decoded:
  assumes "length v < 65000"
  shows "dec_prep_write_resp (Some (wire (PrepWriteResp h off v))) (of_nat (length (wire (PrepWriteResp h off v))))
           (Some h0) (Some off0) (Some buf) (Some n0) = Some (0, Some h0, Some off0, Some buf, Some n0) \<and>
         decode bs (wire (PrepWriteResp h off v)) = None"
  using assms header_u64 [of "length v"] by (simp add: decode_def dec_prep_write_resp_def rd8_def Let_def)

theorem prep_write_resp_never_decoded_witness:
  "decode rev [0x17, 1, 0, 0, 0, 9] = None"
  using prep_write_resp_never_decoded [of "[9]" 1 0 _ _ _ _ rev] by (simp add: le16_bytes)

text \<open>C28. Signed writes: the PDU that \<open>enc_signed_write_cmd\<close> builds passes \<open>bt_crypto_verify_att_sign\<close> under
  the same key, and \<open>dec_signed_write_cmd\<close> recovers handle, value and signature from it.\<close>

theorem signed_write_roundtrip:
  assumes K: "kernel_ok K" and key: "length csrk = 16" and fit: "length v + 15 \<le> length b" and b: "length b < 65000"
    and mac: "att_mac K csrk ([0xD2] @ le2 h @ v) cnt = Some out"
  shows "\<exists>n b' w. enc_signed_write_cmd h (Some v) (of_nat (length v)) (Some K) csrk cnt (Some b) (of_nat (length b)) =
      Some (n, Some b') \<and> w = take (unat n) b' \<and>
    bt_crypto_verify_att_sign (Some K) csrk w n = Some True \<and>
    dec_signed_write_cmd (Some w) (of_nat (length w)) (Some 0) (Some (replicate (length v) 0)) (Some 0) (replicate 12 0) =
      Some (n, Some h, Some v, Some (of_nat (length v)), att_signature cnt out)"
proof -
  let ?m = "[0xD2] @ le2 h @ v" and ?s = "att_signature cnt out"
  have "length out = 16" using K mac by (simp add: att_mac_def kernel_ok_def)
  then have ls: "length ?s = 12" by (simp add: length_att_signature)
  have u: "unat (of_nat (15 + length v) :: u16) = 15 + length v" using fit b by (intro unat_of_nat_u16) simp
  have k: "length v < 65528" "length v < 65536" using fit b by simp_all
  define w where "w = ?m @ ?s"
  have w: "take (unat (of_nat (15 + length v) :: u16)) (filled (?m @ ?s) b) = w"
    unfolding u w_def using ls by (subst take_filled) auto
  have lw: "length w = 15 + length v" using ls by (simp add: w_def)
  have lm: "length ?m = 3 + length v" by simp
  have "?m = take (length ?m) w \<and> ?s = drop (length ?m) w" unfolding append_eq_conv_conj [symmetric] w_def ..
  then have ws: "take (3 + length v) w = ?m" "drop (3 + length v) w = ?s" unfolding lm by simp_all
  have "drop (7 + length v) w = drop 4 (drop (3 + length v) w)" by (simp add: add.commute)
  then have c4: "take 4 (drop (length w - 12) w) = le_of_word 4 cnt" "drop (length w - 8) w = rev (take 8 out)" "take (length w - 12) w = ?m"
    using lw ws by (simp_all add: att_signature_def)
  have "bt_crypto_verify_att_sign (Some K) csrk w (of_nat (15 + length v)) = Some True"
    using verify_att_sign_eq [OF K key, of "of_nat (15 + length v)" w] c4 mac u lw
    by (simp add: word_of_le_of_word)
  moreover have "dec_signed_write_cmd (Some w) (of_nat (length w)) (Some 0) (Some (replicate (length v) 0)) (Some 0) (replicate 12 0) =
      Some (of_nat (15 + length v), Some h, Some v, Some (of_nat (length v)), ?s)"
  proof -
    have "unat (of_nat (15 + length v) :: u64) = 15 + length v" using k by (intro small_u64) (use fit b in simp)
    then have nl: "\<not> 15 + of_nat (length v) < (15 :: u64)" by (simp add: word_less_nat_alt)
    have g: "get_le16 w 1 = Some h" by (simp add: w_def le16_bytes get_le16_cons)
    have "memcpy (replicate (length v) 0) 0 w 3 (length v) = Some v"
      by (simp add: memcpy_eq w_def wr_bytes_whole)
    moreover have "memcpy (replicate 12 0) 0 w (3 + length v) 12 = Some ?s"
      using ls lw ws(2) by (simp add: memcpy_eq wr_bytes_whole)
    ultimately show ?thesis
      using g nl k
      by (simp add: dec_signed_write_cmd_def Let_def lw rd8_def ret_u16 header_u64 small_u64 ATT_SIGNATURE_LEN_def) (simp add: w_def)
  qed
  ultimately show ?thesis
    using enc_signed_write_eq [OF K key fit _ mac] b w by auto
qed

theorem signed_write_roundtrip_witness:
  "\<exists>n b' w. enc_signed_write_cmd 3 (Some [7]) 1 (Some toy_kernel) (replicate 16 0) 5 (Some (replicate 23 0)) 23 =
      Some (n, Some b') \<and> w = take (unat n) b' \<and>
    bt_crypto_verify_att_sign (Some toy_kernel) (replicate 16 0) w n = Some True \<and>
    dec_signed_write_cmd (Some w) (of_nat (length w)) (Some 0) (Some [0]) (Some 0) (replicate 12 0) =
      Some (n, Some 3, Some [7], Some 1, att_signature 5 (replicate 15 0 @ [0xE1]))"
  using signed_write_roundtrip [OF toy_kernel_ok, of "replicate 16 0" "[7]" "replicate 23 0" 3 5 "replicate 15 0 @ [0xE1]"]
  by (simp add: att_mac_def toy_kernel_def le16_bytes le32_bytes sum_list_replicate)

end
