(* ===== verification/Sys.thy ===== *)
theory Sys
  imports Prelude "HOL-Library.State_Monad"
begin

text \<open>
  Calls to the outside: the system calls and the functions of GLib that the descriptor code makes. What is outside
  is not modelled. A call is written to a trace, and its answer is a function of the trace up to and including this call;
  quantified over that function, a statement holds for every behaviour of the kernel. An answer is
  \<open>Inl e\<close> when the call fails with \<open>errno = e\<close>, and \<open>Inr x\<close> otherwise.

  The code is written in the state monad of the library over a record that holds the trace and \<open>errno\<close>; a component
  extends the record by what else it keeps.
\<close>

section \<open>Calls\<close>

record 'c os =
  os_calls :: "'c list"
  os_errno :: int

type_synonym ('c, 'z, 'a) run = "(('c, 'z) os_scheme, 'a) state"

abbreviation ret :: "'a \<Rightarrow> ('s, 'a) state" where "ret \<equiv> State_Monad.return"

definition sys :: "('c list \<Rightarrow> int + 'a) \<Rightarrow> 'c \<Rightarrow> ('c, 'z, 'a option) run" where
  "sys answer c = State (\<lambda>s.
     let t = os_calls s @ [c]
     in case answer t of
          Inl e \<Rightarrow> (None, s\<lparr>os_calls := t, os_errno := e\<rparr>)
        | Inr x \<Rightarrow> (Some x, s\<lparr>os_calls := t\<rparr>))"

text \<open>A call whose answer does not matter.\<close>

definition tell :: "'c \<Rightarrow> ('c, 'z, unit) run" where
  "tell c = State (\<lambda>s. ((), s\<lparr>os_calls := os_calls s @ [c]\<rparr>))"

definition get_errno :: "('c, 'z, int) run" where
  "get_errno = State (\<lambda>s. (os_errno s, s))"

text \<open>\<open>return -errno;\<close>\<close>

definition neg_errno :: "('c, 'z, int) run" where
  "neg_errno = do { e \<leftarrow> get_errno; ret (- e) }"

text \<open>A call that gives 0, or \<open>-errno\<close>.\<close>

definition sys_status :: "('c list \<Rightarrow> int + 'a) \<Rightarrow> 'c \<Rightarrow> ('c, 'z, int) run" where
  "sys_status answer c = do { r \<leftarrow> sys answer c; case r of None \<Rightarrow> neg_errno | Some _ \<Rightarrow> ret 0 }"

section \<open>What a run adds to the trace\<close>

text \<open>\<open>adds P m\<close>: every run of \<open>m\<close> only appends calls that satisfy \<open>P\<close>.\<close>

definition longer :: "('c \<Rightarrow> bool) \<Rightarrow> ('c, 'z) os_scheme \<Rightarrow> ('c, 'z) os_scheme \<Rightarrow> bool" where
  "longer P s s' \<longleftrightarrow> (\<exists>t. os_calls s' = os_calls s @ t \<and> list_all P t)"

definition adds :: "('c \<Rightarrow> bool) \<Rightarrow> ('c, 'z, 'a) run \<Rightarrow> bool" where
  "adds P m \<longleftrightarrow> state_io_rel (longer P) m"

named_theorems adds_intros \<open>calls that a run may make\<close>

lemma longer_refl [simp]: "longer P s s"
  by (simp add: longer_def)

lemma longer_trans: "longer P s t \<Longrightarrow> longer P t u \<Longrightarrow> longer P s u"
  by (auto simp add: longer_def)

lemma longer_frame: "os_calls t = os_calls s \<Longrightarrow> longer P s t"
  by (simp add: longer_def)

lemma longer_calls: "os_calls s' = os_calls s @ [c] \<Longrightarrow> P c \<Longrightarrow> longer P s s'"
  by (simp add: longer_def)

lemma longer_mono: "longer P s t \<Longrightarrow> (\<And>c. P c \<Longrightarrow> Q c) \<Longrightarrow> longer Q s t"
  by (auto simp add: longer_def list_all_iff)

lemma addsI: "(\<And>s. longer P s (snd (run_state m s))) \<Longrightarrow> adds P m"
  by (simp add: adds_def state_io_rel_def)

lemma addsD: "adds P m \<Longrightarrow> run_state m s = (x, s') \<Longrightarrow> longer P s s'"
  unfolding adds_def by (rule state_io_relD)

lemma adds_mono: "adds P m \<Longrightarrow> (\<And>c. P c \<Longrightarrow> Q c) \<Longrightarrow> adds Q m"
  unfolding adds_def state_io_rel_def using longer_mono by blast

lemma adds_return [adds_intros]: "adds P (ret x)"
  by (rule addsI) simp

lemma adds_bind [adds_intros]: "adds P m \<Longrightarrow> (\<And>x. adds P (f x)) \<Longrightarrow> adds P (m \<bind> f)"
proof (rule addsI)
  fix s
  assume m: "adds P m" and f: "\<And>x. adds P (f x)"
  obtain x t where x: "run_state m s = (x, t)" by fastforce
  obtain y u where y: "run_state (f x) t = (y, u)" by fastforce
  show "longer P s (snd (run_state (m \<bind> f) s))"
    using longer_trans [OF addsD [OF m x] addsD [OF f y]] x y by simp
qed

lemma adds_if [adds_intros]: "(b \<Longrightarrow> adds P m) \<Longrightarrow> (\<not> b \<Longrightarrow> adds P n) \<Longrightarrow> adds P (if b then m else n)"
  by simp

lemma adds_option [adds_intros]: "adds P m \<Longrightarrow> (\<And>y. adds P (f y)) \<Longrightarrow> adds P (case x of None \<Rightarrow> m | Some y \<Rightarrow> f y)"
  by (cases x) simp_all

lemma adds_prod [adds_intros]: "(\<And>a b. adds P (f a b)) \<Longrightarrow> adds P (case x of (a, b) \<Rightarrow> f a b)"
  by (cases x) simp

lemma adds_sys [adds_intros]: "P c \<Longrightarrow> adds P (sys answer c)"
  by (rule addsI) (auto simp add: sys_def Let_def longer_def split: sum.split)

lemma adds_tell [adds_intros]: "P c \<Longrightarrow> adds P (tell c)"
  by (rule addsI) (simp add: tell_def longer_def)

lemma adds_errno [adds_intros]: "adds P get_errno" "adds P neg_errno"
  by (auto intro!: addsI simp add: get_errno_def neg_errno_def)

lemma adds_status [adds_intros]: "P c \<Longrightarrow> adds P (sys_status answer c)"
  unfolding sys_status_def by (intro adds_intros)

section \<open>Runs\<close>

lemma run_sys_call:
  "run_state (sys answer c) s = (case answer (os_calls s @ [c]) of
     Inl e \<Rightarrow> (None, s\<lparr>os_calls := os_calls s @ [c], os_errno := e\<rparr>)
   | Inr x \<Rightarrow> (Some x, s\<lparr>os_calls := os_calls s @ [c]\<rparr>))"
  by (simp add: sys_def Let_def)

lemma run_simple [simp]:
  "run_state (tell c) s = ((), s\<lparr>os_calls := os_calls s @ [c]\<rparr>)"
  "run_state get_errno s = (os_errno s, s)"
  "run_state neg_errno s = (- os_errno s, s)"
  by (simp_all add: tell_def get_errno_def neg_errno_def)

lemma run_status:
  "run_state (sys_status answer c) s = (case answer (os_calls s @ [c]) of
     Inl e \<Rightarrow> (- e, s\<lparr>os_calls := os_calls s @ [c], os_errno := e\<rparr>)
   | Inr x \<Rightarrow> (0, s\<lparr>os_calls := os_calls s @ [c]\<rparr>))"
  by (simp add: sys_status_def run_sys_call split: sum.split)

end
