(* ===== verification/AlgSockets.thy ===== *)
theory AlgSockets
  imports Crypto Sys
begin

text \<open>
  The system calls under \<^verbatim>\<open>crypto.c\<close>: the sockets of the kernel's algorithms (\<open>AF_ALG\<close>), from \<open>bt_crypto_new\<close> to
  \<open>bt_crypto_unref\<close>, and the calls behind one operation of the record \<open>alg_kernel\<close> that the security functions of theory
  \<open>Crypto\<close> are written over. The kernel is an arbitrary function of the trace of calls.
\<close>

section \<open>Calls\<close>

record sockaddr_alg =
  salg_family :: u16
  salg_type :: buf
  salg_feat :: u32
  salg_mask :: u32
  salg_name :: buf

record alg_cmsg =
  cmsg_level :: int
  cmsg_type :: int
  cmsg_data :: u32

datatype alg_call =
    AlgOpen string
  | AlgSocket int
  | AlgBind int sockaddr_alg
  | AlgSetKey int "u8 list"
  | AlgAccept int
  | AlgSendMsg int alg_cmsg "u8 list"
  | AlgSend int "u8 list"
  | AlgWriteV int "u8 list list"
  | AlgRead int nat
  | AlgClose int

record alg_host =
  a_int :: "alg_call list \<Rightarrow> int + int"
  a_status :: "alg_call list \<Rightarrow> int + unit"
  a_bytes :: "alg_call list \<Rightarrow> int + u8 list"

type_synonym alg_os = "alg_call os"
type_synonym 'a alg = "(alg_call, unit, 'a) run"

definition PF_ALG :: int where "PF_ALG = 38"
definition SOL_ALG :: int where "SOL_ALG = 279"
definition ALG_SET_OP :: int where "ALG_SET_OP = 3"
definition ALG_OP_ENCRYPT :: u32 where "ALG_OP_ENCRYPT = 1"

text \<open>A call that gives -1 when it fails.\<close>

definition or_minus_one :: "(alg_call list \<Rightarrow> int + int) \<Rightarrow> alg_call \<Rightarrow> int alg" where
  "or_minus_one answer c = do { r \<leftarrow> sys answer c; ret (case r of None \<Rightarrow> - 1 | Some fd \<Rightarrow> fd) }"

section \<open>Set up and release\<close>

definition urandom_setup :: "alg_host \<Rightarrow> int alg" where
  "urandom_setup H = do {
     fd \<leftarrow> or_minus_one (a_int H) (AlgOpen ''/dev/urandom'');
     if fd < 0 then ret (- 1) else ret fd }"

text \<open>\<open>strcpy\<close> into an array of \<open>n\<close> zeros.\<close>

definition name_field :: "nat \<Rightarrow> string \<Rightarrow> buf" where
  "name_field n s = map of_char s @ replicate (n - length s) 0"

definition alg_addr :: "string \<Rightarrow> string \<Rightarrow> sockaddr_alg" where
  "alg_addr type name = \<lparr>salg_family = of_int PF_ALG, salg_type = name_field 14 type, salg_feat = 0, salg_mask = 0,
     salg_name = name_field 64 name\<rparr>"

lemma names_fit:
  "wr_bytes (replicate 14 0) 0 (map of_char ''skcipher'' @ [0]) = Some (name_field 14 ''skcipher'')"
  "wr_bytes (replicate 14 0) 0 (map of_char ''hash'' @ [0]) = Some (name_field 14 ''hash'')"
  "wr_bytes (replicate 64 0) 0 (map of_char ''ecb(aes)'' @ [0]) = Some (name_field 64 ''ecb(aes)'')"
  "wr_bytes (replicate 64 0) 0 (map of_char ''cmac(aes)'' @ [0]) = Some (name_field 64 ''cmac(aes)'')"
  by code_simp+

definition alg_setup :: "alg_host \<Rightarrow> sockaddr_alg \<Rightarrow> int alg" where
  "alg_setup H salg = do {
     fd \<leftarrow> or_minus_one (a_int H) (AlgSocket PF_ALG);
     if fd < 0 then ret (- 1)
     else do {
       r \<leftarrow> sys (a_status H) (AlgBind fd salg);
       if r = None then do { tell (AlgClose fd); ret (- 1) } else ret fd } }"

definition ecb_aes_setup :: "alg_host \<Rightarrow> int alg" where
  "ecb_aes_setup H = alg_setup H (alg_addr ''skcipher'' ''ecb(aes)'')"

definition cmac_aes_setup :: "alg_host \<Rightarrow> int alg" where
  "cmac_aes_setup H = alg_setup H (alg_addr ''hash'' ''cmac(aes)'')"

record bt_crypto =
  c_ref_count :: int
  c_ecb_aes :: int
  c_urandom :: int
  c_cmac_aes :: int

definition bt_crypto_ref :: "bt_crypto option \<Rightarrow> bt_crypto option" where
  "bt_crypto_ref crypto = (case crypto of
     None \<Rightarrow> None | Some c \<Rightarrow> Some (c\<lparr>c_ref_count := c_ref_count c + 1\<rparr>))"

definition bt_crypto_new :: "alg_host \<Rightarrow> bt_crypto option alg" where
  "bt_crypto_new H = do {
     ecb \<leftarrow> ecb_aes_setup H;
     if ecb < 0 then ret None
     else do {
       urandom \<leftarrow> urandom_setup H;
       if urandom < 0 then do { tell (AlgClose ecb); ret None }
       else do {
         cmac \<leftarrow> cmac_aes_setup H;
         if cmac < 0 then do { tell (AlgClose urandom); tell (AlgClose ecb); ret None }
         else ret (bt_crypto_ref (Some \<lparr>c_ref_count = 0, c_ecb_aes = ecb, c_urandom = urandom, c_cmac_aes = cmac\<rparr>)) } } }"

text \<open>The structure that is left, if any.\<close>

definition bt_crypto_unref :: "bt_crypto option \<Rightarrow> bt_crypto option alg" where
  "bt_crypto_unref crypto = (case crypto of
     None \<Rightarrow> ret None
   | Some c \<Rightarrow> (let c = c\<lparr>c_ref_count := c_ref_count c - 1\<rparr> in
       if c_ref_count c \<noteq> 0 then ret (Some c)
       else do { tell (AlgClose (c_urandom c)); tell (AlgClose (c_ecb_aes c)); tell (AlgClose (c_cmac_aes c)); ret None }))"

section \<open>One operation\<close>

definition alg_new :: "alg_host \<Rightarrow> int \<Rightarrow> u8 list \<Rightarrow> int alg" where
  "alg_new H fd keyval = do {
     r \<leftarrow> sys (a_status H) (AlgSetKey fd keyval);
     if r = None then ret (- 1) else or_minus_one (a_int H) (AlgAccept fd) }"

definition alg_encrypt :: "alg_host \<Rightarrow> int \<Rightarrow> u8 list \<Rightarrow> nat \<Rightarrow> u8 list option alg" where
  "alg_encrypt H fd inbuf outlen = do {
     len \<leftarrow> sys (a_status H) (AlgSendMsg fd \<lparr>cmsg_level = SOL_ALG, cmsg_type = ALG_SET_OP, cmsg_data = ALG_OP_ENCRYPT\<rparr> inbuf);
     if len = None then ret None else sys (a_bytes H) (AlgRead fd outlen) }"

text \<open>A hash is fed by \<open>send\<close>, or by \<open>writev\<close>.\<close>

definition alg_hash :: "alg_host \<Rightarrow> (int \<Rightarrow> alg_call) \<Rightarrow> int \<Rightarrow> u8 list option alg" where
  "alg_hash H feed fd = do {
     len \<leftarrow> sys (a_status H) (feed fd);
     if len = None then ret None else sys (a_bytes H) (AlgRead fd 16) }"

text \<open>The descriptor of the operation is closed on every path.\<close>

definition alg_operation :: "alg_host \<Rightarrow> int \<Rightarrow> u8 list \<Rightarrow> (int \<Rightarrow> u8 list option alg) \<Rightarrow> u8 list option alg" where
  "alg_operation H alg key use = do {
     fd \<leftarrow> alg_new H alg key;
     if fd < 0 then ret None
     else do { r \<leftarrow> use fd; tell (AlgClose fd); ret r } }"

definition ecb_operation :: "alg_host \<Rightarrow> bt_crypto \<Rightarrow> u8 list \<Rightarrow> u8 list \<Rightarrow> u8 list option alg" where
  "ecb_operation H c key inb = alg_operation H (c_ecb_aes c) key (\<lambda>fd. alg_encrypt H fd inb 16)"

definition cmac_operation :: "alg_host \<Rightarrow> bt_crypto \<Rightarrow> u8 list \<Rightarrow> u8 list \<Rightarrow> u8 list option alg" where
  "cmac_operation H c key msg = alg_operation H (c_cmac_aes c) key (alg_hash H (\<lambda>fd. AlgSend fd msg))"

definition gatt_hash_operation :: "alg_host \<Rightarrow> bt_crypto \<Rightarrow> u8 list \<Rightarrow> u8 list list \<Rightarrow> u8 list option alg" where
  "gatt_hash_operation H c key iov = alg_operation H (c_cmac_aes c) key (alg_hash H (\<lambda>fd. AlgWriteV fd iov))"

definition read_urandom :: "alg_host \<Rightarrow> bt_crypto \<Rightarrow> nat \<Rightarrow> u8 list option alg" where
  "read_urandom H c n = sys (a_bytes H) (AlgRead (c_urandom c) n)"

text \<open>The kernel as the security functions see it, when the calls so far are those of \<open>s\<close>.\<close>

definition kernel_at :: "alg_host \<Rightarrow> bt_crypto \<Rightarrow> alg_os \<Rightarrow> alg_kernel" where
  "kernel_at H c s = \<lparr>
     k_ecb = (\<lambda>key m. fst (run_state (ecb_operation H c key m) s)),
     k_cmac = (\<lambda>key m. fst (run_state (cmac_operation H c key m) s)),
     k_urandom = (\<lambda>n. fst (run_state (read_urandom H c n) s))\<rparr>"

end
