(* ===== verification/AlgSpec.thy ===== *)
theory AlgSpec
  imports AlgSockets CryptoSpec "HOL-Library.Multiset"
begin

text \<open>
  What the sockets of the algorithms give the security functions: no descriptor is lost, and on a kernel that behaves as
  documented every operation computes the algorithm, so that the laws of theory \<open>CryptoSpec\<close> hold over the sockets.
\<close>

section \<open>Descriptors\<close>

fun alg_opened :: "alg_host \<Rightarrow> alg_call list \<Rightarrow> int multiset" where
  "alg_opened H [] = {#}"
| "alg_opened H (c # past) = (case c of
     AlgClose fd \<Rightarrow> alg_opened H past - {#fd#}
   | _ \<Rightarrow> if (\<exists>x. c = AlgOpen x) \<or> (\<exists>x. c = AlgSocket x) \<or> (\<exists>x. c = AlgAccept x)
       then (case a_int H (rev (c # past)) of Inl _ \<Rightarrow> alg_opened H past | Inr fd \<Rightarrow> add_mset fd (alg_opened H past))
       else alg_opened H past)"

definition alg_fds :: "alg_host \<Rightarrow> alg_os \<Rightarrow> int multiset" where
  "alg_fds H s = alg_opened H (rev (os_calls s))"

lemma alg_fds_update [simp]: "alg_fds H (s\<lparr>os_errno := e\<rparr>) = alg_fds H s"
  by (simp add: alg_fds_def)

lemma alg_fds_call [simp]:
  "alg_fds H (s\<lparr>os_calls := os_calls s' @ [AlgClose fd]\<rparr>) = alg_opened H (rev (os_calls s')) - {#fd#}"
  "alg_fds H (s\<lparr>os_calls := os_calls s' @ [AlgBind fd x]\<rparr>) = alg_opened H (rev (os_calls s'))"
  by (simp_all add: alg_fds_def)

text \<open>A successful call gives a descriptor, which is not negative.\<close>

definition gives_descriptors :: "alg_host \<Rightarrow> bool" where
  "gives_descriptors H \<longleftrightarrow> (\<forall>t fd. a_int H t = Inr fd \<longrightarrow> 0 \<le> fd)"

lemma run_or_minus_one:
  "run_state (or_minus_one answer c) s = (case answer (os_calls s @ [c]) of
     Inl e \<Rightarrow> (- 1, s\<lparr>os_calls := os_calls s @ [c], os_errno := e\<rparr>)
   | Inr fd \<Rightarrow> (fd, s\<lparr>os_calls := os_calls s @ [c]\<rparr>))"
  by (simp add: or_minus_one_def run_sys_call split: sum.split)

lemma setup_fds:
  assumes "gives_descriptors H"
  shows "run_state (alg_setup H salg) s = (fd, s') \<Longrightarrow> alg_fds H s' = (if fd < 0 then alg_fds H s else add_mset fd (alg_fds H s))"
    and "run_state (urandom_setup H) s = (fd, s') \<Longrightarrow> alg_fds H s' = (if fd < 0 then alg_fds H s else add_mset fd (alg_fds H s))"
  using assms
  by (fastforce simp: alg_setup_def urandom_setup_def run_or_minus_one run_sys_call alg_fds_def gives_descriptors_def split: sum.splits if_splits)+

lemma run_bind: "run_state (m \<bind> f) s = (case run_state m s of (x, s') \<Rightarrow> run_state (f x) s')"
  by (cases "run_state m s") simp

lemma operation_fds:
  assumes "gives_descriptors H" "\<And>fd s r s'. run_state (use fd) s = (r, s') \<Longrightarrow> alg_fds H s' = alg_fds H s"
    and "run_state (alg_operation H alg key use) s = (r, s')"
  shows "alg_fds H s' = alg_fds H s"
proof -
  let ?t = "os_calls s @ [AlgSetKey alg key]"
  show ?thesis
  proof (cases "a_status H ?t")
    case (Inl e)
    then show ?thesis using assms(3) by (auto simp: alg_operation_def alg_new_def run_sys_call alg_fds_def)
  next
    case ok: (Inr u)
    show ?thesis
    proof (cases "a_int H (?t @ [AlgAccept alg])")
      case (Inl e)
      then show ?thesis using assms(3) ok by (auto simp: alg_operation_def alg_new_def run_sys_call run_or_minus_one alg_fds_def)
    next
      case (Inr fd)
      then have fd: "\<not> fd < 0" using assms(1) unfolding gives_descriptors_def by fastforce
      let ?s = "s\<lparr>os_calls := ?t @ [AlgAccept alg]\<rparr>"
      obtain x u where u: "run_state (use fd) ?s = (x, u)" by fastforce
      have "alg_fds H u = add_mset fd (alg_fds H s)" using assms(2) [OF u] Inr by (simp add: alg_fds_def)
      moreover have "s' = u\<lparr>os_calls := os_calls u @ [AlgClose fd]\<rparr>"
        using assms(3) ok Inr fd u by (simp add: alg_operation_def alg_new_def run_sys_call run_or_minus_one)
      ultimately show ?thesis by (simp add: alg_fds_def)
    qed
  qed
qed

lemma use_fds:
  "run_state (alg_encrypt H fd inb n) s = (r, s') \<Longrightarrow> alg_fds H s' = alg_fds H s"
  "run_state (alg_hash H (\<lambda>fd. AlgSend fd msg) fd) s = (r, s') \<Longrightarrow> alg_fds H s' = alg_fds H s"
  "run_state (alg_hash H (\<lambda>fd. AlgWriteV fd iov) fd) s = (r, s') \<Longrightarrow> alg_fds H s' = alg_fds H s"
  by (auto simp: alg_encrypt_def alg_hash_def run_sys_call alg_fds_def split: sum.splits)

section \<open>The algorithms\<close>

text \<open>
  Documented: on the two sockets, a key set, an accepted descriptor, a message written and 16 bytes read give the algorithm
  of key and message, unless a call fails; on the file, at most as many bytes as asked for are read.
\<close>

definition af_alg :: "alg_host \<Rightarrow> bt_crypto \<Rightarrow> (u8 list \<Rightarrow> u8 list \<Rightarrow> u8 list) \<Rightarrow> (u8 list \<Rightarrow> u8 list \<Rightarrow> u8 list) \<Rightarrow> bool" where
  "af_alg H c E M \<longleftrightarrow>
     (\<forall>t key fd ctl m out. a_int H (t @ [AlgSetKey (c_ecb_aes c) key, AlgAccept (c_ecb_aes c)]) = Inr fd \<longrightarrow>
        a_bytes H (t @ [AlgSetKey (c_ecb_aes c) key, AlgAccept (c_ecb_aes c), AlgSendMsg fd ctl m, AlgRead fd 16]) = Inr out \<longrightarrow>
        cmsg_data ctl = ALG_OP_ENCRYPT \<longrightarrow> out = E key m) \<and>
     (\<forall>t key fd m out. a_int H (t @ [AlgSetKey (c_cmac_aes c) key, AlgAccept (c_cmac_aes c)]) = Inr fd \<longrightarrow>
        a_bytes H (t @ [AlgSetKey (c_cmac_aes c) key, AlgAccept (c_cmac_aes c), AlgSend fd m, AlgRead fd 16]) = Inr out \<longrightarrow> out = M key m) \<and>
     (\<forall>t n out. a_bytes H (t @ [AlgRead (c_urandom c) n]) = Inr out \<longrightarrow> length out \<le> n) \<and>
     (\<forall>key m. length (E key m) = 16 \<and> length (M key m) = 16)"

lemma operation_result:
  assumes H: "af_alg H c E M"
  shows "k_ecb (kernel_at H c s) key m \<in> {None, Some (E key m)}" "k_cmac (kernel_at H c s) key m \<in> {None, Some (M key m)}"
proof -
  let ?t = "\<lambda>alg. os_calls s @ [AlgSetKey alg key, AlgAccept alg]"
  have run: "fst (run_state (alg_operation H alg key use) s) \<in> {None, Some out}"
    if u: "\<And>fd. a_int H (?t alg) = Inr fd \<Longrightarrow> fst (run_state (use fd) (s\<lparr>os_calls := ?t alg\<rparr>)) \<in> {None, Some out}" for alg use out
  proof (cases "a_int H (?t alg)")
    case (Inl e)
    then show ?thesis by (simp add: alg_operation_def alg_new_def run_sys_call run_or_minus_one split: sum.split)
  next
    case (Inr fd)
    obtain x v where "run_state (use fd) (s\<lparr>os_calls := ?t alg\<rparr>) = (x, v)" by fastforce
    then show ?thesis using u [OF Inr] Inr
      by (simp add: alg_operation_def alg_new_def run_sys_call run_or_minus_one split: sum.split)
  qed
  let ?c = "\<lparr>cmsg_level = SOL_ALG, cmsg_type = ALG_SET_OP, cmsg_data = ALG_OP_ENCRYPT\<rparr>"
  have e: "fst (run_state (alg_encrypt H fd m 16) (s\<lparr>os_calls := ?t (c_ecb_aes c)\<rparr>)) \<in> {None, Some (E key m)}"
    if a: "a_int H (?t (c_ecb_aes c)) = Inr fd" for fd
  proof -
    have "out = E key m" if "a_bytes H (?t (c_ecb_aes c) @ [AlgSendMsg fd ?c m, AlgRead fd 16]) = Inr out" for out
      using H a that unfolding af_alg_def by fastforce
    then show ?thesis by (auto simp: alg_encrypt_def run_sys_call split: sum.split)
  qed
  have h: "fst (run_state (alg_hash H (\<lambda>fd. AlgSend fd m) fd) (s\<lparr>os_calls := ?t (c_cmac_aes c)\<rparr>)) \<in> {None, Some (M key m)}"
    if a: "a_int H (?t (c_cmac_aes c)) = Inr fd" for fd
  proof -
    have "out = M key m" if "a_bytes H (?t (c_cmac_aes c) @ [AlgSend fd m, AlgRead fd 16]) = Inr out" for out
      using H a that unfolding af_alg_def by fastforce
    then show ?thesis by (auto simp: alg_hash_def run_sys_call split: sum.split)
  qed
  show "k_ecb (kernel_at H c s) key m \<in> {None, Some (E key m)}" unfolding kernel_at_def alg_kernel.simps ecb_operation_def
    by (rule run) (rule e)
  show "k_cmac (kernel_at H c s) key m \<in> {None, Some (M key m)}" unfolding kernel_at_def alg_kernel.simps cmac_operation_def
    by (rule run) (rule h)
qed

lemma kernel_documented:
  assumes "af_alg H c E M"
  shows "kernel_ok (kernel_at H c s)"
proof -
  have r: "k_urandom (kernel_at H c s) n = Some bs \<Longrightarrow> length bs \<le> n" for n bs
    using assms by (auto simp: kernel_at_def read_urandom_def run_sys_call af_alg_def split: sum.splits)
  have l: "length (E k m) = 16" "length (M k m) = 16" for k m using assms by (simp_all add: af_alg_def)
  show ?thesis unfolding kernel_ok_def
  proof (intro conjI allI impI)
    fix k m out assume "k_ecb (kernel_at H c s) k m = Some out"
    then show "length out = 16" using operation_result(1) [OF assms, of s k m] l by auto
  next
    fix k m out assume "k_cmac (kernel_at H c s) k m = Some out"
    then show "length out = 16" using operation_result(2) [OF assms, of s k m] l by auto
  qed (rule r)
qed

text \<open>A kernel on which every call succeeds, with a sum for both algorithms.\<close>

definition toy_algorithm :: "u8 list \<Rightarrow> u8 list \<Rightarrow> u8 list" where
  "toy_algorithm key m = replicate 16 (sum_list key + sum_list m)"

definition toy_read :: "alg_call list \<Rightarrow> u8 list" where
  "toy_read past = (case past of
     AlgSendMsg _ _ m # _ # AlgSetKey _ key # _ \<Rightarrow> toy_algorithm key m
   | AlgSend _ m # _ # AlgSetKey _ key # _ \<Rightarrow> toy_algorithm key m
   | _ \<Rightarrow> [])"

definition toy_host :: alg_host where
  "toy_host = \<lparr>a_int = (\<lambda>t. Inr (int (length t))), a_status = (\<lambda>t. Inr ()),
     a_bytes = (\<lambda>t. case rev t of AlgRead _ n # past \<Rightarrow> Inr (take n (toy_read past)) | _ \<Rightarrow> Inr [])\<rparr>"

definition toy_crypto :: bt_crypto where
  "toy_crypto = \<lparr>c_ref_count = 1, c_ecb_aes = 1, c_urandom = 3, c_cmac_aes = 4\<rparr>"

definition no_alg_calls :: alg_os where
  "no_alg_calls = \<lparr>os_calls = [], os_errno = 0\<rparr>"

lemma toy_documented: "af_alg toy_host c toy_algorithm toy_algorithm" "gives_descriptors toy_host"
  by (simp_all add: af_alg_def toy_host_def toy_algorithm_def toy_read_def gives_descriptors_def)

section \<open>Properties\<close>

text \<open>Descriptors of \<^verbatim>\<open>crypto.c\<close>, on every kernel: \<open>bt_crypto_new\<close> leaves exactly the three descriptors of its structure
  open, and none when it returns NULL; an operation leaves none open, whichever call fails; and \<open>bt_crypto_unref\<close> of the last
  reference closes the three.\<close>

theorem crypto_descriptors:
  assumes H: "gives_descriptors H"
  shows "(case run_state (bt_crypto_new H) s of
      (None, s') \<Rightarrow> alg_fds H s' = alg_fds H s
    | (Some c, s') \<Rightarrow> c_ref_count c = 1 \<and> alg_fds H s' = alg_fds H s + {#c_ecb_aes c, c_urandom c, c_cmac_aes c#} \<and>
        (let (r, u) = run_state (bt_crypto_unref (Some c)) s' in r = None \<and> alg_fds H u = alg_fds H s)) \<and>
    alg_fds H (snd (run_state (ecb_operation H c key m) s)) = alg_fds H s \<and>
    alg_fds H (snd (run_state (cmac_operation H c key m) s)) = alg_fds H s \<and>
    alg_fds H (snd (run_state (gatt_hash_operation H c key iov) s)) = alg_fds H s"
proof -
  have new: "case run_state (bt_crypto_new H) s of
      (None, s') \<Rightarrow> alg_fds H s' = alg_fds H s
    | (Some c, s') \<Rightarrow> c_ref_count c = 1 \<and> alg_fds H s' = alg_fds H s + {#c_ecb_aes c, c_urandom c, c_cmac_aes c#}"
  proof -
    obtain ecb s1 urandom s2 cmac s3 where r: "run_state (ecb_aes_setup H) s = (ecb, s1)" "run_state (urandom_setup H) s1 = (urandom, s2)"
      "run_state (cmac_aes_setup H) s2 = (cmac, s3)" by fastforce
    note f = setup_fds(1) [OF H r(1) [unfolded ecb_aes_setup_def]] setup_fds(2) [OF H r(2)] setup_fds(1) [OF H r(3) [unfolded cmac_aes_setup_def]]
    show ?thesis using f by (simp add: bt_crypto_new_def r bt_crypto_ref_def alg_fds_def)
  qed
  have unref: "let (r, u) = run_state (bt_crypto_unref (Some c)) s' in r = None \<and> alg_fds H u = F"
    if "c_ref_count c = 1" "alg_fds H s' = F + {#c_ecb_aes c, c_urandom c, c_cmac_aes c#}" for c s' F
    using that by (simp add: bt_crypto_unref_def Let_def alg_fds_def)
  have op: "alg_fds H (snd (run_state (alg_operation H alg key use) s)) = alg_fds H s"
    if "\<And>fd s r s'. run_state (use fd) s = (r, s') \<Longrightarrow> alg_fds H s' = alg_fds H s" for alg use
  proof -
    obtain r s' where "run_state (alg_operation H alg key use) s = (r, s')" by fastforce
    then show ?thesis using operation_fds [OF H that] by simp
  qed
  obtain x s' where x: "run_state (bt_crypto_new H) s = (x, s')" by fastforce
  show ?thesis unfolding ecb_operation_def cmac_operation_def gatt_hash_operation_def
  proof (intro conjI op)
    show "case run_state (bt_crypto_new H) s of
        (None, s') \<Rightarrow> alg_fds H s' = alg_fds H s
      | (Some c, s') \<Rightarrow> c_ref_count c = 1 \<and> alg_fds H s' = alg_fds H s + {#c_ecb_aes c, c_urandom c, c_cmac_aes c#} \<and>
          (let (r, u) = run_state (bt_crypto_unref (Some c)) s' in r = None \<and> alg_fds H u = alg_fds H s)"
      using new unref [of _ s' "alg_fds H s"] unfolding x by (cases x) simp_all
  qed (rule use_fds, assumption)+
qed

theorem crypto_descriptors_witness:
  "alg_fds toy_host (snd (run_state (ecb_operation toy_host toy_crypto (replicate 16 1) (replicate 16 2)) no_alg_calls)) = {#}"
proof -
  have "alg_fds toy_host no_alg_calls = {#}" by (simp add: alg_fds_def no_alg_calls_def)
  then show ?thesis using crypto_descriptors [OF toy_documented(2), of no_alg_calls toy_crypto "replicate 16 1" "replicate 16 2" "[]", THEN conjunct2, THEN conjunct1] by (simp only:)
qed

text \<open>Signatures over the sockets: with a kernel that behaves as documented, a signature that \<open>bt_crypto_sign_att\<close> made when
  the calls so far were those of \<open>s\<close> is accepted by \<open>bt_crypto_verify_att_sign\<close> at any other time \<open>s'\<close>, unless a call then fails.\<close>

theorem signed_then_verified:
  assumes H: "af_alg H c E M" and key: "length key = 16" and m: "length m + 12 < 65536"
    and sign: "bt_crypto_sign_att (Some (kernel_at H c s)) key m (of_nat (length m)) cnt = Some (Some signature)"
    and calls: "k_cmac (kernel_at H c s') (rev key) (rev (m @ le_of_word 4 cnt)) \<noteq> None"
  shows "length signature = ATT_SIGN_LEN \<and>
    bt_crypto_verify_att_sign (Some (kernel_at H c s')) key (m @ signature) (of_nat (length m + ATT_SIGN_LEN)) = Some True"
proof -
  have K: "kernel_ok (kernel_at H c t)" for t by (rule kernel_documented [OF H])
  have l: "length m < 65532" using m by simp
  have "sign_with (kernel_at H c s) key m cnt = Some signature" using sign by (simp add: sign_with_def)
  then have g: "signature = att_signature cnt (M (rev key) (rev (m @ le_of_word 4 cnt)))"
    using operation_result(2) [OF H, of s "rev key" "rev (m @ le_of_word 4 cnt)"]
    by (auto simp: sign_with_eq [OF K key l] att_mac_def)
  have M: "length (M a b) = 16" for a b using H by (simp add: af_alg_def)
  have s12: "length signature = 12" unfolding g by (rule length_att_signature) (simp add: M)
  have c: "word_of_le (take 4 signature) = cnt" by (simp add: g att_signature_def word_of_le_of_word)
  have "k_cmac (kernel_at H c s') (rev key) (rev (m @ le_of_word 4 cnt)) = Some (M (rev key) (rev (m @ le_of_word 4 cnt)))"
    using calls operation_result(2) [OF H, of s' "rev key" "rev (m @ le_of_word 4 cnt)"] by auto
  then have "sign_with (kernel_at H c s') key m cnt = Some signature"
    by (simp add: sign_with_eq [OF K key l] att_mac_def g)
  then show ?thesis using verify_with_eq [OF K key s12 m] s12 by (simp add: c verify_with_def ATT_SIGN_LEN_def)
qed

theorem signed_then_verified_witness:
  "\<exists>signature. bt_crypto_sign_att (Some (kernel_at toy_host toy_crypto no_alg_calls)) (replicate 16 1) [1, 2, 3] 3 7 = Some (Some signature) \<and>
    bt_crypto_verify_att_sign (Some (kernel_at toy_host toy_crypto (no_alg_calls\<lparr>os_calls := [AlgOpen ''/dev/urandom'']\<rparr>)))
      (replicate 16 1) ([1, 2, 3] @ signature) 15 = Some True"
proof -
  let ?s = "[7, 0, 0, 0, 29, 29, 29, 29, 29, 29, 29, 29] :: u8 list"
  have s: "bt_crypto_sign_att (Some (kernel_at toy_host toy_crypto no_alg_calls)) (replicate 16 1) [1, 2, 3] (of_nat (length [1, 2, 3 :: u8])) 7 = Some (Some ?s)"
    by code_simp
  have c: "k_cmac (kernel_at toy_host toy_crypto (no_alg_calls\<lparr>os_calls := [AlgOpen ''/dev/urandom'']\<rparr>)) (rev (replicate 16 1))
      (rev ([1, 2, 3] @ le_of_word 4 (7 :: u32))) \<noteq> None"
    by code_simp
  have "length (replicate 16 (1 :: u8)) = 16" "length [1, 2, 3 :: u8] + 12 < 65536" by simp_all
  from signed_then_verified [OF toy_documented(1) this s c] s show ?thesis by (simp add: ATT_SIGN_LEN_def)
qed

end
