(* ===== verification/Logging.thy ===== *)
theory Logging
  imports Bytes Sys
begin

text \<open>
  The two log modules, \<^verbatim>\<open>bluez/src/shared/log.c\<close> (records for the monitor, over a raw socket) and \<^verbatim>\<open>bluez/src/log.c\<close>
  (messages for the system log and the monitor, and the switches of debug messages), over the trace of their calls. A format with its
  arguments stands for the text that it gives; \<open>vasprintf\<close> may fail. The functions of GLib on patterns are parameters, and so is
  the byte order of the host.
\<close>

section \<open>Data\<close>

definition EMSGSIZE :: int where "EMSGSIZE = 90"

datatype log_call =
    LogSocket
  | LogBind int
  | LogSendMsg int "u8 list list"
  | LogClose int
  | Vasprintf "u8 list"
  | Vsyslog int "u8 list"
  | Openlog string u32
  | Closelog

text \<open>Patterns in an array of GLib: not set, valid, or given back.\<close>

datatype patterns = NullPatterns | Patterns "string list" | FreedPatterns

record btd_debug_desc =
  dd_file :: "string option"
  dd_flags :: u32

record log_os = "log_call os" +
  log_fd :: int
  log_err :: int
  enabled :: patterns
  debug_descs :: "btd_debug_desc list"

type_synonym 'a logrun = "(log_os, 'a) state"

record log_host =
  l_endian :: endian
  l_socket :: "log_call list \<Rightarrow> int + int"
  l_status :: "log_call list \<Rightarrow> int + unit"
  l_sent :: "log_call list \<Rightarrow> int + nat"
  pattern_match :: "string \<Rightarrow> string \<Rightarrow> bool"
  strsplit_set :: "string \<Rightarrow> string list"
  hci_dev_none :: u16
  log_version :: "u8 list"

definition set_log_fd :: "int \<Rightarrow> unit logrun" where
  "set_log_fd fd = State (\<lambda>s. ((), s\<lparr>log_fd := fd\<rparr>))"

definition set_log_err :: "int \<Rightarrow> unit logrun" where
  "set_log_err e = State (\<lambda>s. ((), s\<lparr>log_err := e\<rparr>))"

section \<open>The socket\<close>

text \<open>The first error is kept, and no socket is opened after it.\<close>

definition bt_log_open :: "log_host \<Rightarrow> int logrun" where
  "bt_log_open H = do {
     err \<leftarrow> State (\<lambda>s. (log_err s, s));
     fd \<leftarrow> State (\<lambda>s. (log_fd s, s));
     if err < 0 then ret err
     else if 0 \<le> fd then ret fd
     else do {
       r \<leftarrow> sys (l_socket H) LogSocket;
       case r of
         None \<Rightarrow> do { e \<leftarrow> neg_errno; set_log_err e; ret e }
       | Some fd \<Rightarrow> do {
           err \<leftarrow> sys_status (l_status H) (LogBind fd);
           set_log_err err;
           if err < 0 then do { tell (LogClose fd); ret err }
           else do { set_log_fd fd; ret fd } } } }"

definition bt_log_close :: "unit logrun" where
  "bt_log_close = do {
     fd \<leftarrow> State (\<lambda>s. (log_fd s, s));
     if fd < 0 then ret () else do { tell (LogClose fd); set_log_fd (- 1) } }"

section \<open>Records\<close>

text \<open>The header in memory: the 16-bit fields in the order of the host, the length increased after it has been converted.\<close>

record log_hdr =
  lh_opcode :: u16
  lh_index :: u16
  lh_len :: u16
  lh_priority :: u8
  lh_ident_len :: u8

definition log_header :: "endian \<Rightarrow> u16 \<Rightarrow> u8 list \<Rightarrow> int \<Rightarrow> u8 list list \<Rightarrow> log_hdr" where
  "log_header E index label level io = (let ident_len = of_nat (length label) + 1 in
     \<lparr>lh_opcode = cpu_to_le E 2 0, lh_index = cpu_to_le E 2 index,
      lh_len = foldl (\<lambda>len v. len + of_nat (length v)) (cpu_to_le E 2 (2 + ucast ident_len)) io,
      lh_priority = of_int level, lh_ident_len = ident_len\<rparr>)"

definition host_u16 :: "endian \<Rightarrow> u16 \<Rightarrow> u8 list" where
  "host_u16 E w = (case E of LITTLE_ENDIAN \<Rightarrow> le_of_word 2 w | BIG_ENDIAN \<Rightarrow> rev (le_of_word 2 w))"

definition log_hdr_bytes :: "endian \<Rightarrow> log_hdr \<Rightarrow> u8 list" where
  "log_hdr_bytes E h = host_u16 E (lh_opcode h) @ host_u16 E (lh_index h) @ host_u16 E (lh_len h) @ [lh_priority h, lh_ident_len h]"

text \<open>The vectors of a record; the label is a string with its end, cut to the length in the header.\<close>

definition log_vectors :: "endian \<Rightarrow> u16 \<Rightarrow> u8 list \<Rightarrow> int \<Rightarrow> u8 list list \<Rightarrow> u8 list list" where
  "log_vectors E index label level io = (let h = log_header E index label level io in
     [log_hdr_bytes E h, take (unat (lh_ident_len h)) (label @ [0])] @ io)"

definition bt_log_sendmsg :: "log_host \<Rightarrow> u16 \<Rightarrow> u8 list \<Rightarrow> int \<Rightarrow> u8 list list \<Rightarrow> int logrun" where
  "bt_log_sendmsg H index label level io =
     (if 3 < length io then ret (- EMSGSIZE)
      else do {
        fd \<leftarrow> bt_log_open H;
        set_log_fd fd;
        if fd < 0 then ret fd
        else do {
          r \<leftarrow> sys (l_sent H) (LogSendMsg fd (log_vectors (l_endian H) index label level io));
          case r of
            Some n \<Rightarrow> ret (int n)
          | None \<Rightarrow> do { err \<leftarrow> neg_errno; tell (LogClose fd); set_log_fd (- 1); ret err } } })"

text \<open>One trailing new line is removed. An error of \<open>vasprintf\<close> is returned as the positive \<open>errno\<close>.\<close>

definition log_line :: "u8 list \<Rightarrow> u8 list" where
  "log_line str = (if 1 < length str \<and> last str = 0x0a then butlast str else str)"

definition bt_log_vprintf :: "log_host \<Rightarrow> u16 \<Rightarrow> u8 list \<Rightarrow> int \<Rightarrow> u8 list \<Rightarrow> int logrun" where
  "bt_log_vprintf H index label level str = do {
     r \<leftarrow> sys (l_status H) (Vasprintf str);
     case r of
       None \<Rightarrow> get_errno
     | Some _ \<Rightarrow> bt_log_sendmsg H index label level [log_line str @ [0]] }"

definition bt_log_printf :: "log_host \<Rightarrow> u16 \<Rightarrow> u8 list \<Rightarrow> int \<Rightarrow> u8 list \<Rightarrow> int logrun" where
  "bt_log_printf H index label level str = bt_log_vprintf H index label level str"

section \<open>Messages\<close>

definition LOG_ERR :: int where "LOG_ERR = 3"
definition LOG_WARNING :: int where "LOG_WARNING = 4"
definition LOG_INFO :: int where "LOG_INFO = 6"
definition LOG_DEBUG :: int where "LOG_DEBUG = 7"

definition LOG_IDENT :: string where "LOG_IDENT = ''bluetoothd''"

definition monitor_log :: "log_host \<Rightarrow> u16 \<Rightarrow> int \<Rightarrow> u8 list \<Rightarrow> unit logrun" where
  "monitor_log H index priority str = do { _ \<leftarrow> bt_log_vprintf H index (map of_char LOG_IDENT) priority str; ret () }"

definition btd_log :: "log_host \<Rightarrow> u16 \<Rightarrow> int \<Rightarrow> u8 list \<Rightarrow> unit logrun" where
  "btd_log H index priority str = do { tell (Vsyslog priority str); monitor_log H index priority str }"

definition log_info :: "log_host \<Rightarrow> u8 list \<Rightarrow> unit logrun" where
  "log_info H str = do { tell (Vsyslog LOG_INFO str); monitor_log H (hci_dev_none H) LOG_INFO str }"

definition btd_error :: "log_host \<Rightarrow> u16 \<Rightarrow> u8 list \<Rightarrow> unit logrun" where
  "btd_error H index str = do { tell (Vsyslog LOG_ERR str); monitor_log H index LOG_ERR str }"

definition btd_warn :: "log_host \<Rightarrow> u16 \<Rightarrow> u8 list \<Rightarrow> unit logrun" where
  "btd_warn H index str = do { tell (Vsyslog LOG_WARNING str); monitor_log H index LOG_WARNING str }"

definition btd_info :: "log_host \<Rightarrow> u16 \<Rightarrow> u8 list \<Rightarrow> unit logrun" where
  "btd_info H index str = do { tell (Vsyslog LOG_INFO str); monitor_log H index LOG_INFO str }"

definition btd_debug :: "log_host \<Rightarrow> u16 \<Rightarrow> u8 list \<Rightarrow> unit logrun" where
  "btd_debug H index str = do { tell (Vsyslog LOG_DEBUG str); monitor_log H index LOG_DEBUG str }"

section \<open>Debug messages\<close>

definition BTD_DEBUG_FLAG_PRINT :: u32 where "BTD_DEBUG_FLAG_PRINT = 1"

text \<open>\<open>None\<close> is an access to memory that was given back.\<close>

definition is_enabled :: "log_host \<Rightarrow> patterns \<Rightarrow> btd_debug_desc \<Rightarrow> bool option" where
  "is_enabled H ps desc = (case ps of
     NullPatterns \<Rightarrow> Some False
   | FreedPatterns \<Rightarrow> None
   | Patterns l \<Rightarrow> Some (list_ex (\<lambda>p. case dd_file desc of None \<Rightarrow> False | Some file \<Rightarrow> pattern_match H p file) l))"

definition print_flag :: "btd_debug_desc \<Rightarrow> btd_debug_desc" where
  "print_flag desc = desc\<lparr>dd_flags := dd_flags desc OR BTD_DEBUG_FLAG_PRINT\<rparr>"

fun btd_enable_debug :: "log_host \<Rightarrow> patterns \<Rightarrow> btd_debug_desc list \<Rightarrow> btd_debug_desc list option" where
  "btd_enable_debug H ps [] = Some []"
| "btd_enable_debug H ps (desc # l) = do {
     e \<leftarrow> is_enabled H ps desc;
     l \<leftarrow> btd_enable_debug H ps l;
     Some ((if e then print_flag desc else desc) # l) }"

definition btd_toggle_debug :: "unit logrun" where
  "btd_toggle_debug = State (\<lambda>s. ((), s\<lparr>debug_descs := map print_flag (debug_descs s)\<rparr>))"

text \<open>The macro DBG: a message of a place in the code.\<close>

definition DBG_IDX :: "log_host \<Rightarrow> nat \<Rightarrow> u16 \<Rightarrow> u8 list \<Rightarrow> unit logrun" where
  "DBG_IDX H i index str = do {
     descs \<leftarrow> State (\<lambda>s. (debug_descs s, s));
     if i < length descs \<and> dd_flags (descs ! i) AND BTD_DEBUG_FLAG_PRINT \<noteq> 0 then btd_debug H index str else ret () }"

section \<open>Start and end\<close>

definition LOG_PID :: u32 where "LOG_PID = 0x01"
definition LOG_NDELAY :: u32 where "LOG_NDELAY = 0x08"
definition LOG_PERROR :: u32 where "LOG_PERROR = 0x20"

text \<open>The result is \<open>None\<close> when memory that was given back is used.\<close>

definition btd_log_init :: "log_host \<Rightarrow> string option \<Rightarrow> bool \<Rightarrow> unit option logrun" where
  "btd_log_init H debug detach = do {
     (case debug of None \<Rightarrow> ret () | Some d \<Rightarrow> State (\<lambda>s. ((), s\<lparr>enabled := Patterns (strsplit_set H d)\<rparr>)));
     descs \<leftarrow> State (\<lambda>s. (btd_enable_debug H (enabled s) (debug_descs s), s));
     case descs of
       None \<Rightarrow> ret None
     | Some l \<Rightarrow> do {
         State (\<lambda>s. ((), s\<lparr>debug_descs := l\<rparr>));
         _ \<leftarrow> bt_log_open H;
         tell (Openlog LOG_IDENT (if detach then LOG_NDELAY OR LOG_PID else LOG_NDELAY OR LOG_PID OR LOG_PERROR));
         log_info H (map of_char ''Bluetooth daemon '' @ log_version H);
         ret (Some ()) } }"

text \<open>The pointer to the patterns is not cleared.\<close>

definition btd_log_cleanup :: "unit option logrun" where
  "btd_log_cleanup = do {
     tell Closelog;
     bt_log_close;
     ps \<leftarrow> State (\<lambda>s. (enabled s, s));
     case ps of
       NullPatterns \<Rightarrow> ret (Some ())
     | Patterns _ \<Rightarrow> State (\<lambda>s. (Some (), s\<lparr>enabled := FreedPatterns\<rparr>))
     | FreedPatterns \<Rightarrow> ret None }"

end
