(* ===== verification/LoggingSpec.thy ===== *)
theory LoggingSpec
  imports Logging "HOL-Library.Multiset"
begin

text \<open>
  The log modules: the only descriptor that is ever open is that of \<open>log_fd\<close>; the format of the records; and what
  the switches of debug messages do after a clean-up.
\<close>

section \<open>The descriptor\<close>

fun log_opened :: "log_host \<Rightarrow> log_call list \<Rightarrow> int multiset" where
  "log_opened H [] = {#}"
| "log_opened H (c # past) = (case c of
     LogClose fd \<Rightarrow> log_opened H past - {#fd#}
   | LogSocket \<Rightarrow> (case l_socket H (rev (c # past)) of Inl _ \<Rightarrow> log_opened H past | Inr fd \<Rightarrow> add_mset fd (log_opened H past))
   | _ \<Rightarrow> log_opened H past)"

definition log_fds :: "log_host \<Rightarrow> log_os \<Rightarrow> int multiset" where
  "log_fds H s = log_opened H (rev (os_calls s))"

text \<open>Documented: \<open>errno\<close> is positive after a failure, and a descriptor is not negative.\<close>

definition log_host_ok :: "log_host \<Rightarrow> bool" where
  "log_host_ok H \<longleftrightarrow> (\<forall>t fd. l_socket H t = Inr fd \<longrightarrow> 0 \<le> fd) \<and>
     (\<forall>t e. l_socket H t = Inl e \<or> l_status H t = Inl e \<or> l_sent H t = Inl e \<longrightarrow> 0 < e)"

text \<open>The invariant: the descriptor in \<open>log_fd\<close>, and no other, is open; and none is after the error that is kept.\<close>

definition log_inv :: "log_host \<Rightarrow> log_os \<Rightarrow> bool" where
  "log_inv H s \<longleftrightarrow> log_fds H s = (if 0 \<le> log_fd s then {#log_fd s#} else {#}) \<and> (log_err s < 0 \<longrightarrow> log_fd s < 0)"

definition keeps_inv :: "log_host \<Rightarrow> 'a logrun \<Rightarrow> bool" where
  "keeps_inv H m \<longleftrightarrow> (\<forall>s. log_inv H s \<longrightarrow> log_inv H (snd (run_state m s)))"

named_theorems keeps_intros \<open>runs that keep the invariant of the log\<close>

lemma keeps_ret [keeps_intros]: "keeps_inv H (ret x)"
  by (simp add: keeps_inv_def)

lemma keeps_bind [keeps_intros]: "keeps_inv H m \<Longrightarrow> (\<And>x. keeps_inv H (f x)) \<Longrightarrow> keeps_inv H (m \<bind> f)"
  unfolding keeps_inv_def by (auto simp: split_beta)

lemma keeps_if [keeps_intros]: "(b \<Longrightarrow> keeps_inv H m) \<Longrightarrow> (\<not> b \<Longrightarrow> keeps_inv H n) \<Longrightarrow> keeps_inv H (if b then m else n)"
  by simp

lemma keeps_option [keeps_intros]: "keeps_inv H m \<Longrightarrow> (\<And>y. keeps_inv H (f y)) \<Longrightarrow> keeps_inv H (case x of None \<Rightarrow> m | Some y \<Rightarrow> f y)"
  by (cases x) simp_all

lemma keeps_frame [keeps_intros]:
  "(\<And>s. os_calls (g s) = os_calls s \<and> log_fd (g s) = log_fd s \<and> log_err (g s) = log_err s) \<Longrightarrow> keeps_inv H (State (\<lambda>s. (f s, g s)))"
  by (simp add: keeps_inv_def log_inv_def log_fds_def)

lemma keeps_call [keeps_intros]:
  assumes "\<And>past. log_opened H (c # past) = log_opened H past"
  shows "keeps_inv H (sys answer c)" "keeps_inv H (tell c)"
  using assms by (auto simp: keeps_inv_def log_inv_def log_fds_def run_sys_call split: sum.split)

lemma keeps_errno [keeps_intros]: "keeps_inv H get_errno" "keeps_inv H neg_errno"
  by (simp_all add: keeps_inv_def)

text \<open>Opening gives the descriptor in \<open>log_fd\<close>, or a negative number and none is open.\<close>

lemma log_open:
  assumes H: "log_host_ok H" and s: "log_inv H s" and r: "run_state (bt_log_open H) s = (fd, s')"
  shows "log_inv H s' \<and> log_inv H (s'\<lparr>log_fd := fd\<rparr>)"
proof -
  have pos: "0 \<le> fd" if "l_socket H t = Inr fd" for t fd using H that unfolding log_host_ok_def by blast
  have err: "0 < e" if "l_socket H t = Inl e \<or> l_status H t = Inl e" for t e using H that unfolding log_host_ok_def by blast
  consider "log_err s < 0 \<or> 0 \<le> log_fd s" | "\<not> log_err s < 0" "log_fd s < 0" by linarith
  then show ?thesis
  proof cases
    case 1
    then show ?thesis using s r by (auto simp: bt_log_open_def log_inv_def log_fds_def split: if_splits)
  next
    case 2
    let ?t = "os_calls s @ [LogSocket]"
    show ?thesis
    proof (cases "l_socket H ?t")
      case (Inl e)
      then show ?thesis using s r 2 err [of ?t e] by (auto simp: bt_log_open_def log_inv_def log_fds_def run_sys_call set_log_err_def)
    next
      case sock: (Inr sock)
      show ?thesis
      proof (cases "l_status H (?t @ [LogBind sock])")
        case (Inl e)
        then show ?thesis using s r 2 sock err [of "?t @ [LogBind sock]" e]
          by (auto simp: bt_log_open_def log_inv_def log_fds_def run_sys_call run_status set_log_err_def)
      next
        case (Inr u)
        then show ?thesis using s r 2 sock pos [OF sock]
          by (auto simp: bt_log_open_def log_inv_def log_fds_def run_sys_call run_status set_log_err_def set_log_fd_def)
      qed
    qed
  qed
qed

lemma keeps_socket [keeps_intros]:
  assumes H: "log_host_ok H"
  shows "keeps_inv H (bt_log_open H)" "keeps_inv H bt_log_close" "keeps_inv H (bt_log_sendmsg H index label level io)"
proof -
  show "keeps_inv H (bt_log_open H)" using log_open [OF H] unfolding keeps_inv_def by (metis prod.collapse)
  show "keeps_inv H bt_log_close"
    by (auto simp: keeps_inv_def bt_log_close_def set_log_fd_def log_inv_def log_fds_def)
  show "keeps_inv H (bt_log_sendmsg H index label level io)" unfolding keeps_inv_def
  proof (intro allI impI)
    fix s assume s: "log_inv H s"
    obtain fd s' where o: "run_state (bt_log_open H) s = (fd, s')" by fastforce
    have inv: "log_inv H (s'\<lparr>log_fd := fd\<rparr>)" using log_open [OF H s o] by simp
    show "log_inv H (snd (run_state (bt_log_sendmsg H index label level io) s))"
      using s inv by (auto simp: bt_log_sendmsg_def o set_log_fd_def run_sys_call log_inv_def log_fds_def split: sum.split)
  qed
qed

lemma keeps_print [keeps_intros]: "log_host_ok H \<Longrightarrow> keeps_inv H (bt_log_vprintf H index label level str)"
  unfolding bt_log_vprintf_def by (intro keeps_intros) simp_all

lemma keeps_messages [keeps_intros]:
  assumes "log_host_ok H"
  shows "keeps_inv H (btd_log H index priority str)" "keeps_inv H (log_info H str)" "keeps_inv H (btd_error H index str)"
    "keeps_inv H (btd_warn H index str)" "keeps_inv H (btd_info H index str)" "keeps_inv H (btd_debug H index str)"
  unfolding btd_log_def log_info_def btd_error_def btd_warn_def btd_info_def btd_debug_def monitor_log_def
  by (intro keeps_intros assms; simp)+

lemma keeps_control [keeps_intros]:
  assumes "log_host_ok H"
  shows "keeps_inv H (btd_log_init H debug detach)" "keeps_inv H btd_log_cleanup" "keeps_inv H btd_toggle_debug"
    "keeps_inv H (DBG_IDX H i index str)"
proof -
  show "keeps_inv H (btd_log_init H debug detach)" unfolding btd_log_init_def by (intro keeps_intros assms; simp)
  have p: "keeps_inv H (case ps of NullPatterns \<Rightarrow> ret (Some ()) | Patterns _ \<Rightarrow> State (\<lambda>s. (Some (), s\<lparr>enabled := FreedPatterns\<rparr>))
     | FreedPatterns \<Rightarrow> ret None)" for ps
    by (cases ps) (simp_all, (intro keeps_intros; simp)+)
  show "keeps_inv H btd_log_cleanup" unfolding btd_log_cleanup_def by (intro keeps_intros p assms; simp)
  show "keeps_inv H btd_toggle_debug" unfolding btd_toggle_debug_def by (intro keeps_intros; simp)
  show "keeps_inv H (DBG_IDX H i index str)" unfolding DBG_IDX_def by (intro keeps_intros assms; simp)
qed

section \<open>Programs that log\<close>

datatype log_op =
    LogInit "string option" bool
  | LogCleanup
  | LogOpen
  | LogEnd
  | LogRecord u16 "u8 list" int "u8 list list"
  | LogMessage u16 int "u8 list"
  | LogDebug nat u16 "u8 list"
  | LogToggle

fun run_log_op :: "log_host \<Rightarrow> log_op \<Rightarrow> log_os \<Rightarrow> log_os" where
  "run_log_op H (LogInit debug detach) s = snd (run_state (btd_log_init H debug detach) s)"
| "run_log_op H LogCleanup s = snd (run_state btd_log_cleanup s)"
| "run_log_op H LogOpen s = snd (run_state (bt_log_open H) s)"
| "run_log_op H LogEnd s = snd (run_state bt_log_close s)"
| "run_log_op H (LogRecord index label level io) s = snd (run_state (bt_log_sendmsg H index label level io) s)"
| "run_log_op H (LogMessage index priority str) s = snd (run_state (btd_log H index priority str) s)"
| "run_log_op H (LogDebug i index str) s = snd (run_state (DBG_IDX H i index str) s)"
| "run_log_op H LogToggle s = snd (run_state btd_toggle_debug s)"

definition log_initial :: "btd_debug_desc list \<Rightarrow> log_os" where
  "log_initial descs = \<lparr>os_calls = [], os_errno = 0, log_fd = - 1, log_err = 0, enabled = NullPatterns, debug_descs = descs\<rparr>"

lemma log_op_inv: "log_host_ok H \<Longrightarrow> log_inv H s \<Longrightarrow> log_inv H (run_log_op H x s)"
  using keeps_socket [of H] keeps_messages(1) [of H] keeps_control [of H] by (cases x) (auto simp: keeps_inv_def)

lemma log_ops_inv:
  assumes "log_host_ok H" "log_inv H s"
  shows "log_inv H (fold (run_log_op H) xs s)"
  using assms(2) by (induction xs arbitrary: s) (simp_all add: log_op_inv [OF assms(1)])

text \<open>A host on which the socket opens, and every record but the first is lost.\<close>

definition toy_log_host :: log_host where
  "toy_log_host = \<lparr>l_endian = LITTLE_ENDIAN, l_socket = (\<lambda>t. Inr 5), l_status = (\<lambda>t. Inr ()),
     l_sent = (\<lambda>t. if length t < 6 then Inr 20 else Inl 32), pattern_match = (=), strsplit_set = (\<lambda>s. [s]),
     hci_dev_none = 0xffff, log_version = []\<rparr>"

section \<open>Records\<close>

text \<open>A reader of records: index, length, priority, label and text of a record that has exactly the length it says.\<close>

definition parse_log_record :: "u8 list \<Rightarrow> (u16 \<times> u8 \<times> u8 list \<times> u8 list) option" where
  "parse_log_record bs = do {
     index \<leftarrow> get_le16 bs 2;
     len \<leftarrow> get_le16 bs 4;
     priority \<leftarrow> rd8 bs 6;
     ident_len \<leftarrow> rd8 bs 7;
     label \<leftarrow> rd_bytes bs 8 (unat ident_len);
     let text = drop (8 + unat ident_len) bs;
     if unat len + 6 = length bs \<and> label \<noteq> [] \<and> last label = 0 \<and> text \<noteq> [] \<and> last text = 0
     then Some (index, priority, butlast label, butlast text) else None }"

section \<open>Debug switches\<close>

text \<open>Messages do not change the switches.\<close>

definition same_switches :: "log_os \<Rightarrow> log_os \<Rightarrow> bool" where
  "same_switches s t \<longleftrightarrow> enabled t = enabled s \<and> debug_descs t = debug_descs s"

lemma open_switches: "run_state (bt_log_open H) s = (fd, t) \<Longrightarrow> same_switches s t"
  by (auto simp: bt_log_open_def same_switches_def run_sys_call run_status set_log_err_def set_log_fd_def
      split: if_splits sum.splits)

lemma print_switches: "run_state (bt_log_vprintf H index label level str) s = (r, t) \<Longrightarrow> same_switches s t"
proof (cases "l_status H (os_calls s @ [Vasprintf str])")
  case (Inr u)
  let ?s = "s\<lparr>os_calls := os_calls s @ [Vasprintf str]\<rparr>"
  obtain fd v where o: "run_state (bt_log_open H) ?s = (fd, v)" by fastforce
  assume "run_state (bt_log_vprintf H index label level str) s = (r, t)"
  then show ?thesis using Inr o open_switches [OF o]
    by (auto simp: bt_log_vprintf_def bt_log_sendmsg_def run_sys_call set_log_fd_def same_switches_def split: if_splits sum.splits)
qed (auto simp: bt_log_vprintf_def same_switches_def run_sys_call)

lemma init_switches:
  assumes "btd_enable_debug H (case debug of None \<Rightarrow> enabled s | Some d \<Rightarrow> Patterns (strsplit_set H d)) (debug_descs s) = Some l"
  shows "fst (run_state (btd_log_init H debug detach) s) = Some () \<and>
    enabled (snd (run_state (btd_log_init H debug detach) s)) = (case debug of None \<Rightarrow> enabled s | Some d \<Rightarrow> Patterns (strsplit_set H d)) \<and>
    debug_descs (snd (run_state (btd_log_init H debug detach) s)) = l"
proof -
  let ?s = "s\<lparr>enabled := (case debug of None \<Rightarrow> enabled s | Some d \<Rightarrow> Patterns (strsplit_set H d)), debug_descs := l\<rparr>"
  obtain fd v where o: "run_state (bt_log_open H) ?s = (fd, v)" by fastforce
  let ?v = "v\<lparr>os_calls := os_calls v @ [Openlog LOG_IDENT (if detach then LOG_NDELAY OR LOG_PID else LOG_NDELAY OR LOG_PID OR LOG_PERROR),
    Vsyslog LOG_INFO (map of_char ''Bluetooth daemon '' @ log_version H)]\<rparr>"
  obtain x u where p: "run_state (bt_log_vprintf H (hci_dev_none H) (map of_char LOG_IDENT) LOG_INFO (map of_char ''Bluetooth daemon '' @ log_version H)) ?v = (x, u)"
    by fastforce
  from open_switches [OF o] print_switches [OF p] show ?thesis using assms o p
    by (cases debug) (simp_all add: btd_log_init_def log_info_def monitor_log_def same_switches_def)
qed

lemma enable_length: "btd_enable_debug H ps l = Some l' \<Longrightarrow> length l' = length l"
  by (induction l arbitrary: l') (auto simp: bind_eq_Some_conv)

lemma enable_total:
  "btd_enable_debug H ps l = (if ps = FreedPatterns \<and> l \<noteq> [] then None
     else Some (map (\<lambda>d. if is_enabled H ps d = Some True then print_flag d else d) l))"
  by (induction l) (auto simp: is_enabled_def split: patterns.split)

section \<open>Properties\<close>

text \<open>The descriptor of the log: for every sequence of operations of the log modules and every kernel, the one
  descriptor that \<open>log_fd\<close> names, if it is not negative, is open, and no other; after the error that \<open>bt_log_open\<close> keeps there is none.\<close>

theorem log_descriptor_invariant:
  assumes "log_host_ok H"
  shows "log_inv H (fold (run_log_op H) xs (log_initial descs))"
  by (rule log_ops_inv [OF assms]) (simp add: log_inv_def log_fds_def log_initial_def)

theorem log_descriptor_invariant_witness:
  "log_inv toy_log_host (fold (run_log_op toy_log_host) [LogInit (Some ''att'') True, LogMessage 0 3 [0x68, 0x69], LogCleanup] (log_initial []))"
  by (rule log_descriptor_invariant) (simp add: log_host_ok_def toy_log_host_def)

text \<open>The format of a record: on a little-endian host index, priority, label and text (without one trailing new line) are read
  back from the vectors of \<open>bt_log_sendmsg\<close>, and the record has exactly the length in its header. On a big-endian host
  the length of the text is added to a number that has already been converted, so it counts 256 times.\<close>

theorem log_record_parsed:
  assumes "length label < 255" "length label + length str < 65532"
  shows "parse_log_record (concat (log_vectors LITTLE_ENDIAN index label level [log_line str @ [0]])) =
      Some (index, of_int level, label, log_line str) \<and>
    get_le16 (concat (log_vectors BIG_ENDIAN index label level [log_line str @ [0]])) 4 =
      Some (bswap 2 (bswap 2 (of_nat (length label + 3)) + of_nat (length (log_line str) + 1)))"
proof -
  let ?L = "length label" and ?s = "log_line str"
  have u8: "unat (of_nat ?L + 1 :: u8) = ?L + 1" using assms(1) by (simp add: unat_word_ariths unat_of_nat)
  have n: "length ?s \<le> length str" by (simp add: log_line_def)
  have u16: "unat (of_nat ?L + 1 :: u16) = ?L + 1" using assms(1) by (simp add: unat_word_ariths unat_of_nat)
  have uc: "ucast (of_nat ?L + 1 :: u8) = (of_nat ?L + 1 :: u16)"
    using assms(1) by (simp only: word_unat_eq_iff unsigned_ucast_eq u8 u16) (simp add: take_bit_nat_eq_self)
  let ?n = "of_nat (?L + 3 + (length ?s + 1)) :: u16"
  have len: "foldl (\<lambda>len v. len + of_nat (length v)) (2 + (of_nat ?L + 1)) [?s @ [0]] = ?n" by simp
  have un: "unat ?n + 6 = 8 + (?L + 1) + (length ?s + 1)" using assms(2) n by (simp only: unat_of_nat) (simp add: take_bit_nat_eq_self)
  let ?hdr = "le_of_word 2 (0 :: u16) @ le_of_word 2 index @ le_of_word 2 ?n @ [of_int level, of_nat ?L + 1]"
  have bytes: "concat (log_vectors LITTLE_ENDIAN index label level [?s @ [0]]) = ?hdr @ (label @ [0]) @ ?s @ [0]"
    by (simp add: log_vectors_def log_header_def Let_def log_hdr_bytes_def host_u16_def cpu_to_le_def u8 uc flip: len)
  let ?all = "?hdr @ (label @ [0]) @ ?s @ [0]"
  have i: "get_le16 ?all 2 = Some index"
    using get_le16_mid [of 2 "le_of_word 2 (0 :: u16)" index "le_of_word 2 ?n @ [of_int level, of_nat ?L + 1] @ (label @ [0]) @ ?s @ [0]"] by simp
  have l: "get_le16 ?all 4 = Some ?n"
    using get_le16_mid [of 4 "le_of_word 2 (0 :: u16) @ le_of_word 2 index" ?n "[of_int level, of_nat ?L + 1] @ (label @ [0]) @ ?s @ [0]"] by simp
  have b: "rd8 ?all 6 = Some (of_int level)" "rd8 ?all 7 = Some (of_nat ?L + 1)"
    by (simp_all add: rd8_def nth_append)
  have r: "rd_bytes ?all 8 (?L + 1) = Some (label @ [0])"
    using rd_bytes_mid [of 8 ?hdr "?L + 1" "label @ [0]" "?s @ [0]"] by simp
  have d: "drop (8 + (?L + 1)) ?all = ?s @ [0]" by (simp add: numeral_3_eq_3)
  have t: "length ?all = 8 + (?L + 1) + (length ?s + 1)" by simp
  have "parse_log_record ?all = Some (index, of_int level, label, ?s)"
    unfolding parse_log_record_def Let_def i l b bind.bind_lunit u8 r d un t by simp
  moreover have "get_le16 (concat (log_vectors BIG_ENDIAN index label level [?s @ [0]])) 4 =
      Some (bswap 2 (bswap 2 (of_nat (?L + 3)) + of_nat (length ?s + 1)))"
  proof -
    let ?x = "bswap 2 (of_nat (?L + 3)) + of_nat (length ?s + 1) :: u16"
    let ?pre = "rev (le_of_word 2 (cpu_to_le BIG_ENDIAN 2 0 :: u16)) @ rev (le_of_word 2 (cpu_to_le BIG_ENDIAN 2 index))"
    have "2 + (of_nat ?L + 1) = (of_nat (?L + 3) :: u16)" by simp
    then have "concat (log_vectors BIG_ENDIAN index label level [?s @ [0]]) =
        ?pre @ rev (le_of_word 2 ?x) @ [of_int level, of_nat ?L + 1] @ (label @ [0]) @ ?s @ [0]"
      by (simp add: log_vectors_def log_header_def Let_def log_hdr_bytes_def host_u16_def cpu_to_le_def u8 uc del: of_nat_add)
    then show ?thesis
      using rd_bytes_mid [of 4 ?pre 2 "rev (le_of_word 2 ?x)" "[of_int level, of_nat ?L + 1] @ (label @ [0]) @ ?s @ [0]"]
      by (simp add: get_le16_def bswap_def)
  qed
  ultimately show ?thesis unfolding bytes by simp
qed

theorem log_record_parsed_witness:
  "parse_log_record (concat (log_vectors LITTLE_ENDIAN 0xffff (map of_char LOG_IDENT) LOG_INFO [log_line [0x68, 0x69, 0x0a] @ [0]])) =
      Some (0xffff, 6, map of_char LOG_IDENT, [0x68, 0x69]) \<and>
    get_le16 (concat (log_vectors BIG_ENDIAN 0xffff (map of_char LOG_IDENT) LOG_INFO [log_line [0x68, 0x69, 0x0a] @ [0]])) 4 = Some (13 + 256 * 3)"
proof -
  have b: "length (map of_char LOG_IDENT :: u8 list) < 255" "length (map of_char LOG_IDENT :: u8 list) + length [0x68, 0x69, 0x0a :: u8] < 65532"
    by (simp_all add: LOG_IDENT_def)
  have l: "log_line [0x68, 0x69, 0x0a] = [0x68, 0x69]" by (simp add: log_line_def)
  have w: "bswap 2 (bswap 2 (of_nat (length (map of_char LOG_IDENT :: u8 list) + 3)) + of_nat (length [0x68, 0x69 :: u8] + 1)) = (13 + 256 * 3 :: u16)"
    by code_simp
  show ?thesis using log_record_parsed [OF b, where index = "0xffff" and level = LOG_INFO] unfolding l w by (simp add: LOG_INFO_def)
qed

text \<open>Use of memory that was given back: \<open>__btd_log_cleanup\<close> keeps the pointer to the patterns it gives back, so that after
  a start with patterns and a clean-up, a second clean-up gives them back again, and a second start without patterns reads
  them as soon as the program has a place with a debug message; a second start with patterns is safe.\<close>

theorem freed_patterns_used:
  "let s = fold (run_log_op H) [LogInit (Some debug) detach, LogCleanup] (log_initial descs) in
   fst (run_state btd_log_cleanup s) = None \<and>
   (fst (run_state (btd_log_init H None detach') s) = None \<longleftrightarrow> descs \<noteq> []) \<and>
   fst (run_state (btd_log_init H (Some debug') detach') s) = Some ()"
proof -
  let ?P = "Patterns (strsplit_set H debug)"
  obtain l where l: "btd_enable_debug H ?P descs = Some l" by (simp add: enable_total)
  define s1 where "s1 = snd (run_state (btd_log_init H (Some debug) detach) (log_initial descs))"
  have s1: "enabled s1 = ?P" "debug_descs s1 = l"
    using init_switches [where H = H and debug = "Some debug" and s = "log_initial descs" and detach = detach] l by (simp_all add: s1_def log_initial_def)
  define s where "s = snd (run_state btd_log_cleanup s1)"
  have s: "enabled s = FreedPatterns" "debug_descs s = l"
    using s1 by (simp_all add: s_def btd_log_cleanup_def bt_log_close_def set_log_fd_def)
  have "fst (run_state btd_log_cleanup s) = None" using s by (simp add: btd_log_cleanup_def bt_log_close_def set_log_fd_def)
  moreover have "fst (run_state (btd_log_init H None detach') s) = None \<longleftrightarrow> descs \<noteq> []"
  proof (cases "l = []")
    case True
    then show ?thesis using init_switches [where H = H and debug = None and s = s and detach = detach'] s enable_length [OF l] by simp
  next
    case False
    then show ?thesis using s enable_length [OF l] by (auto simp: btd_log_init_def enable_total)
  qed
  moreover have "fst (run_state (btd_log_init H (Some debug') detach') s) = Some ()"
    using init_switches [where H = H and debug = "Some debug'" and s = s and detach = detach'] by (simp add: enable_total)
  ultimately show ?thesis by (simp add: s_def s1_def)
qed

end
