(* ===== verification/AttCore.thy ===== *)
theory AttCore
  imports Crypto
begin

text \<open>
  \<^verbatim>\<open>bluez/src/shared/att.c\<close>: the ATT bearer. A \<open>bt_att\<close> owns channels (a fixed one and enhanced
  ones), queues of operations waiting to be sent, the operations sent and not yet answered, and the
  handlers that the client registered.

  Objects are addressed: channels and operations live in heaps \<open>w_chan\<close> and \<open>w_op\<close>, a
  freed object is \<open>None\<close> there, and every access to it makes the computation \<open>None\<close>. A queue of
  operations or channels is the list of its data pointers (the pointer level of the queues is in
  \<open>Queue\<close>, their list behaviour in \<open>QueueRefine\<close>); the two lists of handlers pair each entry's
  address with its handler, since the code walks over them by entry pointers while handlers run.

  The client is part of the environment: a callback is a token, and calling it records the call and
  then runs an arbitrary reaction of the client on the state, so that every operation can be
  re-entered from every callback. The kernel and the main loop are parameters in the same record:
  what \<open>read\<close>, \<open>getsockopt\<close>, \<open>io_send\<close> and the timers answer. Debug output is left out.
\<close>

section \<open>Data\<close>

datatype att_op_type =
    ATT_OP_TYPE_REQ | ATT_OP_TYPE_RSP | ATT_OP_TYPE_CMD | ATT_OP_TYPE_IND | ATT_OP_TYPE_NFY
  | ATT_OP_TYPE_CONF | ATT_OP_TYPE_UNKNOWN

text \<open>Opcodes, by their names in \<^verbatim>\<open>att-types.h\<close>.\<close>

definition att_opcode_type_table :: "(u8 \<times> att_op_type) list" where
  "att_opcode_type_table =
     [(0x01, ATT_OP_TYPE_RSP), (0x02, ATT_OP_TYPE_REQ), (0x03, ATT_OP_TYPE_RSP), (0x04, ATT_OP_TYPE_REQ),
      (0x05, ATT_OP_TYPE_RSP), (0x06, ATT_OP_TYPE_REQ), (0x07, ATT_OP_TYPE_RSP), (0x08, ATT_OP_TYPE_REQ),
      (0x09, ATT_OP_TYPE_RSP), (0x0a, ATT_OP_TYPE_REQ), (0x0b, ATT_OP_TYPE_RSP), (0x0c, ATT_OP_TYPE_REQ),
      (0x0d, ATT_OP_TYPE_RSP), (0x0e, ATT_OP_TYPE_REQ), (0x0f, ATT_OP_TYPE_RSP), (0x10, ATT_OP_TYPE_REQ),
      (0x11, ATT_OP_TYPE_RSP), (0x12, ATT_OP_TYPE_REQ), (0x13, ATT_OP_TYPE_RSP), (0x52, ATT_OP_TYPE_CMD),
      (0xd2, ATT_OP_TYPE_CMD), (0x16, ATT_OP_TYPE_REQ), (0x17, ATT_OP_TYPE_RSP), (0x18, ATT_OP_TYPE_REQ),
      (0x19, ATT_OP_TYPE_RSP), (0x1b, ATT_OP_TYPE_NFY), (0x23, ATT_OP_TYPE_NFY), (0x1d, ATT_OP_TYPE_IND),
      (0x1e, ATT_OP_TYPE_CONF)]"

definition ATT_OP_CMD_MASK :: u8 where "ATT_OP_CMD_MASK = 0x40"
definition ATT_OP_SIGNED_MASK :: u8 where "ATT_OP_SIGNED_MASK = 0x80"
definition BT_ATT_SIGNATURE_LEN :: nat where "BT_ATT_SIGNATURE_LEN = 12"
definition BT_ATT_OP_ERROR_RSP :: u8 where "BT_ATT_OP_ERROR_RSP = 0x01"
definition BT_ATT_OP_MTU_REQ :: u8 where "BT_ATT_OP_MTU_REQ = 0x02"
definition BT_ATT_OP_HANDLE_CONF :: u8 where "BT_ATT_OP_HANDLE_CONF = 0x1e"
definition BT_ATT_ALL_REQUESTS :: u8 where "BT_ATT_ALL_REQUESTS = 0x00"

definition get_op_type :: "u8 \<Rightarrow> att_op_type" where
  "get_op_type opcode = (case map_of att_opcode_type_table opcode of
     Some t \<Rightarrow> t
   | None \<Rightarrow> if opcode AND ATT_OP_CMD_MASK \<noteq> 0 then ATT_OP_TYPE_CMD else ATT_OP_TYPE_UNKNOWN)"

definition att_req_rsp_mapping_table :: "(u8 \<times> u8) list" where
  "att_req_rsp_mapping_table =
     [(0x02, 0x03), (0x04, 0x05), (0x06, 0x07), (0x08, 0x09), (0x0a, 0x0b), (0x0c, 0x0d),
      (0x0e, 0x0f), (0x10, 0x11), (0x12, 0x13), (0x16, 0x17), (0x18, 0x19)]"

definition get_req_opcode :: "u8 \<Rightarrow> u8" where
  "get_req_opcode rsp_opcode = (case find (\<lambda>(req, rsp). rsp = rsp_opcode) att_req_rsp_mapping_table of
     Some (req, rsp) \<Rightarrow> req | None \<Rightarrow> 0)"

text \<open>Function pointers of the client and its \<open>user_data\<close> are tokens.\<close>


record att_send_op =
  op_id :: u32
  op_timeout_id :: u32
  op_type :: att_op_type
  op_opcode :: u8
  op_pdu :: buf
  op_len :: u16
  op_callback :: "func option"
  op_destroy :: "func option"
  op_user_data :: user

record att_notify =
  n_id :: u32
  n_opcode :: u16
  n_callback :: "func option"
  n_destroy :: "func option"
  n_user_data :: user

record att_disconn =
  d_id :: u32
  d_removed :: bool
  d_callback :: "func option"
  d_destroy :: "func option"
  d_user_data :: user

record sign_info =
  s_key :: "u8 list"
  s_counter :: func
  s_user_data :: user

text \<open>
  A channel with the state of its \<open>io\<close> object (whether it was shut down and whether its descriptor is
  closed when it is destroyed). \<open>ch_buf_at\<close> is the address of the read buffer \<open>ch_buf\<close>.
\<close>

record bt_att_chan =
  ch_att :: bool
  ch_fd :: int
  ch_type :: u8
  ch_sec_level :: int
  ch_queue :: "nat list"
  pending_req :: "nat option"
  pending_ind :: "nat option"
  writer_active :: bool
  in_req :: bool
  ch_buf_at :: nat
  ch_buf :: buf
  ch_mtu :: u16
  ch_io_shut :: bool
  ch_io_close :: bool

record bt_att =
  a_ref_count :: int
  close_on_unref :: bool
  chans :: "nat list"
  enc_size :: u8
  a_mtu :: u16
  notify_list :: "(nat \<times> att_notify) list"
  disconn_list :: "(nat \<times> att_disconn) list"
  next_send_id :: u32
  next_reg_id :: u32
  req_queue :: "nat list"
  ind_queue :: "nat list"
  write_queue :: "nat list"
  timeout_callback :: "func option"
  timeout_destroy :: "func option"
  timeout_data :: user
  debug_callback :: "func option"
  debug_destroy :: "func option"
  debug_data :: user
  a_crypto :: "alg_kernel option"
  local_sign :: "sign_info option"
  remote_sign :: "sign_info option"

text \<open>What the client is called with.\<close>

datatype client_call =
    CallResponse func u8 "u8 list" user
  | CallDestroy func user
  | CallNotify func nat u8 "u8 list" user
  | CallDisconnect func int user
  | CallTimeout func u32 u8 user

text \<open>
  The state: the \<open>bt_att\<close> (\<open>None\<close> once freed), the heaps, the next unused address, the pending timers
  (identifier, channel and operation id of their \<open>timeout_data\<close>), the calls made to the client and the
  results of the writes, oldest first; and the state of the client, which the bearer never touches.
\<close>

record 'c world =
  w_att :: "bt_att option"
  w_chan :: "nat \<Rightarrow> bt_att_chan option"
  w_op :: "nat \<Rightarrow> att_send_op option"
  w_next :: nat
  w_timers :: "(u32 \<times> nat \<times> u32) list"
  w_calls :: "client_call list"
  w_wire :: "(int \<times> buf \<times> int) list"
  w_user :: 'c

record 'c env =
  client :: "client_call \<Rightarrow> 'c world \<Rightarrow> 'c world option"
  counter :: "func \<Rightarrow> user \<Rightarrow> u32 \<Rightarrow> bool \<times> u32"
  io_send :: "int \<Rightarrow> buf \<Rightarrow> int"
  set_write_handler :: "int \<Rightarrow> bool"
  timeout_add :: "'c world \<Rightarrow> u32"
  k_read :: "int \<Rightarrow> u16 \<Rightarrow> buf option"
  so_error :: "int \<Rightarrow> int option"
  get_sec :: "int \<Rightarrow> int option"
  set_sec :: "int \<Rightarrow> int \<Rightarrow> bool"

text \<open>A pointer to the \<open>bt_att\<close> that may be NULL.\<close>

type_synonym att_ptr = "unit option"

section \<open>The heap\<close>

definition set_att :: "bt_att \<Rightarrow> 'c world \<Rightarrow> 'c world" where
  "set_att a w = w\<lparr>w_att := Some a\<rparr>"

definition set_chan :: "nat \<Rightarrow> bt_att_chan \<Rightarrow> 'c world \<Rightarrow> 'c world" where
  "set_chan c ch w = w\<lparr>w_chan := (w_chan w)(c := Some ch)\<rparr>"

definition set_op :: "nat \<Rightarrow> att_send_op \<Rightarrow> 'c world \<Rightarrow> 'c world" where
  "set_op p op w = w\<lparr>w_op := (w_op w)(p := Some op)\<rparr>"

definition free_op :: "nat \<Rightarrow> 'c world \<Rightarrow> 'c world option" where
  "free_op p w = do { _ \<leftarrow> w_op w p; Some (w\<lparr>w_op := (w_op w)(p := None)\<rparr>) }"

definition new_op :: "att_send_op \<Rightarrow> 'c world \<Rightarrow> nat \<times> 'c world" where
  "new_op op w = (w_next w, (set_op (w_next w) op w)\<lparr>w_next := Suc (w_next w)\<rparr>)"

definition upd_att :: "(bt_att \<Rightarrow> bt_att) \<Rightarrow> 'c world \<Rightarrow> 'c world option" where
  "upd_att f w = do { a \<leftarrow> w_att w; Some (set_att (f a) w) }"

definition upd_chan :: "nat \<Rightarrow> (bt_att_chan \<Rightarrow> bt_att_chan) \<Rightarrow> 'c world \<Rightarrow> 'c world option" where
  "upd_chan c f w = do { ch \<leftarrow> w_chan w c; Some (set_chan c (f ch) w) }"

definition upd_op :: "nat \<Rightarrow> (att_send_op \<Rightarrow> att_send_op) \<Rightarrow> 'c world \<Rightarrow> 'c world option" where
  "upd_op p f w = do { op \<leftarrow> w_op w p; Some (set_op p (f op) w) }"

text \<open>A call of the client, and a call through a pointer that may be NULL.\<close>

definition call :: "'c env \<Rightarrow> client_call \<Rightarrow> 'c world \<Rightarrow> 'c world option" where
  "call E c w = client E c (w\<lparr>w_calls := w_calls w @ [c]\<rparr>)"

definition call_if :: "'c env \<Rightarrow> func option \<Rightarrow> (func \<Rightarrow> client_call) \<Rightarrow> 'c world \<Rightarrow> 'c world option" where
  "call_if E f c w = (case f of None \<Rightarrow> Some w | Some f \<Rightarrow> call E (c f) w)"

fun each :: "('a \<Rightarrow> 'c world \<Rightarrow> 'c world option) \<Rightarrow> 'a list \<Rightarrow> 'c world \<Rightarrow> 'c world option" where
  "each f [] w = Some w"
| "each f (x # xs) w = do { w \<leftarrow> f x w; each f xs w }"

definition on_some :: "('a \<Rightarrow> 'c world \<Rightarrow> 'c world option) \<Rightarrow> 'a option \<Rightarrow> 'c world \<Rightarrow> 'c world option" where
  "on_some f x w = (case x of None \<Rightarrow> Some w | Some x \<Rightarrow> f x w)"

text \<open>
  The successor of a queue entry, when the entry is still in the queue; an entry that was removed has
  been freed.
\<close>

definition next_entry :: "nat \<Rightarrow> (nat \<times> 'a) list \<Rightarrow> nat option option" where
  "next_entry p es = (case dropWhile (\<lambda>e. fst e \<noteq> p) es of
     [] \<Rightarrow> None
   | _ # rest \<Rightarrow> Some (case rest of [] \<Rightarrow> None | e # _ \<Rightarrow> Some (fst e)))"

definition first_entry :: "(nat \<times> 'a) list \<Rightarrow> nat option" where
  "first_entry es = (case es of [] \<Rightarrow> None | e # _ \<Rightarrow> Some (fst e))"

section \<open>Operations to send\<close>

definition timeout_remove :: "u32 \<Rightarrow> 'c world \<Rightarrow> 'c world" where
  "timeout_remove t w = w\<lparr>w_timers := filter (\<lambda>e. fst e \<noteq> t) (w_timers w)\<rparr>"

definition destroy_att_send_op :: "'c env \<Rightarrow> nat \<Rightarrow> 'c world \<Rightarrow> 'c world option" where
  "destroy_att_send_op E p w = do {
     op \<leftarrow> w_op w p;
     let w = (if op_timeout_id op \<noteq> 0 then timeout_remove (op_timeout_id op) w else w);
     w \<leftarrow> call_if E (op_destroy op) (\<lambda>d. CallDestroy d (op_user_data op)) w;
     free_op p w }"

definition cancel_att_send_op :: "'c env \<Rightarrow> nat \<Rightarrow> 'c world \<Rightarrow> 'c world option" where
  "cancel_att_send_op E p w = do {
     op \<leftarrow> w_op w p;
     w \<leftarrow> call_if E (op_destroy op) (\<lambda>d. CallDestroy d (op_user_data op)) w;
     upd_op p (\<lambda>op. op\<lparr>op_user_data := 0, op_callback := None, op_destroy := None\<rparr>) w }"

definition destroy_att_notify :: "'c env \<Rightarrow> att_notify \<Rightarrow> 'c world \<Rightarrow> 'c world option" where
  "destroy_att_notify E n w = call_if E (n_destroy n) (\<lambda>d. CallDestroy d (n_user_data n)) w"

definition destroy_att_disconn :: "'c env \<Rightarrow> att_disconn \<Rightarrow> 'c world \<Rightarrow> 'c world option" where
  "destroy_att_disconn E d w = call_if E (d_destroy d) (\<lambda>f. CallDestroy f (d_user_data d)) w"

definition match_notify_id :: "u32 \<Rightarrow> nat \<times> att_notify \<Rightarrow> bool" where
  "match_notify_id i e = (n_id (snd e) = i)"

definition match_disconn_id :: "u32 \<Rightarrow> nat \<times> att_disconn \<Rightarrow> bool" where
  "match_disconn_id i e = (d_id (snd e) = i)"

text \<open>
  The PDU of an operation: \<open>Some None\<close> when the function returns \<open>false\<close>, else the contents of
  \<open>op->pdu\<close> and \<open>op->len\<close>. The sum \<open>pdu_len\<close> is a \<open>uint16_t\<close>.
\<close>

definition encode_pdu :: "'c env \<Rightarrow> bt_att \<Rightarrow> u8 \<Rightarrow> buf option \<Rightarrow> u16 \<Rightarrow> (buf \<times> u16) option option" where
  "encode_pdu E att opcode pdu len = (let
     pdu_len = 1;
     is_signed = (local_sign att \<noteq> None \<and> opcode AND ATT_OP_SIGNED_MASK \<noteq> 0);
     pdu_len = (if is_signed then pdu_len + of_nat BT_ATT_SIGNATURE_LEN else pdu_len);
     pdu_len = (if len \<noteq> 0 \<and> pdu \<noteq> None then pdu_len + len else pdu_len) in
     if pdu_len > a_mtu att then Some None
     else do {
       b \<leftarrow> wr8 (fresh (unat pdu_len)) 0 opcode;
       b \<leftarrow> (if pdu_len > 1 \<and> len \<noteq> 0 then do { p \<leftarrow> pdu; memcpy b 1 p 0 (unat len) } else Some b);
       (case local_sign att of
          None \<Rightarrow> Some (Some (b, pdu_len))
        | Some sign \<Rightarrow>
            if opcode AND ATT_OP_SIGNED_MASK = 0 \<or> a_crypto att = None then Some (Some (b, pdu_len))
            else (case counter E (s_counter sign) (s_user_data sign) 0 of
                (False, _) \<Rightarrow> Some None
              | (True, sign_cnt) \<Rightarrow> do {
                  r \<leftarrow> bt_crypto_sign_att (a_crypto att) (s_key sign) b (1 + len) sign_cnt;
                  (case r of
                     None \<Rightarrow> Some None
                   | Some sig \<Rightarrow> do {
                       b \<leftarrow> wr_bytes b (1 + unat len) sig;
                       Some (Some (b, pdu_len)) }) })) })"

text \<open>The new operation, or \<open>None\<close> for NULL.\<close>

definition create_att_send_op ::
  "'c env \<Rightarrow> u8 \<Rightarrow> buf option \<Rightarrow> u16 \<Rightarrow> func option \<Rightarrow> user \<Rightarrow> func option \<Rightarrow> 'c world
   \<Rightarrow> (nat option \<times> 'c world) option" where
  "create_att_send_op E opcode pdu len callback user_data destroy w =
     (if len \<noteq> 0 \<and> pdu = None then Some (None, w)
      else let type = get_op_type opcode in
        if type = ATT_OP_TYPE_UNKNOWN then Some (None, w)
        else if callback \<noteq> None \<and> type \<noteq> ATT_OP_TYPE_REQ \<and> type \<noteq> ATT_OP_TYPE_IND then Some (None, w)
        else if callback = None \<and> (type = ATT_OP_TYPE_REQ \<or> type = ATT_OP_TYPE_IND) then Some (None, w)
        else do {
          att \<leftarrow> w_att w;
          r \<leftarrow> encode_pdu E att opcode pdu len;
          (case r of
             None \<Rightarrow> Some (None, w)
           | Some (b, pdu_len) \<Rightarrow>
               let (p, w) = new_op \<lparr>op_id = 0, op_timeout_id = 0, op_type = type, op_opcode = opcode,
                 op_pdu = b, op_len = pdu_len, op_callback = callback, op_destroy = destroy,
                 op_user_data = user_data\<rparr> w in Some (Some p, w)) })"

text \<open>\<open>op && op->len <= chan->mtu\<close> for the head of a queue.\<close>

definition head_fits :: "nat list \<Rightarrow> bt_att_chan \<Rightarrow> 'c world \<Rightarrow> bool option" where
  "head_fits q ch w = (case q of
     [] \<Rightarrow> Some False
   | p # _ \<Rightarrow> do { op \<leftarrow> w_op w p; Some (op_len op \<le> ch_mtu ch) })"

definition pick_next_send_op :: "nat \<Rightarrow> 'c world \<Rightarrow> (nat option \<times> 'c world) option" where
  "pick_next_send_op c w = do {
     ch \<leftarrow> w_chan w c;
     att \<leftarrow> w_att w;
     (case ch_queue ch of
        p # q \<Rightarrow> Some (Some p, set_chan c (ch\<lparr>ch_queue := q\<rparr>) w)
      | [] \<Rightarrow> do {
          fits \<leftarrow> head_fits (write_queue att) ch w;
          if fits then Some (Some (hd (write_queue att)), set_att (att\<lparr>write_queue := tl (write_queue att)\<rparr>) w)
          else do {
            fits \<leftarrow> (if pending_req ch = None then head_fits (req_queue att) ch w else Some False);
            if fits then Some (Some (hd (req_queue att)), set_att (att\<lparr>req_queue := tl (req_queue att)\<rparr>) w)
            else do {
              fits \<leftarrow> (if pending_ind ch = None then head_fits (ind_queue att) ch w else Some False);
              if fits then Some (Some (hd (ind_queue att)), set_att (att\<lparr>ind_queue := tl (ind_queue att)\<rparr>) w)
              else Some (None, w) } } }) }"

definition disc_att_send_op :: "'c env \<Rightarrow> nat \<Rightarrow> 'c world \<Rightarrow> 'c world option" where
  "disc_att_send_op E p w = do {
     op \<leftarrow> w_op w p;
     w \<leftarrow> call_if E (op_callback op) (\<lambda>f. CallResponse f BT_ATT_OP_ERROR_RSP [] (op_user_data op)) w;
     destroy_att_send_op E p w }"

definition io_shutdown :: "nat \<Rightarrow> 'c world \<Rightarrow> 'c world option" where
  "io_shutdown c w = upd_chan c (\<lambda>ch. ch\<lparr>ch_io_shut := True\<rparr>) w"

text \<open>The operation at a pointer that may be NULL, and its identifier.\<close>

definition op_has_id :: "nat option \<Rightarrow> u32 \<Rightarrow> 'c world \<Rightarrow> bool option" where
  "op_has_id x i w = (case x of None \<Rightarrow> Some False | Some p \<Rightarrow> do { op \<leftarrow> w_op w p; Some (op_id op = i) })"

definition timeout_cb :: "'c env \<Rightarrow> nat \<Rightarrow> u32 \<Rightarrow> 'c world \<Rightarrow> 'c world option" where
  "timeout_cb E c i w = do {
     ch \<leftarrow> w_chan w c;
     is_req \<leftarrow> op_has_id (pending_req ch) i w;
     is_ind \<leftarrow> (if is_req then Some False else op_has_id (pending_ind ch) i w);
     (case if is_req then pending_req ch else if is_ind then pending_ind ch else None of
        None \<Rightarrow> Some w
      | Some p \<Rightarrow> do {
          let w = set_chan c (if is_req then ch\<lparr>pending_req := None\<rparr> else ch\<lparr>pending_ind := None\<rparr>) w;
          op \<leftarrow> w_op w p;
          att \<leftarrow> w_att w;
          w \<leftarrow> call_if E (timeout_callback att)
            (\<lambda>f. CallTimeout f (op_id op) (op_opcode op) (timeout_data att)) w;
          w \<leftarrow> upd_op p (\<lambda>op. op\<lparr>op_timeout_id := 0\<rparr>) w;
          w \<leftarrow> disc_att_send_op E p w;
          io_shutdown c w }) }"

section \<open>Writing\<close>

definition write_watch_destroy :: "nat \<Rightarrow> 'c world \<Rightarrow> 'c world option" where
  "write_watch_destroy c w = upd_chan c (\<lambda>ch. ch\<lparr>writer_active := False\<rparr>) w"

definition bt_att_chan_write :: "'c env \<Rightarrow> nat \<Rightarrow> buf \<Rightarrow> u16 \<Rightarrow> 'c world \<Rightarrow> (int \<times> 'c world) option" where
  "bt_att_chan_write E c pdu len w = do {
     ch \<leftarrow> w_chan w c;
     bs \<leftarrow> rd_bytes pdu 0 (unat len);
     let ret = io_send E (ch_fd ch) bs;
     Some (ret, w\<lparr>w_wire := w_wire w @ [(ch_fd ch, bs, ret)]\<rparr>) }"

definition can_write_data :: "'c env \<Rightarrow> nat \<Rightarrow> 'c world \<Rightarrow> (bool \<times> 'c world) option" where
  "can_write_data E c w = do {
     (x, w) \<leftarrow> pick_next_send_op c w;
     (case x of
        None \<Rightarrow> Some (False, w)
      | Some p \<Rightarrow> do {
          op \<leftarrow> w_op w p;
          (ret, w) \<leftarrow> bt_att_chan_write E c (op_pdu op) (op_len op) w;
          if ret = 0 then do {
            w \<leftarrow> call_if E (op_callback op) (\<lambda>f. CallResponse f BT_ATT_OP_ERROR_RSP [] (op_user_data op)) w;
            w \<leftarrow> destroy_att_send_op E p w;
            Some (True, w) }
          else if op_type op = ATT_OP_TYPE_REQ \<or> op_type op = ATT_OP_TYPE_IND then do {
            w \<leftarrow> upd_chan c (\<lambda>ch. if op_type op = ATT_OP_TYPE_REQ then ch\<lparr>pending_req := Some p\<rparr>
                else ch\<lparr>pending_ind := Some p\<rparr>) w;
            let t = timeout_add E w;
            w \<leftarrow> upd_op p (\<lambda>op. op\<lparr>op_timeout_id := t\<rparr>) (w\<lparr>w_timers := w_timers w @ [(t, c, op_id op)]\<rparr>);
            Some (True, w) }
          else do {
            w \<leftarrow> (if op_type op = ATT_OP_TYPE_RSP then upd_chan c (\<lambda>ch. ch\<lparr>in_req := False\<rparr>) w else Some w);
            w \<leftarrow> destroy_att_send_op E p w;
            Some (True, w) } }) }"

definition wakeup_chan_writer :: "'c env \<Rightarrow> nat \<Rightarrow> 'c world \<Rightarrow> 'c world option" where
  "wakeup_chan_writer E c w = do {
     ch \<leftarrow> w_chan w c;
     if writer_active ch then Some w
     else do {
       att \<leftarrow> w_att w;
       if ch_queue ch = [] \<and> write_queue att = [] \<and>
          (pending_req ch \<noteq> None \<or> req_queue att = []) \<and> (pending_ind ch \<noteq> None \<or> ind_queue att = [])
       then Some w
       else if \<not> set_write_handler E (ch_fd ch) then Some w
       else Some (set_chan c (ch\<lparr>writer_active := True\<rparr>) w) } }"

definition wakeup_writer :: "'c env \<Rightarrow> 'c world \<Rightarrow> 'c world option" where
  "wakeup_writer E w = do { att \<leftarrow> w_att w; each (wakeup_chan_writer E) (chans att) w }"

end
