(* ===== verification/AttApi.thy ===== *)
theory AttApi
  imports AttCore
begin

text \<open>
  \<^verbatim>\<open>bluez/src/shared/att.c\<close>: the interface of the ATT bearer to its client. Creating and
  releasing a bearer and its channels, sending and cancelling operations, registering handlers,
  security levels and signing keys. A call on a NULL \<open>bt_att\<close> is the case \<open>None\<close> of the argument
  \<open>att\<close>; results that are negative error codes keep their C type, so an error code returned as
  \<open>unsigned int\<close>, \<open>uint8_t\<close> or \<open>bool\<close> is converted as C converts it.
\<close>


definition BT_ATT_BREDR :: u8 where "BT_ATT_BREDR = 0x00"
definition BT_ATT_LE :: u8 where "BT_ATT_LE = 0x01"
definition BT_ATT_EATT :: u8 where "BT_ATT_EATT = 0x02"
definition BT_ATT_LOCAL :: u8 where "BT_ATT_LOCAL = 0xff"
definition BT_ATT_DEFAULT_LE_MTU :: u16 where "BT_ATT_DEFAULT_LE_MTU = 23"

definition BT_ATT_SECURITY_AUTO :: int where "BT_ATT_SECURITY_AUTO = 0"
definition BT_ATT_SECURITY_LOW :: int where "BT_ATT_SECURITY_LOW = 1"
definition BT_ATT_SECURITY_MEDIUM :: int where "BT_ATT_SECURITY_MEDIUM = 2"
definition BT_ATT_SECURITY_HIGH :: int where "BT_ATT_SECURITY_HIGH = 3"
definition BT_ATT_SECURITY_FIPS :: int where "BT_ATT_SECURITY_FIPS = 4"

section \<open>Security of a channel\<close>

definition bt_att_chan_get_security :: "'c env \<Rightarrow> nat \<Rightarrow> 'c world \<Rightarrow> int option" where
  "bt_att_chan_get_security E c w = do {
     ch \<leftarrow> w_chan w c;
     Some (if ch_type ch = BT_ATT_LOCAL then ch_sec_level ch
           else case get_sec E (ch_fd ch) of None \<Rightarrow> - EIO | Some level \<Rightarrow> level) }"

definition bt_att_chan_set_security :: "'c env \<Rightarrow> nat \<Rightarrow> int \<Rightarrow> 'c world \<Rightarrow> (bool \<times> 'c world) option" where
  "bt_att_chan_set_security E c level w = do {
     ch \<leftarrow> w_chan w c;
     if ch_type ch = BT_ATT_LOCAL then Some (True, set_chan c (ch\<lparr>ch_sec_level := level\<rparr>) w)
     else Some (set_sec E (ch_fd ch) level, w) }"

definition bt_att_get_security :: "'c env \<Rightarrow> att_ptr \<Rightarrow> 'c world \<Rightarrow> (int \<times> u8 option) option" where
  "bt_att_get_security E att w = (case att of
     None \<Rightarrow> Some (- EINVAL, None)
   | Some _ \<Rightarrow> do {
       a \<leftarrow> w_att w;
       if chans a = [] then Some (- ENOTCONN, None)
       else do {
         ret \<leftarrow> bt_att_chan_get_security E (last (chans a)) w;
         if ret < 0 then Some (ret, None) else Some (ret, Some (enc_size a)) } })"

definition bt_att_set_security :: "'c env \<Rightarrow> att_ptr \<Rightarrow> int \<Rightarrow> 'c world \<Rightarrow> (bool \<times> 'c world) option" where
  "bt_att_set_security E att level w =
     (if att = None \<or> level < BT_ATT_SECURITY_AUTO \<or> level > BT_ATT_SECURITY_HIGH then Some (False, w)
      else do {
        a \<leftarrow> w_att w;
        if chans a = [] then Some (- ENOTCONN \<noteq> 0, w)
        else bt_att_chan_set_security E (last (chans a)) level w })"

definition bt_att_set_enc_key_size :: "att_ptr \<Rightarrow> u8 \<Rightarrow> 'c world \<Rightarrow> 'c world option" where
  "bt_att_set_enc_key_size att key_size w = (case att of
     None \<Rightarrow> Some w | Some _ \<Rightarrow> upd_att (\<lambda>a. a\<lparr>enc_size := key_size\<rparr>) w)"

section \<open>Channels\<close>

text \<open>What the socket set up answers for a descriptor.\<close>

record socket =
  so_domain :: "int \<Rightarrow> int option"
  so_protocol :: "int \<Rightarrow> int option"
  l2cap_omtu :: "int \<Rightarrow> u16 option"
  bt_sndmtu :: "int \<Rightarrow> u16 option"
  l2_bdaddr_type :: "int \<Rightarrow> int + u8"
  io_new :: "int \<Rightarrow> bool"
  io_set_read_handler :: "int \<Rightarrow> bool"
  io_set_disconnect_handler :: "int \<Rightarrow> bool"
  io_set_close_on_destroy :: "int \<Rightarrow> bool"


definition is_io_l2cap_based :: "socket \<Rightarrow> int \<Rightarrow> bool" where
  "is_io_l2cap_based S fd = (case so_domain S fd of
     None \<Rightarrow> False
   | Some domain \<Rightarrow>
       if domain \<noteq> AF_BLUETOOTH then False
       else (case so_protocol S fd of None \<Rightarrow> False | Some proto \<Rightarrow> proto = BTPROTO_L2CAP))"

definition io_get_mtu :: "socket \<Rightarrow> int \<Rightarrow> u16" where
  "io_get_mtu S fd = (case l2cap_omtu S fd of
     Some m \<Rightarrow> m
   | None \<Rightarrow> (case bt_sndmtu S fd of Some m \<Rightarrow> m | None \<Rightarrow> 0))"

definition io_get_type :: "socket \<Rightarrow> int \<Rightarrow> u8" where
  "io_get_type S fd =
     (if \<not> is_io_l2cap_based S fd then BT_ATT_LOCAL
      else case l2_bdaddr_type S fd of
        Inl errno \<Rightarrow> word_of_int (- errno)
      | Inr t \<Rightarrow> if t = BDADDR_BREDR then BT_ATT_BREDR else BT_ATT_LE)"

text \<open>
  The channel releases its pending operations, then its queue, which \<open>queue_destroy\<close> empties before it
  destroys the operations.
\<close>

definition bt_att_chan_free :: "'c env \<Rightarrow> nat \<Rightarrow> 'c world \<Rightarrow> 'c world option" where
  "bt_att_chan_free E c w = do {
     ch \<leftarrow> w_chan w c;
     w \<leftarrow> on_some (destroy_att_send_op E) (pending_req ch) w;
     ch \<leftarrow> w_chan w c;
     w \<leftarrow> on_some (destroy_att_send_op E) (pending_ind ch) w;
     ch \<leftarrow> w_chan w c;
     w \<leftarrow> each (destroy_att_send_op E) (ch_queue ch) (set_chan c (ch\<lparr>ch_queue := []\<rparr>) w);
     _ \<leftarrow> w_chan w c;
     Some (w\<lparr>w_chan := (w_chan w)(c := None)\<rparr>) }"

text \<open>
  A channel that cannot be set up is released again at once; it holds no operations, so nothing else
  changes. The read buffer is allocated with the channel.
\<close>

definition bt_att_chan_new :: "socket \<Rightarrow> int \<Rightarrow> u8 \<Rightarrow> 'c world \<Rightarrow> nat option \<times> 'c world" where
  "bt_att_chan_new S fd type w =
     (if fd < 0 then (None, w)
      else if \<not> io_new S fd then (None, w)
      else if \<not> io_set_read_handler S fd then (None, w)
      else if \<not> io_set_disconnect_handler S fd then (None, w)
      else let
        mtu = (if type = BT_ATT_LOCAL \<or> type = BT_ATT_LE then BT_ATT_DEFAULT_LE_MTU else io_get_mtu S fd) in
        if mtu < BT_ATT_DEFAULT_LE_MTU then (None, w)
        else (Some (w_next w),
          (set_chan (w_next w)
             \<lparr>ch_att = False, ch_fd = fd, ch_type = type,
              ch_sec_level = (if type = BT_ATT_LOCAL then BT_ATT_SECURITY_LOW else BT_ATT_SECURITY_AUTO),
              ch_queue = [], pending_req = None, pending_ind = None, writer_active = False, in_req = False,
              ch_buf_at = Suc (w_next w), ch_buf = fresh (unat mtu), ch_mtu = mtu, ch_io_shut = False,
              ch_io_close = False\<rparr> w)\<lparr>w_next := w_next w + 2\<rparr>))"

definition bt_att_attach_chan :: "'c env \<Rightarrow> nat \<Rightarrow> 'c world \<Rightarrow> 'c world option" where
  "bt_att_attach_chan E c w = do {
     w \<leftarrow> upd_att (\<lambda>a. a\<lparr>chans := c # chans a\<rparr>) w;
     w \<leftarrow> upd_chan c (\<lambda>ch. ch\<lparr>ch_att := True\<rparr>) w;
     ch \<leftarrow> w_chan w c;
     w \<leftarrow> upd_att (\<lambda>a. if ch_mtu ch > a_mtu a then a\<lparr>a_mtu := ch_mtu ch\<rparr> else a) w;
     a \<leftarrow> w_att w;
     w \<leftarrow> upd_chan c (\<lambda>ch. ch\<lparr>ch_io_close := close_on_unref a\<rparr>) w;
     wakeup_chan_writer E c w }"

definition bt_att_ref :: "att_ptr \<Rightarrow> 'c world \<Rightarrow> 'c world option" where
  "bt_att_ref att w = (case att of
     None \<Rightarrow> Some w | Some _ \<Rightarrow> upd_att (\<lambda>a. a\<lparr>a_ref_count := a_ref_count a + 1\<rparr>) w)"

text \<open>\<open>crypto\<close> is what \<open>bt_crypto_new\<close> gives; the result says whether a bearer was created.\<close>

definition bt_att_new ::
  "'c env \<Rightarrow> socket \<Rightarrow> alg_kernel option \<Rightarrow> int \<Rightarrow> bool \<Rightarrow> 'c world \<Rightarrow> (att_ptr \<times> 'c world) option" where
  "bt_att_new E S crypto fd ext_signed w = (case bt_att_chan_new S fd (io_get_type S fd) w of
     (None, w) \<Rightarrow> Some (None, w)
   | (Some c, w) \<Rightarrow> do {
       ch \<leftarrow> w_chan w c;
       w \<leftarrow> bt_att_attach_chan E c (set_att
         \<lparr>a_ref_count = 0, close_on_unref = False, chans = [], enc_size = 0, a_mtu = ch_mtu ch,
          notify_list = [], disconn_list = [], next_send_id = 0, next_reg_id = 0, req_queue = [],
          ind_queue = [], write_queue = [], timeout_callback = None, timeout_destroy = None,
          timeout_data = 0, debug_callback = None, debug_destroy = None, debug_data = 0,
          a_crypto = (if ext_signed then None else crypto), local_sign = None, remote_sign = None\<rparr> w);
       w \<leftarrow> bt_att_ref (Some ()) w;
       Some (Some (), w) })"

definition bt_att_attach_fd :: "'c env \<Rightarrow> socket \<Rightarrow> att_ptr \<Rightarrow> int \<Rightarrow> 'c world \<Rightarrow> (int \<times> 'c world) option" where
  "bt_att_attach_fd E S att fd w =
     (if att = None \<or> fd < 0 then Some (- EINVAL, w)
      else (case bt_att_chan_new S fd BT_ATT_EATT w of
         (None, w) \<Rightarrow> Some (- EINVAL, w)
       | (Some c, w) \<Rightarrow> do { w \<leftarrow> bt_att_attach_chan E c w; Some (0, w) }))"

section \<open>Handlers\<close>

definition bt_att_unregister_all :: "'c env \<Rightarrow> att_ptr \<Rightarrow> 'c world \<Rightarrow> (bool \<times> 'c world) option" where
  "bt_att_unregister_all E att w = (case att of
     None \<Rightarrow> Some (False, w)
   | Some _ \<Rightarrow> do {
       a \<leftarrow> w_att w;
       w \<leftarrow> each (destroy_att_notify E) (map snd (notify_list a)) (set_att (a\<lparr>notify_list := []\<rparr>) w);
       a \<leftarrow> w_att w;
       w \<leftarrow> each (destroy_att_disconn E) (map snd (disconn_list a)) (set_att (a\<lparr>disconn_list := []\<rparr>) w);
       Some (True, w) })"

text \<open>The next identifier of a counter that is never 0 when it is used.\<close>

definition fix_id :: "u32 \<Rightarrow> u32" where
  "fix_id n = (if n < 1 then 1 else n)"

definition bt_att_register ::
  "att_ptr \<Rightarrow> u8 \<Rightarrow> func option \<Rightarrow> user \<Rightarrow> func option \<Rightarrow> 'c world \<Rightarrow> (u32 \<times> 'c world) option" where
  "bt_att_register att opcode callback user_data destroy w =
     (if att = None \<or> callback = None then Some (0, w)
      else do {
        a \<leftarrow> w_att w;
        if chans a = [] then Some (0, w)
        else let i = fix_id (next_reg_id a);
          n = \<lparr>n_id = i, n_opcode = ucast opcode, n_callback = callback, n_destroy = destroy,
               n_user_data = user_data\<rparr> in
          Some (i, (set_att (a\<lparr>next_reg_id := i + 1,
            notify_list := notify_list a @ [(w_next w, n)]\<rparr>) w)\<lparr>w_next := Suc (w_next w)\<rparr>) })"

text \<open>\<open>queue_remove_if\<close> on a list: the first match and the list without it.\<close>

definition remove_if :: "('a \<Rightarrow> bool) \<Rightarrow> 'a list \<Rightarrow> 'a option \<times> 'a list" where
  "remove_if P xs = (case dropWhile (\<lambda>x. \<not> P x) xs of
     [] \<Rightarrow> (None, xs) | x # rest \<Rightarrow> (Some x, takeWhile (\<lambda>x. \<not> P x) xs @ rest))"

definition bt_att_unregister :: "'c env \<Rightarrow> att_ptr \<Rightarrow> u32 \<Rightarrow> 'c world \<Rightarrow> (bool \<times> 'c world) option" where
  "bt_att_unregister E att i w =
     (if att = None \<or> i = 0 then Some (False, w)
      else do {
        a \<leftarrow> w_att w;
        (case remove_if (match_notify_id i) (notify_list a) of
           (None, _) \<Rightarrow> Some (False, w)
         | (Some e, rest) \<Rightarrow> do {
             w \<leftarrow> destroy_att_notify E (snd e) (set_att (a\<lparr>notify_list := rest\<rparr>) w);
             Some (True, w) }) })"

definition bt_att_register_disconnect ::
  "att_ptr \<Rightarrow> func option \<Rightarrow> user \<Rightarrow> func option \<Rightarrow> 'c world \<Rightarrow> (u32 \<times> 'c world) option" where
  "bt_att_register_disconnect att callback user_data destroy w =
     (if att = None then Some (0, w)
      else do {
        a \<leftarrow> w_att w;
        if chans a = [] then Some (0, w)
        else let i = fix_id (next_reg_id a);
          d = \<lparr>d_id = i, d_removed = False, d_callback = callback, d_destroy = destroy,
               d_user_data = user_data\<rparr> in
          Some (i, (set_att (a\<lparr>next_reg_id := i + 1,
            disconn_list := disconn_list a @ [(w_next w, d)]\<rparr>) w)\<lparr>w_next := Suc (w_next w)\<rparr>) })"

text \<open>While the disconnect handlers run, the handler is only marked.\<close>

fun mark_removed :: "u32 \<Rightarrow> (nat \<times> att_disconn) list \<Rightarrow> (nat \<times> att_disconn) list option" where
  "mark_removed i [] = None"
| "mark_removed i (e # es) =
     (if match_disconn_id i e then Some ((fst e, (snd e)\<lparr>d_removed := True\<rparr>) # es)
      else do { es \<leftarrow> mark_removed i es; Some (e # es) })"

definition bt_att_unregister_disconnect :: "'c env \<Rightarrow> att_ptr \<Rightarrow> u32 \<Rightarrow> 'c world \<Rightarrow> (bool \<times> 'c world) option" where
  "bt_att_unregister_disconnect E att i w =
     (if att = None \<or> i = 0 then Some (False, w)
      else do {
        a \<leftarrow> w_att w;
        if chans a = [] then
          (case mark_removed i (disconn_list a) of
             None \<Rightarrow> Some (False, w)
           | Some es \<Rightarrow> Some (True, set_att (a\<lparr>disconn_list := es\<rparr>) w))
        else (case remove_if (match_disconn_id i) (disconn_list a) of
           (None, _) \<Rightarrow> Some (False, w)
         | (Some e, rest) \<Rightarrow> do {
             w \<leftarrow> destroy_att_disconn E (snd e) (set_att (a\<lparr>disconn_list := rest\<rparr>) w);
             Some (True, w) }) })"

section \<open>Sending and cancelling\<close>

definition bt_att_send ::
  "'c env \<Rightarrow> att_ptr \<Rightarrow> u8 \<Rightarrow> buf option \<Rightarrow> u16 \<Rightarrow> func option \<Rightarrow> user \<Rightarrow> func option \<Rightarrow> 'c world
   \<Rightarrow> (u32 \<times> 'c world) option" where
  "bt_att_send E att opcode pdu len callback user_data destroy w =
     (if att = None then Some (0, w)
      else do {
        a \<leftarrow> w_att w;
        if chans a = [] then Some (0, w)
        else do {
          (x, w) \<leftarrow> create_att_send_op E opcode pdu len callback user_data destroy w;
          (case x of
             None \<Rightarrow> Some (0, w)
           | Some p \<Rightarrow> do {
               a \<leftarrow> w_att w;
               let i = fix_id (next_send_id a);
               w \<leftarrow> upd_op p (\<lambda>op. op\<lparr>op_id := i\<rparr>) w;
               op \<leftarrow> w_op w p;
               let a = a\<lparr>next_send_id := i + 1\<rparr>;
               let a = (case op_type op of
                   ATT_OP_TYPE_REQ \<Rightarrow> a\<lparr>req_queue := req_queue a @ [p]\<rparr>
                 | ATT_OP_TYPE_IND \<Rightarrow> a\<lparr>ind_queue := ind_queue a @ [p]\<rparr>
                 | _ \<Rightarrow> a\<lparr>write_queue := write_queue a @ [p]\<rparr>);
               w \<leftarrow> wakeup_writer E (set_att a w);
               op \<leftarrow> w_op w p;
               Some (op_id op, w) }) } })"

text \<open>A NULL channel is \<open>None\<close>; the result is \<open>unsigned\<close>.\<close>

definition bt_att_chan_send ::
  "'c env \<Rightarrow> nat option \<Rightarrow> u8 \<Rightarrow> buf option \<Rightarrow> u16 \<Rightarrow> func option \<Rightarrow> user \<Rightarrow> func option \<Rightarrow> 'c world
   \<Rightarrow> (u32 \<times> 'c world) option" where
  "bt_att_chan_send E chan opcode pdu len callback user_data destroy w = (case chan of
     None \<Rightarrow> Some (word_of_int (- EINVAL), w)
   | Some c \<Rightarrow> do {
       ch \<leftarrow> w_chan w c;
       if \<not> ch_att ch then Some (word_of_int (- EINVAL), w)
       else do {
         (x, w) \<leftarrow> create_att_send_op E opcode pdu len callback user_data destroy w;
         (case x of
            None \<Rightarrow> Some (word_of_int (- EINVAL), w)
          | Some p \<Rightarrow> do {
              w \<leftarrow> upd_chan c (\<lambda>ch. ch\<lparr>ch_queue := ch_queue ch @ [p]\<rparr>) w;
              w \<leftarrow> wakeup_chan_writer E c w;
              op \<leftarrow> w_op w p;
              Some (op_id op, w) }) } })"

definition match_op_id :: "'c world \<Rightarrow> u32 \<Rightarrow> nat \<Rightarrow> bool" where
  "match_op_id w i p = (case w_op w p of None \<Rightarrow> False | Some op \<Rightarrow> op_id op = i)"

text \<open>\<open>queue_remove_if (q, match_op_id, id)\<close> reads every operation up to the first match.\<close>

fun remove_op :: "'c world \<Rightarrow> u32 \<Rightarrow> nat list \<Rightarrow> (nat option \<times> nat list) option" where
  "remove_op w i [] = Some (None, [])"
| "remove_op w i (p # q) = do {
     _ \<leftarrow> w_op w p;
     if match_op_id w i p then Some (Some p, q)
     else do { (x, q) \<leftarrow> remove_op w i q; Some (x, p # q) } }"

definition bt_att_chan_cancel :: "'c env \<Rightarrow> nat \<Rightarrow> u32 \<Rightarrow> 'c world \<Rightarrow> (bool \<times> 'c world) option" where
  "bt_att_chan_cancel E c i w = do {
     ch \<leftarrow> w_chan w c;
     is_req \<leftarrow> op_has_id (pending_req ch) i w;
     if is_req then do { w \<leftarrow> on_some (cancel_att_send_op E) (pending_req ch) w; Some (True, w) }
     else do {
       is_ind \<leftarrow> op_has_id (pending_ind ch) i w;
       if is_ind then do { w \<leftarrow> on_some (cancel_att_send_op E) (pending_ind ch) w; Some (True, w) }
       else do {
         (x, q) \<leftarrow> remove_op w i (ch_queue ch);
         (case x of
            None \<Rightarrow> Some (False, w)
          | Some p \<Rightarrow> do {
              w \<leftarrow> destroy_att_send_op E p (set_chan c (ch\<lparr>ch_queue := q\<rparr>) w);
              w \<leftarrow> wakeup_chan_writer E c w;
              Some (True, w) }) } } }"

fun cancel_on_chans :: "'c env \<Rightarrow> nat list \<Rightarrow> u32 \<Rightarrow> 'c world \<Rightarrow> (bool \<times> 'c world) option" where
  "cancel_on_chans E [] i w = Some (False, w)"
| "cancel_on_chans E (c # cs) i w = do {
     (r, w) \<leftarrow> bt_att_chan_cancel E c i w;
     if r then Some (True, w) else cancel_on_chans E cs i w }"

definition bt_att_cancel :: "'c env \<Rightarrow> att_ptr \<Rightarrow> u32 \<Rightarrow> 'c world \<Rightarrow> (bool \<times> 'c world) option" where
  "bt_att_cancel E att i w =
     (if att = None \<or> i = 0 then Some (False, w)
      else do {
        a \<leftarrow> w_att w;
        (r, w) \<leftarrow> cancel_on_chans E (chans a) i w;
        if r then Some (True, w)
        else do {
          a \<leftarrow> w_att w;
          (x, q) \<leftarrow> remove_op w i (req_queue a);
          (x, w) \<leftarrow> (if x \<noteq> None then Some (x, set_att (a\<lparr>req_queue := q\<rparr>) w)
            else do {
              (x, q) \<leftarrow> remove_op w i (ind_queue a);
              if x \<noteq> None then Some (x, set_att (a\<lparr>ind_queue := q\<rparr>) w)
              else do {
                (x, q) \<leftarrow> remove_op w i (write_queue a);
                Some (x, set_att (a\<lparr>write_queue := q\<rparr>) w) } });
          (case x of
             None \<Rightarrow> Some (False, w)
           | Some p \<Rightarrow> do {
               w \<leftarrow> destroy_att_send_op E p w;
               w \<leftarrow> wakeup_writer E w;
               Some (True, w) }) } })"

text \<open>\<open>queue_remove_all\<close> without a match function takes the whole list out of the queue first.\<close>

definition drain_queues :: "(nat \<Rightarrow> 'c world \<Rightarrow> 'c world option) \<Rightarrow> 'c world \<Rightarrow> 'c world option" where
  "drain_queues f w = do {
     a \<leftarrow> w_att w;
     w \<leftarrow> each f (req_queue a) (set_att (a\<lparr>req_queue := []\<rparr>) w);
     a \<leftarrow> w_att w;
     w \<leftarrow> each f (ind_queue a) (set_att (a\<lparr>ind_queue := []\<rparr>) w);
     a \<leftarrow> w_att w;
     each f (write_queue a) (set_att (a\<lparr>write_queue := []\<rparr>) w) }"

definition cancel_pending :: "'c env \<Rightarrow> nat \<Rightarrow> 'c world \<Rightarrow> 'c world option" where
  "cancel_pending E c w = do {
     ch \<leftarrow> w_chan w c;
     w \<leftarrow> on_some (cancel_att_send_op E) (pending_req ch) w;
     ch \<leftarrow> w_chan w c;
     on_some (cancel_att_send_op E) (pending_ind ch) w }"

text \<open>The channels are those of the start; the reading of the next entry after the callbacks of a channel does not appear.\<close>

definition bt_att_cancel_all :: "'c env \<Rightarrow> att_ptr \<Rightarrow> 'c world \<Rightarrow> (bool \<times> 'c world) option" where
  "bt_att_cancel_all E att w = (case att of
     None \<Rightarrow> Some (False, w)
   | Some _ \<Rightarrow> do {
       w \<leftarrow> drain_queues (destroy_att_send_op E) w;
       a \<leftarrow> w_att w;
       w \<leftarrow> each (cancel_pending E) (chans a) w;
       Some (True, w) })"

section \<open>Release\<close>

text \<open>
  The three queues are released without destroying what they hold; \<open>bt_att_cancel_all\<close> has emptied them. In the code
  they, and the queues of handlers, are gone before the channels are freed; here they count as present until the end, so
  that a destroy function which calls the interface while the channels are freed is seen more favourably than it is.
\<close>

definition bt_att_free :: "'c env \<Rightarrow> 'c world \<Rightarrow> 'c world option" where
  "bt_att_free E w = do {
     a \<leftarrow> w_att w;
     w \<leftarrow> call_if E (timeout_destroy a) (\<lambda>f. CallDestroy f (timeout_data a)) w;
     a \<leftarrow> w_att w;
     w \<leftarrow> call_if E (debug_destroy a) (\<lambda>f. CallDestroy f (debug_data a)) w;
     a \<leftarrow> w_att w;
     w \<leftarrow> each (bt_att_chan_free E) (chans a) (set_att (a\<lparr>chans := []\<rparr>) w);
     _ \<leftarrow> w_att w;
     Some (w\<lparr>w_att := None\<rparr>) }"

definition bt_att_unref :: "'c env \<Rightarrow> att_ptr \<Rightarrow> 'c world \<Rightarrow> 'c world option" where
  "bt_att_unref E att w = (case att of
     None \<Rightarrow> Some w
   | Some _ \<Rightarrow> do {
       w \<leftarrow> upd_att (\<lambda>a. a\<lparr>a_ref_count := a_ref_count a - 1\<rparr>) w;
       a \<leftarrow> w_att w;
       if a_ref_count a \<noteq> 0 then Some w
       else do {
         (_, w) \<leftarrow> bt_att_unregister_all E (Some ()) w;
         (_, w) \<leftarrow> bt_att_cancel_all E (Some ()) w;
         bt_att_free E w } })"

section \<open>Settings\<close>

fun set_close_loop :: "socket \<Rightarrow> bool \<Rightarrow> nat list \<Rightarrow> 'c world \<Rightarrow> (bool \<times> 'c world) option" where
  "set_close_loop S do_close [] w = Some (True, w)"
| "set_close_loop S do_close (c # cs) w = do {
     ch \<leftarrow> w_chan w c;
     if \<not> io_set_close_on_destroy S (ch_fd ch) then Some (False, w)
     else set_close_loop S do_close cs (set_chan c (ch\<lparr>ch_io_close := do_close\<rparr>) w) }"

definition bt_att_set_close_on_unref :: "socket \<Rightarrow> att_ptr \<Rightarrow> bool \<Rightarrow> 'c world \<Rightarrow> (bool \<times> 'c world) option" where
  "bt_att_set_close_on_unref S att do_close w = (case att of
     None \<Rightarrow> Some (False, w)
   | Some _ \<Rightarrow> do {
       w \<leftarrow> upd_att (\<lambda>a. a\<lparr>close_on_unref := do_close\<rparr>) w;
       a \<leftarrow> w_att w;
       set_close_loop S do_close (chans a) w })"

definition bt_att_get_fd :: "att_ptr \<Rightarrow> 'c world \<Rightarrow> int option" where
  "bt_att_get_fd att w = (case att of
     None \<Rightarrow> Some (- 1)
   | Some _ \<Rightarrow> do {
       a \<leftarrow> w_att w;
       if chans a = [] then Some (- ENOTCONN)
       else do { ch \<leftarrow> w_chan w (last (chans a)); Some (ch_fd ch) } })"

definition bt_att_get_channels :: "att_ptr \<Rightarrow> 'c world \<Rightarrow> int option" where
  "bt_att_get_channels att w = (case att of
     None \<Rightarrow> Some 0 | Some _ \<Rightarrow> do { a \<leftarrow> w_att w; Some (int (length (chans a))) })"

definition bt_att_set_debug ::
  "'c env \<Rightarrow> att_ptr \<Rightarrow> func option \<Rightarrow> user \<Rightarrow> func option \<Rightarrow> 'c world \<Rightarrow> (bool \<times> 'c world) option" where
  "bt_att_set_debug E att callback user_data destroy w = (case att of
     None \<Rightarrow> Some (False, w)
   | Some _ \<Rightarrow> do {
       a \<leftarrow> w_att w;
       w \<leftarrow> call_if E (debug_destroy a) (\<lambda>f. CallDestroy f (debug_data a)) w;
       w \<leftarrow> upd_att (\<lambda>a. a\<lparr>debug_callback := callback, debug_destroy := destroy, debug_data := user_data\<rparr>) w;
       Some (True, w) })"

definition bt_att_get_mtu :: "att_ptr \<Rightarrow> 'c world \<Rightarrow> u16 option" where
  "bt_att_get_mtu att w = (case att of None \<Rightarrow> Some 0 | Some _ \<Rightarrow> do { a \<leftarrow> w_att w; Some (a_mtu a) })"

definition bt_att_set_mtu :: "att_ptr \<Rightarrow> u16 \<Rightarrow> 'c world \<Rightarrow> (bool \<times> 'c world) option" where
  "bt_att_set_mtu att mtu w = (case att of
     None \<Rightarrow> Some (False, w)
   | Some _ \<Rightarrow>
       if mtu < BT_ATT_DEFAULT_LE_MTU then Some (False, w)
       else do {
         a \<leftarrow> w_att w;
         if chans a = [] then Some (- ENOTCONN \<noteq> 0, w)
         else do {
           w \<leftarrow> upd_chan (last (chans a)) (\<lambda>ch. ch\<lparr>ch_mtu := mtu, ch_buf_at := w_next w,
             ch_buf := fresh (unat mtu)\<rparr>) w;
           w \<leftarrow> upd_att (\<lambda>a. if mtu > a_mtu a then a\<lparr>a_mtu := mtu\<rparr> else a) (w\<lparr>w_next := Suc (w_next w)\<rparr>);
           Some (True, w) } })"

definition bt_att_get_link_type :: "att_ptr \<Rightarrow> 'c world \<Rightarrow> u8 option" where
  "bt_att_get_link_type att w = (case att of
     None \<Rightarrow> Some (word_of_int (- EINVAL))
   | Some _ \<Rightarrow> do {
       a \<leftarrow> w_att w;
       if chans a = [] then Some (word_of_int (- ENOTCONN))
       else do { ch \<leftarrow> w_chan w (last (chans a)); Some (ch_type ch) } })"

definition bt_att_set_timeout_cb ::
  "'c env \<Rightarrow> att_ptr \<Rightarrow> func option \<Rightarrow> user \<Rightarrow> func option \<Rightarrow> 'c world \<Rightarrow> (bool \<times> 'c world) option" where
  "bt_att_set_timeout_cb E att callback user_data destroy w = (case att of
     None \<Rightarrow> Some (False, w)
   | Some _ \<Rightarrow> do {
       a \<leftarrow> w_att w;
       w \<leftarrow> call_if E (timeout_destroy a) (\<lambda>f. CallDestroy f (timeout_data a)) w;
       w \<leftarrow> upd_att (\<lambda>a. a\<lparr>timeout_callback := callback, timeout_destroy := destroy,
         timeout_data := user_data\<rparr>) w;
       Some (True, w) })"

section \<open>Error responses\<close>

definition att_ecode_from_error :: "int \<Rightarrow> u8" where
  "att_ecode_from_error err =
     (if err > 0 \<and> err < 255 then word_of_int err
      else if err = - ENOENT then 0x01
      else if err = - ENOMEM then 0x11
      else if err = - EALREADY then 0xfe
      else if err = - EOVERFLOW then 0xff
      else 0x0e)"

text \<open>The packed structure: opcode, handle in little-endian order, error code.\<close>

definition error_rsp_pdu :: "u8 \<Rightarrow> u16 \<Rightarrow> u8 \<Rightarrow> buf option" where
  "error_rsp_pdu opcode handle ecode = do {
     b \<leftarrow> memset (fresh 4) 0 0 4;
     b \<leftarrow> wr8 b 0 opcode;
     b \<leftarrow> put_le16 handle b 1;
     wr8 b 3 ecode }"

definition bt_att_chan_send_error_rsp ::
  "'c env \<Rightarrow> nat option \<Rightarrow> u8 \<Rightarrow> u16 \<Rightarrow> int \<Rightarrow> 'c world \<Rightarrow> (int \<times> 'c world) option" where
  "bt_att_chan_send_error_rsp E chan opcode handle err w = do {
     ok \<leftarrow> (case chan of None \<Rightarrow> Some False | Some c \<Rightarrow> do { ch \<leftarrow> w_chan w c; Some (ch_att ch) });
     if \<not> ok \<or> opcode = 0 then Some (- EINVAL, w)
     else do {
       pdu \<leftarrow> error_rsp_pdu opcode handle (att_ecode_from_error err);
       (r, w) \<leftarrow> bt_att_chan_send E chan BT_ATT_OP_ERROR_RSP (Some pdu) 4 None 0 None w;
       Some (sint r, w) } }"

section \<open>Signing keys\<close>

definition sign_set_key :: "sign_info option \<Rightarrow> buf \<Rightarrow> func \<Rightarrow> user \<Rightarrow> sign_info option" where
  "sign_set_key sign key f user_data = do {
     k \<leftarrow> rd_bytes key 0 16;
     Some \<lparr>s_key = k, s_counter = f, s_user_data = user_data\<rparr> }"

definition bt_att_set_local_key :: "att_ptr \<Rightarrow> buf \<Rightarrow> func \<Rightarrow> user \<Rightarrow> 'c world \<Rightarrow> (bool \<times> 'c world) option" where
  "bt_att_set_local_key att key f user_data w = (case att of
     None \<Rightarrow> Some (False, w)
   | Some _ \<Rightarrow> do {
       a \<leftarrow> w_att w;
       s \<leftarrow> sign_set_key (local_sign a) key f user_data;
       Some (True, set_att (a\<lparr>local_sign := Some s\<rparr>) w) })"

definition bt_att_set_remote_key :: "att_ptr \<Rightarrow> buf \<Rightarrow> func \<Rightarrow> user \<Rightarrow> 'c world \<Rightarrow> (bool \<times> 'c world) option" where
  "bt_att_set_remote_key att key f user_data w = (case att of
     None \<Rightarrow> Some (False, w)
   | Some _ \<Rightarrow> do {
       a \<leftarrow> w_att w;
       s \<leftarrow> sign_set_key (remote_sign a) key f user_data;
       Some (True, set_att (a\<lparr>remote_sign := Some s\<rparr>) w) })"

definition bt_att_has_crypto :: "att_ptr \<Rightarrow> 'c world \<Rightarrow> bool option" where
  "bt_att_has_crypto att w = (case att of
     None \<Rightarrow> Some False | Some _ \<Rightarrow> do { a \<leftarrow> w_att w; Some (a_crypto a \<noteq> None) })"

end
