(* ===== verification/AttRecv.thy ===== *)
theory AttRecv
  imports AttApi
begin

text \<open>
  \<^verbatim>\<open>bluez/src/shared/att.c\<close>: the events of the ATT bearer. Received PDUs (responses, confirmations,
  requests, commands and notifications) and the disconnection of a channel.
\<close>

section \<open>Responses and confirmations\<close>

definition change_security :: "'c env \<Rightarrow> nat \<Rightarrow> u8 \<Rightarrow> 'c world \<Rightarrow> (bool \<times> 'c world) option" where
  "change_security E c ecode w = do {
     ch \<leftarrow> w_chan w c;
     if ch_sec_level ch \<noteq> BT_ATT_SECURITY_AUTO then Some (False, w)
     else do {
       security \<leftarrow> bt_att_chan_get_security E c w;
       if ecode = 0x0f \<and> security < BT_ATT_SECURITY_MEDIUM then
         bt_att_chan_set_security E c BT_ATT_SECURITY_MEDIUM w
       else if ecode = 0x05 then
         (if security < BT_ATT_SECURITY_MEDIUM then bt_att_chan_set_security E c BT_ATT_SECURITY_MEDIUM w
          else if security < BT_ATT_SECURITY_HIGH then bt_att_chan_set_security E c BT_ATT_SECURITY_HIGH w
          else if security < BT_ATT_SECURITY_FIPS then bt_att_chan_set_security E c BT_ATT_SECURITY_FIPS w
          else Some (False, w))
       else Some (False, w) } }"

text \<open>The result, the opcode stored through the pointer \<open>opcode\<close>, and the state.\<close>

definition handle_error_rsp :: "'c env \<Rightarrow> nat \<Rightarrow> u8 list \<Rightarrow> 'c world \<Rightarrow> (bool \<times> u8 \<times> 'c world) option" where
  "handle_error_rsp E c pdu w =
     (if length pdu \<noteq> 4 then Some (False, 0, w)
      else do {
        opcode \<leftarrow> rd8 pdu 0;
        ecode \<leftarrow> rd8 pdu 3;
        (changed, w) \<leftarrow> change_security E c ecode w;
        if \<not> changed then Some (False, opcode, w)
        else do {
          ch \<leftarrow> w_chan w c;
          p \<leftarrow> pending_req ch;
          op \<leftarrow> w_op w p;
          w \<leftarrow> (if op_timeout_id op \<noteq> 0
            then upd_op p (\<lambda>op. op\<lparr>op_timeout_id := 0\<rparr>) (timeout_remove (op_timeout_id op) w) else Some w);
          w \<leftarrow> upd_chan c (\<lambda>ch. ch\<lparr>pending_req := None\<rparr>) w;
          w \<leftarrow> upd_att (\<lambda>a. a\<lparr>req_queue := p # req_queue a\<rparr>) w;
          Some (True, opcode, w) } })"

text \<open>The end of \<open>handle_rsp\<close> from its label \<open>done\<close> on.\<close>

definition finish_req :: "'c env \<Rightarrow> nat \<Rightarrow> nat \<Rightarrow> u8 \<Rightarrow> u8 list \<Rightarrow> 'c world \<Rightarrow> 'c world option" where
  "finish_req E c p rsp_opcode rsp_pdu w = do {
     op \<leftarrow> w_op w p;
     w \<leftarrow> call_if E (op_callback op) (\<lambda>f. CallResponse f rsp_opcode rsp_pdu (op_user_data op)) w;
     w \<leftarrow> destroy_att_send_op E p w;
     w \<leftarrow> upd_chan c (\<lambda>ch. ch\<lparr>pending_req := None\<rparr>) w;
     wakeup_chan_writer E c w }"

definition handle_rsp :: "'c env \<Rightarrow> nat \<Rightarrow> u8 \<Rightarrow> u8 list \<Rightarrow> 'c world \<Rightarrow> 'c world option" where
  "handle_rsp E c opcode pdu w = do {
     ch \<leftarrow> w_chan w c;
     (case pending_req ch of
        None \<Rightarrow> io_shutdown c w
      | Some p \<Rightarrow> do {
          (retry, req_opcode, w) \<leftarrow> (if opcode = BT_ATT_OP_ERROR_RSP then handle_error_rsp E c pdu w
            else Some (False, get_req_opcode opcode, w));
          if retry then wakeup_chan_writer E c w
          else do {
            op \<leftarrow> w_op w p;
            if (opcode \<noteq> BT_ATT_OP_ERROR_RSP \<and> req_opcode = 0) \<or> req_opcode \<noteq> op_opcode op
            then finish_req E c p BT_ATT_OP_ERROR_RSP [] w
            else finish_req E c p opcode pdu w } }) }"

definition handle_conf :: "'c env \<Rightarrow> nat \<Rightarrow> u8 list \<Rightarrow> 'c world \<Rightarrow> 'c world option" where
  "handle_conf E c pdu w = do {
     ch \<leftarrow> w_chan w c;
     (case pending_ind ch of
        None \<Rightarrow> io_shutdown c w
      | Some p \<Rightarrow>
          if pdu \<noteq> [] then io_shutdown c w
          else do {
            op \<leftarrow> w_op w p;
            w \<leftarrow> call_if E (op_callback op) (\<lambda>f. CallResponse f BT_ATT_OP_HANDLE_CONF [] (op_user_data op)) w;
            w \<leftarrow> destroy_att_send_op E p w;
            w \<leftarrow> upd_chan c (\<lambda>ch. ch\<lparr>pending_ind := None\<rparr>) w;
            wakeup_chan_writer E c w }) }"

section \<open>Requests, commands and notifications\<close>

definition opcode_match :: "u8 \<Rightarrow> u8 \<Rightarrow> bool" where
  "opcode_match opcode test_opcode = (let op_type = get_op_type test_opcode in
     if opcode = BT_ATT_ALL_REQUESTS \<and> (op_type = ATT_OP_TYPE_REQ \<or> op_type = ATT_OP_TYPE_CMD) then True
     else opcode = test_opcode)"

definition respond_not_supported :: "'c env \<Rightarrow> u8 \<Rightarrow> 'c world \<Rightarrow> 'c world option" where
  "respond_not_supported E opcode w = do {
     (_, w) \<leftarrow> bt_att_send E (Some ()) BT_ATT_OP_ERROR_RSP (Some [opcode, 0, 0, 0x06]) 4 None 0 None w;
     Some w }"

definition handle_signed :: "'c env \<Rightarrow> bt_att \<Rightarrow> buf \<Rightarrow> nat \<Rightarrow> bool option" where
  "handle_signed E att pdu pdu_len =
     (if pdu_len < 3 + BT_ATT_SIGNATURE_LEN then Some False
      else (case remote_sign att of
        None \<Rightarrow> Some False
      | Some sign \<Rightarrow> do {
          sign_cnt \<leftarrow> get_le32 pdu (pdu_len - BT_ATT_SIGNATURE_LEN);
          if \<not> fst (counter E (s_counter sign) (s_user_data sign) sign_cnt) then Some False
          else bt_crypto_verify_att_sign (a_crypto att) (s_key sign) pdu (of_nat pdu_len) }))"

text \<open>The read buffer of a channel, through a pointer obtained when it was at address \<open>at\<close>.\<close>

definition buf_at :: "nat \<Rightarrow> nat \<Rightarrow> 'c world \<Rightarrow> buf option" where
  "buf_at c at w = do { ch \<leftarrow> w_chan w c; if ch_buf_at ch = at then Some (ch_buf ch) else None }"

text \<open>
  How the walk over the handlers ends: with the return in the middle of the loop, or at the label
  \<open>not_supported\<close> with the variable \<open>found\<close>.
\<close>

datatype walk_end = Returned | Finished bool

partial_function (option) notify_loop ::
  "'c env \<Rightarrow> nat \<Rightarrow> nat \<Rightarrow> u8 \<Rightarrow> nat option \<Rightarrow> nat \<Rightarrow> bool \<Rightarrow> 'c world \<Rightarrow> (walk_end \<times> 'c world) option" where
  "notify_loop E c at opcode ent pdu_len found w = (case ent of
     None \<Rightarrow> Some (Finished found, w)
   | Some e \<Rightarrow> do {
       a \<leftarrow> w_att w;
       nxt \<leftarrow> next_entry e (notify_list a);
       n \<leftarrow> map_of (notify_list a) e;
       if \<not> opcode_match (ucast (n_opcode n)) opcode then notify_loop E c at opcode nxt pdu_len found w
       else do {
         sgn \<leftarrow> (if opcode AND ATT_OP_SIGNED_MASK \<noteq> 0 \<and> a_crypto a \<noteq> None
           then do { pdu \<leftarrow> buf_at c at w; ok \<leftarrow> handle_signed E a pdu pdu_len; Some (Some ok) }
           else Some None);
         if sgn = Some False then Some (Returned, w)
         else do {
           let pdu_len = (if sgn = None then pdu_len else pdu_len - BT_ATT_SIGNATURE_LEN);
           link \<leftarrow> bt_att_get_link_type (Some ()) w;
           if link = BT_ATT_BREDR \<and> opcode = BT_ATT_OP_MTU_REQ then Some (Finished found, w)
           else do {
             w \<leftarrow> (case n_callback n of
               None \<Rightarrow> Some w
             | Some f \<Rightarrow> do {
                 pdu \<leftarrow> buf_at c at w;
                 bs \<leftarrow> rd_bytes pdu 1 (pdu_len - 1);
                 call E (CallNotify f c opcode bs (n_user_data n)) w });
             a \<leftarrow> w_att w;
             if notify_list a = [] then Some (Finished True, w)
             else notify_loop E c at opcode nxt pdu_len True w } } } })"

text \<open>The equations that evaluation unfolds: one for each shape of the entry.\<close>

lemma notify_loop_unfold [code]:
  "notify_loop E c at opcode None pdu_len found w = Some (Finished found, w)"
  "notify_loop E c at opcode (Some e) pdu_len found w = do {
     a \<leftarrow> w_att w;
     nxt \<leftarrow> next_entry e (notify_list a);
     n \<leftarrow> map_of (notify_list a) e;
     if \<not> opcode_match (ucast (n_opcode n)) opcode then notify_loop E c at opcode nxt pdu_len found w
     else do {
       sgn \<leftarrow> (if opcode AND ATT_OP_SIGNED_MASK \<noteq> 0 \<and> a_crypto a \<noteq> None
         then do { pdu \<leftarrow> buf_at c at w; ok \<leftarrow> handle_signed E a pdu pdu_len; Some (Some ok) }
         else Some None);
       if sgn = Some False then Some (Returned, w)
       else do {
         let pdu_len = (if sgn = None then pdu_len else pdu_len - BT_ATT_SIGNATURE_LEN);
         link \<leftarrow> bt_att_get_link_type (Some ()) w;
         if link = BT_ATT_BREDR \<and> opcode = BT_ATT_OP_MTU_REQ then Some (Finished found, w)
         else do {
           w \<leftarrow> (case n_callback n of
             None \<Rightarrow> Some w
           | Some f \<Rightarrow> do {
               pdu \<leftarrow> buf_at c at w;
               bs \<leftarrow> rd_bytes pdu 1 (pdu_len - 1);
               call E (CallNotify f c opcode bs (n_user_data n)) w });
           a \<leftarrow> w_att w;
           if notify_list a = [] then Some (Finished True, w)
           else notify_loop E c at opcode nxt pdu_len True w } } } }"
  by (subst notify_loop.simps, simp)+

definition handle_notify :: "'c env \<Rightarrow> nat \<Rightarrow> nat \<Rightarrow> u8 \<Rightarrow> nat \<Rightarrow> 'c world \<Rightarrow> 'c world option" where
  "handle_notify E c at opcode pdu_len w = do {
     w \<leftarrow> bt_att_ref (Some ()) w;
     a \<leftarrow> w_att w;
     (r, w) \<leftarrow> notify_loop E c at opcode (first_entry (notify_list a)) pdu_len False w;
     (case r of
        Returned \<Rightarrow> Some w
      | Finished found \<Rightarrow> do {
          w \<leftarrow> (if \<not> found \<and> get_op_type opcode \<noteq> ATT_OP_TYPE_CMD then respond_not_supported E opcode w
                else Some w);
          bt_att_unref E (Some ()) w }) }"

section \<open>Reading\<close>

definition can_read_data :: "'c env \<Rightarrow> nat \<Rightarrow> 'c world \<Rightarrow> (bool \<times> 'c world) option" where
  "can_read_data E c w = do {
     ch \<leftarrow> w_chan w c;
     (case k_read E (ch_fd ch) (ch_mtu ch) of
        None \<Rightarrow> Some (False, w)
      | Some bs \<Rightarrow> do {
          b \<leftarrow> wr_bytes (ch_buf ch) 0 bs;
          let w = set_chan c (ch\<lparr>ch_buf := b\<rparr>) w;
          (case bs of
             [] \<Rightarrow> Some (True, w)
           | opcode # pdu \<Rightarrow> do {
               w \<leftarrow> bt_att_ref (Some ()) w;
               (case get_op_type opcode of
                  ATT_OP_TYPE_RSP \<Rightarrow> do {
                    w \<leftarrow> handle_rsp E c opcode pdu w;
                    w \<leftarrow> bt_att_unref E (Some ()) w;
                    Some (True, w) }
                | ATT_OP_TYPE_CONF \<Rightarrow> do {
                    w \<leftarrow> handle_conf E c pdu w;
                    w \<leftarrow> bt_att_unref E (Some ()) w;
                    Some (True, w) }
                | t \<Rightarrow>
                    if t = ATT_OP_TYPE_REQ \<and> in_req ch then do {
                      w \<leftarrow> io_shutdown c w;
                      w \<leftarrow> bt_att_unref E (Some ()) w;
                      Some (False, w) }
                    else do {
                      w \<leftarrow> (if t = ATT_OP_TYPE_REQ then upd_chan c (\<lambda>ch. ch\<lparr>in_req := True\<rparr>) w else Some w);
                      w \<leftarrow> handle_notify E c (ch_buf_at ch) opcode (length bs) w;
                      w \<leftarrow> bt_att_unref E (Some ()) w;
                      Some (True, w) }) }) }) }"

section \<open>Disconnection\<close>

definition disconn_handler :: "'c env \<Rightarrow> int \<Rightarrow> att_disconn \<Rightarrow> 'c world \<Rightarrow> 'c world option" where
  "disconn_handler E err d w =
     (if d_removed d then Some w
      else call_if E (d_callback d) (\<lambda>f. CallDisconnect f err (d_user_data d)) w)"

partial_function (option) disconn_loop :: "'c env \<Rightarrow> int \<Rightarrow> nat option \<Rightarrow> 'c world \<Rightarrow> 'c world option" where
  "disconn_loop E err ent w = do {
     a \<leftarrow> w_att w;
     (case ent of
        None \<Rightarrow> Some w
      | Some e \<Rightarrow>
          if disconn_list a = [] then Some w
          else do {
            nxt \<leftarrow> next_entry e (disconn_list a);
            d \<leftarrow> map_of (disconn_list a) e;
            w \<leftarrow> disconn_handler E err d w;
            disconn_loop E err nxt w }) }"

lemma disconn_loop_unfold [code]:
  "disconn_loop E err None w = do { a \<leftarrow> w_att w; Some w }"
  "disconn_loop E err (Some e) w = do {
     a \<leftarrow> w_att w;
     if disconn_list a = [] then Some w
     else do {
       nxt \<leftarrow> next_entry e (disconn_list a);
       d \<leftarrow> map_of (disconn_list a) e;
       w \<leftarrow> disconn_handler E err d w;
       disconn_loop E err nxt w } }"
  by (subst disconn_loop.simps, simp)+

definition disconnect_cb :: "'c env \<Rightarrow> nat \<Rightarrow> 'c world \<Rightarrow> 'c world option" where
  "disconnect_cb E c w = do {
     ch \<leftarrow> w_chan w c;
     let err = (case so_error E (ch_fd ch) of None \<Rightarrow> 0 | Some e \<Rightarrow> e);
     w \<leftarrow> upd_att (\<lambda>a. a\<lparr>chans := remove1 c (chans a)\<rparr>) w;
     w \<leftarrow> drain_queues (disc_att_send_op E) w;
     ch \<leftarrow> w_chan w c;
     w \<leftarrow> (case pending_req ch of
       None \<Rightarrow> Some w
     | Some p \<Rightarrow> do { w \<leftarrow> disc_att_send_op E p w; upd_chan c (\<lambda>ch. ch\<lparr>pending_req := None\<rparr>) w });
     ch \<leftarrow> w_chan w c;
     w \<leftarrow> (case pending_ind ch of
       None \<Rightarrow> Some w
     | Some p \<Rightarrow> do { w \<leftarrow> disc_att_send_op E p w; upd_chan c (\<lambda>ch. ch\<lparr>pending_ind := None\<rparr>) w });
     w \<leftarrow> bt_att_chan_free E c w;
     a \<leftarrow> w_att w;
     if chans a \<noteq> [] then Some w
     else do {
       w \<leftarrow> bt_att_ref (Some ()) w;
       a \<leftarrow> w_att w;
       w \<leftarrow> disconn_loop E err (first_entry (disconn_list a)) w;
       (_, w) \<leftarrow> bt_att_unregister_all E (Some ()) w;
       bt_att_unref E (Some ()) w } }"

end
