(* ===== verification/AttStep.thy ===== *)
theory AttStep
  imports AttRecv
begin

text \<open>
  \<^verbatim>\<open>bluez/src/shared/att.c\<close>: the bearer under its main loop. The calls a client can make, a
  client that makes some of them from inside its callbacks, the events that the main loop delivers one
  at a time, and the states that can be reached. Nothing here is a function of the C file: the handlers
  the events run are in \<open>AttCore\<close>, \<open>AttApi\<close> and \<open>AttRecv\<close>.
\<close>

section \<open>Calls of the client\<close>

text \<open>The functions of the interface that the client calls on a live bearer, with their arguments.\<close>

datatype api =
    Send u8 "buf option" u16 "func option" user "func option"
  | ChanSend nat u8 "buf option" u16 "func option" user "func option"
  | ChanSendErrorRsp nat u8 u16 int
  | Cancel u32
  | ChanCancel nat u32
  | CancelAll
  | Register u8 "func option" user "func option"
  | Unregister u32
  | RegisterDisconnect "func option" user "func option"
  | UnregisterDisconnect u32
  | UnregisterAll
  | SetMtu u16
  | SetDebug "func option" user "func option"
  | SetTimeoutCb "func option" user "func option"
  | SetLocalKey buf func user
  | SetRemoteKey buf func user
  | SetSecurity int
  | SetEncKeySize u8
  | SetCloseOnUnref bool

definition result_state :: "('a \<times> 'c world) option \<Rightarrow> 'c world option" where
  "result_state r = map_option snd r"

fun api_run :: "'c env \<Rightarrow> socket \<Rightarrow> api \<Rightarrow> 'c world \<Rightarrow> 'c world option" where
  "api_run E S (Send opcode pdu len cb ud d) w = result_state (bt_att_send E (Some ()) opcode pdu len cb ud d w)"
| "api_run E S (ChanSend c opcode pdu len cb ud d) w =
     result_state (bt_att_chan_send E (Some c) opcode pdu len cb ud d w)"
| "api_run E S (ChanSendErrorRsp c opcode handle err) w =
     result_state (bt_att_chan_send_error_rsp E (Some c) opcode handle err w)"
| "api_run E S (Cancel i) w = result_state (bt_att_cancel E (Some ()) i w)"
| "api_run E S (ChanCancel c i) w = result_state (bt_att_chan_cancel E c i w)"
| "api_run E S CancelAll w = result_state (bt_att_cancel_all E (Some ()) w)"
| "api_run E S (Register opcode cb ud d) w = result_state (bt_att_register (Some ()) opcode cb ud d w)"
| "api_run E S (Unregister i) w = result_state (bt_att_unregister E (Some ()) i w)"
| "api_run E S (RegisterDisconnect cb ud d) w = result_state (bt_att_register_disconnect (Some ()) cb ud d w)"
| "api_run E S (UnregisterDisconnect i) w = result_state (bt_att_unregister_disconnect E (Some ()) i w)"
| "api_run E S UnregisterAll w = result_state (bt_att_unregister_all E (Some ()) w)"
| "api_run E S (SetMtu mtu) w = result_state (bt_att_set_mtu (Some ()) mtu w)"
| "api_run E S (SetDebug cb ud d) w = result_state (bt_att_set_debug E (Some ()) cb ud d w)"
| "api_run E S (SetTimeoutCb cb ud d) w = result_state (bt_att_set_timeout_cb E (Some ()) cb ud d w)"
| "api_run E S (SetLocalKey key f ud) w = result_state (bt_att_set_local_key (Some ()) key f ud w)"
| "api_run E S (SetRemoteKey key f ud) w = result_state (bt_att_set_remote_key (Some ()) key f ud w)"
| "api_run E S (SetSecurity level) w = result_state (bt_att_set_security E (Some ()) level w)"
| "api_run E S (SetEncKeySize n) w = bt_att_set_enc_key_size (Some ()) n w"
| "api_run E S (SetCloseOnUnref b) w = result_state (bt_att_set_close_on_unref S (Some ()) b w)"

text \<open>
  What a caller has to respect. A PDU is as long as its length says and leaves room in the 16 bits of
  \<open>pdu_len\<close>; a channel is one of the bearer's; requests and indications go through \<open>bt_att_send\<close>; a key
  has 16 bytes.
\<close>

definition arg_ok :: "buf option \<Rightarrow> u16 \<Rightarrow> bool" where
  "arg_ok pdu len \<longleftrightarrow> unat len + 13 < 65536 \<and> (case pdu of None \<Rightarrow> len = 0 | Some b \<Rightarrow> unat len \<le> length b)"

definition is_chan :: "nat \<Rightarrow> 'c world \<Rightarrow> bool" where
  "is_chan c w = (case w_att w of None \<Rightarrow> False | Some a \<Rightarrow> c \<in> set (chans a))"

fun api_ok :: "api \<Rightarrow> 'c world \<Rightarrow> bool" where
  "api_ok (Send opcode pdu len cb ud d) w = arg_ok pdu len"
| "api_ok (ChanSend c opcode pdu len cb ud d) w = (is_chan c w \<and> arg_ok pdu len \<and>
     get_op_type opcode \<noteq> ATT_OP_TYPE_REQ \<and> get_op_type opcode \<noteq> ATT_OP_TYPE_IND)"
| "api_ok (ChanSendErrorRsp c opcode handle err) w = is_chan c w"
| "api_ok (ChanCancel c i) w = is_chan c w"
| "api_ok (SetLocalKey key f ud) w = (16 \<le> length key)"
| "api_ok (SetRemoteKey key f ud) w = (16 \<le> length key)"
| "api_ok _ w = True"

text \<open>
  A client that reacts to a callback with calls of its own, while the calls that its calls lead to are
  nested less than \<open>n\<close> deep; it leaves out a call that \<open>api_ok\<close> does not allow.
\<close>

primrec client_at :: "nat \<Rightarrow> 'c env \<Rightarrow> socket \<Rightarrow> (client_call \<Rightarrow> 'c world \<Rightarrow> api list) \<Rightarrow> client_call \<Rightarrow> 'c world \<Rightarrow> 'c world option"
where
  "client_at 0 E S policy = (\<lambda>c w. Some w)"
| "client_at (Suc n) E S policy = (\<lambda>c w.
     each (\<lambda>x w. if api_ok x w then api_run (E\<lparr>client := client_at n E S policy\<rparr>) S x w else Some w) (policy c w) w)"

text \<open>The first identifier, from 1 on, that no timer has: one of as many and one more than there are.\<close>

fun timer_ids :: "'a list \<Rightarrow> u32 \<Rightarrow> u32 list" where
  "timer_ids [] t = [t]"
| "timer_ids (x # xs) t = t # timer_ids xs (t + 1)"

definition free_timer :: "'c world \<Rightarrow> u32" where
  "free_timer w = (case find (\<lambda>t. t \<notin> fst ` set (w_timers w)) (timer_ids (w_timers w) 1) of
     None \<Rightarrow> 0 | Some t \<Rightarrow> t)"

text \<open>The environment with that client, with such timers and with a \<open>read\<close> that respects its bound.\<close>

definition env_at :: "nat \<Rightarrow> 'c env \<Rightarrow> socket \<Rightarrow> (client_call \<Rightarrow> 'c world \<Rightarrow> api list) \<Rightarrow> 'c env" where
  "env_at n E S policy = (let E = E\<lparr>timeout_add := free_timer,
       k_read := (\<lambda>fd m. map_option (take (unat m)) (k_read E fd m))\<rparr> in
     E\<lparr>client := client_at n E S policy\<rparr>)"

section \<open>Events\<close>

datatype event =
    EvWrite nat
  | EvWriteDone nat
  | EvRead nat
  | EvTimer u32 nat u32
  | EvHangup nat
  | EvApi api
  | EvAttach int
  | EvRef
  | EvUnref

text \<open>The main loop drops the source of a timer when it fires.\<close>

fun run_event :: "'c env \<Rightarrow> socket \<Rightarrow> event \<Rightarrow> 'c world \<Rightarrow> 'c world option" where
  "run_event E S (EvWrite c) w = result_state (can_write_data E c w)"
| "run_event E S (EvWriteDone c) w = write_watch_destroy c w"
| "run_event E S (EvRead c) w = result_state (can_read_data E c w)"
| "run_event E S (EvTimer t c i) w = timeout_cb E c i (timeout_remove t w)"
| "run_event E S (EvHangup c) w = disconnect_cb E c w"
| "run_event E S (EvApi x) w = api_run E S x w"
| "run_event E S (EvAttach fd) w = result_state (bt_att_attach_fd E S (Some ()) fd w)"
| "run_event E S EvRef w = bt_att_ref (Some ()) w"
| "run_event E S EvUnref w = bt_att_unref E (Some ()) w"

fun run_events :: "'c env \<Rightarrow> socket \<Rightarrow> event list \<Rightarrow> 'c world \<Rightarrow> 'c world option" where
  "run_events E S [] w = Some w"
| "run_events E S (ev # evs) w = do { w \<leftarrow> run_event E S ev w; run_events E S evs w }"

text \<open>
  When an event can happen: channels that are there, timers that are pending (while fewer timers than
  identifiers are), calls that respect the interface, the release of a reference that is not the last.
  The two operations that wait for an answer on a channel have different identifiers when its timer
  fires, unless the 32-bit identifiers have wrapped.
\<close>

definition distinct_pending :: "nat \<Rightarrow> 'c world \<Rightarrow> bool" where
  "distinct_pending c w = (case w_chan w c of
     None \<Rightarrow> False
   | Some ch \<Rightarrow> (case (pending_req ch, pending_ind ch) of
       (Some p, Some q) \<Rightarrow> map_option op_id (w_op w p) \<noteq> map_option op_id (w_op w q)
     | _ \<Rightarrow> True))"

fun enabled :: "event \<Rightarrow> 'c world \<Rightarrow> bool" where
  "enabled (EvWrite c) w = (is_chan c w \<and> length (w_timers w) < 4294967295)"
| "enabled (EvWriteDone c) w = is_chan c w"
| "enabled (EvRead c) w = is_chan c w"
| "enabled (EvTimer t c i) w = ((t, c, i) \<in> set (w_timers w) \<and> distinct_pending c w)"
| "enabled (EvHangup c) w = is_chan c w"
| "enabled (EvApi x) w = api_ok x w"
| "enabled (EvAttach fd) w = True"
| "enabled EvRef w = True"
| "enabled EvUnref w = (case w_att w of None \<Rightarrow> False | Some a \<Rightarrow> 2 \<le> a_ref_count a)"

definition empty_world :: "'c \<Rightarrow> 'c world" where
  "empty_world u = \<lparr>w_att = None, w_chan = (\<lambda>_. None), w_op = (\<lambda>_. None), w_next = 1, w_timers = [],
     w_calls = [], w_wire = [], w_user = u\<rparr>"

inductive reachable :: "'c env \<Rightarrow> socket \<Rightarrow> alg_kernel option \<Rightarrow> 'c world \<Rightarrow> bool"
  for E :: "'c env" and S :: socket and crypto :: "alg_kernel option" where
  created: "bt_att_new E S crypto fd ext_signed (empty_world u) = Some (Some (), w) \<Longrightarrow> reachable E S crypto w"
| event: "reachable E S crypto w \<Longrightarrow> enabled ev w \<Longrightarrow> run_event E S ev w = Some w' \<Longrightarrow> reachable E S crypto w'"

inductive_cases reachable_cases: "reachable E S crypto w"
end
