(* ===== verification/AttInv.thy ===== *)
theory AttInv
  imports AttStep CryptoSpec
begin

text \<open>
  What the ATT bearer keeps true. Every operation is in one place (a queue, or waiting for an answer on
  a channel), is live and has the type of its place; every timer belongs to an operation that waits. The
  relation \<open>keeps\<close> is what a reaction of the client to a callback may change: it leaves the operations
  that the bearer has taken out of its queues, the ones that wait for an answer and the timers alone.
  The lemmas state how the atomic changes of the state keep both.
\<close>

section \<open>Safe computations\<close>

definition ensures :: "'a option \<Rightarrow> ('a \<Rightarrow> bool) \<Rightarrow> bool" where
  "ensures x Q = (\<exists>y. x = Some y \<and> Q y)"

lemma ensures_Some [simp]: "ensures (Some y) Q = Q y"
  by (simp add: ensures_def)

lemma ensures_None [simp]: "\<not> ensures None Q"
  by (simp add: ensures_def)

lemma ensures_bind [simp]: "ensures (Option.bind x f) Q = ensures x (\<lambda>y. ensures (f y) Q)"
  by (cases x) simp_all

lemma ensures_mono: "ensures x P \<Longrightarrow> (\<And>y. P y \<Longrightarrow> Q y) \<Longrightarrow> ensures x Q"
  by (auto simp: ensures_def)

lemma ensures_eq: "x = Some y \<Longrightarrow> ensures x Q = Q y"
  by simp

section \<open>Where operations are\<close>

datatype place = AtReq | AtInd | AtWrite | AtChan nat | AtPendReq nat | AtPendInd nat

definition opt_list :: "'a option \<Rightarrow> 'a list" where
  "opt_list x = (case x of None \<Rightarrow> [] | Some y \<Rightarrow> [y])"

lemma opt_list_simps [simp]: "opt_list None = []" "opt_list (Some y) = [y]"
  by (simp_all add: opt_list_def)

lemma set_opt_list [simp]: "set (opt_list x) = set_option x"
  by (cases x) simp_all

lemma distinct_opt_list [simp]: "distinct (opt_list x)"
  by (cases x) simp_all

definition on_chan :: "'c world \<Rightarrow> bt_att \<Rightarrow> nat \<Rightarrow> (bt_att_chan \<Rightarrow> nat list) \<Rightarrow> nat list" where
  "on_chan w a c f = (if c \<in> set (chans a) then (case w_chan w c of None \<Rightarrow> [] | Some ch \<Rightarrow> f ch) else [])"

fun place_ops :: "'c world \<Rightarrow> bt_att \<Rightarrow> place \<Rightarrow> nat list" where
  "place_ops w a AtReq = req_queue a"
| "place_ops w a AtInd = ind_queue a"
| "place_ops w a AtWrite = write_queue a"
| "place_ops w a (AtChan c) = on_chan w a c ch_queue"
| "place_ops w a (AtPendReq c) = on_chan w a c (\<lambda>ch. opt_list (pending_req ch))"
| "place_ops w a (AtPendInd c) = on_chan w a c (\<lambda>ch. opt_list (pending_ind ch))"

definition owned :: "(place \<Rightarrow> nat list) \<Rightarrow> nat set" where
  "owned L = (\<Union>pl. set (L pl))"

lemma owned_iff: "p \<in> owned L \<longleftrightarrow> (\<exists>pl. p \<in> set (L pl))"
  by (simp add: owned_def)

definition layout :: "(place \<Rightarrow> nat list) \<Rightarrow> bool" where
  "layout L \<longleftrightarrow> (\<forall>pl. distinct (L pl)) \<and>
     (\<forall>pl pl' p. p \<in> set (L pl) \<longrightarrow> p \<in> set (L pl') \<longrightarrow> pl = pl')"

lemma layout_sub:
  assumes "layout L" "\<And>pl. set (L' pl) \<subseteq> set (L pl)" "\<And>pl. distinct (L' pl)"
  shows "layout L'"
  using assms unfolding layout_def by (meson subsetD)

lemma layout_add:
  assumes "layout L" "p \<notin> owned L" "distinct ps" "set ps = insert p (set (L pl))"
  shows "layout (L(pl := ps))"
  using assms unfolding layout_def owned_iff by (auto simp: fun_upd_def split: if_splits)

section \<open>Well-formed operations\<close>

definition op_wf :: "u16 \<Rightarrow> att_send_op \<Rightarrow> bool" where
  "op_wf mtu op \<longleftrightarrow> length (op_pdu op) = unat (op_len op) \<and> op_pdu op \<noteq> [] \<and>
     hd (op_pdu op) = op_opcode op \<and> op_type op = get_op_type (op_opcode op) \<and>
     op_type op \<noteq> ATT_OP_TYPE_UNKNOWN \<and> op_len op \<le> mtu"

fun op_at :: "place \<Rightarrow> att_send_op \<Rightarrow> bool" where
  "op_at AtReq op \<longleftrightarrow> op_type op = ATT_OP_TYPE_REQ \<and> op_timeout_id op = 0"
| "op_at AtInd op \<longleftrightarrow> op_type op = ATT_OP_TYPE_IND \<and> op_timeout_id op = 0"
| "op_at AtWrite op \<longleftrightarrow> op_type op \<noteq> ATT_OP_TYPE_REQ \<and> op_type op \<noteq> ATT_OP_TYPE_IND \<and> op_timeout_id op = 0"
| "op_at (AtChan c) op \<longleftrightarrow> op_type op \<noteq> ATT_OP_TYPE_REQ \<and> op_type op \<noteq> ATT_OP_TYPE_IND \<and> op_timeout_id op = 0"
| "op_at (AtPendReq c) op \<longleftrightarrow> op_type op = ATT_OP_TYPE_REQ"
| "op_at (AtPendInd c) op \<longleftrightarrow> op_type op = ATT_OP_TYPE_IND"

definition ops_ok :: "(nat \<Rightarrow> att_send_op option) \<Rightarrow> u16 \<Rightarrow> (place \<Rightarrow> nat list) \<Rightarrow> bool" where
  "ops_ok h mtu L \<longleftrightarrow> layout L \<and>
     (\<forall>pl p. p \<in> set (L pl) \<longrightarrow> (\<exists>op. h p = Some op \<and> op_wf mtu op \<and> op_at pl op))"

lemma ops_okD: "ops_ok h mtu L \<Longrightarrow> p \<in> set (L pl) \<Longrightarrow> \<exists>op. h p = Some op \<and> op_wf mtu op \<and> op_at pl op"
  by (simp add: ops_ok_def)

lemma ops_ok_layout: "ops_ok h mtu L \<Longrightarrow> layout L"
  by (simp add: ops_ok_def)

lemma ops_ok_sub:
  assumes "ops_ok h mtu L" "\<And>pl. set (L' pl) \<subseteq> set (L pl)" "\<And>pl. distinct (L' pl)"
  shows "ops_ok h mtu L'"
  using assms layout_sub [of L L'] unfolding ops_ok_def by blast

lemma ops_ok_add:
  assumes "ops_ok h mtu L" "p \<notin> owned L" "h p = Some op" "op_wf mtu op" "op_at pl op"
    "distinct ps" "set ps = insert p (set (L pl))"
  shows "ops_ok h mtu (L(pl := ps))"
  using assms layout_add [of L p ps pl] unfolding ops_ok_def by auto

lemma op_wf_mtu: "op_wf mtu op \<Longrightarrow> mtu \<le> mtu' \<Longrightarrow> op_wf mtu' op"
  by (auto simp: op_wf_def)

lemma ops_ok_mtu: "ops_ok h mtu L \<Longrightarrow> mtu \<le> mtu' \<Longrightarrow> ops_ok h mtu' L"
  unfolding ops_ok_def by (meson op_wf_mtu)

lemma ops_ok_unowned: "ops_ok h mtu L \<Longrightarrow> p \<notin> owned L \<Longrightarrow> ops_ok (h(p := x)) mtu L"
  unfolding ops_ok_def owned_iff by auto

lemma ops_ok_update:
  assumes "ops_ok h mtu L" "h p = Some op" "op_wf mtu op \<Longrightarrow> op_wf mtu op'" "\<And>pl. op_at pl op \<Longrightarrow> op_at pl op'"
  shows "ops_ok (h(p := Some op')) mtu L"
proof -
  have "\<exists>o'. (h(p := Some op')) q = Some o' \<and> op_wf mtu o' \<and> op_at pl o'" if "q \<in> set (L pl)" for pl q
    using ops_okD [OF assms(1) that] assms(2-) by (cases "q = p") auto
  then show ?thesis
    using ops_ok_layout [OF assms(1)] by (simp add: ops_ok_def)
qed

section \<open>Well-formed states\<close>

definition chan_ok :: "bt_att_chan \<Rightarrow> bool" where
  "chan_ok ch \<longleftrightarrow> ch_att ch \<and> length (ch_buf ch) = unat (ch_mtu ch) \<and> BT_ATT_DEFAULT_LE_MTU \<le> ch_mtu ch"

definition chans_ok :: "'c world \<Rightarrow> bt_att \<Rightarrow> bool" where
  "chans_ok w a \<longleftrightarrow> distinct (chans a) \<and> (\<forall>c \<in> set (chans a). \<exists>ch. w_chan w c = Some ch \<and> chan_ok ch)"

text \<open>Operations waiting for an answer on a channel.\<close>

definition pend :: "bt_att_chan \<Rightarrow> nat set" where
  "pend ch = set_option (pending_req ch) \<union> set_option (pending_ind ch)"

definition timers_ok :: "'c world \<Rightarrow> bt_att \<Rightarrow> bool" where
  "timers_ok w a \<longleftrightarrow> distinct (map fst (w_timers w)) \<and> 0 \<notin> fst ` set (w_timers w) \<and>
     (\<forall>t c i. (t, c, i) \<in> set (w_timers w) \<longrightarrow> c \<in> set (chans a) \<longrightarrow>
        (\<exists>ch p op. w_chan w c = Some ch \<and> p \<in> pend ch \<and> w_op w p = Some op \<and>
           op_timeout_id op = t \<and> op_id op = i))"

definition fresh_ok :: "'c world \<Rightarrow> bool" where
  "fresh_ok w \<longleftrightarrow> (\<forall>p. w_next w \<le> p \<longrightarrow> w_op w p = None \<and> w_chan w p = None)"

definition keys_ok :: "bt_att \<Rightarrow> bool" where
  "keys_ok a \<longleftrightarrow> (\<forall>K. a_crypto a = Some K \<longrightarrow> kernel_ok K) \<and>
     (\<forall>s. local_sign a = Some s \<longrightarrow> length (s_key s) = 16) \<and>
     (\<forall>s. remote_sign a = Some s \<longrightarrow> length (s_key s) = 16)"

definition handlers_ok :: "'c world \<Rightarrow> bt_att \<Rightarrow> bool" where
  "handlers_ok w a \<longleftrightarrow> distinct (map fst (notify_list a)) \<and> distinct (map fst (disconn_list a)) \<and>
     (\<forall>e \<in> fst ` set (notify_list a) \<union> fst ` set (disconn_list a). e < w_next w)"

definition wf_with :: "'c world \<Rightarrow> bt_att \<Rightarrow> bool" where
  "wf_with w a \<longleftrightarrow> w_att w = Some a \<and> chans_ok w a \<and> ops_ok (w_op w) (a_mtu a) (place_ops w a) \<and>
     timers_ok w a \<and> fresh_ok w \<and> keys_ok a \<and> handlers_ok w a"

definition wf :: "'c world \<Rightarrow> bool" where
  "wf w \<longleftrightarrow> (\<exists>a. wf_with w a)"

lemma wf_withD:
  assumes "wf_with w a"
  shows "w_att w = Some a" "chans_ok w a" "ops_ok (w_op w) (a_mtu a) (place_ops w a)" "timers_ok w a"
    "fresh_ok w" "keys_ok a" "handlers_ok w a"
  using assms by (simp_all add: wf_with_def)

lemma wf_withI: "wf_with w a \<Longrightarrow> wf w"
  by (auto simp: wf_def)

lemma wf_with_chan:
  "wf_with w a \<Longrightarrow> c \<in> set (chans a) \<Longrightarrow> \<exists>ch. w_chan w c = Some ch \<and> chan_ok ch"
  by (simp add: wf_with_def chans_ok_def)

section \<open>What a reaction leaves alone\<close>

definition same_op :: "att_send_op \<Rightarrow> att_send_op \<Rightarrow> bool" where
  "same_op op op' \<longleftrightarrow> op_id op' = op_id op \<and> op_type op' = op_type op \<and> op_opcode op' = op_opcode op \<and>
     op_timeout_id op' = op_timeout_id op \<and> op_pdu op' = op_pdu op \<and> op_len op' = op_len op"

definition same_pend :: "'c world \<Rightarrow> 'c world \<Rightarrow> nat \<Rightarrow> bool" where
  "same_pend w w' c \<longleftrightarrow> (\<exists>ch ch'. w_chan w c = Some ch \<and> w_chan w' c = Some ch' \<and>
     pending_req ch' = pending_req ch \<and> pending_ind ch' = pending_ind ch \<and>
     ch_fd ch' = ch_fd ch \<and> ch_type ch' = ch_type ch \<and> in_req ch' = in_req ch \<and>
     (\<forall>p \<in> pend ch. \<exists>op op'. w_op w p = Some op \<and> w_op w' p = Some op' \<and> same_op op op'))"

definition frame_att :: "nat set \<Rightarrow> 'c world \<Rightarrow> bt_att \<Rightarrow> 'c world \<Rightarrow> bt_att \<Rightarrow> bool" where
  "frame_att X w a w' a' \<longleftrightarrow> w_att w = Some a \<and> w_att w' = Some a' \<and>
     a_ref_count a' = a_ref_count a \<and> w_next w \<le> w_next w' \<and> w_timers w' = w_timers w \<and>
     (\<forall>p < w_next w. p \<notin> owned (place_ops w a) \<longrightarrow> p \<notin> X \<longrightarrow>
        w_op w' p = w_op w p \<and> p \<notin> owned (place_ops w' a')) \<and>
     (\<forall>c < w_next w. c \<notin> set (chans a) \<longrightarrow> w_chan w' c = w_chan w c \<and> c \<notin> set (chans a')) \<and>
     (\<forall>c \<in> set (chans a). c \<in> set (chans a') \<and> same_pend w w' c)"

definition frame :: "nat set \<Rightarrow> 'c world \<Rightarrow> 'c world \<Rightarrow> bool" where
  "frame X w w' \<longleftrightarrow> (\<exists>a a'. frame_att X w a w' a')"

section \<open>Framing\<close>

lemma place_ops_cong:
  assumes "chans a' = chans a" "req_queue a' = req_queue a" "ind_queue a' = ind_queue a"
    "write_queue a' = write_queue a" "w_chan w' = w_chan w"
  shows "place_ops w' a' = place_ops w a"
proof
  fix pl show "place_ops w' a' pl = place_ops w a pl"
    using assms by (cases pl) (simp_all add: on_chan_def)
qed

lemma place_ops_w [simp]:
  "place_ops (w\<lparr>w_calls := x\<rparr>) a = place_ops w a" "place_ops (w\<lparr>w_wire := y\<rparr>) a = place_ops w a"
  "place_ops (w\<lparr>w_timers := t\<rparr>) a = place_ops w a" "place_ops (w\<lparr>w_op := h\<rparr>) a = place_ops w a"
  "place_ops (w\<lparr>w_next := n\<rparr>) a = place_ops w a" "place_ops (set_op p op w) a = place_ops w a"
  "place_ops (set_att a'' w) a = place_ops w a" "place_ops (w\<lparr>w_att := z\<rparr>) a = place_ops w a"
  by (rule place_ops_cong; simp add: set_op_def set_att_def)+

lemma wf_with_log [simp]:
  "wf_with (w\<lparr>w_calls := x\<rparr>) a = wf_with w a" "wf_with (w\<lparr>w_wire := y\<rparr>) a = wf_with w a"
  by (simp_all add: wf_with_def chans_ok_def timers_ok_def fresh_ok_def handlers_ok_def)

lemma wf_log [simp]: "wf (w\<lparr>w_calls := x\<rparr>) = wf w" "wf (w\<lparr>w_wire := y\<rparr>) = wf w"
  by (simp_all add: wf_def)

lemma frame_att_log [simp]:
  "frame_att X (w\<lparr>w_calls := x\<rparr>) a w' a' = frame_att X w a w' a'"
  "frame_att X w a (w'\<lparr>w_calls := x\<rparr>) a' = frame_att X w a w' a'"
  "frame_att X (w\<lparr>w_wire := y\<rparr>) a w' a' = frame_att X w a w' a'"
  "frame_att X w a (w'\<lparr>w_wire := y\<rparr>) a' = frame_att X w a w' a'"
  by (simp_all add: frame_att_def same_pend_def)

lemma frame_log [simp]:
  "frame X (w\<lparr>w_calls := x\<rparr>) w' = frame X w w'" "frame X w (w'\<lparr>w_calls := x\<rparr>) = frame X w w'"
  "frame X (w\<lparr>w_wire := y\<rparr>) w' = frame X w w'" "frame X w (w'\<lparr>w_wire := y\<rparr>) = frame X w w'"
  by (simp_all add: frame_def)

lemma same_op_refl [simp]: "same_op op op"
  by (simp add: same_op_def)

lemma same_op_trans: "same_op x y \<Longrightarrow> same_op y z \<Longrightarrow> same_op x z"
  by (simp add: same_op_def)

lemma pend_live:
  assumes "wf_with w a" "c \<in> set (chans a)" "w_chan w c = Some ch" "p \<in> pend ch"
  shows "\<exists>op. w_op w p = Some op \<and> op_wf (a_mtu a) op"
proof -
  have "p \<in> set (place_ops w a (AtPendReq c)) \<or> p \<in> set (place_ops w a (AtPendInd c))"
    using assms by (auto simp: on_chan_def pend_def)
  then show ?thesis
    using ops_okD [OF wf_withD(3) [OF assms(1)]] by blast
qed

lemma same_pend_refl:
  assumes "wf_with w a" "c \<in> set (chans a)"
  shows "same_pend w w c"
  using wf_with_chan [OF assms] pend_live [OF assms] unfolding same_pend_def by (metis same_op_refl)

lemma frame_att_refl: "wf_with w a \<Longrightarrow> frame_att X w a w a"
  by (simp add: frame_att_def same_pend_refl wf_withD)

lemma same_pend_trans:
  assumes "same_pend w w1 c" "same_pend w1 w2 c"
  shows "same_pend w w2 c"
proof -
  obtain ch ch1 where c1: "w_chan w c = Some ch" "w_chan w1 c = Some ch1"
    "pending_req ch1 = pending_req ch" "pending_ind ch1 = pending_ind ch" "ch_fd ch1 = ch_fd ch"
    "ch_type ch1 = ch_type ch" "in_req ch1 = in_req ch"
    "\<forall>p \<in> pend ch. \<exists>op op'. w_op w p = Some op \<and> w_op w1 p = Some op' \<and> same_op op op'"
    using assms(1) by (auto simp: same_pend_def)
  obtain ch2 where c2: "w_chan w2 c = Some ch2"
    "pending_req ch2 = pending_req ch1" "pending_ind ch2 = pending_ind ch1" "ch_fd ch2 = ch_fd ch1"
    "ch_type ch2 = ch_type ch1" "in_req ch2 = in_req ch1"
    "\<forall>p \<in> pend ch1. \<exists>op op'. w_op w1 p = Some op \<and> w_op w2 p = Some op' \<and> same_op op op'"
    using assms(2) c1(2) by (auto simp: same_pend_def)
  have "pend ch1 = pend ch"
    using c1(3,4) by (simp add: pend_def)
  then have "\<forall>p \<in> pend ch. \<exists>op op'. w_op w p = Some op \<and> w_op w2 p = Some op' \<and> same_op op op'"
    using c1(8) c2(7) by (metis option.inject same_op_trans)
  with c1 c2 show ?thesis
    unfolding same_pend_def by (intro exI [of _ ch] exI [of _ ch2]) simp
qed

lemma frame_att_trans:
  assumes "frame_att X w a w1 a1" "frame_att Y w1 a1 w2 a2" "X \<subseteq> Z" "Y \<subseteq> Z"
  shows "frame_att Z w a w2 a2"
proof -
  note f = assms(1,2) [unfolded frame_att_def]
  have n: "w_next w \<le> w_next w1" using f by blast
  have ops: "w_op w2 p = w_op w p \<and> p \<notin> owned (place_ops w2 a2)"
    if "p < w_next w" "p \<notin> owned (place_ops w a)" "p \<notin> Z" for p
  proof -
    have 1: "w_op w1 p = w_op w p \<and> p \<notin> owned (place_ops w1 a1)"
      using f(1) that assms(3) by blast
    have "p < w_next w1" using that(1) n by simp
    with 1 show ?thesis using f(2) that(3) assms(4) by (metis subsetD)
  qed
  have chs: "w_chan w2 c = w_chan w c \<and> c \<notin> set (chans a2)" if "c < w_next w" "c \<notin> set (chans a)" for c
  proof -
    have 1: "w_chan w1 c = w_chan w c \<and> c \<notin> set (chans a1)" using f(1) that by blast
    have "c < w_next w1" using that(1) n by simp
    with 1 show ?thesis using f(2) by metis
  qed
  have prs: "c \<in> set (chans a2) \<and> same_pend w w2 c" if "c \<in> set (chans a)" for c
    using f that same_pend_trans by blast
  have eqs: "w_att w = Some a" "w_att w2 = Some a2" "a_ref_count a2 = a_ref_count a"
    "w_next w \<le> w_next w2" "w_timers w2 = w_timers w"
    using f by simp_all
  show ?thesis
    unfolding frame_att_def by (intro conjI allI impI ballI eqs) (simp_all add: ops chs prs)
qed

lemma frame_trans:
  "frame X w w1 \<Longrightarrow> frame Y w1 w2 \<Longrightarrow> X \<subseteq> Z \<Longrightarrow> Y \<subseteq> Z \<Longrightarrow> frame Z w w2"
  unfolding frame_def by (metis frame_att_def frame_att_trans option.inject)

lemma frame_att_weaken:
  assumes "frame_att X w a w' a'" "X \<subseteq> Y \<union> owned (place_ops w a) \<union> {p. w_next w \<le> p}"
  shows "frame_att Y w a w' a'"
  using assms unfolding frame_att_def by (auto dest: subsetD)

lemma frame_attD:
  assumes "frame_att X w a w' a'"
  shows "w_att w = Some a" "w_att w' = Some a'" "a_ref_count a' = a_ref_count a" "w_next w \<le> w_next w'"
    "w_timers w' = w_timers w"
    "\<And>p. p < w_next w \<Longrightarrow> p \<notin> owned (place_ops w a) \<Longrightarrow> p \<notin> X \<Longrightarrow>
      w_op w' p = w_op w p \<and> p \<notin> owned (place_ops w' a')"
    "\<And>c. c < w_next w \<Longrightarrow> c \<notin> set (chans a) \<Longrightarrow> w_chan w' c = w_chan w c \<and> c \<notin> set (chans a')"
    "\<And>c. c \<in> set (chans a) \<Longrightarrow> c \<in> set (chans a') \<and> same_pend w w' c"
  using assms by (simp_all add: frame_att_def)

lemma frame_pending:
  assumes "frame_att X w a w' a'" "c \<in> set (chans a)" "w_chan w c = Some ch"
  obtains ch' where "w_chan w' c = Some ch'" "c \<in> set (chans a')" "pending_req ch' = pending_req ch"
    "pending_ind ch' = pending_ind ch" "ch_fd ch' = ch_fd ch" "ch_type ch' = ch_type ch" "in_req ch' = in_req ch"
    "\<And>p. p \<in> pend ch \<Longrightarrow> \<exists>op op'. w_op w p = Some op \<and> w_op w' p = Some op' \<and> same_op op op'"
  using frame_attD(8) [OF assms(1,2)] assms(3) that by (fastforce simp: same_pend_def)

lemma wf_live: "wf_with w a \<Longrightarrow> w_op w p = Some op \<Longrightarrow> p < w_next w"
  using wf_withD(5) [of w a] by (auto simp: fresh_ok_def not_le [symmetric])

lemma wf_live_chan: "wf_with w a \<Longrightarrow> w_chan w p = Some ch \<Longrightarrow> p < w_next w"
  using wf_withD(5) [of w a] by (auto simp: fresh_ok_def not_le [symmetric])

text \<open>The postcondition of a reaction, and of an operation of the client.\<close>

definition keeps :: "nat set \<Rightarrow> 'c world \<Rightarrow> 'c world \<Rightarrow> bool" where
  "keeps X w w' \<longleftrightarrow> wf w' \<and> frame X w w'"

lemma keepsE:
  assumes "keeps X w w'" "wf_with w a"
  obtains a' where "wf_with w' a'" "frame_att X w a w' a'"
  using assms unfolding keeps_def wf_def frame_def by (metis frame_att_def option.inject wf_withD(1))

lemma keepsI: "wf_with w' a' \<Longrightarrow> frame_att X w a w' a' \<Longrightarrow> keeps X w w'"
  by (auto simp: keeps_def wf_def frame_def)

lemma keeps_refl: "wf w \<Longrightarrow> keeps X w w"
  unfolding wf_def by (auto intro: keepsI frame_att_refl)

lemma keeps_trans: "keeps X w w1 \<Longrightarrow> keeps Y w1 w2 \<Longrightarrow> X \<subseteq> Z \<Longrightarrow> Y \<subseteq> Z \<Longrightarrow> keeps Z w w2"
  unfolding keeps_def by (blast intro: frame_trans)

lemma keeps_trans0: "keeps {} w w1 \<Longrightarrow> keeps {} w1 w2 \<Longrightarrow> keeps {} w w2"
  by (rule keeps_trans) simp_all

lemma keeps_log [simp]:
  "keeps X (w\<lparr>w_calls := x\<rparr>) w' = keeps X w w'" "keeps X (w\<lparr>w_wire := y\<rparr>) w' = keeps X w w'"
  "keeps X w (w'\<lparr>w_calls := x\<rparr>) = keeps X w w'" "keeps X w (w'\<lparr>w_wire := y\<rparr>) = keeps X w w'"
  by (simp_all add: keeps_def)

lemma keeps_log_fun [simp]: "keeps X (w\<lparr>w_calls := x\<rparr>) = keeps X w" "keeps X (w\<lparr>w_wire := y\<rparr>) = keeps X w"
  by (simp_all add: fun_eq_iff)

section \<open>The environment\<close>

text \<open>
  What the bearer relies on: a reaction of the client to a callback keeps the state well formed, leaves
  the answered-for operations, the reference count and everything the bearer has taken out of its queues
  alone; a new timer has an identifier of its own; \<open>read\<close> returns no more than it is asked for.
\<close>

locale att_client =
  fixes E :: "'c env"
  assumes reaction: "wf w \<Longrightarrow> ensures (client E c w) (keeps {} w)"
    and new_timer: "length (w_timers w) < 4294967295 \<Longrightarrow>
          timeout_add E w \<noteq> 0 \<and> timeout_add E w \<notin> fst ` set (w_timers w)"
    and reads: "k_read E fd n = Some bs \<Longrightarrow> length bs \<le> unat n"
begin

lemma call_keeps: "wf w \<Longrightarrow> ensures (call E c w) (keeps {} w)"
  using reaction [of "w\<lparr>w_calls := w_calls w @ [c]\<rparr>" c] by (simp add: call_def)

lemma call_if_keeps: "wf w \<Longrightarrow> ensures (call_if E f c w) (keeps {} w)"
  by (cases f) (simp_all add: call_if_def call_keeps keeps_refl)

end

lemma each_keeps:
  assumes "\<And>x w. x \<in> set xs \<Longrightarrow> wf w \<Longrightarrow> I w \<Longrightarrow> ensures (f x w) (\<lambda>w'. keeps {} w w' \<and> I w')" "wf w" "I w"
  shows "ensures (each f xs w) (\<lambda>w'. keeps {} w w' \<and> I w')"
  using assms
proof (induction xs arbitrary: w)
  case Nil then show ?case by (simp add: keeps_refl)
next
  case (Cons x xs)
  have "ensures (f x w) (\<lambda>w1. keeps {} w w1 \<and> I w1)"
    by (rule Cons.prems(1)) (simp_all add: Cons.prems)
  then show ?case
    unfolding each.simps ensures_bind
  proof (rule ensures_mono)
    fix w1 assume 1: "keeps {} w w1 \<and> I w1"
    have "ensures (each f xs w1) (\<lambda>w'. keeps {} w1 w' \<and> I w')"
      by (rule Cons.IH) (use 1 Cons.prems(1) in \<open>auto simp: keeps_def\<close>)
    then show "ensures (each f xs w1) (\<lambda>w'. keeps {} w w' \<and> I w')"
      by (rule ensures_mono) (use 1 in \<open>auto intro: keeps_trans0\<close>)
  qed
qed

section \<open>Changes of the state\<close>

lemma place_ops_queues [simp]:
  "place_ops w (a\<lparr>req_queue := q\<rparr>) = (place_ops w a)(AtReq := q)"
  "place_ops w (a\<lparr>ind_queue := q\<rparr>) = (place_ops w a)(AtInd := q)"
  "place_ops w (a\<lparr>write_queue := q\<rparr>) = (place_ops w a)(AtWrite := q)"
proof -
  have "place_ops w (a\<lparr>req_queue := q\<rparr>) pl = ((place_ops w a)(AtReq := q)) pl"
    "place_ops w (a\<lparr>ind_queue := q\<rparr>) pl = ((place_ops w a)(AtInd := q)) pl"
    "place_ops w (a\<lparr>write_queue := q\<rparr>) pl = ((place_ops w a)(AtWrite := q)) pl" for pl
    by (cases pl; simp add: on_chan_def)+
  then show "place_ops w (a\<lparr>req_queue := q\<rparr>) = (place_ops w a)(AtReq := q)"
    "place_ops w (a\<lparr>ind_queue := q\<rparr>) = (place_ops w a)(AtInd := q)"
    "place_ops w (a\<lparr>write_queue := q\<rparr>) = (place_ops w a)(AtWrite := q)"
    by blast+
qed

lemma place_ops_set_chan:
  assumes "c \<in> set (chans a)"
  shows "place_ops (set_chan c ch' w) a = (place_ops w a)(AtChan c := ch_queue ch',
    AtPendReq c := opt_list (pending_req ch'), AtPendInd c := opt_list (pending_ind ch'))"
proof
  fix pl show "place_ops (set_chan c ch' w) a pl = ((place_ops w a)(AtChan c := ch_queue ch',
    AtPendReq c := opt_list (pending_req ch'), AtPendInd c := opt_list (pending_ind ch'))) pl"
    using assms by (cases pl) (simp_all add: on_chan_def set_chan_def)
qed

lemma place_ops_other_chan:
  "c \<notin> set (chans a) \<Longrightarrow> place_ops (set_chan c ch' w) a = place_ops w a"
proof
  fix pl assume "c \<notin> set (chans a)"
  then show "place_ops (set_chan c ch' w) a pl = place_ops w a pl"
    by (cases pl) (auto simp add: on_chan_def set_chan_def)
qed

lemma place_ops_of_chan:
  assumes "c \<in> set (chans a)" "w_chan w c = Some ch"
  shows "place_ops w a (AtChan c) = ch_queue ch" "place_ops w a (AtPendReq c) = opt_list (pending_req ch)"
    "place_ops w a (AtPendInd c) = opt_list (pending_ind ch)"
  using assms by (simp_all add: on_chan_def)

definition sub_queue :: "nat list \<Rightarrow> nat list \<Rightarrow> bool" where
  "sub_queue q' q \<longleftrightarrow> set q' \<subseteq> set q \<and> distinct q'"

lemma sub_queue_Nil [simp]: "sub_queue [] q"
  by (simp add: sub_queue_def)

lemma sub_queue_tl: "distinct q \<Longrightarrow> sub_queue (tl q) q"
  by (cases q) (auto simp: sub_queue_def)

lemma sub_queue_refl: "distinct q \<Longrightarrow> sub_queue q q"
  by (simp add: sub_queue_def)

lemma wf_distinct:
  assumes "wf_with w a"
  shows "distinct (req_queue a)" "distinct (ind_queue a)" "distinct (write_queue a)"
proof -
  have d: "\<And>pl. distinct (place_ops w a pl)"
    using ops_ok_layout [OF wf_withD(3) [OF assms]] by (simp add: layout_def)
  show "distinct (req_queue a)" "distinct (ind_queue a)" "distinct (write_queue a)"
    using d [of AtReq] d [of AtInd] d [of AtWrite] by simp_all
qed

lemma wf_distinct_chan: "wf_with w a \<Longrightarrow> c \<in> set (chans a) \<Longrightarrow> w_chan w c = Some ch \<Longrightarrow> distinct (ch_queue ch)"
  using ops_ok_layout [OF wf_withD(3)] place_ops_of_chan(1) by (metis layout_def)

lemma wf_att_place:
  assumes "wf_with w a" "chans a' = chans a" "keys_ok a'" "handlers_ok w a'"
    "ops_ok (w_op w) (a_mtu a') (place_ops w a')"
  shows "wf_with (set_att a' w) a'"
  using assms
  by (simp add: wf_with_def chans_ok_def timers_ok_def fresh_ok_def handlers_ok_def set_att_def)

lemma on_chan_cong: "chans a' = chans a \<Longrightarrow> on_chan w a' c f = on_chan w a c f"
  by (simp only: on_chan_def)

lemma place_ops_sub:
  assumes "wf_with w a" "chans a' = chans a" "sub_queue (req_queue a') (req_queue a)"
    "sub_queue (ind_queue a') (ind_queue a)" "sub_queue (write_queue a') (write_queue a)"
  shows "set (place_ops w a' pl) \<subseteq> set (place_ops w a pl)" "distinct (place_ops w a' pl)"
proof -
  have d: "\<And>pl. distinct (place_ops w a pl)"
    using ops_ok_layout [OF wf_withD(3) [OF assms(1)]] by (simp add: layout_def)
  show "set (place_ops w a' pl) \<subseteq> set (place_ops w a pl)"
    by (cases pl) (use assms(3-5) in \<open>simp_all add: sub_queue_def on_chan_cong [OF assms(2)]\<close>)
  show "distinct (place_ops w a' pl)"
    by (cases pl) (use assms(3-5) d [of pl] in \<open>simp_all add: sub_queue_def on_chan_cong [OF assms(2)]\<close>)
qed

lemma wf_update_att:
  assumes "wf_with w a" "chans a' = chans a" "a_mtu a \<le> a_mtu a'" "keys_ok a'" "handlers_ok w a'"
    "sub_queue (req_queue a') (req_queue a)"
    "sub_queue (ind_queue a') (ind_queue a)" "sub_queue (write_queue a') (write_queue a)"
  shows "wf_with (set_att a' w) a'"
proof (rule wf_att_place [OF assms(1,2,4,5)])
  show "ops_ok (w_op w) (a_mtu a') (place_ops w a')"
    by (rule ops_ok_mtu [OF ops_ok_sub [OF wf_withD(3) [OF assms(1)]] assms(3)])
      (rule place_ops_sub [OF assms(1,2,6-8)])+
qed

lemma keeps_update_att:
  assumes "wf_with w a" "chans a' = chans a" "a_mtu a \<le> a_mtu a'" "keys_ok a'" "handlers_ok w a'"
    "sub_queue (req_queue a') (req_queue a)"
    "sub_queue (ind_queue a') (ind_queue a)" "sub_queue (write_queue a') (write_queue a)"
    "a_ref_count a' = a_ref_count a"
  shows "keeps {} w (set_att a' w)"
proof (rule keepsI [OF wf_update_att [OF assms(1-8)]])
  have "owned (place_ops w a') \<subseteq> owned (place_ops w a)"
    using place_ops_sub(1) [OF assms(1,2,6-8)] unfolding owned_def by blast
  moreover have "same_pend w (set_att a' w) c" if "c \<in> set (chans a)" for c
    using same_pend_refl [OF assms(1) that] by (simp add: same_pend_def set_att_def)
  ultimately show "frame_att {} w a (set_att a' w) a'"
    using assms(2,9) wf_withD(1) [OF assms(1)] by (auto simp: frame_att_def set_att_def)
qed

lemma wf_chan_place:
  assumes "wf_with w a" "c \<in> set (chans a)" "chan_ok ch'"
    "ops_ok (w_op w) (a_mtu a) (place_ops (set_chan c ch' w) a)"
    "\<And>t i. (t, c, i) \<in> set (w_timers w) \<Longrightarrow>
      \<exists>p op. p \<in> pend ch' \<and> w_op w p = Some op \<and> op_timeout_id op = t \<and> op_id op = i"
  shows "wf_with (set_chan c ch' w) a"
proof -
  have "chans_ok (set_chan c ch' w) a"
    using assms(3) wf_withD(2) [OF assms(1)] by (simp add: chans_ok_def set_chan_def)
  moreover have "timers_ok (set_chan c ch' w) a"
    using assms(5) wf_withD(4) [OF assms(1)] by (auto simp: timers_ok_def set_chan_def)
  moreover have "c < w_next w"
    using wf_with_chan [OF assms(1,2)] wf_live_chan [OF assms(1)] by blast
  then have "fresh_ok (set_chan c ch' w)"
    using wf_withD(5) [OF assms(1)] by (auto simp: fresh_ok_def set_chan_def)
  ultimately show ?thesis
    using assms(1,4) by (simp add: wf_with_def handlers_ok_def set_chan_def)
qed

lemma wf_timer_of:
  assumes "wf_with w a" "c \<in> set (chans a)" "w_chan w c = Some ch" "(t, c, i) \<in> set (w_timers w)"
  shows "\<exists>p op. p \<in> pend ch \<and> w_op w p = Some op \<and> op_timeout_id op = t \<and> op_id op = i"
  using wf_withD(4) [OF assms(1)] assms(2-) unfolding timers_ok_def by fastforce

lemma ops_ok_sub_chan:
  assumes "wf_with w a" "c \<in> set (chans a)" "w_chan w c = Some ch" "sub_queue (ch_queue ch') (ch_queue ch)"
    "set_option (pending_req ch') \<subseteq> set_option (pending_req ch)"
    "set_option (pending_ind ch') \<subseteq> set_option (pending_ind ch)"
  shows "ops_ok (w_op w) (a_mtu a) (place_ops (set_chan c ch' w) a)"
    "owned (place_ops (set_chan c ch' w) a) \<subseteq> owned (place_ops w a)"
proof -
  have d: "\<And>pl. distinct (place_ops w a pl)"
    using ops_ok_layout [OF wf_withD(3) [OF assms(1)]] by (simp add: layout_def)
  have s: "set (place_ops (set_chan c ch' w) a pl) \<subseteq> set (place_ops w a pl)" for pl
    unfolding place_ops_set_chan [OF assms(2)]
    using assms place_ops_of_chan [OF assms(2,3)] by (auto simp: sub_queue_def)
  have "distinct (place_ops (set_chan c ch' w) a pl)" for pl
    unfolding place_ops_set_chan [OF assms(2)] using d [of pl] assms(4) by (auto simp: sub_queue_def)
  with s show "ops_ok (w_op w) (a_mtu a) (place_ops (set_chan c ch' w) a)"
    using ops_ok_sub [OF wf_withD(3) [OF assms(1)]] by blast
  from s show "owned (place_ops (set_chan c ch' w) a) \<subseteq> owned (place_ops w a)"
    unfolding owned_def by blast
qed

lemma wf_update_chan:
  assumes "wf_with w a" "c \<in> set (chans a)" "w_chan w c = Some ch" "chan_ok ch'"
    "sub_queue (ch_queue ch') (ch_queue ch)"
    "pending_req ch' = pending_req ch" "pending_ind ch' = pending_ind ch"
  shows "wf_with (set_chan c ch' w) a"
proof (rule wf_chan_place [OF assms(1,2,4)])
  show "ops_ok (w_op w) (a_mtu a) (place_ops (set_chan c ch' w) a)"
    by (rule ops_ok_sub_chan [OF assms(1-3,5)]) (simp_all add: assms)
  show "\<exists>p op. p \<in> pend ch' \<and> w_op w p = Some op \<and> op_timeout_id op = t \<and> op_id op = i"
    if "(t, c, i) \<in> set (w_timers w)" for t i
    using wf_timer_of [OF assms(1-3) that] assms(6,7) by (simp add: pend_def)
qed

lemma keeps_update_chan:
  assumes "wf_with w a" "c \<in> set (chans a)" "w_chan w c = Some ch" "chan_ok ch'"
    "sub_queue (ch_queue ch') (ch_queue ch)"
    "pending_req ch' = pending_req ch" "pending_ind ch' = pending_ind ch"
    "ch_fd ch' = ch_fd ch" "ch_type ch' = ch_type ch" "in_req ch' = in_req ch"
  shows "keeps {} w (set_chan c ch' w)"
proof (rule keepsI [OF wf_update_chan [OF assms(1-7)]])
  have "owned (place_ops (set_chan c ch' w) a) \<subseteq> owned (place_ops w a)"
    by (rule ops_ok_sub_chan [OF assms(1-3,5)]) (simp_all add: assms)
  moreover have "same_pend w (set_chan c ch' w) d" if "d \<in> set (chans a)" for d
    using same_pend_refl [OF assms(1) that] assms(3,6-) by (auto simp: same_pend_def set_chan_def)
  ultimately show "frame_att {} w a (set_chan c ch' w) a"
    using assms(2) wf_withD(1) [OF assms(1)] by (auto simp: frame_att_def set_chan_def)
qed

text \<open>An operation that nothing refers to may be changed or freed.\<close>

lemma wf_unowned_op:
  assumes "wf_with w a" "p \<notin> owned (place_ops w a)" "p < w_next w"
  shows "wf_with (w\<lparr>w_op := (w_op w)(p := x)\<rparr>) a"
proof -
  have "timers_ok (w\<lparr>w_op := (w_op w)(p := x)\<rparr>) a"
    unfolding timers_ok_def
  proof (intro conjI allI impI)
    fix t c i assume "(t, c, i) \<in> set (w_timers (w\<lparr>w_op := (w_op w)(p := x)\<rparr>))" "c \<in> set (chans a)"
    then have t: "(t, c, i) \<in> set (w_timers w)" "c \<in> set (chans a)" by simp_all
    obtain ch where ch: "w_chan w c = Some ch" using wf_with_chan [OF assms(1) t(2)] by blast
    obtain q op where q: "q \<in> pend ch" "w_op w q = Some op" "op_timeout_id op = t" "op_id op = i"
      using wf_timer_of [OF assms(1) t(2) ch t(1)] by blast
    have "q \<noteq> p"
      using q(1) assms(2) place_ops_of_chan [OF t(2) ch] unfolding pend_def owned_iff
      by (metis UnE set_opt_list)
    with ch q show "\<exists>ch q op. w_chan (w\<lparr>w_op := (w_op w)(p := x)\<rparr>) c = Some ch \<and> q \<in> pend ch \<and>
      w_op (w\<lparr>w_op := (w_op w)(p := x)\<rparr>) q = Some op \<and> op_timeout_id op = t \<and> op_id op = i"
      by (intro exI [of _ ch] exI [of _ q] exI [of _ op]) simp
  qed (use wf_withD(4) [OF assms(1)] in \<open>simp_all add: timers_ok_def\<close>)
  moreover have "fresh_ok (w\<lparr>w_op := (w_op w)(p := x)\<rparr>)"
    using wf_withD(5) [OF assms(1)] assms(3) by (auto simp: fresh_ok_def)
  ultimately show ?thesis
    using assms(1) ops_ok_unowned [OF wf_withD(3) [OF assms(1)] assms(2)]
    by (simp add: wf_with_def chans_ok_def handlers_ok_def)
qed

lemma keeps_unowned_op:
  assumes "wf_with w a" "p \<notin> owned (place_ops w a)" "p < w_next w"
  shows "keeps {p} w (w\<lparr>w_op := (w_op w)(p := x)\<rparr>)"
proof (rule keepsI [OF wf_unowned_op [OF assms]])
  have "same_pend w (w\<lparr>w_op := (w_op w)(p := x)\<rparr>) c" if c: "c \<in> set (chans a)" for c
  proof -
    obtain ch where ch: "w_chan w c = Some ch" using wf_with_chan [OF assms(1) c] by blast
    have "p \<notin> pend ch"
      using assms(2) place_ops_of_chan [OF c ch] unfolding pend_def owned_iff by (metis UnE set_opt_list)
    then show ?thesis
      using same_pend_refl [OF assms(1) c] ch by (auto simp: same_pend_def)
  qed
  then show "frame_att {p} w a (w\<lparr>w_op := (w_op w)(p := x)\<rparr>) a"
    using wf_withD(1) [OF assms(1)] by (simp add: frame_att_def)
qed

lemma wf_timeout_remove:
  assumes "wf_with w a"
  shows "wf_with (timeout_remove t w) a"
proof -
  have "distinct (map fst (filter P xs))" if "distinct (map fst xs)" for P and xs :: "(u32 \<times> nat \<times> u32) list"
    using that by (induction xs) auto
  then have "timers_ok (timeout_remove t w) a"
    using wf_withD(4) [OF assms] by (auto simp: timers_ok_def timeout_remove_def)
  then show ?thesis
    using assms by (simp add: wf_with_def chans_ok_def fresh_ok_def handlers_ok_def timeout_remove_def)
qed

definition drop_timer :: "att_send_op \<Rightarrow> 'c world \<Rightarrow> 'c world" where
  "drop_timer op w = (if op_timeout_id op \<noteq> 0 then timeout_remove (op_timeout_id op) w else w)"

lemma wf_drop_timer: "wf_with w a \<Longrightarrow> wf_with (drop_timer op w) a"
  by (simp add: drop_timer_def wf_timeout_remove)

lemma drop_timer_simps [simp]:
  "w_att (drop_timer op w) = w_att w" "w_op (drop_timer op w) = w_op w" "w_chan (drop_timer op w) = w_chan w"
  "w_next (drop_timer op w) = w_next w" "place_ops (drop_timer op w) a = place_ops w a"
  "op_timeout_id op = 0 \<Longrightarrow> drop_timer op w = w"
  by (simp_all add: drop_timer_def timeout_remove_def)

lemma drop_timer_gone: "wf_with w a \<Longrightarrow> op_timeout_id op \<notin> fst ` set (w_timers (drop_timer op w))"
  using wf_withD(4) [of w a] by (auto simp: drop_timer_def timeout_remove_def timers_ok_def)

end
