(* ===== verification/AttClient.thy ===== *)
theory AttClient
  imports AttInv
begin

text \<open>
  The operations that a client may call from inside a callback, with the client of \<open>att_client\<close>: each of
  them \<open>ensures\<close> its result (it does not touch freed memory) and \<open>keeps\<close> the state well formed.
\<close>

section \<open>The PDU of an operation\<close>

definition is_signed :: "bt_att \<Rightarrow> u8 \<Rightarrow> bool" where
  "is_signed a opcode \<longleftrightarrow> local_sign a \<noteq> None \<and> opcode AND ATT_OP_SIGNED_MASK \<noteq> 0"

definition pdu_header :: "bt_att \<Rightarrow> u8 \<Rightarrow> nat" where
  "pdu_header a opcode = (if is_signed a opcode then 13 else 1)"

lemma unat_add_u16: "unat a + unat b < 65536 \<Longrightarrow> unat (a + b :: u16) = unat a + unat b"
  by (simp add: unat_word_ariths)

lemma encode_len:
  assumes "unat len + 13 < 65536"
  shows "unat (1 + (12 + len) :: u16) = 13 + unat len" "unat (1 + len :: u16) = 1 + unat len"
    "unat (13 + len :: u16) = 13 + unat len"
  using assms by (simp_all add: unat_word_ariths)

definition signature_of :: "'c env \<Rightarrow> bt_att \<Rightarrow> u8 list \<Rightarrow> u8 list option" where
  "signature_of E a m = (case (a_crypto a, local_sign a) of
     (Some K, Some s) \<Rightarrow>
       (case counter E (s_counter s) (s_user_data s) 0 of
          (False, _) \<Rightarrow> None
        | (True, cnt) \<Rightarrow> map_option (att_signature cnt) (att_mac K (s_key s) m cnt))
   | _ \<Rightarrow> Some (replicate 12 0))"

lemma signature_of_length: "keys_ok a \<Longrightarrow> signature_of E a m = Some s \<Longrightarrow> length s = 12"
  by (auto simp: signature_of_def keys_ok_def att_mac_def kernel_ok_def length_att_signature
      split: option.splits prod.splits bool.splits)

lemma fresh_filled: "fresh n = filled [] (fresh n)"
  by (simp add: filled_Nil)

lemma encode_pdu_eq:
  assumes a: "keys_ok a" and len: "unat len + 13 < 65536" and pdu: "unat len \<le> length pdu"
  shows "encode_pdu E a opcode (Some pdu) len = Some (let n = pdu_header a opcode + unat len; m = opcode # take (unat len) pdu in
     if unat (a_mtu a) < n then None
     else if is_signed a opcode then map_option (\<lambda>s. (m @ s, of_nat n)) (signature_of E a m)
     else Some (m, of_nat n))"
proof -
  let ?m = "opcode # take (unat len) pdu"
  have lm: "length ?m = 1 + unat len" using pdu by simp
  define sg where "sg = is_signed a opcode"
  define l where "l = (if len \<noteq> 0 then (if sg then 13 else 1) + len else (if sg then 13 else 1) :: u16)"
  have l: "unat l = pdu_header a opcode + unat len"
    using encode_len [OF len] by (auto simp: l_def sg_def pdu_header_def)
  have lN: "l = of_nat (pdu_header a opcode + unat len)"
    unfolding l [symmetric] by simp
  have gt: "a_mtu a < l \<longleftrightarrow> unat (a_mtu a) < pdu_header a opcode + unat len"
    by (simp add: word_less_nat_alt l)
  have h1: "1 \<le> pdu_header a opcode" by (simp add: pdu_header_def)
  have w0: "wr8 (fresh (unat l)) 0 opcode = Some (filled [opcode] (fresh (unat l)))"
    using l h1 by (simp add: frame_simps)
  have w1: "(if 1 < l \<and> len \<noteq> 0 then memcpy (filled [opcode] (fresh (unat l))) 1 pdu 0 (unat len)
      else Some (filled [opcode] (fresh (unat l)))) = Some (filled ?m (fresh (unat l)))"
  proof (cases "len = 0")
    case False
    then have "0 < unat len" by (simp add: unat_gt_0)
    then have "1 < l" using l h1 by (simp add: word_less_nat_alt)
    with False show ?thesis
      using l h1 pdu by (simp add: memcpy_filled)
  qed simp
  have core: "encode_pdu E a opcode (Some pdu) len = (if l > a_mtu a then Some None
     else let b = filled ?m (fresh (unat l)) in
       (case local_sign a of
          None \<Rightarrow> Some (Some (b, l))
        | Some sign \<Rightarrow>
            if opcode AND ATT_OP_SIGNED_MASK = 0 \<or> a_crypto a = None then Some (Some (b, l))
            else (case counter E (s_counter sign) (s_user_data sign) 0 of
                (False, _) \<Rightarrow> Some None
              | (True, sign_cnt) \<Rightarrow> do {
                  r \<leftarrow> bt_crypto_sign_att (a_crypto a) (s_key sign) b (1 + len) sign_cnt;
                  (case r of
                     None \<Rightarrow> Some None
                   | Some sig \<Rightarrow> do {
                       b \<leftarrow> wr_bytes b (1 + unat len) sig;
                       Some (Some (b, l)) }) })))"
  proof -
    have lx: "(if len \<noteq> 0 \<and> Some pdu \<noteq> None
        then (if local_sign a \<noteq> None \<and> opcode AND ATT_OP_SIGNED_MASK \<noteq> 0
              then 1 + of_nat BT_ATT_SIGNATURE_LEN else 1) + len
        else if local_sign a \<noteq> None \<and> opcode AND ATT_OP_SIGNED_MASK \<noteq> 0
             then 1 + of_nat BT_ATT_SIGNATURE_LEN else 1) = l"
      by (simp add: l_def sg_def is_signed_def BT_ATT_SIGNATURE_LEN_def)
    show ?thesis
      unfolding encode_pdu_def Let_def lx w0 bind.bind_lunit w1 by (rule refl)
  qed
  show ?thesis
  proof (cases "l > a_mtu a")
    case True
    then show ?thesis using core gt by (simp add: Let_def)
  next
    case False
    show ?thesis
    proof (cases "is_signed a opcode")
      case ns: False
      have "filled ?m (fresh (unat l)) = ?m"
        by (rule filled_full) (use ns l lm in \<open>simp add: pdu_header_def\<close>)
      with core False ns gt lN show ?thesis
        by (auto simp add: Let_def is_signed_def split: option.split)
    next
      case sgn: True
      then obtain s where s: "local_sign a = Some s" "opcode AND ATT_OP_SIGNED_MASK \<noteq> 0"
        by (auto simp: is_signed_def)
      have l13: "unat l = 13 + unat len" using l sgn by (simp add: pdu_header_def)
      have d: "drop (length ?m) (fresh (unat l)) = replicate 12 0"
        unfolding lm by (simp add: fresh_def l13)
      show ?thesis
      proof (cases "a_crypto a")
        case None
        then show ?thesis
          using core False sgn gt lN s d by (simp add: Let_def signature_of_def filled_def)
      next
        case (Some K)
        have K: "kernel_ok K" "length (s_key s) = 16" using a Some s by (auto simp: keys_ok_def)
        have 1: "unat (1 + len) = 1 + unat len" by (rule encode_len(2) [OF len])
        have lf: "length (filled ?m (fresh (unat l))) = unat l" by (simp add: lm l13 del: length_Cons)
        have sig: "bt_crypto_sign_att (Some K) (s_key s) (filled ?m (fresh (unat l))) (1 + len) cnt =
          Some (map_option (att_signature cnt) (att_mac K (s_key s) ?m cnt))" for cnt
          by (subst sign_att_eq [OF K]) (use len lm in \<open>simp_all add: lf 1 l13 del: length_Cons\<close>)
        have wr: "wr_bytes (filled ?m (fresh (unat l))) (1 + unat len) sg' = Some (?m @ sg')" if "length sg' = 12" for sg'
        proof -
          have "wr_bytes (filled ?m (fresh (unat l))) (1 + unat len) sg' = Some (filled (?m @ sg') (fresh (unat l)))"
            by (rule wr_bytes_filled) (use that lm l13 in \<open>simp_all del: length_Cons\<close>)
          also have "filled (?m @ sg') (fresh (unat l)) = ?m @ sg'"
            by (rule filled_full) (use that lm l13 in simp)
          finally show ?thesis .
        qed
        have mac: "att_mac K (s_key s) ?m cnt = Some out \<Longrightarrow> length (att_signature cnt out) = 12" for cnt out
          using K by (simp add: att_mac_def kernel_ok_def length_att_signature)
        show ?thesis
          unfolding Let_def lN [symmetric] gt [symmetric] core
          using False sgn s Some sig wr
          by (auto simp: Let_def signature_of_def mac split: prod.split bool.split option.split)
      qed
    qed
  qed
qed

section \<open>Queueing an operation\<close>

lemma encode_pdu_NULL: "encode_pdu E a opcode None 0 = encode_pdu E a opcode (Some []) 0"
  unfolding encode_pdu_def Let_def by (simp only: simp_thms if_False refl)

lemma encode_pdu_ok:
  assumes a: "keys_ok a" and arg: "arg_ok pdu len"
  shows "ensures (encode_pdu E a opcode pdu len) (\<lambda>r. case r of None \<Rightarrow> True
    | Some (b, l) \<Rightarrow> length b = unat l \<and> b \<noteq> [] \<and> hd b = opcode \<and> l \<le> a_mtu a)"
proof -
  obtain d where d: "encode_pdu E a opcode pdu len = encode_pdu E a opcode (Some d) len" "unat len \<le> length d"
    "unat len + 13 < 65536"
    using arg encode_pdu_NULL by (cases pdu) (auto simp: arg_ok_def)
  let ?n = "pdu_header a opcode + unat len"
  have n: "unat (of_nat ?n :: u16) = ?n"
    by (rule unat_of_nat_u16) (use d(3) in \<open>simp add: pdu_header_def\<close>)
  have mtu: "(of_nat ?n :: u16) \<le> a_mtu a" if "?n \<le> unat (a_mtu a)"
    using that by (simp only: word_le_nat_alt n)
  have sg: "signature_of E a m = Some s \<Longrightarrow> length s = 12" for m s
    by (rule signature_of_length [OF a])
  show ?thesis
    unfolding d(1) encode_pdu_eq [OF a d(3,2)] ensures_Some
    using n mtu sg d(2)
    by (auto simp: Let_def pdu_header_def not_less split: option.split simp del: of_nat_add)
qed

lemma wf_new_op:
  assumes "wf_with w a"
  shows "wf_with (snd (new_op op w)) a" "keeps {} w (snd (new_op op w))" "fst (new_op op w) = w_next w"
    "w_next w \<notin> owned (place_ops (snd (new_op op w)) a)" "w_op (snd (new_op op w)) (w_next w) = Some op"
    "w_next w < w_next (snd (new_op op w))"
proof -
  let ?w = "snd (new_op op w)"
  have eq: "?w = w\<lparr>w_op := (w_op w)(w_next w := Some op), w_next := Suc (w_next w)\<rparr>"
    by (simp add: new_op_def set_op_def)
  have un: "w_next w \<notin> owned (place_ops w a)"
    using ops_okD [OF wf_withD(3) [OF assms]] wf_live [OF assms] unfolding owned_iff by blast
  have pl: "place_ops ?w a = place_ops w a" by (simp add: eq)
  have t: "timers_ok ?w a"
    unfolding timers_ok_def
  proof (intro conjI allI impI)
    fix t c i assume "(t, c, i) \<in> set (w_timers ?w)" and c: "c \<in> set (chans a)"
    then have t: "(t, c, i) \<in> set (w_timers w)" by (simp add: eq)
    obtain ch where ch: "w_chan w c = Some ch" using wf_with_chan [OF assms c] by blast
    obtain p op where p: "p \<in> pend ch" "w_op w p = Some op" "op_timeout_id op = t" "op_id op = i"
      using wf_timer_of [OF assms c ch t] by blast
    moreover from wf_live [OF assms p(2)] have "p \<noteq> w_next w" by simp
    ultimately show "\<exists>ch p op. w_chan ?w c = Some ch \<and> p \<in> pend ch \<and> w_op ?w p = Some op \<and>
      op_timeout_id op = t \<and> op_id op = i"
      using ch by (intro exI [of _ ch] exI [of _ p] exI [of _ op]) (simp add: eq)
  qed (use wf_withD(4) [OF assms] in \<open>simp_all add: timers_ok_def eq\<close>)
  have f: "fresh_ok ?w"
    using wf_withD(5) [OF assms] by (simp add: fresh_ok_def eq)
  have h: "handlers_ok ?w a"
    using wf_withD(7) [OF assms] by (auto simp: handlers_ok_def eq less_Suc_eq)
  have o: "ops_ok (w_op ?w) (a_mtu a) (place_ops ?w a)"
    unfolding pl using ops_ok_unowned [OF wf_withD(3) [OF assms] un] by (simp add: eq)
  show wf: "wf_with ?w a"
    using assms t f h o by (simp add: wf_with_def chans_ok_def eq)
  have sp: "same_pend w ?w c" if c: "c \<in> set (chans a)" for c
  proof -
    obtain ch where ch: "w_chan w c = Some ch" using wf_with_chan [OF assms c] by blast
    have "p \<noteq> w_next w" if "p \<in> pend ch" for p
      using pend_live [OF assms c ch that] wf_live [OF assms] by fastforce
    then show ?thesis
      using same_pend_refl [OF assms c] ch by (auto simp: same_pend_def eq)
  qed
  have "frame_att {} w a ?w a"
    unfolding frame_att_def pl using wf_withD(1) [OF assms] sp by (auto simp: eq)
  then show "keeps {} w ?w" by (rule keepsI [OF wf])
  show "w_next w \<notin> owned (place_ops ?w a)" unfolding pl by (rule un)
  show "fst (new_op op w) = w_next w" "w_op ?w (w_next w) = Some op" "w_next w < w_next ?w"
    by (simp_all add: eq new_op_def set_op_def)
qed

lemma keeps_push:
  assumes "wf_with w a" "p \<notin> owned (place_ops w a)" "w_op w p = Some op" "op_wf (a_mtu a) op" "op_at pl op"
    "place_ops w a' = (place_ops w a)(pl := ps)" "distinct ps" "set ps = insert p (set (place_ops w a pl))"
    "chans a' = chans a" "a_mtu a' = a_mtu a" "keys_ok a'" "handlers_ok w a'" "a_ref_count a' = a_ref_count a"
  shows "keeps {p} w (set_att a' w)"
proof -
  have "ops_ok (w_op w) (a_mtu a') (place_ops w a')"
    unfolding assms(6,10) by (rule ops_ok_add [OF wf_withD(3) [OF assms(1)]]) (use assms in simp_all)
  then have wf: "wf_with (set_att a' w) a'"
    by (rule wf_att_place [OF assms(1,9,11,12)])
  have own: "owned (place_ops w a') \<subseteq> insert p (owned (place_ops w a))"
    unfolding assms(6) using assms(8) by (auto simp: owned_iff split: if_splits)
  have "same_pend w (set_att a' w) c" if "c \<in> set (chans a)" for c
    using same_pend_refl [OF assms(1) that] by (simp add: same_pend_def set_att_def)
  then have "frame_att {p} w a (set_att a' w) a'"
    using assms(9,13) wf_withD(1) [OF assms(1)] own by (auto simp: frame_att_def set_att_def)
  then show ?thesis by (rule keepsI [OF wf])
qed

lemma wf_push_chan:
  assumes "wf_with w a" "c \<in> set (chans a)" "w_chan w c = Some ch" "p \<notin> owned (place_ops w a)"
    "w_op w p = Some op" "op_wf (a_mtu a) op" "op_at (AtChan c) op"
  shows "keeps {p} w (set_chan c (ch\<lparr>ch_queue := ch_queue ch @ [p]\<rparr>) w)"
proof -
  let ?ch = "ch\<lparr>ch_queue := ch_queue ch @ [p]\<rparr>"
  have p: "p \<notin> set (ch_queue ch)"
    using assms(4) place_ops_of_chan [OF assms(2,3)] unfolding owned_iff by metis
  have pl: "place_ops (set_chan c ?ch w) a = (place_ops w a)(AtChan c := ch_queue ch @ [p])"
    unfolding place_ops_set_chan [OF assms(2)]
    using place_ops_of_chan [OF assms(2,3)] by (auto simp: fun_eq_iff)
  have "ops_ok (w_op w) (a_mtu a) (place_ops (set_chan c ?ch w) a)"
    unfolding pl
    by (rule ops_ok_add [OF wf_withD(3) [OF assms(1)]])
      (use assms p place_ops_of_chan [OF assms(2,3)] wf_distinct_chan [OF assms(1-3)] in simp_all)
  moreover have "chan_ok ?ch"
    using wf_with_chan [OF assms(1,2)] assms(3) by (simp add: chan_ok_def)
  moreover have "pend ?ch = pend ch" by (simp add: pend_def)
  ultimately have wf: "wf_with (set_chan c ?ch w) a"
    using wf_timer_of [OF assms(1-3)] by (intro wf_chan_place [OF assms(1,2)]) simp_all
  have own: "owned (place_ops (set_chan c ?ch w) a) \<subseteq> insert p (owned (place_ops w a))"
  proof -
    have "set (ch_queue ch) \<subseteq> owned (place_ops w a)"
      using place_ops_of_chan(1) [OF assms(2,3)] by (metis owned_iff subsetI)
    then show ?thesis unfolding pl owned_def by (fastforce simp: fun_upd_def split: if_splits)
  qed
  have "same_pend w (set_chan c ?ch w) d" if "d \<in> set (chans a)" for d
    using same_pend_refl [OF assms(1) that] assms(3) by (auto simp: same_pend_def set_chan_def pend_def)
  then have "frame_att {p} w a (set_chan c ?ch w) a"
    using assms(2) wf_withD(1) [OF assms(1)] own by (auto simp: frame_att_def set_chan_def)
  then show ?thesis by (rule keepsI [OF wf])
qed

lemma keeps_weaken:
  assumes "keeps X w w'" "wf_with w a" "X \<subseteq> owned (place_ops w a) \<union> {p. w_next w \<le> p}"
  shows "keeps {} w w'"
proof -
  obtain a' where "wf_with w' a'" "frame_att X w a w' a'" using keepsE [OF assms(1,2)] by blast
  with frame_att_weaken [of X w a w' a' "{}"] assms(3) show ?thesis by (auto intro: keepsI)
qed

lemma place_ops_next_send_id [simp]: "place_ops w (a\<lparr>next_send_id := n\<rparr>) = place_ops w a"
  by (rule place_ops_cong) simp_all

section \<open>Waking the writer\<close>

lemma wakeup_chan_writer_keeps:
  assumes "wf_with w a" "c \<in> set (chans a)"
  shows "ensures (wakeup_chan_writer E c w) (\<lambda>w'. keeps {} w w' \<and> w_op w' = w_op w)"
proof -
  obtain ch where ch: "w_chan w c = Some ch" "chan_ok ch" using wf_with_chan [OF assms] by blast
  have "keeps {} w (set_chan c (ch\<lparr>writer_active := True\<rparr>) w)"
    by (rule keeps_update_chan [OF assms ch(1)])
      (use ch wf_distinct_chan [OF assms ch(1)] in \<open>simp_all add: chan_ok_def sub_queue_refl\<close>)
  moreover have "w_op (set_chan c (ch\<lparr>writer_active := True\<rparr>) w) = w_op w"
    by (simp add: set_chan_def)
  ultimately show ?thesis
    using ch keeps_refl [OF wf_withI [OF assms(1)]] wf_withD(1) [OF assms(1)]
    by (simp add: wakeup_chan_writer_def)
qed

definition has_chans :: "nat list \<Rightarrow> 'c world \<Rightarrow> bool" where
  "has_chans cs w \<longleftrightarrow> (\<exists>a. w_att w = Some a \<and> set cs \<subseteq> set (chans a))"

lemma keeps_has_chans: "keeps X w w' \<Longrightarrow> has_chans cs w \<Longrightarrow> has_chans cs w'"
  unfolding keeps_def has_chans_def frame_def frame_att_def by fastforce

lemma wakeup_writer_keeps:
  fixes w :: "'d world"
  assumes "wf w"
  shows "ensures (wakeup_writer E w) (\<lambda>w'. keeps {} w w' \<and> w_op w' = w_op w)"
proof -
  obtain a where a: "wf_with w a" using assms by (auto simp: wf_def)
  let ?I = "\<lambda>w'. has_chans (chans a) w' \<and> w_op w' = w_op w"
  have "ensures (each (wakeup_chan_writer E) (chans a) w) (\<lambda>w'. keeps {} w w' \<and> ?I w')"
  proof (rule each_keeps)
    fix c and w1 :: "'d world" assume c: "c \<in> set (chans a)" "wf w1" "?I w1"
    then obtain a1 where "wf_with w1 a1" "c \<in> set (chans a1)"
      unfolding wf_def has_chans_def by (metis option.inject subsetD wf_withD(1))
    from wakeup_chan_writer_keeps [OF this]
    show "ensures (wakeup_chan_writer E c w1) (\<lambda>w'. keeps {} w1 w' \<and> ?I w')"
      by (rule ensures_mono) (use c(3) in \<open>auto intro: keeps_has_chans\<close>)
  next
    show "?I w" using a by (auto simp: has_chans_def wf_withD)
  qed (rule assms)
  then have "ensures (each (wakeup_chan_writer E) (chans a) w) (\<lambda>w'. keeps {} w w' \<and> w_op w' = w_op w)"
    by (rule ensures_mono) simp
  then show ?thesis
    using wf_withD(1) [OF a] by (simp add: wakeup_writer_def)
qed

section \<open>Sending\<close>

lemma create_ok:
  assumes wf: "wf_with w a" and arg: "arg_ok pdu len"
  shows "ensures (create_att_send_op E opcode pdu len cb ud d w) (\<lambda>(x, w'). case x of None \<Rightarrow> w' = w
    | Some p \<Rightarrow> \<exists>op. (p, w') = new_op op w \<and> op_wf (a_mtu a) op \<and> op_timeout_id op = 0 \<and>
        op_type op = get_op_type opcode \<and> op_callback op = cb)"
proof -
  have enc: "ensures (encode_pdu E a opcode pdu len) (\<lambda>r. case r of None \<Rightarrow> True
    | Some (b, l) \<Rightarrow> length b = unat l \<and> b \<noteq> [] \<and> hd b = opcode \<and> l \<le> a_mtu a)"
    by (rule encode_pdu_ok [OF wf_withD(6) [OF wf] arg])
  then obtain r where r: "encode_pdu E a opcode pdu len = Some r" "case r of None \<Rightarrow> True
    | Some (b, l) \<Rightarrow> length b = unat l \<and> b \<noteq> [] \<and> hd b = opcode \<and> l \<le> a_mtu a"
    by (auto simp: ensures_def)
  let ?reject = "len \<noteq> 0 \<and> pdu = None \<or> get_op_type opcode = ATT_OP_TYPE_UNKNOWN \<or>
    cb \<noteq> None \<and> get_op_type opcode \<noteq> ATT_OP_TYPE_REQ \<and> get_op_type opcode \<noteq> ATT_OP_TYPE_IND \<or>
    cb = None \<and> (get_op_type opcode = ATT_OP_TYPE_REQ \<or> get_op_type opcode = ATT_OP_TYPE_IND)"
  let ?op = "\<lambda>b l. \<lparr>op_id = 0, op_timeout_id = 0, op_type = get_op_type opcode, op_opcode = opcode,
    op_pdu = b, op_len = l, op_callback = cb, op_destroy = d, op_user_data = ud\<rparr>"
  have eq: "create_att_send_op E opcode pdu len cb ud d w = (if ?reject then Some (None, w)
    else case r of None \<Rightarrow> Some (None, w)
      | Some (b, l) \<Rightarrow> Some (Some (fst (new_op (?op b l) w)), snd (new_op (?op b l) w)))"
    unfolding create_att_send_op_def Let_def wf_withD(1) [OF wf] bind.bind_lunit r(1)
    by (simp add: case_prod_beta split: option.split)
  show ?thesis
  proof (cases "?reject \<or> r = None")
    case True
    then show ?thesis unfolding eq by auto
  next
    case False
    then obtain b l where bl: "r = Some (b, l)" by auto
    have "op_wf (a_mtu a) (?op b l)"
      using r(2) False by (simp add: op_wf_def bl)
    then show ?thesis
      using False bl unfolding eq by (simp add: exI [of _ "?op b l"])
  qed
qed

lemma op_wf_upd [simp]:
  "op_wf m (op\<lparr>op_id := i\<rparr>) = op_wf m op" "op_wf m (op\<lparr>op_timeout_id := t\<rparr>) = op_wf m op"
  "op_wf m (op\<lparr>op_user_data := u, op_callback := f, op_destroy := g\<rparr>) = op_wf m op"
  by (simp_all add: op_wf_def)

lemma keeps_place:
  assumes "wf_with w a" "p \<notin> owned (place_ops w a)" "w_op w p = Some op" "op_wf (a_mtu a) op"
    "op_timeout_id op = 0" and a': "a' = (case op_type op of
       ATT_OP_TYPE_REQ \<Rightarrow> a\<lparr>next_send_id := n, req_queue := req_queue a @ [p]\<rparr>
     | ATT_OP_TYPE_IND \<Rightarrow> a\<lparr>next_send_id := n, ind_queue := ind_queue a @ [p]\<rparr>
     | _ \<Rightarrow> a\<lparr>next_send_id := n, write_queue := write_queue a @ [p]\<rparr>)"
  shows "keeps {p} w (set_att a' w)"
proof -
  define pl where "pl = (case op_type op of ATT_OP_TYPE_REQ \<Rightarrow> AtReq | ATT_OP_TYPE_IND \<Rightarrow> AtInd | _ \<Rightarrow> AtWrite)"
  have p: "p \<notin> set (place_ops w a pl)" for pl using assms(2) by (auto simp: owned_iff)
  have q: "p \<notin> set (req_queue a)" "p \<notin> set (ind_queue a)" "p \<notin> set (write_queue a)"
    using p [of AtReq] p [of AtInd] p [of AtWrite] by simp_all
  have h: "keys_ok a'" "handlers_ok w a'" "chans a' = chans a" "a_mtu a' = a_mtu a" "a_ref_count a' = a_ref_count a"
    using wf_withD(6,7) [OF assms(1)] unfolding a'
    by (cases "op_type op"; simp add: keys_ok_def handlers_ok_def)+
  show ?thesis
  proof (rule keeps_push [OF assms(1-4)])
    show "op_at pl op" using assms(5) by (cases "op_type op") (simp_all add: pl_def)
    show "place_ops w a' = (place_ops w a)(pl := place_ops w a pl @ [p])"
      unfolding a' pl_def by (cases "op_type op") simp_all
    show "distinct (place_ops w a pl @ [p])"
      using q wf_distinct [OF assms(1)] by (cases "op_type op") (simp_all add: pl_def)
    show "set (place_ops w a pl @ [p]) = insert p (set (place_ops w a pl))" by simp
  qed (rule h)+
qed

lemma bt_att_send_keeps:
  assumes "wf w" "arg_ok pdu len"
  shows "ensures (bt_att_send E att opcode pdu len cb ud d w) (\<lambda>(r, w'). keeps {} w w')"
proof -
  obtain a where a: "wf_with w a" using assms(1) by (auto simp: wf_def)
  note att = wf_withD(1) [OF a]
  obtain x w1 where cr: "create_att_send_op E opcode pdu len cb ud d w = Some (x, w1)"
    and x: "case x of None \<Rightarrow> w1 = w
      | Some p \<Rightarrow> \<exists>op. (p, w1) = new_op op w \<and> op_wf (a_mtu a) op \<and> op_timeout_id op = 0 \<and>
        op_type op = get_op_type opcode \<and> op_callback op = cb"
    using create_ok [OF a assms(2), of E opcode cb ud d] by (auto simp: ensures_def)
  show ?thesis
  proof (cases "att = None \<or> chans a = [] \<or> x = None")
    case True
    then show ?thesis using att cr x keeps_refl [OF assms(1)] by (auto simp: bt_att_send_def)
  next
    case False
    then obtain p where p: "x = Some p" by auto
    obtain op where op: "(p, w1) = new_op op w" "op_wf (a_mtu a) op" "op_timeout_id op = 0"
      using x p by auto
    have w1: "p = w_next w" "w1 = snd (new_op op w)" using wf_new_op(3) [OF a, of op] op(1) by (metis fst_conv snd_conv)+
    note n = wf_new_op [OF a, of op, folded w1]
    define i where "i = fix_id (next_send_id a)"
    let ?op = "op\<lparr>op_id := i\<rparr>"
    let ?w2 = "set_op p ?op w1"
    have w2: "?w2 = w1\<lparr>w_op := (w_op w1)(p := Some ?op)\<rparr>" by (simp add: set_op_def)
    note wf2 = wf_unowned_op [OF n(1,4,6), of "Some ?op", folded w2]
    have k2: "keeps {p} w1 ?w2" unfolding w2 by (rule keeps_unowned_op [OF n(1,4,6)])
    have k02: "keeps {p} w ?w2" by (rule keeps_trans [OF n(2) k2]) simp_all
    define a' where "a' = (case op_type ?op of
       ATT_OP_TYPE_REQ \<Rightarrow> a\<lparr>next_send_id := i + 1, req_queue := req_queue a @ [p]\<rparr>
     | ATT_OP_TYPE_IND \<Rightarrow> a\<lparr>next_send_id := i + 1, ind_queue := ind_queue a @ [p]\<rparr>
     | _ \<Rightarrow> a\<lparr>next_send_id := i + 1, write_queue := write_queue a @ [p]\<rparr>)"
    have k3: "keeps {p} ?w2 (set_att a' ?w2)"
    proof (rule keeps_place [OF wf2 _ _ _ _ a'_def])
      show "p \<notin> owned (place_ops ?w2 a)" using n(4) by simp
      show "w_op ?w2 p = Some ?op" by (simp add: set_op_def)
      show "op_wf (a_mtu a) ?op" "op_timeout_id ?op = 0" using op(2,3) by simp_all
    qed
    have k03: "keeps {} w (set_att a' ?w2)"
      by (rule keeps_weaken [OF keeps_trans [OF k02 k3, of "{p}"] a]) (simp_all add: w1)
    have wake: "ensures (wakeup_writer E (set_att a' ?w2)) (\<lambda>w'. keeps {} (set_att a' ?w2) w' \<and> w_op w' = w_op (set_att a' ?w2))"
      by (rule wakeup_writer_keeps) (use k03 in \<open>simp add: keeps_def\<close>)
    have st: "w_op (set_att a' ?w2) p = Some ?op" by (simp add: set_att_def set_op_def)
    have eq: "bt_att_send E att opcode pdu len cb ud d w =
      do { w' \<leftarrow> wakeup_writer E (set_att a' ?w2); op \<leftarrow> w_op w' p; Some (op_id op, w') }"
      using False att cr p n(5) wf_withD(1) [OF n(1)]
      by (simp add: bt_att_send_def upd_op_def i_def Let_def set_op_def a'_def split: att_op_type.split)
    show ?thesis
      unfolding eq ensures_bind
      by (rule ensures_mono [OF wake]) (use st k03 in \<open>auto intro: keeps_trans0\<close>)
  qed
qed

lemma bt_att_chan_send_keeps:
  assumes "wf_with w a" "arg_ok pdu len" "c \<in> set (chans a)"
    "get_op_type opcode \<noteq> ATT_OP_TYPE_REQ" "get_op_type opcode \<noteq> ATT_OP_TYPE_IND"
  shows "ensures (bt_att_chan_send E (Some c) opcode pdu len cb ud d w) (\<lambda>(r, w'). keeps {} w w')"
proof -
  note a = assms(1)
  obtain ch where ch: "w_chan w c = Some ch" "chan_ok ch" using wf_with_chan [OF a assms(3)] by blast
  obtain x w1 where cr: "create_att_send_op E opcode pdu len cb ud d w = Some (x, w1)"
    and x: "case x of None \<Rightarrow> w1 = w
      | Some p \<Rightarrow> \<exists>op. (p, w1) = new_op op w \<and> op_wf (a_mtu a) op \<and> op_timeout_id op = 0 \<and>
        op_type op = get_op_type opcode \<and> op_callback op = cb"
    using create_ok [OF a assms(2), of E opcode cb ud d] by (auto simp: ensures_def)
  show ?thesis
  proof (cases x)
    case None
    then show ?thesis using ch cr x keeps_refl [OF wf_withI [OF a]] by (auto simp: bt_att_chan_send_def)
  next
    case p: (Some p)
    obtain op where op: "(p, w1) = new_op op w" "op_wf (a_mtu a) op" "op_timeout_id op = 0"
      "op_type op = get_op_type opcode"
      using x p by auto
    have w1: "p = w_next w" "w1 = snd (new_op op w)" using wf_new_op(3) [OF a, of op] op(1) by (metis fst_conv snd_conv)+
    note n = wf_new_op [OF a, of op, folded w1]
    have ch1: "w_chan w1 c = Some ch" using ch(1) op(1) by (simp add: new_op_def set_op_def)
    let ?ch = "ch\<lparr>ch_queue := ch_queue ch @ [p]\<rparr>"
    have k1: "keeps {p} w1 (set_chan c ?ch w1)"
      by (rule wf_push_chan [OF n(1) assms(3) ch1 n(4,5) op(2)]) (use op assms(4,5) in simp)
    have k: "keeps {} w (set_chan c ?ch w1)"
      by (rule keeps_weaken [OF keeps_trans [OF n(2) k1, of "{p}"] a]) (simp_all add: w1)
    obtain a2 where a2: "wf_with (set_chan c ?ch w1) a2" "c \<in> set (chans a2)"
      using keepsE [OF k a] frame_attD(8) assms(3) by metis
    have st: "w_op (set_chan c ?ch w1) p = Some op" using n(5) by (simp add: set_chan_def)
    have eq: "bt_att_chan_send E (Some c) opcode pdu len cb ud d w =
      do { w' \<leftarrow> wakeup_chan_writer E c (set_chan c ?ch w1); op \<leftarrow> w_op w' p; Some (op_id op, w') }"
      using ch ch1 cr p by (simp add: bt_att_chan_send_def upd_chan_def chan_ok_def)
    show ?thesis
      unfolding eq ensures_bind
      by (rule ensures_mono [OF wakeup_chan_writer_keeps [OF a2]]) (use st k in \<open>auto intro: keeps_trans0\<close>)
  qed
qed

section \<open>Releasing operations\<close>

lemma not_owned_removed:
  assumes "layout L" "p \<in> set (L pl)" "p \<notin> set q" "set q \<subseteq> set (L pl)"
  shows "p \<notin> owned (L(pl := q))"
  using assms unfolding layout_def owned_iff by (auto simp: fun_upd_def split: if_splits)

lemma keeps_same_op:
  assumes "wf_with w a" "w_op w p = Some op" "same_op op op'"
  shows "keeps {p} w (set_op p op' w)"
proof -
  have eqs: "op_type op' = op_type op" "op_opcode op' = op_opcode op" "op_pdu op' = op_pdu op"
    "op_len op' = op_len op" "op_timeout_id op' = op_timeout_id op"
    using assms(3) by (simp_all add: same_op_def)
  have st: "op_wf m op' = op_wf m op" "op_at pl op' = op_at pl op" for m pl
    by (simp add: op_wf_def eqs) (cases pl; simp add: eqs)
  have o: "ops_ok (w_op (set_op p op' w)) (a_mtu a) (place_ops (set_op p op' w) a)"
    using ops_ok_update [OF wf_withD(3) [OF assms(1)] assms(2)] st by (simp add: set_op_def)
  have t: "timers_ok (set_op p op' w) a"
    unfolding timers_ok_def
  proof (intro conjI allI impI)
    fix t c i assume "(t, c, i) \<in> set (w_timers (set_op p op' w))" and c: "c \<in> set (chans a)"
    then have t: "(t, c, i) \<in> set (w_timers w)" by (simp add: set_op_def)
    obtain ch where ch: "w_chan w c = Some ch" using wf_with_chan [OF assms(1) c] by blast
    obtain q oq where q: "q \<in> pend ch" "w_op w q = Some oq" "op_timeout_id oq = t" "op_id oq = i"
      using wf_timer_of [OF assms(1) c ch t] by blast
    then show "\<exists>ch q oq. w_chan (set_op p op' w) c = Some ch \<and> q \<in> pend ch \<and> w_op (set_op p op' w) q = Some oq \<and>
      op_timeout_id oq = t \<and> op_id oq = i"
      using ch assms(2,3)
      by (intro exI [of _ ch] exI [of _ q] exI [of _ "if q = p then op' else oq"])
        (auto simp add: set_op_def same_op_def)
  qed (use wf_withD(4) [OF assms(1)] in \<open>simp_all add: timers_ok_def set_op_def\<close>)
  have f: "fresh_ok (set_op p op' w)"
    using wf_withD(5) [OF assms(1)] assms(2) by (auto simp: fresh_ok_def set_op_def)
  have wf: "wf_with (set_op p op' w) a"
    using assms(1) o t f by (simp add: wf_with_def chans_ok_def handlers_ok_def set_op_def)
  have sp: "same_pend w (set_op p op' w) c" if c: "c \<in> set (chans a)" for c
  proof -
    obtain ch where ch: "w_chan w c = Some ch" using wf_with_chan [OF assms(1) c] by blast
    have "\<exists>oq oq'. w_op w q = Some oq \<and> w_op (set_op p op' w) q = Some oq' \<and> same_op oq oq'" if "q \<in> pend ch" for q
      using pend_live [OF assms(1) c ch that] assms(2,3) by (cases "q = p") (auto simp: set_op_def)
    then show ?thesis
      unfolding same_pend_def using ch by (intro exI [of _ ch]) (simp add: set_op_def)
  qed
  have "frame_att {p} w a (set_op p op' w) a"
    unfolding frame_att_def place_ops_w using wf_withD(1) [OF assms(1)] sp by (simp add: set_op_def)
  then show ?thesis by (rule keepsI [OF wf])
qed

lemma wf_unpend:
  assumes wf: "wf_with w a" and c: "c \<in> set (chans a)" "w_chan w c = Some ch"
    and p: "p \<in> pend ch" "w_op w p = Some op" "op_timeout_id op \<notin> fst ` set (w_timers w)"
    and ch': "ch' = (if pending_req ch = Some p then ch\<lparr>pending_req := None\<rparr> else ch\<lparr>pending_ind := None\<rparr>)"
  shows "wf_with (set_chan c ch' w) a" "p \<notin> owned (place_ops (set_chan c ch' w) a)"
proof -
  note L = ops_ok_layout [OF wf_withD(3) [OF wf]]
  note pl = place_ops_of_chan [OF c]
  have ne: "\<not> (pending_req ch = Some q \<and> pending_ind ch = Some q)" for q
  proof
    assume "pending_req ch = Some q \<and> pending_ind ch = Some q"
    then have "q \<in> set (place_ops w a (AtPendReq c))" "q \<in> set (place_ops w a (AtPendInd c))"
      using pl by simp_all
    then show False using L unfolding layout_def by (metis place.distinct(29))
  qed
  have pend': "pend ch' = pend ch - {p}"
    using p(1) ne [of p] unfolding ch' pend_def by auto
  have "chan_ok ch'" using wf_with_chan [OF wf c(1)] c(2) by (simp add: ch' chan_ok_def)
  moreover have "ops_ok (w_op w) (a_mtu a) (place_ops (set_chan c ch' w) a)"
    by (rule ops_ok_sub_chan [OF wf c]) (simp_all add: ch' sub_queue_refl wf_distinct_chan [OF wf c])
  moreover have "\<exists>q op. q \<in> pend ch' \<and> w_op w q = Some op \<and> op_timeout_id op = t \<and> op_id op = i"
    if t: "(t, c, i) \<in> set (w_timers w)" for t i
  proof -
    obtain q oq where q: "q \<in> pend ch" "w_op w q = Some oq" "op_timeout_id oq = t" "op_id oq = i"
      using wf_timer_of [OF wf c t] by blast
    moreover have "q \<noteq> p" using q p t by force
    ultimately show ?thesis unfolding pend' by blast
  qed
  ultimately show "wf_with (set_chan c ch' w) a" by (rule wf_chan_place [OF wf c(1)])
  let ?pl = "if pending_req ch = Some p then AtPendReq c else AtPendInd c"
  have eq: "place_ops (set_chan c ch' w) a = (place_ops w a)(?pl := [])"
    unfolding place_ops_set_chan [OF c(1)] ch' using pl by (auto simp: fun_eq_iff)
  have "p \<in> set (place_ops w a ?pl)"
    using p(1) pl by (auto simp: pend_def)
  then show "p \<notin> owned (place_ops (set_chan c ch' w) a)"
    unfolding eq by (intro not_owned_removed [OF L]) simp_all
qed

context att_client
begin

lemma destroy_unowned:
  assumes "wf_with w a" "w_op w p = Some op" "p \<notin> owned (place_ops w a)"
  shows "ensures (destroy_att_send_op E p w) (\<lambda>w'. keeps {p} (drop_timer op w) w' \<and> w_op w' p = None)"
proof -
  let ?w0 = "drop_timer op w"
  note wf0 = wf_drop_timer [OF assms(1), of op]
  have c: "ensures (call_if E (op_destroy op) (\<lambda>d. CallDestroy d (op_user_data op)) ?w0) (keeps {} ?w0)"
    by (rule call_if_keeps [OF wf_withI [OF wf0]])
  show ?thesis
    unfolding destroy_att_send_op_def assms(2) bind.bind_lunit Let_def drop_timer_def [symmetric] ensures_bind
  proof (rule ensures_mono [OF c])
    fix w1 assume k: "keeps {} ?w0 w1"
    obtain a1 where a1: "wf_with w1 a1" "frame_att {} ?w0 a w1 a1" using keepsE [OF k wf0] by blast
    have p: "w_op w1 p = Some op" "p \<notin> owned (place_ops w1 a1)"
      using frame_attD(6) [OF a1(2), of p] wf_live [OF assms(1,2)] assms(2,3) by simp_all
    from keeps_unowned_op [OF a1(1) p(2) wf_live [OF a1(1) p(1)], of None]
    show "ensures (free_op p w1) (\<lambda>w'. keeps {p} ?w0 w' \<and> w_op w' p = None)"
      using p(1) k by (auto simp: free_op_def intro: keeps_trans)
  qed
qed

lemma destroy_queued:
  assumes "wf_with w a" "w_op w p = Some op" "op_timeout_id op = 0" "p \<notin> owned (place_ops w a)"
  shows "ensures (destroy_att_send_op E p w) (keeps {p} w)"
  by (rule ensures_mono [OF destroy_unowned [OF assms(1,2,4)]]) (simp add: assms(3))

lemma disc_queued:
  assumes "wf_with w a" "w_op w p = Some op" "op_timeout_id op = 0" "p \<notin> owned (place_ops w a)"
  shows "ensures (disc_att_send_op E p w) (keeps {p} w)"
  unfolding disc_att_send_op_def assms(2) bind.bind_lunit ensures_bind
proof (rule ensures_mono [OF call_if_keeps [OF wf_withI [OF assms(1)]]])
  fix w1 assume k: "keeps {} w w1"
  obtain a1 where a1: "wf_with w1 a1" "frame_att {} w a w1 a1" using keepsE [OF k assms(1)] by blast
  have p: "w_op w1 p = Some op" "p \<notin> owned (place_ops w1 a1)"
    using frame_attD(6) [OF a1(2), of p] wf_live [OF assms(1,2)] assms(2,4) by simp_all
  show "ensures (destroy_att_send_op E p w1) (keeps {p} w)"
    by (rule ensures_mono [OF destroy_queued [OF a1(1) p(1) assms(3) p(2)]])
      (auto intro: keeps_trans [OF k])
qed

lemma destroy_pending:
  assumes "wf_with w a" "c \<in> set (chans a)" "w_chan w c = Some ch" "p \<in> pend ch" "w_op w p = Some op"
  shows "ensures (destroy_att_send_op E p w) (\<lambda>w'. \<exists>w1 a1 ch1 op1. wf_with w1 a1 \<and>
    frame_att {} (drop_timer op w) a w1 a1 \<and> c \<in> set (chans a1) \<and> w_chan w1 c = Some ch1 \<and>
    pending_req ch1 = pending_req ch \<and> pending_ind ch1 = pending_ind ch \<and> w_op w1 p = Some op1 \<and>
    same_op op op1 \<and> w' = w1\<lparr>w_op := (w_op w1)(p := None)\<rparr>)"
proof -
  let ?w0 = "drop_timer op w"
  note wf0 = wf_drop_timer [OF assms(1), of op]
  have c: "ensures (call_if E (op_destroy op) (\<lambda>d. CallDestroy d (op_user_data op)) ?w0) (keeps {} ?w0)"
    by (rule call_if_keeps [OF wf_withI [OF wf0]])
  show ?thesis
    unfolding destroy_att_send_op_def assms(5) bind.bind_lunit Let_def drop_timer_def [symmetric] ensures_bind
  proof (rule ensures_mono [OF c])
    fix w1 assume k: "keeps {} ?w0 w1"
    obtain a1 where a1: "wf_with w1 a1" "frame_att {} ?w0 a w1 a1" using keepsE [OF k wf0] by blast
    have ch0: "w_chan ?w0 c = Some ch" using assms(3) by simp
    obtain ch1 where ch1: "w_chan w1 c = Some ch1" "c \<in> set (chans a1)" "pending_req ch1 = pending_req ch"
      "pending_ind ch1 = pending_ind ch"
      "\<And>p. p \<in> pend ch \<Longrightarrow> \<exists>op op'. w_op ?w0 p = Some op \<and> w_op w1 p = Some op' \<and> same_op op op'"
      using frame_pending [OF a1(2) assms(2) ch0] by metis
    obtain op1 where "w_op w1 p = Some op1" "same_op op op1"
      using ch1(5) [OF assms(4)] assms(5) by auto
    with a1 ch1 show "ensures (free_op p w1) (\<lambda>w'. \<exists>w1 a1 ch1 op1. wf_with w1 a1 \<and>
      frame_att {} ?w0 a w1 a1 \<and> c \<in> set (chans a1) \<and> w_chan w1 c = Some ch1 \<and>
      pending_req ch1 = pending_req ch \<and> pending_ind ch1 = pending_ind ch \<and> w_op w1 p = Some op1 \<and>
      same_op op op1 \<and> w' = w1\<lparr>w_op := (w_op w1)(p := None)\<rparr>)"
      by (auto simp: free_op_def)
  qed
qed

end

lemma each_unowned:
  assumes f: "\<And>p w a op. wf_with w a \<Longrightarrow> w_op w p = Some op \<Longrightarrow> op_timeout_id op = 0 \<Longrightarrow>
      p \<notin> owned (place_ops w a) \<Longrightarrow> ensures (f p w) (keeps {p} w)"
  shows "wf_with w a \<Longrightarrow> distinct ps \<Longrightarrow>
    (\<And>p. p \<in> set ps \<Longrightarrow> \<exists>op. w_op w p = Some op \<and> op_timeout_id op = 0 \<and> p \<notin> owned (place_ops w a)) \<Longrightarrow>
    ensures (each f ps w) (keeps (set ps) w)"
proof (induction ps arbitrary: w a)
  case Nil then show ?case by (simp add: keeps_refl wf_withI)
next
  case (Cons p ps)
  obtain op where op: "w_op w p = Some op" "op_timeout_id op = 0" "p \<notin> owned (place_ops w a)"
    using Cons.prems(3) by force
  show ?case
    unfolding each.simps ensures_bind
  proof (rule ensures_mono [OF f [OF Cons.prems(1) op]])
    fix w1 assume k: "keeps {p} w w1"
    obtain a1 where a1: "wf_with w1 a1" "frame_att {p} w a w1 a1" using keepsE [OF k Cons.prems(1)] by blast
    have "ensures (each f ps w1) (keeps (set ps) w1)"
    proof (rule Cons.IH [OF a1(1)])
      show "distinct ps" using Cons.prems(2) by simp
      fix q assume q: "q \<in> set ps"
      then obtain oq where "w_op w q = Some oq" "op_timeout_id oq = 0" "q \<notin> owned (place_ops w a)"
        using Cons.prems(3) by force
      moreover have "q \<noteq> p" using q Cons.prems(2) by auto
      ultimately show "\<exists>op. w_op w1 q = Some op \<and> op_timeout_id op = 0 \<and> q \<notin> owned (place_ops w1 a1)"
        using frame_attD(6) [OF a1(2), of q] wf_live [OF Cons.prems(1)] by auto
    qed
    then show "ensures (each f ps w1) (keeps (set (p # ps)) w)"
      by (rule ensures_mono) (auto intro: keeps_trans [OF k])
  qed
qed

section \<open>Cancelling\<close>

lemma remove_op_ok:
  assumes "\<And>p. p \<in> set q \<Longrightarrow> w_op w p \<noteq> None" "distinct q"
  shows "\<exists>x q'. remove_op w i q = Some (x, q') \<and> sub_queue q' q \<and> (case x of
    None \<Rightarrow> q' = q | Some p \<Rightarrow> p \<in> set q \<and> p \<notin> set q')"
  using assms
proof (induction q)
  case (Cons p q)
  then obtain op where op: "w_op w p = Some op" by force
  obtain x q' where "remove_op w i q = Some (x, q')" "sub_queue q' q" "case x of
    None \<Rightarrow> q' = q | Some p \<Rightarrow> p \<in> set q \<and> p \<notin> set q'"
    using Cons by force
  with op Cons.prems(2) show ?case
    by (auto simp: sub_queue_def split: option.splits)
qed (simp add: sub_queue_def)

lemma queue_live:
  assumes "wf_with w a" "p \<in> set (place_ops w a pl)"
  shows "w_op w p \<noteq> None"
  using ops_okD [OF wf_withD(3) [OF assms(1)] assms(2)] by auto

lemma op_has_id_ok:
  assumes "\<And>p. x = Some p \<Longrightarrow> w_op w p \<noteq> None"
  shows "\<exists>b. op_has_id x i w = Some b \<and> (b \<longrightarrow> (\<exists>p op. x = Some p \<and> w_op w p = Some op \<and> op_id op = i))"
proof (cases x)
  case None then show ?thesis by (auto simp: op_has_id_def)
next
  case (Some p)
  then obtain op where "w_op w p = Some op" using assms by force
  then show ?thesis using Some by (simp add: op_has_id_def)
qed

context att_client
begin

lemma cancel_pending_op:
  assumes "wf_with w a" "c \<in> set (chans a)" "w_chan w c = Some ch" "p \<in> pend ch"
  shows "ensures (cancel_att_send_op E p w) (keeps {} w)"
proof -
  obtain op where op: "w_op w p = Some op" using pend_live [OF assms] by blast
  show ?thesis
    unfolding cancel_att_send_op_def op bind.bind_lunit ensures_bind
  proof (rule ensures_mono [OF call_if_keeps [OF wf_withI [OF assms(1)]]])
    fix w1 assume k: "keeps {} w w1"
    obtain a1 where a1: "wf_with w1 a1" "frame_att {} w a w1 a1" using keepsE [OF k assms(1)] by blast
    obtain ch1 where ch1: "w_chan w1 c = Some ch1" "c \<in> set (chans a1)" "pending_req ch1 = pending_req ch"
      "pending_ind ch1 = pending_ind ch"
      using frame_pending [OF a1(2) assms(2,3)] by metis
    have p1: "p \<in> pend ch1" using assms(4) ch1 by (simp add: pend_def)
    obtain op1 where op1: "w_op w1 p = Some op1" using pend_live [OF a1(1) ch1(2,1) p1] by blast
    have own: "p \<in> owned (place_ops w1 a1)"
      using p1 place_ops_of_chan [OF ch1(2,1)] unfolding owned_iff pend_def by (metis UnE set_opt_list)
    have "keeps {p} w1 (set_op p (op1\<lparr>op_user_data := 0, op_callback := None, op_destroy := None\<rparr>) w1)"
      by (rule keeps_same_op [OF a1(1) op1]) (simp add: same_op_def)
    then have "keeps {} w1 (set_op p (op1\<lparr>op_user_data := 0, op_callback := None, op_destroy := None\<rparr>) w1)"
      by (rule keeps_weaken [OF _ a1(1)]) (use own in simp)
    then show "ensures (upd_op p (\<lambda>op. op\<lparr>op_user_data := 0, op_callback := None, op_destroy := None\<rparr>) w1) (keeps {} w)"
      using op1 by (auto simp: upd_op_def intro: keeps_trans0 [OF k])
  qed
qed

lemma chan_cancel_keeps:
  assumes "wf_with w a" "c \<in> set (chans a)"
  shows "ensures (bt_att_chan_cancel E c i w) (\<lambda>(r, w'). keeps {} w w' \<and> (\<not> r \<longrightarrow> w' = w))"
proof -
  obtain ch where ch: "w_chan w c = Some ch" "chan_ok ch" using wf_with_chan [OF assms] by blast
  have live: "w_op w p \<noteq> None" if "p \<in> pend ch" for p
    using pend_live [OF assms ch(1) that] by auto
  have "pending_req ch = Some p \<or> pending_ind ch = Some p \<Longrightarrow> w_op w p \<noteq> None" for p
    using live by (auto simp: pend_def)
  note live = this
  obtain b1 where b1: "op_has_id (pending_req ch) i w = Some b1"
    using op_has_id_ok [of "pending_req ch" w i] live by blast
  obtain b2 where b2: "op_has_id (pending_ind ch) i w = Some b2"
    using op_has_id_ok [of "pending_ind ch" w i] live by blast
  have cp: "ensures (on_some (cancel_att_send_op E) x w) (keeps {} w)" if "set_option x \<subseteq> pend ch" for x
    using cancel_pending_op [OF assms ch(1)] that keeps_refl [OF wf_withI [OF assms(1)]]
    by (cases x) (auto simp: on_some_def)
  have cp1: "ensures (on_some (cancel_att_send_op E) (pending_req ch) w) (keeps {} w)"
    "ensures (on_some (cancel_att_send_op E) (pending_ind ch) w) (keeps {} w)"
    by (rule cp; simp add: pend_def)+
  note pl = place_ops_of_chan [OF assms(2) ch(1)]
  have ql: "p \<in> set (ch_queue ch) \<Longrightarrow> w_op w p \<noteq> None" for p
    using queue_live [OF assms(1), of p "AtChan c"] pl(1) by simp
  obtain x q' where q: "remove_op w i (ch_queue ch) = Some (x, q')" "sub_queue q' (ch_queue ch)"
    "case x of None \<Rightarrow> q' = ch_queue ch | Some p \<Rightarrow> p \<in> set (ch_queue ch) \<and> p \<notin> set q'"
    using remove_op_ok [OF ql wf_distinct_chan [OF assms ch(1)]] by blast
  let ?w1 = "set_chan c (ch\<lparr>ch_queue := q'\<rparr>) w"
  have k1: "keeps {} w ?w1" and wf1: "wf_with ?w1 a"
    using keeps_update_chan [OF assms ch(1), of "ch\<lparr>ch_queue := q'\<rparr>"]
      wf_update_chan [OF assms ch(1), of "ch\<lparr>ch_queue := q'\<rparr>"] ch(2) q(2) by (simp_all add: chan_ok_def)
  have del: "ensures (do { w \<leftarrow> destroy_att_send_op E p ?w1; w \<leftarrow> wakeup_chan_writer E c w; Some (True, w) })
    (\<lambda>(r, w'). keeps {} w w' \<and> (\<not> r \<longrightarrow> w' = w))" if p: "x = Some p" for p
  proof -
    have pq: "p \<in> set (ch_queue ch)" "p \<notin> set q'" using q(3) p by simp_all
    obtain op where op: "w_op w p = Some op" "op_timeout_id op = 0"
      using ops_okD [OF wf_withD(3) [OF assms(1)], of p "AtChan c"] pq(1) pl(1) by auto
    have eq: "place_ops ?w1 a = (place_ops w a)(AtChan c := q')"
      unfolding place_ops_set_chan [OF assms(2)] using pl by (auto simp: fun_eq_iff)
    have un: "p \<notin> owned (place_ops ?w1 a)"
      unfolding eq
      by (rule not_owned_removed [OF ops_ok_layout [OF wf_withD(3) [OF assms(1)]]])
        (use pq pl(1) q(2) in \<open>simp_all add: sub_queue_def\<close>)
    have op1: "w_op ?w1 p = Some op" using op(1) by (simp add: set_chan_def)
    show ?thesis
      unfolding ensures_bind
    proof (rule ensures_mono [OF destroy_queued [OF wf1 op1 op(2) un]])
      fix w2 assume k2: "keeps {p} ?w1 w2"
      have "keeps {p} w w2" by (rule keeps_trans [OF k1 k2]) simp_all
      moreover have "p \<in> owned (place_ops w a)" using pq(1) pl(1) unfolding owned_iff by metis
      ultimately have k: "keeps {} w w2" by (auto intro: keeps_weaken [OF _ assms(1)])
      obtain a2 where a2: "wf_with w2 a2" "c \<in> set (chans a2)"
        using keepsE [OF k assms(1)] frame_attD(8) assms(2) by metis
      show "ensures (wakeup_chan_writer E c w2) (\<lambda>y. ensures (Some (True, y)) (\<lambda>(r, w'). keeps {} w w' \<and> (\<not> r \<longrightarrow> w' = w)))"
        by (rule ensures_mono [OF wakeup_chan_writer_keeps [OF a2]]) (auto intro: keeps_trans0 [OF k])
    qed
  qed
  show ?thesis
  proof (cases b1)
    case True
    then have "bt_att_chan_cancel E c i w =
      do { w \<leftarrow> on_some (cancel_att_send_op E) (pending_req ch) w; Some (True, w) }"
      by (simp add: bt_att_chan_cancel_def ch b1)
    then show ?thesis using ensures_mono [OF cp1(1)] by simp
  next
    case False
    show ?thesis
    proof (cases b2)
      case True
      with False have "bt_att_chan_cancel E c i w =
        do { w \<leftarrow> on_some (cancel_att_send_op E) (pending_ind ch) w; Some (True, w) }"
        by (simp add: bt_att_chan_cancel_def ch b1 b2)
      then show ?thesis using ensures_mono [OF cp1(2)] by simp
    next
      case n: False
      show ?thesis
      proof (cases x)
        case None
        with False n have "bt_att_chan_cancel E c i w = Some (False, w)"
          by (simp add: bt_att_chan_cancel_def ch b1 b2 q(1))
        then show ?thesis using keeps_refl [OF wf_withI [OF assms(1)]] by simp
      next
        case (Some p)
        with False n have "bt_att_chan_cancel E c i w =
          do { w \<leftarrow> destroy_att_send_op E p ?w1; w \<leftarrow> wakeup_chan_writer E c w; Some (True, w) }"
          by (simp add: bt_att_chan_cancel_def ch b1 b2 q(1))
        then show ?thesis using del [OF Some] by simp
      qed
    qed
  qed
qed

end

lemma set_att_same: "w_att w = Some a \<Longrightarrow> set_att a w = w"
  by (simp add: set_att_def)

lemma wf_queues [simp]:
  assumes "wf_with w a"
  shows "sub_queue q (req_queue a) \<Longrightarrow> wf_with (set_att (a\<lparr>req_queue := q\<rparr>) w) (a\<lparr>req_queue := q\<rparr>)"
    "sub_queue q (ind_queue a) \<Longrightarrow> wf_with (set_att (a\<lparr>ind_queue := q\<rparr>) w) (a\<lparr>ind_queue := q\<rparr>)"
    "sub_queue q (write_queue a) \<Longrightarrow> wf_with (set_att (a\<lparr>write_queue := q\<rparr>) w) (a\<lparr>write_queue := q\<rparr>)"
  using wf_withD(6,7) [OF assms] wf_distinct [OF assms]
  by (auto intro!: wf_update_att [OF assms] simp: keys_ok_def handlers_ok_def sub_queue_refl)

lemma keeps_queues [simp]:
  assumes "wf_with w a"
  shows "sub_queue q (req_queue a) \<Longrightarrow> keeps {} w (set_att (a\<lparr>req_queue := q\<rparr>) w)"
    "sub_queue q (ind_queue a) \<Longrightarrow> keeps {} w (set_att (a\<lparr>ind_queue := q\<rparr>) w)"
    "sub_queue q (write_queue a) \<Longrightarrow> keeps {} w (set_att (a\<lparr>write_queue := q\<rparr>) w)"
  using wf_withD(6,7) [OF assms] wf_distinct [OF assms]
  by (auto intro!: keeps_update_att [OF assms] simp: keys_ok_def handlers_ok_def sub_queue_refl)

lemma queued_op:
  assumes "wf_with w a" "p \<in> set (place_ops w a pl)" "pl = AtReq \<or> pl = AtInd \<or> pl = AtWrite"
  shows "\<exists>op. w_op w p = Some op \<and> op_timeout_id op = 0"
  using ops_okD [OF wf_withD(3) [OF assms(1)] assms(2)] assms(3) by auto

lemma drain_step:
  assumes f: "\<And>p w a op. wf_with w a \<Longrightarrow> w_op w p = Some op \<Longrightarrow> op_timeout_id op = 0 \<Longrightarrow>
      p \<notin> owned (place_ops w a) \<Longrightarrow> ensures (f p w) (keeps {p} w)"
    and wf: "wf_with w a" "pl = AtReq \<or> pl = AtInd \<or> pl = AtWrite"
      "place_ops w a' = (place_ops w a)(pl := [])" "wf_with (set_att a' w) a'" "keeps {} w (set_att a' w)"
  shows "ensures (each f (place_ops w a pl) (set_att a' w)) (keeps {} w)"
proof -
  let ?q = "place_ops w a pl"
  note L = ops_ok_layout [OF wf_withD(3) [OF wf(1)]]
  have "ensures (each f ?q (set_att a' w)) (keeps (set ?q) (set_att a' w))"
  proof (rule each_unowned [OF f wf(4)])
    show "distinct ?q" using L by (simp add: layout_def)
    fix p assume p: "p \<in> set ?q"
    then have "p \<notin> owned (place_ops (set_att a' w) a')"
      unfolding place_ops_w wf(3) by (intro not_owned_removed [OF L p]) simp_all
    then show "\<exists>op. w_op (set_att a' w) p = Some op \<and> op_timeout_id op = 0 \<and> p \<notin> owned (place_ops (set_att a' w) a')"
      using queued_op [OF wf(1) p wf(2)] by (simp add: set_att_def)
  qed
  then show ?thesis
  proof (rule ensures_mono)
    fix w1 assume "keeps (set ?q) (set_att a' w) w1"
    then have "keeps (set ?q) w w1" by (rule keeps_trans [OF wf(5)]) simp_all
    then show "keeps {} w w1" by (rule keeps_weaken [OF _ wf(1)]) (auto simp: owned_iff)
  qed
qed

lemma ensures_seq:
  assumes "ensures x (keeps {} w)" "\<And>w1. wf w1 \<Longrightarrow> ensures (g w1) (keeps {} w1)"
  shows "ensures (Option.bind x g) (keeps {} w)"
  unfolding ensures_bind
proof (rule ensures_mono [OF assms(1)])
  fix w1 assume k: "keeps {} w w1"
  then have "wf w1" by (simp add: keeps_def)
  from assms(2) [OF this] show "ensures (g w1) (keeps {} w)"
    by (rule ensures_mono) (rule keeps_trans0 [OF k])
qed

lemma drain_queues_keeps:
  fixes w :: "'d world"
  assumes f: "\<And>p (w :: 'd world) a op. wf_with w a \<Longrightarrow> w_op w p = Some op \<Longrightarrow> op_timeout_id op = 0 \<Longrightarrow>
      p \<notin> owned (place_ops w a) \<Longrightarrow> ensures (f p w) (keeps {p} w)"
    and wf: "wf w"
  shows "ensures (drain_queues f w) (keeps {} w)"
proof -
  obtain a where a: "wf_with w a" using wf by (auto simp: wf_def)
  have 1: "ensures (each f (req_queue a) (set_att (a\<lparr>req_queue := []\<rparr>) w)) (keeps {} w)" if "wf_with w a" for w :: "'d world" and a
    using drain_step [where pl = AtReq and a' = "a\<lparr>req_queue := []\<rparr>", OF f that] that by simp
  have 2: "ensures (each f (ind_queue a) (set_att (a\<lparr>ind_queue := []\<rparr>) w)) (keeps {} w)" if "wf_with w a" for w :: "'d world" and a
    using drain_step [where pl = AtInd and a' = "a\<lparr>ind_queue := []\<rparr>", OF f that] that by simp
  have 3: "ensures (each f (write_queue a) (set_att (a\<lparr>write_queue := []\<rparr>) w)) (keeps {} w)" if "wf_with w a" for w :: "'d world" and a
    using drain_step [where pl = AtWrite and a' = "a\<lparr>write_queue := []\<rparr>", OF f that] that by simp
  show ?thesis
    unfolding drain_queues_def wf_withD(1) [OF a] bind.bind_lunit
  proof (rule ensures_seq [OF 1 [OF a]])
    fix w1 :: "'d world" assume "wf w1"
    then obtain a1 where a1: "wf_with w1 a1" by (auto simp: wf_def)
    show "ensures (do { a \<leftarrow> w_att w1; w \<leftarrow> each f (ind_queue a) (set_att (a\<lparr>ind_queue := []\<rparr>) w1);
        a \<leftarrow> w_att w; each f (write_queue a) (set_att (a\<lparr>write_queue := []\<rparr>) w) }) (keeps {} w1)"
      unfolding wf_withD(1) [OF a1] bind.bind_lunit
    proof (rule ensures_seq [OF 2 [OF a1]])
      fix w2 :: "'d world" assume "wf w2"
      then obtain a2 where a2: "wf_with w2 a2" by (auto simp: wf_def)
      show "ensures (do { a \<leftarrow> w_att w2; each f (write_queue a) (set_att (a\<lparr>write_queue := []\<rparr>) w2) }) (keeps {} w2)"
        unfolding wf_withD(1) [OF a2] bind.bind_lunit by (rule 3 [OF a2])
    qed
  qed
qed

context att_client
begin

lemma cancel_on_chans_keeps:
  "wf_with w a \<Longrightarrow> set cs \<subseteq> set (chans a) \<Longrightarrow>
   ensures (cancel_on_chans E cs i w) (\<lambda>(r, w'). keeps {} w w' \<and> (\<not> r \<longrightarrow> w' = w))"
proof (induction cs)
  case Nil then show ?case by (simp add: keeps_refl wf_withI)
next
  case (Cons c cs)
  have c: "c \<in> set (chans a)" using Cons.prems(2) by simp
  show ?case
    unfolding cancel_on_chans.simps ensures_bind
    by (rule ensures_mono [OF chan_cancel_keeps [OF Cons.prems(1) c]]) (use Cons in auto)
qed

lemma cancel_queued:
  assumes "wf_with w a" "p \<in> set (place_ops w a pl)" "pl = AtReq \<or> pl = AtInd \<or> pl = AtWrite"
    "place_ops w a' = (place_ops w a)(pl := q)" "sub_queue q (place_ops w a pl)" "p \<notin> set q"
    "wf_with (set_att a' w) a'" "keeps {} w (set_att a' w)"
  shows "ensures (do { w \<leftarrow> destroy_att_send_op E p (set_att a' w); w \<leftarrow> wakeup_writer E w; Some (True, w) })
    (\<lambda>(r, w'). keeps {} w w')"
proof -
  note L = ops_ok_layout [OF wf_withD(3) [OF assms(1)]]
  obtain op where op: "w_op (set_att a' w) p = Some op" "op_timeout_id op = 0"
    using queued_op [OF assms(1-3)] by (auto simp: set_att_def)
  have un: "p \<notin> owned (place_ops (set_att a' w) a')"
    unfolding place_ops_w assms(4)
    by (rule not_owned_removed [OF L assms(2,6)]) (use assms(5) in \<open>simp add: sub_queue_def\<close>)
  show ?thesis
    unfolding ensures_bind
  proof (rule ensures_mono [OF destroy_queued [OF assms(7) op un]])
    fix w2 assume "keeps {p} (set_att a' w) w2"
    then have "keeps {p} w w2" by (rule keeps_trans [OF assms(8)]) simp_all
    then have k: "keeps {} w w2"
      by (rule keeps_weaken [OF _ assms(1)]) (use assms(2) in \<open>auto simp: owned_iff\<close>)
    then have "wf w2" by (simp add: keeps_def)
    from wakeup_writer_keeps [OF this, of E]
    show "ensures (wakeup_writer E w2) (\<lambda>y. ensures (Some (True, y)) (\<lambda>(r, w'). keeps {} w w'))"
      by (rule ensures_mono) (auto intro: keeps_trans0 [OF k])
  qed
qed

lemma bt_att_cancel_keeps:
  assumes "wf w"
  shows "ensures (bt_att_cancel E att i w) (\<lambda>(r, w'). keeps {} w w')"
proof (cases "att = None \<or> i = 0")
  case True then show ?thesis using keeps_refl [OF assms] by (auto simp: bt_att_cancel_def)
next
  case False
  obtain a where a: "wf_with w a" using assms by (auto simp: wf_def)
  have rem: "\<exists>x q'. remove_op w i (place_ops w a pl) = Some (x, q') \<and> sub_queue q' (place_ops w a pl) \<and>
    (case x of None \<Rightarrow> q' = place_ops w a pl | Some p \<Rightarrow> p \<in> set (place_ops w a pl) \<and> p \<notin> set q')" for pl
    by (rule remove_op_ok) (use queue_live [OF a] ops_ok_layout [OF wf_withD(3) [OF a]] in \<open>auto simp: layout_def\<close>)
  obtain x1 q1 where r1: "remove_op w i (req_queue a) = Some (x1, q1)" "sub_queue q1 (req_queue a)"
    "case x1 of None \<Rightarrow> q1 = req_queue a | Some p \<Rightarrow> p \<in> set (req_queue a) \<and> p \<notin> set q1"
    using rem [of AtReq] unfolding place_ops.simps by blast
  obtain x2 q2 where r2: "remove_op w i (ind_queue a) = Some (x2, q2)" "sub_queue q2 (ind_queue a)"
    "case x2 of None \<Rightarrow> q2 = ind_queue a | Some p \<Rightarrow> p \<in> set (ind_queue a) \<and> p \<notin> set q2"
    using rem [of AtInd] unfolding place_ops.simps by blast
  obtain x3 q3 where r3: "remove_op w i (write_queue a) = Some (x3, q3)" "sub_queue q3 (write_queue a)"
    "case x3 of None \<Rightarrow> q3 = write_queue a | Some p \<Rightarrow> p \<in> set (write_queue a) \<and> p \<notin> set q3"
    using rem [of AtWrite] unfolding place_ops.simps by blast
  obtain r w' where cc: "cancel_on_chans E (chans a) i w = Some (r, w')" "keeps {} w w'" "\<not> r \<Longrightarrow> w' = w"
    using cancel_on_chans_keeps [OF a order_refl, of i] by (auto simp: ensures_def)
  let ?fin = "\<lambda>p w. do { w \<leftarrow> destroy_att_send_op E p w; w \<leftarrow> wakeup_writer E w; Some (True, w) }"
  have eq: "bt_att_cancel E att i w = (if r then Some (True, w') else
    (case x1 of Some p \<Rightarrow> ?fin p (set_att (a\<lparr>req_queue := q1\<rparr>) w)
     | None \<Rightarrow> (case x2 of Some p \<Rightarrow> ?fin p (set_att (a\<lparr>ind_queue := q2\<rparr>) w)
       | None \<Rightarrow> (case x3 of Some p \<Rightarrow> ?fin p (set_att (a\<lparr>write_queue := q3\<rparr>) w)
         | None \<Rightarrow> Some (False, set_att (a\<lparr>write_queue := q3\<rparr>) w)))))"
    unfolding bt_att_cancel_def if_not_P [OF False] wf_withD(1) [OF a] bind.bind_lunit cc(1) prod.case
  proof (cases r)
    case False
    then have w': "w' = w" by (rule cc(3))
    show "(if r then Some (True, w') else do {
          a \<leftarrow> w_att w';
          (x, q) \<leftarrow> remove_op w' i (req_queue a);
          (x, w) \<leftarrow> (if x \<noteq> None then Some (x, set_att (a\<lparr>req_queue := q\<rparr>) w')
            else do {
              (x, q) \<leftarrow> remove_op w' i (ind_queue a);
              if x \<noteq> None then Some (x, set_att (a\<lparr>ind_queue := q\<rparr>) w')
              else do {
                (x, q) \<leftarrow> remove_op w' i (write_queue a);
                Some (x, set_att (a\<lparr>write_queue := q\<rparr>) w') } });
          (case x of None \<Rightarrow> Some (False, w) | Some p \<Rightarrow> ?fin p w) }) =
      (if r then Some (True, w') else
        (case x1 of Some p \<Rightarrow> ?fin p (set_att (a\<lparr>req_queue := q1\<rparr>) w)
         | None \<Rightarrow> (case x2 of Some p \<Rightarrow> ?fin p (set_att (a\<lparr>ind_queue := q2\<rparr>) w)
           | None \<Rightarrow> (case x3 of Some p \<Rightarrow> ?fin p (set_att (a\<lparr>write_queue := q3\<rparr>) w)
             | None \<Rightarrow> Some (False, set_att (a\<lparr>write_queue := q3\<rparr>) w)))))"
      unfolding w' wf_withD(1) [OF a] bind.bind_lunit r1(1) r2(1) r3(1) prod.case
      using False by (cases x1; cases x2; cases x3) simp_all
  qed simp
  show ?thesis
  proof (cases r)
    case True then show ?thesis using cc(2) by (simp add: eq)
  next
    case False
    show ?thesis
    proof (cases x1)
      case (Some p)
      then show ?thesis
        using cancel_queued [OF a, of p AtReq "a\<lparr>req_queue := q1\<rparr>" q1] False r1 a by (simp add: eq)
    next
      case n1: None
      show ?thesis
      proof (cases x2)
        case (Some p)
        then show ?thesis
          using cancel_queued [OF a, of p AtInd "a\<lparr>ind_queue := q2\<rparr>" q2] False r2 a n1 by (simp add: eq)
      next
        case n2: None
        then show ?thesis
          using cancel_queued [OF a, of _ AtWrite "a\<lparr>write_queue := q3\<rparr>" q3] False r3 a n1
            set_att_same [OF wf_withD(1) [OF a]] keeps_refl [OF assms, of "{}"]
          by (cases x3) (simp_all add: eq)
      qed
    qed
  qed
qed

end

section \<open>Handlers and settings\<close>

lemma wf_att_misc:
  assumes "wf_with w a" "chans a' = chans a" "a_mtu a \<le> a_mtu a'" "req_queue a' = req_queue a"
    "ind_queue a' = ind_queue a" "write_queue a' = write_queue a" "a_ref_count a' = a_ref_count a"
    "keys_ok a'" "handlers_ok w a'"
  shows "wf_with (set_att a' w) a'" "keeps {} w (set_att a' w)"
  using wf_update_att [OF assms(1-3,8,9)] keeps_update_att [OF assms(1-3,8,9)] assms(4-7) wf_distinct [OF assms(1)]
  by (simp_all add: sub_queue_refl)

lemma handlers_ok_sub:
  assumes "handlers_ok w a" "distinct (map fst (notify_list a'))" "distinct (map fst (disconn_list a'))"
    "fst ` set (notify_list a') \<subseteq> fst ` set (notify_list a)" "fst ` set (disconn_list a') \<subseteq> fst ` set (disconn_list a)"
  shows "handlers_ok w a'"
proof -
  have "e < w_next w" if "e \<in> fst ` set (notify_list a') \<union> fst ` set (disconn_list a')" for e
  proof -
    have "e \<in> fst ` set (notify_list a) \<union> fst ` set (disconn_list a)"
      using that subsetD [OF assms(4), of e] subsetD [OF assms(5), of e] by (simp only: Un_iff) argo
    then show ?thesis using assms(1) by (simp only: handlers_ok_def)
  qed
  then show ?thesis using assms(2,3) by (simp only: handlers_ok_def) simp
qed

lemma remove_if_ok:
  assumes "distinct (map fst xs)" "remove_if P xs = (x, ys)"
  shows "distinct (map fst ys)" "fst ` set ys \<subseteq> fst ` set xs"
proof -
  have split: "xs = takeWhile (\<lambda>x. \<not> P x) xs @ dropWhile (\<lambda>x. \<not> P x) xs" by simp
  have "distinct (map fst ys) \<and> set ys \<subseteq> set xs"
  proof (cases "dropWhile (\<lambda>x. \<not> P x) xs")
    case Nil
    have "ys = xs" using assms(2) unfolding remove_if_def Nil by simp
    then show ?thesis using assms(1) by simp
  next
    case (Cons z zs)
    then have ys: "ys = takeWhile (\<lambda>x. \<not> P x) xs @ zs" using assms(2) by (simp add: remove_if_def)
    have "distinct (map fst (takeWhile (\<lambda>x. \<not> P x) xs @ z # zs))"
      using assms(1) split Cons by metis
    moreover have "set (takeWhile (\<lambda>x. \<not> P x) xs @ z # zs) = set xs"
      using split Cons by metis
    ultimately show ?thesis unfolding ys by auto
  qed
  then show "distinct (map fst ys)" "fst ` set ys \<subseteq> fst ` set xs" by auto
qed

text \<open>Addresses only grow; claiming the next one changes nothing else.\<close>

lemma wf_next:
  assumes "wf_with w a" "chans a' = chans a" "a_mtu a' = a_mtu a" "req_queue a' = req_queue a"
    "ind_queue a' = ind_queue a" "write_queue a' = write_queue a" "a_ref_count a' = a_ref_count a"
    "keys_ok a'" "handlers_ok (w\<lparr>w_next := Suc (w_next w)\<rparr>) a'"
  shows "keeps {} w ((set_att a' w)\<lparr>w_next := Suc (w_next w)\<rparr>)"
proof -
  let ?w = "(set_att a' w)\<lparr>w_next := Suc (w_next w)\<rparr>"
  have pl: "place_ops ?w a' = place_ops w a"
    by (rule place_ops_cong) (simp_all add: assms set_att_def)
  have wf: "wf_with ?w a'"
    using assms wf_withD [OF assms(1)] pl
    by (simp add: wf_with_def chans_ok_def timers_ok_def fresh_ok_def handlers_ok_def set_att_def)
  have sp: "same_pend w ?w c" if "c \<in> set (chans a)" for c
    using same_pend_refl [OF assms(1) that] by (simp add: same_pend_def set_att_def)
  have "frame_att {} w a ?w a'"
    unfolding frame_att_def pl using wf_withD(1) [OF assms(1)] sp assms(2,7) by (simp add: set_att_def)
  then show ?thesis by (rule keepsI [OF wf])
qed

lemma bt_att_register_keeps:
  assumes "wf w"
  shows "ensures (bt_att_register att opcode cb ud d w) (\<lambda>(r, w'). keeps {} w w')"
proof -
  obtain a where a: "wf_with w a" using assms by (auto simp: wf_def)
  note h = wf_withD(6,7) [OF a]
  have "w_next w \<notin> fst ` set (notify_list a)" using h(2) by (auto simp: handlers_ok_def)
  then have "keeps {} w ((set_att (a\<lparr>next_reg_id := i, notify_list := notify_list a @ [(w_next w, n)]\<rparr>) w)
      \<lparr>w_next := Suc (w_next w)\<rparr>)" for i n
    by (intro wf_next [OF a]) (use h in \<open>auto simp: keys_ok_def handlers_ok_def less_Suc_eq\<close>)
  then show ?thesis
    using wf_withD(1) [OF a] keeps_refl [OF assms] by (auto simp: bt_att_register_def Let_def)
qed

lemma bt_att_register_disconnect_keeps:
  assumes "wf w"
  shows "ensures (bt_att_register_disconnect att cb ud d w) (\<lambda>(r, w'). keeps {} w w')"
proof -
  obtain a where a: "wf_with w a" using assms by (auto simp: wf_def)
  note h = wf_withD(6,7) [OF a]
  have "w_next w \<notin> fst ` set (disconn_list a)" using h(2) by (auto simp: handlers_ok_def)
  then have "keeps {} w ((set_att (a\<lparr>next_reg_id := i, disconn_list := disconn_list a @ [(w_next w, n)]\<rparr>) w)
      \<lparr>w_next := Suc (w_next w)\<rparr>)" for i n
    by (intro wf_next [OF a]) (use h in \<open>auto simp: keys_ok_def handlers_ok_def less_Suc_eq\<close>)
  then show ?thesis
    using wf_withD(1) [OF a] keeps_refl [OF assms] by (auto simp: bt_att_register_disconnect_def Let_def)
qed

lemma mark_removed_addr: "mark_removed i es = Some es' \<Longrightarrow> map fst es' = map fst es"
  by (induction es arbitrary: es') (auto simp: bind_eq_Some_conv split: if_splits)

lemma keeps_lists:
  assumes "wf_with w a"
  shows "distinct (map fst ns) \<Longrightarrow> fst ` set ns \<subseteq> fst ` set (notify_list a) \<Longrightarrow>
      keeps {} w (set_att (a\<lparr>notify_list := ns\<rparr>) w)"
    "distinct (map fst ds) \<Longrightarrow> fst ` set ds \<subseteq> fst ` set (disconn_list a) \<Longrightarrow>
      keeps {} w (set_att (a\<lparr>disconn_list := ds\<rparr>) w)"
proof -
  have d: "distinct (map fst (notify_list a))" "distinct (map fst (disconn_list a))"
    using wf_withD(7) [OF assms] by (simp_all add: handlers_ok_def)
  show "distinct (map fst ns) \<Longrightarrow> fst ` set ns \<subseteq> fst ` set (notify_list a) \<Longrightarrow>
      keeps {} w (set_att (a\<lparr>notify_list := ns\<rparr>) w)"
    using wf_withD(6) [OF assms] d
    by (intro wf_att_misc(2) [OF assms] handlers_ok_sub [OF wf_withD(7) [OF assms]]) (simp_all add: keys_ok_def)
  show "distinct (map fst ds) \<Longrightarrow> fst ` set ds \<subseteq> fst ` set (disconn_list a) \<Longrightarrow>
      keeps {} w (set_att (a\<lparr>disconn_list := ds\<rparr>) w)"
    using wf_withD(6) [OF assms] d
    by (intro wf_att_misc(2) [OF assms] handlers_ok_sub [OF wf_withD(7) [OF assms]]) (simp_all add: keys_ok_def)
qed

context att_client
begin

lemma destroy_handlers:
  assumes "wf w"
  shows "ensures (destroy_att_notify E n w) (keeps {} w)" "ensures (destroy_att_disconn E m w) (keeps {} w)"
  unfolding destroy_att_notify_def destroy_att_disconn_def by (rule call_if_keeps [OF assms])+

lemma bt_att_unregister_keeps:
  assumes "wf w"
  shows "ensures (bt_att_unregister E att i w) (\<lambda>(r, w'). keeps {} w w')"
proof -
  obtain a where a: "wf_with w a" using assms by (auto simp: wf_def)
  have "distinct (map fst (notify_list a))" using wf_withD(7) [OF a] by (simp add: handlers_ok_def)
  note r = remove_if_ok [OF this]
  show ?thesis
  proof (cases "att = None \<or> i = 0 \<or> fst (remove_if (match_notify_id i) (notify_list a)) = None")
    case True
    then show ?thesis
      using wf_withD(1) [OF a] keeps_refl [OF assms]
      by (auto simp: bt_att_unregister_def split: prod.split option.split)
  next
    case False
    then obtain e es where e: "remove_if (match_notify_id i) (notify_list a) = (Some e, es)"
      by (metis option.exhaust_sel prod.collapse)
    let ?w1 = "set_att (a\<lparr>notify_list := es\<rparr>) w"
    have k: "keeps {} w ?w1" by (rule keeps_lists(1) [OF a r [OF e]])
    have eq: "bt_att_unregister E att i w = do { w \<leftarrow> destroy_att_notify E (snd e) ?w1; Some (True, w) }"
      using False e wf_withD(1) [OF a] by (simp add: bt_att_unregister_def)
    have "wf ?w1" using k by (simp add: keeps_def)
    from destroy_handlers(1) [OF this] show ?thesis
      unfolding eq ensures_bind by (rule ensures_mono) (auto intro: keeps_trans0 [OF k])
  qed
qed

lemma bt_att_unregister_disconnect_keeps:
  assumes "wf w"
  shows "ensures (bt_att_unregister_disconnect E att i w) (\<lambda>(r, w'). keeps {} w w')"
proof -
  obtain a where a: "wf_with w a" using assms by (auto simp: wf_def)
  have d: "distinct (map fst (disconn_list a))" using wf_withD(7) [OF a] by (simp add: handlers_ok_def)
  note r = remove_if_ok [OF this]
  show ?thesis
  proof (cases "att = None \<or> i = 0 \<or> fst (remove_if (match_disconn_id i) (disconn_list a)) = None \<or> chans a = []")
    case True
    have "keeps {} w (set_att (a\<lparr>disconn_list := es\<rparr>) w)" if "mark_removed i (disconn_list a) = Some es" for es
      using mark_removed_addr [OF that] d by (intro keeps_lists(2) [OF a]) (simp_all flip: set_map)
    with True show ?thesis
      using wf_withD(1) [OF a] keeps_refl [OF assms]
      by (auto simp: bt_att_unregister_disconnect_def split: prod.split option.split)
  next
    case False
    then obtain e es where e: "remove_if (match_disconn_id i) (disconn_list a) = (Some e, es)"
      by (metis option.exhaust_sel prod.collapse)
    let ?w1 = "set_att (a\<lparr>disconn_list := es\<rparr>) w"
    have k: "keeps {} w ?w1" by (rule keeps_lists(2) [OF a r [OF e]])
    have eq: "bt_att_unregister_disconnect E att i w = do { w \<leftarrow> destroy_att_disconn E (snd e) ?w1; Some (True, w) }"
      using False e wf_withD(1) [OF a] by (simp add: bt_att_unregister_disconnect_def)
    have "wf ?w1" using k by (simp add: keeps_def)
    from destroy_handlers(2) [OF this] show ?thesis
      unfolding eq ensures_bind by (rule ensures_mono) (auto intro: keeps_trans0 [OF k])
  qed
qed

lemma each_keeps_wf:
  assumes "\<And>x w. wf w \<Longrightarrow> ensures (f x w) (keeps {} w)" "wf w"
  shows "ensures (each f xs w) (keeps {} w)"
  using each_keeps [where I = "\<lambda>_. True" and xs = xs and f = f, OF _ assms(2)] assms(1) by simp

lemma bt_att_unregister_all_keeps:
  assumes "wf w"
  shows "ensures (bt_att_unregister_all E att w) (\<lambda>(r, w'). keeps {} w w')"
proof (cases att)
  case None then show ?thesis using keeps_refl [OF assms] by (simp add: bt_att_unregister_all_def)
next
  case (Some u)
  have 1: "ensures (each (destroy_att_notify E) (map snd (notify_list a)) (set_att (a\<lparr>notify_list := []\<rparr>) w)) (keeps {} w)"
    if a: "wf_with w a" for w :: "'c world" and a
  proof -
    have k: "keeps {} w (set_att (a\<lparr>notify_list := []\<rparr>) w)" by (rule keeps_lists(1) [OF a]) simp_all
    then have "wf (set_att (a\<lparr>notify_list := []\<rparr>) w)" by (simp add: keeps_def)
    then have "ensures (each (destroy_att_notify E) (map snd (notify_list a)) (set_att (a\<lparr>notify_list := []\<rparr>) w))
      (keeps {} (set_att (a\<lparr>notify_list := []\<rparr>) w))"
      by (intro each_keeps_wf destroy_handlers)
    then show ?thesis by (rule ensures_mono) (rule keeps_trans0 [OF k])
  qed
  have 2: "ensures (each (destroy_att_disconn E) (map snd (disconn_list a)) (set_att (a\<lparr>disconn_list := []\<rparr>) w)) (keeps {} w)"
    if a: "wf_with w a" for w :: "'c world" and a
  proof -
    have k: "keeps {} w (set_att (a\<lparr>disconn_list := []\<rparr>) w)" by (rule keeps_lists(2) [OF a]) simp_all
    then have "wf (set_att (a\<lparr>disconn_list := []\<rparr>) w)" by (simp add: keeps_def)
    then have "ensures (each (destroy_att_disconn E) (map snd (disconn_list a)) (set_att (a\<lparr>disconn_list := []\<rparr>) w))
      (keeps {} (set_att (a\<lparr>disconn_list := []\<rparr>) w))"
      by (intro each_keeps_wf destroy_handlers)
    then show ?thesis by (rule ensures_mono) (rule keeps_trans0 [OF k])
  qed
  obtain a where a: "wf_with w a" using assms by (auto simp: wf_def)
  have "ensures (do { w \<leftarrow> each (destroy_att_notify E) (map snd (notify_list a)) (set_att (a\<lparr>notify_list := []\<rparr>) w);
       a \<leftarrow> w_att w;
       each (destroy_att_disconn E) (map snd (disconn_list a)) (set_att (a\<lparr>disconn_list := []\<rparr>) w) }) (keeps {} w)"
  proof (rule ensures_seq [OF 1 [OF a]])
    fix w1 :: "'c world" assume "wf w1"
    then obtain a1 where a1: "wf_with w1 a1" by (auto simp: wf_def)
    from 2 [OF this] show "ensures (do { a \<leftarrow> w_att w1;
       each (destroy_att_disconn E) (map snd (disconn_list a)) (set_att (a\<lparr>disconn_list := []\<rparr>) w1) }) (keeps {} w1)"
      by (simp add: wf_withD(1) [OF a1])
  qed
  then show ?thesis
    using wf_withD(1) [OF a] Some by (simp add: bt_att_unregister_all_def)
qed

lemma cancel_pending_keeps:
  assumes "wf_with w a" "c \<in> set (chans a)"
  shows "ensures (cancel_pending E c w) (keeps {} w)"
proof -
  have cp: "ensures (on_some (cancel_att_send_op E) x w) (keeps {} w)"
    if "wf_with w a" "c \<in> set (chans a)" "w_chan w c = Some ch" "set_option x \<subseteq> pend ch" for w a ch x
    using cancel_pending_op [OF that(1-3)] that(4) keeps_refl [OF wf_withI [OF that(1)]]
    by (cases x) (auto simp: on_some_def)
  obtain ch where ch: "w_chan w c = Some ch" using wf_with_chan [OF assms] by blast
  show ?thesis
    unfolding cancel_pending_def ch bind.bind_lunit ensures_bind
  proof (rule ensures_mono [OF cp [OF assms ch]])
    show "set_option (pending_req ch) \<subseteq> pend ch" by (simp add: pend_def)
    fix w1 assume k: "keeps {} w w1"
    obtain a1 where a1: "wf_with w1 a1" "c \<in> set (chans a1)"
      using keepsE [OF k assms(1)] frame_attD(8) assms(2) by metis
    obtain ch1 where ch1: "w_chan w1 c = Some ch1" using wf_with_chan [OF a1] by blast
    have "ensures (on_some (cancel_att_send_op E) (pending_ind ch1) w1) (keeps {} w1)"
      by (rule cp [OF a1 ch1]) (simp add: pend_def)
    then show "ensures (w_chan w1 c) (\<lambda>ch. ensures (on_some (cancel_att_send_op E) (pending_ind ch) w1) (keeps {} w))"
      unfolding ch1 ensures_Some by (rule ensures_mono) (rule keeps_trans0 [OF k])
  qed
qed

lemma bt_att_cancel_all_keeps:
  assumes "wf w"
  shows "ensures (bt_att_cancel_all E att w) (\<lambda>(r, w'). keeps {} w w')"
proof (cases att)
  case None then show ?thesis using keeps_refl [OF assms] by (simp add: bt_att_cancel_all_def)
next
  case (Some u)
  have "ensures (do { w \<leftarrow> drain_queues (destroy_att_send_op E) w; a \<leftarrow> w_att w;
    each (cancel_pending E) (chans a) w }) (keeps {} w)"
  proof (rule ensures_seq)
    show "ensures (drain_queues (destroy_att_send_op E) w) (keeps {} w)"
      by (rule drain_queues_keeps [OF _ assms]) (rule destroy_queued)
    fix w1 :: "'c world" assume w1: "wf w1"
    then obtain a1 where a1: "wf_with w1 a1" by (auto simp: wf_def)
    have "ensures (each (cancel_pending E) (chans a1) w1) (\<lambda>w'. keeps {} w1 w' \<and> has_chans (chans a1) w')"
    proof (rule each_keeps [OF _ w1])
      show "has_chans (chans a1) w1" using a1 by (auto simp: has_chans_def wf_withD)
      fix c and w :: "'c world" assume c: "c \<in> set (chans a1)" "wf w" "has_chans (chans a1) w"
      then obtain a2 where "wf_with w a2" "c \<in> set (chans a2)"
        unfolding wf_def has_chans_def by (metis option.inject subsetD wf_withD(1))
      from cancel_pending_keeps [OF this]
      show "ensures (cancel_pending E c w) (\<lambda>w'. keeps {} w w' \<and> has_chans (chans a1) w')"
        by (rule ensures_mono) (use c(3) in \<open>auto intro: keeps_has_chans\<close>)
    qed
    then show "ensures (do { a \<leftarrow> w_att w1; each (cancel_pending E) (chans a) w1 }) (keeps {} w1)"
      by (simp add: wf_withD(1) [OF a1]) (erule ensures_mono, simp)
  qed
  then show ?thesis
    using Some by (simp add: bt_att_cancel_all_def)
qed

lemma set_cb_keeps:
  assumes "wf w"
  shows "ensures (bt_att_set_debug E att cb ud d w) (\<lambda>(r, w'). keeps {} w w')"
    "ensures (bt_att_set_timeout_cb E att cb ud d w) (\<lambda>(r, w'). keeps {} w w')"
proof -
  obtain a where a: "wf_with w a" using assms by (auto simp: wf_def)
  have s: "ensures (do { w \<leftarrow> call_if E f g w; upd_att h w }) (keeps {} w)"
    if h: "\<And>a (w :: 'c world). wf_with w a \<Longrightarrow> keeps {} w (set_att (h a) w)" for f g h
  proof (rule ensures_seq [OF call_if_keeps [OF assms]])
    fix w1 :: "'c world" assume "wf w1"
    then obtain a1 where "wf_with w1 a1" by (auto simp: wf_def)
    with h show "ensures (upd_att h w1) (keeps {} w1)" by (simp add: upd_att_def wf_withD)
  qed
  have h1: "keeps {} w (set_att (a\<lparr>debug_callback := cb, debug_destroy := d, debug_data := ud\<rparr>) w)"
    "keeps {} w (set_att (a\<lparr>timeout_callback := cb, timeout_destroy := d, timeout_data := ud\<rparr>) w)"
    if "wf_with w a" for a and w :: "'c world"
    using wf_withD(6,7) [OF that] by (auto intro!: wf_att_misc(2) [OF that] simp: keys_ok_def handlers_ok_def)
  show "ensures (bt_att_set_debug E att cb ud d w) (\<lambda>(r, w'). keeps {} w w')"
    using s [OF h1(1)] wf_withD(1) [OF a] keeps_refl [OF assms]
    by (cases att) (simp_all add: bt_att_set_debug_def)
  show "ensures (bt_att_set_timeout_cb E att cb ud d w) (\<lambda>(r, w'). keeps {} w w')"
    using s [OF h1(2)] wf_withD(1) [OF a] keeps_refl [OF assms]
    by (cases att) (simp_all add: bt_att_set_timeout_cb_def)
qed

end

end
