(* ===== verification/AttEvents.thy ===== *)
theory AttEvents
  imports AttClient
begin

text \<open>
  The handlers of the main loop: each \<open>ensures\<close> its result and \<open>runs\<close> from a well-formed state to
  another, which may have answered operations, started timers or released a channel.
\<close>

section \<open>Events\<close>

text \<open>
  What holds from before to after an event: well-formedness, no reference to the bearer is lost, no
  channel disappears, and new timers belong to channels.
\<close>

definition runs :: "'c world \<Rightarrow> 'c world \<Rightarrow> bool" where
  "runs w w' \<longleftrightarrow> wf w' \<and> (\<exists>a a'. w_att w = Some a \<and> w_att w' = Some a' \<and>
     a_ref_count a \<le> a_ref_count a' \<and> set (chans a) \<subseteq> set (chans a') \<and>
     (\<forall>t c i. (t, c, i) \<in> set (w_timers w') \<longrightarrow> (t, c, i) \<in> set (w_timers w) \<or> c \<in> set (chans a')))"

lemma runsI:
  assumes "wf_with w' a'" "w_att w = Some a" "a_ref_count a \<le> a_ref_count a'" "set (chans a) \<subseteq> set (chans a')"
    "\<And>t c i. (t, c, i) \<in> set (w_timers w') \<Longrightarrow> (t, c, i) \<in> set (w_timers w) \<or> c \<in> set (chans a')"
  shows "runs w w'"
  unfolding runs_def using assms wf_withI [OF assms(1)] wf_withD(1) [OF assms(1)] by blast

lemma runsE:
  assumes "runs w w'" "wf_with w a"
  obtains a' where "wf_with w' a'" "a_ref_count a \<le> a_ref_count a'" "set (chans a) \<subseteq> set (chans a')"
    "\<And>t c i. (t, c, i) \<in> set (w_timers w') \<Longrightarrow> (t, c, i) \<in> set (w_timers w) \<or> c \<in> set (chans a')"
proof -
  obtain a' where a': "wf_with w' a'" using assms(1) by (auto simp: runs_def wf_def)
  show ?thesis
    by (rule that [OF a']) (use assms(1) wf_withD(1) [OF a'] wf_withD(1) [OF assms(2)] in \<open>auto simp: runs_def\<close>)
qed

lemma runs_trans:
  assumes "runs w w1" "runs w1 w2"
  shows "runs w w2"
proof -
  obtain a a1 where 1: "w_att w = Some a" "w_att w1 = Some a1" "a_ref_count a \<le> a_ref_count a1"
    "set (chans a) \<subseteq> set (chans a1)"
    "\<forall>t c i. (t, c, i) \<in> set (w_timers w1) \<longrightarrow> (t, c, i) \<in> set (w_timers w) \<or> c \<in> set (chans a1)"
    using assms(1) unfolding runs_def by blast
  obtain a2 where 2: "wf w2" "w_att w2 = Some a2" "a_ref_count a1 \<le> a_ref_count a2"
    "set (chans a1) \<subseteq> set (chans a2)"
    "\<forall>t c i. (t, c, i) \<in> set (w_timers w2) \<longrightarrow> (t, c, i) \<in> set (w_timers w1) \<or> c \<in> set (chans a2)"
    using assms(2) 1(2) unfolding runs_def by auto
  have "(t, c, i) \<in> set (w_timers w) \<or> c \<in> set (chans a2)" if "(t, c, i) \<in> set (w_timers w2)" for t c i
    using that 1(5) 2(4,5) by (meson subsetD)
  moreover have "a_ref_count a \<le> a_ref_count a2" "set (chans a) \<subseteq> set (chans a2)"
    using 1(3,4) 2(3,4) by auto
  ultimately show ?thesis
    unfolding runs_def using 1(1) 2(1,2) by blast
qed

lemma keeps_runs: "keeps X w w' \<Longrightarrow> runs w w'"
proof -
  assume "keeps X w w'"
  then obtain a a' where k: "wf w'" "frame_att X w a w' a'" by (auto simp: keeps_def frame_def)
  note f = frame_attD [OF k(2)]
  have "set (chans a) \<subseteq> set (chans a')" using f(8) by blast
  then show "runs w w'" unfolding runs_def using k(1) f(1-5) by auto
qed

lemma keeps_from_timers:
  assumes "keeps X (drop_timer op w) w'"
  shows "runs w w'"
proof -
  have "runs (drop_timer op w) w'" by (rule keeps_runs [OF assms])
  moreover have "set (w_timers (drop_timer op w)) \<subseteq> set (w_timers w)"
    by (auto simp: drop_timer_def timeout_remove_def)
  ultimately show ?thesis
    unfolding runs_def drop_timer_simps by (meson subsetD)
qed

subsection \<open>Becoming and ceasing to be pending\<close>

lemma wf_pend:
  assumes wf: "wf_with w a" and c: "c \<in> set (chans a)" "w_chan w c = Some ch"
    and p: "p \<notin> owned (place_ops w a)" "w_op w p = Some op" "op_wf (a_mtu a) op"
    and ch': "op_type op = ATT_OP_TYPE_REQ \<and> pending_req ch = None \<and> ch' = ch\<lparr>pending_req := Some p\<rparr> \<or>
      op_type op = ATT_OP_TYPE_IND \<and> pending_ind ch = None \<and> ch' = ch\<lparr>pending_ind := Some p\<rparr>"
  shows "wf_with (set_chan c ch' w) a" "p \<in> pend ch'"
proof -
  let ?pl = "if op_type op = ATT_OP_TYPE_REQ then AtPendReq c else AtPendInd c"
  note pl = place_ops_of_chan [OF c]
  have eq: "place_ops (set_chan c ch' w) a = (place_ops w a)(?pl := [p])"
    unfolding place_ops_set_chan [OF c(1)] using pl ch' by (auto simp: fun_eq_iff)
  have "ops_ok (w_op w) (a_mtu a) (place_ops (set_chan c ch' w) a)"
    unfolding eq by (rule ops_ok_add [OF wf_withD(3) [OF wf] p]) (use ch' pl in auto)
  moreover have "chan_ok ch'" using wf_with_chan [OF wf c(1)] c(2) ch' by (auto simp: chan_ok_def)
  moreover have "pend ch \<subseteq> pend ch'" using ch' by (auto simp: pend_def)
  ultimately show "wf_with (set_chan c ch' w) a"
    using wf_timer_of [OF wf c] by (intro wf_chan_place [OF wf c(1)]) blast+
  show "p \<in> pend ch'" using ch' by (auto simp: pend_def)
qed

lemma wf_add_timer:
  assumes "wf_with w a" "c \<in> set (chans a)" "w_chan w c = Some ch" "p \<in> pend ch" "w_op w p = Some op"
    "op_timeout_id op \<noteq> 0" "op_timeout_id op \<notin> fst ` set (w_timers w)"
  shows "wf_with (w\<lparr>w_timers := w_timers w @ [(op_timeout_id op, c, op_id op)]\<rparr>) a"
proof -
  have "timers_ok (w\<lparr>w_timers := w_timers w @ [(op_timeout_id op, c, op_id op)]\<rparr>) a"
    unfolding timers_ok_def
  proof (intro conjI allI impI)
    fix t d i
    assume "(t, d, i) \<in> set (w_timers (w\<lparr>w_timers := w_timers w @ [(op_timeout_id op, c, op_id op)]\<rparr>))"
      and d: "d \<in> set (chans a)"
    then consider "(t, d, i) \<in> set (w_timers w)" | "t = op_timeout_id op" "d = c" "i = op_id op" by auto
    then show "\<exists>ch p op'. w_chan (w\<lparr>w_timers := w_timers w @ [(op_timeout_id op, c, op_id op)]\<rparr>) d = Some ch \<and>
      p \<in> pend ch \<and> w_op (w\<lparr>w_timers := w_timers w @ [(op_timeout_id op, c, op_id op)]\<rparr>) p = Some op' \<and>
      op_timeout_id op' = t \<and> op_id op' = i"
    proof cases
      case 1
      then show ?thesis using wf_withD(4) [OF assms(1)] d by (simp add: timers_ok_def)
    next
      case 2
      then show ?thesis
        using assms(3-5) by (intro exI [of _ ch] exI [of _ p] exI [of _ op]) simp
    qed
  qed (use wf_withD(4) [OF assms(1)] assms(6,7) in \<open>auto simp: timers_ok_def\<close>)
  then show ?thesis
    using assms(1) by (simp add: wf_with_def chans_ok_def fresh_ok_def handlers_ok_def)
qed

subsection \<open>Writing\<close>

lemma head_fits_ok:
  assumes "\<And>p. p \<in> set q \<Longrightarrow> w_op w p \<noteq> None"
  shows "\<exists>b. head_fits q ch w = Some b \<and> (b \<longrightarrow> q \<noteq> [] \<and> (\<exists>op. w_op w (hd q) = Some op \<and> op_len op \<le> ch_mtu ch))"
  using assms by (cases q) (force simp: head_fits_def)+

definition picked :: "'c world \<Rightarrow> bt_att \<Rightarrow> nat \<Rightarrow> nat \<Rightarrow> 'c world \<Rightarrow> bool" where
  "picked w a c p w' \<longleftrightarrow> (\<exists>a' ch' op. wf_with w' a' \<and> keeps {} w w' \<and> chans a' = chans a \<and> w_chan w' c = Some ch' \<and>
     w_op w' p = Some op \<and> op_wf (a_mtu a') op \<and> op_timeout_id op = 0 \<and> p \<notin> owned (place_ops w' a') \<and>
     (op_type op = ATT_OP_TYPE_REQ \<longrightarrow> pending_req ch' = None) \<and>
     (op_type op = ATT_OP_TYPE_IND \<longrightarrow> pending_ind ch' = None))"

lemma picked_att:
  assumes wf: "wf_with w a" "c \<in> set (chans a)" and q: "place_ops w a pl = p # ps"
    and pl: "pl = AtReq \<or> pl = AtInd \<or> pl = AtWrite" and a': "place_ops w a' = (place_ops w a)(pl := ps)"
    and st: "wf_with (set_att a' w) a'" "keeps {} w (set_att a' w)" "chans a' = chans a" "a_mtu a' = a_mtu a"
    and ch: "w_chan w c = Some ch" "pl = AtReq \<Longrightarrow> pending_req ch = None" "pl = AtInd \<Longrightarrow> pending_ind ch = None"
  shows "picked w a c p (set_att a' w)"
proof -
  have p: "p \<in> set (place_ops w a pl)" by (simp add: q)
  obtain op where op: "w_op w p = Some op" "op_wf (a_mtu a) op" "op_at pl op"
    using ops_okD [OF wf_withD(3) [OF wf(1)] p] by blast
  note L = ops_ok_layout [OF wf_withD(3) [OF wf(1)]]
  have "distinct (p # ps)" using L q by (metis layout_def)
  then have "p \<notin> owned (place_ops (set_att a' w) a')"
    unfolding place_ops_w a' by (intro not_owned_removed [OF L p]) (simp_all add: q subset_insertI)
  with op st pl ch show ?thesis
    unfolding picked_def by (intro exI [of _ a'] exI [of _ ch] exI [of _ op]) (auto simp: set_att_def)
qed

lemma pick_next_ok:
  assumes wf: "wf_with w a" "c \<in> set (chans a)"
  shows "ensures (pick_next_send_op c w) (\<lambda>(x, w'). case x of None \<Rightarrow> w' = w | Some p \<Rightarrow> picked w a c p w')"
proof -
  obtain ch where ch: "w_chan w c = Some ch" "chan_ok ch" using wf_with_chan [OF wf] by blast
  note att = wf_withD(1) [OF wf(1)]
  note pl = place_ops_of_chan [OF wf(2) ch(1)]
  note L = ops_ok_layout [OF wf_withD(3) [OF wf(1)]]
  have sub: "sub_queue (tl (req_queue a)) (req_queue a)" "sub_queue (tl (ind_queue a)) (ind_queue a)"
    "sub_queue (tl (write_queue a)) (write_queue a)"
    using wf_distinct [OF wf(1)] by (simp_all add: sub_queue_tl)
  show ?thesis
  proof (cases "ch_queue ch")
    case (Cons p q)
    let ?w = "set_chan c (ch\<lparr>ch_queue := q\<rparr>) w"
    have d: "distinct (p # q)" using wf_distinct_chan [OF wf ch(1)] Cons by simp
    have sq: "sub_queue q (ch_queue ch)" using d Cons by (auto simp: sub_queue_def)
    have w1: "wf_with ?w a" "keeps {} w ?w"
      using wf_update_chan [OF wf ch(1), of "ch\<lparr>ch_queue := q\<rparr>"]
        keeps_update_chan [OF wf ch(1), of "ch\<lparr>ch_queue := q\<rparr>"] ch(2) sq by (simp_all add: chan_ok_def)
    obtain op where op: "w_op w p = Some op" "op_wf (a_mtu a) op" "op_at (AtChan c) op"
      using ops_okD [OF wf_withD(3) [OF wf(1)], of p "AtChan c"] pl(1) Cons by auto
    have eq: "place_ops ?w a = (place_ops w a)(AtChan c := q)"
      unfolding place_ops_set_chan [OF wf(2)] using pl by (auto simp: fun_eq_iff)
    have "p \<notin> owned (place_ops ?w a)"
      unfolding eq by (rule not_owned_removed [OF L, of p "AtChan c"]) (use d pl(1) Cons in auto)
    with w1 op have "picked w a c p ?w"
      unfolding picked_def by (intro exI [of _ a] exI [of _ "ch\<lparr>ch_queue := q\<rparr>"] exI [of _ op]) (auto simp: set_chan_def)
    then show ?thesis using ch(1) att Cons by (simp add: pick_next_send_op_def)
  next
    case Nil
    have hf: "\<exists>b. head_fits (place_ops w a pl) ch w = Some b \<and> (b \<longrightarrow> place_ops w a pl \<noteq> [])" for pl
      using head_fits_ok [where q = "place_ops w a pl"] queue_live [OF wf(1)] by blast
    obtain b1 where b1: "head_fits (write_queue a) ch w = Some b1" "b1 \<Longrightarrow> write_queue a \<noteq> []"
      using hf [of AtWrite] by auto
    obtain b2 where b2: "head_fits (req_queue a) ch w = Some b2" "b2 \<Longrightarrow> req_queue a \<noteq> []"
      using hf [of AtReq] by auto
    obtain b3 where b3: "head_fits (ind_queue a) ch w = Some b3" "b3 \<Longrightarrow> ind_queue a \<noteq> []"
      using hf [of AtInd] by auto
    have eq: "pick_next_send_op c w = (if b1 then Some (Some (hd (write_queue a)), set_att (a\<lparr>write_queue := tl (write_queue a)\<rparr>) w)
      else if pending_req ch = None \<and> b2 then Some (Some (hd (req_queue a)), set_att (a\<lparr>req_queue := tl (req_queue a)\<rparr>) w)
      else if pending_ind ch = None \<and> b3 then Some (Some (hd (ind_queue a)), set_att (a\<lparr>ind_queue := tl (ind_queue a)\<rparr>) w)
      else Some (None, w))"
      unfolding pick_next_send_op_def ch(1) att bind.bind_lunit Nil list.case b1(1)
      using b2(1) b3(1) by auto
    have 1: "picked w a c (hd (write_queue a)) (set_att (a\<lparr>write_queue := tl (write_queue a)\<rparr>) w)" if b1
      by (rule picked_att [OF wf, where pl = AtWrite]) (use that b1(2) wf(1) sub ch(1) in simp_all)
    have 2: "picked w a c (hd (req_queue a)) (set_att (a\<lparr>req_queue := tl (req_queue a)\<rparr>) w)"
      if "pending_req ch = None" b2
      by (rule picked_att [OF wf, where pl = AtReq]) (use that b2(2) wf(1) sub ch(1) in simp_all)
    have 3: "picked w a c (hd (ind_queue a)) (set_att (a\<lparr>ind_queue := tl (ind_queue a)\<rparr>) w)"
      if "pending_ind ch = None" b3
      by (rule picked_att [OF wf, where pl = AtInd]) (use that b3(2) wf(1) sub ch(1) in simp_all)
    show ?thesis unfolding eq using 1 2 3 by simp
  qed
qed

lemma set_simps [simp]:
  "w_att (set_chan c ch w) = w_att w" "w_op (set_chan c ch w) = w_op w" "w_timers (set_chan c ch w) = w_timers w"
  "w_next (set_chan c ch w) = w_next w" "w_chan (set_chan c ch w) c = Some ch"
  "w_att (set_op p op w) = w_att w" "w_chan (set_op p op w) = w_chan w" "w_timers (set_op p op w) = w_timers w"
  "w_op (set_op p op w) p = Some op" "w_next (set_op p op w) = w_next w"
  "w_att (set_att a w) = Some a" "w_chan (set_att a w) = w_chan w" "w_timers (set_att a w) = w_timers w"
  "w_op (set_att a w) = w_op w" "w_next (set_att a w) = w_next w"
  by (simp_all add: set_chan_def set_op_def set_att_def)

lemma set_op_eq: "set_op p op w = w\<lparr>w_op := (w_op w)(p := Some op)\<rparr>"
  by (simp add: set_op_def)

context att_client
begin

lemma can_write_data_runs:
  assumes wf: "wf_with w a" "c \<in> set (chans a)" and few: "length (w_timers w) < 4294967295"
  shows "ensures (can_write_data E c w) (\<lambda>(r, w'). runs w w')"
proof -
  obtain x w1 where pick: "pick_next_send_op c w = Some (x, w1)"
    "case x of None \<Rightarrow> w1 = w | Some p \<Rightarrow> picked w a c p w1"
    using pick_next_ok [OF wf] by (auto simp: ensures_def)
  show ?thesis
  proof (cases x)
    case None
    then show ?thesis
      using pick keeps_runs [OF keeps_refl [OF wf_withI [OF wf(1)]]] by (simp add: can_write_data_def)
  next
    case (Some p)
    then obtain a1 ch1 op where k: "wf_with w1 a1" "keeps {} w w1" "chans a1 = chans a" "w_chan w1 c = Some ch1"
      "w_op w1 p = Some op" "op_wf (a_mtu a1) op" "op_timeout_id op = 0" "p \<notin> owned (place_ops w1 a1)"
      "op_type op = ATT_OP_TYPE_REQ \<Longrightarrow> pending_req ch1 = None"
      "op_type op = ATT_OP_TYPE_IND \<Longrightarrow> pending_ind ch1 = None"
      using pick(2) by (auto simp: picked_def)
    define ret where "ret = io_send E (ch_fd ch1) (op_pdu op)"
    define w2 where "w2 = w1\<lparr>w_wire := w_wire w1 @ [(ch_fd ch1, op_pdu op, ret)]\<rparr>"
    have wr: "bt_att_chan_write E c (op_pdu op) (op_len op) w1 = Some (ret, w2)"
      using k(4,6) by (simp add: bt_att_chan_write_def rd_bytes_def op_wf_def ret_def w2_def Let_def)
    have c2: "c \<in> set (chans a1)" using wf(2) k(3) by simp
    have wf2: "wf_with w2 a1" "p \<notin> owned (place_ops w2 a1)" "w_op w2 p = Some op" "w_chan w2 c = Some ch1"
      "keeps {} w w2"
      using k by (simp_all add: w2_def)
    have rn: "runs w w'" if "runs w2 w'" for w' :: "'c world"
      using runs_trans [OF keeps_runs [OF wf2(5)] that] .
    obtain a2 where "wf_with w2 a2" "frame_att {} w a w2 a2" using keepsE [OF wf2(5) wf(1)] by blast
    then have f: "frame_att {} w a w2 a1" using wf_withD(1) [OF wf2(1)] by (metis option.inject wf_withD(1))
    consider "ret = 0" | "ret \<noteq> 0" "op_type op = ATT_OP_TYPE_REQ \<or> op_type op = ATT_OP_TYPE_IND"
      | "ret \<noteq> 0" "op_type op \<noteq> ATT_OP_TYPE_REQ" "op_type op \<noteq> ATT_OP_TYPE_IND" by blast
    then show ?thesis
    proof cases
      case 1
      then have "can_write_data E c w = do { w \<leftarrow> disc_att_send_op E p w2; Some (True, w) }"
        using pick(1) Some k(5) wr wf2(3) by (simp add: can_write_data_def disc_att_send_op_def)
      then show ?thesis
        using ensures_mono [OF disc_queued [OF wf2(1,3) k(7) wf2(2)], of "runs w"] rn by (simp add: keeps_runs)
    next
      case 2
      define ch2 where "ch2 = (if op_type op = ATT_OP_TYPE_REQ then ch1\<lparr>pending_req := Some p\<rparr>
        else ch1\<lparr>pending_ind := Some p\<rparr>)"
      define t where "t = timeout_add E (set_chan c ch2 w2)"
      let ?op = "op\<lparr>op_timeout_id := t\<rparr>"
      let ?v1 = "set_op p ?op w2"
      let ?v2 = "set_chan c ch2 ?v1"
      let ?v3 = "?v2\<lparr>w_timers := w_timers ?v2 @ [(t, c, op_id op)]\<rparr>"
      have ts: "w_timers w2 = w_timers w" using frame_attD(5) [OF f] .
      have t: "t \<noteq> 0" "t \<notin> fst ` set (w_timers w2)"
        using new_timer [of "set_chan c ch2 w2"] few ts by (simp_all add: t_def)
      have eq: "can_write_data E c w = Some (True, ?v3)"
        using 2 pick(1) Some k(5) wr wf2(3,4)
        by (auto simp: can_write_data_def upd_chan_def upd_op_def t_def ch2_def Let_def set_op_def set_chan_def)
      have v1: "wf_with ?v1 a1"
        unfolding set_op_eq by (rule wf_unowned_op [OF wf2(1,2) wf_live [OF wf2(1,3)]])
      have v2: "wf_with ?v2 a1" "p \<in> pend ch2"
        by (rule wf_pend [OF v1 c2, of ch1 p ?op ch2]; use wf2 k 2 in \<open>auto simp: ch2_def\<close>)+
      have "wf_with (?v2\<lparr>w_timers := w_timers ?v2 @ [(op_timeout_id ?op, c, op_id ?op)]\<rparr>) a1"
        by (rule wf_add_timer [OF v2(1) c2 _ v2(2)]) (use t in simp_all)
      then have v3: "wf_with ?v3 a1" by simp
      have "runs w2 ?v3"
        by (rule runsI [OF v3]) (use wf_withD(1) [OF wf2(1)] c2 in auto)
      then show ?thesis using rn eq by simp
    next
      case 3
      define ch2 where "ch2 = (if op_type op = ATT_OP_TYPE_RSP then ch1\<lparr>in_req := False\<rparr> else ch1)"
      have "chan_ok ch1" using wf_with_chan [OF wf2(1) c2] wf2(4) by simp
      then have v: "wf_with (set_chan c ch2 w2) a1"
        by (intro wf_update_chan [OF wf2(1) c2 wf2(4)])
          (simp_all add: ch2_def chan_ok_def sub_queue_refl wf_distinct_chan [OF wf2(1) c2 wf2(4)])
      have rv: "runs w2 (set_chan c ch2 w2)"
        by (rule runsI [OF v]) (use wf_withD(1) [OF wf2(1)] in auto)
      have un: "p \<notin> owned (place_ops (set_chan c ch2 w2) a1)"
        using wf2(2) ops_ok_sub_chan(2) [OF wf2(1) c2 wf2(4), of ch2]
          wf_distinct_chan [OF wf2(1) c2 wf2(4)] by (auto simp: ch2_def sub_queue_refl)
      have sc: "set_chan c ch1 w2 = w2" using wf2(4) by (simp add: set_chan_def fun_upd_idem)
      have eq: "can_write_data E c w = do { w \<leftarrow> destroy_att_send_op E p (set_chan c ch2 w2); Some (True, w) }"
        using 3 pick(1) Some k(5) wr wf2(3,4) sc
        by (simp add: can_write_data_def upd_chan_def ch2_def)
      have "w_op (set_chan c ch2 w2) p = Some op" using wf2(3) by simp
      then show ?thesis
        using ensures_mono [OF destroy_queued [OF v _ k(7) un]] rn runs_trans [OF rv]
        by (simp add: eq keeps_runs)
    qed
  qed
qed

end

lemma pend_places:
  assumes "wf_with w a" "c \<in> set (chans a)" "w_chan w c = Some ch"
  shows "\<not> (pending_req ch = Some p \<and> pending_ind ch = Some p)"
proof
  assume "pending_req ch = Some p \<and> pending_ind ch = Some p"
  then have "p \<in> set (place_ops w a (AtPendReq c))" "p \<in> set (place_ops w a (AtPendInd c))"
    using place_ops_of_chan [OF assms(2,3)] by simp_all
  then show False
    using ops_ok_layout [OF wf_withD(3) [OF assms(1)]] unfolding layout_def by (metis place.distinct(29))
qed

lemma pend_type:
  assumes "wf_with w a" "c \<in> set (chans a)" "w_chan w c = Some ch"
  shows "pending_req ch = Some p \<Longrightarrow> \<exists>op. w_op w p = Some op \<and> op_wf (a_mtu a) op \<and> op_type op = ATT_OP_TYPE_REQ"
    "pending_ind ch = Some p \<Longrightarrow> \<exists>op. w_op w p = Some op \<and> op_wf (a_mtu a) op \<and> op_type op = ATT_OP_TYPE_IND"
  using ops_okD [OF wf_withD(3) [OF assms(1)], of p "AtPendReq c"]
    ops_okD [OF wf_withD(3) [OF assms(1)], of p "AtPendInd c"] place_ops_of_chan [OF assms(2,3)] by auto

lemma runs_timer: "runs (drop_timer op w) w' \<Longrightarrow> runs w w'"
proof -
  assume "runs (drop_timer op w) w'"
  moreover have "set (w_timers (drop_timer op w)) \<subseteq> set (w_timers w)"
    by (auto simp: drop_timer_def timeout_remove_def)
  ultimately show "runs w w'"
    unfolding runs_def drop_timer_simps by (meson subsetD)
qed

lemma runs_refl: "wf w \<Longrightarrow> runs w w"
  by (rule keeps_runs [OF keeps_refl])

lemma runs_chan:
  assumes "runs w w'" "wf_with w a" "c \<in> set (chans a)"
  shows "\<exists>a'. wf_with w' a' \<and> c \<in> set (chans a')"
  using assms(3) by (rule_tac runsE [OF assms(1,2)]) auto

lemma runs_same_att:
  assumes "wf_with w' a" "w_att w = Some a" "w_timers w' = w_timers w"
  shows "runs w w'"
  by (rule runsI [OF assms(1,2)]) (simp_all add: assms(3))

lemma io_shutdown_keeps:
  assumes "wf_with w a" "c \<in> set (chans a)"
  shows "ensures (io_shutdown c w) (keeps {} w)"
proof -
  obtain ch where ch: "w_chan w c = Some ch" "chan_ok ch" using wf_with_chan [OF assms] by blast
  have "keeps {} w (set_chan c (ch\<lparr>ch_io_shut := True\<rparr>) w)"
    by (rule keeps_update_chan [OF assms ch(1)])
      (use ch wf_distinct_chan [OF assms ch(1)] in \<open>simp_all add: chan_ok_def sub_queue_refl\<close>)
  then show ?thesis using ch by (simp add: io_shutdown_def upd_chan_def)
qed

context att_client
begin

lemma complete_pending:
  assumes wf: "wf_with w a" and c: "c \<in> set (chans a)" "w_chan w c = Some ch"
    and clr: "pending_req ch = Some p \<and> clr = (\<lambda>ch. ch\<lparr>pending_req := None\<rparr>) \<or>
      pending_ind ch = Some p \<and> clr = (\<lambda>ch. ch\<lparr>pending_ind := None\<rparr>)"
  shows "ensures (do { w \<leftarrow> destroy_att_send_op E p w; w \<leftarrow> upd_chan c clr w; wakeup_chan_writer E c w }) (runs w)"
proof -
  have p: "p \<in> pend ch" using clr by (auto simp: pend_def)
  obtain op where op: "w_op w p = Some op" using pend_live [OF wf c p] by blast
  show ?thesis
    unfolding ensures_bind
  proof (rule ensures_mono [OF destroy_pending [OF wf c p op]])
    fix w2 :: "'c world"
    assume "\<exists>w1 a1 ch1 op1. wf_with w1 a1 \<and> frame_att {} (drop_timer op w) a w1 a1 \<and> c \<in> set (chans a1) \<and>
      w_chan w1 c = Some ch1 \<and> pending_req ch1 = pending_req ch \<and> pending_ind ch1 = pending_ind ch \<and>
      w_op w1 p = Some op1 \<and> same_op op op1 \<and> w2 = w1\<lparr>w_op := (w_op w1)(p := None)\<rparr>"
    then obtain w1 a1 ch1 op1 where 1: "wf_with w1 a1" "frame_att {} (drop_timer op w) a w1 a1"
      "c \<in> set (chans a1)" "w_chan w1 c = Some ch1" "pending_req ch1 = pending_req ch"
      "pending_ind ch1 = pending_ind ch" "w_op w1 p = Some op1" "same_op op op1"
      "w2 = w1\<lparr>w_op := (w_op w1)(p := None)\<rparr>" by blast
    have r1: "runs w w1" using runs_timer [OF keeps_runs [OF keepsI [OF 1(1,2)]]] .
    have gone: "op_timeout_id op1 \<notin> fst ` set (w_timers w1)"
      using drop_timer_gone [OF wf] frame_attD(5) [OF 1(2)] 1(8) by (simp add: same_op_def)
    have p1: "p \<in> pend ch1" using p 1(5,6) by (simp add: pend_def)
    have nr: "pending_req ch1 \<noteq> Some p" if "pending_ind ch1 = Some p"
      using pend_places [OF 1(1,3,4)] that by blast
    have clr1: "clr ch1 = (if pending_req ch1 = Some p then ch1\<lparr>pending_req := None\<rparr> else ch1\<lparr>pending_ind := None\<rparr>)"
      using clr 1(5,6) nr by auto
    note u = wf_unpend [OF 1(1,3,4) p1 1(7) gone clr1]
    let ?w3 = "(set_chan c (clr ch1) w1)\<lparr>w_op := (w_op (set_chan c (clr ch1) w1))(p := None)\<rparr>"
    have "p < w_next (set_chan c (clr ch1) w1)" using wf_live [OF 1(1,7)] by simp
    then have w3: "wf_with ?w3 a1" by (rule wf_unowned_op [OF u])
    have r3: "runs w1 ?w3" by (rule runs_same_att [OF w3]) (simp_all add: wf_withD(1) [OF 1(1)])
    have eq: "upd_chan c clr w2 = Some ?w3" using 1(4,9) by (simp add: upd_chan_def set_chan_def)
    show "ensures (upd_chan c clr w2) (\<lambda>y. ensures (wakeup_chan_writer E c y) (runs w))"
      unfolding eq ensures_Some
      by (rule ensures_mono [OF wakeup_chan_writer_keeps [OF w3 1(3)]])
        (use runs_trans [OF r1 runs_trans [OF r3]] keeps_runs in blast)
  qed
qed

lemma call_pending:
  assumes wf: "wf_with w a" and c: "c \<in> set (chans a)" "w_chan w c = Some ch"
    and f: "\<And>w1 a1 ch1. wf_with w1 a1 \<Longrightarrow> c \<in> set (chans a1) \<Longrightarrow> w_chan w1 c = Some ch1 \<Longrightarrow>
      pending_req ch1 = pending_req ch \<Longrightarrow> pending_ind ch1 = pending_ind ch \<Longrightarrow> ensures (g w1) (runs w1)"
  shows "ensures (Option.bind (call_if E cb cc w) g) (runs w)"
  unfolding ensures_bind
proof (rule ensures_mono [OF call_if_keeps [OF wf_withI [OF wf]]])
  fix w1 :: "'c world" assume k: "keeps {} w w1"
  obtain a1 where a1: "wf_with w1 a1" "frame_att {} w a w1 a1" using keepsE [OF k wf] by blast
  obtain ch1 where ch1: "w_chan w1 c = Some ch1" "c \<in> set (chans a1)" "pending_req ch1 = pending_req ch"
    "pending_ind ch1 = pending_ind ch"
    using frame_pending [OF a1(2) c] by metis
  show "ensures (g w1) (runs w)"
    by (rule ensures_mono [OF f [OF a1(1) ch1(2,1,3,4)]]) (rule runs_trans [OF keeps_runs [OF k]])
qed

lemma finish_req_runs:
  assumes wf: "wf_with w a" and c: "c \<in> set (chans a)" "w_chan w c = Some ch" "pending_req ch = Some p"
  shows "ensures (finish_req E c p rsp pdu w) (runs w)"
proof -
  obtain op where op: "w_op w p = Some op" using pend_type(1) [OF wf c] by blast
  show ?thesis
    unfolding finish_req_def op bind.bind_lunit
    by (rule call_pending [OF wf c(1,2)]) (rule complete_pending, assumption+, use c(3) in simp)
qed

lemma handle_conf_runs:
  assumes wf: "wf_with w a" and c: "c \<in> set (chans a)"
  shows "ensures (handle_conf E c pdu w) (runs w)"
proof -
  obtain ch where ch: "w_chan w c = Some ch" using wf_with_chan [OF wf c] by blast
  have sd: "ensures (io_shutdown c w) (runs w)"
    by (rule ensures_mono [OF io_shutdown_keeps [OF wf c]]) (rule keeps_runs)
  show ?thesis
  proof (cases "pending_ind ch")
    case None then show ?thesis using sd ch by (simp add: handle_conf_def)
  next
    case (Some p)
    obtain op where op: "w_op w p = Some op" using pend_type(2) [OF wf c ch Some] by blast
    have "ensures (do {
            w \<leftarrow> call_if E (op_callback op) (\<lambda>f. CallResponse f BT_ATT_OP_HANDLE_CONF [] (op_user_data op)) w;
            w \<leftarrow> destroy_att_send_op E p w;
            w \<leftarrow> upd_chan c (\<lambda>ch. ch\<lparr>pending_ind := None\<rparr>) w;
            wakeup_chan_writer E c w }) (runs w)"
      by (rule call_pending [OF wf c ch]) (rule complete_pending, assumption+, use Some in simp)
    then show ?thesis using sd ch Some op by (simp add: handle_conf_def)
  qed
qed

lemma change_security_keeps:
  assumes wf: "wf_with w a" and c: "c \<in> set (chans a)"
  shows "ensures (change_security E c ecode w) (\<lambda>(r, w'). keeps {} w w')"
proof -
  obtain ch where ch: "w_chan w c = Some ch" "chan_ok ch" using wf_with_chan [OF wf c] by blast
  have "keeps {} w (set_chan c (ch\<lparr>ch_sec_level := l\<rparr>) w)" for l
    by (rule keeps_update_chan [OF wf c ch(1)])
      (use ch wf_distinct_chan [OF wf c ch(1)] in \<open>simp_all add: chan_ok_def sub_queue_refl\<close>)
  then have s: "ensures (bt_att_chan_set_security E c l w) (\<lambda>(r, w'). keeps {} w w')" for l
    using ch keeps_refl [OF wf_withI [OF wf]] by (simp add: bt_att_chan_set_security_def)
  show ?thesis
    using s ch keeps_refl [OF wf_withI [OF wf]]
    by (simp add: change_security_def bt_att_chan_get_security_def)
qed

text \<open>A retry puts the pending request back at the head of the queue.\<close>

lemma retry_runs:
  assumes wf: "wf_with w a" and c: "c \<in> set (chans a)" "w_chan w c = Some ch" "pending_req ch = Some p"
    and op: "w_op w p = Some op"
  shows "ensures (do {
          w \<leftarrow> (if op_timeout_id op \<noteq> 0
            then upd_op p (\<lambda>op. op\<lparr>op_timeout_id := 0\<rparr>) (timeout_remove (op_timeout_id op) w) else Some w);
          w \<leftarrow> upd_chan c (\<lambda>ch. ch\<lparr>pending_req := None\<rparr>) w;
          upd_att (\<lambda>a. a\<lparr>req_queue := p # req_queue a\<rparr>) w }) (runs w)"
proof -
  let ?w0 = "drop_timer op w" and ?ch = "ch\<lparr>pending_req := None\<rparr>" and ?op = "op\<lparr>op_timeout_id := 0\<rparr>"
  let ?w1 = "set_chan c ?ch ?w0"
  let ?w2 = "set_op p ?op ?w1"
  let ?a = "a\<lparr>req_queue := p # req_queue a\<rparr>"
  note wf0 = wf_drop_timer [OF wf, of op]
  have ty: "op_wf (a_mtu a) op" "op_type op = ATT_OP_TYPE_REQ" using pend_type(1) [OF wf c] op by auto
  have p: "p \<in> pend ch" using c(3) by (simp add: pend_def)
  have u: "wf_with ?w1 a" "p \<notin> owned (place_ops ?w1 a)"
    by (rule wf_unpend [OF wf0 c(1) _ p _ drop_timer_gone [OF wf]]; use c op in simp)+
  have lv: "p < w_next ?w1" using wf_live [OF wf op] by simp
  have w2: "wf_with ?w2 a" unfolding set_op_eq by (rule wf_unowned_op [OF u lv])
  have un: "p \<notin> owned (place_ops ?w2 a)" using u(2) by simp
  have "keeps {p} ?w2 (set_att ?a ?w2)"
  proof (rule keeps_push [OF w2 un, of ?op AtReq])
    show "op_wf (a_mtu a) ?op" "op_at AtReq ?op" using ty by simp_all
    show "distinct (p # req_queue a)"
      using un wf_distinct(1) [OF w2] unfolding owned_iff by (auto dest: spec [of _ AtReq])
    show "keys_ok ?a" "handlers_ok ?w2 ?a"
      using wf_withD(6,7) [OF w2] by (simp_all add: keys_ok_def handlers_ok_def)
  qed simp_all
  then have "runs ?w2 (set_att ?a ?w2)" by (rule keeps_runs)
  moreover have "runs w ?w2"
    by (rule runs_timer [of op]) (rule runs_same_att [OF w2], simp_all add: wf_withD(1) [OF wf])
  ultimately have "runs w (set_att ?a ?w2)" by (rule runs_trans [rotated])
  moreover have "(if op_timeout_id op \<noteq> 0
      then upd_op p (\<lambda>op. op\<lparr>op_timeout_id := 0\<rparr>) (timeout_remove (op_timeout_id op) w) else Some w) =
    Some (set_op p ?op ?w0)"
  proof (cases "op_timeout_id op = 0")
    case True
    then have "?op = op" by simp
    with True op show ?thesis by (simp add: set_op_def fun_upd_idem)
  next
    case False
    then show ?thesis using op by (simp add: upd_op_def drop_timer_def timeout_remove_def)
  qed
  moreover have "w_chan (set_op p ?op ?w0) c = Some ch" using c by simp
  moreover have "set_chan c ?ch (set_op p ?op ?w0) = ?w2" by (simp add: set_chan_def set_op_def)
  ultimately show ?thesis
    using wf_withD(1) [OF wf] by (simp add: upd_chan_def upd_att_def)
qed

lemma handle_error_rsp_runs:
  assumes wf: "wf_with w a" and c: "c \<in> set (chans a)" "w_chan w c = Some ch" "pending_req ch = Some p"
  shows "ensures (handle_error_rsp E c pdu w) (\<lambda>(retry, opc, w'). runs w w' \<and>
    (\<not> retry \<longrightarrow> keeps {} w w'))"
proof (cases "length pdu = 4")
  case False
  then show ?thesis
    using keeps_refl [OF wf_withI [OF wf]] runs_refl [OF wf_withI [OF wf]] by (simp add: handle_error_rsp_def)
next
  case True
  then have rd: "rd8 pdu 0 = Some (pdu ! 0)" "rd8 pdu 3 = Some (pdu ! 3)" by (simp_all add: rd8_def)
  obtain r w1 where cs: "change_security E c (pdu ! 3) w = Some (r, w1)" "keeps {} w w1"
    using change_security_keeps [OF wf c(1), of "pdu ! 3"] by (auto simp: ensures_def)
  obtain a1 where a1: "wf_with w1 a1" "frame_att {} w a w1 a1" using keepsE [OF cs(2) wf] by blast
  obtain ch1 where ch1: "w_chan w1 c = Some ch1" "c \<in> set (chans a1)" "pending_req ch1 = Some p"
    using frame_pending [OF a1(2) c(1,2)] c(3) by metis
  obtain op1 where op1: "w_op w1 p = Some op1" using pend_type(1) [OF a1(1) ch1(2,1,3)] by blast
  show ?thesis
  proof (cases r)
    case False
    then show ?thesis using True rd cs keeps_runs by (simp add: handle_error_rsp_def)
  next
    case r: True
    let ?R = "do {
          w \<leftarrow> (if op_timeout_id op1 \<noteq> 0
            then upd_op p (\<lambda>op. op\<lparr>op_timeout_id := 0\<rparr>) (timeout_remove (op_timeout_id op1) w1) else Some w1);
          w \<leftarrow> upd_chan c (\<lambda>ch. ch\<lparr>pending_req := None\<rparr>) w;
          upd_att (\<lambda>a. a\<lparr>req_queue := p # req_queue a\<rparr>) w }"
    have eq: "handle_error_rsp E c pdu w = Option.bind ?R (\<lambda>w. Some (True, pdu ! 0, w))"
      unfolding handle_error_rsp_def rd bind.bind_lunit cs(1) prod.case ch1(1,3) op1
      using True r by simp
    show ?thesis
      unfolding eq ensures_bind [of ?R]
      by (rule ensures_mono [OF retry_runs [OF a1(1) ch1(2,1,3) op1]])
        (use runs_trans [OF keeps_runs [OF cs(2)]] in simp)
  qed
qed

lemma handle_rsp_runs:
  assumes wf: "wf_with w a" and c: "c \<in> set (chans a)"
  shows "ensures (handle_rsp E c opcode pdu w) (runs w)"
proof -
  obtain ch where ch: "w_chan w c = Some ch" using wf_with_chan [OF wf c] by blast
  have sd: "ensures (io_shutdown c w) (runs w)"
    by (rule ensures_mono [OF io_shutdown_keeps [OF wf c]]) (rule keeps_runs)
  show ?thesis
  proof (cases "pending_req ch")
    case None then show ?thesis using sd ch by (simp add: handle_rsp_def)
  next
    case (Some p)
    have fin: "ensures (finish_req E c p rsp pd w1) (runs w)" and lv: "w_op w1 p \<noteq> None" if k: "keeps {} w w1" for rsp pd w1
    proof -
      obtain a1 where a1: "wf_with w1 a1" "frame_att {} w a w1 a1" using keepsE [OF k wf] by blast
      obtain ch1 where ch1: "w_chan w1 c = Some ch1" "c \<in> set (chans a1)" "pending_req ch1 = Some p"
        using frame_pending [OF a1(2) c ch] Some by metis
      show "ensures (finish_req E c p rsp pd w1) (runs w)"
        by (rule ensures_mono [OF finish_req_runs [OF a1(1) ch1(2,1,3)]]) (rule runs_trans [OF keeps_runs [OF k]])
      show "w_op w1 p \<noteq> None" using pend_type(1) [OF a1(1) ch1(2,1,3)] by blast
    qed
    show ?thesis
    proof (cases "opcode = BT_ATT_OP_ERROR_RSP")
      case False
      have "w_op w p \<noteq> None" by (rule lv) (rule keeps_refl [OF wf_withI [OF wf]])
      then show ?thesis
        using False ch Some fin [OF keeps_refl [OF wf_withI [OF wf]]] by (auto simp: handle_rsp_def)
    next
      case True
      obtain retry opc w1 where he: "handle_error_rsp E c pdu w = Some (retry, opc, w1)" "runs w w1"
        "\<not> retry \<Longrightarrow> keeps {} w w1"
        using handle_error_rsp_runs [OF wf c ch Some, of pdu] by (auto simp: ensures_def)
      show ?thesis
      proof (cases retry)
        case r: True
        obtain a1 where a1: "wf_with w1 a1" "c \<in> set (chans a1)" using runs_chan [OF he(2) wf c] by blast
        have "ensures (wakeup_chan_writer E c w1) (runs w)"
          by (rule ensures_mono [OF wakeup_chan_writer_keeps [OF a1]])
            (use runs_trans [OF he(2)] keeps_runs in blast)
        then show ?thesis using True ch Some he(1) r by (simp add: handle_rsp_def)
      next
        case r: False
        obtain op1 where "w_op w1 p = Some op1" using lv [OF he(3) [OF r]] by blast
        then show ?thesis
          using True ch Some he(1) r fin [OF he(3) [OF r]] by (simp add: handle_rsp_def)
      qed
    qed
  qed
qed

lemma timeout_cb_runs:
  assumes wf: "wf_with w a" and c: "c \<in> set (chans a)" "w_chan w c = Some ch"
    and old: "\<And>p op. p \<in> pend ch \<Longrightarrow> w_op w p = Some op \<Longrightarrow> op_id op = i \<Longrightarrow>
      op_timeout_id op \<notin> fst ` set (w_timers w)"
  shows "ensures (timeout_cb E c i w) (runs w)"
proof -
  have live: "w_op w p \<noteq> None" if "pending_req ch = Some p \<or> pending_ind ch = Some p" for p
    using pend_live [OF wf c, of p] that by (auto simp: pend_def)
  obtain b1 where b1: "op_has_id (pending_req ch) i w = Some b1"
    "b1 \<Longrightarrow> \<exists>p op. pending_req ch = Some p \<and> w_op w p = Some op \<and> op_id op = i"
    using op_has_id_ok [of "pending_req ch" w i] live by blast
  obtain b2 where b2: "op_has_id (pending_ind ch) i w = Some b2"
    "b2 \<Longrightarrow> \<exists>p op. pending_ind ch = Some p \<and> w_op w p = Some op \<and> op_id op = i"
    using op_has_id_ok [of "pending_ind ch" w i] live by blast
  show ?thesis
  proof (cases "b1 \<or> b2")
    case False
    then show ?thesis
      using b1(1) b2(1) c runs_refl [OF wf_withI [OF wf]] by (simp add: timeout_cb_def)
  next
    case t: True
    then obtain p op where p: "(if b1 then pending_req ch else pending_ind ch) = Some p" "w_op w p = Some op"
      "op_id op = i"
      using b1(2) b2(2) by (cases b1) auto
    have pp: "p \<in> pend ch" using p(1) by (auto simp: pend_def split: if_splits)
    define ch1 where "ch1 = (if pending_req ch = Some p then ch\<lparr>pending_req := None\<rparr> else ch\<lparr>pending_ind := None\<rparr>)"
    let ?w1 = "set_chan c ch1 w"
    note u = wf_unpend [OF wf c pp p(2) old [OF pp p(2,3)] ch1_def]
    have ch1': "ch1 = (if b1 then ch\<lparr>pending_req := None\<rparr> else ch\<lparr>pending_ind := None\<rparr>)"
      using p(1) pend_places [OF wf c] by (auto simp: ch1_def split: if_splits)
    have r1: "runs w ?w1" by (rule runs_same_att [OF u(1)]) (simp_all add: wf_withD(1) [OF wf])
    have eq: "timeout_cb E c i w = do {
        w \<leftarrow> call_if E (timeout_callback a) (\<lambda>f. CallTimeout f (op_id op) (op_opcode op) (timeout_data a)) ?w1;
        w \<leftarrow> upd_op p (\<lambda>op. op\<lparr>op_timeout_id := 0\<rparr>) w;
        w \<leftarrow> disc_att_send_op E p w;
        io_shutdown c w }"
    proof (cases b1)
      case True
      then show ?thesis
        unfolding timeout_cb_def c(2) bind.bind_lunit b1(1) ch1' using p wf_withD(1) [OF wf] by (simp add: Let_def)
    next
      case False
      with t have "b2" by simp
      with False show ?thesis
        unfolding timeout_cb_def c(2) bind.bind_lunit b1(1) ch1' using p wf_withD(1) [OF wf] b2(1) by (simp add: Let_def)
    qed
    show ?thesis
      unfolding eq ensures_bind
    proof (rule ensures_mono [OF call_if_keeps [OF wf_withI [OF u(1)]]])
      fix w2 :: "'c world" assume k2: "keeps {} ?w1 w2"
      obtain a2 where a2: "wf_with w2 a2" "frame_att {} ?w1 a w2 a2" using keepsE [OF k2 u(1)] by blast
      have p2: "w_op w2 p = Some op" "p \<notin> owned (place_ops w2 a2)"
        using frame_attD(6) [OF a2(2), of p] wf_live [OF wf p(2)] u(2) p(2) by simp_all
      let ?w3 = "set_op p (op\<lparr>op_timeout_id := 0\<rparr>) w2"
      have k3: "keeps {p} w2 ?w3" and w3: "wf_with ?w3 a2"
        unfolding set_op_eq using keeps_unowned_op [OF a2(1) p2(2) wf_live [OF a2(1) p2(1)]]
          wf_unowned_op [OF a2(1) p2(2) wf_live [OF a2(1) p2(1)]] by blast+
      have d: "ensures (disc_att_send_op E p ?w3) (keeps {p} ?w3)"
        by (rule disc_queued [OF w3, of p "op\<lparr>op_timeout_id := 0\<rparr>"]) (use p2 in simp_all)
      have u3: "upd_op p (\<lambda>op. op\<lparr>op_timeout_id := 0\<rparr>) w2 = Some ?w3"
        using p2(1) by (simp add: upd_op_def)
      show "ensures (upd_op p (\<lambda>op. op\<lparr>op_timeout_id := 0\<rparr>) w2)
        (\<lambda>w3. ensures (disc_att_send_op E p w3) (\<lambda>w4. ensures (io_shutdown c w4) (runs w)))"
        unfolding u3 ensures_Some
      proof (rule ensures_mono [OF d])
        fix w4 :: "'c world" assume k4: "keeps {p} ?w3 w4"
        have r4: "runs w2 w4" by (rule runs_trans [OF keeps_runs [OF k3] keeps_runs [OF k4]])
        have "c \<in> set (chans a2)" using frame_attD(8) [OF a2(2) c(1)] by simp
        from runs_chan [OF r4 a2(1) this]
        obtain a4 where a4: "wf_with w4 a4" "c \<in> set (chans a4)" by blast
        have r: "runs w w4" by (rule runs_trans [OF r1 runs_trans [OF keeps_runs [OF k2] r4]])
        show "ensures (io_shutdown c w4) (runs w)"
          by (rule ensures_mono [OF io_shutdown_keeps [OF a4]]) (rule runs_trans [OF r keeps_runs])
      qed
    qed
  qed
qed

end

section \<open>Received PDUs\<close>

lemma verify_prefix:
  assumes K: "kernel_ok K" "length key = 16" and n: "unat n \<le> length b"
  shows "bt_crypto_verify_att_sign (Some K) key b n = bt_crypto_verify_att_sign (Some K) key (take (unat n) b) n"
proof (cases "unat n < 12")
  case True then show ?thesis by (simp add: bt_crypto_verify_att_sign_def ATT_SIGN_LEN_def)
next
  case False
  let ?off = "unat n - 12"
  have off: "unat (n - 12) = ?off" using False by (simp add: unat_sub_if_size word_le_nat_alt)
  have b: "unat n \<le> 65535" by (rule unat_u16_le)
  have g: "get_le32 (take (unat n) b) ?off = get_le32 b ?off"
    using False n by (simp add: get_le32_def rd_bytes_def drop_take min_absorb1)
  have s: "bt_crypto_sign_att (Some K) key (take (unat n) b) (n - 12) c = bt_crypto_sign_att (Some K) key b (n - 12) c" for c
    using False n b by (simp add: sign_att_eq [OF K] off min_absorb1)
  have r: "rd_bytes (take (unat n) b) ?off 12 = rd_bytes b ?off 12"
    using False n by (simp add: rd_bytes_def drop_take)
  show ?thesis
    by (simp add: bt_crypto_verify_att_sign_def ATT_SIGN_LEN_def g s r)
qed

lemma handle_signed_ok:
  assumes a: "keys_ok a" "a_crypto a = Some K" and n: "n \<le> length b" "length b < 65536"
  shows "ensures (handle_signed E a b n) (\<lambda>ok. ok \<longrightarrow> 15 \<le> n)"
proof -
  have K: "kernel_ok K" using a by (simp add: keys_ok_def)
  have u: "unat (of_nat n :: u16) = n" using n by (intro unat_of_nat_u16) simp
  have v: "ensures (bt_crypto_verify_att_sign (Some K) key b (of_nat n)) (\<lambda>_. True)"
    if "length key = 16" "12 \<le> n" for key
    by (subst verify_prefix [OF K that(1)])
      (use verify_att_sign_eq [OF K that(1), of "of_nat n" "take n b"] that n in \<open>simp_all add: u\<close>)
  have g: "get_le32 b (n - 12) = Some (word_of_le (take 4 (drop (n - 12) b)))" if "12 \<le> n"
    using that n by (simp add: get_le32_def rd_bytes_def)
  have k: "length (s_key s) = 16" if "remote_sign a = Some s" for s using a that by (simp add: keys_ok_def)
  show ?thesis
  proof (cases "n < 15 \<or> remote_sign a = None")
    case True
    then show ?thesis by (auto simp: handle_signed_def BT_ATT_SIGNATURE_LEN_def)
  next
    case False
    then obtain s where s: "remote_sign a = Some s" and n15: "15 \<le> n" by auto
    have "12 \<le> n" using n15 by simp
    from v [OF k [OF s] this] g [OF this] n15 s show ?thesis
      by (simp add: handle_signed_def BT_ATT_SIGNATURE_LEN_def a(2) not_less)
  qed
qed

definition addrs :: "(nat \<times> 'a) list \<Rightarrow> nat list" where
  "addrs es = map fst es"

definition first_addr :: "nat list \<Rightarrow> nat option" where
  "first_addr es = (case es of [] \<Rightarrow> None | e # _ \<Rightarrow> Some e)"

lemma first_entry_addrs: "first_entry es = first_addr (addrs es)"
  by (cases es) (simp_all add: first_entry_def first_addr_def addrs_def)

lemma next_entry_addrs:
  assumes "addrs es = pre @ e # suf" "distinct (addrs es)"
  shows "next_entry e es = Some (first_addr suf)"
  using assms
proof (induction es arbitrary: pre)
  case (Cons x es)
  show ?case
  proof (cases pre)
    case Nil
    then have "fst x = e" "addrs es = suf" using Cons.prems by (simp_all add: addrs_def)
    then show ?thesis by (cases es) (auto simp: next_entry_def first_addr_def addrs_def)
  next
    case (Cons p pre')
    with Cons.prems have "fst x \<noteq> e" "addrs es = pre' @ e # suf" "distinct (addrs es)"
      by (auto simp: addrs_def)
    with Cons.IH [of pre'] show ?thesis by (simp add: next_entry_def)
  qed
qed (simp add: addrs_def)

lemma map_of_addrs: "e \<in> set (addrs es) \<Longrightarrow> \<exists>n. map_of es e = Some n"
  by (simp add: addrs_def weak_map_of_SomeI image_iff) (metis map_of_eq_None_iff image_eqI not_Some_eq)

text \<open>A reaction that leaves the lists of handlers and the read buffers where they are.\<close>

definition steady :: "'c world \<Rightarrow> 'c world \<Rightarrow> bool" where
  "steady w w' \<longleftrightarrow> (\<forall>a a'. w_att w = Some a \<longrightarrow> w_att w' = Some a' \<longrightarrow>
     addrs (notify_list a') = addrs (notify_list a) \<and> addrs (disconn_list a') = addrs (disconn_list a)) \<and>
     (\<forall>c ch ch'. w_chan w c = Some ch \<longrightarrow> w_chan w' c = Some ch' \<longrightarrow>
       ch_buf_at ch' = ch_buf_at ch \<and> ch_mtu ch' = ch_mtu ch)"

lemma steady_calls [simp]: "steady (w\<lparr>w_calls := x\<rparr>) w' = steady w w'"
  by (simp add: steady_def)

locale att_steady_client = att_client E for E :: "'c env" +
  assumes steady_reaction: "wf w \<Longrightarrow> client E c w = Some w' \<Longrightarrow> steady w w'"
begin

lemma call_steady: "wf w \<Longrightarrow> ensures (call E c w) (\<lambda>w'. keeps {} w w' \<and> steady w w')"
proof -
  assume w: "wf w"
  obtain w' where w': "call E c w = Some w'" "keeps {} w w'" using call_keeps [OF w] by (auto simp: ensures_def)
  have "steady (w\<lparr>w_calls := w_calls w @ [c]\<rparr>) w'"
    by (rule steady_reaction) (use w w' in \<open>simp_all add: call_def\<close>)
  with w' show ?thesis by simp
qed

lemma notify_loop_keeps:
  assumes "wf_with w a" "addrs (notify_list a) = pre @ suf" "c \<in> set (chans a)" "w_chan w c = Some ch"
    "ch_buf_at ch = at" "1 \<le> pdu_len" "pdu_len \<le> unat (ch_mtu ch)"
  shows "ensures (notify_loop E c at opcode (first_addr suf) pdu_len found w) (\<lambda>(r, w'). keeps {} w w')"
  using assms
proof (induction suf arbitrary: pre w a ch pdu_len found)
  case Nil
  show ?case
    by (subst notify_loop.simps) (simp add: first_addr_def keeps_refl [OF wf_withI [OF Nil.prems(1)]])
next
  case (Cons e suf)
  note wf = Cons.prems(1)
  have d: "distinct (addrs (notify_list a))" using wf_withD(7) [OF wf] by (simp add: handlers_ok_def addrs_def)
  have nx: "next_entry e (notify_list a) = Some (first_addr suf)"
    by (rule next_entry_addrs [OF Cons.prems(2) d])
  have "e \<in> set (addrs (notify_list a))" using Cons.prems(2) by simp
  then obtain n where n: "map_of (notify_list a) e = Some n" using map_of_addrs by blast
  have again: "ensures (notify_loop E c at opcode (first_addr suf) len f w) (\<lambda>(r, w'). keeps {} w w')"
    if "1 \<le> len" "len \<le> unat (ch_mtu ch)" for len f
    by (rule Cons.IH [of w a "pre @ [e]" ch]) (use Cons.prems that in simp_all)
  have len: "length (ch_buf ch) = unat (ch_mtu ch)"
    using wf_with_chan [OF wf Cons.prems(3)] Cons.prems(4) by (simp add: chan_ok_def)
  have buf: "buf_at c at w = Some (ch_buf ch)" using Cons.prems(4,5) by (simp add: buf_at_def)
  have ne: "chans a \<noteq> []" using Cons.prems(3) by auto
  obtain chl where chl: "w_chan w (last (chans a)) = Some chl" using wf_with_chan [OF wf] ne by force
  have link: "bt_att_get_link_type (Some ()) w = Some (ch_type chl)"
    using ne chl wf_withD(1) [OF wf] by (simp add: bt_att_get_link_type_def)
  obtain sgn where sgn: "(if opcode AND ATT_OP_SIGNED_MASK \<noteq> 0 \<and> a_crypto a \<noteq> None
      then do { pdu \<leftarrow> buf_at c at w; ok \<leftarrow> handle_signed E a pdu pdu_len; Some (Some ok) }
      else Some None) = Some sgn" "sgn = Some True \<Longrightarrow> 15 \<le> pdu_len"
  proof (cases "opcode AND ATT_OP_SIGNED_MASK \<noteq> 0 \<and> a_crypto a \<noteq> None")
    case True
    then obtain K where K: "a_crypto a = Some K" by auto
    have "length (ch_buf ch) < 65536" using len unat_u16_le [of "ch_mtu ch"] by simp
    from handle_signed_ok [OF wf_withD(6) [OF wf] K _ this, of pdu_len E]
    obtain ok where "handle_signed E a (ch_buf ch) pdu_len = Some ok" "ok \<longrightarrow> 15 \<le> pdu_len"
      using Cons.prems(7) len by (auto simp: ensures_def)
    then show ?thesis using that [of "Some ok"] True buf by simp
  next
    case False then show ?thesis using that [of None] by auto
  qed
  define l where "l = (if sgn = None then pdu_len else pdu_len - BT_ATT_SIGNATURE_LEN)"
  have refl: "keeps {} w w" by (rule keeps_refl [OF wf_withI [OF wf]])
  have l: "1 \<le> l" "l \<le> unat (ch_mtu ch)" if "sgn \<noteq> Some False"
    using that sgn(2) Cons.prems(6,7) by (auto simp: l_def BT_ATT_SIGNATURE_LEN_def)
  have cb: "ensures (case n_callback n of
               None \<Rightarrow> Some w
             | Some f \<Rightarrow> do {
                 pdu \<leftarrow> buf_at c at w;
                 bs \<leftarrow> rd_bytes pdu 1 (l - 1);
                 call E (CallNotify f c opcode bs (n_user_data n)) w })
        (\<lambda>w'. keeps {} w w' \<and> steady w w')" if "sgn \<noteq> Some False"
    using refl l [OF that] len buf call_steady [OF wf_withI [OF wf]]
    by (auto simp: rd_bytes_def steady_def split: option.split)
  have rest: "ensures (do { w' \<leftarrow> (case n_callback n of
               None \<Rightarrow> Some w
             | Some f \<Rightarrow> do {
                 pdu \<leftarrow> buf_at c at w;
                 bs \<leftarrow> rd_bytes pdu 1 (l - 1);
                 call E (CallNotify f c opcode bs (n_user_data n)) w });
             a \<leftarrow> w_att w';
             if notify_list a = [] then Some (Finished True, w')
             else notify_loop E c at opcode (first_addr suf) l True w' }) (\<lambda>(r, w'). keeps {} w w')"
    if s: "sgn \<noteq> Some False"
    unfolding ensures_bind [of "case n_callback n of None \<Rightarrow> Some w | Some f \<Rightarrow> _ f" for f]
  proof (rule ensures_mono [OF cb [OF s]])
    fix w' :: "'c world" assume k: "keeps {} w w' \<and> steady w w'"
    obtain a' where a': "wf_with w' a'" "frame_att {} w a w' a'" using keepsE [OF conjunct1 [OF k] wf] by blast
    obtain ch' where ch': "w_chan w' c = Some ch'" "c \<in> set (chans a')"
      using frame_pending [OF a'(2) Cons.prems(3,4)] by metis
    have st: "addrs (notify_list a') = (pre @ [e]) @ suf" "ch_buf_at ch' = at" "ch_mtu ch' = ch_mtu ch"
      using conjunct2 [OF k] wf_withD(1) [OF wf] wf_withD(1) [OF a'(1)] Cons.prems(2,4,5) ch'(1)
      by (auto simp: steady_def)
    have "ensures (notify_loop E c at opcode (first_addr suf) l True w') (\<lambda>(r, w''). keeps {} w' w'')"
      by (rule Cons.IH [OF a'(1) st(1) ch'(2,1) st(2)]) (use l [OF s] st(3) in simp_all)
    then have "ensures (notify_loop E c at opcode (first_addr suf) l True w') (\<lambda>(r, w''). keeps {} w w'')"
      by (rule ensures_mono) (use k keeps_trans0 in auto)
    then show "ensures (do { a \<leftarrow> w_att w';
             if notify_list a = [] then Some (Finished True, w')
             else notify_loop E c at opcode (first_addr suf) l True w' }) (\<lambda>(r, w'). keeps {} w w')"
      using k wf_withD(1) [OF a'(1)] by simp
  qed
  show ?case
  proof (cases "opcode_match (ucast (n_opcode n)) opcode")
    case False
    then show ?thesis
      using again [OF Cons.prems(6,7)]
      by (subst notify_loop.simps) (simp add: first_addr_def wf_withD(1) [OF wf] nx n)
  next
    case True
    have fe: "first_addr (e # suf) = Some e" by (simp add: first_addr_def)
    have eq: "notify_loop E c at opcode (first_addr (e # suf)) pdu_len found w =
      (if sgn = Some False then Some (Returned, w)
       else if ch_type chl = BT_ATT_BREDR \<and> opcode = BT_ATT_OP_MTU_REQ then Some (Finished found, w)
       else do { w' \<leftarrow> (case n_callback n of
               None \<Rightarrow> Some w
             | Some f \<Rightarrow> do {
                 pdu \<leftarrow> buf_at c at w;
                 bs \<leftarrow> rd_bytes pdu 1 (l - 1);
                 call E (CallNotify f c opcode bs (n_user_data n)) w });
             a \<leftarrow> w_att w';
             if notify_list a = [] then Some (Finished True, w')
             else notify_loop E c at opcode (first_addr suf) l True w' })"
      by (subst notify_loop.simps)
        (simp only: fe option.case wf_withD(1) [OF wf] bind.bind_lunit nx n True simp_thms if_False sgn(1) link Let_def l_def)
    show ?thesis unfolding eq using refl rest by simp
  qed
qed

end

lemma wf_ref:
  assumes "wf_with w a"
  shows "wf_with (set_att (a\<lparr>a_ref_count := n\<rparr>) w) (a\<lparr>a_ref_count := n\<rparr>)"
  using wf_withD(6,7) [OF assms] wf_distinct [OF assms]
  by (intro wf_update_att [OF assms]) (simp_all add: keys_ok_def handlers_ok_def sub_queue_refl)

lemma unref_kept:
  assumes "wf_with w a" "2 \<le> a_ref_count a"
  shows "bt_att_unref E (Some ()) w = Some (set_att (a\<lparr>a_ref_count := a_ref_count a - 1\<rparr>) w)"
  using assms(2) wf_withD(1) [OF assms(1)] by (simp add: bt_att_unref_def upd_att_def)

lemma with_ref:
  fixes w :: "'c world"
  assumes wf: "wf_with w a" "1 \<le> a_ref_count a"
    and f: "ensures (f (set_att (a\<lparr>a_ref_count := a_ref_count a + 1\<rparr>) w)) (runs (set_att (a\<lparr>a_ref_count := a_ref_count a + 1\<rparr>) w))"
  shows "ensures (do { w \<leftarrow> bt_att_ref (Some ()) w; w \<leftarrow> f w; w \<leftarrow> bt_att_unref E (Some ()) w; Some (r, w) })
    (\<lambda>(_, w'). runs w w')"
proof -
  let ?a = "a\<lparr>a_ref_count := a_ref_count a + 1\<rparr>"
  let ?w = "set_att ?a w"
  have wf1: "wf_with ?w ?a" by (rule wf_ref [OF wf(1)])
  have ref: "bt_att_ref (Some ()) w = Some ?w" using wf_withD(1) [OF wf(1)] by (simp add: bt_att_ref_def upd_att_def)
  show ?thesis
    unfolding ref bind.bind_lunit ensures_bind [of "f _"]
  proof (rule ensures_mono [OF f])
    fix w2 :: "'c world" assume r: "runs ?w w2"
    obtain a2 where a2: "wf_with w2 a2" "a_ref_count a + 1 \<le> a_ref_count a2" "set (chans a) \<subseteq> set (chans a2)"
      "\<And>t c i. (t, c, i) \<in> set (w_timers w2) \<Longrightarrow> (t, c, i) \<in> set (w_timers w) \<or> c \<in> set (chans a2)"
      by (rule runsE [OF r wf1]) simp
    have "runs w (set_att (a2\<lparr>a_ref_count := a_ref_count a2 - 1\<rparr>) w2)"
      by (rule runsI [OF wf_ref [OF a2(1)] wf_withD(1) [OF wf(1)]]) (use a2 in simp_all)
    then show "ensures (do { w \<leftarrow> bt_att_unref E (Some ()) w2; Some (r, w) }) (\<lambda>(_, w'). runs w w')"
      using unref_kept [OF a2(1)] a2(2) wf(2) by simp
  qed
qed

lemma respond_keeps:
  assumes "wf w"
  shows "ensures (respond_not_supported E opcode w) (keeps {} w)"
  unfolding respond_not_supported_def ensures_bind
  by (rule ensures_mono [OF bt_att_send_keeps [OF assms]]) (auto simp: arg_ok_def)

lemma update_chan_runs:
  assumes "wf_with w a" "c \<in> set (chans a)" "w_chan w c = Some ch" "chan_ok ch'"
    "ch_queue ch' = ch_queue ch" "pending_req ch' = pending_req ch" "pending_ind ch' = pending_ind ch"
  shows "wf_with (set_chan c ch' w) a" "runs w (set_chan c ch' w)"
proof -
  show 1: "wf_with (set_chan c ch' w) a"
    by (rule wf_update_chan [OF assms(1-4)]) (use assms(5-) wf_distinct_chan [OF assms(1-3)] in \<open>simp_all add: sub_queue_refl\<close>)
  show "runs w (set_chan c ch' w)"
    by (rule runs_same_att [OF 1]) (simp_all add: wf_withD(1) [OF assms(1)])
qed

context att_steady_client
begin

lemma handle_notify_runs:
  assumes wf: "wf_with w a" "1 \<le> a_ref_count a" and c: "c \<in> set (chans a)" "w_chan w c = Some ch"
    "ch_buf_at ch = at" and n: "1 \<le> pdu_len" "pdu_len \<le> unat (ch_mtu ch)"
  shows "ensures (handle_notify E c at opcode pdu_len w) (runs w)"
proof -
  let ?a = "a\<lparr>a_ref_count := a_ref_count a + 1\<rparr>"
  let ?w = "set_att ?a w"
  have wf1: "wf_with ?w ?a" by (rule wf_ref [OF wf(1)])
  have ref: "bt_att_ref (Some ()) w = Some ?w" using wf_withD(1) [OF wf(1)] by (simp add: bt_att_ref_def upd_att_def)
  have loop: "ensures (notify_loop E c at opcode (first_addr (addrs (notify_list ?a))) pdu_len False ?w) (\<lambda>(r, w'). keeps {} ?w w')"
    by (rule notify_loop_keeps [OF wf1, of "[]"]) (use c n in simp_all)
  have r0: "runs w w'" if k: "keeps {} ?w w'" for w' :: "'c world"
  proof -
    obtain a' where a': "wf_with w' a'" "frame_att {} ?w ?a w' a'" using keepsE [OF k wf1] by blast
    note f = frame_attD [OF a'(2)]
    have "set (chans a) \<subseteq> set (chans a')" using f(8) by auto
    then show ?thesis
      by (intro runsI [OF a'(1) wf_withD(1) [OF wf(1)]]) (use f(3,5) in simp_all)
  qed
  have un: "ensures (bt_att_unref E (Some ()) w') (runs w)" if k: "keeps {} ?w w'" for w' :: "'c world"
  proof -
    obtain a' where a': "wf_with w' a'" "frame_att {} ?w ?a w' a'" using keepsE [OF k wf1] by blast
    note f = frame_attD [OF a'(2)]
    have "set (chans a) \<subseteq> set (chans a')" using f(8) by auto
    then have "runs w (set_att (a'\<lparr>a_ref_count := a_ref_count a' - 1\<rparr>) w')"
      by (intro runsI [OF wf_ref [OF a'(1)] wf_withD(1) [OF wf(1)]]) (use f(3,5) in simp_all)
    then show ?thesis using unref_kept [OF a'(1)] f(3) wf(2) by simp
  qed
  have eq: "handle_notify E c at opcode pdu_len w = do {
     (r, w) \<leftarrow> notify_loop E c at opcode (first_addr (addrs (notify_list ?a))) pdu_len False ?w;
     (case r of
        Returned \<Rightarrow> Some w
      | Finished found \<Rightarrow> do {
          w \<leftarrow> (if \<not> found \<and> get_op_type opcode \<noteq> ATT_OP_TYPE_CMD then respond_not_supported E opcode w
                else Some w);
          bt_att_unref E (Some ()) w }) }"
    unfolding handle_notify_def ref bind.bind_lunit by (simp add: first_entry_addrs)
  show ?thesis
    unfolding eq ensures_bind [of "notify_loop _ _ _ _ _ _ _ _"]
  proof (rule ensures_mono [OF loop])
    fix y :: "walk_end \<times> 'c world" assume y: "case y of (r, w') \<Rightarrow> keeps {} ?w w'"
    obtain r w2 where rw: "y = (r, w2)" by force
    then have k: "keeps {} ?w w2" using y by simp
    then have "wf w2" by (simp add: keeps_def)
    from respond_keeps [OF this, of E opcode]
    have resp: "ensures (do { w \<leftarrow> respond_not_supported E opcode w2; bt_att_unref E (Some ()) w }) (runs w)"
      unfolding ensures_bind by (rule ensures_mono) (rule un [OF keeps_trans0 [OF k]])
    show "ensures (case y of (r, w) \<Rightarrow> (case r of
        Returned \<Rightarrow> Some w
      | Finished found \<Rightarrow> do {
          w \<leftarrow> (if \<not> found \<and> get_op_type opcode \<noteq> ATT_OP_TYPE_CMD then respond_not_supported E opcode w
                else Some w);
          bt_att_unref E (Some ()) w })) (runs w)"
      using rw r0 [OF k] un [OF k] resp by (cases r) auto
  qed
qed

lemma can_read_data_runs:
  assumes wf: "wf_with w a" "1 \<le> a_ref_count a" and c: "c \<in> set (chans a)"
  shows "ensures (can_read_data E c w) (\<lambda>(r, w'). runs w w')"
proof -
  obtain ch where ch: "w_chan w c = Some ch" "chan_ok ch" using wf_with_chan [OF wf(1) c] by blast
  show ?thesis
  proof (cases "k_read E (ch_fd ch) (ch_mtu ch)")
    case None
    then show ?thesis using ch(1) runs_refl [OF wf_withI [OF wf(1)]] by (simp add: can_read_data_def)
  next
    case (Some bs)
    have lb: "length bs \<le> unat (ch_mtu ch)" by (rule reads [OF Some])
    then obtain b where b: "wr_bytes (ch_buf ch) 0 bs = Some b" "length b = length (ch_buf ch)"
      using ch(2) by (auto simp: wr_bytes_def chan_ok_def)
    let ?ch = "ch\<lparr>ch_buf := b\<rparr>"
    let ?w = "set_chan c ?ch w"
    have ok: "chan_ok ?ch" using ch(2) b(2) by (simp add: chan_ok_def)
    note w0 = update_chan_runs [OF wf(1) c ch(1) ok, simplified]
    show ?thesis
    proof (cases bs)
      case Nil
      then show ?thesis using ch(1) Some b(1) w0(2) by (simp add: can_read_data_def)
    next
      case (Cons opcode pdu)
      let ?a = "a\<lparr>a_ref_count := a_ref_count a + 1\<rparr>"
      let ?w1 = "set_att ?a ?w"
      have wf1: "wf_with ?w1 ?a" by (rule wf_ref [OF w0(1)])
      have c1: "c \<in> set (chans ?a)" "w_chan ?w1 c = Some ?ch" using c by simp_all
      have fin: "\<And>f (r :: bool). ensures (f ?w1) (runs ?w1) \<Longrightarrow> ensures (do { w \<leftarrow> bt_att_ref (Some ()) ?w; w \<leftarrow> f w; w \<leftarrow> bt_att_unref E (Some ()) w; Some (r, w) })
        (\<lambda>(_, w'). runs w w')"
      proof -
        fix f and r :: bool assume "ensures (f ?w1) (runs ?w1)"
        note wr = with_ref [where f = f, OF w0(1) wf(2) this]
        show "ensures (do { w \<leftarrow> bt_att_ref (Some ()) ?w; w \<leftarrow> f w; w \<leftarrow> bt_att_unref E (Some ()) w; Some (r, w) })
          (\<lambda>(_, w'). runs w w')"
          by (rule ensures_mono [OF wr]) (auto intro: runs_trans [OF w0(2)])
      qed
      have rsp: "ensures (handle_rsp E c opcode pdu ?w1) (runs ?w1)" by (rule handle_rsp_runs [OF wf1 c1(1)])
      have conf: "ensures (handle_conf E c pdu ?w1) (runs ?w1)" by (rule handle_conf_runs [OF wf1 c1(1)])
      have shut: "ensures (io_shutdown c ?w1) (runs ?w1)"
        by (rule ensures_mono [OF io_shutdown_keeps [OF wf1 c1(1)]]) (rule keeps_runs)
      have nfy: "ensures (do { w \<leftarrow> (if q then upd_chan c (\<lambda>ch. ch\<lparr>in_req := True\<rparr>) w else Some w);
          handle_notify E c (ch_buf_at ch) opcode (length bs) w }) (runs w)" if w: "w = ?w1" for q w
      proof -
        let ?ch2 = "if q then ?ch\<lparr>in_req := True\<rparr> else ?ch"
        have ok2: "chan_ok ?ch2" using ok by (simp add: chan_ok_def)
        have w2: "wf_with (set_chan c ?ch2 ?w1) ?a" "runs ?w1 (set_chan c ?ch2 ?w1)"
          by (rule update_chan_runs [OF wf1 c1 ok2]; simp)+
        have up: "(if q then upd_chan c (\<lambda>ch. ch\<lparr>in_req := True\<rparr>) w else Some w) = Some (set_chan c ?ch2 w)"
          using c1(2) w by (auto simp: upd_chan_def set_chan_def set_att_def)
        have "ensures (handle_notify E c (ch_buf_at ch) opcode (length bs) (set_chan c ?ch2 ?w1)) (runs (set_chan c ?ch2 ?w1))"
          by (rule handle_notify_runs [OF w2(1), of c ?ch2]) (use wf(2) c lb Cons in simp_all)
        then show ?thesis
          unfolding up bind.bind_lunit unfolding w by (rule ensures_mono) (rule runs_trans [OF w2(2)])
      qed
      let ?run = "\<lambda>f r. do { w \<leftarrow> bt_att_ref (Some ()) ?w; w \<leftarrow> f w; w \<leftarrow> bt_att_unref E (Some ()) w; Some (r, w) }"
      let ?notify = "\<lambda>w. do {
        w \<leftarrow> (if get_op_type opcode = ATT_OP_TYPE_REQ then upd_chan c (\<lambda>ch. ch\<lparr>in_req := True\<rparr>) w else Some w);
        handle_notify E c (ch_buf_at ch) opcode (length bs) w }"
      have eq: "can_read_data E c w =
        (if get_op_type opcode = ATT_OP_TYPE_RSP then ?run (handle_rsp E c opcode pdu) True
         else if get_op_type opcode = ATT_OP_TYPE_CONF then ?run (handle_conf E c pdu) True
         else if get_op_type opcode = ATT_OP_TYPE_REQ \<and> in_req ch then ?run (io_shutdown c) False
         else ?run ?notify True)"
        unfolding can_read_data_def ch(1) bind.bind_lunit Some option.case b(1) Let_def Cons list.case
        by (cases "get_op_type opcode"; cases "in_req ch") (simp_all add: Option.bind_assoc b(1) [unfolded Cons])
      have cases: "ensures (if p then x else if q then y else if s then z else u) Q"
        if "ensures x Q" "ensures y Q" "ensures z Q" "ensures u Q" for p q s x y z u and Q :: "bool \<times> 'c world \<Rightarrow> bool"
        using that by simp
      show ?thesis
        unfolding eq
        by (rule cases) (rule fin, rule rsp conf shut nfy [OF refl])+
    qed
  qed
qed

end

section \<open>Disconnection\<close>

lemma frame_drop_timer:
  "frame_att X w a w' a' \<Longrightarrow> frame_att X (drop_timer op w) a (drop_timer op w') a'"
  by (simp add: frame_att_def same_pend_def) (simp add: drop_timer_def timeout_remove_def)

lemma keeps_drop_timer:
  assumes "keeps X w w'" "wf_with w a"
  shows "keeps X (drop_timer op w) (drop_timer op w')"
proof -
  obtain a' where "wf_with w' a'" "frame_att X w a w' a'" using keepsE [OF assms] by blast
  then show ?thesis using keepsI [OF wf_drop_timer frame_drop_timer] by blast
qed

text \<open>
  A channel that was taken off the list: nothing refers to its operations any more, and its timers
  belong to those that wait for an answer.
\<close>

definition detached :: "nat \<Rightarrow> bt_att_chan \<Rightarrow> 'c world \<Rightarrow> bool" where
  "detached c ch w \<longleftrightarrow> (\<exists>a. wf_with w a \<and> c \<notin> set (chans a) \<and> w_chan w c = Some ch \<and>
     distinct (ch_queue ch) \<and> set (ch_queue ch) \<inter> pend ch = {} \<and>
     (\<forall>p. \<not> (pending_req ch = Some p \<and> pending_ind ch = Some p)) \<and>
     (\<forall>p \<in> pend ch \<union> set (ch_queue ch). p \<notin> owned (place_ops w a) \<and> (\<exists>op. w_op w p = Some op \<and>
        (p \<in> set (ch_queue ch) \<longrightarrow> op_timeout_id op = 0))) \<and>
     (\<forall>t i. (t, c, i) \<in> set (w_timers w) \<longrightarrow> (\<exists>p \<in> pend ch. \<exists>op. w_op w p = Some op \<and> op_timeout_id op = t)))"

lemma detachedE:
  assumes "detached c ch w"
  obtains a where "wf_with w a" "c \<notin> set (chans a)" "w_chan w c = Some ch" "distinct (ch_queue ch)"
    "set (ch_queue ch) \<inter> pend ch = {}" "\<And>p. \<not> (pending_req ch = Some p \<and> pending_ind ch = Some p)"
    "\<And>p. p \<in> pend ch \<union> set (ch_queue ch) \<Longrightarrow> p \<notin> owned (place_ops w a)"
    "\<And>p. p \<in> pend ch \<Longrightarrow> \<exists>op. w_op w p = Some op"
    "\<And>p. p \<in> set (ch_queue ch) \<Longrightarrow> \<exists>op. w_op w p = Some op \<and> op_timeout_id op = 0"
    "\<And>t i. (t, c, i) \<in> set (w_timers w) \<Longrightarrow> \<exists>p \<in> pend ch. \<exists>op. w_op w p = Some op \<and> op_timeout_id op = t"
  using assms unfolding detached_def by blast

lemma detachedI:
  assumes "wf_with w a" "c \<notin> set (chans a)" "w_chan w c = Some ch" "distinct (ch_queue ch)"
    "set (ch_queue ch) \<inter> pend ch = {}" "\<And>p. \<not> (pending_req ch = Some p \<and> pending_ind ch = Some p)"
    "\<And>p. p \<in> pend ch \<union> set (ch_queue ch) \<Longrightarrow> p \<notin> owned (place_ops w a)"
    "\<And>p. p \<in> pend ch \<Longrightarrow> \<exists>op. w_op w p = Some op"
    "\<And>p. p \<in> set (ch_queue ch) \<Longrightarrow> \<exists>op. w_op w p = Some op \<and> op_timeout_id op = 0"
    "\<And>t i. (t, c, i) \<in> set (w_timers w) \<Longrightarrow> \<exists>p \<in> pend ch. \<exists>op. w_op w p = Some op \<and> op_timeout_id op = t"
  shows "detached c ch w"
proof -
  have "\<exists>op. w_op w p = Some op \<and> (p \<in> set (ch_queue ch) \<longrightarrow> op_timeout_id op = 0)"
    if "p \<in> pend ch \<union> set (ch_queue ch)" for p
    using that assms(8,9) by (cases "p \<in> set (ch_queue ch)") auto
  then show ?thesis
    unfolding detached_def using assms(1-7,10) by (intro exI [of _ a]) simp
qed

lemma detached_keeps:
  assumes "detached c ch w" "keeps {} w w'"
  shows "detached c ch w'"
proof (rule detachedE [OF assms(1)])
  fix a assume d: "wf_with w a" "c \<notin> set (chans a)" "w_chan w c = Some ch" "distinct (ch_queue ch)"
    "set (ch_queue ch) \<inter> pend ch = {}" "\<And>p. \<not> (pending_req ch = Some p \<and> pending_ind ch = Some p)"
    "\<And>p. p \<in> pend ch \<union> set (ch_queue ch) \<Longrightarrow> p \<notin> owned (place_ops w a)"
    "\<And>p. p \<in> pend ch \<Longrightarrow> \<exists>op. w_op w p = Some op"
    "\<And>p. p \<in> set (ch_queue ch) \<Longrightarrow> \<exists>op. w_op w p = Some op \<and> op_timeout_id op = 0"
    "\<And>t i. (t, c, i) \<in> set (w_timers w) \<Longrightarrow> \<exists>p \<in> pend ch. \<exists>op. w_op w p = Some op \<and> op_timeout_id op = t"
  obtain a' where a': "wf_with w' a'" "frame_att {} w a w' a'" using keepsE [OF assms(2) d(1)] by blast
  note f = frame_attD [OF a'(2)]
  have same: "w_op w' p = w_op w p \<and> p \<notin> owned (place_ops w' a')" if "p \<in> pend ch \<union> set (ch_queue ch)" for p
  proof -
    note pq = that
    obtain op where "w_op w p = Some op" using pq d(8,9) by blast
    from f(6) [OF wf_live [OF d(1) this] d(7) [OF pq]] show ?thesis by simp
  qed
  have chw: "w_chan w' c = Some ch \<and> c \<notin> set (chans a')"
    using f(7) [OF wf_live_chan [OF d(1,3)] d(2)] d(3) by simp
  show ?thesis
  proof (rule detachedI [OF a'(1) conjunct2 [OF chw] conjunct1 [OF chw] d(4-6)])
    show "\<exists>p \<in> pend ch. \<exists>op. w_op w' p = Some op \<and> op_timeout_id op = t" if "(t, c, i) \<in> set (w_timers w')" for t i
      using d(10) [of t i] that f(5) same by auto
  qed (use same d(8,9) in auto)
qed

text \<open>A pending operation of a detached channel is released.\<close>

lemma detached_release:
  fixes w w' :: "'c world"
  assumes dt: "detached c ch w" and p: "p \<in> pend ch" "w_op w p = Some op" and k: "keeps {p} (drop_timer op w) w'"
    and ch': "ch' = (if pending_req ch = Some p then ch\<lparr>pending_req := None\<rparr> else ch\<lparr>pending_ind := None\<rparr>)"
  shows "detached c ch' (set_chan c ch' w')" "w_chan w' c = Some ch" "runs w (set_chan c ch' w')"
proof -
  obtain a where d: "wf_with w a" "c \<notin> set (chans a)" "w_chan w c = Some ch" "distinct (ch_queue ch)"
    "set (ch_queue ch) \<inter> pend ch = {}" "\<And>p. \<not> (pending_req ch = Some p \<and> pending_ind ch = Some p)"
    "\<And>p. p \<in> pend ch \<union> set (ch_queue ch) \<Longrightarrow> p \<notin> owned (place_ops w a)"
    "\<And>p. p \<in> pend ch \<Longrightarrow> \<exists>op. w_op w p = Some op"
    "\<And>p. p \<in> set (ch_queue ch) \<Longrightarrow> \<exists>op. w_op w p = Some op \<and> op_timeout_id op = 0"
    "\<And>t i. (t, c, i) \<in> set (w_timers w) \<Longrightarrow> \<exists>p \<in> pend ch. \<exists>op. w_op w p = Some op \<and> op_timeout_id op = t"
    by (rule detachedE [OF dt]) blast
  obtain a' where a': "wf_with w' a'" "frame_att {p} (drop_timer op w) a w' a'"
    using keepsE [OF k wf_drop_timer [OF d(1)]] by blast
  note f = frame_attD [OF a'(2), unfolded drop_timer_simps]
  have pend': "pend ch' = pend ch - {p}" "ch_queue ch' = ch_queue ch"
    using p(1) d(6) [of p] unfolding ch' pend_def by auto
  have same: "w_op w' q = w_op w q \<and> q \<notin> owned (place_ops w' a')" if "q \<in> pend ch' \<union> set (ch_queue ch')" for q
  proof -
    have q: "q \<in> pend ch \<union> set (ch_queue ch)" "q \<noteq> p" using that pend' p(1) d(5) by auto
    obtain oq where "w_op w q = Some oq" using q(1) d(8,9) by blast
    from f(6) [OF wf_live [OF d(1) this] d(7) [OF q(1)]] q(2) show ?thesis by simp
  qed
  have chw: "w_chan w' c = Some ch \<and> c \<notin> set (chans a')"
    using f(7) [OF wf_live_chan [OF d(1,3)] d(2)] d(3) by simp
  then show "w_chan w' c = Some ch" by simp
  have cn: "c \<notin> set (chans a')" using chw by simp
  have lt: "c < w_next w'" using wf_live_chan [OF a'(1)] chw by blast
  have wf2: "wf_with (set_chan c ch' w') a'"
    using wf_withD [OF a'(1)] cn lt
    by (auto simp: place_ops_other_chan [OF cn, unfolded set_chan_def] wf_with_def chans_ok_def timers_ok_def fresh_ok_def handlers_ok_def set_chan_def)
  have tm: "\<exists>q \<in> pend ch'. \<exists>oq. w_op w' q = Some oq \<and> op_timeout_id oq = t" if t: "(t, c, i) \<in> set (w_timers w')" for t i
  proof -
    have t1: "(t, c, i) \<in> set (w_timers (drop_timer op w))" using t f(5) by simp
    then have "(t, c, i) \<in> set (w_timers w)" by (auto simp: drop_timer_def timeout_remove_def split: if_splits)
    then obtain q oq where q: "q \<in> pend ch" "w_op w q = Some oq" "op_timeout_id oq = t" using d(10) by blast
    have "q \<noteq> p" using drop_timer_gone [OF d(1), of op] t1 q p(2) by force
    then show ?thesis using same [of q] q pend' by auto
  qed
  show "detached c ch' (set_chan c ch' w')"
  proof (rule detachedI [OF wf2 cn])
    show "\<not> (pending_req ch' = Some q \<and> pending_ind ch' = Some q)" for q
      using d(6) [of q] by (auto simp: ch')
    show "q \<notin> owned (place_ops (set_chan c ch' w') a')" if "q \<in> pend ch' \<union> set (ch_queue ch')" for q
      using same [OF that] by (simp add: place_ops_other_chan [OF cn])
    show "\<exists>q \<in> pend ch'. \<exists>oq. w_op (set_chan c ch' w') q = Some oq \<and> op_timeout_id oq = t"
      if "(t, c, i) \<in> set (w_timers (set_chan c ch' w'))" for t i
      using tm that by simp
  qed (use same pend' d(4,5,8,9) in auto)
  have "runs (drop_timer op w) (set_chan c ch' w')"
  proof (rule runsI [OF wf2])
    show "w_att (drop_timer op w) = Some a" using wf_withD(1) [OF d(1)] by simp
    show "set (chans a) \<subseteq> set (chans a')" using f(8) by blast
  qed (use f(3,5) in auto)
  then show "runs w (set_chan c ch' w')" by (rule runs_timer)
qed

context att_client
begin

lemma disc_unowned:
  assumes "wf_with w a" "w_op w p = Some op" "p \<notin> owned (place_ops w a)"
  shows "ensures (disc_att_send_op E p w) (keeps {p} (drop_timer op w))"
  unfolding disc_att_send_op_def assms(2) bind.bind_lunit ensures_bind
proof (rule ensures_mono [OF call_if_keeps [OF wf_withI [OF assms(1)]]])
  fix w1 :: "'c world" assume k: "keeps {} w w1"
  obtain a1 where a1: "wf_with w1 a1" "frame_att {} w a w1 a1" using keepsE [OF k assms(1)] by blast
  have p: "w_op w1 p = Some op" "p \<notin> owned (place_ops w1 a1)"
    using frame_attD(6) [OF a1(2), of p] wf_live [OF assms(1,2)] assms(2,3) by simp_all
  show "ensures (destroy_att_send_op E p w1) (keeps {p} (drop_timer op w))"
    by (rule ensures_mono [OF destroy_unowned [OF a1(1) p]])
      (auto intro: keeps_trans [OF keeps_drop_timer [OF k assms(1)]])
qed

lemma detached_disc:
  assumes dt: "detached c ch w" and x: "x = pending_req ch \<and> clr = (\<lambda>ch. ch\<lparr>pending_req := None\<rparr>) \<or>
    x = pending_ind ch \<and> clr = (\<lambda>ch. ch\<lparr>pending_ind := None\<rparr>)"
  shows "ensures (case x of None \<Rightarrow> Some w | Some p \<Rightarrow> do { w \<leftarrow> disc_att_send_op E p w; upd_chan c clr w })
    (\<lambda>w'. detached c (clr ch) w' \<and> runs w w')"
proof (cases x)
  case None
  obtain a where "wf_with w a" by (rule detachedE [OF dt]) blast
  moreover have "clr ch = ch" using x None by auto
  ultimately show ?thesis using None dt by (simp add: runs_refl [OF wf_withI])
next
  case (Some p)
  have pp: "p \<in> pend ch" using x Some by (auto simp: pend_def)
  obtain a op where a: "wf_with w a" "w_op w p = Some op" "p \<notin> owned (place_ops w a)"
    by (rule detachedE [OF dt]) (use pp in blast)
  have nb: "\<not> (pending_req ch = Some p \<and> pending_ind ch = Some p)" by (rule detachedE [OF dt]) blast
  have clr: "clr ch = (if pending_req ch = Some p then ch\<lparr>pending_req := None\<rparr> else ch\<lparr>pending_ind := None\<rparr>)"
    using x Some nb by auto
  show ?thesis
    unfolding Some option.case ensures_bind
  proof (rule ensures_mono [OF disc_unowned [OF a]])
    fix w1 :: "'c world" assume k: "keeps {p} (drop_timer op w) w1"
    note r = detached_release [OF dt pp a(2) k clr]
    show "ensures (upd_chan c clr w1) (\<lambda>w'. detached c (clr ch) w' \<and> runs w w')"
      using r by (simp add: upd_chan_def)
  qed
qed

lemma chan_free_detached:
  assumes dt: "detached c ch w" and none: "pending_req ch = None" "pending_ind ch = None"
  shows "ensures (bt_att_chan_free E c w) (\<lambda>w'. runs w w' \<and> w_chan w' c = None \<and> (\<forall>t i. (t, c, i) \<notin> set (w_timers w')) \<and>
    (\<forall>a'. w_att w' = Some a' \<longrightarrow> c \<notin> set (chans a')))"
proof -
  have "pend ch = {}" using none by (simp add: pend_def)
  then have "\<exists>a. wf_with w a \<and> c \<notin> set (chans a) \<and> w_chan w c = Some ch \<and> distinct (ch_queue ch) \<and>
    (\<forall>p \<in> set (ch_queue ch). p \<notin> owned (place_ops w a)) \<and>
    (\<forall>p \<in> set (ch_queue ch). \<exists>op. w_op w p = Some op \<and> op_timeout_id op = 0) \<and>
    (\<forall>t i. (t, c, i) \<notin> set (w_timers w))"
    using dt unfolding detached_def by fastforce
  then obtain a where d: "wf_with w a" "c \<notin> set (chans a)" "w_chan w c = Some ch" "distinct (ch_queue ch)"
    "\<And>p. p \<in> set (ch_queue ch) \<Longrightarrow> p \<notin> owned (place_ops w a)"
    "\<And>p. p \<in> set (ch_queue ch) \<Longrightarrow> \<exists>op. w_op w p = Some op \<and> op_timeout_id op = 0"
    "\<And>t i. (t, c, i) \<notin> set (w_timers w)"
    by blast
  let ?w1 = "set_chan c (ch\<lparr>ch_queue := []\<rparr>) w"
  have lt: "c < w_next w" using wf_live_chan [OF d(1,3)] .
  have wf1: "wf_with ?w1 a"
    using wf_withD [OF d(1)] d(2) lt
    by (auto simp: place_ops_other_chan [OF d(2), unfolded set_chan_def] wf_with_def chans_ok_def timers_ok_def fresh_ok_def handlers_ok_def set_chan_def)
  have r1: "runs w ?w1" by (rule runs_same_att [OF wf1]) (simp_all add: wf_withD(1) [OF d(1)])
  have q: "ensures (each (destroy_att_send_op E) (ch_queue ch) ?w1) (keeps (set (ch_queue ch)) ?w1)"
    by (rule each_unowned [OF destroy_queued wf1 d(4)]) (use d(5,6) in \<open>auto simp: place_ops_other_chan [OF d(2)]\<close>)
  have eq: "bt_att_chan_free E c w = do { w \<leftarrow> each (destroy_att_send_op E) (ch_queue ch) ?w1;
     _ \<leftarrow> w_chan w c;
     Some (w\<lparr>w_chan := (w_chan w)(c := None)\<rparr>) }"
    using d(3) none by (simp add: bt_att_chan_free_def on_some_def)
  show ?thesis
    unfolding eq ensures_bind
  proof (rule ensures_mono [OF q])
    fix w2 :: "'c world" assume k: "keeps (set (ch_queue ch)) ?w1 w2"
    obtain a2 where a2: "wf_with w2 a2" "frame_att (set (ch_queue ch)) ?w1 a w2 a2" using keepsE [OF k wf1] by blast
    note f = frame_attD [OF a2(2)]
    have c2: "w_chan w2 c = Some (ch\<lparr>ch_queue := []\<rparr>)" "c \<notin> set (chans a2)" using f(7) [of c] lt d(2) by simp_all
    let ?w3 = "w2\<lparr>w_chan := (w_chan w2)(c := None)\<rparr>"
    have pl: "place_ops ?w3 a2 = place_ops w2 a2"
    proof
      fix pl show "place_ops ?w3 a2 pl = place_ops w2 a2 pl" using c2(2) by (cases pl) (auto simp: on_chan_def)
    qed
    have wf3: "wf_with ?w3 a2"
      using wf_withD [OF a2(1)] c2 pl
      by (auto simp: wf_with_def chans_ok_def timers_ok_def fresh_ok_def handlers_ok_def)
    have r3: "runs w2 ?w3" by (rule runs_same_att [OF wf3]) (simp_all add: wf_withD(1) [OF a2(1)])
    have "runs w ?w3" using runs_trans [OF r1 runs_trans [OF keeps_runs [OF k] r3]] .
    then show "ensures (w_chan w2 c) (\<lambda>y. ensures (Some (w2\<lparr>w_chan := (w_chan w2)(c := None)\<rparr>)) (\<lambda>w'. runs w w' \<and>
      w_chan w' c = None \<and> (\<forall>t i. (t, c, i) \<notin> set (w_timers w')) \<and> (\<forall>a'. w_att w' = Some a' \<longrightarrow> c \<notin> set (chans a'))))"
      using c2 f(5) d(7) wf_withD(1) [OF a2(1)] by simp
  qed
qed

end

lemma detach:
  assumes wf: "wf_with w a" and c: "c \<in> set (chans a)" "w_chan w c = Some ch"
  shows "wf_with (set_att (a\<lparr>chans := remove1 c (chans a)\<rparr>) w) (a\<lparr>chans := remove1 c (chans a)\<rparr>)"
    "detached c ch (set_att (a\<lparr>chans := remove1 c (chans a)\<rparr>) w)"
proof -
  let ?a = "a\<lparr>chans := remove1 c (chans a)\<rparr>"
  let ?w = "set_att ?a w"
  have d: "distinct (chans a)" using wf_withD(2) [OF wf] by (simp add: chans_ok_def)
  have cs: "set (chans ?a) = set (chans a) - {c}" using d by simp
  note L = ops_ok_layout [OF wf_withD(3) [OF wf]]
  note pl = place_ops_of_chan [OF c]
  have eq: "place_ops ?w ?a = (place_ops w a)(AtChan c := [], AtPendReq c := [], AtPendInd c := [])"
  proof
    fix p show "place_ops ?w ?a p = ((place_ops w a)(AtChan c := [], AtPendReq c := [], AtPendInd c := [])) p"
      using cs by (cases p) (auto simp: on_chan_def)
  qed
  have "ops_ok (w_op ?w) (a_mtu ?a) (place_ops ?w ?a)"
    unfolding eq by (simp, rule ops_ok_sub [OF wf_withD(3) [OF wf]])
      (use L in \<open>auto simp: layout_def fun_upd_def\<close>)
  then show wf1: "wf_with ?w ?a"
    using wf_withD [OF wf] cs d
    by (simp add: wf_with_def chans_ok_def timers_ok_def fresh_ok_def handlers_ok_def keys_ok_def distinct_remove1)
  have un: "p \<notin> owned (place_ops ?w ?a)" if p: "p \<in> pend ch \<union> set (ch_queue ch)" for p
  proof -
    obtain q where q: "q = AtChan c \<or> q = AtPendReq c \<or> q = AtPendInd c" "p \<in> set (place_ops w a q)"
      using p pl unfolding pend_def by (metis UnE set_opt_list)
    then have "\<And>r. p \<in> set (place_ops w a r) \<Longrightarrow> r = q" using L unfolding layout_def by blast
    with q(1) show ?thesis unfolding eq owned_iff by (auto simp: fun_upd_def split: if_splits)
  qed
  have dj: "p \<notin> pend ch" if "p \<in> set (ch_queue ch)" for p
  proof
    assume "p \<in> pend ch"
    then obtain q where q: "q = AtPendReq c \<or> q = AtPendInd c" "p \<in> set (place_ops w a q)"
      using pl unfolding pend_def by (metis UnE set_opt_list)
    moreover have "p \<in> set (place_ops w a (AtChan c))" using that pl(1) by simp
    ultimately have "q = AtChan c" using L unfolding layout_def by blast
    with q(1) show False by simp
  qed
  show "detached c ch ?w"
  proof (rule detachedI [OF wf1])
    show "c \<notin> set (chans ?a)" using cs by simp
    show "distinct (ch_queue ch)" by (rule wf_distinct_chan [OF wf c])
    show "set (ch_queue ch) \<inter> pend ch = {}" using dj by blast
    show "\<not> (pending_req ch = Some p \<and> pending_ind ch = Some p)" for p by (rule pend_places [OF wf c])
    show "\<exists>op. w_op ?w p = Some op" if "p \<in> pend ch" for p using pend_live [OF wf c that] by auto
    show "\<exists>op. w_op ?w p = Some op \<and> op_timeout_id op = 0" if "p \<in> set (ch_queue ch)" for p
      using ops_okD [OF wf_withD(3) [OF wf], of p "AtChan c"] that pl(1) by auto
    show "\<exists>p \<in> pend ch. \<exists>op. w_op ?w p = Some op \<and> op_timeout_id op = t" if "(t, c, i) \<in> set (w_timers ?w)" for t i
      using wf_timer_of [OF wf c, of t i] that by auto
  qed (use c un in auto)
qed

text \<open>The invariant between events.\<close>

definition att_inv :: "'c world \<Rightarrow> bool" where
  "att_inv w \<longleftrightarrow> (\<exists>a. wf_with w a \<and> 1 \<le> a_ref_count a \<and>
     (\<forall>t c i. (t, c, i) \<in> set (w_timers w) \<longrightarrow> c \<in> set (chans a)))"

lemma att_inv_runs:
  assumes "att_inv w" "runs w w'"
  shows "att_inv w'"
proof -
  obtain a where a: "wf_with w a" "1 \<le> a_ref_count a"
    "\<And>t c i. (t, c, i) \<in> set (w_timers w) \<Longrightarrow> c \<in> set (chans a)"
    using assms(1) unfolding att_inv_def by blast
  obtain a' where a': "wf_with w' a'" "a_ref_count a \<le> a_ref_count a'" "set (chans a) \<subseteq> set (chans a')"
    "\<And>t c i. (t, c, i) \<in> set (w_timers w') \<Longrightarrow> (t, c, i) \<in> set (w_timers w) \<or> c \<in> set (chans a')"
    by (rule runsE [OF assms(2) a(1)], rule that, assumption+)
  have "c \<in> set (chans a')" if "(t, c, i) \<in> set (w_timers w')" for t c i
    using a'(4) [OF that] a(3) a'(3) by blast
  with a' a(2) show ?thesis unfolding att_inv_def by (intro exI [of _ a']) simp
qed

lemma att_invD:
  assumes "att_inv w" "w_att w = Some a"
  shows "wf_with w a" "1 \<le> a_ref_count a" "\<And>t c i. (t, c, i) \<in> set (w_timers w) \<Longrightarrow> c \<in> set (chans a)"
proof -
  obtain a' where a': "wf_with w a' \<and> 1 \<le> a_ref_count a' \<and> (\<forall>t c i. (t, c, i) \<in> set (w_timers w) \<longrightarrow> c \<in> set (chans a'))"
    using assms(1) by (auto simp: att_inv_def)
  then have "a' = a" using assms(2) by (auto dest: wf_withD(1))
  with a' show "wf_with w a" "1 \<le> a_ref_count a" "\<And>t c i. (t, c, i) \<in> set (w_timers w) \<Longrightarrow> c \<in> set (chans a)"
    by blast+
qed

lemma ensures_bindI:
  assumes "ensures x P" "\<And>y. P y \<Longrightarrow> ensures (g y) Q"
  shows "ensures (Option.bind x g) Q"
  unfolding ensures_bind by (rule ensures_mono [OF assms])

context att_steady_client
begin

lemma call_if_steady: "wf w \<Longrightarrow> ensures (call_if E f c w) (\<lambda>w'. keeps {} w w' \<and> steady w w')"
  using call_steady by (cases f) (simp_all add: call_if_def keeps_refl steady_def)

lemma disconn_loop_keeps:
  assumes "wf_with w a" "addrs (disconn_list a) = pre @ suf"
  shows "ensures (disconn_loop E err (first_addr suf) w) (keeps {} w)"
  using assms
proof (induction suf arbitrary: pre w a)
  case Nil
  show ?case
    by (subst disconn_loop.simps)
      (simp add: first_addr_def keeps_refl [OF wf_withI [OF Nil.prems(1)]] wf_withD(1) [OF Nil.prems(1)])
next
  case (Cons e suf)
  note wf = Cons.prems(1)
  have d: "distinct (addrs (disconn_list a))" using wf_withD(7) [OF wf] by (simp add: handlers_ok_def addrs_def)
  have nx: "next_entry e (disconn_list a) = Some (first_addr suf)"
    by (rule next_entry_addrs [OF Cons.prems(2) d])
  have e: "e \<in> set (addrs (disconn_list a))" using Cons.prems(2) by simp
  then obtain n where n: "map_of (disconn_list a) e = Some n" using map_of_addrs by blast
  have ne: "disconn_list a \<noteq> []" using e by (auto simp: addrs_def)
  have h: "ensures (disconn_handler E err n w) (\<lambda>w'. keeps {} w w' \<and> steady w w')"
    using call_if_steady [OF wf_withI [OF wf]] keeps_refl [OF wf_withI [OF wf]]
    by (simp add: disconn_handler_def steady_def)
  have fe: "first_addr (e # suf) = Some e" by (simp add: first_addr_def)
  have eq: "disconn_loop E err (first_addr (e # suf)) w =
    do { w \<leftarrow> disconn_handler E err n w; disconn_loop E err (first_addr suf) w }"
    by (subst disconn_loop.simps) (simp add: fe wf_withD(1) [OF wf] nx n ne)
  show ?case
    unfolding eq ensures_bind
  proof (rule ensures_mono [OF h])
    fix w' :: "'c world" assume k: "keeps {} w w' \<and> steady w w'"
    obtain a' where a': "wf_with w' a'" "frame_att {} w a w' a'" using keepsE [OF conjunct1 [OF k] wf] by blast
    have st: "addrs (disconn_list a') = (pre @ [e]) @ suf"
      using conjunct2 [OF k] wf_withD(1) [OF wf] wf_withD(1) [OF a'(1)] Cons.prems(2) by (simp add: steady_def)
    show "ensures (disconn_loop E err (first_addr suf) w') (keeps {} w)"
      by (rule ensures_mono [OF Cons.IH [OF a'(1) st]]) (rule keeps_trans0 [OF conjunct1 [OF k]])
  qed
qed

lemma last_disconnect:
  assumes wf: "wf_with w a" "1 \<le> a_ref_count a"
  shows "ensures (do { w \<leftarrow> bt_att_ref (Some ()) w;
       a \<leftarrow> w_att w;
       w \<leftarrow> disconn_loop E err (first_entry (disconn_list a)) w;
       (_, w) \<leftarrow> bt_att_unregister_all E (Some ()) w;
       bt_att_unref E (Some ()) w }) (runs w)"
proof -
  let ?f = "\<lambda>w. do { a \<leftarrow> w_att w; w \<leftarrow> disconn_loop E err (first_entry (disconn_list a)) w;
    (_, w) \<leftarrow> bt_att_unregister_all E (Some ()) w; Some w }"
  let ?a = "a\<lparr>a_ref_count := a_ref_count a + 1\<rparr>"
  let ?w = "set_att ?a w"
  have wf1: "wf_with ?w ?a" by (rule wf_ref [OF wf(1)])
  have "ensures (?f ?w) (keeps {} ?w)"
  proof -
    have l: "ensures (disconn_loop E err (first_addr (addrs (disconn_list ?a))) ?w) (keeps {} ?w)"
      by (rule disconn_loop_keeps [OF wf1, of "[]"]) simp
    have u: "ensures (do { (_, w) \<leftarrow> bt_att_unregister_all E (Some ()) w1; Some w }) (keeps {} w1)" if "wf w1" for w1 :: "'c world"
      unfolding ensures_bind by (rule ensures_mono [OF bt_att_unregister_all_keeps [OF that]]) auto
    have eq: "?f ?w = do { w \<leftarrow> disconn_loop E err (first_addr (addrs (disconn_list ?a))) ?w;
      (_, w) \<leftarrow> bt_att_unregister_all E (Some ()) w; Some w }"
      by (simp add: first_entry_addrs)
    show ?thesis unfolding eq by (rule ensures_seq [OF l u])
  qed
  then have "ensures (?f ?w) (runs ?w)" by (rule ensures_mono) (rule keeps_runs)
  note r = with_ref [where f = ?f and r = True, OF wf this]
  show ?thesis
    using r by (simp add: Option.bind_assoc case_prod_beta ensures_def bind_eq_Some_conv) blast
qed

lemma disconnect_cb_inv:
  assumes inv: "att_inv w" and a: "w_att w = Some a" "c \<in> set (chans a)"
  shows "ensures (disconnect_cb E c w) att_inv"
proof -
  note wf = att_invD [OF inv a(1)]
  obtain ch where ch: "w_chan w c = Some ch" using wf_with_chan [OF wf(1) a(2)] by blast
  let ?a1 = "a\<lparr>chans := remove1 c (chans a)\<rparr>"
  let ?w1 = "set_att ?a1 w"
  note w1 = detach [OF wf(1) a(2) ch]
  have dr: "ensures (drain_queues (disc_att_send_op E) ?w1) (keeps {} ?w1)"
    by (rule drain_queues_keeps [OF disc_queued wf_withI [OF w1(1)]])
  let ?disc = "\<lambda>x clr w. case x of None \<Rightarrow> Some w | Some p \<Rightarrow> do { w \<leftarrow> disc_att_send_op E p w; upd_chan c clr w }"
  define err where "err = (case so_error E (ch_fd ch) of None \<Rightarrow> 0 | Some e \<Rightarrow> e)"
  let ?last = "\<lambda>w. do {
       w \<leftarrow> bt_att_ref (Some ()) w;
       a \<leftarrow> w_att w;
       w \<leftarrow> disconn_loop E err (first_entry (disconn_list a)) w;
       (_, w) \<leftarrow> bt_att_unregister_all E (Some ()) w;
       bt_att_unref E (Some ()) w }"
  let ?tail = "\<lambda>w. do { a \<leftarrow> w_att w; if chans a \<noteq> [] then Some w else ?last w }"
  have eq: "disconnect_cb E c w = do {
     w \<leftarrow> drain_queues (disc_att_send_op E) ?w1;
     ch \<leftarrow> w_chan w c;
     w \<leftarrow> ?disc (pending_req ch) (\<lambda>ch. ch\<lparr>pending_req := None\<rparr>) w;
     ch \<leftarrow> w_chan w c;
     w \<leftarrow> ?disc (pending_ind ch) (\<lambda>ch. ch\<lparr>pending_ind := None\<rparr>) w;
     w \<leftarrow> bt_att_chan_free E c w;
     ?tail w }"
  proof -
    have u: "upd_att (\<lambda>a. a\<lparr>chans := remove1 c (chans a)\<rparr>) w = Some ?w1" by (simp add: upd_att_def a(1))
    show ?thesis
      unfolding disconnect_cb_def ch bind.bind_lunit Let_def err_def [symmetric] u by (rule refl)
  qed
  have main: "ensures (?tail w5) att_inv"
    if r: "runs ?w1 w5" and c5: "\<And>t i. (t, c, i) \<notin> set (w_timers w5)"
      for w5
  proof -
    obtain a5 where a5: "wf_with w5 a5" "a_ref_count ?a1 \<le> a_ref_count a5" "set (chans ?a1) \<subseteq> set (chans a5)"
      and tm: "\<And>t d i. (t, d, i) \<in> set (w_timers w5) \<Longrightarrow> (t, d, i) \<in> set (w_timers ?w1) \<or> d \<in> set (chans a5)"
      by (rule runsE [OF r w1(1)], rule that, assumption+)
    have "d \<in> set (chans a5)" if t: "(t, d, i) \<in> set (w_timers w5)" for t d i
    proof -
      have "d \<noteq> c" using t c5 by blast
      have "d \<in> set (chans ?a1)" if "d \<in> set (chans a)" using that \<open>d \<noteq> c\<close> by simp
      with tm [OF t] wf(3) [of t d i] a5(3) show ?thesis by auto
    qed
    moreover have ref: "1 \<le> a_ref_count a5" using a5(2) wf(2) by simp
    ultimately have i5: "att_inv w5" unfolding att_inv_def by (intro exI [of _ a5] conjI allI impI a5(1)) blast
    from last_disconnect [OF a5(1) ref, of err] have "ensures (?last w5) att_inv"
      by (rule ensures_mono) (rule att_inv_runs [OF i5])
    then show ?thesis using i5 wf_withD(1) [OF a5(1)] by simp
  qed
  show ?thesis
    unfolding eq
  proof (rule ensures_bindI [OF dr])
    fix w2 :: "'c world" assume k: "keeps {} ?w1 w2"
    let ?ch1 = "ch\<lparr>pending_req := None\<rparr>"
    have d2: "detached c ch w2" by (rule detached_keeps [OF w1(2) k])
    then have c2: "w_chan w2 c = Some ch" by (rule detachedE)
    have 1: "ensures (?disc (pending_req ch) (\<lambda>ch. ch\<lparr>pending_req := None\<rparr>) w2) (\<lambda>w'. detached c ?ch1 w' \<and> runs w2 w')"
      by (rule detached_disc [OF d2]) simp
    show "ensures (do { ch \<leftarrow> w_chan w2 c;
       w \<leftarrow> ?disc (pending_req ch) (\<lambda>ch. ch\<lparr>pending_req := None\<rparr>) w2;
       ch \<leftarrow> w_chan w c;
       w \<leftarrow> ?disc (pending_ind ch) (\<lambda>ch. ch\<lparr>pending_ind := None\<rparr>) w;
       w \<leftarrow> bt_att_chan_free E c w;
       ?tail w }) att_inv"
      unfolding c2 bind.bind_lunit
    proof (rule ensures_bindI [OF 1])
      fix w3 :: "'c world" assume 3: "detached c ?ch1 w3 \<and> runs w2 w3"
      have c3: "w_chan w3 c = Some ?ch1" by (rule detachedE [OF conjunct1 [OF 3]])
      let ?ch2 = "?ch1\<lparr>pending_ind := None\<rparr>"
      have 2: "ensures (?disc (pending_ind ?ch1) (\<lambda>ch. ch\<lparr>pending_ind := None\<rparr>) w3) (\<lambda>w'. detached c ?ch2 w' \<and> runs w3 w')"
        by (rule detached_disc [OF conjunct1 [OF 3]]) simp
      show "ensures (do { ch \<leftarrow> w_chan w3 c;
         w \<leftarrow> ?disc (pending_ind ch) (\<lambda>ch. ch\<lparr>pending_ind := None\<rparr>) w3;
         w \<leftarrow> bt_att_chan_free E c w;
         ?tail w }) att_inv"
        unfolding c3 bind.bind_lunit
      proof (rule ensures_bindI [OF 2])
        fix w4 :: "'c world" assume 4: "detached c ?ch2 w4 \<and> runs w3 w4"
        have r4: "runs ?w1 w4"
          using runs_trans [OF keeps_runs [OF k] runs_trans [OF conjunct2 [OF 3] conjunct2 [OF 4]]] .
        show "ensures (do { w \<leftarrow> bt_att_chan_free E c w4; ?tail w }) att_inv"
        proof (rule ensures_bindI [OF chan_free_detached [OF conjunct1 [OF 4]]])
          fix w5 :: "'c world" assume 5: "runs w4 w5 \<and> w_chan w5 c = None \<and> (\<forall>t i. (t, c, i) \<notin> set (w_timers w5)) \<and>
            (\<forall>a'. w_att w5 = Some a' \<longrightarrow> c \<notin> set (chans a'))"
          show "ensures (?tail w5) att_inv"
            by (rule main [OF runs_trans [OF r4 conjunct1 [OF 5]]]) (use 5 in blast)
        qed simp_all
      qed
    qed
  qed
qed

end

section \<open>Settings and channels\<close>

context att_client begin

lemma bt_att_set_security_keeps:
  assumes "wf w"
  shows "ensures (bt_att_set_security E att level w) (\<lambda>(r, w'). keeps {} w w')"
proof -
  obtain a where a: "wf_with w a" using assms by (auto simp: wf_def)
  have "ensures (bt_att_chan_set_security E c level w) (\<lambda>(r, w'). keeps {} w w')" if c: "c \<in> set (chans a)" for c
  proof -
    obtain ch where ch: "w_chan w c = Some ch" "chan_ok ch" using wf_with_chan [OF a c] by blast
    have "keeps {} w (set_chan c (ch\<lparr>ch_sec_level := level\<rparr>) w)"
      by (rule keeps_update_chan [OF a c ch(1)])
        (use ch wf_distinct_chan [OF a c ch(1)] in \<open>simp_all add: chan_ok_def sub_queue_refl\<close>)
    then show ?thesis using ch keeps_refl [OF assms] by (simp add: bt_att_chan_set_security_def)
  qed
  then show ?thesis
    using wf_withD(1) [OF a] keeps_refl [OF assms] by (simp add: bt_att_set_security_def)
qed

end

lemma handlers_ok_mono:
  assumes "handlers_ok w a" "w_next w \<le> w_next w'" "notify_list a' = notify_list a" "disconn_list a' = disconn_list a"
  shows "handlers_ok w' a'"
  using assms unfolding handlers_ok_def by (auto intro: less_le_trans)

lemma bt_att_set_mtu_keeps:
  assumes "wf w"
  shows "ensures (bt_att_set_mtu att mtu w) (\<lambda>(r, w'). keeps {} w w')"
proof (cases "att = None \<or> mtu < BT_ATT_DEFAULT_LE_MTU")
  case True then show ?thesis using keeps_refl [OF assms] by (auto simp: bt_att_set_mtu_def split: option.split)
next
  case False
  obtain a where a: "wf_with w a" using assms by (auto simp: wf_def)
  show ?thesis
  proof (cases "chans a = []")
    case True
    then show ?thesis
      using False keeps_refl [OF assms] wf_withD(1) [OF a] by (auto simp: bt_att_set_mtu_def)
  next
    case ne: False
    define c where "c = last (chans a)"
    have c: "c \<in> set (chans a)" using ne by (simp add: c_def)
    obtain ch where ch: "w_chan w c = Some ch" "chan_ok ch" using wf_with_chan [OF a c] by blast
    let ?ch = "ch\<lparr>ch_mtu := mtu, ch_buf_at := w_next w, ch_buf := fresh (unat mtu)\<rparr>"
    let ?w1 = "set_chan c ?ch w"
    let ?a = "if mtu > a_mtu a then a\<lparr>a_mtu := mtu\<rparr> else a"
    have k1: "keeps {} w ?w1" and w1: "wf_with ?w1 a"
      using keeps_update_chan [OF a c ch(1), of ?ch] wf_update_chan [OF a c ch(1), of ?ch] ch(2) False
        wf_distinct_chan [OF a c ch(1)] by (simp_all add: chan_ok_def sub_queue_refl not_less)
    have k2: "keeps {} ?w1 (set_att ?a ?w1)" and w2: "wf_with (set_att ?a ?w1) ?a"
      using wf_att_misc [OF w1, of "a\<lparr>a_mtu := mtu\<rparr>"] wf_att_misc [OF w1, of a] wf_withD(6,7) [OF w1]
      by (cases "mtu > a_mtu a"; simp add: keys_ok_def handlers_ok_def)+
    have h: "keys_ok ?a" "handlers_ok ((set_att ?a ?w1)\<lparr>w_next := Suc (w_next (set_att ?a ?w1))\<rparr>) ?a"
      using wf_withD(6) [OF w2] by (simp_all add: handlers_ok_mono [OF wf_withD(7) [OF w2]])
    have k3: "keeps {} (set_att ?a ?w1) ((set_att ?a (set_att ?a ?w1))\<lparr>w_next := Suc (w_next (set_att ?a ?w1))\<rparr>)"
      by (rule wf_next [OF w2 _ _ _ _ _ _ h]) simp_all
    have eq: "bt_att_set_mtu att mtu w = Some (True, (set_att ?a (set_att ?a ?w1))\<lparr>w_next := Suc (w_next (set_att ?a ?w1))\<rparr>)"
      using False ne ch(1) wf_withD(1) [OF a]
      by (auto simp: bt_att_set_mtu_def upd_chan_def upd_att_def c_def [symmetric] set_chan_def set_att_def)
    show ?thesis unfolding eq using keeps_trans0 [OF keeps_trans0 [OF k1 k2] k3] by simp
  qed
qed

lemma set_key_keeps:
  assumes "wf w" "16 \<le> length key"
  shows "ensures (bt_att_set_local_key att key f ud w) (\<lambda>(r, w'). keeps {} w w')"
    "ensures (bt_att_set_remote_key att key f ud w) (\<lambda>(r, w'). keeps {} w w')"
proof -
  obtain a where a: "wf_with w a" using assms(1) by (auto simp: wf_def)
  note h = wf_withD(6,7) [OF a]
  define s where "s = \<lparr>s_key = take 16 key, s_counter = f, s_user_data = ud\<rparr>"
  have sk: "sign_set_key x key f ud = Some s" for x
    using assms(2) by (simp add: sign_set_key_def rd_bytes_def s_def)
  have k: "keeps {} w (set_att (a\<lparr>local_sign := Some s\<rparr>) w)" "keeps {} w (set_att (a\<lparr>remote_sign := Some s\<rparr>) w)"
    using h assms(2) by (auto intro!: wf_att_misc(2) [OF a] simp: keys_ok_def handlers_ok_def s_def)
  show "ensures (bt_att_set_local_key att key f ud w) (\<lambda>(r, w'). keeps {} w w')"
    using k(1) wf_withD(1) [OF a] keeps_refl [OF assms(1)] by (cases att) (simp_all add: bt_att_set_local_key_def sk)
  show "ensures (bt_att_set_remote_key att key f ud w) (\<lambda>(r, w'). keeps {} w w')"
    using k(2) wf_withD(1) [OF a] keeps_refl [OF assms(1)] by (cases att) (simp_all add: bt_att_set_remote_key_def sk)
qed

lemma set_enc_key_size_keeps: "wf w \<Longrightarrow> ensures (bt_att_set_enc_key_size att n w) (keeps {} w)"
proof -
  assume w: "wf w"
  then obtain a where a: "wf_with w a" by (auto simp: wf_def)
  have "keeps {} w (set_att (a\<lparr>enc_size := n\<rparr>) w)"
    using wf_withD(6,7) [OF a] by (auto intro!: wf_att_misc(2) [OF a] simp: keys_ok_def handlers_ok_def)
  then show ?thesis
    using keeps_refl [OF w] wf_withD(1) [OF a] by (cases att) (simp_all add: bt_att_set_enc_key_size_def upd_att_def)
qed

lemma set_close_loop_keeps:
  "wf_with w a \<Longrightarrow> set cs \<subseteq> set (chans a) \<Longrightarrow> ensures (set_close_loop S b cs w) (\<lambda>(r, w'). keeps {} w w')"
proof (induction cs arbitrary: w)
  case Nil then show ?case using keeps_refl [OF wf_withI] by simp
next
  case (Cons c cs)
  have c: "c \<in> set (chans a)" using Cons.prems(2) by simp
  obtain ch where ch: "w_chan w c = Some ch" "chan_ok ch" using wf_with_chan [OF Cons.prems(1) c] by blast
  let ?w1 = "set_chan c (ch\<lparr>ch_io_close := b\<rparr>) w"
  have k: "keeps {} w ?w1" and w1: "wf_with ?w1 a"
    using keeps_update_chan [OF Cons.prems(1) c ch(1), of "ch\<lparr>ch_io_close := b\<rparr>"]
      wf_update_chan [OF Cons.prems(1) c ch(1), of "ch\<lparr>ch_io_close := b\<rparr>"] ch(2)
      wf_distinct_chan [OF Cons.prems(1) c ch(1)] by (simp_all add: chan_ok_def sub_queue_refl)
  have "ensures (set_close_loop S b cs ?w1) (\<lambda>(r, w'). keeps {} w w')"
    by (rule ensures_mono [OF Cons.IH [OF w1]]) (use Cons.prems(2) k keeps_trans0 in auto)
  then show ?case using ch(1) keeps_refl [OF wf_withI [OF Cons.prems(1)]] by simp
qed

lemma bt_att_set_close_on_unref_keeps:
  assumes "wf w"
  shows "ensures (bt_att_set_close_on_unref S att b w) (\<lambda>(r, w'). keeps {} w w')"
proof (cases att)
  case None then show ?thesis using keeps_refl [OF assms] by (simp add: bt_att_set_close_on_unref_def)
next
  case (Some u)
  obtain a where a: "wf_with w a" using assms by (auto simp: wf_def)
  let ?a = "a\<lparr>close_on_unref := b\<rparr>"
  have k: "keeps {} w (set_att ?a w)" and w1: "wf_with (set_att ?a w) ?a"
    using wf_att_misc [OF a, of ?a] wf_withD(6,7) [OF a] by (simp_all add: keys_ok_def handlers_ok_def)
  have "ensures (set_close_loop S b (chans ?a) (set_att ?a w)) (\<lambda>(r, w'). keeps {} w w')"
    by (rule ensures_mono [OF set_close_loop_keeps [OF w1 order_refl]]) (use k keeps_trans0 in auto)
  then show ?thesis using Some wf_withD(1) [OF a] by (simp add: bt_att_set_close_on_unref_def upd_att_def)
qed

text \<open>A channel that is new, with nothing in it.\<close>

definition new_chan :: "bt_att_chan \<Rightarrow> bool" where
  "new_chan ch \<longleftrightarrow> ch_queue ch = [] \<and> pending_req ch = None \<and> pending_ind ch = None \<and>
     length (ch_buf ch) = unat (ch_mtu ch) \<and> BT_ATT_DEFAULT_LE_MTU \<le> ch_mtu ch"

definition initial_chan :: "int \<Rightarrow> u8 \<Rightarrow> u16 \<Rightarrow> nat \<Rightarrow> bt_att_chan" where
  "initial_chan fd type mtu at = \<lparr>ch_att = False, ch_fd = fd, ch_type = type,
     ch_sec_level = (if type = BT_ATT_LOCAL then BT_ATT_SECURITY_LOW else BT_ATT_SECURITY_AUTO),
     ch_queue = [], pending_req = None, pending_ind = None, writer_active = False, in_req = False,
     ch_buf_at = at, ch_buf = fresh (unat mtu), ch_mtu = mtu, ch_io_shut = False, ch_io_close = False\<rparr>"

lemma chan_new_ok:
  assumes "bt_att_chan_new S fd type w = (Some c, w')"
  shows "c = w_next w" "\<exists>ch. new_chan ch \<and> w' = (set_chan c ch w)\<lparr>w_next := w_next w + 2\<rparr>"
proof -
  let ?mtu = "if type = BT_ATT_LOCAL \<or> type = BT_ATT_LE then BT_ATT_DEFAULT_LE_MTU else io_get_mtu S fd"
  have *: "c = w_next w" "BT_ATT_DEFAULT_LE_MTU \<le> ?mtu"
    "w' = (set_chan c (initial_chan fd type ?mtu (Suc (w_next w))) w)\<lparr>w_next := w_next w + 2\<rparr>"
    using assms by (auto simp: bt_att_chan_new_def Let_def initial_chan_def split: if_splits)
  show "c = w_next w" by (rule *(1))
  have "new_chan (initial_chan fd type ?mtu (Suc (w_next w)))"
    using *(2) by (simp add: new_chan_def initial_chan_def)
  with *(3) show "\<exists>ch. new_chan ch \<and> w' = (set_chan c ch w)\<lparr>w_next := w_next w + 2\<rparr>" by blast
qed

lemma chan_new_fail: "bt_att_chan_new S fd type w = (None, w') \<Longrightarrow> w' = w"
  by (auto simp: bt_att_chan_new_def Let_def split: if_splits)

lemma wf_two_addresses:
  assumes "wf_with w a" "c = w_next w"
  shows "wf_with ((set_chan c ch w)\<lparr>w_next := w_next w + 2\<rparr>) a"
    "keeps {} w ((set_chan c ch w)\<lparr>w_next := w_next w + 2\<rparr>)" "c \<notin> set (chans a)"
proof -
  let ?w = "(set_chan c ch w)\<lparr>w_next := w_next w + 2\<rparr>"
  show cn: "c \<notin> set (chans a)"
    using wf_with_chan [OF assms(1)] wf_live_chan [OF assms(1)] assms(2) by blast
  have ne: "d \<noteq> c" if "d \<in> set (chans a)" for d using that cn by blast
  have pl: "place_ops ?w a = place_ops w a" using place_ops_other_chan [OF cn] by simp
  have h: "handlers_ok ?w a" by (rule handlers_ok_mono [OF wf_withD(7) [OF assms(1)]]) (simp_all add: set_chan_def)
  show wf: "wf_with ?w a"
    using wf_withD [OF assms(1)] ne pl h assms(2)
    by (auto simp: wf_with_def chans_ok_def timers_ok_def fresh_ok_def set_chan_def)
  have sp: "same_pend w ?w d" if "d \<in> set (chans a)" for d
    using same_pend_refl [OF assms(1) that] ne [OF that] by (simp add: same_pend_def set_chan_def)
  have "frame_att {} w a ?w a"
    unfolding frame_att_def pl using wf_withD(1) [OF assms(1)] sp assms(2) by (simp add: set_chan_def)
  then show "keeps {} w ?w" by (rule keepsI [OF wf])
qed

lemma attach_chan_keeps:
  assumes wf: "wf_with w a" and c: "c \<notin> set (chans a)" "w_chan w c = Some ch" "new_chan ch"
    and tm: "\<And>t i. (t, c, i) \<notin> set (w_timers w)" and n0: "wf_with w0 a" "keeps {} w0 w" "w_next w0 \<le> c"
  shows "ensures (bt_att_attach_chan E c w) (keeps {} w0)"
proof -
  let ?ch = "ch\<lparr>ch_att := True, ch_io_close := close_on_unref a\<rparr>"
  let ?a = "(if ch_mtu ch > a_mtu a then a\<lparr>a_mtu := ch_mtu ch\<rparr> else a)\<lparr>chans := c # chans a\<rparr>"
  let ?w = "set_att ?a (set_chan c ?ch w)"
  have ok: "chan_ok ?ch" using c(3) by (simp add: chan_ok_def new_chan_def)
  have pl: "place_ops ?w ?a = place_ops w a"
  proof
    fix pl show "place_ops ?w ?a pl = place_ops w a pl"
      using c by (cases pl) (auto simp: on_chan_def set_chan_def new_chan_def)
  qed
  have lt: "c < w_next w" using wf_live_chan [OF wf c(2)] .
  have o: "ops_ok (w_op ?w) (a_mtu ?a) (place_ops ?w ?a)"
    unfolding pl by (cases "ch_mtu ch > a_mtu a") (use ops_ok_mtu [OF wf_withD(3) [OF wf]] in \<open>simp_all add: set_chan_def set_att_def\<close>)
  have co: "chans_ok ?w ?a"
    using wf_withD(2) [OF wf] ok c(1) by (auto simp: chans_ok_def set_chan_def)
  have t: "timers_ok ?w ?a"
    unfolding timers_ok_def
  proof (intro conjI allI impI)
    fix t d i assume t: "(t, d, i) \<in> set (w_timers ?w)" and d: "d \<in> set (chans ?a)"
    have dc: "d \<noteq> c" using t tm by auto
    then have "d \<in> set (chans a)" using d by simp
    then obtain ch' where ch': "w_chan w d = Some ch'" using wf_with_chan [OF wf] by blast
    have "(t, d, i) \<in> set (w_timers w)" using t by simp
    from wf_timer_of [OF wf \<open>d \<in> set (chans a)\<close> ch' this]
    obtain p op where "p \<in> pend ch'" "w_op w p = Some op" "op_timeout_id op = t" "op_id op = i" by blast
    with ch' dc show "\<exists>ch p op. w_chan ?w d = Some ch \<and> p \<in> pend ch \<and> w_op ?w p = Some op \<and>
      op_timeout_id op = t \<and> op_id op = i"
      by (intro exI [of _ ch'] exI [of _ p] exI [of _ op]) (simp add: set_chan_def)
  qed (use wf_withD(4) [OF wf] in \<open>simp_all add: timers_ok_def\<close>)
  have f: "fresh_ok ?w" using wf_withD(5) [OF wf] lt by (auto simp: fresh_ok_def set_chan_def)
  have k: "keys_ok ?a" "handlers_ok ?w ?a"
    using wf_withD(6,7) [OF wf] by (auto simp: keys_ok_def handlers_ok_def)
  have wf1: "wf_with ?w ?a" using o co t f k by (simp add: wf_with_def)
  obtain a' where "wf_with w a'" "frame_att {} w0 a w a'" using keepsE [OF n0(2,1)] by blast
  then have fr: "frame_att {} w0 a w a" using wf_withD(1) [OF wf] by (metis option.inject wf_withD(1))
  note fd = frame_attD [OF fr]
  have sp: "same_pend w0 ?w d" if "d \<in> set (chans a)" for d
    using conjunct2 [OF fd(8) [OF that]] that c(1) by (auto simp: same_pend_def set_chan_def)
  have "frame_att {} w0 a ?w ?a"
    unfolding frame_att_def pl using fd(1-7) sp n0(3) by (auto simp: set_chan_def)
  then have k0: "keeps {} w0 ?w" by (rule keepsI [OF wf1])
  have eq: "bt_att_attach_chan E c w = wakeup_chan_writer E c ?w"
    using wf_withD(1) [OF wf] c(2)
    by (cases "a_mtu a < ch_mtu ch") (simp add: bt_att_attach_chan_def upd_att_def upd_chan_def;
        rule arg_cong [where f = "wakeup_chan_writer E c"]; simp add: set_att_def set_chan_def)+
  have "c \<in> set (chans ?a)" by simp
  from wakeup_chan_writer_keeps [OF wf1 this, of E] show ?thesis
    unfolding eq by (rule ensures_mono) (blast intro: keeps_trans0 [OF k0])
qed

lemma bt_att_attach_fd_keeps:
  assumes "wf w" and tm: "\<And>t c i. (t, c, i) \<in> set (w_timers w) \<Longrightarrow> c < w_next w"
  shows "ensures (bt_att_attach_fd E S att fd w) (\<lambda>(r, w'). keeps {} w w')"
proof (cases "att = None \<or> fd < 0")
  case True then show ?thesis using keeps_refl [OF assms(1)] by (auto simp: bt_att_attach_fd_def)
next
  case False
  obtain a where a: "wf_with w a" using assms(1) by (auto simp: wf_def)
  obtain x w1 where n: "bt_att_chan_new S fd BT_ATT_EATT w = (x, w1)" by force
  show ?thesis
  proof (cases x)
    case None
    then show ?thesis using False n chan_new_fail [OF n [unfolded None]] keeps_refl [OF assms(1)]
      by (simp add: bt_att_attach_fd_def)
  next
    case (Some c)
    note cn = chan_new_ok [OF n [unfolded Some]]
    obtain ch where ch: "new_chan ch" "w1 = (set_chan c ch w)\<lparr>w_next := w_next w + 2\<rparr>" using cn(2) by blast
    note w1 = wf_two_addresses(1,2) [OF a cn(1), of ch, folded ch(2)] wf_two_addresses(3) [OF a cn(1)]
    have "ensures (bt_att_attach_chan E c w1) (keeps {} w)"
    proof (rule attach_chan_keeps [OF w1(1,3) _ ch(1)])
      show "w_chan w1 c = Some ch" using ch(2) by simp
      show "(t, c, i) \<notin> set (w_timers w1)" for t i using tm [of t c i] cn(1) ch(2) by auto
      show "wf_with w a" by (rule a)
      show "keeps {} w w1" by (rule w1(2))
    qed (simp add: cn(1))
    then show ?thesis using False n Some by (simp add: bt_att_attach_fd_def)
  qed
qed

end
