(* ===== verification/AttLink.thy ===== *)
theory AttLink
  imports AttEvents
begin

text \<open>
  A bearer with one channel that serves one request after the other: what sending a request, writing it
  and reading its response do to the queues, to the pending request and to the state of the client, for an
  arbitrary client.
\<close>

text \<open>A bearer with one channel.\<close>

definition link :: "u16 \<Rightarrow> int \<Rightarrow> nat \<Rightarrow> int \<Rightarrow> nat list \<Rightarrow> nat option \<Rightarrow> 'c world \<Rightarrow> bool" where
  "link m r c fd q x w \<longleftrightarrow> (\<exists>a ch. w_att w = Some a \<and> chans a = [c] \<and> req_queue a = q \<and> ind_queue a = [] \<and> write_queue a = [] \<and>
     a_mtu a = m \<and> local_sign a = None \<and> a_ref_count a = r \<and>
     w_chan w c = Some ch \<and> ch_queue ch = [] \<and> pending_req ch = x \<and> pending_ind ch = None \<and> ch_mtu ch = m \<and> ch_fd ch = fd \<and>
     length (ch_buf ch) = unat m)"

lemma linkE:
  assumes "link m r c fd q x w"
  obtains a ch where "w_att w = Some a" "chans a = [c]" "req_queue a = q" "ind_queue a = []" "write_queue a = []"
    "a_mtu a = m" "local_sign a = None" "a_ref_count a = r" "w_chan w c = Some ch" "ch_queue ch = []" "pending_req ch = x"
    "pending_ind ch = None" "ch_mtu ch = m" "ch_fd ch = fd" "length (ch_buf ch) = unat m"
  using assms unfolding link_def by blast

lemma link_simps [simp]:
  "link m r c fd q x (w\<lparr>w_calls := cs\<rparr>) = link m r c fd q x w"
  "link m r c fd q x (w\<lparr>w_timers := ts\<rparr>) = link m r c fd q x w"
  "link m r c fd q x (w\<lparr>w_user := u\<rparr>) = link m r c fd q x w"
  "link m r c fd q x (w\<lparr>w_op := h\<rparr>) = link m r c fd q x w"
  "link m r c fd q x (w\<lparr>w_wire := l\<rparr>) = link m r c fd q x w"
  "link m r c fd q x (w\<lparr>w_next := n\<rparr>) = link m r c fd q x w"
  by (simp_all add: link_def)

lemma set_user [simp]:
  "w_user (set_att a w) = w_user w" "w_user (set_chan c ch w) = w_user w" "w_user (set_op p op w) = w_user w"
  "w_calls (set_att a w) = w_calls w" "w_calls (set_chan c ch w) = w_calls w" "w_calls (set_op p op w) = w_calls w"
  "w_wire (set_att a w) = w_wire w" "w_wire (set_chan c ch w) = w_wire w" "w_wire (set_op p op w) = w_wire w"
  by (simp_all add: set_att_def set_chan_def set_op_def)

text \<open>What stays: everything but the bearer's own objects.\<close>

definition same_client :: "'c world \<Rightarrow> 'c world \<Rightarrow> bool" where
  "same_client w w' \<longleftrightarrow> w_user w' = w_user w \<and> w_calls w' = w_calls w"

lemma link_wakeup:
  assumes "link m r c fd q x w"
  shows "\<exists>w'. wakeup_chan_writer E c w = Some w' \<and> link m r c fd q x w' \<and> same_client w w' \<and> w_op w' = w_op w \<and>
    w_wire w' = w_wire w \<and> w_next w' = w_next w \<and> w_timers w' = w_timers w"
proof -
  obtain a ch where l: "w_att w = Some a" "chans a = [c]" "req_queue a = q" "ind_queue a = []" "write_queue a = []"
    "a_mtu a = m" "local_sign a = None" "a_ref_count a = r" "w_chan w c = Some ch" "ch_queue ch = []" "pending_req ch = x"
    "pending_ind ch = None" "ch_mtu ch = m" "ch_fd ch = fd" "length (ch_buf ch) = unat m" by (rule linkE [OF assms])
  have "link m r c fd q x (set_chan c (ch\<lparr>writer_active := True\<rparr>) w)"
    using l unfolding link_def set_chan_def by fastforce
  moreover have "wakeup_chan_writer E c w = Some w \<or>
      wakeup_chan_writer E c w = Some (set_chan c (ch\<lparr>writer_active := True\<rparr>) w)"
    using l(1,9) by (simp add: wakeup_chan_writer_def)
  ultimately show ?thesis using assms by (auto simp: same_client_def set_chan_def)
qed

lemma link_send:
  assumes "link m r c fd [] x w" "get_op_type opcode = ATT_OP_TYPE_REQ"
    and "len \<noteq> 0" "unat len \<le> length pdu" "unat len < unat m"
  shows "\<exists>i w' op. bt_att_send E (Some ()) opcode (Some pdu) len (Some f) ud d w = Some (i, w') \<and> i \<noteq> 0 \<and>
    link m r c fd [w_next w] x w' \<and> same_client w w' \<and> w_wire w' = w_wire w \<and> w_next w' = Suc (w_next w) \<and>
    (\<forall>p. p \<noteq> w_next w \<longrightarrow> w_op w' p = w_op w p) \<and>
    w_op w' (w_next w) = Some op \<and> op_type op = ATT_OP_TYPE_REQ \<and> op_opcode op = opcode \<and>
    op_pdu op = opcode # take (unat len) pdu \<and> op_len op = len + 1 \<and> op_callback op = Some f \<and> op_destroy op = d \<and>
    op_user_data op = ud"
proof -
  obtain a ch where l: "w_att w = Some a" "chans a = [c]" "req_queue a = []" "ind_queue a = []" "write_queue a = []"
    "a_mtu a = m" "local_sign a = None" "a_ref_count a = r" "w_chan w c = Some ch" "ch_queue ch = []" "pending_req ch = x"
    "pending_ind ch = None" "ch_mtu ch = m" "ch_fd ch = fd" "length (ch_buf ch) = unat m" by (rule linkE [OF assms(1)])
  have u: "unat (1 + len) = Suc (unat len)"
    using assms(5) unat_u16_le [of m] by (simp add: unat_word_ariths)
  then have le: "\<not> m < 1 + len" using assms(5) by (simp add: word_less_nat_alt)
  have gt: "1 < 1 + len" using u assms(3) by (simp add: word_less_nat_alt unat_gt_0)
  have e: "encode_pdu E a opcode (Some pdu) len = Some (Some (opcode # take (unat len) pdu, 1 + len))"
    using l(6,7) le gt assms(3,4) u
    by (simp add: encode_pdu_def Let_def wr8_def fresh_def memcpy_def rd_bytes_def wr_bytes_def)
  let ?i = "fix_id (next_send_id a)"
  have i0: "?i \<noteq> 0" by (simp add: fix_id_def) 
  let ?op = "\<lparr>op_id = ?i, op_timeout_id = 0, op_type = ATT_OP_TYPE_REQ, op_opcode = opcode,
      op_pdu = opcode # take (unat len) pdu, op_len = 1 + len, op_callback = Some f, op_destroy = d, op_user_data = ud\<rparr>"
  let ?w1 = "set_att (a\<lparr>next_send_id := ?i + 1, req_queue := [w_next w]\<rparr>) (w\<lparr>w_next := Suc (w_next w), w_op := (w_op w)(w_next w := Some ?op)\<rparr>)"
  have l1: "link m r c fd [w_next w] x ?w1" using l unfolding link_def set_att_def by simp
  obtain w' where w': "wakeup_chan_writer E c ?w1 = Some w'" "link m r c fd [w_next w] x w'" "same_client ?w1 w'"
    "w_op w' = w_op ?w1" "w_wire w' = w_wire ?w1" "w_next w' = w_next ?w1" using link_wakeup [OF l1] by blast
  have "bt_att_send E (Some ()) opcode (Some pdu) len (Some f) ud d w = Some (?i, w')"
    using l e assms(2) w'(1,4)
    by (simp add: bt_att_send_def create_att_send_op_def new_op_def upd_op_def set_op_def wakeup_writer_def set_att_def Let_def)
  then show ?thesis using w' i0 by (simp add: same_client_def set_att_def add.commute)
qed
lemma link_write:
  assumes "link m r c fd [p] None w" "w_op w p = Some op" "op_type op = ATT_OP_TYPE_REQ" "op_len op \<le> m"
    and "unat (op_len op) = length (op_pdu op)" "io_send E fd (op_pdu op) \<noteq> 0"
  shows "\<exists>w' t. can_write_data E c w = Some (True, w') \<and> link m r c fd [] (Some p) w' \<and> same_client w w' \<and>
    w_wire w' = w_wire w @ [(fd, op_pdu op, io_send E fd (op_pdu op))] \<and> w_next w' = w_next w \<and>
    w_op w' = (w_op w)(p := Some (op\<lparr>op_timeout_id := t\<rparr>))"
proof -
  obtain a ch where l: "w_att w = Some a" "chans a = [c]" "req_queue a = [p]" "ind_queue a = []" "write_queue a = []"
    "a_mtu a = m" "local_sign a = None" "a_ref_count a = r" "w_chan w c = Some ch" "ch_queue ch = []" "pending_req ch = None"
    "pending_ind ch = None" "ch_mtu ch = m" "ch_fd ch = fd" "length (ch_buf ch) = unat m" by (rule linkE [OF assms(1)])
  let ?w1 = "set_att (a\<lparr>req_queue := []\<rparr>) w"
  have pick: "pick_next_send_op c w = Some (Some p, ?w1)"
    using l assms(2,4) by (simp add: pick_next_send_op_def head_fits_def)
  let ?w2 = "?w1\<lparr>w_wire := w_wire w @ [(fd, op_pdu op, io_send E fd (op_pdu op))]\<rparr>"
  let ?w3 = "set_chan c (ch\<lparr>pending_req := Some p\<rparr>) ?w2"
  let ?t = "timeout_add E ?w3"
  let ?w4 = "set_op p (op\<lparr>op_timeout_id := ?t\<rparr>) (?w3\<lparr>w_timers := w_timers w @ [(?t, c, op_id op)]\<rparr>)"
  have "can_write_data E c w = Some (True, ?w4)"
    using pick l assms(2,3,5,6)
    by (simp add: Let_def can_write_data_def bt_att_chan_write_def rd_bytes_def upd_chan_def upd_op_def Let_def)
  moreover have "link m r c fd [] (Some p) ?w4"
    using l unfolding link_def set_att_def set_chan_def set_op_def by simp
  ultimately show ?thesis using assms(2) by (simp add: same_client_def set_att_def set_chan_def set_op_def) blast
qed

lemma link_response:
  assumes "link m r c fd [] (Some p) w" "0 < r" "w_op w p = Some op"
    and "op_callback op = Some f" "op_destroy op = Some d" "op_opcode op \<noteq> 0"
    and "k_read E fd m = Some (opcode # pdu)" "length pdu < unat m"
    and "get_op_type opcode = ATT_OP_TYPE_RSP" "opcode \<noteq> BT_ATT_OP_ERROR_RSP" "get_req_opcode opcode = op_opcode op"
    and resp: "\<And>w1. link m (r + 1) c fd [] (Some p) w1 \<Longrightarrow> w_user w1 = w_user w \<Longrightarrow> w_op w1 = w_op w \<Longrightarrow>
        w_wire w1 = w_wire w \<Longrightarrow> w_next w1 = w_next w \<Longrightarrow>
        \<exists>w2. client E (CallResponse f opcode pdu (op_user_data op)) w1 = Some w2 \<and> link m (r + 1) c fd q (Some p) w2 \<and>
          w_op w2 p = Some op \<and> w_wire w2 = w_wire w \<and> R (w_user w2) (w_op w2) (w_next w2)"
    and dest: "\<And>w3. link m (r + 1) c fd q (Some p) w3 \<Longrightarrow> R (w_user w3) (w_op w3) (w_next w3) \<Longrightarrow>
        \<exists>w4. client E (CallDestroy d (op_user_data op)) w3 = Some w4 \<and> link m (r + 1) c fd q (Some p) w4 \<and>
          w_op w4 = w_op w3 \<and> w_wire w4 = w_wire w3 \<and> w_next w4 = w_next w3 \<and> Q (w_user w4) (w_op w4) (w_next w4)"
  shows "\<exists>w' u h n. can_read_data E c w = Some (True, w') \<and> link m r c fd q None w' \<and> w_wire w' = w_wire w \<and>
    w_op w' = h(p := None) \<and> w_user w' = u \<and> w_next w' = n \<and> Q u h n"
proof -
  obtain a ch where l: "w_att w = Some a" "chans a = [c]" "req_queue a = []" "ind_queue a = []" "write_queue a = []"
    "a_mtu a = m" "local_sign a = None" "a_ref_count a = r" "w_chan w c = Some ch" "ch_queue ch = []" "pending_req ch = Some p"
    "pending_ind ch = None" "ch_mtu ch = m" "ch_fd ch = fd" "length (ch_buf ch) = unat m" by (rule linkE [OF assms(1)])
  obtain b where b: "wr_bytes (ch_buf ch) 0 (opcode # pdu) = Some b" using l(15) assms(8) by (auto simp: wr_bytes_def)
  then have lb: "length b = unat m" using l(15) wr_bytes_length by fastforce
  let ?w0 = "set_att (a\<lparr>a_ref_count := r + 1\<rparr>) (set_chan c (ch\<lparr>ch_buf := b\<rparr>) w)"
  let ?log = "\<lambda>e w. w\<lparr>w_calls := w_calls w @ [e]\<rparr>"
  let ?c1 = "CallResponse f opcode pdu (op_user_data op)" and ?c2 = "CallDestroy d (op_user_data op)"
  have "link m (r + 1) c fd [] (Some p) (?log ?c1 ?w0)"
    using l lb unfolding link_def set_att_def set_chan_def by simp
  from resp [OF this] obtain w2 where w2: "client E ?c1 (?log ?c1 ?w0) = Some w2" "link m (r + 1) c fd q (Some p) w2"
    "w_op w2 p = Some op" "w_wire w2 = w_wire w" "R (w_user w2) (w_op w2) (w_next w2)"
    by (auto simp: set_att_def set_chan_def)
  let ?w2' = "if op_timeout_id op \<noteq> 0 then timeout_remove (op_timeout_id op) w2 else w2"
  have "link m (r + 1) c fd q (Some p) (?log ?c2 ?w2') \<and> R (w_user (?log ?c2 ?w2')) (w_op (?log ?c2 ?w2')) (w_next (?log ?c2 ?w2'))"
    using w2 by (simp add: timeout_remove_def)
  from dest [OF conjunct1 [OF this] conjunct2 [OF this]] obtain w4 where w4: "client E ?c2 (?log ?c2 ?w2') = Some w4"
    "link m (r + 1) c fd q (Some p) w4" "w_op w4 = w_op w2" "w_wire w4 = w_wire w2" "w_next w4 = w_next w2"
    "Q (w_user w4) (w_op w4) (w_next w4)" using w2(3) by (auto simp: timeout_remove_def split: if_splits)
  obtain a' ch' where l': "w_att w4 = Some a'" "chans a' = [c]" "req_queue a' = q" "ind_queue a' = []" "write_queue a' = []"
    "a_mtu a' = m" "local_sign a' = None" "a_ref_count a' = r + 1" "w_chan w4 c = Some ch'" "ch_queue ch' = []" "pending_req ch' = Some p"
    "pending_ind ch' = None" "ch_mtu ch' = m" "ch_fd ch' = fd" "length (ch_buf ch') = unat m" by (rule linkE [OF w4(2)])
  let ?w5 = "set_chan c (ch'\<lparr>pending_req := None\<rparr>) (w4\<lparr>w_op := (w_op w4)(p := None)\<rparr>)"
  have "link m (r + 1) c fd q None ?w5" using l' unfolding link_def set_chan_def by simp
  from link_wakeup [OF this] obtain w6 where w6: "wakeup_chan_writer E c ?w5 = Some w6" "link m (r + 1) c fd q None w6"
    "same_client ?w5 w6" "w_op w6 = w_op ?w5" "w_wire w6 = w_wire ?w5" "w_next w6 = w_next ?w5" by blast
  obtain a6 where a6: "w_att w6 = Some a6" "a_ref_count a6 = r + 1" by (rule linkE [OF w6(2)])
  have "finish_req E c p opcode pdu ?w0 = Some w6"
    using l w2 w4 l'(9) w6(1) assms(3,4,5)
    by (simp add: finish_req_def call_if_def call_def destroy_att_send_op_def free_op_def upd_chan_def Let_def)
  then have "handle_rsp E c opcode pdu ?w0 = Some w6"
    using l assms(3,6,10,11) by (simp add: handle_rsp_def set_chan_def set_att_def)
  then have "can_read_data E c w = Some (True, set_att (a6\<lparr>a_ref_count := r\<rparr>) w6)"
    using l b assms(2,7,9) a6
    by (simp add: can_read_data_def bt_att_ref_def bt_att_unref_def upd_att_def)
  moreover have "link m r c fd q None (set_att (a6\<lparr>a_ref_count := r\<rparr>) w6)"
    using w6(2) a6 unfolding link_def set_att_def by auto
  ultimately show ?thesis using w4 w6 w2(4) by (auto simp: same_client_def set_att_def set_chan_def)
qed
end
