(* ===== verification/GAttrib.thy ===== *)
theory GAttrib
  imports AttStep
begin

text \<open>
  \<^verbatim>\<open>bluez/attrib/gattrib.c\<close>: the \<open>GAttrib\<close>, a client of the ATT bearer. It wraps each request and each
  handler of its own clients into a record \<open>attrib_callbacks\<close>, keeps these in a queue, remembers under
  which identifier the bearer knows a request, and releases a record when the bearer releases the
  operation or handler.

  The state of this layer is the component \<open>w_user\<close> of the bearer's state: the \<open>GAttrib\<close>
  (\<open>None\<close> once freed), the heaps of the two kinds of records, and the state of the layer above. The
  three functions that the bearer calls are the tokens \<open>attrib_callback_result_fn\<close>,
  \<open>attrib_callback_notify_fn\<close> and \<open>attrib_callbacks_remove_fn\<close>; \<open>gattrib_client\<close> says what a call of
  them runs. The functions that the layer above passes are tokens again; a call of one is recorded
  and runs \<open>upper\<close>. The \<open>GIOChannel\<close> is an object of GLib: the calls made on it are recorded. The
  debug output is left out, memory is never exhausted, and addresses are not used twice.
\<close>

section \<open>State\<close>

definition GATTRIB_ALL_REQS :: u8 where "GATTRIB_ALL_REQS = 0xFE"
definition GATTRIB_ALL_HANDLES :: u16 where "GATTRIB_ALL_HANDLES = 0x0000"

record id_pair =
  org_id :: u32
  pend_id :: u32

text \<open>The member \<open>parent\<close> always points to the one \<open>GAttrib\<close>.\<close>

record attrib_callbacks =
  cb_id :: "nat option"
  result_func :: "func option"
  notify_func :: "func option"
  destroy_func :: "func option"
  cb_user_data :: user
  notify_handle :: u16

record GAttrib =
  g_ref_count :: int
  g_att :: att_ptr
  g_io :: int
  g_destroy :: "func option"
  g_destroy_user_data :: user
  callbacks :: "nat list"
  g_buf :: buf
  g_buflen :: int
  track_ids :: "nat list"

type_synonym attrib_ptr = "unit option"

datatype gcall =
    GResult func u8 "u8 list" u16 user
  | GNotify func "u8 list" u16 user
  | GDestroy func user

text \<open>Calls on a channel, which is its descriptor.\<close>

datatype io_call = IoRef int | IoUnref int | IoKeepOpen int | IoShutdown int | IoWatch int

record 'u gstate =
  gs_attrib :: "GAttrib option"
  gs_cb :: "nat \<Rightarrow> attrib_callbacks option"
  gs_id :: "nat \<Rightarrow> id_pair option"
  gs_next :: nat
  gs_calls :: "gcall list"
  gs_io :: "io_call list"
  gs_user :: 'u

type_synonym 'u gworld = "'u gstate world"

text \<open>
  The environment: that of the bearer, what the layer above does when it is called, the sockets, what
  \<open>bt_crypto_new\<close> gives, \<open>bswap_128\<close> of libbluetooth, and the value that an uninitialised \<open>size_t\<close> has.
\<close>

record 'u genv =
  bearer :: "'u gstate env"
  upper :: "gcall \<Rightarrow> 'u gworld \<Rightarrow> 'u gworld option"
  sockets :: socket
  crypto_new :: "alg_kernel option"
  swap_128 :: "u8 list \<Rightarrow> u8 list"
  uninit_len :: u64

definition upd_gs :: "('u gstate \<Rightarrow> 'u gstate) \<Rightarrow> 'u gworld \<Rightarrow> 'u gworld" where
  "upd_gs f w = w\<lparr>w_user := f (w_user w)\<rparr>"

definition the_attrib :: "'u gworld \<Rightarrow> GAttrib option" where
  "the_attrib w = gs_attrib (w_user w)"

definition set_attrib :: "GAttrib \<Rightarrow> 'u gworld \<Rightarrow> 'u gworld" where
  "set_attrib g = upd_gs (\<lambda>s. s\<lparr>gs_attrib := Some g\<rparr>)"

definition upd_attrib :: "(GAttrib \<Rightarrow> GAttrib) \<Rightarrow> 'u gworld \<Rightarrow> 'u gworld option" where
  "upd_attrib f w = do { g \<leftarrow> the_attrib w; Some (set_attrib (f g) w) }"

definition cb_at :: "nat \<Rightarrow> 'u gworld \<Rightarrow> attrib_callbacks option" where
  "cb_at p w = gs_cb (w_user w) p"

definition set_cb :: "nat \<Rightarrow> attrib_callbacks \<Rightarrow> 'u gworld \<Rightarrow> 'u gworld" where
  "set_cb p cb = upd_gs (\<lambda>s. s\<lparr>gs_cb := (gs_cb s)(p := Some cb)\<rparr>)"

definition upd_cb :: "nat \<Rightarrow> (attrib_callbacks \<Rightarrow> attrib_callbacks) \<Rightarrow> 'u gworld \<Rightarrow> 'u gworld option" where
  "upd_cb p f w = do { cb \<leftarrow> cb_at p w; Some (set_cb p (f cb) w) }"

definition new_cb :: "attrib_callbacks \<Rightarrow> 'u gworld \<Rightarrow> nat \<times> 'u gworld" where
  "new_cb cb w = (let p = gs_next (w_user w) in (p, upd_gs (\<lambda>s. s\<lparr>gs_next := Suc p\<rparr>) (set_cb p cb w)))"

definition free_cb :: "nat \<Rightarrow> 'u gworld \<Rightarrow> 'u gworld option" where
  "free_cb p w = do { _ \<leftarrow> cb_at p w; Some (upd_gs (\<lambda>s. s\<lparr>gs_cb := (gs_cb s)(p := None)\<rparr>) w) }"

definition id_at :: "nat \<Rightarrow> 'u gworld \<Rightarrow> id_pair option" where
  "id_at p w = gs_id (w_user w) p"

definition new_id :: "id_pair \<Rightarrow> 'u gworld \<Rightarrow> nat \<times> 'u gworld" where
  "new_id x w = (let p = gs_next (w_user w) in
     (p, upd_gs (\<lambda>s. s\<lparr>gs_id := (gs_id s)(p := Some x), gs_next := Suc p\<rparr>) w))"

definition free_id :: "nat \<Rightarrow> 'u gworld \<Rightarrow> 'u gworld option" where
  "free_id p w = do { _ \<leftarrow> id_at p w; Some (upd_gs (\<lambda>s. s\<lparr>gs_id := (gs_id s)(p := None)\<rparr>) w) }"

definition io_channel :: "io_call \<Rightarrow> 'u gworld \<Rightarrow> 'u gworld" where
  "io_channel c = upd_gs (\<lambda>s. s\<lparr>gs_io := gs_io s @ [c]\<rparr>)"

text \<open>A call of the layer above, and one through a pointer that may be NULL.\<close>

definition call_upper :: "'u genv \<Rightarrow> gcall \<Rightarrow> 'u gworld \<Rightarrow> 'u gworld option" where
  "call_upper G c w = upper G c (upd_gs (\<lambda>s. s\<lparr>gs_calls := gs_calls s @ [c]\<rparr>) w)"

definition call_upper_if :: "'u genv \<Rightarrow> func option \<Rightarrow> (func \<Rightarrow> gcall) \<Rightarrow> 'u gworld \<Rightarrow> 'u gworld option" where
  "call_upper_if G f c w = (case f of None \<Rightarrow> Some w | Some f \<Rightarrow> call_upper G (c f) w)"

definition attrib_callback_result_fn :: func where "attrib_callback_result_fn = 1"
definition attrib_callback_notify_fn :: func where "attrib_callback_notify_fn = 2"
definition attrib_callbacks_remove_fn :: func where "attrib_callbacks_remove_fn = 3"

section \<open>Identifiers\<close>

text \<open>\<open>queue_remove_if (attrib->track_ids, find_with_org_id, id)\<close> reads every pair up to the first match.\<close>

definition find_with_org_id :: "id_pair \<Rightarrow> u32 \<Rightarrow> bool" where
  "find_with_org_id p orig_id \<longleftrightarrow> org_id p = orig_id"

fun remove_id :: "'u gworld \<Rightarrow> u32 \<Rightarrow> nat list \<Rightarrow> (nat option \<times> nat list) option" where
  "remove_id w i [] = Some (None, [])"
| "remove_id w i (p # ps) = do {
     x \<leftarrow> id_at p w;
     if find_with_org_id x i then Some (Some p, ps)
     else do { (r, ps) \<leftarrow> remove_id w i ps; Some (r, p # ps) } }"

definition store_id :: "u32 \<Rightarrow> u32 \<Rightarrow> 'u gworld \<Rightarrow> (nat \<times> 'u gworld) option" where
  "store_id org pend w = (let (t, w) = new_id \<lparr>org_id = org, pend_id = pend\<rparr> w in do {
     w \<leftarrow> upd_attrib (\<lambda>g. g\<lparr>track_ids := track_ids g @ [t]\<rparr>) w;
     Some (t, w) })"

section \<open>Life of a \<open>GAttrib\<close>\<close>

definition g_attrib_ref :: "attrib_ptr \<Rightarrow> 'u gworld \<Rightarrow> (attrib_ptr \<times> 'u gworld) option" where
  "g_attrib_ref attrib w = (case attrib of
     None \<Rightarrow> Some (None, w)
   | Some _ \<Rightarrow> do { w \<leftarrow> upd_attrib (\<lambda>g. g\<lparr>g_ref_count := g_ref_count g + 1\<rparr>) w; Some (attrib, w) })"

text \<open>The channel is its descriptor, or \<open>None\<close> for NULL.\<close>

definition g_attrib_new :: "'u genv \<Rightarrow> int option \<Rightarrow> u16 \<Rightarrow> bool \<Rightarrow> 'u gworld \<Rightarrow> (attrib_ptr \<times> 'u gworld) option" where
  "g_attrib_new G io mtu ext_signed w = (case io of
     None \<Rightarrow> Some (None, w)
   | Some fd \<Rightarrow> do {
       let w = io_channel (IoRef fd) w;
       (att, w) \<leftarrow> bt_att_new (bearer G) (sockets G) (crypto_new G) fd ext_signed w;
       (case att of
          None \<Rightarrow> Some (None, io_channel (IoUnref fd) w)
        | Some _ \<Rightarrow> do {
            (_, w) \<leftarrow> bt_att_set_close_on_unref (sockets G) att True w;
            let w = io_channel (IoKeepOpen fd) w;
            (ok, w) \<leftarrow> bt_att_set_mtu att mtu w;
            if \<not> ok then do {
              w \<leftarrow> bt_att_unref (bearer G) att w;
              Some (None, io_channel (IoUnref fd) w) }
            else g_attrib_ref (Some ()) (set_attrib
              \<lparr>g_ref_count = 0, g_att = att, g_io = fd, g_destroy = None, g_destroy_user_data = 0, callbacks = [],
               g_buf = replicate (unat mtu) 0, g_buflen = uint mtu, track_ids = []\<rparr> w) }) })"

text \<open>\<open>queue_remove (cb->parent->track_ids, cb->id)\<close>; there is no NULL in the queue.\<close>

definition attrib_callbacks_destroy :: "'u genv \<Rightarrow> nat \<Rightarrow> 'u gworld \<Rightarrow> 'u gworld option" where
  "attrib_callbacks_destroy G p w = do {
     cb \<leftarrow> cb_at p w;
     w \<leftarrow> call_upper_if G (destroy_func cb) (\<lambda>f. GDestroy f (cb_user_data cb)) w;
     cb \<leftarrow> cb_at p w;
     g \<leftarrow> the_attrib w;
     w \<leftarrow> (case cb_id cb of
       None \<Rightarrow> Some w
     | Some t \<Rightarrow>
         if t \<in> set (track_ids g) then free_id t (set_attrib (g\<lparr>track_ids := remove1 t (track_ids g)\<rparr>) w)
         else Some w);
     free_cb p w }"

definition attrib_callbacks_remove :: "'u genv \<Rightarrow> nat \<Rightarrow> 'u gworld \<Rightarrow> 'u gworld option" where
  "attrib_callbacks_remove G p w =
     (if p = 0 then Some w
      else do {
        _ \<leftarrow> cb_at p w;
        g \<leftarrow> the_attrib w;
        if p \<notin> set (callbacks g) then Some w
        else attrib_callbacks_destroy G p (set_attrib (g\<lparr>callbacks := remove1 p (callbacks g)\<rparr>) w) })"

text \<open>\<open>queue_destroy\<close> empties the queue before it releases the data.\<close>

definition g_attrib_unref :: "'u genv \<Rightarrow> attrib_ptr \<Rightarrow> 'u gworld \<Rightarrow> 'u gworld option" where
  "g_attrib_unref G attrib w = (case attrib of
     None \<Rightarrow> Some w
   | Some _ \<Rightarrow> do {
       w \<leftarrow> upd_attrib (\<lambda>g. g\<lparr>g_ref_count := g_ref_count g - 1\<rparr>) w;
       g \<leftarrow> the_attrib w;
       if g_ref_count g \<noteq> 0 then Some w
       else do {
         w \<leftarrow> call_upper_if G (g_destroy g) (\<lambda>f. GDestroy f (g_destroy_user_data g)) w;
         g \<leftarrow> the_attrib w;
         w \<leftarrow> bt_att_unref (bearer G) (g_att g) w;
         g \<leftarrow> the_attrib w;
         w \<leftarrow> each (attrib_callbacks_destroy G) (callbacks g) (set_attrib (g\<lparr>callbacks := []\<rparr>) w);
         g \<leftarrow> the_attrib w;
         w \<leftarrow> each free_id (track_ids g) (set_attrib (g\<lparr>track_ids := []\<rparr>) w);
         g \<leftarrow> the_attrib w;
         Some (upd_gs (\<lambda>s. s\<lparr>gs_attrib := None\<rparr>) (io_channel (IoUnref (g_io g)) w)) } })"

definition g_attrib_get_channel :: "attrib_ptr \<Rightarrow> 'u gworld \<Rightarrow> int option option" where
  "g_attrib_get_channel attrib w = (case attrib of
     None \<Rightarrow> Some None | Some _ \<Rightarrow> do { g \<leftarrow> the_attrib w; Some (Some (g_io g)) })"

definition g_attrib_get_att :: "attrib_ptr \<Rightarrow> 'u gworld \<Rightarrow> att_ptr option" where
  "g_attrib_get_att attrib w = (case attrib of
     None \<Rightarrow> Some None | Some _ \<Rightarrow> do { g \<leftarrow> the_attrib w; Some (g_att g) })"

definition g_attrib_set_destroy_function ::
  "attrib_ptr \<Rightarrow> func option \<Rightarrow> user \<Rightarrow> 'u gworld \<Rightarrow> (bool \<times> 'u gworld) option" where
  "g_attrib_set_destroy_function attrib destroy user_data w = (case attrib of
     None \<Rightarrow> Some (False, w)
   | Some _ \<Rightarrow> do {
       w \<leftarrow> upd_attrib (\<lambda>g. g\<lparr>g_destroy := destroy, g_destroy_user_data := user_data\<rparr>) w;
       Some (True, w) })"

section \<open>Called by the bearer\<close>

text \<open>The bearer passes \<open>length\<close> bytes.\<close>

definition construct_full_pdu :: "u8 \<Rightarrow> u8 list \<Rightarrow> u8 list" where
  "construct_full_pdu opcode pdu = opcode # pdu"

definition attrib_callback_result :: "'u genv \<Rightarrow> u8 \<Rightarrow> u8 list \<Rightarrow> nat \<Rightarrow> 'u gworld \<Rightarrow> 'u gworld option" where
  "attrib_callback_result G opcode pdu p w =
     (if p = 0 then Some w
      else let buf = construct_full_pdu opcode pdu;
        status = (if opcode = BT_ATT_OP_ERROR_RSP then if length pdu < 4 then 0x0e else pdu ! 3 else 0) in do {
        cb \<leftarrow> cb_at p w;
        call_upper_if G (result_func cb) (\<lambda>f. GResult f status buf (of_nat (length pdu) + 1) (cb_user_data cb)) w })"

definition attrib_callback_notify :: "'u genv \<Rightarrow> u8 \<Rightarrow> u8 list \<Rightarrow> nat \<Rightarrow> 'u gworld \<Rightarrow> 'u gworld option" where
  "attrib_callback_notify G opcode pdu p w =
     (if p = 0 then Some w
      else do {
        cb \<leftarrow> cb_at p w;
        (case notify_func cb of
           None \<Rightarrow> Some w
         | Some f \<Rightarrow>
             if notify_handle cb \<noteq> GATTRIB_ALL_HANDLES \<and> length pdu < 2 then Some w
             else do {
               skip \<leftarrow> (if notify_handle cb \<noteq> GATTRIB_ALL_HANDLES
                 then do { h \<leftarrow> get_le16 pdu 0; Some (notify_handle cb \<noteq> h) } else Some False);
               if skip then Some w
               else call_upper G (GNotify f (construct_full_pdu opcode pdu) (of_nat (length pdu) + 1) (cb_user_data cb)) w }) })"

text \<open>What a call of the bearer runs; a token that is none of these functions cannot be called.\<close>

fun gattrib_client :: "'u genv \<Rightarrow> client_call \<Rightarrow> 'u gworld \<Rightarrow> 'u gworld option" where
  "gattrib_client G (CallResponse f opcode pdu p) w =
     (if f = attrib_callback_result_fn then attrib_callback_result G opcode pdu p w else None)"
| "gattrib_client G (CallNotify f chan opcode pdu p) w =
     (if f = attrib_callback_notify_fn then attrib_callback_notify G opcode pdu p w else None)"
| "gattrib_client G (CallDestroy f p) w =
     (if f = attrib_callbacks_remove_fn then attrib_callbacks_remove G p w else None)"
| "gattrib_client G (CallDisconnect f err p) w = None"
| "gattrib_client G (CallTimeout f i opcode p) w = None"

section \<open>Requests\<close>

definition g_attrib_send ::
  "'u genv \<Rightarrow> attrib_ptr \<Rightarrow> u32 \<Rightarrow> buf option \<Rightarrow> u16 \<Rightarrow> func option \<Rightarrow> user \<Rightarrow> func option \<Rightarrow> 'u gworld
   \<Rightarrow> (u32 \<times> 'u gworld) option" where
  "g_attrib_send G attrib i pdu len func user_data notify w =
     (if attrib = None then Some (0, w)
      else (case pdu of
        None \<Rightarrow> Some (0, w)
      | Some b \<Rightarrow>
          if len = 0 then Some (0, w)
          else do {
            g \<leftarrow> the_attrib w;
            let wrap = (func \<noteq> None \<or> notify \<noteq> None);
            let (cb, w) = (if wrap
              then let (p, w) = new_cb \<lparr>cb_id = None, result_func = func, notify_func = None, destroy_func = notify,
                  cb_user_data = user_data, notify_handle = 0\<rparr> w in
                (p, set_attrib (g\<lparr>callbacks := p # callbacks g\<rparr>) w)
              else (0, w));
            opcode \<leftarrow> rd8 b 0;
            (pend, w) \<leftarrow> bt_att_send (bearer G) (g_att g) opcode (Some (drop 1 b)) (len - 1)
              (if wrap then Some attrib_callback_result_fn else None) cb
              (if wrap then Some attrib_callbacks_remove_fn else None) w;
            let i = (if i = 0 then pend else i);
            w \<leftarrow> (if cb \<noteq> 0 then do {
                (t, w) \<leftarrow> store_id i pend w;
                upd_cb cb (\<lambda>cb. cb\<lparr>cb_id := Some t\<rparr>) w }
              else Some w);
            Some (i, w) }))"

definition g_attrib_cancel :: "'u genv \<Rightarrow> attrib_ptr \<Rightarrow> u32 \<Rightarrow> 'u gworld \<Rightarrow> (bool \<times> 'u gworld) option" where
  "g_attrib_cancel G attrib i w =
     (if attrib = None then Some (False, w)
      else do {
        g \<leftarrow> the_attrib w;
        (x, ids) \<leftarrow> remove_id w i (track_ids g);
        (case x of
           None \<Rightarrow> Some (False, w)
         | Some p \<Rightarrow> do {
             pair \<leftarrow> id_at p w;
             w \<leftarrow> free_id p (set_attrib (g\<lparr>track_ids := ids\<rparr>) w);
             bt_att_cancel (bearer G) (g_att g) (pend_id pair) w }) })"

definition cancel_request :: "'u genv \<Rightarrow> nat \<Rightarrow> 'u gworld \<Rightarrow> 'u gworld option" where
  "cancel_request G p w = do {
     pair \<leftarrow> id_at p w;
     g \<leftarrow> the_attrib w;
     (_, w) \<leftarrow> bt_att_cancel (bearer G) (g_att g) (pend_id pair) w;
     Some w }"

text \<open>
  The successor of an entry that is still in the queue. \<open>queue_foreach\<close> has read it before it calls the
  function, and stops when the queue is empty.
\<close>

definition next_id :: "nat \<Rightarrow> nat list \<Rightarrow> nat option option" where
  "next_id p ps = next_entry p (map (\<lambda>p. (p, ())) ps)"

partial_function (option) cancel_loop :: "'u genv \<Rightarrow> nat option \<Rightarrow> 'u gworld \<Rightarrow> 'u gworld option" where
  "cancel_loop G ent w = (case ent of
     None \<Rightarrow> Some w
   | Some p \<Rightarrow> do {
       g \<leftarrow> the_attrib w;
       if track_ids g = [] then Some w
       else do {
         nxt \<leftarrow> next_id p (track_ids g);
         w \<leftarrow> cancel_request G p w;
         cancel_loop G nxt w } })"

lemma cancel_loop_unfold [code]:
  "cancel_loop G None w = Some w"
  "cancel_loop G (Some p) w = do {
     g \<leftarrow> the_attrib w;
     if track_ids g = [] then Some w
     else do {
       nxt \<leftarrow> next_id p (track_ids g);
       w \<leftarrow> cancel_request G p w;
       cancel_loop G nxt w } }"
  by (subst cancel_loop.simps, simp)+

definition g_attrib_cancel_all :: "'u genv \<Rightarrow> attrib_ptr \<Rightarrow> 'u gworld \<Rightarrow> (bool \<times> 'u gworld) option" where
  "g_attrib_cancel_all G attrib w =
     (if attrib = None then Some (False, w)
      else do {
        g \<leftarrow> the_attrib w;
        w \<leftarrow> cancel_loop G (case track_ids g of [] \<Rightarrow> None | p # _ \<Rightarrow> Some p) w;
        g \<leftarrow> the_attrib w;
        w \<leftarrow> each free_id (track_ids g) (set_attrib (g\<lparr>track_ids := []\<rparr>) w);
        Some (True, w) })"

section \<open>Handlers and buffer\<close>

definition g_attrib_register ::
  "'u genv \<Rightarrow> attrib_ptr \<Rightarrow> u8 \<Rightarrow> u16 \<Rightarrow> func option \<Rightarrow> user \<Rightarrow> func option \<Rightarrow> 'u gworld \<Rightarrow> (u32 \<times> 'u gworld) option"
where
  "g_attrib_register G attrib opcode handle func user_data notify w =
     (if attrib = None then Some (0, w)
      else do {
        g \<leftarrow> the_attrib w;
        let (cb, w) = (if func \<noteq> None \<or> notify \<noteq> None
          then let (p, w) = new_cb \<lparr>cb_id = None, result_func = None, notify_func = func, destroy_func = notify,
              cb_user_data = user_data, notify_handle = handle\<rparr> w in
            (p, set_attrib (g\<lparr>callbacks := p # callbacks g\<rparr>) w)
          else (0, w));
        bt_att_register (g_att g) (if opcode = GATTRIB_ALL_REQS then BT_ATT_ALL_REQUESTS else opcode)
          (Some attrib_callback_notify_fn) cb (Some attrib_callbacks_remove_fn) w })"

text \<open>\<open>g_realloc\<close> keeps the bytes that fit; new bytes have the value that \<open>fresh\<close> gives them.\<close>

definition g_realloc :: "buf \<Rightarrow> nat \<Rightarrow> buf" where
  "g_realloc b n = take n b @ fresh (n - length b)"

text \<open>The buffer, or NULL, and the value of \<open>*len\<close>; a NULL \<open>len\<close> is not used by any caller.\<close>

definition g_attrib_get_buffer :: "'u genv \<Rightarrow> attrib_ptr \<Rightarrow> 'u gworld \<Rightarrow> (buf option \<times> u64 \<times> 'u gworld) option" where
  "g_attrib_get_buffer G attrib w = (case attrib of
     None \<Rightarrow> Some (None, uninit_len G, w)
   | Some _ \<Rightarrow> do {
       g \<leftarrow> the_attrib w;
       mtu \<leftarrow> bt_att_get_mtu (g_att g) w;
       let b = (if uint mtu > g_buflen g then g_realloc (g_buf g) (unat mtu) else g_buf g);
       Some (Some b, ucast mtu, set_attrib (g\<lparr>g_buf := b, g_buflen := uint mtu\<rparr>) w) })"

text \<open>The caller has written into the buffer.\<close>

definition put_buffer :: "attrib_ptr \<Rightarrow> buf option \<Rightarrow> 'u gworld \<Rightarrow> 'u gworld option" where
  "put_buffer attrib b w = (case (attrib, b) of
     (Some _, Some b) \<Rightarrow> upd_attrib (\<lambda>g. g\<lparr>g_buf := b\<rparr>) w | _ \<Rightarrow> Some w)"

definition g_attrib_set_mtu :: "attrib_ptr \<Rightarrow> int \<Rightarrow> 'u gworld \<Rightarrow> (bool \<times> 'u gworld) option" where
  "g_attrib_set_mtu attrib mtu w = (case attrib of
     None \<Rightarrow> Some (False, w)
   | Some _ \<Rightarrow> do {
       g \<leftarrow> the_attrib w;
       let b = (if mtu > g_buflen g then g_realloc (g_buf g) (nat mtu) else g_buf g);
       let w = set_attrib (g\<lparr>g_buf := b, g_buflen := mtu\<rparr>) w;
       bt_att_set_mtu (g_att g) (word_of_int mtu) w })"

definition g_attrib_unregister :: "'u genv \<Rightarrow> attrib_ptr \<Rightarrow> u32 \<Rightarrow> 'u gworld \<Rightarrow> (bool \<times> 'u gworld) option" where
  "g_attrib_unregister G attrib i w = (case attrib of
     None \<Rightarrow> Some (False, w)
   | Some _ \<Rightarrow> do { g \<leftarrow> the_attrib w; bt_att_unregister (bearer G) (g_att g) i w })"

definition g_attrib_unregister_all :: "'u genv \<Rightarrow> attrib_ptr \<Rightarrow> 'u gworld \<Rightarrow> (bool \<times> 'u gworld) option" where
  "g_attrib_unregister_all G attrib w = (case attrib of
     None \<Rightarrow> Some (False, w)
   | Some _ \<Rightarrow> do { g \<leftarrow> the_attrib w; bt_att_unregister_all (bearer G) (g_att g) w })"

section \<open>The layers put together\<close>

text \<open>
  The layer above, as a function of the environment that it makes its own calls in. A callback that runs
  inside a callback runs at the next lower level; below the lowest level no call returns.
\<close>

primrec stack_at :: "nat \<Rightarrow> 'u genv \<Rightarrow> ('u genv \<Rightarrow> gcall \<Rightarrow> 'u gworld \<Rightarrow> 'u gworld option) \<Rightarrow> 'u genv" where
  "stack_at 0 G up = G\<lparr>bearer := (bearer G)\<lparr>client := \<lambda>_ _. None\<rparr>, upper := \<lambda>_ _. None\<rparr>"
| "stack_at (Suc n) G up = G\<lparr>bearer := (bearer G)\<lparr>client := gattrib_client (stack_at n G up)\<rparr>,
     upper := up (stack_at n G up)\<rparr>"

end
