(* ===== verification/GAttribSpec.thy ===== *)
theory GAttribSpec
  imports AttLink GAttrib
begin

text \<open>
  The \<open>GAttrib\<close> layer: its well-formedness, what a request of the layer above does to its records and to
  the bearer, how a response reaches that layer, how the record is released, and the buffer that PDUs are
  written into. The last section puts these together with the bearer: a request in flight, and the step
  from a response to the end or to the next request.
\<close>

definition attrib_inv :: "'u gstate \<Rightarrow> bool" where
  "attrib_inv s \<longleftrightarrow> (\<exists>g. gs_attrib s = Some g \<and> g_att g = Some () \<and> 1 \<le> g_ref_count g \<and>
     distinct (callbacks g) \<and> (\<forall>p \<in> set (callbacks g). gs_cb s p \<noteq> None) \<and>
     distinct (track_ids g) \<and> (\<forall>t \<in> set (track_ids g). gs_id s t \<noteq> None) \<and>
     g_buflen g \<le> int (length (g_buf g))) \<and>
   1 \<le> gs_next s \<and> gs_cb s 0 = None \<and> (\<forall>p \<ge> gs_next s. gs_cb s p = None \<and> gs_id s p = None)"

text \<open>The record of a request that waits for its answer.\<close>

definition waits_for :: "nat \<Rightarrow> func \<Rightarrow> user \<Rightarrow> func option \<Rightarrow> 'u gstate \<Rightarrow> bool" where
  "waits_for p f ud d s \<longleftrightarrow> (\<exists>g x. gs_attrib s = Some g \<and> p \<in> set (callbacks g) \<and> gs_cb s p = Some x \<and>
     result_func x = Some f \<and> destroy_func x = d \<and> cb_user_data x = ud)"

lemma upd_gs_simps [simp]:
  "w_user (upd_gs f w) = f (w_user w)" "w_att (upd_gs f w) = w_att w" "w_op (upd_gs f w) = w_op w"
  "w_chan (upd_gs f w) = w_chan w" "w_wire (upd_gs f w) = w_wire w" "w_next (upd_gs f w) = w_next w"
  "w_calls (upd_gs f w) = w_calls w"
  "link m r c fd q x (upd_gs f w) = link m r c fd q x w"
  by (simp_all add: upd_gs_def)

lemmas gs_defs = the_attrib_def set_attrib_def upd_attrib_def cb_at_def set_cb_def upd_cb_def new_cb_def free_cb_def
  id_at_def new_id_def free_id_def store_id_def

text \<open>An operation that carries the request \<open>pdu\<close> for the record \<open>cb\<close>.\<close>

definition asks :: "att_send_op \<Rightarrow> u8 list \<Rightarrow> nat \<Rightarrow> bool" where
  "asks op pdu cb \<longleftrightarrow> op_type op = ATT_OP_TYPE_REQ \<and> pdu \<noteq> [] \<and> op_opcode op = hd pdu \<and> op_pdu op = pdu \<and>
     unat (op_len op) = length pdu \<and> op_callback op = Some attrib_callback_result_fn \<and>
     op_destroy op = Some attrib_callbacks_remove_fn \<and> op_user_data op = cb"

definition asked :: "u16 \<Rightarrow> int \<Rightarrow> nat \<Rightarrow> int \<Rightarrow> nat option \<Rightarrow> u8 list \<Rightarrow> func \<Rightarrow> user \<Rightarrow> func option \<Rightarrow> 'u gworld \<Rightarrow> 'u gworld \<Rightarrow> bool"
where
  "asked m r c fd x pdu f ud d w w' \<longleftrightarrow> (\<exists>op cb.
    link m r c fd [w_next w] x w' \<and> w_wire w' = w_wire w \<and> w_next w' = Suc (w_next w) \<and>
    (\<forall>p. p \<noteq> w_next w \<longrightarrow> w_op w' p = w_op w p) \<and> w_op w' (w_next w) = Some op \<and>
    asks op pdu cb \<and> attrib_inv (w_user w') \<and> waits_for cb f ud d (w_user w') \<and>
    (\<forall>p f ud d. waits_for p f ud d (w_user w) \<longrightarrow> p \<noteq> cb \<and> waits_for p f ud d (w_user w')))"

lemma attrib_send:
  assumes "link m r c fd [] x w" "attrib_inv (w_user w)" and b: "b = opcode # params" "get_op_type opcode = ATT_OP_TYPE_REQ"
    and len: "1 < len" "unat len \<le> length b" "len \<le> m"
  shows "\<exists>i w'. g_attrib_send G (Some ()) orig (Some b) len (Some f) ud d w = Some (i, w') \<and> i \<noteq> 0 \<and>
    (orig \<noteq> 0 \<longrightarrow> i = orig) \<and> asked m r c fd x (take (unat len) b) f ud d w w' \<and>
    gs_user (w_user w') = gs_user (w_user w) \<and>
    map_option g_ref_count (gs_attrib (w_user w')) = map_option g_ref_count (gs_attrib (w_user w))"
proof -
  from assms(2) obtain g where g: "gs_attrib (w_user w) = Some g" "g_att g = Some ()" "1 \<le> g_ref_count g"
    "distinct (callbacks g)" "\<forall>p \<in> set (callbacks g). gs_cb (w_user w) p \<noteq> None"
    "distinct (track_ids g)" "\<forall>t \<in> set (track_ids g). gs_id (w_user w) t \<noteq> None"
    "g_buflen g \<le> int (length (g_buf g))" and n: "1 \<le> gs_next (w_user w)" "gs_cb (w_user w) 0 = None"
    "\<forall>p \<ge> gs_next (w_user w). gs_cb (w_user w) p = None \<and> gs_id (w_user w) p = None"
    unfolding attrib_inv_def by blast
  let ?n = "gs_next (w_user w)"
  let ?cb = "\<lparr>cb_id = None, result_func = Some f, notify_func = None, destroy_func = d, cb_user_data = ud, notify_handle = 0\<rparr>"
  let ?w1 = "set_attrib (g\<lparr>callbacks := ?n # callbacks g\<rparr>) (snd (new_cb ?cb w))"
  have l1: "link m r c fd [] x ?w1" using assms(1) by (simp add: gs_defs Let_def)
  have u: "unat (len - 1) = unat len - 1" using unat_sub [of 1 len] len(1) by (simp add: word_le_nat_alt word_less_nat_alt)
  have n0': "len \<noteq> 0" using len(1) by auto
  have n0: "len - 1 \<noteq> 0" using len(1) by auto
  have le: "unat (len - 1) \<le> length params" "unat (len - 1) < unat m"
    using len u b(1) by (auto simp: word_le_nat_alt word_less_nat_alt)
  from link_send [OF l1 b(2) n0 le, of "bearer G" attrib_callback_result_fn ?n "Some attrib_callbacks_remove_fn"]
  obtain i w' op where s: "bt_att_send (bearer G) (Some ()) opcode (Some params) (len - 1) (Some attrib_callback_result_fn) ?n
      (Some attrib_callbacks_remove_fn) ?w1 = Some (i, w')" "i \<noteq> 0" "link m r c fd [w_next ?w1] x w'" "same_client ?w1 w'"
    "w_wire w' = w_wire ?w1" "w_next w' = Suc (w_next ?w1)" "\<forall>p. p \<noteq> w_next ?w1 \<longrightarrow> w_op w' p = w_op ?w1 p"
    "w_op w' (w_next ?w1) = Some op" "op_type op = ATT_OP_TYPE_REQ" "op_opcode op = opcode"
    "op_pdu op = opcode # take (unat (len - 1)) params" "op_len op = len - 1 + 1" "op_callback op = Some attrib_callback_result_fn"
    "op_destroy op = Some attrib_callbacks_remove_fn" "op_user_data op = ?n" by blast
  have us: "w_user w' = (w_user w)\<lparr>gs_cb := (gs_cb (w_user w))(?n := Some ?cb), gs_next := Suc ?n,
      gs_attrib := Some (g\<lparr>callbacks := ?n # callbacks g\<rparr>)\<rparr>"
    using s(4) by (simp add: same_client_def gs_defs Let_def)
  let ?i = "if orig = 0 then i else orig"
  let ?w2 = "upd_gs (\<lambda>s. s\<lparr>gs_id := (gs_id s)(Suc ?n := Some \<lparr>org_id = ?i, pend_id = i\<rparr>), gs_next := Suc (Suc ?n),
      gs_attrib := Some (g\<lparr>callbacks := ?n # callbacks g, track_ids := track_ids g @ [Suc ?n]\<rparr>),
      gs_cb := (gs_cb s)(?n := Some (?cb\<lparr>cb_id := Some (Suc ?n)\<rparr>))\<rparr>) w'"
  have send: "g_attrib_send G (Some ()) orig (Some b) len (Some f) ud d w = Some (?i, ?w2)"
    using g(1,2) n(1) b(1) n0' s(1) us
    by (simp add: g_attrib_send_def gs_defs Let_def rd8_def upd_gs_def)
  have "attrib_inv (w_user ?w2)"
  proof -
    have "p \<noteq> ?n" if "p \<in> set (callbacks g)" for p using that g(5) n(3) by auto
    moreover have "t \<noteq> Suc ?n" if "t \<in> set (track_ids g)" for t using that g(7) n(3) by fastforce
    ultimately show ?thesis using g n by (auto simp: attrib_inv_def us)
  qed
  moreover have "waits_for ?n f ud d (w_user ?w2)" using g(1) us by (simp add: waits_for_def)
  moreover have "p \<noteq> ?n \<and> waits_for p f ud d (w_user ?w2)" if "waits_for p f ud d (w_user w)" for p f ud d
    using that g(1,5) n(3) us by (auto simp: waits_for_def)
  moreover have "take (unat len) b = opcode # take (unat (len - 1)) params"
    using b(1) u len(1) by (cases "unat len") (auto simp: word_less_nat_alt)
  moreover have "asks op (take (unat len) b) ?n"
    using s(9-15) calculation(4) b(1) len(1,2) u n0 by (auto simp: asks_def word_less_nat_alt)
  ultimately have "asked m r c fd x (take (unat len) b) f ud d w ?w2"
    unfolding asked_def
    using s(2-15) us n(1) g(1)
    by (intro exI [of _ op] exI [of _ ?n]) (simp add: gs_defs Let_def)
  then show ?thesis using send s(2) us g(1) by (intro exI [of _ ?i] exI [of _ ?w2]) simp
qed

lemma attrib_result:
  assumes "attrib_inv (w_user w)" "waits_for p f ud d (w_user w)" "opcode \<noteq> BT_ATT_OP_ERROR_RSP"
  shows "attrib_callback_result G opcode pdu p w =
    call_upper G (GResult f 0 (opcode # pdu) (of_nat (length pdu) + 1) ud) w"
proof -
  have "p \<noteq> 0" using assms(1,2) by (cases p) (auto simp: attrib_inv_def waits_for_def)
  then show ?thesis
    using assms(2,3)
    by (auto simp: attrib_callback_result_def waits_for_def cb_at_def construct_full_pdu_def call_upper_if_def)
qed

text \<open>The layer above changed nothing of this one but the reference count.\<close>

definition attrib_frame :: "'u gstate \<Rightarrow> 'u gstate \<Rightarrow> bool" where
  "attrib_frame s s' \<longleftrightarrow> gs_cb s' = gs_cb s \<and> gs_id s' = gs_id s \<and> gs_next s' = gs_next s \<and>
     (\<exists>g r. gs_attrib s = Some g \<and> gs_attrib s' = Some (g\<lparr>g_ref_count := r\<rparr>) \<and> 1 \<le> r)"

lemma attrib_remove:
  assumes inv: "attrib_inv (w_user w)" and p: "waits_for p f ud d (w_user w)"
    and up: "\<And>u. attrib_inv u \<Longrightarrow> gs_user u = gs_user (w_user w) \<Longrightarrow>
      map_option g_ref_count (gs_attrib u) = map_option g_ref_count (gs_attrib (w_user w)) \<Longrightarrow>
      \<exists>u'. call_upper_if G d (\<lambda>d. GDestroy d ud) (w\<lparr>w_user := u\<rparr>) = Some (w\<lparr>w_user := u'\<rparr>) \<and> attrib_frame u u' \<and> Q (gs_user u')
        (map_option g_ref_count (gs_attrib u'))"
  shows "\<exists>s. attrib_callbacks_remove G p w = Some (w\<lparr>w_user := s\<rparr>) \<and> attrib_inv s \<and>
    Q (gs_user s) (map_option g_ref_count (gs_attrib s)) \<and>
    (\<forall>q f' ud' d'. q \<noteq> p \<longrightarrow> waits_for q f' ud' d' (w_user w) \<longrightarrow> waits_for q f' ud' d' s)"
proof -
  from inv obtain g where g: "gs_attrib (w_user w) = Some g" "g_att g = Some ()" "1 \<le> g_ref_count g"
    "distinct (callbacks g)" "\<forall>p \<in> set (callbacks g). gs_cb (w_user w) p \<noteq> None"
    "distinct (track_ids g)" "\<forall>t \<in> set (track_ids g). gs_id (w_user w) t \<noteq> None"
    "g_buflen g \<le> int (length (g_buf g))" and n: "1 \<le> gs_next (w_user w)" "gs_cb (w_user w) 0 = None"
    "\<forall>p \<ge> gs_next (w_user w). gs_cb (w_user w) p = None \<and> gs_id (w_user w) p = None"
    unfolding attrib_inv_def by blast
  from p obtain x where x: "p \<in> set (callbacks g)" "gs_cb (w_user w) p = Some x" "result_func x = Some f"
    "destroy_func x = d" "cb_user_data x = ud" using g(1) by (auto simp: waits_for_def)
  have p0: "p \<noteq> 0" using x(2) n(2) by (cases p) auto
  let ?g1 = "g\<lparr>callbacks := remove1 p (callbacks g)\<rparr>"
  let ?u1 = "(w_user w)\<lparr>gs_attrib := Some ?g1\<rparr>"
  have "attrib_inv ?u1" using g n by (auto simp: attrib_inv_def dest: notin_set_remove1)
  from up [OF this] obtain u2 where u2: "call_upper_if G d (\<lambda>d. GDestroy d ud) (w\<lparr>w_user := ?u1\<rparr>) = Some (w\<lparr>w_user := u2\<rparr>)"
    "attrib_frame ?u1 u2" "Q (gs_user u2) (map_option g_ref_count (gs_attrib u2))" using g(1) by auto
  obtain r where r: "gs_attrib u2 = Some (?g1\<lparr>g_ref_count := r\<rparr>)" "1 \<le> r" "gs_cb u2 = gs_cb (w_user w)"
    "gs_id u2 = gs_id (w_user w)" "gs_next u2 = gs_next (w_user w)" using u2(2) by (auto simp: attrib_frame_def)
  let ?ids = "case cb_id x of None \<Rightarrow> [] | Some t \<Rightarrow> if t \<in> set (track_ids g) then [t] else []"
  let ?g3 = "?g1\<lparr>g_ref_count := r, track_ids := (case ?ids of [] \<Rightarrow> track_ids g | t # _ \<Rightarrow> remove1 t (track_ids g))\<rparr>"
  let ?s = "u2\<lparr>gs_attrib := Some ?g3, gs_id := (case ?ids of [] \<Rightarrow> gs_id u2 | t # _ \<Rightarrow> (gs_id u2)(t := None)), gs_cb := (gs_cb u2)(p := None)\<rparr>"
  have "attrib_callbacks_remove G p w = Some (w\<lparr>w_user := ?s\<rparr>)"
    using p0 x g(1,7) u2(1) r
    by (auto simp: attrib_callbacks_remove_def attrib_callbacks_destroy_def gs_defs upd_gs_def split: option.splits)
  moreover have "attrib_inv ?s"
    using g n r(2-5) by (auto simp: attrib_inv_def r(1) split: option.splits dest: notin_set_remove1)
  moreover have "waits_for q f' ud' d' ?s" if "q \<noteq> p" "waits_for q f' ud' d' (w_user w)" for q f' ud' d'
    using that g(1) r by (auto simp: waits_for_def)
  ultimately show ?thesis using u2(3) r(1) by (intro exI [of _ ?s]) simp
qed

lemma attrib_user [simp]: "attrib_inv (s\<lparr>gs_user := u\<rparr>) = attrib_inv s" "waits_for p f ud d (s\<lparr>gs_user := u\<rparr>) = waits_for p f ud d s"
  "attrib_inv (s\<lparr>gs_calls := l\<rparr>) = attrib_inv s" "waits_for p f ud d (s\<lparr>gs_calls := l\<rparr>) = waits_for p f ud d s"
  by (simp_all add: attrib_inv_def waits_for_def)

lemma waits_for_ref:
  "gs_attrib s = Some g \<Longrightarrow> waits_for p f ud d (s\<lparr>gs_attrib := Some (g\<lparr>g_ref_count := n\<rparr>)\<rparr>) = waits_for p f ud d s"
  by (simp add: waits_for_def)

definition same_attrib :: "'u gstate \<Rightarrow> 'u gstate \<Rightarrow> bool" where
  "same_attrib s s' \<longleftrightarrow> (\<exists>g b n. gs_attrib s = Some g \<and> s' = s\<lparr>gs_attrib := Some (g\<lparr>g_buf := b, g_buflen := n\<rparr>)\<rparr>)"

lemma same_attribD:
  assumes "same_attrib s s'"
  shows "gs_user s' = gs_user s" "gs_calls s' = gs_calls s" "waits_for p f ud d s' = waits_for p f ud d s"
    "map_option g_ref_count (gs_attrib s') = map_option g_ref_count (gs_attrib s)" "gs_cb s' = gs_cb s" "gs_id s' = gs_id s"
    "gs_next s' = gs_next s"
  using assms by (auto simp: same_attrib_def waits_for_def)

lemma link_mtu: "link m r c fd q x w \<Longrightarrow> bt_att_get_mtu (Some ()) w = Some m"
  by (erule linkE) (simp add: bt_att_get_mtu_def)

lemma length_g_realloc [simp]: "length (g_realloc b n) = n"
  by (simp add: g_realloc_def fresh_def)

text \<open>The buffer has as many bytes as a PDU may have; its contents change, nothing else does.\<close>

lemma attrib_get:
  assumes "link m r c fd q x w" "attrib_inv (w_user w)"
  shows "\<exists>b s. g_attrib_get_buffer G (Some ()) w = Some (Some b, ucast m, w\<lparr>w_user := s\<rparr>) \<and> unat m \<le> length b \<and>
    attrib_inv s \<and> same_attrib (w_user w) s \<and> map_option g_buf (gs_attrib s) = Some b"
proof -
  from assms(2) obtain g where g: "gs_attrib (w_user w) = Some g" "g_att g = Some ()" "g_buflen g \<le> int (length (g_buf g))"
    by (auto simp: attrib_inv_def)
  have mtu: "bt_att_get_mtu (Some ()) w = Some m" by (rule link_mtu [OF assms(1)])
  define b where "b = (if uint m > g_buflen g then g_realloc (g_buf g) (unat m) else g_buf g)"
  let ?s = "(w_user w)\<lparr>gs_attrib := Some (g\<lparr>g_buf := b, g_buflen := uint m\<rparr>)\<rparr>"
  have l: "int (length b) \<ge> uint m" using g(3) by (auto simp: b_def)
  have "g_attrib_get_buffer G (Some ()) w = Some (Some b, ucast m, w\<lparr>w_user := ?s\<rparr>)"
    using g mtu by (simp add: g_attrib_get_buffer_def gs_defs upd_gs_def b_def Let_def)
  moreover have "unat m \<le> length b" using l by (simp add: nat_le_iff unat_eq_nat_uint del: nat_uint_eq)
  moreover have "attrib_inv ?s" using assms(2) g l by (auto simp: attrib_inv_def)
  ultimately show ?thesis using g(1)
    by (intro exI [of _ b] exI [of _ ?s]) (auto simp: same_attrib_def)
qed

lemma attrib_put:
  assumes "attrib_inv s" "map_option g_buf (gs_attrib s) = Some b" "length b' = length b"
  shows "\<exists>s'. put_buffer (Some ()) (Some b') (w\<lparr>w_user := s\<rparr>) = Some (w\<lparr>w_user := s'\<rparr>) \<and> attrib_inv s' \<and> same_attrib s s'"
proof -
  from assms obtain g where g: "gs_attrib s = Some g" "g_buf g = b" by auto
  let ?s = "s\<lparr>gs_attrib := Some (g\<lparr>g_buf := b'\<rparr>)\<rparr>"
  have "attrib_inv ?s" using assms(1,3) g by (auto simp: attrib_inv_def)
  moreover have "same_attrib s ?s"
    unfolding same_attrib_def using g(1) by (intro exI [of _ g] exI [of _ b'] exI [of _ "g_buflen g"]) simp
  ultimately show ?thesis using g
    by (intro exI [of _ ?s]) (simp add: put_buffer_def gs_defs upd_gs_def)
qed

lemma attrib_frame_refl: "attrib_inv s \<Longrightarrow> attrib_frame s s"
proof -
  assume "attrib_inv s"
  then obtain g where "gs_attrib s = Some g" "1 \<le> g_ref_count g" by (auto simp: attrib_inv_def)
  then show ?thesis unfolding attrib_frame_def by (intro conjI refl exI [of _ g] exI [of _ "g_ref_count g"]) auto
qed

text \<open>A record without a destroy function is released without a call.\<close>

lemma attrib_remove_plain:
  assumes inv: "attrib_inv (w_user w)" and p: "waits_for p f ud None (w_user w)"
  shows "\<exists>s. attrib_callbacks_remove G p w = Some (w\<lparr>w_user := s\<rparr>) \<and> attrib_inv s \<and> gs_user s = gs_user (w_user w) \<and>
    map_option g_ref_count (gs_attrib s) = map_option g_ref_count (gs_attrib (w_user w)) \<and>
    (\<forall>q f' ud' d'. q \<noteq> p \<longrightarrow> waits_for q f' ud' d' (w_user w) \<longrightarrow> waits_for q f' ud' d' s)"
proof -
  let ?Q = "\<lambda>t n. t = gs_user (w_user w) \<and> n = map_option g_ref_count (gs_attrib (w_user w))"
  have "\<exists>s. attrib_callbacks_remove G p w = Some (w\<lparr>w_user := s\<rparr>) \<and> attrib_inv s \<and>
    ?Q (gs_user s) (map_option g_ref_count (gs_attrib s)) \<and>
    (\<forall>q f' ud' d'. q \<noteq> p \<longrightarrow> waits_for q f' ud' d' (w_user w) \<longrightarrow> waits_for q f' ud' d' s)"
    by (rule attrib_remove [OF inv p]) (use attrib_frame_refl in \<open>auto simp: call_upper_if_def\<close>)
  then show ?thesis by blast
qed

section \<open>Requests in flight\<close>

lemma asked_waits:
  assumes "asked m r c fd x pdu f p d w w'" "waits_for cb f' p' d' (w_user w)"
  obtains op cb' where "link m r c fd [w_next w] x w'" "w_wire w' = w_wire w" "w_next w' = Suc (w_next w)"
    "\<forall>q. q \<noteq> w_next w \<longrightarrow> w_op w' q = w_op w q" "w_op w' (w_next w) = Some op" "asks op pdu cb'" "attrib_inv (w_user w')"
    "waits_for cb' f p d (w_user w')" "waits_for cb f' p' d' (w_user w')" "cb \<noteq> cb'"
  using assms unfolding asked_def by blast

lemma asks_timeout [simp]: "asks (op\<lparr>op_timeout_id := t\<rparr>) pdu cb = asks op pdu cb"
  by (simp add: asks_def)

text \<open>A request of the layer above that is queued, or whose answer is outstanding; \<open>P\<close> speaks about that layer.\<close>

definition flight :: "u16 \<Rightarrow> int \<Rightarrow> nat \<Rightarrow> int \<Rightarrow> bool \<Rightarrow> u8 list \<Rightarrow> func \<Rightarrow> user \<Rightarrow> ('u \<Rightarrow> int option \<Rightarrow> bool) \<Rightarrow> 'u gworld \<Rightarrow> bool" where
  "flight m r c fd outstanding pdu f ud P w \<longleftrightarrow> (\<exists>q op cb.
     link m r c fd (if outstanding then [] else [q]) (if outstanding then Some q else None) w \<and> w_op w q = Some op \<and> q < w_next w \<and>
     asks op pdu cb \<and> waits_for cb f ud None (w_user w) \<and> attrib_inv (w_user w) \<and>
     P (gs_user (w_user w)) (map_option g_ref_count (gs_attrib (w_user w))))"

lemma asked_flight:
  assumes "asked m r c fd None pdu f ud None w w'" "P (gs_user (w_user w')) (map_option g_ref_count (gs_attrib (w_user w')))"
  shows "flight m r c fd False pdu f ud P w'"
proof -
  from assms(1) obtain op cb where a: "link m r c fd [w_next w] None w'" "w_next w' = Suc (w_next w)" "w_op w' (w_next w) = Some op"
    "asks op pdu cb" "attrib_inv (w_user w')" "waits_for cb f ud None (w_user w')" unfolding asked_def by blast
  then show ?thesis unfolding flight_def using assms(2)
    by (intro exI [of _ "w_next w"] exI [of _ op] exI [of _ cb]) simp
qed

lemma flight_sent:
  assumes s: "flight m r c fd False pdu f ud P w" and len: "length pdu \<le> unat m" and io: "io_send E fd pdu \<noteq> 0"
  shows "\<exists>w'. can_write_data E c w = Some (True, w') \<and> flight m r c fd True pdu f ud P w' \<and>
    w_wire w' = w_wire w @ [(fd, pdu, io_send E fd pdu)]"
proof -
  from s obtain q op cb where q: "link m r c fd [q] None w" "w_op w q = Some op" "q < w_next w" "asks op pdu cb"
    "waits_for cb f ud None (w_user w)" "attrib_inv (w_user w)" "P (gs_user (w_user w)) (map_option g_ref_count (gs_attrib (w_user w)))"
    unfolding flight_def by auto
  have "op_len op \<le> m" using q(4) len by (simp add: asks_def word_le_nat_alt)
  then have "\<exists>w' t. can_write_data E c w = Some (True, w') \<and> link m r c fd [] (Some q) w' \<and> same_client w w' \<and>
    w_wire w' = w_wire w @ [(fd, op_pdu op, io_send E fd (op_pdu op))] \<and> w_next w' = w_next w \<and>
    w_op w' = (w_op w)(q := Some (op\<lparr>op_timeout_id := t\<rparr>))"
    using q(4) io by (intro link_write [OF q(1,2)]) (auto simp: asks_def)
  then obtain w' t where w': "can_write_data E c w = Some (True, w')" "link m r c fd [] (Some q) w'" "same_client w w'"
    "w_wire w' = w_wire w @ [(fd, op_pdu op, io_send E fd (op_pdu op))]" "w_next w' = w_next w"
    "w_op w' = (w_op w)(q := Some (op\<lparr>op_timeout_id := t\<rparr>))" by blast
  have us: "w_user w' = w_user w" using w'(3) by (simp add: same_client_def)
  have "flight m r c fd True pdu f ud P w'"
    unfolding flight_def us using q w' by (intro exI [of _ q] exI [of _ "op\<lparr>op_timeout_id := t\<rparr>"] exI [of _ cb]) simp
  moreover have "op_pdu op = pdu" using q(4) by (simp add: asks_def)
  ultimately show ?thesis using w'(1,4) by auto
qed

text \<open>The world that the layer above sees when it gets the answer.\<close>

definition told :: "func \<Rightarrow> u8 list \<Rightarrow> user \<Rightarrow> 'u gworld \<Rightarrow> 'u gworld" where
  "told f pdu ud w = upd_gs (\<lambda>s. s\<lparr>gs_calls := gs_calls s @ [GResult f 0 pdu (of_nat (length pdu)) ud]\<rparr>) w"

lemma flight_result:
  assumes "attrib_inv (w_user w)" "waits_for cb f ud d (w_user w)" "opcode \<noteq> BT_ATT_OP_ERROR_RSP"
  shows "gattrib_client G (CallResponse attrib_callback_result_fn opcode rsp cb) w =
    upper G (GResult f 0 (opcode # rsp) (of_nat (length (opcode # rsp))) ud) (told f (opcode # rsp) ud w)"
  using attrib_result [OF assms, of G rsp] by (simp add: call_upper_def told_def add.commute)

lemma told_simps [simp]:
  "link m r c fd q x (told f pdu ud w) = link m r c fd q x w" "w_wire (told f pdu ud w) = w_wire w" "w_op (told f pdu ud w) = w_op w"
  "w_next (told f pdu ud w) = w_next w" "attrib_inv (w_user (told f pdu ud w)) = attrib_inv (w_user w)"
  "waits_for p g ud' d (w_user (told f pdu ud w)) = waits_for p g ud' d (w_user w)"
  "gs_user (w_user (told f pdu ud w)) = gs_user (w_user w)" "gs_attrib (w_user (told f pdu ud w)) = gs_attrib (w_user w)"
  by (simp_all add: told_def)

lemma flight_ends:
  assumes s: "flight m r c fd True pdu f ud P w" and r: "0 < r" and E: "client E = gattrib_client G"
    and rx: "k_read E fd m = Some (opcode # rsp)" "length rsp < unat m" and ty: "get_op_type opcode = ATT_OP_TYPE_RSP"
    "opcode \<noteq> BT_ATT_OP_ERROR_RSP" "get_req_opcode opcode = hd pdu" "hd pdu \<noteq> 0"
    and step: "\<And>w1. P (gs_user (w_user w1)) (map_option g_ref_count (gs_attrib (w_user w1))) \<Longrightarrow> attrib_inv (w_user w1) \<Longrightarrow>
      \<exists>t. upper G (GResult f 0 (opcode # rsp) (of_nat (length (opcode # rsp))) ud) w1 = Some (w1\<lparr>w_user := (w_user w1)\<lparr>gs_user := t\<rparr>\<rparr>) \<and>
        P' t (map_option g_ref_count (gs_attrib (w_user w1)))"
  shows "\<exists>w'. can_read_data E c w = Some (True, w') \<and> link m r c fd [] None w' \<and> attrib_inv (w_user w') \<and>
    P' (gs_user (w_user w')) (map_option g_ref_count (gs_attrib (w_user w'))) \<and> w_wire w' = w_wire w"
proof -
  from s obtain q op cb where q: "link m r c fd [] (Some q) w" "w_op w q = Some op" "q < w_next w" "asks op pdu cb"
    "waits_for cb f ud None (w_user w)" "attrib_inv (w_user w)" "P (gs_user (w_user w)) (map_option g_ref_count (gs_attrib (w_user w)))"
    unfolding flight_def by auto
  have a: "op_callback op = Some attrib_callback_result_fn" "op_destroy op = Some attrib_callbacks_remove_fn"
    "op_opcode op = hd pdu" "op_user_data op = cb" using q(4) by (simp_all add: asks_def)
  let ?R = "\<lambda>u (h' :: nat \<Rightarrow> att_send_op option) (n' :: nat). attrib_inv u \<and> waits_for cb f ud None u \<and> P' (gs_user u) (map_option g_ref_count (gs_attrib u))"
  let ?Q = "\<lambda>u (h' :: nat \<Rightarrow> att_send_op option) (n' :: nat). attrib_inv u \<and> P' (gs_user u) (map_option g_ref_count (gs_attrib u))"
  have "\<exists>w' u h' n'. can_read_data E c w = Some (True, w') \<and> link m r c fd [] None w' \<and> w_wire w' = w_wire w \<and>
    w_op w' = h'(q := None) \<and> w_user w' = u \<and> w_next w' = n' \<and> ?Q u h' n'"
  proof (rule link_response [OF q(1) r q(2) a(1,2), where R = ?R])
    fix w1 assume w1: "link m (r + 1) c fd [] (Some q) w1" "w_user w1 = w_user w" "w_op w1 = w_op w" "w_wire w1 = w_wire w" "w_next w1 = w_next w"
    let ?w1 = "told f (opcode # rsp) ud w1"
    from step [of ?w1] obtain t where t: "upper G (GResult f 0 (opcode # rsp) (of_nat (length (opcode # rsp))) ud) ?w1 =
        Some (?w1\<lparr>w_user := (w_user ?w1)\<lparr>gs_user := t\<rparr>\<rparr>)" "P' t (map_option g_ref_count (gs_attrib (w_user w1)))"
      using q(6,7) w1(2) by auto
    have "client E (CallResponse attrib_callback_result_fn opcode rsp (op_user_data op)) w1 = Some (?w1\<lparr>w_user := (w_user ?w1)\<lparr>gs_user := t\<rparr>\<rparr>)"
      unfolding E a(4) using flight_result [of w1 cb f ud None opcode G rsp] q(5,6) ty(2) w1(2) t(1) by simp
    then show "\<exists>w2. client E (CallResponse attrib_callback_result_fn opcode rsp (op_user_data op)) w1 = Some w2 \<and>
        link m (r + 1) c fd [] (Some q) w2 \<and> w_op w2 q = Some op \<and> w_wire w2 = w_wire w \<and> ?R (w_user w2) (w_op w2) (w_next w2)"
      using t(2) w1 q(2,5,6) by (intro exI [of _ "?w1\<lparr>w_user := (w_user ?w1)\<lparr>gs_user := t\<rparr>\<rparr>"]) simp
  next
    fix w3 assume w3: "link m (r + 1) c fd [] (Some q) w3" "?R (w_user w3) (w_op w3) (w_next w3)"
    obtain u where u: "attrib_callbacks_remove G cb w3 = Some (w3\<lparr>w_user := u\<rparr>)" "attrib_inv u" "gs_user u = gs_user (w_user w3)"
      "map_option g_ref_count (gs_attrib u) = map_option g_ref_count (gs_attrib (w_user w3))"
      using attrib_remove_plain [of w3 cb f ud G] w3(2) by blast
    show "\<exists>w4. client E (CallDestroy attrib_callbacks_remove_fn (op_user_data op)) w3 = Some w4 \<and>
        link m (r + 1) c fd [] (Some q) w4 \<and> w_op w4 = w_op w3 \<and> w_wire w4 = w_wire w3 \<and> w_next w4 = w_next w3 \<and>
        ?Q (w_user w4) (w_op w4) (w_next w4)"
      unfolding E a(4) using u w3 by (intro exI [of _ "w3\<lparr>w_user := u\<rparr>"]) simp
  qed (use rx ty a(3) in auto)
  then show ?thesis by blast
qed

lemma flight_continues:
  assumes s: "flight m r c fd True pdu f ud P w" and r: "0 < r" and E: "client E = gattrib_client G"
    and rx: "k_read E fd m = Some (opcode # rsp)" "length rsp < unat m" and ty: "get_op_type opcode = ATT_OP_TYPE_RSP"
    "opcode \<noteq> BT_ATT_OP_ERROR_RSP" "get_req_opcode opcode = hd pdu" "hd pdu \<noteq> 0"
    and step: "\<And>w1 x. P (gs_user (w_user w1)) (map_option g_ref_count (gs_attrib (w_user w1))) \<Longrightarrow> attrib_inv (w_user w1) \<Longrightarrow>
      link m (r + 1) c fd [] x w1 \<Longrightarrow>
      \<exists>w2. upper G (GResult f 0 (opcode # rsp) (of_nat (length (opcode # rsp))) ud) w1 = Some w2 \<and>
        asked m (r + 1) c fd x pdu' f' ud' None w1 w2 \<and> P' (gs_user (w_user w2)) (map_option g_ref_count (gs_attrib (w_user w2)))"
  shows "\<exists>w'. can_read_data E c w = Some (True, w') \<and> flight m r c fd False pdu' f' ud' P' w' \<and> w_wire w' = w_wire w"
proof -
  from s obtain q op cb where q: "link m r c fd [] (Some q) w" "w_op w q = Some op" "q < w_next w" "asks op pdu cb"
    "waits_for cb f ud None (w_user w)" "attrib_inv (w_user w)" "P (gs_user (w_user w)) (map_option g_ref_count (gs_attrib (w_user w)))"
    unfolding flight_def by auto
  have a: "op_callback op = Some attrib_callback_result_fn" "op_destroy op = Some attrib_callbacks_remove_fn"
    "op_opcode op = hd pdu" "op_user_data op = cb" using q(4) by (simp_all add: asks_def)
  let ?S = "\<lambda>u h' n' op' cb'. attrib_inv u \<and> P' (gs_user u) (map_option g_ref_count (gs_attrib u)) \<and>
    h' (w_next w) = Some op' \<and> n' = Suc (w_next w) \<and> asks op' pdu' cb' \<and> waits_for cb' f' ud' None u"
  let ?R = "\<lambda>u h' n'. \<exists>op' cb'. ?S u h' n' op' cb' \<and> waits_for cb f ud None u \<and> cb \<noteq> cb'"
  let ?Q = "\<lambda>u h' n'. \<exists>op' cb'. ?S u h' n' op' cb'"
  have "\<exists>w' u h' n'. can_read_data E c w = Some (True, w') \<and> link m r c fd [w_next w] None w' \<and> w_wire w' = w_wire w \<and>
    w_op w' = h'(q := None) \<and> w_user w' = u \<and> w_next w' = n' \<and> ?Q u h' n'"
  proof (rule link_response [OF q(1) r q(2) a(1,2), where R = ?R])
    fix w1 assume w1: "link m (r + 1) c fd [] (Some q) w1" "w_user w1 = w_user w" "w_op w1 = w_op w" "w_wire w1 = w_wire w" "w_next w1 = w_next w"
    let ?w1 = "told f (opcode # rsp) ud w1"
    have l1: "link m (r + 1) c fd [] (Some q) ?w1" using w1(1) by simp
    from step [OF _ _ l1] obtain w2 where w2: "upper G (GResult f 0 (opcode # rsp) (of_nat (length (opcode # rsp))) ud) ?w1 = Some w2"
      "asked m (r + 1) c fd (Some q) pdu' f' ud' None ?w1 w2" "P' (gs_user (w_user w2)) (map_option g_ref_count (gs_attrib (w_user w2)))"
      using q(6,7) w1(2) by auto
    have wcb: "waits_for cb f ud None (w_user ?w1)" using q(5) w1(2) by simp
    obtain op' cb' where b: "link m (r + 1) c fd [w_next ?w1] (Some q) w2" "w_wire w2 = w_wire ?w1" "w_next w2 = Suc (w_next ?w1)"
      "\<forall>p. p \<noteq> w_next ?w1 \<longrightarrow> w_op w2 p = w_op ?w1 p" "w_op w2 (w_next ?w1) = Some op'" "asks op' pdu' cb'" "attrib_inv (w_user w2)"
      "waits_for cb' f' ud' None (w_user w2)" "waits_for cb f ud None (w_user w2)" "cb \<noteq> cb'"
      by (rule asked_waits [OF w2(2) wcb])
    have "client E (CallResponse attrib_callback_result_fn opcode rsp (op_user_data op)) w1 = Some w2"
      unfolding E a(4) using flight_result [of w1 cb f ud None opcode G rsp] q(5,6) ty(2) w1(2) w2(1) by simp
    moreover have "w_op w2 q = Some op" using b(4) w1(3,5) q(2,3) by simp
    ultimately show "\<exists>w2. client E (CallResponse attrib_callback_result_fn opcode rsp (op_user_data op)) w1 = Some w2 \<and>
        link m (r + 1) c fd [w_next w] (Some q) w2 \<and> w_op w2 q = Some op \<and> w_wire w2 = w_wire w \<and> ?R (w_user w2) (w_op w2) (w_next w2)"
      using b w2(3) w1(4,5) by (intro exI [of _ w2]) auto
  next
    fix w3 assume w3: "link m (r + 1) c fd [w_next w] (Some q) w3" "?R (w_user w3) (w_op w3) (w_next w3)"
    then obtain op' cb' where o: "?S (w_user w3) (w_op w3) (w_next w3) op' cb'" "waits_for cb f ud None (w_user w3)" "cb' \<noteq> cb" by auto
    obtain u where u: "attrib_callbacks_remove G cb w3 = Some (w3\<lparr>w_user := u\<rparr>)" "attrib_inv u" "gs_user u = gs_user (w_user w3)"
      "map_option g_ref_count (gs_attrib u) = map_option g_ref_count (gs_attrib (w_user w3))"
      "\<forall>p g' ud' d'. p \<noteq> cb \<longrightarrow> waits_for p g' ud' d' (w_user w3) \<longrightarrow> waits_for p g' ud' d' u"
      using attrib_remove_plain [of w3 cb f ud G] o by blast
    have "?S u (w_op w3) (w_next w3) op' cb'" using o u by auto
    then show "\<exists>w4. client E (CallDestroy attrib_callbacks_remove_fn (op_user_data op)) w3 = Some w4 \<and>
        link m (r + 1) c fd [w_next w] (Some q) w4 \<and> w_op w4 = w_op w3 \<and> w_wire w4 = w_wire w3 \<and> w_next w4 = w_next w3 \<and>
        ?Q (w_user w4) (w_op w4) (w_next w4)"
      unfolding E a(4) using u(1) w3(1) by (intro exI [of _ "w3\<lparr>w_user := u\<rparr>"]) auto
  qed (use rx ty a(3) in auto)
  then obtain w' h' op' cb' where w': "can_read_data E c w = Some (True, w')" "link m r c fd [w_next w] None w'" "w_wire w' = w_wire w"
    "w_op w' = h'(q := None)" "?S (w_user w') h' (w_next w') op' cb'" by blast
  have "flight m r c fd False pdu' f' ud' P' w'"
    unfolding flight_def using w' q(3) by (intro exI [of _ "w_next w"] exI [of _ op'] exI [of _ cb']) auto
  with w'(1,3) show ?thesis by blast
qed

end
