(* ===== verification/Gatt.thy ===== *)
theory Gatt
  imports GAttrib AttPduValue
begin

text \<open>
  \<^verbatim>\<open>bluez/attrib/gatt.c\<close>: the procedures of the GATT client. This theory holds their state and the
  discovery of primary and of included services; \<open>GattChar\<close> has the discovery of characteristics and
  descriptors, \<open>GattValue\<close> reading and writing.

  A procedure keeps its progress in a record of its own, in the heap \<open>ts_heap\<close>, which it passes as the
  user data of its requests and releases when the last of them is destroyed. The state is the component
  \<open>gs_user\<close> of the \<open>GAttrib\<close> layer. The functions that it passes down are the tokens \<open>..._fn\<close>;
  every other token belongs to the user of this layer, whose functions are called through \<open>T\<close>. A
  \<open>GSList\<close> of results is the list of its elements.
\<close>

definition ATT_ECODE_INVALID_PDU :: u8 where "ATT_ECODE_INVALID_PDU = 0x04"
definition ATT_ECODE_ATTR_NOT_FOUND :: u8 where "ATT_ECODE_ATTR_NOT_FOUND = 0x0A"
definition ATT_ECODE_UNLIKELY :: u8 where "ATT_ECODE_UNLIKELY = 0x0E"
definition ATT_ECODE_IO :: u8 where "ATT_ECODE_IO = 0x80"
definition GATT_PRIM_SVC_UUID :: u16 where "GATT_PRIM_SVC_UUID = 0x2800"
definition GATT_INCLUDE_UUID :: u16 where "GATT_INCLUDE_UUID = 0x2802"
definition GATT_CHARAC_UUID :: u16 where "GATT_CHARAC_UUID = 0x2803"
definition MAX_LEN_UUID_STR :: nat where "MAX_LEN_UUID_STR = 37"

section \<open>Results\<close>

record gatt_primary =
  gp_uuid :: string
  gp_range :: att_range

record gatt_included =
  gi_uuid :: string
  gi_handle :: u16
  gi_range :: att_range

record gatt_char =
  gc_uuid :: string
  gc_handle :: u16
  gc_properties :: u8
  gc_value_handle :: u16

record gatt_desc =
  gd_uuid :: string
  gd_handle :: u16
  gd_uuid16 :: u16

datatype gatt_item =
    Primary gatt_primary
  | Range att_range
  | Included gatt_included
  | Characteristic gatt_char
  | Descriptor gatt_desc

text \<open>What the user of this layer is called with.\<close>

datatype tcall =
    TResult func u8 "u8 list" u16 user
  | TNotify func "u8 list" u16 user
  | TDestroy func user
  | TList func u8 "gatt_item list" user

section \<open>State\<close>

record discover_primary =
  dp_ref :: int
  dp_attrib :: attrib_ptr
  dp_id :: u32
  dp_uuid :: bt_uuid
  dp_start :: u16
  dp_primaries :: "gatt_item list"
  dp_cb :: "func option"
  dp_user_data :: user

record included_discovery =
  isd_attrib :: attrib_ptr
  isd_id :: u32
  isd_refs :: int
  isd_err :: int
  isd_start_handle :: u16
  isd_end_handle :: u16
  isd_includes :: "gatt_item list"
  isd_cb :: "func option"
  isd_user_data :: user

text \<open>The \<open>included\<close> is owned by the query, until it moves to the result list.\<close>

record included_uuid_query =
  q_isd :: nat
  q_included :: "gatt_included option"

record discover_char =
  dc_ref :: int
  dc_attrib :: attrib_ptr
  dc_id :: u32
  dc_uuid :: "bt_uuid option"
  dc_end :: u16
  dc_start :: u16
  dc_characteristics :: "gatt_item list"
  dc_cb :: "func option"
  dc_user_data :: user

record discover_desc =
  dd_ref :: int
  dd_attrib :: attrib_ptr
  dd_id :: u32
  dd_uuid :: "bt_uuid option"
  dd_start :: u16
  dd_end :: u16
  dd_descriptors :: "gatt_item list"
  dd_cb :: "func option"
  dd_user_data :: user

record read_long_data =
  rl_attrib :: attrib_ptr
  rl_func :: "func option"
  rl_user_data :: user
  rl_buffer :: buf
  rl_size :: u16
  rl_handle :: u16
  rl_id :: u32
  rl_ref :: int

record write_long_data =
  wl_attrib :: attrib_ptr
  wl_func :: "func option"
  wl_user_data :: user
  wl_handle :: u16
  wl_offset :: u16
  wl_value :: buf
  wl_vlen :: u64

datatype gatt_obj =
    ObjPrimary discover_primary
  | ObjIncluded included_discovery
  | ObjQuery included_uuid_query
  | ObjChar discover_char
  | ObjDesc discover_desc
  | ObjRead read_long_data
  | ObjWrite write_long_data

record 'v tstate =
  ts_heap :: "nat \<Rightarrow> gatt_obj option"
  ts_next :: nat
  ts_calls :: "tcall list"
  ts_user :: 'v

type_synonym 'v tworld = "'v tstate gworld"
type_synonym 'v tenv = "'v tstate genv"
type_synonym 'v top = "tcall \<Rightarrow> 'v tworld \<Rightarrow> 'v tworld option"

definition upd_ts :: "('v tstate \<Rightarrow> 'v tstate) \<Rightarrow> 'v tworld \<Rightarrow> 'v tworld" where
  "upd_ts f = upd_gs (\<lambda>s. s\<lparr>gs_user := f (gs_user s)\<rparr>)"

definition obj_at :: "nat \<Rightarrow> 'v tworld \<Rightarrow> gatt_obj option" where
  "obj_at p w = ts_heap (gs_user (w_user w)) p"

definition set_obj :: "nat \<Rightarrow> gatt_obj \<Rightarrow> 'v tworld \<Rightarrow> 'v tworld" where
  "set_obj p x = upd_ts (\<lambda>s. s\<lparr>ts_heap := (ts_heap s)(p := Some x)\<rparr>)"

definition new_obj :: "gatt_obj \<Rightarrow> 'v tworld \<Rightarrow> nat \<times> 'v tworld" where
  "new_obj x w = (let p = ts_next (gs_user (w_user w)) in
     (p, upd_ts (\<lambda>s. s\<lparr>ts_heap := (ts_heap s)(p := Some x), ts_next := Suc p\<rparr>) w))"

definition free_obj :: "nat \<Rightarrow> 'v tworld \<Rightarrow> 'v tworld option" where
  "free_obj p w = do { _ \<leftarrow> obj_at p w; Some (upd_ts (\<lambda>s. s\<lparr>ts_heap := (ts_heap s)(p := None)\<rparr>) w) }"

text \<open>A pointer to a record of a given type.\<close>

definition primary_at :: "nat \<Rightarrow> 'v tworld \<Rightarrow> discover_primary option" where
  "primary_at p w = (case obj_at p w of Some (ObjPrimary x) \<Rightarrow> Some x | _ \<Rightarrow> None)"
definition isd_at :: "nat \<Rightarrow> 'v tworld \<Rightarrow> included_discovery option" where
  "isd_at p w = (case obj_at p w of Some (ObjIncluded x) \<Rightarrow> Some x | _ \<Rightarrow> None)"
definition query_at :: "nat \<Rightarrow> 'v tworld \<Rightarrow> included_uuid_query option" where
  "query_at p w = (case obj_at p w of Some (ObjQuery x) \<Rightarrow> Some x | _ \<Rightarrow> None)"
definition char_at :: "nat \<Rightarrow> 'v tworld \<Rightarrow> discover_char option" where
  "char_at p w = (case obj_at p w of Some (ObjChar x) \<Rightarrow> Some x | _ \<Rightarrow> None)"
definition desc_at :: "nat \<Rightarrow> 'v tworld \<Rightarrow> discover_desc option" where
  "desc_at p w = (case obj_at p w of Some (ObjDesc x) \<Rightarrow> Some x | _ \<Rightarrow> None)"
definition read_at :: "nat \<Rightarrow> 'v tworld \<Rightarrow> read_long_data option" where
  "read_at p w = (case obj_at p w of Some (ObjRead x) \<Rightarrow> Some x | _ \<Rightarrow> None)"
definition write_at :: "nat \<Rightarrow> 'v tworld \<Rightarrow> write_long_data option" where
  "write_at p w = (case obj_at p w of Some (ObjWrite x) \<Rightarrow> Some x | _ \<Rightarrow> None)"

text \<open>A call of the user of this layer; a call through NULL does not return.\<close>

definition call_top :: "'v top \<Rightarrow> tcall \<Rightarrow> 'v tworld \<Rightarrow> 'v tworld option" where
  "call_top T c w = T c (upd_ts (\<lambda>s. s\<lparr>ts_calls := ts_calls s @ [c]\<rparr>) w)"

definition call_list :: "'v top \<Rightarrow> func option \<Rightarrow> u8 \<Rightarrow> gatt_item list \<Rightarrow> user \<Rightarrow> 'v tworld \<Rightarrow> 'v tworld option" where
  "call_list T f err items user_data w = do { f \<leftarrow> f; call_top T (TList f err items user_data) w }"

definition call_result :: "'v top \<Rightarrow> func option \<Rightarrow> u8 \<Rightarrow> u8 list \<Rightarrow> u16 \<Rightarrow> user \<Rightarrow> 'v tworld \<Rightarrow> 'v tworld option" where
  "call_result T f status pdu len user_data w = do { f \<leftarrow> f; call_top T (TResult f status pdu len user_data) w }"

definition primary_by_uuid_fn :: func where "primary_by_uuid_fn = 1"
definition primary_all_fn :: func where "primary_all_fn = 2"
definition resolve_included_uuid_fn :: func where "resolve_included_uuid_fn = 3"
definition find_included_fn :: func where "find_included_fn = 4"
definition char_discovered_fn :: func where "char_discovered_fn = 5"
definition read_blob_helper_fn :: func where "read_blob_helper_fn = 6"
definition read_char_helper_fn :: func where "read_char_helper_fn = 7"
definition prepare_write_fn :: func where "prepare_write_fn = 8"
definition desc_discovered_fn :: func where "desc_discovered_fn = 9"
definition discover_primary_unref_fn :: func where "discover_primary_unref_fn = 1"
definition isd_unref_fn :: func where "isd_unref_fn = 2"
definition inc_query_free_fn :: func where "inc_query_free_fn = 3"
definition discover_char_unref_fn :: func where "discover_char_unref_fn = 4"
definition discover_desc_unref_fn :: func where "discover_desc_unref_fn = 5"
definition read_long_destroy_fn :: func where "read_long_destroy_fn = 6"

section \<open>UUIDs on the wire\<close>

definition put_uuid_le :: "(u8 list \<Rightarrow> u8 list) \<Rightarrow> bt_uuid \<Rightarrow> buf \<Rightarrow> nat \<Rightarrow> buf option" where
  "put_uuid_le bswap_128 uuid dst i = (case uuid of
     BT_UUID16 v \<Rightarrow> put_le16 v dst i
   | _ \<Rightarrow> do { d \<leftarrow> u128_storage uuid; wr_bytes dst i (bswap_128 d) })"

text \<open>The parameter \<open>type\<close> is \<open>BT_UUID16\<close> or not.\<close>

definition get_uuid128 :: "(u8 list \<Rightarrow> u8 list) \<Rightarrow> bool \<Rightarrow> buf \<Rightarrow> nat \<Rightarrow> bt_uuid option" where
  "get_uuid128 bswap_128 is16 val i =
     (if is16 then do { v \<leftarrow> get_le16 val i; bt_uuid_to_uuid128 (snd (bt_uuid16_create v)) None }
      else do { d \<leftarrow> rd_bytes val i 16; Some (snd (bt_uuid128_create (bswap_128 d))) })"

text \<open>The string that \<open>bt_uuid_to_string\<close> leaves in a member that was zeroed before.\<close>

definition uuid_string :: "bt_uuid \<Rightarrow> string option" where
  "uuid_string u = do {
     (_, s) \<leftarrow> bt_uuid_to_string (Some u) (MAX_LEN_UUID_STR + 1);
     Some (case s of None \<Rightarrow> [] | Some s \<Rightarrow> s) }"

section \<open>Primary services\<close>

definition discover_primary_unref :: "'v tenv \<Rightarrow> nat \<Rightarrow> 'v tworld \<Rightarrow> 'v tworld option" where
  "discover_primary_unref G p w = do {
     dp \<leftarrow> primary_at p w;
     let w = set_obj p (ObjPrimary (dp\<lparr>dp_ref := dp_ref dp - 1\<rparr>)) w;
     if dp_ref dp - 1 > 0 then Some w
     else do {
       w \<leftarrow> g_attrib_unref G (dp_attrib dp) w;
       free_obj p w } }"

definition discover_primary_ref :: "nat \<Rightarrow> 'v tworld \<Rightarrow> (nat \<times> 'v tworld) option" where
  "discover_primary_ref p w = do {
     dp \<leftarrow> primary_at p w;
     Some (p, set_obj p (ObjPrimary (dp\<lparr>dp_ref := dp_ref dp + 1\<rparr>)) w) }"

definition encode_discover_primary ::
  "(u8 list \<Rightarrow> u8 list) \<Rightarrow> u16 \<Rightarrow> u16 \<Rightarrow> bt_uuid option \<Rightarrow> buf option \<Rightarrow> u64 \<Rightarrow> enc_result" where
  "encode_discover_primary bswap_128 start endh uuid pdu len = (let prim = snd (bt_uuid16_create GATT_PRIM_SVC_UUID) in
     case uuid of
       None \<Rightarrow> enc_read_by_grp_req bswap_128 start endh (Some prim) pdu len
     | Some u \<Rightarrow> do {
         value \<leftarrow> put_uuid_le bswap_128 u (fresh 16) 0;
         enc_find_by_type_req start endh (Some prim) (Some value) (of_nat (bt_uuid_len u)) pdu len })"

definition primary_by_uuid_cb :: "'v tenv \<Rightarrow> 'v top \<Rightarrow> u8 \<Rightarrow> u8 list \<Rightarrow> u16 \<Rightarrow> nat \<Rightarrow> 'v tworld \<Rightarrow> 'v tworld option" where
  "primary_by_uuid_cb G T status ipdu iplen p w = do {
     dp \<leftarrow> primary_at p w;
     let done = (\<lambda>err w. do { dp \<leftarrow> primary_at p w; call_list T (dp_cb dp) err (dp_primaries dp) (dp_user_data dp) w });
     if status \<noteq> 0 then done (if status = ATT_ECODE_ATTR_NOT_FOUND then 0 else status) w
     else do {
       ranges \<leftarrow> dec_find_by_type_resp (Some ipdu) (ucast iplen);
       if ranges = [] then done 0 w
       else do {
         let dp = dp\<lparr>dp_primaries := dp_primaries dp @ List.map Range ranges\<rparr>;
         let range = last ranges;
         if range_end range = 0xffff then done 0 (set_obj p (ObjPrimary dp) w)
         else if range_end range < dp_start dp then done ATT_ECODE_UNLIKELY (set_obj p (ObjPrimary dp) w)
         else do {
           let dp = dp\<lparr>dp_start := range_end range + 1\<rparr>;
           (buf, buflen, w) \<leftarrow> g_attrib_get_buffer G (dp_attrib dp) (set_obj p (ObjPrimary dp) w);
           (oplen, buf) \<leftarrow> encode_discover_primary (swap_128 G) (dp_start dp) 0xffff (Some (dp_uuid dp)) buf buflen;
           w \<leftarrow> put_buffer (dp_attrib dp) buf w;
           if oplen = 0 then done 0 w
           else do {
             (p, w) \<leftarrow> discover_primary_ref p w;
             (_, w) \<leftarrow> g_attrib_send G (dp_attrib dp) (dp_id dp) buf oplen (Some primary_by_uuid_fn) p
               (Some discover_primary_unref_fn) w;
             Some w } } } } }"

text \<open>The loop over the list: the last \<open>end\<close> and the services found.\<close>

fun primary_loop :: "(u8 list \<Rightarrow> u8 list) \<Rightarrow> bool \<Rightarrow> u8 list list \<Rightarrow> u16 \<Rightarrow> gatt_item list \<Rightarrow> (u16 \<times> gatt_item list) option" where
  "primary_loop bswap_128 is16 [] endh acc = Some (endh, acc)"
| "primary_loop bswap_128 is16 (data # l) endh acc = do {
     start \<leftarrow> get_le16 data 0;
     endh \<leftarrow> get_le16 data 2;
     uuid128 \<leftarrow> get_uuid128 bswap_128 is16 data 4;
     str \<leftarrow> uuid_string uuid128;
     primary_loop bswap_128 is16 l endh
       (acc @ [Primary \<lparr>gp_uuid = str, gp_range = \<lparr>range_start = start, range_end = endh\<rparr>\<rparr>]) }"

definition primary_all_cb :: "'v tenv \<Rightarrow> 'v top \<Rightarrow> u8 \<Rightarrow> u8 list \<Rightarrow> u16 \<Rightarrow> nat \<Rightarrow> 'v tworld \<Rightarrow> 'v tworld option" where
  "primary_all_cb G T status ipdu iplen p w = do {
     dp \<leftarrow> primary_at p w;
     let done = (\<lambda>err w. do { dp \<leftarrow> primary_at p w; call_list T (dp_cb dp) err (dp_primaries dp) (dp_user_data dp) w });
     if status \<noteq> 0 then done (if status = ATT_ECODE_ATTR_NOT_FOUND then 0 else status) w
     else do {
       list \<leftarrow> dec_read_by_grp_resp (Some ipdu) (ucast iplen);
       (case list of
          None \<Rightarrow> done ATT_ECODE_IO w
        | Some l \<Rightarrow>
            if al_len l \<noteq> 6 \<and> al_len l \<noteq> 20 then done ATT_ECODE_INVALID_PDU w
            else do {
              (endh, items) \<leftarrow> primary_loop (swap_128 G) (al_len l = 6) (take (unat (al_num l)) (al_data l)) 0
                (dp_primaries dp);
              let dp = dp\<lparr>dp_primaries := items\<rparr>;
              if endh < dp_start dp then done ATT_ECODE_UNLIKELY (set_obj p (ObjPrimary dp) w)
              else do {
                let dp = dp\<lparr>dp_start := endh + 1\<rparr>;
                let w = set_obj p (ObjPrimary dp) w;
                if endh = 0xffff then done 0 w
                else do {
                  (buf, buflen, w) \<leftarrow> g_attrib_get_buffer G (dp_attrib dp) w;
                  (oplen, buf) \<leftarrow> encode_discover_primary (swap_128 G) (dp_start dp) 0xffff None buf buflen;
                  w \<leftarrow> put_buffer (dp_attrib dp) buf w;
                  (p, w) \<leftarrow> discover_primary_ref p w;
                  (_, w) \<leftarrow> g_attrib_send G (dp_attrib dp) (dp_id dp) buf oplen (Some primary_all_fn) p
                    (Some discover_primary_unref_fn) w;
                  Some w } } }) } }"

definition gatt_discover_primary ::
  "'v tenv \<Rightarrow> attrib_ptr \<Rightarrow> bt_uuid option \<Rightarrow> func option \<Rightarrow> user \<Rightarrow> 'v tworld \<Rightarrow> (u32 \<times> 'v tworld) option" where
  "gatt_discover_primary G attrib uuid func user_data w = do {
     (buf, buflen, w) \<leftarrow> g_attrib_get_buffer G attrib w;
     (plen, buf) \<leftarrow> encode_discover_primary (swap_128 G) 0x0001 0xffff uuid buf buflen;
     w \<leftarrow> put_buffer attrib buf w;
     if plen = 0 then Some (0, w)
     else do {
       (att, w) \<leftarrow> g_attrib_ref attrib w;
       let (p, w) = new_obj (ObjPrimary \<lparr>dp_ref = 0, dp_attrib = att, dp_id = 0,
         dp_uuid = (case uuid of None \<Rightarrow> BT_UUID_UNSPEC | Some u \<Rightarrow> u), dp_start = 0x0001, dp_primaries = [],
         dp_cb = func, dp_user_data = user_data\<rparr>) w;
       (p, w) \<leftarrow> discover_primary_ref p w;
       (i, w) \<leftarrow> g_attrib_send G attrib 0 buf plen
         (Some (if uuid = None then primary_all_fn else primary_by_uuid_fn)) p (Some discover_primary_unref_fn) w;
       dp \<leftarrow> primary_at p w;
       Some (i, set_obj p (ObjPrimary (dp\<lparr>dp_id := i\<rparr>)) w) } }"

section \<open>Included services\<close>

definition isd_ref :: "nat \<Rightarrow> 'v tworld \<Rightarrow> (nat \<times> 'v tworld) option" where
  "isd_ref p w = do {
     isd \<leftarrow> isd_at p w;
     Some (p, set_obj p (ObjIncluded (isd\<lparr>isd_refs := isd_refs isd + 1\<rparr>)) w) }"

definition isd_unref :: "'v tenv \<Rightarrow> 'v top \<Rightarrow> nat \<Rightarrow> 'v tworld \<Rightarrow> 'v tworld option" where
  "isd_unref G T p w = do {
     isd \<leftarrow> isd_at p w;
     let w = set_obj p (ObjIncluded (isd\<lparr>isd_refs := isd_refs isd - 1\<rparr>)) w;
     if isd_refs isd - 1 > 0 then Some w
     else do {
       w \<leftarrow> call_list T (isd_cb isd) (word_of_int (isd_err isd)) (if isd_err isd \<noteq> 0 then [] else isd_includes isd)
         (isd_user_data isd) w;
       isd \<leftarrow> isd_at p w;
       w \<leftarrow> g_attrib_unref G (isd_attrib isd) w;
       free_obj p w } }"

definition note_err :: "nat \<Rightarrow> u8 \<Rightarrow> 'v tworld \<Rightarrow> 'v tworld option" where
  "note_err p err w = do {
     isd \<leftarrow> isd_at p w;
     Some (if isd_err isd = 0 then set_obj p (ObjIncluded (isd\<lparr>isd_err := uint err\<rparr>)) w else w) }"

definition resolve_included_uuid_cb :: "'v tenv \<Rightarrow> u8 \<Rightarrow> u8 list \<Rightarrow> u16 \<Rightarrow> nat \<Rightarrow> 'v tworld \<Rightarrow> 'v tworld option" where
  "resolve_included_uuid_cb G status pdu len p w = do {
     query \<leftarrow> query_at p w;
     isd \<leftarrow> isd_at (q_isd query) w;
     if status \<noteq> 0 then note_err (q_isd query) status w
     else do {
       (buf, buflen, w) \<leftarrow> g_attrib_get_buffer G (isd_attrib isd) w;
       (n, buf) \<leftarrow> dec_read_resp (Some pdu) (ucast len) buf buflen;
       w \<leftarrow> put_buffer (isd_attrib isd) buf w;
       if n \<noteq> 16 then note_err (q_isd query) ATT_ECODE_IO w
       else do {
         b \<leftarrow> buf;
         uuid128 \<leftarrow> get_uuid128 (swap_128 G) False b 0;
         str \<leftarrow> uuid_string uuid128;
         incl \<leftarrow> q_included query;
         let w = set_obj (q_isd query)
           (ObjIncluded (isd\<lparr>isd_includes := isd_includes isd @ [Included (incl\<lparr>gi_uuid := str\<rparr>)]\<rparr>)) w;
         note_err (q_isd query) 0 (set_obj p (ObjQuery (query\<lparr>q_included := None\<rparr>)) w) } } }"

definition inc_query_free :: "'v tenv \<Rightarrow> 'v top \<Rightarrow> nat \<Rightarrow> 'v tworld \<Rightarrow> 'v tworld option" where
  "inc_query_free G T p w = do {
     query \<leftarrow> query_at p w;
     w \<leftarrow> isd_unref G T (q_isd query) w;
     free_obj p w }"

definition resolve_included_uuid :: "'v tenv \<Rightarrow> nat \<Rightarrow> gatt_included \<Rightarrow> 'v tworld \<Rightarrow> (u32 \<times> 'v tworld) option" where
  "resolve_included_uuid G p incl w = do {
     isd \<leftarrow> isd_at p w;
     (buf, buflen, w) \<leftarrow> g_attrib_get_buffer G (isd_attrib isd) w;
     (oplen, buf) \<leftarrow> enc_read_req (range_start (gi_range incl)) buf buflen;
     w \<leftarrow> put_buffer (isd_attrib isd) buf w;
     (p, w) \<leftarrow> isd_ref p w;
     let (q, w) = new_obj (ObjQuery \<lparr>q_isd = p, q_included = Some incl\<rparr>) w;
     g_attrib_send G (isd_attrib isd) (isd_id isd) buf oplen (Some resolve_included_uuid_fn) q
       (Some inc_query_free_fn) w }"

definition included_from_buf :: "(u8 list \<Rightarrow> u8 list) \<Rightarrow> buf \<Rightarrow> u16 \<Rightarrow> gatt_included option" where
  "included_from_buf bswap_128 buf len = do {
     handle \<leftarrow> get_le16 buf 0;
     start \<leftarrow> get_le16 buf 2;
     endh \<leftarrow> get_le16 buf 4;
     str \<leftarrow> (if len = 8 then do { u \<leftarrow> get_uuid128 bswap_128 True buf 6; uuid_string u } else Some []);
     Some \<lparr>gi_uuid = str, gi_handle = handle, gi_range = \<lparr>range_start = start, range_end = endh\<rparr>\<rparr> }"

definition find_included :: "'v tenv \<Rightarrow> nat \<Rightarrow> u16 \<Rightarrow> 'v tworld \<Rightarrow> (u32 \<times> 'v tworld) option" where
  "find_included G p start w = do {
     isd \<leftarrow> isd_at p w;
     (buf, buflen, w) \<leftarrow> g_attrib_get_buffer G (isd_attrib isd) w;
     (oplen, buf) \<leftarrow> enc_read_by_type_req (swap_128 G) start (isd_end_handle isd)
       (Some (snd (bt_uuid16_create GATT_INCLUDE_UUID))) buf buflen;
     w \<leftarrow> put_buffer (isd_attrib isd) buf w;
     (p, w) \<leftarrow> isd_ref p w;
     if isd_id isd \<noteq> 0 then
       g_attrib_send G (isd_attrib isd) (isd_id isd) buf oplen (Some find_included_fn) p (Some isd_unref_fn) w
     else do {
       (i, w) \<leftarrow> g_attrib_send G (isd_attrib isd) 0 buf oplen (Some find_included_fn) p (Some isd_unref_fn) w;
       isd \<leftarrow> isd_at p w;
       Some (i, set_obj p (ObjIncluded (isd\<lparr>isd_id := i\<rparr>)) w) } }"

text \<open>The loop over the list, with the value of \<open>last_handle\<close>.\<close>

fun included_loop :: "'v tenv \<Rightarrow> nat \<Rightarrow> u16 \<Rightarrow> u8 list list \<Rightarrow> u16 \<Rightarrow> 'v tworld \<Rightarrow> (u16 \<times> 'v tworld) option" where
  "included_loop G p len [] last_handle w = Some (last_handle, w)"
| "included_loop G p len (data # l) last_handle w = do {
     incl \<leftarrow> included_from_buf (swap_128 G) data len;
     w \<leftarrow> (if len = 6 then do { (_, w) \<leftarrow> resolve_included_uuid G p incl w; Some w }
       else do {
         isd \<leftarrow> isd_at p w;
         Some (set_obj p (ObjIncluded (isd\<lparr>isd_includes := isd_includes isd @ [Included incl]\<rparr>)) w) });
     included_loop G p len l (gi_handle incl) w }"

definition find_included_cb :: "'v tenv \<Rightarrow> u8 \<Rightarrow> u8 list \<Rightarrow> u16 \<Rightarrow> nat \<Rightarrow> 'v tworld \<Rightarrow> 'v tworld option" where
  "find_included_cb G status pdu len p w = do {
     isd \<leftarrow> isd_at p w;
     let err = (if status = ATT_ECODE_ATTR_NOT_FOUND then 0 else status);
     if status \<noteq> 0 then note_err p err w
     else do {
       list \<leftarrow> dec_read_by_type_resp (Some pdu) (ucast len);
       (case list of
          None \<Rightarrow> note_err p ATT_ECODE_IO w
        | Some l \<Rightarrow>
            if al_len l \<noteq> 6 \<and> al_len l \<noteq> 8 then note_err p ATT_ECODE_IO w
            else do {
              (last_handle, w) \<leftarrow> included_loop G p (al_len l) (take (unat (al_num l)) (al_data l)) (isd_end_handle isd) w;
              isd \<leftarrow> isd_at p w;
              if last_handle < isd_start_handle isd then
                note_err p err (set_obj p (ObjIncluded (isd\<lparr>isd_err := uint ATT_ECODE_UNLIKELY\<rparr>)) w)
              else do {
                let isd = isd\<lparr>isd_start_handle := last_handle + 1\<rparr>;
                let w = set_obj p (ObjIncluded isd) w;
                w \<leftarrow> (if last_handle < isd_end_handle isd
                  then do { (_, w) \<leftarrow> find_included G p (isd_start_handle isd) w; Some w } else Some w);
                note_err p err w } }) } }"

definition gatt_find_included ::
  "'v tenv \<Rightarrow> attrib_ptr \<Rightarrow> u16 \<Rightarrow> u16 \<Rightarrow> func option \<Rightarrow> user \<Rightarrow> 'v tworld \<Rightarrow> (u32 \<times> 'v tworld) option" where
  "gatt_find_included G attrib start endh func user_data w = do {
     (att, w) \<leftarrow> g_attrib_ref attrib w;
     let (p, w) = new_obj (ObjIncluded \<lparr>isd_attrib = att, isd_id = 0, isd_refs = 0, isd_err = 0,
       isd_start_handle = start, isd_end_handle = endh, isd_includes = [], isd_cb = func,
       isd_user_data = user_data\<rparr>) w;
     find_included G p start w }"

end
