(* ===== verification/GattChar.thy ===== *)
theory GattChar
  imports Gatt
begin

text \<open>
  \<^verbatim>\<open>bluez/attrib/gatt.c\<close>: the discovery of characteristics and of descriptors. Conventions as in
  theory \<open>Gatt\<close>.
\<close>

definition ATT_FIND_INFO_RESP_FMT_16BIT :: u8 where "ATT_FIND_INFO_RESP_FMT_16BIT = 0x01"

section \<open>Characteristics\<close>

definition discover_char_unref :: "'v tenv \<Rightarrow> nat \<Rightarrow> 'v tworld \<Rightarrow> 'v tworld option" where
  "discover_char_unref G p w = do {
     dc \<leftarrow> char_at p w;
     let w = set_obj p (ObjChar (dc\<lparr>dc_ref := dc_ref dc - 1\<rparr>)) w;
     if dc_ref dc - 1 > 0 then Some w
     else do {
       w \<leftarrow> g_attrib_unref G (dc_attrib dc) w;
       free_obj p w } }"

definition discover_char_ref :: "nat \<Rightarrow> 'v tworld \<Rightarrow> (nat \<times> 'v tworld) option" where
  "discover_char_ref p w = do {
     dc \<leftarrow> char_at p w;
     Some (p, set_obj p (ObjChar (dc\<lparr>dc_ref := dc_ref dc + 1\<rparr>)) w) }"

text \<open>Whether the entry is skipped because its UUID is not the one that is looked for.\<close>

definition other_uuid :: "bt_uuid option \<Rightarrow> bt_uuid \<Rightarrow> bool option" where
  "other_uuid uuid u = (case uuid of None \<Rightarrow> Some False | Some v \<Rightarrow> do { c \<leftarrow> bt_uuid_cmp v u; Some (c \<noteq> 0) })"

text \<open>The loop over the list: the last handle and the characteristics found.\<close>

fun char_loop ::
  "(u8 list \<Rightarrow> u8 list) \<Rightarrow> bool \<Rightarrow> bt_uuid option \<Rightarrow> u8 list list \<Rightarrow> u16 \<Rightarrow> gatt_item list
   \<Rightarrow> (u16 \<times> gatt_item list) option" where
  "char_loop bswap_128 is16 uuid [] lasth acc = Some (lasth, acc)"
| "char_loop bswap_128 is16 uuid (value # l) lasth acc = do {
     lasth \<leftarrow> get_le16 value 0;
     uuid128 \<leftarrow> get_uuid128 bswap_128 is16 value 5;
     skip \<leftarrow> other_uuid uuid uuid128;
     if skip then char_loop bswap_128 is16 uuid l lasth acc
     else do {
       properties \<leftarrow> rd8 value 2;
       value_handle \<leftarrow> get_le16 value 3;
       str \<leftarrow> uuid_string uuid128;
       char_loop bswap_128 is16 uuid l lasth (acc @ [Characteristic
         \<lparr>gc_uuid = str, gc_handle = lasth, gc_properties = properties, gc_value_handle = value_handle\<rparr>]) } }"

definition char_discovered_cb :: "'v tenv \<Rightarrow> 'v top \<Rightarrow> u8 \<Rightarrow> u8 list \<Rightarrow> u16 \<Rightarrow> nat \<Rightarrow> 'v tworld \<Rightarrow> 'v tworld option" where
  "char_discovered_cb G T status ipdu iplen p w = do {
     dc \<leftarrow> char_at p w;
     let done = (\<lambda>err w. do {
       dc \<leftarrow> char_at p w; call_list T (dc_cb dc) err (dc_characteristics dc) (dc_user_data dc) w });
     if status = ATT_ECODE_ATTR_NOT_FOUND then done (if dc_characteristics dc \<noteq> [] then 0 else status) w
     else if status \<noteq> 0 then done status w
     else do {
       list \<leftarrow> dec_read_by_type_resp (Some ipdu) (ucast iplen);
       (case list of
          None \<Rightarrow> done ATT_ECODE_IO w
        | Some l \<Rightarrow> do {
            (lasth, items) \<leftarrow> char_loop (swap_128 G) (al_len l = 7) (dc_uuid dc) (take (unat (al_num l)) (al_data l)) 0
              (dc_characteristics dc);
            let dc = dc\<lparr>dc_characteristics := items\<rparr>;
            if lasth < dc_start dc then done ATT_ECODE_UNLIKELY (set_obj p (ObjChar dc) w)
            else do {
              let dc = dc\<lparr>dc_start := lasth + 1\<rparr>;
              let w = set_obj p (ObjChar dc) w;
              if lasth \<noteq> 0 \<and> dc_start dc < dc_end dc then do {
                (buf, buflen, w) \<leftarrow> g_attrib_get_buffer G (dc_attrib dc) w;
                (oplen, buf) \<leftarrow> enc_read_by_type_req (swap_128 G) (dc_start dc) (dc_end dc)
                  (Some (snd (bt_uuid16_create GATT_CHARAC_UUID))) buf buflen;
                w \<leftarrow> put_buffer (dc_attrib dc) buf w;
                if oplen = 0 then Some w
                else do {
                  (p, w) \<leftarrow> discover_char_ref p w;
                  (_, w) \<leftarrow> g_attrib_send G (dc_attrib dc) (dc_id dc) buf oplen (Some char_discovered_fn) p
                    (Some discover_char_unref_fn) w;
                  Some w } }
              else done 0 w } }) } }"

definition gatt_discover_char ::
  "'v tenv \<Rightarrow> attrib_ptr \<Rightarrow> u16 \<Rightarrow> u16 \<Rightarrow> bt_uuid option \<Rightarrow> func option \<Rightarrow> user \<Rightarrow> 'v tworld \<Rightarrow> (u32 \<times> 'v tworld) option"
where
  "gatt_discover_char G attrib start endh uuid func user_data w = do {
     (buf, buflen, w) \<leftarrow> g_attrib_get_buffer G attrib w;
     (plen, buf) \<leftarrow> enc_read_by_type_req (swap_128 G) start endh
       (Some (snd (bt_uuid16_create GATT_CHARAC_UUID))) buf buflen;
     w \<leftarrow> put_buffer attrib buf w;
     if plen = 0 then Some (0, w)
     else do {
       (att, w) \<leftarrow> g_attrib_ref attrib w;
       let (p, w) = new_obj (ObjChar \<lparr>dc_ref = 0, dc_attrib = att, dc_id = 0, dc_uuid = uuid, dc_end = endh,
         dc_start = start, dc_characteristics = [], dc_cb = func, dc_user_data = user_data\<rparr>) w;
       (p, w) \<leftarrow> discover_char_ref p w;
       (i, w) \<leftarrow> g_attrib_send G attrib 0 buf plen (Some char_discovered_fn) p (Some discover_char_unref_fn) w;
       dc \<leftarrow> char_at p w;
       Some (i, set_obj p (ObjChar (dc\<lparr>dc_id := i\<rparr>)) w) } }"

section \<open>Descriptors\<close>

definition discover_desc_unref :: "'v tenv \<Rightarrow> nat \<Rightarrow> 'v tworld \<Rightarrow> 'v tworld option" where
  "discover_desc_unref G p w = do {
     dd \<leftarrow> desc_at p w;
     let w = set_obj p (ObjDesc (dd\<lparr>dd_ref := dd_ref dd - 1\<rparr>)) w;
     if dd_ref dd - 1 > 0 then Some w
     else do {
       w \<leftarrow> g_attrib_unref G (dd_attrib dd) w;
       free_obj p w } }"

definition discover_desc_ref :: "nat \<Rightarrow> 'v tworld \<Rightarrow> (nat \<times> 'v tworld) option" where
  "discover_desc_ref p w = do {
     dd \<leftarrow> desc_at p w;
     Some (p, set_obj p (ObjDesc (dd\<lparr>dd_ref := dd_ref dd + 1\<rparr>)) w) }"

text \<open>The loop ends with the first descriptor that has the UUID that is looked for: the third result.\<close>

fun desc_loop ::
  "(u8 list \<Rightarrow> u8 list) \<Rightarrow> bool \<Rightarrow> bt_uuid option \<Rightarrow> u8 list list \<Rightarrow> u16 \<Rightarrow> gatt_item list
   \<Rightarrow> (u16 \<times> gatt_item list \<times> bool) option" where
  "desc_loop bswap_128 is16 uuid [] lasth acc = Some (lasth, acc, False)"
| "desc_loop bswap_128 is16 uuid (value # l) lasth acc = do {
     lasth \<leftarrow> get_le16 value 0;
     uuid128 \<leftarrow> get_uuid128 bswap_128 is16 value 2;
     skip \<leftarrow> other_uuid uuid uuid128;
     if skip then desc_loop bswap_128 is16 uuid l lasth acc
     else do {
       str \<leftarrow> uuid_string uuid128;
       uuid16 \<leftarrow> (if is16 then get_le16 value 2 else Some 0);
       let acc = acc @ [Descriptor \<lparr>gd_uuid = str, gd_handle = lasth, gd_uuid16 = uuid16\<rparr>];
       if uuid \<noteq> None then Some (lasth, acc, True)
       else desc_loop bswap_128 is16 uuid l lasth acc } }"

definition desc_discovered_cb :: "'v tenv \<Rightarrow> 'v top \<Rightarrow> u8 \<Rightarrow> u8 list \<Rightarrow> u16 \<Rightarrow> nat \<Rightarrow> 'v tworld \<Rightarrow> 'v tworld option" where
  "desc_discovered_cb G T status ipdu iplen p w = do {
     dd \<leftarrow> desc_at p w;
     let done = (\<lambda>err w. do {
       dd \<leftarrow> desc_at p w; call_list T (dd_cb dd) err (dd_descriptors dd) (dd_user_data dd) w });
     if status = ATT_ECODE_ATTR_NOT_FOUND then done (if dd_descriptors dd \<noteq> [] then 0 else status) w
     else if status \<noteq> 0 then done status w
     else do {
       (list, format) \<leftarrow> dec_find_info_resp (Some ipdu) (ucast iplen) (Some 0);
       (case list of
          None \<Rightarrow> done ATT_ECODE_IO w
        | Some l \<Rightarrow> do {
            (lasth, items, uuid_found) \<leftarrow> desc_loop (swap_128 G) (format = Some ATT_FIND_INFO_RESP_FMT_16BIT)
              (dd_uuid dd) (take (unat (al_num l)) (al_data l)) 0xffff (dd_descriptors dd);
            let dd = dd\<lparr>dd_descriptors := items\<rparr>;
            if lasth < dd_start dd then done ATT_ECODE_UNLIKELY (set_obj p (ObjDesc dd) w)
            else do {
              let dd = dd\<lparr>dd_start := lasth + 1\<rparr>;
              let w = set_obj p (ObjDesc dd) w;
              if lasth < dd_end dd \<and> \<not> uuid_found then do {
                (buf, buflen, w) \<leftarrow> g_attrib_get_buffer G (dd_attrib dd) w;
                (oplen, buf) \<leftarrow> enc_find_info_req (dd_start dd) (dd_end dd) buf buflen;
                w \<leftarrow> put_buffer (dd_attrib dd) buf w;
                if oplen = 0 then Some w
                else do {
                  (p, w) \<leftarrow> discover_desc_ref p w;
                  (_, w) \<leftarrow> g_attrib_send G (dd_attrib dd) (dd_id dd) buf oplen (Some desc_discovered_fn) p
                    (Some discover_desc_unref_fn) w;
                  Some w } }
              else done 0 w } }) } }"

definition gatt_discover_desc ::
  "'v tenv \<Rightarrow> attrib_ptr \<Rightarrow> u16 \<Rightarrow> u16 \<Rightarrow> bt_uuid option \<Rightarrow> func option \<Rightarrow> user \<Rightarrow> 'v tworld \<Rightarrow> (u32 \<times> 'v tworld) option"
where
  "gatt_discover_desc G attrib start endh uuid func user_data w = do {
     (buf, buflen, w) \<leftarrow> g_attrib_get_buffer G attrib w;
     (plen, buf) \<leftarrow> enc_find_info_req start endh buf buflen;
     w \<leftarrow> put_buffer attrib buf w;
     if plen = 0 then Some (0, w)
     else do {
       (att, w) \<leftarrow> g_attrib_ref attrib w;
       let (p, w) = new_obj (ObjDesc \<lparr>dd_ref = 0, dd_attrib = att, dd_id = 0, dd_uuid = uuid, dd_start = start,
         dd_end = endh, dd_descriptors = [], dd_cb = func, dd_user_data = user_data\<rparr>) w;
       (p, w) \<leftarrow> discover_desc_ref p w;
       (i, w) \<leftarrow> g_attrib_send G attrib 0 buf plen (Some desc_discovered_fn) p (Some discover_desc_unref_fn) w;
       dd \<leftarrow> desc_at p w;
       Some (i, set_obj p (ObjDesc (dd\<lparr>dd_id := i\<rparr>)) w) } }"

end
