(* ===== verification/GattValue.thy ===== *)
theory GattValue
  imports GattChar
begin

text \<open>
  \<^verbatim>\<open>bluez/attrib/gatt.c\<close>: reading and writing of values, long ones in several requests, the write
  commands and the exchange of the MTU; and what a call of the \<open>GAttrib\<close> layer runs in this one.
  Conventions as in theory \<open>Gatt\<close>.
\<close>

definition ATT_WRITE_ALL_PREP_WRITES :: u8 where "ATT_WRITE_ALL_PREP_WRITES = 0x01"

section \<open>Reading\<close>

definition gatt_read_char_by_uuid ::
  "'v tenv \<Rightarrow> attrib_ptr \<Rightarrow> u16 \<Rightarrow> u16 \<Rightarrow> bt_uuid option \<Rightarrow> func option \<Rightarrow> user \<Rightarrow> 'v tworld \<Rightarrow> (u32 \<times> 'v tworld) option"
where
  "gatt_read_char_by_uuid G attrib start endh uuid func user_data w = do {
     (buf, buflen, w) \<leftarrow> g_attrib_get_buffer G attrib w;
     (plen, buf) \<leftarrow> enc_read_by_type_req (swap_128 G) start endh uuid buf buflen;
     w \<leftarrow> put_buffer attrib buf w;
     if plen = 0 then Some (0, w)
     else g_attrib_send G attrib 0 buf plen func user_data None w }"

definition read_long_destroy :: "'v tenv \<Rightarrow> nat \<Rightarrow> 'v tworld \<Rightarrow> 'v tworld option" where
  "read_long_destroy G p w = do {
     rl \<leftarrow> read_at p w;
     let w = set_obj p (ObjRead (rl\<lparr>rl_ref := rl_ref rl - 1\<rparr>)) w;
     if rl_ref rl - 1 > 0 then Some w
     else do {
       w \<leftarrow> g_attrib_unref G (rl_attrib rl) w;
       free_obj p w } }"

definition read_ref :: "nat \<Rightarrow> 'v tworld \<Rightarrow> 'v tworld option" where
  "read_ref p w = do { rl \<leftarrow> read_at p w; Some (set_obj p (ObjRead (rl\<lparr>rl_ref := rl_ref rl + 1\<rparr>)) w) }"

text \<open>
  The end of both helpers: the next part is asked for, or the read ends with \<open>done\<close>. The bearer never
  passes an empty PDU; a length of 0 would make the copy run over.
\<close>

definition read_blob_helper :: "'v tenv \<Rightarrow> 'v top \<Rightarrow> u8 \<Rightarrow> u8 list \<Rightarrow> u16 \<Rightarrow> nat \<Rightarrow> 'v tworld \<Rightarrow> 'v tworld option" where
  "read_blob_helper G T status rpdu rlen p w = do {
     rl \<leftarrow> read_at p w;
     let done = (\<lambda>status w. do {
       rl \<leftarrow> read_at p w; call_result T (rl_func rl) status (rl_buffer rl) (rl_size rl) (rl_user_data rl) w });
     if status \<noteq> 0 \<or> rlen = 1 then done 0 w
     else if rlen = 0 then None
     else do {
       let tmp = g_realloc (rl_buffer rl) (unat (rl_size rl) + unat rlen - 1);
       tmp \<leftarrow> memcpy tmp (unat (rl_size rl)) rpdu 1 (unat rlen - 1);
       let rl = rl\<lparr>rl_buffer := tmp, rl_size := rl_size rl + (rlen - 1)\<rparr>;
       (buf, buflen, w) \<leftarrow> g_attrib_get_buffer G (rl_attrib rl) (set_obj p (ObjRead rl) w);
       if ucast rlen < buflen then done 0 w
       else do {
         (plen, buf) \<leftarrow> enc_read_blob_req (rl_handle rl) (rl_size rl - 1) buf buflen;
         w \<leftarrow> put_buffer (rl_attrib rl) buf w;
         (i, w) \<leftarrow> g_attrib_send G (rl_attrib rl) (rl_id rl) buf plen (Some read_blob_helper_fn) p
           (Some read_long_destroy_fn) w;
         if i \<noteq> 0 then read_ref p w else done ATT_ECODE_IO w } } }"

definition read_char_helper :: "'v tenv \<Rightarrow> 'v top \<Rightarrow> u8 \<Rightarrow> u8 list \<Rightarrow> u16 \<Rightarrow> nat \<Rightarrow> 'v tworld \<Rightarrow> 'v tworld option" where
  "read_char_helper G T status rpdu rlen p w = do {
     rl \<leftarrow> read_at p w;
     let done = (\<lambda>status w. do {
       rl \<leftarrow> read_at p w; call_result T (rl_func rl) status rpdu rlen (rl_user_data rl) w });
     (buf, buflen, w) \<leftarrow> g_attrib_get_buffer G (rl_attrib rl) w;
     if status \<noteq> 0 \<or> ucast rlen < buflen then done status w
     else do {
       b \<leftarrow> rd_bytes rpdu 0 (unat rlen);
       let w = set_obj p (ObjRead (rl\<lparr>rl_buffer := b, rl_size := rlen\<rparr>)) w;
       (plen, buf) \<leftarrow> enc_read_blob_req (rl_handle rl) (rlen - 1) buf buflen;
       w \<leftarrow> put_buffer (rl_attrib rl) buf w;
       (i, w) \<leftarrow> g_attrib_send G (rl_attrib rl) (rl_id rl) buf plen (Some read_blob_helper_fn) p
         (Some read_long_destroy_fn) w;
       if i \<noteq> 0 then read_ref p w else done ATT_ECODE_IO w } }"

definition gatt_read_char ::
  "'v tenv \<Rightarrow> attrib_ptr \<Rightarrow> u16 \<Rightarrow> func option \<Rightarrow> user \<Rightarrow> 'v tworld \<Rightarrow> (u32 \<times> 'v tworld) option" where
  "gatt_read_char G attrib handle func user_data w = do {
     (att, w) \<leftarrow> g_attrib_ref attrib w;
     let (p, w) = new_obj (ObjRead \<lparr>rl_attrib = att, rl_func = func, rl_user_data = user_data, rl_buffer = [],
       rl_size = 0, rl_handle = handle, rl_id = 0, rl_ref = 0\<rparr>) w;
     (buf, buflen, w) \<leftarrow> g_attrib_get_buffer G attrib w;
     (plen, buf) \<leftarrow> enc_read_req handle buf buflen;
     w \<leftarrow> put_buffer attrib buf w;
     (i, w) \<leftarrow> g_attrib_send G attrib 0 buf plen (Some read_char_helper_fn) p (Some read_long_destroy_fn) w;
     if i = 0 then do {
       w \<leftarrow> g_attrib_unref G att w;
       w \<leftarrow> free_obj p w;
       Some (i, w) }
     else do {
       w \<leftarrow> read_ref p w;
       rl \<leftarrow> read_at p w;
       Some (i, set_obj p (ObjRead (rl\<lparr>rl_id := i\<rparr>)) w) } }"

section \<open>Writing\<close>

definition execute_write ::
  "'v tenv \<Rightarrow> attrib_ptr \<Rightarrow> u8 \<Rightarrow> func option \<Rightarrow> user \<Rightarrow> 'v tworld \<Rightarrow> (u32 \<times> 'v tworld) option" where
  "execute_write G attrib flags func user_data w = do {
     (buf, buflen, w) \<leftarrow> g_attrib_get_buffer G attrib w;
     (plen, buf) \<leftarrow> enc_exec_write_req flags buf buflen;
     w \<leftarrow> put_buffer attrib buf w;
     if plen = 0 then Some (0, w)
     else g_attrib_send G attrib 0 buf plen func user_data None w }"

text \<open>\<open>value\<close> points \<open>offset\<close> bytes behind the start of the copied value.\<close>

definition prepare_write :: "'v tenv \<Rightarrow> nat \<Rightarrow> 'v tworld \<Rightarrow> (u32 \<times> 'v tworld) option" where
  "prepare_write G p w = do {
     wl \<leftarrow> write_at p w;
     let value = drop (unat (wl_offset wl)) (wl_value wl);
     let vlen = wl_vlen wl - ucast (wl_offset wl);
     (buf, buflen, w) \<leftarrow> g_attrib_get_buffer G (wl_attrib wl) w;
     (plen, buf) \<leftarrow> enc_prep_write_req (wl_handle wl) (wl_offset wl) (Some value) vlen buf buflen;
     w \<leftarrow> put_buffer (wl_attrib wl) buf w;
     if plen = 0 then Some (0, w)
     else g_attrib_send G (wl_attrib wl) 0 buf plen (Some prepare_write_fn) p None w }"

definition prepare_write_cb :: "'v tenv \<Rightarrow> 'v top \<Rightarrow> u8 \<Rightarrow> u8 list \<Rightarrow> u16 \<Rightarrow> nat \<Rightarrow> 'v tworld \<Rightarrow> 'v tworld option" where
  "prepare_write_cb G T status rpdu rlen p w = do {
     wl \<leftarrow> write_at p w;
     if status \<noteq> 0 then call_result T (wl_func wl) status rpdu rlen (wl_user_data wl) w
     else do {
       let wl = wl\<lparr>wl_offset := wl_offset wl + (rlen - 5)\<rparr>;
       let w = set_obj p (ObjWrite wl) w;
       if ucast (wl_offset wl) = wl_vlen wl then do {
         (_, w) \<leftarrow> execute_write G (wl_attrib wl) ATT_WRITE_ALL_PREP_WRITES (wl_func wl) (wl_user_data wl) w;
         free_obj p w }
       else do {
         (_, w) \<leftarrow> prepare_write G p w;
         Some w } } }"

text \<open>\<open>value\<close> is the object behind the pointer; it has at least \<open>vlen\<close> bytes.\<close>

definition gatt_write_char ::
  "'v tenv \<Rightarrow> attrib_ptr \<Rightarrow> u16 \<Rightarrow> buf \<Rightarrow> u64 \<Rightarrow> func option \<Rightarrow> user \<Rightarrow> 'v tworld \<Rightarrow> (u32 \<times> 'v tworld) option" where
  "gatt_write_char G attrib handle value vlen func user_data w = do {
     (buf, buflen, w) \<leftarrow> g_attrib_get_buffer G attrib w;
     if vlen \<le> buflen - 3 then do {
       (plen, buf) \<leftarrow> enc_write_req handle (Some value) vlen buf buflen;
       w \<leftarrow> put_buffer attrib buf w;
       if plen = 0 then Some (0, w)
       else g_attrib_send G attrib 0 buf plen func user_data None w }
     else do {
       v \<leftarrow> rd_bytes value 0 (unat vlen);
       let (p, w) = new_obj (ObjWrite \<lparr>wl_attrib = attrib, wl_func = func, wl_user_data = user_data,
         wl_handle = handle, wl_offset = 0, wl_value = v, wl_vlen = vlen\<rparr>) w;
       prepare_write G p w } }"

definition gatt_execute_write ::
  "'v tenv \<Rightarrow> attrib_ptr \<Rightarrow> u8 \<Rightarrow> func option \<Rightarrow> user \<Rightarrow> 'v tworld \<Rightarrow> (u32 \<times> 'v tworld) option" where
  "gatt_execute_write G attrib flags func user_data w = execute_write G attrib flags func user_data w"

definition gatt_reliable_write_char ::
  "'v tenv \<Rightarrow> attrib_ptr \<Rightarrow> u16 \<Rightarrow> buf \<Rightarrow> u64 \<Rightarrow> func option \<Rightarrow> user \<Rightarrow> 'v tworld \<Rightarrow> (u32 \<times> 'v tworld) option" where
  "gatt_reliable_write_char G attrib handle value vlen func user_data w = do {
     (buf, buflen, w) \<leftarrow> g_attrib_get_buffer G attrib w;
     (plen, buf) \<leftarrow> enc_prep_write_req handle 0 (Some value) vlen buf buflen;
     w \<leftarrow> put_buffer attrib buf w;
     if plen = 0 then Some (0, w)
     else g_attrib_send G attrib 0 buf plen func user_data None w }"

definition gatt_exchange_mtu ::
  "'v tenv \<Rightarrow> attrib_ptr \<Rightarrow> u16 \<Rightarrow> func option \<Rightarrow> user \<Rightarrow> 'v tworld \<Rightarrow> (u32 \<times> 'v tworld) option" where
  "gatt_exchange_mtu G attrib mtu func user_data w = do {
     (buf, buflen, w) \<leftarrow> g_attrib_get_buffer G attrib w;
     (plen, buf) \<leftarrow> enc_mtu_req mtu buf buflen;
     w \<leftarrow> put_buffer attrib buf w;
     g_attrib_send G attrib 0 buf plen func user_data None w }"

text \<open>An \<open>int\<close> length becomes a \<open>size_t\<close>.\<close>

definition gatt_write_cmd ::
  "'v tenv \<Rightarrow> attrib_ptr \<Rightarrow> u16 \<Rightarrow> buf \<Rightarrow> int \<Rightarrow> func option \<Rightarrow> user \<Rightarrow> 'v tworld \<Rightarrow> (u32 \<times> 'v tworld) option" where
  "gatt_write_cmd G attrib handle value vlen notify user_data w = do {
     (buf, buflen, w) \<leftarrow> g_attrib_get_buffer G attrib w;
     (plen, buf) \<leftarrow> enc_write_cmd handle (Some value) (word_of_int vlen) buf buflen;
     w \<leftarrow> put_buffer attrib buf w;
     g_attrib_send G attrib 0 buf plen None user_data notify w }"

definition gatt_signed_write_cmd ::
  "'v tenv \<Rightarrow> attrib_ptr \<Rightarrow> u16 \<Rightarrow> buf \<Rightarrow> int \<Rightarrow> alg_kernel option \<Rightarrow> u8 list \<Rightarrow> u32 \<Rightarrow> func option \<Rightarrow> user \<Rightarrow> 'v tworld
   \<Rightarrow> (u32 \<times> 'v tworld) option" where
  "gatt_signed_write_cmd G attrib handle value vlen crypto csrk sign_cnt notify user_data w = do {
     (buf, buflen, w) \<leftarrow> g_attrib_get_buffer G attrib w;
     (plen, buf) \<leftarrow> enc_signed_write_cmd handle (Some value) (word_of_int vlen) crypto csrk sign_cnt buf buflen;
     w \<leftarrow> put_buffer attrib buf w;
     if plen = 0 then Some (0, w)
     else g_attrib_send G attrib 0 buf plen None user_data notify w }"

section \<open>Called by the \<open>GAttrib\<close>\<close>

text \<open>A function of this layer, or else one of its user.\<close>

definition run_result :: "'v tenv \<Rightarrow> 'v top \<Rightarrow> func \<Rightarrow> u8 \<Rightarrow> u8 list \<Rightarrow> u16 \<Rightarrow> nat \<Rightarrow> 'v tworld \<Rightarrow> 'v tworld option" where
  "run_result G T f status pdu len p w =
     (if f = primary_by_uuid_fn then primary_by_uuid_cb G T status pdu len p w
      else if f = primary_all_fn then primary_all_cb G T status pdu len p w
      else if f = resolve_included_uuid_fn then resolve_included_uuid_cb G status pdu len p w
      else if f = find_included_fn then find_included_cb G status pdu len p w
      else if f = char_discovered_fn then char_discovered_cb G T status pdu len p w
      else if f = read_blob_helper_fn then read_blob_helper G T status pdu len p w
      else if f = read_char_helper_fn then read_char_helper G T status pdu len p w
      else if f = prepare_write_fn then prepare_write_cb G T status pdu len p w
      else if f = desc_discovered_fn then desc_discovered_cb G T status pdu len p w
      else call_top T (TResult f status pdu len p) w)"

definition run_destroy :: "'v tenv \<Rightarrow> 'v top \<Rightarrow> func \<Rightarrow> nat \<Rightarrow> 'v tworld \<Rightarrow> 'v tworld option" where
  "run_destroy G T f p w =
     (if f = discover_primary_unref_fn then discover_primary_unref G p w
      else if f = isd_unref_fn then isd_unref G T p w
      else if f = inc_query_free_fn then inc_query_free G T p w
      else if f = discover_char_unref_fn then discover_char_unref G p w
      else if f = discover_desc_unref_fn then discover_desc_unref G p w
      else if f = read_long_destroy_fn then read_long_destroy G p w
      else call_top T (TDestroy f p) w)"

fun gatt_client :: "('v tenv \<Rightarrow> 'v top) \<Rightarrow> 'v tenv \<Rightarrow> gcall \<Rightarrow> 'v tworld \<Rightarrow> 'v tworld option" where
  "gatt_client T G (GResult f status pdu len p) w = run_result G (T G) f status pdu len p w"
| "gatt_client T G (GNotify f pdu len p) w = call_top (T G) (TNotify f pdu len p) w"
| "gatt_client T G (GDestroy f p) w = run_destroy G (T G) f p w"

end
