(* ===== verification/GattSpec.thy ===== *)
theory GattSpec
  imports GAttribSpec GattValue AttPduSpec
begin

text \<open>
  The GATT layer on top of a well-formed \<open>GAttrib\<close>: the start of a read, the two helpers that collect a
  value in parts, the prepared parts of a long write and their execution.
\<close>

lemma obj_simps [simp]:
  "obj_at p (w\<lparr>w_user := s\<rparr>) = ts_heap (gs_user s) p"
  "obj_at p (upd_gs f w) = ts_heap (gs_user (f (w_user w))) p"
  "obj_at q (set_obj p y w) = (if q = p then Some y else obj_at q w)"
  "w_user (upd_ts h w) = (w_user w)\<lparr>gs_user := h (gs_user (w_user w))\<rparr>"
  "link m r c fd l x (upd_ts h w) = link m r c fd l x w"
  "link m r c fd l x (set_obj p y w) = link m r c fd l x w"
  "upd_ts h (w\<lparr>w_user := s\<rparr>) = w\<lparr>w_user := s\<lparr>gs_user := h (gs_user s)\<rparr>\<rparr>"
  by (simp_all add: obj_at_def set_obj_def upd_ts_def upd_gs_def)

lemma set_obj_w [simp]:
  "set_obj p y (w\<lparr>w_user := s\<rparr>) = w\<lparr>w_user := s\<lparr>gs_user := (gs_user s)\<lparr>ts_heap := (ts_heap (gs_user s))(p := Some y)\<rparr>\<rparr>\<rparr>"
  "w_user (set_obj p y w) = (w_user w)\<lparr>gs_user := (gs_user (w_user w))\<lparr>ts_heap := (ts_heap (gs_user (w_user w)))(p := Some y)\<rparr>\<rparr>"
  "set_obj p y w\<lparr>w_user := s\<rparr> = w\<lparr>w_user := s\<rparr>"
  "w_op (set_obj p y w) = w_op w" "w_next (set_obj p y w) = w_next w" "w_wire (set_obj p y w) = w_wire w"
  by (simp_all add: set_obj_def upd_ts_def upd_gs_def)

lemma request_types [simp]:
  "get_op_type 0x0A = ATT_OP_TYPE_REQ" "get_op_type 0x0C = ATT_OP_TYPE_REQ" "get_op_type 0x0B = ATT_OP_TYPE_RSP"
  "get_op_type 0x0D = ATT_OP_TYPE_RSP" "get_req_opcode 0x0B = 0x0A" "get_req_opcode 0x0D = 0x0C"
  by code_simp+

lemma asked_simps [simp]:
  "asked m r c fd x pdu f ud d w (set_obj p y w') = asked m r c fd x pdu f ud d w w'"
  "asked m r c fd x pdu f ud d (set_obj p y w) w' = asked m r c fd x pdu f ud d w w'"
  by (simp_all add: asked_def)

lemma asked_from:
  assumes "asked m r c fd x pdu f ud d (w\<lparr>w_user := s\<rparr>) w'"
    and "\<And>p f ud d. waits_for p f ud d (w_user w) \<Longrightarrow> waits_for p f ud d s"
  shows "asked m r c fd x pdu f ud d w w'"
  using assms unfolding asked_def by simp blast

text \<open>Taking the buffer, encoding a request into it and sending it.\<close>

lemma ask_pdu:
  assumes l: "link m r c fd [] x w" "attrib_inv (w_user w)"
    and pdu: "get_op_type (hd pdu) = ATT_OP_TYPE_REQ" "2 \<le> length pdu" "length pdu \<le> unat m"
  shows "\<exists>b s. g_attrib_get_buffer G (Some ()) w = Some (Some b, ucast m, w\<lparr>w_user := s\<rparr>) \<and>
    gs_user s = gs_user (w_user w) \<and> unat m \<le> length b \<and>
    (\<forall>u orig f ud d. \<exists>s' i w'. put_buffer (Some ()) (Some (filled pdu b)) (w\<lparr>w_user := s\<lparr>gs_user := u\<rparr>\<rparr>) = Some (w\<lparr>w_user := s'\<rparr>) \<and>
       g_attrib_send G (Some ()) orig (Some (filled pdu b)) (of_nat (length pdu)) (Some f) ud d (w\<lparr>w_user := s'\<rparr>) = Some (i, w') \<and>
       i \<noteq> 0 \<and> (orig \<noteq> 0 \<longrightarrow> i = orig) \<and> asked m r c fd x pdu f ud d w w' \<and> gs_user (w_user w') = u \<and>
       map_option g_ref_count (gs_attrib (w_user w')) = map_option g_ref_count (gs_attrib (w_user w)))"
proof -
  from attrib_get [OF l, of G] obtain b s where
    get: "g_attrib_get_buffer G (Some ()) w = Some (Some b, ucast m, w\<lparr>w_user := s\<rparr>)"
      "unat m \<le> length b" "attrib_inv s" "same_attrib (w_user w) s" "map_option g_buf (gs_attrib s) = Some b" by auto
  have lt: "length pdu < 65536" using pdu(3) unat_u16_le [of m] by simp
  then have un: "unat (of_nat (length pdu) :: u16) = length pdu" by (rule unat_of_nat_u16)
  have "\<exists>s' i w'. put_buffer (Some ()) (Some (filled pdu b)) (w\<lparr>w_user := s\<lparr>gs_user := u\<rparr>\<rparr>) = Some (w\<lparr>w_user := s'\<rparr>) \<and>
       g_attrib_send G (Some ()) orig (Some (filled pdu b)) (of_nat (length pdu)) (Some f) ud d (w\<lparr>w_user := s'\<rparr>) = Some (i, w') \<and>
       i \<noteq> 0 \<and> (orig \<noteq> 0 \<longrightarrow> i = orig) \<and> asked m r c fd x pdu f ud d w w' \<and> gs_user (w_user w') = u \<and>
       map_option g_ref_count (gs_attrib (w_user w')) = map_option g_ref_count (gs_attrib (w_user w))" for u orig f ud d
  proof -
    have lf: "length (filled pdu b) = length b" using pdu(3) get(2) by simp
    obtain s3 where put: "put_buffer (Some ()) (Some (filled pdu b)) (w\<lparr>w_user := s\<lparr>gs_user := u\<rparr>\<rparr>) = Some (w\<lparr>w_user := s3\<rparr>)"
      "attrib_inv s3" "same_attrib (s\<lparr>gs_user := u\<rparr>) s3"
      using attrib_put [of "s\<lparr>gs_user := u\<rparr>" b "filled pdu b" w] get(3,5) lf by auto
    have l3: "link m r c fd [] x (w\<lparr>w_user := s3\<rparr>)" using l(1) by simp
    have inv3: "attrib_inv (w_user (w\<lparr>w_user := s3\<rparr>))" using put(2) by simp
    have fb: "filled pdu b = hd pdu # tl (filled pdu b)" using pdu(2) by (cases pdu) (simp_all add: filled_def)
    have lb: "(1 :: u16) < of_nat (length pdu)" "unat (of_nat (length pdu) :: u16) \<le> length (filled pdu b)"
      "(of_nat (length pdu) :: u16) \<le> m"
      using un pdu(2,3) lf get(2) by (simp_all add: word_le_nat_alt word_less_nat_alt)
    have t: "take (unat (of_nat (length pdu) :: u16)) (filled pdu b) = pdu" using un by simp
    note same = same_attribD [OF get(4)] same_attribD [OF put(3)]
    obtain i w' where send: "g_attrib_send G (Some ()) orig (Some (filled pdu b)) (of_nat (length pdu)) (Some f) ud d (w\<lparr>w_user := s3\<rparr>) = Some (i, w')"
      "i \<noteq> 0" "orig \<noteq> 0 \<longrightarrow> i = orig" "asked m r c fd x pdu f ud d (w\<lparr>w_user := s3\<rparr>) w'" "gs_user (w_user w') = gs_user s3"
      "map_option g_ref_count (gs_attrib (w_user w')) = map_option g_ref_count (gs_attrib s3)"
      using attrib_send [OF l3 inv3 fb pdu(1) lb, of G orig f ud d] unfolding t by auto
    have "asked m r c fd x pdu f ud d w w'" by (rule asked_from [OF send(4)]) (simp add: same)
    with put(1) send same show ?thesis by (intro exI [of _ s3] exI [of _ i] exI [of _ w']) simp
  qed
  with get(1,2) same_attribD(1) [OF get(4)] show ?thesis by blast
qed

text \<open>The request \<open>pdu\<close>, written into the buffer \<open>b\<close>, can be sent for any record of the layer above.\<close>

definition ready :: "'u genv \<Rightarrow> u16 \<Rightarrow> int \<Rightarrow> nat \<Rightarrow> int \<Rightarrow> nat option \<Rightarrow> u8 list \<Rightarrow> buf \<Rightarrow> 'u gstate \<Rightarrow> 'u gworld \<Rightarrow> bool" where
  "ready G m r c fd x pdu b s w \<longleftrightarrow>
    (\<forall>u orig f ud d. \<exists>s' i w'. put_buffer (Some ()) (Some (filled pdu b)) (w\<lparr>w_user := s\<lparr>gs_user := u\<rparr>\<rparr>) = Some (w\<lparr>w_user := s'\<rparr>) \<and>
       g_attrib_send G (Some ()) orig (Some (filled pdu b)) (of_nat (length pdu)) (Some f) ud d (w\<lparr>w_user := s'\<rparr>) = Some (i, w') \<and>
       i \<noteq> 0 \<and> (orig \<noteq> 0 \<longrightarrow> i = orig) \<and> asked m r c fd x pdu f ud d w w' \<and> gs_user (w_user w') = u \<and>
       map_option g_ref_count (gs_attrib (w_user w')) = map_option g_ref_count (gs_attrib (w_user w)))"

lemma ask_ready:
  assumes "link m r c fd [] x w" "attrib_inv (w_user w)"
    and "get_op_type (hd pdu) = ATT_OP_TYPE_REQ" "2 \<le> length pdu" "length pdu \<le> unat m"
  shows "\<exists>b s. g_attrib_get_buffer G (Some ()) w = Some (Some b, ucast m, w\<lparr>w_user := s\<rparr>) \<and>
    gs_user s = gs_user (w_user w) \<and> unat m \<le> length b \<and> ready G m r c fd x pdu b s w"
  unfolding ready_def by (rule ask_pdu [OF assms])

lemma readyD:
  assumes "ready G m r c fd x pdu b s w"
  shows "\<exists>s' i w'. put_buffer (Some ()) (Some (filled pdu b)) (w\<lparr>w_user := s\<lparr>gs_user := u\<rparr>\<rparr>) = Some (w\<lparr>w_user := s'\<rparr>) \<and>
       g_attrib_send G (Some ()) orig (Some (filled pdu b)) (of_nat (length pdu)) (Some f) ud d (w\<lparr>w_user := s'\<rparr>) = Some (i, w') \<and>
       i \<noteq> 0 \<and> (orig \<noteq> 0 \<longrightarrow> i = orig) \<and> asked m r c fd x pdu f ud d w w' \<and> gs_user (w_user w') = u \<and>
       map_option g_ref_count (gs_attrib (w_user w')) = map_option g_ref_count (gs_attrib (w_user w))"
  using assms unfolding ready_def by (elim allE)

lemma gs_user_idem: "s\<lparr>gs_user := gs_user s\<rparr> = s" by simp

lemma read_char_starts:
  assumes l: "link m r c fd [] None w" "attrib_inv (w_user w)" and m: "23 \<le> m"
  defines "p \<equiv> ts_next (gs_user (w_user w))"
  shows "\<exists>i w'. gatt_read_char G (Some ()) h (Some f) ud w = Some (i, w') \<and> i \<noteq> 0 \<and>
    asked m r c fd None (wire (ReadReq h)) read_char_helper_fn p (Some read_long_destroy_fn) w w' \<and>
    gs_user (w_user w') = (gs_user (w_user w))\<lparr>ts_heap := (ts_heap (gs_user (w_user w)))(p := Some (ObjRead
      \<lparr>rl_attrib = Some (), rl_func = Some f, rl_user_data = ud, rl_buffer = [], rl_size = 0, rl_handle = h,
       rl_id = i, rl_ref = 1\<rparr>)), ts_next := Suc p\<rparr> \<and>
    map_option g_ref_count (gs_attrib (w_user w')) = map_option (\<lambda>g. g_ref_count g + 1) (gs_attrib (w_user w))"
proof -
  from l(2) obtain g where g: "gs_attrib (w_user w) = Some g" by (auto simp: attrib_inv_def)
  let ?rl = "\<lparr>rl_attrib = Some (), rl_func = Some f, rl_user_data = ud, rl_buffer = [], rl_size = 0, rl_handle = h,
       rl_id = 0, rl_ref = 0\<rparr>"
  let ?t = "gs_user (w_user w)"
  let ?s1 = "(w_user w)\<lparr>gs_attrib := Some (g\<lparr>g_ref_count := g_ref_count g + 1\<rparr>),
    gs_user := ?t\<lparr>ts_heap := (ts_heap ?t)(p := Some (ObjRead ?rl)), ts_next := Suc p\<rparr>\<rparr>"
  have inv1: "attrib_inv ?s1" using l(2) g by (auto simp: attrib_inv_def)
  have l1: "link m r c fd [] None (w\<lparr>w_user := ?s1\<rparr>)" using l(1) by simp
  let ?pdu = "wire (ReadReq h)"
  have m23: "3 \<le> unat m" using m by (simp add: word_le_nat_alt)
  have lp: "length ?pdu = 3" by simp
  have inv2: "attrib_inv (w_user (w\<lparr>w_user := ?s1\<rparr>))" using inv1 by simp
  have pd: "get_op_type (hd ?pdu) = ATT_OP_TYPE_REQ" "2 \<le> length ?pdu" "length ?pdu \<le> unat m" using m23 by simp_all
  obtain b s where get: "g_attrib_get_buffer G (Some ()) (w\<lparr>w_user := ?s1\<rparr>) = Some (Some b, ucast m, w\<lparr>w_user := s\<rparr>)"
    "gs_user s = gs_user ?s1" "unat m \<le> length b" and
    ask: "\<And>u orig f ud d. \<exists>s' i w'. put_buffer (Some ()) (Some (filled ?pdu b)) (w\<lparr>w_user := s\<lparr>gs_user := u\<rparr>\<rparr>) = Some (w\<lparr>w_user := s'\<rparr>) \<and>
       g_attrib_send G (Some ()) orig (Some (filled ?pdu b)) (of_nat (length ?pdu)) (Some f) ud d (w\<lparr>w_user := s'\<rparr>) = Some (i, w') \<and>
       i \<noteq> 0 \<and> (orig \<noteq> 0 \<longrightarrow> i = orig) \<and> asked m r c fd None ?pdu f ud d (w\<lparr>w_user := ?s1\<rparr>) w' \<and> gs_user (w_user w') = u \<and>
       map_option g_ref_count (gs_attrib (w_user w')) = map_option g_ref_count (gs_attrib ?s1)"
    using ask_pdu [OF l1 inv2 pd, of G] by auto
  have enc: "enc_read_req h (Some b) (ucast m) = Some (of_nat (length ?pdu), Some (filled ?pdu b))"
    using enc_fixed(5) [of b h "ucast m"] m23 get(3) by (simp add: encodes_def)
  obtain s' i w' where put: "put_buffer (Some ()) (Some (filled ?pdu b)) (w\<lparr>w_user := s\<rparr>) = Some (w\<lparr>w_user := s'\<rparr>)"
    and send: "g_attrib_send G (Some ()) 0 (Some (filled ?pdu b)) (of_nat (length ?pdu)) (Some read_char_helper_fn) p
        (Some read_long_destroy_fn) (w\<lparr>w_user := s'\<rparr>) = Some (i, w')"
    "i \<noteq> 0" "asked m r c fd None ?pdu read_char_helper_fn p (Some read_long_destroy_fn) (w\<lparr>w_user := ?s1\<rparr>) w'"
    "gs_user (w_user w') = gs_user s" "map_option g_ref_count (gs_attrib (w_user w')) = map_option g_ref_count (gs_attrib ?s1)"
    using ask [of "gs_user s" 0 read_char_helper_fn p "Some read_long_destroy_fn"] unfolding gs_user_idem by blast
  have us: "gs_user (w_user w') = ?t\<lparr>ts_heap := (ts_heap ?t)(p := Some (ObjRead ?rl)), ts_next := Suc p\<rparr>"
    using send(4) get(2) by simp
  let ?w = "set_obj p (ObjRead (?rl\<lparr>rl_ref := 1, rl_id := i\<rparr>)) w'"
  have "gatt_read_char G (Some ()) h (Some f) ud w = Some (i, ?w)"
    using g get(1) enc put send(1,2) us lp
    by (simp add: gatt_read_char_def g_attrib_ref_def gs_defs new_obj_def upd_ts_def upd_gs_def p_def [symmetric] read_ref_def
        read_at_def obj_at_def set_obj_def Let_def)
  moreover have "asked m r c fd None ?pdu read_char_helper_fn p (Some read_long_destroy_fn) w ?w"
    unfolding asked_simps by (rule asked_from [OF send(3)]) (simp add: waits_for_ref [OF g])
  moreover have "map_option g_ref_count (gs_attrib (w_user ?w)) = map_option (\<lambda>g. g_ref_count g + 1) (gs_attrib (w_user w))"
    using send(5) g by simp
  ultimately show ?thesis using send(2) us by (intro exI [of _ i] exI [of _ ?w]) simp
qed

section \<open>Reading in parts\<close>

lemma ucast_less_u64: "(ucast (a :: u16) :: u64) < ucast b \<longleftrightarrow> a < b"
  by (simp add: word_less_nat_alt unat_ucast_u16_u64)

lemma read_at_Some: "read_at p w = Some rl \<longleftrightarrow> obj_at p w = Some (ObjRead rl)"
  by (auto simp: read_at_def split: option.splits gatt_obj.splits)

text \<open>The part of a value that a response carries, from an offset on.\<close>

definition part :: "u16 \<Rightarrow> u8 list \<Rightarrow> nat \<Rightarrow> u8 list" where
  "part m v k = take (unat m - 1) (drop k v)"

text \<open>The state of a read that has received the first \<open>k\<close> bytes.\<close>

definition collected :: "read_long_data \<Rightarrow> u8 list \<Rightarrow> nat \<Rightarrow> bool" where
  "collected rl v k \<longleftrightarrow> rl_attrib rl = Some () \<and> rl_buffer rl = 0x0B # take k v \<and> unat (rl_size rl) = Suc k \<and> k \<le> length v"

lemma char_helper_last:
  assumes l: "link m r c fd [] x w" "attrib_inv (w_user w)" and rl: "obj_at p w = Some (ObjRead rl)" "rl_attrib rl = Some ()"
    and v: "Suc (length v) < unat m"
  shows "\<exists>s. read_char_helper G T 0 (0x0B # v) (of_nat (length v) + 1) p w =
      call_result T (rl_func rl) 0 (0x0B # v) (of_nat (length v) + 1) (rl_user_data rl) (w\<lparr>w_user := s\<rparr>) \<and>
    attrib_inv s \<and> same_attrib (w_user w) s"
proof -
  from attrib_get [OF l, of G] obtain b s where
    get: "g_attrib_get_buffer G (Some ()) w = Some (Some b, ucast m, w\<lparr>w_user := s\<rparr>)" "attrib_inv s" "same_attrib (w_user w) s" by blast
  have lt: "length v + 1 < 65536" using v unat_u16_le [of m] by simp
  have "unat (of_nat (length v) + 1 :: u16) = length v + 1"
    using unat_of_nat_u16 [OF lt] by (simp add: add.commute)
  then have "of_nat (length v) + 1 < m" using v by (simp add: word_less_nat_alt)
  then show ?thesis
    using get rl same_attribD(1) [OF get(3)]
    by (intro exI [of _ s]) (simp add: read_char_helper_def read_at_Some [THEN iffD2] ucast_less_u64 read_at_def obj_at_def Let_def)
qed

lemma char_helper_more:
  assumes l: "link m r c fd [] x w" "attrib_inv (w_user w)" and rl: "obj_at p w = Some (ObjRead rl)" "rl_attrib rl = Some ()"
    and v: "unat m \<le> Suc (length v)" and m: "23 \<le> m"
  shows "\<exists>w'. read_char_helper G T 0 (0x0B # part m v 0) m p w = Some w' \<and>
    asked m r c fd x (wire (ReadBlobReq (rl_handle rl) (of_nat (unat m - 1)))) read_blob_helper_fn p (Some read_long_destroy_fn) w w' \<and>
    gs_user (w_user w') = (gs_user (w_user w))\<lparr>ts_heap := (ts_heap (gs_user (w_user w)))(p := Some (ObjRead
      (rl\<lparr>rl_buffer := 0x0B # part m v 0, rl_size := m, rl_ref := rl_ref rl + 1\<rparr>)))\<rparr> \<and>
    map_option g_ref_count (gs_attrib (w_user w')) = map_option g_ref_count (gs_attrib (w_user w))"
proof -
  let ?k = "unat m - 1" and ?pdu = "wire (ReadBlobReq (rl_handle rl) (of_nat (unat m - 1)))"
  have m23: "23 \<le> unat m" using m by (simp add: word_le_nat_alt)
  have pd: "get_op_type (hd ?pdu) = ATT_OP_TYPE_REQ" "2 \<le> length ?pdu" "length ?pdu \<le> unat m" using m23 by simp_all
  obtain b s where get: "g_attrib_get_buffer G (Some ()) w = Some (Some b, ucast m, w\<lparr>w_user := s\<rparr>)"
    "gs_user s = gs_user (w_user w)" "unat m \<le> length b" and rdy: "ready G m r c fd x ?pdu b s w"
    using ask_ready [OF l pd, of G] by (elim exE conjE) (rule that)
  have off: "of_nat ?k = m - 1" using m23 by (simp add: of_nat_diff)
  have enc: "enc_read_blob_req (rl_handle rl) (m - 1) (Some b) (ucast m) = Some (of_nat (length ?pdu), Some (filled ?pdu b))"
    using enc_fixed(6) [of b "rl_handle rl" "m - 1" "ucast m"] m23 get(3) unfolding off by (simp add: encodes_def)
  have len: "length (part m v 0) = ?k" using v by (simp add: part_def)
  have bs: "rd_bytes (0x0B # part m v 0) 0 (unat m) = Some (0x0B # part m v 0)"
    using len m23 by (simp add: rd_bytes_def)
  let ?t = "gs_user (w_user w)"
  let ?u = "?t\<lparr>ts_heap := (ts_heap ?t)(p := Some (ObjRead (rl\<lparr>rl_buffer := 0x0B # part m v 0, rl_size := m\<rparr>)))\<rparr>"
  obtain s' i w' where put: "put_buffer (Some ()) (Some (filled ?pdu b)) (w\<lparr>w_user := s\<lparr>gs_user := ?u\<rparr>\<rparr>) = Some (w\<lparr>w_user := s'\<rparr>)"
    and send: "g_attrib_send G (Some ()) (rl_id rl) (Some (filled ?pdu b)) (of_nat (length ?pdu)) (Some read_blob_helper_fn) p
        (Some read_long_destroy_fn) (w\<lparr>w_user := s'\<rparr>) = Some (i, w')"
    "i \<noteq> 0" "asked m r c fd x ?pdu read_blob_helper_fn p (Some read_long_destroy_fn) w w'"
    "gs_user (w_user w') = ?u" "map_option g_ref_count (gs_attrib (w_user w')) = map_option g_ref_count (gs_attrib (w_user w))"
    using readyD [OF rdy, of ?u "rl_id rl" read_blob_helper_fn p "Some read_long_destroy_fn"] by blast
  let ?w = "set_obj p (ObjRead (rl\<lparr>rl_buffer := 0x0B # part m v 0, rl_size := m, rl_ref := rl_ref rl + 1\<rparr>)) w'"
  have rr: "read_ref p w' = Some ?w" using send(4) by (simp add: read_ref_def read_at_def obj_at_def)
  have "read_char_helper G T 0 (0x0B # part m v 0) m p w = Some ?w"
    using rl get(1,2) enc put send(1,2) bs rr
    by (simp add: read_char_helper_def read_at_def obj_at_def Let_def)
  then show ?thesis using send(3,4,5) by (intro exI [of _ ?w]) simp
qed

lemma append_part:
  "memcpy (g_realloc a (length a + length b)) (length a) (c # b) 1 (length b) = Some (a @ b)"
  by (simp add: memcpy_def rd_bytes_def wr_bytes_def g_realloc_def fresh_def)

lemma u16_of: "unat (x :: u16) = n \<Longrightarrow> x = of_nat n"
  by auto

text \<open>What the helper does with a part that is not empty.\<close>

lemma blob_step:
  assumes rl: "obj_at p w = Some (ObjRead rl)" "collected rl v k" and n: "n = length (part m v k)" "0 < n" and v: "length v < 65535"
  defines "rl' \<equiv> rl\<lparr>rl_buffer := 0x0B # take (k + n) v, rl_size := of_nat (k + n) + 1\<rparr>"
  shows "read_blob_helper G T 0 (0x0D # part m v k) (of_nat n + 1) p w = do {
      (buf, buflen, w) \<leftarrow> g_attrib_get_buffer G (Some ()) (set_obj p (ObjRead rl') w);
      if ucast (of_nat n + 1 :: u16) < buflen
      then do { rl \<leftarrow> read_at p w; call_result T (rl_func rl) 0 (rl_buffer rl) (rl_size rl) (rl_user_data rl) w }
      else do {
        (plen, buf) \<leftarrow> enc_read_blob_req (rl_handle rl') (rl_size rl' - 1) buf buflen;
        w \<leftarrow> put_buffer (Some ()) buf w;
        (i, w) \<leftarrow> g_attrib_send G (Some ()) (rl_id rl') buf plen (Some read_blob_helper_fn) p (Some read_long_destroy_fn) w;
        if i \<noteq> 0 then read_ref p w
        else do { rl \<leftarrow> read_at p w; call_result T (rl_func rl) ATT_ECODE_IO (rl_buffer rl) (rl_size rl) (rl_user_data rl) w } } }"
    "collected rl' v (k + n)" "unat (of_nat n + 1 :: u16) = Suc n"
proof -
  have k: "k \<le> length v" "unat (rl_size rl) = Suc k" "rl_buffer rl = 0x0B # take k v" "rl_attrib rl = Some ()"
    using rl(2) by (auto simp: collected_def)
  have kn: "k + n \<le> length v" using n(1) k(1) by (simp add: part_def)
  show un: "unat (of_nat n + 1 :: u16) = Suc n"
    using unat_of_nat_u16 [of "Suc n"] kn v by (simp add: add.commute)
  have "unat (of_nat (k + n) + 1 :: u16) = Suc (k + n)"
    using unat_of_nat_u16 [of "Suc (k + n)"] kn v by (simp add: add_ac)
  then show "collected rl' v (k + n)" using k(4) kn by (simp add: collected_def rl'_def)
  have sz: "rl_size rl = of_nat k + 1" using u16_of [OF k(2)] by (simp add: add.commute)
  have g0: "of_nat n + (1 :: u16) \<noteq> 0" "of_nat n \<noteq> (0 :: u16)" using un n(2) by auto
  have "take k v @ part m v k = take (k + n) v"
    using n(1) by (simp add: part_def take_add min_def)
  then have "memcpy (g_realloc (rl_buffer rl) (Suc (k + n))) (Suc k) (0x0D # part m v k) 1 n = Some (0x0B # take (k + n) v)"
    using append_part [of "rl_buffer rl" "part m v k" "0x0D"] k n(1) by simp
  moreover have "unat (of_nat k + 1 :: u16) = Suc k" using k(2) sz by simp
  ultimately show "read_blob_helper G T 0 (0x0D # part m v k) (of_nat n + 1) p w = do {
      (buf, buflen, w) \<leftarrow> g_attrib_get_buffer G (Some ()) (set_obj p (ObjRead rl') w);
      if ucast (of_nat n + 1 :: u16) < buflen
      then do { rl \<leftarrow> read_at p w; call_result T (rl_func rl) 0 (rl_buffer rl) (rl_size rl) (rl_user_data rl) w }
      else do {
        (plen, buf) \<leftarrow> enc_read_blob_req (rl_handle rl') (rl_size rl' - 1) buf buflen;
        w \<leftarrow> put_buffer (Some ()) buf w;
        (i, w) \<leftarrow> g_attrib_send G (Some ()) (rl_id rl') buf plen (Some read_blob_helper_fn) p (Some read_long_destroy_fn) w;
        if i \<noteq> 0 then read_ref p w
        else do { rl \<leftarrow> read_at p w; call_result T (rl_func rl) ATT_ECODE_IO (rl_buffer rl) (rl_size rl) (rl_user_data rl) w } } }"
    using rl(1) k(4) un g0 sz
    by (simp add: read_blob_helper_def read_at_def Let_def rl'_def add_ac cong: if_cong)
qed

lemma same_obj: "obj_at p w = Some y \<Longrightarrow>
  (w_user w)\<lparr>gs_user := (gs_user (w_user w))\<lparr>ts_heap := (ts_heap (gs_user (w_user w)))(p := Some y)\<rparr>\<rparr> = w_user w"
  by (simp add: obj_at_def fun_upd_idem)

lemma same_attrib_refl: "attrib_inv s \<Longrightarrow> same_attrib s s"
proof -
  assume "attrib_inv s"
  then obtain g where "gs_attrib s = Some g" by (auto simp: attrib_inv_def)
  then have "gs_attrib s = Some g \<and> s = s\<lparr>gs_attrib := Some (g\<lparr>g_buf := g_buf g, g_buflen := g_buflen g\<rparr>)\<rparr>" by simp
  then show ?thesis unfolding same_attrib_def by blast
qed

lemma blob_helper_last:
  assumes l: "link m r c fd [] x w" "attrib_inv (w_user w)" and rl: "obj_at p w = Some (ObjRead rl)" "collected rl v k"
    and v: "length v < k + (unat m - 1)" "length v < 65535"
  shows "\<exists>s rl'. read_blob_helper G T 0 (0x0D # part m v k) (of_nat (length (part m v k)) + 1) p w =
      call_result T (rl_func rl) 0 (0x0B # v) (of_nat (length v) + 1) (rl_user_data rl) (w\<lparr>w_user := s\<rparr>) \<and>
    attrib_inv s \<and> same_attrib ((w_user w)\<lparr>gs_user := (gs_user (w_user w))\<lparr>ts_heap := (ts_heap (gs_user (w_user w)))(p := Some (ObjRead rl'))\<rparr>\<rparr>) s \<and>
    rl_ref rl' = rl_ref rl \<and> rl_attrib rl' = Some ()"
proof -
  have at: "rl_attrib rl = Some ()" using rl(2) by (simp add: collected_def)
  let ?n = "length (part m v k)"
  have n: "k + ?n = length v" using v(1) rl(2) by (simp add: part_def collected_def)
  show ?thesis
  proof (cases "?n = 0")
    case True
    then have kv: "k = length v" using n by simp
    have "rl_size rl = of_nat (Suc k)" using u16_of [of "rl_size rl" "Suc k"] rl(2) by (simp add: collected_def)
    then have "rl_buffer rl = 0x0B # v" "rl_size rl = of_nat (length v) + 1" using rl(2) kv by (simp_all add: collected_def)
    moreover have "same_attrib ((w_user w)\<lparr>gs_user := (gs_user (w_user w))\<lparr>ts_heap := (ts_heap (gs_user (w_user w)))(p := Some (ObjRead rl))\<rparr>\<rparr>) (w_user w)"
      unfolding same_obj [OF rl(1)] by (rule same_attrib_refl [OF l(2)])
    ultimately show ?thesis
      using rl(1) l(2) at True
      by (intro exI [of _ "w_user w"] exI [of _ rl]) (simp add: read_blob_helper_def read_at_def)
  next
    case False
    then have n0: "0 < ?n" by simp
    let ?rl = "rl\<lparr>rl_buffer := 0x0B # v, rl_size := of_nat (length v) + 1\<rparr>"
    let ?w = "set_obj p (ObjRead ?rl) w"
    note step = blob_step [OF rl refl n0 v(2), unfolded n take_all [OF order_refl]]
    have l1: "link m r c fd [] x ?w" "attrib_inv (w_user ?w)" using l by simp_all
    from attrib_get [OF l1, of G] obtain b s where
      get: "g_attrib_get_buffer G (Some ()) ?w = Some (Some b, ucast m, ?w\<lparr>w_user := s\<rparr>)" "attrib_inv s" "same_attrib (w_user ?w) s" by blast
    have lt: "of_nat ?n + 1 < m" unfolding word_less_nat_alt step(3) using n v(1) by simp
    have "ts_heap (gs_user s) p = Some (ObjRead ?rl)" using same_attribD(1) [OF get(3)] by simp
    then show ?thesis
      using step(1) get at lt
      by (intro exI [of _ s] exI [of _ ?rl]) (simp add: read_at_def ucast_less_u64)
  qed
qed

lemma blob_helper_more:
  assumes l: "link m r c fd [] x w" "attrib_inv (w_user w)" and rl: "obj_at p w = Some (ObjRead rl)" "collected rl v k"
    and v: "k + (unat m - 1) \<le> length v" "length v < 65535" and m: "23 \<le> m"
  shows "\<exists>w' rl'. read_blob_helper G T 0 (0x0D # part m v k) m p w = Some w' \<and>
    asked m r c fd x (wire (ReadBlobReq (rl_handle rl) (of_nat (k + (unat m - 1))))) read_blob_helper_fn p (Some read_long_destroy_fn) w w' \<and>
    gs_user (w_user w') = (gs_user (w_user w))\<lparr>ts_heap := (ts_heap (gs_user (w_user w)))(p := Some (ObjRead rl'))\<rparr> \<and>
    collected rl' v (k + (unat m - 1)) \<and> rl_ref rl' = rl_ref rl + 1 \<and> rl_func rl' = rl_func rl \<and> rl_user_data rl' = rl_user_data rl \<and>
    rl_handle rl' = rl_handle rl \<and>
    map_option g_ref_count (gs_attrib (w_user w')) = map_option g_ref_count (gs_attrib (w_user w))"
proof -
  have m23: "23 \<le> unat m" using m by (simp add: word_le_nat_alt)
  let ?n = "unat m - 1"
  let ?pdu = "wire (ReadBlobReq (rl_handle rl) (of_nat (k + ?n)))"
  have n: "?n = length (part m v k)" "0 < ?n" using v(1) m23 by (simp_all add: part_def)
  have nm: "of_nat ?n + 1 = m" using m23 by (simp add: of_nat_diff)
  let ?rl = "rl\<lparr>rl_buffer := 0x0B # take (k + ?n) v, rl_size := of_nat (k + ?n) + 1\<rparr>"
  let ?w = "set_obj p (ObjRead ?rl) w"
  note step = blob_step [OF rl n v(2), unfolded nm]
  have l1: "link m r c fd [] x ?w" "attrib_inv (w_user ?w)" using l by simp_all
  have pd: "get_op_type (hd ?pdu) = ATT_OP_TYPE_REQ" "2 \<le> length ?pdu" "length ?pdu \<le> unat m" using m23 by simp_all
  obtain b s where get: "g_attrib_get_buffer G (Some ()) ?w = Some (Some b, ucast m, ?w\<lparr>w_user := s\<rparr>)"
    "gs_user s = gs_user (w_user ?w)" "unat m \<le> length b" and rdy: "ready G m r c fd x ?pdu b s ?w"
    using ask_ready [OF l1 pd, of G] by (elim exE conjE) (rule that)
  have enc: "enc_read_blob_req (rl_handle rl) (of_nat (k + ?n)) (Some b) (ucast m) = Some (of_nat (length ?pdu), Some (filled ?pdu b))"
    using enc_fixed(6) [of b "rl_handle rl" "of_nat (k + ?n)" "ucast m"] m23 get(3) by (simp add: encodes_def)
  let ?t = "gs_user (w_user w)"
  let ?u = "?t\<lparr>ts_heap := (ts_heap ?t)(p := Some (ObjRead ?rl))\<rparr>"
  obtain s' i w' where put: "put_buffer (Some ()) (Some (filled ?pdu b)) (?w\<lparr>w_user := s\<lparr>gs_user := ?u\<rparr>\<rparr>) = Some (?w\<lparr>w_user := s'\<rparr>)"
    and send: "g_attrib_send G (Some ()) (rl_id rl) (Some (filled ?pdu b)) (of_nat (length ?pdu)) (Some read_blob_helper_fn) p
        (Some read_long_destroy_fn) (?w\<lparr>w_user := s'\<rparr>) = Some (i, w')"
    "i \<noteq> 0" "asked m r c fd x ?pdu read_blob_helper_fn p (Some read_long_destroy_fn) ?w w'"
    "gs_user (w_user w') = ?u" "map_option g_ref_count (gs_attrib (w_user w')) = map_option g_ref_count (gs_attrib (w_user ?w))"
    using readyD [OF rdy, of ?u "rl_id rl" read_blob_helper_fn p "Some read_long_destroy_fn"] by (elim exE conjE) (rule that)
  have su: "s\<lparr>gs_user := ?u\<rparr> = s" using get(2) gs_user_idem [of s] by simp
  let ?rl' = "?rl\<lparr>rl_ref := rl_ref rl + 1\<rparr>"
  let ?w' = "set_obj p (ObjRead ?rl') w'"
  have rr: "read_ref p w' = Some ?w'" using send(4) by (simp add: read_ref_def read_at_def obj_at_def)
  have "read_blob_helper G T 0 (0x0D # part m v k) m p w = Some ?w'"
    unfolding step(1) using get(1) enc put send(1,2) rr su by simp
  moreover have "collected ?rl' v (k + ?n)" using step(2) by (simp add: collected_def)
  ultimately show ?thesis using send(3,4,5) by (intro exI [of _ ?w'] exI [of _ ?rl']) simp
qed

section \<open>Writing\<close>

lemma enc_write_req_in:
  assumes "3 \<le> L" "L \<le> length b" and "L < 65536" and "length v < 65536"
  shows "encodes (enc_write_req h (Some v) (of_nat (length v)) (Some b) (of_nat L)) (wire (WriteReq h (take (L - 3) v))) b"
  using assms by (auto simp add: enc_write_req_def enc_simps)

lemma enc_prep_write_req_in:
  assumes "5 \<le> L" "L \<le> length b" and "L < 65536" and "length v < 65536"
  shows "encodes (enc_prep_write_req h off (Some v) (of_nat (length v)) (Some b) (of_nat L)) (wire (PrepWriteReq h off (take (L - 5) v))) b"
  using assms by (auto simp add: enc_prep_write_req_def enc_simps)

lemma buflen: "(ucast (m :: u16) :: u64) = of_nat (unat m)"
  by (simp flip: unat_ucast_u16_u64)

lemma space: "3 \<le> unat (m :: u16) \<Longrightarrow> (ucast m :: u64) - 3 = of_nat (unat m - 3)"
  unfolding buflen by (simp add: of_nat_diff)

text \<open>Sending what an encoder wrote.\<close>

definition send_encoded :: "'u genv \<Rightarrow> (buf option \<Rightarrow> u64 \<Rightarrow> enc_result) \<Rightarrow> func option \<Rightarrow> user \<Rightarrow> 'u gworld \<Rightarrow> (u32 \<times> 'u gworld) option" where
  "send_encoded G enc f ud w = do {
     (buf, buflen, w) \<leftarrow> g_attrib_get_buffer G (Some ()) w;
     (plen, buf) \<leftarrow> enc buf buflen;
     w \<leftarrow> put_buffer (Some ()) buf w;
     if plen = 0 then Some (0, w) else g_attrib_send G (Some ()) 0 buf plen f ud None w }"

lemma encoded_sent:
  assumes l: "link m r c fd [] x w" "attrib_inv (w_user w)"
    and pdu: "get_op_type (hd pdu) = ATT_OP_TYPE_REQ" "2 \<le> length pdu" "length pdu \<le> unat m"
    and enc: "\<And>b. unat m \<le> length b \<Longrightarrow> encodes (enc (Some b) (ucast m)) pdu b"
  shows "\<exists>i w'. send_encoded G enc (Some f) ud w = Some (i, w') \<and> i \<noteq> 0 \<and> asked m r c fd x pdu f ud None w w' \<and>
    gs_user (w_user w') = gs_user (w_user w) \<and>
    map_option g_ref_count (gs_attrib (w_user w')) = map_option g_ref_count (gs_attrib (w_user w))"
proof -
  obtain b s where get: "g_attrib_get_buffer G (Some ()) w = Some (Some b, ucast m, w\<lparr>w_user := s\<rparr>)"
    "gs_user s = gs_user (w_user w)" "unat m \<le> length b" and rdy: "ready G m r c fd x pdu b s w"
    using ask_ready [OF l pdu, of G] by (elim exE conjE) (rule that)
  have e: "enc (Some b) (ucast m) = Some (of_nat (length pdu), Some (filled pdu b))"
    using enc [OF get(3)] by (simp add: encodes_def)
  have "unat (of_nat (length pdu) :: u16) = length pdu" using pdu(3) unat_u16_le [of m] by (intro unat_of_nat_u16) simp
  then have n0: "(of_nat (length pdu) :: u16) \<noteq> 0" using pdu(2) by auto
  obtain s' i w' where put: "put_buffer (Some ()) (Some (filled pdu b)) (w\<lparr>w_user := s\<lparr>gs_user := gs_user s\<rparr>\<rparr>) = Some (w\<lparr>w_user := s'\<rparr>)"
    and send: "g_attrib_send G (Some ()) 0 (Some (filled pdu b)) (of_nat (length pdu)) (Some f) ud None (w\<lparr>w_user := s'\<rparr>) = Some (i, w')"
    "i \<noteq> 0" "asked m r c fd x pdu f ud None w w'"
    "gs_user (w_user w') = gs_user s" "map_option g_ref_count (gs_attrib (w_user w')) = map_option g_ref_count (gs_attrib (w_user w))"
    using readyD [OF rdy, of "gs_user s" 0 f ud None] by (elim exE conjE) (rule that)
  have "send_encoded G enc (Some f) ud w = Some (i, w')"
    unfolding send_encoded_def using get(1) e n0 put send(1) by (simp add: gs_user_idem)
  with send get(2) show ?thesis by (intro exI [of _ i] exI [of _ w']) simp
qed

lemma execute_write_sent:
  assumes l: "link m r c fd [] x w" "attrib_inv (w_user w)" and m: "23 \<le> m"
  shows "\<exists>i w'. execute_write G (Some ()) 1 (Some f) ud w = Some (i, w') \<and>
    asked m r c fd x (wire (ExecWriteReq 1)) f ud None w w' \<and> gs_user (w_user w') = gs_user (w_user w) \<and>
    map_option g_ref_count (gs_attrib (w_user w')) = map_option g_ref_count (gs_attrib (w_user w))"
proof -
  have m23: "23 \<le> unat m" using m by (simp add: word_le_nat_alt)
  have ty: "get_op_type 0x18 = ATT_OP_TYPE_REQ" by code_simp
  have "execute_write G (Some ()) 1 (Some f) ud w = send_encoded G (enc_exec_write_req 1) (Some f) ud w"
    by (simp add: execute_write_def send_encoded_def)
  then show ?thesis
    using encoded_sent [OF l, of "wire (ExecWriteReq 1)" "enc_exec_write_req 1" G f ud] m23 ty enc_fixed(8) [of _ 1 "ucast m"] by auto
qed

definition write_part :: "u16 \<Rightarrow> u16 \<Rightarrow> u8 list \<Rightarrow> nat \<Rightarrow> u8 list" where
  "write_part m h v k = wire (PrepWriteReq h (of_nat k) (take (unat m - 5) (drop k v)))"

lemma prepare_write_sent:
  assumes l: "link m r c fd [] x w" "attrib_inv (w_user w)" and m: "23 \<le> m" and v: "k \<le> length v" "length v < 65536"
    and wl: "obj_at p w = Some (ObjWrite wl)" "wl_attrib wl = Some ()" "wl_offset wl = of_nat k" "wl_value wl = v" "wl_vlen wl = of_nat (length v)"
    "wl_handle wl = h"
  shows "\<exists>i w'. prepare_write G p w = Some (i, w') \<and>
    asked m r c fd x (write_part m h v k) prepare_write_fn p None w w' \<and> gs_user (w_user w') = gs_user (w_user w) \<and>
    map_option g_ref_count (gs_attrib (w_user w')) = map_option g_ref_count (gs_attrib (w_user w))"
proof -
  have m23: "23 \<le> unat m" using m by (simp add: word_le_nat_alt)
  have m16: "unat m < 65536" using unat_u16_le [of m] by simp
  have uk: "unat (of_nat k :: u16) = k" using v by (intro unat_of_nat_u16) simp
  have vl: "of_nat (length v) - (ucast (of_nat k :: u16) :: u64) = of_nat (length (drop k v))"
    using v(1) unfolding buflen uk by (simp add: of_nat_diff)
  have ty: "get_op_type 0x16 = ATT_OP_TYPE_REQ" by code_simp
  let ?enc = "enc_prep_write_req h (of_nat k) (Some (drop k v)) (of_nat (length (drop k v)))"
  have "prepare_write G p w = send_encoded G ?enc (Some prepare_write_fn) p w"
    unfolding prepare_write_def send_encoded_def write_at_def using wl vl uk by (simp add: Let_def cong: if_cong)
  moreover have "encodes (?enc (Some b) (ucast m)) (write_part m h v k) b" if "unat m \<le> length b" for b
    unfolding buflen write_part_def using that m23 m16 v(2) by (intro enc_prep_write_req_in) auto
  moreover have "hd (write_part m h v k) = 0x16" "2 \<le> length (write_part m h v k)" "length (write_part m h v k) \<le> unat m"
    using m23 by (simp_all add: write_part_def)
  ultimately show ?thesis
    using encoded_sent [OF l, of "write_part m h v k" ?enc G prepare_write_fn p] ty by auto
qed

text \<open>The record of a long write of which \<open>k\<close> bytes have been prepared, and the layer around it.\<close>

definition write_record :: "u16 \<Rightarrow> u8 list \<Rightarrow> func \<Rightarrow> user \<Rightarrow> nat \<Rightarrow> write_long_data" where
  "write_record h v f ud k = \<lparr>wl_attrib = Some (), wl_func = Some f, wl_user_data = ud, wl_handle = h, wl_offset = of_nat k,
     wl_value = v, wl_vlen = of_nat (length v)\<rparr>"

definition write_layer :: "u16 \<Rightarrow> u8 list \<Rightarrow> func \<Rightarrow> user \<Rightarrow> nat \<Rightarrow> nat \<Rightarrow> (nat \<Rightarrow> gatt_obj option) \<Rightarrow> 'v \<Rightarrow> int option \<Rightarrow>
    'v tstate \<Rightarrow> int option \<Rightarrow> bool" where
  "write_layer h v f ud k p H L n t n' \<longleftrightarrow> ts_heap t = H(p := Some (ObjWrite (write_record h v f ud k))) \<and> ts_user t = L \<and> n' = n"

definition plain_layer :: "(nat \<Rightarrow> gatt_obj option) \<Rightarrow> 'v \<Rightarrow> int option \<Rightarrow> 'v tstate \<Rightarrow> int option \<Rightarrow> bool" where
  "plain_layer H L n t n' \<longleftrightarrow> ts_heap t = H \<and> ts_user t = L \<and> n' = n"

definition written_part :: "u16 \<Rightarrow> u16 \<Rightarrow> u8 list \<Rightarrow> nat \<Rightarrow> u8 list" where
  "written_part m h v k = le2 h @ le2 (of_nat k) @ take (unat m - 5) (drop k v)"

lemma prepared_length:
  assumes "k \<le> length v" "length v < 65536" "k' = min (length v) (k + (unat m - 5))" "23 \<le> m"
  shows "of_nat (length (0x17 # written_part m h v k)) - 5 = (of_nat (k' - k) :: u16)" "(of_nat k :: u16) + of_nat (k' - k) = of_nat k'"
    "(ucast (of_nat k' :: u16) :: u64) = of_nat (length v) \<longleftrightarrow> k' = length v"
proof -
  have "k \<le> k'" "k' - k = length (take (unat m - 5) (drop k v))" using assms(1,3) by auto
  then show "of_nat (length (0x17 # written_part m h v k)) - 5 = (of_nat (k' - k) :: u16)"
    by (simp add: written_part_def)
  show "(of_nat k :: u16) + of_nat (k' - k) = of_nat k'" using \<open>k \<le> k'\<close> by (simp add: of_nat_diff)
  have k': "k' < 65536" using assms(2,3) by simp
  then have "unat (of_nat k' :: u16) = k'" by (rule unat_of_nat_u16)
  then show "(ucast (of_nat k' :: u16) :: u64) = of_nat (length v) \<longleftrightarrow> k' = length v"
    unfolding buflen using of_nat_eq_u64 [of k' "length v"] k' assms(2) by simp
qed

lemma write_answer_next:
  assumes l: "link m r c fd [] x w" "attrib_inv (w_user w)" and m: "23 \<le> m" and v: "k + (unat m - 5) < length v" "length v < 65536"
    and P: "write_layer h v f ud k p H L n (gs_user (w_user w)) (map_option g_ref_count (gs_attrib (w_user w)))"
  shows "\<exists>w'. prepare_write_cb G T 0 (0x17 # written_part m h v k) (of_nat (length (0x17 # written_part m h v k))) p w = Some w' \<and>
    asked m r c fd x (write_part m h v (k + (unat m - 5))) prepare_write_fn p None w w' \<and>
    write_layer h v f ud (k + (unat m - 5)) p H L n (gs_user (w_user w')) (map_option g_ref_count (gs_attrib (w_user w')))"
proof -
  let ?k = "k + (unat m - 5)"
  have k: "k \<le> length v" "?k = min (length v) (k + (unat m - 5))" using v(1) by simp_all
  note pl = prepared_length [OF k(1) v(2) k(2) m]
  have obj: "obj_at p w = Some (ObjWrite (write_record h v f ud k))" using P by (simp add: write_layer_def obj_at_def)
  let ?wl = "write_record h v f ud ?k"
  let ?w = "set_obj p (ObjWrite ?wl) w"
  have l1: "link m r c fd [] x ?w" "attrib_inv (w_user ?w)" using l by simp_all
  have kv: "?k \<le> length v" using v(1) by simp
  have o1: "obj_at p ?w = Some (ObjWrite ?wl)" by simp
  have wl: "wl_attrib ?wl = Some ()" "wl_offset ?wl = of_nat ?k" "wl_value ?wl = v" "wl_vlen ?wl = of_nat (length v)" "wl_handle ?wl = h"
    by (simp_all add: write_record_def)
  obtain i w' where w': "prepare_write G p ?w = Some (i, w')" "asked m r c fd x (write_part m h v ?k) prepare_write_fn p None ?w w'"
    "gs_user (w_user w') = gs_user (w_user ?w)" "map_option g_ref_count (gs_attrib (w_user w')) = map_option g_ref_count (gs_attrib (w_user ?w))"
    using prepare_write_sent [OF l1 m kv v(2) o1 wl, of G] by blast
  have "(write_record h v f ud k)\<lparr>wl_offset := of_nat ?k\<rparr> = ?wl" by (simp add: write_record_def)
  moreover have "?k \<noteq> length v" using v(1) by simp
  ultimately have "prepare_write_cb G T 0 (0x17 # written_part m h v k) (of_nat (length (0x17 # written_part m h v k))) p w = Some w'"
    unfolding prepare_write_cb_def pl(1) using obj pl(2,3) w'(1)
    by (simp add: write_at_def write_record_def Let_def)
  moreover have "write_layer h v f ud ?k p H L n (gs_user (w_user w')) (map_option g_ref_count (gs_attrib (w_user w')))"
    unfolding w'(3,4) using P by (simp add: write_layer_def)
  ultimately show ?thesis using w'(2) by (intro exI [of _ w']) simp
qed

lemma write_answer_last:
  assumes l: "link m r c fd [] x w" "attrib_inv (w_user w)" and m: "23 \<le> m" and v: "k \<le> length v" "length v \<le> k + (unat m - 5)" "length v < 65536"
    and P: "write_layer h v f ud k p H L n (gs_user (w_user w)) (map_option g_ref_count (gs_attrib (w_user w)))"
  shows "\<exists>w'. prepare_write_cb G T 0 (0x17 # written_part m h v k) (of_nat (length (0x17 # written_part m h v k))) p w = Some w' \<and>
    asked m r c fd x (wire (ExecWriteReq 1)) f ud None w w' \<and>
    plain_layer (H(p := None)) L n (gs_user (w_user w')) (map_option g_ref_count (gs_attrib (w_user w')))"
proof -
  have k: "length v = min (length v) (k + (unat m - 5))" using v(2) by simp
  note pl = prepared_length [OF v(1,3) k m]
  have obj: "obj_at p w = Some (ObjWrite (write_record h v f ud k))" using P by (simp add: write_layer_def obj_at_def)
  let ?wl = "write_record h v f ud (length v)"
  let ?w = "set_obj p (ObjWrite ?wl) w"
  have l1: "link m r c fd [] x ?w" "attrib_inv (w_user ?w)" using l by simp_all
  obtain i w' where w': "execute_write G (Some ()) 1 (Some f) ud ?w = Some (i, w')" "asked m r c fd x (wire (ExecWriteReq 1)) f ud None ?w w'"
    "gs_user (w_user w') = gs_user (w_user ?w)" "map_option g_ref_count (gs_attrib (w_user w')) = map_option g_ref_count (gs_attrib (w_user ?w))"
    using execute_write_sent [OF l1 m, of G f ud] by blast
  let ?w' = "upd_ts (\<lambda>s. s\<lparr>ts_heap := (ts_heap s)(p := None)\<rparr>) w'"
  have free: "free_obj p w' = Some ?w'" using w'(3) by (simp add: free_obj_def obj_at_def)
  have "(write_record h v f ud k)\<lparr>wl_offset := of_nat (length v)\<rparr> = ?wl" by (simp add: write_record_def)
  then have "prepare_write_cb G T 0 (0x17 # written_part m h v k) (of_nat (length (0x17 # written_part m h v k))) p w = Some ?w'"
    unfolding prepare_write_cb_def pl(1) using obj pl(2,3) w'(1) free
    by (simp add: write_at_def write_record_def ATT_WRITE_ALL_PREP_WRITES_def Let_def)
  moreover have "plain_layer (H(p := None)) L n (gs_user (w_user ?w')) (map_option g_ref_count (gs_attrib (w_user ?w')))"
    using P w'(3,4) by (simp add: write_layer_def plain_layer_def)
  moreover have "asked m r c fd x (wire (ExecWriteReq 1)) f ud None w ?w'" using w'(2) by (simp add: asked_def upd_ts_def)
  ultimately show ?thesis by (intro exI [of _ ?w']) simp
qed

end
