(* ===== verification/LibBle.thy ===== *)
theory LibBle
  imports GattValue
begin

text \<open>
  \<^verbatim>\<open>src/lib/libble.c\<close>: the library's interface to an application. A device handle with a connection
  state, the functions that connect, disconnect, read, write, listen and discover, and the functions that
  the layers below and the main loop call for it.

  The model has one device. Its state is the component \<open>ts_user\<close> of the GATT layer: the handle (\<open>None\<close>
  once freed), the pending \<open>request_t\<close>, whether the watch of the channel is installed, and the events that the
  application's handler was called with. What the application does in its handler is a parameter \<open>A\<close>. The
  functions \<open>bt_io_connect\<close> and \<open>bt_io_get\<close> of \<^verbatim>\<open>bluez/btio/btio.c\<close> are parameters too, as are the
  texts of their errors.
\<close>

section \<open>State\<close>

datatype devstate = STATE_DISCONNECTED | STATE_CONNECTING | STATE_CONNECTED
datatype event_kind = EVENT_INTERNAL | EVENT_DEVICE | EVENT_UUID

definition STATE_CHANGED :: u16 where "STATE_CHANGED = 0"
definition ERROR_OCCURED :: u16 where "ERROR_OCCURED = 1"
definition DATA_TO_READ :: u16 where "DATA_TO_READ = 2"
definition DATA_TO_WRITE :: u16 where "DATA_TO_WRITE = 3"

record char_info =
  ci_uuid :: u16
  ci_properties :: u8
  ci_handle :: u16
  ci_value_handle :: u16

text \<open>What \<open>data\<close> points to; \<open>DeviceMemory\<close> are the bytes of the handle itself.\<close>

datatype event_data =
    NoData
  | StateData devstate
  | Text string
  | Bytes "u8 list"
  | CharInfo char_info
  | DeviceMemory

datatype ble_event = BleEvent func event_kind u16 u8 event_data

record devh =
  conn_state :: devstate
  d_iochannel :: "int option"
  d_attrib :: attrib_ptr
  d_evh :: "func option"
  d_user_data :: user

text \<open>The member \<open>dev\<close> of a request points to the one device.\<close>

record request =
  rq_handle :: u16

record lstate =
  l_dev :: "devh option"
  l_req :: "nat \<Rightarrow> request option"
  l_next :: nat
  l_watch :: bool
  l_events :: "ble_event list"

type_synonym lworld = "lstate tworld"
type_synonym lenv = "lstate tenv"
type_synonym app = "ble_event \<Rightarrow> lworld \<Rightarrow> lworld option"
type_synonym dev_ptr = "unit option"

text \<open>
  An attempt to connect gives an error or none, and a channel or NULL; the properties of a channel are its
  MTU and channel identifier, or an error.
\<close>

record ble_io =
  io_connect :: "string \<Rightarrow> string option \<times> int option"
  io_get :: "int \<Rightarrow> string + (u16 \<times> u16)"

definition lst :: "lworld \<Rightarrow> lstate" where
  "lst w = ts_user (gs_user (w_user w))"

definition upd_ls :: "(lstate \<Rightarrow> lstate) \<Rightarrow> lworld \<Rightarrow> lworld" where
  "upd_ls f = upd_ts (\<lambda>s. s\<lparr>ts_user := f (ts_user s)\<rparr>)"

definition the_dev :: "lworld \<Rightarrow> devh option" where
  "the_dev w = l_dev (lst w)"

definition set_dev :: "devh \<Rightarrow> lworld \<Rightarrow> lworld" where
  "set_dev d = upd_ls (\<lambda>s. s\<lparr>l_dev := Some d\<rparr>)"

definition upd_dev :: "(devh \<Rightarrow> devh) \<Rightarrow> lworld \<Rightarrow> lworld option" where
  "upd_dev f w = do { d \<leftarrow> the_dev w; Some (set_dev (f d) w) }"

definition req_at :: "nat \<Rightarrow> lworld \<Rightarrow> request option" where
  "req_at p w = l_req (lst w) p"

definition new_req :: "request \<Rightarrow> lworld \<Rightarrow> nat \<times> lworld" where
  "new_req x w = (let p = l_next (lst w) in (p, upd_ls (\<lambda>s. s\<lparr>l_req := (l_req s)(p := Some x), l_next := Suc p\<rparr>) w))"

definition free_req :: "nat \<Rightarrow> lworld \<Rightarrow> lworld option" where
  "free_req p w = do { _ \<leftarrow> req_at p w; Some (upd_ls (\<lambda>s. s\<lparr>l_req := (l_req s)(p := None)\<rparr>) w) }"

text \<open>A call of the application's handler, and of a handler that may be NULL.\<close>

definition call_app :: "app \<Rightarrow> ble_event \<Rightarrow> lworld \<Rightarrow> lworld option" where
  "call_app A ev w = A ev (upd_ls (\<lambda>s. s\<lparr>l_events := l_events s @ [ev]\<rparr>) w)"

definition evh :: "app \<Rightarrow> event_kind \<Rightarrow> u16 \<Rightarrow> u8 \<Rightarrow> event_data \<Rightarrow> lworld \<Rightarrow> lworld option" where
  "evh A kind handle len data w = do {
     d \<leftarrow> the_dev w;
     f \<leftarrow> d_evh d;
     call_app A (BleEvent f kind handle len data) w }"

definition emit :: "app \<Rightarrow> u16 \<Rightarrow> u8 \<Rightarrow> event_data \<Rightarrow> lworld \<Rightarrow> lworld option" where
  "emit A handle len data w = do {
     d \<leftarrow> the_dev w;
     if d_evh d \<noteq> None then evh A EVENT_INTERNAL handle len data w else Some w }"

definition emit_state :: "app \<Rightarrow> lworld \<Rightarrow> lworld option" where
  "emit_state A w = do { d \<leftarrow> the_dev w; emit A STATE_CHANGED 1 (StateData (conn_state d)) w }"

definition events_handler_fn :: func where "events_handler_fn = 10"
definition char_read_fn :: func where "char_read_fn = 11"
definition char_write_fn :: func where "char_write_fn = 12"
definition char_desc_fn :: func where "char_desc_fn = 13"
definition lble_char_discovered_fn :: func where "lble_char_discovered_fn = 14"

text \<open>The pointer to the device, as user data.\<close>

definition dev_user :: user where "dev_user = 1"

section \<open>Connecting and disconnecting\<close>

definition lble_disconnect :: "lenv \<Rightarrow> app \<Rightarrow> dev_ptr \<Rightarrow> lworld \<Rightarrow> lworld option" where
  "lble_disconnect G A devh w = (case devh of
     None \<Rightarrow> Some w
   | Some _ \<Rightarrow> do {
       d \<leftarrow> the_dev w;
       if conn_state d = STATE_DISCONNECTED then Some w
       else if conn_state d = STATE_CONNECTING then Some (set_dev (d\<lparr>conn_state := STATE_DISCONNECTED\<rparr>) w)
       else do {
         w \<leftarrow> (if d_attrib d \<noteq> None then do {
             w \<leftarrow> g_attrib_unref G (d_attrib d) w;
             upd_dev (\<lambda>d. d\<lparr>d_attrib := None\<rparr>) w }
           else Some w);
         w \<leftarrow> upd_dev (\<lambda>d. d\<lparr>d_iochannel := None\<rparr>) w;
         w \<leftarrow> upd_dev (\<lambda>d. d\<lparr>conn_state := STATE_DISCONNECTED\<rparr>) w;
         emit_state A w } })"


text \<open>The condition is a bit set; the \<open>switch\<close> compares it as a whole. A pointer has 8 bytes.\<close>

definition channel_watcher :: "lenv \<Rightarrow> app \<Rightarrow> u32 \<Rightarrow> lworld \<Rightarrow> (bool \<times> lworld) option" where
  "channel_watcher G A cond w = do {
     w \<leftarrow> (if cond = G_IO_HUP \<or> cond = G_IO_ERR \<or> cond = G_IO_NVAL then lble_disconnect G A (Some ()) w
       else if cond = G_IO_IN \<or> cond = G_IO_PRI then emit A DATA_TO_READ 8 DeviceMemory w
       else if cond = G_IO_OUT then emit A DATA_TO_WRITE 8 DeviceMemory w
       else Some w);
     Some (False, w) }"

definition ATT_DEFAULT_LE_MTU :: u16 where "ATT_DEFAULT_LE_MTU = 23"
definition ATT_CID :: u16 where "ATT_CID = 4"

definition on_channel :: "(int \<Rightarrow> io_call) \<Rightarrow> int option \<Rightarrow> 'u gworld \<Rightarrow> 'u gworld" where
  "on_channel c io w = (case io of None \<Rightarrow> w | Some fd \<Rightarrow> io_channel (c fd) w)"

definition connect_cb :: "ble_io \<Rightarrow> lenv \<Rightarrow> app \<Rightarrow> int \<Rightarrow> string option \<Rightarrow> lworld \<Rightarrow> lworld option" where
  "connect_cb B G A io gerr w = do {
     w \<leftarrow> (case gerr of
       Some message \<Rightarrow> do {
         w \<leftarrow> emit A ERROR_OCCURED 0 (Text message) w;
         d \<leftarrow> the_dev w;
         let w = on_channel IoUnref (d_iochannel d) w;
         upd_dev (\<lambda>d. d\<lparr>d_iochannel := None, conn_state := STATE_DISCONNECTED\<rparr>) w }
     | None \<Rightarrow> do {
         d \<leftarrow> the_dev w;
         if conn_state d = STATE_DISCONNECTED then do {
           let w = on_channel IoUnref (d_iochannel d) (on_channel IoShutdown (d_iochannel d) w);
           upd_dev (\<lambda>d. d\<lparr>d_iochannel := None\<rparr>) w }
         else do {
           (mtu, w) \<leftarrow> (case io_get B io of
             Inl message \<Rightarrow> do {
               w \<leftarrow> emit A ERROR_OCCURED 0 (Text message) w;
               Some (ATT_DEFAULT_LE_MTU, w) }
           | Inr (mtu, cid) \<Rightarrow> Some (if cid = ATT_CID then ATT_DEFAULT_LE_MTU else mtu, w));
           d \<leftarrow> the_dev w;
           let w = on_channel IoWatch (d_iochannel d) w;
           let w = (if d_iochannel d \<noteq> None then upd_ls (\<lambda>s. s\<lparr>l_watch := True\<rparr>) w else w);
           (attrib, w) \<leftarrow> g_attrib_new G (Some io) mtu False w;
           upd_dev (\<lambda>d. d\<lparr>d_attrib := attrib, conn_state := STATE_CONNECTED\<rparr>) w } });
     emit_state A w }"

definition gatt_connect :: "ble_io \<Rightarrow> string \<Rightarrow> string option \<times> int option" where
  "gatt_connect B dst = (case io_connect B dst of
     (Some err, _) \<Rightarrow> (Some err, None) | (None, chan) \<Rightarrow> (None, chan))"

definition lble_connect :: "ble_io \<Rightarrow> app \<Rightarrow> dev_ptr \<Rightarrow> string \<Rightarrow> lworld \<Rightarrow> lworld option" where
  "lble_connect B A devh addr w = (case devh of
     None \<Rightarrow> Some w
   | Some _ \<Rightarrow> do {
       d \<leftarrow> the_dev w;
       if conn_state d \<noteq> STATE_DISCONNECTED then Some w
       else do {
         w \<leftarrow> emit_state A (set_dev (d\<lparr>conn_state := STATE_CONNECTING\<rparr>) w);
         let (gerr, chan) = gatt_connect B addr;
         w \<leftarrow> upd_dev (\<lambda>d. d\<lparr>d_iochannel := chan\<rparr>) w;
         if chan \<noteq> None then Some w
         else do {
           message \<leftarrow> gerr;
           w \<leftarrow> emit A ERROR_OCCURED 0 (Text message) w;
           w \<leftarrow> upd_dev (\<lambda>d. d\<lparr>conn_state := STATE_DISCONNECTED\<rparr>) w;
           emit_state A w } } })"

section \<open>Called by the GATT layer\<close>

text \<open>The length passed on is a \<open>uint8_t\<close>.\<close>

definition events_handler :: "app \<Rightarrow> u8 list \<Rightarrow> u16 \<Rightarrow> lworld \<Rightarrow> lworld option" where
  "events_handler A pdu len w = do {
     d \<leftarrow> the_dev w;
     if d_evh d = None then Some w
     else do {
       op \<leftarrow> rd8 pdu 0;
       if op \<noteq> ATT_OP_HANDLE_NOTIFY then Some w
       else do {
         handle \<leftarrow> get_le16 pdu 1;
         evh A EVENT_DEVICE handle (ucast (len - 3)) (Bytes (drop 3 pdu)) w } } }"

definition char_read_cb :: "app \<Rightarrow> u8 \<Rightarrow> u8 list \<Rightarrow> u16 \<Rightarrow> nat \<Rightarrow> lworld \<Rightarrow> lworld option" where
  "char_read_cb A status pdu plen p w = do {
     request \<leftarrow> req_at p w;
     w \<leftarrow> (if status \<noteq> 0 then emit A ERROR_OCCURED 0 (Text (att_ecode2str status)) w
       else do {
         let len = unat plen + 2;
         let data = replicate len 0;
         (n, val) \<leftarrow> dec_read_resp (Some pdu) (ucast plen) (Some (drop 3 data)) (of_nat len - 3);
         if n > 0 then do {
           val \<leftarrow> val;
           let data = take 3 data @ val;
           data \<leftarrow> wr8 data 0 ATT_OP_HANDLE_NOTIFY;
           data \<leftarrow> put_le16 (rq_handle request) data 1;
           events_handler A data (of_nat len) w }
         else Some w });
     free_req p w }"

definition char_write_cb :: "app \<Rightarrow> u8 \<Rightarrow> lworld \<Rightarrow> lworld option" where
  "char_write_cb A status w =
     (if status \<noteq> 0 then emit A ERROR_OCCURED 0 (Text (att_ecode2str status)) w else Some w)"

fun desc_events :: "app \<Rightarrow> gatt_item list \<Rightarrow> lworld \<Rightarrow> lworld option" where
  "desc_events A [] w = Some w"
| "desc_events A (Descriptor desc # l) w = do {
     w \<leftarrow> evh A EVENT_UUID (gd_handle desc) 8 (CharInfo \<lparr>ci_uuid = gd_uuid16 desc, ci_properties = 0, ci_handle = 0,
       ci_value_handle = gd_handle desc\<rparr>) w;
     desc_events A l w }"
| "desc_events A (_ # l) w = None"

definition char_desc_cb :: "app \<Rightarrow> u8 \<Rightarrow> gatt_item list \<Rightarrow> lworld \<Rightarrow> lworld option" where
  "char_desc_cb A status descriptors w =
     (if status \<noteq> 0 then emit A ERROR_OCCURED 0 (Text (att_ecode2str status)) w
      else do { w \<leftarrow> desc_events A descriptors w; evh A EVENT_UUID 0 0 NoData w })"

fun char_events :: "app \<Rightarrow> gatt_item list \<Rightarrow> lworld \<Rightarrow> lworld option" where
  "char_events A [] w = Some w"
| "char_events A (Characteristic chars # l) w = do {
     w \<leftarrow> evh A EVENT_UUID (gc_handle chars) 8 (CharInfo \<lparr>ci_uuid = 0, ci_properties = gc_properties chars,
       ci_handle = gc_handle chars, ci_value_handle = gc_value_handle chars\<rparr>) w;
     char_events A l w }"
| "char_events A (_ # l) w = None"

definition lble_char_discovered_cb :: "app \<Rightarrow> u8 \<Rightarrow> gatt_item list \<Rightarrow> lworld \<Rightarrow> lworld option" where
  "lble_char_discovered_cb A status characteristics w =
     (if status \<noteq> 0 then emit A ERROR_OCCURED 0 (Text (att_ecode2str status)) w
      else do { w \<leftarrow> char_events A characteristics w; evh A EVENT_UUID 0 0 NoData w })"

fun libble_client :: "app \<Rightarrow> tcall \<Rightarrow> lworld \<Rightarrow> lworld option" where
  "libble_client A (TResult f status pdu len p) w =
     (if f = char_read_fn then char_read_cb A status pdu len p w
      else if f = char_write_fn then char_write_cb A status w
      else None)"
| "libble_client A (TNotify f pdu len p) w = (if f = events_handler_fn then events_handler A pdu len w else None)"
| "libble_client A (TDestroy f p) w = None"
| "libble_client A (TList f err items p) w =
     (if f = char_desc_fn then char_desc_cb A err items w
      else if f = lble_char_discovered_fn then lble_char_discovered_cb A err items w
      else None)"

section \<open>The interface\<close>

definition lble_newdev :: "lworld \<Rightarrow> dev_ptr \<times> lworld" where
  "lble_newdev w = (Some (), set_dev \<lparr>conn_state = STATE_DISCONNECTED, d_iochannel = None, d_attrib = None,
     d_evh = None, d_user_data = 0\<rparr> w)"

definition lble_freedev :: "dev_ptr \<Rightarrow> lworld \<Rightarrow> lworld option" where
  "lble_freedev devh w = (case devh of
     None \<Rightarrow> Some w
   | Some _ \<Rightarrow> do { _ \<leftarrow> the_dev w; Some (upd_ls (\<lambda>s. s\<lparr>l_dev := None\<rparr>) w) })"

text \<open>The functions that work on a connected device only.\<close>

definition if_connected :: "dev_ptr \<Rightarrow> (devh \<Rightarrow> lworld \<Rightarrow> lworld option) \<Rightarrow> lworld \<Rightarrow> lworld option" where
  "if_connected devh f w = (case devh of
     None \<Rightarrow> Some w
   | Some _ \<Rightarrow> do { d \<leftarrow> the_dev w; if conn_state d \<noteq> STATE_CONNECTED then Some w else f d w })"

definition lble_listen :: "lenv \<Rightarrow> dev_ptr \<Rightarrow> lworld \<Rightarrow> lworld option" where
  "lble_listen G devh = if_connected devh (\<lambda>d w. do {
     (_, w) \<leftarrow> g_attrib_register G (d_attrib d) ATT_OP_HANDLE_NOTIFY GATTRIB_ALL_HANDLES (Some events_handler_fn)
       dev_user None w;
     Some w })"

definition lble_set_event_handler :: "dev_ptr \<Rightarrow> func option \<Rightarrow> lworld \<Rightarrow> lworld option" where
  "lble_set_event_handler devh handler w = (case devh of
     None \<Rightarrow> Some w | Some _ \<Rightarrow> upd_dev (\<lambda>d. d\<lparr>d_evh := handler\<rparr>) w)"

definition lble_set_user_data :: "dev_ptr \<Rightarrow> user \<Rightarrow> lworld \<Rightarrow> lworld option" where
  "lble_set_user_data devh user_data w = (case devh of
     None \<Rightarrow> Some w | Some _ \<Rightarrow> upd_dev (\<lambda>d. d\<lparr>d_user_data := user_data\<rparr>) w)"

definition lble_user_data :: "dev_ptr \<Rightarrow> lworld \<Rightarrow> user option" where
  "lble_user_data devh w = (case devh of None \<Rightarrow> Some 0 | Some _ \<Rightarrow> do { d \<leftarrow> the_dev w; Some (d_user_data d) })"

definition lble_state :: "dev_ptr \<Rightarrow> lworld \<Rightarrow> devstate option" where
  "lble_state devh w = (case devh of
     None \<Rightarrow> Some STATE_DISCONNECTED | Some _ \<Rightarrow> do { d \<leftarrow> the_dev w; Some (conn_state d) })"

definition lble_request :: "lenv \<Rightarrow> dev_ptr \<Rightarrow> u16 \<Rightarrow> lworld \<Rightarrow> lworld option" where
  "lble_request G devh handle = if_connected devh (\<lambda>d w. do {
     let (p, w) = new_req \<lparr>rq_handle = handle\<rparr> w;
     (_, w) \<leftarrow> gatt_read_char G (d_attrib d) handle (Some char_read_fn) p w;
     Some w })"

definition lble_write :: "lenv \<Rightarrow> dev_ptr \<Rightarrow> u16 \<Rightarrow> u8 \<Rightarrow> buf option \<Rightarrow> lworld \<Rightarrow> lworld option" where
  "lble_write G devh handle len data = if_connected devh (\<lambda>d w.
     (case data of
        None \<Rightarrow> Some w
      | Some v \<Rightarrow>
          if len > 0 then do {
            (_, w) \<leftarrow> gatt_write_char G (d_attrib d) handle v (ucast len) (Some char_write_fn) dev_user w;
            Some w }
          else Some w))"

definition lble_discover_hand :: "lenv \<Rightarrow> dev_ptr \<Rightarrow> lworld \<Rightarrow> lworld option" where
  "lble_discover_hand G devh = if_connected devh (\<lambda>d w. do {
     (_, w) \<leftarrow> gatt_discover_desc G (d_attrib d) 0x0001 0xffff None (Some char_desc_fn) dev_user w;
     Some w })"

definition lble_discover_char :: "lenv \<Rightarrow> dev_ptr \<Rightarrow> lworld \<Rightarrow> lworld option" where
  "lble_discover_char G devh = if_connected devh (\<lambda>d w. do {
     (_, w) \<leftarrow> gatt_discover_char G (d_attrib d) 0x0001 0xffff None (Some lble_char_discovered_fn) dev_user w;
     Some w })"

section \<open>The program\<close>

datatype lble_op =
    OpConnect string
  | OpDisconnect
  | OpListen
  | OpRequest u16
  | OpWrite u16 u8 "buf option"
  | OpDiscoverHand
  | OpDiscoverChar
  | OpSetHandler "func option"
  | OpSetUserData user
  | OpFree

fun lble_run :: "ble_io \<Rightarrow> lenv \<Rightarrow> app \<Rightarrow> lble_op \<Rightarrow> lworld \<Rightarrow> lworld option" where
  "lble_run B G A (OpConnect addr) w = lble_connect B A (Some ()) addr w"
| "lble_run B G A OpDisconnect w = lble_disconnect G A (Some ()) w"
| "lble_run B G A OpListen w = lble_listen G (Some ()) w"
| "lble_run B G A (OpRequest handle) w = lble_request G (Some ()) handle w"
| "lble_run B G A (OpWrite handle len data) w = lble_write G (Some ()) handle len data w"
| "lble_run B G A OpDiscoverHand w = lble_discover_hand G (Some ()) w"
| "lble_run B G A OpDiscoverChar w = lble_discover_char G (Some ()) w"
| "lble_run B G A (OpSetHandler handler) w = lble_set_event_handler (Some ()) handler w"
| "lble_run B G A (OpSetUserData user_data) w = lble_set_user_data (Some ()) user_data w"
| "lble_run B G A OpFree w = lble_freedev (Some ()) w"

text \<open>
  An application whose handler makes the calls that a policy chooses. A handler that runs inside a handler
  runs at the next lower level; at the lowest level only a handler that makes no call returns.
\<close>

primrec app_at :: "nat \<Rightarrow> ble_io \<Rightarrow> lenv \<Rightarrow> (ble_event \<Rightarrow> lworld \<Rightarrow> lble_op list) \<Rightarrow> app" where
  "app_at 0 B G policy = (\<lambda>ev w. if policy ev w = [] then Some w else None)"
| "app_at (Suc n) B G policy = (\<lambda>ev w. each (lble_run B G (app_at n B G policy)) (policy ev w) w)"

definition system :: "nat \<Rightarrow> ble_io \<Rightarrow> lenv \<Rightarrow> (ble_event \<Rightarrow> lworld \<Rightarrow> lble_op list) \<Rightarrow> lenv" where
  "system n B G policy = stack_at n G (gatt_client (\<lambda>G. libble_client (app_at n B G policy)))"

text \<open>What the main loop and the application start. A watch is removed when its function returns FALSE.\<close>

datatype sys_event =
    Bearer event
  | Connected int "string option"
  | Watch u32
  | Op lble_op

definition run_watch :: "lenv \<Rightarrow> app \<Rightarrow> u32 \<Rightarrow> lworld \<Rightarrow> lworld option" where
  "run_watch G A cond w =
     (if l_watch (lst w) then do {
        (keep, w) \<leftarrow> channel_watcher G A cond w;
        Some (upd_ls (\<lambda>s. s\<lparr>l_watch := keep\<rparr>) w) }
      else Some w)"

fun run_sys :: "nat \<Rightarrow> ble_io \<Rightarrow> lenv \<Rightarrow> (ble_event \<Rightarrow> lworld \<Rightarrow> lble_op list) \<Rightarrow> sys_event \<Rightarrow> lworld \<Rightarrow> lworld option" where
  "run_sys n B G policy (Bearer ev) w = run_event (bearer (system n B G policy)) (sockets G) ev w"
| "run_sys n B G policy (Connected io gerr) w =
     connect_cb B (system n B G policy) (app_at n B (system n B G policy) policy) io gerr w"
| "run_sys n B G policy (Watch cond) w = run_watch (system n B G policy) (app_at n B (system n B G policy) policy) cond w"
| "run_sys n B G policy (Op x) w =
     lble_run B (system n B G policy) (app_at n B (system n B G policy) policy) x w"

fun run_all :: "nat \<Rightarrow> ble_io \<Rightarrow> lenv \<Rightarrow> (ble_event \<Rightarrow> lworld \<Rightarrow> lble_op list) \<Rightarrow> sys_event list \<Rightarrow> lworld \<Rightarrow> lworld option" where
  "run_all n B G policy [] w = Some w"
| "run_all n B G policy (e # es) w = do { w \<leftarrow> run_sys n B G policy e w; run_all n B G policy es w }"

text \<open>Before the first call: no bearer, no \<open>GAttrib\<close>, empty heaps, no device.\<close>

definition initial :: lworld where
  "initial = empty_world \<lparr>gs_attrib = None, gs_cb = (\<lambda>_. None), gs_id = (\<lambda>_. None), gs_next = 1, gs_calls = [], gs_io = [],
     gs_user = \<lparr>ts_heap = (\<lambda>_. None), ts_next = 1, ts_calls = [],
       ts_user = \<lparr>l_dev = None, l_req = (\<lambda>_. None), l_next = 1, l_watch = False, l_events = []\<rparr>\<rparr>\<rparr>"

end
