(* ===== verification/LibRead.thy ===== *)
theory LibRead
  imports GattSpec LibBle
begin

text \<open>
  A read of the library through all layers: the state that a request has reached (\<open>reading\<close>), and the two
  steps that a response can cause: the request of the next part, or the delivery of the value to the
  application and the release of all records.
\<close>

lemma read_release:
  assumes inv: "attrib_inv u" and n: "map_option g_ref_count (gs_attrib u) = Some n" "2 \<le> n"
    and rl: "ts_heap (gs_user u) p = Some (ObjRead rl)" "rl_attrib rl = Some ()"
  shows "\<exists>u'. read_long_destroy G p (w\<lparr>w_user := u\<rparr>) = Some (w\<lparr>w_user := u'\<rparr>) \<and> attrib_frame u u' \<and>
    gs_user u' = (gs_user u)\<lparr>ts_heap := (ts_heap (gs_user u))(p :=
      if 0 < rl_ref rl - 1 then Some (ObjRead (rl\<lparr>rl_ref := rl_ref rl - 1\<rparr>)) else None)\<rparr> \<and>
    map_option g_ref_count (gs_attrib u') = Some (if 0 < rl_ref rl - 1 then n else n - 1)"
proof -
  obtain g where g: "gs_attrib u = Some g" "g_ref_count g = n" using n(1) by auto
  let ?rl = "rl\<lparr>rl_ref := rl_ref rl - 1\<rparr>"
  let ?u1 = "u\<lparr>gs_user := (gs_user u)\<lparr>ts_heap := (ts_heap (gs_user u))(p := Some (ObjRead ?rl))\<rparr>\<rparr>"
  show ?thesis
  proof (cases "0 < rl_ref rl - 1")
    case True
    then have "read_long_destroy G p (w\<lparr>w_user := u\<rparr>) = Some (w\<lparr>w_user := ?u1\<rparr>)"
      using rl by (simp add: read_long_destroy_def read_at_def Let_def)
    moreover have "attrib_frame u ?u1"
      unfolding attrib_frame_def using g n(2) by (intro conjI exI [of _ g] exI [of _ n]) auto
    ultimately show ?thesis using True g by (intro exI [of _ ?u1]) simp
  next
    case False
    let ?u2 = "u\<lparr>gs_attrib := Some (g\<lparr>g_ref_count := n - 1\<rparr>),
      gs_user := (gs_user u)\<lparr>ts_heap := (ts_heap (gs_user u))(p := None)\<rparr>\<rparr>"
    have "n - 1 \<noteq> 0" using n(2) by simp
    then have "read_long_destroy G p (w\<lparr>w_user := u\<rparr>) = Some (w\<lparr>w_user := ?u2\<rparr>)"
      using rl g False
      by (simp add: read_long_destroy_def read_at_def g_attrib_unref_def gs_defs free_obj_def upd_gs_def Let_def)
    moreover have "attrib_frame u ?u2"
      unfolding attrib_frame_def using g n(2) by (intro conjI exI [of _ g] exI [of _ "n - 1"]) auto
    ultimately show ?thesis using False g by (intro exI [of _ ?u2]) simp
  qed
qed

text \<open>
  What a read of the value \<open>v\<close> has reached: \<open>k\<close> bytes have arrived, \<open>j\<close> requests hold the record \<open>p\<close>,
  and the operation \<open>op\<close>, known as \<open>cb\<close>, asks for the next part.
\<close>

definition read_record :: "u8 list \<Rightarrow> nat \<Rightarrow> u16 \<Rightarrow> user \<Rightarrow> int \<Rightarrow> read_long_data \<Rightarrow> bool" where
  "read_record v k h ud j rl \<longleftrightarrow> rl_ref rl = j \<and> rl_attrib rl = Some () \<and> rl_func rl = Some char_read_fn \<and>
     rl_user_data rl = ud \<and> rl_handle rl = h \<and> (0 < k \<longrightarrow> collected rl v k)"

definition read_layer :: "nat \<Rightarrow> int \<Rightarrow> (nat \<Rightarrow> gatt_obj option) \<Rightarrow> lstate \<Rightarrow> lstate tstate gstate \<Rightarrow> bool" where
  "read_layer p n H L u \<longleftrightarrow> attrib_inv u \<and> map_option g_ref_count (gs_attrib u) = Some n \<and> ts_user (gs_user u) = L \<and>
     (\<forall>q. q \<noteq> p \<longrightarrow> ts_heap (gs_user u) q = H q)"

definition next_request :: "u16 \<Rightarrow> nat \<Rightarrow> u8 list" where
  "next_request h k = wire (if k = 0 then ReadReq h else ReadBlobReq h (of_nat k))"

definition next_helper :: "nat \<Rightarrow> func" where
  "next_helper k = (if k = 0 then read_char_helper_fn else read_blob_helper_fn)"

definition reading :: "u8 list \<Rightarrow> nat \<Rightarrow> u16 \<Rightarrow> user \<Rightarrow> nat \<Rightarrow> int \<Rightarrow> int \<Rightarrow> (nat \<Rightarrow> gatt_obj option) \<Rightarrow> lstate \<Rightarrow> nat \<Rightarrow> att_send_op \<Rightarrow>
    lstate tstate gstate \<Rightarrow> bool" where
  "reading v k h ud p j n H L cb op u \<longleftrightarrow> read_layer p n H L u \<and>
     (\<exists>rl. ts_heap (gs_user u) p = Some (ObjRead rl) \<and> read_record v k h ud j rl) \<and>
     asks op (next_request h k) cb \<and> waits_for cb (next_helper k) p (Some read_long_destroy_fn) u"

text \<open>The bearer's view: the operation waits for the channel, or its answer is outstanding.\<close>

definition read_queued :: "u16 \<Rightarrow> int \<Rightarrow> nat \<Rightarrow> int \<Rightarrow> u8 list \<Rightarrow> nat \<Rightarrow> u16 \<Rightarrow> user \<Rightarrow> nat \<Rightarrow> int \<Rightarrow> (nat \<Rightarrow> gatt_obj option) \<Rightarrow> lstate \<Rightarrow>
    lworld \<Rightarrow> bool" where
  "read_queued m r c fd v k h ud p n H L w \<longleftrightarrow> (\<exists>q op cb. link m r c fd [q] None w \<and> w_op w q = Some op \<and> q < w_next w \<and>
     reading v k h ud p 1 n H L cb op (w_user w))"

definition read_sent :: "u16 \<Rightarrow> int \<Rightarrow> nat \<Rightarrow> int \<Rightarrow> u8 list \<Rightarrow> nat \<Rightarrow> u16 \<Rightarrow> user \<Rightarrow> nat \<Rightarrow> int \<Rightarrow> (nat \<Rightarrow> gatt_obj option) \<Rightarrow> lstate \<Rightarrow>
    lworld \<Rightarrow> bool" where
  "read_sent m r c fd v k h ud p n H L w \<longleftrightarrow> (\<exists>q op cb. link m r c fd [] (Some q) w \<and> w_op w q = Some op \<and> q < w_next w \<and>
     reading v k h ud p 1 n H L cb op (w_user w))"

lemma read_write:
  assumes "read_queued m r c fd v k h ud p n H L w" "23 \<le> m" "io_send E fd (next_request h k) \<noteq> 0"
  shows "\<exists>w'. can_write_data E c w = Some (True, w') \<and> read_sent m r c fd v k h ud p n H L w' \<and>
    w_wire w' = w_wire w @ [(fd, next_request h k, io_send E fd (next_request h k))]"
proof -
  from assms(1) obtain q op cb where q: "link m r c fd [q] None w" "w_op w q = Some op" "q < w_next w"
    "reading v k h ud p 1 n H L cb op (w_user w)" unfolding read_queued_def by blast
  then have a: "asks op (next_request h k) cb" by (simp add: reading_def)
  have "length (next_request h k) \<le> 5" by (simp add: next_request_def)
  then have "op_len op \<le> m" using a assms(2) by (simp add: asks_def word_le_nat_alt)
  then have "\<exists>w' t. can_write_data E c w = Some (True, w') \<and> link m r c fd [] (Some q) w' \<and> same_client w w' \<and>
    w_wire w' = w_wire w @ [(fd, op_pdu op, io_send E fd (op_pdu op))] \<and> w_next w' = w_next w \<and>
    w_op w' = (w_op w)(q := Some (op\<lparr>op_timeout_id := t\<rparr>))"
    using a assms(3) by (intro link_write [OF q(1,2)]) (auto simp: asks_def)
  then obtain w' t where w': "can_write_data E c w = Some (True, w')" "link m r c fd [] (Some q) w'" "same_client w w'"
    "w_wire w' = w_wire w @ [(fd, op_pdu op, io_send E fd (op_pdu op))]" "w_next w' = w_next w"
    "w_op w' = (w_op w)(q := Some (op\<lparr>op_timeout_id := t\<rparr>))" by blast
  have pdu: "op_pdu op = next_request h k" using a by (simp add: asks_def)
  have us: "w_user w' = w_user w" using w'(3) by (simp add: same_client_def)
  have "reading v k h ud p 1 n H L cb (op\<lparr>op_timeout_id := t\<rparr>) (w_user w')" using q(4) unfolding us by (simp add: reading_def)
  then have "read_sent m r c fd v k h ud p n H L w'" unfolding read_sent_def
    using w'(2,5,6) q(3) by (intro exI [of _ q] exI [of _ "op\<lparr>op_timeout_id := t\<rparr>"] exI [of _ cb]) simp
  with w'(1,4) pdu show ?thesis by auto
qed

section \<open>Delivery\<close>

lemma ls_simps [simp]:
  "lst (upd_ls f w) = f (lst w)"
  "upd_ls f (upd_ls g w) = upd_ls (\<lambda>s. f (g s)) w"
  "w_user (upd_ls f w) = (w_user w)\<lparr>gs_user := (gs_user (w_user w))\<lparr>ts_user := f (ts_user (gs_user (w_user w)))\<rparr>\<rparr>"
  "link m r c fd q x (upd_ls f w) = link m r c fd q x w"
  "w_att (upd_ls f w) = w_att w" "w_chan (upd_ls f w) = w_chan w" "w_op (upd_ls f w) = w_op w" "w_wire (upd_ls f w) = w_wire w" "w_next (upd_ls f w) = w_next w"
  by (simp_all add: lst_def upd_ls_def upd_ts_def upd_gs_def)

definition value_event :: "func \<Rightarrow> u16 \<Rightarrow> u8 list \<Rightarrow> ble_event" where
  "value_event f h v = BleEvent f EVENT_DEVICE h (of_nat (length v)) (Bytes v)"

definition delivered :: "func \<Rightarrow> u16 \<Rightarrow> u8 list \<Rightarrow> nat \<Rightarrow> lstate \<Rightarrow> lstate" where
  "delivered f h v ud s = s\<lparr>l_events := l_events s @ [value_event f h v], l_req := (l_req s)(ud := None)\<rparr>"

text \<open>The application's handler returns from the event without a call of the library.\<close>

definition ignores_event :: "app \<Rightarrow> ble_event \<Rightarrow> bool" where
  "ignores_event A ev \<longleftrightarrow> (\<forall>w. A ev w = Some w)"

lemma ucast_less3: "length v < 65535 \<Longrightarrow> unat (of_nat (length v) + 1 :: u16) = Suc (length v)"
  using unat_of_nat_u16 [of "Suc (length v)"] by (simp add: add.commute)

lemma dec_read_value:
  assumes "length v < 65535"
  shows "dec_read_resp (Some (0x0B # v)) (of_nat (Suc (length v))) (Some (replicate (length v) 0)) (of_nat (length v + 3) - 3)
    = Some (int (length v), Some v)"
proof -
  have l: "(of_nat (Suc (length v)) :: u64) - 1 = of_nat (length v)" by simp
  have u: "unat (of_nat (length v) :: u64) = length v" using assms by (simp add: small_u64)
  have s: "sint (of_nat (length v) :: u64) = int (length v)" using assms by (simp add: signed_of_nat signed_take_bit_int_eq_self)
  show ?thesis
    unfolding dec_read_resp_def l using u s
    by (simp add: memcpy_def rd_bytes_def wr_bytes_def rd8_def cong: if_cong)
qed

lemma read_delivered:
  assumes d: "l_dev (lst w) = Some d" "d_evh d = Some f" "l_req (lst w) ud = Some \<lparr>rq_handle = h\<rparr>"
    and v: "v \<noteq> []" "length v < 65535" and A: "ignores_event A (value_event f h v)"
  shows "char_read_cb A 0 (0x0B # v) (of_nat (length v) + 1) ud w = Some (upd_ls (delivered f h v ud) w)"
proof -
  have u: "unat (of_nat (length v) + 1 :: u16) = Suc (length v)" using v(2) by (rule ucast_less3)
  have c: "(ucast (of_nat (length v) + 1 :: u16) :: u64) = of_nat (Suc (length v))"
    using u by (metis of_nat_unat unat_ucast_u16_u64 u16_of)
  have n: "0 < int (length v)" using v(1) by simp
  have w: "wr_bytes (ATT_OP_HANDLE_NOTIFY # 0 # 0 # v) (Suc 0) (le2 h) = Some (ATT_OP_HANDLE_NOTIFY # le2 h @ v)"
    by (simp add: wr_bytes_def)
  have g: "get_le16 (ATT_OP_HANDLE_NOTIFY # le2 h @ v) (Suc 0) = Some h"
    using get_le16_mid [of "Suc 0" "[ATT_OP_HANDLE_NOTIFY]" h v] by simp
  have c8: "(ucast (of_nat (length v) :: u16) :: u8) = of_nat (length v)"
    using v(2) by (simp add: unsigned_of_nat take_bit_nat_eq_self)
  show ?thesis
    using d A [unfolded ignores_event_def] dec_read_value [OF v(2)] n w g
    apply (simp add: char_read_cb_def req_at_def u c events_handler_def the_dev_def evh_def call_app_def free_req_def
      wr8_def put_le16_def rd8_def c8 value_event_def delivered_def [abs_def] Let_def cong: if_cong)
    done
qed

text \<open>One level of the stack above the bearer, and what the functions called by the \<open>GAttrib\<close> do there.\<close>

definition layers :: "nat \<Rightarrow> lenv \<Rightarrow> (lenv \<Rightarrow> app) \<Rightarrow> lenv" where
  "layers k G A = stack_at k G (gatt_client (\<lambda>G. libble_client (A G)))"

lemma layers_client:
  "client (bearer (layers (Suc (Suc k)) G A)) c w = gattrib_client (layers (Suc k) G A) c w"
  "upper (layers (Suc k) G A) x w = gatt_client (\<lambda>G. libble_client (A G)) (layers k G A) x w"
  by (simp_all add: layers_def)

lemmas fn_defs = primary_by_uuid_fn_def primary_all_fn_def resolve_included_uuid_fn_def find_included_fn_def char_discovered_fn_def
  read_blob_helper_fn_def read_char_helper_fn_def discover_primary_unref_fn_def isd_unref_fn_def inc_query_free_fn_def
  discover_char_unref_fn_def discover_desc_unref_fn_def read_long_destroy_fn_def

lemma run_read:
  "run_result G T read_char_helper_fn status pdu len p w = read_char_helper G T status pdu len p w"
  "run_result G T read_blob_helper_fn status pdu len p w = read_blob_helper G T status pdu len p w"
  "run_destroy G T read_long_destroy_fn p w = read_long_destroy G p w"
  by (simp_all add: run_result_def run_destroy_def fn_defs)

lemma call_read:
  "call_result (libble_client A) (Some char_read_fn) 0 pdu len ud w =
    char_read_cb A 0 pdu len ud (upd_ts (\<lambda>s. s\<lparr>ts_calls := ts_calls s @ [TResult char_read_fn 0 pdu len ud]\<rparr>) w)"
  by (simp add: call_result_def call_top_def)

text \<open>The end of a request: the record of the bearer's callback is released, and with it the read's record.\<close>

lemma read_destroy:
  assumes l: "read_layer p n H L (w_user w)" "2 \<le> n" and cb: "waits_for cb f p (Some read_long_destroy_fn) (w_user w)"
    and rl: "ts_heap (gs_user (w_user w)) p = Some (ObjRead rl)" "rl_attrib rl = Some ()"
  shows "\<exists>s. gattrib_client (layers (Suc k) G A) (CallDestroy attrib_callbacks_remove_fn cb) w = Some (w\<lparr>w_user := s\<rparr>) \<and>
    read_layer p (if 0 < rl_ref rl - 1 then n else n - 1) H L s \<and>
    ts_heap (gs_user s) p = (if 0 < rl_ref rl - 1 then Some (ObjRead (rl\<lparr>rl_ref := rl_ref rl - 1\<rparr>)) else None) \<and>
    (\<forall>q f' ud' d'. q \<noteq> cb \<longrightarrow> waits_for q f' ud' d' (w_user w) \<longrightarrow> waits_for q f' ud' d' s)"
proof -
  have inv: "attrib_inv (w_user w)" and n: "map_option g_ref_count (gs_attrib (w_user w)) = Some n"
    and u: "ts_user (gs_user (w_user w)) = L" "\<forall>q. q \<noteq> p \<longrightarrow> ts_heap (gs_user (w_user w)) q = H q"
    using l(1) by (simp_all add: read_layer_def)
  let ?Q = "\<lambda>t c. c = Some (if 0 < rl_ref rl - 1 then n else n - 1) \<and> ts_user t = L \<and>
    ts_heap t = (ts_heap (gs_user (w_user w)))(p := if 0 < rl_ref rl - 1 then Some (ObjRead (rl\<lparr>rl_ref := rl_ref rl - 1\<rparr>)) else None)"
  have "\<exists>s. attrib_callbacks_remove (layers (Suc k) G A) cb w = Some (w\<lparr>w_user := s\<rparr>) \<and> attrib_inv s \<and>
    ?Q (gs_user s) (map_option g_ref_count (gs_attrib s)) \<and>
    (\<forall>q f' ud' d'. q \<noteq> cb \<longrightarrow> waits_for q f' ud' d' (w_user w) \<longrightarrow> waits_for q f' ud' d' s)"
  proof (rule attrib_remove [OF inv cb])
    fix u assume a: "attrib_inv u" "gs_user u = gs_user (w_user w)"
      "map_option g_ref_count (gs_attrib u) = map_option g_ref_count (gs_attrib (w_user w))"
    let ?u = "u\<lparr>gs_calls := gs_calls u @ [GDestroy read_long_destroy_fn p]\<rparr>"
    obtain u' where u': "read_long_destroy (layers k G A) p (w\<lparr>w_user := ?u\<rparr>) = Some (w\<lparr>w_user := u'\<rparr>)" "attrib_frame ?u u'"
      "gs_user u' = (gs_user ?u)\<lparr>ts_heap := (ts_heap (gs_user ?u))(p :=
        if 0 < rl_ref rl - 1 then Some (ObjRead (rl\<lparr>rl_ref := rl_ref rl - 1\<rparr>)) else None)\<rparr>"
      "map_option g_ref_count (gs_attrib u') = Some (if 0 < rl_ref rl - 1 then n else n - 1)"
      using read_release [of ?u n p rl "layers k G A" w] a n l(2) rl by auto
    have "call_upper_if (layers (Suc k) G A) (Some read_long_destroy_fn) (\<lambda>d. GDestroy d p) (w\<lparr>w_user := u\<rparr>) = Some (w\<lparr>w_user := u'\<rparr>)"
      using u'(1) by (simp add: call_upper_if_def call_upper_def layers_client run_read upd_gs_def)
    moreover have "attrib_frame u u'" using u'(2) by (simp add: attrib_frame_def)
    moreover have "?Q (gs_user u') (map_option g_ref_count (gs_attrib u'))" using u'(3,4) a(2) u(1) by simp
    ultimately show "\<exists>u'. call_upper_if (layers (Suc k) G A) (Some read_long_destroy_fn) (\<lambda>d. GDestroy d p) (w\<lparr>w_user := u\<rparr>) = Some (w\<lparr>w_user := u'\<rparr>) \<and>
        attrib_frame u u' \<and> ?Q (gs_user u') (map_option g_ref_count (gs_attrib u'))" by blast
  qed
  then obtain s where s: "attrib_callbacks_remove (layers (Suc k) G A) cb w = Some (w\<lparr>w_user := s\<rparr>)" "attrib_inv s"
    "?Q (gs_user s) (map_option g_ref_count (gs_attrib s))"
    "\<forall>q f' ud' d'. q \<noteq> cb \<longrightarrow> waits_for q f' ud' d' (w_user w) \<longrightarrow> waits_for q f' ud' d' s" by blast
  then show ?thesis using u by (intro exI [of _ s]) (auto simp: read_layer_def)
qed

section \<open>A response\<close>

lemma next_later: "0 < k \<Longrightarrow> next_request h k = wire (ReadBlobReq h (of_nat k))" "0 < k \<Longrightarrow> next_helper k = read_blob_helper_fn"
  by (simp_all add: next_request_def next_helper_def)

definition answer_op :: "nat \<Rightarrow> u8" where
  "answer_op k = (if k = 0 then ATT_OP_READ_RESP else ATT_OP_READ_BLOB_RESP)"

definition read_helper :: "nat \<Rightarrow> 'v tenv \<Rightarrow> 'v top \<Rightarrow> u8 \<Rightarrow> u8 list \<Rightarrow> u16 \<Rightarrow> nat \<Rightarrow> 'v tworld \<Rightarrow> 'v tworld option" where
  "read_helper k = (if k = 0 then read_char_helper else read_blob_helper)"

lemma read_answer:
  assumes "attrib_inv (w_user w)" "waits_for cb (next_helper k) p d (w_user w)"
  shows "gattrib_client (layers (Suc K) G A) (CallResponse attrib_callback_result_fn (answer_op k) pdu cb) w =
    read_helper k (layers K G A) (libble_client (A (layers K G A))) 0 (answer_op k # pdu) (of_nat (length pdu) + 1) p
      (upd_gs (\<lambda>s. s\<lparr>gs_calls := gs_calls s @ [GResult (next_helper k) 0 (answer_op k # pdu) (of_nat (length pdu) + 1) p]\<rparr>) w)"
proof -
  have e: "answer_op k \<noteq> BT_ATT_OP_ERROR_RSP" by (simp add: answer_op_def BT_ATT_OP_ERROR_RSP_def)
  show ?thesis
    using attrib_result [OF assms e, of "layers (Suc K) G A" pdu]
    by (simp add: call_upper_def layers_client run_read read_helper_def next_helper_def)
qed

lemma read_more:
  assumes l: "link m r c fd [] x w" and rd: "reading v k h ud p 1 n H L cb op (w_user w)"
    and v: "k + (unat m - 1) \<le> length v" "length v < 65535" and m: "23 \<le> m"
  shows "\<exists>w' op' cb'. read_helper k G T 0 (answer_op k # part m v k) m p w = Some w' \<and>
    link m r c fd [w_next w] x w' \<and> w_wire w' = w_wire w \<and> w_next w' = Suc (w_next w) \<and>
    (\<forall>q. q \<noteq> w_next w \<longrightarrow> w_op w' q = w_op w q) \<and> w_op w' (w_next w) = Some op' \<and>
    reading v (k + (unat m - 1)) h ud p 2 n H L cb' op' (w_user w') \<and>
    waits_for cb (next_helper k) p (Some read_long_destroy_fn) (w_user w') \<and> cb \<noteq> cb'"
proof -
  let ?K = "k + (unat m - 1)"
  have m23: "23 \<le> unat m" using m by (simp add: word_le_nat_alt)
  have k0: "0 < ?K" using m23 by simp
  from rd have lay: "read_layer p n H L (w_user w)" and cbw: "waits_for cb (next_helper k) p (Some read_long_destroy_fn) (w_user w)"
    by (simp_all add: reading_def)
  from rd obtain rl where rl: "obj_at p w = Some (ObjRead rl)" "read_record v k h ud 1 rl"
    by (auto simp: reading_def obj_at_def)
  have inv: "attrib_inv (w_user w)" using lay by (simp add: read_layer_def)
  have "\<exists>w' rl'. read_helper k G T 0 (answer_op k # part m v k) m p w = Some w' \<and>
    asked m r c fd x (wire (ReadBlobReq h (of_nat ?K))) read_blob_helper_fn p (Some read_long_destroy_fn) w w' \<and>
    gs_user (w_user w') = (gs_user (w_user w))\<lparr>ts_heap := (ts_heap (gs_user (w_user w)))(p := Some (ObjRead rl'))\<rparr> \<and>
    read_record v ?K h ud 2 rl' \<and> map_option g_ref_count (gs_attrib (w_user w')) = map_option g_ref_count (gs_attrib (w_user w))"
  proof (cases "k = 0")
    case True
    have at: "rl_attrib rl = Some ()" using rl(2) by (simp add: read_record_def)
    have vm: "unat m \<le> Suc (length v)" using v(1) True by simp
    let ?rl = "rl\<lparr>rl_buffer := 0x0B # part m v 0, rl_size := m, rl_ref := rl_ref rl + 1\<rparr>"
    obtain w' where w': "read_char_helper G T 0 (0x0B # part m v 0) m p w = Some w'"
      "asked m r c fd x (wire (ReadBlobReq (rl_handle rl) (of_nat (unat m - 1)))) read_blob_helper_fn p (Some read_long_destroy_fn) w w'"
      "gs_user (w_user w') = (gs_user (w_user w))\<lparr>ts_heap := (ts_heap (gs_user (w_user w)))(p := Some (ObjRead ?rl))\<rparr>"
      "map_option g_ref_count (gs_attrib (w_user w')) = map_option g_ref_count (gs_attrib (w_user w))"
      using char_helper_more [OF l inv rl(1) at vm m, of G T] by blast
    have "read_record v ?K h ud 2 ?rl" using rl(2) v(1) m23 True
      by (simp add: read_record_def collected_def part_def)
    moreover have "rl_ref rl + 1 = 2" using rl(2) by (simp add: read_record_def)
    ultimately show ?thesis using w' True rl(2)
      by (intro exI [of _ w'] exI [of _ ?rl]) (simp add: read_helper_def answer_op_def read_record_def collected_def)
  next
    case False
    have col: "collected rl v k" using rl(2) False by (simp add: read_record_def)
    obtain w' rl' where w': "read_blob_helper G T 0 (0x0D # part m v k) m p w = Some w'"
      "asked m r c fd x (wire (ReadBlobReq (rl_handle rl) (of_nat ?K))) read_blob_helper_fn p (Some read_long_destroy_fn) w w'"
      "gs_user (w_user w') = (gs_user (w_user w))\<lparr>ts_heap := (ts_heap (gs_user (w_user w)))(p := Some (ObjRead rl'))\<rparr>"
      "collected rl' v ?K" "rl_ref rl' = rl_ref rl + 1" "rl_func rl' = rl_func rl" "rl_user_data rl' = rl_user_data rl"
      "rl_handle rl' = rl_handle rl" "map_option g_ref_count (gs_attrib (w_user w')) = map_option g_ref_count (gs_attrib (w_user w))"
      using blob_helper_more [OF l inv rl(1) col v m, of G T] by blast
    then have "read_record v ?K h ud 2 rl'" using rl(2) by (simp add: read_record_def collected_def)
    then show ?thesis using w' False rl(2)
      by (intro exI [of _ w'] exI [of _ rl']) (simp add: read_helper_def answer_op_def read_record_def)
  qed
  then obtain w' rl' where w': "read_helper k G T 0 (answer_op k # part m v k) m p w = Some w'"
    "asked m r c fd x (wire (ReadBlobReq h (of_nat ?K))) read_blob_helper_fn p (Some read_long_destroy_fn) w w'"
    "gs_user (w_user w') = (gs_user (w_user w))\<lparr>ts_heap := (ts_heap (gs_user (w_user w)))(p := Some (ObjRead rl'))\<rparr>"
    "read_record v ?K h ud 2 rl'" "map_option g_ref_count (gs_attrib (w_user w')) = map_option g_ref_count (gs_attrib (w_user w))"
    by blast
  obtain op' cb' where a: "link m r c fd [w_next w] x w'" "w_wire w' = w_wire w" "w_next w' = Suc (w_next w)"
    "\<forall>q. q \<noteq> w_next w \<longrightarrow> w_op w' q = w_op w q" "w_op w' (w_next w) = Some op'" "asks op' (wire (ReadBlobReq h (of_nat ?K))) cb'"
    "attrib_inv (w_user w')" "waits_for cb' read_blob_helper_fn p (Some read_long_destroy_fn) (w_user w')"
    "waits_for cb (next_helper k) p (Some read_long_destroy_fn) (w_user w')" "cb \<noteq> cb'"
    by (rule asked_waits [OF w'(2) cbw])
  note nx = next_later [OF k0]
  have "reading v ?K h ud p 2 n H L cb' op' (w_user w')"
    unfolding reading_def nx using a(6,7,8) w'(3,4,5) lay by (auto simp: read_layer_def)
  with w'(1) a show ?thesis by blast
qed

lemma read_last:
  assumes l: "link m r c fd [] x w" and rd: "reading v k h ud p 1 n H L cb op (w_user w)"
    and v: "k \<le> length v" "length v < k + (unat m - 1)" "v \<noteq> []" "length v < 65535"
    and d: "l_dev L = Some d" "d_evh d = Some f" "l_req L ud = Some \<lparr>rq_handle = h\<rparr>"
    and A: "ignores_event A (value_event f h v)"
  shows "\<exists>w' rl'. read_helper k G (libble_client A) 0 (answer_op k # part m v k) (of_nat (length (part m v k)) + 1) p w = Some w' \<and>
    link m r c fd [] x w' \<and> w_wire w' = w_wire w \<and> w_next w' = w_next w \<and> w_op w' = w_op w \<and>
    read_layer p n H (delivered f h v ud L) (w_user w') \<and>
    ts_heap (gs_user (w_user w')) p = Some (ObjRead rl') \<and> rl_ref rl' = 1 \<and> rl_attrib rl' = Some () \<and>
    waits_for cb (next_helper k) p (Some read_long_destroy_fn) (w_user w')"
proof -
  from rd have lay: "read_layer p n H L (w_user w)" and cbw: "waits_for cb (next_helper k) p (Some read_long_destroy_fn) (w_user w)"
    by (simp_all add: reading_def)
  from rd obtain rl where rl: "obj_at p w = Some (ObjRead rl)" "read_record v k h ud 1 rl"
    by (auto simp: reading_def obj_at_def)
  have inv: "attrib_inv (w_user w)" using lay by (simp add: read_layer_def)
  have rr: "rl_func rl = Some char_read_fn" "rl_user_data rl = ud" "rl_ref rl = 1" "rl_attrib rl = Some ()" using rl(2) by (simp_all add: read_record_def)
  have "\<exists>s rl'. read_helper k G (libble_client A) 0 (answer_op k # part m v k) (of_nat (length (part m v k)) + 1) p w =
      call_result (libble_client A) (Some char_read_fn) 0 (0x0B # v) (of_nat (length v) + 1) ud (w\<lparr>w_user := s\<rparr>) \<and>
    attrib_inv s \<and> same_attrib ((w_user w)\<lparr>gs_user := (gs_user (w_user w))\<lparr>ts_heap := (ts_heap (gs_user (w_user w)))(p := Some (ObjRead rl'))\<rparr>\<rparr>) s \<and>
    rl_ref rl' = 1 \<and> rl_attrib rl' = Some ()"
  proof (cases "k = 0")
    case True
    then have vm: "Suc (length v) < unat m" "part m v 0 = v" using v(2) by (simp_all add: part_def)
    from char_helper_last [OF l inv rl(1) rr(4) vm(1), of G "libble_client A"] obtain s where
      s: "read_char_helper G (libble_client A) 0 (0x0B # v) (of_nat (length v) + 1) p w =
        call_result (libble_client A) (rl_func rl) 0 (0x0B # v) (of_nat (length v) + 1) (rl_user_data rl) (w\<lparr>w_user := s\<rparr>)"
      "attrib_inv s" "same_attrib (w_user w) s" by blast
    then show ?thesis using True vm(2) rr same_obj [OF rl(1)]
      by (intro exI [of _ s] exI [of _ rl]) (simp add: read_helper_def answer_op_def)
  next
    case False
    have col: "collected rl v k" using rl(2) False by (simp add: read_record_def)
    from blob_helper_last [OF l inv rl(1) col v(2,4), of G "libble_client A"] False rr
    show ?thesis by (simp add: read_helper_def answer_op_def)
  qed
  then obtain s rl' where s: "read_helper k G (libble_client A) 0 (answer_op k # part m v k) (of_nat (length (part m v k)) + 1) p w =
      call_result (libble_client A) (Some char_read_fn) 0 (0x0B # v) (of_nat (length v) + 1) ud (w\<lparr>w_user := s\<rparr>)" "attrib_inv s"
    "same_attrib ((w_user w)\<lparr>gs_user := (gs_user (w_user w))\<lparr>ts_heap := (ts_heap (gs_user (w_user w)))(p := Some (ObjRead rl'))\<rparr>\<rparr>) s"
    "rl_ref rl' = 1" "rl_attrib rl' = Some ()" by blast
  note sm = same_attribD [OF s(3)]
  have us: "ts_user (gs_user s) = L" "\<forall>q. q \<noteq> p \<longrightarrow> ts_heap (gs_user s) q = H q" "ts_heap (gs_user s) p = Some (ObjRead rl')"
    "map_option g_ref_count (gs_attrib s) = Some n" "waits_for cb (next_helper k) p (Some read_long_destroy_fn) s"
    using sm lay cbw by (simp_all add: read_layer_def)
  let ?w1 = "upd_ts (\<lambda>t. t\<lparr>ts_calls := ts_calls t @ [TResult char_read_fn 0 (0x0B # v) (of_nat (length v) + 1) ud]\<rparr>) (w\<lparr>w_user := s\<rparr>)"
  have L1: "lst ?w1 = L" using us(1) by (simp add: lst_def)
  have dl: "read_helper k G (libble_client A) 0 (answer_op k # part m v k) (of_nat (length (part m v k)) + 1) p w =
      Some (upd_ls (delivered f h v ud) ?w1)"
    unfolding s(1) call_read using L1 d(1,3) by (intro read_delivered [where d = d]) (simp_all add: d(2) v(3,4) A)
  show ?thesis
    by (rule exI [of _ "upd_ls (delivered f h v ud) ?w1"], rule exI [of _ rl'])
      (use dl l s(2,4,5) us in \<open>simp add: read_layer_def\<close>)
qed

lemma op_types [simp]:
  "get_op_type (answer_op k) = ATT_OP_TYPE_RSP" "answer_op k \<noteq> BT_ATT_OP_ERROR_RSP"
  "get_req_opcode (answer_op k) = hd (next_request h k)" "hd (next_request h k) \<noteq> 0"
  by (simp_all add: answer_op_def next_request_def BT_ATT_OP_ERROR_RSP_def)

lemma readingD:
  assumes "reading v k h ud p j n H L cb op u"
  shows "attrib_inv u" "read_layer p n H L u" "waits_for cb (next_helper k) p (Some read_long_destroy_fn) u"
    "asks op (next_request h k) cb"
  using assms by (simp_all add: reading_def read_layer_def)

lemma reading_calls [simp]: "reading v k h ud p j n H L cb op (u\<lparr>gs_calls := l\<rparr>) = reading v k h ud p j n H L cb op u"
  by (simp add: reading_def read_layer_def)

lemma read_answer_more:
  assumes s: "read_sent m r c fd v k h ud p n H L w" and r: "0 < r" "2 \<le> n"
    and v: "k + (unat m - 1) \<le> length v" "length v < 65535" and m: "23 \<le> m"
  and E_def: "E = bearer (layers (Suc (Suc K)) G A)" and rx: "k_read E fd m = Some (answer_op k # part m v k)"
  shows "\<exists>w'. can_read_data E c w = Some (True, w') \<and> read_queued m r c fd v (k + (unat m - 1)) h ud p n H L w' \<and>
    w_wire w' = w_wire w"
proof -
  let ?K = "k + (unat m - 1)"
  from s obtain q op cb where q: "link m r c fd [] (Some q) w" "w_op w q = Some op" "q < w_next w"
    "reading v k h ud p 1 n H L cb op (w_user w)" unfolding read_sent_def by blast
  note D = readingD [OF q(4)]
  have a: "op_callback op = Some attrib_callback_result_fn" "op_destroy op = Some attrib_callbacks_remove_fn"
    "op_opcode op = hd (next_request h k)" "op_user_data op = cb" using D(4) by (simp_all add: asks_def)
  have m23: "23 \<le> unat m" using m by (simp add: word_le_nat_alt)
  have lp: "length (part m v k) = unat m - 1" using v(1) by (simp add: part_def)
  have nm: "of_nat (length (part m v k)) + 1 = m" unfolding lp using m23 by (simp add: of_nat_diff)
  let ?R = "\<lambda>j u h' n'. \<exists>op' cb'. h' (w_next w) = Some op' \<and> n' = Suc (w_next w) \<and>
    reading v ?K h ud p j n H L cb' op' u \<and> (1 < j \<longrightarrow> waits_for cb (next_helper k) p (Some read_long_destroy_fn) u \<and> cb \<noteq> cb')"
  have "\<exists>w' u h' n'. can_read_data E c w = Some (True, w') \<and> link m r c fd [w_next w] None w' \<and> w_wire w' = w_wire w \<and>
    w_op w' = h'(q := None) \<and> w_user w' = u \<and> w_next w' = n' \<and> ?R 1 u h' n'"
  proof (rule link_response [OF q(1) r(1) q(2) a(1,2), where R = "?R 2"])
    fix w1 assume w1: "link m (r + 1) c fd [] (Some q) w1" "w_user w1 = w_user w" "w_op w1 = w_op w" "w_wire w1 = w_wire w" "w_next w1 = w_next w"
    let ?w1 = "upd_gs (\<lambda>s. s\<lparr>gs_calls := gs_calls s @ [GResult (next_helper k) 0 (answer_op k # part m v k) m p]\<rparr>) w1"
    have rd1: "reading v k h ud p 1 n H L cb op (w_user ?w1)" using q(4) w1(2) by simp
    have l1: "link m (r + 1) c fd [] (Some q) ?w1" using w1(1) by simp
    obtain w2 op' cb' where w2: "read_helper k (layers K G A) (libble_client (A (layers K G A))) 0 (answer_op k # part m v k) m p ?w1 = Some w2"
      "link m (r + 1) c fd [w_next ?w1] (Some q) w2" "w_wire w2 = w_wire ?w1" "w_next w2 = Suc (w_next ?w1)"
      "\<forall>q. q \<noteq> w_next ?w1 \<longrightarrow> w_op w2 q = w_op ?w1 q" "w_op w2 (w_next ?w1) = Some op'"
      "reading v ?K h ud p 2 n H L cb' op' (w_user w2)"
      "waits_for cb (next_helper k) p (Some read_long_destroy_fn) (w_user w2)" "cb \<noteq> cb'"
      using read_more [OF l1 rd1 v m, of "layers K G A" "libble_client (A (layers K G A))"] by blast
    have "client E (CallResponse attrib_callback_result_fn (answer_op k) (part m v k) (op_user_data op)) w1 = Some w2"
      unfolding E_def layers_client a(4) using read_answer [of w1 cb k p "Some read_long_destroy_fn" K G A "part m v k"] D(1,3) w1(2) w2(1) nm
      by simp
    moreover have "w_op w2 q = Some op" using w2(5) w1(3,5) q(2,3) by simp
    ultimately show "\<exists>w2. client E (CallResponse attrib_callback_result_fn (answer_op k) (part m v k) (op_user_data op)) w1 = Some w2 \<and>
        link m (r + 1) c fd [w_next w] (Some q) w2 \<and> w_op w2 q = Some op \<and> w_wire w2 = w_wire w \<and> ?R 2 (w_user w2) (w_op w2) (w_next w2)"
      using w2 w1(3,4,5) by (intro exI [of _ w2]) auto
  next
    fix w3 assume w3: "link m (r + 1) c fd [w_next w] (Some q) w3" "?R 2 (w_user w3) (w_op w3) (w_next w3)"
    then obtain op' cb' where o: "w_op w3 (w_next w) = Some op'" "w_next w3 = Suc (w_next w)"
      "reading v ?K h ud p 2 n H L cb' op' (w_user w3)"
      "waits_for cb (next_helper k) p (Some read_long_destroy_fn) (w_user w3)" "cb \<noteq> cb'" by auto
    from o(3) obtain rl where rl: "ts_heap (gs_user (w_user w3)) p = Some (ObjRead rl)" "read_record v ?K h ud 2 rl"
      by (auto simp: reading_def)
    have at: "rl_attrib rl = Some ()" "rl_ref rl = 2" using rl(2) by (simp_all add: read_record_def)
    obtain s where s: "gattrib_client (layers (Suc K) G A) (CallDestroy attrib_callbacks_remove_fn cb) w3 = Some (w3\<lparr>w_user := s\<rparr>)"
      "read_layer p n H L s" "ts_heap (gs_user s) p = Some (ObjRead (rl\<lparr>rl_ref := 1\<rparr>))"
      "\<forall>q f' ud' d'. q \<noteq> cb \<longrightarrow> waits_for q f' ud' d' (w_user w3) \<longrightarrow> waits_for q f' ud' d' s"
      using read_destroy [OF readingD(2) [OF o(3)] r(2) o(4) rl(1) at(1), of K G A] at(2) by auto
    have "read_record v ?K h ud 1 (rl\<lparr>rl_ref := 1\<rparr>)" using rl(2) by (simp add: read_record_def collected_def)
    then have "reading v ?K h ud p 1 n H L cb' op' s"
      unfolding reading_def using s(2,3,4) readingD(3,4) [OF o(3)] o(5) [symmetric] by blast
    then show "\<exists>w4. client E (CallDestroy attrib_callbacks_remove_fn (op_user_data op)) w3 = Some w4 \<and>
        link m (r + 1) c fd [w_next w] (Some q) w4 \<and> w_op w4 = w_op w3 \<and> w_wire w4 = w_wire w3 \<and> w_next w4 = w_next w3 \<and>
        ?R 1 (w_user w4) (w_op w4) (w_next w4)"
      unfolding E_def layers_client a(4) using s(1) w3(1) o(1,2) by (intro exI [of _ "w3\<lparr>w_user := s\<rparr>"]) auto
  qed (use rx lp m23 a(3) in auto)
  then obtain w' h' op' cb' where w': "can_read_data E c w = Some (True, w')" "link m r c fd [w_next w] None w'" "w_wire w' = w_wire w"
    "w_op w' = h'(q := None)" "w_next w' = Suc (w_next w)" "h' (w_next w) = Some op'" "reading v ?K h ud p 1 n H L cb' op' (w_user w')"
    by blast
  have "read_queued m r c fd v ?K h ud p n H L w'"
    unfolding read_queued_def using w' q(3) by (intro exI [of _ "w_next w"] exI [of _ op'] exI [of _ cb']) auto
  with w'(1,3) show ?thesis by blast
qed

text \<open>After the last part: nothing is queued or pending, the records of the read are released.\<close>

definition read_finished :: "u16 \<Rightarrow> int \<Rightarrow> nat \<Rightarrow> int \<Rightarrow> nat \<Rightarrow> int \<Rightarrow> (nat \<Rightarrow> gatt_obj option) \<Rightarrow> lstate \<Rightarrow> lworld \<Rightarrow> bool" where
  "read_finished m r c fd p n H L w \<longleftrightarrow> link m r c fd [] None w \<and> read_layer p n H L (w_user w) \<and> ts_heap (gs_user (w_user w)) p = None"

lemma read_answer_last:
  assumes s: "read_sent m r c fd v k h ud p n H L w" and r: "0 < r" "2 \<le> n"
    and v: "k \<le> length v" "length v < k + (unat m - 1)" "v \<noteq> []" "length v < 65535"
    and d: "l_dev L = Some d" "d_evh d = Some f" "l_req L ud = Some \<lparr>rq_handle = h\<rparr>"
    and A: "ignores_event (A (layers K G A)) (value_event f h v)"
  and E_def: "E = bearer (layers (Suc (Suc K)) G A)" and rx: "k_read E fd m = Some (answer_op k # part m v k)"
  shows "\<exists>w'. can_read_data E c w = Some (True, w') \<and> read_finished m r c fd p (n - 1) H (delivered f h v ud L) w' \<and>
    w_wire w' = w_wire w"
proof -
  from s obtain q op cb where q: "link m r c fd [] (Some q) w" "w_op w q = Some op" "q < w_next w"
    "reading v k h ud p 1 n H L cb op (w_user w)" unfolding read_sent_def by blast
  note D = readingD [OF q(4)]
  have a: "op_callback op = Some attrib_callback_result_fn" "op_destroy op = Some attrib_callbacks_remove_fn"
    "op_opcode op = hd (next_request h k)" "op_user_data op = cb" using D(4) by (simp_all add: asks_def)
  have lp: "length (part m v k) < unat m" using v(1,2) by (simp add: part_def)
  let ?L = "delivered f h v ud L"
  let ?R = "\<lambda>u (h' :: nat \<Rightarrow> att_send_op option) (n' :: nat). \<exists>rl'. read_layer p n H ?L u \<and> ts_heap (gs_user u) p = Some (ObjRead rl') \<and> rl_ref rl' = 1 \<and>
    rl_attrib rl' = Some () \<and> waits_for cb (next_helper k) p (Some read_long_destroy_fn) u"
  let ?Q = "\<lambda>u (h' :: nat \<Rightarrow> att_send_op option) (n' :: nat). read_layer p (n - 1) H ?L u \<and> ts_heap (gs_user u) p = None"
  have "\<exists>w' u h' n'. can_read_data E c w = Some (True, w') \<and> link m r c fd [] None w' \<and> w_wire w' = w_wire w \<and>
    w_op w' = h'(q := None) \<and> w_user w' = u \<and> w_next w' = n' \<and> ?Q u h' n'"
  proof (rule link_response [OF q(1) r(1) q(2) a(1,2), where R = ?R])
    fix w1 assume w1: "link m (r + 1) c fd [] (Some q) w1" "w_user w1 = w_user w" "w_op w1 = w_op w" "w_wire w1 = w_wire w" "w_next w1 = w_next w"
    let ?w1 = "upd_gs (\<lambda>s. s\<lparr>gs_calls := gs_calls s @ [GResult (next_helper k) 0 (answer_op k # part m v k) (of_nat (length (part m v k)) + 1) p]\<rparr>) w1"
    have rd1: "reading v k h ud p 1 n H L cb op (w_user ?w1)" using q(4) w1(2) by simp
    have l1: "link m (r + 1) c fd [] (Some q) ?w1" using w1(1) by simp
    obtain w2 rl' where w2: "read_helper k (layers K G A) (libble_client (A (layers K G A))) 0 (answer_op k # part m v k) (of_nat (length (part m v k)) + 1) p ?w1 = Some w2"
      "link m (r + 1) c fd [] (Some q) w2" "w_wire w2 = w_wire ?w1" "w_next w2 = w_next ?w1" "w_op w2 = w_op ?w1"
      "read_layer p n H ?L (w_user w2)" "ts_heap (gs_user (w_user w2)) p = Some (ObjRead rl')" "rl_ref rl' = 1" "rl_attrib rl' = Some ()"
      "waits_for cb (next_helper k) p (Some read_long_destroy_fn) (w_user w2)"
      using read_last [OF l1 rd1 v d A, of "layers K G A"] by blast
    have "client E (CallResponse attrib_callback_result_fn (answer_op k) (part m v k) (op_user_data op)) w1 = Some w2"
      unfolding E_def layers_client a(4) using read_answer [of w1 cb k p "Some read_long_destroy_fn" K G A "part m v k"] D(1,3) w1(2) w2(1)
      by simp
    then show "\<exists>w2. client E (CallResponse attrib_callback_result_fn (answer_op k) (part m v k) (op_user_data op)) w1 = Some w2 \<and>
        link m (r + 1) c fd [] (Some q) w2 \<and> w_op w2 q = Some op \<and> w_wire w2 = w_wire w \<and> ?R (w_user w2) (w_op w2) (w_next w2)"
      using w2 w1(3,4,5) q(2) by (intro exI [of _ w2]) simp
  next
    fix w3 assume w3: "link m (r + 1) c fd [] (Some q) w3" "?R (w_user w3) (w_op w3) (w_next w3)"
    then obtain rl' where o: "read_layer p n H ?L (w_user w3)" "ts_heap (gs_user (w_user w3)) p = Some (ObjRead rl')" "rl_ref rl' = 1"
      "rl_attrib rl' = Some ()" "waits_for cb (next_helper k) p (Some read_long_destroy_fn) (w_user w3)" by blast
    obtain s where s: "gattrib_client (layers (Suc K) G A) (CallDestroy attrib_callbacks_remove_fn cb) w3 = Some (w3\<lparr>w_user := s\<rparr>)"
      "read_layer p (n - 1) H ?L s" "ts_heap (gs_user s) p = None"
      using read_destroy [OF o(1) r(2) o(5) o(2,4), of K G A] o(3) by auto
    show "\<exists>w4. client E (CallDestroy attrib_callbacks_remove_fn (op_user_data op)) w3 = Some w4 \<and>
        link m (r + 1) c fd [] (Some q) w4 \<and> w_op w4 = w_op w3 \<and> w_wire w4 = w_wire w3 \<and> w_next w4 = w_next w3 \<and>
        ?Q (w_user w4) (w_op w4) (w_next w4)"
      unfolding E_def layers_client a(4) using s w3(1) by (intro exI [of _ "w3\<lparr>w_user := s\<rparr>"]) simp
  qed (use rx lp a(3) in auto)
  then show ?thesis unfolding read_finished_def by blast
qed

end
