(* ===== verification/LibSession.thy ===== *)
theory LibSession
  imports LibRead
begin

text \<open>
  A device that is connected and idle (\<open>session\<close>): how connecting leads there, and the rounds of requests
  and responses of a read.
\<close>

text \<open>A device that is connected, with nothing queued or pending.\<close>

definition session :: "u16 \<Rightarrow> nat \<Rightarrow> int \<Rightarrow> func \<Rightarrow> lworld \<Rightarrow> bool" where
  "session m c fd f w \<longleftrightarrow> (\<exists>r n d. link m r c fd [] None w \<and> 0 < r \<and> 23 \<le> m \<and>
     attrib_inv (w_user w) \<and> map_option g_ref_count (gs_attrib (w_user w)) = Some n \<and> 1 \<le> n \<and>
     l_dev (lst w) = Some d \<and> conn_state d = STATE_CONNECTED \<and> d_attrib d = Some () \<and> d_evh d = Some f)"

text \<open>A server whose characteristic has the value \<open>v\<close>, and the rounds of a request and its response.\<close>

definition read_server :: "u16 \<Rightarrow> u8 list \<Rightarrow> u8 list \<Rightarrow> u8 list" where
  "read_server m v pdu = (if hd pdu = ATT_OP_READ_REQ then ATT_OP_READ_RESP # part m v 0
     else case get_le16 pdu 3 of None \<Rightarrow> [] | Some offset \<Rightarrow> ATT_OP_READ_BLOB_RESP # part m v (unat offset))"

definition peer_sends :: "'u genv \<Rightarrow> u8 list \<Rightarrow> 'u genv" where
  "peer_sends G rsp = G\<lparr>bearer := (bearer G)\<lparr>k_read := \<lambda>_ _. Some rsp\<rparr>\<rparr>"

fun serve :: "nat \<Rightarrow> nat \<Rightarrow> ble_io \<Rightarrow> lenv \<Rightarrow> (ble_event \<Rightarrow> lworld \<Rightarrow> lble_op list) \<Rightarrow> nat \<Rightarrow> (u8 list \<Rightarrow> u8 list) \<Rightarrow> lworld \<Rightarrow> lworld option"
where
  "serve 0 N B G policy c server w = Some w"
| "serve (Suc j) N B G policy c server w = do {
     w \<leftarrow> run_sys N B G policy (Bearer (EvWrite c)) w;
     w \<leftarrow> run_sys N B (peer_sends G (server (fst (snd (last (w_wire w)))))) policy (Bearer (EvRead c)) w;
     serve j N B G policy c server w }"

lemma server_answers:
  assumes "k < 65536"
  shows "read_server m v (next_request h k) = answer_op k # part m v k"
proof (cases "k = 0")
  case False
  have "get_le16 ([0x0C] @ le2 h @ le2 (of_nat k)) 3 = Some (of_nat k)"
    using get_le16_mid [of 3 "[0x0C] @ le2 h" "of_nat k" "[]"] by simp
  then show ?thesis using assms False
    by (simp add: read_server_def next_request_def answer_op_def unat_of_nat_u16)
qed (simp add: read_server_def next_request_def answer_op_def)

lemma system_layers: "system N B G policy = layers N G (\<lambda>G. app_at N B G policy)"
  by (simp add: system_def layers_def)

lemma bearer_fields [simp]:
  "io_send (bearer (layers N G A)) = io_send (bearer G)" "k_read (bearer (layers N G A)) = k_read (bearer G)"
  "io_send (bearer (peer_sends G x)) = io_send (bearer G)" "k_read (bearer (peer_sends G x)) fd n = Some x"
  by (cases N; simp add: layers_def peer_sends_def)+

text \<open>The socket takes what is written, and the application makes no call on an event.\<close>

definition writable :: "'u genv \<Rightarrow> int \<Rightarrow> bool" where
  "writable G fd \<longleftrightarrow> (\<forall>bs. io_send (bearer G) fd bs \<noteq> 0)"

definition makes_no_call :: "(ble_event \<Rightarrow> lworld \<Rightarrow> lble_op list) \<Rightarrow> ble_event \<Rightarrow> bool" where
  "makes_no_call policy ev \<longleftrightarrow> (\<forall>w. policy ev w = [])"

lemma quiet_app: "makes_no_call policy ev \<Longrightarrow> ignores_event (app_at N B G policy) ev"
  by (cases N) (simp_all add: ignores_event_def makes_no_call_def)

text \<open>What one round puts on the wire.\<close>

definition sent :: "'u genv \<Rightarrow> int \<Rightarrow> u16 \<Rightarrow> nat \<Rightarrow> int \<times> u8 list \<times> int" where
  "sent G fd h k = (fd, next_request h k, io_send (bearer G) fd (next_request h k))"

lemma round_more:
  assumes q: "read_queued m r c fd v k h ud p n H L w" and r: "0 < r" "2 \<le> n"
    and v: "k + (unat m - 1) \<le> length v" "length v < 65535" and m: "23 \<le> m"
    and io: "writable G fd"
  shows "\<exists>w'. serve (Suc j) (Suc (Suc K)) B G policy c (read_server m v) w = serve j (Suc (Suc K)) B G policy c (read_server m v) w' \<and>
    read_queued m r c fd v (k + (unat m - 1)) h ud p n H L w' \<and> w_wire w' = w_wire w @ [sent G fd h k]"
proof -
  let ?N = "Suc (Suc K)"
  let ?A = "\<lambda>G'. app_at ?N B G' policy"
  have io': "io_send (bearer (layers ?N G ?A)) fd (next_request h k) \<noteq> 0" using io by (simp add: writable_def)
  obtain w1 where w1: "can_write_data (bearer (layers ?N G ?A)) c w = Some (True, w1)" "read_sent m r c fd v k h ud p n H L w1"
    "w_wire w1 = w_wire w @ [sent G fd h k]"
    using read_write [OF q m io'] by (auto simp: sent_def)
  have k: "k < 65536" using v m by simp
  have "fst (snd (last (w_wire w1))) = next_request h k" using w1(3) by (simp add: sent_def)
  then have srv: "read_server m v (fst (snd (last (w_wire w1)))) = answer_op k # part m v k" using server_answers [OF k] by simp
  let ?G = "peer_sends G (answer_op k # part m v k)"
  have rx: "k_read (bearer (layers ?N ?G ?A)) fd m = Some (answer_op k # part m v k)" by simp
  obtain w2 where w2: "can_read_data (bearer (layers ?N ?G ?A)) c w1 = Some (True, w2)"
    "read_queued m r c fd v (k + (unat m - 1)) h ud p n H L w2" "w_wire w2 = w_wire w1"
    using read_answer_more [OF w1(2) r v m refl rx] by blast
  have "serve (Suc j) ?N B G policy c (read_server m v) w = serve j ?N B G policy c (read_server m v) w2"
    using w1(1) w2(1) by (simp add: system_layers srv result_state_def)
  with w2 w1(3) show ?thesis by (intro exI [of _ w2]) simp
qed

lemma round_last:
  assumes q: "read_queued m r c fd v k h ud p n H L w" and r: "0 < r" "2 \<le> n"
    and v: "k \<le> length v" "length v < k + (unat m - 1)" "v \<noteq> []" "length v < 65535" and m: "23 \<le> m"
    and d: "l_dev L = Some d" "d_evh d = Some f" "l_req L ud = Some \<lparr>rq_handle = h\<rparr>"
    and io: "writable G fd" and policy: "makes_no_call policy (value_event f h v)"
  shows "\<exists>w'. serve (Suc j) (Suc (Suc K)) B G policy c (read_server m v) w = serve j (Suc (Suc K)) B G policy c (read_server m v) w' \<and>
    read_finished m r c fd p (n - 1) H (delivered f h v ud L) w' \<and> w_wire w' = w_wire w @ [sent G fd h k]"
proof -
  let ?N = "Suc (Suc K)"
  let ?A = "\<lambda>G'. app_at ?N B G' policy"
  have io': "io_send (bearer (layers ?N G ?A)) fd (next_request h k) \<noteq> 0" using io by (simp add: writable_def)
  obtain w1 where w1: "can_write_data (bearer (layers ?N G ?A)) c w = Some (True, w1)" "read_sent m r c fd v k h ud p n H L w1"
    "w_wire w1 = w_wire w @ [sent G fd h k]"
    using read_write [OF q m io'] by (auto simp: sent_def)
  have k: "k < 65536" using v by simp
  have "fst (snd (last (w_wire w1))) = next_request h k" using w1(3) by (simp add: sent_def)
  then have srv: "read_server m v (fst (snd (last (w_wire w1)))) = answer_op k # part m v k" using server_answers [OF k] by simp
  let ?G = "peer_sends G (answer_op k # part m v k)"
  have rx: "k_read (bearer (layers ?N ?G ?A)) fd m = Some (answer_op k # part m v k)" by simp
  have A: "ignores_event (?A (layers K ?G ?A)) (value_event f h v)" using policy by (rule quiet_app)
  obtain w2 where w2: "can_read_data (bearer (layers ?N ?G ?A)) c w1 = Some (True, w2)"
    "read_finished m r c fd p (n - 1) H (delivered f h v ud L) w2" "w_wire w2 = w_wire w1"
    using read_answer_last [OF w1(2) r v d A refl rx] by blast
  have "serve (Suc j) ?N B G policy c (read_server m v) w = serve j ?N B G policy c (read_server m v) w2"
    using w1(1) w2(1) by (simp add: system_layers srv result_state_def)
  with w2 w1(3) show ?thesis by (intro exI [of _ w2]) simp
qed

text \<open>The requests that a value of a given length takes.\<close>

fun offsets :: "nat \<Rightarrow> nat \<Rightarrow> nat \<Rightarrow> nat list" where
  "offsets M k 0 = []"
| "offsets M k (Suc j) = k # offsets M (k + M) j"

lemma read_rounds:
  assumes q: "read_queued m r c fd v k h ud p n H L w" and r: "0 < r" "2 \<le> n" and v: "v \<noteq> []" "length v < 65535" and m: "23 \<le> m"
    and d: "l_dev L = Some d" "d_evh d = Some f" "l_req L ud = Some \<lparr>rq_handle = h\<rparr>"
    and io: "writable G fd" and policy: "makes_no_call policy (value_event f h v)"
    and k: "k \<le> length v" "j = (length v - k) div (unat m - 1)"
  shows "\<exists>w'. serve (Suc j) (Suc (Suc K)) B G policy c (read_server m v) w = Some w' \<and>
    read_finished m r c fd p (n - 1) H (delivered f h v ud L) w' \<and>
    w_wire w' = w_wire w @ map (sent G fd h) (offsets (unat m - 1) k (Suc j))"
  using q k
proof (induction j arbitrary: k w)
  case 0
  have "0 < unat m - 1" using m by (simp add: word_le_nat_alt)
  then have "length v < k + (unat m - 1)" using 0(2,3) by (simp add: div_eq_0_iff)
  from round_last [OF 0(1) r 0(2) this v m d io policy, of 0 K B] show ?case by auto
next
  case (Suc j)
  have M: "0 < unat m - 1" using m by (simp add: word_le_nat_alt)
  have le: "k + (unat m - 1) \<le> length v"
  proof (rule ccontr)
    assume "\<not> k + (unat m - 1) \<le> length v"
    then have "length v - k < unat m - 1" using Suc(3) by linarith
    then have "(length v - k) div (unat m - 1) = 0" by (rule div_less)
    then show False using Suc(4) by simp
  qed
  obtain w1 where w1: "serve (Suc (Suc j)) (Suc (Suc K)) B G policy c (read_server m v) w = serve (Suc j) (Suc (Suc K)) B G policy c (read_server m v) w1"
    "read_queued m r c fd v (k + (unat m - 1)) h ud p n H L w1" "w_wire w1 = w_wire w @ [sent G fd h k]"
    using round_more [OF Suc(2) r le v(2) m io, of "Suc j" K B policy] by blast
  have "length v - (k + (unat m - 1)) = (length v - k) - (unat m - 1)" by simp
  moreover have "unat m - 1 \<le> length v - k" using le by simp
  ultimately have "j = (length v - (k + (unat m - 1))) div (unat m - 1)"
    using Suc(4) M by (simp add: le_div_geq)
  from Suc(1) [OF w1(2) le this] show ?case unfolding w1(1) w1(3) by auto
qed

lemma request_starts:
  assumes s: "session m c fd f w"
  shows "\<exists>r n w'. lble_request G (Some ()) h w = Some w' \<and> 0 < r \<and> 2 \<le> n \<and> w_wire w' = w_wire w \<and>
    read_queued m r c fd v 0 h (l_next (lst w)) (ts_next (gs_user (w_user w))) n (ts_heap (gs_user (w_user w)))
      ((lst w)\<lparr>l_req := (l_req (lst w))(l_next (lst w) := Some \<lparr>rq_handle = h\<rparr>), l_next := Suc (l_next (lst w))\<rparr>) w' \<and>
    map_option g_ref_count (gs_attrib (w_user w)) = Some (n - 1)"
proof -
  from s obtain r n d where w: "link m r c fd [] None w" "0 < r" "23 \<le> m"
    "attrib_inv (w_user w)" "map_option g_ref_count (gs_attrib (w_user w)) = Some n" "1 \<le> n"
    "l_dev (lst w) = Some d" "conn_state d = STATE_CONNECTED" "d_attrib d = Some ()" "d_evh d = Some f"
    unfolding session_def by blast
  let ?ud = "l_next (lst w)" and ?p = "ts_next (gs_user (w_user w))" and ?H = "ts_heap (gs_user (w_user w))"
  let ?L = "(lst w)\<lparr>l_req := (l_req (lst w))(?ud := Some \<lparr>rq_handle = h\<rparr>), l_next := Suc ?ud\<rparr>"
  let ?w1 = "upd_ls (\<lambda>s. s\<lparr>l_req := (l_req s)(?ud := Some \<lparr>rq_handle = h\<rparr>), l_next := Suc ?ud\<rparr>) w"
  have l1: "link m r c fd [] None ?w1" "attrib_inv (w_user ?w1)" using w by simp_all
  have p1: "ts_next (gs_user (w_user ?w1)) = ?p" "ts_heap (gs_user (w_user ?w1)) = ?H" "ts_user (gs_user (w_user ?w1)) = ?L"
    by (simp_all add: lst_def)
  let ?rl = "\<lambda>i. \<lparr>rl_attrib = Some (), rl_func = Some char_read_fn, rl_user_data = ?ud, rl_buffer = [], rl_size = 0, rl_handle = h,
       rl_id = i, rl_ref = 1\<rparr>"
  obtain i w' where w': "gatt_read_char G (Some ()) h (Some char_read_fn) ?ud ?w1 = Some (i, w')"
    "asked m r c fd None (wire (ReadReq h)) read_char_helper_fn ?p (Some read_long_destroy_fn) ?w1 w'"
    "gs_user (w_user w') = (gs_user (w_user ?w1))\<lparr>ts_heap := ?H(?p := Some (ObjRead (?rl i))), ts_next := Suc ?p\<rparr>"
    "map_option g_ref_count (gs_attrib (w_user w')) = map_option (\<lambda>g. g_ref_count g + 1) (gs_attrib (w_user ?w1))"
    using read_char_starts [OF l1 w(3), of G h char_read_fn ?ud] unfolding p1 by blast
  have req: "lble_request G (Some ()) h w = Some w'"
    using w(7,8,9) w'(1) by (simp add: lble_request_def if_connected_def the_dev_def new_req_def Let_def)
  from w'(2) obtain op cb where a: "link m r c fd [w_next ?w1] None w'" "w_wire w' = w_wire ?w1" "w_next w' = Suc (w_next ?w1)"
    "w_op w' (w_next ?w1) = Some op" "asks op (wire (ReadReq h)) cb" "attrib_inv (w_user w')"
    "waits_for cb read_char_helper_fn ?p (Some read_long_destroy_fn) (w_user w')" unfolding asked_def by blast
  have rc: "map_option g_ref_count (gs_attrib (w_user w')) = Some (n + 1)" using w'(4) w(5) by auto
  have "read_layer ?p (n + 1) ?H ?L (w_user w')" using a(6) rc w'(3) p1(3) by (simp add: read_layer_def)
  moreover have "read_record v 0 h ?ud 1 (?rl i)" by (simp add: read_record_def)
  moreover have "ts_heap (gs_user (w_user w')) ?p = Some (ObjRead (?rl i))" using w'(3) by simp
  ultimately have "reading v 0 h ?ud ?p 1 (n + 1) ?H ?L cb op (w_user w')"
    unfolding reading_def using a(5,7) by (simp add: next_request_def next_helper_def)
  then have "read_queued m r c fd v 0 h ?ud ?p (n + 1) ?H ?L w'"
    unfolding read_queued_def using a(1,3,4) by (intro exI [of _ "w_next ?w1"] exI [of _ op] exI [of _ cb]) simp
  then show ?thesis using req w(2,5,6) a(2) by (intro exI [of _ r] exI [of _ "n + 1"] exI [of _ w']) simp
qed


section \<open>Connecting\<close>

text \<open>No \<open>GAttrib\<close>, and addresses that are still free.\<close>

definition attrib_closed :: "'u gstate \<Rightarrow> bool" where
  "attrib_closed s \<longleftrightarrow> gs_attrib s = None \<and> 1 \<le> gs_next s \<and> gs_cb s 0 = None \<and>
     (\<forall>p \<ge> gs_next s. gs_cb s p = None \<and> gs_id s p = None)"

text \<open>A socket on which a channel of an LE or a local link can be set up.\<close>

definition le_socket :: "socket \<Rightarrow> int \<Rightarrow> bool" where
  "le_socket S fd \<longleftrightarrow> 0 \<le> fd \<and> io_new S fd \<and> io_set_read_handler S fd \<and> io_set_disconnect_handler S fd \<and>
     io_get_type S fd \<in> {BT_ATT_LOCAL, BT_ATT_LE}"

lemma new_bearer_link:
  assumes S: "le_socket S fd"
  shows "\<exists>w'. bt_att_new E S K fd False w = Some (Some (), w') \<and> link 23 1 (w_next w) fd [] None w' \<and> same_client w w'"
proof -
  let ?c = "w_next w"
  obtain w1 where w1: "bt_att_chan_new S fd (io_get_type S fd) w = (Some ?c, w1)" "same_client w w1" "w_att w1 = w_att w"
    "w_chan w1 ?c = Some \<lparr>ch_att = False, ch_fd = fd, ch_type = io_get_type S fd,
      ch_sec_level = (if io_get_type S fd = BT_ATT_LOCAL then BT_ATT_SECURITY_LOW else BT_ATT_SECURITY_AUTO),
      ch_queue = [], pending_req = None, pending_ind = None, writer_active = False, in_req = False,
      ch_buf_at = Suc ?c, ch_buf = fresh 23, ch_mtu = 23, ch_io_shut = False, ch_io_close = False\<rparr>"
    using S by (auto simp: bt_att_chan_new_def le_socket_def BT_ATT_DEFAULT_LE_MTU_def same_client_def set_chan_def)
  let ?a = "\<lparr>a_ref_count = 0, close_on_unref = False, chans = [?c], enc_size = 0, a_mtu = 23,
          notify_list = [], disconn_list = [], next_send_id = 0, next_reg_id = 0, req_queue = [],
          ind_queue = [], write_queue = [], timeout_callback = None, timeout_destroy = None,
          timeout_data = 0, debug_callback = None, debug_destroy = None, debug_data = 0,
          a_crypto = K, local_sign = None, remote_sign = None\<rparr>"
  obtain ch where ch: "w_chan w1 ?c = Some ch" "ch_queue ch = []" "pending_req ch = None" "pending_ind ch = None" "ch_mtu ch = 23"
    "ch_fd ch = fd" "length (ch_buf ch) = 23" using w1(4) by (simp add: fresh_def)
  let ?w2 = "set_chan ?c (ch\<lparr>ch_att := True, ch_io_close := False\<rparr>) (set_att ?a w1)"
  have l2: "link 23 0 ?c fd [] None ?w2" using ch unfolding link_def set_chan_def set_att_def by simp
  obtain w3 where w3: "wakeup_chan_writer E ?c ?w2 = Some w3" "link 23 0 ?c fd [] None w3" "same_client ?w2 w3"
    using link_wakeup [OF l2] by blast
  obtain a3 where a3: "w_att w3 = Some a3" "a_ref_count a3 = 0" by (rule linkE [OF w3(2)])
  let ?w4 = "set_att (a3\<lparr>a_ref_count := 1\<rparr>) w3"
  have "bt_att_new E S K fd False w = Some (Some (), ?w4)"
    using w1(1) ch w3(1) a3
    by (simp add: bt_att_new_def bt_att_attach_chan_def upd_att_def upd_chan_def set_att_def set_chan_def bt_att_ref_def)
  moreover have "link 23 1 ?c fd [] None ?w4" using w3(2) a3 unfolding link_def set_att_def by auto
  moreover have "same_client w ?w4" using w1(2) w3(3) by (simp add: same_client_def)
  ultimately show ?thesis by blast
qed

lemma set_mtu_link:
  assumes l: "link m r c fd [] None w" and n: "23 \<le> n" "m \<le> n"
  shows "\<exists>w'. bt_att_set_mtu (Some ()) n w = Some (True, w') \<and> link n r c fd [] None w' \<and> same_client w w'"
proof -
  obtain a ch where l: "w_att w = Some a" "chans a = [c]" "req_queue a = []" "ind_queue a = []" "write_queue a = []"
    "a_mtu a = m" "local_sign a = None" "a_ref_count a = r" "w_chan w c = Some ch" "ch_queue ch = []" "pending_req ch = None"
    "pending_ind ch = None" "ch_mtu ch = m" "ch_fd ch = fd" "length (ch_buf ch) = unat m" by (rule linkE [OF l])
  let ?ch = "ch\<lparr>ch_mtu := n, ch_buf_at := w_next w, ch_buf := fresh (unat n)\<rparr>"
  let ?a = "if n > a_mtu a then a\<lparr>a_mtu := n\<rparr> else a"
  let ?w = "set_att ?a (set_chan c ?ch w\<lparr>w_next := Suc (w_next w)\<rparr>)"
  have "\<not> n < BT_ATT_DEFAULT_LE_MTU" using n(1) by (simp add: BT_ATT_DEFAULT_LE_MTU_def not_less)
  then have "bt_att_set_mtu (Some ()) n w = Some (True, ?w)"
    using l by (simp add: bt_att_set_mtu_def upd_chan_def upd_att_def set_chan_def set_att_def)
  moreover have "link n r c fd [] None ?w"
    using l n(2) unfolding link_def set_chan_def set_att_def by (auto simp: fresh_def)
  ultimately show ?thesis by (intro exI [of _ ?w]) (simp add: same_client_def set_att_def set_chan_def)
qed

lemma close_link:
  assumes l: "link m r c fd [] None w"
  shows "\<exists>b w'. bt_att_set_close_on_unref S (Some ()) True w = Some (b, w') \<and> link m r c fd [] None w' \<and> same_client w w'"
proof -
  obtain a ch where l: "w_att w = Some a" "chans a = [c]" "req_queue a = []" "ind_queue a = []" "write_queue a = []"
    "a_mtu a = m" "local_sign a = None" "a_ref_count a = r" "w_chan w c = Some ch" "ch_queue ch = []" "pending_req ch = None"
    "pending_ind ch = None" "ch_mtu ch = m" "ch_fd ch = fd" "length (ch_buf ch) = unat m" by (rule linkE [OF l])
  let ?a = "a\<lparr>close_on_unref := True\<rparr>"
  show ?thesis
  proof (cases "io_set_close_on_destroy S fd")
    case True
    let ?w = "set_chan c (ch\<lparr>ch_io_close := True\<rparr>) (set_att ?a w)"
    have "bt_att_set_close_on_unref S (Some ()) True w = Some (True, ?w)"
      using l True by (simp add: bt_att_set_close_on_unref_def upd_att_def set_att_def)
    moreover have "link m r c fd [] None ?w" using l unfolding link_def set_chan_def set_att_def by auto
    ultimately show ?thesis by (intro exI [of _ True] exI [of _ ?w]) (simp add: same_client_def)
  next
    case False
    let ?w = "set_att ?a w"
    have "bt_att_set_close_on_unref S (Some ()) True w = Some (False, ?w)"
      using l False by (simp add: bt_att_set_close_on_unref_def upd_att_def set_att_def)
    moreover have "link m r c fd [] None ?w" using l unfolding link_def set_att_def by auto
    ultimately show ?thesis by (intro exI [of _ False] exI [of _ ?w]) (simp add: same_client_def)
  qed
qed

lemma attrib_opens:
  assumes S: "le_socket (sockets G) fd" and n: "23 \<le> n" and u: "attrib_closed (w_user w)"
  shows "\<exists>w'. g_attrib_new G (Some fd) n False w = Some (Some (), w') \<and> link n 1 (w_next w) fd [] None w' \<and>
    attrib_inv (w_user w') \<and> map_option g_ref_count (gs_attrib (w_user w')) = Some 1 \<and> gs_user (w_user w') = gs_user (w_user w) \<and>
    gs_io (w_user w') = gs_io (w_user w) @ [IoRef fd, IoKeepOpen fd]"
proof -
  let ?w0 = "io_channel (IoRef fd) w"
  obtain w1 where w1: "bt_att_new (bearer G) (sockets G) (crypto_new G) fd False ?w0 = Some (Some (), w1)"
    "link 23 1 (w_next ?w0) fd [] None w1" "same_client ?w0 w1" using new_bearer_link [OF S] by blast
  obtain b w2 where w2: "bt_att_set_close_on_unref (sockets G) (Some ()) True w1 = Some (b, w2)"
    "link 23 1 (w_next ?w0) fd [] None w2" "same_client w1 w2" using close_link [OF w1(2)] by blast
  let ?w2 = "io_channel (IoKeepOpen fd) w2"
  have l2: "link 23 1 (w_next ?w0) fd [] None ?w2" using w2(2) by (simp add: io_channel_def)
  obtain w3 where w3: "bt_att_set_mtu (Some ()) n ?w2 = Some (True, w3)" "link n 1 (w_next ?w0) fd [] None w3" "same_client ?w2 w3"
    using set_mtu_link [OF l2 n n] by blast
  have us: "w_user w3 = (w_user w)\<lparr>gs_io := gs_io (w_user w) @ [IoRef fd, IoKeepOpen fd]\<rparr>"
    using w1(3) w2(3) w3(3) by (simp add: same_client_def io_channel_def)
  let ?g = "\<lparr>g_ref_count = 1, g_att = Some (), g_io = fd, g_destroy = None, g_destroy_user_data = 0, callbacks = [],
               g_buf = replicate (unat n) 0, g_buflen = uint n, track_ids = []\<rparr>"
  have "g_attrib_new G (Some fd) n False w = Some (Some (), set_attrib ?g w3)"
    using w1(1) w2(1) w3(1) by (simp add: g_attrib_new_def g_attrib_ref_def gs_defs upd_gs_def Let_def)
  moreover have "attrib_inv (w_user (set_attrib ?g w3))"
    using u us by (auto simp: attrib_inv_def attrib_closed_def gs_defs)
  ultimately show ?thesis using w3(2) us by (intro exI [of _ "set_attrib ?g w3"]) (simp add: gs_defs io_channel_def)
qed

lemma connect_opens:
  assumes d: "l_dev (lst w) = Some d" "conn_state d = STATE_CONNECTING" "d_iochannel d = Some fd'" "d_evh d = Some f"
    and S: "le_socket (sockets G) fd" and u: "attrib_closed (w_user w)"
    and io: "io_get B fd = Inr (mtu, cid)" and n: "n = (if cid = ATT_CID then 23 else mtu)" "23 \<le> n"
    and p: "makes_no_call policy (BleEvent f EVENT_INTERNAL STATE_CHANGED 1 (StateData STATE_CONNECTED))"
  shows "\<exists>w'. run_sys N B G policy (Connected fd None) w = Some w' \<and> session n (w_next w) fd f w' \<and>
    l_events (lst w') = l_events (lst w) @ [BleEvent f EVENT_INTERNAL STATE_CHANGED 1 (StateData STATE_CONNECTED)] \<and>
    gs_io (w_user w') = gs_io (w_user w) @ [IoWatch fd', IoRef fd, IoKeepOpen fd] \<and> l_watch (lst w') \<and>
    map_option d_iochannel (l_dev (lst w')) = Some (Some fd')"
proof -
  let ?G = "system N B G policy" and ?ev = "BleEvent f EVENT_INTERNAL STATE_CHANGED 1 (StateData STATE_CONNECTED)"
  let ?w0 = "upd_ls (\<lambda>s. s\<lparr>l_watch := True\<rparr>) (io_channel (IoWatch fd') w)"
  have sk: "sockets ?G = sockets G" by (cases N) (simp_all add: system_def)
  have u0: "attrib_closed (w_user ?w0)" using u by (simp add: attrib_closed_def io_channel_def)
  obtain w1 where w1: "g_attrib_new ?G (Some fd) n False ?w0 = Some (Some (), w1)" "link n 1 (w_next ?w0) fd [] None w1"
    "attrib_inv (w_user w1)" "map_option g_ref_count (gs_attrib (w_user w1)) = Some 1" "gs_user (w_user w1) = gs_user (w_user ?w0)"
    "gs_io (w_user w1) = gs_io (w_user ?w0) @ [IoRef fd, IoKeepOpen fd]"
    using attrib_opens [OF S [folded sk] n(2) u0] by blast
  have L1: "lst w1 = (lst w)\<lparr>l_watch := True\<rparr>" using w1(5) by (simp add: lst_def io_channel_def)
  let ?d = "d\<lparr>d_attrib := Some (), conn_state := STATE_CONNECTED\<rparr>"
  let ?w2 = "upd_ls (\<lambda>s. s\<lparr>l_dev := Some ?d, l_events := l_events s @ [?ev]\<rparr>) w1"
  have q: "app_at N B ?G policy ?ev x = Some x" for x using quiet_app [OF p, of N B ?G] by (simp add: ignores_event_def)
  have "run_sys N B G policy (Connected fd None) w = Some ?w2"
    using d io n(1) w1(1) L1 q
    by (simp add: connect_cb_def the_dev_def on_channel_def upd_dev_def set_dev_def emit_state_def emit_def evh_def call_app_def
        ATT_DEFAULT_LE_MTU_def cong: if_cong)
  moreover have "session n (w_next w) fd f ?w2"
    unfolding session_def using w1(2,3,4) n(2) d(4) by (intro exI [of _ 1] exI [of _ ?d]) (simp add: L1 io_channel_def)
  ultimately show ?thesis using w1(6) L1 by (intro exI [of _ ?w2]) (simp add: io_channel_def d(3))
qed

end
