(* ===== verification/LibWrite.thy ===== *)
theory LibWrite
  imports LibSession
begin

text \<open>
  A write of the library through all layers: the one request of a short value, or the prepared parts of a
  long one and their execution, against a server that accepts them.
\<close>

text \<open>A server that accepts every write.\<close>

definition write_server :: "u8 list \<Rightarrow> u8 list" where
  "write_server pdu = (if hd pdu = ATT_OP_WRITE_REQ then [ATT_OP_WRITE_RESP]
     else if hd pdu = ATT_OP_PREP_WRITE_REQ then ATT_OP_PREP_WRITE_RESP # tl pdu else [ATT_OP_EXEC_WRITE_RESP])"

lemma run_prepare: "run_result G T prepare_write_fn status pdu len p w = prepare_write_cb G T status pdu len p w"
  by (simp add: run_result_def fn_defs prepare_write_fn_def)

lemma run_written:
  "run_result G (libble_client A) char_write_fn 0 pdu len ud w =
     Some (upd_ts (\<lambda>s. s\<lparr>ts_calls := ts_calls s @ [TResult char_write_fn 0 pdu len ud]\<rparr>) w)"
  by (simp add: run_result_def fn_defs prepare_write_fn_def desc_discovered_fn_def char_write_fn_def char_read_fn_def call_top_def char_write_cb_def)

lemma write_types [simp]:
  "get_op_type ATT_OP_WRITE_RESP = ATT_OP_TYPE_RSP" "get_op_type ATT_OP_PREP_WRITE_RESP = ATT_OP_TYPE_RSP"
  "get_op_type ATT_OP_EXEC_WRITE_RESP = ATT_OP_TYPE_RSP" "get_req_opcode ATT_OP_WRITE_RESP = ATT_OP_WRITE_REQ"
  "get_req_opcode ATT_OP_PREP_WRITE_RESP = ATT_OP_PREP_WRITE_REQ" "get_req_opcode ATT_OP_EXEC_WRITE_RESP = ATT_OP_EXEC_WRITE_REQ"
  by code_simp+

lemma client_layers: "client (bearer (layers (Suc (Suc K)) G A)) = gattrib_client (layers (Suc K) G A)"
  by (simp add: fun_eq_iff layers_client)

text \<open>What one round puts on the wire.\<close>

definition on_wire :: "'u genv \<Rightarrow> int \<Rightarrow> u8 list \<Rightarrow> int \<times> u8 list \<times> int" where
  "on_wire G fd pdu = (fd, pdu, io_send (bearer G) fd pdu)"

lemma round_sends:
  assumes s: "flight m r c fd False pdu f ud P w" and len: "length pdu \<le> unat m" and io: "writable G fd"
  obtains w1 where "flight m r c fd True pdu f ud P w1" "w_wire w1 = w_wire w @ [on_wire G fd pdu]"
    "serve (Suc j) N B G policy c server w = do {
       w \<leftarrow> run_sys N B (peer_sends G (server pdu)) policy (Bearer (EvRead c)) w1; serve j N B G policy c server w }"
proof -
  let ?A = "\<lambda>G'. app_at N B G' policy"
  have io': "io_send (bearer (layers N G ?A)) fd pdu \<noteq> 0" using io by (simp add: writable_def)
  obtain w1 where w1: "can_write_data (bearer (layers N G ?A)) c w = Some (True, w1)" "flight m r c fd True pdu f ud P w1"
    "w_wire w1 = w_wire w @ [on_wire G fd pdu]"
    using flight_sent [OF s len io'] by (auto simp: on_wire_def)
  have "serve (Suc j) N B G policy c server w = do {
       w \<leftarrow> run_sys N B (peer_sends G (server pdu)) policy (Bearer (EvRead c)) w1; serve j N B G policy c server w }"
    using w1(1,3) by (simp add: system_layers result_state_def on_wire_def)
  with w1(2,3) show ?thesis using that by blast
qed

lemma round_final:
  assumes s: "flight m r c fd False pdu char_write_fn dev_user (plain_layer H L n) w" and r: "0 < r"
    and pdu: "length pdu \<le> unat m" "hd pdu = ATT_OP_WRITE_REQ \<or> hd pdu = ATT_OP_EXEC_WRITE_REQ" and m: "23 \<le> m" and io: "writable G fd"
  shows "\<exists>w'. serve (Suc j) (Suc (Suc K)) B G policy c write_server w = serve j (Suc (Suc K)) B G policy c write_server w' \<and>
    link m r c fd [] None w' \<and> attrib_inv (w_user w') \<and> plain_layer H L n (gs_user (w_user w')) (map_option g_ref_count (gs_attrib (w_user w'))) \<and>
    w_wire w' = w_wire w @ [on_wire G fd pdu]"
proof -
  let ?N = "Suc (Suc K)" and ?A = "\<lambda>G'. app_at (Suc (Suc K)) B G' policy"
  obtain w1 where w1: "flight m r c fd True pdu char_write_fn dev_user (plain_layer H L n) w1" "w_wire w1 = w_wire w @ [on_wire G fd pdu]"
    "serve (Suc j) ?N B G policy c write_server w = do {
       w \<leftarrow> run_sys ?N B (peer_sends G (write_server pdu)) policy (Bearer (EvRead c)) w1; serve j ?N B G policy c write_server w }"
    by (rule round_sends [OF s pdu(1) io, where N = ?N and B = B and policy = policy and server = write_server and j = j])
  obtain opcode where op: "write_server pdu = [opcode]" "get_op_type opcode = ATT_OP_TYPE_RSP" "opcode \<noteq> BT_ATT_OP_ERROR_RSP"
    "get_req_opcode opcode = hd pdu" "hd pdu \<noteq> 0"
    using pdu(2) by (auto simp: write_server_def BT_ATT_OP_ERROR_RSP_def)
  let ?G = "peer_sends G [opcode]"
  have rx: "k_read (bearer (layers ?N ?G ?A)) fd m = Some [opcode]" by simp
  have m0: "length ([] :: u8 list) < unat m" using m by (simp add: word_le_nat_alt)
  have "\<exists>w'. can_read_data (bearer (layers ?N ?G ?A)) c w1 = Some (True, w') \<and> link m r c fd [] None w' \<and> attrib_inv (w_user w') \<and>
    plain_layer H L n (gs_user (w_user w')) (map_option g_ref_count (gs_attrib (w_user w'))) \<and> w_wire w' = w_wire w1"
  proof (rule flight_ends [OF w1(1) r client_layers rx m0 op(2-5)])
    fix w2 :: lworld assume "plain_layer H L n (gs_user (w_user w2)) (map_option g_ref_count (gs_attrib (w_user w2)))"
    then show "\<exists>t. upper (layers (Suc K) ?G ?A) (GResult char_write_fn 0 [opcode] (of_nat (length [opcode])) dev_user) w2 =
        Some (w2\<lparr>w_user := (w_user w2)\<lparr>gs_user := t\<rparr>\<rparr>) \<and> plain_layer H L n t (map_option g_ref_count (gs_attrib (w_user w2)))"
      unfolding layers_client gatt_client.simps run_written
      by (auto simp: plain_layer_def upd_ts_def upd_gs_def)
  qed
  then obtain w' where w': "can_read_data (bearer (layers ?N ?G ?A)) c w1 = Some (True, w')" "link m r c fd [] None w'" "attrib_inv (w_user w')"
    "plain_layer H L n (gs_user (w_user w')) (map_option g_ref_count (gs_attrib (w_user w')))" "w_wire w' = w_wire w1" by blast
  have "serve (Suc j) ?N B G policy c write_server w = serve j ?N B G policy c write_server w'"
    unfolding w1(3) op(1) using w'(1) by (simp add: system_layers result_state_def)
  with w' w1(2) show ?thesis by (intro exI [of _ w']) simp
qed

lemma round_prepares:
  assumes s: "flight m r c fd False (write_part m h v k) prepare_write_fn p (write_layer h v char_write_fn dev_user k p H L n) w" and r: "0 < r"
    and v: "k \<le> length v" "length v < 65536" and m: "23 \<le> m" and io: "writable G fd"
  shows "\<exists>w'. serve (Suc j) (Suc (Suc K)) B G policy c write_server w = serve j (Suc (Suc K)) B G policy c write_server w' \<and>
    w_wire w' = w_wire w @ [on_wire G fd (write_part m h v k)] \<and>
    (if k + (unat m - 5) < length v
     then flight m r c fd False (write_part m h v (k + (unat m - 5))) prepare_write_fn p
       (write_layer h v char_write_fn dev_user (k + (unat m - 5)) p H L n) w'
     else flight m r c fd False (wire (ExecWriteReq 1)) char_write_fn dev_user (plain_layer (H(p := None)) L n) w')"
proof -
  let ?N = "Suc (Suc K)" and ?A = "\<lambda>G'. app_at (Suc (Suc K)) B G' policy"
  have m23: "23 \<le> unat m" using m by (simp add: word_le_nat_alt)
  have lp: "length (write_part m h v k) \<le> unat m" using m23 by (simp add: write_part_def)
  obtain w1 where w1: "flight m r c fd True (write_part m h v k) prepare_write_fn p (write_layer h v char_write_fn dev_user k p H L n) w1"
    "w_wire w1 = w_wire w @ [on_wire G fd (write_part m h v k)]"
    "serve (Suc j) ?N B G policy c write_server w = do {
       w \<leftarrow> run_sys ?N B (peer_sends G (write_server (write_part m h v k))) policy (Bearer (EvRead c)) w1;
       serve j ?N B G policy c write_server w }"
    by (rule round_sends [OF s lp io, where N = ?N and B = B and policy = policy and server = write_server and j = j])
  have op: "write_server (write_part m h v k) = 0x17 # written_part m h v k" "hd (write_part m h v k) = 0x16"
    by (simp_all add: write_server_def write_part_def written_part_def)
  let ?G = "peer_sends G (0x17 # written_part m h v k)"
  have rx: "k_read (bearer (layers ?N ?G ?A)) fd m = Some (0x17 # written_part m h v k)" by simp
  have lr: "length (written_part m h v k) < unat m" using m23 by (simp add: written_part_def)
  have ty: "get_op_type 0x17 = ATT_OP_TYPE_RSP" "0x17 \<noteq> BT_ATT_OP_ERROR_RSP" "get_req_opcode 0x17 = hd (write_part m h v k)" "hd (write_part m h v k) \<noteq> 0"
    using write_types by (simp_all add: op(2) BT_ATT_OP_ERROR_RSP_def)
  let ?pdu = "if k + (unat m - 5) < length v then write_part m h v (k + (unat m - 5)) else wire (ExecWriteReq 1)"
  let ?f = "if k + (unat m - 5) < length v then prepare_write_fn else char_write_fn"
  let ?ud = "if k + (unat m - 5) < length v then p else dev_user"
  let ?P = "if k + (unat m - 5) < length v then write_layer h v char_write_fn dev_user (k + (unat m - 5)) p H L n else plain_layer (H(p := None)) L n"
  have "\<exists>w'. can_read_data (bearer (layers ?N ?G ?A)) c w1 = Some (True, w') \<and> flight m r c fd False ?pdu ?f ?ud ?P w' \<and> w_wire w' = w_wire w1"
  proof (rule flight_continues [OF w1(1) r client_layers rx lr ty])
    fix w2 :: lworld and x assume a: "write_layer h v char_write_fn dev_user k p H L n (gs_user (w_user w2)) (map_option g_ref_count (gs_attrib (w_user w2)))"
      "attrib_inv (w_user w2)" "link m (r + 1) c fd [] x w2"
    show "\<exists>w3. upper (layers (Suc K) ?G ?A) (GResult prepare_write_fn 0 (0x17 # written_part m h v k) (of_nat (length (0x17 # written_part m h v k))) p) w2 = Some w3 \<and>
        asked m (r + 1) c fd x ?pdu ?f ?ud None w2 w3 \<and> ?P (gs_user (w_user w3)) (map_option g_ref_count (gs_attrib (w_user w3)))"
    proof (cases "k + (unat m - 5) < length v")
      case True
      from write_answer_next [OF a(3,2) m True v(2) a(1)] True show ?thesis
        unfolding layers_client gatt_client.simps run_prepare by simp
    next
      case False
      then have le: "length v \<le> k + (unat m - 5)" by simp
      from write_answer_last [OF a(3,2) m v(1) le v(2) a(1)] False show ?thesis
        unfolding layers_client gatt_client.simps run_prepare by simp
    qed
  qed
  then obtain w' where w': "can_read_data (bearer (layers ?N ?G ?A)) c w1 = Some (True, w')" "flight m r c fd False ?pdu ?f ?ud ?P w'"
    "w_wire w' = w_wire w1" by blast
  have "serve (Suc j) ?N B G policy c write_server w = serve j ?N B G policy c write_server w'"
    unfolding w1(3) op(1) using w'(1) by (simp add: system_layers result_state_def)
  moreover have "if k + (unat m - 5) < length v
     then flight m r c fd False (write_part m h v (k + (unat m - 5))) prepare_write_fn p
       (write_layer h v char_write_fn dev_user (k + (unat m - 5)) p H L n) w'
     else flight m r c fd False (wire (ExecWriteReq 1)) char_write_fn dev_user (plain_layer (H(p := None)) L n) w'"
    using w'(2) by (simp split: if_splits)
  ultimately show ?thesis using w'(3) w1(2) by (intro exI [of _ w']) simp
qed

text \<open>The requests that carry a value: one, or prepared parts and their execution.\<close>

definition write_parts :: "u16 \<Rightarrow> u8 list \<Rightarrow> nat \<Rightarrow> nat" where
  "write_parts m v k = (length v - k + (unat m - 6)) div (unat m - 5)"

definition write_requests :: "u16 \<Rightarrow> u16 \<Rightarrow> u8 list \<Rightarrow> u8 list list" where
  "write_requests m h v = (if length v + 3 \<le> unat m then [wire (WriteReq h v)]
     else map (write_part m h v) (offsets (unat m - 5) 0 (write_parts m v 0)) @ [wire (ExecWriteReq 1)])"

lemma parts_last: "k < length v \<Longrightarrow> length v \<le> k + (unat m - 5) \<Longrightarrow> 23 \<le> unat m \<Longrightarrow> write_parts m v k = 1"
  unfolding write_parts_def by (intro div_nat_eqI) auto

lemma parts_next:
  assumes "k + (unat m - 5) < length v" "23 \<le> unat m"
  shows "write_parts m v k = Suc (write_parts m v (k + (unat m - 5)))"
proof -
  define M where "M = unat m - 5"
  have M: "unat m - 5 = M" "unat m - 6 = M - 1" "0 < M" using assms(2) by (simp_all add: M_def)
  obtain e where e: "length v = Suc (k + M + e)" using less_imp_Suc_add [OF assms(1)] M(1) by auto
  have "Suc e + M + (M - 1) = M + (Suc e + (M - 1))" by simp
  then show ?thesis unfolding write_parts_def M e using M(3) div_add_self1 [of M "e + M"] by (simp add: add.assoc)
qed

lemma write_rounds:
  assumes "flight m r c fd False (write_part m h v k) prepare_write_fn p (write_layer h v char_write_fn dev_user k p H L n) w" and r: "0 < r"
    and "k < length v" and v: "length v < 65536" and m: "23 \<le> m" and io: "writable G fd" and "j = write_parts m v k"
  shows "\<exists>w'. serve (Suc j) (Suc (Suc K)) B G policy c write_server w = Some w' \<and>
    link m r c fd [] None w' \<and> attrib_inv (w_user w') \<and>
    plain_layer (H(p := None)) L n (gs_user (w_user w')) (map_option g_ref_count (gs_attrib (w_user w'))) \<and>
    w_wire w' = w_wire w @ map (on_wire G fd) (map (write_part m h v) (offsets (unat m - 5) k j) @ [wire (ExecWriteReq 1)])"
  using assms(1,3,7)
proof (induction j arbitrary: k w)
  case 0
  have m23: "23 \<le> unat m" using m by (simp add: word_le_nat_alt)
  have "write_parts m v k \<noteq> 0"
    using parts_last [OF 0(2) _ m23] parts_next [OF _ m23, of k v] by (cases "k + (unat m - 5) < length v") auto
  then show ?case using 0(3) by simp
next
  case (Suc j)
  have m23: "23 \<le> unat m" using m by (simp add: word_le_nat_alt)
  have kv: "k \<le> length v" using Suc(3) by simp
  obtain w1 where w1: "serve (Suc (Suc j)) (Suc (Suc K)) B G policy c write_server w = serve (Suc j) (Suc (Suc K)) B G policy c write_server w1"
    "w_wire w1 = w_wire w @ [on_wire G fd (write_part m h v k)]"
    "if k + (unat m - 5) < length v
     then flight m r c fd False (write_part m h v (k + (unat m - 5))) prepare_write_fn p
       (write_layer h v char_write_fn dev_user (k + (unat m - 5)) p H L n) w1
     else flight m r c fd False (wire (ExecWriteReq 1)) char_write_fn dev_user (plain_layer (H(p := None)) L n) w1"
    using round_prepares [OF Suc(2) r kv v m io, of "Suc j" K B policy] by blast
  show ?case
  proof (cases "k + (unat m - 5) < length v")
    case True
    have f: "flight m r c fd False (write_part m h v (k + (unat m - 5))) prepare_write_fn p
       (write_layer h v char_write_fn dev_user (k + (unat m - 5)) p H L n) w1" using w1(3) True by simp
    have j: "j = write_parts m v (k + (unat m - 5))" using parts_next [OF True m23] Suc(4) by simp
    from Suc(1) [OF f True j] show ?thesis unfolding w1(1) w1(2) by auto
  next
    case False
    have f: "flight m r c fd False (wire (ExecWriteReq 1)) char_write_fn dev_user (plain_layer (H(p := None)) L n) w1" using w1(3) False by simp
    have j: "j = 0" using parts_last [OF Suc(3) _ m23] Suc(4) False by simp
    have e: "length (wire (ExecWriteReq 1)) \<le> unat m" "hd (wire (ExecWriteReq 1)) = ATT_OP_WRITE_REQ \<or> hd (wire (ExecWriteReq 1)) = ATT_OP_EXEC_WRITE_REQ"
      using m23 by simp_all
    from round_final [OF f r e m io, of 0 K B policy] obtain w2 where
      w2: "serve (Suc 0) (Suc (Suc K)) B G policy c write_server w1 = serve 0 (Suc (Suc K)) B G policy c write_server w2"
      "link m r c fd [] None w2" "attrib_inv (w_user w2)" "plain_layer (H(p := None)) L n (gs_user (w_user w2)) (map_option g_ref_count (gs_attrib (w_user w2)))"
      "w_wire w2 = w_wire w1 @ [on_wire G fd (wire (ExecWriteReq 1))]" by blast
    have "serve (Suc (Suc 0)) (Suc (Suc K)) B G policy c write_server w = Some w2"
      using w1(1) w2(1) unfolding j serve.simps(1) by (rule trans)
    moreover have "w_wire w2 = w_wire w @ map (on_wire G fd) (map (write_part m h v) (offsets (unat m - 5) k (Suc j)) @ [wire (ExecWriteReq 1)])"
      unfolding j using w1(2) w2(5) by simp
    ultimately show ?thesis unfolding j using w2(2-4) by blast
  qed
qed

lemma fits_value:
  assumes "23 \<le> unat (m :: u16)" "n < 65536"
  shows "(of_nat n :: u64) \<le> ucast m - 3 \<longleftrightarrow> n \<le> unat m - 3"
proof -
  have m16: "unat m < 65536" using unat_u16_le [of m] by simp
  have sp: "(ucast m :: u64) - 3 = of_nat (unat m - 3)" using assms(1) by (intro space) simp
  show ?thesis unfolding sp using assms(2) m16 by (intro of_nat_le_u64) simp_all
qed

lemma short_write_sent:
  assumes l: "link m r c fd [] x w" "attrib_inv (w_user w)" and m: "23 \<le> m" and v: "length v + 3 \<le> unat m"
  shows "\<exists>i w'. gatt_write_char G (Some ()) h v (of_nat (length v)) (Some f) ud w = Some (i, w') \<and>
    asked m r c fd x (wire (WriteReq h v)) f ud None w w' \<and> gs_user (w_user w') = gs_user (w_user w) \<and>
    map_option g_ref_count (gs_attrib (w_user w')) = map_option g_ref_count (gs_attrib (w_user w))"
proof -
  have m16: "unat m < 65536" using unat_u16_le [of m] by simp
  have m23: "23 \<le> unat m" using m by (simp add: word_le_nat_alt)
  have vs: "length v < 65536" using v m16 by simp
  have ty: "get_op_type 0x12 = ATT_OP_TYPE_REQ" by code_simp
  have le: "of_nat (length v) \<le> (ucast m :: u64) - 3"
    unfolding fits_value [OF m23 vs] using v by simp
  from attrib_get [OF l, of G] obtain b s where
    get: "g_attrib_get_buffer G (Some ()) w = Some (Some b, ucast m, w\<lparr>w_user := s\<rparr>)" by blast
  let ?enc = "enc_write_req h (Some v) (of_nat (length v))"
  have "gatt_write_char G (Some ()) h v (of_nat (length v)) (Some f) ud w = send_encoded G ?enc (Some f) ud w"
    using get le by (simp add: gatt_write_char_def send_encoded_def)
  moreover have "encodes (?enc (Some b) (ucast m)) (wire (WriteReq h v)) b" if "unat m \<le> length b" for b
    using enc_write_req_in [of "unat m" b v h] that v m16 unfolding buflen by simp
  ultimately show ?thesis
    using encoded_sent [OF l, of "wire (WriteReq h v)" ?enc G f ud] ty v by auto
qed

lemma long_write_sent:
  assumes l: "link m r c fd [] x w" "attrib_inv (w_user w)" and m: "23 \<le> m" and v: "unat m < length v + 3" "length v < 65536"
  defines "p \<equiv> ts_next (gs_user (w_user w))"
  shows "\<exists>i w'. gatt_write_char G (Some ()) h v (of_nat (length v)) (Some f) ud w = Some (i, w') \<and>
    asked m r c fd x (write_part m h v 0) prepare_write_fn p None w w' \<and>
    write_layer h v f ud 0 p (ts_heap (gs_user (w_user w))) (ts_user (gs_user (w_user w))) (map_option g_ref_count (gs_attrib (w_user w)))
      (gs_user (w_user w')) (map_option g_ref_count (gs_attrib (w_user w')))"
proof -
  have m16: "unat m < 65536" using unat_u16_le [of m] by simp
  have m23: "23 \<le> unat m" using m by (simp add: word_le_nat_alt)
  have gt: "\<not> of_nat (length v) \<le> (ucast m :: u64) - 3"
    unfolding fits_value [OF m23 v(2)] using v m23 by linarith
  from attrib_get [OF l, of G] obtain b s where
    get: "g_attrib_get_buffer G (Some ()) w = Some (Some b, ucast m, w\<lparr>w_user := s\<rparr>)" "attrib_inv s" "same_attrib (w_user w) s" by blast
  note sm = same_attribD [OF get(3)]
  let ?wl = "write_record h v f ud 0"
  let ?w = "upd_ts (\<lambda>s. s\<lparr>ts_heap := (ts_heap s)(p := Some (ObjWrite ?wl)), ts_next := Suc p\<rparr>) (w\<lparr>w_user := s\<rparr>)"
  have l1: "link m r c fd [] x ?w" "attrib_inv (w_user ?w)" using l(1) get(2) by simp_all
  have o1: "obj_at p ?w = Some (ObjWrite ?wl)" by simp
  have wl: "wl_attrib ?wl = Some ()" "wl_offset ?wl = of_nat 0" "wl_value ?wl = v" "wl_vlen ?wl = of_nat (length v)" "wl_handle ?wl = h"
    by (simp_all add: write_record_def)
  obtain i w' where w': "prepare_write G p ?w = Some (i, w')" "asked m r c fd x (write_part m h v 0) prepare_write_fn p None ?w w'"
    "gs_user (w_user w') = gs_user (w_user ?w)" "map_option g_ref_count (gs_attrib (w_user w')) = map_option g_ref_count (gs_attrib (w_user ?w))"
    using prepare_write_sent [OF l1 m le0 v(2) o1 wl, of G] by blast
  have rb: "rd_bytes v 0 (unat (of_nat (length v) :: u64)) = Some v" using v(2) by (simp add: rd_bytes_def small_u64)
  have "gatt_write_char G (Some ()) h v (of_nat (length v)) (Some f) ud w = Some (i, w')"
    using get(1) gt rb w'(1) sm(1) by (simp add: gatt_write_char_def new_obj_def write_record_def p_def Let_def)
  moreover have "asked m r c fd x (write_part m h v 0) prepare_write_fn p None w w'"
    using w'(2) sm(3) unfolding asked_def by simp
  moreover have "write_layer h v f ud 0 p (ts_heap (gs_user (w_user w))) (ts_user (gs_user (w_user w))) (map_option g_ref_count (gs_attrib (w_user w)))
      (gs_user (w_user w')) (map_option g_ref_count (gs_attrib (w_user w')))"
    unfolding w'(3,4) using sm by (simp add: write_layer_def)
  ultimately show ?thesis by blast
qed

lemma write_run:
  assumes "session m c fd f w" and v: "v \<noteq> []" "length v < 256"
  shows "run_sys N B G policy (Op (OpWrite h (of_nat (length v)) (Some v))) w =
    do { (_, w) \<leftarrow> gatt_write_char (system N B G policy) (Some ()) h v (of_nat (length v)) (Some char_write_fn) dev_user w; Some w }"
proof -
  have "(ucast (of_nat (length v) :: u8) :: u64) = of_nat (length v)" "(0 :: u8) < of_nat (length v)"
    using v by (simp_all add: unsigned_of_nat take_bit_nat_eq_self word_less_nat_alt unat_of_nat)
  then show ?thesis
    using assms by (auto simp add: session_def lble_write_def if_connected_def the_dev_def)
qed

text \<open>The write of a value is over: the requests have been sent, and the device is idle again.\<close>

definition write_over :: "u16 \<Rightarrow> nat \<Rightarrow> int \<Rightarrow> func \<Rightarrow> lenv \<Rightarrow> u8 list list \<Rightarrow> lworld \<Rightarrow> lworld \<Rightarrow> bool" where
  "write_over m c fd f G pdus w w' \<longleftrightarrow> w_wire w' = w_wire w @ map (on_wire G fd) pdus \<and> session m c fd f w' \<and> lst w' = lst w \<and>
     (\<forall>p. p \<noteq> ts_next (gs_user (w_user w)) \<longrightarrow> ts_heap (gs_user (w_user w')) p = ts_heap (gs_user (w_user w)) p)"

lemma write_overI:
  assumes s: "session m c fd f w" and w': "w_wire w' = w_wire w @ map (on_wire G fd) pdus"
    and r: "link m r c fd [] None w" "0 < r" and n: "map_option g_ref_count (gs_attrib (w_user w)) = Some n"
    and l: "link m r c fd [] None w'" "attrib_inv (w_user w')"
      "plain_layer H (ts_user (gs_user (w_user w))) (Some n) (gs_user (w_user w')) (map_option g_ref_count (gs_attrib (w_user w')))"
    and H: "\<And>p. p \<noteq> ts_next (gs_user (w_user w)) \<Longrightarrow> H p = ts_heap (gs_user (w_user w)) p"
  shows "write_over m c fd f G pdus w w'"
proof -
  have L: "lst w' = lst w" using l(3) by (simp add: plain_layer_def lst_def)
  from s obtain d where d: "23 \<le> m" "1 \<le> n" "l_dev (lst w) = Some d" "conn_state d = STATE_CONNECTED" "d_attrib d = Some ()" "d_evh d = Some f"
    using n unfolding session_def by auto
  have "session m c fd f w'" unfolding session_def L using l d r(2)
    by (intro exI [of _ r] exI [of _ n] exI [of _ d]) (simp add: plain_layer_def)
  then show ?thesis using L l(3) H w' by (simp add: write_over_def plain_layer_def)
qed

lemma short_write_served:
  assumes s: "session m c fd f w" and v: "v \<noteq> []" "length v < 256" "length v + 3 \<le> unat m" and io: "writable G fd"
  shows "\<exists>w1 w2. run_sys (Suc (Suc K)) B G policy (Op (OpWrite h (of_nat (length v)) (Some v))) w = Some w1 \<and>
    serve 1 (Suc (Suc K)) B G policy c write_server w1 = Some w2 \<and> write_over m c fd f G [wire (WriteReq h v)] w w2"
proof -
  from s obtain r n where w: "link m r c fd [] None w" "0 < r" "23 \<le> m" "attrib_inv (w_user w)"
    "map_option g_ref_count (gs_attrib (w_user w)) = Some n" unfolding session_def by blast
  let ?G = "system (Suc (Suc K)) B G policy" and ?H = "ts_heap (gs_user (w_user w))" and ?pdu = "wire (WriteReq h v)"
  let ?P = "plain_layer ?H (ts_user (gs_user (w_user w))) (Some n)"
  obtain i w1 where w1: "gatt_write_char ?G (Some ()) h v (of_nat (length v)) (Some char_write_fn) dev_user w = Some (i, w1)"
    "asked m r c fd None ?pdu char_write_fn dev_user None w w1" "gs_user (w_user w1) = gs_user (w_user w)"
    "map_option g_ref_count (gs_attrib (w_user w1)) = map_option g_ref_count (gs_attrib (w_user w))"
    using short_write_sent [OF w(1,4,3) v(3), of ?G h char_write_fn dev_user] by blast
  have "?P (gs_user (w_user w1)) (map_option g_ref_count (gs_attrib (w_user w1)))"
    unfolding w1(3,4) using w(5) by (simp add: plain_layer_def)
  then have fl: "flight m r c fd False ?pdu char_write_fn dev_user ?P w1" by (rule asked_flight [OF w1(2)])
  have ww: "w_wire w1 = w_wire w" using w1(2) by (auto simp: asked_def)
  have pd: "length ?pdu \<le> unat m" "hd ?pdu = ATT_OP_WRITE_REQ \<or> hd ?pdu = ATT_OP_EXEC_WRITE_REQ" using v by simp_all
  obtain w2 where w2: "serve (Suc 0) (Suc (Suc K)) B G policy c write_server w1 = serve 0 (Suc (Suc K)) B G policy c write_server w2"
    "link m r c fd [] None w2" "attrib_inv (w_user w2)" "?P (gs_user (w_user w2)) (map_option g_ref_count (gs_attrib (w_user w2)))"
    "w_wire w2 = w_wire w1 @ [on_wire G fd ?pdu]"
    using round_final [OF fl w(2) pd w(3) io, of 0 K B policy] by blast
  have "write_over m c fd f G [?pdu] w w2"
    by (rule write_overI [OF s _ w(1,2,5) w2(2-4)]) (use w2(5) ww in simp_all)
  moreover have "serve 1 (Suc (Suc K)) B G policy c write_server w1 = Some w2" using w2(1) by (simp add: serve.simps(1) del: serve.simps(2))
  ultimately show ?thesis using w1(1) write_run [OF s v(1,2), of "Suc (Suc K)" B G policy h] by auto
qed

lemma long_write_served:
  assumes s: "session m c fd f w" and v: "v \<noteq> []" "length v < 256" "\<not> length v + 3 \<le> unat m" and io: "writable G fd"
  shows "\<exists>w1 w2. run_sys (Suc (Suc K)) B G policy (Op (OpWrite h (of_nat (length v)) (Some v))) w = Some w1 \<and>
    serve (Suc (write_parts m v 0)) (Suc (Suc K)) B G policy c write_server w1 = Some w2 \<and>
    write_over m c fd f G (map (write_part m h v) (offsets (unat m - 5) 0 (write_parts m v 0)) @ [wire (ExecWriteReq 1)]) w w2"
proof -
  from s obtain r n where w: "link m r c fd [] None w" "0 < r" "23 \<le> m" "attrib_inv (w_user w)"
    "map_option g_ref_count (gs_attrib (w_user w)) = Some n" unfolding session_def by blast
  have lg: "unat m < length v + 3" "length v < 65536" "0 < length v" using v by simp_all
  let ?G = "system (Suc (Suc K)) B G policy" and ?H = "ts_heap (gs_user (w_user w))" and ?p = "ts_next (gs_user (w_user w))"
  obtain i w1 where w1: "gatt_write_char ?G (Some ()) h v (of_nat (length v)) (Some char_write_fn) dev_user w = Some (i, w1)"
    "asked m r c fd None (write_part m h v 0) prepare_write_fn ?p None w w1"
    "write_layer h v char_write_fn dev_user 0 ?p ?H (ts_user (gs_user (w_user w))) (map_option g_ref_count (gs_attrib (w_user w)))
      (gs_user (w_user w1)) (map_option g_ref_count (gs_attrib (w_user w1)))"
    using long_write_sent [OF w(1,4,3) lg(1,2), of ?G h char_write_fn dev_user] by blast
  have fl: "flight m r c fd False (write_part m h v 0) prepare_write_fn ?p
      (write_layer h v char_write_fn dev_user 0 ?p ?H (ts_user (gs_user (w_user w))) (Some n)) w1"
    by (rule asked_flight [OF w1(2)]) (use w1(3) w(5) in simp)
  have ww: "w_wire w1 = w_wire w" using w1(2) by (auto simp: asked_def)
  let ?rq = "map (write_part m h v) (offsets (unat m - 5) 0 (write_parts m v 0)) @ [wire (ExecWriteReq 1)]"
  obtain w2 where w2: "serve (Suc (write_parts m v 0)) (Suc (Suc K)) B G policy c write_server w1 = Some w2"
    "link m r c fd [] None w2" "attrib_inv (w_user w2)"
    "plain_layer (?H(?p := None)) (ts_user (gs_user (w_user w))) (Some n) (gs_user (w_user w2)) (map_option g_ref_count (gs_attrib (w_user w2)))"
    "w_wire w2 = w_wire w1 @ map (on_wire G fd) ?rq"
    using write_rounds [OF fl w(2) lg(3,2) w(3) io refl, of K B policy] by blast
  have "write_over m c fd f G ?rq w w2"
    by (rule write_overI [OF s _ w(1,2,5) w2(2-4)]) (use w2(5) ww in simp_all)
  then show ?thesis using w1(1) w2(1) write_run [OF s v(1,2), of "Suc (Suc K)" B G policy h] by auto
qed

text \<open>The bytes of the value that a write request carries.\<close>

definition carried :: "u8 list \<Rightarrow> u8 list" where
  "carried pdu = (if hd pdu = ATT_OP_WRITE_REQ then drop 3 pdu else if hd pdu = ATT_OP_PREP_WRITE_REQ then drop 5 pdu else [])"

lemma parts_complete:
  assumes "k < length v" "23 \<le> unat m"
  shows "concat (map (\<lambda>k. take (unat m - 5) (drop k v)) (offsets (unat m - 5) k (write_parts m v k))) = drop k v"
  using assms
proof (induction "length v - k" arbitrary: k rule: less_induct)
  case less
  show ?case
  proof (cases "k + (unat m - 5) < length v")
    case True
    have "concat (map (\<lambda>k. take (unat m - 5) (drop k v)) (offsets (unat m - 5) (k + (unat m - 5)) (write_parts m v (k + (unat m - 5))))) = drop (k + (unat m - 5)) v"
      using less(1) [of "k + (unat m - 5)"] True less(2,3) by simp
    then show ?thesis unfolding parts_next [OF True less(3)]
      by (simp add: add.commute [of k] flip: drop_drop)
  next
    case False
    then show ?thesis using less(2,3) parts_last [of k v m] by simp
  qed
qed

lemma requests_carry:
  assumes "v \<noteq> []" "23 \<le> unat m"
  shows "concat (map carried (write_requests m h v)) = v"
proof -
  have "carried (write_part m h v k) = take (unat m - 5) (drop k v)" for k by (simp add: carried_def write_part_def)
  then have "map carried (map (write_part m h v) ks) = map (\<lambda>k. take (unat m - 5) (drop k v)) ks" for ks by simp
  then show ?thesis using assms parts_complete [of 0 v m]
    by (simp add: write_requests_def carried_def del: map_map)
qed

end
