(* ===== verification/LibNotify.thy ===== *)
theory LibNotify
  imports LibSession
begin

text \<open>
  Notifications: the handler that \<open>lble_listen\<close> registers, and the way of a Handle Value Notification
  through all layers to the application.
\<close>

unbundle bit_operations_syntax

text \<open>A bearer whose only handler is \<open>n\<close>.\<close>

definition handled_by :: "nat \<Rightarrow> att_notify \<Rightarrow> 'c world \<Rightarrow> bool" where
  "handled_by e n w \<longleftrightarrow> map_option notify_list (w_att w) = Some [(e, n)]"

lemma link_notification:
  assumes l: "link m r c fd q x w" "0 < r" "handled_by e n w" and n: "opcode_match (ucast (n_opcode n)) 0x1B" "n_callback n = Some f"
    and rx: "k_read E fd m = Some (0x1B # pdu)" "length pdu < unat m"
    and cb: "\<And>w1. link m (2 + r) c fd q x w1 \<Longrightarrow> w_user w1 = w_user w \<Longrightarrow>
      \<exists>s. client E (CallNotify f c 0x1B pdu (n_user_data n)) w1 = Some (w1\<lparr>w_user := s\<rparr>) \<and> R s"
  shows "\<exists>w'. can_read_data E c w = Some (True, w') \<and> link m r c fd q x w' \<and> handled_by e n w' \<and> R (w_user w') \<and>
    w_wire w' = w_wire w \<and> w_op w' = w_op w \<and> w_next w' = w_next w"
proof -
  obtain a ch where l: "w_att w = Some a" "chans a = [c]" "req_queue a = q" "ind_queue a = []" "write_queue a = []"
    "a_mtu a = m" "local_sign a = None" "a_ref_count a = r" "w_chan w c = Some ch" "ch_queue ch = []" "pending_req ch = x"
    "pending_ind ch = None" "ch_mtu ch = m" "ch_fd ch = fd" "length (ch_buf ch) = unat m" by (rule linkE [OF l(1)])
  have nl: "notify_list a = [(e, n)]" using assms(3) l(1) by (simp add: handled_by_def)
  obtain b where b: "wr_bytes (ch_buf ch) 0 (0x1B # pdu) = Some b" using l(15) rx(2) by (auto simp: wr_bytes_def)
  then have lb: "length b = unat m" using l(15) wr_bytes_length by fastforce
  have rb: "rd_bytes b (Suc 0) (length pdu) = Some pdu"
    using b l(15) rx(2) by (auto simp: wr_bytes_def rd_bytes_def)
  let ?a = "\<lambda>k. a\<lparr>a_ref_count := k\<rparr>"
  let ?c1 = "CallNotify f c 0x1B pdu (n_user_data n)"
  let ?w0 = "set_att (?a (2 + r)) (set_chan c (ch\<lparr>ch_buf := b\<rparr>) w)"
  let ?w1 = "?w0\<lparr>w_calls := w_calls w @ [?c1]\<rparr>"
  have l1: "link m (2 + r) c fd q x ?w1" using l lb unfolding link_def set_att_def set_chan_def by simp
  have "w_user ?w1 = w_user w" by simp
  from cb [OF l1 this] obtain s where s: "client E ?c1 ?w1 = Some (?w1\<lparr>w_user := s\<rparr>)" "R s" by blast
  let ?w' = "set_att (?a r) (?w1\<lparr>w_user := s\<rparr>)"
  have t: "get_op_type 0x1B = ATT_OP_TYPE_NFY" "(0x1B :: u8) AND ATT_OP_SIGNED_MASK = 0" "0x1B \<noteq> BT_ATT_OP_MTU_REQ" by code_simp+
  have "notify_loop E c (ch_buf_at ch) 0x1B (Some e) (Suc (length pdu)) False ?w0 = Some (Finished True, ?w1\<lparr>w_user := s\<rparr>)"
    using l n s(1) nl rb t
    by (simp add: notify_loop_unfold call_def set_att_def set_chan_def Let_def bt_att_get_link_type_def buf_at_def next_entry_def)
  then have "can_read_data E c w = Some (True, ?w')"
    using l b rx t nl assms(2)
    by (simp add: can_read_data_def handle_notify_def bt_att_ref_def bt_att_unref_def upd_att_def set_att_def
        set_chan_def Let_def first_entry_def)
  moreover have "link m r c fd q x ?w'" using l lb unfolding link_def set_att_def set_chan_def by simp
  moreover have "handled_by e n ?w'" using nl by (simp add: handled_by_def set_att_def)
  ultimately show ?thesis using s(2) by (intro exI [of _ ?w']) (simp add: set_att_def set_chan_def)
qed

text \<open>A connected device that listens: the one handler of the bearer leads to the application's.\<close>

definition listening :: "u16 \<Rightarrow> nat \<Rightarrow> int \<Rightarrow> func \<Rightarrow> lworld \<Rightarrow> bool" where
  "listening m c fd f w \<longleftrightarrow> session m c fd f w \<and> (\<exists>e n x. handled_by e n w \<and> ucast (n_opcode n) = (0x1B :: u8) \<and>
     n_callback n = Some attrib_callback_notify_fn \<and> n_user_data n \<noteq> 0 \<and> gs_cb (w_user w) (n_user_data n) = Some x \<and>
     notify_func x = Some events_handler_fn \<and> notify_handle x = GATTRIB_ALL_HANDLES \<and> cb_user_data x = dev_user)"

text \<open>Nobody is registered for anything.\<close>

definition unregistered :: "'c world \<Rightarrow> bool" where
  "unregistered w \<longleftrightarrow> map_option notify_list (w_att w) = Some []"

lemma listen_session:
  assumes s: "session m c fd f w" and u: "unregistered w"
  shows "\<exists>w'. lble_listen G (Some ()) w = Some w' \<and> listening m c fd f w' \<and> lst w' = lst w \<and> w_wire w' = w_wire w"
proof -
  from s obtain r n d where w: "link m r c fd [] None w" "0 < r" "23 \<le> m"
    "attrib_inv (w_user w)" "map_option g_ref_count (gs_attrib (w_user w)) = Some n" "1 \<le> n"
    "l_dev (lst w) = Some d" "conn_state d = STATE_CONNECTED" "d_attrib d = Some ()" "d_evh d = Some f"
    unfolding session_def by blast
  from w(4) obtain g where g: "gs_attrib (w_user w) = Some g" "g_att g = Some ()" "1 \<le> g_ref_count g"
    "distinct (callbacks g)" "\<forall>p \<in> set (callbacks g). gs_cb (w_user w) p \<noteq> None"
    "distinct (track_ids g)" "\<forall>t \<in> set (track_ids g). gs_id (w_user w) t \<noteq> None"
    "g_buflen g \<le> int (length (g_buf g))" and k: "1 \<le> gs_next (w_user w)" "gs_cb (w_user w) 0 = None"
    "\<forall>p \<ge> gs_next (w_user w). gs_cb (w_user w) p = None \<and> gs_id (w_user w) p = None"
    unfolding attrib_inv_def by blast
  obtain a ch where l: "w_att w = Some a" "chans a = [c]" "req_queue a = []" "ind_queue a = []" "write_queue a = []"
    "a_mtu a = m" "local_sign a = None" "a_ref_count a = r" "w_chan w c = Some ch" "ch_queue ch = []" "pending_req ch = None"
    "pending_ind ch = None" "ch_mtu ch = m" "ch_fd ch = fd" "length (ch_buf ch) = unat m" by (rule linkE [OF w(1)])
  have nl: "notify_list a = []" using u l(1) by (simp add: unregistered_def)
  let ?p = "gs_next (w_user w)"
  let ?x = "\<lparr>cb_id = None, result_func = None, notify_func = Some events_handler_fn, destroy_func = None,
      cb_user_data = dev_user, notify_handle = GATTRIB_ALL_HANDLES\<rparr>"
  let ?i = "fix_id (next_reg_id a)"
  let ?n = "\<lparr>n_id = ?i, n_opcode = ucast (ATT_OP_HANDLE_NOTIFY :: u8), n_callback = Some attrib_callback_notify_fn,
      n_destroy = Some attrib_callbacks_remove_fn, n_user_data = ?p\<rparr>"
  let ?s = "(w_user w)\<lparr>gs_cb := (gs_cb (w_user w))(?p := Some ?x), gs_next := Suc ?p, gs_attrib := Some (g\<lparr>callbacks := ?p # callbacks g\<rparr>)\<rparr>"
  let ?w = "set_att (a\<lparr>next_reg_id := ?i + 1, notify_list := [(w_next w, ?n)]\<rparr>) (w\<lparr>w_user := ?s, w_next := Suc (w_next w)\<rparr>)"
  have nq: "ATT_OP_HANDLE_NOTIFY \<noteq> GATTRIB_ALL_REQS" by (simp add: GATTRIB_ALL_REQS_def)
  have run: "lble_listen G (Some ()) w = Some ?w"
    using w g l nl nq
    by (simp add: lble_listen_def if_connected_def the_dev_def g_attrib_register_def gs_defs bt_att_register_def set_att_def
        upd_gs_def Let_def)
  have inv: "attrib_inv ?s"
  proof -
    have "p \<noteq> ?p" if "p \<in> set (callbacks g)" for p using that g(5) k(3) by auto
    then show ?thesis using g k by (auto simp: attrib_inv_def)
  qed
  have lk: "link m r c fd [] None ?w" using l unfolding link_def set_att_def by auto
  have L: "lst ?w = lst w" by (simp add: lst_def)
  have us: "w_user ?w = ?s" by simp
  have ses: "session m c fd f ?w"
    unfolding session_def L us using w lk inv g(1) by (intro exI [of _ r] exI [of _ n] exI [of _ d]) simp
  have "listening m c fd f ?w"
    unfolding listening_def us
    by (intro conjI ses exI [of _ "w_next w"] exI [of _ ?n] exI [of _ ?x])
      (use k(1) in \<open>simp_all add: handled_by_def set_att_def\<close>)
  with run L show ?thesis by (intro exI [of _ ?w]) (simp add: set_att_def)
qed

lemma notification_reaches_handler:
  assumes p: "p \<noteq> 0" "gs_cb (w_user w) p = Some x" "notify_func x = Some events_handler_fn" "notify_handle x = GATTRIB_ALL_HANDLES"
    and d: "l_dev (lst w) = Some d" "d_evh d = Some f" and v: "length v < 65533" and A: "ignores_event (A (layers K G A)) (value_event f h v)"
  shows "gattrib_client (layers (Suc K) G A) (CallNotify attrib_callback_notify_fn c 0x1B (le2 h @ v) p) w =
    Some (w\<lparr>w_user := (w_user w)\<lparr>gs_calls := gs_calls (w_user w) @ [GNotify events_handler_fn (0x1B # le2 h @ v) (of_nat (length v) + 3) (cb_user_data x)],
      gs_user := (gs_user (w_user w))\<lparr>ts_calls := ts_calls (gs_user (w_user w)) @ [TNotify events_handler_fn (0x1B # le2 h @ v) (of_nat (length v) + 3) (cb_user_data x)],
        ts_user := (lst w)\<lparr>l_events := l_events (lst w) @ [value_event f h v]\<rparr>\<rparr>\<rparr>\<rparr>)"
proof -
  have g: "get_le16 (0x1B # le2 h @ v) (Suc 0) = Some h"
    using get_le16_mid [of "Suc 0" "[0x1B]" h v] by simp
  have c8: "(ucast (of_nat (length v) :: u16) :: u8) = of_nat (length v)" using v by (simp add: unsigned_of_nat take_bit_nat_eq_self)
  show ?thesis
    using p d A [unfolded ignores_event_def] g
    apply (simp add: attrib_callback_notify_def cb_at_def call_upper_def layers_client call_top_def events_handler_def the_dev_def evh_def
        call_app_def value_event_def rd8_def c8 construct_full_pdu_def lst_def upd_ls_def upd_ts_def upd_gs_def)
    done
qed

text \<open>The peer sends one Handle Value Notification after the other.\<close>

fun receive :: "nat \<Rightarrow> ble_io \<Rightarrow> lenv \<Rightarrow> (ble_event \<Rightarrow> lworld \<Rightarrow> lble_op list) \<Rightarrow> nat \<Rightarrow> (u16 \<times> u8 list) list \<Rightarrow> lworld \<Rightarrow> lworld option"
where
  "receive N B G policy c [] w = Some w"
| "receive N B G policy c ((h, v) # l) w = do {
     w \<leftarrow> run_sys N B (peer_sends G (wire (Notification h v))) policy (Bearer (EvRead c)) w;
     receive N B G policy c l w }"

lemma receive_one:
  assumes s: "listening m c fd f w" and v: "length v + 3 \<le> unat m" and p: "makes_no_call policy (value_event f h v)"
  shows "\<exists>w'. run_sys (Suc (Suc K)) B (peer_sends G (wire (Notification h v))) policy (Bearer (EvRead c)) w = Some w' \<and>
    listening m c fd f w' \<and> l_events (lst w') = l_events (lst w) @ [value_event f h v]"
proof -
  let ?N = "Suc (Suc K)" and ?A = "\<lambda>G'. app_at (Suc (Suc K)) B G' policy" and ?G = "peer_sends G (wire (Notification h v))"
  let ?E = "bearer (layers ?N ?G ?A)"
  from s obtain r n d where w: "link m r c fd [] None w" "0 < r" "23 \<le> m"
    "attrib_inv (w_user w)" "map_option g_ref_count (gs_attrib (w_user w)) = Some n" "1 \<le> n"
    "l_dev (lst w) = Some d" "conn_state d = STATE_CONNECTED" "d_attrib d = Some ()" "d_evh d = Some f"
    unfolding listening_def session_def by blast
  from s obtain e nt x where h: "handled_by e nt w" "ucast (n_opcode nt) = (0x1B :: u8)" "n_callback nt = Some attrib_callback_notify_fn"
    "n_user_data nt \<noteq> 0" "gs_cb (w_user w) (n_user_data nt) = Some x" "notify_func x = Some events_handler_fn"
    "notify_handle x = GATTRIB_ALL_HANDLES" "cb_user_data x = dev_user" unfolding listening_def by blast
  have om: "opcode_match (ucast (n_opcode nt)) 0x1B" unfolding h(2) by code_simp
  have rx: "k_read ?E fd m = Some (0x1B # (le2 h @ v))" "length (le2 h @ v) < unat m" using v by simp_all
  have lv: "length v < 65533" using v unat_u16_le [of m] by simp
  have A: "ignores_event (?A (layers K ?G ?A)) (value_event f h v)" using p by (rule quiet_app)
  let ?R = "\<lambda>u. \<exists>gc tc. u = (w_user w)\<lparr>gs_calls := gc, gs_user := (gs_user (w_user w))\<lparr>ts_calls := tc,
        ts_user := (lst w)\<lparr>l_events := l_events (lst w) @ [value_event f h v]\<rparr>\<rparr>\<rparr>"
  have "\<exists>w'. can_read_data ?E c w = Some (True, w') \<and> link m r c fd [] None w' \<and> handled_by e nt w' \<and> ?R (w_user w') \<and>
    w_wire w' = w_wire w \<and> w_op w' = w_op w \<and> w_next w' = w_next w"
  proof (rule link_notification [OF w(1,2) h(1) om h(3) rx])
    fix w1 assume w1: "link m (2 + r) c fd [] None w1" "w_user w1 = w_user w"
    have L: "lst w1 = lst w" using w1(2) by (simp add: lst_def)
    show "\<exists>s. client ?E (CallNotify attrib_callback_notify_fn c 0x1B (le2 h @ v) (n_user_data nt)) w1 = Some (w1\<lparr>w_user := s\<rparr>) \<and> ?R s"
      unfolding layers_client
      using notification_reaches_handler [where w = w1 and K = K and G = ?G and A = ?A and c = c, OF h(4) _ h(6,7) _ w(10) lv A] h(5) w(7) w1(2) L
      by auto
  qed
  then obtain w' gc tc where w': "can_read_data ?E c w = Some (True, w')" "link m r c fd [] None w'" "handled_by e nt w'"
    "w_user w' = (w_user w)\<lparr>gs_calls := gc, gs_user := (gs_user (w_user w))\<lparr>ts_calls := tc,
        ts_user := (lst w)\<lparr>l_events := l_events (lst w) @ [value_event f h v]\<rparr>\<rparr>\<rparr>" by blast
  have L: "lst w' = (lst w)\<lparr>l_events := l_events (lst w) @ [value_event f h v]\<rparr>" using w'(4) by (simp add: lst_def)
  have "session m c fd f w'"
    unfolding session_def L w'(4) using w w'(2) by (intro exI [of _ r] exI [of _ n] exI [of _ d]) simp
  then have "listening m c fd f w'"
    unfolding listening_def w'(4) using h w'(3) by (intro conjI exI [of _ e] exI [of _ nt] exI [of _ x]) simp_all
  moreover have "run_sys ?N B ?G policy (Bearer (EvRead c)) w = Some w'"
    using w'(1) by (simp add: system_layers result_state_def)
  ultimately show ?thesis using L by (intro exI [of _ w']) simp
qed

section \<open>A handler that disconnects\<close>

text \<open>A bearer and a \<open>GAttrib\<close> to which only the device refers, with no handler: what connecting makes.\<close>

definition unshared :: "'u gworld \<Rightarrow> bool" where
  "unshared w \<longleftrightarrow> (\<exists>a g. w_att w = Some a \<and> a_ref_count a = 1 \<and> notify_list a = [] \<and> disconn_list a = [] \<and>
     timeout_destroy a = None \<and> debug_destroy a = None \<and> gs_attrib (w_user w) = Some g \<and> g_ref_count g = 1 \<and>
     g_destroy g = None \<and> callbacks g = [] \<and> track_ids g = [])"

text \<open>The record of the handler is released with the \<open>GAttrib\<close>, and the handler of the bearer keeps its address.\<close>

definition handler_released :: "int \<Rightarrow> att_notify \<Rightarrow> nat \<Rightarrow> lworld \<Rightarrow> bool" where
  "handler_released r n e w \<longleftrightarrow> (\<exists>a. w_att w = Some a \<and> a_ref_count a = r \<and> notify_list a = [(e, n)] \<and>
     gs_attrib (w_user w) = None \<and> gs_cb (w_user w) (n_user_data n) = None)"

definition listener :: "nat \<Rightarrow> nat \<Rightarrow> att_notify \<Rightarrow> lworld \<Rightarrow> bool" where
  "listener e p n w \<longleftrightarrow> (\<exists>a g. w_att w = Some a \<and> notify_list a = [(e, n)] \<and> disconn_list a = [] \<and>
     timeout_destroy a = None \<and> debug_destroy a = None \<and> n_user_data n = p \<and> p \<noteq> 0 \<and>
     ucast (n_opcode n) = (0x1B :: u8) \<and> n_callback n = Some attrib_callback_notify_fn \<and> n_destroy n = Some attrib_callbacks_remove_fn \<and>
     gs_attrib (w_user w) = Some g \<and> g_att g = Some () \<and> g_ref_count g = 1 \<and> g_destroy g = None \<and> callbacks g = [p] \<and> track_ids g = [] \<and>
     gs_cb (w_user w) p = Some \<lparr>cb_id = None, result_func = None, notify_func = Some events_handler_fn, destroy_func = None,
      cb_user_data = dev_user, notify_handle = GATTRIB_ALL_HANDLES\<rparr>)"

lemma unshared_listens:
  assumes s: "session m c fd f w" and u: "unshared w"
  shows "\<exists>w' e p n d. lble_listen G (Some ()) w = Some w' \<and> link m 1 c fd [] None w' \<and> listener e p n w' \<and>
    l_dev (lst w') = Some d \<and> conn_state d = STATE_CONNECTED \<and> d_attrib d = Some () \<and> d_evh d = Some f"
proof -
  from u obtain a0 g0 where au: "w_att w = Some a0" "a_ref_count a0 = 1" "notify_list a0 = []" "disconn_list a0 = []"
     "timeout_destroy a0 = None" "debug_destroy a0 = None" "gs_attrib (w_user w) = Some g0" "g_ref_count g0 = 1"
     "g_destroy g0 = None" "callbacks g0 = []" "track_ids g0 = []" unfolding unshared_def by blast
  from s obtain r n d where w: "link m r c fd [] None w" "0 < r" "23 \<le> m"
    "attrib_inv (w_user w)" "map_option g_ref_count (gs_attrib (w_user w)) = Some n" "1 \<le> n"
    "l_dev (lst w) = Some d" "conn_state d = STATE_CONNECTED" "d_attrib d = Some ()" "d_evh d = Some f"
    unfolding session_def by blast
  from w(4) au(7) have g: "g_att g0 = Some ()" and k: "1 \<le> gs_next (w_user w)"
    unfolding attrib_inv_def by auto
  let ?p = "gs_next (w_user w)"
  let ?x = "\<lparr>cb_id = None, result_func = None, notify_func = Some events_handler_fn, destroy_func = None,
      cb_user_data = dev_user, notify_handle = GATTRIB_ALL_HANDLES\<rparr>"
  let ?i = "fix_id (next_reg_id a0)"
  let ?n = "\<lparr>n_id = ?i, n_opcode = ucast (ATT_OP_HANDLE_NOTIFY :: u8), n_callback = Some attrib_callback_notify_fn,
      n_destroy = Some attrib_callbacks_remove_fn, n_user_data = ?p\<rparr>"
  let ?s = "(w_user w)\<lparr>gs_cb := (gs_cb (w_user w))(?p := Some ?x), gs_next := Suc ?p, gs_attrib := Some (g0\<lparr>callbacks := [?p]\<rparr>)\<rparr>"
  let ?w = "set_att (a0\<lparr>next_reg_id := ?i + 1, notify_list := [(w_next w, ?n)]\<rparr>) (w\<lparr>w_user := ?s, w_next := Suc (w_next w)\<rparr>)"
  have nq: "ATT_OP_HANDLE_NOTIFY \<noteq> GATTRIB_ALL_REQS" by (simp add: GATTRIB_ALL_REQS_def)
  have l: "chans a0 \<noteq> []" "r = 1" using w(1) au(1,2) unfolding link_def by auto
  have run: "lble_listen G (Some ()) w = Some ?w"
    using w g au l nq
    by (simp add: lble_listen_def if_connected_def the_dev_def g_attrib_register_def gs_defs bt_att_register_def set_att_def
        upd_gs_def Let_def)
  have lk: "link m 1 c fd [] None ?w" using w(1) au(1) l(2) unfolding link_def set_att_def by auto
  have L: "lst ?w = lst w" by (simp add: lst_def)
  have "listener (w_next w) ?p ?n ?w" using au g k unfolding listener_def set_att_def by simp
  with run lk w(7-10) show ?thesis unfolding L[symmetric] by blast
qed

text \<open>What a disconnection does to the two, when the bearer is kept by \<open>k\<close> more references.\<close>

lemma disconnect_listener:
  assumes l: "link m (1 + k) c fd [] None w" and s: "listener e p n w" and k: "0 < k"
    and d: "l_dev (lst w) = Some d" "conn_state d = STATE_CONNECTED" "d_attrib d = Some ()" "d_evh d = Some f"
    and q: "\<And>x. A (BleEvent f EVENT_INTERNAL STATE_CHANGED 1 (StateData STATE_DISCONNECTED)) x = Some x"
  shows "\<exists>w'. lble_disconnect G A (Some ()) w = Some w' \<and> handler_released k n e w'"
  using assms unfolding listener_def link_def handler_released_def
  by (auto simp: lble_disconnect_def the_dev_def g_attrib_unref_def gs_defs upd_gs_def call_upper_if_def bt_att_unref_def upd_att_def set_att_def
      attrib_callbacks_destroy_def upd_dev_def set_dev_def emit_state_def emit_def evh_def call_app_def io_channel_def lst_def upd_ls_def upd_ts_def)


lemma disconnect_unshared:
  assumes l: "link m 1 c fd [] None w" and s: "listener e p n w"
    and d: "l_dev (lst w) = Some d" "conn_state d = STATE_CONNECTED" "d_attrib d = Some ()" "d_evh d = Some f"
    and q: "\<And>x. A (BleEvent f EVENT_INTERNAL STATE_CHANGED 1 (StateData STATE_DISCONNECTED)) x = Some x"
    and E: "client (bearer G) = gattrib_client G'"
  shows "\<exists>w'. lble_disconnect G A (Some ()) w = Some w' \<and> w_att w' = None \<and> gs_attrib (w_user w') = None \<and>
    lble_state (Some ()) w' = Some STATE_DISCONNECTED"
proof -
  from l s obtain a g ch where a: "w_att w = Some a" "notify_list a = [(e, n)]" "disconn_list a = []"
     "timeout_destroy a = None" "debug_destroy a = None" "n_user_data n = p" "p \<noteq> 0" "n_destroy n = Some attrib_callbacks_remove_fn"
     "gs_attrib (w_user w) = Some g" "g_att g = Some ()" "g_ref_count g = 1" "g_destroy g = None" "callbacks g = [p]" "track_ids g = []"
     "gs_cb (w_user w) p = Some \<lparr>cb_id = None, result_func = None, notify_func = Some events_handler_fn, destroy_func = None,
      cb_user_data = dev_user, notify_handle = GATTRIB_ALL_HANDLES\<rparr>"
    "chans a = [c]" "req_queue a = []" "ind_queue a = []" "write_queue a = []" "a_ref_count a = 1"
     "w_chan w c = Some ch" "ch_queue ch = []" "pending_req ch = None" "pending_ind ch = None"
    unfolding listener_def link_def by auto
  show ?thesis using a d q E
    by (simp add: lble_disconnect_def the_dev_def g_attrib_unref_def gs_defs upd_gs_def call_upper_if_def bt_att_unref_def upd_att_def set_att_def
      bt_att_unregister_all_def destroy_att_notify_def call_if_def call_def attrib_callbacks_remove_def bt_att_cancel_all_def drain_queues_def
      cancel_pending_def bt_att_free_def bt_att_chan_free_def set_chan_def on_some_def lble_state_def
      attrib_callbacks_destroy_def upd_dev_def set_dev_def emit_state_def emit_def evh_def call_app_def io_channel_def lst_def upd_ls_def upd_ts_def)
qed

text \<open>A bearer whose handler releases the record of the handler does not return.\<close>

lemma released_handler_dangles:
  assumes l: "link m 1 c fd q x w" and s: "listener e p n w"
    and rx: "k_read E fd m = Some (0x1B # pdu)" "length pdu < unat m"
    and E: "client E = gattrib_client G \<or> client E = (\<lambda>_ _. None)"
    and cb: "\<And>w1 w2. link m 3 c fd q x w1 \<Longrightarrow> lst w1 = lst w \<Longrightarrow> listener e p n w1 \<Longrightarrow>
      gattrib_client G (CallNotify attrib_callback_notify_fn c 0x1B pdu p) w1 = Some w2 \<Longrightarrow> handler_released 2 n e w2"
  shows "can_read_data E c w = None"
proof -
  from l s obtain a ch where a: "w_att w = Some a" "notify_list a = [(e, n)]" "n_user_data n = p" "p \<noteq> 0"
     "ucast (n_opcode n) = (0x1B :: u8)" "n_callback n = Some attrib_callback_notify_fn" "n_destroy n = Some attrib_callbacks_remove_fn"
     "a_ref_count a = 1" "w_chan w c = Some ch" "ch_mtu ch = m" "ch_fd ch = fd" "length (ch_buf ch) = unat m" "chans a = [c]"
    unfolding listener_def link_def by auto
  obtain b where b: "wr_bytes (ch_buf ch) 0 (0x1B # pdu) = Some b" using a(12) rx(2) by (auto simp: wr_bytes_def)
  then have lb: "length b = unat m" using a(12) wr_bytes_length by fastforce
  have rb: "rd_bytes b (Suc 0) (length pdu) = Some pdu"
    using b a(12) rx(2) by (auto simp: wr_bytes_def rd_bytes_def)
  let ?c1 = "CallNotify attrib_callback_notify_fn c 0x1B pdu p"
  let ?w0 = "set_att (a\<lparr>a_ref_count := 3\<rparr>) (set_chan c (ch\<lparr>ch_buf := b\<rparr>) w)"
  let ?w1 = "?w0\<lparr>w_calls := w_calls w @ [?c1]\<rparr>"
  have l1: "link m 3 c fd q x ?w1" using l a lb unfolding link_def set_att_def set_chan_def by auto
  have s1: "listener e p n ?w1" using s a unfolding listener_def set_att_def set_chan_def by auto
  have us: "lst ?w1 = lst w" by (simp add: lst_def)
  have om: "opcode_match (0x1B :: u8) 0x1B" by code_simp
  have t: "get_op_type 0x1B = ATT_OP_TYPE_NFY" "(0x1B :: u8) AND ATT_OP_SIGNED_MASK = 0" "0x1B \<noteq> BT_ATT_OP_MTU_REQ" by code_simp+
  have loop: "notify_loop E c (ch_buf_at ch) 0x1B (Some e) (Suc (length pdu)) False ?w0 =
    do { w \<leftarrow> client E ?c1 ?w1; a \<leftarrow> w_att w; Some (Finished True, w) }"
    using a om rb t
    by (simp add: notify_loop_unfold call_def set_att_def set_chan_def Let_def bt_att_get_link_type_def buf_at_def next_entry_def cong: if_cong)
  have run: "can_read_data E c w = do {
      w \<leftarrow> client E ?c1 ?w1; a \<leftarrow> w_att w; w \<leftarrow> bt_att_unref E (Some ()) w; w \<leftarrow> bt_att_unref E (Some ()) w;
      Some (True, w) }"
    using b a rx(1) t loop
    by (simp add: can_read_data_def handle_notify_def bt_att_ref_def upd_att_def set_att_def set_chan_def Let_def first_entry_def)
  show ?thesis
  proof (cases "client E ?c1 ?w1")
    case None
    then show ?thesis unfolding run by simp
  next
    case (Some w2)
    then have E: "client E = gattrib_client G" using E by auto
    with Some have "handler_released 2 n e w2" using cb [OF l1 us s1] by simp
    then obtain a2 where a2: "w_att w2 = Some a2" "a_ref_count a2 = 2" "notify_list a2 = [(e, n)]"
     "gs_cb (w_user w2) (n_user_data n) = None" unfolding handler_released_def by blast
    show ?thesis unfolding run using Some a2 a E
      by (simp add: notify_loop_unfold bt_att_unref_def upd_att_def set_att_def bt_att_unregister_all_def destroy_att_notify_def
        call_if_def call_def attrib_callbacks_remove_def gs_defs)
  qed
qed

lemma notification_disconnects:
  assumes l: "link m 3 c fd [] None w" and s: "listener e p n w" and v: "length v < 65533"
    and d: "l_dev (lst w) = Some d" "conn_state d = STATE_CONNECTED" "d_attrib d = Some ()" "d_evh d = Some f"
    and P: "\<And>x. policy (value_event f h v) x = [OpDisconnect]"
    and q: "makes_no_call policy (BleEvent f EVENT_INTERNAL STATE_CHANGED 1 (StateData STATE_DISCONNECTED))"
    and r: "gattrib_client (layers M G (\<lambda>G. app_at N B G policy)) (CallNotify attrib_callback_notify_fn c 0x1B (le2 h @ v) p) w = Some w2"
  shows "handler_released 2 n e w2"
proof -
  let ?x = "\<lparr>cb_id = None, result_func = None, notify_func = Some events_handler_fn, destroy_func = None,
      cb_user_data = dev_user, notify_handle = GATTRIB_ALL_HANDLES\<rparr>"
  have x: "gs_cb (w_user w) p = Some ?x" "p \<noteq> 0" using s unfolding listener_def by blast+
  have g: "get_le16 (0x1B # le2 h @ v) (Suc 0) = Some h"
    using get_le16_mid [of "Suc 0" "[0x1B]" h v] by simp
  have c8: "(ucast (of_nat (length v) :: u16) :: u8) = of_nat (length v)" using v by (simp add: unsigned_of_nat take_bit_nat_eq_self)
  obtain K where K: "M = Suc K"
    using r x by (cases M) (simp_all add: attrib_callback_notify_def cb_at_def call_upper_def layers_def)
  let ?A = "app_at N B (layers K G (\<lambda>G. app_at N B G policy)) policy" and ?ev = "value_event f h v"
  let ?e = "BleEvent f EVENT_DEVICE h (of_nat (length v)) (Bytes v)"
  let ?u = "(w_user w)\<lparr>gs_calls := gs_calls (w_user w) @ [GNotify events_handler_fn (0x1B # le2 h @ v) (of_nat (length v) + 3) dev_user],
      gs_user := (gs_user (w_user w))\<lparr>ts_calls := ts_calls (gs_user (w_user w)) @ [TNotify events_handler_fn (0x1B # le2 h @ v) (of_nat (length v) + 3) dev_user],
        ts_user := (lst w)\<lparr>l_events := l_events (lst w) @ [?ev]\<rparr>\<rparr>\<rparr>"
  have call: "?A ?ev (w\<lparr>w_user := ?u\<rparr>) = Some w2"
    using r x d g unfolding K
    by (simp add: attrib_callback_notify_def cb_at_def call_upper_def layers_client call_top_def events_handler_def the_dev_def evh_def
        call_app_def value_event_def rd8_def c8 construct_full_pdu_def lst_def upd_ls_def upd_ts_def upd_gs_def add.commute)
  obtain N' where N': "N = Suc N'" using call P by (cases N) simp_all
  let ?G = "layers K G (\<lambda>G. app_at N B G policy)"
  have dis: "lble_disconnect ?G (app_at N' B ?G policy) (Some ()) (w\<lparr>w_user := ?u\<rparr>) = Some w2"
    using call P by (auto simp: app_at.simps(2) [of N' B ?G policy, folded N'] bind_eq_Some_conv)
  have "link m (1 + 2) c fd [] None (w\<lparr>w_user := ?u\<rparr>)" "listener e p n (w\<lparr>w_user := ?u\<rparr>)"
    "l_dev (lst (w\<lparr>w_user := ?u\<rparr>)) = Some d"
    using l s d unfolding listener_def by (auto simp: lst_def)
  from disconnect_listener [OF this(1,2) _ this(3) d(2-4), where A = "app_at N' B ?G policy" and G = ?G] quiet_app [OF q, of N' B ?G] dis
  show ?thesis by (simp add: ignores_event_def)
qed

end
