(* ===== verification/AttReach.thy ===== *)
theory AttReach
  imports AttEvents
begin

text \<open>
  The states of the ATT bearer that the main loop can reach. Calls of the client and events keep the
  invariant; the client of the model (\<open>client_at\<close>, which makes calls from inside its callbacks to any depth)
  is an instance of the contract \<open>att_client\<close>, and one that only sends of \<open>att_steady_client\<close>.
\<close>

section \<open>The calls of the client keep the bearer well formed\<close>

lemma ensures_result_state [simp]: "ensures (result_state r) Q = ensures r (\<lambda>(x, w). Q w)"
  by (cases r) (auto simp: result_state_def)

lemma wf_is_chan: "wf_with w a \<Longrightarrow> is_chan c w \<longleftrightarrow> c \<in> set (chans a)"
  by (simp add: is_chan_def wf_withD(1))

lemma error_rsp_pdu_eq: "error_rsp_pdu opcode handle ecode = Some ([opcode] @ le_of_word 2 handle @ [ecode])"
proof -
  obtain x y where xy: "le_of_word 2 handle = [x, y]"
    using length_le_of_word [of 2 handle] by (auto simp: length_Suc_conv numeral_2_eq_2 simp del: length_le_of_word)
  show ?thesis
    unfolding error_rsp_pdu_def put_le16_def xy
    by (simp add: memset_def fresh_def wr8_def wr_bytes_def eval_nat_numeral)
qed

context att_client
begin

lemma chan_send_error_rsp_keeps:
  assumes "wf_with w a" "c \<in> set (chans a)"
  shows "ensures (bt_att_chan_send_error_rsp E (Some c) opcode handle err w) (\<lambda>(r, w'). keeps {} w w')"
proof -
  obtain ch where ch: "w_chan w c = Some ch" "ch_att ch"
    using wf_with_chan [OF assms] by (auto simp: chan_ok_def)
  obtain pdu where pdu: "error_rsp_pdu opcode handle (att_ecode_from_error err) = Some pdu" "length pdu = 4"
    by (simp add: error_rsp_pdu_eq)
  have "arg_ok (Some pdu) 4" using pdu(2) by (simp add: arg_ok_def)
  from bt_att_chan_send_keeps [OF assms(1) this assms(2), of BT_ATT_OP_ERROR_RSP]
  show ?thesis
    using ch pdu(1) keeps_refl [OF wf_withI [OF assms(1)]]
    by (simp add: bt_att_chan_send_error_rsp_def get_op_type_def att_opcode_type_table_def BT_ATT_OP_ERROR_RSP_def
        case_prod_unfold)
qed

lemma api_keeps:
  assumes "wf w" "api_ok x w"
  shows "ensures (api_run E S x w) (keeps {} w)"
proof -
  obtain a where a: "wf_with w a" using assms(1) by (auto simp: wf_def)
  note [simp] = wf_is_chan [OF a]
  have cc: "ensures (bt_att_chan_cancel E c i w) (\<lambda>(x, w'). keeps {} w w')" if "c \<in> set (chans a)" for c i
    by (rule ensures_mono [OF chan_cancel_keeps [OF a that]]) auto
  show ?thesis
    using assms(2)
    by (cases x) (simp_all add: bt_att_send_keeps [OF assms(1)] bt_att_chan_send_keeps [OF a]
        chan_send_error_rsp_keeps [OF a] bt_att_cancel_keeps [OF assms(1)]
        bt_att_cancel_all_keeps [OF assms(1)] bt_att_register_keeps [OF assms(1)] bt_att_unregister_keeps [OF assms(1)]
        bt_att_register_disconnect_keeps [OF assms(1)] bt_att_unregister_disconnect_keeps [OF assms(1)]
        bt_att_unregister_all_keeps [OF assms(1)] bt_att_set_mtu_keeps [OF assms(1)] set_cb_keeps [OF assms(1)]
        set_key_keeps [OF assms(1)] bt_att_set_security_keeps [OF assms(1)] set_enc_key_size_keeps [OF assms(1)]
        bt_att_set_close_on_unref_keeps [OF assms(1)] cc)
qed

end

section \<open>The client of the model\<close>

lemma each_keeps_wf_all:
  assumes "\<And>x w. wf w \<Longrightarrow> ensures (f x w) (keeps {} w)" "wf w"
  shows "ensures (each f xs w) (keeps {} w)"
  using each_keeps [of xs "\<lambda>_. True" f w] assms by simp

definition env_ok :: "'c env \<Rightarrow> bool" where
  "env_ok E \<longleftrightarrow> (\<forall>w. length (w_timers w) < 4294967295 \<longrightarrow>
       timeout_add E w \<noteq> 0 \<and> timeout_add E w \<notin> fst ` set (w_timers w)) \<and>
     (\<forall>fd n bs. k_read E fd n = Some bs \<longrightarrow> length bs \<le> unat n)"

lemma client_at_keeps:
  assumes "env_ok E"
  shows "wf w \<Longrightarrow> ensures (client_at n E S policy c w) (keeps {} w)"
proof (induction n arbitrary: c w)
  case 0
  then show ?case by (simp add: keeps_refl)
next
  case (Suc n)
  let ?E = "E\<lparr>client := client_at n E S policy\<rparr>"
  have "att_client ?E"
    by unfold_locales (use assms Suc.IH in \<open>auto simp: env_ok_def\<close>)
  then have "ensures (if api_ok x w then api_run ?E S x w else Some w) (keeps {} w)" if "wf w" for x w
    using att_client.api_keeps [of ?E w x S] that by (simp add: keeps_refl)
  then show ?case
    using Suc.prems by (simp add: each_keeps_wf_all)
qed

lemma timer_ids_eq: "t = of_nat k \<Longrightarrow> timer_ids xs t = map of_nat [k..<k + length xs + 1]"
proof (induction xs arbitrary: t k)
  case (Cons x xs)
  have "[k..<k + length (x # xs) + 1] = k # [Suc k..<Suc k + length xs + 1]"
    by (subst upt_conv_Cons) (simp_all del: upt_Suc)
  with Cons.IH [of "t + 1" "Suc k"] Cons.prems show ?case by (simp del: upt_Suc)
qed simp

lemma free_timer_new:
  assumes "length (w_timers w) < 4294967295"
  shows "free_timer w \<noteq> 0 \<and> free_timer w \<notin> fst ` set (w_timers w)"
proof -
  let ?n = "length (w_timers w)"
  let ?xs = "map of_nat [1..<?n + 2] :: u32 list"
  have inj: "inj_on (of_nat :: nat \<Rightarrow> u32) (set [1..<?n + 2])"
  proof (rule inj_onI)
    fix i j assume ij: "i \<in> set [1..<?n + 2]" "j \<in> set [1..<?n + 2]" "(of_nat i :: u32) = of_nat j"
    have u: "unat (of_nat k :: u32) = k" if "k \<in> set [1..<?n + 2]" for k
      using that assms by (auto simp: unat_of_nat)
    from ij(3) have "unat (of_nat i :: u32) = unat (of_nat j :: u32)" by (rule arg_cong)
    then show "i = j" by (simp only: u [OF ij(1)] u [OF ij(2)])
  qed
  then have d: "card (set ?xs) = Suc ?n"
    by (simp only: set_map card_image set_upt card_atLeastLessThan)
  have "\<not> set ?xs \<subseteq> fst ` set (w_timers w)"
  proof
    assume "set ?xs \<subseteq> fst ` set (w_timers w)"
    then have "card (set ?xs) \<le> card (fst ` set (w_timers w))" by (rule card_mono [rotated]) simp
    also have "\<dots> \<le> ?n" by (rule order_trans [OF card_image_le]) (simp_all add: card_length)
    finally show False using d by simp
  qed
  then obtain t where t: "find (\<lambda>t. t \<notin> fst ` set (w_timers w)) ?xs = Some t"
    by (cases "find (\<lambda>t. t \<notin> fst ` set (w_timers w)) ?xs") (auto simp: find_None_iff)
  then obtain i where i: "i < length ?xs" "?xs ! i \<notin> fst ` set (w_timers w)" "t = ?xs ! i"
    by (auto simp: find_Some_iff)
  have il: "i < length [1..<?n + 2]" using i(1) by (simp only: length_map)
  then have "1 + i < ?n + 2" by (simp only: length_upt)
  then have "[1..<?n + 2] ! i = Suc i" by (simp only: nth_upt)
  then have "t = of_nat (Suc i)" using i(3) il by (simp only: nth_map)
  moreover have "Suc i < 4294967296" using il assms by (simp only: length_upt)
  ultimately have "unat t = Suc i" using unat_of_nat [of "Suc i", where 'a = 32] by simp
  then have "t \<noteq> 0" by auto
  moreover have "timer_ids (w_timers w) 1 = ?xs" using timer_ids_eq [of 1 1 "w_timers w"] by (simp del: upt_Suc)
  ultimately show ?thesis using i(2,3) t unfolding free_timer_def by simp
qed

lemma env_at_ok: "env_ok (E\<lparr>timeout_add := free_timer, k_read := (\<lambda>fd m. map_option (take (unat m)) (k_read E fd m))\<rparr>)"
  using free_timer_new by (auto simp: env_ok_def)

text \<open>
  A client that makes its calls from inside the callbacks, nested to any depth, is one that the bearer
  can rely on.
\<close>

interpretation nested: att_client "env_at n E S policy"
  by unfold_locales (use env_at_ok [of E] in \<open>auto simp: env_at_def Let_def client_at_keeps env_ok_def\<close>)

section \<open>A client that only sends\<close>

text \<open>The calls that do not call back.\<close>

fun sends :: "api \<Rightarrow> bool" where
  "sends (Send opcode pdu len cb ud d) = True"
| "sends (ChanSend c opcode pdu len cb ud d) = True"
| "sends (ChanSendErrorRsp c opcode handle err) = True"
| "sends (SetSecurity level) = True"
| "sends (SetEncKeySize n) = True"
| "sends (SetLocalKey key f ud) = True"
| "sends (SetRemoteKey key f ud) = True"
| "sends _ = False"

lemma steady_refl: "steady w w"
  by (simp add: steady_def)

definition same_lists :: "'c world \<Rightarrow> 'c world \<Rightarrow> bool" where
  "same_lists w w' \<longleftrightarrow> map_option notify_list (w_att w') = map_option notify_list (w_att w) \<and>
     map_option disconn_list (w_att w') = map_option disconn_list (w_att w) \<and>
     (\<forall>c. map_option ch_buf_at (w_chan w' c) = map_option ch_buf_at (w_chan w c) \<and>
          map_option ch_mtu (w_chan w' c) = map_option ch_mtu (w_chan w c))"

lemma same_lists_refl [simp]: "same_lists w w"
  by (simp add: same_lists_def)

lemma same_lists_trans: "same_lists w w1 \<Longrightarrow> same_lists w1 w2 \<Longrightarrow> same_lists w w2"
  by (simp add: same_lists_def)

lemma same_lists_steady: "same_lists w w' \<Longrightarrow> steady w w'"
  by (simp add: same_lists_def steady_def, metis option.inject option.map(2))

lemma same_lists_each:
  assumes "\<And>x w w'. f x w = Some w' \<Longrightarrow> same_lists w w'"
  shows "each f xs w = Some w' \<Longrightarrow> same_lists w w'"
proof (induction xs arbitrary: w)
  case (Cons x xs)
  then obtain w1 where "f x w = Some w1" "each f xs w1 = Some w'" by (auto simp: bind_eq_Some_conv)
  with Cons.IH assms same_lists_trans show ?case by blast
qed simp

lemma wakeup_chan_writer_lists: "wakeup_chan_writer E c w = Some w' \<Longrightarrow> same_lists w w'"
  by (auto simp: wakeup_chan_writer_def bind_eq_Some_conv same_lists_def set_chan_def split: if_splits)

lemma wakeup_writer_lists: "wakeup_writer E w = Some w' \<Longrightarrow> same_lists w w'"
  by (auto simp: wakeup_writer_def bind_eq_Some_conv intro: same_lists_each wakeup_chan_writer_lists)

lemma create_lists: "create_att_send_op E opcode pdu len cb ud d w = Some (x, w') \<Longrightarrow> same_lists w w'"
  by (auto simp: create_att_send_op_def bind_eq_Some_conv Let_def new_op_def set_op_def same_lists_def
      split: if_splits option.splits)

lemma upd_op_lists: "upd_op p f w = Some w' \<Longrightarrow> same_lists w w'"
  by (auto simp: upd_op_def bind_eq_Some_conv set_op_def same_lists_def)

lemma chan_send_lists: "bt_att_chan_send E x opcode pdu len cb ud d w = Some (r, w') \<Longrightarrow> same_lists w w'"
proof -
  assume s: "bt_att_chan_send E x opcode pdu len cb ud d w = Some (r, w')"
  show ?thesis
  proof (cases x)
    case (Some c)
    show ?thesis
    proof (cases "map_option ch_att (w_chan w c) = Some True")
      case True
      then obtain y w1 where cr: "create_att_send_op E opcode pdu len cb ud d w = Some (y, w1)"
        using s Some by (auto simp: bt_att_chan_send_def bind_eq_Some_conv)
      show ?thesis
      proof (cases y)
        case (Some p)
        then obtain w2 w3 where "upd_chan c (\<lambda>ch. ch\<lparr>ch_queue := ch_queue ch @ [p]\<rparr>) w1 = Some w2"
          "wakeup_chan_writer E c w2 = Some w3" "w' = w3"
          using s True \<open>x = Some c\<close> cr by (auto simp: bt_att_chan_send_def bind_eq_Some_conv)
        moreover have "same_lists w1 w2" if "upd_chan c (\<lambda>ch. ch\<lparr>ch_queue := ch_queue ch @ [p]\<rparr>) w1 = Some w2"
          using that by (auto simp: upd_chan_def bind_eq_Some_conv set_chan_def same_lists_def)
        ultimately show ?thesis
          using create_lists [OF cr] wakeup_chan_writer_lists same_lists_trans by blast
      qed (use s True \<open>x = Some c\<close> cr create_lists [OF cr] in \<open>auto simp: bt_att_chan_send_def bind_eq_Some_conv\<close>)
    qed (use s Some in \<open>auto simp: bt_att_chan_send_def bind_eq_Some_conv\<close>)
  qed (use s in \<open>auto simp: bt_att_chan_send_def\<close>)
qed

lemma send_lists: "bt_att_send E x opcode pdu len cb ud d w = Some (r, w') \<Longrightarrow> same_lists w w'"
proof -
  assume s: "bt_att_send E x opcode pdu len cb ud d w = Some (r, w')"
  show ?thesis
  proof (cases "x = None \<or> map_option chans (w_att w) = Some []")
    case False
    then obtain y w1 where cr: "create_att_send_op E opcode pdu len cb ud d w = Some (y, w1)"
      using s by (auto simp: bt_att_send_def bind_eq_Some_conv)
    show ?thesis
    proof (cases y)
      case (Some p)
      then obtain a where a: "w_att w1 = Some a"
        using s False cr by (auto simp: bt_att_send_def bind_eq_Some_conv)
      let ?f = "\<lambda>op. op\<lparr>op_id := fix_id (next_send_id a)\<rparr>"
      obtain w2 op where u: "upd_op p ?f w1 = Some w2" "w_op w2 p = Some op"
        using s False cr Some a by (auto simp: bt_att_send_def bind_eq_Some_conv Let_def)
      let ?b = "a\<lparr>next_send_id := fix_id (next_send_id a) + 1\<rparr>"
      define a' where "a' = (case op_type op of
                   ATT_OP_TYPE_REQ \<Rightarrow> ?b\<lparr>req_queue := req_queue ?b @ [p]\<rparr>
                 | ATT_OP_TYPE_IND \<Rightarrow> ?b\<lparr>ind_queue := ind_queue ?b @ [p]\<rparr>
                 | _ \<Rightarrow> ?b\<lparr>write_queue := write_queue ?b @ [p]\<rparr>)"
      have 2: "notify_list a' = notify_list a" "disconn_list a' = disconn_list a"
        unfolding a'_def by (cases "op_type op"; simp)+
      obtain w3 where 3: "wakeup_writer E (set_att a' w2) = Some w3" "w' = w3"
        using s False cr Some a u unfolding a'_def
        by (auto simp: bt_att_send_def bind_eq_Some_conv Let_def)
      have "w_att w2 = w_att w1" using u(1) by (auto simp: upd_op_def bind_eq_Some_conv set_op_def)
      then have 4: "same_lists w2 (set_att a' w2)" using a 2 by (simp add: same_lists_def set_att_def)
      show ?thesis
        using same_lists_trans [OF create_lists [OF cr]
            same_lists_trans [OF upd_op_lists [OF u(1)] same_lists_trans [OF 4 wakeup_writer_lists [OF 3(1)]]]] 3(2)
        by simp
    qed (use s False cr create_lists [OF cr] in \<open>auto simp: bt_att_send_def bind_eq_Some_conv\<close>)
  qed (use s in \<open>auto simp: bt_att_send_def bind_eq_Some_conv split: if_splits\<close>)
qed

lemma sends_lists:
  fixes w w' :: "'c world"
  assumes "sends x" "api_run E S x w = Some w'"
  shows "same_lists w w'"
proof -
  have d: "result_state r = Some w' \<Longrightarrow> (\<And>y. r = Some (y, w') \<Longrightarrow> same_lists w w') \<Longrightarrow> same_lists w w'" for r :: "('a \<times> 'c world) option"
    by (auto simp: result_state_def)
  have sec: "bt_att_set_security E u l w = Some (y, w') \<Longrightarrow> same_lists w w'" for u l y
    by (auto simp: bt_att_set_security_def bt_att_chan_set_security_def bind_eq_Some_conv same_lists_def set_chan_def
        split: if_splits)
  have err: "bt_att_chan_send_error_rsp E (Some c) opcode h e w = Some (y, w') \<Longrightarrow> same_lists w w'" for c opcode h e y
    by (auto simp: bt_att_chan_send_error_rsp_def bind_eq_Some_conv split: if_splits dest!: chan_send_lists)
  have keys: "bt_att_set_local_key u k f ud w = Some (y, w') \<Longrightarrow> same_lists w w'"
    "bt_att_set_remote_key u k f ud w = Some (y, w') \<Longrightarrow> same_lists w w'" for u k f ud y
    by (cases u; auto simp: bt_att_set_local_key_def bt_att_set_remote_key_def bind_eq_Some_conv same_lists_def
        set_att_def)+
  have enc: "bt_att_set_enc_key_size u n w = Some w' \<Longrightarrow> same_lists w w'" for u n
    by (cases u) (auto simp: bt_att_set_enc_key_size_def upd_att_def bind_eq_Some_conv same_lists_def set_att_def)
  show ?thesis
    using assms
    by (cases x) (auto dest!: d intro: send_lists chan_send_lists sec err keys enc)
qed

text \<open>A client whose reactions only send PDUs and set parameters.\<close>

definition only_sends :: "(client_call \<Rightarrow> 'c world \<Rightarrow> api list) \<Rightarrow> client_call \<Rightarrow> 'c world \<Rightarrow> api list" where
  "only_sends policy c w = filter sends (policy c w)"

lemma client_at_only_sends:
  assumes "client_at n E S (only_sends policy) c w = Some w'"
  shows "same_lists w w'"
proof (cases n)
  case (Suc m)
  let ?E = "E\<lparr>client := client_at m E S (only_sends policy)\<rparr>"
  have "same_lists w w'" if "set xs \<subseteq> Collect sends"
    "each (\<lambda>x w. if api_ok x w then api_run ?E S x w else Some w) xs w = Some w'" for xs
    using that
  proof (induction xs arbitrary: w)
    case (Cons x xs)
    then obtain w1 where w1: "(if api_ok x w then api_run ?E S x w else Some w) = Some w1"
      "each (\<lambda>x w. if api_ok x w then api_run ?E S x w else Some w) xs w1 = Some w'"
      by (auto simp: bind_eq_Some_conv)
    have "same_lists w w1" using w1(1) Cons.prems(1) sends_lists by (auto split: if_splits)
    with Cons w1(2) same_lists_trans show ?case by auto
  qed simp
  from this [of "only_sends policy c w"] show ?thesis using assms Suc by (auto simp: only_sends_def)
qed (use assms in simp)

interpretation server: att_steady_client "env_at n E S (only_sends policy)"
  by unfold_locales
    (auto simp: env_at_def Let_def intro: same_lists_steady client_at_only_sends)

section \<open>Events keep the invariant\<close>

lemma wf_chans_old:
  assumes "att_inv w" "(t, c, i) \<in> set (w_timers w)"
  shows "c < w_next w"
proof -
  obtain a where a: "wf_with w a" "c \<in> set (chans a)" using assms unfolding att_inv_def by blast
  then show ?thesis using wf_with_chan [OF a] wf_live_chan [OF a(1)] by blast
qed

context att_steady_client
begin

lemma timer_event:
  assumes inv: "att_inv w" and en: "(t, c, i) \<in> set (w_timers w)" "distinct_pending c w"
  shows "ensures (timeout_cb E c i (timeout_remove t w)) att_inv"
proof -
  obtain a where a: "w_att w = Some a" using inv by (auto simp: att_inv_def dest: wf_withD(1))
  note wf = att_invD [OF inv a]
  let ?w = "timeout_remove t w"
  have c: "c \<in> set (chans a)" using wf(3) [OF en(1)] .
  obtain ch where ch: "w_chan w c = Some ch" using wf_with_chan [OF wf(1) c] by blast
  obtain p op where p: "p \<in> pend ch" "w_op w p = Some op" "op_timeout_id op = t" "op_id op = i"
    using wf_timer_of [OF wf(1) c ch en(1)] by blast
  have w: "wf_with ?w a" by (rule wf_timeout_remove [OF wf(1)])
  have inv1: "att_inv ?w"
    unfolding att_inv_def using w wf(2,3) by (intro exI [of _ a]) (auto simp: timeout_remove_def)
  have "ensures (timeout_cb E c i ?w) (runs ?w)"
  proof (rule timeout_cb_runs [OF w c])
    show "w_chan ?w c = Some ch" using ch by (simp add: timeout_remove_def)
    fix q op' assume q: "q \<in> pend ch" "w_op ?w q = Some op'" "op_id op' = i"
    have "q = p"
    proof (rule ccontr)
      assume "q \<noteq> p"
      then have "pending_req ch = Some p \<and> pending_ind ch = Some q \<or> pending_req ch = Some q \<and> pending_ind ch = Some p"
        using p(1) q(1) by (auto simp: pend_def)
      then show False using en(2) ch p(2,4) q(2,3) by (auto simp: distinct_pending_def timeout_remove_def)
    qed
    then show "op_timeout_id op' \<notin> fst ` set (w_timers ?w)"
      using p q by (auto simp: timeout_remove_def)
  qed
  then show ?thesis by (rule ensures_mono) (rule att_inv_runs [OF inv1])
qed

lemma event_inv:
  assumes inv: "att_inv w" and en: "enabled ev w"
  shows "ensures (run_event E S ev w) att_inv"
proof -
  obtain a where a: "w_att w = Some a" using inv by (auto simp: att_inv_def dest: wf_withD(1))
  note wf = att_invD [OF inv a]
  have ic [simp]: "is_chan c w \<longleftrightarrow> c \<in> set (chans a)" for c by (rule wf_is_chan [OF wf(1)])
  have run: "ensures x att_inv" if "ensures x (runs w)" for x
    using that by (rule ensures_mono) (rule att_inv_runs [OF inv])
  have kp: "ensures x att_inv" if "ensures x (keeps {} w)" for x
    using that by (intro run) (erule ensures_mono, rule keeps_runs)
  show ?thesis
  proof (cases ev)
    case (EvWrite c)
    then show ?thesis using en can_write_data_runs [OF wf(1), of c] by (intro run) simp
  next
    case (EvWriteDone c)
    then have c: "c \<in> set (chans a)" using en by simp
    obtain ch where ch: "w_chan w c = Some ch" "chan_ok ch" using wf_with_chan [OF wf(1) c] by blast
    have "runs w (set_chan c (ch\<lparr>writer_active := False\<rparr>) w)"
      by (rule update_chan_runs(2) [OF wf(1) c ch(1)]) (use ch in \<open>simp_all add: chan_ok_def\<close>)
    then show ?thesis using EvWriteDone ch by (intro run) (simp add: write_watch_destroy_def upd_chan_def)
  next
    case (EvRead c)
    then show ?thesis using en can_read_data_runs [OF wf(1,2), of c] by (intro run) simp
  next
    case (EvTimer t c i)
    then show ?thesis using en timer_event [OF inv] by simp
  next
    case (EvHangup c)
    then show ?thesis using en disconnect_cb_inv [OF inv a] by simp
  next
    case (EvApi x)
    then show ?thesis using en api_keeps [OF wf_withI [OF wf(1)]] by (intro kp) simp
  next
    case (EvAttach fd)
    then show ?thesis
      using bt_att_attach_fd_keeps [OF wf_withI [OF wf(1)], where S = S and att = "Some ()" and fd = fd] wf_chans_old [OF inv]
      by (intro kp) auto
  next
    case EvRef
    have "att_inv (set_att (a\<lparr>a_ref_count := a_ref_count a + 1\<rparr>) w)"
      unfolding att_inv_def using wf_ref [OF wf(1), of "a_ref_count a + 1"] wf(2,3)
      by (intro exI [of _ "a\<lparr>a_ref_count := a_ref_count a + 1\<rparr>"]) (auto simp: set_att_def)
    then show ?thesis using EvRef a by (simp add: bt_att_ref_def upd_att_def)
  next
    case EvUnref
    then have 2: "2 \<le> a_ref_count a" using en a by simp
    have "att_inv (set_att (a\<lparr>a_ref_count := a_ref_count a - 1\<rparr>) w)"
      unfolding att_inv_def using wf_ref [OF wf(1), of "a_ref_count a - 1"] 2 wf(3)
      by (intro exI [of _ "a\<lparr>a_ref_count := a_ref_count a - 1\<rparr>"]) (auto simp: set_att_def)
    then show ?thesis using EvUnref unref_kept [OF wf(1) 2] by simp
  qed
qed

end

section \<open>Reachable states\<close>

context att_client
begin

lemma created_inv:
  assumes K: "\<And>K. crypto = Some K \<Longrightarrow> kernel_ok K"
  shows "ensures (bt_att_new E S crypto fd ext_signed (empty_world u)) (\<lambda>(att, w). att = Some () \<longrightarrow> att_inv w)"
proof -
  obtain x w where n: "bt_att_chan_new S fd (io_get_type S fd) (empty_world u) = (x, w)" by force
  show ?thesis
  proof (cases x)
    case None
    then show ?thesis using n by (simp add: bt_att_new_def)
  next
    case (Some c)
    note cn = chan_new_ok [OF n [unfolded Some]]
    obtain ch where ch: "new_chan ch" "w = (set_chan c ch (empty_world u))\<lparr>w_next := 3\<rparr>"
      using cn(2) by (auto simp: empty_world_def)
    have c1: "c = 1" using cn(1) by (simp add: empty_world_def)
    define a where "a = \<lparr>a_ref_count = 0, close_on_unref = False, chans = [], enc_size = 0, a_mtu = ch_mtu ch,
          notify_list = [], disconn_list = [], next_send_id = 0, next_reg_id = 0, req_queue = [],
          ind_queue = [], write_queue = [], timeout_callback = None, timeout_destroy = None,
          timeout_data = 0, debug_callback = None, debug_destroy = None, debug_data = 0,
          a_crypto = (if ext_signed then None else crypto), local_sign = None, remote_sign = None\<rparr>"
    let ?e = "set_att a (empty_world u)"
    let ?w = "set_att a w"
    have pl: "place_ops ?e a = (\<lambda>_. [])"
    proof
      fix pl show "place_ops ?e a pl = []" by (cases pl) (simp_all add: on_chan_def a_def)
    qed
    have o: "ops_ok (w_op ?e) (a_mtu a) (place_ops ?e a)"
      unfolding pl by (simp add: ops_ok_def layout_def)
    have wf0: "wf_with ?e a"
    proof -
      have "keys_ok a" using K by (simp add: keys_ok_def a_def)
      moreover have "chans_ok ?e a" "handlers_ok ?e a" by (simp_all add: chans_ok_def handlers_ok_def a_def)
      moreover have "timers_ok ?e a" "fresh_ok ?e" "w_att ?e = Some a"
        by (simp_all add: timers_ok_def fresh_ok_def empty_world_def set_att_def)
      ultimately show ?thesis using o by (simp add: wf_with_def)
    qed
    have eq: "?w = (set_chan c ch ?e)\<lparr>w_next := w_next ?e + 2\<rparr>"
      unfolding ch(2) by (simp add: set_att_def set_chan_def empty_world_def)
    have c0: "c = w_next ?e" using c1 by (simp add: empty_world_def)
    note w1 = wf_two_addresses(1,2) [OF wf0 c0, of ch, folded eq] wf_two_addresses(3) [OF wf0 c0]
    have at: "ensures (bt_att_attach_chan E c ?w) (keeps {} ?e)"
    proof (rule attach_chan_keeps [OF w1(1,3) _ ch(1)])
      show "w_chan ?w c = Some ch" using ch(2) by simp
      show "(t, c, i) \<notin> set (w_timers ?w)" for t i using ch(2) by (simp add: empty_world_def)
      show "wf_with ?e a" by (rule wf0)
      show "keeps {} ?e ?w" by (rule w1(2))
    qed (simp add: c0)
    have ref: "ensures (bt_att_ref (Some ()) w2) att_inv" if k: "keeps {} ?e w2" for w2
    proof -
      obtain a2 where a2: "wf_with w2 a2" "frame_att {} ?e a w2 a2" using keepsE [OF k wf0] by blast
      have t: "w_timers w2 = []" "a_ref_count a2 = 0"
        using frame_attD(3,5) [OF a2(2)] by (simp_all add: empty_world_def a_def)
      have "att_inv (set_att (a2\<lparr>a_ref_count := 1\<rparr>) w2)"
        unfolding att_inv_def using wf_ref [OF a2(1), of 1] t(1)
        by (intro exI [of _ "a2\<lparr>a_ref_count := 1\<rparr>"]) (simp add: set_att_def)
      then show ?thesis using wf_withD(1) [OF a2(1)] t(2) by (simp add: bt_att_ref_def upd_att_def)
    qed
    have "w_chan w c = Some ch" using ch(2) by simp
    then have "bt_att_new E S crypto fd ext_signed (empty_world u) =
      do { w \<leftarrow> bt_att_attach_chan E c ?w; w \<leftarrow> bt_att_ref (Some ()) w; Some (Some (), w) }"
      using n Some by (simp add: bt_att_new_def a_def)
    then show ?thesis using ensures_mono [OF at ref] by (simp only: ensures_bind) simp
  qed
qed

end

context att_steady_client
begin

theorem reachable_inv:
  assumes "\<And>K. crypto = Some K \<Longrightarrow> kernel_ok K" "reachable E S crypto w"
  shows "att_inv w"
  using assms(2)
proof (induction rule: reachable.induct)
  case (created fd ext_signed u w)
  then show ?case using created_inv [OF assms(1), of crypto S fd ext_signed u] by simp
next
  case (event w ev w')
  then show ?case using event_inv [of w ev S] by simp
qed

end

end
