(* ===== verification/AttSpec.thy ===== *)
theory AttSpec
  imports AttReach
begin

text \<open>
  The properties of the ATT bearer, \<^verbatim>\<open>bluez/src/shared/att.c\<close>, with a concrete environment in which
  their hypotheses hold.
\<close>

section \<open>A concrete environment\<close>

text \<open>
  A kernel that sends everything, timers with fresh identifiers, no data to read, and sockets that are
  not L2CAP. The client does not react.
\<close>

definition idle_env :: "unit env" where
  "idle_env = \<lparr>client = (\<lambda>c w. Some w), counter = (\<lambda>f ud n. (True, n)), io_send = (\<lambda>fd bs. int (length bs)),
     set_write_handler = (\<lambda>fd. True), timeout_add = free_timer, k_read = (\<lambda>fd n. Some []),
     so_error = (\<lambda>fd. Some 104), get_sec = (\<lambda>fd. Some 1), set_sec = (\<lambda>fd level. True)\<rparr>"

definition local_socket :: socket where
  "local_socket = \<lparr>so_domain = (\<lambda>fd. Some 1), so_protocol = (\<lambda>fd. None), l2cap_omtu = (\<lambda>fd. None),
     bt_sndmtu = (\<lambda>fd. None), l2_bdaddr_type = (\<lambda>fd. Inl 95), io_new = (\<lambda>fd. True),
     io_set_read_handler = (\<lambda>fd. True), io_set_disconnect_handler = (\<lambda>fd. True),
     io_set_close_on_destroy = (\<lambda>fd. True)\<rparr>"

text \<open>A server that answers each request it is notified of with an error response.\<close>

definition refusing :: "client_call \<Rightarrow> 'c world \<Rightarrow> api list" where
  "refusing c w = (case c of CallNotify f ch opcode pdu ud \<Rightarrow> [ChanSendErrorRsp ch opcode 0 6] | _ \<Rightarrow> [])"

definition refusing_env :: "unit env" where
  "refusing_env = env_at 1 (idle_env\<lparr>k_read := (\<lambda>fd n. Some [0x0a, 0x01, 0x00])\<rparr>) local_socket (only_sends refusing)"

lemma refusing_steady: "att_steady_client refusing_env"
  unfolding refusing_env_def by (rule server.att_steady_client_axioms)

text \<open>A bearer on descriptor 3, and the same with a handler for every request.\<close>

definition new_bearer :: "unit env \<Rightarrow> unit world" where
  "new_bearer E = (case bt_att_new E local_socket None 3 False (empty_world ()) of Some (_, w) \<Rightarrow> w | None \<Rightarrow> (empty_world ()))"

definition serving :: "unit env \<Rightarrow> unit world" where
  "serving E = (case run_event E local_socket (EvApi (Register 0 (Some 7) 5 None)) (new_bearer E) of
     Some w \<Rightarrow> w | None \<Rightarrow> (empty_world ()))"

lemma defined_case: "map_option f x = Some y \<Longrightarrow> x = Some (case x of Some w \<Rightarrow> w | None \<Rightarrow> e)"
  by (cases x) simp_all

lemma new_bearer_reachable: "reachable refusing_env local_socket None (new_bearer refusing_env)"
proof (rule reachable.created [where fd = 3 and ext_signed = False])
  have "map_option fst (bt_att_new refusing_env local_socket None 3 False (empty_world ())) = Some (Some ())"
    by code_simp
  then show "bt_att_new refusing_env local_socket None 3 False (empty_world ()) = Some (Some (), new_bearer refusing_env)"
    by (auto simp: new_bearer_def)
qed

lemma serving_reachable: "reachable refusing_env local_socket None (serving refusing_env)"
proof (rule reachable.event [OF new_bearer_reachable])
  have "run_event refusing_env local_socket (EvApi (Register 0 (Some 7) 5 None)) (new_bearer refusing_env) \<noteq> None"
    by code_simp
  then show "run_event refusing_env local_socket (EvApi (Register 0 (Some 7) 5 None)) (new_bearer refusing_env) =
    Some (serving refusing_env)"
    by (auto simp: serving_def)
qed simp

section \<open>Safety\<close>

text \<open>C16. Memory safety of the bearer: in every state that the main loop can reach, every event that can
  happen runs without touching a freed operation, channel, handler or bearer, and without leaving a
  buffer, for a client whose reactions leave the lists of handlers and the MTU alone (locale \<open>att_steady_client\<close>; for
  example every client that only sends). Without that restriction it is false: \<open>unregister_next_handler_dangles\<close>.\<close>

theorem bearer_never_dangles:
  assumes "att_steady_client E" "\<forall>K. crypto = Some K \<longrightarrow> kernel_ok K" "reachable E S crypto w" "enabled ev w"
  shows "\<exists>w'. run_event E S ev w = Some w' \<and> reachable E S crypto w'"
proof -
  have "att_inv w" using att_steady_client.reachable_inv [OF assms(1) _ assms(3)] assms(2) by blast
  then obtain w' where "run_event E S ev w = Some w'"
    using att_steady_client.event_inv [OF assms(1) _ assms(4), of S] by (auto simp: ensures_def)
  with reachable.event [OF assms(3,4)] show ?thesis by blast
qed

theorem bearer_never_dangles_witness:
  "\<exists>w'. run_event refusing_env local_socket (EvRead 1) (serving refusing_env) = Some w' \<and>
     reachable refusing_env local_socket None w'"
proof (rule bearer_never_dangles [OF refusing_steady _ serving_reachable])
  show "enabled (EvRead 1) (serving refusing_env)" by code_simp
qed simp


text \<open>C17. With a client whose reactions leave the lists of handlers and the MTU alone (locale \<open>att_steady_client\<close>), every
  state that the main loop can reach is well formed: each operation is live and in exactly one place, each timer
  belongs to an operation that waits on its channel, identifiers of timers are distinct and not 0, the
  channels are distinct and live with a buffer as long as their MTU, and a reference is held.\<close>

theorem bearer_invariant:
  assumes "att_steady_client E" "\<forall>K. crypto = Some K \<longrightarrow> kernel_ok K" "reachable E S crypto w"
  shows "att_inv w"
  using att_steady_client.reachable_inv [OF assms(1) _ assms(3)] assms(2) by blast

theorem bearer_invariant_witness: "att_inv (new_bearer refusing_env)"
  by (rule bearer_invariant [OF refusing_steady _ new_bearer_reachable]) simp




text \<open>C19. With a client whose reactions leave the lists of handlers and the MTU alone (locale \<open>att_steady_client\<close>), in every
  state that the main loop can reach the operations in the three queues are live; requests are in the request
  queue, indications in the indication queue and everything else in the write queue; the type is that of
  the opcode, the PDU begins with it, is as long as the operation says and fits the MTU; no timer runs.\<close>

theorem queued_operations_typed:
  assumes "att_steady_client E" "\<forall>K. crypto = Some K \<longrightarrow> kernel_ok K" "reachable E S crypto w" "w_att w = Some a"
  shows "\<forall>p \<in> set (req_queue a) \<union> set (ind_queue a) \<union> set (write_queue a). \<exists>op. w_op w p = Some op \<and>
      (op_type op = ATT_OP_TYPE_REQ \<longleftrightarrow> p \<in> set (req_queue a)) \<and>
      (op_type op = ATT_OP_TYPE_IND \<longleftrightarrow> p \<in> set (ind_queue a)) \<and>
      op_type op = get_op_type (op_opcode op) \<and> op_timeout_id op = 0 \<and>
      op_pdu op \<noteq> [] \<and> hd (op_pdu op) = op_opcode op \<and> length (op_pdu op) = unat (op_len op) \<and> op_len op \<le> a_mtu a"
    (is "\<forall>p \<in> _. ?P p")
proof -
  have "att_inv w" using att_steady_client.reachable_inv [OF assms(1) _ assms(3)] assms(2) by blast
  then have wf: "wf_with w a" using assms(4) by (rule att_invD)
  note o = wf_withD(3) [OF wf]
  have d: "x = y" if "p \<in> set (place_ops w a x)" "p \<in> set (place_ops w a y)" for p x y
    using ops_ok_layout [OF o] that unfolding layout_def by blast
  have "?P p" if "p \<in> set (req_queue a)" for p
    using ops_okD [OF o, of p AtReq] that d [of p AtReq AtInd] by (auto simp: op_wf_def)
  moreover have "?P p" if "p \<in> set (ind_queue a)" for p
    using ops_okD [OF o, of p AtInd] that d [of p AtReq AtInd] by (auto simp: op_wf_def)
  moreover have "?P p" if "p \<in> set (write_queue a)" for p
    using ops_okD [OF o, of p AtWrite] that d [of p AtReq AtWrite] d [of p AtInd AtWrite] by (auto simp: op_wf_def)
  ultimately show ?thesis by blast
qed

definition asking :: "unit world" where
  "asking = (case run_event refusing_env local_socket (EvApi (Send 0x0a (Some [1, 0]) 2 (Some 4) 9 None)) (serving refusing_env) of
     Some w \<Rightarrow> w | None \<Rightarrow> (empty_world ()))"

lemma asking_reachable: "reachable refusing_env local_socket None asking"
proof (rule reachable.event [OF serving_reachable])
  have "run_event refusing_env local_socket (EvApi (Send 0x0a (Some [1, 0]) 2 (Some 4) 9 None)) (serving refusing_env) \<noteq> None"
    by code_simp
  then show "run_event refusing_env local_socket (EvApi (Send 0x0a (Some [1, 0]) 2 (Some 4) 9 None)) (serving refusing_env) =
    Some asking" by (auto simp: asking_def)
qed (simp add: arg_ok_def)

theorem queued_operations_typed_witness:
  "\<exists>a. w_att asking = Some a \<and> req_queue a \<noteq> [] \<and>
    (\<forall>p \<in> set (req_queue a). \<exists>op. w_op asking p = Some op \<and> op_type op = ATT_OP_TYPE_REQ)"
proof -
  have "map_option req_queue (w_att asking) = Some [4]" by code_simp
  then obtain a where a: "w_att asking = Some a" "req_queue a = [4]" by auto
  with queued_operations_typed [OF refusing_steady _ asking_reachable a(1)] show ?thesis by fastforce
qed

section \<open>Encoding\<close>

text \<open>The exact bytes of an operation whose length leaves room in 16 bits: opcode, parameters and, for a
  signed opcode with a local key, 12 bytes of signature (12 uninitialised bytes when the bearer has no
  crypto); refused when they do not fit the MTU.\<close>

theorem encoded_operation:
  assumes "keys_ok a" "unat len + 13 < 65536" "unat len \<le> length pdu"
  shows "encode_pdu E a opcode (Some pdu) len = Some (
    let n = pdu_header a opcode + unat len; m = opcode # take (unat len) pdu in
      if unat (a_mtu a) < n then None
      else if is_signed a opcode then map_option (\<lambda>s. (m @ s, of_nat n)) (signature_of E a m)
      else Some (m, of_nat n))"
  by (rule encode_pdu_eq [OF assms])

definition fresh_att :: bt_att where
  "fresh_att = (case w_att (new_bearer idle_env) of Some a \<Rightarrow> a
     | None \<Rightarrow> the (w_att (empty_world ())))"

theorem encoded_operation_witness:
  "encode_pdu idle_env (fresh_att\<lparr>local_sign := Some \<lparr>s_key = replicate 16 1, s_counter = 0, s_user_data = 0\<rparr>\<rparr>)
     0xd2 (Some [3, 0, 0xff, 0xee]) 3 = Some (Some ([0xd2, 3, 0, 0xff] @ replicate 12 0, 16))"
proof -
  let ?a = "fresh_att\<lparr>local_sign := Some \<lparr>s_key = replicate 16 1, s_counter = 0, s_user_data = 0\<rparr>\<rparr>"
  have k: "keys_ok ?a"
  proof -
    have "Option.is_none (a_crypto fresh_att)" "Option.is_none (remote_sign fresh_att)" by code_simp+
    then show ?thesis by (simp add: keys_ok_def Option.is_none_def)
  qed
  have "Option.is_none (a_crypto fresh_att)" by code_simp
  moreover have "a_mtu ?a = 23" "is_signed ?a 0xd2" by code_simp+
  ultimately have c: "a_crypto ?a = None" "a_mtu ?a = 23" "is_signed ?a 0xd2" by (simp_all add: Option.is_none_def)
  then have "pdu_header ?a 0xd2 = 13" by (simp add: pdu_header_def)
  moreover have "signature_of idle_env ?a [0xd2, 3, 0, 0xff] = Some (replicate 12 0)"
    using c(1) by (simp add: signature_of_def)
  moreover have "unat (3 :: u16) = 3" "take 3 [3, 0, 0xff, 0xee :: u8] = [3, 0, 0xff]" by (simp, simp add: numeral_3_eq_3)
  ultimately show ?thesis
    using encoded_operation [OF k, of 3 "[3, 0, 0xff, 0xee]" idle_env "0xd2"] c(2,3)
    by (simp only: Let_def) simp
qed

text \<open>C23. A length whose sum with the header reaches 65536 wraps the 16-bit \<open>pdu_len\<close> around: the check
  against the MTU passes and \<open>encode_pdu\<close> writes outside the buffer it allocated.\<close>

theorem oversized_operation_overruns:
  assumes mtu: "23 \<le> a_mtu a" and len: "65536 \<le> pdu_header a opcode + unat len"
    and one: "\<not> (is_signed a opcode \<and> len = 65524)"
  shows "encode_pdu E a opcode (Some pdu) len = None"
proof -
  have lt: "unat len < 65536" by (rule order_less_le_trans [OF unsigned_less]) simp
  show ?thesis
proof (cases "is_signed a opcode")
  case False
  then have "unat len = 65535" using len lt by (simp add: pdu_header_def)
  then have l: "len = 65535" by (simp add: word_unat_eq_iff)
  have z: "(65536 :: u16) = 0" by (rule word_unat_eq_iff [THEN iffD2]) simp
  have s: "\<not> (local_sign a \<noteq> None \<and> opcode AND ATT_OP_SIGNED_MASK \<noteq> 0)" using False by (simp add: is_signed_def)
  show ?thesis
    unfolding encode_pdu_def Let_def if_not_P [OF s] l by (simp add: z fresh_def wr8_def)
next
  case True
  then have s: "local_sign a \<noteq> None \<and> opcode AND ATT_OP_SIGNED_MASK \<noteq> 0" by (simp add: is_signed_def)
  define k where "k = unat len - 65523"
  have u: "unat len = 65523 + k" "k \<le> 12" using True len lt by (simp_all add: pdu_header_def k_def)
  have "len = of_nat (unat len)" by simp
  then have l: "len = 65523 + of_nat k" unfolding u(1) by simp
  have sum: "(1 :: u16) + of_nat BT_ATT_SIGNATURE_LEN + len = of_nat k"
    unfolding l by (simp add: BT_ATT_SIGNATURE_LEN_def)
  have n0: "len \<noteq> 0" using u(1) by auto
  have uk: "unat (of_nat k :: u16) = k" using u(2) by (simp add: unat_of_nat)
  have "(of_nat k :: u16) < 23" using u(2) uk by (simp add: word_less_nat_alt)
  then have m: "\<not> (of_nat k :: u16) > a_mtu a" using mtu by simp
  have k1: "k \<noteq> 1" using one True l by auto
  have w: "wr8 (fresh k) 0 opcode \<bind> (\<lambda>b. if (of_nat k :: u16) > 1 \<and> len \<noteq> 0
      then (Some pdu) \<bind> (\<lambda>p. memcpy b 1 p 0 (unat len)) else Some b) = None"
  proof (cases "k = 0")
    case True then show ?thesis by (simp add: fresh_def wr8_def)
  next
    case False
    then have "(of_nat k :: u16) > 1" using k1 uk by (simp add: word_less_nat_alt)
    moreover have "memcpy b 1 p 0 (unat len) = None" if "length b = k" for b p
      using memcpy_Some_iff [of b 1 p 0 "unat len"] that u by simp
    ultimately show ?thesis using n0 False by (simp add: wr8_def fresh_def)
  qed
  show ?thesis
    unfolding encode_pdu_def Let_def if_P [OF s]
    using n0 m w by (simp add: sum uk Option.bind_assoc [symmetric] del: Option.bind_assoc)
qed
qed

theorem oversized_operation_overruns_witness:
  "encode_pdu idle_env fresh_att 0x52 (Some [1, 2]) 65535 = None"
proof (rule oversized_operation_overruns)
  show "23 \<le> a_mtu fresh_att" by code_simp
  show "65536 \<le> pdu_header fresh_att 0x52 + unat (65535 :: u16)" by (simp add: pdu_header_def)
qed simp

section \<open>The order of sending\<close>

text \<open>
  The operations that may be sent next on a channel, the first choice first: what was queued on it,
  then the heads of the three queues of the bearer if they fit and, for requests and indications, none
  is waiting for its answer on the channel.
\<close>

definition fits :: "'c world \<Rightarrow> bt_att_chan \<Rightarrow> nat \<Rightarrow> bool" where
  "fits w ch p = (case w_op w p of None \<Rightarrow> False | Some op \<Rightarrow> op_len op \<le> ch_mtu ch)"

definition choices :: "'c world \<Rightarrow> bt_att \<Rightarrow> bt_att_chan \<Rightarrow> nat list" where
  "choices w a ch = ch_queue ch @ filter (fits w ch) (take 1 (write_queue a)) @
     (if pending_req ch = None then filter (fits w ch) (take 1 (req_queue a)) else []) @
     (if pending_ind ch = None then filter (fits w ch) (take 1 (ind_queue a)) else [])"

definition without :: "nat \<Rightarrow> bt_att \<Rightarrow> bt_att" where
  "without p a = a\<lparr>req_queue := remove1 p (req_queue a), ind_queue := remove1 p (ind_queue a),
     write_queue := remove1 p (write_queue a)\<rparr>"

lemma head_fits_eq:
  assumes "wf_with w a" "q = req_queue a \<or> q = ind_queue a \<or> q = write_queue a"
  shows "head_fits q ch w = Some (filter (fits w ch) (take 1 q) \<noteq> [])"
proof (cases q)
  case (Cons p rest)
  then have "p \<in> set q" by simp
  then have "p \<in> set (place_ops w a AtReq) \<or> p \<in> set (place_ops w a AtInd) \<or> p \<in> set (place_ops w a AtWrite)"
    using assms(2) by auto
  then obtain op where "w_op w p = Some op" using ops_okD [OF wf_withD(3) [OF assms(1)]] by blast
  then show ?thesis using Cons by (simp add: head_fits_def fits_def)
qed (simp add: head_fits_def)

lemma filter_take1: "filter P (take 1 q) \<noteq> [] \<Longrightarrow> filter P (take 1 q) = [hd q] \<and> q \<noteq> []"
  by (cases q) (auto split: if_splits)

lemma set_same [simp]:
  "w_att w = Some a \<Longrightarrow> set_att a w = w" "w_chan w c = Some ch \<Longrightarrow> set_chan c ch w = w"
  by (simp_all add: set_att_def set_chan_def fun_upd_idem)

lemma without_write:
  "p \<notin> set (req_queue a) \<Longrightarrow> p \<notin> set (ind_queue a) \<Longrightarrow> without p a = a\<lparr>write_queue := remove1 p (write_queue a)\<rparr>"
  by (cases a) (simp add: without_def remove1_idem)

lemma without_req:
  "p \<notin> set (write_queue a) \<Longrightarrow> p \<notin> set (ind_queue a) \<Longrightarrow> without p a = a\<lparr>req_queue := remove1 p (req_queue a)\<rparr>"
  by (cases a) (simp add: without_def remove1_idem)

lemma without_ind:
  "p \<notin> set (write_queue a) \<Longrightarrow> p \<notin> set (req_queue a) \<Longrightarrow> without p a = a\<lparr>ind_queue := remove1 p (ind_queue a)\<rparr>"
  by (cases a) (simp add: without_def remove1_idem)

lemma remove1_hd: "q \<noteq> [] \<Longrightarrow> remove1 (hd q) q = tl q"
  by (cases q) simp_all

text \<open>C20. The operation sent next is the first of the choices: the channel's own queue, then the write
  queue, then the request queue unless a request waits, then the indication queue unless an indication
  waits, each by its head and only if it fits; that operation leaves its queue and nothing else changes.\<close>

theorem next_operation:
  assumes "att_inv w" "w_att w = Some a" "c \<in> set (chans a)" "w_chan w c = Some ch"
  shows "pick_next_send_op c w = Some (case choices w a ch of
      [] \<Rightarrow> (None, w)
    | p # _ \<Rightarrow> (Some p, set_att (without p a) (set_chan c (ch\<lparr>ch_queue := remove1 p (ch_queue ch)\<rparr>) w)))"
proof -
  have wf: "wf_with w a" by (rule att_invD [OF assms(1,2)])
  note pl = place_ops_of_chan [OF assms(3,4)]
  have d: "x = y" if "p \<in> set (place_ops w a x)" "p \<in> set (place_ops w a y)" for p x y
    using ops_ok_layout [OF wf_withD(3) [OF wf]] that unfolding layout_def by blast
  note hf = head_fits_eq [OF wf]
  show ?thesis
  proof (cases "ch_queue ch")
    case (Cons p q)
    then have p: "p \<in> set (place_ops w a (AtChan c))" using pl by simp
    have "p \<notin> set (req_queue a)" "p \<notin> set (ind_queue a)" "p \<notin> set (write_queue a)"
      using d [OF p, of AtReq] d [OF p, of AtInd] d [OF p, of AtWrite] by auto
    then have "without p a = a" by (simp add: without_def remove1_idem)
    moreover have "w_att (set_chan c x w) = Some a" for x using assms(2) by simp
    ultimately show ?thesis using Cons assms by (simp add: pick_next_send_op_def choices_def)
  next
    case Nil
    let ?W = "filter (fits w ch) (take 1 (write_queue a))"
    let ?R = "filter (fits w ch) (take 1 (req_queue a))"
    let ?I = "filter (fits w ch) (take 1 (ind_queue a))"
    have chan: "set_chan c (ch\<lparr>ch_queue := remove1 p (ch_queue ch)\<rparr>) w = w" for p
    proof -
      have "ch\<lparr>ch_queue := []\<rparr> = ch" using Nil by (cases ch) simp
      then show ?thesis using Nil assms(4) by simp
    qed
    define bW bR bI where b: "bW = (?W \<noteq> [])" "bR = (?R \<noteq> [])" "bI = (?I \<noteq> [])"
    have h: "head_fits (write_queue a) ch w = Some bW" "head_fits (req_queue a) ch w = Some bR"
      "head_fits (ind_queue a) ch w = Some bI" using hf b by simp_all
    have eq: "pick_next_send_op c w = (
      if bW then Some (Some (hd (write_queue a)), set_att (a\<lparr>write_queue := tl (write_queue a)\<rparr>) w)
      else if pending_req ch = None \<and> bR then Some (Some (hd (req_queue a)), set_att (a\<lparr>req_queue := tl (req_queue a)\<rparr>) w)
      else if pending_ind ch = None \<and> bI then Some (Some (hd (ind_queue a)), set_att (a\<lparr>ind_queue := tl (ind_queue a)\<rparr>) w)
      else Some (None, w))"
      unfolding pick_next_send_op_def assms(2,4) bind.bind_lunit Nil list.case h
      by (cases bW; cases bR; cases bI; cases "pending_req ch"; cases "pending_ind ch";
          simp only: simp_thms if_True if_False bind.bind_lunit h option.distinct)
    note eq = eq [unfolded b]
    have wo: "without p a = a\<lparr>write_queue := tl (write_queue a)\<rparr>" if "p = hd (write_queue a)" "write_queue a \<noteq> []" for p
    proof -
      have "p \<in> set (place_ops w a AtWrite)" using that by simp
      from d [OF this, of AtReq] d [OF this, of AtInd] have "p \<notin> set (req_queue a)" "p \<notin> set (ind_queue a)" by auto
      then show ?thesis using without_write remove1_hd [OF that(2)] that(1) by simp
    qed
    have ro: "without p a = a\<lparr>req_queue := tl (req_queue a)\<rparr>" if "p = hd (req_queue a)" "req_queue a \<noteq> []" for p
    proof -
      have "p \<in> set (place_ops w a AtReq)" using that by simp
      from d [OF this, of AtWrite] d [OF this, of AtInd] have "p \<notin> set (write_queue a)" "p \<notin> set (ind_queue a)" by auto
      then show ?thesis using without_req remove1_hd [OF that(2)] that(1) by simp
    qed
    have io: "without p a = a\<lparr>ind_queue := tl (ind_queue a)\<rparr>" if "p = hd (ind_queue a)" "ind_queue a \<noteq> []" for p
    proof -
      have "p \<in> set (place_ops w a AtInd)" using that by simp
      from d [OF this, of AtWrite] d [OF this, of AtReq] have "p \<notin> set (write_queue a)" "p \<notin> set (req_queue a)" by auto
      then show ?thesis using without_ind remove1_hd [OF that(2)] that(1) by simp
    qed
    have res: "?thesis" if "choices w a ch = p # rest" "pick_next_send_op c w = Some (Some p, set_att (without p a) w)" for p rest
      using that chan by simp
    show ?thesis
    proof (cases "?W = []")
      case False
      then have "choices w a ch = hd (write_queue a) #
          (if pending_req ch = None then ?R else []) @ (if pending_ind ch = None then ?I else [])"
        using filter_take1 [OF False] Nil by (simp only: choices_def append.simps)
      then show ?thesis
        by (rule res) (use eq False wo [OF refl] filter_take1 [OF False] in simp)
    next
      case W: True
      show ?thesis
      proof (cases "pending_req ch = None \<and> ?R \<noteq> []")
        case True
        note f = filter_take1 [OF conjunct2 [OF True]]
        then have "choices w a ch = hd (req_queue a) # (if pending_ind ch = None then ?I else [])"
          using W Nil True by (simp only: choices_def append.simps if_True simp_thms)
        then show ?thesis by (rule res) (use eq W True ro [OF refl] f in simp)
      next
        case R: False
        then have R': "(if pending_req ch = None then ?R else []) = []" by auto
        show ?thesis
        proof (cases "pending_ind ch = None \<and> ?I \<noteq> []")
          case True
          note f = filter_take1 [OF conjunct2 [OF True]]
          then have "choices w a ch = hd (ind_queue a) # []"
            using W Nil R' True by (simp only: choices_def append.simps if_True simp_thms)
          then show ?thesis by (rule res) (use eq W R True io [OF refl] f in \<open>simp only: simp_thms if_True if_False\<close>)
        next
          case False
          then have I': "(if pending_ind ch = None then ?I else []) = []" by auto
          have "choices w a ch = []" using W Nil R' I' by (simp only: choices_def append.simps)
          then show ?thesis using eq W R False by (simp only: simp_thms if_False list.case)
        qed
      qed
    qed
  qed
qed

theorem next_operation_witness:
  "\<exists>w'. pick_next_send_op 1 asking = Some (Some 4, w')"
proof -
  have inv: "att_inv asking" by (rule att_steady_client.reachable_inv [OF refusing_steady _ asking_reachable]) simp
  have "map_option chans (w_att asking) = Some [1]" "map_option req_queue (w_att asking) = Some [4]"
    "map_option write_queue (w_att asking) = Some []" "map_option ch_queue (w_chan asking 1) = Some []"
    "map_option pending_req (w_chan asking 1) = Some None"
    "map_option (\<lambda>ch. fits asking ch 4) (w_chan asking 1) = Some True" by code_simp+
  then obtain a ch where "w_att asking = Some a" "w_chan asking 1 = Some ch" "chans a = [1]" "req_queue a = [4]"
    "write_queue a = []" "ch_queue ch = []" "pending_req ch = None" "fits asking ch 4"
    by (auto simp: map_option_eq_Some)
  then show ?thesis using next_operation [OF inv, of a 1 ch] by (auto simp: choices_def)
qed

section \<open>A client that does not react\<close>

definition quiet :: "'c env \<Rightarrow> bool" where
  "quiet E \<longleftrightarrow> (\<forall>c w. client E c w = Some w)"

definition optional :: "func option \<Rightarrow> (func \<Rightarrow> client_call) \<Rightarrow> client_call list" where
  "optional f c = (case f of None \<Rightarrow> [] | Some f \<Rightarrow> [c f])"

definition logs :: "client_call list \<Rightarrow> 'c world \<Rightarrow> 'c world" where
  "logs cs w = w\<lparr>w_calls := w_calls w @ cs\<rparr>"

lemma logs_simps [simp]:
  "w_calls (logs cs w) = w_calls w @ cs" "w_att (logs cs w) = w_att w" "w_chan (logs cs w) = w_chan w"
  "w_op (logs cs w) = w_op w" "w_timers (logs cs w) = w_timers w" "w_next (logs cs w) = w_next w"
  "logs [] w = w" "logs ds (logs cs w) = logs (cs @ ds) w"
  by (simp_all add: logs_def)

lemma quiet_call_if: "quiet E \<Longrightarrow> call_if E f c w = Some (logs (optional f c) w)"
  by (cases f) (simp_all add: call_if_def call_def quiet_def optional_def logs_def)

text \<open>The calls when an operation is answered, and when it is dropped.\<close>

definition dropped :: "att_send_op \<Rightarrow> client_call list" where
  "dropped op = optional (op_destroy op) (\<lambda>d. CallDestroy d (op_user_data op))"

definition answered :: "att_send_op \<Rightarrow> u8 \<Rightarrow> u8 list \<Rightarrow> client_call list" where
  "answered op opcode pdu = optional (op_callback op) (\<lambda>f. CallResponse f opcode pdu (op_user_data op)) @ dropped op"

definition release_op :: "nat \<Rightarrow> att_send_op \<Rightarrow> 'c world \<Rightarrow> 'c world" where
  "release_op p op w = (drop_timer op w)\<lparr>w_op := (w_op w)(p := None)\<rparr>"

lemma release_op_simps [simp]:
  "w_calls (release_op p op w) = w_calls w" "w_att (release_op p op w) = w_att w" "w_chan (release_op p op w) = w_chan w"
  "w_op (release_op p op w) = (w_op w)(p := None)" "w_next (release_op p op w) = w_next w"
  "w_timers (release_op p op w) = (if op_timeout_id op = 0 then w_timers w
     else filter (\<lambda>e. fst e \<noteq> op_timeout_id op) (w_timers w))"
  by (simp_all add: release_op_def drop_timer_def timeout_remove_def)

lemma quiet_destroy:
  "quiet E \<Longrightarrow> w_op w p = Some op \<Longrightarrow> destroy_att_send_op E p w = Some (logs (dropped op) (release_op p op w))"
  by (simp add: destroy_att_send_op_def quiet_call_if dropped_def free_op_def release_op_def drop_timer_def
      timeout_remove_def logs_def)

lemma quiet_disc:
  "quiet E \<Longrightarrow> w_op w p = Some op \<Longrightarrow>
   disc_att_send_op E p w = Some (logs (answered op BT_ATT_OP_ERROR_RSP []) (release_op p op w))"
  by (simp add: disc_att_send_op_def quiet_call_if quiet_destroy answered_def)
    (simp add: release_op_def drop_timer_def timeout_remove_def logs_def)

lemma wakeup_logs:
  assumes "wakeup_chan_writer E c w = Some w'"
  shows "w_calls w' = w_calls w" "w_op w' = w_op w" "w_timers w' = w_timers w"
    "map_option pending_req (w_chan w' c) = map_option pending_req (w_chan w c)"
  using assms by (auto simp: wakeup_chan_writer_def bind_eq_Some_conv set_chan_def split: if_splits)

lemma wakeup_total:
  assumes "w_chan w c = Some ch" "w_att w = Some a"
  shows "\<exists>w'. wakeup_chan_writer E c w = Some w'"
  using assms by (cases "writer_active ch") (simp_all add: wakeup_chan_writer_def)

section \<open>Responses\<close>

text \<open>C21. A response other than an Error Response ends the pending request, with a client that makes no call when it is
  called back: its callback gets the response
  if the opcodes match and an error otherwise, exactly once, the operation is freed, its timer is gone and
  the channel is ready for the next request; without a pending request the channel is shut down.\<close>

theorem response_answers_request:
  assumes "att_inv w" "w_att w = Some a" "c \<in> set (chans a)" "w_chan w c = Some ch"
    and "quiet E" "opcode \<noteq> BT_ATT_OP_ERROR_RSP"
  shows "\<exists>w'. handle_rsp E c opcode pdu w = Some w' \<and> (case pending_req ch of
      None \<Rightarrow> w_calls w' = w_calls w \<and> w_chan w' c = Some (ch\<lparr>ch_io_shut := True\<rparr>)
    | Some p \<Rightarrow> (\<exists>op ch'. w_op w p = Some op \<and> w_op w' p = None \<and> w_chan w' c = Some ch' \<and> pending_req ch' = None \<and>
        (\<forall>e \<in> set (w_timers w'). fst e \<noteq> op_timeout_id op) \<and>
        w_calls w' = w_calls w @ (if get_req_opcode opcode = op_opcode op then answered op opcode pdu
          else answered op BT_ATT_OP_ERROR_RSP [])))"
proof (cases "pending_req ch")
  case None
  then show ?thesis
    using assms(4) by (simp add: handle_rsp_def io_shutdown_def upd_chan_def set_chan_def)
next
  case (Some p)
  have wf: "wf_with w a" by (rule att_invD [OF assms(1,2)])
  have "p \<in> set (place_ops w a (AtPendReq c))" using place_ops_of_chan [OF assms(3,4)] Some by simp
  then obtain op where op: "w_op w p = Some op" "op_wf (a_mtu a) op"
    using ops_okD [OF wf_withD(3) [OF wf]] by blast
  have "get_op_type 0 = ATT_OP_TYPE_UNKNOWN" by code_simp
  then have n0: "op_opcode op \<noteq> 0" using op(2) by (auto simp: op_wf_def)
  have fin: "\<exists>w' ch'. finish_req E c p opc bs w = Some w' \<and> w_op w' p = None \<and> w_chan w' c = Some ch' \<and>
      pending_req ch' = None \<and> (\<forall>e \<in> set (w_timers w'). fst e \<noteq> op_timeout_id op) \<and>
      w_calls w' = w_calls w @ answered op opc bs" for opc bs
  proof -
    let ?w1 = "logs (answered op opc bs) (release_op p op w)"
    let ?w2 = "set_chan c (ch\<lparr>pending_req := None\<rparr>) ?w1"
    have "finish_req E c p opc bs w = wakeup_chan_writer E c ?w2"
      using op(1) assms(4,5)
      by (simp add: finish_req_def quiet_call_if quiet_destroy upd_chan_def answered_def)
        (simp add: release_op_def drop_timer_def timeout_remove_def logs_def)
    moreover obtain w' where "wakeup_chan_writer E c ?w2 = Some w'"
      using wakeup_total [of ?w2 c "ch\<lparr>pending_req := None\<rparr>" a] assms(2) by auto
    moreover note wakeup_logs [OF this]
    moreover have "op_timeout_id op = 0 \<Longrightarrow> \<forall>e \<in> set (w_timers w). fst e \<noteq> 0"
      using wf_withD(4) [OF wf] by (force simp: timers_ok_def)
    ultimately show ?thesis by (auto simp: set_chan_def)
  qed
  show ?thesis
  proof (cases "get_req_opcode opcode = op_opcode op")
    case True
    then have "handle_rsp E c opcode pdu w = finish_req E c p opcode pdu w"
      using op(1) Some assms(4,6) n0 by (simp add: handle_rsp_def)
    then show ?thesis using fin [of opcode pdu] op(1) True Some by auto
  next
    case False
    then have "handle_rsp E c opcode pdu w = finish_req E c p BT_ATT_OP_ERROR_RSP [] w"
      using op(1) Some assms(4,6) n0 by (auto simp: handle_rsp_def)
    then show ?thesis using fin [of BT_ATT_OP_ERROR_RSP "[]"] op(1) False Some by auto
  qed
qed

text \<open>The request of \<open>asking\<close> once it has been sent.\<close>

definition waiting :: "unit world" where
  "waiting = (case run_event refusing_env local_socket (EvWrite 1) asking of Some w \<Rightarrow> w | None \<Rightarrow> (empty_world ()))"

lemma waiting_reachable: "reachable refusing_env local_socket None waiting"
proof (rule reachable.event [OF asking_reachable])
  have "map_option w_calls (run_event refusing_env local_socket (EvWrite 1) asking) = Some []" by code_simp
  then show "run_event refusing_env local_socket (EvWrite 1) asking = Some waiting" unfolding waiting_def by (rule defined_case)
  have "is_chan 1 asking" "w_timers asking = []" by code_simp+
  then show "enabled (EvWrite 1) asking" by (simp only: enabled.simps list.size zero_less_numeral simp_thms)
qed

lemma waiting_inv: "att_inv waiting"
  by (rule att_steady_client.reachable_inv [OF refusing_steady _ waiting_reachable]) simp

lemma idle_quiet: "quiet idle_env"
  by (simp add: quiet_def idle_env_def)

theorem response_answers_request_witness:
  "\<exists>w'. handle_rsp idle_env 1 0x0b [1, 2] waiting = Some w' \<and> w_op w' 4 = None \<and>
     w_calls w' = [CallResponse 4 0x0b [1, 2] 9]"
proof -
  have *: "map_option chans (w_att waiting) = Some [1]" "map_option pending_req (w_chan waiting 1) = Some (Some 4)"
    "map_option (\<lambda>op. answered op 0x0b [1, 2]) (w_op waiting 4) = Some [CallResponse 4 0x0b [1, 2] 9]"
    "map_option op_opcode (w_op waiting 4) = Some 0x0a" "get_req_opcode 0x0b = 0x0a" "w_calls waiting = []"
    by code_simp+
  then obtain a ch where "w_att waiting = Some a" "w_chan waiting 1 = Some ch" "1 \<in> set (chans a)" "pending_req ch = Some 4"
    by (auto simp: map_option_eq_Some)
  with response_answers_request [OF waiting_inv this(1,3,2) idle_quiet, where opcode = "0x0b" and pdu = "[1, 2]"] *
  show ?thesis by (auto simp: BT_ATT_OP_ERROR_RSP_def map_option_eq_Some)
qed

section \<open>Protocol errors\<close>

text \<open>A request that arrives on a channel whose previous request has not been answered shuts the
  channel down: no handler runs, nothing is sent, no operation changes, and the reader stops.\<close>

theorem second_request_shuts_down:
  assumes "att_inv w" "w_att w = Some a" "c \<in> set (chans a)" "w_chan w c = Some ch"
    and "k_read E (ch_fd ch) (ch_mtu ch) = Some (opcode # pdu)" "length pdu < unat (ch_mtu ch)"
    and "get_op_type opcode = ATT_OP_TYPE_REQ" "in_req ch"
  shows "\<exists>w' ch'. can_read_data E c w = Some (False, w') \<and> w_att w' = Some a \<and> w_calls w' = w_calls w \<and>
    w_op w' = w_op w \<and> w_wire w' = w_wire w \<and> w_chan w' c = Some ch' \<and> ch_io_shut ch'"
proof -
  have wf: "wf_with w a" "1 \<le> a_ref_count a" by (rule att_invD [OF assms(1,2)])+
  have len: "length (ch_buf ch) = unat (ch_mtu ch)"
    using wf_with_chan [OF wf(1) assms(3)] assms(4) by (auto simp: chan_ok_def)
  then obtain b where b: "wr_bytes (ch_buf ch) 0 (opcode # pdu) = Some b" using assms(6) by (auto simp: wr_bytes_def)
  let ?ch = "ch\<lparr>ch_buf := b\<rparr>"
  let ?a = "a\<lparr>a_ref_count := a_ref_count a + 1\<rparr>"
  let ?w2 = "set_chan c (?ch\<lparr>ch_io_shut := True\<rparr>) (set_att ?a (set_chan c ?ch w))"
  have "?w2 = set_chan c (?ch\<lparr>ch_io_shut := True\<rparr>) (set_att ?a w)" by (simp add: set_chan_def set_att_def)
  have r: "bt_att_unref E (Some ()) ?w2 = Some (set_att a ?w2)"
    using wf(2) by (simp add: bt_att_unref_def upd_att_def)
  have "can_read_data E c w = Some (False, set_att a ?w2)"
    using assms(2,4,5,7,8) b r
    by (simp add: can_read_data_def bt_att_ref_def upd_att_def io_shutdown_def upd_chan_def)
  then show ?thesis by (simp add: set_chan_def set_att_def)
qed

definition answering :: "unit world" where
  "answering = (case run_event refusing_env local_socket (EvRead 1) (serving refusing_env) of
     Some w \<Rightarrow> w | None \<Rightarrow> (empty_world ()))"

lemma answering_reachable: "reachable refusing_env local_socket None answering"
proof (rule reachable.event [OF serving_reachable])
  have "map_option (\<lambda>w. length (w_calls w)) (run_event refusing_env local_socket (EvRead 1) (serving refusing_env)) = Some 1"
    by code_simp
  then show "run_event refusing_env local_socket (EvRead 1) (serving refusing_env) = Some answering"
    unfolding answering_def by (rule defined_case)
  show "enabled (EvRead 1) (serving refusing_env)" by code_simp
qed

theorem second_request_shuts_down_witness:
  "\<exists>w' ch'. can_read_data refusing_env 1 answering = Some (False, w') \<and> w_calls w' = w_calls answering \<and>
    w_chan w' 1 = Some ch' \<and> ch_io_shut ch'"
proof -
  have inv: "att_inv answering"
    by (rule att_steady_client.reachable_inv [OF refusing_steady _ answering_reachable]) simp
  have "map_option chans (w_att answering) = Some [1]" "map_option in_req (w_chan answering 1) = Some True"
    "map_option ch_mtu (w_chan answering 1) = Some 23"
    "map_option (\<lambda>ch. k_read refusing_env (ch_fd ch) (ch_mtu ch)) (w_chan answering 1) = Some (Some [0x0a, 1, 0])"
    "get_op_type 0x0a = ATT_OP_TYPE_REQ" by code_simp+
  then obtain a ch where "w_att answering = Some a" "w_chan answering 1 = Some ch" "1 \<in> set (chans a)" "in_req ch"
    "ch_mtu ch = 23" "k_read refusing_env (ch_fd ch) (ch_mtu ch) = Some [0x0a, 1, 0]" "get_op_type 0x0a = ATT_OP_TYPE_REQ"
    by (auto simp: map_option_eq_Some)
  with second_request_shuts_down [OF inv this(1,3,2) this(6) _ this(7,4)] show ?thesis by fastforce
qed

section \<open>Signatures that fail\<close>

lemma notify_loop_bad_signature:
  assumes wf: "wf_with w a" and at: "buf_at c at w = Some b"
    and s: "opcode AND ATT_OP_SIGNED_MASK \<noteq> 0" "a_crypto a \<noteq> None" "handle_signed E a b n = Some False"
  shows "addrs (notify_list a) = pre @ suf \<Longrightarrow>
    \<exists>e \<in> set suf. \<exists>h. map_of (notify_list a) e = Some h \<and> opcode_match (ucast (n_opcode h)) opcode \<Longrightarrow>
    notify_loop E c at opcode (first_addr suf) n found w = Some (Returned, w)"
proof (induction suf arbitrary: pre)
  case (Cons e suf)
  have d: "distinct (addrs (notify_list a))" using wf_withD(7) [OF wf] by (simp add: handlers_ok_def addrs_def)
  have nx: "next_entry e (notify_list a) = Some (first_addr suf)" by (rule next_entry_addrs [OF Cons.prems(1) d])
  have "e \<in> set (addrs (notify_list a))" using Cons.prems(1) by simp
  then obtain h where h: "map_of (notify_list a) e = Some h" using map_of_addrs by blast
  have f: "first_addr (e # suf) = Some e" by (simp add: first_addr_def)
  show ?case
  proof (cases "opcode_match (ucast (n_opcode h)) opcode")
    case True
    then show ?thesis
      by (subst notify_loop.simps) (simp add: f wf_withD(1) [OF wf] nx h at s)
  next
    case False
    then have "\<exists>e \<in> set suf. \<exists>h. map_of (notify_list a) e = Some h \<and> opcode_match (ucast (n_opcode h)) opcode"
      using Cons.prems(2) h by auto
    then have "notify_loop E c at opcode (first_addr suf) n found w = Some (Returned, w)"
      using Cons.IH [of "pre @ [e]"] Cons.prems(1) by simp
    then show ?thesis
      using False by (subst notify_loop.simps) (simp add: f wf_withD(1) [OF wf] nx h)
  qed
qed simp

lemma handle_signed_ref [simp]: "handle_signed E (a\<lparr>a_ref_count := n\<rparr>) b k = handle_signed E a b k"
  by (simp add: handle_signed_def cong: if_cong option.case_cong)

text \<open>A signed command that a handler wants and whose signature does not verify is dropped, but the
  return in the middle of the loop skips \<open>bt_att_unref\<close>: the bearer has one reference too many afterwards,
  so a remote device can keep it alive for ever.\<close>

theorem bad_signature_keeps_reference:
  assumes "att_inv w" "w_att w = Some a" "c \<in> set (chans a)" "w_chan w c = Some ch"
    and "k_read E (ch_fd ch) (ch_mtu ch) = Some (opcode # pdu)" "length pdu < unat (ch_mtu ch)"
    and "get_op_type opcode = ATT_OP_TYPE_CMD" "opcode AND ATT_OP_SIGNED_MASK \<noteq> 0" "a_crypto a \<noteq> None"
    and "(e, h) \<in> set (notify_list a)" "opcode_match (ucast (n_opcode h)) opcode"
    and "handle_signed E a ((opcode # pdu) @ drop (Suc (length pdu)) (ch_buf ch)) (Suc (length pdu)) = Some False"
  shows "\<exists>w'. can_read_data E c w = Some (True, w') \<and> w_att w' = Some (a\<lparr>a_ref_count := a_ref_count a + 1\<rparr>) \<and>
    w_calls w' = w_calls w"
proof -
  have wf: "wf_with w a" "1 \<le> a_ref_count a" by (rule att_invD [OF assms(1,2)])+
  have ok: "chan_ok ch" using wf_with_chan [OF wf(1) assms(3)] assms(4) by auto
  define b where "b = (opcode # pdu) @ drop (Suc (length pdu)) (ch_buf ch)"
  have b: "wr_bytes (ch_buf ch) 0 (opcode # pdu) = Some b" "length b = unat (ch_mtu ch)"
    using assms(6) ok by (auto simp: wr_bytes_def chan_ok_def b_def)
  let ?ch = "ch\<lparr>ch_buf := b\<rparr>"
  let ?a = "a\<lparr>a_ref_count := a_ref_count a + 1\<rparr>"
  let ?b = "?a\<lparr>a_ref_count := a_ref_count a + 1 + 1\<rparr>"
  let ?w1 = "set_chan c ?ch w"
  let ?w2 = "set_att ?a ?w1"
  let ?w3 = "set_att ?b ?w2"
  have "chan_ok ?ch" using ok b(2) by (simp add: chan_ok_def)
  then have wf1: "wf_with ?w1 a" by (rule update_chan_runs(1) [OF wf(1) assms(3,4)]) simp_all
  have "wf_with ?w2 ?a" by (rule wf_ref [OF wf1])
  from wf_ref [OF this, of "a_ref_count a + 1 + 1"] have wf3: "wf_with ?w3 ?b" by simp
  have at: "buf_at c (ch_buf_at ch) ?w3 = Some b" by (simp add: buf_at_def)
  have hs: "handle_signed E ?b b (Suc (length pdu)) = Some False"
    using assms(12) by (simp add: b_def)
  have e: "map_of (notify_list ?b) e = Some h" "e \<in> set (addrs (notify_list ?b))"
    using wf_withD(7) [OF wf(1)] assms(10) by (auto simp: handlers_ok_def addrs_def intro: map_of_is_SomeI rev_image_eqI)
  have "notify_loop E c (ch_buf_at ch) opcode (first_addr (addrs (notify_list ?b))) (Suc (length pdu)) False ?w3 =
    Some (Returned, ?w3)"
    by (rule notify_loop_bad_signature [OF wf3 at assms(8) _ hs, of "[]"]) (use assms(9,11) e in auto)
  then have hn: "handle_notify E c (ch_buf_at ch) opcode (Suc (length pdu)) (set_att ?a ?w1) = Some ?w3"
    by (simp add: handle_notify_def bt_att_ref_def upd_att_def first_entry_addrs)
  have u: "bt_att_unref E (Some ()) ?w3 = Some (set_att ?a ?w3)"
    using wf(2) by (simp add: bt_att_unref_def upd_att_def add.commute [of 1])
  have "can_read_data E c w = Some (True, set_att ?a ?w3)"
    using assms(2,4,5,7) b(1) hn u
    by (simp add: can_read_data_def bt_att_ref_def upd_att_def)
  then show ?thesis by (simp add: set_chan_def set_att_def)
qed

text \<open>A bearer with a kernel and a handler for signed writes, but no key of the remote device.\<close>

definition signed_env :: "unit env" where
  "signed_env = refusing_env\<lparr>k_read := (\<lambda>fd n. Some [0xd2, 3, 0, 1])\<rparr>"

definition keyless :: "unit world" where
  "keyless = (case do {
       (_, w) \<leftarrow> bt_att_new refusing_env local_socket (Some toy_kernel) 3 False (empty_world ());
       run_event refusing_env local_socket (EvApi (Register 0xd2 (Some 7) 5 None)) w } of
     Some w \<Rightarrow> w | None \<Rightarrow> (empty_world ()))"

lemma keyless_reachable: "reachable refusing_env local_socket (Some toy_kernel) keyless"
proof -
  let ?new = "bt_att_new refusing_env local_socket (Some toy_kernel) 3 False (empty_world ())"
  let ?reg = "EvApi (Register 0xd2 (Some 7) 5 None)"
  have 1: "map_option fst ?new = Some (Some ())" by code_simp
  have 2: "map_option w_calls (do { (_, w) \<leftarrow> ?new; run_event refusing_env local_socket ?reg w }) = Some []"
    by code_simp
  obtain w where w: "?new = Some (Some (), w)" using 1 by auto
  have r: "run_event refusing_env local_socket ?reg w = Some keyless"
    using defined_case [OF 2, of "empty_world ()"] unfolding keyless_def w by (simp only: bind.bind_lunit prod.case)
  show ?thesis by (rule reachable.event [OF reachable.created [OF w] _ r]) simp
qed

theorem bad_signature_keeps_reference_witness:
  "\<exists>w' a a'. can_read_data signed_env 1 keyless = Some (True, w') \<and> w_att keyless = Some a \<and> w_att w' = Some a' \<and>
    a_ref_count a' = a_ref_count a + 1"
proof -
  have inv: "att_inv keyless"
    by (rule att_steady_client.reachable_inv [OF refusing_steady _ keyless_reachable]) (simp add: toy_kernel_ok)
  have 1: "map_option chans (w_att keyless) = Some [1]" by code_simp
  have 2: "map_option (\<lambda>a. Option.is_none (a_crypto a)) (w_att keyless) = Some False" by code_simp
  have 3: "map_option (\<lambda>a. map (\<lambda>(e, h). (e, n_opcode h)) (notify_list a)) (w_att keyless) = Some [(3, 0xd2)]" by code_simp
  have 4: "map_option ch_mtu (w_chan keyless 1) = Some 23" by code_simp
  have 5: "get_op_type 0xd2 = ATT_OP_TYPE_CMD" "opcode_match (ucast (0xd2 :: u16)) 0xd2" by code_simp+
  obtain a ch where ac: "w_att keyless = Some a" "w_chan keyless 1 = Some ch" "1 \<in> set (chans a)" "ch_mtu ch = 23"
    "a_crypto a \<noteq> None" "map (\<lambda>(e, h). (e, n_opcode h)) (notify_list a) = [(3, 0xd2)]"
    using 1 2 3 4 by (auto simp: map_option_eq_Some Option.is_none_def)
  from ac(6) obtain h where h: "(3, h) \<in> set (notify_list a)" "n_opcode h = 0xd2" by (auto simp: map_eq_Cons_conv)
  have "\<exists>w'. can_read_data signed_env 1 keyless = Some (True, w') \<and>
      w_att w' = Some (a\<lparr>a_ref_count := a_ref_count a + 1\<rparr>) \<and> w_calls w' = w_calls keyless"
    by (rule bad_signature_keeps_reference [where opcode = "0xd2" and pdu = "[3, 0, 1]", OF inv ac(1,3,2) _ _ 5(1) _ ac(5) h(1)])
      (use ac(4) h(2) 5(2) in \<open>simp_all add: signed_env_def ATT_OP_SIGNED_MASK_def handle_signed_def BT_ATT_SIGNATURE_LEN_def\<close>)
  then show ?thesis using ac(1) by auto
qed

section \<open>Disconnection\<close>

definition of_op :: "'c world \<Rightarrow> (att_send_op \<Rightarrow> client_call list) \<Rightarrow> nat \<Rightarrow> client_call list" where
  "of_op w f p = (case w_op w p of None \<Rightarrow> [] | Some op \<Rightarrow> f op)"

definition frees :: "nat list \<Rightarrow> 'c world \<Rightarrow> 'c world \<Rightarrow> bool" where
  "frees ps w w' \<longleftrightarrow> w_op w' = (\<lambda>p. if p \<in> set ps then None else w_op w p) \<and> w_att w' = w_att w \<and> w_chan w' = w_chan w"

lemma quiet_each:
  assumes f: "\<And>p op w. w_op w p = Some op \<Longrightarrow> f p w = Some (logs (g op) (release_op p op w))"
  shows "distinct ps \<Longrightarrow> \<forall>p \<in> set ps. w_op w p \<noteq> None \<Longrightarrow>
    \<exists>w'. each f ps w = Some w' \<and> w_calls w' = w_calls w @ concat (map (of_op w g) ps) \<and> frees ps w w'"
proof (induction ps arbitrary: w)
  case Nil then show ?case by (simp add: frees_def)
next
  case (Cons p ps)
  then obtain op where op: "w_op w p = Some op" by auto
  let ?w = "logs (g op) (release_op p op w)"
  have "\<forall>q \<in> set ps. w_op ?w q \<noteq> None" using Cons.prems by auto
  then obtain w' where w': "each f ps ?w = Some w'" "w_calls w' = w_calls ?w @ concat (map (of_op ?w g) ps)" "frees ps ?w w'"
    using Cons.IH [of ?w] Cons.prems(1) by auto
  have mo: "map (of_op ?w g) ps = map (of_op w g) ps" using Cons.prems(1) by (auto simp: of_op_def)
  have cal: "of_op w g p = g op" using op by (simp add: of_op_def)
  moreover have "frees (p # ps) w w'" using w'(3) by (auto simp: frees_def fun_eq_iff)
  moreover from this have "w_calls w' = w_calls w @ concat (map (of_op w g) (p # ps))"
    using w'(2) cal unfolding mo by simp
  ultimately show ?case using w'(1) op f [OF op] by simp
qed

lemma quiet_each_after:
  assumes f: "\<And>p op w. w_op w p = Some op \<Longrightarrow> f p w = Some (logs (g op) (release_op p op w))"
    and ps: "distinct ps" "set ps \<inter> X = {}" "\<forall>p \<in> set ps. w_op w p \<noteq> None"
    and v: "w_op v = (\<lambda>p. if p \<in> X then None else w_op w p)"
  shows "\<exists>v'. each f ps v = Some v' \<and> w_calls v' = w_calls v @ concat (map (of_op w g) ps) \<and>
    w_op v' = (\<lambda>p. if p \<in> X \<union> set ps then None else w_op w p) \<and> w_att v' = w_att v \<and> w_chan v' = w_chan v"
proof -
  have same: "w_op v p = w_op w p" if "p \<in> set ps" for p using v ps(2) that by auto
  then obtain v' where v': "each f ps v = Some v'" "w_calls v' = w_calls v @ concat (map (of_op v g) ps)" "frees ps v v'"
    using quiet_each [where f = f and g = g and w = v, OF f ps(1)] ps(3) by auto
  moreover have "map (of_op v g) ps = map (of_op w g) ps" using same by (auto simp: of_op_def)
  ultimately show ?thesis using v by (intro exI [of _ v']) (auto simp: frees_def fun_eq_iff simp del: map_eq_conv)
qed

lemma quiet_each_disc:
  assumes "quiet E" "distinct ps" "set ps \<inter> X = {}" "\<forall>p \<in> set ps. w_op w p \<noteq> None"
    "w_op v = (\<lambda>p. if p \<in> X then None else w_op w p)"
  shows "\<exists>v'. each (disc_att_send_op E) ps v = Some v' \<and> w_calls v' = w_calls v @ concat (map (of_op w (\<lambda>op. answered op BT_ATT_OP_ERROR_RSP [])) ps) \<and>
    w_op v' = (\<lambda>p. if p \<in> X \<union> set ps then None else w_op w p) \<and> w_att v' = w_att v \<and> w_chan v' = w_chan v"
  by (rule quiet_each_after [OF quiet_disc [OF assms(1)] assms(2-)])

lemma quiet_each_destroy:
  assumes "quiet E" "distinct ps" "set ps \<inter> X = {}" "\<forall>p \<in> set ps. w_op w p \<noteq> None"
    "w_op v = (\<lambda>p. if p \<in> X then None else w_op w p)"
  shows "\<exists>v'. each (destroy_att_send_op E) ps v = Some v' \<and> w_calls v' = w_calls v @ concat (map (of_op w dropped) ps) \<and>
    w_op v' = (\<lambda>p. if p \<in> X \<union> set ps then None else w_op w p) \<and> w_att v' = w_att v \<and> w_chan v' = w_chan v"
  by (rule quiet_each_after [OF quiet_destroy [OF assms(1)] assms(2-)])

lemma quiet_each_log:
  assumes "\<And>x w. f x w = Some (logs (g x) w)"
  shows "each f xs w = Some (logs (concat (map g xs)) w)"
  using assms by (induction xs arbitrary: w) simp_all

definition told :: "int \<Rightarrow> att_disconn \<Rightarrow> client_call list" where
  "told err d = (if d_removed d then [] else optional (d_callback d) (\<lambda>f. CallDisconnect f err (d_user_data d)))"

definition gone :: "bt_att \<Rightarrow> client_call list" where
  "gone a = concat (map (\<lambda>(_, n). optional (n_destroy n) (\<lambda>d. CallDestroy d (n_user_data n))) (notify_list a)) @
     concat (map (\<lambda>(_, d). optional (d_destroy d) (\<lambda>f. CallDestroy f (d_user_data d))) (disconn_list a))"

lemma quiet_disconn_loop:
  assumes "quiet E" "w_att w = Some a" "distinct (map fst (disconn_list a))"
  shows "disconn_list a = pre @ suf \<Longrightarrow>
    disconn_loop E err (first_entry suf) w = Some (logs (concat (map (told err \<circ> snd) suf)) w)"
  using assms(2)
proof (induction suf arbitrary: pre w)
  case Nil then show ?case by (simp add: first_entry_def disconn_loop_unfold)
next
  case (Cons x suf)
  obtain e d where x: "x = (e, d)" by force
  have ne: "disconn_list a \<noteq> []" using Cons.prems(1) by simp
  have "addrs (disconn_list a) = addrs pre @ e # addrs suf" using Cons.prems(1) x by (simp add: addrs_def)
  then have nx: "next_entry e (disconn_list a) = Some (first_entry suf)"
    using next_entry_addrs [of "disconn_list a" "addrs pre" e "addrs suf"] assms(3)
    by (simp add: addrs_def first_entry_def first_addr_def split: list.splits)
  have m: "map_of (disconn_list a) e = Some d" by (rule map_of_is_SomeI [OF assms(3)]) (simp add: Cons.prems(1) x)
  have h: "disconn_handler E err d w = Some (logs (told err d) w)"
    by (simp add: disconn_handler_def told_def quiet_call_if [OF assms(1)])
  have "disconn_loop E err (first_entry suf) (logs (told err d) w) =
      Some (logs (concat (map (told err \<circ> snd) suf)) (logs (told err d) w))"
    by (rule Cons.IH [of "pre @ [x]"]) (use Cons.prems in simp_all)
  moreover have "first_entry (x # suf) = Some e" by (simp add: first_entry_def x)
  ultimately show ?case
    using Cons.prems(2) ne nx m h x by (simp add: disconn_loop_unfold comp_def)
qed

lemma quiet_unregister_all:
  assumes "quiet E" "w_att w = Some a"
  shows "\<exists>w'. bt_att_unregister_all E (Some ()) w = Some (True, w') \<and> w_calls w' = w_calls w @ gone a \<and>
    w_att w' = Some (a\<lparr>notify_list := [], disconn_list := []\<rparr>) \<and> w_chan w' = w_chan w"
proof -
  have n: "each (destroy_att_notify E) ns w1 =
      Some (logs (concat (map (\<lambda>n. optional (n_destroy n) (\<lambda>d. CallDestroy d (n_user_data n))) ns)) w1)" for ns w1
    by (rule quiet_each_log) (simp add: destroy_att_notify_def quiet_call_if [OF assms(1)])
  have d: "each (destroy_att_disconn E) ds w1 =
      Some (logs (concat (map (\<lambda>d. optional (d_destroy d) (\<lambda>f. CallDestroy f (d_user_data d))) ds)) w1)" for ds w1
    by (rule quiet_each_log) (simp add: destroy_att_disconn_def quiet_call_if [OF assms(1)])
  show ?thesis
    using assms(2) by (simp add: bt_att_unregister_all_def n d gone_def set_att_def case_prod_unfold comp_def)
qed

text \<open>The error that an operation is answered with when its channel is lost.\<close>

abbreviation failed :: "'c world \<Rightarrow> nat \<Rightarrow> client_call list" where
  "failed w \<equiv> of_op w (\<lambda>op. answered op BT_ATT_OP_ERROR_RSP [])"

abbreviation freed :: "nat set \<Rightarrow> 'c world \<Rightarrow> 'c world \<Rightarrow> bool" where
  "freed X w v \<equiv> w_op v = (\<lambda>p. if p \<in> X then None else w_op w p)"

lemma wf_places:
  assumes "wf_with w a"
  shows "p \<in> set (place_ops w a pl) \<Longrightarrow> w_op w p \<noteq> None"
    "p \<in> set (place_ops w a x) \<Longrightarrow> p \<in> set (place_ops w a y) \<Longrightarrow> x = y"
proof -
  show "w_op w p \<noteq> None" if "p \<in> set (place_ops w a pl)"
    using ops_okD [OF wf_withD(3) [OF assms] that] by auto
  show "x = y" if "p \<in> set (place_ops w a x)" "p \<in> set (place_ops w a y)"
    using ops_ok_layout [OF wf_withD(3) [OF assms]] that unfolding layout_def by blast
qed

lemma quiet_drain:
  assumes E: "quiet E" and wf: "wf_with w a" and w1: "w_att w1 = Some a1" "w_op w1 = w_op w"
    and q: "req_queue a1 = req_queue a" "ind_queue a1 = ind_queue a" "write_queue a1 = write_queue a"
  shows "\<exists>v. drain_queues (disc_att_send_op E) w1 = Some v \<and>
    w_calls v = w_calls w1 @ concat (map (failed w) (req_queue a @ ind_queue a @ write_queue a)) \<and>
    freed (set (req_queue a) \<union> set (ind_queue a) \<union> set (write_queue a)) w v \<and>
    w_att v = Some (a1\<lparr>req_queue := [], ind_queue := [], write_queue := []\<rparr>) \<and> w_chan v = w_chan w1"
proof -
  note live = wf_places(1) [OF wf]
  note same = wf_places(2) [OF wf]
  note d1 = wf_distinct [OF wf]
  have l1: "\<forall>p \<in> set (req_queue a). w_op w p \<noteq> None" "\<forall>p \<in> set (ind_queue a). w_op w p \<noteq> None"
    "\<forall>p \<in> set (write_queue a). w_op w p \<noteq> None"
    using live [of _ AtReq] live [of _ AtInd] live [of _ AtWrite] by auto
  let ?b1 = "a1\<lparr>req_queue := []\<rparr>"
  let ?b2 = "?b1\<lparr>ind_queue := []\<rparr>"
  let ?b3 = "?b2\<lparr>write_queue := []\<rparr>"
  obtain v1 where v1: "each (disc_att_send_op E) (req_queue a) (set_att ?b1 w1) = Some v1"
    "w_calls v1 = w_calls w1 @ concat (map (failed w) (req_queue a))"
    "w_op v1 = (\<lambda>p. if p \<in> {} \<union> set (req_queue a) then None else w_op w p)" "w_att v1 = Some ?b1" "w_chan v1 = w_chan w1"
    using quiet_each_disc [OF E d1(1) _ l1(1), of "{}" "set_att ?b1 w1"] w1(2) by (auto simp: set_att_def)
  have x2: "set (ind_queue a) \<inter> ({} \<union> set (req_queue a)) = {}" using same [of _ AtInd AtReq] by auto
  obtain v2 where v2: "each (disc_att_send_op E) (ind_queue a) (set_att ?b2 v1) = Some v2"
    "w_calls v2 = w_calls v1 @ concat (map (failed w) (ind_queue a))"
    "w_op v2 = (\<lambda>p. if p \<in> {} \<union> set (req_queue a) \<union> set (ind_queue a) then None else w_op w p)"
    "w_att v2 = Some ?b2" "w_chan v2 = w_chan w1"
    using quiet_each_disc [OF E d1(2) x2 l1(2), of "set_att ?b2 v1"] v1(3-5) by (auto simp: set_att_def)
  have x3: "set (write_queue a) \<inter> ({} \<union> set (req_queue a) \<union> set (ind_queue a)) = {}"
    using same [of _ AtWrite AtReq] same [of _ AtWrite AtInd] by auto
  obtain v3 where v3: "each (disc_att_send_op E) (write_queue a) (set_att ?b3 v2) = Some v3"
    "w_calls v3 = w_calls v2 @ concat (map (failed w) (write_queue a))"
    "w_op v3 = (\<lambda>p. if p \<in> {} \<union> set (req_queue a) \<union> set (ind_queue a) \<union> set (write_queue a) then None else w_op w p)"
    "w_att v3 = Some ?b3" "w_chan v3 = w_chan w1"
    using quiet_each_disc [OF E d1(3) x3 l1(3), of "set_att ?b3 v2"] v2(3-5) by (auto simp: set_att_def)
  have dr: "drain_queues (disc_att_send_op E) w1 = Some v3"
    using v1(1,4) v2(1,4) v3(1) w1(1) by (simp add: drain_queues_def q)
  then show ?thesis using v1(2) v2(2) v3(2-5) by simp
qed

lemma quiet_pending:
  assumes E: "quiet E" and v: "freed X w v" "w_chan v c = Some h"
    and x: "\<And>p. x = Some p \<Longrightarrow> w_op w p \<noteq> None \<and> p \<notin> X"
  shows "\<exists>v'. (case x of None \<Rightarrow> Some v | Some p \<Rightarrow> do { v \<leftarrow> disc_att_send_op E p v; upd_chan c clr v }) = Some v' \<and>
    w_calls v' = w_calls v @ concat (map (failed w) (opt_list x)) \<and> freed (X \<union> set (opt_list x)) w v' \<and>
    w_att v' = w_att v \<and> w_chan v' c = Some (if x = None then h else clr h)"
proof (cases x)
  case None then show ?thesis using v by simp
next
  case (Some p)
  obtain v' where v': "each (disc_att_send_op E) [p] v = Some v'" "w_calls v' = w_calls v @ concat (map (failed w) [p])"
    "w_op v' = (\<lambda>q. if q \<in> X \<union> set [p] then None else w_op w q)" "w_att v' = w_att v" "w_chan v' = w_chan v"
    using quiet_each_disc [OF E, of "[p]" X w v] v(1) x [OF Some] by auto
  then have "disc_att_send_op E p v = Some v'" by (cases "disc_att_send_op E p v") simp_all
  then show ?thesis using v' v(2) Some by (simp add: upd_chan_def set_chan_def)
qed

lemma quiet_last_disconnect:
  assumes E: "quiet E" and v: "w_att v = Some b" "distinct (map fst (disconn_list b))" and ref: "1 \<le> a_ref_count b"
  shows "\<exists>v'. do {
       w \<leftarrow> bt_att_ref (Some ()) v;
       a \<leftarrow> w_att w;
       w \<leftarrow> disconn_loop E err (first_entry (disconn_list a)) w;
       (_, w) \<leftarrow> bt_att_unregister_all E (Some ()) w;
       bt_att_unref E (Some ()) w } = Some v' \<and>
     w_calls v' = w_calls v @ concat (map (told err \<circ> snd) (disconn_list b)) @ gone b \<and> w_chan v' = w_chan v"
proof -
  let ?b1 = "b\<lparr>a_ref_count := a_ref_count b + 1\<rparr>"
  let ?v1 = "set_att ?b1 v"
  let ?v2 = "logs (concat (map (told err \<circ> snd) (disconn_list b))) ?v1"
  have l: "disconn_loop E err (first_entry (disconn_list b)) ?v1 = Some ?v2"
    using quiet_disconn_loop [OF E, of ?v1 ?b1 "[]" "disconn_list b" err] v(2) by simp
  obtain v3 where v3: "bt_att_unregister_all E (Some ()) ?v2 = Some (True, v3)" "w_calls v3 = w_calls ?v2 @ gone ?b1"
    "w_att v3 = Some (?b1\<lparr>notify_list := [], disconn_list := []\<rparr>)" "w_chan v3 = w_chan ?v2"
    using quiet_unregister_all [OF E, of ?v2 ?b1] by auto
  have "gone ?b1 = gone b" by (simp add: gone_def)
  moreover have "bt_att_unref E (Some ()) v3 =
      Some (set_att (?b1\<lparr>notify_list := [], disconn_list := [], a_ref_count := a_ref_count b\<rparr>) v3)"
    using v3(3) ref by (simp add: bt_att_unref_def upd_att_def)
  ultimately show ?thesis
    using v(1) v3(1,2,4) l by (simp add: bt_att_ref_def upd_att_def) (simp add: set_att_def)
qed

definition so_err :: "'c env \<Rightarrow> bt_att_chan \<Rightarrow> int" where
  "so_err E ch = (case so_error E (ch_fd ch) of None \<Rightarrow> 0 | Some e \<Rightarrow> e)"

text \<open>C22. When a channel disconnects, with a client that makes no call when it is called back, every operation that is
  queued at the bearer or waits for an answer on the channel is answered with an error, once and in the order of
  the queues, and destroyed; what is in the channel's own queue is only destroyed, without an answer; and if it was the last channel, every disconnect handler that was
  not removed is told and all handlers are destroyed. Nothing else is called.\<close>

theorem disconnection_answers_all:
  assumes "att_inv w" "w_att w = Some a" "c \<in> set (chans a)" "w_chan w c = Some ch" "quiet E"
  shows "\<exists>w'. disconnect_cb E c w = Some w' \<and> w_chan w' c = None \<and>
    w_calls w' = w_calls w @ concat (map (failed w)
        (req_queue a @ ind_queue a @ write_queue a @ opt_list (pending_req ch) @ opt_list (pending_ind ch))) @
      concat (map (of_op w dropped) (ch_queue ch)) @
      (if chans a = [c] then concat (map (told (so_err E ch) \<circ> snd) (disconn_list a)) @ gone a else [])"
proof -
  have wf: "wf_with w a" "1 \<le> a_ref_count a" by (rule att_invD [OF assms(1,2)])+
  define a1 where "a1 = a\<lparr>chans := remove1 c (chans a)\<rparr>"
  define w1 where "w1 = set_att a1 w"
  note live = wf_places(1) [OF wf(1)]
  note same = wf_places(2) [OF wf(1)]
  note pl = place_ops_of_chan [OF assms(3,4)]
  let ?b3 = "a1\<lparr>req_queue := [], ind_queue := [], write_queue := []\<rparr>"
  let ?q3 = "set (req_queue a) \<union> set (ind_queue a) \<union> set (write_queue a)"
  obtain v3 where dr: "drain_queues (disc_att_send_op E) w1 = Some v3" and
    v3: "w_calls v3 = w_calls w @ concat (map (failed w) (req_queue a @ ind_queue a @ write_queue a))"
    "freed ?q3 w v3" "w_att v3 = Some ?b3" "w_chan v3 = w_chan w"
    using quiet_drain [OF assms(5) wf(1), of w1 a1] by (auto simp: w1_def a1_def set_att_def)
  have pr: "w_op w p \<noteq> None \<and> p \<notin> ?q3" if "pending_req ch = Some p" for p
  proof -
    have P: "p \<in> set (place_ops w a (AtPendReq c))" using that pl by simp
    show ?thesis
      using live [OF P] same [OF P, of AtReq] same [OF P, of AtInd] same [OF P, of AtWrite] by auto
  qed
  let ?c1 = "\<lambda>ch. ch\<lparr>pending_req := None\<rparr>"
  obtain v4 where v4: "(case pending_req ch of None \<Rightarrow> Some v3 | Some p \<Rightarrow> do { v \<leftarrow> disc_att_send_op E p v3; upd_chan c ?c1 v }) = Some v4"
    "w_calls v4 = w_calls v3 @ concat (map (failed w) (opt_list (pending_req ch)))"
    "w_op v4 = (\<lambda>p. if p \<in> ?q3 \<union> set (opt_list (pending_req ch)) then None else w_op w p)" "w_att v4 = Some ?b3"
    "w_chan v4 c = Some (if pending_req ch = None then ch else ?c1 ch)"
    using quiet_pending [OF assms(5) v3(2), of c ch "pending_req ch" ?c1] v3(3,4) assms(4) pr by auto
  let ?q4 = "?q3 \<union> set (opt_list (pending_req ch))"
  let ?h4 = "if pending_req ch = None then ch else ?c1 ch"
  have h4: "pending_ind ?h4 = pending_ind ch" "pending_req ?h4 = None" "ch_queue ?h4 = ch_queue ch" by simp_all
  have pi: "w_op w p \<noteq> None \<and> p \<notin> ?q4" if "pending_ind ch = Some p" for p
  proof -
    have P: "p \<in> set (place_ops w a (AtPendInd c))" using that pl by simp
    have "p \<notin> set (place_ops w a (AtPendReq c))" using same [OF P] by blast
    then show ?thesis
      using live [OF P] same [OF P, of AtReq] same [OF P, of AtInd] same [OF P, of AtWrite] unfolding pl(2) by auto
  qed
  let ?c2 = "\<lambda>ch. ch\<lparr>pending_ind := None\<rparr>"
  obtain v5 where v5: "(case pending_ind ch of None \<Rightarrow> Some v4 | Some p \<Rightarrow> do { v \<leftarrow> disc_att_send_op E p v4; upd_chan c ?c2 v }) = Some v5"
    "w_calls v5 = w_calls v4 @ concat (map (failed w) (opt_list (pending_ind ch)))"
    "w_op v5 = (\<lambda>p. if p \<in> ?q4 \<union> set (opt_list (pending_ind ch)) then None else w_op w p)" "w_att v5 = Some ?b3"
    "w_chan v5 c = Some (if pending_ind ch = None then ?h4 else ?c2 ?h4)"
    using quiet_pending [OF assms(5) v4(3) v4(5), of "pending_ind ch" ?c2] v4(4) pi by auto
  let ?q5 = "?q4 \<union> set (opt_list (pending_ind ch))"
  let ?h5 = "if pending_ind ch = None then ?h4 else ?c2 ?h4"
  have h5: "pending_ind ?h5 = None" "pending_req ?h5 = None" "ch_queue ?h5 = ch_queue ch" by simp_all
  have x6: "set (ch_queue ch) \<inter> ?q5 = {}"
  proof -
    have "p \<notin> ?q5" if p: "p \<in> set (ch_queue ch)" for p
    proof -
      have P: "p \<in> set (place_ops w a (AtChan c))" using p pl by simp
      have "p \<notin> set (place_ops w a (AtPendReq c))" "p \<notin> set (place_ops w a (AtPendInd c))"
        using same [OF P] by blast+
      then show ?thesis
        using same [OF P, of AtReq] same [OF P, of AtInd] same [OF P, of AtWrite] unfolding pl(2,3) by auto
    qed
    then show ?thesis by blast
  qed
  have l6: "\<forall>p \<in> set (ch_queue ch). w_op w p \<noteq> None" using live [of _ "AtChan c"] pl(1) by auto
  obtain v6 where v6: "each (destroy_att_send_op E) (ch_queue ch) (set_chan c (?h5\<lparr>ch_queue := []\<rparr>) v5) = Some v6"
    "w_calls v6 = w_calls v5 @ concat (map (of_op w dropped) (ch_queue ch))" "w_att v6 = Some ?b3"
    "w_chan v6 c = Some (?h5\<lparr>ch_queue := []\<rparr>)"
    using quiet_each_destroy [OF assms(5) wf_distinct_chan [OF wf(1) assms(3,4)] x6 l6,
        of "set_chan c (?h5\<lparr>ch_queue := []\<rparr>) v5"] v5(3,4) by (auto simp: set_chan_def)
  let ?v7 = "v6\<lparr>w_chan := (w_chan v6)(c := None)\<rparr>"
  have fr: "bt_att_chan_free E c v5 = Some ?v7"
    unfolding bt_att_chan_free_def v5(5) bind.bind_lunit h5 using v6(1,4) by (simp add: on_some_def v5(5) h5)
  have chans1: "chans ?b3 = [] \<longleftrightarrow> chans a = [c]"
    using wf_withD(2) [OF wf(1)] assms(3) by (cases "chans a") (auto simp: a1_def chans_ok_def)
  have pre: "disconnect_cb E c w = do {
     a \<leftarrow> w_att ?v7;
     if chans a \<noteq> [] then Some ?v7
     else do {
       w \<leftarrow> bt_att_ref (Some ()) ?v7;
       a \<leftarrow> w_att w;
       w \<leftarrow> disconn_loop E (so_err E ch) (first_entry (disconn_list a)) w;
       (_, w) \<leftarrow> bt_att_unregister_all E (Some ()) w;
       bt_att_unref E (Some ()) w } }"
  proof -
    have u: "upd_att (\<lambda>a. a\<lparr>chans := remove1 c (chans a)\<rparr>) w = Some w1" by (simp add: upd_att_def assms(2) w1_def a1_def)
    have c3: "w_chan v3 c = Some ch" using v3(4) assms(4) by simp
    show ?thesis
      unfolding disconnect_cb_def assms(4) bind.bind_lunit Let_def so_err_def [symmetric] u dr c3 v4(1) v5(1) fr
        v4(5) h4 by (rule refl)
  qed
  have calls6: "w_calls ?v7 = w_calls w @ concat (map (failed w)
        (req_queue a @ ind_queue a @ write_queue a @ opt_list (pending_req ch) @ opt_list (pending_ind ch))) @
      concat (map (of_op w dropped) (ch_queue ch))"
    using v3(1) v4(2) v5(2) v6(2) by simp
  show ?thesis
  proof (cases "chans a = [c]")
    case False
    then have "disconnect_cb E c w = Some ?v7" using chans1 v6(3) by (simp add: pre)
    then show ?thesis using calls6 False by simp
  next
    case True
    have b3: "disconn_list ?b3 = disconn_list a" "gone ?b3 = gone a" "a_ref_count ?b3 = a_ref_count a"
      by (simp_all add: a1_def gone_def)
    have "w_att ?v7 = Some ?b3" using v6(3) by simp
    moreover have "distinct (map fst (disconn_list ?b3))" "1 \<le> a_ref_count ?b3"
      using wf_withD(7) [OF wf(1)] wf(2) by (simp_all only: handlers_ok_def b3)
    ultimately obtain v8 where "disconnect_cb E c w = Some v8"
      "w_calls v8 = w_calls ?v7 @ concat (map (told (so_err E ch) \<circ> snd) (disconn_list ?b3)) @ gone ?b3"
      "w_chan v8 = w_chan ?v7"
      using quiet_last_disconnect [OF assms(5), of ?v7 ?b3 "so_err E ch"] True chans1 v6(3) by (auto simp: pre)
    then show ?thesis using calls6 True b3 by simp
  qed
qed

theorem disconnection_answers_all_witness:
  "\<exists>w'. disconnect_cb idle_env 1 waiting = Some w' \<and> w_chan w' 1 = None \<and> w_calls w' = [CallResponse 4 0x01 [] 9]"
proof -
  have *: "map_option chans (w_att waiting) = Some [1]"
    "map_option (\<lambda>a. req_queue a @ ind_queue a @ write_queue a) (w_att waiting) = Some []"
    "map_option disconn_list (w_att waiting) = Some []" "map_option gone (w_att waiting) = Some []"
    "map_option pending_req (w_chan waiting 1) = Some (Some 4)" "map_option pending_ind (w_chan waiting 1) = Some None"
    "map_option ch_queue (w_chan waiting 1) = Some []" "failed waiting 4 = [CallResponse 4 0x01 [] 9]" "w_calls waiting = []"
    by code_simp+
  then obtain a ch where ac: "w_att waiting = Some a" "w_chan waiting 1 = Some ch" "chans a = [1]"
    "req_queue a @ ind_queue a @ write_queue a = []" "disconn_list a = []" "gone a = []"
    "pending_req ch = Some 4" "pending_ind ch = None" "ch_queue ch = []"
    by (auto simp: map_option_eq_Some)
  then have "1 \<in> set (chans a)" by simp
  from disconnection_answers_all [OF waiting_inv ac(1) this ac(2) idle_quiet] show ?thesis
    using ac(3-9) *(8,9) by (simp add: append_eq_Cons_conv)
qed

section \<open>What a client must not do\<close>

definition two_requests :: "event list" where
  "two_requests =
     [EvApi (ChanSend 1 0x0a (Some [1, 0]) 2 (Some 4) 9 None), EvWrite 1,
      EvApi (ChanSend 1 0x0a (Some [2, 0]) 2 (Some 4) 10 None), EvWrite 1, EvHangup 1]"

text \<open>Two requests sent through \<open>bt_att_chan_send\<close>: the second overwrites \<open>pending_req\<close>, so the first is
  never answered nor freed, not even when the channel disconnects; and when its timer expires after that,
  \<open>timeout_cb\<close> uses the freed channel.\<close>

theorem channel_request_lost:
  "map_option (\<lambda>w. (w_calls w, map_option op_user_data (w_op w 3), w_timers w))
     (run_events idle_env local_socket two_requests (new_bearer idle_env)) =
   Some ([CallResponse 4 BT_ATT_OP_ERROR_RSP [] 10], Some 9, [(1, 1, 0)]) \<and>
   run_events idle_env local_socket (two_requests @ [EvTimer 1 1 0]) (new_bearer idle_env) = None"
proof
  show "map_option (\<lambda>w. (w_calls w, map_option op_user_data (w_op w 3), w_timers w))
     (run_events idle_env local_socket two_requests (new_bearer idle_env)) =
   Some ([CallResponse 4 BT_ATT_OP_ERROR_RSP [] 10], Some 9, [(1, 1, 0)])"
    by code_simp
  have "Option.is_none (run_events idle_env local_socket (two_requests @ [EvTimer 1 1 0]) (new_bearer idle_env))"
    by code_simp
  then show "run_events idle_env local_socket (two_requests @ [EvTimer 1 1 0]) (new_bearer idle_env) = None"
    by (simp only: Option.is_none_def)
qed

definition unregisters_next :: "client_call \<Rightarrow> 'c world \<Rightarrow> api list" where
  "unregisters_next c w = (case c of CallNotify f ch opcode pdu ud \<Rightarrow> [Unregister 2] | _ \<Rightarrow> [])"

text \<open>A notification handler that unregisters the handler after it: \<open>handle_notify\<close> has read the next
  entry before it called the handler, and uses the freed entry.\<close>

theorem unregister_next_handler_dangles:
  "run_events (env_at 1 (idle_env\<lparr>k_read := (\<lambda>fd n. Some [0x52, 1, 0, 7])\<rparr>) local_socket unregisters_next) local_socket
     [EvApi (Register 0x52 (Some 7) 5 None), EvApi (Register 0x52 (Some 8) 6 None), EvRead 1] (new_bearer idle_env) = None"
proof -
  have "Option.is_none (run_events (env_at 1 (idle_env\<lparr>k_read := (\<lambda>fd n. Some [0x52, 1, 0, 7])\<rparr>) local_socket unregisters_next)
    local_socket [EvApi (Register 0x52 (Some 7) 5 None), EvApi (Register 0x52 (Some 8) 6 None), EvRead 1] (new_bearer idle_env))"
    by code_simp
  then show ?thesis by (simp only: Option.is_none_def)
qed

end
