(* ===== verification/LibBleSpec.thy ===== *)
theory LibBleSpec
  imports LibWrite LibNotify AttSpec
begin

text \<open>
  What the library promises to an application, from the interface of \<^verbatim>\<open>libble.c\<close> down to the packets on
  the wire, and where the code falls short of it. The first section sets up a concrete environment for the
  witnesses.
\<close>

section \<open>A concrete environment\<close>

text \<open>An environment in which every call succeeds, and a device that has begun to connect.\<close>

definition no_calls :: "ble_event \<Rightarrow> lworld \<Rightarrow> lble_op list" where "no_calls ev w = []"

lemma no_calls [simp]: "makes_no_call no_calls ev"
  by (simp add: makes_no_call_def no_calls_def)

definition demo_env :: lenv where
  "demo_env = \<lparr>bearer = \<lparr>client = (\<lambda>c w. Some w), counter = (\<lambda>f ud n. (True, n)), io_send = (\<lambda>fd bs. 1),
     set_write_handler = (\<lambda>fd. True), timeout_add = free_timer, k_read = (\<lambda>fd n. Some []),
     so_error = (\<lambda>fd. Some 104), get_sec = (\<lambda>fd. Some 1), set_sec = (\<lambda>fd level. True)\<rparr>, upper = (\<lambda>_ _. None),
     sockets = local_socket, crypto_new = None, swap_128 = rev, uninit_len = 0\<rparr>"

definition demo_io :: ble_io where
  "demo_io = \<lparr>io_connect = (\<lambda>_. (None, Some 3)), io_get = (\<lambda>fd. Inr (23, 4))\<rparr>"

definition demo_device :: devh where
  "demo_device = \<lparr>conn_state = STATE_CONNECTING, d_iochannel = Some 3, d_attrib = None, d_evh = Some 7, d_user_data = 0\<rparr>"

definition demo_connecting :: lworld where
  "demo_connecting = set_dev demo_device initial"

lemma demo_connecting:
  "run_all 2 demo_io demo_env no_calls [Op (OpSetHandler (Some 7)), Op (OpConnect ''dev'')] (snd (lble_newdev initial)) =
     Some (upd_ls (\<lambda>s. s\<lparr>l_events := [BleEvent 7 EVENT_INTERNAL STATE_CHANGED 1 (StateData STATE_CONNECTING)]\<rparr>) demo_connecting)"
  by (simp add: demo_connecting_def demo_device_def initial_def lble_newdev_def set_dev_def upd_ls_def upd_ts_def upd_gs_def
      lble_set_event_handler_def upd_dev_def the_dev_def lst_def lble_connect_def emit_state_def emit_def evh_def call_app_def
      gatt_connect_def demo_io_def numeral_2_eq_2 no_calls_def empty_world_def)

lemma demo_facts [simp]:
  "l_dev (lst demo_connecting) = Some demo_device" "conn_state demo_device = STATE_CONNECTING" "d_iochannel demo_device = Some 3"
  "d_evh demo_device = Some 7" "attrib_closed (w_user demo_connecting)" "le_socket (sockets demo_env) 3"
  "io_get demo_io fd = Inr (23, 4)" "writable demo_env fd" "w_next demo_connecting = 1"
  by (simp_all add: demo_connecting_def demo_device_def initial_def set_dev_def lst_def upd_ls_def upd_ts_def upd_gs_def attrib_closed_def
      demo_env_def local_socket_def le_socket_def io_get_type_def is_io_l2cap_based_def AF_BLUETOOTH_def demo_io_def writable_def empty_world_def)

text \<open>The watch of the channel serves one condition; what comes later is not seen.\<close>

definition data_event :: "func \<Rightarrow> u32 \<Rightarrow> ble_event list" where
  "data_event f cond = (if cond = G_IO_IN \<or> cond = G_IO_PRI then [BleEvent f EVENT_INTERNAL DATA_TO_READ 8 DeviceMemory]
     else if cond = G_IO_OUT then [BleEvent f EVENT_INTERNAL DATA_TO_WRITE 8 DeviceMemory] else [])"

lemma demo_session: "\<exists>w. run_sys 2 demo_io demo_env no_calls (Connected 3 None) demo_connecting = Some w \<and> session 23 1 3 7 w \<and>
    l_watch (lst w)"
  using connect_opens [of demo_connecting demo_device 3 7 demo_env 3 demo_io 23 4 23 no_calls 2] by (auto simp: ATT_CID_def)


lemma demo_unregistered:
  "map_option unregistered (run_sys 2 demo_io demo_env no_calls (Connected 3 None) demo_connecting) = Some True"
  by code_simp

text \<open>A device whose handler disconnects when a value arrives.\<close>

definition disconnecting :: "ble_event \<Rightarrow> lworld \<Rightarrow> lble_op list" where
  "disconnecting ev w = (case ev of BleEvent f k h l d \<Rightarrow> if k = EVENT_DEVICE then [OpDisconnect] else [])"

lemma enc_write_cmd_in:
  assumes "3 \<le> L" "L \<le> length b" and "L < 65536" and "length v < 65536"
  shows "encodes (enc_write_cmd h (Some v) (of_nat (length v)) (Some b) (of_nat L)) (wire (WriteCmd h (take (L - 3) v))) b"
  using assms by (auto simp add: enc_write_cmd_def enc_simps)

text \<open>The bearer refuses an operation: the record made for it stays, and the caller's identifier comes back.\<close>

lemma same_callbacks: "same_attrib s s' \<Longrightarrow> map_option callbacks (gs_attrib s') = map_option callbacks (gs_attrib s)"
  by (auto simp: same_attrib_def)

lemma refused_send:
  assumes inv: "attrib_inv (w_user w)" and b: "b \<noteq> []" "len \<noteq> 0" "f \<noteq> None \<or> d \<noteq> None"
    and ref: "\<And>w1 n. w_att w1 = w_att w \<Longrightarrow> bt_att_send (bearer G) (Some ()) (hd b) (Some (tl b)) (len - 1) (Some attrib_callback_result_fn) n
      (Some attrib_callbacks_remove_fn) w1 = Some (0, w1)"
  shows "\<exists>s g y. g_attrib_send G (Some ()) i (Some b) len f ud d w = Some (i, w\<lparr>w_user := s\<rparr>) \<and> gs_attrib s = Some g \<and>
    map_option callbacks (gs_attrib (w_user w)) = Some (tl (callbacks g)) \<and>
    gs_cb s (hd (callbacks g)) = Some y \<and> result_func y = f \<and> destroy_func y = d \<and> gs_user s = gs_user (w_user w)"
proof -
  from inv obtain g where g: "gs_attrib (w_user w) = Some g" "g_att g = Some ()" and n: "1 \<le> gs_next (w_user w)"
    unfolding attrib_inv_def by blast
  let ?n = "gs_next (w_user w)"
  let ?cb = "\<lparr>cb_id = None, result_func = f, notify_func = None, destroy_func = d, cb_user_data = ud, notify_handle = 0\<rparr>"
  let ?g = "g\<lparr>callbacks := ?n # callbacks g\<rparr>"
  let ?w1 = "set_attrib ?g (snd (new_cb ?cb w))"
  let ?s = "(w_user w)\<lparr>gs_cb := (gs_cb (w_user w))(?n := Some (?cb\<lparr>cb_id := Some (Suc ?n)\<rparr>)), gs_next := Suc (Suc ?n),
    gs_attrib := Some (?g\<lparr>track_ids := track_ids g @ [Suc ?n]\<rparr>), gs_id := (gs_id (w_user w))(Suc ?n := Some \<lparr>org_id = i, pend_id = 0\<rparr>)\<rparr>"
  have wa: "w_att ?w1 = w_att w" by (simp add: gs_defs Let_def)
  from b(1) obtain opc params where bb: "b = opc # params" by (cases b) auto
  have r: "bt_att_send (bearer G) (Some ()) opc (Some params) (len - 1) (Some attrib_callback_result_fn) ?n
      (Some attrib_callbacks_remove_fn) ?w1 = Some (0, ?w1)" using ref [OF wa] by (simp add: bb)
  have "g_attrib_send G (Some ()) i (Some b) len f ud d w = Some (i, w\<lparr>w_user := ?s\<rparr>)"
    using g n b(2,3) r by (simp add: g_attrib_send_def gs_defs Let_def rd8_def upd_gs_def bb)
  then show ?thesis using g(1) by (intro exI [of _ ?s] exI [of _ "?g\<lparr>track_ids := track_ids g @ [Suc ?n]\<rparr>"] exI [of _ "?cb\<lparr>cb_id := Some (Suc ?n)\<rparr>"]) simp
qed


section \<open>Other behaviour\<close>

theorem request_without_channel_reported_sent:
  assumes inv: "attrib_inv (w_user w)" and b: "b \<noteq> []" "len \<noteq> 0" and a: "w_att w = Some a" "chans a = []"
  shows "\<exists>s. g_attrib_send G (Some ()) i (Some b) len (Some f) ud d w = Some (i, w\<lparr>w_user := s\<rparr>)"
  using refused_send [OF inv b, of "Some f" d G i ud] a by (auto simp: bt_att_send_def)

theorem empty_value_no_event:
  assumes "l_req (lst w) ud = Some x" "l_dev (lst w) = Some d"
  shows "\<exists>w'. char_read_cb A 0 [0x0B] 1 ud w = Some w' \<and> l_events (lst w') = l_events (lst w) \<and> l_req (lst w') ud = None"
proof -
  have "char_read_cb A 0 [0x0B] 1 ud w = Some (upd_ls (\<lambda>s. s\<lparr>l_req := (l_req s)(ud := None)\<rparr>) w)"
    using assms
    by (simp add: char_read_cb_def req_at_def dec_read_resp_def rd8_def memcpy_def rd_bytes_def wr_bytes_def free_req_def)
  then show ?thesis by simp
qed

definition demo_collecting :: lworld where
  "demo_collecting = upd_ls (\<lambda>s. s\<lparr>l_req := (l_req s)(5 := Some \<lparr>rq_handle = 9\<rparr>)\<rparr>)
    (set_obj 4 (ObjRead \<lparr>rl_attrib = Some (), rl_func = Some char_read_fn, rl_user_data = 5, rl_buffer = 0x0B # replicate 22 1,
      rl_size = 23, rl_handle = 9, rl_id = 1, rl_ref = 1\<rparr>) demo_connecting)"


section \<open>Properties\<close>

text \<open>C12. Connecting: when the attempt of a device in the state CONNECTING succeeds, on a socket of an LE or a local link, the
  device is CONNECTED with an idle \<open>GAttrib\<close> and bearer whose MTU is 23 on the fixed ATT channel and the MTU of
  the socket otherwise, the watch is installed, and the application gets exactly one event STATE_CHANGED.\<close>

theorem connect_gives_session:
  assumes "l_dev (lst w) = Some d" "conn_state d = STATE_CONNECTING" "d_iochannel d = Some fd" "d_evh d = Some f"
    and "le_socket (sockets G) fd" and "attrib_closed (w_user w)"
    and "io_get B fd = Inr (mtu, cid)" and "n = (if cid = ATT_CID then 23 else mtu)" "23 \<le> n"
    and "makes_no_call policy (BleEvent f EVENT_INTERNAL STATE_CHANGED 1 (StateData STATE_CONNECTED))"
  shows "\<exists>w'. run_sys N B G policy (Connected fd None) w = Some w' \<and> session n (w_next w) fd f w' \<and>
    l_events (lst w') = l_events (lst w) @ [BleEvent f EVENT_INTERNAL STATE_CHANGED 1 (StateData STATE_CONNECTED)] \<and>
    gs_io (w_user w') = gs_io (w_user w) @ [IoWatch fd, IoRef fd, IoKeepOpen fd] \<and> l_watch (lst w')"
  using connect_opens [OF assms, of N] by blast

theorem connect_gives_session_witness:
  "\<exists>w'. run_sys 2 demo_io demo_env no_calls (Connected 3 None) demo_connecting = Some w' \<and> session 23 1 3 7 w'"
  using connect_gives_session [of demo_connecting demo_device 3 7 demo_env demo_io 23 4 23 no_calls 2] by (auto simp: ATT_CID_def)

text \<open>C1. A read, through all layers and for every value of 1 to 65534 bytes: \<open>lble_request\<close> on an idle connected device,
  against a server that answers with the value in parts, sends exactly the Read Request and the Read Blob Requests
  for the multiples of the MTU less one, and the application gets exactly one event EVENT_DEVICE with the
  whole value, and a length that is cut to 8 bits. The device is idle again, and every record that the read
  allocated is released.\<close>

theorem read_delivers_value:
  assumes s: "session m c fd f w" and v: "v \<noteq> []" "length v < 65535"
    and io: "writable G fd" and policy: "makes_no_call policy (value_event f h v)" and N: "2 \<le> N"
  shows "\<exists>w1 w2. run_sys N B G policy (Op (OpRequest h)) w = Some w1 \<and>
    serve (length v div (unat m - 1) + 1) N B G policy c (read_server m v) w1 = Some w2 \<and>
    l_events (lst w2) = l_events (lst w) @ [BleEvent f EVENT_DEVICE h (of_nat (length v)) (Bytes v)] \<and>
    w_wire w2 = w_wire w @ map (sent G fd h) (offsets (unat m - 1) 0 (length v div (unat m - 1) + 1)) \<and>
    session m c fd f w2 \<and>
    ts_heap (gs_user (w_user w2)) = (ts_heap (gs_user (w_user w)))(ts_next (gs_user (w_user w)) := None) \<and>
    l_req (lst w2) = (l_req (lst w))(l_next (lst w) := None)"
proof -
  obtain K where K: "N = Suc (Suc K)" using N by (metis Suc_le_D numeral_2_eq_2 Suc_le_mono)
  let ?ud = "l_next (lst w)" and ?p = "ts_next (gs_user (w_user w))" and ?H = "ts_heap (gs_user (w_user w))"
  let ?L = "(lst w)\<lparr>l_req := (l_req (lst w))(?ud := Some \<lparr>rq_handle = h\<rparr>), l_next := Suc ?ud\<rparr>"
  from request_starts [OF s, of "system N B G policy" h v] obtain r n w1 where w1: "lble_request (system N B G policy) (Some ()) h w = Some w1"
    "0 < r" "2 \<le> n" "w_wire w1 = w_wire w" "read_queued m r c fd v 0 h ?ud ?p n ?H ?L w1" by blast
  from s obtain d where d: "l_dev ?L = Some d" "d_evh d = Some f" "conn_state d = STATE_CONNECTED" "d_attrib d = Some ()" "23 \<le> m"
    unfolding session_def by auto
  have rq: "l_req ?L ?ud = Some \<lparr>rq_handle = h\<rparr>" by simp
  have j: "length v div (unat m - 1) = (length v - 0) div (unat m - 1)" by simp
  obtain w2 where w2: "serve (Suc (length v div (unat m - 1))) N B G policy c (read_server m v) w1 = Some w2"
    "read_finished m r c fd ?p (n - 1) ?H (delivered f h v ?ud ?L) w2"
    "w_wire w2 = w_wire w1 @ map (sent G fd h) (offsets (unat m - 1) 0 (Suc (length v div (unat m - 1))))"
    using read_rounds [OF w1(5,2,3) v d(5,1,2) rq io policy le0 j] unfolding K by blast
  have L2: "lst w2 = delivered f h v ?ud ?L" "attrib_inv (w_user w2)" "map_option g_ref_count (gs_attrib (w_user w2)) = Some (n - 1)"
    "link m r c fd [] None w2" "\<forall>q. ts_heap (gs_user (w_user w2)) q = (?H(?p := None)) q"
    using w2(2) by (auto simp: read_finished_def read_layer_def lst_def)
  have "session m c fd f w2"
    unfolding session_def using L2 w1(2,3) d by (intro exI [of _ r] exI [of _ "n - 1"] exI [of _ d]) (simp add: delivered_def)
  moreover have "ts_heap (gs_user (w_user w2)) = ?H(?p := None)" using L2(5) by (simp add: fun_eq_iff)
  ultimately show ?thesis
    using w1(1,4) w2(1,3) L2(1) by (intro exI [of _ w1] exI [of _ w2]) (simp add: delivered_def value_event_def)
qed

theorem read_delivers_value_witness:
  "\<exists>w w1 w2. run_sys 2 demo_io demo_env no_calls (Connected 3 None) demo_connecting = Some w \<and>
    run_sys 2 demo_io demo_env no_calls (Op (OpRequest 9)) w = Some w1 \<and>
    serve 2 2 demo_io demo_env no_calls 1 (read_server 23 (map of_nat [1..<31])) w1 = Some w2 \<and>
    l_events (lst w2) = l_events (lst w) @ [BleEvent 7 EVENT_DEVICE 9 30 (Bytes (map of_nat [1..<31]))]"
proof -
  obtain w where w: "run_sys 2 demo_io demo_env no_calls (Connected 3 None) demo_connecting = Some w" "session 23 1 3 7 w"
    using demo_session by blast
  let ?v = "map of_nat [1..<31] :: u8 list"
  have v: "?v \<noteq> []" "length ?v < 65535" "length ?v div (unat (23 :: u16) - 1) + 1 = 2" "(of_nat (length ?v) :: u8) = 30" by simp_all
  from read_delivers_value [OF w(2) v(1,2), of demo_env no_calls 9 2 demo_io] show ?thesis
    unfolding v(3,4) using w(1) by auto
qed

text \<open>C2. A write, through all layers: \<open>lble_write\<close> of 1 to 255 bytes on an idle connected device, against a server that
  accepts it, sends one Write Request when the value fits, and otherwise Prepare Write Requests at the multiples
  of the MTU less five followed by one Execute Write Request; the carried bytes together are the value, no event
  is raised, and the device is idle again.\<close>

theorem write_reaches_server:
  assumes s: "session m c fd f w" and v: "v \<noteq> []" "length v < 256" and io: "writable G fd" and N: "2 \<le> N"
  shows "concat (map carried (write_requests m h v)) = v \<and>
    (\<exists>w1 w2. run_sys N B G policy (Op (OpWrite h (of_nat (length v)) (Some v))) w = Some w1 \<and>
      serve (length (write_requests m h v)) N B G policy c write_server w1 = Some w2 \<and>
      write_over m c fd f G (write_requests m h v) w w2)"
proof -
  obtain K where K: "N = Suc (Suc K)" using N by (metis Suc_le_D numeral_2_eq_2 Suc_le_mono)
  have "23 \<le> unat m" using s by (auto simp: session_def word_le_nat_alt)
  then have "concat (map carried (write_requests m h v)) = v" by (rule requests_carry [OF v(1)])
  moreover have "length (offsets M k j) = j" for M k j by (induction j arbitrary: k) simp_all
  then have "length (write_requests m h v) = (if length v + 3 \<le> unat m then 1 else Suc (write_parts m v 0))"
    by (simp add: write_requests_def)
  ultimately show ?thesis unfolding K
    using short_write_served [OF s v _ io, of K B policy h] long_write_served [OF s v _ io, of K B policy h]
    by (cases "length v + 3 \<le> unat m") (simp_all only: write_requests_def if_True if_False simp_thms)
qed

theorem write_reaches_server_witness:
  "\<exists>w w1 w2. run_sys 2 demo_io demo_env no_calls (Connected 3 None) demo_connecting = Some w \<and>
    run_sys 2 demo_io demo_env no_calls (Op (OpWrite 9 30 (Some (map of_nat [1..<31])))) w = Some w1 \<and>
    serve 3 2 demo_io demo_env no_calls 1 write_server w1 = Some w2 \<and>
    w_wire w2 = w_wire w @ map (on_wire demo_env 3) [wire (PrepWriteReq 9 0 (map of_nat [1..<19])),
      wire (PrepWriteReq 9 18 (map of_nat [19..<31])), wire (ExecWriteReq 1)]"
proof -
  obtain w where w: "run_sys 2 demo_io demo_env no_calls (Connected 3 None) demo_connecting = Some w" "session 23 1 3 7 w"
    using demo_session by blast
  let ?v = "map of_nat [1..<31] :: u8 list"
  have v: "?v \<noteq> []" "length ?v < 256" "(of_nat (length ?v) :: u8) = 30" by simp_all
  have rq: "write_requests 23 9 ?v = [wire (PrepWriteReq 9 0 (map of_nat [1..<19])), wire (PrepWriteReq 9 18 (map of_nat [19..<31])), wire (ExecWriteReq 1)]"
    by code_simp
  have l: "length (write_requests 23 9 ?v) = 3" unfolding rq by simp
  have io: "writable demo_env 3" by simp
  obtain w1 w2 where "run_sys 2 demo_io demo_env no_calls (Op (OpWrite 9 30 (Some ?v))) w = Some w1"
    "serve 3 2 demo_io demo_env no_calls 1 write_server w1 = Some w2"
    "write_over 23 1 3 7 demo_env (write_requests 23 9 ?v) w w2"
    using write_reaches_server [OF w(2) v(1,2) io order_refl, of 9 demo_io no_calls] unfolding v(3) l by blast
  then show ?thesis using w(1) unfolding write_over_def rq by blast
qed

lemma receive_all:
  assumes "listening m c fd f w1" "\<And>h v. (h, v) \<in> set l \<Longrightarrow> length v + 3 \<le> unat m \<and> makes_no_call policy (value_event f h v)"
  shows "\<exists>w2. receive (Suc (Suc K)) B G policy c l w1 = Some w2 \<and> listening m c fd f w2 \<and>
    l_events (lst w2) = l_events (lst w1) @ map (\<lambda>(h, v). value_event f h v) l"
  using assms
proof (induction l arbitrary: w1)
  case (Cons hv l)
  obtain h v where hv: "hv = (h, v)" by (cases hv)
  with Cons(3) have b: "length v + 3 \<le> unat m" "makes_no_call policy (value_event f h v)" by auto
  from receive_one [OF Cons(2) b, of K B G] obtain w' where
    w': "run_sys (Suc (Suc K)) B (peer_sends G (wire (Notification h v))) policy (Bearer (EvRead c)) w1 = Some w'"
    "listening m c fd f w'" "l_events (lst w') = l_events (lst w1) @ [value_event f h v]" by blast
  from Cons(1) [OF w'(2)] Cons(3) obtain w2 where "receive (Suc (Suc K)) B G policy c l w' = Some w2" "listening m c fd f w2"
    "l_events (lst w2) = l_events (lst w') @ map (\<lambda>(h, v). value_event f h v) l" by (auto simp: hv)
  then show ?case unfolding hv using w'(1,3) by (intro exI [of _ w2]) (simp del: run_sys.simps)
qed simp

text \<open>C3. After \<open>lble_listen\<close> on an idle connected device without handlers, every sequence of Handle Value Notifications
  that fit the MTU reaches the application as the same sequence of events EVENT_DEVICE, with handle and value, and
  a length that is cut to 8 bits.\<close>

theorem notifications_delivered:
  assumes s: "session m c fd f w" and u: "unregistered w" and N: "2 \<le> N"
    and v: "\<And>h v. (h, v) \<in> set l \<Longrightarrow> length v + 3 \<le> unat m \<and> makes_no_call policy (value_event f h v)"
  shows "\<exists>w1 w2. run_sys N B G policy (Op OpListen) w = Some w1 \<and> receive N B G policy c l w1 = Some w2 \<and>
    session m c fd f w2 \<and> l_events (lst w2) = l_events (lst w) @ map (\<lambda>(h, v). BleEvent f EVENT_DEVICE h (of_nat (length v)) (Bytes v)) l"
proof -
  obtain K where K: "N = Suc (Suc K)" using N by (metis Suc_le_D numeral_2_eq_2 Suc_le_mono)
  obtain w1 where w1: "lble_listen (system N B G policy) (Some ()) w = Some w1" "listening m c fd f w1" "lst w1 = lst w"
    using listen_session [OF s u] by blast
  obtain w2 where "receive N B G policy c l w1 = Some w2" "listening m c fd f w2"
    "l_events (lst w2) = l_events (lst w1) @ map (\<lambda>(h, v). value_event f h v) l"
    using receive_all [OF w1(2) v, where K = K and B = B and G = G] unfolding K by blast
  with w1 show ?thesis by (auto simp: listening_def value_event_def)
qed

theorem notifications_delivered_witness:
  "\<exists>w w1 w2. run_sys 2 demo_io demo_env no_calls (Connected 3 None) demo_connecting = Some w \<and>
    run_sys 2 demo_io demo_env no_calls (Op OpListen) w = Some w1 \<and>
    receive 2 demo_io demo_env no_calls 1 [(9, [1, 2]), (10, [3])] w1 = Some w2 \<and>
    l_events (lst w2) = l_events (lst w) @ [BleEvent 7 EVENT_DEVICE 9 2 (Bytes [1, 2]), BleEvent 7 EVENT_DEVICE 10 1 (Bytes [3])]"
proof -
  obtain w where w: "run_sys 2 demo_io demo_env no_calls (Connected 3 None) demo_connecting = Some w" "session 23 1 3 7 w"
    using demo_session by blast
  have u: "unregistered w" using demo_unregistered w(1) by simp
  have v: "length v + 3 \<le> unat (23 :: u16) \<and> makes_no_call no_calls (value_event 7 h v)" if "(h, v) \<in> set [(9, [1, 2]), (10, [3])]" for h :: u16 and v :: "u8 list"
    using that by auto
  from notifications_delivered [where N = 2 and B = demo_io and G = demo_env and l = "[(9, [1, 2]), (10, [3])]", OF w(2) u order_refl v]
  obtain w1 w2 where "run_sys 2 demo_io demo_env no_calls (Op OpListen) w = Some w1"
    "receive 2 demo_io demo_env no_calls 1 [(9, [1, 2]), (10, [3])] w1 = Some w2"
    "l_events (lst w2) = l_events (lst w) @ map (\<lambda>(h, v). BleEvent 7 EVENT_DEVICE h (of_nat (length v)) (Bytes v)) [(9, [1, 2]), (10, [3])]"
    by blast
  then show ?thesis using w(1) by (intro exI [of _ w] exI [of _ w1] exI [of _ w2]) (simp del: run_sys.simps receive.simps)
qed

text \<open>C13. \<open>lble_disconnect\<close> during an attempt to connect raises no event; when that attempt succeeds later, its channel is
  shut down and released, no \<open>GAttrib\<close> is made, and the application is told STATE_DISCONNECTED.\<close>

theorem cancelled_connect_undone:
  assumes d: "l_dev (lst w) = Some d" "conn_state d = STATE_CONNECTING" "d_iochannel d = Some fd" "d_evh d = Some f"
    and p: "makes_no_call policy (BleEvent f EVENT_INTERNAL STATE_CHANGED 1 (StateData STATE_DISCONNECTED))"
  shows "\<exists>w1 w2. run_sys N B G policy (Op OpDisconnect) w = Some w1 \<and> l_events (lst w1) = l_events (lst w) \<and>
    run_sys N B G policy (Connected fd None) w1 = Some w2 \<and>
    l_events (lst w2) = l_events (lst w) @ [BleEvent f EVENT_INTERNAL STATE_CHANGED 1 (StateData STATE_DISCONNECTED)] \<and>
    l_dev (lst w2) = Some (d\<lparr>conn_state := STATE_DISCONNECTED, d_iochannel := None\<rparr>) \<and>
    gs_io (w_user w2) = gs_io (w_user w) @ [IoShutdown fd, IoUnref fd] \<and>
    gs_attrib (w_user w2) = gs_attrib (w_user w) \<and> w_att w2 = w_att w"
proof -
  let ?d = "d\<lparr>conn_state := STATE_DISCONNECTED\<rparr>"
  let ?w1 = "set_dev ?d w"
  let ?ev = "BleEvent f EVENT_INTERNAL STATE_CHANGED 1 (StateData STATE_DISCONNECTED)"
  let ?w2 = "upd_ls (\<lambda>s. s\<lparr>l_dev := Some (?d\<lparr>d_iochannel := None\<rparr>), l_events := l_events s @ [?ev]\<rparr>)
      (io_channel (IoUnref fd) (io_channel (IoShutdown fd) ?w1))"
  have q: "app_at N B G' policy ?ev x = Some x" for G' x using quiet_app [OF p, of N B G'] by (simp add: ignores_event_def)
  have "run_sys N B G policy (Op OpDisconnect) w = Some ?w1"
    using d by (simp add: lble_disconnect_def the_dev_def)
  moreover have "run_sys N B G policy (Connected fd None) ?w1 = Some ?w2"
    using d q by (simp add: connect_cb_def the_dev_def on_channel_def upd_dev_def set_dev_def emit_state_def emit_def evh_def
        call_app_def lst_def io_channel_def)
  ultimately show ?thesis using d
    by (intro exI [of _ ?w1] exI [of _ ?w2]) (simp add: set_dev_def lst_def io_channel_def upd_ls_def upd_ts_def)
qed

theorem cancelled_connect_undone_witness:
  "\<exists>w1 w2. run_sys 2 demo_io demo_env no_calls (Op OpDisconnect) demo_connecting = Some w1 \<and>
    run_sys 2 demo_io demo_env no_calls (Connected 3 None) w1 = Some w2 \<and> gs_io (w_user w2) = [IoShutdown 3, IoUnref 3]"
  using cancelled_connect_undone [of demo_connecting demo_device 3 7 no_calls 2 demo_io demo_env]
  by (auto simp: demo_connecting_def set_dev_def initial_def empty_world_def)

text \<open>An attempt that is cancelled and followed by a second one: if the first one completes, the device is CONNECTED on
  the channel of the first, while the device keeps, and watches, the channel of the second.\<close>

theorem stale_connection_used:
  assumes d: "l_dev (lst w) = Some d" "conn_state d = STATE_CONNECTING" "d_evh d = Some f"
    and S: "le_socket (sockets G) fd" and u: "attrib_closed (w_user w)"
    and io: "io_connect B addr = (None, Some fd')" "io_get B fd = Inr (mtu, ATT_CID)"
    and p: "\<And>x. makes_no_call policy (BleEvent f EVENT_INTERNAL STATE_CHANGED 1 (StateData x))"
  shows "\<exists>w'. run_all N B G policy [Op OpDisconnect, Op (OpConnect addr), Connected fd None] w = Some w' \<and>
    session 23 (w_next w) fd f w' \<and> map_option d_iochannel (l_dev (lst w')) = Some (Some fd') \<and>
    gs_io (w_user w') = gs_io (w_user w) @ [IoWatch fd', IoRef fd, IoKeepOpen fd]"
proof -
  let ?ev = "\<lambda>x. BleEvent f EVENT_INTERNAL STATE_CHANGED 1 (StateData x)"
  let ?d = "d\<lparr>conn_state := STATE_CONNECTING, d_iochannel := Some fd'\<rparr>"
  let ?w1 = "set_dev (d\<lparr>conn_state := STATE_DISCONNECTED\<rparr>) w"
  let ?w2 = "upd_ls (\<lambda>s. s\<lparr>l_events := l_events s @ [?ev STATE_CONNECTING], l_dev := Some ?d\<rparr>) w"
  have q: "app_at N B G' policy (?ev x) y = Some y" for G' x y using quiet_app [OF p, of N B G'] by (simp add: ignores_event_def)
  have w1: "run_sys N B G policy (Op OpDisconnect) w = Some ?w1"
    using d by (simp add: lble_disconnect_def the_dev_def)
  have w2: "run_sys N B G policy (Op (OpConnect addr)) ?w1 = Some ?w2"
    using d io(1) q by (simp add: lble_connect_def the_dev_def upd_dev_def set_dev_def emit_state_def emit_def evh_def
        call_app_def gatt_connect_def)
  have "l_dev (lst ?w2) = Some ?d" "conn_state ?d = STATE_CONNECTING" "d_iochannel ?d = Some fd'" "d_evh ?d = Some f"
    "attrib_closed (w_user ?w2)" using d u by (simp_all add: attrib_closed_def)
  then obtain w' where "run_sys N B G policy (Connected fd None) ?w2 = Some w'" "session 23 (w_next ?w2) fd f w'"
    "gs_io (w_user w') = gs_io (w_user ?w2) @ [IoWatch fd', IoRef fd, IoKeepOpen fd]"
    "map_option d_iochannel (l_dev (lst w')) = Some (Some fd')"
    using connect_opens [where w = ?w2 and d = ?d and fd = fd and fd' = fd' and f = f and G = G and B = B and mtu = mtu and cid = ATT_CID
        and n = 23 and policy = policy and N = N] S io(2) p by auto
  then show ?thesis using w1 w2 by (intro exI [of _ w']) simp
qed

theorem stale_connection_used_witness:
  "\<exists>w'. run_all 2 (demo_io\<lparr>io_connect := \<lambda>_. (None, Some 4)\<rparr>) demo_env no_calls
      [Op OpDisconnect, Op (OpConnect ''dev''), Connected 3 None] demo_connecting = Some w' \<and> session 23 1 3 7 w' \<and>
    map_option d_iochannel (l_dev (lst w')) = Some (Some 4)"
  using stale_connection_used [of demo_connecting demo_device 7 demo_env 3 "demo_io\<lparr>io_connect := \<lambda>_. (None, Some 4)\<rparr>" "''dev''" 4 23
      no_calls 2] by (auto simp: ATT_CID_def demo_io_def)

text \<open>The watch of the channel serves one condition: when the first one reported is not exactly one of HUP, ERR and NVAL
  (the channel is writable, data has arrived, or several bits are set), no later condition is seen; the device
  stays CONNECTED whatever happens.\<close>

theorem later_hangup_unnoticed:
  assumes d: "l_dev (lst w) = Some d" "conn_state d = STATE_CONNECTED" "d_evh d = Some f" "l_watch (lst w)"
    and c: "first \<notin> {G_IO_HUP, G_IO_ERR, G_IO_NVAL}"
    and p: "\<And>ev. ev \<in> set (data_event f first) \<Longrightarrow> makes_no_call policy ev"
  shows "\<exists>w'. run_all N B G policy (Watch first # map Watch later) w = Some w' \<and>
    lble_state (Some ()) w' = Some STATE_CONNECTED \<and> \<not> l_watch (lst w') \<and>
    l_events (lst w') = l_events (lst w) @ data_event f first \<and> w_att w' = w_att w \<and> gs_attrib (w_user w') = gs_attrib (w_user w)"
proof -
  let ?w = "upd_ls (\<lambda>s. s\<lparr>l_events := l_events s @ data_event f first, l_watch := False\<rparr>) w"
  have q: "app_at N B G' policy ev x = Some x" if "ev \<in> set (data_event f first)" for G' x ev
    using quiet_app [OF p [OF that], of N B G'] by (simp add: ignores_event_def)
  have "run_sys N B G policy (Watch first) w = Some ?w"
    using d c q by (auto simp: run_watch_def channel_watcher_def emit_def evh_def call_app_def the_dev_def data_event_def
        G_IO_IN_def G_IO_PRI_def G_IO_OUT_def split: if_splits)
  moreover have "run_all N B G policy (map Watch later) ?w = Some ?w"
    by (induction later) (simp_all add: run_watch_def)
  ultimately show ?thesis using d
    by (intro exI [of _ ?w]) (simp add: lble_state_def the_dev_def)
qed

theorem later_hangup_unnoticed_witness:
  "\<exists>w w'. run_sys 2 demo_io demo_env no_calls (Connected 3 None) demo_connecting = Some w \<and>
    run_all 2 demo_io demo_env no_calls [Watch G_IO_OUT, Watch G_IO_HUP] w = Some w' \<and> lble_state (Some ()) w' = Some STATE_CONNECTED"
proof -
  obtain w where w: "run_sys 2 demo_io demo_env no_calls (Connected 3 None) demo_connecting = Some w" "session 23 1 3 7 w" "l_watch (lst w)"
    using demo_session by blast
  then obtain d where d: "l_dev (lst w) = Some d" "conn_state d = STATE_CONNECTED" "d_evh d = Some 7" unfolding session_def by blast
  have "G_IO_OUT \<notin> {G_IO_HUP, G_IO_ERR, G_IO_NVAL}" by (simp add: G_IO_OUT_def G_IO_HUP_def G_IO_ERR_def G_IO_NVAL_def)
  from later_hangup_unnoticed [where w = w and policy = no_calls and later = "[G_IO_HUP]" and N = 2 and B = demo_io and G = demo_env, OF d w(3) this no_calls]
  show ?thesis using w(1) by auto
qed

text \<open>C14. A handler that disconnects. On a connected device that nothing else refers to, after \<open>lble_listen\<close>: a call of
  \<open>lble_disconnect\<close> from the main loop releases bearer and \<open>GAttrib\<close> and returns, but from the handler of any notification
  that fits the MTU it makes the bearer use the freed record of its handler when the handler has returned, so that the event does
  not return, to whatever depth calls may be nested.\<close>

theorem disconnect_in_handler_dangles:
  assumes s: "session m c fd f w" and u: "unshared w" and v: "length v + 3 \<le> unat m" and N: "1 \<le> N"
    and P: "\<And>x. policy (value_event f h v) x = [OpDisconnect]"
    and q: "makes_no_call policy (BleEvent f EVENT_INTERNAL STATE_CHANGED 1 (StateData STATE_DISCONNECTED))"
  shows "\<exists>w1 w2. run_sys N B G policy (Op OpListen) w = Some w1 \<and>
    run_sys N B G policy (Op OpDisconnect) w1 = Some w2 \<and> w_att w2 = None \<and> gs_attrib (w_user w2) = None \<and>
      lble_state (Some ()) w2 = Some STATE_DISCONNECTED \<and>
    (\<forall>M. run_sys M B (peer_sends G (wire (Notification h v))) policy (Bearer (EvRead c)) w1 = None)"
proof -
  obtain w1 e p n d where w1: "lble_listen (system N B G policy) (Some ()) w = Some w1" "link m 1 c fd [] None w1" "listener e p n w1"
    and d: "l_dev (lst w1) = Some d" "conn_state d = STATE_CONNECTED" "d_attrib d = Some ()" "d_evh d = Some f"
    using unshared_listens [OF s u] by blast
  obtain N' where N': "N = Suc N'" using N by (cases N) simp_all
  have E: "client (bearer (system N B G policy)) = gattrib_client (layers N' G (\<lambda>G. app_at N B G policy))"
    by (simp add: N' system_def layers_def)
  have A: "app_at N B (system N B G policy) policy (BleEvent f EVENT_INTERNAL STATE_CHANGED 1 (StateData STATE_DISCONNECTED)) x = Some x" for x
    using quiet_app [OF q] by (simp add: ignores_event_def)
  obtain w2 where w2: "lble_disconnect (system N B G policy) (app_at N B (system N B G policy) policy) (Some ()) w1 = Some w2"
    "w_att w2 = None" "gs_attrib (w_user w2) = None" "lble_state (Some ()) w2 = Some STATE_DISCONNECTED"
    using disconnect_unshared [where A = "app_at N B (system N B G policy) policy", OF w1(2,3) d A E] by blast
  have "run_sys M B (peer_sends G (wire (Notification h v))) policy (Bearer (EvRead c)) w1 = None" for M
  proof -
    let ?G = "peer_sends G (wire (Notification h v))"
    let ?E = "bearer (layers M ?G (\<lambda>G. app_at M B G policy))" and ?L = "layers (M - 1) ?G (\<lambda>G. app_at M B G policy)"
    have rx: "k_read ?E fd m = Some (0x1B # (le2 h @ v))" "length (le2 h @ v) < unat m" using v by simp_all
    have lv: "length v < 65533" using v unat_u16_le [of m] by simp
    have C: "client ?E = gattrib_client ?L \<or> client ?E = (\<lambda>_ _. None)"
      by (cases M) (simp_all add: layers_def)
    have "can_read_data ?E c w1 = None"
    proof (rule released_handler_dangles [OF w1(2,3) rx C])
      fix x1 x2
      assume x: "link m 3 c fd [] None x1" "lst x1 = lst w1" "listener e p n x1"
        "gattrib_client ?L (CallNotify attrib_callback_notify_fn c 0x1B (le2 h @ v) p) x1 = Some x2"
      have "l_dev (lst x1) = Some d" using d x(2) by simp
      then show "handler_released 2 n e x2" by (rule notification_disconnects [OF x(1,3) lv _ d(2-4) P q x(4)])
    qed
    then show ?thesis by (simp add: system_layers result_state_def)
  qed
  with w1(1) w2 show ?thesis by (intro exI [of _ w1] exI [of _ w2]) simp
qed

lemma demo_unshared:
  "map_option (\<lambda>w. map_option (\<lambda>a. (a_ref_count a, length (notify_list a), length (disconn_list a), timeout_destroy a, debug_destroy a)) (w_att w)) 
     (run_sys 2 demo_io demo_env no_calls (Connected 3 None) demo_connecting) = Some (Some (1, 0, 0, None, None))"
  "map_option (\<lambda>w. map_option (\<lambda>g. (g_ref_count g, g_destroy g, callbacks g, track_ids g)) (gs_attrib (w_user w)))
     (run_sys 2 demo_io demo_env no_calls (Connected 3 None) demo_connecting) = Some (Some (1, None, [], []))"
  by code_simp+

theorem disconnect_in_handler_dangles_witness:
  "\<exists>w w1. run_sys 2 demo_io demo_env no_calls (Connected 3 None) demo_connecting = Some w \<and>
    run_sys 2 demo_io demo_env disconnecting (Op OpListen) w = Some w1 \<and> 
    run_sys 2 demo_io demo_env disconnecting (Op OpDisconnect) w1 \<noteq> None \<and> 
    run_sys 9 demo_io (peer_sends demo_env (wire (Notification 9 [1, 2]))) disconnecting (Bearer (EvRead 1)) w1 = None"
proof -
  obtain w where w: "run_sys 2 demo_io demo_env no_calls (Connected 3 None) demo_connecting = Some w" "session 23 1 3 7 w"
    using demo_session by blast
  have u: "unshared w" using demo_unshared w(1) unfolding unshared_def by (auto split: option.splits)
  have v: "length [1, 2 :: u8] + 3 \<le> unat (23 :: u16)" and N: "1 \<le> (2 :: nat)" by simp_all
  have P: "disconnecting (value_event 7 9 [1, 2]) x = [OpDisconnect]" for x by (simp add: disconnecting_def value_event_def)
  have q: "makes_no_call disconnecting (BleEvent 7 EVENT_INTERNAL STATE_CHANGED 1 (StateData STATE_DISCONNECTED))"
    by (simp add: makes_no_call_def disconnecting_def)
  from disconnect_in_handler_dangles [OF w(2) u v N P q, of demo_io demo_env] w(1) show ?thesis by fastforce
qed

text \<open>C15. An error response to a Read Blob Request ends a long read as a success: the application gets the part that has
  arrived as the value, and no event about the error.\<close>

theorem failed_continuation_delivers_part:
  assumes rl: "obj_at p w = Some (ObjRead rl)" "read_record v k h ud n rl" "0 < k" "k < 65535" and st: "status \<noteq> 0"
    and d: "l_dev (lst w) = Some d" "d_evh d = Some f" "l_req (lst w) ud = Some \<lparr>rq_handle = h\<rparr>"
    and A: "ignores_event A (value_event f h (take k v))"
  shows "\<exists>w'. read_blob_helper G (libble_client A) status rpdu rlen p w = Some w' \<and>
    l_events (lst w') = l_events (lst w) @ [BleEvent f EVENT_DEVICE h (of_nat k) (Bytes (take k v))]"
proof -
  have col: "rl_attrib rl = Some ()" "rl_buffer rl = 0x0B # take k v" "unat (rl_size rl) = Suc k" "k \<le> length v"
    "rl_func rl = Some char_read_fn" "rl_user_data rl = ud" using rl(2,3) by (simp_all add: read_record_def collected_def)
  let ?w = "upd_ts (\<lambda>s. s\<lparr>ts_calls := ts_calls s @ [TResult char_read_fn 0 (0x0B # take k v) (of_nat (length (take k v)) + 1) ud]\<rparr>) w"
  have sz: "rl_size rl = of_nat (length (take k v)) + 1" using u16_of [OF col(3)] col(4) by (simp add: add.commute min_def)
  have "read_blob_helper G (libble_client A) status rpdu rlen p w =
      call_result (libble_client A) (Some char_read_fn) 0 (0x0B # take k v) (of_nat (length (take k v)) + 1) ud w"
    using rl(1) st col sz by (simp add: read_blob_helper_def read_at_def)
  moreover have "v \<noteq> []" using rl(3) col(4) by auto
  then have "char_read_cb A 0 (0x0B # take k v) (of_nat (length (take k v)) + 1) ud ?w = Some (upd_ls (delivered f h (take k v) ud) ?w)"
    using d rl(3,4) col(4) by (intro read_delivered [where d = d]) (simp_all add: A lst_def min_def)
  ultimately have "read_blob_helper G (libble_client A) status rpdu rlen p w = Some (upd_ls (delivered f h (take k v) ud) ?w)"
    unfolding call_read by simp
  then show ?thesis using col(4)
    by (intro exI [of _ "upd_ls (delivered f h (take k v) ud) ?w"]) (simp add: delivered_def value_event_def lst_def min_def)
qed

theorem failed_continuation_delivers_part_witness:
  "\<exists>w'. read_blob_helper demo_env (libble_client (\<lambda>_ w. Some w)) 0x0A [1, 0x0C, 9, 0, 0x0A] 5 4 demo_collecting = Some w' \<and>
    l_events (lst w') = [BleEvent 7 EVENT_DEVICE 9 22 (Bytes (replicate 22 1))]"
proof -
  let ?rl = "\<lparr>rl_attrib = Some (), rl_func = Some char_read_fn, rl_user_data = 5, rl_buffer = 0x0B # replicate 22 1 :: buf,
      rl_size = 23, rl_handle = 9, rl_id = 1, rl_ref = 1\<rparr>"
  have rl: "obj_at 4 demo_collecting = Some (ObjRead ?rl)" "read_record (replicate 40 1) 22 9 5 1 ?rl"
    by (simp_all add: demo_collecting_def obj_at_def set_obj_def upd_ls_def upd_ts_def upd_gs_def read_record_def collected_def)
  have d: "l_dev (lst demo_collecting) = Some demo_device" "d_evh demo_device = Some 7"
    "l_req (lst demo_collecting) 5 = Some \<lparr>rq_handle = 9\<rparr>" "l_events (lst demo_collecting) = []"
    by (simp_all add: demo_collecting_def demo_connecting_def set_obj_def upd_ls_def upd_ts_def upd_gs_def lst_def set_dev_def initial_def
        empty_world_def)
  have i: "ignores_event (\<lambda>_ w. Some w) ev" for ev by (simp add: ignores_event_def)
  have k: "0 < (22 :: nat)" "22 < (65535 :: nat)" "(0x0A :: u8) \<noteq> 0" by simp_all
  from failed_continuation_delivers_part [OF rl k d(1-3) i, of demo_env "[1, 0x0C, 9, 0, 0x0A]" 5]
  show ?thesis using d(4) by (simp add: value_event_def)
qed

text \<open>A Write Command with a function to be told of its end is never sent: the bearer refuses an operation that has no
  response but a callback, and the \<open>GAttrib\<close> has wrapped the function into a callback. The result is 0, only the
  record made for the command stays behind.\<close>

theorem command_with_notify_never_sent:
  assumes l: "link m r c fd q x w" "attrib_inv (w_user w)" and v: "length v + 3 \<le> unat m"
  shows "\<exists>s g y. gatt_write_cmd G (Some ()) h v (int (length v)) (Some d) ud w = Some (0, w\<lparr>w_user := s\<rparr>) \<and>
    gs_attrib s = Some g \<and> map_option callbacks (gs_attrib (w_user w)) = Some (tl (callbacks g)) \<and>
    gs_cb s (hd (callbacks g)) = Some y \<and> destroy_func y = Some d"
proof -
  have m16: "unat m < 65536" using unat_u16_le [of m] by simp
  from attrib_get [OF l, of G] obtain b s where
    get: "g_attrib_get_buffer G (Some ()) w = Some (Some b, ucast m, w\<lparr>w_user := s\<rparr>)" "unat m \<le> length b" "attrib_inv s"
      "same_attrib (w_user w) s" "map_option g_buf (gs_attrib s) = Some b" by blast
  have m0: "unat m \<noteq> 0" using v by simp
  let ?pdu = "wire (WriteCmd h v)"
  let ?b = "filled ?pdu b"
  have "encodes (enc_write_cmd h (Some v) (of_nat (length v)) (Some b) (of_nat (unat m))) (wire (WriteCmd h (take (unat m - 3) v))) b"
    using enc_write_cmd_in [of "unat m" b v h] v get(2) m16 by simp
  then have enc: "enc_write_cmd h (Some v) (word_of_int (int (length v))) (Some b) (ucast m) = Some (of_nat (length ?pdu), Some ?b)"
    using v unfolding buflen by (simp add: encodes_def)
  obtain s' where put: "put_buffer (Some ()) (Some ?b) (w\<lparr>w_user := s\<rparr>) = Some (w\<lparr>w_user := s'\<rparr>)" "attrib_inv s'" "same_attrib s s'"
    using attrib_put [OF get(3,5), of ?b w] get(2) v by auto
  have ne: "?b \<noteq> []" "(of_nat (length ?pdu) :: u16) \<noteq> 0" "None \<noteq> None \<or> Some d \<noteq> (None :: func option)"
  proof -
    have "unat (of_nat (length ?pdu) :: u16) = length ?pdu" using v m16 by (intro unat_of_nat_u16) simp
    then show "(of_nat (length ?pdu) :: u16) \<noteq> 0" by auto
  qed (simp_all add: filled_def)
  obtain a where a: "w_att w = Some a" "chans a = [c]" by (rule linkE [OF l(1)])
  have ty: "get_op_type 0x52 = ATT_OP_TYPE_CMD" by code_simp
  have hb: "hd ?b = 0x52" by (simp add: filled_def)
  have ref: "bt_att_send (bearer G) (Some ()) (hd ?b) (Some (tl ?b)) (of_nat (length ?pdu) - 1) (Some attrib_callback_result_fn) n
      (Some attrib_callbacks_remove_fn) w1 = Some (0, w1)" if "w_att w1 = w_att (w\<lparr>w_user := s'\<rparr>)" for w1 n
    unfolding hb using that a ty by (simp add: bt_att_send_def create_att_send_op_def Let_def)
  have inv: "attrib_inv (w_user (w\<lparr>w_user := s'\<rparr>))" using put(2) by simp
  obtain t g y where t: "g_attrib_send G (Some ()) 0 (Some ?b) (of_nat (length ?pdu)) None ud (Some d) (w\<lparr>w_user := s'\<rparr>) = Some (0, w\<lparr>w_user := t\<rparr>)"
    "gs_attrib t = Some g" "map_option callbacks (gs_attrib s') = Some (tl (callbacks g))" "gs_cb t (hd (callbacks g)) = Some y" "destroy_func y = Some d"
    using refused_send [OF inv ne ref, of 0 ud] by auto
  have "map_option callbacks (gs_attrib s') = map_option callbacks (gs_attrib (w_user w))"
    using same_callbacks [OF put(3)] same_callbacks [OF get(4)] by simp
  moreover have "gatt_write_cmd G (Some ()) h v (int (length v)) (Some d) ud w = Some (0, w\<lparr>w_user := t\<rparr>)"
    using get(1) enc put(1) t(1) by (simp add: gatt_write_cmd_def)
  ultimately show ?thesis using t(2-5) by (intro exI [of _ t] exI [of _ g] exI [of _ y]) simp
qed

theorem command_with_notify_never_sent_witness:
  "\<exists>w s g y. run_sys 2 demo_io demo_env no_calls (Connected 3 None) demo_connecting = Some w \<and>
    gatt_write_cmd (system 2 demo_io demo_env no_calls) (Some ()) 9 [1] 1 (Some 50) 0 w = Some (0, w\<lparr>w_user := s\<rparr>) \<and>
    gs_attrib s = Some g \<and> map_option callbacks (gs_attrib (w_user w)) = Some (tl (callbacks g)) \<and>
    gs_cb s (hd (callbacks g)) = Some y \<and> destroy_func y = Some 50"
proof -
  obtain w where w: "run_sys 2 demo_io demo_env no_calls (Connected 3 None) demo_connecting = Some w" "session 23 1 3 7 w"
    using demo_session by blast
  then obtain r where l: "link 23 r 1 3 [] None w" "attrib_inv (w_user w)" unfolding session_def by blast
  have "length [1 :: u8] + 3 \<le> unat (23 :: u16)" by simp
  from command_with_notify_never_sent [OF l this, of "system 2 demo_io demo_env no_calls" 9 50 0]
  show ?thesis using w(1) by (auto simp del: run_sys.simps)
qed

end
