(* ===== verification/BtIo.thy ===== *)
theory BtIo
  imports Sys
begin

text \<open>
  \<^verbatim>\<open>src/bluez/btio/btio.c\<close>: Bluetooth sockets behind GLib channels. Options are parsed into a record, a
  socket is created, bound and configured, and connected or made to listen; a watch calls the user when that has an
  outcome. Further functions read and set the options of a socket.

  A channel is its file descriptor. The calls that leave this file are the constructors of \<open>bt_call\<close>: system
  calls, functions of GLib and the functions of the user, whose own calls are not part of the trace. A list of
  variable arguments is a list of options with their arguments; its end stands for \<open>BT_IO_OPT_INVALID\<close>. The
  location for a \<open>GError\<close> is the component \<open>os_err\<close> (\<open>g_set_error\<close> keeps an error that is already
  there), and the values that \<open>bt_io_get\<close> stores through its pointers are listed in \<open>os_out\<close>, in order. Strings
  for error numbers and device addresses come from functions of other libraries, which are parameters.
\<close>

section \<open>Data\<close>

type_synonym bdaddr = "u8 list"

definition BDADDR_ANY :: bdaddr where "BDADDR_ANY = replicate 6 0"

datatype level = SOL_SOCKET | SOL_BLUETOOTH | SOL_L2CAP | SOL_RFCOMM | SOL_SCO

datatype sockopt = SO_DOMAIN | SO_PROTOCOL | SO_ERROR | SO_PRIORITY | BT_SECURITY | BT_DEFER_SETUP | BT_FLUSHABLE | BT_SNDMTU
  | BT_RCVMTU | BT_PHY | BT_MODE | BT_VOICE | L2CAP_OPTIONS | L2CAP_LM | L2CAP_CONNINFO | RFCOMM_LM | RFCOMM_CONNINFO
  | SCO_OPTIONS | SCO_CONNINFO

datatype sock_type = SOCK_SEQPACKET | SOCK_STREAM

record bt_security =
  bts_level :: u8
  bts_key_size :: u8

record l2cap_options =
  l2o_omtu :: u16
  l2o_imtu :: u16
  l2o_mode :: u8

record conninfo =
  hci_handle :: u16
  hci_dev_class :: "u8 list"

text \<open>\<open>l2_psm\<close> and \<open>l2_cid\<close> are the numbers that \<open>htobs\<close> stores and \<open>btohs\<close> reads.\<close>

record sockaddr_l2 =
  l2_psm :: u16
  l2_bdaddr :: bdaddr
  l2_cid :: u16
  l2_bdaddr_type :: u8

record sockaddr_rc =
  rc_bdaddr :: bdaddr
  rc_channel :: u8

record sockaddr_sco =
  sco_bdaddr :: bdaddr

datatype sockaddr = L2Addr sockaddr_l2 | RcAddr sockaddr_rc | ScoAddr sockaddr_sco

datatype optval = OptInt int | OptU32 u32 | OptU16 u16 | OptU8 u8 | OptSecurity bt_security | OptL2 l2cap_options | OptSco u16
  | OptVoice u16

record gerror =
  ge_code :: int
  ge_message :: string

record connect =
  co_connect :: func
  co_user_data :: user
  co_destroy :: "func option"
  co_dst :: bdaddr

record accept =
  ac_connect :: func
  ac_user_data :: user
  ac_destroy :: "func option"

record server =
  sv_connect :: func
  sv_confirm :: "func option"
  sv_user_data :: user
  sv_destroy :: "func option"

datatype watch = ServerWatch server | ConnectWatch connect | AcceptWatch accept

datatype bt_call =
    Socket sock_type int
  | Bind int sockaddr
  | Connect int sockaddr
  | Listen int int
  | Accept int
  | Close int
  | Poll int u16
  | Read int nat
  | GetSockOpt int level sockopt
  | SetSockOpt int level sockopt optval
  | GetSockName int
  | GetPeerName int
  | ChannelNew int
  | CloseOnUnref int
  | NonBlock int
  | Unref int
  | AddWatch int u32 watch
  | CallConnect func int "gerror option" user
  | CallConfirm func int user
  | CallDestroy func user

datatype io_value = StrValue string | AddrValue bdaddr | U8Value u8 | U16Value u16 | U32Value u32 | IntValue int | BoolValue bool
  | ClassValue "u8 list"

record bt_os = "bt_call os" +
  os_err :: "gerror option"
  os_out :: "io_value list"

type_synonym 'a bt = "(bt_os, 'a) state"

text \<open>
  The outside: answers of calls that give a number, of those that fill a variable by its type, and the strings.
\<close>

record host =
  k_int :: "bt_call list \<Rightarrow> int + int"
  k_u32 :: "bt_call list \<Rightarrow> int + u32"
  k_u16 :: "bt_call list \<Rightarrow> int + u16"
  k_u8 :: "bt_call list \<Rightarrow> int + u8"
  k_security :: "bt_call list \<Rightarrow> int + bt_security"
  k_l2o :: "bt_call list \<Rightarrow> int + l2cap_options"
  k_sco :: "bt_call list \<Rightarrow> int + u16"
  k_info :: "bt_call list \<Rightarrow> int + conninfo"
  k_l2 :: "bt_call list \<Rightarrow> int + sockaddr_l2"
  k_rc :: "bt_call list \<Rightarrow> int + sockaddr_rc"
  k_scoaddr :: "bt_call list \<Rightarrow> int + sockaddr_sco"
  k_poll :: "bt_call list \<Rightarrow> int + (int \<times> u16)"
  strerror :: "int \<Rightarrow> string"
  str2ba :: "string \<Rightarrow> bdaddr"
  ba2str :: "bdaddr \<Rightarrow> string"

definition BTPROTO_SCO :: int where "BTPROTO_SCO = 2"
definition BTPROTO_RFCOMM :: int where "BTPROTO_RFCOMM = 3"
definition EAGAIN :: int where "EAGAIN = 11"
definition ENOPROTOOPT :: int where "ENOPROTOOPT = 92"
definition EPROTONOSUPPORT :: int where "EPROTONOSUPPORT = 93"
definition EINPROGRESS :: int where "EINPROGRESS = 115"
definition POLLOUT :: u16 where "POLLOUT = 4"
definition POLLNVAL :: u16 where "POLLNVAL = 32"

text \<open>The bits of \<open>L2CAP_LM\<close>; those of \<open>RFCOMM_LM\<close> are the same.\<close>

definition LM_MASTER :: u32 where "LM_MASTER = 0x01"
definition LM_AUTH :: u32 where "LM_AUTH = 0x02"
definition LM_ENCRYPT :: u32 where "LM_ENCRYPT = 0x04"
definition LM_SECURE :: u32 where "LM_SECURE = 0x20"

definition BT_SECURITY_LOW :: int where "BT_SECURITY_LOW = 1"
definition BT_SECURITY_MEDIUM :: int where "BT_SECURITY_MEDIUM = 2"
definition BT_SECURITY_HIGH :: int where "BT_SECURITY_HIGH = 3"

definition L2CAP_MODE_BASIC :: u8 where "L2CAP_MODE_BASIC = 0"
definition BT_IO_MODE_EXT_FLOWCTL :: u8 where "BT_IO_MODE_EXT_FLOWCTL = 4"
definition DEFAULT_DEFER_TIMEOUT :: int where "DEFAULT_DEFER_TIMEOUT = 30"

text \<open>\<open>%d\<close> of \<open>printf\<close>.\<close>

fun dec_nat :: "nat \<Rightarrow> string" where
  "dec_nat n = (if n < 10 then [char_of (n + 48)] else dec_nat (n div 10) @ [char_of (n mod 10 + 48)])"

declare dec_nat.simps [simp del]

definition dec_int :: "int \<Rightarrow> string" where
  "dec_int i = (if i < 0 then CHR ''-'' # dec_nat (nat (- i)) else dec_nat (nat i))"

section \<open>Errors\<close>

definition set_error :: "int \<Rightarrow> string \<Rightarrow> unit bt" where
  "set_error code msg = State (\<lambda>s. ((), case os_err s of
     None \<Rightarrow> s\<lparr>os_err := Some \<lparr>ge_code = code, ge_message = msg\<rparr>\<rparr>
   | Some _ \<Rightarrow> s))"

definition errno_error :: "host \<Rightarrow> string \<Rightarrow> int \<Rightarrow> gerror" where
  "errno_error H str err = \<lparr>ge_code = err, ge_message = str @ '': '' @ strerror H err @ '' ('' @ dec_int err @ '')''\<rparr>"

definition set_gerror :: "gerror \<Rightarrow> unit bt" where
  "set_gerror e = set_error (ge_code e) (ge_message e)"

definition ERROR_FAILED :: "host \<Rightarrow> string \<Rightarrow> int \<Rightarrow> unit bt" where
  "ERROR_FAILED H str err = set_gerror (errno_error H str err)"

text \<open>\<open>ERROR_FAILED(err, str, errno); return FALSE;\<close>\<close>

definition fail_errno :: "host \<Rightarrow> string \<Rightarrow> bool bt" where
  "fail_errno H str = do { e \<leftarrow> get_errno; ERROR_FAILED H str e; ret False }"

definition fail_inval :: "string \<Rightarrow> bool bt" where
  "fail_inval msg = do { set_error EINVAL msg; ret False }"

definition put :: "io_value \<Rightarrow> unit bt" where
  "put v = State (\<lambda>s. ((), s\<lparr>os_out := os_out s @ [v]\<rparr>))"

section \<open>The type of a socket\<close>

datatype BtIOType = BT_IO_L2CAP | BT_IO_RFCOMM | BT_IO_SCO | BT_IO_INVALID

definition bt_io_get_type :: "host \<Rightarrow> int \<Rightarrow> BtIOType bt" where
  "bt_io_get_type H sk = do {
     r \<leftarrow> sys (k_int H) (GetSockOpt sk SOL_SOCKET SO_DOMAIN);
     case r of
       None \<Rightarrow> do { e \<leftarrow> get_errno; ERROR_FAILED H ''getsockopt(SO_DOMAIN)'' e; ret BT_IO_INVALID }
     | Some domain \<Rightarrow>
         if domain \<noteq> AF_BLUETOOTH then do { set_error EINVAL ''BtIO socket domain not AF_BLUETOOTH''; ret BT_IO_INVALID }
         else do {
           r \<leftarrow> sys (k_int H) (GetSockOpt sk SOL_SOCKET SO_PROTOCOL);
           case r of
             None \<Rightarrow> do { e \<leftarrow> get_errno; ERROR_FAILED H ''getsockopt(SO_PROTOCOL)'' e; ret BT_IO_INVALID }
           | Some proto \<Rightarrow>
               if proto = BTPROTO_RFCOMM then ret BT_IO_RFCOMM
               else if proto = BTPROTO_SCO then ret BT_IO_SCO
               else if proto = BTPROTO_L2CAP then ret BT_IO_L2CAP
               else do { set_error EINVAL ''Unknown BtIO socket type''; ret BT_IO_INVALID } } }"

section \<open>The outcome of an attempt\<close>

definition call_destroy :: "func option \<Rightarrow> user \<Rightarrow> unit bt" where
  "call_destroy d ud = (case d of None \<Rightarrow> ret () | Some f \<Rightarrow> tell (CallDestroy f ud))"

definition server_remove :: "server \<Rightarrow> unit bt" where
  "server_remove server = call_destroy (sv_destroy server) (sv_user_data server)"

definition connect_remove :: "connect \<Rightarrow> unit bt" where
  "connect_remove conn = call_destroy (co_destroy conn) (co_user_data conn)"

definition accept_remove :: "accept \<Rightarrow> unit bt" where
  "accept_remove accept = call_destroy (ac_destroy accept) (ac_user_data accept)"

definition check_nval :: "host \<Rightarrow> int \<Rightarrow> bool bt" where
  "check_nval H io = do {
     r \<leftarrow> sys (k_poll H) (Poll io POLLNVAL);
     ret (case r of None \<Rightarrow> False | Some (n, revents) \<Rightarrow> 0 < n \<and> revents AND POLLNVAL \<noteq> 0) }"

text \<open>The error of a socket, as the negative number that the callbacks compute.\<close>

definition socket_error :: "host \<Rightarrow> int \<Rightarrow> int bt" where
  "socket_error H sock = do {
     r \<leftarrow> sys (k_int H) (GetSockOpt sock SOL_SOCKET SO_ERROR);
     case r of None \<Rightarrow> neg_errno | Some sk_err \<Rightarrow> ret (- sk_err) }"

definition accept_cb :: "host \<Rightarrow> int \<Rightarrow> u32 \<Rightarrow> accept \<Rightarrow> bool bt" where
  "accept_cb H io cond accept = do {
     nval \<leftarrow> (if cond AND G_IO_NVAL \<noteq> 0 then ret True else check_nval H io);
     if nval then ret False
     else do {
       gerr \<leftarrow> (if cond AND (G_IO_HUP OR G_IO_ERR) \<noteq> 0 then do {
           err \<leftarrow> socket_error H io;
           ret (if err < 0 then Some (errno_error H ''HUP or ERR on socket'' (- err)) else None) }
         else ret None);
       tell (CallConnect (ac_connect accept) io gerr (ac_user_data accept));
       ret False } }"

definition io_connect_cb :: "host \<Rightarrow> int \<Rightarrow> u32 \<Rightarrow> connect \<Rightarrow> bool bt" where
  "io_connect_cb H io cond conn = do {
     nval \<leftarrow> (if cond AND G_IO_NVAL \<noteq> 0 then ret True else check_nval H io);
     if nval then ret False
     else do {
       err \<leftarrow> socket_error H io;
       let gerr = (if err < 0 then Some (errno_error H (''connect to '' @ ba2str H (co_dst conn)) (- err)) else None);
       tell (CallConnect (co_connect conn) io gerr (co_user_data conn));
       ret False } }"

definition server_cb :: "host \<Rightarrow> int \<Rightarrow> u32 \<Rightarrow> server \<Rightarrow> bool bt" where
  "server_cb H io cond server = do {
     nval \<leftarrow> (if cond AND G_IO_NVAL \<noteq> 0 then ret True else check_nval H io);
     if nval then ret False
     else do {
       r \<leftarrow> sys (k_int H) (Accept io);
       case r of
         None \<Rightarrow> ret True
       | Some cli_sock \<Rightarrow> do {
           tell (ChannelNew cli_sock);
           tell (CloseOnUnref cli_sock);
           tell (NonBlock cli_sock);
           tell (case sv_confirm server of
               Some confirm \<Rightarrow> CallConfirm confirm cli_sock (sv_user_data server)
             | None \<Rightarrow> CallConnect (sv_connect server) cli_sock None (sv_user_data server));
           tell (Unref cli_sock);
           ret True } } }"

definition server_add :: "int \<Rightarrow> func \<Rightarrow> func option \<Rightarrow> user \<Rightarrow> func option \<Rightarrow> unit bt" where
  "server_add io connect confirm user_data destroy =
     tell (AddWatch io (G_IO_IN OR G_IO_ERR OR G_IO_HUP OR G_IO_NVAL)
       (ServerWatch \<lparr>sv_connect = connect, sv_confirm = confirm, sv_user_data = user_data, sv_destroy = destroy\<rparr>))"

definition connect_add :: "int \<Rightarrow> func \<Rightarrow> bdaddr \<Rightarrow> user \<Rightarrow> func option \<Rightarrow> unit bt" where
  "connect_add io connect dst user_data destroy =
     tell (AddWatch io (G_IO_OUT OR G_IO_ERR OR G_IO_HUP OR G_IO_NVAL)
       (ConnectWatch \<lparr>co_connect = connect, co_user_data = user_data, co_destroy = destroy, co_dst = dst\<rparr>))"

definition accept_add :: "int \<Rightarrow> func \<Rightarrow> user \<Rightarrow> func option \<Rightarrow> unit bt" where
  "accept_add io connect user_data destroy =
     tell (AddWatch io (G_IO_OUT OR G_IO_ERR OR G_IO_HUP OR G_IO_NVAL)
       (AcceptWatch \<lparr>ac_connect = connect, ac_user_data = user_data, ac_destroy = destroy\<rparr>))"

section \<open>Binding and connecting\<close>

text \<open>A failed \<open>bind\<close> sets the error and gives \<open>-errno\<close>.\<close>

definition bind_to :: "host \<Rightarrow> string \<Rightarrow> int \<Rightarrow> sockaddr \<Rightarrow> int bt" where
  "bind_to H name sock addr = do {
     r \<leftarrow> sys (k_int H) (Bind sock addr);
     case r of
       None \<Rightarrow> do { e \<leftarrow> get_errno; ERROR_FAILED H name e; ret (- e) }
     | Some _ \<Rightarrow> ret 0 }"

text \<open>A \<open>connect\<close> that is under way is not a failure.\<close>

definition connect_to :: "host \<Rightarrow> int \<Rightarrow> sockaddr \<Rightarrow> int bt" where
  "connect_to H sock addr = do {
     r \<leftarrow> sys (k_int H) (Connect sock addr);
     case r of
       None \<Rightarrow> do { e \<leftarrow> get_errno; if \<not> (e = EAGAIN \<or> e = EINPROGRESS) then ret (- e) else ret 0 }
     | Some _ \<Rightarrow> ret 0 }"

definition l2cap_addr :: "bdaddr \<Rightarrow> u8 \<Rightarrow> u16 \<Rightarrow> u16 \<Rightarrow> sockaddr" where
  "l2cap_addr ba type psm cid = L2Addr \<lparr>l2_psm = (if cid \<noteq> 0 then 0 else psm), l2_bdaddr = ba, l2_cid = cid, l2_bdaddr_type = type\<rparr>"

definition l2cap_bind :: "host \<Rightarrow> int \<Rightarrow> bdaddr \<Rightarrow> u8 \<Rightarrow> u16 \<Rightarrow> u16 \<Rightarrow> int bt" where
  "l2cap_bind H sock src src_type psm cid = bind_to H ''l2cap_bind'' sock (l2cap_addr src src_type psm cid)"

definition l2cap_connect :: "host \<Rightarrow> int \<Rightarrow> bdaddr \<Rightarrow> u8 \<Rightarrow> u16 \<Rightarrow> u16 \<Rightarrow> int bt" where
  "l2cap_connect H sock dst dst_type psm cid = connect_to H sock (l2cap_addr dst dst_type psm cid)"

definition rfcomm_bind :: "host \<Rightarrow> int \<Rightarrow> bdaddr \<Rightarrow> u8 \<Rightarrow> int bt" where
  "rfcomm_bind H sock src channel = bind_to H ''rfcomm_bind'' sock (RcAddr \<lparr>rc_bdaddr = src, rc_channel = channel\<rparr>)"

definition rfcomm_connect :: "host \<Rightarrow> int \<Rightarrow> bdaddr \<Rightarrow> u8 \<Rightarrow> int bt" where
  "rfcomm_connect H sock dst channel = connect_to H sock (RcAddr \<lparr>rc_bdaddr = dst, rc_channel = channel\<rparr>)"

definition sco_bind :: "host \<Rightarrow> int \<Rightarrow> bdaddr \<Rightarrow> int bt" where
  "sco_bind H sock src = bind_to H ''sco_bind'' sock (ScoAddr \<lparr>sco_bdaddr = src\<rparr>)"

definition sco_connect :: "host \<Rightarrow> int \<Rightarrow> bdaddr \<Rightarrow> int bt" where
  "sco_connect H sock dst = connect_to H sock (ScoAddr \<lparr>sco_bdaddr = dst\<rparr>)"

section \<open>Setting options\<close>

definition setsockopt :: "host \<Rightarrow> int \<Rightarrow> level \<Rightarrow> sockopt \<Rightarrow> optval \<Rightarrow> int option bt" where
  "setsockopt H sock level opt v = sys (k_int H) (SetSockOpt sock level opt v)"

definition set_status :: "host \<Rightarrow> int \<Rightarrow> level \<Rightarrow> sockopt \<Rightarrow> optval \<Rightarrow> int bt" where
  "set_status H sock level opt v = sys_status (k_int H) (SetSockOpt sock level opt v)"

text \<open>A bit that already has the wanted value is not written.\<close>

definition set_master :: "host \<Rightarrow> level \<Rightarrow> sockopt \<Rightarrow> int \<Rightarrow> int \<Rightarrow> int bt" where
  "set_master H level opt sock master = do {
     r \<leftarrow> sys (k_u32 H) (GetSockOpt sock level opt);
     case r of
       None \<Rightarrow> neg_errno
     | Some flags \<Rightarrow>
         if master \<noteq> 0 then
           if flags AND LM_MASTER \<noteq> 0 then ret 0 else set_status H sock level opt (OptU32 (flags OR LM_MASTER))
         else
           if flags AND LM_MASTER = 0 then ret 0 else set_status H sock level opt (OptU32 (flags AND NOT LM_MASTER)) }"

definition l2cap_set_master :: "host \<Rightarrow> int \<Rightarrow> int \<Rightarrow> int bt" where
  "l2cap_set_master H sock master = set_master H SOL_L2CAP L2CAP_LM sock master"

definition rfcomm_set_master :: "host \<Rightarrow> int \<Rightarrow> int \<Rightarrow> int bt" where
  "rfcomm_set_master H sock master = set_master H SOL_RFCOMM RFCOMM_LM sock master"

definition lm_map :: "u32 list" where
  "lm_map = [0, LM_AUTH, LM_AUTH OR LM_ENCRYPT, LM_AUTH OR LM_ENCRYPT OR LM_SECURE]"

text \<open>The index is in range wherever these functions are called, see \<open>set_sec_level\<close>.\<close>

definition l2cap_set_lm :: "host \<Rightarrow> int \<Rightarrow> int \<Rightarrow> int bt" where
  "l2cap_set_lm H sock level = set_status H sock SOL_L2CAP L2CAP_LM (OptU32 (lm_map ! nat level))"

definition rfcomm_set_lm :: "host \<Rightarrow> int \<Rightarrow> int \<Rightarrow> int bt" where
  "rfcomm_set_lm H sock level = set_status H sock SOL_RFCOMM RFCOMM_LM (OptU32 (lm_map ! nat level))"

definition set_sec_level :: "host \<Rightarrow> int \<Rightarrow> BtIOType \<Rightarrow> int \<Rightarrow> bool bt" where
  "set_sec_level H sock type level =
     (if level < BT_SECURITY_LOW \<or> level > BT_SECURITY_HIGH then fail_inval ''Valid security level range is 1-3''
      else do {
        r \<leftarrow> setsockopt H sock SOL_BLUETOOTH BT_SECURITY (OptSecurity \<lparr>bts_level = word_of_int level, bts_key_size = 0\<rparr>);
        case r of
          Some _ \<Rightarrow> ret True
        | None \<Rightarrow> do {
            e \<leftarrow> get_errno;
            if e \<noteq> ENOPROTOOPT then fail_errno H ''setsockopt(BT_SECURITY)''
            else do {
              r \<leftarrow> (if type = BT_IO_L2CAP then l2cap_set_lm H sock level else rfcomm_set_lm H sock level);
              if r < 0 then do { ERROR_FAILED H ''setsockopt(LM)'' (- r); ret False }
              else ret True } } })"

definition l2cap_set_flushable :: "host \<Rightarrow> int \<Rightarrow> int \<Rightarrow> int bt" where
  "l2cap_set_flushable H sock flushable = set_status H sock SOL_BLUETOOTH BT_FLUSHABLE (OptInt flushable)"

definition set_priority :: "host \<Rightarrow> int \<Rightarrow> u32 \<Rightarrow> int bt" where
  "set_priority H sock prio = set_status H sock SOL_SOCKET SO_PRIORITY (OptU32 prio)"

definition set_l2opts :: "host \<Rightarrow> int \<Rightarrow> u16 \<Rightarrow> u16 \<Rightarrow> u8 \<Rightarrow> bool bt" where
  "set_l2opts H sock imtu omtu mode = do {
     r \<leftarrow> sys (k_l2o H) (GetSockOpt sock SOL_L2CAP L2CAP_OPTIONS);
     case r of
       None \<Rightarrow> fail_errno H ''getsockopt(L2CAP_OPTIONS)''
     | Some l2o \<Rightarrow> do {
         let l2o = (if imtu \<noteq> 0 then l2o\<lparr>l2o_imtu := imtu\<rparr> else l2o);
         let l2o = (if omtu \<noteq> 0 then l2o\<lparr>l2o_omtu := omtu\<rparr> else l2o);
         let l2o = (if mode \<noteq> 0 then l2o\<lparr>l2o_mode := mode\<rparr> else l2o);
         r \<leftarrow> setsockopt H sock SOL_L2CAP L2CAP_OPTIONS (OptL2 l2o);
         case r of None \<Rightarrow> fail_errno H ''setsockopt(L2CAP_OPTIONS)'' | Some _ \<Rightarrow> ret True } }"

definition set_or_fail :: "host \<Rightarrow> string \<Rightarrow> int \<Rightarrow> level \<Rightarrow> sockopt \<Rightarrow> optval \<Rightarrow> bool bt" where
  "set_or_fail H str sock level opt v = do {
     r \<leftarrow> setsockopt H sock level opt v;
     case r of None \<Rightarrow> fail_errno H str | Some _ \<Rightarrow> ret True }"

definition set_le_imtu :: "host \<Rightarrow> int \<Rightarrow> u16 \<Rightarrow> bool bt" where
  "set_le_imtu H sock imtu = set_or_fail H ''setsockopt(BT_RCVMTU)'' sock SOL_BLUETOOTH BT_RCVMTU (OptU16 imtu)"

definition set_le_mode :: "host \<Rightarrow> int \<Rightarrow> u8 \<Rightarrow> bool bt" where
  "set_le_mode H sock mode = set_or_fail H ''setsockopt(BT_MODE)'' sock SOL_BLUETOOTH BT_MODE (OptU8 mode)"

text \<open>One step of a setter: on a negative result the error is set and the rest is skipped.\<close>

definition or_fail :: "host \<Rightarrow> string \<Rightarrow> int bt \<Rightarrow> bool bt \<Rightarrow> bool bt" where
  "or_fail H str step rest = do { r \<leftarrow> step; if r < 0 then fail_errno H str else rest }"

text \<open>On an LE socket without an incoming MTU \<open>ret\<close> keeps its initial value FALSE.\<close>

definition l2cap_set_mtus :: "host \<Rightarrow> int \<Rightarrow> u8 \<Rightarrow> u16 \<Rightarrow> u16 \<Rightarrow> u8 \<Rightarrow> bool bt" where
  "l2cap_set_mtus H sock src_type imtu omtu mode =
     (if src_type = BDADDR_BREDR then set_l2opts H sock imtu omtu mode
      else do {
        r \<leftarrow> (if imtu \<noteq> 0 then set_le_imtu H sock imtu else ret False);
        if r \<and> mode \<noteq> 0 then set_le_mode H sock mode else ret r })"

definition l2cap_set ::
  "host \<Rightarrow> int \<Rightarrow> u8 \<Rightarrow> int \<Rightarrow> u16 \<Rightarrow> u16 \<Rightarrow> u8 \<Rightarrow> int \<Rightarrow> int \<Rightarrow> u32 \<Rightarrow> bool bt"
where
  "l2cap_set H sock src_type sec_level imtu omtu mode master flushable priority = do {
     r \<leftarrow> (if imtu \<noteq> 0 \<or> omtu \<noteq> 0 \<or> mode \<noteq> 0 then l2cap_set_mtus H sock src_type imtu omtu mode else ret True);
     if \<not> r then ret False
     else or_fail H ''l2cap_set_master'' (if 0 \<le> master then l2cap_set_master H sock master else ret 0)
       (or_fail H ''l2cap_set_flushable'' (if 0 \<le> flushable then l2cap_set_flushable H sock flushable else ret 0)
       (or_fail H ''set_priority'' (if 0 < priority then set_priority H sock priority else ret 0)
       (if sec_level \<noteq> 0 then set_sec_level H sock BT_IO_L2CAP sec_level else ret True))) }"

definition rfcomm_set :: "host \<Rightarrow> int \<Rightarrow> int \<Rightarrow> int \<Rightarrow> bool bt" where
  "rfcomm_set H sock sec_level master = do {
     r \<leftarrow> (if sec_level \<noteq> 0 then set_sec_level H sock BT_IO_RFCOMM sec_level else ret True);
     if \<not> r then ret False
     else or_fail H ''rfcomm_set_master'' (if 0 \<le> master then rfcomm_set_master H sock master else ret 0) (ret True) }"

definition sco_set :: "host \<Rightarrow> int \<Rightarrow> u16 \<Rightarrow> u16 \<Rightarrow> bool bt" where
  "sco_set H sock mtu voice = do {
     r \<leftarrow> (if mtu = 0 then ret True
       else do {
         r \<leftarrow> sys (k_sco H) (GetSockOpt sock SOL_SCO SCO_OPTIONS);
         case r of
           None \<Rightarrow> fail_errno H ''getsockopt(SCO_OPTIONS)''
         | Some _ \<Rightarrow> set_or_fail H ''setsockopt(SCO_OPTIONS)'' sock SOL_SCO SCO_OPTIONS (OptSco mtu) });
     if \<not> r then ret False
     else if voice = 0 then ret True
     else set_or_fail H ''setsockopt(BT_VOICE)'' sock SOL_BLUETOOTH BT_VOICE (OptVoice voice) }"

section \<open>Options for a new socket\<close>

record set_opts =
  o_src :: bdaddr
  o_dst :: bdaddr
  o_type :: BtIOType
  o_src_type :: u8
  o_dst_type :: u8
  o_defer :: int
  o_sec_level :: int
  o_channel :: u8
  o_psm :: u16
  o_cid :: u16
  o_mtu :: u16
  o_imtu :: u16
  o_omtu :: u16
  o_master :: int
  o_mode :: u8
  o_flushable :: int
  o_priority :: u32
  o_voice :: u16

text \<open>
  The options of \<open>btio.h\<close> by name, and other numbers. For a setter every option that \<open>parse_set_opts\<close> knows
  comes with its argument.
\<close>

datatype BtIOOption = BT_IO_OPT_SOURCE | BT_IO_OPT_SOURCE_BDADDR | BT_IO_OPT_SOURCE_TYPE | BT_IO_OPT_DEST | BT_IO_OPT_DEST_BDADDR
  | BT_IO_OPT_DEST_TYPE | BT_IO_OPT_DEFER_TIMEOUT | BT_IO_OPT_SEC_LEVEL | BT_IO_OPT_KEY_SIZE | BT_IO_OPT_CHANNEL
  | BT_IO_OPT_SOURCE_CHANNEL | BT_IO_OPT_DEST_CHANNEL | BT_IO_OPT_PSM | BT_IO_OPT_CID | BT_IO_OPT_MTU | BT_IO_OPT_OMTU
  | BT_IO_OPT_IMTU | BT_IO_OPT_MASTER | BT_IO_OPT_HANDLE | BT_IO_OPT_CLASS | BT_IO_OPT_MODE | BT_IO_OPT_FLUSHABLE
  | BT_IO_OPT_PRIORITY | BT_IO_OPT_VOICE | BT_IO_OPT_PHY | OtherOption int

fun opt_number :: "BtIOOption \<Rightarrow> int" where
  "opt_number BT_IO_OPT_SOURCE = 1"
| "opt_number BT_IO_OPT_SOURCE_BDADDR = 2"
| "opt_number BT_IO_OPT_SOURCE_TYPE = 3"
| "opt_number BT_IO_OPT_DEST = 4"
| "opt_number BT_IO_OPT_DEST_BDADDR = 5"
| "opt_number BT_IO_OPT_DEST_TYPE = 6"
| "opt_number BT_IO_OPT_DEFER_TIMEOUT = 7"
| "opt_number BT_IO_OPT_SEC_LEVEL = 8"
| "opt_number BT_IO_OPT_KEY_SIZE = 9"
| "opt_number BT_IO_OPT_CHANNEL = 10"
| "opt_number BT_IO_OPT_SOURCE_CHANNEL = 11"
| "opt_number BT_IO_OPT_DEST_CHANNEL = 12"
| "opt_number BT_IO_OPT_PSM = 13"
| "opt_number BT_IO_OPT_CID = 14"
| "opt_number BT_IO_OPT_MTU = 15"
| "opt_number BT_IO_OPT_OMTU = 16"
| "opt_number BT_IO_OPT_IMTU = 17"
| "opt_number BT_IO_OPT_MASTER = 18"
| "opt_number BT_IO_OPT_HANDLE = 19"
| "opt_number BT_IO_OPT_CLASS = 20"
| "opt_number BT_IO_OPT_MODE = 21"
| "opt_number BT_IO_OPT_FLUSHABLE = 22"
| "opt_number BT_IO_OPT_PRIORITY = 23"
| "opt_number BT_IO_OPT_VOICE = 24"
| "opt_number BT_IO_OPT_PHY = 25"
| "opt_number (OtherOption n) = n"

datatype set_option = SetSource string | SetSourceBdaddr bdaddr | SetSourceType int | SetDest string | SetDestBdaddr bdaddr
  | SetDestType int | SetDeferTimeout int | SetSecLevel int | SetChannel int | SetPsm int | SetCid int | SetMtu int | SetOmtu int
  | SetImtu int | SetMaster int | SetMode int | SetFlushable int | SetPriority int | SetVoice int | SetUnknown BtIOOption

definition unknown_option :: "BtIOOption \<Rightarrow> bool bt" where
  "unknown_option opt = fail_inval (''Unknown option '' @ dec_int (opt_number opt))"

definition default_opts :: set_opts where
  "default_opts = \<lparr>o_src = BDADDR_ANY, o_dst = BDADDR_ANY, o_type = BT_IO_SCO, o_src_type = BDADDR_BREDR, o_dst_type = BDADDR_BREDR,
     o_defer = DEFAULT_DEFER_TIMEOUT, o_sec_level = 0, o_channel = 0, o_psm = 0, o_cid = 0, o_mtu = 0, o_imtu = 0, o_omtu = 0,
     o_master = - 1, o_mode = L2CAP_MODE_BASIC, o_flushable = - 1, o_priority = 0, o_voice = 0\<rparr>"

fun apply_option :: "host \<Rightarrow> set_option \<Rightarrow> set_opts \<Rightarrow> set_opts" where
  "apply_option H (SetSource str) opts = opts\<lparr>o_src := str2ba H str\<rparr>"
| "apply_option H (SetSourceBdaddr ba) opts = opts\<lparr>o_src := ba\<rparr>"
| "apply_option H (SetSourceType i) opts = opts\<lparr>o_src_type := word_of_int i\<rparr>"
| "apply_option H (SetDest str) opts = opts\<lparr>o_dst := str2ba H str\<rparr>"
| "apply_option H (SetDestBdaddr ba) opts = opts\<lparr>o_dst := ba\<rparr>"
| "apply_option H (SetDestType i) opts = opts\<lparr>o_dst_type := word_of_int i\<rparr>"
| "apply_option H (SetDeferTimeout i) opts = opts\<lparr>o_defer := i\<rparr>"
| "apply_option H (SetSecLevel i) opts = opts\<lparr>o_sec_level := i\<rparr>"
| "apply_option H (SetChannel i) opts = opts\<lparr>o_type := BT_IO_RFCOMM, o_channel := word_of_int i\<rparr>"
| "apply_option H (SetPsm i) opts = opts\<lparr>o_type := BT_IO_L2CAP, o_psm := word_of_int i\<rparr>"
| "apply_option H (SetCid i) opts = opts\<lparr>o_type := BT_IO_L2CAP, o_cid := word_of_int i\<rparr>"
| "apply_option H (SetMtu i) opts = opts\<lparr>o_mtu := word_of_int i, o_imtu := word_of_int i, o_omtu := word_of_int i\<rparr>"
| "apply_option H (SetOmtu i) opts =
     opts\<lparr>o_omtu := word_of_int i, o_mtu := (if o_mtu opts = 0 then word_of_int i else o_mtu opts)\<rparr>"
| "apply_option H (SetImtu i) opts =
     opts\<lparr>o_imtu := word_of_int i, o_mtu := (if o_mtu opts = 0 then word_of_int i else o_mtu opts)\<rparr>"
| "apply_option H (SetMaster i) opts = opts\<lparr>o_master := i\<rparr>"
| "apply_option H (SetMode i) opts = opts\<lparr>o_mode := word_of_int i\<rparr>"
| "apply_option H (SetFlushable i) opts = opts\<lparr>o_flushable := i\<rparr>"
| "apply_option H (SetPriority i) opts = opts\<lparr>o_priority := word_of_int i\<rparr>"
| "apply_option H (SetVoice i) opts = opts\<lparr>o_voice := word_of_int i\<rparr>"
| "apply_option H (SetUnknown opt) opts = opts"

text \<open>The loop of \<open>parse_set_opts\<close>: \<open>False\<close> with the options so far after an unknown one.\<close>

fun parse_opts_loop :: "host \<Rightarrow> set_opts \<Rightarrow> set_option list \<Rightarrow> (bool \<times> set_opts) bt" where
  "parse_opts_loop H opts [] = ret (True, opts)"
| "parse_opts_loop H opts (SetUnknown opt # rest) = do { r \<leftarrow> unknown_option opt; ret (r, opts) }"
| "parse_opts_loop H opts (opt # rest) = parse_opts_loop H (apply_option H opt opts) rest"

definition parse_set_opts :: "host \<Rightarrow> set_option list \<Rightarrow> (bool \<times> set_opts) bt" where
  "parse_set_opts H args = parse_opts_loop H default_opts args"

section \<open>Reading options\<close>

text \<open>A call that fills a variable, with the error on failure.\<close>

definition get_or_fail :: "host \<Rightarrow> string \<Rightarrow> (bt_call list \<Rightarrow> int + 'a) \<Rightarrow> bt_call \<Rightarrow> 'a option bt" where
  "get_or_fail H str answer c = do {
     r \<leftarrow> sys answer c;
     case r of
       None \<Rightarrow> do { _ \<leftarrow> fail_errno H str; ret None }
     | Some x \<Rightarrow> ret (Some x) }"

definition get_src :: "host \<Rightarrow> (bt_call list \<Rightarrow> int + 'a) \<Rightarrow> int \<Rightarrow> 'a option bt" where
  "get_src H answer sock = get_or_fail H ''getsockname'' answer (GetSockName sock)"

definition get_dst :: "host \<Rightarrow> (bt_call list \<Rightarrow> int + 'a) \<Rightarrow> int \<Rightarrow> 'a option bt" where
  "get_dst H answer sock = get_or_fail H ''getpeername'' answer (GetPeerName sock)"

text \<open>\<open>l2cap_get_lm\<close> and \<open>rfcomm_get_lm\<close>: the highest level whose bit is set.\<close>

definition lm_level :: "u32 \<Rightarrow> int" where
  "lm_level opt =
     (if opt AND LM_SECURE \<noteq> 0 then BT_SECURITY_HIGH
      else if opt AND LM_ENCRYPT \<noteq> 0 then BT_SECURITY_MEDIUM
      else if opt AND LM_AUTH \<noteq> 0 then BT_SECURITY_LOW
      else 0)"

definition get_lm :: "host \<Rightarrow> int \<Rightarrow> level \<Rightarrow> sockopt \<Rightarrow> (int + int) bt" where
  "get_lm H sock level opt = do {
     r \<leftarrow> sys (k_u32 H) (GetSockOpt sock level opt);
     case r of
       None \<Rightarrow> do { e \<leftarrow> neg_errno; ret (Inl e) }
     | Some v \<Rightarrow> ret (Inr (lm_level v)) }"

definition l2cap_get_lm :: "host \<Rightarrow> int \<Rightarrow> (int + int) bt" where
  "l2cap_get_lm H sock = get_lm H sock SOL_L2CAP L2CAP_LM"

definition rfcomm_get_lm :: "host \<Rightarrow> int \<Rightarrow> (int + int) bt" where
  "rfcomm_get_lm H sock = get_lm H sock SOL_RFCOMM RFCOMM_LM"

text \<open>A function that stores a value through a pointer stores it in \<open>os_out\<close>.\<close>

definition get_sec_level :: "host \<Rightarrow> int \<Rightarrow> BtIOType \<Rightarrow> bool bt" where
  "get_sec_level H sock type = do {
     r \<leftarrow> sys (k_security H) (GetSockOpt sock SOL_BLUETOOTH BT_SECURITY);
     case r of
       Some sec \<Rightarrow> do { put (IntValue (uint (bts_level sec))); ret True }
     | None \<Rightarrow> do {
         e \<leftarrow> get_errno;
         if e \<noteq> ENOPROTOOPT then fail_errno H ''getsockopt(BT_SECURITY)''
         else do {
           r \<leftarrow> (if type = BT_IO_L2CAP then l2cap_get_lm H sock else rfcomm_get_lm H sock);
           case r of
             Inl r \<Rightarrow> if r < 0 then do { ERROR_FAILED H ''getsockopt(LM)'' (- r); ret False } else ret True
           | Inr level \<Rightarrow> do { put (IntValue level); ret True } } } }"

text \<open>This one fails without an error.\<close>

definition get_key_size :: "host \<Rightarrow> int \<Rightarrow> bool bt" where
  "get_key_size H sock = do {
     r \<leftarrow> sys (k_security H) (GetSockOpt sock SOL_BLUETOOTH BT_SECURITY);
     case r of
       Some sec \<Rightarrow> do { put (IntValue (uint (bts_key_size sec))); ret True }
     | None \<Rightarrow> ret False }"

text \<open>\<open>l2cap_get_info\<close>, \<open>rfcomm_get_info\<close> and \<open>sco_get_info\<close>; the caller sets the error.\<close>

definition get_info :: "host \<Rightarrow> string \<Rightarrow> int \<Rightarrow> level \<Rightarrow> sockopt \<Rightarrow> (conninfo \<Rightarrow> io_value) \<Rightarrow> bool bt" where
  "get_info H str sock level opt f = do {
     r \<leftarrow> get_or_fail H str (k_info H) (GetSockOpt sock level opt);
     case r of None \<Rightarrow> ret False | Some info \<Rightarrow> do { put (f info); ret True } }"

definition l2cap_get_info :: "host \<Rightarrow> int \<Rightarrow> (conninfo \<Rightarrow> io_value) \<Rightarrow> bool bt" where
  "l2cap_get_info H sock f = get_info H ''L2CAP_CONNINFO'' sock SOL_L2CAP L2CAP_CONNINFO f"

definition rfcomm_get_info :: "host \<Rightarrow> int \<Rightarrow> (conninfo \<Rightarrow> io_value) \<Rightarrow> bool bt" where
  "rfcomm_get_info H sock f = get_info H ''RFCOMM_CONNINFO'' sock SOL_RFCOMM RFCOMM_CONNINFO f"

definition sco_get_info :: "host \<Rightarrow> int \<Rightarrow> (conninfo \<Rightarrow> io_value) \<Rightarrow> bool bt" where
  "sco_get_info H sock f = get_info H ''SCO_CONNINFO'' sock SOL_SCO SCO_CONNINFO f"

definition handle_value :: "conninfo \<Rightarrow> io_value" where "handle_value info = U16Value (hci_handle info)"
definition class_value :: "conninfo \<Rightarrow> io_value" where "class_value info = ClassValue (take 3 (hci_dev_class info))"

definition get_u32_option :: "host \<Rightarrow> string \<Rightarrow> int \<Rightarrow> level \<Rightarrow> sockopt \<Rightarrow> (u32 \<Rightarrow> io_value) \<Rightarrow> bool bt" where
  "get_u32_option H str sock level opt f = do {
     r \<leftarrow> get_or_fail H str (k_u32 H) (GetSockOpt sock level opt);
     case r of None \<Rightarrow> ret False | Some x \<Rightarrow> do { put (f x); ret True } }"

definition l2cap_get_flushable :: "host \<Rightarrow> int \<Rightarrow> bool bt" where
  "l2cap_get_flushable H sock = get_u32_option H ''get_flushable'' sock SOL_BLUETOOTH BT_FLUSHABLE (\<lambda>f. BoolValue (f \<noteq> 0))"

definition get_priority :: "host \<Rightarrow> int \<Rightarrow> bool bt" where
  "get_priority H sock = get_u32_option H ''get_priority'' sock SOL_SOCKET SO_PRIORITY U32Value"

definition get_phy :: "host \<Rightarrow> int \<Rightarrow> bool bt" where
  "get_phy H sock = get_u32_option H ''get_phy'' sock SOL_BLUETOOTH BT_PHY U32Value"

definition get_defer :: "host \<Rightarrow> int \<Rightarrow> bool bt" where
  "get_defer H sock = do {
     r \<leftarrow> get_or_fail H ''getsockopt(DEFER_SETUP)'' (k_int H) (GetSockOpt sock SOL_BLUETOOTH BT_DEFER_SETUP);
     case r of None \<Rightarrow> ret False | Some x \<Rightarrow> do { put (IntValue x); ret True } }"

definition master_value :: "u32 \<Rightarrow> io_value" where
  "master_value flags = BoolValue (flags AND LM_MASTER \<noteq> 0)"

text \<open>
  One option of a getter: whether the loop goes on, and the address of the peer once it has been asked for.
\<close>

definition with_dst ::
  "host \<Rightarrow> (bt_call list \<Rightarrow> int + 'a) \<Rightarrow> int \<Rightarrow> 'a option \<Rightarrow> ('a \<Rightarrow> io_value) \<Rightarrow> (bool \<times> 'a option) bt"
where
  "with_dst H answer sock dst f = do {
     dst \<leftarrow> (if dst \<noteq> None then ret dst else get_dst H answer sock);
     case dst of None \<Rightarrow> ret (False, None) | Some d \<Rightarrow> do { put (f d); ret (True, Some d) } }"

definition put_on :: "'a option \<Rightarrow> io_value \<Rightarrow> (bool \<times> 'a option) bt" where
  "put_on dst v = do { put v; ret (True, dst) }"

definition keeping :: "'a option \<Rightarrow> bool bt \<Rightarrow> (bool \<times> 'a option) bt" where
  "keeping dst m = do { r \<leftarrow> m; ret (r, dst) }"

definition l2cap_get_omtu :: "host \<Rightarrow> int \<Rightarrow> sockaddr_l2 \<Rightarrow> l2cap_options \<Rightarrow> bool bt" where
  "l2cap_get_omtu H sock src l2o =
     (if l2_bdaddr_type src = BDADDR_BREDR then do { put (U16Value (l2o_omtu l2o)); ret True }
      else do {
        r \<leftarrow> get_or_fail H ''getsockopt(BT_SNDMTU)'' (k_u16 H) (GetSockOpt sock SOL_BLUETOOTH BT_SNDMTU);
        case r of None \<Rightarrow> ret False | Some m \<Rightarrow> do { put (U16Value m); ret True } })"

definition l2cap_get_option ::
  "host \<Rightarrow> int \<Rightarrow> sockaddr_l2 \<Rightarrow> l2cap_options \<Rightarrow> sockaddr_l2 option \<Rightarrow> BtIOOption \<Rightarrow> (bool \<times> sockaddr_l2 option) bt"
where
  "l2cap_get_option H sock src l2o dst opt = (case opt of
     BT_IO_OPT_SOURCE \<Rightarrow> put_on dst (StrValue (ba2str H (l2_bdaddr src)))
   | BT_IO_OPT_SOURCE_BDADDR \<Rightarrow> put_on dst (AddrValue (l2_bdaddr src))
   | BT_IO_OPT_DEST \<Rightarrow> with_dst H (k_l2 H) sock dst (\<lambda>d. StrValue (ba2str H (l2_bdaddr d)))
   | BT_IO_OPT_DEST_BDADDR \<Rightarrow> with_dst H (k_l2 H) sock dst (\<lambda>d. AddrValue (l2_bdaddr d))
   | BT_IO_OPT_DEST_TYPE \<Rightarrow> with_dst H (k_l2 H) sock dst (\<lambda>d. U8Value (l2_bdaddr_type d))
   | BT_IO_OPT_DEFER_TIMEOUT \<Rightarrow> keeping dst (get_defer H sock)
   | BT_IO_OPT_SEC_LEVEL \<Rightarrow> keeping dst (get_sec_level H sock BT_IO_L2CAP)
   | BT_IO_OPT_KEY_SIZE \<Rightarrow> keeping dst (get_key_size H sock)
   | BT_IO_OPT_PSM \<Rightarrow>
       if l2_psm src \<noteq> 0 then put_on dst (U16Value (l2_psm src))
       else with_dst H (k_l2 H) sock dst (\<lambda>d. U16Value (l2_psm d))
   | BT_IO_OPT_CID \<Rightarrow>
       if l2_cid src \<noteq> 0 then put_on dst (U16Value (l2_cid src))
       else with_dst H (k_l2 H) sock dst (\<lambda>d. U16Value (l2_cid d))
   | BT_IO_OPT_OMTU \<Rightarrow> keeping dst (l2cap_get_omtu H sock src l2o)
   | BT_IO_OPT_IMTU \<Rightarrow> put_on dst (U16Value (l2o_imtu l2o))
   | BT_IO_OPT_MASTER \<Rightarrow>
       keeping dst (get_u32_option H ''getsockopt(L2CAP_LM)'' sock SOL_L2CAP L2CAP_LM master_value)
   | BT_IO_OPT_HANDLE \<Rightarrow> keeping dst (l2cap_get_info H sock handle_value)
   | BT_IO_OPT_CLASS \<Rightarrow> keeping dst (l2cap_get_info H sock class_value)
   | BT_IO_OPT_MODE \<Rightarrow> put_on dst (U8Value (l2o_mode l2o))
   | BT_IO_OPT_FLUSHABLE \<Rightarrow> keeping dst (l2cap_get_flushable H sock)
   | BT_IO_OPT_PRIORITY \<Rightarrow> keeping dst (get_priority H sock)
   | BT_IO_OPT_PHY \<Rightarrow> keeping dst (get_phy H sock)
   | _ \<Rightarrow> keeping dst (unknown_option opt))"

definition rfcomm_get_option ::
  "host \<Rightarrow> int \<Rightarrow> sockaddr_rc \<Rightarrow> sockaddr_rc option \<Rightarrow> BtIOOption \<Rightarrow> (bool \<times> sockaddr_rc option) bt"
where
  "rfcomm_get_option H sock src dst opt = (case opt of
     BT_IO_OPT_SOURCE \<Rightarrow> put_on dst (StrValue (ba2str H (rc_bdaddr src)))
   | BT_IO_OPT_SOURCE_BDADDR \<Rightarrow> put_on dst (AddrValue (rc_bdaddr src))
   | BT_IO_OPT_DEST \<Rightarrow> with_dst H (k_rc H) sock dst (\<lambda>d. StrValue (ba2str H (rc_bdaddr d)))
   | BT_IO_OPT_DEST_BDADDR \<Rightarrow> with_dst H (k_rc H) sock dst (\<lambda>d. AddrValue (rc_bdaddr d))
   | BT_IO_OPT_DEFER_TIMEOUT \<Rightarrow> keeping dst (get_defer H sock)
   | BT_IO_OPT_SEC_LEVEL \<Rightarrow> keeping dst (get_sec_level H sock BT_IO_RFCOMM)
   | BT_IO_OPT_CHANNEL \<Rightarrow>
       if rc_channel src \<noteq> 0 then put_on dst (U8Value (rc_channel src))
       else with_dst H (k_rc H) sock dst (\<lambda>d. U8Value (rc_channel d))
   | BT_IO_OPT_SOURCE_CHANNEL \<Rightarrow> put_on dst (U8Value (rc_channel src))
   | BT_IO_OPT_DEST_CHANNEL \<Rightarrow> with_dst H (k_rc H) sock dst (\<lambda>d. U8Value (rc_channel d))
   | BT_IO_OPT_MASTER \<Rightarrow>
       keeping dst (get_u32_option H ''getsockopt(RFCOMM_LM)'' sock SOL_RFCOMM RFCOMM_LM master_value)
   | BT_IO_OPT_HANDLE \<Rightarrow> keeping dst (rfcomm_get_info H sock handle_value)
   | BT_IO_OPT_CLASS \<Rightarrow> keeping dst (rfcomm_get_info H sock class_value)
   | BT_IO_OPT_PHY \<Rightarrow> keeping dst (get_phy H sock)
   | _ \<Rightarrow> keeping dst (unknown_option opt))"

definition sco_get_option :: "host \<Rightarrow> int \<Rightarrow> sockaddr_sco \<Rightarrow> sockaddr_sco \<Rightarrow> u16 \<Rightarrow> BtIOOption \<Rightarrow> bool bt" where
  "sco_get_option H sock src dst mtu opt = (
     let store = (\<lambda>v. do { put v; ret True }) in
     case opt of
       BT_IO_OPT_SOURCE \<Rightarrow> store (StrValue (ba2str H (sco_bdaddr src)))
     | BT_IO_OPT_SOURCE_BDADDR \<Rightarrow> store (AddrValue (sco_bdaddr src))
     | BT_IO_OPT_DEST \<Rightarrow> store (StrValue (ba2str H (sco_bdaddr dst)))
     | BT_IO_OPT_DEST_BDADDR \<Rightarrow> store (AddrValue (sco_bdaddr dst))
     | BT_IO_OPT_MTU \<Rightarrow> store (U16Value mtu)
     | BT_IO_OPT_IMTU \<Rightarrow> store (U16Value mtu)
     | BT_IO_OPT_OMTU \<Rightarrow> store (U16Value mtu)
     | BT_IO_OPT_HANDLE \<Rightarrow> sco_get_info H sock handle_value
     | BT_IO_OPT_CLASS \<Rightarrow> sco_get_info H sock class_value
     | BT_IO_OPT_PHY \<Rightarrow> get_phy H sock
     | _ \<Rightarrow> unknown_option opt)"

text \<open>The loops of the three getters over the options.\<close>

fun get_loop :: "('a option \<Rightarrow> BtIOOption \<Rightarrow> (bool \<times> 'a option) bt) \<Rightarrow> 'a option \<Rightarrow> BtIOOption list \<Rightarrow> bool bt" where
  "get_loop f dst [] = ret True"
| "get_loop f dst (opt # opts) = do { (r, dst) \<leftarrow> f dst opt; if r then get_loop f dst opts else ret False }"

text \<open>The options of an L2CAP socket; an LE socket that does not know \<open>BT_RCVMTU\<close> is asked like a BR/EDR one.\<close>

definition l2cap_get_l2o :: "host \<Rightarrow> int \<Rightarrow> sockaddr_l2 \<Rightarrow> l2cap_options option bt" where
  "l2cap_get_l2o H sock src = (
     let fallback = get_or_fail H ''getsockopt(L2CAP_OPTIONS)'' (k_l2o H) (GetSockOpt sock SOL_L2CAP L2CAP_OPTIONS) in
     if l2_bdaddr_type src \<noteq> BDADDR_BREDR then do {
       r \<leftarrow> sys (k_u16 H) (GetSockOpt sock SOL_BLUETOOTH BT_RCVMTU);
       case r of
         Some imtu \<Rightarrow> do {
           mode \<leftarrow> sys (k_u8 H) (GetSockOpt sock SOL_BLUETOOTH BT_MODE);
           ret (Some \<lparr>l2o_omtu = 0, l2o_imtu = imtu, l2o_mode = (case mode of None \<Rightarrow> 0 | Some m \<Rightarrow> m)\<rparr>) }
       | None \<Rightarrow> do {
           e \<leftarrow> get_errno;
           if e \<noteq> EPROTONOSUPPORT \<and> e \<noteq> ENOPROTOOPT then do { _ \<leftarrow> fail_errno H ''getsockopt(BT_RCVMTU)''; ret None }
           else fallback } }
     else fallback)"

definition l2cap_get :: "host \<Rightarrow> int \<Rightarrow> BtIOOption list \<Rightarrow> bool bt" where
  "l2cap_get H sock opts = do {
     r \<leftarrow> get_src H (k_l2 H) sock;
     case r of
       None \<Rightarrow> ret False
     | Some src \<Rightarrow> do {
         r \<leftarrow> l2cap_get_l2o H sock src;
         case r of
           None \<Rightarrow> ret False
         | Some l2o \<Rightarrow> get_loop (l2cap_get_option H sock src l2o) None opts } }"

definition rfcomm_get :: "host \<Rightarrow> int \<Rightarrow> BtIOOption list \<Rightarrow> bool bt" where
  "rfcomm_get H sock opts = do {
     r \<leftarrow> get_src H (k_rc H) sock;
     case r of
       None \<Rightarrow> ret False
     | Some src \<Rightarrow> get_loop (rfcomm_get_option H sock src) None opts }"

definition sco_get :: "host \<Rightarrow> int \<Rightarrow> BtIOOption list \<Rightarrow> bool bt" where
  "sco_get H sock opts = do {
     r \<leftarrow> get_or_fail H ''getsockopt(SCO_OPTIONS)'' (k_sco H) (GetSockOpt sock SOL_SCO SCO_OPTIONS);
     case r of
       None \<Rightarrow> ret False
     | Some mtu \<Rightarrow> do {
         r \<leftarrow> get_src H (k_scoaddr H) sock;
         case r of
           None \<Rightarrow> ret False
         | Some src \<Rightarrow> do {
             r \<leftarrow> get_dst H (k_scoaddr H) sock;
             case r of
               None \<Rightarrow> ret False
             | Some dst \<Rightarrow> get_loop (\<lambda>x opt. keeping x (sco_get_option H sock src dst mtu opt)) (None :: unit option) opts } } }"

definition get_valist :: "host \<Rightarrow> int \<Rightarrow> BtIOType \<Rightarrow> BtIOOption list \<Rightarrow> bool bt" where
  "get_valist H sock type opts = (case type of
     BT_IO_L2CAP \<Rightarrow> l2cap_get H sock opts
   | BT_IO_RFCOMM \<Rightarrow> rfcomm_get H sock opts
   | BT_IO_SCO \<Rightarrow> sco_get H sock opts
   | BT_IO_INVALID \<Rightarrow> fail_inval ''Unknown BtIO type 3'')"

section \<open>The interface\<close>

definition bt_io_accept :: "host \<Rightarrow> int \<Rightarrow> func \<Rightarrow> user \<Rightarrow> func option \<Rightarrow> bool bt" where
  "bt_io_accept H io connect user_data destroy = do {
     r \<leftarrow> sys (k_poll H) (Poll io POLLOUT);
     case r of
       None \<Rightarrow> fail_errno H ''poll''
     | Some (_, revents) \<Rightarrow> do {
         r \<leftarrow> (if revents AND POLLOUT = 0 then sys (k_int H) (Read io 1) else ret (Some 0));
         case r of
           None \<Rightarrow> fail_errno H ''read''
         | Some _ \<Rightarrow> do { accept_add io connect user_data destroy; ret True } } }"

definition bt_io_set :: "host \<Rightarrow> int \<Rightarrow> set_option list \<Rightarrow> bool bt" where
  "bt_io_set H io args = do {
     (r, opts) \<leftarrow> parse_set_opts H args;
     if \<not> r then ret False
     else do {
       type \<leftarrow> bt_io_get_type H io;
       case type of
         BT_IO_INVALID \<Rightarrow> ret False
       | BT_IO_L2CAP \<Rightarrow> l2cap_set H io (o_src_type opts) (o_sec_level opts) (o_imtu opts) (o_omtu opts) (o_mode opts)
           (o_master opts) (o_flushable opts) (o_priority opts)
       | BT_IO_RFCOMM \<Rightarrow> rfcomm_set H io (o_sec_level opts) (o_master opts)
       | BT_IO_SCO \<Rightarrow> sco_set H io (o_mtu opts) (o_voice opts) } }"

definition bt_io_get :: "host \<Rightarrow> int \<Rightarrow> BtIOOption list \<Rightarrow> bool bt" where
  "bt_io_get H io opts = do {
     type \<leftarrow> bt_io_get_type H io;
     if type = BT_IO_INVALID then ret False else get_valist H io type opts }"

text \<open>A socket that is created, bound and configured, or none; \<open>configure\<close> is the part up to the label \<open>failed\<close>.\<close>

definition new_socket :: "host \<Rightarrow> string \<Rightarrow> sock_type \<Rightarrow> int \<Rightarrow> (int \<Rightarrow> bool bt) \<Rightarrow> int option bt" where
  "new_socket H str type proto configure = do {
     r \<leftarrow> sys (k_int H) (Socket type proto);
     case r of
       None \<Rightarrow> do { _ \<leftarrow> fail_errno H str; ret None }
     | Some sock \<Rightarrow> do {
         ok \<leftarrow> configure sock;
         if ok then do {
           tell (ChannelNew sock);
           tell (CloseOnUnref sock);
           tell (NonBlock sock);
           ret (Some sock) }
         else do { tell (Close sock); ret None } } }"

definition create_io :: "host \<Rightarrow> bool \<Rightarrow> set_opts \<Rightarrow> int option bt" where
  "create_io H server opts = (case o_type opts of
     BT_IO_L2CAP \<Rightarrow> new_socket H ''socket(SEQPACKET, L2CAP)'' SOCK_SEQPACKET BTPROTO_L2CAP (\<lambda>sock. do {
       r \<leftarrow> l2cap_bind H sock (o_src opts) (o_src_type opts) (if server then o_psm opts else 0) (o_cid opts);
       if r < 0 then ret False
       else l2cap_set H sock (o_src_type opts) (o_sec_level opts) (o_imtu opts) (o_omtu opts) (o_mode opts) (o_master opts)
         (o_flushable opts) (o_priority opts) })
   | BT_IO_RFCOMM \<Rightarrow> new_socket H ''socket(STREAM, RFCOMM)'' SOCK_STREAM BTPROTO_RFCOMM (\<lambda>sock. do {
       r \<leftarrow> rfcomm_bind H sock (o_src opts) (if server then o_channel opts else 0);
       if r < 0 then ret False else rfcomm_set H sock (o_sec_level opts) (o_master opts) })
   | BT_IO_SCO \<Rightarrow> new_socket H ''socket(SEQPACKET, SCO)'' SOCK_SEQPACKET BTPROTO_SCO (\<lambda>sock. do {
       r \<leftarrow> sco_bind H sock (o_src opts);
       if r < 0 then ret False else sco_set H sock (o_mtu opts) (o_voice opts) })
   | BT_IO_INVALID \<Rightarrow> do { _ \<leftarrow> fail_inval ''Unknown BtIO type 3''; ret None })"

definition bt_io_connect :: "host \<Rightarrow> func \<Rightarrow> user \<Rightarrow> func option \<Rightarrow> set_option list \<Rightarrow> int option bt" where
  "bt_io_connect H connect user_data destroy args = do {
     (r, opts) \<leftarrow> parse_set_opts H args;
     if \<not> r then ret None
     else do {
       io \<leftarrow> create_io H False opts;
       case io of
         None \<Rightarrow> ret None
       | Some sock \<Rightarrow> do {
           _ \<leftarrow> (if o_mode opts = BT_IO_MODE_EXT_FLOWCTL \<and> o_defer opts \<noteq> 0
             then setsockopt H sock SOL_BLUETOOTH BT_DEFER_SETUP (OptInt (o_defer opts)) else ret None);
           (case o_type opts of
              BT_IO_INVALID \<Rightarrow> do { _ \<leftarrow> fail_inval ''Unknown BtIO type 3''; ret None }
            | type \<Rightarrow> do {
                err \<leftarrow> (if type = BT_IO_L2CAP then l2cap_connect H sock (o_dst opts) (o_dst_type opts) (o_psm opts) (o_cid opts)
                  else if type = BT_IO_RFCOMM then rfcomm_connect H sock (o_dst opts) (o_channel opts)
                  else sco_connect H sock (o_dst opts));
                if err < 0 then do {
                  ERROR_FAILED H (''connect to '' @ ba2str H (o_dst opts)) (- err);
                  tell (Unref sock);
                  ret None }
                else do {
                  connect_add sock connect (o_dst opts) user_data destroy;
                  ret (Some sock) } }) } } }"

definition bt_io_listen :: "host \<Rightarrow> func \<Rightarrow> func option \<Rightarrow> user \<Rightarrow> func option \<Rightarrow> set_option list \<Rightarrow> int option bt" where
  "bt_io_listen H connect confirm user_data destroy args = do {
     (r, opts) \<leftarrow> parse_set_opts H args;
     if \<not> r then ret None
     else do {
       io \<leftarrow> create_io H True opts;
       case io of
         None \<Rightarrow> ret None
       | Some sock \<Rightarrow> do {
           _ \<leftarrow> (if confirm \<noteq> None then setsockopt H sock SOL_BLUETOOTH BT_DEFER_SETUP (OptInt (o_defer opts)) else ret None);
           r \<leftarrow> sys (k_int H) (Listen sock 5);
           case r of
             None \<Rightarrow> do { _ \<leftarrow> fail_errno H ''listen''; tell (Unref sock); ret None }
           | Some _ \<Rightarrow> do {
               server_add sock connect confirm user_data destroy;
               ret (Some sock) } } } }"

end
