(* ===== verification/BtIoSpec.thy ===== *)
theory BtIoSpec
  imports BtIo "HOL-Library.Multiset"
begin

text \<open>
  What holds of the Bluetooth sockets whatever the kernel does: which descriptors are open after a run, when a failure is
  reported, and the system calls behind a connection of the library.
\<close>

section \<open>Descriptors\<close>

text \<open>
  The descriptors that are open after a trace (the latest call is the head of the reversed trace): \<open>socket\<close> and
  \<open>accept\<close> open one when they succeed, \<open>close\<close> closes it, and so does giving up a channel that closes on its last
  reference. A watch keeps a channel referenced, but none of the functions here gives up a channel after a watch.
\<close>

fun opened :: "host \<Rightarrow> bt_call list \<Rightarrow> int multiset" where
  "opened H [] = {#}"
| "opened H (c # past) = (case c of
     Socket _ _ \<Rightarrow> (case k_int H (rev (c # past)) of Inl _ \<Rightarrow> opened H past | Inr fd \<Rightarrow> add_mset fd (opened H past))
   | Accept _ \<Rightarrow> (case k_int H (rev (c # past)) of Inl _ \<Rightarrow> opened H past | Inr fd \<Rightarrow> add_mset fd (opened H past))
   | Close fd \<Rightarrow> opened H past - {#fd#}
   | Unref fd \<Rightarrow> if CloseOnUnref fd \<in> set past then opened H past - {#fd#} else opened H past
   | _ \<Rightarrow> opened H past)"

definition open_fds :: "host \<Rightarrow> bt_os \<Rightarrow> int multiset" where
  "open_fds H s = opened H (rev (os_calls s))"

fun neutral :: "bt_call \<Rightarrow> bool" where
  "neutral (Socket _ _) = False"
| "neutral (Accept _) = False"
| "neutral (Close _) = False"
| "neutral (Unref _) = False"
| "neutral _ = True"

lemma opened_neutral: "neutral c \<Longrightarrow> opened H (c # past) = opened H past"
  by (cases c) simp_all

lemma neutral_calls [adds_intros]:
  "neutral (Bind sock a)" "neutral (Connect sock a)" "neutral (Listen sock n)" "neutral (Poll sock e)" "neutral (Read sock k)"
  "neutral (GetSockOpt sock l opt)" "neutral (SetSockOpt sock l opt v)" "neutral (GetSockName sock)" "neutral (GetPeerName sock)"
  "neutral (ChannelNew sock)" "neutral (CloseOnUnref sock)" "neutral (NonBlock sock)" "neutral (AddWatch sock cond w)"
  "neutral (CallConnect f sock g ud)" "neutral (CallConfirm f sock ud)" "neutral (CallDestroy f ud)"
  by simp_all

lemma longer_neutral:
  assumes "longer neutral s s'"
  shows "open_fds H s' = open_fds H s"
proof -
  obtain t where t: "os_calls s' = os_calls s @ t" "list_all neutral t" using assms by (auto simp: longer_def)
  have "opened H (rev (u @ t)) = opened H (rev u)" for u
    using t(2) by (induction t rule: rev_induct) (simp_all add: opened_neutral del: opened.simps(2))
  then show ?thesis by (simp add: open_fds_def t(1))
qed

lemma error_adds [adds_intros]:
  "adds P (set_error code msg)" "adds P (set_gerror e)" "adds P (ERROR_FAILED H str err)" "adds P (fail_errno H str)"
  "adds P (fail_inval msg)" "adds P (put v)" "adds P (unknown_option opt)"
proof -
  show *: "adds P (set_error code msg)" for code msg
    by (auto intro!: addsI simp: set_error_def longer_frame split: option.split)
  then show **: "adds P (set_gerror e)" for e by (simp add: set_gerror_def)
  then show ***: "adds P (ERROR_FAILED H str err)" for H str err by (simp add: ERROR_FAILED_def)
  show "adds P (fail_errno H str)" unfolding fail_errno_def by (intro adds_intros ***)
  show 4: "adds P (fail_inval msg)" for msg unfolding fail_inval_def by (intro adds_intros *)
  show "adds P (put v)" by (auto intro!: addsI simp: put_def longer_frame)
  show "adds P (unknown_option opt)" unfolding unknown_option_def by (rule 4)
qed

lemmas setter_defs = l2cap_bind_def l2cap_connect_def rfcomm_bind_def rfcomm_connect_def sco_bind_def sco_connect_def bind_to_def
  connect_to_def setsockopt_def set_status_def set_master_def l2cap_set_master_def rfcomm_set_master_def l2cap_set_lm_def
  rfcomm_set_lm_def set_sec_level_def l2cap_set_flushable_def set_priority_def set_l2opts_def set_or_fail_def set_le_imtu_def
  set_le_mode_def or_fail_def l2cap_set_mtus_def l2cap_set_def rfcomm_set_def sco_set_def

lemma setters_neutral [adds_intros]:
  "adds neutral (l2cap_bind H sock src st psm cid)" "adds neutral (l2cap_connect H sock src st psm cid)"
  "adds neutral (rfcomm_bind H sock src ch)" "adds neutral (rfcomm_connect H sock src ch)"
  "adds neutral (sco_bind H sock src)" "adds neutral (sco_connect H sock src)" "adds neutral (setsockopt H sock l opt v)"
  "adds neutral (l2cap_set H sock st level imtu omtu mode master fl prio)" "adds neutral (rfcomm_set H sock level master)"
  "adds neutral (sco_set H sock mtu voice)"
  unfolding setter_defs Let_def by (intro adds_intros)+


lemma parse_calls: "run_state (parse_set_opts H args) s = (r, s') \<Longrightarrow> os_calls s' = os_calls s"
proof -
  have "run_state (parse_opts_loop H opts args) s = (r, s') \<Longrightarrow> os_calls s' = os_calls s" for opts
    by (induction H opts args rule: parse_opts_loop.induct)
      (auto simp: unknown_option_def fail_inval_def set_error_def split: option.splits)
  then show "run_state (parse_set_opts H args) s = (r, s') \<Longrightarrow> os_calls s' = os_calls s" by (simp add: parse_set_opts_def)
qed

text \<open>A run that gives a descriptor, or none, and leaves exactly that descriptor open; its channel closes on the last
  reference.\<close>

definition leaves_open :: "host \<Rightarrow> int option bt \<Rightarrow> bool" where
  "leaves_open H m \<longleftrightarrow> (\<forall>s r s'. run_state m s = (r, s') \<longrightarrow> (case r of
     None \<Rightarrow> open_fds H s' = open_fds H s
   | Some fd \<Rightarrow> open_fds H s' = add_mset fd (open_fds H s) \<and> CloseOnUnref fd \<in> set (os_calls s')))"

lemma leaves_openI:
  assumes "\<And>s s'. run_state m s = (None, s') \<Longrightarrow> open_fds H s' = open_fds H s"
    and "\<And>s s' fd. run_state m s = (Some fd, s') \<Longrightarrow>
      open_fds H s' = add_mset fd (open_fds H s) \<and> CloseOnUnref fd \<in> set (os_calls s')"
  shows "leaves_open H m"
  using assms by (auto simp: leaves_open_def split: option.split)

lemma leaves_openD:
  assumes "leaves_open H m"
  shows "run_state m s = (None, s') \<Longrightarrow> open_fds H s' = open_fds H s"
    and "run_state m s = (Some fd, s') \<Longrightarrow> open_fds H s' = add_mset fd (open_fds H s)"
    and "run_state m s = (Some fd, s') \<Longrightarrow> CloseOnUnref fd \<in> set (os_calls s')"
  using assms [unfolded leaves_open_def, rule_format, of s None s'] assms [unfolded leaves_open_def, rule_format, of s "Some fd" s']
  by simp_all

lemma new_socket_open:
  assumes "\<And>sock. adds neutral (configure sock)"
  shows "leaves_open H (new_socket H str type proto configure)"
proof (rule leaves_openI)
  fix s s' assume r: "run_state (new_socket H str type proto configure) s = (None, s')"
  show "open_fds H s' = open_fds H s"
  proof (cases "k_int H (os_calls s @ [Socket type proto])")
    case (Inl e)
    have "adds neutral (do { _ \<leftarrow> fail_errno H str; ret (None :: int option) })" by (intro adds_intros)
    from longer_neutral [OF addsD [OF this]] r Inl show ?thesis
      by (simp add: new_socket_def run_sys_call open_fds_def)
  next
    case (Inr sock)
    obtain ok t where t: "run_state (configure sock) (s\<lparr>os_calls := os_calls s @ [Socket type proto]\<rparr>) = (ok, t)" by fastforce
    from longer_neutral [OF addsD [OF assms t], of H] r Inr t show ?thesis
      by (auto simp: new_socket_def run_sys_call open_fds_def split: if_splits)
  qed
next
  fix s s' fd assume r: "run_state (new_socket H str type proto configure) s = (Some fd, s')"
  show "open_fds H s' = add_mset fd (open_fds H s) \<and> CloseOnUnref fd \<in> set (os_calls s')"
  proof (cases "k_int H (os_calls s @ [Socket type proto])")
    case (Inl e)
    with r show ?thesis by (simp add: new_socket_def run_sys_call split: prod.splits)
  next
    case (Inr sock)
    obtain ok t where t: "run_state (configure sock) (s\<lparr>os_calls := os_calls s @ [Socket type proto]\<rparr>) = (ok, t)" by fastforce
    from longer_neutral [OF addsD [OF assms t], of H] r Inr t show ?thesis
      by (auto simp: new_socket_def run_sys_call open_fds_def split: if_splits)
  qed
qed

lemma create_io_open: "leaves_open H (create_io H server opts)"
proof (cases "o_type opts")
  case BT_IO_INVALID
  have "adds neutral (do { _ \<leftarrow> fail_inval msg; ret (None :: int option) })" for msg by (intro adds_intros)
  from longer_neutral [OF addsD [OF this]] show ?thesis
    by (intro leaves_openI) (auto simp: create_io_def BT_IO_INVALID split: prod.splits)
qed (simp_all only: create_io_def BtIOType.case, (intro new_socket_open adds_intros)+)

text \<open>A run that is given an open channel and either hands it on or gives it up at the end.\<close>

definition settles :: "int \<Rightarrow> int option bt \<Rightarrow> bool" where
  "settles sock m \<longleftrightarrow> (\<forall>s r s'. run_state m s = (r, s') \<longrightarrow> (case r of
     Some fd \<Rightarrow> fd = sock \<and> longer neutral s s'
   | None \<Rightarrow> \<exists>u. longer neutral s u \<and> os_calls s' = os_calls u @ [Unref sock]))"

named_theorems settles_intros \<open>runs that hand a channel on or give it up\<close>

lemma settles_end [settles_intros]:
  "settles sock (ret (Some sock))" "settles sock (do { tell (Unref sock); ret None })"
  by (auto simp: settles_def intro!: exI longer_refl)

lemma settlesD:
  assumes "settles sock m"
  shows "run_state m s = (Some fd, s') \<Longrightarrow> fd = sock \<and> longer neutral s s'"
    and "run_state m s = (None, s') \<Longrightarrow> \<exists>u. longer neutral s u \<and> os_calls s' = os_calls u @ [Unref sock]"
  using assms [unfolded settles_def, rule_format, of s None s'] assms [unfolded settles_def, rule_format, of s "Some fd" s']
  by simp_all

lemma settles_bind [settles_intros]:
  assumes n: "adds neutral n" and f: "\<And>x. settles sock (f x)"
  shows "settles sock (n \<bind> f)"
  unfolding settles_def
proof (intro allI impI)
  fix s r s' assume r: "run_state (n \<bind> f) s = (r, s')"
  obtain x t where x: "run_state n s = (x, t)" by fastforce
  then have f': "run_state (f x) t = (r, s')" and t: "longer neutral s t" using r addsD [OF n] by auto
  show "case r of None \<Rightarrow> \<exists>u. longer neutral s u \<and> os_calls s' = os_calls u @ [Unref sock]
    | Some fd \<Rightarrow> fd = sock \<and> longer neutral s s'"
  proof (cases r)
    case None
    then show ?thesis using settlesD(2) [OF f] f' longer_trans [OF t] by fastforce
  next
    case (Some fd)
    then show ?thesis using settlesD(1) [OF f] f' longer_trans [OF t] by fastforce
  qed
qed

lemma settles_if [settles_intros]: "settles sock m \<Longrightarrow> settles sock n \<Longrightarrow> settles sock (if b then m else n)"
  by simp

lemma settles_option [settles_intros]:
  "settles sock m \<Longrightarrow> (\<And>y. settles sock (f y)) \<Longrightarrow> settles sock (case x of None \<Rightarrow> m | Some y \<Rightarrow> f y)"
  by (cases x) simp_all

lemma longer_set: "longer P s s' \<Longrightarrow> set (os_calls s) \<subseteq> set (os_calls s')"
  by (auto simp: longer_def)

lemma settled_open:
  assumes m: "leaves_open H m" and f: "\<And>sock. settles sock (f sock)"
  shows "leaves_open H (do { io \<leftarrow> m; case io of None \<Rightarrow> ret None | Some sock \<Rightarrow> f sock })" (is "leaves_open H ?m")
proof (rule leaves_openI)
  fix s s' assume r: "run_state ?m s = (None, s')"
  obtain x t where t: "run_state m s = (x, t)" by fastforce
  show "open_fds H s' = open_fds H s"
  proof (cases x)
    case None
    then show ?thesis using r t leaves_openD(1) [OF m] by auto
  next
    case (Some sock)
    then have o: "open_fds H t = add_mset sock (open_fds H s)" "CloseOnUnref sock \<in> set (os_calls t)"
      using t leaves_openD(2,3) [OF m] by blast+
    from r t Some settlesD(2) [OF f [of sock], of t s'] obtain u where u: "longer neutral t u" "os_calls s' = os_calls u @ [Unref sock]"
      by auto
    then have "CloseOnUnref sock \<in> set (os_calls u)" using o(2) longer_set by blast
    then show ?thesis using longer_neutral [OF u(1), of H] u(2) o(1) by (simp add: open_fds_def)
  qed
next
  fix s s' fd assume r: "run_state ?m s = (Some fd, s')"
  obtain x t where t: "run_state m s = (x, t)" by fastforce
  with r obtain sock where x: "x = Some sock" by (cases x) auto
  then have o: "open_fds H t = add_mset sock (open_fds H s)" "CloseOnUnref sock \<in> set (os_calls t)"
    using t leaves_openD(2,3) [OF m] by blast+
  from r t x settlesD(1) [OF f [of sock], of t fd s'] have "fd = sock" "longer neutral t s'" by auto
  then show "open_fds H s' = add_mset fd (open_fds H s) \<and> CloseOnUnref fd \<in> set (os_calls s')"
    using o longer_neutral [of t s' H] longer_set [of neutral t s'] by auto
qed

lemma parse_open: "run_state (parse_set_opts H args) s = (r, s') \<Longrightarrow> open_fds G s' = open_fds G s"
  by (simp add: open_fds_def parse_calls)

lemma parse_then:
  assumes "\<And>opts. leaves_open H (f opts)"
  shows "leaves_open H (do { (r, opts) \<leftarrow> parse_set_opts H args; if \<not> r then ret None else f opts })"
proof (rule leaves_openI)
  fix s s' assume r: "run_state (do { (r, opts) \<leftarrow> parse_set_opts H args; if \<not> r then ret None else f opts }) s = (None, s')"
  obtain b opts t where t: "run_state (parse_set_opts H args) s = ((b, opts), t)" by (metis surj_pair)
  from assms [of opts] r t parse_open [OF t, of H] show "open_fds H s' = open_fds H s"
    by (auto simp: leaves_openD(1) [OF assms] split: if_splits)
next
  fix s s' fd assume r: "run_state (do { (r, opts) \<leftarrow> parse_set_opts H args; if \<not> r then ret None else f opts }) s = (Some fd, s')"
  obtain b opts t where t: "run_state (parse_set_opts H args) s = ((b, opts), t)" by (metis surj_pair)
  from assms [of opts] r t parse_open [OF t, of H]
  show "open_fds H s' = add_mset fd (open_fds H s) \<and> CloseOnUnref fd \<in> set (os_calls s')"
    by (auto simp: leaves_openD(2) [OF assms] dest: leaves_openD(3) [OF assms] split: if_splits)
qed


lemma watches_neutral [adds_intros]:
  "adds neutral (server_add io f c ud d)" "adds neutral (connect_add io f dst ud d)" "adds neutral (accept_add io f ud d)"
  unfolding server_add_def connect_add_def accept_add_def by (intro adds_intros)+

lemma listen_open: "leaves_open H (bt_io_listen H f confirm ud d args)"
  unfolding bt_io_listen_def by (intro parse_then settled_open create_io_open) (intro settles_intros adds_intros)

lemma connect_open: "leaves_open H (bt_io_connect H f ud d args)"
  unfolding bt_io_connect_def
proof (rule parse_then)
  fix opts
  show "leaves_open H (do { io \<leftarrow> create_io H False opts; case io of None \<Rightarrow> ret None | Some sock \<Rightarrow> do {
           _ \<leftarrow> (if o_mode opts = BT_IO_MODE_EXT_FLOWCTL \<and> o_defer opts \<noteq> 0
             then setsockopt H sock SOL_BLUETOOTH BT_DEFER_SETUP (OptInt (o_defer opts)) else ret None);
           (case o_type opts of
              BT_IO_INVALID \<Rightarrow> do { _ \<leftarrow> fail_inval ''Unknown BtIO type 3''; ret None }
            | type \<Rightarrow> do {
                err \<leftarrow> (if type = BT_IO_L2CAP then l2cap_connect H sock (o_dst opts) (o_dst_type opts) (o_psm opts) (o_cid opts)
                  else if type = BT_IO_RFCOMM then rfcomm_connect H sock (o_dst opts) (o_channel opts)
                  else sco_connect H sock (o_dst opts));
                if err < 0 then do {
                  ERROR_FAILED H (''connect to '' @ ba2str H (o_dst opts)) (- err);
                  tell (Unref sock);
                  ret None }
                else do {
                  connect_add sock f (o_dst opts) ud d;
                  ret (Some sock) } }) } })" (is "leaves_open H ?m")
  proof (cases "o_type opts")
    case BT_IO_INVALID
    then have "?m = create_io H False opts" by (simp add: create_io_def)
    then show ?thesis by (simp only: create_io_open)
  qed (simp_all only: BtIOType.case BtIOType.simps if_True if_False refl, (intro settled_open create_io_open, intro settles_intros adds_intros)+)
qed


lemma adds_sum [adds_intros]: "(\<And>y. adds P (f y)) \<Longrightarrow> (\<And>y. adds P (g y)) \<Longrightarrow> adds P (case x of Inl y \<Rightarrow> f y | Inr y \<Rightarrow> g y)"
  by (cases x) simp_all

lemmas getter_defs = get_or_fail_def get_src_def get_dst_def get_lm_def l2cap_get_lm_def rfcomm_get_lm_def get_sec_level_def
  get_key_size_def get_info_def l2cap_get_info_def rfcomm_get_info_def sco_get_info_def get_u32_option_def l2cap_get_flushable_def
  get_priority_def get_phy_def get_defer_def with_dst_def put_on_def keeping_def l2cap_get_omtu_def

lemma loop_neutral:
  assumes "\<And>dst opt. adds P (f dst opt)"
  shows "adds P (get_loop f dst opts)"
proof (induction opts arbitrary: dst)
  case (Cons opt opts)
  show ?case unfolding get_loop.simps by (intro adds_intros assms Cons.IH)
qed (simp add: adds_return)

lemma option_neutral:
  "adds neutral (l2cap_get_option H sock src l2o dst opt)"
  "adds neutral (rfcomm_get_option H sock rsrc rdst opt)"
  "adds neutral (sco_get_option H sock ssrc sdst mtu opt)"
proof -
  show "adds neutral (l2cap_get_option H sock src l2o dst opt)"
    unfolding l2cap_get_option_def getter_defs by (cases opt; simp only: BtIOOption.case; intro adds_intros)
  show "adds neutral (rfcomm_get_option H sock rsrc rdst opt)"
    unfolding rfcomm_get_option_def getter_defs by (cases opt; simp only: BtIOOption.case; intro adds_intros)
  show "adds neutral (sco_get_option H sock ssrc sdst mtu opt)"
    unfolding sco_get_option_def getter_defs Let_def by (cases opt; simp only: BtIOOption.case; intro adds_intros)
qed

lemma getters_neutral [adds_intros]:
  "adds neutral (bt_io_get_type H sk)" "adds neutral (l2cap_get H sock opts)" "adds neutral (rfcomm_get H sock opts)"
  "adds neutral (sco_get H sock opts)"
proof -
  show "adds neutral (bt_io_get_type H sk)" unfolding bt_io_get_type_def by (intro adds_intros)
  show "adds neutral (l2cap_get H sock opts)"
    unfolding l2cap_get_def l2cap_get_l2o_def Let_def get_src_def get_or_fail_def by (intro adds_intros loop_neutral option_neutral)
  show "adds neutral (rfcomm_get H sock opts)"
    unfolding rfcomm_get_def get_src_def get_or_fail_def by (intro adds_intros loop_neutral option_neutral)
  show "adds neutral (sco_get H sock opts)"
    unfolding sco_get_def get_src_def get_dst_def get_or_fail_def keeping_def by (intro adds_intros loop_neutral option_neutral)
qed

lemma parse_neutral [adds_intros]: "adds neutral (parse_set_opts H args)"
  by (rule addsI) (simp add: longer_def parse_calls [OF surjective_pairing])

lemma interface_neutral:
  "adds neutral (bt_io_get H io opts)" "adds neutral (bt_io_set H io args)" "adds neutral (bt_io_accept H io f ud d)"
  "adds neutral (io_connect_cb H io cond conn)" "adds neutral (accept_cb H io cond acc)"
proof -
  show "adds neutral (bt_io_get H io opts)"
    unfolding bt_io_get_def get_valist_def by (intro adds_intros) (auto split: BtIOType.split intro!: adds_intros)
  show "adds neutral (bt_io_set H io args)"
    unfolding bt_io_set_def by (intro adds_intros) (auto split: BtIOType.split intro!: adds_intros)
  show "adds neutral (bt_io_accept H io f ud d)" unfolding bt_io_accept_def by (intro adds_intros)
  show "adds neutral (io_connect_cb H io cond conn)" 
    unfolding io_connect_cb_def check_nval_def socket_error_def Let_def by (intro adds_intros)
  show "adds neutral (accept_cb H io cond acc)"
    unfolding accept_cb_def check_nval_def socket_error_def by (intro adds_intros)
qed

lemma neutral_open: "adds neutral m \<Longrightarrow> open_fds H (snd (run_state m s)) = open_fds H s"
  by (rule longer_neutral) (rule addsD, assumption, simp add: prod_eq_iff)

lemma server_cb_open: "open_fds H (snd (run_state (server_cb H io cond sv) s)) = open_fds H s"
proof -
  define m where "m = (if cond AND G_IO_NVAL \<noteq> 0 then ret True else check_nval H io)"
  have "adds neutral m" unfolding m_def check_nval_def by (intro adds_intros)
  moreover obtain b t where t: "run_state m s = (b, t)" by fastforce
  ultimately have "open_fds H t = open_fds H s" using neutral_open [of m H s] by simp
  then show ?thesis using t unfolding server_cb_def m_def [symmetric]
    by (auto simp: run_sys_call open_fds_def split: sum.split option.split)
qed


section \<open>Errors\<close>

text \<open>\<open>reports m\<close>: a run of \<open>m\<close> that begins without an error ends with one exactly when it fails.\<close>

definition keeps_error :: "'a bt \<Rightarrow> bool" where
  "keeps_error m \<longleftrightarrow> state_io_rel (\<lambda>s s'. os_err s' = os_err s) m"

definition reports :: "('a \<Rightarrow> bool) \<Rightarrow> 'a bt \<Rightarrow> bool" where
  "reports ok m \<longleftrightarrow> (\<forall>s r s'. run_state m s = (r, s') \<longrightarrow> os_err s = None \<longrightarrow> (ok r \<longleftrightarrow> os_err s' = None))"

named_theorems reports_intros \<open>runs that report their failures\<close>

lemma keeps_error_intros [reports_intros]:
  "keeps_error (ret x)" "keeps_error (sys answer c)" "keeps_error (tell c)" "keeps_error get_errno" "keeps_error neg_errno" "keeps_error (sys_status answer c)" "keeps_error (put v)"
  by (auto simp: keeps_error_def state_io_rel_def sys_def Let_def tell_def get_errno_def neg_errno_def sys_status_def put_def
      split: sum.split option.split)

lemma keeps_error_bind [reports_intros]: "keeps_error m \<Longrightarrow> (\<And>x. keeps_error (f x)) \<Longrightarrow> keeps_error (m \<bind> f)"
  unfolding keeps_error_def by (auto simp: state_io_rel_def split: prod.split dest: state_io_relD) (metis snd_conv)

lemma keeps_error_if [reports_intros]: "keeps_error m \<Longrightarrow> keeps_error n \<Longrightarrow> keeps_error (if b then m else n)"
  by simp

lemma keeps_error_option [reports_intros]: "keeps_error m \<Longrightarrow> (\<And>y. keeps_error (f y)) \<Longrightarrow> keeps_error (case x of None \<Rightarrow> m | Some y \<Rightarrow> f y)"
  by (cases x) simp_all

lemma reportsD: "reports ok m \<Longrightarrow> run_state m s = (r, s') \<Longrightarrow> os_err s = None \<Longrightarrow> ok r \<longleftrightarrow> os_err s' = None"
  by (simp add: reports_def)

lemma reports_ret [reports_intros]: "ok x \<Longrightarrow> reports ok (ret x)"
  by (simp add: reports_def)

lemma reports_fail [reports_intros]:
  "\<not> ok False \<Longrightarrow> reports ok (fail_errno H str)" "\<not> ok False \<Longrightarrow> reports ok (fail_inval msg)"
  "\<not> ok False \<Longrightarrow> reports ok (do { ERROR_FAILED H str e; ret False })"
  "\<not> ok' None \<Longrightarrow> reports ok' (do { _ \<leftarrow> fail_errno H str; ret None })"
  "\<not> ok' None \<Longrightarrow> reports ok' (do { _ \<leftarrow> fail_inval msg; ret None })"
  by (auto simp: reports_def fail_errno_def fail_inval_def ERROR_FAILED_def set_gerror_def set_error_def split: option.splits)

lemma reports_after [reports_intros]: "keeps_error m \<Longrightarrow> (\<And>x. reports ok (f x)) \<Longrightarrow> reports ok (m \<bind> f)"
  unfolding reports_def keeps_error_def
  by (auto split: prod.splits dest: state_io_relD)

lemma reports_if [reports_intros]: "(b \<Longrightarrow> reports ok m) \<Longrightarrow> (\<not> b \<Longrightarrow> reports ok n) \<Longrightarrow> reports ok (if b then m else n)"
  by simp

lemma reports_option [reports_intros]:
  "reports ok m \<Longrightarrow> (\<And>y. reports ok (f y)) \<Longrightarrow> reports ok (case x of None \<Rightarrow> m | Some y \<Rightarrow> f y)"
  by (cases x) simp_all

text \<open>A step that reports its failure, and what is done when it succeeds and when it fails.\<close>

lemma reports_step:
  assumes m: "reports ok m" and f: "\<And>x. ok x \<Longrightarrow> reports ok' (f x)" and g: "\<And>x. \<not> ok x \<Longrightarrow> keeps_error (f x)"
    and no: "\<And>x s r s'. \<not> ok x \<Longrightarrow> run_state (f x) s = (r, s') \<Longrightarrow> \<not> ok' r"
  shows "reports ok' (m \<bind> f)"
  unfolding reports_def
proof (intro allI impI)
  fix s r s' assume r: "run_state (m \<bind> f) s = (r, s')" "os_err s = None"
  obtain x t where x: "run_state m s = (x, t)" by fastforce
  then have f': "run_state (f x) t = (r, s')" using r(1) by simp
  show "ok' r \<longleftrightarrow> os_err s' = None"
  proof (cases "ok x")
    case True
    then show ?thesis using reportsD [OF f f'] reportsD [OF m x r(2)] by simp
  next
    case False
    then show ?thesis using no [OF False f'] reportsD [OF m x r(2)] f' state_io_relD [OF g [OF False, unfolded keeps_error_def] f'] by simp
  qed
qed

lemma outcomes [reports_intros]: "\<not> False" "True" "Some x \<noteq> None" "\<not> None \<noteq> None"
  by simp_all

lemma reports_or_fail [reports_intros]: "keeps_error m \<Longrightarrow> reports (\<lambda>r. r) n \<Longrightarrow> reports (\<lambda>r. r) (or_fail H str m n)"
  unfolding or_fail_def by (intro reports_intros)

lemma reports_then [reports_intros]:
  "reports (\<lambda>r. r) m \<Longrightarrow> reports (\<lambda>r. r) n \<Longrightarrow> reports (\<lambda>r. r) (do { r \<leftarrow> m; if \<not> r then ret False else n })"
  by (rule reports_step [where ok = "\<lambda>r. r"]) (auto intro: reports_intros)

lemma setters_quiet [reports_intros]:
  "keeps_error (setsockopt H sock l opt v)" "keeps_error (l2cap_set_master H sock b)" "keeps_error (rfcomm_set_master H sock b)"
  "keeps_error (l2cap_set_lm H sock i)" "keeps_error (rfcomm_set_lm H sock i)" "keeps_error (l2cap_set_flushable H sock fl)" "keeps_error (set_priority H sock p)"
  unfolding setter_defs by (intro reports_intros)+

lemma sec_level_reports [reports_intros]: "reports (\<lambda>r. r) (set_sec_level H sock t level)"
  unfolding set_sec_level_def by (intro reports_intros)

definition mtus_settable :: "u8 \<Rightarrow> u16 \<Rightarrow> u16 \<Rightarrow> u8 \<Rightarrow> bool" where
  "mtus_settable st imtu omtu mode \<longleftrightarrow> st = BDADDR_BREDR \<or> imtu \<noteq> 0 \<or> omtu = 0 \<and> mode = 0"

lemma set_reports:
  "mtus_settable st imtu omtu mode \<Longrightarrow> reports (\<lambda>r. r) (l2cap_set H sock st level imtu omtu mode master fl prio)"
  "reports (\<lambda>r. r) (rfcomm_set H sock level master)"
  "reports (\<lambda>r. r) (sco_set H sock mtu voice)"
proof -
  have l2: "reports (\<lambda>r. r) (set_l2opts H sock imtu omtu mode)"
    unfolding set_l2opts_def Let_def by (intro reports_intros)
  have set: "reports (\<lambda>r. r) (set_or_fail H str sock l opt v)" for str l opt v
    unfolding set_or_fail_def by (intro reports_intros)
  have le: "reports (\<lambda>r. r) (do { r \<leftarrow> m; if r \<and> b then n else ret r })"
    if "reports (\<lambda>r. r) m" "reports (\<lambda>r. r) n" for m n b
    using that by (intro reports_step [where ok = "\<lambda>r. r"]) (auto intro!: reports_intros)
  have mtus: "reports (\<lambda>r. r) (l2cap_set_mtus H sock st imtu omtu mode)" if "st = BDADDR_BREDR \<or> imtu \<noteq> 0"
  proof (cases "st = BDADDR_BREDR")
    case False
    with that have "imtu \<noteq> 0" by simp
    with False show ?thesis
      by (simp only: l2cap_set_mtus_def set_le_imtu_def set_le_mode_def not_False_eq_True if_True if_False) (rule le [OF set set])
  qed (simp add: l2cap_set_mtus_def l2)
  show "reports (\<lambda>r. r) (l2cap_set H sock st level imtu omtu mode master fl prio)" if st: "mtus_settable st imtu omtu mode"
  proof -
    have "reports (\<lambda>r. r) (if imtu \<noteq> 0 \<or> omtu \<noteq> 0 \<or> mode \<noteq> 0 then l2cap_set_mtus H sock st imtu omtu mode else ret True)"
      using st mtus by (auto simp: mtus_settable_def reports_ret)
    then show ?thesis unfolding l2cap_set_def by (rule reports_then) (intro reports_intros)
  qed
  show "reports (\<lambda>r. r) (rfcomm_set H sock level master)"
    unfolding rfcomm_set_def by (intro reports_intros)
  show "reports (\<lambda>r. r) (sco_set H sock mtu voice)"
    unfolding sco_set_def by (intro reports_intros set)
qed

text \<open>Failing calls give a positive error number.\<close>

definition posix :: "host \<Rightarrow> bool" where
  "posix H \<longleftrightarrow> (\<forall>t e. k_int H t = Inl e \<longrightarrow> 0 < e)"

lemma bind_reports: "posix H \<Longrightarrow> reports (\<lambda>r. 0 \<le> r) (bind_to H name sock addr)"
  unfolding reports_def bind_to_def
  by (auto simp: run_sys_call ERROR_FAILED_def set_gerror_def set_error_def posix_def split: sum.splits; fastforce)

lemma new_socket_reports:
  assumes "\<And>sock. reports (\<lambda>r. r) (configure sock)"
  shows "reports (\<lambda>r. r \<noteq> None) (new_socket H str type proto configure)"
  unfolding new_socket_def
  by (intro reports_intros reports_step [OF assms]) (auto intro!: reports_intros)

lemma create_io_reports:
  assumes "posix H" "o_type opts = BT_IO_L2CAP \<Longrightarrow> mtus_settable (o_src_type opts) (o_imtu opts) (o_omtu opts) (o_mode opts)"
  shows "reports (\<lambda>r. r \<noteq> None) (create_io H server opts)"
proof -
  have bound: "reports (\<lambda>r. r) (do { r \<leftarrow> bind_to H name sock addr; if r < 0 then ret False else n })"
    if "reports (\<lambda>r. r) n" for name sock addr n
    using that by (intro reports_step [OF bind_reports [OF assms(1)]]) (auto intro!: reports_intros)
  show ?thesis
  proof (cases "o_type opts")
    case BT_IO_INVALID
    then show ?thesis unfolding create_io_def by (simp only: BtIOType.case, intro reports_intros)
  qed (use assms(2) in \<open>simp_all only: create_io_def BtIOType.case l2cap_bind_def rfcomm_bind_def sco_bind_def,
      (intro new_socket_reports bound set_reports; simp)+\<close>)
qed


text \<open>The options that a list of arguments gives.\<close>

definition parsed :: "host \<Rightarrow> set_option list \<Rightarrow> set_opts" where
  "parsed H args = fold (apply_option H) args default_opts"

definition known :: "set_option \<Rightarrow> bool" where
  "known a \<longleftrightarrow> (\<forall>opt. a \<noteq> SetUnknown opt)"

lemma parse_known: "list_all known args \<Longrightarrow> run_state (parse_set_opts H args) s = ((True, parsed H args), s)"
proof -
  have "list_all known args \<Longrightarrow> run_state (parse_opts_loop H opts args) s = ((True, fold (apply_option H) args opts), s)" for opts
    by (induction H opts args rule: parse_opts_loop.induct) (simp_all add: known_def)
  then show "list_all known args \<Longrightarrow> run_state (parse_set_opts H args) s = ((True, parsed H args), s)"
    by (simp add: parse_set_opts_def parsed_def)
qed

lemma unknown_fails [simp]: "\<not> fst (run_state (unknown_option opt) s)"
  by (simp add: unknown_option_def fail_inval_def split: prod.splits)

lemma parse_unknown: "\<not> list_all known args \<Longrightarrow> \<exists>opts opt. run_state (parse_set_opts H args) s =
    ((False, opts), snd (run_state (unknown_option opt) s))"
proof -
  have "\<not> list_all known args \<Longrightarrow> \<exists>opts' opt. run_state (parse_opts_loop H opts args) s =
      ((False, opts'), snd (run_state (unknown_option opt) s))" for opts
    by (induction H opts args rule: parse_opts_loop.induct)
      (auto simp: known_def split_beta)
  then show "\<not> list_all known args \<Longrightarrow> \<exists>opts opt. run_state (parse_set_opts H args) s =
      ((False, opts), snd (run_state (unknown_option opt) s))"
    by (simp add: parse_set_opts_def)
qed

lemma parse_reports:
  assumes "reports (\<lambda>r. r \<noteq> None) (f (parsed H args))"
  shows "reports (\<lambda>r. r \<noteq> None) (do { (r, opts) \<leftarrow> parse_set_opts H args; if \<not> r then ret None else f opts })"
proof (cases "list_all known args")
  case True
  then show ?thesis using assms by (simp add: reports_def parse_known)
next
  case False
  show ?thesis unfolding reports_def
  proof (intro allI impI)
    fix s r s'
    assume r: "run_state (do { (r, opts) \<leftarrow> parse_set_opts H args; if \<not> r then ret None else f opts }) s = (r, s')" "os_err s = None"
    obtain opts opt where "run_state (parse_set_opts H args) s = ((False, opts), snd (run_state (unknown_option opt) s))"
      using parse_unknown [OF False] by blast
    then have "r = None" "s' = snd (run_state (unknown_option opt) s)" using r(1) by auto
    then show "r \<noteq> None \<longleftrightarrow> os_err s' = None"
      using r(2) by (simp add: unknown_option_def fail_inval_def set_error_def)
  qed
qed

lemma reports_socket:
  assumes "reports (\<lambda>r. r \<noteq> None) m" "\<And>sock. reports (\<lambda>r. r \<noteq> None) (f sock)"
  shows "reports (\<lambda>r. r \<noteq> None) (do { io \<leftarrow> m; case io of None \<Rightarrow> ret None | Some sock \<Rightarrow> f sock })"
  using assms(1)
proof (rule reports_step)
  show "reports (\<lambda>r. r \<noteq> None) (case io of None \<Rightarrow> ret None | Some sock \<Rightarrow> f sock)" if "io \<noteq> None" for io
    using that assms(2) by (cases io) (simp, simp only: option.case)
qed (auto intro: reports_intros)

text \<open>The last steps of \<open>bt_io_connect\<close> and \<open>bt_io_listen\<close> on a socket.\<close>

lemma keeps_connect [reports_intros]:
  "keeps_error (l2cap_connect H sock a t p c)" "keeps_error (rfcomm_connect H sock a ch)" "keeps_error (sco_connect H sock a)"
  "keeps_error (connect_add io f dst ud d)" "keeps_error (server_add io f cf ud d)"
  unfolding setter_defs connect_add_def server_add_def by (intro reports_intros)+

lemma gives_up [reports_intros]:
  "reports (\<lambda>r. r \<noteq> None) (do { ERROR_FAILED H str e; tell c; ret None })"
  "reports (\<lambda>r. r \<noteq> None) (do { _ \<leftarrow> fail_errno H str; tell c; ret None })"
  by (auto simp: reports_def fail_errno_def ERROR_FAILED_def set_gerror_def set_error_def split: option.splits)

lemma connect_reports:
  assumes H: "posix H" and m: "o_type (parsed H args) = BT_IO_L2CAP \<Longrightarrow>
    mtus_settable (o_src_type (parsed H args)) (o_imtu (parsed H args)) (o_omtu (parsed H args)) (o_mode (parsed H args))"
  shows "reports (\<lambda>r. r \<noteq> None) (bt_io_connect H f ud d args)"
proof -
  have io: "reports (\<lambda>r. r \<noteq> None) (create_io H False (parsed H args))" using create_io_reports [OF H m] by blast
  show ?thesis unfolding bt_io_connect_def
  proof (rule parse_reports, cases "o_type (parsed H args)")
    case BT_IO_INVALID
    have "(do { io \<leftarrow> create_io H False (parsed H args); case io of None \<Rightarrow> ret None | Some sock \<Rightarrow> g sock })
        = create_io H False (parsed H args)" for g
      by (simp add: create_io_def BT_IO_INVALID)
    then show "reports (\<lambda>r. r \<noteq> None) (do { io \<leftarrow> create_io H False (parsed H args); case io of None \<Rightarrow> ret None | Some sock \<Rightarrow> g sock })"
      for g :: "int \<Rightarrow> int option bt"
      by (rule ssubst) (rule io)
  qed (simp_all only: BtIOType.case BtIOType.simps if_True if_False refl, (intro reports_socket io reports_intros; assumption?)+)
qed


lemma listen_reports:
  assumes H: "posix H" and m: "o_type (parsed H args) = BT_IO_L2CAP \<Longrightarrow>
    mtus_settable (o_src_type (parsed H args)) (o_imtu (parsed H args)) (o_omtu (parsed H args)) (o_mode (parsed H args))"
  shows "reports (\<lambda>r. r \<noteq> None) (bt_io_listen H f cf ud d args)"
proof -
  have io: "reports (\<lambda>r. r \<noteq> None) (create_io H True (parsed H args))" using create_io_reports [OF H m] by blast
  show ?thesis unfolding bt_io_listen_def by (intro parse_reports reports_socket io reports_intros)
qed

section \<open>Runs of a kernel that agrees\<close>

text \<open>
  A kernel that gives a new socket the descriptor \<open>fd\<close> and lets every other call succeed, a connect with the error
  number \<open>pending\<close> when it is under way.
\<close>

definition agrees :: "host \<Rightarrow> int \<Rightarrow> bool" where
  "agrees H fd \<longleftrightarrow> (\<forall>t. k_int H t = (case last t of
     Socket _ _ \<Rightarrow> Inr fd
   | Connect _ _ \<Rightarrow> Inl EINPROGRESS
   | GetSockOpt _ _ SO_DOMAIN \<Rightarrow> Inr AF_BLUETOOTH
   | GetSockOpt _ _ SO_PROTOCOL \<Rightarrow> Inr BTPROTO_L2CAP
   | _ \<Rightarrow> Inr 0))"

text \<open>The options with which the library connects: an LE address, the fixed channel of ATT, low security.\<close>

definition BDADDR_LE_PUBLIC :: int where "BDADDR_LE_PUBLIC = 1"
definition ATT_CHANNEL :: int where "ATT_CHANNEL = 4"
definition BT_IO_SEC_LOW :: int where "BT_IO_SEC_LOW = 1"

definition le_options :: "bdaddr \<Rightarrow> set_option list" where
  "le_options dba = [SetSourceBdaddr BDADDR_ANY, SetSourceType BDADDR_LE_PUBLIC, SetDestBdaddr dba, SetDestType BDADDR_LE_PUBLIC,
     SetCid ATT_CHANNEL, SetSecLevel BT_IO_SEC_LOW]"

definition le_addr :: "bdaddr \<Rightarrow> sockaddr" where
  "le_addr ba = L2Addr \<lparr>l2_psm = 0, l2_bdaddr = ba, l2_cid = 4, l2_bdaddr_type = 1\<rparr>"

definition connecting_calls :: "int \<Rightarrow> bdaddr \<Rightarrow> func \<Rightarrow> user \<Rightarrow> func option \<Rightarrow> bt_call list" where
  "connecting_calls fd dba f ud d =
    [Socket SOCK_SEQPACKET BTPROTO_L2CAP, Bind fd (le_addr BDADDR_ANY),
     SetSockOpt fd SOL_BLUETOOTH BT_SECURITY (OptSecurity \<lparr>bts_level = 1, bts_key_size = 0\<rparr>),
     ChannelNew fd, CloseOnUnref fd, NonBlock fd, Connect fd (le_addr dba),
     AddWatch fd (G_IO_OUT OR G_IO_ERR OR G_IO_HUP OR G_IO_NVAL)
       (ConnectWatch \<lparr>co_connect = f, co_user_data = ud, co_destroy = d, co_dst = dba\<rparr>)]"

lemma parsed_le: "parsed H (le_options dba) = default_opts\<lparr>o_dst := dba, o_type := BT_IO_L2CAP, o_src_type := 1, o_dst_type := 1,
    o_cid := 4, o_sec_level := 1\<rparr>"
  by (simp add: parsed_def le_options_def default_opts_def BDADDR_LE_PUBLIC_def ATT_CHANNEL_def BT_IO_SEC_LOW_def)

lemma connect_agrees:
  assumes "agrees H fd"
  shows "run_state (bt_io_connect H f ud d (le_options dba)) s =
    (Some fd, s\<lparr>os_calls := os_calls s @ connecting_calls fd dba f ud d, os_errno := EINPROGRESS\<rparr>)"
proof -
  have k: "list_all known (le_options dba)" by (simp add: le_options_def known_def)
  show ?thesis
    unfolding bt_io_connect_def
    by (simp add: assms [unfolded agrees_def, rule_format] parse_known [OF k] parsed_le create_io_def new_socket_def default_opts_def setter_defs run_sys_call
        connecting_calls_def le_addr_def l2cap_addr_def connect_add_def BT_SECURITY_LOW_def BT_SECURITY_HIGH_def L2CAP_MODE_BASIC_def
        BT_IO_MODE_EXT_FLOWCTL_def EINPROGRESS_def)
qed


definition start_os :: "bt_call list \<Rightarrow> bt_os" where
  "start_os t = \<lparr>os_calls = t, os_errno = 0, os_err = None, os_out = []\<rparr>"

text \<open>A host for examples: descriptor 3, the fixed channel of an LE link, an incoming MTU of 65.\<close>

definition demo_host :: host where
  "demo_host = \<lparr>k_int = (\<lambda>t. case last t of
       Socket _ _ \<Rightarrow> Inr 3
     | Connect _ _ \<Rightarrow> Inl EINPROGRESS
     | GetSockOpt _ _ SO_DOMAIN \<Rightarrow> Inr AF_BLUETOOTH
     | GetSockOpt _ _ SO_PROTOCOL \<Rightarrow> Inr BTPROTO_L2CAP
     | _ \<Rightarrow> Inr 0),
     k_u32 = (\<lambda>_. Inr 0), k_u16 = (\<lambda>_. Inr 65), k_u8 = (\<lambda>_. Inr 0), k_security = (\<lambda>_. Inl 95),
     k_l2o = (\<lambda>_. Inl 95), k_sco = (\<lambda>_. Inl 95), k_info = (\<lambda>_. Inl 95),
     k_l2 = (\<lambda>_. Inr \<lparr>l2_psm = 0, l2_bdaddr = BDADDR_ANY, l2_cid = 4, l2_bdaddr_type = 1\<rparr>), k_rc = (\<lambda>_. Inl 95),
     k_scoaddr = (\<lambda>_. Inl 95), k_poll = (\<lambda>_. Inr (0, 0)), strerror = (\<lambda>_. ''error''), str2ba = (\<lambda>_. replicate 6 1),
     ba2str = (\<lambda>_. ''01:01:01:01:01:01'')\<rparr>"

lemma demo_agrees [simp]: "agrees demo_host 3"
  by (simp add: agrees_def demo_host_def)

lemma demo_posix [simp]: "posix demo_host"
  by (auto simp: posix_def demo_host_def EINPROGRESS_def split: bt_call.splits sockopt.splits)

definition given :: "int option \<Rightarrow> int multiset" where
  "given r = (case r of None \<Rightarrow> {#} | Some fd \<Rightarrow> {#fd#})"

lemma leaves_open_given: "leaves_open H m \<Longrightarrow> open_fds H (snd (run_state m s)) = open_fds H s + given (fst (run_state m s))"
  by (cases "run_state m s"; cases "fst (run_state m s)") (auto simp: given_def leaves_openD)

text \<open>A kernel without BT_SECURITY that keeps the link mode: the value that was set last, found in the reversed trace.\<close>

fun link_mode :: "bt_call list \<Rightarrow> u32" where
  "link_mode [] = 0"
| "link_mode (SetSockOpt _ _ _ (OptU32 v) # past) = v"
| "link_mode (_ # past) = link_mode past"

definition old_kernel :: "host \<Rightarrow> bool" where
  "old_kernel H \<longleftrightarrow> (\<forall>t. k_int H t = (case last t of SetSockOpt _ _ BT_SECURITY _ \<Rightarrow> Inl ENOPROTOOPT | _ \<Rightarrow> Inr 0)) \<and>
     (\<forall>t. k_security H t = Inl ENOPROTOOPT) \<and> (\<forall>t. k_u32 H t = Inr (link_mode (rev t)))"

definition old_host :: host where
  "old_host = demo_host\<lparr>k_int := (\<lambda>t. case last t of SetSockOpt _ _ BT_SECURITY _ \<Rightarrow> Inl ENOPROTOOPT | _ \<Rightarrow> Inr 0),
     k_security := (\<lambda>_. Inl ENOPROTOOPT), k_u32 := (\<lambda>t. Inr (link_mode (rev t)))\<rparr>"

lemma old_host: "old_kernel old_host"
  by (simp add: old_kernel_def old_host_def)

section \<open>Properties\<close>

text \<open>C10. No descriptor is lost, whatever the kernel answers: \<open>bt_io_connect\<close> and \<open>bt_io_listen\<close> leave exactly the descriptor
  open that they return, and none when they return NULL; reading, setting and accepting options and the callbacks of the
  watches leave the open descriptors as they are (\<open>server_cb\<close> gives up its reference to the accepted channel).\<close>

theorem descriptors_accounted:
  "open_fds H (snd (run_state (bt_io_connect H f ud d args) s)) =
     open_fds H s + given (fst (run_state (bt_io_connect H f ud d args) s)) \<and>
   open_fds H (snd (run_state (bt_io_listen H f cf ud d args) s)) =
     open_fds H s + given (fst (run_state (bt_io_listen H f cf ud d args) s)) \<and>
   open_fds H (snd (run_state (bt_io_get H io opts) s)) = open_fds H s \<and>
   open_fds H (snd (run_state (bt_io_set H io args) s)) = open_fds H s \<and>
   open_fds H (snd (run_state (bt_io_accept H io f ud d) s)) = open_fds H s \<and>
   open_fds H (snd (run_state (io_connect_cb H io cond conn) s)) = open_fds H s \<and>
   open_fds H (snd (run_state (accept_cb H io cond acc) s)) = open_fds H s \<and>
   open_fds H (snd (run_state (server_cb H io cond sv) s)) = open_fds H s"
  by (intro conjI leaves_open_given connect_open listen_open neutral_open interface_neutral server_cb_open)

text \<open>C11. \<open>bt_io_connect\<close> and \<open>bt_io_listen\<close> set the error exactly when they return NULL, whatever the kernel answers,
  provided that an L2CAP socket with an LE address gets an incoming MTU whenever it gets an outgoing one or a mode.\<close>

theorem failures_reported:
  assumes H: "posix H" and m: "o_type (parsed H args) = BT_IO_L2CAP \<Longrightarrow>
      mtus_settable (o_src_type (parsed H args)) (o_imtu (parsed H args)) (o_omtu (parsed H args)) (o_mode (parsed H args))"
    and s: "os_err s = None"
  shows "(fst (run_state (bt_io_connect H f ud d args) s) = None \<longleftrightarrow> os_err (snd (run_state (bt_io_connect H f ud d args) s)) \<noteq> None) \<and>
    (fst (run_state (bt_io_listen H f cf ud d args) s) = None \<longleftrightarrow> os_err (snd (run_state (bt_io_listen H f cf ud d args) s)) \<noteq> None)"
  using reportsD [OF connect_reports [OF H m] surjective_pairing s, of f ud d] reportsD [OF listen_reports [OF H m] surjective_pairing s, of f cf ud d]
  by auto

theorem failures_reported_witness:
  "fst (run_state (bt_io_connect demo_host 10 0 None [SetPsm 25, SetMtu 100]) (start_os [])) = None \<longleftrightarrow>
   os_err (snd (run_state (bt_io_connect demo_host 10 0 None [SetPsm 25, SetMtu 100]) (start_os []))) \<noteq> None"
proof -
  have "o_src_type (parsed demo_host [SetPsm 25, SetMtu 100]) = BDADDR_BREDR" by (simp add: parsed_def default_opts_def)
  then show ?thesis
    using failures_reported [OF demo_posix, of "[SetPsm 25, SetMtu 100]" "start_os []" 10 0 None None]
    by (simp add: mtus_settable_def start_os_def)
qed

text \<open>An outgoing MTU or a mode without an incoming MTU makes the configuration of an LE socket fail without an error:
  \<open>bt_io_connect\<close> returns NULL and sets no error even when no system call fails.\<close>

theorem le_options_fail_silently:
  assumes k: "list_all known args" and o: "parsed H args = opts" "o_type opts = BT_IO_L2CAP" "o_src_type opts \<noteq> BDADDR_BREDR"
      "o_imtu opts = 0" "o_omtu opts \<noteq> 0 \<or> o_mode opts \<noteq> 0"
    and H: "agrees H fd" and s: "os_err s = None"
  shows "\<exists>s'. run_state (bt_io_connect H f ud d args) s = (None, s') \<and> os_err s' = None"
  using o(2-5) s
  by (auto simp: bt_io_connect_def parse_known [OF k] o(1) create_io_def new_socket_def l2cap_bind_def bind_to_def l2cap_set_def
      l2cap_set_mtus_def run_sys_call H [unfolded agrees_def, rule_format])

theorem le_options_fail_silently_witness:
  "\<exists>s'. run_state (bt_io_connect demo_host 10 0 None [SetSourceType 1, SetCid 4, SetOmtu 100]) (start_os []) = (None, s') \<and> os_err s' = None"
  by (rule le_options_fail_silently [OF _ refl _ _ _ _ demo_agrees])
    (simp_all add: parsed_def known_def default_opts_def start_os_def BDADDR_BREDR_def)

text \<open>On a kernel that does not know BT_SECURITY and keeps the link mode it is given, the security level that
  \<open>set_sec_level\<close> sets is the level that \<open>get_sec_level\<close> reads, for each of the three levels that are accepted and for L2CAP
  and RFCOMM sockets; the index into the map of modes is in range.\<close>

theorem sec_level_roundtrip:
  assumes H: "old_kernel H" and l: "\<not> (level < BT_SECURITY_LOW \<or> level > BT_SECURITY_HIGH)"
  shows "nat level < length lm_map \<and> (\<exists>s'. run_state (do { a \<leftarrow> set_sec_level H sock type level; b \<leftarrow> get_sec_level H sock type; ret (a, b) }) s =
    ((True, True), s') \<and> os_out s' = os_out s @ [IntValue level])"
proof -
  have "level \<in> {1, 2, 3}" using l by (auto simp: BT_SECURITY_LOW_def BT_SECURITY_HIGH_def)
  then have m: "nat level < length lm_map" "lm_level (lm_map ! nat level) = level"
    by (auto simp: lm_map_def lm_level_def LM_SECURE_def LM_ENCRYPT_def LM_AUTH_def BT_SECURITY_LOW_def BT_SECURITY_MEDIUM_def
        BT_SECURITY_HIGH_def)
  have k: "k_int H t = (case last t of SetSockOpt _ _ BT_SECURITY _ \<Rightarrow> Inl ENOPROTOOPT | _ \<Rightarrow> Inr 0)" "k_security H t = Inl ENOPROTOOPT"
    "k_u32 H t = Inr (link_mode (rev t))" for t using H by (simp_all add: old_kernel_def)
  show ?thesis using l m
    by (cases type) (simp_all add: set_sec_level_def get_sec_level_def setsockopt_def l2cap_set_lm_def rfcomm_set_lm_def set_status_def
        l2cap_get_lm_def rfcomm_get_lm_def get_lm_def run_sys_call run_status k put_def)
qed

theorem sec_level_roundtrip_witness:
  "\<exists>s'. run_state (do { a \<leftarrow> set_sec_level old_host 3 BT_IO_L2CAP 2; b \<leftarrow> get_sec_level old_host 3 BT_IO_L2CAP; ret (a, b) }) (start_os []) =
    ((True, True), s') \<and> os_out s' = [IntValue 2]"
  using sec_level_roundtrip [OF old_host, of 2 3 BT_IO_L2CAP "start_os []"]
  by (simp add: BT_SECURITY_LOW_def BT_SECURITY_HIGH_def start_os_def)

end
