(* ===== verification/BleSockets.thy ===== *)
theory BleSockets
  imports LibBleSpec BtIoSpec
begin

text \<open>
  The library on Bluetooth sockets: \<open>gatt_connect\<close> calls \<open>bt_io_connect\<close>, whose watch calls \<open>connect_cb\<close> of the library,
  which reads the MTU and the channel with \<open>bt_io_get\<close>. The two parameters of the library's model are given by the model of
  the sockets.
\<close>

definition libble_connect_fn :: func where "libble_connect_fn = 15"

text \<open>\<open>gatt_connect\<close>, called after the trace \<open>t\<close>: the message of the error, and the channel.\<close>

definition connect_run :: "host \<Rightarrow> bt_call list \<Rightarrow> string \<Rightarrow> int option \<times> bt_os" where
  "connect_run H t dst = run_state (bt_io_connect H libble_connect_fn dev_user None (le_options (str2ba H dst))) (start_os t)"

definition get_run :: "host \<Rightarrow> bt_call list \<Rightarrow> int \<Rightarrow> bool \<times> bt_os" where
  "get_run H t fd = run_state (bt_io_get H fd [BT_IO_OPT_IMTU, BT_IO_OPT_CID]) (start_os t)"

definition socket_io :: "host \<Rightarrow> bt_call list \<Rightarrow> ble_io" where
  "socket_io H t = \<lparr>
     io_connect = (\<lambda>dst. (map_option ge_message (os_err (snd (connect_run H t dst))), fst (connect_run H t dst))),
     io_get = (\<lambda>fd. case os_err (snd (get_run H t fd)) of
         Some e \<Rightarrow> Inl (ge_message e)
       | None \<Rightarrow> (case os_out (snd (get_run H t fd)) of [U16Value mtu, U16Value cid] \<Rightarrow> Inr (mtu, cid) | _ \<Rightarrow> Inr (0, 0)))\<rparr>"

text \<open>An LE socket on the fixed channel of ATT, which is open when it is polled.\<close>

definition att_socket :: "host \<Rightarrow> u16 \<Rightarrow> bool" where
  "att_socket H m \<longleftrightarrow> (\<forall>t. k_l2 H t = Inr \<lparr>l2_psm = 0, l2_bdaddr = BDADDR_ANY, l2_cid = 4, l2_bdaddr_type = 1\<rparr>) \<and>
     (\<forall>t. k_u16 H t = Inr m) \<and> (\<forall>t. k_poll H t = Inr (0, 0))"

lemma socket_properties:
  assumes "agrees H fd" "att_socket H m"
  shows "io_get (socket_io H t) io = Inr (m, 4)"
  using assms
  by (simp add: socket_io_def get_run_def bt_io_get_def bt_io_get_type_def get_valist_def l2cap_get_def get_src_def get_or_fail_def
      l2cap_get_l2o_def l2cap_get_option_def put_on_def put_def run_sys_call att_socket_def agrees_def start_os_def BDADDR_BREDR_def
      BTPROTO_L2CAP_def BTPROTO_SCO_def BTPROTO_RFCOMM_def Let_def split: sum.split)

lemma le_settable: "mtus_settable (o_src_type (parsed H (le_options a))) (o_imtu (parsed H (le_options a)))
    (o_omtu (parsed H (le_options a))) (o_mode (parsed H (le_options a)))"
  by (simp add: parsed_le default_opts_def mtus_settable_def L2CAP_MODE_BASIC_def)

lemma connect_run_reports:
  assumes "posix H"
  shows "fst (connect_run H t dst) = None \<longleftrightarrow> os_err (snd (connect_run H t dst)) \<noteq> None"
  unfolding connect_run_def
  using reportsD [OF connect_reports [OF assms le_settable, of libble_connect_fn dev_user None] surjective_pairing, of "start_os t" "str2ba H dst"]
  by (auto simp: start_os_def)

definition state_event :: "func \<Rightarrow> devstate \<Rightarrow> ble_event" where
  "state_event f st = BleEvent f EVENT_INTERNAL STATE_CHANGED 1 (StateData st)"

definition error_event :: "func \<Rightarrow> string \<Rightarrow> ble_event" where
  "error_event f msg = BleEvent f EVENT_INTERNAL ERROR_OCCURED 0 (Text msg)"

lemma connect_starts:
  assumes r: "connect_run H t dst = (Some fd, s)" "os_err s = None"
    and d: "l_dev (lst w) = Some d" "conn_state d = STATE_DISCONNECTED" "d_evh d = Some f"
    and p: "makes_no_call policy (state_event f STATE_CONNECTING)"
  shows "run_sys N (socket_io H t) G policy (Op (OpConnect dst)) w = Some (upd_ls (\<lambda>s. s\<lparr>
    l_events := l_events s @ [state_event f STATE_CONNECTING],
    l_dev := Some (d\<lparr>conn_state := STATE_CONNECTING, d_iochannel := Some fd\<rparr>)\<rparr>) w)"
proof -
  let ?B = "socket_io H t" and ?ev = "state_event f STATE_CONNECTING"
  have q: "app_at N ?B G' policy ?ev x = Some x" for G' x
    using quiet_app [OF p, of N ?B G'] by (simp add: ignores_event_def)
  show ?thesis using d q r
    by (simp add: lble_connect_def gatt_connect_def socket_io_def the_dev_def set_dev_def upd_dev_def emit_state_def emit_def evh_def
        call_app_def state_event_def)
qed

definition idle_device :: devh where
  "idle_device = \<lparr>conn_state = STATE_DISCONNECTED, d_iochannel = None, d_attrib = None, d_evh = Some 7, d_user_data = 0\<rparr>"

definition demo_idle :: lworld where
  "demo_idle = set_dev idle_device initial"

lemma demo_idle [simp]:
  "l_dev (lst demo_idle) = Some idle_device" "conn_state idle_device = STATE_DISCONNECTED" "d_evh idle_device = Some 7"
  "attrib_closed (w_user demo_idle)" "w_next demo_idle = 1" "l_events (lst demo_idle) = []"
  by (simp_all add: demo_idle_def idle_device_def initial_def set_dev_def lst_def upd_ls_def upd_ts_def upd_gs_def attrib_closed_def
      empty_world_def)

lemma demo_att_socket [simp]: "att_socket demo_host 65"
  by (simp add: att_socket_def demo_host_def)

section \<open>Properties\<close>

text \<open>C9. \<open>lble_connect\<close> on a disconnected device, whatever the kernel answers: either the device is connecting on the descriptor
  that \<open>bt_io_connect\<close> returned, or it is disconnected again and the application has got the text of the error between the
  two changes of the state; the error is never NULL when the channel is.\<close>

theorem connect_outcome:
  assumes H: "posix H" and d: "l_dev (lst w) = Some d" "conn_state d = STATE_DISCONNECTED" "d_evh d = Some f"
    and p: "\<And>ev. makes_no_call policy ev"
  shows "\<exists>w'. run_sys N (socket_io H t) G policy (Op (OpConnect dst)) w = Some w' \<and>
    (case connect_run H t dst of
       (Some fd, _) \<Rightarrow> l_dev (lst w') = Some (d\<lparr>conn_state := STATE_CONNECTING, d_iochannel := Some fd\<rparr>) \<and>
         l_events (lst w') = l_events (lst w) @ [state_event f STATE_CONNECTING]
     | (None, s) \<Rightarrow> \<exists>e. os_err s = Some e \<and> l_dev (lst w') = Some (d\<lparr>d_iochannel := None\<rparr>) \<and>
         l_events (lst w') = l_events (lst w) @
           [state_event f STATE_CONNECTING, error_event f (ge_message e), state_event f STATE_DISCONNECTED])"
proof -
  let ?B = "socket_io H t"
  let ?G = "system N ?B G policy"
  obtain r s where r: "connect_run H t dst = (r, s)" by fastforce
  have q: "app_at N ?B ?G policy ev x = Some x" for ev x using quiet_app [OF p, of N ?B ?G] by (simp add: ignores_event_def)
  show ?thesis
  proof (cases r)
    case None
    then obtain e where e: "os_err s = Some e" using connect_run_reports [OF H, of t dst] r by auto
    show ?thesis using d q r None e
      by (simp add: lble_connect_def gatt_connect_def socket_io_def the_dev_def set_dev_def upd_dev_def emit_state_def emit_def evh_def
          call_app_def state_event_def error_event_def)
  next
    case (Some fd)
    then have "os_err s = None" using connect_run_reports [OF H, of t dst] r by auto
    with Some show ?thesis using d q r
      by (simp add: lble_connect_def gatt_connect_def socket_io_def the_dev_def set_dev_def upd_dev_def emit_state_def emit_def evh_def
          call_app_def state_event_def)
  qed
qed


theorem connect_outcome_witness:
  "\<exists>w'. run_sys 2 (socket_io demo_host []) demo_env no_calls (Op (OpConnect ''dev'')) demo_idle = Some w' \<and>
    l_dev (lst w') = Some (idle_device\<lparr>conn_state := STATE_CONNECTING, d_iochannel := Some 3\<rparr>)"
proof -
  have d: "l_dev (lst demo_idle) = Some idle_device" "conn_state idle_device = STATE_DISCONNECTED" "d_evh idle_device = Some 7" by simp_all
  have r: "connect_run demo_host [] ''dev'' = (Some 3, snd (connect_run demo_host [] ''dev''))"
    by (simp add: connect_run_def connect_agrees [OF demo_agrees])
  from connect_outcome [OF demo_posix d no_calls, of 2 "[]" demo_env "''dev''"] show ?thesis
    by (subst (asm) r) auto
qed

text \<open>C8. A connection from the call to the session, when the kernel agrees: \<open>lble_connect\<close> makes a socket, binds it to the
  fixed channel of ATT with an LE address, sets low security, connects it and watches it; when the socket becomes
  writable the watch calls the library once without an error and is removed; the device is then connected with an idle bearer
  of MTU 23, and the application has been told both changes of the state.\<close>

theorem connection_over_sockets:
  assumes H: "agrees H fd" "att_socket H m"
    and d: "l_dev (lst w) = Some d" "conn_state d = STATE_DISCONNECTED" "d_evh d = Some f"
    and S: "le_socket (sockets G) fd" and u: "attrib_closed (w_user w)" and p: "\<And>ev. makes_no_call policy ev"
    and conn: "conn = \<lparr>co_connect = libble_connect_fn, co_user_data = dev_user, co_destroy = None, co_dst = str2ba H dst\<rparr>"
  shows "os_calls (snd (connect_run H t dst)) = t @ connecting_calls fd (str2ba H dst) libble_connect_fn dev_user None \<and>
    (let (keep, s) = run_state (io_connect_cb H fd G_IO_OUT conn) (snd (connect_run H t dst)) in
      \<not> keep \<and> last (os_calls s) = CallConnect libble_connect_fn fd None dev_user) \<and>
    (\<exists>w'. run_all N (socket_io H t) G policy [Op (OpConnect dst), Connected fd None] w = Some w' \<and> session 23 (w_next w) fd f w' \<and>
      l_events (lst w') = l_events (lst w) @ [state_event f STATE_CONNECTING, state_event f STATE_CONNECTED])"
proof (intro conjI)
  have run: "connect_run H t dst = (Some fd, snd (connect_run H t dst))"
    "os_err (snd (connect_run H t dst)) = None"
    by (simp_all add: connect_run_def connect_agrees [OF H(1)] start_os_def)
  show "os_calls (snd (connect_run H t dst)) = t @ connecting_calls fd (str2ba H dst) libble_connect_fn dev_user None"
    by (simp add: connect_run_def connect_agrees [OF H(1)] start_os_def)
  show "let (keep, s) = run_state (io_connect_cb H fd G_IO_OUT conn) (snd (connect_run H t dst)) in
      \<not> keep \<and> last (os_calls s) = CallConnect libble_connect_fn fd None dev_user"
    using H unfolding conn
    by (simp add: io_connect_cb_def check_nval_def socket_error_def run_sys_call agrees_def att_socket_def G_IO_OUT_def G_IO_NVAL_def)
  let ?d = "d\<lparr>conn_state := STATE_CONNECTING, d_iochannel := Some fd\<rparr>"
  let ?w = "upd_ls (\<lambda>s. s\<lparr>l_events := l_events s @ [state_event f STATE_CONNECTING], l_dev := Some ?d\<rparr>) w"
  have c: "run_sys N (socket_io H t) G policy (Op (OpConnect dst)) w = Some ?w"
    by (rule connect_starts [OF run d p])
  have d': "l_dev (lst ?w) = Some ?d" "conn_state ?d = STATE_CONNECTING" "d_iochannel ?d = Some fd" "d_evh ?d = Some f"
    using d(3) by simp_all
  have u': "attrib_closed (w_user ?w)" using u by (simp add: attrib_closed_def)
  have n: "(23 :: u16) = (if 4 = ATT_CID then 23 else m)" "(23 :: u16) \<le> 23" by (simp_all add: ATT_CID_def)
  from connect_opens [OF d' S u' socket_properties [OF H] n p, of N] obtain w' where
    "run_sys N (socket_io H t) G policy (Connected fd None) ?w = Some w'" "session 23 (w_next ?w) fd f w'"
    "l_events (lst w') = l_events (lst ?w) @ [BleEvent f EVENT_INTERNAL STATE_CHANGED 1 (StateData STATE_CONNECTED)]" by blast
  then show "\<exists>w'. run_all N (socket_io H t) G policy [Op (OpConnect dst), Connected fd None] w = Some w' \<and> session 23 (w_next w) fd f w' \<and>
      l_events (lst w') = l_events (lst w) @ [state_event f STATE_CONNECTING, state_event f STATE_CONNECTED]"
    using c by (intro exI [of _ w']) (simp add: state_event_def del: run_sys.simps)
qed

theorem connection_over_sockets_witness:
  "\<exists>w'. run_all 2 (socket_io demo_host []) demo_env no_calls [Op (OpConnect ''dev''), Connected 3 None] demo_idle = Some w' \<and>
    session 23 1 3 7 w' \<and> l_events (lst w') = [state_event 7 STATE_CONNECTING, state_event 7 STATE_CONNECTED]"
  using connection_over_sockets [OF demo_agrees demo_att_socket demo_idle(1-3) demo_facts(6) demo_idle(4) no_calls refl, of "[]" "''dev''" 2]
  by simp

end
