(* ===== verification/GattSafety.thy ===== *)
theory GattSafety
  imports LibBleSpec
begin

text \<open>
  What the client does with responses whose lengths are not those the procedure expects: two places where the length
  that the peer chooses is trusted and the client reads behind its data.
\<close>

lemma enc_prep_short:
  assumes "z > len - 5" "(0 :: u64) < len - 5" "5 \<le> length b"
  shows "enc_prep_write_req h off (Some []) z (Some b) len = None"
proof -
  have "0 < unat (len - 5)" using assms(2) by (simp add: word_less_nat_alt)
  then show ?thesis using assms(1,2)
    by (simp add: enc_prep_write_req_def memcpy_def rd_bytes_def Let_def split: bind_splits)
qed

lemma unat_small: "j < 18446744073709551616 \<Longrightarrow> unat (of_nat j :: u64) = j"
  by (simp add: unat_of_nat take_bit_nat_def)

lemma overrun_length:
  assumes "n < k" "k < 65536"
  shows "65536 \<le> unat (of_nat n - of_nat k :: u64)"
proof -
  define j where "j = 18446744073709551616 - (k - n)"
  have e: "(of_nat n - of_nat k :: u64) = of_nat j" using assms by (simp add: of_nat_diff j_def)
  have "j < 18446744073709551616" "65536 \<le> j" using assms by (simp_all add: j_def)
  then show ?thesis unfolding e by (simp add: unat_small)
qed

lemma prepare_overrun:
  assumes l: "link m r c fd [] x w" "attrib_inv (w_user w)" and m: "23 \<le> m" and k: "length v < k" "k < 65536"
    and wl: "obj_at p w = Some (ObjWrite (write_record h v f ud k))"
  shows "prepare_write G p w = None"
proof -
  have m23: "23 \<le> unat m" using m by (simp add: word_le_nat_alt)
  have uk: "unat (of_nat k :: u16) = k" using k(2) by (rule unat_of_nat_u16)
  from attrib_get [OF l, of G] obtain b s where get: "g_attrib_get_buffer G (Some ()) w = Some (Some b, ucast m, w\<lparr>w_user := s\<rparr>)"
    "unat m \<le> length b" by blast
  let ?z = "of_nat (length v) - of_nat k :: u64"
  have sp: "unat ((ucast m :: u64) - 5) = unat m - 5"
    using unat_sub [of 5 "ucast m :: u64"] m23 by (simp add: word_le_nat_alt unat_ucast_u16_u64)
  have m16: "unat m < 65536" using unat_u16_le [of m] by simp
  have z: "?z > (ucast m :: u64) - 5" unfolding word_less_nat_alt sp using overrun_length [OF k] m16 by simp
  have pos: "(0 :: u64) < (ucast m :: u64) - 5" unfolding word_less_nat_alt sp using m23 by simp
  have l5: "5 \<le> length b" using get(2) m23 by simp
  have "enc_prep_write_req h (of_nat k) (Some []) ?z (Some b) (ucast m) = None" by (rule enc_prep_short [OF z pos l5])
  moreover have "drop k v = []" using k by simp
  moreover have "write_at p w = Some (write_record h v f ud k)" using wl by (simp add: write_at_def)
  moreover have "wl_offset (write_record h v f ud k) = of_nat k" "wl_value (write_record h v f ud k) = v"
    "wl_handle (write_record h v f ud k) = h" "wl_attrib (write_record h v f ud k) = Some ()"
    "wl_vlen (write_record h v f ud k) - ucast (of_nat k :: u16) = ?z"
    using uk by (simp_all add: write_record_def buflen)
  ultimately show ?thesis
    using get(1) uk unfolding prepare_write_def by (simp only: Let_def bind.bind_lunit bind.bind_lzero prod.case option.simps)
qed

lemma entry_chunks:
  assumes L: "3 \<le> unat L" "unat L < 21" "unat L \<noteq> 7"
    and d: "length data = n * unat L" "n = Suc k"
  shows "al_data (entries (0x09 # L # data) L) = take (unat L) data # chunks (unat L) k (drop (unat L) data)"
proof -
  have nl: "length data div unat L = n" using d(1) L by simp
  show ?thesis unfolding entries_def by (simp add: nl d(2))
qed

lemma entry_length: "unat L \<noteq> 7 \<Longrightarrow> al_len (entries (0x09 # L # data) L) \<noteq> 7"
  by (simp add: entries_def word_unat_eq_iff unat_ucast_u8_u16)

section \<open>Properties\<close>

text \<open>C35. A Prepare Write Response that is longer than the request it answers is trusted: the client takes the length of the
  response for the number of bytes the server has stored, and when this moves the offset past the end of the value,
  the length of the next part is computed modulo \<open>2 ^ 64\<close> and clipped to the MTU, so that the client reads
  behind the value (and would send what it finds there). The model has no bytes there, the run ends with
  \<open>None\<close>.\<close>

theorem overlong_prepare_response_overreads:
  assumes l: "link m r c fd [] x w" "attrib_inv (w_user w)" and m: "23 \<le> m"
    and wl: "obj_at p w = Some (ObjWrite (write_record h v f ud k))"
    and rlen: "5 \<le> unat rlen" "length v < k + (unat rlen - 5)" "k + (unat rlen - 5) < 65536"
  shows "prepare_write_cb G T 0 rpdu rlen p w = None"
proof -
  let ?k = "k + (unat rlen - 5)"
  have rl: "rlen - 5 = (of_nat (unat rlen - 5) :: u16)" using rlen(1) by (simp add: of_nat_diff)
  have off: "of_nat k + (rlen - 5) = (of_nat ?k :: u16)" using rlen(1) by (simp add: of_nat_diff)
  have uk: "unat (of_nat ?k :: u16) = ?k" using rlen(3) by (rule unat_of_nat_u16)
  let ?wl = "write_record h v f ud ?k"
  have "prepare_write G p (set_obj p (ObjWrite ?wl) w) = None"
    by (rule prepare_overrun [OF _ _ m rlen(2,3)]) (use l in simp_all)
  moreover have "(ucast (of_nat ?k :: u16) :: u64) \<noteq> of_nat (length v)"
    unfolding buflen uk using of_nat_eq_u64 [of ?k "length v"] rlen by simp
  moreover have "write_at p w = Some (write_record h v f ud k)" using wl by (simp add: write_at_def)
  moreover have "(write_record h v f ud k)\<lparr>wl_offset := of_nat k + (rlen - 5)\<rparr> = ?wl" unfolding off by (simp add: write_record_def)
  moreover have "wl_offset (write_record h v f ud k) = of_nat k" "wl_vlen (write_record h v f ud k) = of_nat (length v)" "wl_offset ?wl = of_nat ?k"
    by (simp_all add: write_record_def)
  ultimately show ?thesis
    unfolding prepare_write_cb_def by (simp add: Let_def rl)
qed

theorem overlong_prepare_response_overreads_witness:
  "\<exists>w. run_sys 2 demo_io demo_env no_calls (Connected 3 None) demo_connecting = Some w \<and>
    (let w0 = set_obj 4 (ObjWrite (write_record 9 (replicate 20 1) char_write_fn 5 18)) w
     in prepare_write_cb (system 2 demo_io demo_env no_calls) (libble_client (\<lambda>_ w. Some w)) 0 (replicate 23 0x17) 23 4 w0 = None)"
proof -
  obtain w where w: "run_sys 2 demo_io demo_env no_calls (Connected 3 None) demo_connecting = Some w" "session 23 1 3 7 w"
    using demo_session by blast
  let ?w = "set_obj 4 (ObjWrite (write_record 9 (replicate 20 1) char_write_fn 5 18)) w"
  obtain r where l: "link 23 r 1 3 [] None ?w" "attrib_inv (w_user ?w)"
    using w(2) unfolding session_def by (auto simp: set_obj_def upd_ts_def upd_gs_def)
  have o: "obj_at 4 ?w = Some (ObjWrite (write_record 9 (replicate 20 1) char_write_fn 5 18))" by simp
  have n: "(23 :: u16) \<le> 23" "5 \<le> unat (23 :: u16)" "length (replicate 20 (1 :: u8)) < 18 + (unat (23 :: u16) - 5)"
    "18 + (unat (23 :: u16) - 5) < 65536" by simp_all
  from overlong_prepare_response_overreads [OF l n(1) o n(2-4)] show ?thesis using w(1) unfolding Let_def by blast
qed

text \<open>C36. The entries of a Read By Type Response are read as characteristic declarations without looking at their length: a
  response whose entries have fewer than the 21 bytes of a 128-bit declaration (and not the 7 of a 16-bit one) makes
  \<open>char_discovered_cb\<close> read behind the entry.\<close>

theorem short_characteristic_overreads:
  assumes dc: "obj_at p w = Some (ObjChar dc)"
    and L: "3 \<le> unat L" "unat L < 21" "unat L \<noteq> 7"
    and d: "length data = n * unat L" "1 \<le> n" "length data + 2 < 65536"
  shows "char_discovered_cb G T 0 (0x09 # L # data) (of_nat (length data + 2)) p w = None"
proof -
  let ?b = "0x09 # L # data"
  obtain k where k: "n = Suc k" using d(2) by (cases n) auto
  have n3: "3 * n \<le> length data" using d(1) L(1) by simp
  then have lb: "length data + 2 = length ?b" "1 \<le> length ?b" "length ?b < 65536" "\<not> length ?b < 5" using d(2,3) by simp_all
  have u: "(ucast (of_nat (length data + 2) :: u16) :: u64) = of_nat (length ?b)"
    unfolding buflen unat_of_nat_u16 [OF d(3)] by simp
  have "(length ?b - 2) mod unat (?b ! 1) = 0" using d(1) by simp
  then have dec: "dec_read_by_type_resp (Some ?b) (of_nat (length ?b)) = Some (Some (entries ?b L))"
    unfolding dec_type_resp_eq [OF lb(2,3)] using lb(4) L(1) by simp
  have nu: "unat (of_nat n :: u16) = n" using n3 d(3) by (intro unat_of_nat_u16) linarith
  have nl: "length data div unat L = n" using d(1) L by simp
  have num: "al_num (entries ?b L) = of_nat n" by (simp add: entries_def nl)
  have none: "get_uuid128 (swap_128 G) False (take (unat L) data) 5 = None"
    using L d(1) by (simp add: get_uuid128_def rd_bytes_def)
  have loop: "char_loop (swap_128 G) False u (take (unat L) data # l) h acc = None" for u l h acc
    unfolding char_loop.simps none by (cases "get_le16 (take (unat L) data) 0") simp_all
  have al: "take (unat (al_num (entries ?b L))) (al_data (entries ?b L)) = take (unat L) data # chunks (unat L) k (drop (unat L) data)"
    unfolding num nu entry_chunks [OF L d(1) k] by (simp add: k)
  have "char_at p w = Some dc" using dc by (simp add: char_at_def)
  then show ?thesis
    unfolding char_discovered_cb_def u dec using al loop entry_length [OF L(3)] by (simp add: ATT_ECODE_ATTR_NOT_FOUND_def del: char_loop.simps)
qed

theorem short_characteristic_overreads_witness:
  "char_discovered_cb demo_env (libble_client (\<lambda>_ w. Some w)) 0 [0x09, 8, 2, 0, 2, 3, 0, 0, 0x18, 0] 10 4
    (set_obj 4 (ObjChar \<lparr>dc_ref = 1, dc_attrib = Some (), dc_id = 1, dc_uuid = None, dc_end = 0xffff, dc_start = 1,
      dc_characteristics = [], dc_cb = Some lble_char_discovered_fn, dc_user_data = 5\<rparr>) demo_connecting) = None"
proof -
  let ?dc = "\<lparr>dc_ref = 1, dc_attrib = Some (), dc_id = 1, dc_uuid = None, dc_end = 0xffff, dc_start = 1,
      dc_characteristics = [], dc_cb = Some lble_char_discovered_fn, dc_user_data = 5\<rparr>"
  let ?d = "[2, 0, 2, 3, 0, 0, 0x18, 0] :: u8 list"
  have o: "obj_at 4 (set_obj 4 (ObjChar ?dc) demo_connecting) = Some (ObjChar ?dc)" by simp
  have n: "3 \<le> unat (8 :: u8)" "unat (8 :: u8) < 21" "unat (8 :: u8) \<noteq> 7" "length ?d = 1 * unat (8 :: u8)" "1 \<le> (1 :: nat)"
    "length ?d + 2 < 65536" by simp_all
  from short_characteristic_overreads [OF o n] show ?thesis by simp
qed

end
