(* ===== verification/Util.thy ===== *)
theory Util
  imports Uuid UtilTables
begin

text \<open>
  \<^verbatim>\<open>src/bluez/src/shared/util.c\<close>: hex dumps for debug output, identifiers in a bit set, names of assigned numbers, and
  small functions on strings. \<open>lstat\<close> is a parameter; the debug callback is modelled by the list of the strings it is called
  with, in order. A byte of a local array is \<open>None\<close> before it is written.
\<close>

section \<open>Memory and debug output\<close>

text \<open>The allocated block of the given size, NULL for size 0; a failing \<open>malloc\<close> aborts the program, which is the outer
  \<open>None\<close>.\<close>

definition btd_malloc :: "(nat \<Rightarrow> buf option) \<Rightarrow> nat \<Rightarrow> buf option option" where
  "btd_malloc malloc sz = (if sz \<noteq> 0 then map_option Some (malloc sz) else Some None)"

text \<open>The formatted text is cut to 77 characters.\<close>

definition util_debug :: "bool \<Rightarrow> string option \<Rightarrow> string list" where
  "util_debug function formatted = (case formatted of
     None \<Rightarrow> []
   | Some text \<Rightarrow> if \<not> function then [] else [take 77 text])"

type_synonym fresh_buf = "u8 option list"

definition wr_fresh :: "nat \<Rightarrow> u8 \<Rightarrow> fresh_buf \<Rightarrow> fresh_buf option" where
  "wr_fresh i v b = (if i < length b then Some (b[i := Some v]) else None)"

text \<open>The string that a function finds in the array: it reads up to the first NUL.\<close>

fun c_string :: "fresh_buf \<Rightarrow> u8 list option" where
  "c_string [] = None"
| "c_string (None # b) = None"
| "c_string (Some v # b) = (if v = 0 then Some [] else map_option ((#) v) (c_string b))"

definition hexdigits :: "u8 list" where
  "hexdigits = [0x30, 0x31, 0x32, 0x33, 0x34, 0x35, 0x36, 0x37, 0x38, 0x39, 0x61, 0x62, 0x63, 0x64, 0x65, 0x66]"

definition isprint :: "u8 \<Rightarrow> bool" where
  "isprint c \<longleftrightarrow> 0x20 \<le> c \<and> c \<le> 0x7e"

definition SPACE :: u8 where "SPACE = 0x20"
definition DOT :: u8 where "DOT = 0x2e"

text \<open>The end of a line: two blanks between the columns, the NUL, and the call of the function.\<close>

definition hex_flush :: "fresh_buf \<Rightarrow> u8 list list \<Rightarrow> (fresh_buf \<times> u8 list list) option" where
  "hex_flush str out = do {
     str \<leftarrow> wr_fresh 49 SPACE str;
     str \<leftarrow> wr_fresh 50 SPACE str;
     str \<leftarrow> wr_fresh 67 0 str;
     line \<leftarrow> c_string str;
     Some (str, out @ [line]) }"

text \<open>The loop over the bytes from index \<open>i\<close> on.\<close>

fun hex_loop :: "nat \<Rightarrow> u8 list \<Rightarrow> fresh_buf \<Rightarrow> u8 list list \<Rightarrow> (nat \<times> fresh_buf \<times> u8 list list) option" where
  "hex_loop i [] str out = Some (i, str, out)"
| "hex_loop i (c # b) str out = do {
     str \<leftarrow> wr_fresh ((i mod 16) * 3 + 1) SPACE str;
     str \<leftarrow> wr_fresh ((i mod 16) * 3 + 2) (hexdigits ! unat (drop_bit 4 c)) str;
     str \<leftarrow> wr_fresh ((i mod 16) * 3 + 3) (hexdigits ! unat (c AND 0xf)) str;
     str \<leftarrow> wr_fresh (i mod 16 + 51) (if isprint c then c else DOT) str;
     (str, out) \<leftarrow> (if (i + 1) mod 16 = 0 then do {
         (str, out) \<leftarrow> hex_flush str out;
         str \<leftarrow> wr_fresh 0 SPACE str;
         Some (str, out) }
       else Some (str, out));
     hex_loop (i + 1) b str out }"

text \<open>The blanks from column \<open>j\<close> on, for \<open>n\<close> columns.\<close>

fun hex_pad :: "nat \<Rightarrow> nat \<Rightarrow> fresh_buf \<Rightarrow> fresh_buf option" where
  "hex_pad j 0 str = Some str"
| "hex_pad j (Suc n) str = do {
     str \<leftarrow> wr_fresh (j * 3 + 1) SPACE str;
     str \<leftarrow> wr_fresh (j * 3 + 2) SPACE str;
     str \<leftarrow> wr_fresh (j * 3 + 3) SPACE str;
     str \<leftarrow> wr_fresh (j + 51) SPACE str;
     hex_pad (Suc j) n str }"

definition util_hexdump :: "u8 \<Rightarrow> u8 list \<Rightarrow> bool \<Rightarrow> u8 list list option" where
  "util_hexdump dir b function =
     (if \<not> function \<or> b = [] then Some []
      else do {
        str \<leftarrow> wr_fresh 0 dir (replicate 68 None);
        (i, str, out) \<leftarrow> hex_loop 0 b str [];
        if i mod 16 > 0 then do {
          str \<leftarrow> hex_pad (i mod 16) (16 - i mod 16) str;
          (str, out) \<leftarrow> hex_flush str out;
          Some out }
        else Some out })"

definition DT_UNKNOWN :: u8 where "DT_UNKNOWN = 0"
definition DT_DIR :: u8 where "DT_DIR = 4"
definition PATH_MAX :: nat where "PATH_MAX = 4096"

text \<open>The parameter says whether \<open>lstat\<close> finds a directory at a path.\<close>

definition util_get_dt :: "(string \<Rightarrow> bool) \<Rightarrow> string \<Rightarrow> string \<Rightarrow> u8" where
  "util_get_dt lstat_dir parent name =
     (if lstat_dir (take (PATH_MAX - 1) (parent @ ''/'' @ name)) then DT_DIR else DT_UNKNOWN)"

section \<open>Identifiers\<close>

text \<open>\<open>ffs\<close>: one more than the index of the lowest bit that is set, 0 when there is none.\<close>

definition ffs :: "u32 \<Rightarrow> nat" where
  "ffs x = (case find (bit x) [0..<32] of None \<Rightarrow> 0 | Some i \<Rightarrow> Suc i)"

definition util_get_uid :: "u32 \<Rightarrow> u8 \<Rightarrow> u8 \<times> u32" where
  "util_get_uid bitmap mx = (let i = of_nat (ffs (NOT bitmap)) :: u8 in
     if i = 0 \<or> i > mx then (0, bitmap)
     else (i, bitmap OR push_bit (unat (i - 1)) 1))"

text \<open>A shift by 32 or more is undefined.\<close>

definition util_clear_uid :: "u32 \<Rightarrow> u8 \<Rightarrow> u32 option" where
  "util_clear_uid bitmap i =
     (if i = 0 then Some bitmap
      else if unat (i - 1) < 32 then Some (bitmap AND NOT (push_bit (unat (i - 1)) 1))
      else None)"

section \<open>Names\<close>

definition bt_uuid16_to_str :: "u16 \<Rightarrow> string" where
  "bt_uuid16_to_str uuid = (case map_of uuid16_table uuid of Some str \<Rightarrow> str | None \<Rightarrow> ''Unknown'')"

definition bt_uuid32_to_str :: "u32 \<Rightarrow> string" where
  "bt_uuid32_to_str uuid = (if uuid AND 0xffff0000 = 0 then bt_uuid16_to_str (ucast (uuid AND 0xffff)) else ''Unknown'')"

text \<open>\<open>strcasecmp\<close> in the C locale, as equality.\<close>

definition lower :: "char \<Rightarrow> char" where
  "lower c = (let n = of_char c :: nat in if 65 \<le> n \<and> n \<le> 90 then char_of (n + 32) else c)"

definition same_nocase :: "string \<Rightarrow> string \<Rightarrow> bool" where
  "same_nocase s t \<longleftrightarrow> map lower s = map lower t"

text \<open>\<open>strtol(s, &endptr, 0)\<close>: the base is 16 after \<open>0x\<close>, 8 after \<open>0\<close>, and 10 otherwise.\<close>

definition digit_of :: "nat \<Rightarrow> char \<Rightarrow> bool" where
  "digit_of base c \<longleftrightarrow> (case hex_val c of Some v \<Rightarrow> v < base | None \<Rightarrow> False)"

definition strtol0 :: "string \<Rightarrow> int \<times> string" where
  "strtol0 s = (let
     (neg, body) = scan_sign (dropWhile is_space s);
     hex = is_0x body \<and> takeWhile hexd (drop 2 body) \<noteq> [];
     base = (if hex then 16 else if body \<noteq> [] \<and> hd body = CHR ''0'' then 8 else 10);
     body = (if hex then drop 2 body else body);
     ds = takeWhile (digit_of base) body;
     n = foldl (\<lambda>a c. base * a + the (hex_val c)) 0 ds;
     v = (if neg then - int n else int n)
   in if ds = [] then (0, s)
      else (max (- (2 ^ 63)) (min (2 ^ 63 - 1) v), drop (length ds) body))"

definition base_suffix :: string where
  "base_suffix = ''-0000-1000-8000-00805f9b34fb''"

definition bt_uuidstr_to_str :: "string option \<Rightarrow> string option" where
  "bt_uuidstr_to_str uuid = (case uuid of
     None \<Rightarrow> None
   | Some s \<Rightarrow>
       if length s < 36 then (let (v, endp) = strtol0 s; val = word_of_int v :: u32 in
         if endp \<noteq> [] then None
         else if val > 0xffff then Some (bt_uuid32_to_str val)
         else Some (bt_uuid16_to_str (ucast val)))
       else if length s \<noteq> 36 then None
       else (case find (\<lambda>(u, _). same_nocase u s) uuid128_table of
         Some (_, str) \<Rightarrow> Some str
       | None \<Rightarrow>
           if \<not> same_nocase (drop 8 s) base_suffix then Some ''Vendor specific''
           else (case scan_hex 8 s of
             None \<Rightarrow> None
           | Some (v, _) \<Rightarrow> Some (bt_uuid32_to_str (word_of_int v)))))"

text \<open>The loop over the appearances, with the name of the last generic category met.\<close>

fun appear_loop :: "(u16 \<times> bool \<times> string) list \<Rightarrow> u16 \<Rightarrow> string \<Rightarrow> string" where
  "appear_loop [] appearance type = type"
| "appear_loop ((val, generic, str) # table) appearance type =
     (if generic \<and> appearance < val then type
      else if val = appearance then str
      else appear_loop table appearance (if generic then str else type))"

definition bt_appear_to_str :: "u16 \<Rightarrow> string" where
  "bt_appear_to_str appearance = appear_loop appearance_table appearance (snd (snd (hd appearance_table)))"

section \<open>Strings\<close>

text \<open>
  \<open>dup\<close> is the array of the copy without its last NUL; a replacement may write other ones into it, and a string ends at
  the first. \<open>strchr(rep, d)\<close> is an index into the array. The inner loop replaces and searches again from the place it has
  just written; it need not end, and the value is then \<open>None\<close>.
\<close>

definition NUL :: char where "NUL = CHR 0x00"

definition strchr_from :: "nat \<Rightarrow> char \<Rightarrow> string \<Rightarrow> nat option" where
  "strchr_from rep d dup = (let i = rep + length (takeWhile (\<lambda>x. x \<noteq> d \<and> x \<noteq> NUL) (drop rep dup)) in
     if i < length dup \<and> dup ! i = d then Some i else None)"

definition string_in :: "string \<Rightarrow> string" where
  "string_in dup = takeWhile (\<lambda>x. x \<noteq> NUL) dup"

partial_function (option) replace_loop :: "char \<Rightarrow> char \<Rightarrow> string \<Rightarrow> nat \<Rightarrow> string option" where
  "replace_loop d c dup rep = (case strchr_from rep d dup of
     None \<Rightarrow> Some dup
   | Some i \<Rightarrow> replace_loop d c (dup[i := c]) i)"

fun delimit_loop :: "string \<Rightarrow> char \<Rightarrow> string \<Rightarrow> string option" where
  "delimit_loop [] c dup = Some dup"
| "delimit_loop (d # del) c dup = do { dup \<leftarrow> replace_loop d c dup 0; delimit_loop del c dup }"

text \<open>The string returned, NULL for NULL.\<close>

definition strdelimit :: "string option \<Rightarrow> string \<Rightarrow> char \<Rightarrow> string option option" where
  "strdelimit str del c = (case str of
     None \<Rightarrow> Some None
   | Some s \<Rightarrow> if s = [] then Some (Some s) else map_option (\<lambda>dup. Some (string_in dup)) (delimit_loop del c s))"

text \<open>\<open>strncmp\<close>, as the difference at the first position where two strings of the same length differ.\<close>

fun strncmp :: "string \<Rightarrow> string \<Rightarrow> int" where
  "strncmp (a # s) (b # t) = (if a = b then strncmp s t else int (of_char a) - int (of_char b))"
| "strncmp _ _ = 0"

definition strsuffix :: "string option \<Rightarrow> string option \<Rightarrow> int" where
  "strsuffix str suffix = (case (str, suffix) of
     (Some s, Some x) \<Rightarrow>
       if s = [] \<and> x \<noteq> [] then - 1
       else if x = [] \<and> s \<noteq> [] then - 1
       else if length s < length x then - 1
       else strncmp (drop (length s - length x) s) x
   | _ \<Rightarrow> - 1)"

end
