(* ===== verification/UtilSpec.thy ===== *)
theory UtilSpec
  imports Util
begin

text \<open>
  The functions of \<^verbatim>\<open>util.c\<close> against what they mean: the lines of a hex dump, the set of identifiers in use, when the
  replacement of delimiters ends, and the names of numbers.
\<close>

section \<open>Hex dumps\<close>

text \<open>
  A line shows 16 cells after its mark: their left parts, two blanks, and their right parts. A byte gives a blank and
  two hexadecimal digits on the left, and the byte as a character on the right.
\<close>

type_synonym cell = "(u8 \<times> u8 \<times> u8) \<times> u8"

definition byte_cell :: "u8 \<Rightarrow> cell" where
  "byte_cell c = ((SPACE, hexdigits ! unat (drop_bit 4 c), hexdigits ! unat (c AND 0xf)), if isprint c then c else DOT)"

definition blank :: cell where
  "blank = ((SPACE, SPACE, SPACE), SPACE)"

definition lefts :: "cell list \<Rightarrow> u8 list" where
  "lefts cells = concat (map (\<lambda>((a, b, c), d). [a, b, c]) cells)"

definition rights :: "cell list \<Rightarrow> u8 list" where
  "rights cells = map snd cells"

definition hex_line :: "u8 \<Rightarrow> cell list \<Rightarrow> u8 list" where
  "hex_line mark cells = mark # lefts cells @ [SPACE, SPACE] @ rights cells"

definition full :: "u8 list \<Rightarrow> cell list" where
  "full cs = map byte_cell cs @ replicate (16 - length cs) blank"

fun hex_lines :: "u8 \<Rightarrow> u8 list \<Rightarrow> u8 list list" where
  "hex_lines mark [] = []"
| "hex_lines mark (c # cs) = hex_line mark (full (take 16 (c # cs))) # hex_lines SPACE (drop 15 cs)"

text \<open>The array when some cells of a line have been written; the other columns hold anything.\<close>

definition row :: "u8 \<Rightarrow> cell list \<Rightarrow> fresh_buf \<Rightarrow> bool" where
  "row mark cells str \<longleftrightarrow> (\<exists>old1 old2 x y z. length old1 = 3 * (16 - length cells) \<and> length old2 = 16 - length cells \<and>
     str = Some mark # map Some (lefts cells) @ old1 @ [x, y] @ map Some (rights cells) @ old2 @ [z])"

lemma length_cells [simp]: "length (lefts cells) = 3 * length cells" "length (rights cells) = length cells"
  by (induction cells) (auto simp: lefts_def rights_def)

lemma cells_append [simp]:
  "lefts (cs @ ds) = lefts cs @ lefts ds" "rights (cs @ ds) = rights cs @ rights ds" "lefts [((a, b, c), d)] = [a, b, c]"
  "rights [((a, b, c), d)] = [d]"
  by (simp_all add: lefts_def rights_def)

lemma wr_fresh_mid: "n = length a \<Longrightarrow> wr_fresh n v (a @ x # b) = Some (a @ Some v # b)"
  by (simp add: wr_fresh_def)

definition wr_cell :: "nat \<Rightarrow> cell \<Rightarrow> fresh_buf \<Rightarrow> fresh_buf option" where
  "wr_cell k x str = (case x of ((a, b, c), d) \<Rightarrow> do {
     str \<leftarrow> wr_fresh (k * 3 + 1) a str;
     str \<leftarrow> wr_fresh (k * 3 + 2) b str;
     str \<leftarrow> wr_fresh (k * 3 + 3) c str;
     wr_fresh (k + 51) d str })"

lemma row_step:
  assumes "row mark cells str" "length cells < 16" "k = length cells"
  shows "\<exists>str'. wr_cell k e str = Some str' \<and> row mark (cells @ [e]) str'"
proof -
  obtain a b c d where e: "e = ((a, b, c), d)" by (metis surj_pair)
  obtain old1 old2 x y z where o: "length old1 = 3 * (16 - k)" "length old2 = 16 - k"
    "str = Some mark # map Some (lefts cells) @ old1 @ [x, y] @ map Some (rights cells) @ old2 @ [z]"
    using assms by (auto simp: row_def)
  have "3 \<le> length old1" "1 \<le> length old2" using o(1,2) assms(2,3) by simp_all
  then obtain a1 a2 a3 r1 d1 r2 where r: "old1 = a1 # a2 # a3 # r1" "old2 = d1 # r2"
    by (metis (no_types, opaque_lifting) One_nat_def Suc_le_length_iff numeral_3_eq_3)
  let ?h = "map Some (lefts cells)" and ?s = "map Some (rights cells)"
  let ?str = "(Some mark # ?h) @ Some a # Some b # Some c # r1 @ [x, y] @ ?s @ Some d # r2 @ [z]"
  have l: "length r1 = 3 * (16 - length (cells @ [e]))" "length r2 = 16 - length (cells @ [e])" using o(1,2) r assms(3) by simp_all
  have "row mark (cells @ [e]) ?str"
    unfolding row_def by (intro exI [of _ r1] exI [of _ r2] exI [of _ x] exI [of _ y] exI [of _ z]) (use l e in simp)
  moreover have "wr_fresh (k * 3 + 1) a str = Some ((Some mark # ?h) @ Some a # a2 # a3 # r1 @ [x, y] @ ?s @ d1 # r2 @ [z])"
    using wr_fresh_mid [of "k * 3 + 1" "Some mark # ?h" a a1] assms(3) by (simp add: o(3) r mult.commute)
  moreover have "wr_fresh (k * 3 + 2) b ((Some mark # ?h) @ Some a # a2 # a3 # r1 @ [x, y] @ ?s @ d1 # r2 @ [z]) =
      Some ((Some mark # ?h) @ Some a # Some b # a3 # r1 @ [x, y] @ ?s @ d1 # r2 @ [z])"
    using wr_fresh_mid [of "k * 3 + 2" "Some mark # ?h @ [Some a]" b a2] assms(3) by (simp add: mult.commute)
  moreover have "wr_fresh (k * 3 + 3) c ((Some mark # ?h) @ Some a # Some b # a3 # r1 @ [x, y] @ ?s @ d1 # r2 @ [z]) =
      Some ((Some mark # ?h) @ Some a # Some b # Some c # r1 @ [x, y] @ ?s @ d1 # r2 @ [z])"
    using wr_fresh_mid [of "k * 3 + 3" "Some mark # ?h @ [Some a, Some b]" c a3] assms(3) by (simp add: mult.commute)
  moreover have "wr_fresh (k + 51) d ((Some mark # ?h) @ Some a # Some b # Some c # r1 @ [x, y] @ ?s @ d1 # r2 @ [z]) = Some ?str"
    using wr_fresh_mid [of "k + 51" "(Some mark # ?h) @ Some a # Some b # Some c # r1 @ [x, y] @ ?s" d d1] assms(2,3) l(1)
    by simp
  ultimately show ?thesis by (simp add: wr_cell_def e)
qed

lemma row_start:
  assumes "length l = 67"
  shows "row mark [] (Some mark # l)"
proof -
  have "drop 48 l = [l ! 48, l ! 49] @ drop 50 l" "drop 66 l = [l ! 66]"
    using assms Cons_nth_drop_Suc [of 48 l] Cons_nth_drop_Suc [of 49 l] Cons_nth_drop_Suc [of 66 l] by simp_all
  moreover have "drop 50 l = take 16 (drop 50 l) @ drop 66 l" using append_take_drop_id [of 16 "drop 50 l"] by simp
  ultimately have "l = take 48 l @ [l ! 48, l ! 49] @ take 16 (drop 50 l) @ [l ! 66]"
    by (metis append.assoc append_take_drop_id)
  then show ?thesis unfolding row_def
    by (intro exI [of _ "take 48 l"] exI [of _ "take 16 (drop 50 l)"] exI [of _ "l ! 48"] exI [of _ "l ! 49"] exI [of _ "l ! 66"])
      (use assms in \<open>simp add: lefts_def rights_def\<close>)
qed

definition proper :: "cell \<Rightarrow> bool" where
  "proper x \<longleftrightarrow> (case x of ((a, b, c), d) \<Rightarrow> a \<noteq> 0 \<and> b \<noteq> 0 \<and> c \<noteq> 0 \<and> d \<noteq> 0)"

lemma proper_cells [simp]: "proper (byte_cell c)" "proper blank"
proof -
  have d: "hexdigits ! i \<noteq> 0" if "i < 16" for i
  proof -
    have "list_all (\<lambda>x. x \<noteq> 0) hexdigits" "length hexdigits = 16" by (simp_all add: hexdigits_def)
    with that show ?thesis by (auto simp: list_all_length)
  qed
  have h: "unat (drop_bit 4 c) < 16" using unat_u8_le [of c] by (simp add: drop_bit_eq_div unat_div)
  have l: "unat (c AND 0xf) < 16"
    using word_and_le1 [of c "0xf"] word_and_le2 [of c "0xf"] by (auto simp: word_le_nat_alt)
  show "proper (byte_cell c)" using d [OF h] d [OF l]
    by (auto simp: proper_def byte_cell_def SPACE_def DOT_def isprint_def)
  show "proper blank" by (simp add: proper_def blank_def SPACE_def)
qed

lemma c_string_line: "0 \<notin> set l \<Longrightarrow> c_string (map Some l @ Some 0 # r) = Some l"
  by (induction l) auto

lemma flush_row:
  assumes r: "row mark cells str" and n: "length cells = 16" and p: "list_all proper cells" "mark \<noteq> 0"
  shows "\<exists>str'. hex_flush str out = Some (str', out @ [hex_line mark cells]) \<and> (\<exists>str''. wr_fresh 0 SPACE str' = Some str'' \<and> row SPACE [] str'')"
proof -
  obtain x y z where s: "str = Some mark # map Some (lefts cells) @ [x, y] @ map Some (rights cells) @ [z]"
    using r n by (auto simp: row_def)
  let ?h = "map Some (lefts cells)" and ?s = "map Some (rights cells)"
  have "wr_fresh 49 SPACE str = Some ((Some mark # ?h) @ Some SPACE # y # ?s @ [z])"
    using wr_fresh_mid [of 49 "Some mark # ?h"] n by (simp add: s)
  moreover have "wr_fresh 50 SPACE ((Some mark # ?h) @ Some SPACE # y # ?s @ [z]) = Some ((Some mark # ?h) @ Some SPACE # Some SPACE # ?s @ [z])"
    using wr_fresh_mid [of 50 "Some mark # ?h @ [Some SPACE]" SPACE y] n by simp
  moreover have "wr_fresh 67 0 ((Some mark # ?h) @ Some SPACE # Some SPACE # ?s @ [z]) =
      Some ((Some mark # ?h) @ Some SPACE # Some SPACE # ?s @ [Some 0])"
    using wr_fresh_mid [of 67 "Some mark # ?h @ Some SPACE # Some SPACE # ?s" 0 z] n by simp
  moreover have "0 \<notin> set (hex_line mark cells)"
    using p by (induction cells) (auto simp: hex_line_def lefts_def rights_def SPACE_def proper_def split: prod.splits)
  then have "c_string (map Some (hex_line mark cells) @ Some 0 # []) = Some (hex_line mark cells)" by (rule c_string_line)
  ultimately have f: "hex_flush str out = Some (map Some (hex_line mark cells) @ [Some 0], out @ [hex_line mark cells])"
    by (simp add: hex_flush_def hex_line_def)
  have "wr_fresh 0 SPACE (map Some (hex_line mark cells) @ [Some 0]) = Some (Some SPACE # map Some (tl (hex_line mark cells)) @ [Some 0])"
    by (simp add: wr_fresh_def hex_line_def)
  moreover have "row SPACE [] (Some SPACE # map Some (tl (hex_line mark cells)) @ [Some 0])"
    by (rule row_start) (simp add: hex_line_def n)
  ultimately show ?thesis using f by blast
qed


lemma pad_row:
  assumes "row mark cells str" "length cells + n = 16"
  shows "\<exists>str'. hex_pad (length cells) n str = Some str' \<and> row mark (cells @ replicate n blank) str'"
  using assms
proof (induction n arbitrary: cells str)
  case (Suc n)
  obtain t where t: "wr_cell (length cells) blank str = Some t" "row mark (cells @ [blank]) t"
    using row_step [OF Suc.prems(1), of "length cells" blank] Suc.prems(2) by auto
  from Suc.IH [OF t(2)] Suc.prems(2) obtain str' where
    "hex_pad (Suc (length cells)) n t = Some str'" "row mark ((cells @ [blank]) @ replicate n blank) str'" by auto
  then show ?case using t(1) by (auto simp: wr_cell_def blank_def bind_eq_Some_conv)
qed simp

text \<open>What the loop does: whole lines are written out, the rest of the bytes is in the array.\<close>

lemma loop_row:
  assumes "row mark (map byte_cell cs) str" "length cs < 16" "i mod 16 = length cs" "mark \<noteq> 0"
  shows "\<exists>n str' mark' ds out'. hex_loop i b str out = Some (n, str', out') \<and> row mark' (map byte_cell ds) str' \<and> length ds < 16 \<and>
    n mod 16 = length ds \<and> mark' \<noteq> 0 \<and> out @ hex_lines mark (cs @ b) = out' @ (if ds = [] then [] else [hex_line mark' (full ds)])"
  using assms
proof (induction b arbitrary: i cs mark str out)
  case Nil
  have "hex_lines mark cs = (if cs = [] then [] else [hex_line mark (full cs)])"
    using Nil(2) by (cases cs) simp_all
  then show ?case using Nil by (intro exI [of _ i] exI [of _ str] exI [of _ mark] exI [of _ cs] exI [of _ out]) simp
next
  case (Cons c b)
  obtain t where t: "wr_cell (i mod 16) (byte_cell c) str = Some t" "row mark (map byte_cell (cs @ [c])) t"
    using row_step [OF Cons.prems(1), of "i mod 16" "byte_cell c"] Cons.prems(2,3) by auto
  show ?case
  proof (cases "length cs = 15")
    case False
    then have m: "(i + 1) mod 16 = Suc (length cs)" using Cons.prems(2,3) by (simp add: mod_Suc)
    have "hex_loop i (c # b) str out = hex_loop (i + 1) b t out"
      using t(1) m False Cons.prems(2) by (simp add: wr_cell_def byte_cell_def bind_eq_Some_conv) (auto simp: bind_eq_Some_conv)
    then show ?thesis using Cons.IH [OF t(2), of "i + 1" out] m False Cons.prems(2,4) by simp
  next
    case True
    then have m: "(i + 1) mod 16 = 0" using Cons.prems(3) by (simp add: mod_Suc)
    obtain u v where u: "hex_flush t out = Some (u, out @ [hex_line mark (map byte_cell (cs @ [c]))])" "wr_fresh 0 SPACE u = Some v"
        "row SPACE [] v"
      using flush_row [OF t(2) _ _ Cons.prems(4), of out] True by (auto simp: list_all_iff)
    have l: "hex_loop i (c # b) str out = hex_loop (i + 1) b v (out @ [hex_line mark (map byte_cell (cs @ [c]))])"
      using t(1) m u(1,2) by (simp add: wr_cell_def byte_cell_def bind_eq_Some_conv) (auto simp: bind_eq_Some_conv)
    have "hex_lines mark (cs @ c # b) = hex_line mark (map byte_cell (cs @ [c])) # hex_lines SPACE b"
      using True by (cases cs) (simp_all add: full_def)
    then show ?thesis unfolding l using Cons.IH [of SPACE "[]" v "i + 1" "out @ [hex_line mark (map byte_cell (cs @ [c]))]"] u(3) m
      by (simp add: SPACE_def)
  qed
qed


section \<open>Identifiers\<close>

definition ids :: "u32 \<Rightarrow> nat set" where
  "ids bitmap = {Suc n | n. n < 32 \<and> bit bitmap n}"

lemma ffs_cases:
  "ffs x = 0 \<and> (\<forall>i < 32. \<not> bit x i) \<or> (\<exists>i < 32. ffs x = Suc i \<and> bit x i \<and> (\<forall>j < i. \<not> bit x j))"
proof (cases "find (bit x) [0..<32]")
  case None
  then have "\<forall>i < 32. \<not> bit x i" by (auto simp: find_None_iff)
  then show ?thesis using None by (simp add: ffs_def)
next
  case (Some i)
  then have "\<exists>k<32. bit x ([0..<32] ! k) \<and> i = [0..<32] ! k \<and> (\<forall>j<k. \<not> bit x ([0..<32] ! j))"
    by (auto simp: find_Some_iff)
  then show ?thesis using Some by (auto simp: ffs_def)
qed

lemma push_bit_one: "bit (push_bit i (1 :: u32)) n \<longleftrightarrow> n = i \<and> i < 32"
  using bit_imp_le_length [of "push_bit i (1 :: u32)" n] by (auto simp: bit_simps)

lemma power_bit: "bit ((2 :: u32) ^ i) n \<longleftrightarrow> n = i \<and> i < 32"
  using push_bit_one [of i n] by simp

lemma uid_range: "i < 32 \<Longrightarrow> unat (of_nat (Suc i) :: u8) = Suc i \<and> unat ((of_nat (Suc i) :: u8) - 1) = i \<and> (of_nat (Suc i) :: u8) \<noteq> 0"
proof -
  assume i: "i < 32"
  then have "unat (of_nat (Suc i) :: u8) = Suc i" by (intro unat_of_nat_u8) simp
  moreover have "(of_nat (Suc i) :: u8) - 1 = of_nat i" by simp
  moreover have "unat (of_nat i :: u8) = i" using i by (intro unat_of_nat_u8) simp
  ultimately show ?thesis by (metis nat.simps(3) unat_0)
qed

section \<open>Delimiters\<close>

lemma strchr_None:
  assumes "NUL \<notin> set (drop rep dup)"
  shows "strchr_from rep d dup = None \<longleftrightarrow> d \<notin> set (drop rep dup)"
proof
  assume none: "strchr_from rep d dup = None"
  show "d \<notin> set (drop rep dup)"
  proof
    assume "d \<in> set (drop rep dup)"
    then obtain xs ys where x: "drop rep dup = xs @ d # ys" "d \<notin> set xs" by (meson split_list_first)
    have "\<forall>x \<in> set xs. x \<noteq> d \<and> x \<noteq> NUL" using x assms by auto
    then have t: "takeWhile (\<lambda>x. x \<noteq> d \<and> x \<noteq> NUL) (drop rep dup) = xs" by (simp add: x(1) takeWhile_append2)
    have "length (drop rep dup) = length xs + Suc (length ys)" using x(1) by simp
    then have "rep + length xs < length dup" by simp
    moreover have "dup ! (rep + length xs) = d" using x(1) calculation by (metis add_lessD1 less_imp_le nth_append_length nth_drop)
    ultimately show False using none by (simp add: strchr_from_def t)
  qed
next
  assume "d \<notin> set (drop rep dup)"
  then have t: "takeWhile (\<lambda>x. x \<noteq> d \<and> x \<noteq> NUL) (drop rep dup) = drop rep dup" using assms by (intro takeWhile_eq_all_conv [THEN iffD2]) auto
  have "\<not> rep + length (drop rep dup) < length dup" by simp
  then show "strchr_from rep d dup = None" unfolding strchr_from_def Let_def t by (simp only: simp_thms if_False)
qed

lemma strchr_Some:
  assumes "strchr_from rep d dup = Some i"
  shows "\<exists>a b. dup = a @ d # b \<and> length a = i \<and> rep \<le> i \<and> d \<notin> set (drop rep a) \<and> NUL \<notin> set (drop rep a)"
proof -
  let ?t = "takeWhile (\<lambda>x. x \<noteq> d \<and> x \<noteq> NUL) (drop rep dup)"
  have i: "i = rep + length ?t" "i < length dup" "dup ! i = d" using assms by (auto simp: strchr_from_def Let_def split: if_splits)
  have "drop rep (take i dup) = take (length ?t) (drop rep dup)" by (simp only: i(1) drop_take diff_add_inverse)
  then have t: "drop rep (take i dup) = ?t" by (simp only: takeWhile_eq_take [symmetric])
  have "d \<notin> set ?t" "NUL \<notin> set ?t" by (metis (mono_tags, lifting) set_takeWhileD)+
  then show ?thesis using i id_take_nth_drop [OF i(2)] t
    by (intro exI [of _ "take i dup"] exI [of _ "drop (Suc i) dup"]) auto
qed

text \<open>With another character the inner loop ends; with the character itself it never does when it occurs.\<close>

lemma replace_ends:
  assumes "d \<noteq> c" "c \<noteq> NUL"
  shows "rep \<le> length dup \<Longrightarrow> NUL \<notin> set dup \<Longrightarrow>
    replace_loop d c dup rep = Some (take rep dup @ map (\<lambda>x. if x = d then c else x) (drop rep dup))"
proof (induction "count_list (drop rep dup) d" arbitrary: rep dup rule: less_induct)
  case less
  have n: "NUL \<notin> set (drop rep dup)" using less.prems(2) by (meson in_set_dropD)
  show ?case
  proof (cases "strchr_from rep d dup")
    case None
    then have "map (\<lambda>x. if x = d then c else x) (drop rep dup) = drop rep dup"
      unfolding strchr_None [OF n] by (intro map_idI) auto
    then show ?thesis using None by (simp add: replace_loop.simps)
  next
    case (Some i)
    then obtain a b where ab: "dup = a @ d # b" "length a = i" "rep \<le> i" "d \<notin> set (drop rep a)" using strchr_Some by blast
    have u: "dup[i := c] = a @ c # b" using ab(1,2) by auto
    have "count_list (drop i (a @ c # b)) d < count_list (drop rep dup) d"
      using ab assms by (simp add: count_list_append)
    from less.hyps [OF this] ab(1,2) less.prems(2) have "replace_loop d c (a @ c # b) i = Some (a @ c # map (\<lambda>x. if x = d then c else x) b)"
      using assms by simp
    moreover have "map (\<lambda>x. if x = d then c else x) (drop rep a) = drop rep a" using ab(4) by (intro map_idI) auto
    moreover have "take rep a @ drop rep a @ c # r = a @ c # r" for r using append_take_drop_id [of rep a] by (metis append.assoc)
    ultimately show ?thesis using Some ab(2,3) u ab(1) by (subst replace_loop.simps) simp
  qed
qed

lemma replace_never_ends:
  assumes "replace_loop d c dup rep = Some r"
  shows "c = d \<longrightarrow> d \<noteq> NUL \<longrightarrow> NUL \<notin> set (drop rep dup) \<longrightarrow> d \<notin> set (drop rep dup)"
proof (rule replace_loop.raw_induct [where P = "\<lambda>d c dup rep r. c = d \<longrightarrow> d \<noteq> NUL \<longrightarrow> NUL \<notin> set (drop rep dup) \<longrightarrow> d \<notin> set (drop rep dup)", OF _ assms])
  fix loop d c dup rep and r :: string
  assume IH: "\<And>d c dup rep r. loop d c dup rep = Some r \<Longrightarrow> c = d \<longrightarrow> d \<noteq> NUL \<longrightarrow> NUL \<notin> set (drop rep dup) \<longrightarrow> d \<notin> set (drop rep dup)"
    and eq: "(case strchr_from rep d dup of None \<Rightarrow> Some dup | Some i \<Rightarrow> loop d c (dup[i := c]) i) = Some r"
  show "c = d \<longrightarrow> d \<noteq> NUL \<longrightarrow> NUL \<notin> set (drop rep dup) \<longrightarrow> d \<notin> set (drop rep dup)"
  proof (intro impI)
    assume a: "c = d" "d \<noteq> NUL" "NUL \<notin> set (drop rep dup)"
    show "d \<notin> set (drop rep dup)"
    proof (cases "strchr_from rep d dup")
      case None
      then show ?thesis by (simp add: strchr_None [OF a(3)])
    next
      case (Some i)
      then obtain x y where xy: "dup = x @ d # y" "length x = i" "rep \<le> i" using strchr_Some by blast
      from eq Some have "loop d c (dup[i := c]) i = Some r" by simp
      from IH [OF this] show ?thesis using xy a by auto
    qed
  qed
qed

text \<open>
  The loop over the delimiters, for a replacement that is not NUL: it does not end when the replacement is a delimiter
  that occurs, in the string or written for an earlier delimiter.
\<close>

definition meets_itself :: "char \<Rightarrow> string \<Rightarrow> string \<Rightarrow> bool" where
  "meets_itself c del s \<longleftrightarrow> (\<exists>pre post. del = pre @ c # post \<and> set (c # pre) \<inter> set s \<noteq> {})"

lemma meets_Cons:
  "meets_itself c (d # del) s \<longleftrightarrow> (d = c \<and> c \<in> set s) \<or> meets_itself c del (map (\<lambda>x. if x = d then c else x) s)" (is "?l \<longleftrightarrow> ?r")
proof
  assume ?l
  then obtain pre post where p: "d # del = pre @ c # post" "set (c # pre) \<inter> set s \<noteq> {}" unfolding meets_itself_def by blast
  show ?r
  proof (cases pre)
    case Nil
    then show ?thesis using p by auto
  next
    case (Cons e pre')
    then have "del = pre' @ c # post" "e = d" using p(1) by simp_all
    moreover have "set (c # pre') \<inter> set (map (\<lambda>x. if x = d then c else x) s) \<noteq> {}"
      using p(2) Cons \<open>e = d\<close> by (auto simp: image_iff)
    ultimately show ?thesis unfolding meets_itself_def by blast
  qed
next
  assume ?r
  then show ?l
  proof
    assume "d = c \<and> c \<in> set s"
    then show ?l unfolding meets_itself_def by (intro exI [of _ "[]"] exI [of _ del]) auto
  next
    assume "meets_itself c del (map (\<lambda>x. if x = d then c else x) s)"
    then obtain pre post where p: "del = pre @ c # post" "set (c # pre) \<inter> set (map (\<lambda>x. if x = d then c else x) s) \<noteq> {}"
      unfolding meets_itself_def by blast
    then have "set (c # d # pre) \<inter> set s \<noteq> {}" by (auto split: if_splits)
    then show ?l using p(1) unfolding meets_itself_def by (intro exI [of _ "d # pre"] exI [of _ post]) simp
  qed
qed

lemma delimit_loop_eq:
  assumes "c \<noteq> NUL"
  shows "NUL \<notin> set del \<Longrightarrow> NUL \<notin> set s \<Longrightarrow>
    delimit_loop del c s = (if meets_itself c del s then None else Some (map (\<lambda>x. if x \<in> set del then c else x) s))"
proof (induction del arbitrary: s)
  case Nil
  then show ?case by (simp add: meets_itself_def)
next
  case (Cons d del)
  let ?s = "map (\<lambda>x. if x = d then c else x) s"
  have n: "NUL \<notin> set ?s" using Cons.prems(2) assms by auto
  show ?case
  proof (cases "d = c \<and> c \<in> set s")
    case True
    then have "replace_loop d c s 0 = None"
      using replace_never_ends [of d c s 0] Cons.prems assms by (cases "replace_loop d c s 0") auto
    then show ?thesis using True by (simp add: meets_Cons)
  next
    case False
    have "replace_loop d c s 0 = Some ?s"
    proof (cases "d = c")
      case True
      then have "?s = s" using False by (intro map_idI) auto
      moreover have "strchr_from 0 d s = None" using False True Cons.prems(2) by (simp add: strchr_None)
      ultimately show ?thesis by (simp add: replace_loop.simps)
    next
      case False
      then show ?thesis using replace_ends [of d c 0 s] assms Cons.prems(2) by simp
    qed
    moreover have "map (\<lambda>x. if x \<in> set del then c else x) ?s = map (\<lambda>x. if x \<in> set (d # del) then c else x) s" by auto
    ultimately show ?thesis using Cons.IH [OF _ n] Cons.prems(1) False by (simp add: meets_Cons)
  qed
qed

text \<open>A replacement by NUL cuts the string at the first delimiter.\<close>

lemma replace_by_NUL:
  assumes "d \<noteq> NUL"
  shows "\<exists>r. replace_loop d NUL dup 0 = Some r \<and> string_in r = takeWhile (\<lambda>x. x \<noteq> d) (string_in dup)"
proof (cases "strchr_from 0 d dup")
  case None
  have "d \<notin> set (string_in dup)"
  proof
    assume "d \<in> set (string_in dup)"
    then obtain xs ys where x: "string_in dup = xs @ d # ys" "d \<notin> set xs" by (meson split_list_first)
    moreover have "NUL \<notin> set (string_in dup)" by (auto simp: string_in_def dest: set_takeWhileD)
    ultimately have all: "\<forall>y \<in> set xs. y \<noteq> d \<and> y \<noteq> NUL" by auto
    obtain z where "dup = xs @ d # z"
      using takeWhile_dropWhile_id [of "\<lambda>x. x \<noteq> NUL" dup] x(1) unfolding string_in_def by (metis append_Cons append_assoc)
    then show False using None all by (simp add: strchr_from_def takeWhile_append2)
  qed
  then have e: "takeWhile (\<lambda>x. x \<noteq> d) (string_in dup) = string_in dup" by (auto simp: takeWhile_eq_all_conv)
  show ?thesis by (simp add: replace_loop.simps None e)
next
  case (Some i)
  then obtain a b where ab: "dup = a @ d # b" "length a = i" "d \<notin> set a" "NUL \<notin> set a" using strchr_Some by fastforce
  have u: "dup[i := NUL] = a @ NUL # b" using ab(1,2) by auto
  have "strchr_from i d (a @ NUL # b) = None" using ab(2) assms by (auto simp: strchr_from_def)
  then have r: "replace_loop d NUL dup 0 = Some (a @ NUL # b)"
    using Some u by (subst replace_loop.simps) (simp add: replace_loop.simps)
  have "\<forall>x \<in> set a. x \<noteq> NUL" using ab(4) by auto
  then have "string_in (a @ NUL # b) = a" "string_in dup = a @ takeWhile (\<lambda>x. x \<noteq> NUL) (d # b)" "takeWhile (\<lambda>x. x \<noteq> d) a = a"
    using ab assms by (auto simp: string_in_def takeWhile_eq_all_conv takeWhile_append2)
  then show ?thesis using r ab(3) assms by simp
qed

lemma delimit_by_NUL:
  "NUL \<notin> set del \<Longrightarrow> \<exists>r. delimit_loop del NUL dup = Some r \<and> string_in r = takeWhile (\<lambda>x. x \<notin> set del) (string_in dup)"
proof (induction del arbitrary: dup)
  case (Cons d del)
  obtain r where r: "replace_loop d NUL dup 0 = Some r" "string_in r = takeWhile (\<lambda>x. x \<noteq> d) (string_in dup)"
    using replace_by_NUL [of d dup] Cons.prems by auto
  obtain q where "delimit_loop del NUL r = Some q" "string_in q = takeWhile (\<lambda>x. x \<notin> set del) (string_in r)"
    using Cons.IH [of r] Cons.prems by auto
  then show ?case using r by (simp add: takeWhile_takeWhile conj_commute)
next
  case Nil
  have e: "takeWhile (\<lambda>x. True) (string_in dup) = string_in dup" by (simp add: takeWhile_eq_all_conv)
  show ?case by (simp add: e)
qed

section \<open>Names\<close>

text \<open>
  The numbers of the table increase, then decrease from 0xfefe to 0xfe1c, and the last three are 0xfffc, 0xfffe, 0xfffd; in
  this rank they increase, so no number occurs twice.
\<close>

definition rank :: "u16 \<Rightarrow> nat" where
  "rank k = (let n = unat k in
     if 0xfe1c \<le> n \<and> n \<le> 0xfefe then 0xfeff + (0xfeff - n) else if n = 0xfffd then 0x10000 else n)"

abbreviation ranked :: "(u16 \<times> string) list \<Rightarrow> bool" where
  "ranked l \<equiv> successively (\<lambda>x y. rank x < rank y) (map fst l)"

lemma ranked_part1: "ranked uuid16_part1" unfolding uuid16_part1_def by (simp add: rank_def)
lemma ranked_part2: "ranked uuid16_part2" unfolding uuid16_part2_def by (simp add: rank_def)
lemma ranked_part3: "ranked uuid16_part3" unfolding uuid16_part3_def by (simp add: rank_def)
lemma ranked_part4: "ranked uuid16_part4" unfolding uuid16_part4_def by (simp add: rank_def)
lemma ranked_part5: "ranked uuid16_part5" unfolding uuid16_part5_def by (simp add: rank_def)

lemma ranked_ends:
  "rank (last (map fst uuid16_part1)) < rank (hd (map fst uuid16_part2))" "rank (last (map fst uuid16_part2)) < rank (hd (map fst uuid16_part3))"
  "rank (last (map fst uuid16_part3)) < rank (hd (map fst uuid16_part4))" "rank (last (map fst uuid16_part4)) < rank (hd (map fst uuid16_part5))"
  unfolding uuid16_part1_def uuid16_part2_def uuid16_part3_def uuid16_part4_def uuid16_part5_def by (simp_all add: rank_def)

lemma parts_nonempty: "uuid16_part2 \<noteq> []" "uuid16_part3 \<noteq> []" "uuid16_part4 \<noteq> []" "uuid16_part5 \<noteq> []"
  unfolding uuid16_part2_def uuid16_part3_def uuid16_part4_def uuid16_part5_def by simp_all

lemma ranked_distinct: "sorted_wrt (\<lambda>x y. rank x < rank y) l \<Longrightarrow> distinct l"
  by (induction l) auto

lemma uuid16_distinct: "distinct (map fst uuid16_table)"
proof -
  have "ranked uuid16_table"
    unfolding uuid16_table_def map_append successively_append_iff hd_append
    using ranked_part1 ranked_part2 ranked_part3 ranked_part4 ranked_part5 ranked_ends parts_nonempty by (simp add: hd_append)
  then have "sorted_wrt (\<lambda>x y. rank x < rank y) (map fst uuid16_table)"
    by (subst successively_conv_sorted_wrt [symmetric]) (auto simp: transp_def)
  then show ?thesis by (rule ranked_distinct)
qed

text \<open>Appearances: the exact entry, or the last generic category not above the number.\<close>

definition category :: "(u16 \<times> bool \<times> string) list \<Rightarrow> u16 \<Rightarrow> string \<Rightarrow> string" where
  "category table a type = (let below = filter (\<lambda>(v, g, s). g \<and> v \<le> a) table in if below = [] then type else snd (snd (last below)))"

lemma appear_reference:
  assumes "sorted_wrt (<) (map fst table)"
  shows "appear_loop table a type = (case map_of table a of Some (g, s) \<Rightarrow> s | None \<Rightarrow> category table a type)"
  using assms
proof (induction table a type rule: appear_loop.induct)
  case (2 v g s table a type)
  have above: "map_of table a = None \<and> filter (\<lambda>(v, g, s). g \<and> v \<le> a) table = []" if "a < v"
    using that 2(2) by (auto simp: map_of_eq_None_iff filter_empty_conv)
  show ?case
  proof (cases "g \<and> a < v")
    case True
    then show ?thesis using above by (auto simp: category_def)
  next
    case False
    show ?thesis
    proof (cases "v = a")
      case n: False
      have "category ((v, g, s) # table) a type = category table a (if g then s else type)"
        using False by (auto simp: category_def Let_def not_less)
      then show ?thesis using False n 2 by (cases g) (simp_all split: option.split)
    qed simp
  qed
qed (simp add: category_def)


section \<open>Properties\<close>

text \<open>C37. A hex dump never writes outside its array of 68 characters and never shows a character that was not written, and its
  lines are exactly those of the reference: 16 bytes to a line, the first line with the given mark, the last one filled up
  with blanks.\<close>

theorem hexdump_lines:
  assumes "mark \<noteq> 0"
  shows "util_hexdump mark b True = Some (hex_lines mark b)"
proof (cases "b = []")
  case False
  have "wr_fresh 0 mark (replicate 68 None) = Some (Some mark # replicate 67 None)"
    by (simp add: wr_fresh_def numeral_eq_Suc)
  moreover have "row mark (map byte_cell []) (Some mark # replicate 67 None)" using row_start [of "replicate 67 None"] by simp
  from loop_row [OF this, of 0 b "[]"] assms obtain n str mark' ds out' where
    l: "hex_loop 0 b (Some mark # replicate 67 None) [] = Some (n, str, out')" "row mark' (map byte_cell ds) str" "length ds < 16"
      "n mod 16 = length ds" "mark' \<noteq> 0" "hex_lines mark b = out' @ (if ds = [] then [] else [hex_line mark' (full ds)])" by auto
  moreover have "\<exists>str' str''. hex_pad (length ds) (16 - length ds) str = Some str' \<and> hex_flush str' out' = Some (str'', out' @ [hex_line mark' (full ds)])"
  proof -
    obtain str' where p: "hex_pad (length ds) (16 - length ds) str = Some str'" "row mark' (full ds) str'"
      using pad_row [OF l(2), of "16 - length ds"] l(3) by (auto simp: full_def)
    then show ?thesis using flush_row [OF p(2) _ _ l(5), of out'] l(3) by (auto simp: full_def list_all_iff)
  qed
  ultimately show ?thesis using False by (auto simp: util_hexdump_def)
qed (simp add: util_hexdump_def)

theorem hexdump_lines_witness:
  "util_hexdump 0x3c [0x41, 0x0a] True =
    Some [[0x3c, 0x20, 0x34, 0x31, 0x20, 0x30, 0x61] @ replicate 42 0x20 @ [0x20, 0x20, 0x41, 0x2e] @ replicate 14 0x20]"
proof -
  have "hex_lines 0x3c [0x41, 0x0a] =
    [[0x3c, 0x20, 0x34, 0x31, 0x20, 0x30, 0x61] @ replicate 42 0x20 @ [0x20, 0x20, 0x41, 0x2e] @ replicate 14 0x20]" by code_simp
  then show ?thesis using hexdump_lines [of "0x3c" "[0x41, 0x0a]"] by simp
qed

text \<open>\<open>util_get_uid\<close> gives the least identifier that is not in use and marks it, and 0 exactly when all identifiers up to
  the maximum (and 32) are in use, changing nothing; \<open>util_clear_uid\<close> gives the identifier back and restores the bit set.\<close>

theorem least_free_uid:
  "case util_get_uid bitmap mx of (i, bitmap') \<Rightarrow>
     if i = 0 then bitmap' = bitmap \<and> {1..min (unat mx) 32} \<subseteq> ids bitmap
     else unat i \<le> unat mx \<and> unat i \<notin> ids bitmap \<and> {1..<unat i} \<subseteq> ids bitmap \<and> ids bitmap' = insert (unat i) (ids bitmap) \<and>
       util_clear_uid bitmap' i = Some bitmap"
  using ffs_cases [of "NOT bitmap"]
proof (elim disjE exE conjE)
  assume f: "ffs (NOT bitmap) = 0" "\<forall>i<32. \<not> bit (NOT bitmap) i"
  have "{1..min (unat mx) 32} \<subseteq> ids bitmap"
  proof
    fix j assume "j \<in> {1..min (unat mx) 32}"
    then obtain k where "j = Suc k" "k < 32" by (cases j) auto
    then show "j \<in> ids bitmap" using f(2) by (auto simp: ids_def bit_not_iff)
  qed
  then show ?thesis using f(1) by (simp add: util_get_uid_def)
next
  fix i assume i: "i < 32" "ffs (NOT bitmap) = Suc i" "bit (NOT bitmap) i" "\<forall>j<i. \<not> bit (NOT bitmap) j"
  have r: "unat (of_nat (Suc i) :: u8) = Suc i" "unat ((of_nat (Suc i) :: u8) - 1) = i" "(of_nat (Suc i) :: u8) \<noteq> 0"
    using uid_range [OF i(1)] by blast+
  have low: "{1..<Suc i} \<subseteq> ids bitmap"
  proof
    fix j assume "j \<in> {1..<Suc i}"
    then obtain k where "j = Suc k" "k < i" by (cases j) auto
    then show "j \<in> ids bitmap" using i(1,4) by (auto simp: ids_def bit_not_iff)
  qed
  have free: "\<not> bit bitmap i" using i(1,3) by (simp add: bit_not_iff)
  show ?thesis
  proof (cases "(of_nat (Suc i) :: u8) > mx")
    case True
    then have "unat mx < Suc i" using r(1) by (simp add: word_less_nat_alt)
    then have "{1..min (unat mx) 32} \<subseteq> {1..<Suc i}" by auto
    then show ?thesis using True i(2) low by (auto simp: util_get_uid_def Let_def)
  next
    case False
    then have "Suc i \<le> unat mx" using r(1) by (simp add: word_le_nat_alt not_less)
    moreover have "ids (bitmap OR push_bit i 1) = insert (Suc i) (ids bitmap)"
      using i(1) by (auto simp: ids_def bit_or_iff power_bit)
    moreover have "(bitmap OR push_bit i 1) AND NOT (push_bit i 1) = bitmap"
      using free by (intro bit_word_eqI) (auto simp: bit_simps)
    moreover have "Suc i \<notin> ids bitmap" using free by (simp add: ids_def)
    ultimately show ?thesis using False i(1,2) low r
      by (simp add: util_get_uid_def util_clear_uid_def Let_def del: of_nat_Suc)
  qed
qed

text \<open>C38. \<open>strdelimit\<close> on strings, for every replacement. With NUL it ends and the string is cut at the first delimiter. With
  another character it runs for ever exactly when the replacement is a delimiter that the loop meets: one that is in the
  string, or that it has written for an earlier delimiter; otherwise it ends with every delimiter replaced.\<close>

theorem strdelimit_ends:
  assumes "NUL \<notin> set s" "NUL \<notin> set del"
  shows "strdelimit (Some s) del c =
    (if c = NUL then Some (Some (takeWhile (\<lambda>x. x \<notin> set del) s))
     else if \<exists>pre post. del = pre @ c # post \<and> set (c # pre) \<inter> set s \<noteq> {} then None
     else Some (Some (map (\<lambda>x. if x \<in> set del then c else x) s)))"
proof (cases "s = []")
  case True
  then show ?thesis by (simp add: strdelimit_def)
next
  case False
  have s: "string_in s = s" using assms(1) by (auto simp: string_in_def takeWhile_eq_all_conv)
  show ?thesis
  proof (cases "c = NUL")
    case True
    then show ?thesis using delimit_by_NUL [OF assms(2), of s] s False by (auto simp: strdelimit_def)
  next
    case c: False
    have "string_in (map (\<lambda>x. if x \<in> set del then c else x) s) = map (\<lambda>x. if x \<in> set del then c else x) s"
      using assms(1) c by (auto simp: string_in_def takeWhile_eq_all_conv)
    then show ?thesis using delimit_loop_eq [OF c assms(2,1)] False c by (simp add: strdelimit_def meets_itself_def)
  qed
qed

theorem strdelimit_ends_witness:
  "strdelimit (Some ''a b'') '' '' CHR ''_'' = Some (Some ''a_b'') \<and> strdelimit (Some ''a b'') '' _'' CHR ''_'' = None \<and>
   strdelimit (Some ''a b'') ''_ '' CHR ''_'' = Some (Some ''a_b'') \<and> strdelimit (Some ''a b'') '' '' CHR 0x00 = Some (Some ''a'')"
proof -
  have n: "NUL \<notin> set ''a b''" "NUL \<notin> set '' ''" "NUL \<notin> set '' _''" "NUL \<notin> set ''_ ''" "CHR ''_'' \<noteq> NUL" by (simp_all add: NUL_def)
  have ex: "\<exists>pre post. '' _'' = pre @ CHR ''_'' # post \<and> set (CHR ''_'' # pre) \<inter> set ''a b'' \<noteq> {}"
    by (rule exI [of _ "'' ''"], rule exI [of _ "[]"]) simp
  have "strdelimit (Some ''a b'') '' _'' CHR ''_'' = None"
    by (subst strdelimit_ends [OF n(1,3)]) (simp only: ex n(5) if_True if_False simp_thms)
  moreover have "\<not> (\<exists>pre post. ''_ '' = pre @ CHR ''_'' # post \<and> set (CHR ''_'' # pre) \<inter> set ''a b'' \<noteq> {})"
    by (auto simp: Cons_eq_append_conv)
  ultimately show ?thesis
    using strdelimit_ends [OF n(1,2), of "CHR ''_''"] strdelimit_ends [OF n(1,4), of "CHR ''_''"] strdelimit_ends [OF n(1,2), of NUL] n(5)
    by (simp add: NUL_def Cons_eq_append_conv)
qed

text \<open>Names: every entry of the table of 16-bit UUIDs is found (no number occurs twice) and other numbers are
  unknown; the loop over the appearances finds the exact entry, and otherwise the last generic category not above the
  number, for every number.\<close>

theorem names_found:
  "(\<forall>(k, v) \<in> set uuid16_table. bt_uuid16_to_str k = v) \<and>
   (k \<notin> fst ` set uuid16_table \<longrightarrow> bt_uuid16_to_str k = ''Unknown'') \<and>
   bt_appear_to_str a = (case map_of appearance_table a of Some (g, s) \<Rightarrow> s | None \<Rightarrow> category appearance_table a ''Unknown'')"
proof (intro conjI ballI impI)
  show "case p of (k, v) \<Rightarrow> bt_uuid16_to_str k = v" if "p \<in> set uuid16_table" for p
    using that map_of_is_SomeI [OF uuid16_distinct, of "fst p" "snd p"] by (simp add: bt_uuid16_to_str_def split_beta)
  show "bt_uuid16_to_str k = ''Unknown''" if "k \<notin> fst ` set uuid16_table"
    using that by (simp add: bt_uuid16_to_str_def map_of_eq_None_iff [THEN iffD2])
  have "successively (<) (map fst appearance_table)" unfolding appearance_table_def by simp
  then have "sorted_wrt (<) (map fst appearance_table)"
    by (subst successively_conv_sorted_wrt [symmetric]) (auto simp: transp_def)
  moreover have "snd (snd (hd appearance_table)) = ''Unknown''" by (simp add: appearance_table_def)
  ultimately show "bt_appear_to_str a = (case map_of appearance_table a of Some (g, s) \<Rightarrow> s | None \<Rightarrow> category appearance_table a ''Unknown'')"
    by (simp add: bt_appear_to_str_def appear_reference)
qed

theorem names_found_witness:
  "bt_uuid16_to_str 0x0007 = ''ATT'' \<and> bt_uuid16_to_str 2 = ''Unknown'' \<and> bt_appear_to_str 300 = ''Clock''"
proof -
  have m: "(0x0007, ''ATT'') \<in> set uuid16_table" by (simp add: uuid16_table_def uuid16_part1_def)
  have "list_all (\<lambda>p. fst p \<noteq> 2) uuid16_table"
    by (simp add: uuid16_table_def uuid16_part1_def uuid16_part2_def uuid16_part3_def uuid16_part4_def uuid16_part5_def)
  then have k: "2 \<notin> fst ` set uuid16_table" by (auto simp only: list_all_iff)
  have c: "map_of appearance_table 300 = None" "category appearance_table 300 ''Unknown'' = ''Clock''"
    by (simp_all add: appearance_table_def category_def)
  note n = names_found [of 2 300]
  have "bt_uuid16_to_str 7 = ''ATT''" using bspec [OF conjunct1 [OF n] m] by simp
  moreover have "bt_uuid16_to_str 2 = ''Unknown''" by (rule mp [OF conjunct1 [OF conjunct2 [OF n]] k])
  moreover have "bt_appear_to_str 300 = ''Clock''" using conjunct2 [OF conjunct2 [OF n]] by (simp only: c option.case)
  ultimately show ?thesis by simp
qed

end
