(* ===== verification/AttAnswer.thy ===== *)
theory AttAnswer
  imports LibSession
begin

text \<open>The PDUs that answer a request: its response, or an error response whose code does not raise the security level.\<close>

definition answers :: "u8 \<Rightarrow> u8 \<Rightarrow> u8 list \<Rightarrow> u8 \<Rightarrow> bool" where
  "answers req opcode rsp status \<longleftrightarrow> req \<noteq> 0 \<and> get_op_type opcode = ATT_OP_TYPE_RSP \<and>
     (if opcode = BT_ATT_OP_ERROR_RSP then length rsp = 4 \<and> rsp ! 0 = req \<and> rsp ! 3 = status \<and> status \<notin> {0x05, 0x0f}
      else get_req_opcode opcode = req \<and> status = 0)"

lemma error_rsp_refused:
  assumes "link m r c fd q x w" "answers req BT_ATT_OP_ERROR_RSP rsp status"
  shows "handle_error_rsp E c rsp w = Some (False, req, w)"
proof -
  obtain ch where "w_chan w c = Some ch" by (rule linkE [OF assms(1)])
  then have "change_security E c status w = Some (False, w)"
    using assms(2) by (simp add: change_security_def bt_att_chan_get_security_def answers_def)
  then show ?thesis using assms(2) by (simp add: handle_error_rsp_def answers_def rd8_def)
qed

lemma link_answer:
  assumes "link m r c fd [] (Some p) w" "0 < r" "w_op w p = Some op"
    and "op_callback op = Some f" "op_destroy op = Some d" "answers (op_opcode op) opcode pdu status"
    and "k_read E fd m = Some (opcode # pdu)" "length pdu < unat m"
    and resp: "\<And>w1. link m (r + 1) c fd [] (Some p) w1 \<Longrightarrow> w_user w1 = w_user w \<Longrightarrow> w_op w1 = w_op w \<Longrightarrow>
        w_wire w1 = w_wire w \<Longrightarrow> w_next w1 = w_next w \<Longrightarrow>
        \<exists>w2. client E (CallResponse f opcode pdu (op_user_data op)) w1 = Some w2 \<and> link m (r + 1) c fd q (Some p) w2 \<and>
          w_op w2 p = Some op \<and> w_wire w2 = w_wire w \<and> R (w_user w2) (w_op w2) (w_next w2)"
    and dest: "\<And>w3. link m (r + 1) c fd q (Some p) w3 \<Longrightarrow> R (w_user w3) (w_op w3) (w_next w3) \<Longrightarrow>
        \<exists>w4. client E (CallDestroy d (op_user_data op)) w3 = Some w4 \<and> link m (r + 1) c fd q (Some p) w4 \<and>
          w_op w4 = w_op w3 \<and> w_wire w4 = w_wire w3 \<and> w_next w4 = w_next w3 \<and> Q (w_user w4) (w_op w4) (w_next w4)"
  shows "\<exists>w' u h n. can_read_data E c w = Some (True, w') \<and> link m r c fd q None w' \<and> w_wire w' = w_wire w \<and>
    w_op w' = h(p := None) \<and> w_user w' = u \<and> w_next w' = n \<and> Q u h n"
proof -
  obtain a ch where l: "w_att w = Some a" "chans a = [c]" "req_queue a = []" "ind_queue a = []" "write_queue a = []"
    "a_mtu a = m" "local_sign a = None" "a_ref_count a = r" "w_chan w c = Some ch" "ch_queue ch = []" "pending_req ch = Some p"
    "pending_ind ch = None" "ch_mtu ch = m" "ch_fd ch = fd" "length (ch_buf ch) = unat m" by (rule linkE [OF assms(1)])
  obtain b where b: "wr_bytes (ch_buf ch) 0 (opcode # pdu) = Some b" using l(15) assms(8) by (auto simp: wr_bytes_def)
  then have lb: "length b = unat m" using l(15) wr_bytes_length by fastforce
  let ?w0 = "set_att (a\<lparr>a_ref_count := r + 1\<rparr>) (set_chan c (ch\<lparr>ch_buf := b\<rparr>) w)"
  let ?log = "\<lambda>e w. w\<lparr>w_calls := w_calls w @ [e]\<rparr>"
  let ?c1 = "CallResponse f opcode pdu (op_user_data op)" and ?c2 = "CallDestroy d (op_user_data op)"
  have l0: "link m (r + 1) c fd [] (Some p) ?w0" using l lb unfolding link_def set_att_def set_chan_def by simp
  then have "link m (r + 1) c fd [] (Some p) (?log ?c1 ?w0)" by simp
  from resp [OF this] obtain w2 where w2: "client E ?c1 (?log ?c1 ?w0) = Some w2" "link m (r + 1) c fd q (Some p) w2"
    "w_op w2 p = Some op" "w_wire w2 = w_wire w" "R (w_user w2) (w_op w2) (w_next w2)"
    by (auto simp: set_att_def set_chan_def)
  let ?w2' = "if op_timeout_id op \<noteq> 0 then timeout_remove (op_timeout_id op) w2 else w2"
  have "link m (r + 1) c fd q (Some p) (?log ?c2 ?w2') \<and> R (w_user (?log ?c2 ?w2')) (w_op (?log ?c2 ?w2')) (w_next (?log ?c2 ?w2'))"
    using w2 by (simp add: timeout_remove_def)
  from dest [OF conjunct1 [OF this] conjunct2 [OF this]] obtain w4 where w4: "client E ?c2 (?log ?c2 ?w2') = Some w4"
    "link m (r + 1) c fd q (Some p) w4" "w_op w4 = w_op w2" "w_wire w4 = w_wire w2" "w_next w4 = w_next w2"
    "Q (w_user w4) (w_op w4) (w_next w4)" using w2(3) by (auto simp: timeout_remove_def split: if_splits)
  obtain a' ch' where l': "w_att w4 = Some a'" "chans a' = [c]" "req_queue a' = q" "ind_queue a' = []" "write_queue a' = []"
    "a_mtu a' = m" "local_sign a' = None" "a_ref_count a' = r + 1" "w_chan w4 c = Some ch'" "ch_queue ch' = []" "pending_req ch' = Some p"
    "pending_ind ch' = None" "ch_mtu ch' = m" "ch_fd ch' = fd" "length (ch_buf ch') = unat m" by (rule linkE [OF w4(2)])
  let ?w5 = "set_chan c (ch'\<lparr>pending_req := None\<rparr>) (w4\<lparr>w_op := (w_op w4)(p := None)\<rparr>)"
  have "link m (r + 1) c fd q None ?w5" using l' unfolding link_def set_chan_def by simp
  from link_wakeup [OF this] obtain w6 where w6: "wakeup_chan_writer E c ?w5 = Some w6" "link m (r + 1) c fd q None w6"
    "same_client ?w5 w6" "w_op w6 = w_op ?w5" "w_wire w6 = w_wire ?w5" "w_next w6 = w_next ?w5" by blast
  obtain a6 where a6: "w_att w6 = Some a6" "a_ref_count a6 = r + 1" by (rule linkE [OF w6(2)])
  have fin: "finish_req E c p opcode pdu ?w0 = Some w6"
    using l w2 w4 l'(9) w6(1) assms(3,4,5)
    by (simp add: finish_req_def call_if_def call_def destroy_att_send_op_def free_op_def upd_chan_def Let_def)
  have "handle_rsp E c opcode pdu ?w0 = Some w6"
  proof (cases "opcode = BT_ATT_OP_ERROR_RSP")
    case True
    then show ?thesis using fin l assms(3) error_rsp_refused [OF l0, of "op_opcode op" pdu status E] assms(6)
      by (simp add: handle_rsp_def set_chan_def set_att_def)
  next
    case False
    then show ?thesis using fin l assms(3,6) by (simp add: handle_rsp_def set_chan_def set_att_def answers_def)
  qed
  then have "can_read_data E c w = Some (True, set_att (a6\<lparr>a_ref_count := r\<rparr>) w6)"
    using l b assms(2,7) a6 assms(6)
    by (simp add: can_read_data_def bt_att_ref_def bt_att_unref_def upd_att_def answers_def)
  moreover have "link m r c fd q None (set_att (a6\<lparr>a_ref_count := r\<rparr>) w6)"
    using w6(2) a6 unfolding link_def set_att_def by auto
  ultimately show ?thesis using w4 w6 w2(4) by (auto simp: same_client_def set_att_def set_chan_def)
qed

lemma attrib_answer:
  assumes "attrib_inv (w_user w)" "waits_for p f ud d (w_user w)" "answers req opcode pdu status"
  shows "attrib_callback_result G opcode pdu p w =
    call_upper G (GResult f status (opcode # pdu) (of_nat (length pdu) + 1) ud) w"
proof -
  have "p \<noteq> 0" using assms(1,2) by (cases p) (auto simp: attrib_inv_def waits_for_def)
  then show ?thesis
    using assms(2,3)
    by (auto simp: attrib_callback_result_def waits_for_def cb_at_def construct_full_pdu_def call_upper_if_def answers_def)
qed

end
