(* ===== verification/LibProcedure.thy ===== *)
theory LibProcedure
  imports AttAnswer
begin

text \<open>
  The procedures of \<^verbatim>\<open>gatt.c\<close> that keep their progress in a record with a reference count, one reference for each request
  on its way: locale \<open>procedure\<close> is what the function that releases a reference does, and what follows for the
  requests and answers of such a procedure on an idle connected device.
\<close>

text \<open>A procedure's record \<open>x\<close> at \<open>p\<close>, and its request that is queued or waits for its answer.\<close>

definition progress :: "nat \<Rightarrow> gatt_obj \<Rightarrow> int \<Rightarrow> (nat \<Rightarrow> gatt_obj option) \<Rightarrow> lstate \<Rightarrow> lstate tstate gstate \<Rightarrow> bool" where
  "progress p x n H L u \<longleftrightarrow> read_layer p n H L u \<and> ts_heap (gs_user u) p = Some x"

definition request_out :: "u16 \<Rightarrow> int \<Rightarrow> nat \<Rightarrow> int \<Rightarrow> bool \<Rightarrow> u8 list \<Rightarrow> func \<Rightarrow> nat \<Rightarrow> func \<Rightarrow> (lstate tstate gstate \<Rightarrow> bool) \<Rightarrow>
    lworld \<Rightarrow> bool" where
  "request_out m r c fd outstanding pdu f p d P w \<longleftrightarrow> (\<exists>q op cb.
     link m r c fd (if outstanding then [] else [q]) (if outstanding then Some q else None) w \<and> w_op w q = Some op \<and> q < w_next w \<and>
     asks op pdu cb \<and> waits_for cb f p (Some d) (w_user w) \<and> P (w_user w))"

lemma request_written:
  assumes s: "request_out m r c fd False pdu f p d P w" and len: "length pdu \<le> unat m" and io: "io_send E fd pdu \<noteq> 0"
  shows "\<exists>w'. can_write_data E c w = Some (True, w') \<and> request_out m r c fd True pdu f p d P w' \<and>
    w_wire w' = w_wire w @ [(fd, pdu, io_send E fd pdu)]"
proof -
  from s obtain q op cb where q: "link m r c fd [q] None w" "w_op w q = Some op" "q < w_next w" "asks op pdu cb"
    "waits_for cb f p (Some d) (w_user w)" "P (w_user w)"
    unfolding request_out_def by auto
  have "op_len op \<le> m" using q(4) len by (simp add: asks_def word_le_nat_alt)
  then have "\<exists>w' t. can_write_data E c w = Some (True, w') \<and> link m r c fd [] (Some q) w' \<and> same_client w w' \<and>
    w_wire w' = w_wire w @ [(fd, op_pdu op, io_send E fd (op_pdu op))] \<and> w_next w' = w_next w \<and>
    w_op w' = (w_op w)(q := Some (op\<lparr>op_timeout_id := t\<rparr>))"
    using q(4) io by (intro link_write [OF q(1,2)]) (auto simp: asks_def)
  then obtain w' t where w': "can_write_data E c w = Some (True, w')" "link m r c fd [] (Some q) w'" "same_client w w'"
    "w_wire w' = w_wire w @ [(fd, op_pdu op, io_send E fd (op_pdu op))]" "w_next w' = w_next w"
    "w_op w' = (w_op w)(q := Some (op\<lparr>op_timeout_id := t\<rparr>))" by blast
  have us: "w_user w' = w_user w" using w'(3) by (simp add: same_client_def)
  have "request_out m r c fd True pdu f p d P w'"
    unfolding request_out_def us using q w' by (intro exI [of _ q] exI [of _ "op\<lparr>op_timeout_id := t\<rparr>"] exI [of _ cb]) simp
  moreover have "op_pdu op = pdu" using q(4) by (simp add: asks_def)
  ultimately show ?thesis using w'(1,4) by auto
qed

text \<open>How the functions of the GATT layer see an answer.\<close>

lemma answer_reaches:
  assumes "attrib_inv (w_user w)" "waits_for cb f p d (w_user w)" "answers req opcode rsp status"
  shows "gattrib_client (layers (Suc K) G A) (CallResponse attrib_callback_result_fn opcode rsp cb) w =
    run_result (layers K G A) (libble_client (A (layers K G A))) f status (opcode # rsp) (of_nat (length rsp) + 1) p
      (upd_gs (\<lambda>s. s\<lparr>gs_calls := gs_calls s @ [GResult f status (opcode # rsp) (of_nat (length rsp) + 1) p]\<rparr>) w)"
  using attrib_answer [OF assms, of "layers (Suc K) G A"] by (simp add: call_upper_def layers_client)

lemma progress_calls [simp]: "progress p x n H L (u\<lparr>gs_calls := l\<rparr>) = progress p x n H L u"
  by (simp add: progress_def read_layer_def)

lemma progressD: "progress p x n H L u \<Longrightarrow> attrib_inv u" by (simp add: progress_def read_layer_def)

definition finished :: "u16 \<Rightarrow> int \<Rightarrow> nat \<Rightarrow> int \<Rightarrow> nat \<Rightarrow> int \<Rightarrow> (nat \<Rightarrow> gatt_obj option) \<Rightarrow> lstate \<Rightarrow> lworld \<Rightarrow> bool" where
  "finished m r c fd p n H L w \<longleftrightarrow> link m r c fd [] None w \<and> read_layer p n H L (w_user w) \<and> ts_heap (gs_user (w_user w)) p = None"

text \<open>The common form of the functions that release a reference.\<close>

lemma unref_record:
  assumes n: "map_option g_ref_count (gs_attrib u) = Some n" "2 \<le> n"
    and F: "F = (let w = set_obj p y (w\<lparr>w_user := u\<rparr>) in if 0 < j then Some w
      else do { w \<leftarrow> g_attrib_unref G (Some ()) w; free_obj p w })"
  shows "\<exists>u'. F = Some (w\<lparr>w_user := u'\<rparr>) \<and> attrib_frame u u' \<and>
      gs_user u' = (gs_user u)\<lparr>ts_heap := (ts_heap (gs_user u))(p := if 0 < j then Some y else None)\<rparr> \<and>
      map_option g_ref_count (gs_attrib u') = Some (if 0 < (j :: int) then n else n - 1)"
proof -
  obtain g where g: "gs_attrib u = Some g" "g_ref_count g = n" using n(1) by auto
  show ?thesis
  proof (cases "0 < j")
    case True
    let ?u1 = "u\<lparr>gs_user := (gs_user u)\<lparr>ts_heap := (ts_heap (gs_user u))(p := Some y)\<rparr>\<rparr>"
    have "attrib_frame u ?u1"
      unfolding attrib_frame_def using g n(2) by (intro conjI exI [of _ g] exI [of _ n]) auto
    then show ?thesis using True g F by (intro exI [of _ ?u1]) simp
  next
    case False
    let ?u2 = "u\<lparr>gs_attrib := Some (g\<lparr>g_ref_count := n - 1\<rparr>),
      gs_user := (gs_user u)\<lparr>ts_heap := (ts_heap (gs_user u))(p := None)\<rparr>\<rparr>"
    have "n - 1 \<noteq> 0" using n(2) by simp
    then have "F = Some (w\<lparr>w_user := ?u2\<rparr>)"
      unfolding F using g False by (simp add: g_attrib_unref_def gs_defs free_obj_def upd_gs_def Let_def)
    moreover have "attrib_frame u ?u2"
      unfolding attrib_frame_def using g n(2) by (intro conjI exI [of _ g] exI [of _ "n - 1"]) auto
    ultimately show ?thesis using False g by (intro exI [of _ ?u2]) simp
  qed
qed

locale procedure =
  fixes d :: func and obj :: "'x \<Rightarrow> int \<Rightarrow> gatt_obj"
  assumes release: "\<lbrakk>attrib_inv u; map_option g_ref_count (gs_attrib u) = Some n; 2 \<le> n; ts_heap (gs_user u) p = Some (obj x j)\<rbrakk> \<Longrightarrow>
    \<exists>u'. run_destroy G T d p (w\<lparr>w_user := u\<rparr>) = Some (w\<lparr>w_user := u'\<rparr> :: lworld) \<and> attrib_frame u u' \<and>
      gs_user u' = (gs_user u)\<lparr>ts_heap := (ts_heap (gs_user u))(p := if 0 < j - 1 then Some (obj x (j - 1)) else None)\<rparr> \<and>
      map_option g_ref_count (gs_attrib u') = Some (if 0 < j - 1 then n else n - 1)"
begin

lemma released:
  assumes l: "progress p (obj x j) n H L (w_user w)" "2 \<le> n" and cb: "waits_for cb f p (Some d) (w_user w)"
  shows "\<exists>s. gattrib_client (layers (Suc k) G A) (CallDestroy attrib_callbacks_remove_fn cb) w = Some (w\<lparr>w_user := s\<rparr>) \<and>
    read_layer p (if 0 < j - 1 then n else n - 1) H L s \<and>
    ts_heap (gs_user s) p = (if 0 < j - 1 then Some (obj x (j - 1)) else None) \<and>
    (\<forall>q f' ud' d'. q \<noteq> cb \<longrightarrow> waits_for q f' ud' d' (w_user w) \<longrightarrow> waits_for q f' ud' d' s)"
proof -
  have inv: "attrib_inv (w_user w)" and n: "map_option g_ref_count (gs_attrib (w_user w)) = Some n"
    and u: "ts_user (gs_user (w_user w)) = L" "\<forall>q. q \<noteq> p \<longrightarrow> ts_heap (gs_user (w_user w)) q = H q"
    and x: "ts_heap (gs_user (w_user w)) p = Some (obj x j)"
    using l(1) by (simp_all add: progress_def read_layer_def)
  let ?Q = "\<lambda>t c. c = Some (if 0 < j - 1 then n else n - 1) \<and> ts_user t = L \<and>
    ts_heap t = (ts_heap (gs_user (w_user w)))(p := if 0 < j - 1 then Some (obj x (j - 1)) else None)"
  have "\<exists>s. attrib_callbacks_remove (layers (Suc k) G A) cb w = Some (w\<lparr>w_user := s\<rparr>) \<and> attrib_inv s \<and>
    ?Q (gs_user s) (map_option g_ref_count (gs_attrib s)) \<and>
    (\<forall>q f' ud' d'. q \<noteq> cb \<longrightarrow> waits_for q f' ud' d' (w_user w) \<longrightarrow> waits_for q f' ud' d' s)"
  proof (rule attrib_remove [OF inv cb])
    fix u assume a: "attrib_inv u" "gs_user u = gs_user (w_user w)"
      "map_option g_ref_count (gs_attrib u) = map_option g_ref_count (gs_attrib (w_user w))"
    let ?u = "u\<lparr>gs_calls := gs_calls u @ [GDestroy d p]\<rparr>"
    have "attrib_inv ?u" "map_option g_ref_count (gs_attrib ?u) = Some n" "ts_heap (gs_user ?u) p = Some (obj x j)"
      using a n x by simp_all
    from release [OF this(1,2) l(2) this(3), of "layers k G A" "libble_client (A (layers k G A))" w] obtain u' where
      u': "run_destroy (layers k G A) (libble_client (A (layers k G A))) d p (w\<lparr>w_user := ?u\<rparr>) = Some (w\<lparr>w_user := u'\<rparr>)" "attrib_frame ?u u'"
      "gs_user u' = (gs_user ?u)\<lparr>ts_heap := (ts_heap (gs_user ?u))(p := if 0 < j - 1 then Some (obj x (j - 1)) else None)\<rparr>"
      "map_option g_ref_count (gs_attrib u') = Some (if 0 < j - 1 then n else n - 1)" by blast
    have "call_upper_if (layers (Suc k) G A) (Some d) (\<lambda>d. GDestroy d p) (w\<lparr>w_user := u\<rparr>) = Some (w\<lparr>w_user := u'\<rparr>)"
      using u'(1) by (simp add: call_upper_if_def call_upper_def layers_client upd_gs_def)
    moreover have "attrib_frame u u'" using u'(2) by (simp add: attrib_frame_def)
    moreover have "?Q (gs_user u') (map_option g_ref_count (gs_attrib u'))" using u'(3,4) a(2) u(1) by simp
    ultimately show "\<exists>u'. call_upper_if (layers (Suc k) G A) (Some d) (\<lambda>d. GDestroy d p) (w\<lparr>w_user := u\<rparr>) = Some (w\<lparr>w_user := u'\<rparr>) \<and>
        attrib_frame u u' \<and> ?Q (gs_user u') (map_option g_ref_count (gs_attrib u'))" by blast
  qed
  then obtain s where s: "attrib_callbacks_remove (layers (Suc k) G A) cb w = Some (w\<lparr>w_user := s\<rparr>)" "attrib_inv s"
    "?Q (gs_user s) (map_option g_ref_count (gs_attrib s))"
    "\<forall>q f' ud' d'. q \<noteq> cb \<longrightarrow> waits_for q f' ud' d' (w_user w) \<longrightarrow> waits_for q f' ud' d' s" by blast
  then show ?thesis using u by (intro exI [of _ s]) (auto simp: read_layer_def)
qed

text \<open>An answer that makes the procedure ask again, with a record \<open>y\<close> that satisfies \<open>S\<close>.\<close>

lemma answer_continues:
  assumes s: "request_out m r c fd True pdu f p d (progress p (obj x 1) n H L) w" and r: "0 < r" "2 \<le> n"
    and E: "E = bearer (layers (Suc (Suc K)) G A)" and rx: "k_read E fd m = Some (opcode # rsp)" "length rsp < unat m"
    and ans: "answers (hd pdu) opcode rsp status"
    and step: "\<And>w1 x'. link m (r + 1) c fd [] x' w1 \<Longrightarrow> progress p (obj x 1) n H L (w_user w1) \<Longrightarrow>
      \<exists>w2 y. run_result (layers K G A) (libble_client (A (layers K G A))) f status (opcode # rsp) (of_nat (length rsp) + 1) p w1 = Some w2 \<and>
        S y \<and> asked m (r + 1) c fd x' pdu' f' p (Some d) w1 w2 \<and> progress p (obj y 2) n H L' (w_user w2)"
  shows "\<exists>w' y. S y \<and> can_read_data E c w = Some (True, w') \<and> request_out m r c fd False pdu' f' p d (progress p (obj y 1) n H L') w' \<and>
    w_wire w' = w_wire w"
proof -
  from s obtain q op cb where q: "link m r c fd [] (Some q) w" "w_op w q = Some op" "q < w_next w" "asks op pdu cb"
    "waits_for cb f p (Some d) (w_user w)" "progress p (obj x 1) n H L (w_user w)" unfolding request_out_def by auto
  have a: "op_callback op = Some attrib_callback_result_fn" "op_destroy op = Some attrib_callbacks_remove_fn"
    "op_opcode op = hd pdu" "op_user_data op = cb" using q(4) by (simp_all add: asks_def)
  let ?S = "\<lambda>y j u h' n' op' cb'. S y \<and> progress p (obj y j) n H L' u \<and>
    h' (w_next w) = Some op' \<and> n' = Suc (w_next w) \<and> asks op' pdu' cb' \<and> waits_for cb' f' p (Some d) u"
  let ?R = "\<lambda>u h' n'. \<exists>y op' cb'. ?S y 2 u h' n' op' cb' \<and> waits_for cb f p (Some d) u \<and> cb \<noteq> cb'"
  let ?Q = "\<lambda>u h' n'. \<exists>y op' cb'. ?S y 1 u h' n' op' cb'"
  have "\<exists>w' u h' n'. can_read_data E c w = Some (True, w') \<and> link m r c fd [w_next w] None w' \<and> w_wire w' = w_wire w \<and>
    w_op w' = h'(q := None) \<and> w_user w' = u \<and> w_next w' = n' \<and> ?Q u h' n'"
  proof (rule link_answer [OF q(1) r(1) q(2) a(1,2) ans [folded a(3)] rx, where R = ?R])
    fix w1 assume w1: "link m (r + 1) c fd [] (Some q) w1" "w_user w1 = w_user w" "w_op w1 = w_op w" "w_wire w1 = w_wire w" "w_next w1 = w_next w"
    let ?w1 = "upd_gs (\<lambda>s. s\<lparr>gs_calls := gs_calls s @ [GResult f status (opcode # rsp) (of_nat (length rsp) + 1) p]\<rparr>) w1"
    have l1: "link m (r + 1) c fd [] (Some q) ?w1" using w1(1) by simp
    have p1: "progress p (obj x 1) n H L (w_user ?w1)" using q(6) w1(2) by simp
    from step [OF l1 p1] obtain w2 y where w2:
      "run_result (layers K G A) (libble_client (A (layers K G A))) f status (opcode # rsp) (of_nat (length rsp) + 1) p ?w1 = Some w2"
      "asked m (r + 1) c fd (Some q) pdu' f' p (Some d) ?w1 w2" "progress p (obj y 2) n H L' (w_user w2)" "S y" by blast
    have wcb: "waits_for cb f p (Some d) (w_user ?w1)" using q(5) w1(2) by simp
    obtain op' cb' where b: "link m (r + 1) c fd [w_next ?w1] (Some q) w2" "w_wire w2 = w_wire ?w1" "w_next w2 = Suc (w_next ?w1)"
      "\<forall>p. p \<noteq> w_next ?w1 \<longrightarrow> w_op w2 p = w_op ?w1 p" "w_op w2 (w_next ?w1) = Some op'" "asks op' pdu' cb'" "attrib_inv (w_user w2)"
      "waits_for cb' f' p (Some d) (w_user w2)" "waits_for cb f p (Some d) (w_user w2)" "cb \<noteq> cb'"
      by (rule asked_waits [OF w2(2) wcb])
    have inv: "attrib_inv (w_user w1)" and wc: "waits_for cb f p (Some d) (w_user w1)"
      using progressD [OF q(6)] q(5) w1(2) by simp_all
    have "client E (CallResponse attrib_callback_result_fn opcode rsp (op_user_data op)) w1 = Some w2"
      unfolding E layers_client a(4) answer_reaches [OF inv wc ans] by (rule w2(1))
    moreover have "w_op w2 q = Some op" using b(4) w1(3,5) q(2,3) by simp
    ultimately show "\<exists>w2. client E (CallResponse attrib_callback_result_fn opcode rsp (op_user_data op)) w1 = Some w2 \<and>
        link m (r + 1) c fd [w_next w] (Some q) w2 \<and> w_op w2 q = Some op \<and> w_wire w2 = w_wire w \<and> ?R (w_user w2) (w_op w2) (w_next w2)"
      using b w2(3,4) w1(4,5) by (intro exI [of _ w2]) auto
  next
    fix w3 assume w3: "link m (r + 1) c fd [w_next w] (Some q) w3" "?R (w_user w3) (w_op w3) (w_next w3)"
    then obtain y op' cb' where o: "?S y 2 (w_user w3) (w_op w3) (w_next w3) op' cb'" "waits_for cb f p (Some d) (w_user w3)" "cb' \<noteq> cb" by auto
    from released [OF conjunct1 [OF conjunct2 [OF o(1)]] r(2) o(2), of K G A] obtain u where
      u: "gattrib_client (layers (Suc K) G A) (CallDestroy attrib_callbacks_remove_fn cb) w3 = Some (w3\<lparr>w_user := u\<rparr>)"
        "read_layer p n H L' u" "ts_heap (gs_user u) p = Some (obj y 1)"
        "\<forall>q f' ud' d'. q \<noteq> cb \<longrightarrow> waits_for q f' ud' d' (w_user w3) \<longrightarrow> waits_for q f' ud' d' u" by auto
    have "?S y 1 u (w_op w3) (w_next w3) op' cb'" using o u by (auto simp: progress_def)
    then show "\<exists>w4. client E (CallDestroy attrib_callbacks_remove_fn (op_user_data op)) w3 = Some w4 \<and>
        link m (r + 1) c fd [w_next w] (Some q) w4 \<and> w_op w4 = w_op w3 \<and> w_wire w4 = w_wire w3 \<and> w_next w4 = w_next w3 \<and>
        ?Q (w_user w4) (w_op w4) (w_next w4)"
      unfolding E layers_client a(4) using u(1) w3(1) by (intro exI [of _ "w3\<lparr>w_user := u\<rparr>"]) auto
  qed
  then obtain w' h' y op' cb' where w': "can_read_data E c w = Some (True, w')" "link m r c fd [w_next w] None w'" "w_wire w' = w_wire w"
    "w_op w' = h'(q := None)" "?S y 1 (w_user w') h' (w_next w') op' cb'" by blast
  have "request_out m r c fd False pdu' f' p d (progress p (obj y 1) n H L') w'"
    unfolding request_out_def using w' q(3) by (intro exI [of _ "w_next w"] exI [of _ op'] exI [of _ cb']) auto
  with w'(1,3,5) show ?thesis by blast
qed

text \<open>An answer that ends the procedure: its record is released.\<close>

lemma answer_ends:
  assumes s: "request_out m r c fd True pdu f p d (progress p (obj x 1) n H L) w" and r: "0 < r" "2 \<le> n"
    and E: "E = bearer (layers (Suc (Suc K)) G A)" and rx: "k_read E fd m = Some (opcode # rsp)" "length rsp < unat m"
    and ans: "answers (hd pdu) opcode rsp status"
    and step: "\<And>w1. progress p (obj x 1) n H L (w_user w1) \<Longrightarrow>
      \<exists>u. run_result (layers K G A) (libble_client (A (layers K G A))) f status (opcode # rsp) (of_nat (length rsp) + 1) p w1 = Some (w1\<lparr>w_user := u\<rparr>) \<and>
        progress p (obj y 1) n H L' u \<and> (\<forall>q g ud d. waits_for q g ud d (w_user w1) \<longrightarrow> waits_for q g ud d u)"
  shows "\<exists>w'. can_read_data E c w = Some (True, w') \<and> finished m r c fd p (n - 1) H L' w' \<and> w_wire w' = w_wire w"
proof -
  from s obtain q op cb where q: "link m r c fd [] (Some q) w" "w_op w q = Some op" "q < w_next w" "asks op pdu cb"
    "waits_for cb f p (Some d) (w_user w)" "progress p (obj x 1) n H L (w_user w)" unfolding request_out_def by auto
  have a: "op_callback op = Some attrib_callback_result_fn" "op_destroy op = Some attrib_callbacks_remove_fn"
    "op_opcode op = hd pdu" "op_user_data op = cb" using q(4) by (simp_all add: asks_def)
  let ?R = "\<lambda>u (h' :: nat \<Rightarrow> att_send_op option) (n' :: nat). progress p (obj y 1) n H L' u \<and> waits_for cb f p (Some d) u"
  let ?Q = "\<lambda>u (h' :: nat \<Rightarrow> att_send_op option) (n' :: nat). read_layer p (n - 1) H L' u \<and> ts_heap (gs_user u) p = None"
  have "\<exists>w' u h' n'. can_read_data E c w = Some (True, w') \<and> link m r c fd [] None w' \<and> w_wire w' = w_wire w \<and>
    w_op w' = h'(q := None) \<and> w_user w' = u \<and> w_next w' = n' \<and> ?Q u h' n'"
  proof (rule link_answer [OF q(1) r(1) q(2) a(1,2) ans [folded a(3)] rx, where R = ?R])
    fix w1 assume w1: "link m (r + 1) c fd [] (Some q) w1" "w_user w1 = w_user w" "w_op w1 = w_op w" "w_wire w1 = w_wire w" "w_next w1 = w_next w"
    let ?w1 = "upd_gs (\<lambda>s. s\<lparr>gs_calls := gs_calls s @ [GResult f status (opcode # rsp) (of_nat (length rsp) + 1) p]\<rparr>) w1"
    have p1: "progress p (obj x 1) n H L (w_user ?w1)" using q(6) w1(2) by simp
    from step [OF p1] obtain u where u:
      "run_result (layers K G A) (libble_client (A (layers K G A))) f status (opcode # rsp) (of_nat (length rsp) + 1) p ?w1 = Some (?w1\<lparr>w_user := u\<rparr>)"
      "progress p (obj y 1) n H L' u" "\<forall>q g ud d. waits_for q g ud d (w_user ?w1) \<longrightarrow> waits_for q g ud d u" by blast
    have wc: "waits_for cb f p (Some d) (w_user ?w1)" "attrib_inv (w_user w1)" "waits_for cb f p (Some d) (w_user w1)"
      using progressD [OF q(6)] q(5) w1(2) by simp_all
    have "client E (CallResponse attrib_callback_result_fn opcode rsp (op_user_data op)) w1 = Some (?w1\<lparr>w_user := u\<rparr>)"
      unfolding E layers_client a(4) answer_reaches [OF wc(2,3) ans] by (rule u(1))
    then show "\<exists>w2. client E (CallResponse attrib_callback_result_fn opcode rsp (op_user_data op)) w1 = Some w2 \<and>
        link m (r + 1) c fd [] (Some q) w2 \<and> w_op w2 q = Some op \<and> w_wire w2 = w_wire w \<and> ?R (w_user w2) (w_op w2) (w_next w2)"
      using u(2,3) wc(1) w1 q(2) by (intro exI [of _ "?w1\<lparr>w_user := u\<rparr>"]) simp
  next
    fix w3 assume w3: "link m (r + 1) c fd [] (Some q) w3" "?R (w_user w3) (w_op w3) (w_next w3)"
    from released [OF conjunct1 [OF w3(2)] r(2) conjunct2 [OF w3(2)], of K G A] obtain u where
      u: "gattrib_client (layers (Suc K) G A) (CallDestroy attrib_callbacks_remove_fn cb) w3 = Some (w3\<lparr>w_user := u\<rparr>)"
        "read_layer p (n - 1) H L' u" "ts_heap (gs_user u) p = None" by auto
    show "\<exists>w4. client E (CallDestroy attrib_callbacks_remove_fn (op_user_data op)) w3 = Some w4 \<and>
        link m (r + 1) c fd [] (Some q) w4 \<and> w_op w4 = w_op w3 \<and> w_wire w4 = w_wire w3 \<and> w_next w4 = w_next w3 \<and>
        ?Q (w_user w4) (w_op w4) (w_next w4)"
      unfolding E layers_client a(4) using u w3(1) by (intro exI [of _ "w3\<lparr>w_user := u\<rparr>"]) simp
  qed
  then show ?thesis unfolding finished_def by blast
qed

text \<open>Rounds of a request and its answer.\<close>

lemma round_continues:
  assumes s: "request_out m r c fd False pdu f p d (progress p (obj x 1) n H L) w" and r: "0 < r" "2 \<le> n"
    and pdu: "length pdu \<le> unat m" and io: "writable G fd" and srv: "server pdu = opcode # rsp" "length rsp < unat m"
    and ans: "answers (hd pdu) opcode rsp status"
    and step: "\<And>G T w1 x'. link m (r + 1) c fd [] x' w1 \<Longrightarrow> progress p (obj x 1) n H L (w_user w1) \<Longrightarrow>
      \<exists>w2 y. run_result G T f status (opcode # rsp) (of_nat (length rsp) + 1) p w1 = Some w2 \<and>
        S y \<and> asked m (r + 1) c fd x' pdu' f' p (Some d) w1 w2 \<and> progress p (obj y 2) n H L' (w_user w2)"
  shows "\<exists>w' y. S y \<and> serve (Suc j) (Suc (Suc K)) B G policy c server w = serve j (Suc (Suc K)) B G policy c server w' \<and>
    request_out m r c fd False pdu' f' p d (progress p (obj y 1) n H L') w' \<and>
    w_wire w' = w_wire w @ [(fd, pdu, io_send (bearer G) fd pdu)]"
proof -
  let ?N = "Suc (Suc K)"
  let ?A = "\<lambda>G'. app_at ?N B G' policy"
  have io': "io_send (bearer (layers ?N G ?A)) fd pdu \<noteq> 0" using io by (simp add: writable_def)
  obtain w1 where w1: "can_write_data (bearer (layers ?N G ?A)) c w = Some (True, w1)"
    "request_out m r c fd True pdu f p d (progress p (obj x 1) n H L) w1" "w_wire w1 = w_wire w @ [(fd, pdu, io_send (bearer G) fd pdu)]"
    using request_written [OF s pdu io'] by auto
  let ?G = "peer_sends G (opcode # rsp)"
  have rx: "k_read (bearer (layers ?N ?G ?A)) fd m = Some (opcode # rsp)" by simp
  obtain w2 y where w2: "can_read_data (bearer (layers ?N ?G ?A)) c w1 = Some (True, w2)"
    "request_out m r c fd False pdu' f' p d (progress p (obj y 1) n H L') w2" "w_wire w2 = w_wire w1" "S y"
    using answer_continues [OF w1(2) r refl rx srv(2) ans step] by blast
  have "serve (Suc j) ?N B G policy c server w = serve j ?N B G policy c server w2"
    using w1(1,3) w2(1) srv(1) by (simp add: system_layers result_state_def)
  with w2 w1(3) show ?thesis by (intro exI [of _ w2] exI [of _ y]) simp
qed

lemma round_ends:
  assumes s: "request_out m r c fd False pdu f p d (progress p (obj x 1) n H L) w" and r: "0 < r" "2 \<le> n"
    and pdu: "length pdu \<le> unat m" and io: "writable G fd" and srv: "server pdu = opcode # rsp" "length rsp < unat m"
    and ans: "answers (hd pdu) opcode rsp status"
    and step: "\<And>G A w1. \<forall>ev \<in> set evs. ignores_event A ev \<Longrightarrow> progress p (obj x 1) n H L (w_user w1) \<Longrightarrow>
      \<exists>u. run_result G (libble_client A) f status (opcode # rsp) (of_nat (length rsp) + 1) p w1 = Some (w1\<lparr>w_user := u\<rparr>) \<and>
        progress p (obj y 1) n H L' u \<and> (\<forall>q g ud d. waits_for q g ud d (w_user w1) \<longrightarrow> waits_for q g ud d u)"
    and policy: "\<forall>ev \<in> set evs. makes_no_call policy ev"
  shows "\<exists>w'. serve (Suc j) (Suc (Suc K)) B G policy c server w = serve j (Suc (Suc K)) B G policy c server w' \<and>
    finished m r c fd p (n - 1) H L' w' \<and> w_wire w' = w_wire w @ [(fd, pdu, io_send (bearer G) fd pdu)]"
proof -
  let ?N = "Suc (Suc K)"
  let ?A = "\<lambda>G'. app_at ?N B G' policy"
  have io': "io_send (bearer (layers ?N G ?A)) fd pdu \<noteq> 0" using io by (simp add: writable_def)
  obtain w1 where w1: "can_write_data (bearer (layers ?N G ?A)) c w = Some (True, w1)"
    "request_out m r c fd True pdu f p d (progress p (obj x 1) n H L) w1" "w_wire w1 = w_wire w @ [(fd, pdu, io_send (bearer G) fd pdu)]"
    using request_written [OF s pdu io'] by auto
  let ?G = "peer_sends G (opcode # rsp)"
  have rx: "k_read (bearer (layers ?N ?G ?A)) fd m = Some (opcode # rsp)" by simp
  have A: "\<forall>ev \<in> set evs. ignores_event (?A (layers K ?G ?A)) ev" using policy quiet_app by blast
  obtain w2 where w2: "can_read_data (bearer (layers ?N ?G ?A)) c w1 = Some (True, w2)"
    "finished m r c fd p (n - 1) H L' w2" "w_wire w2 = w_wire w1"
    using answer_ends [OF w1(2) r refl rx srv(2) ans step [OF A]] by blast
  have "serve (Suc j) ?N B G policy c server w = serve j ?N B G policy c server w2"
    using w1(1,3) w2(1) srv(1) by (simp add: system_layers result_state_def)
  with w2 w1(3) show ?thesis by (intro exI [of _ w2]) simp
qed

end

end
