(* ===== verification/LibDiscover.thy ===== *)
theory LibDiscover
  imports LibProcedure UuidSpec
begin

text \<open>
  Discovery procedures: a procedure that asks a server for the entries of a table from a handle on, until the server
  answers that there are no more. Locale \<open>discovery\<close> is what the callback of such a procedure does with the entries of one
  response and with the error at the end; inside it, the rounds of a whole discovery are followed once for all procedures.
\<close>

text \<open>The start of a procedure: the request is encoded before the \<open>GAttrib\<close> is referenced and the record made.\<close>

lemma ask_with_ref:
  assumes l: "link m r c fd [] x w" "attrib_inv (w_user w)"
    and pdu: "get_op_type (hd pdu) = ATT_OP_TYPE_REQ" "2 \<le> length pdu" "length pdu \<le> unat m"
  shows "\<exists>b s. g_attrib_get_buffer G (Some ()) w = Some (Some b, ucast m, w\<lparr>w_user := s\<rparr>) \<and> unat m \<le> length b \<and>
    (\<forall>u f ud d. \<exists>s1 s2 i w'. put_buffer (Some ()) (Some (filled pdu b)) (w\<lparr>w_user := s\<rparr>) = Some (w\<lparr>w_user := s1\<rparr>) \<and>
       g_attrib_ref (Some ()) (w\<lparr>w_user := s1\<rparr>) = Some (Some (), w\<lparr>w_user := s2\<rparr>) \<and> gs_user s2 = gs_user (w_user w) \<and>
       g_attrib_send G (Some ()) 0 (Some (filled pdu b)) (of_nat (length pdu)) (Some f) ud d (w\<lparr>w_user := s2\<lparr>gs_user := u\<rparr>\<rparr>) = Some (i, w') \<and>
       asked m r c fd x pdu f ud d w w' \<and> gs_user (w_user w') = u \<and>
       map_option g_ref_count (gs_attrib (w_user w')) = map_option (\<lambda>g. g_ref_count g + 1) (gs_attrib (w_user w)))"
proof -
  from attrib_get [OF l, of G] obtain b s where
    get: "g_attrib_get_buffer G (Some ()) w = Some (Some b, ucast m, w\<lparr>w_user := s\<rparr>)"
      "unat m \<le> length b" "attrib_inv s" "same_attrib (w_user w) s" "map_option g_buf (gs_attrib s) = Some b" by auto
  have lt: "length pdu < 65536" using pdu(3) unat_u16_le [of m] by simp
  then have un: "unat (of_nat (length pdu) :: u16) = length pdu" by (rule unat_of_nat_u16)
  have lf: "length (filled pdu b) = length b" using pdu(3) get(2) by simp
  obtain s1 where put: "put_buffer (Some ()) (Some (filled pdu b)) (w\<lparr>w_user := s\<rparr>) = Some (w\<lparr>w_user := s1\<rparr>)"
    "attrib_inv s1" "same_attrib s s1"
    using attrib_put [of s b "filled pdu b" w] get(3,5) lf by auto
  from put(2) obtain g where g: "gs_attrib s1 = Some g" by (auto simp: attrib_inv_def)
  let ?s2 = "s1\<lparr>gs_attrib := Some (g\<lparr>g_ref_count := g_ref_count g + 1\<rparr>)\<rparr>"
  have ref: "g_attrib_ref (Some ()) (w\<lparr>w_user := s1\<rparr>) = Some (Some (), w\<lparr>w_user := ?s2\<rparr>)"
    using g by (simp add: g_attrib_ref_def gs_defs upd_gs_def)
  note same = same_attribD [OF get(4)] same_attribD [OF put(3)]
  have sending: "\<exists>i w'. g_attrib_send G (Some ()) 0 (Some (filled pdu b)) (of_nat (length pdu)) (Some f) ud d (w\<lparr>w_user := ?s2\<lparr>gs_user := u\<rparr>\<rparr>) = Some (i, w') \<and>
       asked m r c fd x pdu f ud d w w' \<and> gs_user (w_user w') = u \<and>
       map_option g_ref_count (gs_attrib (w_user w')) = map_option (\<lambda>g. g_ref_count g + 1) (gs_attrib (w_user w))" for u f ud d
  proof -
    let ?w = "w\<lparr>w_user := ?s2\<lparr>gs_user := u\<rparr>\<rparr>"
    have l3: "link m r c fd [] x ?w" using l(1) by simp
    have inv3: "attrib_inv (w_user ?w)" using put(2) g by (auto simp: attrib_inv_def)
    have fb: "filled pdu b = hd pdu # tl (filled pdu b)" using pdu(2) by (cases pdu) (simp_all add: filled_def)
    have lb: "(1 :: u16) < of_nat (length pdu)" "unat (of_nat (length pdu) :: u16) \<le> length (filled pdu b)"
      "(of_nat (length pdu) :: u16) \<le> m"
      using un pdu(2,3) lf get(2) by (simp_all add: word_le_nat_alt word_less_nat_alt)
    have t: "take (unat (of_nat (length pdu) :: u16)) (filled pdu b) = pdu" using un by simp
    obtain i w' where send: "g_attrib_send G (Some ()) 0 (Some (filled pdu b)) (of_nat (length pdu)) (Some f) ud d ?w = Some (i, w')"
      "asked m r c fd x pdu f ud d ?w w'" "gs_user (w_user w') = u"
      "map_option g_ref_count (gs_attrib (w_user w')) = map_option g_ref_count (gs_attrib (w_user ?w))"
      using attrib_send [OF l3 inv3 fb pdu(1) lb, of G 0 f ud d] unfolding t by auto
    have "asked m r c fd x pdu f ud d w w'"
      by (rule asked_from [OF send(2)]) (use g in \<open>simp add: same waits_for_ref\<close>)
    moreover have "map_option g_ref_count (gs_attrib (w_user w')) = map_option (\<lambda>g. g_ref_count g + 1) (gs_attrib (w_user w))"
      unfolding send(4) using same(4,11) g by (cases "gs_attrib (w_user w)") auto
    ultimately show ?thesis using send(1,3) by (intro exI [of _ i] exI [of _ w'] conjI)
  qed
  have user: "gs_user ?s2 = gs_user (w_user w)" using same by simp
  show ?thesis
    by (rule exI [of _ b], rule exI [of _ s], intro conjI allI get(1,2), rule exI [of _ s1], rule exI [of _ ?s2])
      (use put(1) ref user sending in blast)
qed

lemma asked_inv: "asked m r c fd x pdu f ud d w w' \<Longrightarrow> attrib_inv (w_user w')"
  unfolding asked_def by blast

lemma put_then_obj:
  assumes "put_buffer (Some ()) b (w\<lparr>w_user := s\<lparr>gs_user := (gs_user s)\<lparr>ts_heap := (ts_heap (gs_user s))(p := Some y)\<rparr>\<rparr>\<rparr>) = Some w'"
  shows "\<exists>w3. put_buffer (Some ()) b (w\<lparr>w_user := s\<rparr>) = Some w3 \<and> set_obj p y w3 = w' \<and> obj_at p w3 = ts_heap (gs_user s) p"
  using assms by (cases "gs_attrib s") (auto simp: put_buffer_def gs_defs upd_gs_def split: option.splits)

lemma uuid_string_total: "uuid_string (BT_UUID128 d) \<noteq> None"
  by (simp add: uuid_string_def bt_uuid_to_string_eq [of "BT_UUID128 d" d] bt_uuid_to_uuid128_def)

lemma uuid_in_entry:
  assumes "k + L \<le> length b" "L = 2 \<or> L = 16"
  shows "\<exists>u. get_uuid128 bs (L = 2) b k = Some (BT_UUID128 u)"
proof (cases "L = 2")
  case True
  then obtain v where "get_le16 b k = Some v" using assms(1) get_le16_None_iff [of b k] by fastforce
  then show ?thesis using True by (simp add: get_uuid128_def bt_uuid16_create_def bt_uuid_to_uuid128_def bt_uuid16_to_uuid128_eq)
next
  case False
  then show ?thesis using assms by (simp add: get_uuid128_def rd_bytes_def bt_uuid128_create_def)
qed

lemma error_type [simp]: "get_op_type 0x01 = ATT_OP_TYPE_RSP"
  by code_simp

section \<open>Events\<close>

text \<open>The application hears events and makes no call.\<close>

definition heard :: "ble_event list \<Rightarrow> lstate \<Rightarrow> lstate" where
  "heard evs s = s\<lparr>l_events := l_events s @ evs\<rparr>"

lemma heard_simps [simp]:
  "heard a (heard b s) = heard (b @ a) s" "heard [] s = s" "l_dev (heard evs s) = l_dev s" "l_events (heard evs s) = l_events s @ evs"
  "l_req (heard evs s) = l_req s" "l_next (heard evs s) = l_next s"
  by (simp_all add: heard_def)

lemma upd_ls_heard [simp]: "upd_ls (heard a) (upd_ls (heard b) w) = upd_ls (heard (b @ a)) w" "upd_ls (heard []) w = w"
  by (simp_all add: upd_ls_def upd_ts_def upd_gs_def)

lemma evh_heard:
  assumes "l_dev (lst w) = Some d" "d_evh d = Some f" "ignores_event A (BleEvent f kind h len x)"
  shows "evh A kind h len x w = Some (upd_ls (heard [BleEvent f kind h len x]) w)"
  using assms by (simp add: evh_def the_dev_def call_app_def ignores_event_def heard_def [abs_def])

text \<open>The end of a discovery is marked by an event without data.\<close>

definition end_event :: "func \<Rightarrow> ble_event" where
  "end_event f = BleEvent f EVENT_UUID 0 0 NoData"

lemma call_in_place: "upd_ls g (upd_ts h w) = w\<lparr>w_user := w_user (upd_ls g (upd_ts h w))\<rparr>"
  by (simp add: upd_ls_def upd_ts_def upd_gs_def)

section \<open>The server\<close>

text \<open>
  A server answers a request for the entries from a handle on with the first of them, as many as it likes (\<open>pick\<close>) of those
  that one response may carry (\<open>fits\<close>), and with the error Attribute Not Found when there are none.
\<close>

definition table_server :: "('a \<Rightarrow> u16) \<Rightarrow> ('a list \<Rightarrow> u8 list) \<Rightarrow> ('a list \<Rightarrow> nat) \<Rightarrow> 'a list \<Rightarrow> u8 list \<Rightarrow> u8 list" where
  "table_server key reply pick table pdu = (case get_le16 pdu 1 of
     None \<Rightarrow> []
   | Some start \<Rightarrow> (let rest = filter (\<lambda>d. start \<le> key d) table in
       if rest = [] then wire (ErrorResp (hd pdu) start 0x0A) else reply (take (pick rest) rest)))"

definition conforming :: "('a \<Rightarrow> u16) \<Rightarrow> u16 \<Rightarrow> ('a list \<Rightarrow> bool) \<Rightarrow> ('a list \<Rightarrow> nat) \<Rightarrow> 'a list \<Rightarrow> bool" where
  "conforming key limit fits pick table \<longleftrightarrow> sorted_wrt (\<lambda>d e. key d < key e) table \<and>
     list_all (\<lambda>d. 0 < key d \<and> key d < limit) table \<and>
     list_all (\<lambda>k. fits (take (pick (drop k table)) (drop k table))) [0..<length table]"

text \<open>The entries that each response carries, and the handles that the requests start from.\<close>

function batches :: "('a list \<Rightarrow> nat) \<Rightarrow> 'a list \<Rightarrow> 'a list list" where
  "batches pick [] = []"
| "batches pick (d # l) = (let k = max 1 (pick (d # l)) in take k (d # l) # batches pick (drop k (d # l)))"
  by pat_completeness auto
termination by (relation "measure (\<lambda>(_, l). length l)") auto

definition starts :: "('a \<Rightarrow> u16) \<Rightarrow> 'a list list \<Rightarrow> u16 list" where
  "starts key bs = 1 # map (\<lambda>b. key (last b) + 1) bs"

lemma rest_of_table:
  fixes key :: "'a \<Rightarrow> u16"
  assumes "sorted_wrt (\<lambda>d e. key d < key e) table" "k \<le> length table"
    and "start = (if k = 0 then 1 else key (table ! (k - 1)) + 1)" "list_all (\<lambda>d. 0 < key d \<and> key d < 0xffff) table"
  shows "filter (\<lambda>d. start \<le> key d) table = drop k table"
proof -
  have le: "(start \<le> key (table ! i)) = (k \<le> i)" if i: "i < length table" for i
  proof (cases "k = 0")
    case True
    then show ?thesis using assms(3,4) i by (simp add: list_all_length word_le_nat_alt word_less_nat_alt Suc_le_eq)
  next
    case False
    have lt: "unat (key (table ! (k - 1))) < 65535" using assms(2,4) False by (simp add: list_all_length word_less_nat_alt)
    then have s: "unat start = Suc (unat (key (table ! (k - 1))))" using assms(3) False by (simp add: unat_word_ariths)
    consider "i < k - 1" | "i = k - 1" | "k - 1 < i" by linarith
    then show ?thesis
    proof cases
      case 1
      then have "key (table ! i) < key (table ! (k - 1))" using assms(1,2) by (simp add: sorted_wrt_iff_nth_less)
      then show ?thesis using 1 s by (simp add: word_le_nat_alt word_less_nat_alt)
    next
      case 2
      then show ?thesis using False s by (simp add: word_le_nat_alt)
    next
      case 3
      then have "key (table ! (k - 1)) < key (table ! i)" using assms(1) i by (simp add: sorted_wrt_iff_nth_less)
      then show ?thesis using 3 s by (simp add: word_le_nat_alt word_less_nat_alt)
    qed
  qed
  have "filter (\<lambda>d. start \<le> key d) (take k table) = []"
    using le assms(2) by (auto simp: filter_empty_conv in_set_conv_nth)
  moreover have "filter (\<lambda>d. start \<le> key d) (drop k table) = drop k table"
    using le assms(2) by (auto simp: filter_id_conv in_set_conv_nth)
  ultimately show ?thesis using filter_append [of "\<lambda>d. start \<le> key d" "take k table" "drop k table"] by simp
qed

text \<open>A request on the wire.\<close>

definition asked_at :: "(u16 \<Rightarrow> u8 list) \<Rightarrow> 'u genv \<Rightarrow> int \<Rightarrow> u16 \<Rightarrow> int \<times> u8 list \<times> int" where
  "asked_at request G fd start = (fd, request start, io_send (bearer G) fd (request start))"

section \<open>A discovery\<close>

locale discovery = procedure d obj for d :: func and obj :: "'x \<Rightarrow> int \<Rightarrow> gatt_obj" +
  fixes fn :: func and request :: "u16 \<Rightarrow> u8 list" and reply :: "'a list \<Rightarrow> u8 list" and key :: "'a \<Rightarrow> u16" and limit :: u16
    and record_of :: "u32 \<Rightarrow> u16 \<Rightarrow> gatt_item list \<Rightarrow> 'x" and item_of :: "gatt_item \<Rightarrow> 'a \<Rightarrow> bool"
    and fits :: "u16 \<Rightarrow> 'a list \<Rightarrow> bool" and events :: "func \<Rightarrow> 'a list \<Rightarrow> ble_event list"
  assumes request_start: "get_le16 (request s) 1 = Some s" and request_length: "length (request s) \<le> 23"
    and reply_answers: "fits m ds \<Longrightarrow> \<exists>opcode rsp. reply ds = opcode # rsp \<and> length rsp < unat m \<and> (\<forall>s. answers (hd (request s)) opcode rsp 0)"
    and none_answers: "answers (hd (request s)) 0x01 (hd (request s) # le2 s @ [0x0A]) 0x0A"
    and fits_some: "fits m ds \<Longrightarrow> ds \<noteq> []" and limit: "limit \<le> 0xffff"
    and more: "\<lbrakk>link m r c fd [] x w; progress p (obj (record_of i start acc) 1) n H L (w_user w); fits m ds; 23 \<le> m;
        reply ds = opcode # rsp; start \<noteq> 0; start \<le> key (last ds); key (last ds) < limit\<rbrakk> \<Longrightarrow>
      \<exists>w' items. run_result G T fn 0 (opcode # rsp) (of_nat (length rsp) + 1) p w = Some w' \<and> list_all2 item_of items ds \<and>
        asked m r c fd x (request (key (last ds) + 1)) fn p (Some d) w w' \<and>
        progress p (obj (record_of i (key (last ds) + 1) (acc @ items)) 2) n H L (w_user w')"
    and ends: "\<lbrakk>progress p (obj (record_of i start items) 1) n H L (w_user w); l_dev L = Some dv; d_evh dv = Some f;
        list_all2 item_of items ds; \<forall>ev \<in> set (events f ds). ignores_event A ev\<rbrakk> \<Longrightarrow>
      \<exists>u. run_result G (libble_client A) fn 0x0A rsp len p w = Some (w\<lparr>w_user := u\<rparr>) \<and>
        progress p (obj (record_of i start items) 1) n H (heard (events f ds) L) u \<and>
        (\<forall>q g ud d. waits_for q g ud d (w_user w) \<longrightarrow> waits_for q g ud d u)"
begin

lemma served_start: "table_server key reply pick table (request start) = (let rest = filter (\<lambda>d. start \<le> key d) table in
    if rest = [] then 0x01 # hd (request start) # le2 start @ [0x0A] else reply (take (pick rest) rest))"
  by (simp only: table_server_def request_start option.case wire.simps append_Cons append_Nil)

lemma rounds:
  assumes r: "0 < r" "2 \<le> n" and m: "23 \<le> m" and t: "conforming key limit (fits m) pick table"
    and d: "l_dev L = Some dv" "d_evh dv = Some f" and io: "writable G fd"
    and policy: "\<forall>ev \<in> set (events f table). makes_no_call policy ev"
    and q: "request_out m r c fd False (request start) fn p d
      (progress p (obj (record_of i start acc) 1) n H L) w"
    and k: "k \<le> length table" "start = (if k = 0 then 1 else key (table ! (k - 1)) + 1)" "list_all2 item_of acc (take k table)"
    and bs: "batches pick (drop k table) = bs"
  shows "\<exists>w'. serve (Suc (length bs)) (Suc (Suc K)) B G policy c (table_server key reply pick table) w = Some w' \<and>
    finished m r c fd p (n - 1) H (heard (events f table) L) w' \<and>
    w_wire w' = w_wire w @ map (asked_at request G fd) (start # map (\<lambda>b. key (last b) + 1) bs)"
proof -
  have st: "sorted_wrt (\<lambda>d e. key d < key e) table" "list_all (\<lambda>d. 0 < key d \<and> key d < 0xffff) table"
    and lt: "list_all (\<lambda>d. key d < limit) table"
    using t limit by (auto simp: conforming_def list_all_iff intro: order.strict_trans2)
  have m23: "23 \<le> unat m" using m by (simp add: word_le_nat_alt)
  show ?thesis using q k bs
  proof (induction bs arbitrary: k start acc w)
    case Nil
    have none: "drop k table = []" using Nil(5) by (cases "drop k table") (simp_all add: Let_def)
    then have all: "list_all2 item_of acc table" using Nil(4) by simp
    let ?rsp = "hd (request start) # le2 start @ [0x0A]"
    have "filter (\<lambda>d. start \<le> key d) table = []" using rest_of_table [OF st(1) Nil(2,3) st(2)] none by simp
    then have srv: "table_server key reply pick table (request start) = 0x01 # ?rsp" unfolding served_start by simp
    have pl: "length (request start) \<le> unat m" "length ?rsp < unat m" using m23 request_length [of start] by simp_all
    have step: "\<exists>u. run_result G (libble_client A) fn 0x0A (0x01 # ?rsp) (of_nat (length ?rsp) + 1) p w1 = Some (w1\<lparr>w_user := u\<rparr>) \<and>
        progress p (obj (record_of i start acc) 1) n H (heard (events f table) L) u \<and>
        (\<forall>q g ud d. waits_for q g ud d (w_user w1) \<longrightarrow> waits_for q g ud d u)"
      if "\<forall>ev \<in> set (events f table). ignores_event A ev" "progress p (obj (record_of i start acc) 1) n H L (w_user w1)"
      for G A w1 using ends [OF that(2) d all that(1)] .
    obtain w' where "serve (Suc 0) (Suc (Suc K)) B G policy c (table_server key reply pick table) w = serve 0 (Suc (Suc K)) B G policy c (table_server key reply pick table) w'"
      "finished m r c fd p (n - 1) H (heard (events f table) L) w'"
      "w_wire w' = w_wire w @ [(fd, request start, io_send (bearer G) fd (request start))]"
      using round_ends [where server = "table_server key reply pick table" and y = "record_of i start acc" and j = 0 and K = K and B = B,
        OF Nil(1) r pl(1) io srv pl(2) none_answers step policy] by (blast intro: that)
    then show ?case by (simp add: asked_at_def)
  next
    case (Cons b bs)
    let ?rest = "drop k table"
    have ne: "?rest \<noteq> []" using Cons.prems(5) by auto
    then have kl: "k < length table" by simp
    let ?ds = "take (pick ?rest) ?rest"
    have fit: "fits m ?ds" using t kl by (simp add: conforming_def list_all_iff)
    then have dn: "?ds \<noteq> []" by (rule fits_some)
    then have pk: "max 1 (pick ?rest) = pick ?rest" by (cases "pick ?rest") simp_all
    have b: "b = ?ds" "batches pick (drop (pick ?rest) ?rest) = bs"
      using Cons.prems(5) ne pk by (cases ?rest; simp add: Let_def)+
    let ?k = "k + length ?ds"
    have dk: "drop (pick ?rest) ?rest = drop ?k table" by (simp add: min_def add.commute)
    have tk: "take ?k table = take k table @ ?ds" by (simp add: take_add min_def)
    have kl': "?k \<le> length table" "0 < ?k" using dn kl by auto
    have la: "last ?ds = table ! (?k - 1)"
    proof -
      have "last (take ?k table) = table ! (?k - 1)" using kl' by (subst last_conv_nth) (auto simp: min_def)
      then show ?thesis unfolding tk using dn by simp
    qed
    have rest: "filter (\<lambda>d. start \<le> key d) table = ?rest" using rest_of_table [OF st(1) Cons.prems(2,3) st(2)] .
    then have srv: "table_server key reply pick table (request start) = reply ?ds"
      unfolding served_start using ne by (simp add: Let_def)
    obtain opcode rsp where rsp: "reply ?ds = opcode # rsp" "length rsp < unat m" "answers (hd (request start)) opcode rsp 0"
      using reply_answers [OF fit] by blast
    have pl: "length (request start) \<le> unat m" using m23 request_length [of start] by simp
    let ?h = "key (last ?ds)"
    have "last ?ds \<in> set (filter (\<lambda>d. start \<le> key d) table)" unfolding rest using dn by (meson in_set_takeD last_in_set)
    then have hd: "start \<le> ?h" "?h < limit" using lt by (simp_all add: list_all_iff)
    have s0: "start \<noteq> 0"
    proof (cases "k = 0")
      case False
      then have "key (table ! (k - 1)) < 0xffff" using st(2) kl by (simp add: list_all_length)
      then have "unat (key (table ! (k - 1)) + 1) \<noteq> 0" by (simp add: word_less_nat_alt unat_word_ariths)
      then show ?thesis using Cons.prems(3) False by auto
    qed (use Cons.prems(3) in simp)
    let ?st = "?h + 1"
    have "\<exists>items. list_all2 item_of items ?ds \<and> (\<exists>w1. serve (Suc (Suc (length bs))) (Suc (Suc K)) B G policy c (table_server key reply pick table) w =
        serve (Suc (length bs)) (Suc (Suc K)) B G policy c (table_server key reply pick table) w1 \<and>
      request_out m r c fd False (request ?st) fn p d
        (progress p (obj (record_of i ?st (acc @ items)) 1) n H L) w1 \<and>
      w_wire w1 = w_wire w @ [(fd, request start, io_send (bearer G) fd (request start))])"
    proof -
      have step: "\<exists>w2 y. run_result G T fn 0 (opcode # rsp) (of_nat (length rsp) + 1) p w1 = Some w2 \<and>
          (\<exists>items. list_all2 item_of items ?ds \<and> y = record_of i ?st (acc @ items)) \<and>
          asked m (r + 1) c fd x' (request ?st) fn p (Some d) w1 w2 \<and>
          progress p (obj y 2) n H L (w_user w2)"
        if "link m (r + 1) c fd [] x' w1" "progress p (obj (record_of i start acc) 1) n H L (w_user w1)" for G T w1 x'
        using more [OF that fit m rsp(1) s0 hd(1,2), of G T] by blast
      show ?thesis
        using round_continues [where server = "table_server key reply pick table" and j = "Suc (length bs)" and K = K and B = B and policy = policy and
          S = "\<lambda>y. \<exists>items. list_all2 item_of items ?ds \<and> y = record_of i ?st (acc @ items)",
          OF Cons.prems(1) r pl io srv [unfolded rsp(1)] rsp(2,3) step] by blast
    qed
    then obtain items w1 where w1: "list_all2 item_of items ?ds"
      "serve (Suc (Suc (length bs))) (Suc (Suc K)) B G policy c (table_server key reply pick table) w =
        serve (Suc (length bs)) (Suc (Suc K)) B G policy c (table_server key reply pick table) w1"
      "request_out m r c fd False (request ?st) fn p d
        (progress p (obj (record_of i ?st (acc @ items)) 1) n H L) w1"
      "w_wire w1 = w_wire w @ [(fd, request start, io_send (bearer G) fd (request start))]" by blast
    have "?st = (if ?k = 0 then 1 else key (table ! (?k - 1)) + 1)"
      unfolding la by (rule if_not_P [symmetric]) (use kl'(2) in linarith)
    moreover have "list_all2 item_of (acc @ items) (take ?k table)"
      unfolding tk using Cons.prems(4) w1(1) by (rule list_all2_appendI)
    moreover have "batches pick (drop ?k table) = bs" using b(2) dk by simp
    ultimately obtain w' where "serve (Suc (length bs)) (Suc (Suc K)) B G policy c (table_server key reply pick table) w1 = Some w'"
      "finished m r c fd p (n - 1) H (heard (events f table) L) w'" "w_wire w' = w_wire w1 @ map (asked_at request G fd) (?st # map (\<lambda>b. key (last b) + 1) bs)"
      using Cons.IH [OF w1(3) kl'(1)] by blast
    then show ?case using w1(2,4) by (simp add: asked_at_def b(1))
  qed
qed

text \<open>The whole discovery, on an idle connected device.\<close>

lemma complete:
  assumes s: "session m c fd f w" and t: "conforming key limit (fits m) pick table" and io: "writable G fd"
    and policy: "\<forall>ev \<in> set (events f table). makes_no_call policy ev"
    and w1: "0 < r" "2 \<le> n" "w_wire w1 = w_wire w"
      "request_out m r c fd False (request 1) fn p d (progress p (obj (record_of i 1 []) 1) n (ts_heap (gs_user (w_user w))) (lst w)) w1"
  shows "\<exists>w2. serve (length (batches pick table) + 1) (Suc (Suc K)) B G policy c (table_server key reply pick table) w1 = Some w2 \<and>
    l_events (lst w2) = l_events (lst w) @ events f table \<and>
    w_wire w2 = w_wire w @ map (asked_at request G fd) (starts key (batches pick table)) \<and> session m c fd f w2 \<and>
    ts_heap (gs_user (w_user w2)) = (ts_heap (gs_user (w_user w)))(p := None)"
proof -
  let ?H = "ts_heap (gs_user (w_user w))"
  from s obtain dv where dv: "l_dev (lst w) = Some dv" "d_evh dv = Some f" "conn_state dv = STATE_CONNECTED" "d_attrib dv = Some ()" "23 \<le> m"
    unfolding session_def by auto
  obtain w2 where w2: "serve (Suc (length (batches pick table))) (Suc (Suc K)) B G policy c (table_server key reply pick table) w1 = Some w2"
    "finished m r c fd p (n - 1) ?H (heard (events f table) (lst w)) w2"
    "w_wire w2 = w_wire w1 @ map (asked_at request G fd) (starts key (batches pick table))"
    using rounds [OF w1(1,2) dv(5) t dv(1,2) io policy w1(4), of 0 "batches pick table" K B] by (auto simp: starts_def)
  have L2: "lst w2 = heard (events f table) (lst w)" "attrib_inv (w_user w2)" "map_option g_ref_count (gs_attrib (w_user w2)) = Some (n - 1)"
    "link m r c fd [] None w2" "\<forall>q. ts_heap (gs_user (w_user w2)) q = (?H(p := None)) q"
    using w2(2) by (auto simp: finished_def read_layer_def lst_def)
  have "session m c fd f w2"
    unfolding session_def using L2 w1(1,2) dv by (intro exI [of _ r] exI [of _ "n - 1"] exI [of _ dv]) simp
  moreover have "ts_heap (gs_user (w_user w2)) = ?H(p := None)" using L2(5) by (simp add: fun_eq_iff)
  ultimately show ?thesis using w1(3) w2(1,3) L2(1) by (intro exI [of _ w2]) simp
qed

end

end
