(* ===== verification/LibChars.thy ===== *)
theory LibChars
  imports LibDiscover
begin

text \<open>
  Discovery of characteristics through all layers: what \<open>char_discovered_cb\<close> does with the declarations of one response
  and with the error response at the end, and what \<open>lble_discover_char\<close> starts.
\<close>

section \<open>The server's declarations\<close>

text \<open>A characteristic declaration: its handle, and its value of properties, handle of the value, and UUID of 2 or 16 bytes.\<close>

record char_decl =
  decl_handle :: u16
  decl_properties :: u8
  decl_value :: u16
  decl_uuid :: "u8 list"

definition decl_wire :: "char_decl \<Rightarrow> u8 list" where
  "decl_wire d = le2 (decl_handle d) @ [decl_properties d] @ le2 (decl_value d) @ decl_uuid d"

text \<open>The record that is made of a declaration; its UUID as a string is of no interest here.\<close>

definition announces :: "gatt_item \<Rightarrow> char_decl \<Rightarrow> bool" where
  "announces i d \<longleftrightarrow> (\<exists>s. i = Characteristic
     \<lparr>gc_uuid = s, gc_handle = decl_handle d, gc_properties = decl_properties d, gc_value_handle = decl_value d\<rparr>)"

definition batch_ok :: "nat \<Rightarrow> char_decl list \<Rightarrow> bool" where
  "batch_ok L ds \<longleftrightarrow> (L = 2 \<or> L = 16) \<and> ds \<noteq> [] \<and> (\<forall>d \<in> set ds. length (decl_uuid d) = L)"

lemma decl_fields:
  "get_le16 (decl_wire d) 0 = Some (decl_handle d)" "rd8 (decl_wire d) 2 = Some (decl_properties d)"
  "get_le16 (decl_wire d) 3 = Some (decl_value d)"
  using get_le16_mid [of 0 "[]" "decl_handle d"] get_le16_mid [of 3 "le2 (decl_handle d) @ [decl_properties d]" "decl_value d" "decl_uuid d"]
  by (simp_all add: decl_wire_def rd8_def nth_append)

lemma char_loop_batch:
  assumes "\<forall>d \<in> set ds. length (decl_uuid d) = L" "L = 2 \<or> L = 16"
  shows "\<exists>items. char_loop bs (L = 2) None (map decl_wire ds) lasth acc =
      Some (if ds = [] then lasth else decl_handle (last ds), acc @ items) \<and> list_all2 announces items ds"
  using assms(1)
proof (induction ds arbitrary: lasth acc)
  case (Cons d ds)
  obtain u where u: "get_uuid128 bs (L = 2) (decl_wire d) 5 = Some (BT_UUID128 u)"
    using uuid_in_entry [of 5 L "decl_wire d" bs] Cons.prems assms(2) by (auto simp: decl_wire_def)
  obtain str where str: "uuid_string (BT_UUID128 u) = Some str" using uuid_string_total by fast
  let ?i = "Characteristic \<lparr>gc_uuid = str, gc_handle = decl_handle d, gc_properties = decl_properties d, gc_value_handle = decl_value d\<rparr>"
  from Cons.IH [of "decl_handle d" "acc @ [?i]"] Cons.prems obtain items where
    i: "char_loop bs (L = 2) None (map decl_wire ds) (decl_handle d) (acc @ [?i]) =
      Some (if ds = [] then decl_handle d else decl_handle (last ds), (acc @ [?i]) @ items)" "list_all2 announces items ds" by auto
  have "announces ?i d" by (simp add: announces_def)
  then show ?case using i u str by (intro exI [of _ "?i # items"]) (simp add: decl_fields other_uuid_def)
qed simp

section \<open>The procedure's record\<close>

definition char_record :: "discover_char \<Rightarrow> int \<Rightarrow> gatt_obj" where
  "char_record x j = ObjChar (x\<lparr>dc_attrib := Some (), dc_ref := j\<rparr>)"

lemma run_char:
  "run_result G T char_discovered_fn status pdu len p w = char_discovered_cb G T status pdu len p w"
  "run_destroy G T discover_char_unref_fn p w = discover_char_unref G p w"
  by (simp_all add: run_result_def run_destroy_def fn_defs)

interpretation char_procedure: procedure discover_char_unref_fn char_record
proof (unfold_locales, goal_cases)
  case (1 u n p x j G T w)
  show ?case unfolding run_char
    by (rule unref_record [OF 1(2,3), where G = G]) (use 1(4) in \<open>simp add: discover_char_unref_def char_at_def char_record_def Let_def\<close>)
qed

text \<open>The requests.\<close>

definition char_request :: "u16 \<Rightarrow> u8 list" where
  "char_request start = wire (ReadByTypeReq start 0xffff (BT_UUID16 GATT_CHARAC_UUID))"

lemma char_request_shape: "length (char_request start) = 7" "hd (char_request start) = 0x08"
  "get_le16 (char_request start) 1 = Some start"
proof -
  show "length (char_request start) = 7" "hd (char_request start) = 0x08" by (simp_all add: char_request_def wire_uuid_def)
  show "get_le16 (char_request start) 1 = Some start"
    using get_le16_mid [of 1 "[0x08]" start "le2 0xffff @ le2 GATT_CHARAC_UUID"] by (simp add: char_request_def wire_uuid_def)
qed

lemma by_type_request [simp]: "get_op_type 0x08 = ATT_OP_TYPE_REQ" "get_op_type 0x09 = ATT_OP_TYPE_RSP" "get_req_opcode 0x09 = 0x08"
  by code_simp+

lemma enc_char_request:
  assumes "7 \<le> length b"
  shows "enc_read_by_type_req bs start 0xffff (Some (BT_UUID16 GATT_CHARAC_UUID)) (Some b) len =
    Some (of_nat (length (char_request start)), Some (filled (char_request start) b))"
  using enc_uuid_requests(1) [of "BT_UUID16 GATT_CHARAC_UUID" b rev start "0xffff"] assms
  by (simp add: enc_read_by_type_req_def char_request_def encodes_def wire_uuid_def uuid_short_or_full_def AttPdu.put_uuid_le_def uuid_len_def)

section \<open>The answers\<close>

lemma decl_batch:
  assumes b: "batch_ok L ds" and len: "length (wire (ReadByTypeResp (map decl_wire ds))) \<le> unat (m :: u16)"
    and rsp: "wire (ReadByTypeResp (map decl_wire ds)) = 0x09 # rsp"
  shows "\<exists>l items. dec_read_by_type_resp (Some (0x09 # rsp)) (ucast (of_nat (length rsp) + 1 :: u16)) = Some (Some l) \<and>
    char_loop bs (al_len l = 7) None (take (unat (al_num l)) (al_data l)) 0 acc = Some (decl_handle (last ds), acc @ items) \<and>
    list_all2 announces items ds"
proof -
  from b have L: "L = 2 \<or> L = 16" "ds \<noteq> []" "\<forall>d \<in> set ds. length (decl_uuid d) = L" by (simp_all add: batch_ok_def)
  let ?ds = "map decl_wire ds" and ?e = "5 + L"
  have uni: "uniform ?e ?ds" using L(3) by (simp add: uniform_def list_all_iff decl_wire_def)
  have hd: "length (hd ?ds) = ?e" using L(2,3) by (cases ds) (simp_all add: decl_wire_def)
  have e: "0 < ?e" "?e < 256" using L(1) by auto
  have r: "rsp = of_nat ?e # concat ?ds" using rsp hd by simp
  have cl: "length (concat ?ds) = length ds * ?e" using uniform_concat [OF uni] by simp
  have len2: "2 + length ds * ?e < 65536" using len cl unat_u16_le [of m] by simp
  have lr: "length (0x09 # rsp) = 2 + length ds * ?e" unfolding r using cl by simp
  have n: "(ucast (of_nat (length rsp) + 1 :: u16) :: u64) = of_nat (length (0x09 # rsp))"
  proof -
    have "unat (of_nat (length rsp) + 1 :: u16) = Suc (length rsp)"
      using unat_of_nat_u16 [of "Suc (length rsp)"] lr len2 by (simp add: add.commute)
    then show ?thesis by (metis length_Cons of_nat_unat unat_ucast_u16_u64)
  qed
  note en = entries_concat [OF uni e, of "0x09" "of_nat ?e"]
  have ue: "unat (of_nat ?e :: u8) = ?e" by (rule unat_of_nat_u8 [OF e(2)])
  have "1 \<le> length ds" using L(2) by (cases ds) simp_all
  then have ge: "5 \<le> length (0x09 # rsp)" unfolding lr using L(1) by auto
  have md: "(length (0x09 # rsp) - 2) mod ?e = 0" unfolding r by (rule en(2))
  have lt: "1 \<le> length (0x09 # rsp)" "length (0x09 # rsp) < 65536" using lr len2 by simp_all
  have b01: "(0x09 # rsp) ! 0 = 0x09" "(0x09 # rsp) ! 1 = of_nat ?e" by (simp_all add: r)
  have dec: "dec_read_by_type_resp (Some (0x09 # rsp)) (ucast (of_nat (length rsp) + 1 :: u16)) = Some (Some (entries (0x09 # rsp) (of_nat ?e)))"
    unfolding n dec_type_resp_eq [OF lt] b01 ue using ge md by simp
  have "(length (0x09 # rsp) - 2) div ?e = length ds" unfolding lr using L(1) by auto
  moreover have "length ds < 65536" using len2 L(1) by auto
  ultimately have num: "unat (al_num (entries (0x09 # rsp) (of_nat ?e))) = length ds"
    unfolding entries_def ue by (simp only: att_data_list.simps unat_of_nat_u16)
  have dat: "al_data (entries (0x09 # rsp) (of_nat ?e)) = ?ds" unfolding r by (rule en(1))
  have l7: "(al_len (entries (0x09 # rsp) (of_nat ?e)) = 7) = (L = 2)" using L(1) by (auto simp: entries_def)
  obtain items where i: "char_loop bs (L = 2) None ?ds 0 acc = Some (if ds = [] then 0 else decl_handle (last ds), acc @ items)"
    "list_all2 announces items ds" using char_loop_batch [OF L(3,1)] by blast
  show ?thesis
    by (rule exI [of _ "entries (0x09 # rsp) (of_nat ?e)"], rule exI [of _ items])
      (use dec i num dat l7 L(2) in simp)
qed

text \<open>The record after the characteristics \<open>items\<close>, when the search goes on from \<open>start\<close>.\<close>

definition char_progress :: "u32 \<Rightarrow> u16 \<Rightarrow> gatt_item list \<Rightarrow> discover_char" where
  "char_progress i start items = \<lparr>dc_ref = 0, dc_attrib = Some (), dc_id = i, dc_uuid = None, dc_end = 0xffff,
     dc_start = start, dc_characteristics = items, dc_cb = Some lble_char_discovered_fn, dc_user_data = dev_user\<rparr>"

lemma char_found_more:
  assumes l: "link m r c fd [] x w" and pr: "progress p (char_record (char_progress i start acc) 1) n H L (w_user w)"
    and b: "batch_ok U ds" and len: "length (wire (ReadByTypeResp (map decl_wire ds))) \<le> unat m" and m: "23 \<le> m"
    and rsp: "wire (ReadByTypeResp (map decl_wire ds)) = 0x09 # rsp"
    and h: "start \<noteq> 0" "start \<le> decl_handle (last ds)" "decl_handle (last ds) < 0xfffe"
  shows "\<exists>w' items. run_result G T char_discovered_fn 0 (0x09 # rsp) (of_nat (length rsp) + 1) p w = Some w' \<and>
    list_all2 announces items ds \<and>
    asked m r c fd x (char_request (decl_handle (last ds) + 1)) char_discovered_fn p (Some discover_char_unref_fn) w w' \<and>
    progress p (char_record (char_progress i (decl_handle (last ds) + 1) (acc @ items)) 2) n H L (w_user w')"
proof -
  let ?h = "decl_handle (last ds)" and ?X = "char_progress i start acc"
  obtain l items where d: "dec_read_by_type_resp (Some (0x09 # rsp)) (ucast (of_nat (length rsp) + 1 :: u16)) = Some (Some l)"
    "char_loop (swap_128 G) (al_len l = 7) None (take (unat (al_num l)) (al_data l)) 0 acc = Some (?h, acc @ items)"
    "list_all2 announces items ds" using decl_batch [OF b len rsp] by blast
  let ?Y = "char_progress i (?h + 1) (acc @ items)"
  let ?w = "set_obj p (char_record ?Y 1) w"
  from pr have inv: "attrib_inv (w_user w)" by (rule progressD)
  have l1: "link m r c fd [] x ?w" "attrib_inv (w_user ?w)" using l(1) inv by simp_all
  note sh = char_request_shape [of "?h + 1"]
  let ?pdu = "char_request (?h + 1)"
  have pd: "get_op_type (hd ?pdu) = ATT_OP_TYPE_REQ" "2 \<le> length ?pdu" "length ?pdu \<le> unat m"
    using sh m by (simp_all add: word_le_nat_alt)
  obtain b' s where get: "g_attrib_get_buffer G (Some ()) ?w = Some (Some b', ucast m, ?w\<lparr>w_user := s\<rparr>)"
    "gs_user s = gs_user (w_user ?w)" "unat m \<le> length b'" and rdy: "ready G m r c fd x ?pdu b' s ?w"
    using ask_ready [OF l1 pd, of G] by (elim exE conjE) (rule that)
  have enc: "enc_read_by_type_req (swap_128 G) (?h + 1) 0xffff (Some (BT_UUID16 GATT_CHARAC_UUID)) (Some b') (ucast m) =
      Some (of_nat (length ?pdu), Some (filled ?pdu b'))"
    using enc_char_request get(3) pd(3) sh(1) by simp
  let ?t = "gs_user (w_user w)"
  let ?u = "?t\<lparr>ts_heap := (ts_heap ?t)(p := Some (char_record ?Y 2))\<rparr>"
  obtain s' j w' where put: "put_buffer (Some ()) (Some (filled ?pdu b')) (?w\<lparr>w_user := s\<lparr>gs_user := ?u\<rparr>\<rparr>) = Some (?w\<lparr>w_user := s'\<rparr>)"
    and send: "g_attrib_send G (Some ()) i (Some (filled ?pdu b')) (of_nat (length ?pdu)) (Some char_discovered_fn) p
        (Some discover_char_unref_fn) (?w\<lparr>w_user := s'\<rparr>) = Some (j, w')"
    "j \<noteq> 0" "asked m r c fd x ?pdu char_discovered_fn p (Some discover_char_unref_fn) ?w w'"
    "gs_user (w_user w') = ?u" "map_option g_ref_count (gs_attrib (w_user w')) = map_option g_ref_count (gs_attrib (w_user ?w))"
    using readyD [OF rdy, of ?u i char_discovered_fn p "Some discover_char_unref_fn"] by (elim exE conjE) (rule that)
  obtain w3 where put0: "put_buffer (Some ()) (Some (filled ?pdu b')) (?w\<lparr>w_user := s\<rparr>) = Some w3"
    "set_obj p (char_record ?Y 2) w3 = ?w\<lparr>w_user := s'\<rparr>" "obj_at p w3 = Some (char_record ?Y 1)"
    using put_then_obj [where s = s and p = p and y = "char_record ?Y 2"] put get(2) by force
  have rf: "discover_char_ref p w3 = Some (p, ?w\<lparr>w_user := s'\<rparr>)"
    using put0(2,3) by (simp add: discover_char_ref_def char_at_def char_record_def)
  have "decl_handle (last ds) \<noteq> 0" using h(1,2) by auto
  moreover have nz: "\<not> ?h < start" "?h + 1 < 0xffff" using h(2,3) by (simp_all add: not_less word_less_nat_alt unat_word_ariths word_le_nat_alt)
  moreover have at: "char_at p w = Some ((char_progress i start acc)\<lparr>dc_attrib := Some (), dc_ref := 1\<rparr>)"
    using pr by (simp add: progress_def char_at_def char_record_def obj_at_def)
  ultimately have "char_discovered_cb G T 0 (0x09 # rsp) (of_nat (length rsp) + 1) p w = Some w'"
    using d(1,2) get(1) enc put0(1) rf send(1) sh(1)
    by (simp add: char_discovered_cb_def char_progress_def char_record_def ATT_ECODE_ATTR_NOT_FOUND_def bt_uuid16_create_def)
  moreover have "progress p (char_record ?Y 2) n H L (w_user w')"
    using pr send(4,5) asked_inv [OF send(3)] by (simp add: progress_def read_layer_def)
  ultimately show ?thesis using send(3) d(3) unfolding run_char by (intro exI [of _ w'] exI [of _ items]) simp
qed

definition char_event :: "func \<Rightarrow> char_decl \<Rightarrow> ble_event" where
  "char_event f d = BleEvent f EVENT_UUID (decl_handle d) 8 (CharInfo \<lparr>ci_uuid = 0, ci_properties = decl_properties d,
     ci_handle = decl_handle d, ci_value_handle = decl_value d\<rparr>)"

lemma char_events_heard:
  assumes "list_all2 announces items ds" "l_dev (lst w) = Some d" "d_evh d = Some f" "\<forall>x \<in> set ds. ignores_event A (char_event f x)"
  shows "char_events A items w = Some (upd_ls (heard (map (char_event f) ds)) w)"
  using assms
proof (induction items ds arbitrary: w rule: list_all2_induct)
  case (Cons i its x xs)
  obtain str where i: "i = Characteristic
     \<lparr>gc_uuid = str, gc_handle = decl_handle x, gc_properties = decl_properties x, gc_value_handle = decl_value x\<rparr>"
    using Cons(1) unfolding announces_def by blast
  have "ignores_event A (char_event f x)" using Cons.prems by simp
  then have "evh A EVENT_UUID (decl_handle x) 8 (CharInfo \<lparr>ci_uuid = 0, ci_properties = decl_properties x,
     ci_handle = decl_handle x, ci_value_handle = decl_value x\<rparr>) w = Some (upd_ls (heard [char_event f x]) w)"
    unfolding char_event_def using Cons.prems by (intro evh_heard)
  then show ?case using Cons.IH [of "upd_ls (heard [char_event f x]) w"] Cons.prems i by simp
qed simp

text \<open>The events of the discovery.\<close>

definition char_discovery :: "func \<Rightarrow> char_decl list \<Rightarrow> ble_event list" where
  "char_discovery f ds = (if ds = [] then [BleEvent f EVENT_INTERNAL ERROR_OCCURED 0 (Text (att_ecode2str 0x0A))]
     else map (char_event f) ds @ [end_event f])"

lemma chars_delivered:
  assumes d: "l_dev (lst w) = Some d" "d_evh d = Some f" and items: "list_all2 announces items ds"
    and A: "\<forall>ev \<in> set (char_discovery f ds). ignores_event A ev"
  shows "lble_char_discovered_cb A (if items \<noteq> [] then 0 else 0x0A) items w = Some (upd_ls (heard (char_discovery f ds)) w)"
proof (cases "ds = []")
  case True
  then show ?thesis
    using d A items evh_heard [of w d f A EVENT_INTERNAL ERROR_OCCURED 0 "Text (att_ecode2str 0x0A)"]
    by (simp add: lble_char_discovered_cb_def char_discovery_def emit_def the_dev_def)
next
  case False
  then have i: "items \<noteq> []" "\<forall>x \<in> set ds. ignores_event A (char_event f x)" "ignores_event A (end_event f)"
    using items A by (auto simp: char_discovery_def)
  then show ?thesis
    using char_events_heard [OF items d i(2)] evh_heard [of "upd_ls (heard (map (char_event f) ds)) w" d f A EVENT_UUID 0 0 NoData] d False
    by (simp add: lble_char_discovered_cb_def char_discovery_def end_event_def)
qed

lemma chars_end:
  assumes pr: "progress p (char_record (char_progress i start items) 1) n H L (w_user w)"
    and d: "l_dev L = Some d" "d_evh d = Some f" and items: "list_all2 announces items ds"
    and A: "\<forall>ev \<in> set (char_discovery f ds). ignores_event A ev"
  shows "\<exists>u. run_result G (libble_client A) char_discovered_fn 0x0A rsp len p w = Some (w\<lparr>w_user := u\<rparr>) \<and>
    progress p (char_record (char_progress i start items) 1) n H (heard (char_discovery f ds) L) u \<and>
    (\<forall>q g ud d. waits_for q g ud d (w_user w) \<longrightarrow> waits_for q g ud d u)"
proof -
  have at: "char_at p w = Some ((char_progress i start items)\<lparr>dc_attrib := Some (), dc_ref := 1\<rparr>)"
    using pr by (simp add: progress_def char_at_def char_record_def obj_at_def)
  let ?st = "if items \<noteq> [] then 0 else 0x0A :: u8"
  let ?log = "\<lambda>s. s\<lparr>ts_calls := ts_calls s @ [TList lble_char_discovered_fn ?st items dev_user]\<rparr>"
  let ?w1 = "upd_ts ?log w"
  have "l_dev (lst ?w1) = Some d" using pr d(1) by (simp add: progress_def read_layer_def lst_def)
  note cb = chars_delivered [OF this d(2) items A]
  have "char_discovered_cb G (libble_client A) 0x0A rsp len p w = Some (upd_ls (heard (char_discovery f ds)) ?w1)"
    using at cb by (simp add: char_discovered_cb_def char_progress_def ATT_ECODE_ATTR_NOT_FOUND_def call_list_def call_top_def
        lble_char_discovered_fn_def char_desc_fn_def)
  then have "run_result G (libble_client A) char_discovered_fn 0x0A rsp len p w =
      Some (w\<lparr>w_user := w_user (upd_ls (heard (char_discovery f ds)) ?w1)\<rparr>)"
    unfolding run_char by (simp only: call_in_place [symmetric])
  then show ?thesis using pr by (intro exI [of _ "w_user (upd_ls (heard (char_discovery f ds)) ?w1)"])
    (simp add: progress_def read_layer_def)
qed

section \<open>The procedure\<close>

definition char_reply :: "char_decl list \<Rightarrow> u8 list" where
  "char_reply ds = wire (ReadByTypeResp (map decl_wire ds))"

text \<open>What one response may carry: declarations with UUIDs of one length, within the MTU.\<close>

definition char_fits :: "u16 \<Rightarrow> char_decl list \<Rightarrow> bool" where
  "char_fits m ds \<longleftrightarrow> (batch_ok 2 ds \<or> batch_ok 16 ds) \<and> length (char_reply ds) \<le> unat m"

interpretation chars: discovery discover_char_unref_fn char_record char_discovered_fn char_request char_reply decl_handle "0xfffe"
  char_progress announces char_fits char_discovery
proof (unfold_locales, goal_cases)
  case (1 s)
  show ?case by (rule char_request_shape(3))
next
  case (2 s)
  show ?case using char_request_shape(1) [of s] by simp
next
  case (3 m ds)
  have "char_reply ds = 0x09 # tl (char_reply ds)" by (simp add: char_reply_def)
  then show ?case using 3 char_request_shape(2) unfolding char_fits_def
    by (intro exI [of _ "0x09"] exI [of _ "tl (char_reply ds)"]) (simp add: answers_def BT_ATT_OP_ERROR_RSP_def, simp add: char_reply_def)
next
  case (4 s)
  show ?case using char_request_shape(2) [of s] by (simp add: answers_def BT_ATT_OP_ERROR_RSP_def le16_bytes)
next
  case (5 m ds)
  then show ?case by (auto simp: char_fits_def batch_ok_def)
next
  case 6
  show ?case by simp
next
  case (7 m r c fd x w p i start acc n H L ds opcode rsp G T)
  then have o: "opcode = 0x09" by (simp add: char_reply_def)
  obtain U where U: "batch_ok U ds" using 7(3) by (auto simp: char_fits_def)
  have len: "length (wire (ReadByTypeResp (map decl_wire ds))) \<le> unat m" using 7(3) by (simp add: char_fits_def char_reply_def)
  have rsp: "wire (ReadByTypeResp (map decl_wire ds)) = 0x09 # rsp" using 7(5) o by (simp add: char_reply_def)
  show ?case unfolding o by (rule char_found_more [OF 7(1,2) U len 7(4) rsp 7(6,7,8)])
next
  case (8 p i start items n H L w dv f ds A G rsp len)
  then show ?case by (rule chars_end)
qed

lemma chars_start:
  assumes s: "session m c fd f w"
  shows "\<exists>r n i w'. lble_discover_char G (Some ()) w = Some w' \<and> 0 < r \<and> 2 \<le> n \<and> w_wire w' = w_wire w \<and>
    request_out m r c fd False (char_request 1) char_discovered_fn (ts_next (gs_user (w_user w))) discover_char_unref_fn
      (progress (ts_next (gs_user (w_user w))) (char_record (char_progress i 1 []) 1) n (ts_heap (gs_user (w_user w))) (lst w)) w'"
proof -
  from s obtain r n d where w: "link m r c fd [] None w" "0 < r" "23 \<le> m"
    "attrib_inv (w_user w)" "map_option g_ref_count (gs_attrib (w_user w)) = Some n" "1 \<le> n"
    "l_dev (lst w) = Some d" "conn_state d = STATE_CONNECTED" "d_attrib d = Some ()" "d_evh d = Some f"
    unfolding session_def by blast
  let ?p = "ts_next (gs_user (w_user w))" and ?H = "ts_heap (gs_user (w_user w))" and ?t = "gs_user (w_user w)"
  let ?pdu = "char_request 1"
  have pd: "get_op_type (hd ?pdu) = ATT_OP_TYPE_REQ" "2 \<le> length ?pdu" "length ?pdu \<le> unat m"
    using char_request_shape(1,2) [of 1] w(3) by (simp_all add: word_le_nat_alt)
  let ?u = "?t\<lparr>ts_next := Suc ?p, ts_heap := ?H(?p := Some (char_record (char_progress 0 1 []) 1))\<rparr>"
  obtain b s where get: "g_attrib_get_buffer G (Some ()) w = Some (Some b, ucast m, w\<lparr>w_user := s\<rparr>)" "unat m \<le> length b"
    and ask: "\<And>u f ud d. \<exists>s1 s2 i w'. put_buffer (Some ()) (Some (filled ?pdu b)) (w\<lparr>w_user := s\<rparr>) = Some (w\<lparr>w_user := s1\<rparr>) \<and>
       g_attrib_ref (Some ()) (w\<lparr>w_user := s1\<rparr>) = Some (Some (), w\<lparr>w_user := s2\<rparr>) \<and> gs_user s2 = gs_user (w_user w) \<and>
       g_attrib_send G (Some ()) 0 (Some (filled ?pdu b)) (of_nat (length ?pdu)) (Some f) ud d (w\<lparr>w_user := s2\<lparr>gs_user := u\<rparr>\<rparr>) = Some (i, w') \<and>
       asked m r c fd None ?pdu f ud d w w' \<and> gs_user (w_user w') = u \<and>
       map_option g_ref_count (gs_attrib (w_user w')) = map_option (\<lambda>g. g_ref_count g + 1) (gs_attrib (w_user w))"
    using ask_with_ref [OF w(1,4) pd, of G] by (elim exE conjE) (blast intro: that)
  obtain s1 s2 i w' where a: "put_buffer (Some ()) (Some (filled ?pdu b)) (w\<lparr>w_user := s\<rparr>) = Some (w\<lparr>w_user := s1\<rparr>)"
    "g_attrib_ref (Some ()) (w\<lparr>w_user := s1\<rparr>) = Some (Some (), w\<lparr>w_user := s2\<rparr>)" "gs_user s2 = ?t"
    "g_attrib_send G (Some ()) 0 (Some (filled ?pdu b)) (of_nat (length ?pdu)) (Some char_discovered_fn) ?p (Some discover_char_unref_fn)
       (w\<lparr>w_user := s2\<lparr>gs_user := ?u\<rparr>\<rparr>) = Some (i, w')"
    "asked m r c fd None ?pdu char_discovered_fn ?p (Some discover_char_unref_fn) w w'" "gs_user (w_user w') = ?u"
    "map_option g_ref_count (gs_attrib (w_user w')) = map_option (\<lambda>g. g_ref_count g + 1) (gs_attrib (w_user w))"
    using ask [of char_discovered_fn ?p "Some discover_char_unref_fn" ?u] by (elim exE conjE) (rule that)
  let ?w' = "set_obj ?p (char_record (char_progress i 1 []) 1) w'"
  have enc: "enc_read_by_type_req (swap_128 G) 1 0xffff (Some (BT_UUID16 GATT_CHARAC_UUID)) (Some b) (ucast m) =
      Some (of_nat (length ?pdu), Some (filled ?pdu b))"
    using enc_char_request get(2) pd(3) char_request_shape(1) [of 1] by simp
  have "obj_at ?p w' = Some (char_record (char_progress 0 1 []) 1)" using a(6) by (simp add: obj_at_def)
  then have "lble_discover_char G (Some ()) w = Some ?w'"
    using w(7,8,9) get(1) enc a char_request_shape(1) [of 1]
    by (simp add: lble_discover_char_def if_connected_def the_dev_def gatt_discover_char_def bt_uuid16_create_def new_obj_def
        discover_char_ref_def char_at_def char_record_def char_progress_def Let_def)
  moreover have "request_out m r c fd False ?pdu char_discovered_fn ?p discover_char_unref_fn
      (progress ?p (char_record (char_progress i 1 []) 1) (n + 1) ?H (lst w)) ?w'"
    using a(5,6,7) w(5) unfolding request_out_def asked_def progress_def read_layer_def
    by (auto simp: lst_def)
  moreover have "w_wire ?w' = w_wire w" using a(5) by (simp add: asked_def)
  ultimately show ?thesis using w(2,6) by (intro exI [of _ r] exI [of _ "n + 1"] exI [of _ i] exI [of _ ?w']) simp
qed

end
