(* ===== verification/LibDescs.thy ===== *)
theory LibDescs
  imports LibDiscover
begin

text \<open>
  Discovery of descriptors through all layers: what \<open>desc_discovered_cb\<close> does with the attributes of one response and with
  the error response at the end, and what \<open>lble_discover_hand\<close> starts. The library calls it for all handles, so it finds
  all attributes of the server.
\<close>

section \<open>The server's attributes\<close>

record attr_decl =
  at_handle :: u16
  at_uuid :: "u8 list"

definition attr_wire :: "attr_decl \<Rightarrow> u8 list" where
  "attr_wire d = le2 (at_handle d) @ at_uuid d"

text \<open>The short UUID of an attribute, 0 for one of 128 bits.\<close>

definition short_uuid :: "attr_decl \<Rightarrow> u16" where
  "short_uuid d = (if length (at_uuid d) = 2 then word_of_le (at_uuid d) else 0)"

definition describes :: "gatt_item \<Rightarrow> attr_decl \<Rightarrow> bool" where
  "describes i d \<longleftrightarrow> (\<exists>s. i = Descriptor \<lparr>gd_uuid = s, gd_handle = at_handle d, gd_uuid16 = short_uuid d\<rparr>)"

definition attrs_ok :: "nat \<Rightarrow> attr_decl list \<Rightarrow> bool" where
  "attrs_ok L ds \<longleftrightarrow> (L = 2 \<or> L = 16) \<and> ds \<noteq> [] \<and> (\<forall>d \<in> set ds. length (at_uuid d) = L)"

lemma attr_fields:
  "get_le16 (attr_wire d) 0 = Some (at_handle d)"
  "length (at_uuid d) = 2 \<Longrightarrow> get_le16 (attr_wire d) 2 = Some (short_uuid d)"
  "length (at_uuid d) = 2 \<Longrightarrow> get_le16 (attr_wire d) (Suc (Suc 0)) = Some (short_uuid d)"
proof -
  show "get_le16 (attr_wire d) 0 = Some (at_handle d)" using get_le16_mid [of 0 "[]" "at_handle d"] by (simp add: attr_wire_def)
  show s: "get_le16 (attr_wire d) 2 = Some (short_uuid d)" if l: "length (at_uuid d) = 2"
  proof -
    have "at_uuid d = le2 (short_uuid d)" using l le_of_word_of_le [where bs = "at_uuid d" and ?'a = 16] by (simp add: short_uuid_def)
    then show ?thesis using get_le16_mid [of 2 "le2 (at_handle d)" "short_uuid d" "[]"] by (simp add: attr_wire_def)
  qed
  then show "length (at_uuid d) = 2 \<Longrightarrow> get_le16 (attr_wire d) (Suc (Suc 0)) = Some (short_uuid d)" by (simp add: numeral_2_eq_2)
qed

lemma desc_loop_batch:
  assumes "\<forall>d \<in> set ds. length (at_uuid d) = L" "L = 2 \<or> L = 16"
  shows "\<exists>items. desc_loop bs (L = 2) None (map attr_wire ds) lasth acc =
      Some (if ds = [] then lasth else at_handle (last ds), acc @ items, False) \<and> list_all2 describes items ds"
  using assms(1)
proof (induction ds arbitrary: lasth acc)
  case (Cons d ds)
  obtain u where u: "get_uuid128 bs (L = 2) (attr_wire d) 2 = Some (BT_UUID128 u)"
    using uuid_in_entry [of 2 L "attr_wire d" bs] Cons.prems assms(2) by (auto simp: attr_wire_def)
  obtain str where str: "uuid_string (BT_UUID128 u) = Some str" using uuid_string_total by fast
  let ?i = "Descriptor \<lparr>gd_uuid = str, gd_handle = at_handle d, gd_uuid16 = short_uuid d\<rparr>"
  have s: "(if L = 2 then get_le16 (attr_wire d) 2 else Some 0) = Some (short_uuid d)"
    using Cons.prems attr_fields(2) [of d] by (auto simp: short_uuid_def)
  from Cons.IH [of "at_handle d" "acc @ [?i]"] Cons.prems obtain items where
    i: "desc_loop bs (L = 2) None (map attr_wire ds) (at_handle d) (acc @ [?i]) =
      Some (if ds = [] then at_handle d else at_handle (last ds), (acc @ [?i]) @ items, False)" "list_all2 describes items ds" by auto
  have "describes ?i d" by (simp add: describes_def)
  then show ?case using i u str s by (intro exI [of _ "?i # items"]) (simp add: attr_fields(1) other_uuid_def cong: if_cong)
qed simp

section \<open>The procedure's record\<close>

definition desc_record :: "discover_desc \<Rightarrow> int \<Rightarrow> gatt_obj" where
  "desc_record x j = ObjDesc (x\<lparr>dd_attrib := Some (), dd_ref := j\<rparr>)"

lemma run_desc:
  "run_result G T desc_discovered_fn status pdu len p w = desc_discovered_cb G T status pdu len p w"
  "run_destroy G T discover_desc_unref_fn p w = discover_desc_unref G p w"
  by (simp_all add: run_result_def run_destroy_def fn_defs desc_discovered_fn_def prepare_write_fn_def)

interpretation desc_procedure: procedure discover_desc_unref_fn desc_record
proof (unfold_locales, goal_cases)
  case (1 u n p x j G T w)
  show ?case unfolding run_desc
    by (rule unref_record [OF 1(2,3), where G = G]) (use 1(4) in \<open>simp add: discover_desc_unref_def desc_at_def desc_record_def Let_def\<close>)
qed

text \<open>The requests.\<close>

definition desc_request :: "u16 \<Rightarrow> u8 list" where
  "desc_request start = wire (FindInfoReq start 0xffff)"

lemma desc_request_shape: "length (desc_request start) = 5" "hd (desc_request start) = 0x04"
  "get_le16 (desc_request start) 1 = Some start"
proof -
  show "length (desc_request start) = 5" "hd (desc_request start) = 0x04" by (simp_all add: desc_request_def)
  show "get_le16 (desc_request start) 1 = Some start"
    using get_le16_mid [of 1 "[0x04]" start "le2 0xffff"] by (simp add: desc_request_def)
qed

lemma find_info_request [simp]: "get_op_type 0x04 = ATT_OP_TYPE_REQ" "get_op_type 0x05 = ATT_OP_TYPE_RSP" "get_req_opcode 0x05 = 0x04"
  by code_simp+

lemma enc_desc_request:
  assumes "5 \<le> length b"
  shows "enc_find_info_req start 0xffff (Some b) len = Some (of_nat (length (desc_request start)), Some (filled (desc_request start) b))"
  using assms by (simp add: enc_find_info_req_def enc_simps desc_request_def flip: encodes_def)

section \<open>The answers\<close>

definition desc_reply :: "attr_decl list \<Rightarrow> u8 list" where
  "desc_reply ds = wire (FindInfoResp (if length (at_uuid (hd ds)) = 2 then 1 else 2) (map attr_wire ds))"

lemma desc_batch:
  assumes b: "attrs_ok L ds" and len: "length (desc_reply ds) \<le> unat (m :: u16)" and rsp: "desc_reply ds = 0x05 # rsp"
  shows "\<exists>l items. dec_find_info_resp (Some (0x05 # rsp)) (ucast (of_nat (length rsp) + 1 :: u16)) (Some 0) =
      Some (Some l, Some (if L = 2 then 1 else 2)) \<and>
    desc_loop bs (L = 2) None (take (unat (al_num l)) (al_data l)) 0xffff acc = Some (at_handle (last ds), acc @ items, False) \<and>
    list_all2 describes items ds"
proof -
  from b have L: "L = 2 \<or> L = 16" "ds \<noteq> []" "\<forall>d \<in> set ds. length (at_uuid d) = L" by (simp_all add: attrs_ok_def)
  let ?ds = "map attr_wire ds" and ?e = "2 + L" and ?f = "if L = 2 then 1 else 2 :: u8"
  have uni: "uniform ?e ?ds" using L(3) by (simp add: uniform_def list_all_iff attr_wire_def)
  have "length (at_uuid (hd ds)) = L" using L(2,3) by simp
  then have r: "rsp = ?f # concat ?ds" using rsp by (simp add: desc_reply_def)
  have e: "0 < ?e" "?e < 256" using L(1) by auto
  have cl: "length (concat ?ds) = length ds * ?e" using uniform_concat [OF uni] by simp
  have lr: "length (0x05 # rsp) = 2 + length ds * ?e" unfolding r using cl by simp
  have len2: "2 + length ds * ?e < 65536" using len lr rsp unat_u16_le [of m] by simp
  have n: "(ucast (of_nat (length rsp) + 1 :: u16) :: u64) = of_nat (length (0x05 # rsp))"
  proof -
    have "unat (of_nat (length rsp) + 1 :: u16) = Suc (length rsp)"
      using unat_of_nat_u16 [of "Suc (length rsp)"] lr len2 by (simp add: add.commute)
    then show ?thesis by (metis length_Cons of_nat_unat unat_ucast_u16_u64)
  qed
  note en = entries_concat [OF uni e, of "0x05" ?f]
  have ue: "unat (of_nat ?e :: u8) = ?e" by (rule unat_of_nat_u8 [OF e(2)])
  have ie: "info_elen ?f = of_nat ?e" using L(1) by (auto simp: info_elen_def)
  have lt: "2 \<le> length (0x05 # rsp)" "length (0x05 # rsp) < 65536" using lr len2 by simp_all
  have b01: "(0x05 # rsp) ! 0 = 0x05" "(0x05 # rsp) ! 1 = ?f" by (simp_all add: r)
  have dec: "dec_find_info_resp (Some (0x05 # rsp)) (ucast (of_nat (length rsp) + 1 :: u16)) (Some 0) =
      Some (Some (entries (0x05 # rsp) (of_nat ?e)), Some ?f)"
    unfolding n dec_find_info_resp_eq [OF lt] b01 ie by simp
  have "(length (0x05 # rsp) - 2) div ?e = length ds" unfolding lr using L(1) by auto
  moreover have "length ds < 65536" using len2 L(1) by auto
  ultimately have num: "unat (al_num (entries (0x05 # rsp) (of_nat ?e))) = length ds"
    unfolding entries_def ue by (simp only: att_data_list.simps unat_of_nat_u16)
  have dat: "al_data (entries (0x05 # rsp) (of_nat ?e)) = ?ds" unfolding r by (rule en(1))
  obtain items where i: "desc_loop bs (L = 2) None ?ds 0xffff acc = Some (if ds = [] then 0xffff else at_handle (last ds), acc @ items, False)"
    "list_all2 describes items ds" using desc_loop_batch [OF L(3,1)] by blast
  show ?thesis
    by (rule exI [of _ "entries (0x05 # rsp) (of_nat ?e)"], rule exI [of _ items])
      (use dec i num dat L(2) in simp)
qed

text \<open>The record after the descriptors \<open>items\<close>, when the search goes on from \<open>start\<close>.\<close>

definition desc_progress :: "u32 \<Rightarrow> u16 \<Rightarrow> gatt_item list \<Rightarrow> discover_desc" where
  "desc_progress i start items = \<lparr>dd_ref = 0, dd_attrib = Some (), dd_id = i, dd_uuid = None, dd_start = start,
     dd_end = 0xffff, dd_descriptors = items, dd_cb = Some char_desc_fn, dd_user_data = dev_user\<rparr>"

lemma desc_found_more:
  assumes l: "link m r c fd [] x w" and pr: "progress p (desc_record (desc_progress i start acc) 1) n H L (w_user w)"
    and b: "attrs_ok U ds" and len: "length (desc_reply ds) \<le> unat m" and m: "23 \<le> m"
    and rsp: "desc_reply ds = 0x05 # rsp" and h: "start \<noteq> 0" "start \<le> at_handle (last ds)" "at_handle (last ds) < 0xffff"
  shows "\<exists>w' items. run_result G T desc_discovered_fn 0 (0x05 # rsp) (of_nat (length rsp) + 1) p w = Some w' \<and>
    list_all2 describes items ds \<and>
    asked m r c fd x (desc_request (at_handle (last ds) + 1)) desc_discovered_fn p (Some discover_desc_unref_fn) w w' \<and>
    progress p (desc_record (desc_progress i (at_handle (last ds) + 1) (acc @ items)) 2) n H L (w_user w')"
proof -
  let ?h = "at_handle (last ds)" and ?X = "desc_progress i start acc" and ?f = "if U = 2 then 1 else 2 :: u8"
  obtain l items where d: "dec_find_info_resp (Some (0x05 # rsp)) (ucast (of_nat (length rsp) + 1 :: u16)) (Some 0) = Some (Some l, Some ?f)"
    "desc_loop (swap_128 G) (U = 2) None (take (unat (al_num l)) (al_data l)) 0xffff acc = Some (?h, acc @ items, False)"
    "list_all2 describes items ds" using desc_batch [OF b len rsp] by blast
  have f16: "(Some ?f = Some ATT_FIND_INFO_RESP_FMT_16BIT) = (U = 2)" by (simp add: ATT_FIND_INFO_RESP_FMT_16BIT_def)
  let ?Y = "desc_progress i (?h + 1) (acc @ items)"
  let ?w = "set_obj p (desc_record ?Y 1) w"
  from pr have inv: "attrib_inv (w_user w)" by (rule progressD)
  have l1: "link m r c fd [] x ?w" "attrib_inv (w_user ?w)" using l(1) inv by simp_all
  note sh = desc_request_shape [of "?h + 1"]
  let ?pdu = "desc_request (?h + 1)"
  have pd: "get_op_type (hd ?pdu) = ATT_OP_TYPE_REQ" "2 \<le> length ?pdu" "length ?pdu \<le> unat m"
    using sh m by (simp_all add: word_le_nat_alt)
  obtain b' s where get: "g_attrib_get_buffer G (Some ()) ?w = Some (Some b', ucast m, ?w\<lparr>w_user := s\<rparr>)"
    "gs_user s = gs_user (w_user ?w)" "unat m \<le> length b'" and rdy: "ready G m r c fd x ?pdu b' s ?w"
    using ask_ready [OF l1 pd, of G] by (elim exE conjE) (rule that)
  have enc: "enc_find_info_req (?h + 1) 0xffff (Some b') (ucast m) = Some (of_nat (length ?pdu), Some (filled ?pdu b'))"
    using enc_desc_request get(3) pd(3) sh(1) by simp
  let ?t = "gs_user (w_user w)"
  let ?u = "?t\<lparr>ts_heap := (ts_heap ?t)(p := Some (desc_record ?Y 2))\<rparr>"
  obtain s' j w' where put: "put_buffer (Some ()) (Some (filled ?pdu b')) (?w\<lparr>w_user := s\<lparr>gs_user := ?u\<rparr>\<rparr>) = Some (?w\<lparr>w_user := s'\<rparr>)"
    and send: "g_attrib_send G (Some ()) i (Some (filled ?pdu b')) (of_nat (length ?pdu)) (Some desc_discovered_fn) p
        (Some discover_desc_unref_fn) (?w\<lparr>w_user := s'\<rparr>) = Some (j, w')"
    "j \<noteq> 0" "asked m r c fd x ?pdu desc_discovered_fn p (Some discover_desc_unref_fn) ?w w'"
    "gs_user (w_user w') = ?u" "map_option g_ref_count (gs_attrib (w_user w')) = map_option g_ref_count (gs_attrib (w_user ?w))"
    using readyD [OF rdy, of ?u i desc_discovered_fn p "Some discover_desc_unref_fn"] by (elim exE conjE) (rule that)
  obtain w3 where put0: "put_buffer (Some ()) (Some (filled ?pdu b')) (?w\<lparr>w_user := s\<rparr>) = Some w3"
    "set_obj p (desc_record ?Y 2) w3 = ?w\<lparr>w_user := s'\<rparr>" "obj_at p w3 = Some (desc_record ?Y 1)"
    using put_then_obj [where s = s and p = p and y = "desc_record ?Y 2"] put get(2) by force
  have rf: "discover_desc_ref p w3 = Some (p, ?w\<lparr>w_user := s'\<rparr>)"
    using put0(2,3) by (simp add: discover_desc_ref_def desc_at_def desc_record_def)
  have nz: "\<not> ?h < start" using h(2) by (simp add: not_less)
  have at: "desc_at p w = Some ((desc_progress i start acc)\<lparr>dd_attrib := Some (), dd_ref := 1\<rparr>)"
    using pr by (simp add: progress_def desc_at_def desc_record_def obj_at_def)
  have "desc_discovered_cb G T 0 (0x05 # rsp) (of_nat (length rsp) + 1) p w = Some w'"
    using at d(1,2) get(1) enc put0(1) rf send(1) sh(1) h(3) nz
    by (simp add: desc_discovered_cb_def desc_progress_def desc_record_def ATT_ECODE_ATTR_NOT_FOUND_def f16 [simplified])
  moreover have "progress p (desc_record ?Y 2) n H L (w_user w')"
    using pr send(4,5) asked_inv [OF send(3)] by (simp add: progress_def read_layer_def)
  ultimately show ?thesis using send(3) d(3) unfolding run_desc by (intro exI [of _ w'] exI [of _ items]) simp
qed

section \<open>The events\<close>

definition attr_event :: "func \<Rightarrow> attr_decl \<Rightarrow> ble_event" where
  "attr_event f d = BleEvent f EVENT_UUID (at_handle d) 8 (CharInfo \<lparr>ci_uuid = short_uuid d, ci_properties = 0,
     ci_handle = 0, ci_value_handle = at_handle d\<rparr>)"

lemma desc_events_heard:
  assumes "list_all2 describes items ds" "l_dev (lst w) = Some d" "d_evh d = Some f" "\<forall>x \<in> set ds. ignores_event A (attr_event f x)"
  shows "desc_events A items w = Some (upd_ls (heard (map (attr_event f) ds)) w)"
  using assms
proof (induction items ds arbitrary: w rule: list_all2_induct)
  case (Cons i its x xs)
  obtain str where i: "i = Descriptor \<lparr>gd_uuid = str, gd_handle = at_handle x, gd_uuid16 = short_uuid x\<rparr>"
    using Cons(1) unfolding describes_def by blast
  have "ignores_event A (attr_event f x)" using Cons.prems by simp
  then have "evh A EVENT_UUID (at_handle x) 8 (CharInfo \<lparr>ci_uuid = short_uuid x, ci_properties = 0,
     ci_handle = 0, ci_value_handle = at_handle x\<rparr>) w = Some (upd_ls (heard [attr_event f x]) w)"
    unfolding attr_event_def using Cons.prems by (intro evh_heard)
  then show ?case using Cons.IH [of "upd_ls (heard [attr_event f x]) w"] Cons.prems i by simp
qed simp

definition desc_discovery :: "func \<Rightarrow> attr_decl list \<Rightarrow> ble_event list" where
  "desc_discovery f ds = (if ds = [] then [BleEvent f EVENT_INTERNAL ERROR_OCCURED 0 (Text (att_ecode2str 0x0A))]
     else map (attr_event f) ds @ [end_event f])"

lemma descs_delivered:
  assumes d: "l_dev (lst w) = Some d" "d_evh d = Some f" and items: "list_all2 describes items ds"
    and A: "\<forall>ev \<in> set (desc_discovery f ds). ignores_event A ev"
  shows "char_desc_cb A (if items \<noteq> [] then 0 else 0x0A) items w = Some (upd_ls (heard (desc_discovery f ds)) w)"
proof (cases "ds = []")
  case True
  then show ?thesis
    using d A items evh_heard [of w d f A EVENT_INTERNAL ERROR_OCCURED 0 "Text (att_ecode2str 0x0A)"]
    by (simp add: char_desc_cb_def desc_discovery_def emit_def the_dev_def)
next
  case False
  then have i: "items \<noteq> []" "\<forall>x \<in> set ds. ignores_event A (attr_event f x)" "ignores_event A (end_event f)"
    using items A by (auto simp: desc_discovery_def)
  then show ?thesis
    using desc_events_heard [OF items d i(2)] evh_heard [of "upd_ls (heard (map (attr_event f) ds)) w" d f A EVENT_UUID 0 0 NoData] d False
    by (simp add: char_desc_cb_def desc_discovery_def end_event_def)
qed

lemma descs_end:
  assumes pr: "progress p (desc_record (desc_progress i start items) 1) n H L (w_user w)"
    and d: "l_dev L = Some d" "d_evh d = Some f" and items: "list_all2 describes items ds"
    and A: "\<forall>ev \<in> set (desc_discovery f ds). ignores_event A ev"
  shows "\<exists>u. run_result G (libble_client A) desc_discovered_fn 0x0A rsp len p w = Some (w\<lparr>w_user := u\<rparr>) \<and>
    progress p (desc_record (desc_progress i start items) 1) n H (heard (desc_discovery f ds) L) u \<and>
    (\<forall>q g ud d. waits_for q g ud d (w_user w) \<longrightarrow> waits_for q g ud d u)"
proof -
  have at: "desc_at p w = Some ((desc_progress i start items)\<lparr>dd_attrib := Some (), dd_ref := 1\<rparr>)"
    using pr by (simp add: progress_def desc_at_def desc_record_def obj_at_def)
  let ?st = "if items \<noteq> [] then 0 else 0x0A :: u8"
  let ?log = "\<lambda>s. s\<lparr>ts_calls := ts_calls s @ [TList char_desc_fn ?st items dev_user]\<rparr>"
  let ?w1 = "upd_ts ?log w"
  have "l_dev (lst ?w1) = Some d" using pr d(1) by (simp add: progress_def read_layer_def lst_def)
  note cb = descs_delivered [OF this d(2) items A]
  have "desc_discovered_cb G (libble_client A) 0x0A rsp len p w = Some (upd_ls (heard (desc_discovery f ds)) ?w1)"
    using at cb by (simp add: desc_discovered_cb_def desc_progress_def ATT_ECODE_ATTR_NOT_FOUND_def call_list_def call_top_def)
  then have "run_result G (libble_client A) desc_discovered_fn 0x0A rsp len p w =
      Some (w\<lparr>w_user := w_user (upd_ls (heard (desc_discovery f ds)) ?w1)\<rparr>)"
    unfolding run_desc by (simp only: call_in_place [symmetric])
  then show ?thesis using pr by (intro exI [of _ "w_user (upd_ls (heard (desc_discovery f ds)) ?w1)"])
    (simp add: progress_def read_layer_def)
qed

section \<open>The procedure\<close>

definition desc_fits :: "u16 \<Rightarrow> attr_decl list \<Rightarrow> bool" where
  "desc_fits m ds \<longleftrightarrow> (attrs_ok 2 ds \<or> attrs_ok 16 ds) \<and> length (desc_reply ds) \<le> unat m"

interpretation descs: discovery discover_desc_unref_fn desc_record desc_discovered_fn desc_request desc_reply at_handle "0xffff"
  desc_progress describes desc_fits desc_discovery
proof (unfold_locales, goal_cases)
  case (1 s)
  show ?case by (rule desc_request_shape(3))
next
  case (2 s)
  show ?case using desc_request_shape(1) [of s] by simp
next
  case (3 m ds)
  have "desc_reply ds = 0x05 # tl (desc_reply ds)" by (simp add: desc_reply_def)
  then show ?case using 3 desc_request_shape(2) unfolding desc_fits_def
    by (intro exI [of _ "0x05"] exI [of _ "tl (desc_reply ds)"]) (simp add: answers_def BT_ATT_OP_ERROR_RSP_def, simp add: desc_reply_def)
next
  case (4 s)
  show ?case using desc_request_shape(2) [of s] by (simp add: answers_def BT_ATT_OP_ERROR_RSP_def le16_bytes)
next
  case (5 m ds)
  then show ?case by (auto simp: desc_fits_def attrs_ok_def)
next
  case 6
  show ?case by simp
next
  case (7 m r c fd x w p i start acc n H L ds opcode rsp G T)
  then have o: "opcode = 0x05" by (simp add: desc_reply_def)
  obtain U where U: "attrs_ok U ds" using 7(3) by (auto simp: desc_fits_def)
  have len: "length (desc_reply ds) \<le> unat m" using 7(3) by (simp add: desc_fits_def)
  show ?case unfolding o by (rule desc_found_more [OF 7(1,2) U len 7(4) 7(5) [unfolded o] 7(6,7,8)])
next
  case (8 p i start items n H L w dv f ds A G rsp len)
  then show ?case by (rule descs_end)
qed

lemma descs_start:
  assumes s: "session m c fd f w"
  shows "\<exists>r n i w'. lble_discover_hand G (Some ()) w = Some w' \<and> 0 < r \<and> 2 \<le> n \<and> w_wire w' = w_wire w \<and>
    request_out m r c fd False (desc_request 1) desc_discovered_fn (ts_next (gs_user (w_user w))) discover_desc_unref_fn
      (progress (ts_next (gs_user (w_user w))) (desc_record (desc_progress i 1 []) 1) n (ts_heap (gs_user (w_user w))) (lst w)) w'"
proof -
  from s obtain r n d where w: "link m r c fd [] None w" "0 < r" "23 \<le> m"
    "attrib_inv (w_user w)" "map_option g_ref_count (gs_attrib (w_user w)) = Some n" "1 \<le> n"
    "l_dev (lst w) = Some d" "conn_state d = STATE_CONNECTED" "d_attrib d = Some ()" "d_evh d = Some f"
    unfolding session_def by blast
  let ?p = "ts_next (gs_user (w_user w))" and ?H = "ts_heap (gs_user (w_user w))" and ?t = "gs_user (w_user w)"
  let ?pdu = "desc_request 1"
  have pd: "get_op_type (hd ?pdu) = ATT_OP_TYPE_REQ" "2 \<le> length ?pdu" "length ?pdu \<le> unat m"
    using desc_request_shape(1,2) [of 1] w(3) by (simp_all add: word_le_nat_alt)
  let ?u = "?t\<lparr>ts_next := Suc ?p, ts_heap := ?H(?p := Some (desc_record (desc_progress 0 1 []) 1))\<rparr>"
  obtain b s where get: "g_attrib_get_buffer G (Some ()) w = Some (Some b, ucast m, w\<lparr>w_user := s\<rparr>)" "unat m \<le> length b"
    and ask: "\<And>u f ud d. \<exists>s1 s2 i w'. put_buffer (Some ()) (Some (filled ?pdu b)) (w\<lparr>w_user := s\<rparr>) = Some (w\<lparr>w_user := s1\<rparr>) \<and>
       g_attrib_ref (Some ()) (w\<lparr>w_user := s1\<rparr>) = Some (Some (), w\<lparr>w_user := s2\<rparr>) \<and> gs_user s2 = gs_user (w_user w) \<and>
       g_attrib_send G (Some ()) 0 (Some (filled ?pdu b)) (of_nat (length ?pdu)) (Some f) ud d (w\<lparr>w_user := s2\<lparr>gs_user := u\<rparr>\<rparr>) = Some (i, w') \<and>
       asked m r c fd None ?pdu f ud d w w' \<and> gs_user (w_user w') = u \<and>
       map_option g_ref_count (gs_attrib (w_user w')) = map_option (\<lambda>g. g_ref_count g + 1) (gs_attrib (w_user w))"
    using ask_with_ref [OF w(1,4) pd, of G] by (elim exE conjE) (blast intro: that)
  obtain s1 s2 i w' where a: "put_buffer (Some ()) (Some (filled ?pdu b)) (w\<lparr>w_user := s\<rparr>) = Some (w\<lparr>w_user := s1\<rparr>)"
    "g_attrib_ref (Some ()) (w\<lparr>w_user := s1\<rparr>) = Some (Some (), w\<lparr>w_user := s2\<rparr>)" "gs_user s2 = ?t"
    "g_attrib_send G (Some ()) 0 (Some (filled ?pdu b)) (of_nat (length ?pdu)) (Some desc_discovered_fn) ?p (Some discover_desc_unref_fn)
       (w\<lparr>w_user := s2\<lparr>gs_user := ?u\<rparr>\<rparr>) = Some (i, w')"
    "asked m r c fd None ?pdu desc_discovered_fn ?p (Some discover_desc_unref_fn) w w'" "gs_user (w_user w') = ?u"
    "map_option g_ref_count (gs_attrib (w_user w')) = map_option (\<lambda>g. g_ref_count g + 1) (gs_attrib (w_user w))"
    using ask [of desc_discovered_fn ?p "Some discover_desc_unref_fn" ?u] by (elim exE conjE) (rule that)
  let ?w' = "set_obj ?p (desc_record (desc_progress i 1 []) 1) w'"
  have enc: "enc_find_info_req 1 0xffff (Some b) (ucast m) =
      Some (of_nat (length ?pdu), Some (filled ?pdu b))"
    using enc_desc_request get(2) pd(3) desc_request_shape(1) [of 1] by simp
  have "obj_at ?p w' = Some (desc_record (desc_progress 0 1 []) 1)" using a(6) by (simp add: obj_at_def)
  then have "lble_discover_hand G (Some ()) w = Some ?w'"
    using w(7,8,9) get(1) enc a desc_request_shape(1) [of 1]
    by (simp add: lble_discover_hand_def if_connected_def the_dev_def gatt_discover_desc_def new_obj_def
        discover_desc_ref_def desc_at_def desc_record_def desc_progress_def Let_def)
  moreover have "request_out m r c fd False ?pdu desc_discovered_fn ?p discover_desc_unref_fn
      (progress ?p (desc_record (desc_progress i 1 []) 1) (n + 1) ?H (lst w)) ?w'"
    using a(5,6,7) w(5) unfolding request_out_def asked_def progress_def read_layer_def
    by (auto simp: lst_def)
  moreover have "w_wire ?w' = w_wire w" using a(5) by (simp add: asked_def)
  ultimately show ?thesis using w(2,6) by (intro exI [of _ r] exI [of _ "n + 1"] exI [of _ i] exI [of _ ?w']) simp
qed

end
