(* ===== verification/DiscoverSpec.thy ===== *)
theory DiscoverSpec
  imports LibChars LibDescs LibBleSpec
begin

text \<open>The two discoveries of the library against a server with an arbitrary table.\<close>

text \<open>C4. A discovery, through all layers and for every table of characteristics: \<open>lble_discover_char\<close> on an idle connected device,
  against a server that answers with as many declarations at a time as it likes, of one UUID length and within the MTU,
  asks exactly once for each part, from the handle after the last one received, until the server has no more; the application gets
  one event EVENT_UUID for each characteristic, in the order of the table and with its handles and properties, and the event
  without data that marks the end, or the error Attribute Not Found for an empty table. The device is idle again and the record
  of the discovery is released.\<close>

theorem discovery_reports_table:
  assumes s: "session m c fd f w" and t: "conforming decl_handle 0xfffe (char_fits m) pick table" and io: "writable G fd" and N: "2 \<le> N"
    and policy: "\<forall>ev \<in> set (char_discovery f table). makes_no_call policy ev"
  shows "\<exists>w1 w2. run_sys N B G policy (Op OpDiscoverChar) w = Some w1 \<and>
    serve (length (batches pick table) + 1) N B G policy c (table_server decl_handle char_reply pick table) w1 = Some w2 \<and>
    l_events (lst w2) = l_events (lst w) @ char_discovery f table \<and>
    w_wire w2 = w_wire w @ map (asked_at char_request G fd) (starts decl_handle (batches pick table)) \<and> session m c fd f w2 \<and>
    ts_heap (gs_user (w_user w2)) = (ts_heap (gs_user (w_user w)))(ts_next (gs_user (w_user w)) := None)"
proof -
  obtain K where K: "N = Suc (Suc K)" using N by (metis Suc_le_D numeral_2_eq_2 Suc_le_mono)
  obtain r n i w1 where w1: "lble_discover_char (system N B G policy) (Some ()) w = Some w1" "0 < r" "2 \<le> n" "w_wire w1 = w_wire w"
    "request_out m r c fd False (char_request 1) char_discovered_fn (ts_next (gs_user (w_user w))) discover_char_unref_fn
      (progress (ts_next (gs_user (w_user w))) (char_record (char_progress i 1 []) 1) n (ts_heap (gs_user (w_user w))) (lst w)) w1"
    using chars_start [OF s, of "system N B G policy"] by blast
  show ?thesis using chars.complete [OF s t io policy w1(2-5), of K B] w1(1) unfolding K by auto
qed

text \<open>A server with three characteristics, the second with a UUID of 128 bits, that sends one or two declarations at a time.\<close>

definition demo_table :: "char_decl list" where
  "demo_table = [\<lparr>decl_handle = 2, decl_properties = 2, decl_value = 3, decl_uuid = [0x00, 0x2a]\<rparr>,
     \<lparr>decl_handle = 4, decl_properties = 2, decl_value = 5, decl_uuid = [0x01, 0x2a]\<rparr>,
     \<lparr>decl_handle = 0x10, decl_properties = 0x12, decl_value = 0x11, decl_uuid = replicate 16 7\<rparr>]"

definition demo_pick :: "char_decl list \<Rightarrow> nat" where
  "demo_pick l = (if length l = 3 then 2 else 1)"

theorem discovery_reports_table_witness:
  "\<exists>w w1 w2. run_sys 2 demo_io demo_env no_calls (Connected 3 None) demo_connecting = Some w \<and>
    run_sys 2 demo_io demo_env no_calls (Op OpDiscoverChar) w = Some w1 \<and>
    serve 3 2 demo_io demo_env no_calls 1 (table_server decl_handle char_reply demo_pick demo_table) w1 = Some w2 \<and>
    l_events (lst w2) = l_events (lst w) @ map (char_event 7) demo_table @ [end_event 7] \<and>
    w_wire w2 = w_wire w @ map (asked_at char_request demo_env 3) [1, 5, 0x11]"
proof -
  obtain w where w: "run_sys 2 demo_io demo_env no_calls (Connected 3 None) demo_connecting = Some w" "session 23 1 3 7 w"
    using demo_session by blast
  have b: "batches demo_pick demo_table = [take 2 demo_table, drop 2 demo_table]"
    by (simp add: demo_table_def demo_pick_def Let_def)
  have st: "starts decl_handle (batches demo_pick demo_table) = [1, 5, 0x11]" "length (batches demo_pick demo_table) + 1 = 3"
    unfolding b by (simp_all add: starts_def demo_table_def)
  have t: "conforming decl_handle 0xfffe (char_fits 23) demo_pick demo_table" by code_simp
  have io: "writable demo_env 3" by simp
  have p: "\<forall>ev \<in> set (char_discovery 7 demo_table). makes_no_call no_calls ev" by simp
  have e: "char_discovery 7 demo_table = map (char_event 7) demo_table @ [end_event 7]" by (simp add: char_discovery_def demo_table_def)
  show ?thesis
    using discovery_reports_table [OF w(2) t io order_refl p, of demo_io] w(1) unfolding st e by blast
qed

text \<open>C5. The same for \<open>lble_discover_hand\<close> and the table of all attributes: the application gets one event EVENT_UUID for each
  attribute, in order and with its handle and 16-bit UUID, and the event that marks the end. The table may have an attribute at
  any handle but 0xffff, at which the next request would start from 0.\<close>

theorem discovery_reports_attributes:
  assumes s: "session m c fd f w" and t: "conforming at_handle 0xffff (desc_fits m) pick table" and io: "writable G fd" and N: "2 \<le> N"
    and policy: "\<forall>ev \<in> set (desc_discovery f table). makes_no_call policy ev"
  shows "\<exists>w1 w2. run_sys N B G policy (Op OpDiscoverHand) w = Some w1 \<and>
    serve (length (batches pick table) + 1) N B G policy c (table_server at_handle desc_reply pick table) w1 = Some w2 \<and>
    l_events (lst w2) = l_events (lst w) @ desc_discovery f table \<and>
    w_wire w2 = w_wire w @ map (asked_at desc_request G fd) (starts at_handle (batches pick table)) \<and> session m c fd f w2 \<and>
    ts_heap (gs_user (w_user w2)) = (ts_heap (gs_user (w_user w)))(ts_next (gs_user (w_user w)) := None)"
proof -
  obtain K where K: "N = Suc (Suc K)" using N by (metis Suc_le_D numeral_2_eq_2 Suc_le_mono)
  obtain r n i w1 where w1: "lble_discover_hand (system N B G policy) (Some ()) w = Some w1" "0 < r" "2 \<le> n" "w_wire w1 = w_wire w"
    "request_out m r c fd False (desc_request 1) desc_discovered_fn (ts_next (gs_user (w_user w))) discover_desc_unref_fn
      (progress (ts_next (gs_user (w_user w))) (desc_record (desc_progress i 1 []) 1) n (ts_heap (gs_user (w_user w))) (lst w)) w1"
    using descs_start [OF s, of "system N B G policy"] by blast
  show ?thesis using descs.complete [OF s t io policy w1(2-5), of K B] w1(1) unfolding K by auto
qed

text \<open>A server with four attributes, the last with a UUID of 128 bits, that sends at most two at a time.\<close>

definition demo_handles :: "attr_decl list" where
  "demo_handles = [\<lparr>at_handle = 1, at_uuid = [0x00, 0x28]\<rparr>, \<lparr>at_handle = 2, at_uuid = [0x03, 0x28]\<rparr>,
     \<lparr>at_handle = 3, at_uuid = [0x00, 0x2a]\<rparr>, \<lparr>at_handle = 0x20, at_uuid = replicate 16 7\<rparr>]"

definition demo_two :: "attr_decl list \<Rightarrow> nat" where
  "demo_two l = (if length l = 4 then 2 else 1)"

theorem discovery_reports_attributes_witness:
  "\<exists>w w1 w2. run_sys 2 demo_io demo_env no_calls (Connected 3 None) demo_connecting = Some w \<and>
    run_sys 2 demo_io demo_env no_calls (Op OpDiscoverHand) w = Some w1 \<and>
    serve 4 2 demo_io demo_env no_calls 1 (table_server at_handle desc_reply demo_two demo_handles) w1 = Some w2 \<and>
    l_events (lst w2) = l_events (lst w) @ map (attr_event 7) demo_handles @ [end_event 7] \<and>
    w_wire w2 = w_wire w @ map (asked_at desc_request demo_env 3) [1, 3, 4, 0x21]"
proof -
  obtain w where w: "run_sys 2 demo_io demo_env no_calls (Connected 3 None) demo_connecting = Some w" "session 23 1 3 7 w"
    using demo_session by blast
  have b: "batches demo_two demo_handles = [take 2 demo_handles, [demo_handles ! 2], [demo_handles ! 3]]"
    by (simp add: demo_handles_def demo_two_def Let_def)
  have st: "starts at_handle (batches demo_two demo_handles) = [1, 3, 4, 0x21]" "length (batches demo_two demo_handles) + 1 = 4"
    unfolding b by (simp_all add: starts_def demo_handles_def)
  have t: "conforming at_handle 0xffff (desc_fits 23) demo_two demo_handles" by code_simp
  have io: "writable demo_env 3" by simp
  have p: "\<forall>ev \<in> set (desc_discovery 7 demo_handles). makes_no_call no_calls ev" by simp
  have e: "desc_discovery 7 demo_handles = map (attr_event 7) demo_handles @ [end_event 7]" by (simp add: desc_discovery_def demo_handles_def)
  show ?thesis
    using discovery_reports_attributes [OF w(2) t io order_refl p, of demo_io] w(1) unfolding st e by blast
qed

end
