(* ===== verification/Vecs.thy ===== *)
theory Vecs
  imports Complex_Main LibBle
begin

text \<open>
  \<^verbatim>\<open>src/src/vecs.c\<close> and the programs \<^verbatim>\<open>motion.c\<close> and \<^verbatim>\<open>info.c\<close> on top of it: the application that drives the library. The
  global variables are a record; what the handler calls of the library is the list of its calls, in order, and it is run by the
  library's model through a policy. The two functions that a program gives to \<open>vecs_connect\<close> are a parameter. Output on the
  terminal is left out, except for what \<open>notify\<close> reports, which is its result.
\<close>

section \<open>Profiles\<close>

definition VECS_UUID_CHARGER_ADC :: u16 where "VECS_UUID_CHARGER_ADC = 0xffd1"
definition VECS_UUID_CHARGER_OFF :: u16 where "VECS_UUID_CHARGER_OFF = 0xffd2"
definition VECS_UUID_CHARGER_LOW :: u16 where "VECS_UUID_CHARGER_LOW = 0xffd3"
definition VECS_UUID_KEY_PRESS :: u16 where "VECS_UUID_KEY_PRESS = 0xffe1"
definition VECS_UUID_KEY_BEEP :: u16 where "VECS_UUID_KEY_BEEP = 0xffe2"
definition VECS_UUID_MOTION_ACCEL :: u16 where "VECS_UUID_MOTION_ACCEL = 0xfff1"
definition VECS_UUID_MOTION_GYRO :: u16 where "VECS_UUID_MOTION_GYRO = 0xfff2"
definition VECS_UUID_MOTION_RATE :: u16 where "VECS_UUID_MOTION_RATE = 0xfff3"
definition VECS_UUID_MOTION_NOTI :: u16 where "VECS_UUID_MOTION_NOTI = 0xfff4"
definition VECS_UUID_MOTION_TEMP :: u16 where "VECS_UUID_MOTION_TEMP = 0xfff5"

definition new_profile :: "u16 \<Rightarrow> char_info" where
  "new_profile uuid = \<lparr>ci_uuid = uuid, ci_properties = 0, ci_handle = 0, ci_value_handle = 0\<rparr>"

definition profiles :: "char_info list" where
  "profiles = map new_profile [VECS_UUID_CHARGER_ADC, VECS_UUID_CHARGER_OFF, VECS_UUID_CHARGER_LOW, VECS_UUID_KEY_PRESS,
     VECS_UUID_KEY_BEEP, VECS_UUID_MOTION_ACCEL, VECS_UUID_MOTION_GYRO, VECS_UUID_MOTION_RATE, VECS_UUID_MOTION_NOTI,
     VECS_UUID_MOTION_TEMP]"

text \<open>The global variables; \<open>client\<close> are those of the program. \<open>event_loop\<close> says whether the pointer is not NULL.\<close>

record 's vecs =
  v_profiles :: "char_info list"
  v_discover :: u8
  event_loop :: bool
  v_client :: 's

definition vecs_initial :: "'s \<Rightarrow> 's vecs" where
  "vecs_initial x = \<lparr>v_profiles = profiles, v_discover = 2, event_loop = False, v_client = x\<rparr>"

definition profile :: "'s vecs \<Rightarrow> u16 \<Rightarrow> u16" where
  "profile s handle = (case find (\<lambda>p. ci_value_handle p = handle) (v_profiles s) of Some p \<Rightarrow> ci_uuid p | None \<Rightarrow> 0)"

definition handle :: "'s vecs \<Rightarrow> u16 \<Rightarrow> u16" where
  "handle s uuid = (case find (\<lambda>p. ci_uuid p = uuid) (v_profiles s) of Some p \<Rightarrow> ci_value_handle p | None \<Rightarrow> 0)"

definition vecs_handle_notify :: "'s vecs \<Rightarrow> u16 \<Rightarrow> u16" where
  "vecs_handle_notify s uuid = (let h = handle s uuid in if h \<noteq> 0 then h + 1 else h)"

section \<open>Calls of the library\<close>

definition vecs_notify :: "'s vecs \<Rightarrow> u16 \<Rightarrow> u8 \<Rightarrow> lble_op" where
  "vecs_notify s uuid enable = OpWrite (vecs_handle_notify s uuid) 2 (Some (if enable \<noteq> 0 then [1, 0] else [0, 0]))"

definition vecs_request :: "'s vecs \<Rightarrow> u16 \<Rightarrow> lble_op" where
  "vecs_request s uuid = OpRequest (handle s uuid)"

definition vecs_write :: "'s vecs \<Rightarrow> u16 \<Rightarrow> u8 \<Rightarrow> buf option \<Rightarrow> lble_op" where
  "vecs_write s uuid len data = OpWrite (handle s uuid) len data"

section \<open>The handler of events\<close>

text \<open>What a program does when the device is ready, and with a value; \<open>None\<close> is an access outside of the value.\<close>

record 's vecs_client =
  m_connected :: "'s vecs \<Rightarrow> 's vecs \<times> lble_op list"
  m_notify :: "u16 \<Rightarrow> u8 \<Rightarrow> event_data \<Rightarrow> 's vecs \<Rightarrow> ('s vecs \<times> lble_op list) option"

definition quit :: "'s vecs \<Rightarrow> 's vecs" where
  "quit s = (if event_loop s then s\<lparr>event_loop := False\<rparr> else s)"

text \<open>The loops over the profiles: the first one that fits is changed.\<close>

fun change_first :: "('a \<Rightarrow> bool) \<Rightarrow> ('a \<Rightarrow> 'a) \<Rightarrow> 'a list \<Rightarrow> 'a list" where
  "change_first P f [] = []"
| "change_first P f (x # xs) = (if P x then f x # xs else x # change_first P f xs)"

definition learn :: "u16 \<Rightarrow> char_info \<Rightarrow> char_info list \<Rightarrow> char_info list" where
  "learn value_handle info ps =
     (if ci_uuid info \<noteq> 0 then change_first (\<lambda>p. ci_uuid p = ci_uuid info) (\<lambda>p. p\<lparr>ci_value_handle := value_handle\<rparr>) ps
      else change_first (\<lambda>p. ci_value_handle p = ci_value_handle info)
        (\<lambda>p. p\<lparr>ci_properties := ci_properties info, ci_handle := ci_handle info\<rparr>) ps)"

fun notify_handler :: "'s vecs_client \<Rightarrow> ble_event \<Rightarrow> 's vecs \<Rightarrow> ('s vecs \<times> lble_op list) option" where
  "notify_handler C (BleEvent f EVENT_INTERNAL value_handle len data) s =
     (if value_handle = STATE_CHANGED then (case data of
          StateData STATE_CONNECTED \<Rightarrow> Some (s, [OpListen, OpDiscoverHand])
        | StateData STATE_DISCONNECTED \<Rightarrow> Some (quit s, [])
        | StateData STATE_CONNECTING \<Rightarrow> Some (s, [])
        | _ \<Rightarrow> None)
      else if value_handle = ERROR_OCCURED then Some (quit s, [])
      else Some (s, []))"
| "notify_handler C (BleEvent f EVENT_DEVICE value_handle len data) s = m_notify C (profile s value_handle) len data s"
| "notify_handler C (BleEvent f EVENT_UUID value_handle len data) s = (case data of
     CharInfo info \<Rightarrow> Some (s\<lparr>v_profiles := learn value_handle info (v_profiles s)\<rparr>, [])
   | NoData \<Rightarrow>
       if v_discover s \<noteq> 0 then (let s = s\<lparr>v_discover := v_discover s - 1\<rparr> in
         if v_discover s \<noteq> 0 then Some (s, [OpDiscoverChar])
         else Some (m_connected C s))
       else Some (s, [])
   | _ \<Rightarrow> None)"

text \<open>A sequence of events, with the calls that it leads to.\<close>

fun handle_all :: "'s vecs_client \<Rightarrow> ble_event list \<Rightarrow> 's vecs \<Rightarrow> ('s vecs \<times> lble_op list) option" where
  "handle_all C [] s = Some (s, [])"
| "handle_all C (ev # evs) s = do {
     (s, ops) \<leftarrow> notify_handler C ev s;
     (s, ops') \<leftarrow> handle_all C evs s;
     Some (s, ops @ ops') }"

section \<open>The program\<close>

text \<open>
  The policy of the handler when the application was in the state \<open>s\<close> after the first \<open>k\<close> events of the log: the calls for
  the event that has just been logged.
\<close>

definition vecs_policy :: "'s vecs_client \<Rightarrow> 's vecs \<Rightarrow> nat \<Rightarrow> ble_event \<Rightarrow> lworld \<Rightarrow> lble_op list" where
  "vecs_policy C s k ev w = (case handle_all C (drop k (butlast (l_events (lst w)))) s of
     None \<Rightarrow> []
   | Some (s, _) \<Rightarrow> (case notify_handler C ev s of None \<Rightarrow> [] | Some (_, ops) \<Rightarrow> ops))"

definition vecs_step ::
  "nat \<Rightarrow> ble_io \<Rightarrow> lenv \<Rightarrow> 's vecs_client \<Rightarrow> sys_event \<Rightarrow> 's vecs \<Rightarrow> lworld \<Rightarrow> ('s vecs \<times> lworld) option" where
  "vecs_step N B G C e s w = (let k = length (l_events (lst w)) in do {
     w \<leftarrow> run_sys N B G (vecs_policy C s k) e w;
     (s, _) \<leftarrow> handle_all C (drop k (l_events (lst w))) s;
     Some (s, w) })"

fun vecs_steps ::
  "nat \<Rightarrow> ble_io \<Rightarrow> lenv \<Rightarrow> 's vecs_client \<Rightarrow> sys_event list \<Rightarrow> 's vecs \<Rightarrow> lworld \<Rightarrow> ('s vecs \<times> lworld) option" where
  "vecs_steps N B G C [] s w = Some (s, w)"
| "vecs_steps N B G C (e # es) s w = do { (s, w) \<leftarrow> vecs_step N B G C e s w; vecs_steps N B G C es s w }"

text \<open>The main loop, with what the system delivers to it: it ends when \<open>quit\<close> has been called.\<close>

datatype loop_event = LoopSys sys_event | Interrupt

definition sigint :: "'s vecs \<Rightarrow> 's vecs" where
  "sigint s = quit s"

fun main_loop ::
  "nat \<Rightarrow> ble_io \<Rightarrow> lenv \<Rightarrow> 's vecs_client \<Rightarrow> loop_event list \<Rightarrow> 's vecs \<Rightarrow> lworld \<Rightarrow> ('s vecs \<times> lworld) option" where
  "main_loop N B G C [] s w = Some (s, w)"
| "main_loop N B G C (e # es) s w =
     (if event_loop s then (case e of
          LoopSys e \<Rightarrow> do { (s, w) \<leftarrow> vecs_step N B G C e s w; main_loop N B G C es s w }
        | Interrupt \<Rightarrow> main_loop N B G C es (sigint s) w)
      else Some (s, w))"

definition notify_handler_fn :: func where "notify_handler_fn = 1"

text \<open>Up to the start of the main loop; and the whole, in which the program is still in its loop when all events have been
  delivered and \<open>quit\<close> has not been called.\<close>

definition vecs_connect_start ::
  "nat \<Rightarrow> ble_io \<Rightarrow> lenv \<Rightarrow> 's vecs_client \<Rightarrow> string \<Rightarrow> 's vecs \<Rightarrow> lworld \<Rightarrow> ('s vecs \<times> lworld) option" where
  "vecs_connect_start N B G C addr s w = do {
     let (_, w) = lble_newdev w;
     (s, w) \<leftarrow> vecs_steps N B G C [Op (OpSetHandler (Some notify_handler_fn)), Op (OpConnect addr)] s w;
     Some (s\<lparr>event_loop := True\<rparr>, w) }"

definition vecs_connect ::
  "nat \<Rightarrow> ble_io \<Rightarrow> lenv \<Rightarrow> 's vecs_client \<Rightarrow> string \<Rightarrow> loop_event list \<Rightarrow> 's vecs \<Rightarrow> lworld \<Rightarrow> ('s vecs \<times> lworld) option" where
  "vecs_connect N B G C addr es s w = do {
     (s, w) \<leftarrow> vecs_connect_start N B G C addr s w;
     (s, w) \<leftarrow> main_loop N B G C es s w;
     if event_loop s then Some (s, w)
     else vecs_steps N B G C [Op OpDisconnect, Op OpFree] s w }"

section \<open>Values\<close>

text \<open>What the two programs print of a value: raw temperature, battery level, motion data with the rate, key presses.\<close>

datatype report =
    Temperature "16 word"
  | Battery u16
  | Motion "16 word list" rat
  | Click u8
  | UnknownUuid u16

text \<open>The value: the bytes behind the pointer \<open>data\<close>.\<close>

definition value_bytes :: "event_data \<Rightarrow> u8 list option" where
  "value_bytes data = (case data of Bytes v \<Rightarrow> Some v | _ \<Rightarrow> None)"

definition be_signed :: "u8 list \<Rightarrow> nat \<Rightarrow> 16 word option" where
  "be_signed v i = do {
     hi \<leftarrow> rd8 v i;
     lo \<leftarrow> rd8 v (i + 1);
     Some (push_bit 8 (ucast hi) OR ucast lo) }"

subsection \<open>motion\<close>

definition max_pps :: u8 where "max_pps = 200"

text \<open>The time is in seconds and microseconds; \<open>double\<close> is modelled by the rational numbers.\<close>

record motion =
  pps :: u8
  accel :: u8
  gyro :: u8
  t_old :: "int \<times> int"
  m_counter :: u32
  speed :: rat
  reports :: "report list"

text \<open>The argument of the program after \<open>atoi\<close>, if there is one.\<close>

definition motion_initial :: "int option \<Rightarrow> motion" where
  "motion_initial arg = \<lparr>pps = (case arg of None \<Rightarrow> max_pps | Some a \<Rightarrow> (let p = word_of_int a in if p > max_pps then max_pps else p)),
     accel = 0, gyro = 0, t_old = (0, 0), m_counter = 0, speed = 0, reports = []\<rparr>"

text \<open>\<open>gettimeofday\<close> is an arbitrary function of the state, which every report changes.\<close>

type_synonym clock = "motion vecs \<Rightarrow> int \<times> int"

definition motion_connected :: "clock \<Rightarrow> motion vecs \<Rightarrow> motion vecs \<times> lble_op list" where
  "motion_connected now s = (let x = v_client s in
     (s\<lparr>v_client := x\<lparr>t_old := now s\<rparr>\<rparr>,
      [vecs_write s VECS_UUID_MOTION_RATE 1 (Some [pps x]),
       vecs_write s VECS_UUID_MOTION_ACCEL 1 (Some [accel x]),
       vecs_write s VECS_UUID_MOTION_GYRO 1 (Some [gyro x]),
       vecs_request s VECS_UUID_MOTION_TEMP,
       vecs_request s VECS_UUID_CHARGER_ADC,
       vecs_notify s VECS_UUID_MOTION_NOTI 1]))"

text \<open>The rate: packets since the last time that at least a second had passed.\<close>

definition motion_rate :: "int \<times> int \<Rightarrow> motion \<Rightarrow> motion" where
  "motion_rate now x = (let
     x = x\<lparr>m_counter := m_counter x + 1\<rparr>;
     dtime = of_int (fst now - fst (t_old x)) + of_int (snd now - snd (t_old x)) / 1000000 in
     if dtime \<ge> 1 then x\<lparr>speed := of_nat (unat (m_counter x)) / dtime + 1 / 2, m_counter := 0, t_old := now\<rparr> else x)"

fun motion_words :: "u8 list \<Rightarrow> nat \<Rightarrow> nat \<Rightarrow> 16 word list option" where
  "motion_words v i 0 = Some []"
| "motion_words v i (Suc n) = do { x \<leftarrow> be_signed v (2 * i); xs \<leftarrow> motion_words v (i + 1) n; Some (x # xs) }"

definition motion_report :: "report \<Rightarrow> motion vecs \<Rightarrow> motion vecs \<times> lble_op list" where
  "motion_report r s = (s\<lparr>v_client := (v_client s)\<lparr>reports := reports (v_client s) @ [r]\<rparr>\<rparr>, [])"

definition motion_notify :: "clock \<Rightarrow> u16 \<Rightarrow> u8 \<Rightarrow> event_data \<Rightarrow> motion vecs \<Rightarrow> (motion vecs \<times> lble_op list) option" where
  "motion_notify now uuid len data s =
     (if uuid = VECS_UUID_MOTION_TEMP then do {
        v \<leftarrow> value_bytes data; raw_temp \<leftarrow> be_signed v 0; Some (motion_report (Temperature raw_temp) s) }
      else if uuid = VECS_UUID_CHARGER_ADC then do {
        v \<leftarrow> value_bytes data; bat_level \<leftarrow> rd8 v 0; Some (motion_report (Battery (ucast bat_level)) s) }
      else if uuid = VECS_UUID_MOTION_NOTI then do {
        let x = motion_rate (now s) (v_client s);
        v \<leftarrow> value_bytes data;
        mpu_data \<leftarrow> motion_words v 0 7;
        Some (motion_report (Motion mpu_data (speed x)) (s\<lparr>v_client := x\<rparr>)) }
      else Some (s, []))"

definition motion_client :: "clock \<Rightarrow> motion vecs_client" where
  "motion_client now = \<lparr>m_connected = motion_connected now, m_notify = motion_notify now\<rparr>"

subsection \<open>info\<close>

record info =
  delay :: u8
  info_reports :: "report list"

definition info_initial :: "int option \<Rightarrow> info" where
  "info_initial arg = \<lparr>delay = (case arg of None \<Rightarrow> 0 | Some a \<Rightarrow> word_of_int a), info_reports = []\<rparr>"

definition info_connected :: "info vecs \<Rightarrow> info vecs \<times> lble_op list" where
  "info_connected s = (s,
     [vecs_notify s VECS_UUID_KEY_PRESS 1] @
     (if delay (v_client s) \<noteq> 0 then [vecs_write s VECS_UUID_KEY_BEEP 1 (Some [delay (v_client s)])] else []) @
     [vecs_request s VECS_UUID_MOTION_TEMP, vecs_request s VECS_UUID_CHARGER_ADC])"

definition info_report :: "report \<Rightarrow> info vecs \<Rightarrow> info vecs \<times> lble_op list" where
  "info_report r s = (s\<lparr>v_client := (v_client s)\<lparr>info_reports := info_reports (v_client s) @ [r]\<rparr>\<rparr>, [])"

text \<open>The battery level is read as a \<open>uint16_t\<close>, here of a little-endian host. Other clicks than 1, 2 and 3 print nothing.\<close>

definition info_notify :: "u16 \<Rightarrow> u8 \<Rightarrow> event_data \<Rightarrow> info vecs \<Rightarrow> (info vecs \<times> lble_op list) option" where
  "info_notify uuid len data s =
     (if uuid = VECS_UUID_MOTION_TEMP then do {
        v \<leftarrow> value_bytes data; raw_temp \<leftarrow> be_signed v 0; Some (info_report (Temperature raw_temp) s) }
      else if uuid = VECS_UUID_CHARGER_ADC then do {
        v \<leftarrow> value_bytes data; bat_level \<leftarrow> get_le16 v 0; Some (info_report (Battery bat_level) s) }
      else if uuid = VECS_UUID_KEY_PRESS then do {
        v \<leftarrow> value_bytes data; click \<leftarrow> rd8 v 0;
        Some (if click \<in> {1, 2, 3} then info_report (Click click) s else (s, [])) }
      else Some (info_report (UnknownUuid uuid) s))"

definition info_client :: "info vecs_client" where
  "info_client = \<lparr>m_connected = info_connected, m_notify = info_notify\<rparr>"

end
