(* ===== verification/VecsSpec.thy ===== *)
theory VecsSpec
  imports Vecs LibDescs LibChars LibBleSpec
begin

text \<open>
  The application: what it has learned and calls after a discovery, the way of motion data from the socket to the report, what
  values it reads outside of, and the case in which it never ends.
\<close>

section \<open>Learning handles\<close>

lemma change_first_key:
  assumes "distinct xs" "\<And>x y. x \<in> set xs \<Longrightarrow> y \<in> set xs \<Longrightarrow> P x \<Longrightarrow> P y \<Longrightarrow> x = y"
  shows "change_first P f xs = map (\<lambda>x. if P x then f x else x) xs"
  using assms
proof (induction xs)
  case (Cons x xs)
  show ?case
  proof (cases "P x")
    case True
    then have "\<forall>y \<in> set xs. \<not> P y" using Cons.prems by (metis distinct.simps(2) list.set_intros)
    then have "map (\<lambda>x. if P x then f x else x) xs = xs" by (simp add: map_idI)
    then show ?thesis using True by simp
  next
    case False
    have "change_first P f xs = map (\<lambda>x. if P x then f x else x) xs"
      by (rule Cons.IH) (use Cons.prems in \<open>auto\<close>)
    then show ?thesis using False by simp
  qed
qed simp

lemma change_first_id: "(\<And>x. x \<in> set xs \<Longrightarrow> f x = x) \<Longrightarrow> change_first P f xs = xs"
  by (induction xs) auto

text \<open>The handles of the attributes with a UUID, 0 for none; the last one counts.\<close>

definition learned :: "attr_decl list \<Rightarrow> u16 \<Rightarrow> u16" where
  "learned attrs uuid = (let l = filter (\<lambda>a. short_uuid a = uuid) attrs in if l = [] then 0 else at_handle (last l))"

text \<open>The characteristic whose value is at a handle, and the profile that is known of it.\<close>

definition known_profile :: "attr_decl list \<Rightarrow> char_decl list \<Rightarrow> char_info \<Rightarrow> char_info" where
  "known_profile attrs decls p = (let h = learned attrs (ci_uuid p); l = filter (\<lambda>d. decl_value d = h) decls in
     if l = [] then p\<lparr>ci_value_handle := h\<rparr>
     else p\<lparr>ci_value_handle := h, ci_properties := decl_properties (last l), ci_handle := decl_handle (last l)\<rparr>)"

lemma profile_uuids: "distinct (map ci_uuid profiles)" "\<forall>p \<in> set profiles. ci_uuid p \<noteq> 0 \<and> p = new_profile (ci_uuid p)"
  by (simp_all add: profiles_def new_profile_def VECS_UUID_CHARGER_ADC_def VECS_UUID_CHARGER_OFF_def VECS_UUID_CHARGER_LOW_def
      VECS_UUID_KEY_PRESS_def VECS_UUID_KEY_BEEP_def VECS_UUID_MOTION_ACCEL_def VECS_UUID_MOTION_GYRO_def VECS_UUID_MOTION_RATE_def
      VECS_UUID_MOTION_NOTI_def VECS_UUID_MOTION_TEMP_def)

lemma learned_snoc: "learned (attrs @ [a]) u = (if short_uuid a = u then at_handle a else learned attrs u)"
  by (simp add: learned_def Let_def)

lemma handle_all_append:
  assumes "handle_all C xs s = Some (s1, o1)" "handle_all C ys s1 = Some (s2, o2)"
  shows "handle_all C (xs @ ys) s = Some (s2, o1 @ o2)"
  using assms(1)
proof (induction xs arbitrary: s o1)
  case (Cons x xs)
  obtain s' a b where x: "notify_handler C x s = Some (s', a)" "handle_all C xs s' = Some (s1, b)" "o1 = a @ b"
    using Cons.prems by (auto simp: bind_eq_Some_conv)
  then show ?case using Cons.IH [OF x(2)] by simp
qed (use assms(2) in simp)

lemma known_uuid [simp]: "ci_uuid (known_profile attrs decls p) = ci_uuid p"
  by (simp add: known_profile_def Let_def)

lemma known_value: "ci_value_handle (known_profile attrs decls p) = learned attrs (ci_uuid p)"
  by (simp add: known_profile_def Let_def)

lemma known_distinct: "distinct (map (known_profile attrs decls) profiles)"
proof -
  have "map ci_uuid (map (known_profile attrs decls) profiles) = map ci_uuid profiles" by simp
  then show ?thesis using profile_uuids(1) by (metis distinct_map)
qed

lemma same_profile: "p \<in> set profiles \<Longrightarrow> q \<in> set profiles \<Longrightarrow> ci_uuid p = ci_uuid q \<Longrightarrow> p = q"
  using profile_uuids(1) by (simp add: distinct_map inj_on_def)

lemma attrs_learned:
  assumes "v_profiles s = profiles"
  shows "handle_all C (map (attr_event f) attrs) s = Some (s\<lparr>v_profiles := map (known_profile attrs []) profiles\<rparr>, [])"
proof (induction attrs rule: rev_induct)
  case Nil
  have "map (known_profile [] []) profiles = profiles"
    by (simp add: profiles_def known_profile_def learned_def new_profile_def)
  then show ?case using assms by simp
next
  case (snoc a attrs)
  let ?ps = "map (known_profile attrs []) profiles"
  let ?info = "\<lparr>ci_uuid = short_uuid a, ci_properties = 0, ci_handle = 0, ci_value_handle = at_handle a\<rparr>"
  have "learn (at_handle a) ?info ?ps = map (known_profile (attrs @ [a]) []) profiles"
  proof (cases "short_uuid a = 0")
    case True
    have same: "p\<lparr>ci_properties := 0, ci_handle := 0\<rparr> = p" if pin: "p \<in> set ?ps" for p
    proof -
      obtain q where q: "q \<in> set profiles" "p = known_profile attrs [] q" using pin by auto
      then obtain u where "q = new_profile u" using profile_uuids(2) by blast
      then show ?thesis using q(2) by (simp add: known_profile_def new_profile_def)
    qed
    have "change_first P (\<lambda>p. p\<lparr>ci_properties := 0, ci_handle := 0\<rparr>) ?ps = ?ps" for P by (rule change_first_id) (rule same)
    then have "learn (at_handle a) ?info ?ps = ?ps" using True by (simp add: learn_def)
    moreover have "known_profile (attrs @ [a]) [] p = known_profile attrs [] p" if "p \<in> set profiles" for p
      using that profile_uuids(2) True by (simp add: known_profile_def learned_snoc)
    ultimately show ?thesis by simp
  next
    case False
    have "change_first (\<lambda>p. ci_uuid p = short_uuid a) (\<lambda>p. p\<lparr>ci_value_handle := at_handle a\<rparr>) ?ps =
        map (\<lambda>p. if ci_uuid p = short_uuid a then p\<lparr>ci_value_handle := at_handle a\<rparr> else p) ?ps"
      by (intro change_first_key [OF known_distinct]) (auto intro!: arg_cong [where f = "known_profile attrs []"] same_profile)
    then have "learn (at_handle a) ?info ?ps =
        map (\<lambda>p. if ci_uuid p = short_uuid a then p\<lparr>ci_value_handle := at_handle a\<rparr> else p) ?ps"
      using False by (simp add: learn_def del: map_map)
    then show ?thesis by (auto simp: known_profile_def learned_snoc)
  qed
  then have "handle_all C (map (attr_event f) [a]) (s\<lparr>v_profiles := ?ps\<rparr>) = Some (s\<lparr>v_profiles := map (known_profile (attrs @ [a]) []) profiles\<rparr>, [])"
    by (simp add: attr_event_def)
  from handle_all_append [OF snoc this] show ?case by simp
qed

lemma learned_attr: "learned attrs u \<noteq> 0 \<Longrightarrow> \<exists>a \<in> set attrs. short_uuid a = u \<and> at_handle a = learned attrs u"
proof (induction attrs rule: rev_induct)
  case Nil
  then show ?case by (simp add: learned_def)
qed (auto simp: learned_snoc split: if_splits)

lemma decls_learned:
  assumes "distinct (map at_handle attrs)" "\<forall>d \<in> set decls. decl_value d \<noteq> 0"
    and "v_profiles s = map (known_profile attrs []) profiles"
  shows "handle_all C (map (char_event f) decls) s = Some (s\<lparr>v_profiles := map (known_profile attrs decls) profiles\<rparr>, [])"
  using assms(2)
proof (induction decls rule: rev_induct)
  case Nil
  then show ?case using assms(3) by simp
next
  case (snoc d decls)
  let ?ps = "map (known_profile attrs decls) profiles"
  let ?info = "\<lparr>ci_uuid = 0, ci_properties = decl_properties d, ci_handle = decl_handle d, ci_value_handle = decl_value d\<rparr>"
  have "p = q" if m: "p \<in> set profiles" "q \<in> set profiles" "learned attrs (ci_uuid p) = decl_value d" "learned attrs (ci_uuid q) = decl_value d"
    for p q
  proof -
    have "decl_value d \<noteq> 0" using snoc.prems by simp
    then obtain x y where "x \<in> set attrs" "short_uuid x = ci_uuid p" "at_handle x = decl_value d"
      "y \<in> set attrs" "short_uuid y = ci_uuid q" "at_handle y = decl_value d"
      using learned_attr [of attrs "ci_uuid p"] learned_attr [of attrs "ci_uuid q"] m(3,4) by auto
    then have "ci_uuid p = ci_uuid q" using assms(1) by (metis distinct_map inj_onD)
    then show ?thesis using same_profile m(1,2) by blast
  qed
  then have "change_first (\<lambda>p. ci_value_handle p = decl_value d) (\<lambda>p. p\<lparr>ci_properties := decl_properties d, ci_handle := decl_handle d\<rparr>) ?ps =
      map (\<lambda>p. if ci_value_handle p = decl_value d then p\<lparr>ci_properties := decl_properties d, ci_handle := decl_handle d\<rparr> else p) ?ps"
    by (intro change_first_key [OF known_distinct])
      (auto simp: known_value intro!: arg_cong [where f = "known_profile attrs decls"])
  then have "learn (decl_handle d) ?info ?ps =
      map (\<lambda>p. if ci_value_handle p = decl_value d then p\<lparr>ci_properties := decl_properties d, ci_handle := decl_handle d\<rparr> else p) ?ps"
    by (simp add: learn_def del: map_map)
  also have "\<dots> = map (known_profile attrs (decls @ [d])) profiles"
    by (auto simp: known_profile_def Let_def)
  finally have "handle_all C (map (char_event f) [d]) (s\<lparr>v_profiles := ?ps\<rparr>) =
      Some (s\<lparr>v_profiles := map (known_profile attrs (decls @ [d])) profiles\<rparr>, [])"
    by (simp add: char_event_def)
  from handle_all_append [OF snoc.IH this] snoc.prems show ?case by simp
qed

section \<open>Properties\<close>

text \<open>C6. The application, from the event that the connection is up to the end of the two discoveries, for every table of attributes
  and every table of characteristics that is not empty: it makes exactly the calls to listen and to discover the attributes, to
  discover the characteristics when the first discovery has ended, and those of the program's \<open>connected\<close> function, once,
  when the second has ended; at that time each profile has the handle of the last attribute with its UUID (0 for
  none) and the properties and declaration handle of the characteristic whose value is at that handle.\<close>

theorem application_ready_after_discovery:
  assumes "attrs \<noteq> []" "decls \<noteq> []" "distinct (map at_handle attrs)" "\<forall>d \<in> set decls. decl_value d \<noteq> 0"
  shows "handle_all C ([BleEvent f EVENT_INTERNAL STATE_CHANGED 1 (StateData STATE_CONNECTED)] @ desc_discovery f attrs @ char_discovery f decls)
      (vecs_initial x) =
    (let (s, ops) = m_connected C \<lparr>v_profiles = map (known_profile attrs decls) profiles, v_discover = 0, event_loop = False, v_client = x\<rparr>
     in Some (s, [OpListen, OpDiscoverHand, OpDiscoverChar] @ ops))"
proof -
  let ?s = "\<lambda>ps n. \<lparr>v_profiles = ps, v_discover = n, event_loop = False, v_client = x\<rparr>"
  have up: "handle_all C [BleEvent f EVENT_INTERNAL STATE_CHANGED 1 (StateData STATE_CONNECTED)] (vecs_initial x) =
      Some (?s profiles 2, [OpListen, OpDiscoverHand])" by (simp add: vecs_initial_def)
  have "handle_all C (map (attr_event f) attrs) (?s profiles 2) = Some (?s (map (known_profile attrs []) profiles) 2, [])"
    using attrs_learned [of "?s profiles 2" C f attrs] by simp
  moreover have "handle_all C [end_event f] (?s (map (known_profile attrs []) profiles) 2) =
      Some (?s (map (known_profile attrs []) profiles) 1, [OpDiscoverChar])" by (simp add: end_event_def Let_def)
  ultimately have d: "handle_all C (desc_discovery f attrs) (?s profiles 2) = Some (?s (map (known_profile attrs []) profiles) 1, [OpDiscoverChar])"
    using handle_all_append assms(1) by (fastforce simp: desc_discovery_def)
  have "handle_all C (map (char_event f) decls) (?s (map (known_profile attrs []) profiles) 1) =
      Some (?s (map (known_profile attrs decls) profiles) 1, [])"
    using decls_learned [OF assms(3,4), of "?s (map (known_profile attrs []) profiles) 1" C f] by simp
  moreover obtain s ops where c: "m_connected C (?s (map (known_profile attrs decls) profiles) 0) = (s, ops)" by fastforce
  then have "handle_all C [end_event f] (?s (map (known_profile attrs decls) profiles) 1) = Some (s, ops)"
    by (simp add: end_event_def Let_def)
  ultimately have "handle_all C (char_discovery f decls) (?s (map (known_profile attrs []) profiles) 1) = Some (s, ops)"
    using handle_all_append assms(2) by (fastforce simp: char_discovery_def)
  from handle_all_append [OF up handle_all_append [OF d this]] show ?thesis using c by simp
qed

text \<open>A device with the rate and the data of the motion sensor.\<close>

definition demo_attrs :: "attr_decl list" where
  "demo_attrs = [\<lparr>at_handle = 1, at_uuid = [0x00, 0x28]\<rparr>, \<lparr>at_handle = 2, at_uuid = [0x03, 0x28]\<rparr>, \<lparr>at_handle = 3, at_uuid = [0xf3, 0xff]\<rparr>,
     \<lparr>at_handle = 4, at_uuid = [0x03, 0x28]\<rparr>, \<lparr>at_handle = 5, at_uuid = [0xf4, 0xff]\<rparr>, \<lparr>at_handle = 6, at_uuid = [0x02, 0x29]\<rparr>]"

definition demo_decls :: "char_decl list" where
  "demo_decls = [\<lparr>decl_handle = 2, decl_properties = 10, decl_value = 3, decl_uuid = [0xf3, 0xff]\<rparr>,
     \<lparr>decl_handle = 4, decl_properties = 16, decl_value = 5, decl_uuid = [0xf4, 0xff]\<rparr>]"

definition demo_clock :: clock where
  "demo_clock s = (0, 0)"

definition motion_ready :: "motion vecs" where
  "motion_ready = \<lparr>v_profiles = map (known_profile demo_attrs demo_decls) profiles, v_discover = 0, event_loop = False,
     v_client = motion_initial (Some 50)\<rparr>"

theorem application_ready_after_discovery_witness:
  "map_option snd (handle_all (motion_client demo_clock) ([BleEvent 7 EVENT_INTERNAL STATE_CHANGED 1 (StateData STATE_CONNECTED)] @
      desc_discovery 7 demo_attrs @ char_discovery 7 demo_decls) (vecs_initial (motion_initial (Some 50)))) =
    Some [OpListen, OpDiscoverHand, OpDiscoverChar, OpWrite 3 1 (Some [50]), OpWrite 0 1 (Some [0]), OpWrite 0 1 (Some [0]),
      OpRequest 0, OpRequest 0, OpWrite 6 2 (Some [1, 0])]"
proof -
  have a: "demo_attrs \<noteq> []" "demo_decls \<noteq> []" "distinct (map at_handle demo_attrs)" "\<forall>d \<in> set demo_decls. decl_value d \<noteq> 0"
    by (simp_all add: demo_attrs_def demo_decls_def)
  have o: "snd (motion_connected demo_clock motion_ready) = [OpWrite 3 1 (Some [50]), OpWrite 0 1 (Some [0]), OpWrite 0 1 (Some [0]),
      OpRequest 0, OpRequest 0, OpWrite 6 2 (Some [1, 0])]"
    unfolding motion_ready_def by code_simp
  then show ?thesis using application_ready_after_discovery [OF a, of "motion_client demo_clock" 7 "motion_initial (Some 50)"]
    by (simp add: motion_client_def motion_ready_def split_beta)
qed

text \<open>The motion data: seven values, most significant byte first, and what a report has of them.\<close>

definition sample_bytes :: "16 word list \<Rightarrow> u8 list" where
  "sample_bytes xs = concat (map (\<lambda>x. rev (le2 x)) xs)"

definition motion_values :: "report \<Rightarrow> 16 word list" where
  "motion_values r = (case r of Motion xs _ \<Rightarrow> xs | _ \<Rightarrow> [])"

lemma be_signed_sample:
  assumes "length pre = k"
  shows "be_signed (pre @ rev (le2 x) @ post) k = Some (x :: 16 word)"
proof -
  have "push_bit 8 (ucast (ucast (drop_bit 8 x) :: u8)) OR ucast (ucast x :: u8) = x"
    by (rule bit_word_eqI) (auto simp: bit_simps)
  then show ?thesis using assms by (simp add: be_signed_def rd8_def nth_append le16_bytes)
qed

lemma length_samples [simp]: "length (sample_bytes xs) = 2 * length xs"
  by (simp add: sample_bytes_def length_concat comp_def sum_list_triv)

lemma motion_words_sample:
  assumes "length pre = 2 * k"
  shows "motion_words (pre @ sample_bytes xs) k (length xs) = Some xs"
  using assms
proof (induction xs arbitrary: pre k)
  case (Cons x xs)
  have "length (pre @ rev (le2 x)) = 2 * (k + 1)" using Cons.prems by simp
  from Cons.IH [OF this] be_signed_sample [OF Cons.prems, of x "sample_bytes xs"] show ?case by (simp add: sample_bytes_def)
qed simp

lemma rate_reports [simp]: "reports (motion_rate t x) = reports x"
  by (simp add: motion_rate_def Let_def)

lemma sample_reported:
  assumes "profile s h = VECS_UUID_MOTION_NOTI" "length xs = 7"
  shows "\<exists>x r. notify_handler (motion_client now) (BleEvent f EVENT_DEVICE h len (Bytes (sample_bytes xs))) s = Some (s\<lparr>v_client := x\<rparr>, []) \<and>
    reports x = reports (v_client s) @ [r] \<and> motion_values r = xs"
proof -
  let ?y = "motion_rate (now s) (v_client s)"
  have "motion_words (sample_bytes xs) 0 7 = Some xs" using assms(2) motion_words_sample [of "[]" 0 xs] by simp
  then have "notify_handler (motion_client now) (BleEvent f EVENT_DEVICE h len (Bytes (sample_bytes xs))) s =
      Some (s\<lparr>v_client := ?y\<lparr>reports := reports (v_client s) @ [Motion xs (speed ?y)]\<rparr>\<rparr>, [])"
    using assms(1) by (simp add: motion_client_def motion_notify_def value_bytes_def motion_report_def Let_def
      VECS_UUID_MOTION_NOTI_def VECS_UUID_MOTION_TEMP_def VECS_UUID_CHARGER_ADC_def)
  then show ?thesis by (auto simp: motion_values_def)
qed

lemma values_call_nothing: "makes_no_call (vecs_policy (motion_client now) s k) (value_event f h v)"
proof -
  have "motion_notify now u len x t = Some (t', ops) \<Longrightarrow> ops = []" for u len x t t' ops
    by (auto simp: motion_notify_def motion_report_def Let_def bind_eq_Some_conv split: if_splits)
  then show ?thesis
    by (auto simp: makes_no_call_def vecs_policy_def value_event_def motion_client_def split: option.split)
qed

lemma samples_reported:
  assumes "profile s h = VECS_UUID_MOTION_NOTI" "\<forall>xs \<in> set l. length xs = 7"
  shows "\<exists>x rs. handle_all (motion_client now) (map (\<lambda>xs. BleEvent f EVENT_DEVICE h 14 (Bytes (sample_bytes xs))) l) s =
      Some (s\<lparr>v_client := x\<rparr>, []) \<and> reports x = reports (v_client s) @ rs \<and> map motion_values rs = l"
  using assms
proof (induction l arbitrary: s)
  case (Cons xs l)
  obtain x r where x: "notify_handler (motion_client now) (BleEvent f EVENT_DEVICE h 14 (Bytes (sample_bytes xs))) s = Some (s\<lparr>v_client := x\<rparr>, [])"
    "reports x = reports (v_client s) @ [r]" "motion_values r = xs"
    using sample_reported [of s h xs now f 14] Cons.prems by auto
  have "profile (s\<lparr>v_client := x\<rparr>) h = VECS_UUID_MOTION_NOTI" using Cons.prems(1) by (simp add: profile_def)
  from Cons.IH [OF this] Cons.prems(2) obtain y rs where "handle_all (motion_client now) (map (\<lambda>xs. BleEvent f EVENT_DEVICE h 14 (Bytes (sample_bytes xs))) l) (s\<lparr>v_client := x\<rparr>) =
      Some (s\<lparr>v_client := y\<rparr>, [])" "reports y = reports x @ rs" "map motion_values rs = l" by auto
  then show ?case using x by (intro exI [of _ y] exI [of _ "r # rs"]) simp
next
  case Nil
  show ?case by (intro exI [of _ "v_client s"] exI [of _ "[]"]) simp
qed

text \<open>C7. Motion data, from the socket to the report: on a connected device whose notifications have the handle that the
  application knows as that of the motion data, every sequence of notifications of seven 16-bit values each, sent most
  significant byte first, is reported by \<^verbatim>\<open>motion.c\<close> as the same sequence of values, without a call of the library.\<close>

theorem motion_data_reported:
  assumes s: "session m c fd f w" and u: "unregistered w" and N: "2 \<le> N"
    and h: "profile a h = VECS_UUID_MOTION_NOTI" and l: "\<forall>xs \<in> set l. length xs = 7"
    and P: "P = vecs_policy (motion_client now) a (length (l_events (lst w)))"
  shows "\<exists>w1 w2 x rs. run_sys N B G P (Op OpListen) w = Some w1 \<and> receive N B G P c (map (\<lambda>xs. (h, sample_bytes xs)) l) w1 = Some w2 \<and>
    session m c fd f w2 \<and>
    handle_all (motion_client now) (drop (length (l_events (lst w))) (l_events (lst w2))) a = Some (a\<lparr>v_client := x\<rparr>, []) \<and>
    reports x = reports (v_client a) @ rs \<and> map motion_values rs = l"
proof -
  obtain K where K: "N = Suc (Suc K)" using N by (metis Suc_le_D numeral_2_eq_2 Suc_le_mono)
  obtain w1 where w1: "lble_listen (system N B G P) (Some ()) w = Some w1" "listening m c fd f w1" "lst w1 = lst w"
    using listen_session [OF s u] by blast
  let ?l = "map (\<lambda>xs. (h, sample_bytes xs)) l"
  have "23 \<le> unat m" using s by (auto simp: session_def word_le_nat_alt)
  then have v: "length v + 3 \<le> unat m \<and> makes_no_call P (value_event f h' v)" if "(h', v) \<in> set ?l" for h' v
    using that l by (auto simp: P values_call_nothing)
  obtain w2 where w2: "receive N B G P c ?l w1 = Some w2" "listening m c fd f w2"
    "l_events (lst w2) = l_events (lst w) @ map (\<lambda>(h, v). value_event f h v) ?l"
    using receive_all [where l = ?l and K = K and B = B and G = G, OF w1(2) v] w1(3) unfolding K by auto
  have ev: "drop (length (l_events (lst w))) (l_events (lst w2)) = map (\<lambda>xs. BleEvent f EVENT_DEVICE h 14 (Bytes (sample_bytes xs))) l"
    using l by (simp add: w2(3) value_event_def comp_def)
  have "session m c fd f w2" using w2(2) by (simp add: listening_def)
  moreover have "run_sys N B G P (Op OpListen) w = Some w1" using w1(1) by simp
  ultimately show ?thesis using samples_reported [OF h l, of now f, folded ev] w2(1) by blast
qed

theorem motion_data_reported_witness:
  "\<exists>w. run_sys 2 demo_io demo_env no_calls (Connected 3 None) demo_connecting = Some w \<and>
    (\<exists>w1 w2 x rs. run_sys 2 demo_io demo_env (vecs_policy (motion_client demo_clock) motion_ready (length (l_events (lst w)))) (Op OpListen) w = Some w1 \<and>
      receive 2 demo_io demo_env (vecs_policy (motion_client demo_clock) motion_ready (length (l_events (lst w)))) 1
        [(5, [0, 1, 0, 2, 0, 3, 0xff, 0xfe, 0, 5, 0, 6, 0, 7])] w1 = Some w2 \<and> session 23 1 3 7 w2 \<and>
      handle_all (motion_client demo_clock) (drop (length (l_events (lst w))) (l_events (lst w2))) motion_ready = Some (motion_ready\<lparr>v_client := x\<rparr>, []) \<and>
      reports x = rs \<and> map motion_values rs = [[1, 2, 3, 0xfffe, 5, 6, 7]])"
proof -
  obtain w where w: "run_sys 2 demo_io demo_env no_calls (Connected 3 None) demo_connecting = Some w" "session 23 1 3 7 w"
    using demo_session by blast
  have u: "unregistered w" using demo_unregistered w(1) by simp
  have h: "profile motion_ready 5 = VECS_UUID_MOTION_NOTI" unfolding motion_ready_def by code_simp
  have l: "\<forall>xs \<in> set [[1, 2, 3, 0xfffe, 5, 6, 7 :: 16 word]]. length xs = 7" by simp
  have b: "sample_bytes [1, 2, 3, 0xfffe, 5, 6, 7] = [0, 1, 0, 2, 0, 3, 0xff, 0xfe, 0, 5, 0, 6, 0, 7]" by code_simp
  have r: "reports (v_client motion_ready) = []" by (simp add: motion_ready_def motion_initial_def)
  note E = motion_data_reported [OF w(2) u order_refl h l refl, of demo_io demo_env demo_clock, unfolded list.map b r append_Nil]
  show ?thesis by (rule exI [of _ w], rule conjI, rule w(1), rule E)
qed

text \<open>C39. What the programs read of a value: they ignore its length, so \<^verbatim>\<open>motion.c\<close> stays inside exactly when a value has the 2, 1 or
  14 bytes of the temperature, the battery and the motion data, and \<^verbatim>\<open>info.c\<close> when the temperature and the battery have
  two bytes and a key press one. A battery level of one byte, which is what \<^verbatim>\<open>motion.c\<close> reads, is read outside by \<^verbatim>\<open>info.c\<close>.\<close>

theorem values_read_inside:
  "(motion_notify now uuid len (Bytes v) s \<noteq> None \<longleftrightarrow>
      (if uuid = VECS_UUID_MOTION_TEMP then 2 else if uuid = VECS_UUID_CHARGER_ADC then 1
       else if uuid = VECS_UUID_MOTION_NOTI then 14 else 0) \<le> length v) \<and>
   (info_notify uuid len (Bytes v) t \<noteq> None \<longleftrightarrow>
      (if uuid = VECS_UUID_MOTION_TEMP then 2 else if uuid = VECS_UUID_CHARGER_ADC then 2
       else if uuid = VECS_UUID_KEY_PRESS then 1 else 0) \<le> length v)"
proof -
  have b: "be_signed v i = None \<longleftrightarrow> length v < i + 2" for i
    by (auto simp: be_signed_def rd8_def)
  have w: "motion_words v k n = None \<longleftrightarrow> 0 < n \<and> length v < 2 * (k + n)" for k n
    by (induction n arbitrary: k) (auto simp: bind_eq_None_conv b)
  have r: "rd8 v 0 = None \<longleftrightarrow> length v < 1" "get_le16 v 0 = None \<longleftrightarrow> length v < 2"
    by (auto simp: rd8_def get_le16_None_iff)
  note u = VECS_UUID_MOTION_TEMP_def VECS_UUID_CHARGER_ADC_def VECS_UUID_MOTION_NOTI_def VECS_UUID_KEY_PRESS_def
  consider "uuid = VECS_UUID_MOTION_TEMP" | "uuid = VECS_UUID_CHARGER_ADC" | "uuid = VECS_UUID_MOTION_NOTI" | "uuid = VECS_UUID_KEY_PRESS"
    | "uuid \<notin> {VECS_UUID_MOTION_TEMP, VECS_UUID_CHARGER_ADC, VECS_UUID_MOTION_NOTI, VECS_UUID_KEY_PRESS}" by auto
  then show ?thesis
  proof cases
    case 1
    then show ?thesis using b [of 0] by (cases "be_signed v 0") (simp_all add: motion_notify_def info_notify_def value_bytes_def)
  next
    case 2
    then show ?thesis using r by (cases "rd8 v 0"; cases "get_le16 v 0") (auto simp: motion_notify_def info_notify_def value_bytes_def u Suc_le_eq)
  next
    case 3
    then show ?thesis using w [of 0 7] by (cases "motion_words v 0 7") (simp_all add: motion_notify_def info_notify_def value_bytes_def u Let_def)
  next
    case 4
    then show ?thesis using r by (cases "rd8 v 0") (auto simp: motion_notify_def info_notify_def value_bytes_def u Suc_le_eq)
  next
    case 5
    then show ?thesis by (simp add: motion_notify_def info_notify_def)
  qed
qed

text \<open>The rate that \<^verbatim>\<open>motion.c\<close> sets is at most 200 for every argument, and is the argument modulo 256 when that is at most 200:
  the argument is cut to 8 bits before it is compared, so a larger argument need not give 200.\<close>

theorem motion_rate_bounded:
  "uint (pps (motion_initial (Some a))) = min 200 (a mod 256) \<and> pps (motion_initial None) = 200"
  by (auto simp: motion_initial_def max_pps_def Let_def word_less_def word_le_def uint_word_of_int_eq take_bit_eq_mod min_def)

text \<open>C40. A connection that fails at once: \<open>lble_connect\<close> reports the error and that the device is disconnected, and returns,
  but \<open>vecs_connect\<close> creates its main loop only afterwards, so that \<open>quit\<close> has had no effect: the program enters the loop with
  a device that is disconnected and has no channel.\<close>

theorem failed_connect_waits:
  assumes "io_connect B addr = (Some msg, None)"
  shows "\<exists>s' w' d. vecs_connect_start N B G C addr (vecs_initial x) w = Some (s', w') \<and> event_loop s' \<and>
    l_events (lst w') = l_events (lst w) @ [BleEvent notify_handler_fn EVENT_INTERNAL STATE_CHANGED 1 (StateData STATE_CONNECTING),
      BleEvent notify_handler_fn EVENT_INTERNAL ERROR_OCCURED 0 (Text msg),
      BleEvent notify_handler_fn EVENT_INTERNAL STATE_CHANGED 1 (StateData STATE_DISCONNECTED)] \<and>
    l_dev (lst w') = Some d \<and> conn_state d = STATE_DISCONNECTED \<and> d_iochannel d = None \<and> w_att w' = w_att w"
proof -
  let ?ev = "\<lambda>h l d. BleEvent notify_handler_fn EVENT_INTERNAL h l d"
  have q: "app_at N B H (vecs_policy C (vecs_initial x) k) (?ev h l d) v = Some v" if "d \<noteq> StateData STATE_CONNECTED" for k h l d v H
  proof -
    have "vecs_policy C (vecs_initial x) k (?ev h l d) v = []"
      using that by (auto simp: vecs_policy_def split: option.split event_data.split devstate.split)
    then show ?thesis by (cases N) simp_all
  qed
  note world = set_dev_def upd_ls_def upd_ts_def upd_gs_def the_dev_def lst_def upd_dev_def lble_newdev_def
  show ?thesis using assms q
    by (simp add: vecs_connect_start_def vecs_step_def world Let_def lble_set_event_handler_def lble_connect_def emit_state_def emit_def
      evh_def call_app_def gatt_connect_def vecs_initial_def quit_def STATE_CHANGED_def ERROR_OCCURED_def)
qed

definition unreachable :: ble_io where
  "unreachable = demo_io\<lparr>io_connect := \<lambda>_. (Some ''connect: No route to host (113)'', None)\<rparr>"

theorem failed_connect_waits_witness:
  "\<exists>s' w' d. vecs_connect_start 2 unreachable demo_env (motion_client demo_clock) ''00:11:22:33:44:55'' (vecs_initial (motion_initial None)) initial = Some (s', w') \<and>
    event_loop s' \<and> l_dev (lst w') = Some d \<and> conn_state d = STATE_DISCONNECTED \<and> d_iochannel d = None"
proof -
  have "io_connect unreachable ''00:11:22:33:44:55'' = (Some ''connect: No route to host (113)'', None)" by (simp add: unreachable_def)
  from failed_connect_waits [OF this, of 2 demo_env "motion_client demo_clock" "motion_initial None" initial] show ?thesis by blast
qed

end
