(* ===== verification/Spec2Isabelle.thy ===== *)
theory Spec2Isabelle
  imports Bytes QueueRefine UuidSpec AttPduSpec AlgSpec LoggingSpec BleSockets GattSafety UtilSpec DiscoverSpec VecsSpec
begin

text \<open>
  A verification development for \<^verbatim>\<open>libble\<close>, a Bluetooth Low Energy client library in C: the library
  itself (\<^verbatim>\<open>lib/libble.c\<close>) on top of an imported part of BlueZ (\<^verbatim>\<open>bluez/\<close>). All file names are
  relative to \<^verbatim>\<open>src/\<close>.

  \<^bold>\<open>The program.\<close> An application calls \<open>lble_connect\<close>, \<open>lble_request\<close>, \<open>lble_write\<close>, \<open>lble_listen\<close> and so on, and
  is called back with events. Below \<^verbatim>\<open>libble.c\<close>, the procedures of the GATT client
  (\<^verbatim>\<open>bluez/attrib/gatt.c\<close>) turn these calls into sequences of ATT requests, encoded and decoded by
  \<^verbatim>\<open>bluez/attrib/att.c\<close>; the \<open>GAttrib\<close> (\<^verbatim>\<open>bluez/attrib/gattrib.c\<close>) wraps the requests and handlers of its
  clients; the ATT bearer (\<^verbatim>\<open>bluez/src/shared/att.c\<close>) queues operations, writes them to the socket one request at
  a time, matches responses and calls handlers. Below these are the queues (\<^verbatim>\<open>queue.c\<close>), UUIDs (\<^verbatim>\<open>uuid.c\<close>),
  byte order (\<^verbatim>\<open>util.h\<close>), the signatures and key functions of \<^verbatim>\<open>crypto.c\<close>, the sockets of \<^verbatim>\<open>btio.c\<close>, and the log. Each layer
  calls the one below directly and is called by it through function pointers.

  \<^bold>\<open>The machine.\<close> Theory \<open>Prelude\<close>: C integers are words of their width, memory is a list of bytes with checked
  accesses, and a computation that would touch invalid memory is \<open>None\<close>; so \<open>f x = Some r\<close> says that a call is
  memory safe and returns \<open>r\<close>. Records that the code allocates live in heaps (maps from addresses that are never
  used twice); a freed record is not in its heap. A function pointer is a token; the function that runs the calls of
  a layer (\<open>gattrib_client\<close>, \<open>gatt_client\<close>, \<open>libble_client\<close>) says which code a token stands for, and a token that
  the layer did not hand out has no code.

  \<^bold>\<open>Parts, from the bottom.\<close>
  \<^item> \<open>Bytes\<close>: the accessors \<open>get_le16\<close>, \<open>put_be32\<close>, ... of \<^verbatim>\<open>util.h\<close> for both byte orders of the host; locale
    \<open>accessor\<close> is their contract.
  \<^item> \<open>Queue\<close>: \<^verbatim>\<open>queue.c\<close> on an explicit heap of entries; \<open>QueueSpec\<close> what a chain of entries represents,
    \<open>QueueRefine\<close> that each operation refines its list operation (locale \<open>queue_store\<close>).
  \<^item> \<open>Uuid\<close>, \<open>UuidSpec\<close>: \<^verbatim>\<open>uuid.c\<close>, with \<open>sscanf\<close> and \<open>snprintf\<close> written out.
  \<^item> \<open>Crypto\<close>, \<open>CryptoSpec\<close>: \<^verbatim>\<open>crypto.c\<close> over an arbitrary kernel that answers as AF_ALG documents (locale \<open>att_signing\<close>).
    \<open>AlgSockets\<close>, \<open>AlgSpec\<close>: the system calls below it; that no descriptor is lost, and that they give such a kernel.
  \<^item> \<open>AttPdu\<close>, \<open>AttPduValue\<close>: the encoders and decoders of \<^verbatim>\<open>attrib/att.c\<close>; \<open>AttPduSpec\<close>: the wire format of
    each PDU (\<open>wire\<close>), which the encoders refine; which PDUs the decoders invert.
  \<^item> \<open>AttCore\<close>, \<open>AttApi\<close>, \<open>AttRecv\<close>: the bearer. State: the \<open>bt_att\<close> with its queues and handlers, heaps of channels and
    operations, the timers, the calls made and the packets written (record \<open>world\<close>). \<open>AttStep\<close>: the events of the main
    loop, the calls of a client from inside its callbacks, and the reachable states. \<open>AttInv\<close>, \<open>AttClient\<close>,
    \<open>AttEvents\<close>, \<open>AttReach\<close>: the invariant (an operation is in one place, timers belong to operations that wait), proved for
    any client with the contract \<open>att_client\<close>; \<open>AttSpec\<close>: the properties. \<open>AttLink\<close>: what a bearer with one channel does
    with one request after the other, for an arbitrary client.
  \<^item> \<open>GAttrib\<close>: \<^verbatim>\<open>gattrib.c\<close>; its state (record \<open>gstate\<close>) is the client state of the bearer. \<open>GAttribSpec\<close>: its
    well-formedness (\<open>attrib_inv\<close>), and a request in \<open>flight\<close>.
  \<^item> \<open>Gatt\<close>, \<open>GattChar\<close>, \<open>GattValue\<close>: \<^verbatim>\<open>gatt.c\<close>; a procedure keeps its progress in a record of the heap \<open>ts_heap\<close> (record
    \<open>tstate\<close>). \<open>GattSpec\<close>: the steps of long reads and long writes; \<open>GattSafety\<close>: responses
    of a peer that make the client read outside of a buffer.
  \<^item> \<open>LibBle\<close>: \<^verbatim>\<open>libble.c\<close>, the device handle and the events that the application received (record \<open>lstate\<close>), and
    the whole program: \<open>run_sys\<close> runs one event of the main loop or one call of the application, with an application whose
    handler makes the calls that a policy chooses. \<open>LibRead\<close>, \<open>LibWrite\<close>, \<open>LibNotify\<close>, \<open>LibSession\<close>: reads,
    writes, notifications and connecting through all layers; \<open>LibBleSpec\<close>: the properties of the library.
  \<^item> \<open>AttAnswer\<close>, \<open>LibProcedure\<close>, \<open>LibDiscover\<close>: procedures that ask again and again. Locale \<open>procedure\<close> has what the records of
    the two discoveries share (one round of a request and its answer, through all layers), locale \<open>discovery\<close> extends it by
    the contract of a discovery in a table; \<open>LibChars\<close> and \<open>LibDescs\<close> interpret both for characteristics and for
    attributes, \<open>DiscoverSpec\<close> has the properties.
  \<^item> \<open>Vecs\<close>: the application in \<^verbatim>\<open>src/vecs.c\<close>, \<^verbatim>\<open>motion.c\<close> and \<^verbatim>\<open>info.c\<close>: its globals are the record \<open>vecs\<close>, and its handler is
    both a function on them and, as \<open>vecs_policy\<close>, the policy of the library below. \<open>VecsSpec\<close>: what it learns, reports and calls.
  \<^item> \<open>Sys\<close>: code that talks to the kernel and to GLib is a state monad over the trace of its calls; what a call
    returns is an arbitrary function of that trace (the \<open>env\<close>ironment). \<open>BtIo\<close>: \<^verbatim>\<open>btio.c\<close> in this style; \<open>BtIoSpec\<close>: which
    descriptors it keeps (a collection of rules \<open>adds\<close>), and when it reports errors. \<open>BleSockets\<close>: the library with the
    parameters \<open>bt_io_connect\<close> and \<open>bt_io_get\<close> of \<open>LibBle\<close> instantiated by \<open>BtIo\<close>.
  \<^item> \<open>Logging\<close>, \<open>LoggingSpec\<close>: the two \<^verbatim>\<open>log.c\<close>, in the style of \<open>Sys\<close>: the socket of the monitor and its one descriptor, the
    format of the records, and the switches of debug messages.
  \<^item> \<open>UtilTables\<close>, \<open>Util\<close>, \<open>UtilSpec\<close>: \<^verbatim>\<open>util.c\<close>, its tables of assigned names, hex dumps and helpers.

  \<^bold>\<open>What is shown.\<close> For the small components, functional correctness, round trips and bounds of every operation. For
  the bearer: for a client whose reactions leave the lists of handlers and the MTU alone (\<open>att_steady_client\<close>; for example
  one that only sends), in every reachable state every event runs without use after free. A call of the interface returns and
  keeps the state well formed for every client that only uses the interface, to any depth of calls from callbacks. But a handler
  that unregisters the handler after it makes the walk over the handlers use freed memory (\<open>unregister_next_handler_dangles\<close>),
  and a handler of libble that disconnects the device makes the bearer use the freed record of that handler. A response other
  than an Error Response ends a request exactly once, when the client makes no call. For the library: a device that connects is in a well-formed idle state (\<open>session\<close>); from there a read delivers exactly the value of the
  server and a write carries exactly the given value, through all layers down to the packets, both leading back to
  a \<open>session\<close> with all records released, notifications reach the application in order, and a discovery reports
  exactly the table of the server (handles below \<open>0xfffe\<close>), however that splits it. The application ends its discoveries with the handles of the
  device and reports the motion data that the device sends. For the sockets: no
  descriptor is lost and failures are reported, and connecting is followed through to the system calls. The theorems about
  errors show where the code falls short of what it means to do.

  \<^bold>\<open>Bounds.\<close> The recursion of callbacks is modelled by a depth: below it no call returns. Depth 2 is enough for the
  theorems about an application whose handler makes no call, and they hold for every greater depth. The theorems about the
  bearer hold at every depth. A long read is bounded by the 16-bit size of the code, a long write by the 8-bit length of
  \<open>lble_write\<close>. Timer and operation identifiers are 32-bit words that wrap around as in the code.

  \<^bold>\<open>Not modelled.\<close> \<open>gatt_parse_record\<close> of \<^verbatim>\<open>gatt.c\<close> (it walks SDP records with functions and types of the external
  libbluetooth), \<^verbatim>\<open>io-glib.c\<close> and \<^verbatim>\<open>timeout-glib.c\<close> (adapters to
  GLib, whose effect is in the events of the bearer), and failures of memory allocation. There is one bearer, one
  \<open>GAttrib\<close> and one device at a time.
\<close>

end
